(* ===== verification/Prelude.thy ===== *)
theory Prelude
  imports Main "HOL-Library.Word" "HOL-Library.Monad_Syntax"
begin

text \<open>
  What the components share: the machine types, the outcome of a Rust call
  (a value, an error value, or a panic), checked \<open>usize\<close> arithmetic, slice
  access with its bounds checks, and the circular view of a byte buffer.

  Conventions.  A Rust function that can only return or panic has a model of type
  \<open>'a option\<close>, where \<open>None\<close> is the panic; a function of type \<open>Result<T, E>\<close> has a
  model whose result is an \<open>('e, 'a) outcome\<close>.  \<open>usize\<close> values are \<open>nat\<close>, with the
  overflow checks of the development profile written out (\<open>uadd\<close>, \<open>usub\<close>).
\<close>

section \<open>Types and outcomes\<close>

type_synonym byte = "8 word"
type_synonym u16 = "16 word"
type_synonym u32 = "32 word"
type_synonym u64 = "64 word"

text \<open>The outcome of a call: \<open>Ok\<close>, \<open>Err\<close>, or a panic that unwinds out of it.\<close>

datatype ('e, 'a) outcome = Ok 'a | Err 'e | Panic

definition obind :: "('e, 'a) outcome \<Rightarrow> ('a \<Rightarrow> ('e, 'b) outcome) \<Rightarrow> ('e, 'b) outcome" where
  "obind m f = (case m of Ok a \<Rightarrow> f a | Err e \<Rightarrow> Err e | Panic \<Rightarrow> Panic)"

lemma obind_simps [simp]:
  "obind (Ok a) f = f a"
  "obind (Err e) f = Err e"
  "obind Panic f = Panic"
  by (simp_all add: obind_def)

lemma obind_eq_Ok [simp]: "obind m f = Ok b \<longleftrightarrow> (\<exists>a. m = Ok a \<and> f a = Ok b)"
  by (cases m) simp_all

lemma obind_eq_Panic: "obind m f = Panic \<longleftrightarrow> m = Panic \<or> (\<exists>a. m = Ok a \<and> f a = Panic)"
  by (cases m) simp_all

definition from_option :: "'a option \<Rightarrow> ('e, 'a) outcome" where
  "from_option x = (case x of None \<Rightarrow> Panic | Some a \<Rightarrow> Ok a)"

lemma from_option_simps [simp]:
  "from_option (Some a) = Ok a"
  "from_option None = Panic"
  by (simp_all add: from_option_def)

definition map_err :: "('e \<Rightarrow> 'f) \<Rightarrow> ('e, 'a) outcome \<Rightarrow> ('f, 'a) outcome" where
  "map_err f r = (case r of Ok a \<Rightarrow> Ok a | Err e \<Rightarrow> Err (f e) | Panic \<Rightarrow> Panic)"

named_theorems ring_eqs \<open>what each ring operation computes under the ring invariant\<close>
named_theorems pipe_eqs \<open>what each pipe operation computes, branch by branch\<close>
named_theorems inv_intros \<open>preservation of the component invariants\<close>

section \<open>Checked machine arithmetic\<close>

definition usize_limit :: nat where
  "usize_limit = 2 ^ 64"

definition checked_add :: "nat \<Rightarrow> nat \<Rightarrow> nat option" where
  "checked_add a b = (if a + b < usize_limit then Some (a + b) else None)"

text \<open>Plain \<open>+\<close> and \<open>-\<close> on \<open>usize\<close>: an overflow is a panic.\<close>

definition uadd :: "nat \<Rightarrow> nat \<Rightarrow> nat option" where
  "uadd a b = (if a + b < usize_limit then Some (a + b) else None)"

definition usub :: "nat \<Rightarrow> nat \<Rightarrow> nat option" where
  "usub a b = (if b \<le> a then Some (a - b) else None)"

definition urem :: "nat \<Rightarrow> nat \<Rightarrow> nat option" where
  "urem a b = (if b = 0 then None else Some (a mod b))"

definition debug_assert :: "bool \<Rightarrow> unit option" where
  "debug_assert b = (if b then Some () else None)"

text \<open>A cast to \<open>u32\<close> keeps the low 32 bits.\<close>

definition as_u32 :: "nat \<Rightarrow> nat" where
  "as_u32 n = n mod 2 ^ 32"

lemma as_u32_small [simp]: "n < 2 ^ 32 \<Longrightarrow> as_u32 n = n"
  by (simp add: as_u32_def)

lemma uadd_Some [simp]: "a + b < usize_limit \<Longrightarrow> uadd a b = Some (a + b)"
  by (simp add: uadd_def)

lemma checked_add_Some [simp]: "a + b < usize_limit \<Longrightarrow> checked_add a b = Some (a + b)"
  by (simp add: checked_add_def)

lemma usub_Some [simp]: "b \<le> a \<Longrightarrow> usub a b = Some (a - b)"
  by (simp add: usub_def)

lemma urem_Some [simp]: "0 < b \<Longrightarrow> urem a b = Some (a mod b)"
  by (simp add: urem_def)

lemma debug_assert_True [simp]: "b \<Longrightarrow> debug_assert b = Some ()"
  by (simp add: debug_assert_def)

section \<open>Alignment\<close>

text \<open>Clearing the low bits rounds down to a multiple of a power of two.\<close>

lemma align_down_unat:
  "unat (and x (not (2 ^ n - 1)) :: u64) = unat x - unat x mod 2 ^ n"
proof -
  have m: "(2 ^ n - 1 :: u64) = mask n" by (simp add: mask_eq_exp_minus_1)
  have "x - and x (mask n) = and x (not (and x (mask n)))"
    by (rule disjunctive_diff_eq_and_not) (simp add: bit_eq_iff bit_simps)
  also have "\<dots> = and x (not (mask n))" by (auto simp: bit_eq_iff bit_simps)
  finally have d: "and x (not (mask n)) = x - and x (mask n)" by simp
  have t: "and x (mask n) = take_bit n x" by (simp add: take_bit_eq_mask)
  have u: "unat (take_bit n x) = unat x mod 2 ^ n"
    by (subst unsigned_take_bit_eq) (simp add: take_bit_eq_mod)
  moreover have "take_bit n x \<le> x" using u by (simp add: word_le_nat_alt)
  ultimately show ?thesis unfolding m d t by (simp add: unat_sub)
qed

section \<open>Slices\<close>

text \<open>\<open>&xs[a..b]\<close>: panics unless \<open>a \<le> b \<le> xs.len()\<close>.\<close>

definition slice :: "'a list \<Rightarrow> nat \<Rightarrow> nat \<Rightarrow> 'a list option" where
  "slice xs a b = (if a \<le> b \<and> b \<le> length xs then Some (take (b - a) (drop a xs)) else None)"

text \<open>\<open>xs[a..b].copy_from_slice(src)\<close>: panics on a bad range and on a length mismatch.\<close>

definition copy_into :: "'a list \<Rightarrow> nat \<Rightarrow> nat \<Rightarrow> 'a list \<Rightarrow> 'a list option" where
  "copy_into xs a b src =
     (if a \<le> b \<and> b \<le> length xs \<and> length src = b - a
      then Some (take a xs @ src @ drop b xs) else None)"

lemma slice_Some [simp]:
  "a \<le> b \<Longrightarrow> b \<le> length xs \<Longrightarrow> slice xs a b = Some (take (b - a) (drop a xs))"
  by (simp add: slice_def)

lemma copy_into_Some [simp]:
  "a \<le> b \<Longrightarrow> b \<le> length xs \<Longrightarrow> length src = b - a \<Longrightarrow>
   copy_into xs a b src = Some (take a xs @ src @ drop b xs)"
  by (simp add: copy_into_def)

lemma slice_length: "slice xs a b = Some ys \<Longrightarrow> length ys = b - a"
  by (auto simp: slice_def split: if_splits)

text \<open>The two chunks of a wrapped transfer add up to the length that fits.\<close>

lemma second_chunk:
  "min (len - min len (min s d)) (s - min len (min s d)) = min len s - min (min len s) (d::nat)"
  by (simp add: min_def)

section \<open>Circular views of a buffer\<close>

text \<open>The \<open>n\<close> elements read from position \<open>off\<close> on, wrapping at the end of \<open>m\<close>.\<close>

definition circ :: "'a list \<Rightarrow> nat \<Rightarrow> nat \<Rightarrow> 'a list" where
  "circ m off n = map (\<lambda>i. m ! ((off + i) mod length m)) [0..<n]"

text \<open>The buffer after writing \<open>xs\<close> from position \<open>off\<close> on, wrapping likewise.\<close>

definition circ_upd :: "'a list \<Rightarrow> nat \<Rightarrow> 'a list \<Rightarrow> 'a list" where
  "circ_upd m off xs =
     map (\<lambda>j. let k = (j + length m - off mod length m) mod length m
              in if k < length xs then xs ! k else m ! j) [0..<length m]"

lemma length_circ [simp]: "length (circ m off n) = n"
  by (simp add: circ_def)

lemma length_circ_upd [simp]: "length (circ_upd m off xs) = length m"
  by (simp add: circ_upd_def)

lemma nth_circ [simp]: "i < n \<Longrightarrow> circ m off n ! i = m ! ((off + i) mod length m)"
  by (simp add: circ_def)

lemma circ_0 [simp]: "circ m off 0 = []"
  by (simp add: circ_def)

lemma circ_mod [simp]: "circ m (off mod length m) n = circ m off n"
  by (simp add: circ_def mod_add_left_eq)

lemma circ_cong_mod: "off mod length m = off' mod length m \<Longrightarrow> circ m off n = circ m off' n"
  by (metis circ_mod)

lemma circ_add: "circ m off (a + b) = circ m off a @ circ m (off + a) b"
  by (rule nth_equalityI) (auto simp: nth_append add.assoc)

lemma take_circ [simp]: "take k (circ m off n) = circ m off (min k n)"
  by (rule nth_equalityI) auto

lemma drop_circ [simp]: "drop k (circ m off n) = circ m (off + k) (n - k)"
  by (rule nth_equalityI) (auto simp: add.assoc)

lemma circ_linear: "off + n \<le> length m \<Longrightarrow> circ m off n = take n (drop off m)"
  by (rule nth_equalityI) (auto simp: min_def)

lemma circ_linear_wrap:
  "off + a = length m \<Longrightarrow> b \<le> length m \<Longrightarrow> circ m off (a + b) = drop off m @ take b m"
  by (rule nth_equalityI) (auto simp: nth_append mod_if add.commute)

lemma circ_upd_index:
  assumes "i < L" "0 < (L::nat)"
  shows "((off + i) mod L + L - off mod L) mod L = i"
proof -
  have o: "off mod L < L" using assms by simp
  have e: "(off + i) mod L = (off mod L + i) mod L" by (simp add: mod_add_left_eq)
  show ?thesis
  proof (cases "off mod L + i < L")
    case True
    then have "(off + i) mod L = off mod L + i" using e by simp
    then show ?thesis using assms by simp
  next
    case False
    then have "(off + i) mod L = off mod L + i - L"
      using e o assms by (simp add: le_mod_geq)
    then have "(off + i) mod L + L - off mod L = i" using False o by linarith
    then show ?thesis using assms by simp
  qed
qed

lemma nth_circ_upd:
  assumes "i < length m"
  shows "circ_upd m off xs ! ((off + i) mod length m) =
         (if i < length xs then xs ! i else m ! ((off + i) mod length m))"
proof -
  have "0 < length m" using assms by auto
  moreover have "(off + i) mod length m < length m" using calculation by simp
  ultimately show ?thesis
    using circ_upd_index [OF assms, of off] by (simp add: circ_upd_def Let_def)
qed

lemma circ_circ_upd_same:
  "length xs \<le> length m \<Longrightarrow> circ (circ_upd m off xs) off (length xs) = xs"
  by (rule nth_equalityI) (auto simp: nth_circ_upd)

text \<open>A write right behind a region leaves the region alone while both fit.\<close>

lemma circ_circ_upd_before:
  assumes "n + length xs \<le> length m"
  shows "circ (circ_upd m (off + n) xs) off n = circ m off n"
proof (rule nth_equalityI)
  fix i assume "i < length (circ (circ_upd m (off + n) xs) off n)"
  then have i: "i < n" by simp
  let ?L = "length m" and ?k = "length m - n + i"
  have k: "?k < ?L" "\<not> ?k < length xs" using i assms by auto
  have "off + n + ?k = off + i + ?L" using i assms by simp
  then have "(off + n + ?k) mod ?L = (off + i) mod ?L" by (metis mod_add_self2)
  then show "circ (circ_upd m (off + n) xs) off n ! i = circ m off n ! i"
    using nth_circ_upd [OF k(1), of "off + n" xs] k(2) i by simp
qed simp

lemma circ_upd_mod [simp]: "circ_upd m (off mod length m) xs = circ_upd m off xs"
  by (simp add: circ_upd_def)

lemma circ_upd_Nil [simp]: "circ_upd m off [] = m"
  by (rule nth_equalityI) (auto simp: circ_upd_def)

lemma circ_upd_linear:
  assumes "off + length xs \<le> length m"
  shows "circ_upd m off xs = take off m @ xs @ drop (off + length xs) m"
proof (rule nth_equalityI)
  show "length (circ_upd m off xs) = length (take off m @ xs @ drop (off + length xs) m)"
    using assms by simp
next
  fix j assume "j < length (circ_upd m off xs)"
  then have j: "j < length m" by simp
  then have L: "0 < length m" by linarith
  show "circ_upd m off xs ! j = (take off m @ xs @ drop (off + length xs) m) ! j"
  proof (cases "off = length m")
    case True
    then have "xs = []" using assms by simp
    then show ?thesis using True j by simp
  next
    case False
    then have off: "off < length m" using assms by simp
    show ?thesis
    proof (cases "j < off")
      case True
      then have "\<not> j + length m - off < length xs" using assms by simp
      then show ?thesis using True j off assms by (simp add: circ_upd_def nth_append)
    next
      case False
      then have "(j + length m - off) mod length m = j - off" using j
        by (metis Nat.add_diff_assoc2 le_add_diff_inverse less_imp_diff_less linorder_not_less
            mod_add_self2 mod_less)
      then show ?thesis using False j off assms
        by (auto simp: circ_upd_def nth_append)
    qed
  qed
qed

lemma circ_upd_wrap:
  assumes "off < length m" "off + a = length m" "length xs = a + b" "a + b \<le> length m"
  shows "circ_upd m off xs = drop a xs @ drop b (take off m) @ take a xs"
proof (rule nth_equalityI)
  show "length (circ_upd m off xs) = length (drop a xs @ drop b (take off m) @ take a xs)"
    using assms by simp
next
  fix j assume "j < length (circ_upd m off xs)"
  then have j: "j < length m" by simp
  show "circ_upd m off xs ! j = (drop a xs @ drop b (take off m) @ take a xs) ! j"
  proof (cases "j < off")
    case True
    then have "(j + length m - off) mod length m = j + a" using assms by simp
    then show ?thesis using True j assms by (auto simp: circ_upd_def nth_append add.commute)
  next
    case False
    have "j + length m - off = length m + (j - off)" "j - off < length m" using False j by simp_all
    then have "(j + length m - off) mod length m = j - off" by (metis mod_add_self1 mod_less)
    then show ?thesis using False j assms by (auto simp: circ_upd_def nth_append Let_def)
  qed
qed

end
