(* ===== verification/Fifo.thy ===== *)
theory Fifo
  imports Prelude
begin

text \<open>
  The interface of a first-in first-out channel, as the pipes and the ring buffer offer it: a
  producer puts some prefix of what it has, a consumer takes some prefix of what is there.  The
  client facts about whole histories are proved once here; the ring buffer and the data
  pipe interpret the locale on their own operations.
\<close>

datatype 'a fifo_op = Put "'a list" | Get nat

text \<open>
  A history: the operations in order, collecting what was accepted and what was delivered;
  \<open>None\<close> when an operation panics.
\<close>

fun fifo_run ::
  "('q \<Rightarrow> 'a list \<Rightarrow> (nat \<times> 'q) option) \<Rightarrow> ('q \<Rightarrow> nat \<Rightarrow> ('a list \<times> 'q) option) \<Rightarrow>
   'q \<Rightarrow> 'a fifo_op list \<Rightarrow> ('a list \<times> 'a list \<times> 'q) option" where
  "fifo_run put get q [] = Some ([], [], q)"
| "fifo_run put get q (Put xs # ops) = do {
     (k, q') \<leftarrow> put q xs;
     (acc, out, q'') \<leftarrow> fifo_run put get q' ops;
     Some (take k xs @ acc, out, q'') }"
| "fifo_run put get q (Get n # ops) = do {
     (ys, q') \<leftarrow> get q n;
     (acc, out, q'') \<leftarrow> fifo_run put get q' ops;
     Some (acc, ys @ out, q'') }"

locale fifo =
  fixes inv :: "'q \<Rightarrow> bool"
    and contents :: "'q \<Rightarrow> 'a list"
    and put :: "'q \<Rightarrow> 'a list \<Rightarrow> (nat \<times> 'q) option"
    and get :: "'q \<Rightarrow> nat \<Rightarrow> ('a list \<times> 'q) option"
  assumes put_law: "inv q \<Longrightarrow> \<exists>k q'. put q xs = Some (k, q') \<and> k \<le> length xs \<and> inv q' \<and>
                      contents q' = contents q @ take k xs"
    and get_law: "inv q \<Longrightarrow> \<exists>ys q'. get q n = Some (ys, q') \<and> length ys \<le> n \<and> inv q' \<and>
                      contents q = ys @ contents q'"
begin

lemma run_fifo:
  "inv q \<Longrightarrow> \<exists>acc out q'. fifo_run put get q ops = Some (acc, out, q') \<and> inv q' \<and>
     contents q @ acc = out @ contents q'"
proof (induction ops arbitrary: q)
  case Nil
  then show ?case by simp
next
  case (Cons opn ops)
  show ?case
  proof (cases opn)
    case (Put xs)
    obtain k q1 where p: "put q xs = Some (k, q1)" "inv q1" "contents q1 = contents q @ take k xs"
      using put_law [OF Cons.prems] by blast
    from Cons.IH [OF p(2)] Put p show ?thesis by fastforce
  next
    case (Get n)
    obtain ys q1 where g: "get q n = Some (ys, q1)" "inv q1" "contents q = ys @ contents q1"
      using get_law [OF Cons.prems] by blast
    from Cons.IH [OF g(2)] Get g show ?thesis by fastforce
  qed
qed

text \<open>From an empty channel, what was delivered is a prefix of what was accepted.\<close>

lemma run_prefix:
  assumes "inv q" "contents q = []" "fifo_run put get q ops = Some (acc, out, q')"
  shows "\<exists>rest. acc = out @ rest \<and> contents q' = rest"
  using run_fifo [OF assms(1), of ops] assms(2,3) by auto

lemma run_total: "inv q \<Longrightarrow> fifo_run put get q ops \<noteq> None"
  using run_fifo by fastforce

end

text \<open>A channel of bounded room: a put takes as much as fits, a get as much as there is.\<close>

locale bounded_fifo = fifo +
  fixes room :: "'a \<Rightarrow> nat"
  assumes put_room: "inv q \<Longrightarrow> put q xs = Some (k, q') \<Longrightarrow>
                       k = min (length xs) (room q) \<and> room q' = room q - k"
    and get_room: "inv q \<Longrightarrow> get q n = Some (ys, q') \<Longrightarrow>
                       length ys = min n (length (contents q)) \<and> room q' = room q + length ys"
begin

lemma step_total_room:
  assumes "inv q"
  shows "put q xs = Some (k, q') \<Longrightarrow> length (contents q') + room q' = length (contents q) + room q"
    and "get q n = Some (ys, q') \<Longrightarrow> length (contents q') + room q' = length (contents q) + room q"
  using put_law [OF assms, of xs] put_room [OF assms, of xs k q']
    get_law [OF assms, of n] get_room [OF assms, of n ys q']
  by auto

text \<open>Contents and room together stay what they were: nothing is lost or duplicated.\<close>

lemma run_total_room:
  "inv q \<Longrightarrow> fifo_run put get q ops = Some (acc, out, q') \<Longrightarrow>
   length (contents q') + room q' = length (contents q) + room q"
proof (induction ops arbitrary: q acc out)
  case Nil
  then show ?case by simp
next
  case (Cons opn ops)
  show ?case
  proof (cases opn)
    case (Put xs)
    obtain k q1 where p: "put q xs = Some (k, q1)" "inv q1"
      using put_law [OF Cons.prems(1)] by blast
    with Cons.prems Put obtain acc' out' where "fifo_run put get q1 ops = Some (acc', out', q')"
      by (auto simp: bind_eq_Some_conv)
    from Cons.IH [OF p(2) this] step_total_room(1) [OF Cons.prems(1) p(1)] show ?thesis by simp
  next
    case (Get n)
    obtain ys q1 where g: "get q n = Some (ys, q1)" "inv q1"
      using get_law [OF Cons.prems(1)] by blast
    with Cons.prems Get obtain acc' out' where "fifo_run put get q1 ops = Some (acc', out', q')"
      by (auto simp: bind_eq_Some_conv)
    from Cons.IH [OF g(2) this] step_total_room(2) [OF Cons.prems(1) g(1)] show ?thesis by simp
  qed
qed

end

end
