(* ===== verification/RingBuffer.thy ===== *)
theory RingBuffer
  imports Fifo
begin

text \<open>
  The circular byte buffer of \<open>crates/mojo-rs-core/src/ring_buffer.rs\<close>: one mapping and
  the range of it that holds data.  Every operation is translated with its slice bounds, its
  unsigned subtractions and its debug assertions, each of which is a branch to \<open>None\<close> (a
  panic).  The lemmas of \<open>ring_eqs\<close> show that under \<open>ring_inv\<close> no branch panics, and give each
  operation in closed form; \<open>ring_data\<close> reads the buffered bytes off the mapping, and the
  buffer is shown to be a bounded byte queue through the locale \<open>bounded_fifo\<close>.
\<close>

section \<open>State\<close>

record ring_range =
  r_offset :: nat
  r_size :: nat

definition range_empty :: ring_range where
  "range_empty = \<lparr>r_offset = 0, r_size = 0\<rparr>"

text \<open>The offset just past the range, wrapped into \<open>capacity\<close>.\<close>

definition range_end :: "ring_range \<Rightarrow> nat \<Rightarrow> nat option" where
  "range_end r capacity = do {
     e \<leftarrow> uadd (r_offset r) (r_size r);
     if e \<ge> capacity then usub e capacity else Some e }"

record ring =
  mapping :: "byte list"
  data_range :: ring_range

text \<open>A captured contiguous span: its start (relative to the mapping's address) and length.\<close>

record span =
  span_ptr :: nat
  span_len :: nat

definition span_is_empty :: "span \<Rightarrow> bool" where
  "span_is_empty s \<longleftrightarrow> span_len s = 0"

definition ring_new :: "byte list \<Rightarrow> ring" where
  "ring_new m = \<lparr>mapping = m, data_range = range_empty\<rparr>"

definition ring_capacity :: "ring \<Rightarrow> nat" where
  "ring_capacity r = length (mapping r)"

definition data_size :: "ring \<Rightarrow> nat" where
  "data_size r = r_size (data_range r)"

definition available_capacity :: "ring \<Rightarrow> nat option" where
  "available_capacity r = usub (ring_capacity r) (data_size r)"

section \<open>Chunks and range updates\<close>

definition complement_range :: "ring \<Rightarrow> ring_range \<Rightarrow> ring_range option" where
  "complement_range r rg = do {
     _ \<leftarrow> debug_assert (r_offset rg \<le> ring_capacity r);
     _ \<leftarrow> debug_assert (r_size rg \<le> ring_capacity r);
     e \<leftarrow> range_end rg (ring_capacity r);
     n \<leftarrow> usub (ring_capacity r) (r_size rg);
     Some \<lparr>r_offset = e, r_size = n\<rparr> }"

definition free_chunks :: "ring \<Rightarrow> nat \<Rightarrow> (nat \<times> nat) option" where
  "free_chunks r len = do {
     free \<leftarrow> complement_range r (data_range r);
     d \<leftarrow> usub (ring_capacity r) (r_offset free);
     let first = min len (min (r_size free) d);
     a \<leftarrow> usub len first;
     b \<leftarrow> usub (r_size free) first;
     Some (first, min a b) }"

definition data_chunks :: "ring \<Rightarrow> nat \<Rightarrow> (nat \<times> nat) option" where
  "data_chunks r len = do {
     d \<leftarrow> usub (ring_capacity r) (r_offset (data_range r));
     let first = min len (min (r_size (data_range r)) d);
     a \<leftarrow> usub len first;
     b \<leftarrow> usub (r_size (data_range r)) first;
     Some (first, min a b) }"

definition extend_data_range :: "ring \<Rightarrow> nat \<Rightarrow> (bool \<times> ring) option" where
  "extend_data_range r n = do {
     av \<leftarrow> available_capacity r;
     if n > av then Some (False, r)
     else do {
       s \<leftarrow> uadd (r_size (data_range r)) n;
       Some (True, r\<lparr>data_range := (data_range r)\<lparr>r_size := s\<rparr>\<rparr>) } }"

text \<open>\<open>discard_all\<close>: the \<open>checked_add\<close> failure returns false, the division by a zero capacity panics.\<close>

definition discard_all :: "ring \<Rightarrow> nat \<Rightarrow> (bool \<times> ring) option" where
  "discard_all r n =
     (if n > data_size r then Some (False, r)
      else case checked_add (r_offset (data_range r)) n of
             None \<Rightarrow> Some (False, r)
           | Some new_offset \<Rightarrow> do {
               o' \<leftarrow> urem new_offset (ring_capacity r);
               s' \<leftarrow> usub (data_size r) n;
               Some (True, r\<lparr>data_range := \<lparr>r_offset = o', r_size = s'\<rparr>\<rparr>) })"

section \<open>One-phase operations\<close>

definition ring_write :: "ring \<Rightarrow> byte list \<Rightarrow> (nat \<times> ring) option" where
  "ring_write r source = do {
     (first_len, second_len) \<leftarrow> free_chunks r (length source);
     written \<leftarrow> uadd first_len second_len;
     free_offset \<leftarrow> range_end (data_range r) (ring_capacity r);
     first_end \<leftarrow> uadd free_offset first_len;
     s1 \<leftarrow> slice source 0 first_len;
     m1 \<leftarrow> copy_into (mapping r) free_offset first_end s1;
     m2 \<leftarrow> (if second_len > 0 then do {
               e \<leftarrow> uadd first_len second_len;
               s2 \<leftarrow> slice source first_len e;
               copy_into m1 0 second_len s2 }
            else Some m1);
     (ok, r') \<leftarrow> extend_data_range (r\<lparr>mapping := m2\<rparr>) written;
     _ \<leftarrow> debug_assert ok;
     Some (written, r') }"

definition ring_write_all :: "ring \<Rightarrow> byte list \<Rightarrow> (bool \<times> ring) option" where
  "ring_write_all r source = do {
     av \<leftarrow> available_capacity r;
     if length source > av then Some (False, r)
     else do {
       (n, r') \<leftarrow> ring_write r source;
       _ \<leftarrow> debug_assert (n = length source);
       Some (True, r') } }"

text \<open>\<open>peek\<close> fills a prefix of the caller's buffer; the second component is that buffer afterwards.\<close>

definition ring_peek :: "ring \<Rightarrow> byte list \<Rightarrow> (nat \<times> byte list) option" where
  "ring_peek r target = do {
     (first_len, second_len) \<leftarrow> data_chunks r (length target);
     let off = r_offset (data_range r);
     e \<leftarrow> uadd off first_len;
     s1 \<leftarrow> slice (mapping r) off e;
     t1 \<leftarrow> copy_into target 0 first_len s1;
     t2 \<leftarrow> (if second_len > 0 then do {
               e2 \<leftarrow> uadd first_len second_len;
               s2 \<leftarrow> slice (mapping r) 0 second_len;
               copy_into t1 first_len e2 s2 }
            else Some t1);
     n \<leftarrow> uadd first_len second_len;
     Some (n, t2) }"

definition ring_peek_all :: "ring \<Rightarrow> byte list \<Rightarrow> (bool \<times> byte list) option" where
  "ring_peek_all r target =
     (if length target > data_size r then Some (False, target)
      else do {
        (n, t) \<leftarrow> ring_peek r target;
        _ \<leftarrow> debug_assert (n = length target);
        Some (True, t) })"

definition ring_read :: "ring \<Rightarrow> byte list \<Rightarrow> (nat \<times> byte list \<times> ring) option" where
  "ring_read r target = do {
     (n, t) \<leftarrow> ring_peek r target;
     (ok, r') \<leftarrow> discard_all r n;
     _ \<leftarrow> debug_assert ok;
     Some (n, t, r') }"

definition ring_read_all :: "ring \<Rightarrow> byte list \<Rightarrow> (bool \<times> byte list \<times> ring) option" where
  "ring_read_all r target =
     (if length target > data_size r then Some (False, target, r)
      else do {
        (n, t, r') \<leftarrow> ring_read r target;
        _ \<leftarrow> debug_assert (n = length target);
        Some (True, t, r') })"

definition ring_discard :: "ring \<Rightarrow> nat \<Rightarrow> (nat \<times> ring) option" where
  "ring_discard r n = do {
     let num_bytes = min n (data_size r);
     (ok, r') \<leftarrow> discard_all r num_bytes;
     _ \<leftarrow> debug_assert ok;
     Some (num_bytes, r') }"

section \<open>Two-phase operations\<close>

definition available_capacity_view :: "ring \<Rightarrow> span option" where
  "available_capacity_view r = do {
     free \<leftarrow> complement_range r (data_range r);
     d \<leftarrow> usub (ring_capacity r) (r_offset free);
     Some \<lparr>span_ptr = r_offset free, span_len = min (r_size free) d\<rparr> }"

definition readable_data_view :: "ring \<Rightarrow> span option" where
  "readable_data_view r = do {
     d \<leftarrow> usub (ring_capacity r) (r_offset (data_range r));
     Some \<lparr>span_ptr = r_offset (data_range r), span_len = min (r_size (data_range r)) d\<rparr> }"

text \<open>\<open>DirectWriter\<close> and \<open>DirectReader\<close> carry the captured span.\<close>

definition direct_writer_commit :: "span \<Rightarrow> nat \<Rightarrow> ring \<Rightarrow> (bool \<times> ring) option" where
  "direct_writer_commit w n r =
     (if n \<le> span_len w then extend_data_range r n else Some (False, r))"

definition direct_reader_consume :: "span \<Rightarrow> nat \<Rightarrow> ring \<Rightarrow> (bool \<times> ring) option" where
  "direct_reader_consume w n r =
     (if n \<le> span_len w then discard_all r n else Some (False, r))"

definition ring_begin_write :: "ring \<Rightarrow> span option" where
  "ring_begin_write r = available_capacity_view r"

definition ring_begin_read :: "ring \<Rightarrow> span option" where
  "ring_begin_read r = readable_data_view r"

text \<open>The bytes of a span, as \<open>Span::as_slice\<close> and \<open>Span::as_mut_slice\<close> expose them.\<close>

definition span_as_slice :: "byte list \<Rightarrow> span \<Rightarrow> byte list option" where
  "span_as_slice m s = slice m (span_ptr s) (span_ptr s + span_len s)"

definition span_store :: "byte list \<Rightarrow> span \<Rightarrow> byte list \<Rightarrow> byte list option" where
  "span_store m s xs =
     (if length xs \<le> span_len s
      then copy_into m (span_ptr s) (span_ptr s + length xs) xs else None)"

section \<open>Serialized state\<close>

record serialized_state =
  ser_offset :: nat
  ser_size :: nat

definition ring_serialize :: "ring \<Rightarrow> serialized_state" where
  "ring_serialize r =
     \<lparr>ser_offset = as_u32 (r_offset (data_range r)), ser_size = as_u32 (r_size (data_range r))\<rparr>"

definition ring_deserialize :: "ring \<Rightarrow> serialized_state \<Rightarrow> bool \<times> ring" where
  "ring_deserialize r st =
     (if ser_offset st \<ge> ring_capacity r \<or> ser_size st > ring_capacity r then (False, r)
      else (True, r\<lparr>data_range := \<lparr>r_offset = ser_offset st, r_size = ser_size st\<rparr>\<rparr>))"


section \<open>The invariant, and what the operations compute under it\<close>

text \<open>
  The offset is inside the buffer, the data fits, and the buffer is a mapping of fewer than
  \<open>2^63\<close> bytes (no larger object can be mapped), so that no sum of two of them overflows.
\<close>

definition ring_inv :: "ring \<Rightarrow> bool" where
  "ring_inv r \<longleftrightarrow> 0 < ring_capacity r \<and> ring_capacity r < 2 ^ 63 \<and>
     r_offset (data_range r) < ring_capacity r \<and> data_size r \<le> ring_capacity r"

text \<open>The buffered bytes, in reading order.\<close>

definition ring_data :: "ring \<Rightarrow> byte list" where
  "ring_data r = circ (mapping r) (r_offset (data_range r)) (data_size r)"

definition ring_room :: "ring \<Rightarrow> nat" where
  "ring_room r = ring_capacity r - data_size r"

lemma ring_invD:
  assumes "ring_inv r"
  shows "0 < length (mapping r)" "mapping r \<noteq> []" "length (mapping r) < 2 ^ 63"
    "r_offset (data_range r) < length (mapping r)"
    "r_size (data_range r) \<le> length (mapping r)"
  using assms by (auto simp: ring_inv_def ring_capacity_def data_size_def)

lemma length_ring_data [simp]: "length (ring_data r) = data_size r"
  by (simp add: ring_data_def)

lemma range_end_eq:
  "r_offset rg < c \<Longrightarrow> r_size rg \<le> c \<Longrightarrow> c < 2 ^ 63 \<Longrightarrow>
   range_end rg c = Some ((r_offset rg + r_size rg) mod c)"
  by (auto simp: range_end_def usize_limit_def le_mod_geq)

lemma available_capacity_eq [ring_eqs]:
  "ring_inv r \<Longrightarrow> available_capacity r = Some (ring_room r)"
  by (simp add: available_capacity_def ring_room_def ring_inv_def)

lemma complement_range_eq [ring_eqs]:
  assumes "ring_inv r"
  shows "complement_range r (data_range r) =
    Some \<lparr>r_offset = (r_offset (data_range r) + data_size r) mod ring_capacity r,
          r_size = ring_room r\<rparr>"
  using ring_invD [OF assms]
  by (simp add: complement_range_def range_end_eq ring_capacity_def data_size_def ring_room_def)

lemma free_chunks_eq:
  assumes "ring_inv r"
  defines "wo \<equiv> (r_offset (data_range r) + data_size r) mod ring_capacity r"
  shows "free_chunks r len =
    (let k = min len (ring_room r); f = min k (ring_capacity r - wo) in Some (f, k - f))"
proof -
  have "wo < ring_capacity r" using assms by (simp add: ring_inv_def)
  then show ?thesis
    using assms(1) by (simp add: free_chunks_def complement_range_eq wo_def Let_def second_chunk min.assoc)
qed

lemma data_chunks_eq:
  assumes "ring_inv r"
  shows "data_chunks r len =
    (let k = min len (data_size r);
         f = min k (ring_capacity r - r_offset (data_range r)) in Some (f, k - f))"
  using ring_invD [OF assms]
  by (simp add: data_chunks_def Let_def ring_capacity_def data_size_def second_chunk min.assoc)

lemma extend_data_range_eq [ring_eqs]:
  assumes "ring_inv r"
  shows "extend_data_range r n =
    Some (if n > ring_room r then (False, r)
          else (True, r\<lparr>data_range := (data_range r)\<lparr>r_size := data_size r + n\<rparr>\<rparr>))"
proof (cases "n > ring_room r")
  case True
  then show ?thesis using assms by (simp add: extend_data_range_def available_capacity_eq)
next
  case False
  then have "r_size (data_range r) + n < usize_limit"
    using ring_invD [OF assms]
    by (simp add: ring_room_def ring_capacity_def data_size_def usize_limit_def)
  then show ?thesis
    using assms False by (simp add: extend_data_range_def available_capacity_eq data_size_def)
qed

lemma discard_all_eq [ring_eqs]:
  assumes "ring_inv r"
  shows "discard_all r n =
    Some (if n > data_size r then (False, r)
          else (True, r\<lparr>data_range :=
                 \<lparr>r_offset = (r_offset (data_range r) + n) mod ring_capacity r,
                  r_size = data_size r - n\<rparr>\<rparr>))"
proof (cases "n > data_size r")
  case True
  then show ?thesis by (simp add: discard_all_def)
next
  case False
  then have "r_offset (data_range r) + n < usize_limit" "0 < ring_capacity r"
    using ring_invD [OF assms]
    by (simp_all add: ring_capacity_def data_size_def usize_limit_def)
  then show ?thesis using False by (simp add: discard_all_def)
qed


lemma ring_write_eq [ring_eqs]:
  assumes inv: "ring_inv r"
  defines "k \<equiv> \<lambda>src. min (length src) (ring_room r)"
  shows "ring_write r src =
    Some (k src, \<lparr>mapping = circ_upd (mapping r) (r_offset (data_range r) + data_size r)
                              (take (k src) src),
                  data_range = \<lparr>r_offset = r_offset (data_range r),
                                r_size = data_size r + k src\<rparr>\<rparr>)"
proof -
  let ?m = "mapping r" and ?L = "length (mapping r)"
  define wo where "wo = (r_offset (data_range r) + data_size r) mod ?L"
  define f where "f = min (k src) (?L - wo)"
  have cap: "ring_capacity r = ?L" by (simp add: ring_capacity_def)
  have L: "0 < ?L" "?L < 2 ^ 63" using ring_invD [OF inv] by simp_all
  have wo: "wo < ?L" using L by (simp add: wo_def)
  have k: "k src \<le> length src" "k src \<le> ring_room r" "k src \<le> ?L"
    by (simp_all add: k_def ring_room_def cap)
  have f: "f \<le> k src" "wo + f \<le> ?L" using wo by (simp_all add: f_def)
  have fc: "free_chunks r (length src) = Some (f, k src - f)"
    using free_chunks_eq [OF inv] by (simp add: f_def k_def wo_def cap Let_def)
  have re: "range_end (data_range r) (ring_capacity r) = Some wo"
    using ring_invD [OF inv] by (simp add: range_end_eq wo_def cap data_size_def)
  have u: "uadd f (k src - f) = Some (k src)" "uadd wo f = Some (wo + f)" "\<not> f < k src \<Longrightarrow> uadd f 0 = Some (k src)"
    using f k L by (simp_all add: uadd_def usize_limit_def)
  let ?m1 = "take wo ?m @ take f src @ drop (wo + f) ?m"
  have m1: "copy_into ?m wo (wo + f) (take f src) = Some ?m1"
    using f k by simp
  have cu: "circ_upd ?m wo xs = circ_upd ?m (r_offset (data_range r) + data_size r) xs" for xs
    by (simp add: wo_def)
  have one: "?m1 = circ_upd ?m wo (take (k src) src)" if "\<not> f < k src"
    using circ_upd_linear [of wo "take (k src) src" ?m] f k that by (simp add: min_def)
  have two: "slice src f (k src) = Some (take (k src - f) (drop f src))"
    "copy_into ?m1 0 (k src - f) (take (k src - f) (drop f src)) =
     Some (circ_upd ?m wo (take (k src) src))" if "f < k src"
  proof -
    have ff: "wo + f = ?L" using f wo that by (auto simp: f_def min_def split: if_splits)
    have "circ_upd ?m wo (take (k src) src) =
      drop f (take (k src) src) @ drop (k src - f) (take wo ?m) @ take f (take (k src) src)"
      by (rule circ_upd_wrap) (use ff that k wo in \<open>auto simp: min_def\<close>)
    moreover have "drop (k src - f) ?m1 = drop (k src - f) (take wo ?m) @ take f src"
      using ff that k wo by (simp add: drop_append)
    moreover have "copy_into ?m1 0 (k src - f) (take (k src - f) (drop f src)) =
        Some (take (k src - f) (drop f src) @ drop (k src - f) ?m1)"
      using ff that k f by simp
    ultimately show "copy_into ?m1 0 (k src - f) (take (k src - f) (drop f src)) =
     Some (circ_upd ?m wo (take (k src) src))"
      using ff that k f by (simp add: drop_take min_def del: drop_append)
    show "slice src f (k src) = Some (take (k src - f) (drop f src))" using f k by simp
  qed
  have inv': "ring_inv (r\<lparr>mapping := circ_upd ?m wo (take (k src) src)\<rparr>)"
    using inv by (simp add: ring_inv_def ring_capacity_def data_size_def)
  have ext: "extend_data_range (r\<lparr>mapping := circ_upd ?m wo (take (k src) src)\<rparr>) (k src) =
    Some (True, \<lparr>mapping = circ_upd ?m wo (take (k src) src),
                 data_range = \<lparr>r_offset = r_offset (data_range r), r_size = data_size r + k src\<rparr>\<rparr>)"
    using extend_data_range_eq [OF inv', of "k src"] k
    by (simp add: ring_room_def ring_capacity_def data_size_def)
  have s1: "slice src 0 f = Some (take f src)" using f k by simp
  show ?thesis
    unfolding ring_write_def fc re cu [symmetric]
    by (cases "f < k src") (simp_all add: u m1 s1 ext one two del: copy_into_Some slice_Some)
qed

lemma ring_write_all_eq [ring_eqs]:
  assumes "ring_inv r"
  shows "ring_write_all r src =
    (if length src > ring_room r then Some (False, r)
     else map_option (\<lambda>(n, r'). (True, r')) (ring_write r src))"
  using assms by (simp add: ring_write_all_def available_capacity_eq ring_write_eq)

lemma ring_peek_eq [ring_eqs]:
  assumes inv: "ring_inv r"
  shows "ring_peek r tgt =
    Some (min (length tgt) (data_size r),
          take (length tgt) (ring_data r) @ drop (data_size r) tgt)"
proof -
  let ?m = "mapping r" and ?L = "length (mapping r)" and ?o = "r_offset (data_range r)"
  define k where "k = min (length tgt) (data_size r)"
  define f where "f = min k (?L - ?o)"
  have cap: "ring_capacity r = ?L" by (simp add: ring_capacity_def)
  have L: "0 < ?L" "?L < 2 ^ 63" "?o < ?L" "data_size r \<le> ?L"
    using ring_invD [OF inv] by (simp_all add: data_size_def)
  have dc: "data_chunks r (length tgt) = Some (f, k - f)"
    using data_chunks_eq [OF inv] by (simp add: f_def k_def cap Let_def)
  have f: "f \<le> k" "?o + f \<le> ?L" "k \<le> length tgt" "k \<le> ?L"
    using L by (auto simp: f_def k_def min_def)
  have u: "uadd f (k - f) = Some k" "uadd ?o f = Some (?o + f)"
    using f L by (simp_all add: uadd_def usize_limit_def)
  let ?t1 = "take f (drop ?o ?m) @ drop f tgt"
  have t1: "copy_into tgt 0 f (take f (drop ?o ?m)) = Some ?t1" using f by simp
  have t2: "(if k - f > 0 then do {
               e2 \<leftarrow> uadd f (k - f);
               s2 \<leftarrow> slice ?m 0 (k - f);
               copy_into ?t1 f e2 s2 }
            else Some ?t1) = Some (circ ?m ?o k @ drop k tgt)"
  proof (cases "f = k")
    case True
    then show ?thesis using circ_linear [of ?o k ?m] f by simp
  next
    case False
    then have ff: "?o + f = ?L" "f < k" using f L by (auto simp: f_def min_def split: if_splits)
    have "circ ?m ?o (f + (k - f)) = drop ?o ?m @ take (k - f) ?m"
      by (rule circ_linear_wrap) (use ff f in auto)
    moreover have "length (drop ?o ?m) = f" using ff by simp
    ultimately show ?thesis using ff f u by (simp add: drop_drop)
  qed
  have "ring_peek r tgt = Some (k, circ ?m ?o k @ drop k tgt)"
    unfolding ring_peek_def dc using f u t1 t2 by (simp add: Let_def)
  moreover have "circ ?m ?o k = take (length tgt) (ring_data r)"
    by (simp add: ring_data_def k_def)
  moreover have "drop k tgt = drop (data_size r) tgt" by (simp add: k_def min_def)
  ultimately show ?thesis by (simp add: k_def)
qed

lemma ring_peek_all_eq [ring_eqs]:
  "ring_inv r \<Longrightarrow> ring_peek_all r tgt =
    Some (if length tgt > data_size r then (False, tgt) else (True, take (length tgt) (ring_data r)))"
  by (simp add: ring_peek_all_def ring_peek_eq)


lemma ring_read_eq [ring_eqs]:
  assumes "ring_inv r"
  shows "ring_read r tgt =
    (let k = min (length tgt) (data_size r) in
     Some (k, take (length tgt) (ring_data r) @ drop (data_size r) tgt,
           r\<lparr>data_range := \<lparr>r_offset = (r_offset (data_range r) + k) mod ring_capacity r,
                            r_size = data_size r - k\<rparr>\<rparr>))"
  using assms by (simp add: ring_read_def ring_peek_eq discard_all_eq Let_def)

lemma ring_read_all_eq [ring_eqs]:
  assumes "ring_inv r"
  shows "ring_read_all r tgt =
    Some (if length tgt > data_size r then (False, tgt, r)
          else (True, take (length tgt) (ring_data r),
                r\<lparr>data_range := \<lparr>r_offset = (r_offset (data_range r) + length tgt) mod ring_capacity r,
                                 r_size = data_size r - length tgt\<rparr>\<rparr>))"
  using assms by (simp add: ring_read_all_def ring_read_eq Let_def)

lemma ring_discard_eq [ring_eqs]:
  assumes "ring_inv r"
  shows "ring_discard r n =
    (let k = min n (data_size r) in
     Some (k, r\<lparr>data_range := \<lparr>r_offset = (r_offset (data_range r) + k) mod ring_capacity r,
                               r_size = data_size r - k\<rparr>\<rparr>))"
  using assms by (simp add: ring_discard_def discard_all_eq Let_def)

lemma ring_begin_write_eq [ring_eqs]:
  assumes "ring_inv r"
  shows "ring_begin_write r =
    (let wo = (r_offset (data_range r) + data_size r) mod ring_capacity r in
     Some \<lparr>span_ptr = wo, span_len = min (ring_room r) (ring_capacity r - wo)\<rparr>)"
proof -
  have "0 < ring_capacity r" using assms by (simp add: ring_inv_def)
  then show ?thesis
    using assms by (simp add: ring_begin_write_def available_capacity_view_def complement_range_eq Let_def)
qed

lemma ring_begin_read_eq [ring_eqs]:
  assumes "ring_inv r"
  shows "ring_begin_read r =
    Some \<lparr>span_ptr = r_offset (data_range r),
          span_len = min (data_size r) (ring_capacity r - r_offset (data_range r))\<rparr>"
  using ring_invD [OF assms]
  by (simp add: ring_begin_read_def readable_data_view_def data_size_def ring_capacity_def)

section \<open>The queue the operations implement\<close>

lemma ring_new_inv:
  "0 < length m \<Longrightarrow> length m < 2 ^ 63 \<Longrightarrow> ring_inv (ring_new m) \<and> ring_data (ring_new m) = []"
  by (simp add: ring_inv_def ring_new_def range_empty_def ring_capacity_def data_size_def ring_data_def)

text \<open>A write appends what fits and leaves the buffered bytes alone.\<close>

lemma ring_write_queue:
  assumes inv: "ring_inv r" and w: "ring_write r src = Some (k, r')"
  shows "ring_inv r'" "k = min (length src) (ring_room r)"
    "ring_data r' = ring_data r @ take k src" "ring_room r' = ring_room r - k"
    "ring_capacity r' = ring_capacity r"
proof -
  let ?m = "mapping r" and ?o = "r_offset (data_range r)" and ?s = "data_size r"
  have k: "k = min (length src) (ring_room r)"
    and r': "r' = \<lparr>mapping = circ_upd ?m (?o + ?s) (take k src),
                  data_range = \<lparr>r_offset = ?o, r_size = ?s + k\<rparr>\<rparr>"
    using w by (auto simp: ring_write_eq [OF inv])
  have fits: "?s + length (take k src) \<le> length ?m" "k \<le> length src"
    using ring_invD [OF inv] by (auto simp: k ring_room_def ring_capacity_def data_size_def)
  show "k = min (length src) (ring_room r)" by (rule k)
  show "ring_inv r'"
    using ring_invD [OF inv] fits by (simp add: r' ring_inv_def ring_capacity_def data_size_def)
  have "ring_data r' = circ (circ_upd ?m (?o + ?s) (take k src)) ?o (?s + k)"
    by (simp add: r' ring_data_def data_size_def)
  also have "\<dots> = circ ?m ?o ?s @ take k src"
    using circ_circ_upd_before [OF fits(1), of ?o]
      circ_circ_upd_same [of "take k src" ?m "?o + ?s"] fits
    by (simp add: circ_add)
  finally show "ring_data r' = ring_data r @ take k src" by (simp add: ring_data_def)
  show "ring_room r' = ring_room r - k" "ring_capacity r' = ring_capacity r"
    by (simp_all add: r' ring_room_def ring_capacity_def data_size_def)
qed

text \<open>Discarding drops a prefix.\<close>

lemma ring_discard_queue:
  assumes inv: "ring_inv r" and n: "n \<le> data_size r"
  defines "r' \<equiv> r\<lparr>data_range := \<lparr>r_offset = (r_offset (data_range r) + n) mod ring_capacity r,
                                  r_size = data_size r - n\<rparr>\<rparr>"
  shows "ring_inv r'" "ring_data r' = drop n (ring_data r)" "ring_room r' = ring_room r + n"
    "ring_capacity r' = ring_capacity r"
proof -
  have "0 < ring_capacity r" using inv by (simp add: ring_inv_def)
  then show "ring_inv r'"
    using inv n by (auto simp: r'_def ring_inv_def ring_capacity_def data_size_def)
  show "ring_data r' = drop n (ring_data r)"
    by (simp add: r'_def ring_data_def data_size_def ring_capacity_def)
  show "ring_room r' = ring_room r + n" "ring_capacity r' = ring_capacity r"
    using inv n by (simp_all add: r'_def ring_room_def ring_inv_def ring_capacity_def data_size_def)
qed

lemma ring_read_queue:
  assumes inv: "ring_inv r" and rd: "ring_read r tgt = Some (n, t, r')"
  shows "ring_inv r'" "n = min (length tgt) (data_size r)"
    "take n t = take n (ring_data r)" "drop n t = drop n tgt" "length t = length tgt"
    "ring_data r' = drop n (ring_data r)" "ring_room r' = ring_room r + n"
proof -
  have n: "n = min (length tgt) (data_size r)"
    and t: "t = take (length tgt) (ring_data r) @ drop (data_size r) tgt"
    and r': "r' = r\<lparr>data_range := \<lparr>r_offset = (r_offset (data_range r) + n) mod ring_capacity r,
                                    r_size = data_size r - n\<rparr>\<rparr>"
    using rd by (auto simp: ring_read_eq [OF inv] Let_def)
  show "n = min (length tgt) (data_size r)" by (rule n)
  show "take n t = take n (ring_data r)" "drop n t = drop n tgt" "length t = length tgt"
    by (auto simp: t n min_def)
  show "ring_inv r'" "ring_data r' = drop n (ring_data r)" "ring_room r' = ring_room r + n"
    unfolding r' by (rule ring_discard_queue [OF inv], simp add: n)+
qed

text \<open>The queue view of a read: deliver the bytes that were copied out.\<close>

definition ring_get :: "ring \<Rightarrow> nat \<Rightarrow> (byte list \<times> ring) option" where
  "ring_get r n = do { (k, t, r') \<leftarrow> ring_read r (replicate n 0); Some (take k t, r') }"

lemma ring_get_eq:
  assumes "ring_inv r"
  shows "\<exists>r'. ring_get r n = Some (take n (ring_data r), r') \<and> ring_inv r' \<and>
     ring_data r' = drop n (ring_data r) \<and> ring_room r' = ring_room r + min n (data_size r)"
proof -
  obtain k t r' where rd: "ring_read r (replicate n 0) = Some (k, t, r')"
    using assms by (auto simp: ring_read_eq Let_def)
  note q = ring_read_queue [OF assms rd]
  have "take k (ring_data r) = take n (ring_data r)" "drop k (ring_data r) = drop n (ring_data r)"
    using q(2) by (auto simp: min_def)
  then show ?thesis using rd q by (auto simp: ring_get_def)
qed

interpretation ring_fifo: bounded_fifo ring_inv ring_data ring_write ring_get ring_room
proof unfold_locales
  fix r and xs :: "byte list" assume inv: "ring_inv r"
  obtain k r' where w: "ring_write r xs = Some (k, r')" using ring_write_eq [OF inv] by blast
  from ring_write_queue [OF inv w] w
  show "\<exists>k q'. ring_write r xs = Some (k, q') \<and> k \<le> length xs \<and> ring_inv q' \<and>
      ring_data q' = ring_data r @ take k xs" by auto
next
  fix r n assume "ring_inv r"
  then show "\<exists>ys q'. ring_get r n = Some (ys, q') \<and> length ys \<le> n \<and> ring_inv q' \<and>
      ring_data r = ys @ ring_data q'"
    using ring_get_eq [of r n] by auto
next
  fix r xs k r' assume "ring_inv r" "ring_write r xs = Some (k, r')"
  then show "k = min (length xs) (ring_room r) \<and> ring_room r' = ring_room r - k"
    using ring_write_queue by blast
next
  fix r n ys r' assume "ring_inv r" "ring_get r n = Some (ys, r')"
  then show "length ys = min n (length (ring_data r)) \<and> ring_room r' = ring_room r + length ys"
    using ring_get_eq [of r n] by auto
qed


section \<open>Two-phase writes and reads\<close>

lemma ring_invI_mapping:
  "ring_inv r \<Longrightarrow> length m = length (mapping r) \<Longrightarrow> ring_inv (r\<lparr>mapping := m\<rparr>)"
  by (simp add: ring_inv_def ring_capacity_def data_size_def)

text \<open>Bytes stored through the captured span are the bytes a circular write would store.\<close>

lemma span_store_eq:
  assumes inv: "ring_inv r" and bw: "ring_begin_write r = Some w" and xs: "length xs \<le> span_len w"
  shows "span_store (mapping r) w xs =
     Some (circ_upd (mapping r) (r_offset (data_range r) + data_size r) xs)"
    "length xs \<le> ring_room r"
proof -
  define wo where "wo = (r_offset (data_range r) + data_size r) mod ring_capacity r"
  have w: "span_ptr w = wo" "span_len w = min (ring_room r) (ring_capacity r - wo)"
    using bw ring_begin_write_eq [OF inv] by (auto simp: Let_def wo_def)
  have "wo < ring_capacity r" using inv by (simp add: ring_inv_def wo_def)
  then have fits: "wo + length xs \<le> length (mapping r)" using xs w by (auto simp: ring_capacity_def)
  then have "span_store (mapping r) w xs = Some (circ_upd (mapping r) wo xs)"
    using xs w by (simp add: span_store_def circ_upd_linear)
  then show "span_store (mapping r) w xs =
     Some (circ_upd (mapping r) (r_offset (data_range r) + data_size r) xs)"
    by (simp add: ring_capacity_def wo_def)
  show "length xs \<le> ring_room r" using xs w by simp
qed

lemma span_read_eq:
  assumes inv: "ring_inv r" and br: "ring_begin_read r = Some w"
  shows "span_as_slice (mapping r) w = Some (take (span_len w) (ring_data r))"
    "span_len w \<le> data_size r"
proof -
  have w: "span_ptr w = r_offset (data_range r)"
    "span_len w = min (data_size r) (ring_capacity r - r_offset (data_range r))"
    using br ring_begin_read_eq [OF inv] by auto
  have fits: "span_ptr w + span_len w \<le> length (mapping r)"
    using ring_invD [OF inv] w by (simp add: ring_capacity_def)
  have "take (span_len w) (ring_data r) = circ (mapping r) (span_ptr w) (span_len w)"
    using w by (simp add: ring_data_def)
  then show "span_as_slice (mapping r) w = Some (take (span_len w) (ring_data r))"
    using fits by (simp add: span_as_slice_def circ_linear)
  show "span_len w \<le> data_size r" using w by simp
qed

section \<open>Properties\<close>

text \<open>C2: Over any sequence of writes and reads on a fresh ring buffer no operation panics, the bytes
  delivered followed by the bytes still buffered are exactly the bytes the writes reported as
  written, and the buffered bytes and the free space always add up to the capacity.\<close>

theorem ring_history_fifo:
  assumes "0 < length m" "length m < 2 ^ 63"
  shows "\<exists>written delivered r.
    fifo_run ring_write ring_get (ring_new m) ops = Some (written, delivered, r) \<and>
    written = delivered @ ring_data r \<and> length (ring_data r) + ring_room r = length m"
proof -
  have inv: "ring_inv (ring_new m)" "ring_data (ring_new m) = []"
    using ring_new_inv [of m] assms by auto
  obtain w d r where run: "fifo_run ring_write ring_get (ring_new m) ops = Some (w, d, r)"
    "ring_data (ring_new m) @ w = d @ ring_data r"
    using ring_fifo.run_fifo [OF inv(1)] by blast
  moreover have "length (ring_data r) + ring_room r = length m"
    using ring_fifo.run_total_room [OF inv(1) run(1)]
    by (simp add: ring_new_def ring_room_def ring_capacity_def data_size_def range_empty_def)
  ultimately show ?thesis using inv(2) by auto
qed

theorem ring_history_fifo_witness:
  "\<exists>written delivered r.
    fifo_run ring_write ring_get (ring_new [0, 0, 0]) [Put [1, 2], Get 1, Put [3, 4, 5]] =
      Some (written, delivered, r) \<and>
    written = delivered @ ring_data r \<and> length (ring_data r) + ring_room r = length [0, 0, 0 :: byte]"
  by (rule ring_history_fifo) simp_all

text \<open>A two-phase write: the span handed out lies in the free part of the buffer, so storing
  bytes through it leaves the buffered data untouched, and committing the first \<open>n\<close> of them
  appends exactly those \<open>n\<close> bytes; committing more than the span holds is refused.\<close>

theorem ring_two_phase_write:
  assumes inv: "ring_inv r" and bw: "ring_begin_write r = Some w"
    and xs: "length xs \<le> span_len w" and n: "n \<le> length xs"
  shows "\<exists>m r'. span_store (mapping r) w xs = Some m \<and>
    ring_data (r\<lparr>mapping := m\<rparr>) = ring_data r \<and>
    direct_writer_commit w n (r\<lparr>mapping := m\<rparr>) = Some (True, r') \<and>
    ring_inv r' \<and> ring_data r' = ring_data r @ take n xs \<and>
    (\<forall>big. big > span_len w \<longrightarrow> direct_writer_commit w big r = Some (False, r))"
proof -
  let ?o = "r_offset (data_range r)" and ?s = "data_size r"
  let ?m = "circ_upd (mapping r) (?o + ?s) xs" and ?r = "r\<lparr>mapping := circ_upd (mapping r) (?o + ?s) xs\<rparr>"
  note st = span_store_eq [OF inv bw xs]
  have inv1: "ring_inv ?r" by (rule ring_invI_mapping [OF inv]) simp
  have fits: "?s + length xs \<le> length (mapping r)"
    using st(2) ring_invD [OF inv] by (simp add: ring_room_def ring_capacity_def data_size_def)
  have keep: "circ ?m ?o ?s = circ (mapping r) ?o ?s" by (rule circ_circ_upd_before [OF fits])
  have room: "n \<le> ring_room ?r" "n \<le> span_len w"
    using st(2) n xs by (simp_all add: ring_room_def ring_capacity_def data_size_def)
  let ?r' = "?r\<lparr>data_range := (data_range ?r)\<lparr>r_size := data_size ?r + n\<rparr>\<rparr>"
  have commit: "direct_writer_commit w n ?r = Some (True, ?r')"
    using room by (simp add: direct_writer_commit_def extend_data_range_eq [OF inv1])
  have "circ ?m (?o + ?s) n = take n (circ ?m (?o + ?s) (length xs))" using n by simp
  also have "\<dots> = take n xs" using circ_circ_upd_same [of xs "mapping r"] fits by simp
  finally have "ring_data ?r' = ring_data r @ take n xs"
    using keep by (simp add: ring_data_def data_size_def circ_add)
  moreover have "ring_inv ?r'"
    using inv fits n by (simp add: ring_inv_def ring_capacity_def data_size_def)
  ultimately show ?thesis
    using st(1) keep commit by (auto simp: ring_data_def data_size_def direct_writer_commit_def)
qed

theorem ring_two_phase_write_witness:
  "\<exists>r w m r'. ring_inv r \<and> ring_begin_write r = Some w \<and> span_store (mapping r) w [7, 8] = Some m \<and>
     direct_writer_commit w 1 (r\<lparr>mapping := m\<rparr>) = Some (True, r') \<and> ring_data r' = [5, 6, 7]"
proof -
  let ?r = "\<lparr>mapping = [6, 0, 0, 5], data_range = \<lparr>r_offset = 3, r_size = 2\<rparr>\<rparr> :: ring"
  have r: "ring_inv ?r" "ring_begin_write ?r = Some \<lparr>span_ptr = 1, span_len = 2\<rparr>"
    "ring_data ?r = [5, 6]"
    by (simp_all add: ring_inv_def ring_capacity_def data_size_def ring_begin_write_def
        available_capacity_view_def complement_range_def range_end_def usize_limit_def
        ring_data_def circ_def upt_rec)
  have "\<exists>m r'. span_store (mapping ?r) \<lparr>span_ptr = 1, span_len = 2\<rparr> [7, 8] = Some m \<and>
    ring_data (?r\<lparr>mapping := m\<rparr>) = ring_data ?r \<and>
    direct_writer_commit \<lparr>span_ptr = 1, span_len = 2\<rparr> 1 (?r\<lparr>mapping := m\<rparr>) = Some (True, r') \<and>
    ring_inv r' \<and> ring_data r' = ring_data ?r @ take 1 [7, 8] \<and>
    (\<forall>big. big > span_len \<lparr>span_ptr = 1, span_len = 2\<rparr> \<longrightarrow>
       direct_writer_commit \<lparr>span_ptr = 1, span_len = 2\<rparr> big ?r = Some (False, ?r))"
    by (rule ring_two_phase_write [OF r(1,2)]) simp_all
  then obtain m r' where "span_store (mapping ?r) \<lparr>span_ptr = 1, span_len = 2\<rparr> [7, 8] = Some m"
    "direct_writer_commit \<lparr>span_ptr = 1, span_len = 2\<rparr> 1 (?r\<lparr>mapping := m\<rparr>) = Some (True, r')"
    "ring_data r' = ring_data ?r @ take 1 [7, 8]" by blast
  then show ?thesis using r by (intro exI [of _ ?r] exI conjI) (assumption | simp)+
qed

text \<open>Serialising a ring's range and restoring it on a peer that maps the same pages gives back
  the same range, hence the same data, for every buffer of at most \<open>2^32\<close> bytes; and whatever the
  serialised state is, \<open>deserialize\<close> leaves a ring that satisfies the invariant.\<close>

theorem ring_serialize_roundtrip:
  assumes inv: "ring_inv r" and small: "ring_capacity r < 2 ^ 32" and peer: "ring_inv p"
    and same: "mapping p = mapping r"
  shows "ring_deserialize p (ring_serialize r) = (True, p\<lparr>data_range := data_range r\<rparr>) \<and>
    ring_data (snd (ring_deserialize p (ring_serialize r))) = ring_data r \<and>
    ring_inv (snd (ring_deserialize p st))"
  using ring_invD [OF inv] ring_invD [OF peer] small same
  by (auto simp: ring_deserialize_def ring_serialize_def ring_capacity_def data_size_def
      ring_data_def ring_inv_def)

theorem ring_serialize_roundtrip_witness:
  "\<exists>r p. ring_data (snd (ring_deserialize p (ring_serialize r))) = [2, 3 :: byte]"
proof -
  let ?r = "\<lparr>mapping = [3, 0, 2], data_range = \<lparr>r_offset = 2, r_size = 2\<rparr>\<rparr> :: ring"
  have r: "ring_inv ?r" "ring_capacity ?r < 2 ^ 32" "ring_inv (ring_new [3, 0, 2])"
    "mapping (ring_new [3, 0, 2]) = mapping ?r"
    by (simp_all add: ring_inv_def ring_capacity_def data_size_def ring_new_def range_empty_def)
  have "ring_data ?r = [2, 3]" by (simp add: ring_data_def data_size_def circ_def upt_rec)
  with ring_serialize_roundtrip [OF r] show ?thesis by metis
qed

end
