(* ===== verification/CoreTypes.thy ===== *)
theory CoreTypes
  imports Prelude
begin

unbundle bit_operations_syntax

text \<open>
  The vocabulary of \<open>crates/mojo-rs-core\<close>: the error taxonomy (\<open>error.rs\<close>), the signal sets
  and signal states (\<open>signal.rs\<close>), the dispatcher kinds (\<open>dispatcher.rs\<close>) and the watch
  registrations with their callbacks (\<open>pipe.rs\<close>, \<open>trap.rs\<close>).
\<close>

section \<open>Errors\<close>

text \<open>\<open>CoreError::Ok\<close> is written \<open>OkCode\<close>, to keep \<open>Ok\<close> for the outcome type.\<close>

datatype core_error =
    OkCode | Cancelled | Unknown | InvalidArgument | DeadlineExceeded | NotFound | AlreadyExists
  | PermissionDenied | ResourceExhausted | FailedPrecondition | Aborted | OutOfRange
  | Unimplemented | Internal | Unavailable | DataLoss | Busy | ShouldWait

type_synonym 'a core_result = "(core_error, 'a) outcome"

fun error_name :: "core_error \<Rightarrow> string" where
  "error_name OkCode = ''MOJO_RESULT_OK''"
| "error_name Cancelled = ''MOJO_RESULT_CANCELLED''"
| "error_name Unknown = ''MOJO_RESULT_UNKNOWN''"
| "error_name InvalidArgument = ''MOJO_RESULT_INVALID_ARGUMENT''"
| "error_name DeadlineExceeded = ''MOJO_RESULT_DEADLINE_EXCEEDED''"
| "error_name NotFound = ''MOJO_RESULT_NOT_FOUND''"
| "error_name AlreadyExists = ''MOJO_RESULT_ALREADY_EXISTS''"
| "error_name PermissionDenied = ''MOJO_RESULT_PERMISSION_DENIED''"
| "error_name ResourceExhausted = ''MOJO_RESULT_RESOURCE_EXHAUSTED''"
| "error_name FailedPrecondition = ''MOJO_RESULT_FAILED_PRECONDITION''"
| "error_name Aborted = ''MOJO_RESULT_ABORTED''"
| "error_name OutOfRange = ''MOJO_RESULT_OUT_OF_RANGE''"
| "error_name Unimplemented = ''MOJO_RESULT_UNIMPLEMENTED''"
| "error_name Internal = ''MOJO_RESULT_INTERNAL''"
| "error_name Unavailable = ''MOJO_RESULT_UNAVAILABLE''"
| "error_name DataLoss = ''MOJO_RESULT_DATA_LOSS''"
| "error_name Busy = ''MOJO_RESULT_BUSY''"
| "error_name ShouldWait = ''MOJO_RESULT_SHOULD_WAIT''"

fun error_code :: "core_error \<Rightarrow> u32" where
  "error_code OkCode = 0"
| "error_code Cancelled = 1"
| "error_code Unknown = 2"
| "error_code InvalidArgument = 3"
| "error_code DeadlineExceeded = 4"
| "error_code NotFound = 5"
| "error_code AlreadyExists = 6"
| "error_code PermissionDenied = 7"
| "error_code ResourceExhausted = 8"
| "error_code FailedPrecondition = 9"
| "error_code Aborted = 10"
| "error_code OutOfRange = 11"
| "error_code Unimplemented = 12"
| "error_code Internal = 13"
| "error_code Unavailable = 14"
| "error_code DataLoss = 15"
| "error_code Busy = 16"
| "error_code ShouldWait = 17"

section \<open>Signals\<close>

text \<open>\<open>struct Signals(u32)\<close>: the raw bitmask.\<close>

type_synonym signals = u32

definition NONE :: signals where "NONE = 0"
definition READABLE :: signals where "READABLE = push_bit 0 1"
definition WRITABLE :: signals where "WRITABLE = push_bit 1 1"
definition PEER_CLOSED :: signals where "PEER_CLOSED = push_bit 2 1"
definition NEW_DATA_READABLE :: signals where "NEW_DATA_READABLE = push_bit 3 1"
definition PEER_REMOTE :: signals where "PEER_REMOTE = push_bit 4 1"
definition QUOTA_EXCEEDED :: signals where "QUOTA_EXCEEDED = push_bit 5 1"
definition ALL_SIGNALS :: signals where "ALL_SIGNALS = push_bit 6 1 - 1"

lemmas signal_consts = NONE_def READABLE_def WRITABLE_def PEER_CLOSED_def NEW_DATA_READABLE_def
  PEER_REMOTE_def QUOTA_EXCEEDED_def ALL_SIGNALS_def

definition from_bits :: "u32 \<Rightarrow> signals" where
  "from_bits b = b AND ALL_SIGNALS"

definition contains :: "signals \<Rightarrow> signals \<Rightarrow> bool" where
  "contains s other \<longleftrightarrow> s AND other = other"

definition signals_is_empty :: "signals \<Rightarrow> bool" where
  "signals_is_empty s \<longleftrightarrow> s = 0"

record signals_state =
  satisfied :: signals
  satisfiable :: signals

definition signals_default :: signals_state where
  "signals_default = \<lparr>satisfied = NONE, satisfiable = NONE\<rparr>"

text \<open>\<open>watch_result\<close>: \<open>Ok(())\<close>, or the error set.\<close>

definition watch_result :: "signals_state \<Rightarrow> signals \<Rightarrow> signals + unit" where
  "watch_result st watch =
     (if contains (satisfied st) watch then Inr ()
      else if \<not> contains (satisfiable st) watch then Inl (satisfiable st)
      else Inl NONE)"

definition is_satisfied :: "signals_state \<Rightarrow> signals \<Rightarrow> bool" where
  "is_satisfied st trigger \<longleftrightarrow> contains (satisfied st) trigger"

definition is_unsatisfiable :: "signals_state \<Rightarrow> signals \<Rightarrow> bool" where
  "is_unsatisfiable st trigger \<longleftrightarrow>
     \<not> contains (satisfied st) trigger \<and> \<not> contains (satisfiable st) trigger"

section \<open>Dispatcher kinds\<close>

datatype dispatcher_type =
    MessagePipeT | DataPipeProducerT | DataPipeConsumerT | SharedBufferT | TrapT | InvitationT
  | PlatformHandleT | WatcherT

fun dispatcher_type_name :: "dispatcher_type \<Rightarrow> string" where
  "dispatcher_type_name MessagePipeT = ''MOJO_HANDLE_TYPE_MESSAGE_PIPE''"
| "dispatcher_type_name DataPipeProducerT = ''MOJO_HANDLE_TYPE_DATA_PIPE_PRODUCER''"
| "dispatcher_type_name DataPipeConsumerT = ''MOJO_HANDLE_TYPE_DATA_PIPE_CONSUMER''"
| "dispatcher_type_name SharedBufferT = ''MOJO_HANDLE_TYPE_SHARED_BUFFER''"
| "dispatcher_type_name TrapT = ''MOJO_HANDLE_TYPE_TRAP''"
| "dispatcher_type_name InvitationT = ''MOJO_HANDLE_TYPE_INVITATION''"
| "dispatcher_type_name PlatformHandleT = ''MOJO_HANDLE_TYPE_PLATFORM_HANDLE''"
| "dispatcher_type_name WatcherT = ''MOJO_HANDLE_TYPE_WATCHER''"

section \<open>Watches\<close>

text \<open>\<open>struct WatchId(u64)\<close>; \<open>WatchKind\<close> of \<open>trap.rs\<close>.\<close>

type_synonym watch_id = u64

datatype watch_kind = KChanged | KCancelled

text \<open>A registered watch.  The callback is opaque: a value of the type parameter.\<close>

record 'cb watcher =
  w_id :: watch_id
  w_signals :: signals
  w_callback :: 'cb
  w_cancelled :: bool

text \<open>One callback invocation, made after the lock is released.\<close>

record 'cb notification =
  n_id :: watch_id
  n_callback :: 'cb
  n_state :: signals_state
  n_kind :: watch_kind

section \<open>Facts about signal sets\<close>

lemma contains_iff_bits: "contains a b \<longleftrightarrow> (\<forall>n. bit b n \<longrightarrow> bit a n)"
proof -
  have "a AND b = b \<longleftrightarrow> (\<forall>n. possible_bit TYPE(u32) n \<longrightarrow> (bit a n \<and> bit b n) = bit b n)"
    by (simp only: bit_eq_iff bit_and_iff)
  then show ?thesis unfolding contains_def using bit_imp_possible_bit [of b] by blast
qed

lemma contains_refl [simp]: "contains a a"
  by (simp add: contains_def)

lemma contains_0 [simp]: "contains a 0"
  by (simp add: contains_def)

lemma contains_NONE [simp]: "contains a NONE"
  by (simp add: NONE_def)

lemma contains_trans: "contains a b \<Longrightarrow> contains b c \<Longrightarrow> contains a c"
  by (auto simp: contains_iff_bits)

lemma contains_OR [simp]: "contains a (b OR c) \<longleftrightarrow> contains a b \<and> contains a c"
  by (auto simp: contains_iff_bits bit_simps)

lemma contains_OR_left: "contains a c \<Longrightarrow> contains (a OR b) c"
  by (auto simp: contains_iff_bits bit_simps)

lemma contains_OR_right: "contains b c \<Longrightarrow> contains (a OR b) c"
  by (auto simp: contains_iff_bits bit_simps)

lemma contains_empty_iff: "contains 0 c \<longleftrightarrow> c = 0"
  by (auto simp: contains_def)

lemma satisfied_not_unsatisfiable: "is_satisfied st t \<Longrightarrow> \<not> is_unsatisfiable st t"
  by (simp add: is_satisfied_def is_unsatisfiable_def)

text \<open>The three verdicts of \<open>watch_result\<close> are the ones the two predicates name.\<close>

lemma watch_result_cases:
  "watch_result st w =
     (if is_satisfied st w then Inr ()
      else if is_unsatisfiable st w then Inl (satisfiable st) else Inl NONE)"
  by (simp add: watch_result_def is_satisfied_def is_unsatisfiable_def)

lemma error_code_inject: "error_code a = error_code b \<Longrightarrow> a = b"
  by (cases a; cases b) simp_all

lemma error_code_bound: "error_code e \<le> 17"
  by (cases e) simp_all

end
