(* ===== verification/HandleTable.thy ===== *)
theory HandleTable
  imports CoreTypes
begin

text \<open>
  The handle table of \<open>crates/mojo-rs-core/src/handle.rs\<close>: slots with persistent generation
  counters, a LIFO free list, and handle values that pack a slot index (20 bits) with the low
  bits of the generation.  Dispatchers are opaque (the type parameter); \<open>is_duplicable\<close> is
  passed to the operation that asks it.  The table's mutex is held for each operation, and no
  operation panics while holding it (\<open>table_inv\<close>), so a poisoned lock cannot arise here.
\<close>

section \<open>Handle values\<close>

definition SLOT_BITS :: nat where "SLOT_BITS = 20"
definition MAX_SLOTS :: nat where "MAX_SLOTS = 2 ^ SLOT_BITS"
definition SLOT_MASK :: u32 where "SLOT_MASK = push_bit SLOT_BITS 1 - 1"
definition GENERATION_SHIFT :: nat where "GENERATION_SHIFT = SLOT_BITS"

lemmas slot_consts = SLOT_BITS_def MAX_SLOTS_def SLOT_MASK_def GENERATION_SHIFT_def

record handle =
  h_value :: u32
  h_slot :: u32

definition is_invalid_value :: "u32 \<Rightarrow> bool" where
  "is_invalid_value v \<longleftrightarrow> v = 0"

definition is_valid_value :: "u32 \<Rightarrow> bool" where
  "is_valid_value v \<longleftrightarrow> v \<noteq> 0"

text \<open>Pack (slot, generation): the shift drops the generation's bits above the twelfth.\<close>

definition encode :: "u32 \<Rightarrow> u32 \<Rightarrow> u32" where
  "encode slot generation = push_bit GENERATION_SHIFT generation OR (slot AND SLOT_MASK)"

section \<open>The table\<close>

record 'd entry =
  e_dispatcher :: 'd
  e_generation :: u32

record 'd table =
  entries :: "'d entry option list"
  generations :: "u32 list"
  free :: "u32 list"

definition table_new :: "'d table" where
  "table_new = \<lparr>entries = [], generations = [], free = []\<rparr>"

definition live_count :: "'d table \<Rightarrow> nat" where
  "live_count t = length (filter (\<lambda>e. e \<noteq> None) (entries t))"

definition next_generation :: "u32 \<Rightarrow> u32" where
  "next_generation g = (if g + 1 = 0 then 1 else g + 1)"

definition bump_generation :: "'d table \<Rightarrow> u32 \<Rightarrow> 'd table option" where
  "bump_generation t slot =
     (if unat slot < length (generations t)
      then Some (t\<lparr>generations :=
             (generations t)[unat slot := next_generation (generations t ! unat slot)]\<rparr>)
      else None)"

definition generation_of :: "'d table \<Rightarrow> u32 \<Rightarrow> u32 option" where
  "generation_of t slot =
     (if unat slot < length (generations t) then Some (generations t ! unat slot) else None)"

definition allocate :: "'d table \<Rightarrow> (u32 \<times> u32) core_result \<times> 'd table" where
  "allocate t =
     (if free t \<noteq> [] then
        let slot = last (free t); t1 = t\<lparr>free := butlast (free t)\<rparr>
        in case bump_generation t1 slot of
             None \<Rightarrow> (Panic, t1)
           | Some t2 \<Rightarrow> (obind (from_option (generation_of t2 slot)) (\<lambda>g. Ok (slot, g)), t2)
      else if length (entries t) \<ge> MAX_SLOTS then (Err ResourceExhausted, t)
      else
        let slot = of_nat (length (entries t));
            t1 = t\<lparr>entries := entries t @ [None], generations := generations t @ [0]\<rparr>
        in case bump_generation t1 slot of
             None \<Rightarrow> (Panic, t1)
           | Some t2 \<Rightarrow> (obind (from_option (generation_of t2 slot)) (\<lambda>g. Ok (slot, g)), t2))"

text \<open>\<open>inner.entries[slot] = Some(...)\<close>, and the handle for it.\<close>

definition install :: "'d table \<Rightarrow> u32 \<Rightarrow> u32 \<Rightarrow> 'd \<Rightarrow> handle core_result \<times> 'd table" where
  "install t slot g d =
     (if unat slot < length (entries t)
      then (Ok \<lparr>h_value = encode slot g, h_slot = slot\<rparr>,
            t\<lparr>entries := (entries t)[unat slot := Some \<lparr>e_dispatcher = d, e_generation = g\<rparr>]\<rparr>)
      else (Panic, t))"

definition add :: "'d table \<Rightarrow> 'd \<Rightarrow> handle core_result \<times> 'd table" where
  "add t d =
     (case allocate t of
        (Ok (slot, g), t1) \<Rightarrow> install t1 slot g d
      | (Err e, t1) \<Rightarrow> (Err e, t1)
      | (Panic, t1) \<Rightarrow> (Panic, t1))"

text \<open>\<open>entries.get(slot).and_then(|e| e.as_ref())\<close>.\<close>

definition entry_at :: "'d table \<Rightarrow> u32 \<Rightarrow> 'd entry option" where
  "entry_at t slot = (if unat slot < length (entries t) then entries t ! unat slot else None)"

definition get :: "'d table \<Rightarrow> u32 \<Rightarrow> 'd core_result" where
  "get t v =
     (if v = 0 then Err InvalidArgument
      else case entry_at t (v AND SLOT_MASK) of
             None \<Rightarrow> Err InvalidArgument
           | Some e \<Rightarrow> if e_generation e \<noteq> drop_bit GENERATION_SHIFT v then Err InvalidArgument
                       else Ok (e_dispatcher e))"

text \<open>Also returns the dispatcher whose \<open>on_closed\<close> is called, after the lock is released.\<close>

definition close_slot :: "'d table \<Rightarrow> u32 \<Rightarrow> u32 \<Rightarrow> 'd table \<times> 'd option" where
  "close_slot t slot v =
     (case entry_at t slot of
        None \<Rightarrow> (t, None)
      | Some e \<Rightarrow>
          if e_generation e = drop_bit GENERATION_SHIFT v
          then (t\<lparr>entries := (entries t)[unat slot := None], free := free t @ [slot]\<rparr>,
                Some (e_dispatcher e))
          else (t, None))"

text \<open>\<open>Drop for Handle\<close>, on a table that is still alive.\<close>

definition drop_handle :: "'d table \<Rightarrow> handle \<Rightarrow> 'd table \<times> 'd option" where
  "drop_handle t h = close_slot t (h_slot h) (h_value h)"

definition duplicate :: "('d \<Rightarrow> bool) \<Rightarrow> 'd table \<Rightarrow> handle \<Rightarrow> handle core_result \<times> 'd table" where
  "duplicate is_duplicable t h =
     (case get t (h_value h) of
        Ok d \<Rightarrow>
          if \<not> is_duplicable d then (Err InvalidArgument, t)
          else (case allocate t of
                  (Ok (slot, g), t1) \<Rightarrow> install t1 slot g d
                | (Err e, t1) \<Rightarrow> (Err e, t1)
                | (Panic, t1) \<Rightarrow> (Panic, t1))
      | Err e \<Rightarrow> (Err e, t)
      | Panic \<Rightarrow> (Panic, t))"

section \<open>Histories\<close>

datatype 'd table_op = AddOp 'd | DropOp handle | DupOp handle

fun table_step :: "('d \<Rightarrow> bool) \<Rightarrow> 'd table \<Rightarrow> 'd table_op \<Rightarrow> 'd table" where
  "table_step isd t (AddOp d) = snd (add t d)"
| "table_step isd t (DropOp h) = fst (drop_handle t h)"
| "table_step isd t (DupOp h) = snd (duplicate isd t h)"

definition table_run :: "('d \<Rightarrow> bool) \<Rightarrow> 'd table \<Rightarrow> 'd table_op list \<Rightarrow> 'd table" where
  "table_run isd = foldl (table_step isd)"

section \<open>Bits of a handle value\<close>

lemma SLOT_MASK_eq: "SLOT_MASK = mask 20"
  by (simp add: SLOT_MASK_def SLOT_BITS_def mask_eq_exp_minus_1)

lemma bit_encode: "bit (encode s g) n \<longleftrightarrow> n < 32 \<and> (20 \<le> n \<and> bit g (n - 20) \<or> bit s n \<and> n < 20)"
  by (auto simp: encode_def GENERATION_SHIFT_def SLOT_BITS_def SLOT_MASK_eq bit_simps)

lemma take_bit_word_self: "take_bit n (w::u32) = w \<longleftrightarrow> unat w < 2 ^ n"
proof -
  have "take_bit n w = w \<longleftrightarrow> take_bit n (unat w) = unat w"
    by (simp add: word_unat_eq_iff unsigned_take_bit_eq)
  then show ?thesis by (simp add: take_bit_nat_eq_self_iff)
qed

lemma slot_small_bits: "unat (s::u32) < MAX_SLOTS \<Longrightarrow> s AND SLOT_MASK = s"
  by (simp add: SLOT_MASK_eq slot_consts take_bit_word_self flip: take_bit_eq_mask)

lemma slot_bit_small:
  assumes "unat (s::u32) < MAX_SLOTS" "bit s n"
  shows "n < 20"
proof -
  have "bit (s AND SLOT_MASK) n" using assms by (simp add: slot_small_bits)
  then show ?thesis by (auto simp: SLOT_MASK_eq bit_simps)
qed

lemma encode_slot: "unat s < MAX_SLOTS \<Longrightarrow> encode s g AND SLOT_MASK = s"
  by (rule bit_word_eqI) (auto simp: bit_and_iff bit_encode SLOT_MASK_eq bit_mask_iff dest: slot_bit_small)

lemma encode_generation: "drop_bit GENERATION_SHIFT (encode s g) = take_bit 12 g"
  by (rule bit_word_eqI) (auto simp: bit_simps bit_encode GENERATION_SHIFT_def SLOT_BITS_def)

lemma take_bit_12_eq: "take_bit 12 (g::u32) = g \<longleftrightarrow> unat g < 4096"
  by (simp add: take_bit_word_self)

lemma encode_eq_0: "unat s < MAX_SLOTS \<Longrightarrow> encode s g = 0 \<longleftrightarrow> s = 0 \<and> take_bit 12 g = 0"
proof
  assume s: "unat s < MAX_SLOTS" and e: "encode s g = 0"
  have "s = encode s g AND SLOT_MASK" using encode_slot [OF s] by simp
  moreover have "take_bit 12 g = drop_bit GENERATION_SHIFT (encode s g)"
    by (simp add: encode_generation)
  ultimately show "s = 0 \<and> take_bit 12 g = 0" using e by simp
next
  assume z: "s = 0 \<and> take_bit 12 g = 0"
  show "encode s g = 0"
  proof (rule bit_word_eqI)
    fix n assume "n < LENGTH(32)"
    then have "bit (take_bit 12 g) (n - 20) \<longleftrightarrow> bit g (n - 20)" if "20 \<le> n"
      using that by (auto simp: bit_take_bit_iff)
    then show "bit (encode s g) n = bit 0 n" using z by (auto simp: bit_encode)
  qed
qed

section \<open>The invariant\<close>

text \<open>
  Generations and entries are parallel and within the slot limit; the free list holds each
  empty slot exactly once; a live entry carries its slot's current generation, never 0.
\<close>

definition table_inv :: "'d table \<Rightarrow> bool" where
  "table_inv t \<longleftrightarrow>
     length (generations t) = length (entries t) \<and> length (entries t) \<le> MAX_SLOTS \<and>
     distinct (free t) \<and>
     (\<forall>s. s \<in> set (free t) \<longleftrightarrow> unat s < length (entries t) \<and> entries t ! unat s = None) \<and>
     (\<forall>i < length (entries t). \<forall>e. entries t ! i = Some e \<longrightarrow> e_generation e = generations t ! i) \<and>
     (\<forall>i < length (entries t). generations t ! i \<noteq> 0)"

lemma table_invD:
  assumes "table_inv t"
  shows "length (generations t) = length (entries t)" "length (entries t) \<le> MAX_SLOTS"
    "distinct (free t)"
    "s \<in> set (free t) \<longleftrightarrow> unat s < length (entries t) \<and> entries t ! unat s = None"
    "i < length (entries t) \<Longrightarrow> entries t ! i = Some e \<Longrightarrow> e_generation e = generations t ! i"
    "i < length (entries t) \<Longrightarrow> generations t ! i \<noteq> 0"
  using assms unfolding table_inv_def by blast+

lemma table_new_inv: "table_inv table_new"
  by (simp add: table_inv_def table_new_def)

lemma next_generation_nonzero: "next_generation g \<noteq> 0"
  by (simp add: next_generation_def)

text \<open>
  What \<open>allocate\<close> followed by the write of the entry does: it takes the last free slot, or a
  new one, and gives it its next generation.
\<close>

definition pick_slot :: "'d table \<Rightarrow> u32" where
  "pick_slot t = (if free t \<noteq> [] then last (free t) else of_nat (length (entries t)))"

definition pick_generation :: "'d table \<Rightarrow> u32" where
  "pick_generation t =
     next_generation (if free t \<noteq> [] then generations t ! unat (last (free t)) else 0)"

definition add_installed :: "'d table \<Rightarrow> 'd \<Rightarrow> 'd table" where
  "add_installed t d =
     (let s = unat (pick_slot t); g = pick_generation t;
          en = Some \<lparr>e_dispatcher = d, e_generation = g\<rparr>
      in if free t \<noteq> []
         then \<lparr>entries = (entries t)[s := en], generations = (generations t)[s := g],
               free = butlast (free t)\<rparr>
         else \<lparr>entries = entries t @ [en], generations = generations t @ [g], free = []\<rparr>)"

lemma unat_of_nat_slot: "n \<le> MAX_SLOTS \<Longrightarrow> unat (of_nat n :: u32) = n"
  by (simp add: unat_of_nat slot_consts)

lemma last_free_slot:
  assumes "table_inv t" "free t \<noteq> []"
  shows "unat (last (free t)) < length (entries t)" "entries t ! unat (last (free t)) = None"
  using table_invD(4) [OF assms(1), of "last (free t)"] assms(2) by simp_all

lemma add_eq:
  assumes inv: "table_inv t"
  shows "add t d =
    (if free t = [] \<and> length (entries t) \<ge> MAX_SLOTS then (Err ResourceExhausted, t)
     else (Ok \<lparr>h_value = encode (pick_slot t) (pick_generation t), h_slot = pick_slot t\<rparr>,
           add_installed t d))"
proof (cases "free t = []")
  case True
  show ?thesis
  proof (cases "length (entries t) \<ge> MAX_SLOTS")
    case True
    with \<open>free t = []\<close> show ?thesis by (simp add: add_def allocate_def)
  next
    case False
    then have u: "unat (of_nat (length (entries t)) :: u32) = length (entries t)"
      by (simp add: unat_of_nat_slot)
    have "length (generations t) = length (entries t)" using inv by (rule table_invD)
    with \<open>free t = []\<close> False u show ?thesis
      by (cases t) (simp add: list_update_append add_def allocate_def bump_generation_def generation_of_def install_def
          pick_slot_def pick_generation_def add_installed_def Let_def nth_append)
  qed
next
  case False
  have "length (generations t) = length (entries t)" using inv by (rule table_invD)
  with False last_free_slot(1) [OF inv False] show ?thesis
    by (cases t) (simp add: add_def allocate_def bump_generation_def generation_of_def install_def
        pick_slot_def pick_generation_def add_installed_def Let_def)
qed


lemma pick_slot_facts:
  assumes inv: "table_inv t" and room: "\<not> (free t = [] \<and> length (entries t) \<ge> MAX_SLOTS)"
  shows "unat (pick_slot t) < MAX_SLOTS"
    and "unat (pick_slot t) < length (entries (add_installed t d))"
    and "entries (add_installed t d) ! unat (pick_slot t) =
           Some \<lparr>e_dispatcher = d, e_generation = pick_generation t\<rparr>"
    and "generations (add_installed t d) ! unat (pick_slot t) = pick_generation t"
proof -
  have len: "length (generations t) = length (entries t)" "length (entries t) \<le> MAX_SLOTS"
    using table_invD(1,2) [OF inv] .
  show "unat (pick_slot t) < MAX_SLOTS"
    using len room last_free_slot(1) [OF inv] by (auto simp: pick_slot_def unat_of_nat_slot)
  show "unat (pick_slot t) < length (entries (add_installed t d))"
    "entries (add_installed t d) ! unat (pick_slot t) =
       Some \<lparr>e_dispatcher = d, e_generation = pick_generation t\<rparr>"
    "generations (add_installed t d) ! unat (pick_slot t) = pick_generation t"
    using len room last_free_slot(1) [OF inv]
    by (auto simp: pick_slot_def add_installed_def Let_def unat_of_nat_slot nth_append)
qed

lemma add_installed_inv:
  assumes inv: "table_inv t" and room: "\<not> (free t = [] \<and> length (entries t) \<ge> MAX_SLOTS)"
  shows "table_inv (add_installed t d)"
proof (cases "free t = []")
  case True
  have full: "entries t ! i \<noteq> None" if "i < length (entries t)" for i
    using table_invD(4) [OF inv, of "of_nat i"] table_invD(2) [OF inv] True that
    by (auto simp: unat_of_nat_slot)
  have gen: "e_generation e = generations t ! i"
    if "i < length (entries t)" "entries t ! i = Some e" for i e
    using table_invD(5) [OF inv] that by blast
  have nz: "generations t ! i \<noteq> 0" if "i < length (entries t)" for i
    using table_invD(6) [OF inv] that by blast
  let ?en = "Some \<lparr>e_dispatcher = d, e_generation = pick_generation t\<rparr>"
  have t': "add_installed t d = \<lparr>entries = entries t @ [?en],
      generations = generations t @ [pick_generation t], free = []\<rparr>"
    using True by (simp add: add_installed_def Let_def)
  have len: "length (generations t) = length (entries t)" by (rule table_invD [OF inv])
  have live: "(entries t @ [?en]) ! i \<noteq> None" if "i < Suc (length (entries t))" for i
    using full that by (cases "i = length (entries t)") (auto simp: nth_append)
  have gens: "e_generation e = (generations t @ [pick_generation t]) ! i"
    if "i < Suc (length (entries t))" "(entries t @ [?en]) ! i = Some e" for i e
    using gen that len by (cases "i = length (entries t)") (auto simp: nth_append)
  have nonz: "(generations t @ [pick_generation t]) ! i \<noteq> 0" if "i < Suc (length (entries t))" for i
    using nz that len next_generation_nonzero
    by (cases "i = length (entries t)") (auto simp: nth_append pick_generation_def)
  show ?thesis
    unfolding table_inv_def t'
  proof (intro conjI allI impI)
    show "length (entries \<lparr>entries = entries t @ [?en],
      generations = generations t @ [pick_generation t], free = []\<rparr>) \<le> MAX_SLOTS"
      using True room by simp
  next
    fix s :: u32
    have "(entries t @ [?en]) ! unat s \<noteq> None" if "unat s < Suc (length (entries t))"
      by (rule live [OF that])
    then show "(s \<in> set (free \<lparr>entries = entries t @ [?en],
        generations = generations t @ [pick_generation t], free = []\<rparr>)) =
      (unat s < length (entries \<lparr>entries = entries t @ [?en],
        generations = generations t @ [pick_generation t], free = []\<rparr>) \<and>
       entries \<lparr>entries = entries t @ [?en],
        generations = generations t @ [pick_generation t], free = []\<rparr> ! unat s = None)"
      unfolding table.simps length_append_singleton list.set by blast
  qed (use len gens nonz in auto)
next
  case False
  define s where "s = last (free t)"
  have fr: "free t = butlast (free t) @ [s]" using False by (simp add: s_def)
  have dist: "distinct (butlast (free t))" "s \<notin> set (butlast (free t))"
    using table_invD(3) [OF inv] by (subst (asm) fr; simp)+
  have set: "set (free t) = insert s (set (butlast (free t)))" by (subst fr) auto
  have mem: "x \<in> set (butlast (free t)) \<longleftrightarrow>
      unat x < length (entries t) \<and> x \<noteq> s \<and> entries t ! unat x = None" for x
  proof -
    have "x \<in> set (butlast (free t)) \<longleftrightarrow> x \<in> set (free t) \<and> x \<noteq> s" using set dist(2) by blast
    then show ?thesis using table_invD(4) [OF inv, of x] by blast
  qed
  have eq: "unat s = unat x \<longleftrightarrow> s = x" for x :: u32 by (simp add: word_unat_eq_iff)
  let ?en = "Some \<lparr>e_dispatcher = d, e_generation = pick_generation t\<rparr>"
  have t': "add_installed t d = \<lparr>entries = (entries t)[unat s := ?en],
      generations = (generations t)[unat s := pick_generation t], free = butlast (free t)\<rparr>"
    using False by (simp add: add_installed_def Let_def pick_slot_def s_def)
  have s: "unat s < length (entries t)" using last_free_slot(1) [OF inv False] by (simp add: s_def)
  have "pick_generation t \<noteq> 0" by (simp add: pick_generation_def next_generation_nonzero)
  then show ?thesis
    unfolding table_inv_def t' table.simps
    using s table_invD(1,2,5,6) [OF inv] dist mem
    by (auto simp: nth_list_update eq)
qed

lemma close_slot_inv:
  assumes inv: "table_inv t"
  shows "table_inv (fst (close_slot t s v))"
proof (cases "entry_at t s")
  case None
  then show ?thesis using inv by (simp add: close_slot_def)
next
  case (Some e)
  then have s: "unat s < length (entries t)" "entries t ! unat s = Some e"
    by (auto simp: entry_at_def split: if_splits)
  then have nin: "s \<notin> set (free t)" using table_invD(4) [OF inv] by simp
  have eq: "unat s = unat x \<longleftrightarrow> s = x" for x :: u32 by (simp add: word_unat_eq_iff)
  show ?thesis
    using Some s nin table_invD [OF inv]
    by (auto simp: close_slot_def table_inv_def nth_list_update eq)
qed

lemma add_inv: "table_inv t \<Longrightarrow> table_inv (snd (add t d))"
  by (simp add: add_eq add_installed_inv)

lemma duplicate_eq:
  "table_inv t \<Longrightarrow> duplicate isd t h =
     (case get t (h_value h) of
        Ok d \<Rightarrow> if isd d then add t d else (Err InvalidArgument, t)
      | Err e \<Rightarrow> (Err e, t)
      | Panic \<Rightarrow> (Panic, t))"
  by (simp add: duplicate_def add_def split: outcome.splits)

lemma table_step_inv: "table_inv t \<Longrightarrow> table_inv (table_step isd t oper)"
  by (cases oper) (auto simp: add_inv drop_handle_def close_slot_inv duplicate_eq split: outcome.splits)

lemma table_run_inv: "table_inv t \<Longrightarrow> table_inv (table_run isd t ops)"
  unfolding table_run_def by (induction ops arbitrary: t) (simp_all add: table_step_inv)


section \<open>Live handles and their slots\<close>

lemma filter_length_update:
  assumes "i < length xs" "P y" "\<not> P (xs ! i)"
  shows "length (filter P (xs[i := y])) = Suc (length (filter P xs))"
proof -
  have "xs = take i xs @ xs ! i # drop (Suc i) xs" using assms(1) by (rule id_take_nth_drop)
  then have "filter P xs = filter P (take i xs) @ filter P (drop (Suc i) xs)"
    using assms(3) by (metis filter.simps(2) filter_append)
  then show ?thesis using assms by (simp add: upd_conv_take_nth_drop)
qed

lemma live_count_add_installed:
  assumes "table_inv t" "\<not> (free t = [] \<and> length (entries t) \<ge> MAX_SLOTS)"
  shows "live_count (add_installed t d) = Suc (live_count t)"
proof (cases "free t = []")
  case True
  then show ?thesis by (simp add: live_count_def add_installed_def Let_def)
next
  case False
  then show ?thesis using last_free_slot [OF assms(1) False]
    by (simp add: live_count_def add_installed_def Let_def pick_slot_def filter_length_update)
qed

lemma live_count_full_iff:
  assumes inv: "table_inv t"
  shows "(free t = [] \<and> length (entries t) \<ge> MAX_SLOTS) \<longleftrightarrow> live_count t = MAX_SLOTS"
proof
  assume full: "free t = [] \<and> length (entries t) \<ge> MAX_SLOTS"
  have "entries t ! i \<noteq> None" if "i < length (entries t)" for i
  proof -
    have "unat (of_nat i :: u32) = i"
      using that table_invD(2) [OF inv] by (intro unat_of_nat_slot) simp
    then show ?thesis using table_invD(4) [OF inv, of "of_nat i"] full that by simp
  qed
  then have "e \<noteq> None" if "e \<in> set (entries t)" for e
    using that unfolding in_set_conv_nth by blast
  then have "live_count t = length (entries t)" by (simp add: live_count_def)
  then show "live_count t = MAX_SLOTS" using full table_invD(2) [OF inv] by simp
next
  assume c: "live_count t = MAX_SLOTS"
  have "live_count t \<le> length (entries t)" by (simp add: live_count_def)
  then have len: "length (entries t) = MAX_SLOTS" using c table_invD(2) [OF inv] by simp
  then have all: "\<forall>e \<in> set (entries t). e \<noteq> None"
    using c length_filter_less [of _ "entries t" "\<lambda>e. e \<noteq> None"] unfolding live_count_def
    by fastforce
  have "free t = []"
  proof (rule ccontr)
    assume "free t \<noteq> []"
    from last_free_slot [OF inv this] all show False by (metis nth_mem)
  qed
  then show "free t = [] \<and> length (entries t) \<ge> MAX_SLOTS" using len by simp
qed

text \<open>What a fresh handle's value decodes to.\<close>

lemma get_encoded:
  assumes "unat s < MAX_SLOTS" "unat s < length (entries t)"
    "entries t ! unat s = Some \<lparr>e_dispatcher = d, e_generation = g\<rparr>" "g \<noteq> 0"
  shows "get t (encode s g) = (if unat g < 4096 then Ok d else Err InvalidArgument)"
proof (cases "unat g < 4096")
  case True
  then have tb: "take_bit 12 g = g" by (simp add: take_bit_12_eq)
  then have "encode s g \<noteq> 0" using assms encode_eq_0 [OF assms(1)] by simp
  then show ?thesis using assms True tb
    by (simp add: get_def entry_at_def encode_slot encode_generation)
next
  case False
  then have "take_bit 12 g \<noteq> g" by (simp add: take_bit_12_eq)
  then show ?thesis using assms False
    by (auto simp: get_def entry_at_def encode_slot encode_generation)
qed

text \<open>
  A slot's history: its generation only moves by \<open>next_generation\<close>, and a slot that becomes live
  has just been bumped.
\<close>

lemma slot_step:
  assumes inv: "table_inv t" and i: "i < length (entries t)" and t'_def: "t' = table_step isd t oper"
  shows "i < length (entries t') \<and>
    (generations t' ! i = generations t ! i \<and> (entries t' ! i = entries t ! i \<or> entries t' ! i = None) \<or>
     generations t' ! i = next_generation (generations t ! i))"
proof -
  have gl: "length (generations t) = length (entries t)" using inv by (rule table_invD)
  have ad: "i < length (entries (snd (add t d))) \<and>
    (generations (snd (add t d)) ! i = generations t ! i \<and> entries (snd (add t d)) ! i = entries t ! i \<or>
     generations (snd (add t d)) ! i = next_generation (generations t ! i))" for d
    using i gl last_free_slot [OF inv]
    by (auto simp: add_eq [OF inv] add_installed_def Let_def pick_slot_def pick_generation_def
        nth_append nth_list_update)
  show ?thesis
  proof (cases oper)
    case (AddOp d)
    then show ?thesis using ad [of d] by (auto simp: t'_def)
  next
    case (DropOp h)
    then show ?thesis using i
      by (cases "unat (h_slot h) = i")
        (auto simp: t'_def drop_handle_def close_slot_def split: option.splits)
  next
    case (DupOp h)
    then show ?thesis using i ad by (auto simp: t'_def duplicate_eq [OF inv] split: outcome.splits)
  qed
qed

lemma unat_next_generation:
  "unat g < 2 ^ 32 - 1 \<Longrightarrow> unat (next_generation g) = Suc (unat g)"
  by (auto simp: next_generation_def unat_word_ariths word_unat_eq_iff)

text \<open>Past generation \<open>g\<close>, and not live at \<open>g\<close>: kept by every step short of a wrap.\<close>

lemma slot_run_past:
  assumes "table_inv t" "i < length (entries t)" "unat g \<le> unat (generations t ! i)"
    "entries t ! i = None \<or> unat g < unat (generations t ! i)"
    "unat (generations t ! i) + length ops < 2 ^ 32 - 1"
  shows "entries (table_run isd t ops) ! i = None \<or>
    unat g < unat (generations (table_run isd t ops) ! i)"
  using assms
proof (induction ops arbitrary: t)
  case Nil
  then show ?case by (simp add: table_run_def)
next
  case (Cons oper ops)
  let ?t = "table_step isd t oper"
  note st = slot_step [OF Cons.prems(1,2) refl, of isd oper]
  have bump: "unat (next_generation (generations t ! i)) = Suc (unat (generations t ! i))"
    by (rule unat_next_generation) (use Cons.prems(5) in simp)
  have "entries (table_run isd ?t ops) ! i = None \<or>
    unat g < unat (generations (table_run isd ?t ops) ! i)"
    by (rule Cons.IH) (use Cons.prems st bump table_step_inv in auto)
  then show ?case by (simp add: table_run_def)
qed


section \<open>One slot, reused\<close>

text \<open>Create a handle and close it, \<open>n\<close> times.\<close>

fun recycle :: "nat \<Rightarrow> 'd \<Rightarrow> 'd table \<Rightarrow> 'd table" where
  "recycle 0 d t = t"
| "recycle (Suc n) d t =
     (case add t d of
        (Ok h, t1) \<Rightarrow> recycle n d (fst (drop_handle t1 h))
      | (_, t1) \<Rightarrow> t1)"

definition one_slot :: "nat \<Rightarrow> 'd table" where
  "one_slot k = \<lparr>entries = [None], generations = [of_nat k], free = [0]\<rparr>"

lemma unat_small: "n < 2 ^ 32 \<Longrightarrow> unat (of_nat n :: u32) = n"
  by (simp add: unat_of_nat)

lemma one_slot_inv: "0 < k \<Longrightarrow> k < 2 ^ 32 \<Longrightarrow> table_inv (one_slot k)"
  by (auto simp: table_inv_def one_slot_def slot_consts word_unat_eq_iff unat_small)

lemma next_generation_of_nat:
  assumes "k + 1 < 2 ^ 32"
  shows "next_generation (of_nat k) = of_nat (Suc k)"
proof -
  have "unat (of_nat (Suc k) :: u32) = Suc k" using assms by (intro unat_small) simp
  then have "(of_nat (Suc k) :: u32) \<noteq> 0" by force
  then show ?thesis by (simp add: next_generation_def add.commute)
qed

lemma one_slot_add:
  assumes "0 < k" "k + 1 < 2 ^ 32"
  shows "add (one_slot k) d =
    (Ok \<lparr>h_value = encode 0 (of_nat (Suc k)), h_slot = 0\<rparr>,
     \<lparr>entries = [Some \<lparr>e_dispatcher = d, e_generation = of_nat (Suc k)\<rparr>],
      generations = [of_nat (Suc k)], free = []\<rparr>)"
proof -
  have "table_inv (one_slot k :: 'a table)" using assms by (intro one_slot_inv) simp_all
  from add_eq [OF this, of d] next_generation_of_nat [OF assms(2)] show ?thesis
    by (simp add: one_slot_def pick_slot_def pick_generation_def add_installed_def Let_def)
qed

lemma one_slot_cycle:
  assumes "0 < k" "Suc k < 4096"
  shows "recycle (Suc n) d (one_slot k) = recycle n d (one_slot (Suc k))"
proof -
  have "drop_bit GENERATION_SHIFT (encode 0 (of_nat (Suc k))) = (of_nat (Suc k) :: u32)"
    using assms(2) take_bit_12_eq [of "of_nat (Suc k)"] unat_small [of "Suc k"]
    by (simp add: encode_generation del: of_nat_Suc)
  with one_slot_add [of k d] assms show ?thesis
    by (simp add: drop_handle_def close_slot_def entry_at_def one_slot_def del: of_nat_Suc)
qed

lemma recycle_one_slot: "0 < k \<Longrightarrow> k + n < 4096 \<Longrightarrow> recycle n d (one_slot k) = one_slot (k + n)"
proof (induction n arbitrary: k)
  case 0
  then show ?case by simp
next
  case (Suc n)
  then show ?case using one_slot_cycle [of k n d] by simp
qed

lemma recycle_new: "recycle (Suc n) d table_new = recycle n d (one_slot 1)"
proof -
  have "add table_new d =
    (Ok \<lparr>h_value = encode 0 1, h_slot = 0\<rparr>,
     \<lparr>entries = [Some \<lparr>e_dispatcher = d, e_generation = 1\<rparr>], generations = [1], free = []\<rparr>)"
    using add_eq [OF table_new_inv, of d]
    by (simp add: table_new_def slot_consts pick_slot_def pick_generation_def add_installed_def
        next_generation_def)
  moreover have "drop_bit GENERATION_SHIFT (encode 0 1) = (1 :: u32)"
    by (simp add: encode_generation)
  ultimately show ?thesis
    by (simp add: drop_handle_def close_slot_def entry_at_def one_slot_def)
qed

section \<open>Properties\<close>

text \<open>C27: Adding a dispatcher to a well-formed table yields a handle and one more live entry.  The
  handle's value resolves to that dispatcher exactly when the slot's generation is below 4096;
  from then on the packed value has lost the generation's high bits, so it resolves to nothing and
  dropping the handle closes nothing.\<close>

theorem add_handle_resolves:
  assumes inv: "table_inv t" and a: "add t d = (Ok h, t')"
  defines "g \<equiv> unat (generations t' ! unat (h_slot h))"
  shows "table_inv t' \<and> live_count t' = Suc (live_count t) \<and>
    get t' (h_value h) = (if g < 4096 then Ok d else Err InvalidArgument) \<and>
    drop_handle t' h = (if g < 4096 then drop_handle t' h else (t', None)) \<and>
    (g < 4096 \<longrightarrow> snd (drop_handle t' h) = Some d)"
proof -
  have room: "\<not> (free t = [] \<and> length (entries t) \<ge> MAX_SLOTS)"
    and h: "h = \<lparr>h_value = encode (pick_slot t) (pick_generation t), h_slot = pick_slot t\<rparr>"
    and t': "t' = add_installed t d"
    using a by (auto simp: add_eq [OF inv] split: if_splits)
  note ps = pick_slot_facts(1) [OF inv room] pick_slot_facts(2-4) [OF inv room, of d]
  have nz: "pick_generation t \<noteq> 0" by (simp add: pick_generation_def next_generation_nonzero)
  have g: "g = unat (pick_generation t)" using ps(4) by (simp add: g_def h t')
  have "get t' (h_value h) = (if g < 4096 then Ok d else Err InvalidArgument)"
    using get_encoded [OF ps(1) _ _ nz, of t'] ps by (simp add: h t' g)
  moreover have "entry_at t' (h_slot h) = Some \<lparr>e_dispatcher = d, e_generation = pick_generation t\<rparr>"
    using ps by (simp add: entry_at_def h t')
  moreover have "take_bit 12 (pick_generation t) = pick_generation t \<longleftrightarrow> g < 4096"
    by (simp add: take_bit_12_eq g)
  ultimately show ?thesis
    using add_installed_inv [OF inv room] live_count_add_installed [OF inv room]
    by (auto simp: t' h drop_handle_def close_slot_def encode_generation)
qed

theorem add_handle_resolves_witness:
  "\<exists>t h t'. table_inv t \<and> add t CHR ''d'' = (Ok h, t') \<and> get t' (h_value h) = Ok CHR ''d''"
proof -
  have inv: "table_inv (one_slot 5)" by (rule one_slot_inv) simp_all
  have a: "add (one_slot 5) CHR ''d'' = (Ok \<lparr>h_value = encode 0 6, h_slot = 0\<rparr>,
     \<lparr>entries = [Some \<lparr>e_dispatcher = CHR ''d'', e_generation = 6\<rparr>], generations = [6], free = []\<rparr>)"
    using one_slot_add [of 5 "CHR ''d''"] by simp
  from add_handle_resolves [OF inv a] a inv show ?thesis by auto
qed

text \<open>C25: A closed handle stays dead: once the entry of a handle is closed, the handle's value
  resolves to nothing after any later sequence of additions, drops and duplications that is too
  short to wrap the 32-bit generation counter of its slot.\<close>

theorem stale_handle_rejected:
  assumes inv: "table_inv t" and live: "get t (h_value h) = Ok d"
    and slot: "h_slot h = h_value h AND SLOT_MASK"
    and short: "length ops < 2 ^ 32 - 4097"
  shows "get (table_run isd (fst (drop_handle t h)) ops) (h_value h) = Err InvalidArgument"
proof -
  let ?v = "h_value h" and ?i = "unat (h_slot h)" and ?t1 = "fst (drop_handle t h)"
  define g where "g = drop_bit GENERATION_SHIFT ?v"
  obtain e where e: "entry_at t (h_slot h) = Some e" "e_generation e = g" "?v \<noteq> 0"
    using live by (auto simp: get_def slot g_def split: if_splits option.splits)
  then have i: "?i < length (entries t)" "entries t ! ?i = Some e"
    by (auto simp: entry_at_def split: if_splits)
  have gi: "generations t ! ?i = g" using table_invD(5) [OF inv i] e by simp
  have "unat g = unat ?v div 2 ^ 20"
    by (simp add: g_def GENERATION_SHIFT_def SLOT_BITS_def drop_bit_eq_div unat_div)
  moreover have "unat ?v < 2 ^ 32" using unsigned_less [of ?v, where ?'a = nat] by simp
  ultimately have "unat g < 4096" by (simp add: less_mult_imp_div_less)
  moreover have t1: "table_inv ?t1" unfolding drop_handle_def by (rule close_slot_inv [OF inv])
  moreover have "?t1 = t\<lparr>entries := (entries t)[?i := None], free := free t @ [h_slot h]\<rparr>"
    using e by (simp add: drop_handle_def close_slot_def g_def)
  ultimately have "entries (table_run isd ?t1 ops) ! ?i = None \<or>
      unat g < unat (generations (table_run isd ?t1 ops) ! ?i)"
    using i gi short by (intro slot_run_past) auto
  then have "entry_at (table_run isd ?t1 ops) (h_slot h) = Some e' \<Longrightarrow> e_generation e' \<noteq> g" for e'
    using table_invD(5) [OF table_run_inv [OF t1, of isd ops], of ?i]
    by (auto simp: entry_at_def split: if_splits)
  then show ?thesis
    using e(3) by (auto simp: get_def slot g_def split: option.splits)
qed

theorem stale_handle_rejected_witness:
  "\<exists>t h. get t (h_value h) = Ok (7::nat) \<and>
     get (table_run (\<lambda>_. True) (fst (drop_handle t h)) [AddOp 8, AddOp 9]) (h_value h) = Err InvalidArgument"
proof -
  let ?t = "\<lparr>entries = [Some \<lparr>e_dispatcher = 7, e_generation = 6\<rparr>], generations = [6], free = []\<rparr> :: nat table"
  let ?h = "\<lparr>h_value = 6291456, h_slot = 0\<rparr>"
  have inv: "table_inv ?t" by (auto simp: table_inv_def slot_consts nth_Cons')
  have live: "get ?t (h_value ?h) = Ok 7" by (simp add: get_def entry_at_def slot_consts drop_bit_eq_div)
  have slot: "h_slot ?h = h_value ?h AND SLOT_MASK" by (simp add: slot_consts)
  from stale_handle_rejected [OF inv live slot, of "[AddOp 8, AddOp 9]" "\<lambda>_. True"] live
  show ?thesis by (intro exI [of _ ?t] exI [of _ ?h]) simp
qed

text \<open>The generation counter outgrows the handle value: after one slot has been used and freed
  4095 times, the next handle created in it gets the value 0, the invalid handle, although the
  table has just stored a live entry for it; the value resolves to nothing, and dropping the handle
  does not close the entry.\<close>

theorem reused_slot_yields_invalid_handle:
  "\<exists>h t'. add (recycle 4095 d table_new) d = (Ok h, t') \<and> is_invalid_value (h_value h) \<and>
    get t' (h_value h) = Err InvalidArgument \<and> drop_handle t' h = (t', None) \<and> live_count t' = 1"
proof -
  have "recycle 4095 d table_new = one_slot 4095"
    using recycle_new [of 4094 d] recycle_one_slot [of 1 4094 d] by simp
  moreover have "encode 0 4096 = 0"
    using encode_eq_0 [of 0 4096] by (simp add: slot_consts take_bit_eq_mod)
  ultimately show ?thesis
    using one_slot_add [of 4095 d]
    by (simp add: is_invalid_value_def get_def drop_handle_def close_slot_def entry_at_def live_count_def)
qed

text \<open>Adding fails only by exhaustion, with the table unchanged, and exactly when all \<open>2^20\<close>
  slots are live; no operation of the table panics.\<close>

theorem add_exhaustion:
  assumes "table_inv t"
  shows "(add t d = (Err ResourceExhausted, t) \<longleftrightarrow> live_count t = MAX_SLOTS) \<and>
    (\<forall>e. fst (add t d) = Err e \<longrightarrow> e = ResourceExhausted \<and> snd (add t d) = t) \<and>
    fst (add t d) \<noteq> Panic \<and> fst (duplicate isd t h) \<noteq> Panic \<and> get t v \<noteq> Panic"
  using live_count_full_iff [OF assms]
  by (auto simp: add_eq [OF assms] duplicate_eq [OF assms] get_def split: outcome.splits option.splits)

theorem add_exhaustion_witness:
  "fst (add (table_new :: nat table) 3) \<noteq> Panic \<and> fst (duplicate (\<lambda>_. True) (table_new :: nat table)
     \<lparr>h_value = 1, h_slot = 1\<rparr>) \<noteq> Panic"
  using add_exhaustion [OF table_new_inv, of 3 "\<lambda>_. True" "\<lparr>h_value = 1, h_slot = 1\<rparr>" 0] by blast

end
