(* ===== verification/Watchers.thy ===== *)
theory Watchers
  imports CoreTypes
begin

text \<open>
  The watch lists kept by the endpoints of message pipes and data pipes (\<open>WatcherRegistration\<close>,
  \<open>collect_notifications\<close>, \<open>cancel_watchers\<close> and the registration calls of
  \<open>crates/mojo-rs-core/src/pipe.rs\<close>; \<open>data_pipe.rs\<close> repeats them).  Collecting returns the callbacks
  to invoke after the lock is released; a registration is only ever marked cancelled, not removed.
\<close>

definition watcher_fires :: "signals_state \<Rightarrow> 'cb watcher \<Rightarrow> bool" where
  "watcher_fires st w \<longleftrightarrow>
     \<not> w_cancelled w \<and> (is_satisfied st (w_signals w) \<or> is_unsatisfiable st (w_signals w))"

definition collect_fired :: "signals_state \<Rightarrow> 'cb watcher list \<Rightarrow> 'cb notification list" where
  "collect_fired st ws =
     map (\<lambda>w. \<lparr>n_id = w_id w, n_callback = w_callback w, n_state = st, n_kind = KChanged\<rparr>)
       (filter (watcher_fires st) ws)"

definition cancel_all :: "'cb watcher list \<Rightarrow> 'cb watcher list \<times> 'cb notification list" where
  "cancel_all ws =
     (map (\<lambda>w. w\<lparr>w_cancelled := True\<rparr>) ws,
      map (\<lambda>w. \<lparr>n_id = w_id w, n_callback = w_callback w, n_state = signals_default,
                n_kind = KCancelled\<rparr>)
        (filter (\<lambda>w. \<not> w_cancelled w) ws))"

text \<open>\<open>iter_mut().find(|w| w.id == id)\<close>, then mark it.\<close>

fun mark_cancelled :: "watch_id \<Rightarrow> 'cb watcher list \<Rightarrow> 'cb watcher list" where
  "mark_cancelled i [] = []"
| "mark_cancelled i (w # ws) =
     (if w_id w = i then w\<lparr>w_cancelled := True\<rparr> # ws else w # mark_cancelled i ws)"

definition new_watcher :: "watch_id \<Rightarrow> signals \<Rightarrow> 'cb \<Rightarrow> 'cb watcher" where
  "new_watcher i s cb = \<lparr>w_id = i, w_signals = s, w_callback = cb, w_cancelled = False\<rparr>"

text \<open>The ids that can still produce a callback.\<close>

definition live_ids :: "'cb watcher list \<Rightarrow> watch_id set" where
  "live_ids ws = w_id ` {w \<in> set ws. \<not> w_cancelled w}"

lemma live_ids_Nil [simp]: "live_ids [] = {}"
  by (simp add: live_ids_def)

lemma live_ids_Cons [simp]:
  "live_ids (w # ws) = (if w_cancelled w then {} else {w_id w}) \<union> live_ids ws"
  by (auto simp: live_ids_def)

lemma live_ids_append [simp]: "live_ids (ws @ vs) = live_ids ws \<union> live_ids vs"
  by (auto simp: live_ids_def)

lemma live_ids_subset: "live_ids ws \<subseteq> w_id ` set ws"
  by (auto simp: live_ids_def)

lemma collect_fired_ids: "n_id ` set (collect_fired st ws) \<subseteq> live_ids ws"
  by (auto simp: collect_fired_def live_ids_def watcher_fires_def)

lemma cancel_all_ids: "n_id ` set (snd (cancel_all ws)) = live_ids ws"
  by (simp add: cancel_all_def live_ids_def image_image)

lemma cancel_all_live [simp]: "live_ids (fst (cancel_all ws)) = {}"
  by (auto simp: cancel_all_def live_ids_def)

lemma cancel_all_map_ids [simp]: "map w_id (fst (cancel_all ws)) = map w_id ws"
  by (simp add: cancel_all_def comp_def)

lemma mark_cancelled_map_ids [simp]: "map w_id (mark_cancelled i ws) = map w_id ws"
  by (induction ws) auto

lemma mark_cancelled_live:
  "distinct (map w_id ws) \<Longrightarrow> live_ids (mark_cancelled i ws) = live_ids ws - {i}"
proof (induction ws)
  case (Cons w ws)
  then show ?case using live_ids_subset [of ws] by auto
qed simp

lemma collect_fired_kind: "n \<in> set (collect_fired st ws) \<Longrightarrow> n_kind n = KChanged \<and> n_state n = st"
  by (auto simp: collect_fired_def)

end
