(* ===== verification/MessagePipe.thy ===== *)
theory MessagePipe
  imports Watchers HandleTable Fifo
begin

text \<open>
  Message pipes (\<open>crates/mojo-rs-core/src/pipe.rs\<close>, \<open>message.rs\<close>): two endpoints with a FIFO queue
  each; a write enqueues on the peer.  Every operation holds the pipe's mutex, so the model has one
  state transition per call, which returns the result, the new state and the callbacks that are
  invoked after the lock is released.  No operation can panic while it holds the lock.
\<close>

section \<open>Messages\<close>

record message =
  m_data :: "byte list"
  m_handles :: "handle list"

definition message_empty :: message where
  "message_empty = \<lparr>m_data = [], m_handles = []\<rparr>"

definition into_parts :: "message \<Rightarrow> byte list \<times> handle list" where
  "into_parts m = (m_data m, m_handles m)"

section \<open>State\<close>

datatype pipe_side = SideA | SideB

fun side_peer :: "pipe_side \<Rightarrow> pipe_side" where
  "side_peer SideA = SideB"
| "side_peer SideB = SideA"

record 'cb endpoint =
  local_closed :: bool
  peer_closed :: bool
  queue :: "message list"
  queued_bytes :: nat
  watchers :: "'cb watcher list"

definition endpoint_new :: "'cb endpoint" where
  "endpoint_new =
     \<lparr>local_closed = False, peer_closed = False, queue = [], queued_bytes = 0, watchers = []\<rparr>"

text \<open>\<open>NEXT_WATCH_ID\<close> is a process-wide counter; it is carried along with the pipe.\<close>

record 'cb pipe =
  end_a :: "'cb endpoint"
  end_b :: "'cb endpoint"
  next_watch_id :: u64

fun ep :: "'cb pipe \<Rightarrow> pipe_side \<Rightarrow> 'cb endpoint" where
  "ep p SideA = end_a p"
| "ep p SideB = end_b p"

fun set_ep :: "'cb pipe \<Rightarrow> pipe_side \<Rightarrow> 'cb endpoint \<Rightarrow> 'cb pipe" where
  "set_ep p SideA x = p\<lparr>end_a := x\<rparr>"
| "set_ep p SideB x = p\<lparr>end_b := x\<rparr>"

definition pipe_create :: "u64 \<Rightarrow> 'cb pipe" where
  "pipe_create next = \<lparr>end_a = endpoint_new, end_b = endpoint_new, next_watch_id = next\<rparr>"

section \<open>Signals and notifications\<close>

definition signals_of :: "'cb endpoint \<Rightarrow> signals_state" where
  "signals_of e =
     (if local_closed e then \<lparr>satisfied = NONE, satisfiable = NONE\<rparr>
      else
        let able0 = NONE OR PEER_CLOSED OR QUOTA_EXCEEDED;
            (sat1, able1) =
              (if \<not> peer_closed e then (NONE OR WRITABLE, able0 OR WRITABLE OR PEER_REMOTE)
               else (NONE OR PEER_CLOSED, able0));
            dead = (peer_closed e \<and> queue e = []);
            able2 = (if \<not> dead then able1 OR READABLE else able1);
            sat2 = (if queue e \<noteq> [] then sat1 OR READABLE else sat1)
        in \<lparr>satisfied = sat2, satisfiable = able2\<rparr>)"

definition collect_notifications :: "'cb endpoint \<Rightarrow> 'cb notification list" where
  "collect_notifications e = collect_fired (signals_of e) (watchers e)"

section \<open>Operations\<close>

definition query_signals :: "'cb pipe \<Rightarrow> pipe_side \<Rightarrow> signals_state" where
  "query_signals p s = signals_of (ep p s)"

definition pipe_write ::
  "'cb pipe \<Rightarrow> pipe_side \<Rightarrow> message \<Rightarrow> unit core_result \<times> 'cb pipe \<times> 'cb notification list" where
  "pipe_write p s m =
     (let this = ep p s in
      if local_closed this then (Err InvalidArgument, p, [])
      else if peer_closed this then (Err FailedPrecondition, p, [])
      else
        let pe = ep p (side_peer s);
            pe' = pe\<lparr>queue := queue pe @ [m], queued_bytes := queued_bytes pe + length (m_data m)\<rparr>
        in (Ok (), set_ep p (side_peer s) pe', collect_notifications pe'))"

datatype read_outcome = ReadMessage "byte list" "handle list" | TooLarge nat

definition pipe_read ::
  "'cb pipe \<Rightarrow> pipe_side \<Rightarrow> nat option \<Rightarrow> bool \<Rightarrow>
   read_outcome core_result \<times> 'cb pipe \<times> 'cb notification list" where
  "pipe_read p s max_num_bytes may_discard =
     (let e = ep p s in
      if local_closed e then (Err InvalidArgument, p, [])
      else case queue e of
        [] \<Rightarrow> if peer_closed e then (Err FailedPrecondition, p, []) else (Err ShouldWait, p, [])
      | m # rest \<Rightarrow>
          let data_len = length (m_data m);
              e1 = e\<lparr>queue := rest, queued_bytes := queued_bytes e - data_len\<rparr>;
              too_large = (case max_num_bytes of None \<Rightarrow> False | Some mx \<Rightarrow> data_len > mx \<and> \<not> may_discard)
          in if too_large
             then (Ok (TooLarge data_len),
                   set_ep p s (e1\<lparr>queue := m # queue e1, queued_bytes := queued_bytes e1 + data_len\<rparr>), [])
             else let (d, hs) = into_parts m
                  in (Ok (ReadMessage d hs), set_ep p s e1, collect_notifications e1))"

definition pipe_close :: "'cb pipe \<Rightarrow> pipe_side \<Rightarrow> 'cb pipe \<times> 'cb notification list" where
  "pipe_close p s =
     (let e = ep p s in
      if local_closed e then (p, [])
      else
        let (ws, cancelled) = cancel_all (watchers e);
            p1 = set_ep p s (e\<lparr>local_closed := True, watchers := ws\<rparr>);
            pe = (ep p1 (side_peer s))\<lparr>peer_closed := True\<rparr>
        in (set_ep p1 (side_peer s) pe, cancelled @ collect_notifications pe))"

definition queued_count :: "'cb pipe \<Rightarrow> pipe_side \<Rightarrow> nat" where
  "queued_count p s = length (queue (ep p s))"

definition register_watch :: "'cb pipe \<Rightarrow> pipe_side \<Rightarrow> signals \<Rightarrow> 'cb \<Rightarrow> watch_id \<times> 'cb pipe" where
  "register_watch p s sig cb =
     (let i = next_watch_id p; p1 = p\<lparr>next_watch_id := i + 1\<rparr>; e = ep p1 s in
      if local_closed e then (i, p1)
      else (i, set_ep p1 s (e\<lparr>watchers := watchers e @ [new_watcher i sig cb]\<rparr>)))"

definition cancel_registered_watch :: "'cb pipe \<Rightarrow> pipe_side \<Rightarrow> watch_id \<Rightarrow> 'cb pipe" where
  "cancel_registered_watch p s i =
     (let e = ep p s in set_ep p s (e\<lparr>watchers := mark_cancelled i (watchers e)\<rparr>))"

section \<open>Histories\<close>

datatype 'cb pipe_op =
    PWrite pipe_side message
  | PRead pipe_side "nat option" bool
  | PClose pipe_side
  | PRegister pipe_side signals 'cb
  | PCancel pipe_side watch_id

text \<open>One call, with the callbacks it makes.\<close>

fun pipe_step :: "'cb pipe \<Rightarrow> 'cb pipe_op \<Rightarrow> 'cb pipe \<times> 'cb notification list" where
  "pipe_step p (PWrite s m) = snd (pipe_write p s m)"
| "pipe_step p (PRead s mx d) = snd (pipe_read p s mx d)"
| "pipe_step p (PClose s) = pipe_close p s"
| "pipe_step p (PRegister s sig cb) = (snd (register_watch p s sig cb), [])"
| "pipe_step p (PCancel s i) = (cancel_registered_watch p s i, [])"

text \<open>The messages a call accepted for, and delivered at, the endpoint \<open>s\<close>.\<close>

fun accepted_for :: "pipe_side \<Rightarrow> 'cb pipe \<Rightarrow> 'cb pipe_op \<Rightarrow> message list" where
  "accepted_for s p (PWrite s' m) =
     (if side_peer s' = s \<and> fst (pipe_write p s' m) = Ok () then [m] else [])"
| "accepted_for s p _ = []"

fun delivered_at :: "pipe_side \<Rightarrow> 'cb pipe \<Rightarrow> 'cb pipe_op \<Rightarrow> message list" where
  "delivered_at s p (PRead s' mx d) =
     (if s' = s then
        (case fst (pipe_read p s' mx d) of
           Ok (ReadMessage x hs) \<Rightarrow> [\<lparr>m_data = x, m_handles = hs\<rparr>]
         | _ \<Rightarrow> [])
      else [])"
| "delivered_at s p _ = []"

fun pipe_run ::
  "pipe_side \<Rightarrow> 'cb pipe \<Rightarrow> 'cb pipe_op list \<Rightarrow> message list \<times> message list \<times> 'cb notification list \<times> 'cb pipe" where
  "pipe_run s p [] = ([], [], [], p)"
| "pipe_run s p (x # xs) =
     (let (p', ns) = pipe_step p x; (acc, del, ms, q) = pipe_run s p' xs
      in (accepted_for s p x @ acc, delivered_at s p x @ del, ns @ ms, q))"


section \<open>Endpoints\<close>

lemma ep_set_ep [simp]: "ep (set_ep p s x) s' = (if s' = s then x else ep p s')"
  by (cases s; cases s') simp_all

lemma next_watch_id_set_ep [simp]: "next_watch_id (set_ep p s x) = next_watch_id p"
  by (cases s) simp_all

lemma ep_next_update [simp]: "ep (p\<lparr>next_watch_id := i\<rparr>) s = ep p s"
  by (cases s) simp_all

lemma set_ep_same [simp]: "set_ep p s (ep p s) = p"
  by (cases s) simp_all

lemma side_peer_neq [simp]: "side_peer s \<noteq> s" "s \<noteq> side_peer s"
  by (cases s; simp)+

lemma side_peer_peer [simp]: "side_peer (side_peer s) = s"
  by (cases s) simp_all

lemma side_neq_iff: "s' \<noteq> s \<longleftrightarrow> s' = side_peer s"
  by (cases s; cases s') simp_all

lemma all_sides: "(\<forall>s. P s) \<longleftrightarrow> P SideA \<and> P SideB"
  by (metis pipe_side.exhaust)

lemma pipe_eqI:
  "next_watch_id p = next_watch_id q \<Longrightarrow> (\<And>s. ep p s = ep q s) \<Longrightarrow> p = (q :: 'cb pipe)"
  by (metis (full_types) ep.simps pipe.equality old.unit.exhaust)

section \<open>The invariant\<close>

definition bytes_of :: "message list \<Rightarrow> nat" where
  "bytes_of ms = sum_list (map (\<lambda>m. length (m_data m)) ms)"

definition pipe_inv :: "'cb pipe \<Rightarrow> bool" where
  "pipe_inv p \<longleftrightarrow>
     (\<forall>s. queued_bytes (ep p s) = bytes_of (queue (ep p s)) \<and>
          (peer_closed (ep p s) \<longleftrightarrow> local_closed (ep p (side_peer s))) \<and>
          (local_closed (ep p s) \<longrightarrow> live_ids (watchers (ep p s)) = {}))"

lemma bytes_of_simps [simp]:
  "bytes_of [] = 0"
  "bytes_of (m # ms) = length (m_data m) + bytes_of ms"
  "bytes_of (ms @ ns) = bytes_of ms + bytes_of ns"
  by (simp_all add: bytes_of_def)

lemma pipe_create_inv: "pipe_inv (pipe_create n)"
  unfolding pipe_inv_def
proof
  fix s
  show "queued_bytes (ep (pipe_create n) s) = bytes_of (queue (ep (pipe_create n) s)) \<and>
      (peer_closed (ep (pipe_create n) s) \<longleftrightarrow> local_closed (ep (pipe_create n) (side_peer s))) \<and>
      (local_closed (ep (pipe_create n) s) \<longrightarrow> live_ids (watchers (ep (pipe_create n) s)) = {})"
    by (cases s) (simp_all add: pipe_create_def endpoint_new_def)
qed

lemma pipe_invD:
  assumes "pipe_inv p"
  shows "queued_bytes (ep p s) = bytes_of (queue (ep p s))"
    "peer_closed (ep p s) \<longleftrightarrow> local_closed (ep p (side_peer s))"
    "local_closed (ep p s) \<Longrightarrow> live_ids (watchers (ep p s)) = {}"
  using assms unfolding pipe_inv_def by blast+

text \<open>A read that is too large puts everything back.\<close>

lemma pipe_read_eq [pipe_eqs]:
  assumes inv: "pipe_inv p"
  shows "pipe_read p s mx d =
    (let e = ep p s in
     if local_closed e then (Err InvalidArgument, p, [])
     else case queue e of
       [] \<Rightarrow> (Err (if peer_closed e then FailedPrecondition else ShouldWait), p, [])
     | m # rest \<Rightarrow>
         if (\<exists>k. mx = Some k \<and> length (m_data m) > k) \<and> \<not> d
         then (Ok (TooLarge (length (m_data m))), p, [])
         else let e1 = e\<lparr>queue := rest, queued_bytes := bytes_of rest\<rparr>
              in (Ok (ReadMessage (m_data m) (m_handles m)), set_ep p s e1, collect_notifications e1))"
proof (cases "queue (ep p s)")
  case Nil
  then show ?thesis by (simp add: pipe_read_def Let_def)
next
  case (Cons m rest)
  then have qb: "queued_bytes (ep p s) = length (m_data m) + bytes_of rest"
    using pipe_invD(1) [OF inv, of s] by simp
  have "(ep p s)\<lparr>queue := m # rest, queued_bytes := bytes_of rest + length (m_data m)\<rparr> = ep p s"
    using Cons qb by (simp add: add.commute)
  then have same: "set_ep p s
      ((ep p s)\<lparr>queue := m # rest, queued_bytes := bytes_of rest + length (m_data m)\<rparr>) = p" by simp
  show ?thesis
    using Cons qb same
    by (cases mx) (auto simp: pipe_read_def Let_def into_parts_def add.commute)
qed

lemma pipe_write_inv: "pipe_inv p \<Longrightarrow> pipe_inv (fst (snd (pipe_write p s m)))"
  by (cases s) (auto simp: pipe_inv_def pipe_write_def Let_def all_sides)

lemma pipe_read_inv: "pipe_inv p \<Longrightarrow> pipe_inv (fst (snd (pipe_read p s mx d)))"
  by (subst pipe_read_eq, assumption, cases s)
    (auto simp: pipe_inv_def Let_def all_sides split: list.splits)

lemma pipe_close_eq [pipe_eqs]:
  "pipe_close p s =
    (if local_closed (ep p s) then (p, [])
     else let e = (ep p s)\<lparr>local_closed := True, watchers := fst (cancel_all (watchers (ep p s)))\<rparr>;
              pe = (ep p (side_peer s))\<lparr>peer_closed := True\<rparr>
          in (set_ep (set_ep p s e) (side_peer s) pe,
              snd (cancel_all (watchers (ep p s))) @ collect_notifications pe))"
  by (simp add: pipe_close_def Let_def split: prod.splits)

lemma pipe_close_inv: "pipe_inv p \<Longrightarrow> pipe_inv (fst (pipe_close p s))"
  by (cases s) (auto simp: pipe_close_eq pipe_inv_def Let_def all_sides)

lemma register_watch_inv: "pipe_inv p \<Longrightarrow> pipe_inv (snd (register_watch p s sig cb))"
  by (cases s) (auto simp: register_watch_def pipe_inv_def Let_def all_sides)

lemma mark_cancelled_live_subset: "live_ids (mark_cancelled i ws) \<subseteq> live_ids ws"
  by (induction ws) (auto split: if_splits)

lemma cancel_registered_watch_inv: "pipe_inv p \<Longrightarrow> pipe_inv (cancel_registered_watch p s i)"
  using mark_cancelled_live_subset
  by (cases s) (fastforce simp: cancel_registered_watch_def pipe_inv_def Let_def all_sides)+

lemma pipe_step_inv: "pipe_inv p \<Longrightarrow> pipe_inv (fst (pipe_step p x))"
  by (cases x) (simp_all add: pipe_write_inv pipe_read_inv pipe_close_inv register_watch_inv
      cancel_registered_watch_inv)


section \<open>Histories: what is accepted, delivered and kept\<close>

lemma step_queue:
  assumes "pipe_inv p"
  shows "queue (ep p s) @ accepted_for s p x = delivered_at s p x @ queue (ep (fst (pipe_step p x)) s)"
proof (cases x)
  case (PWrite s' m)
  then show ?thesis by (cases "s = s'") (auto simp: pipe_write_def Let_def)
next
  case (PRead s' mx d)
  then show ?thesis using assms
    by (cases "s = s'"; cases "queue (ep p s')") (auto simp: pipe_read_eq Let_def)
next
  case (PClose s')
  then show ?thesis by (auto simp: pipe_close_eq Let_def)
qed (auto simp: register_watch_def cancel_registered_watch_def Let_def)

lemma pipe_run_queue:
  "pipe_inv p \<Longrightarrow> pipe_run s p xs = (acc, del, ns, q) \<Longrightarrow>
   queue (ep p s) @ acc = del @ queue (ep q s) \<and> pipe_inv q"
proof (induction xs arbitrary: p acc del ns q)
  case Nil
  then show ?case by simp
next
  case (Cons x xs)
  obtain p' ns1 where st: "pipe_step p x = (p', ns1)" by (cases "pipe_step p x")
  obtain a d n q' where r: "pipe_run s p' xs = (a, d, n, q')" by (cases "pipe_run s p' xs")
  have inv': "pipe_inv p'" using pipe_step_inv [OF Cons.prems(1), of x] st by simp
  have one: "queue (ep p s) @ accepted_for s p x = delivered_at s p x @ queue (ep p' s)"
    using step_queue [OF Cons.prems(1), of s x] st by simp
  have rest: "queue (ep p' s) @ a = d @ queue (ep q' s)" "pipe_inv q'" using Cons.IH [OF inv' r] by simp_all
  have "queue (ep p s) @ accepted_for s p x @ a = (delivered_at s p x @ d) @ queue (ep q' s)"
    using one rest(1) by (metis append.assoc)
  then show ?case using Cons.prems(2) st r rest(2) by auto
qed

section \<open>Closure\<close>

definition shut :: "'cb pipe \<Rightarrow> pipe_side \<Rightarrow> bool" where
  "shut p s \<longleftrightarrow> local_closed (ep p s) \<and> peer_closed (ep p (side_peer s))"

lemma step_shut: "shut p s \<Longrightarrow> shut (fst (pipe_step p x)) s"
proof (cases x)
  case (PRead s' mx d)
  assume "shut p s"
  with PRead show ?thesis
    by (cases "s = s'"; cases "queue (ep p s')"; cases mx)
      (auto simp: shut_def pipe_read_def Let_def into_parts_def)
qed (auto simp: shut_def pipe_write_def pipe_close_eq register_watch_def
    cancel_registered_watch_def Let_def)

lemma shut_accepts_nothing: "shut p s \<Longrightarrow> accepted_for s' p x = []"
proof (cases x)
  case (PWrite s1 m)
  assume "shut p s"
  with PWrite show ?thesis
    by (cases s; cases s'; cases s1) (auto simp: shut_def pipe_write_def Let_def)
qed auto

lemma run_shut:
  "shut p s \<Longrightarrow> pipe_run s' p xs = (acc, del, ns, q) \<Longrightarrow> shut q s \<and> acc = []"
proof (induction xs arbitrary: p acc del ns q)
  case (Cons x xs)
  from step_shut [OF Cons.prems(1), of x] shut_accepts_nothing [OF Cons.prems(1), of s' x] Cons
  show ?case by (fastforce split: prod.splits)
qed simp

lemma close_shut: "pipe_inv p \<Longrightarrow> shut (fst (pipe_close p s)) s"
  using pipe_invD(2) [of p "side_peer s"] by (auto simp: shut_def pipe_close_eq Let_def)

section \<open>Watches that are gone\<close>

definition pipe_live_ids :: "'cb pipe \<Rightarrow> watch_id set" where
  "pipe_live_ids p = live_ids (watchers (end_a p)) \<union> live_ids (watchers (end_b p))"

lemma pipe_live_ids_ep: "pipe_live_ids p = live_ids (watchers (ep p s)) \<union> live_ids (watchers (ep p (side_peer s)))"
  by (cases s) (auto simp: pipe_live_ids_def)

lemma collect_notifications_ids: "n_id ` set (collect_notifications e) \<subseteq> live_ids (watchers e)"
  by (simp add: collect_notifications_def collect_fired_ids)

lemma step_ids:
  assumes "pipe_inv p"
  shows "n_id ` set (snd (pipe_step p x)) \<subseteq> pipe_live_ids p \<and>
    pipe_live_ids (fst (pipe_step p x)) \<subseteq> pipe_live_ids p \<union> {next_watch_id p} \<and>
    next_watch_id (fst (pipe_step p x)) \<in> {next_watch_id p, next_watch_id p + 1} \<and>
    (next_watch_id (fst (pipe_step p x)) = next_watch_id p \<longrightarrow>
       pipe_live_ids (fst (pipe_step p x)) \<subseteq> pipe_live_ids p)"
proof (cases x)
  case (PWrite s m)
  then show ?thesis
    using collect_notifications_ids [of "(ep p (side_peer s))\<lparr>queue := queue (ep p (side_peer s)) @ [m],
        queued_bytes := queued_bytes (ep p (side_peer s)) + length (m_data m)\<rparr>"]
    by (auto simp: pipe_write_def Let_def pipe_live_ids_ep [of _ s])
next
  case (PRead s mx d)
  then show ?thesis
    using assms collect_notifications_ids [of "(ep p s)\<lparr>queue := tl (queue (ep p s)),
        queued_bytes := bytes_of (tl (queue (ep p s)))\<rparr>"]
    by (cases "queue (ep p s)") (auto simp: pipe_read_eq Let_def pipe_live_ids_ep [of _ s])
next
  case (PClose s)
  then show ?thesis
    using collect_notifications_ids [of "(ep p (side_peer s))\<lparr>peer_closed := True\<rparr>"]
      cancel_all_ids [of "watchers (ep p s)"]
    by (auto simp: pipe_close_eq Let_def pipe_live_ids_ep [of _ s] image_Un)
next
  case (PRegister s sig cb)
  then show ?thesis
    by (auto simp: register_watch_def Let_def pipe_live_ids_ep [of _ s] new_watcher_def)
next
  case (PCancel s i)
  then show ?thesis using mark_cancelled_live_subset
    by (fastforce simp: cancel_registered_watch_def Let_def pipe_live_ids_ep [of _ s])
qed

lemma run_silent:
  "pipe_inv p \<Longrightarrow> i \<notin> pipe_live_ids p \<Longrightarrow> unat i < unat (next_watch_id p) \<Longrightarrow>
   unat (next_watch_id p) + length xs < 2 ^ 64 \<Longrightarrow> pipe_run s p xs = (acc, del, ns, q) \<Longrightarrow>
   i \<notin> n_id ` set ns"
proof (induction xs arbitrary: p acc del ns q)
  case Nil
  then show ?case by simp
next
  case (Cons x xs)
  obtain p' ns1 where st: "pipe_step p x = (p', ns1)" by (cases "pipe_step p x")
  obtain a d n q' where r: "pipe_run s p' xs = (a, d, n, q')" by (cases "pipe_run s p' xs")
  have ids: "n_id ` set ns1 \<subseteq> pipe_live_ids p" "pipe_live_ids p' \<subseteq> pipe_live_ids p \<union> {next_watch_id p}"
    "next_watch_id p' \<in> {next_watch_id p, next_watch_id p + 1}"
    using step_ids [OF Cons.prems(1), of x] st by auto
  have suc: "unat (next_watch_id p + 1) = Suc (unat (next_watch_id p))"
    using Cons.prems(4) by (simp add: unat_word_ariths)
  have "i \<noteq> next_watch_id p" using Cons.prems(3) by auto
  then have "i \<notin> n_id ` set n"
    using ids suc Cons.prems pipe_step_inv [OF Cons.prems(1), of x] st
    by (intro Cons.IH [OF _ _ _ _ r]) auto
  moreover have "i \<notin> n_id ` set ns1" using ids(1) Cons.prems(2) by blast
  moreover have "ns = ns1 @ n" using Cons.prems(5) st r by simp
  ultimately show ?case by (simp add: image_Un)
qed

section \<open>Properties\<close>

text \<open>C24: Per direction, a message pipe is a lossless FIFO: over any interleaving of writes, reads
  (of any size limit), closes and watch calls on both ends of a new pipe, the messages accepted
  for an endpoint are those delivered there, in order, followed by the ones still queued, and the
  byte count kept with the queue is the queue's.\<close>

theorem pipe_history_fifo:
  "case pipe_run s (pipe_create n) xs of (acc, del, _, q) \<Rightarrow>
     acc = del @ queue (ep q s) \<and> queued_bytes (ep q s) = bytes_of (queue (ep q s))"
proof -
  obtain acc del ns q where r: "pipe_run s (pipe_create n) xs = (acc, del, ns, q)"
    by (cases "pipe_run s (pipe_create n) xs")
  have "queue (ep (pipe_create n) s) = []"
    by (cases s) (simp_all add: pipe_create_def endpoint_new_def)
  with pipe_run_queue [OF pipe_create_inv r] pipe_invD(1) [of q s] r show ?thesis
    by (metis (mono_tags, lifting) append_Nil case_prod_conv)
qed


text \<open>The signal state of an open endpoint tells exactly what the operations will do: READABLE is
  satisfied when a read delivers a message, unsatisfiable when a read fails with FailedPrecondition
  and pending when it fails with ShouldWait; WRITABLE is satisfied when a write is accepted and
  unsatisfiable when it fails with FailedPrecondition; everything satisfied is also satisfiable.\<close>

theorem signals_predict_operations:
  assumes op: "\<not> local_closed (ep p s)"
    and st: "st = query_signals p s"
    and rd: "rd = fst (pipe_read p s None d)"
    and wr: "wr = fst (pipe_write p s m)"
  shows "is_satisfied st READABLE = (\<exists>x hs. rd = Ok (ReadMessage x hs)) \<and>
    is_unsatisfiable st READABLE = (rd = Err FailedPrecondition) \<and>
    (\<not> is_satisfied st READABLE \<and> \<not> is_unsatisfiable st READABLE) = (rd = Err ShouldWait) \<and>
    is_satisfied st WRITABLE = (wr = Ok ()) \<and>
    is_unsatisfiable st WRITABLE = (wr = Err FailedPrecondition) \<and>
    contains (satisfiable st) (satisfied st)"
proof (cases "queue (ep p s)")
  case Nil
  then show ?thesis
    using op by (auto simp: st rd wr query_signals_def signals_of_def pipe_read_def
        pipe_write_def Let_def is_satisfied_def is_unsatisfiable_def signal_consts contains_def)
next
  case (Cons x xs)
  then show ?thesis
    using op by (auto simp: st rd wr query_signals_def signals_of_def pipe_read_def
        pipe_write_def Let_def is_satisfied_def is_unsatisfiable_def signal_consts contains_def
        into_parts_def)
qed

theorem signals_predict_operations_witness:
  "is_satisfied (query_signals (pipe_create 1 :: nat pipe) SideA) WRITABLE \<and>
   fst (pipe_read (pipe_create 1 :: nat pipe) SideA None False) = Err ShouldWait"
proof -
  have o: "\<not> local_closed (ep (pipe_create 1 :: nat pipe) SideA)"
    by (simp add: pipe_create_def endpoint_new_def)
  have w: "fst (pipe_write (pipe_create 1 :: nat pipe) SideA message_empty) = Ok ()"
    by (simp add: pipe_create_def endpoint_new_def pipe_write_def Let_def)
  have r: "fst (pipe_read (pipe_create 1 :: nat pipe) SideA None False) = Err ShouldWait"
    by (simp add: pipe_create_def endpoint_new_def pipe_read_def Let_def)
  show ?thesis
    using signals_predict_operations [OF o refl refl refl, of False message_empty] w r by blast
qed

text \<open>Closing an endpoint is final: after it, whatever is called on either end, the endpoint stays
  closed and its peer keeps seeing the closure, no write on either end is accepted any more, closing
  again changes nothing and makes no callback, and the peer can still read what was queued for it,
  in order.\<close>

theorem close_is_final:
  assumes inv: "pipe_inv p" and r: "pipe_run s' (fst (pipe_close p s)) xs = (acc, del, ns, q)"
  shows "local_closed (ep q s) \<and> peer_closed (ep q (side_peer s)) \<and> acc = [] \<and>
    pipe_close q s = (q, []) \<and> fst (pipe_write q s m) = Err InvalidArgument \<and>
    fst (pipe_write q (side_peer s) m) \<noteq> Ok () \<and>
    queue (ep p s') = del @ queue (ep q s')"
proof -
  let ?p1 = "fst (pipe_close p s)"
  have sh: "shut q s" "acc = []" using run_shut [OF close_shut [OF inv] r] by simp_all
  have "queue (ep ?p1 s') = queue (ep p s')" by (auto simp: pipe_close_eq Let_def)
  then have "queue (ep p s') = del @ queue (ep q s')"
    using pipe_run_queue [OF pipe_close_inv [OF inv] r] sh(2) by simp
  with sh show ?thesis by (auto simp: shut_def pipe_close_eq pipe_write_def Let_def)
qed

theorem close_is_final_witness:
  "\<exists>p q :: nat pipe. pipe_inv p \<and>
    pipe_run SideB (fst (pipe_close p SideA)) [PRead SideB None False, PWrite SideA message_empty]
      = ([], [message_empty], [], q) \<and> local_closed (ep q SideA)"
proof -
  let ?p = "fst (snd (pipe_write (pipe_create 1 :: nat pipe) SideA message_empty))"
  obtain acc del ns q where r: "pipe_run SideB (fst (pipe_close ?p SideA))
      [PRead SideB None False, PWrite SideA message_empty] = (acc, del, ns, q)"
    by (metis prod_cases4)
  have inv: "pipe_inv ?p" by (rule pipe_write_inv [OF pipe_create_inv])
  from r have "acc = [] \<and> del = [message_empty] \<and> ns = []"
    by (auto simp: pipe_create_def endpoint_new_def pipe_write_def pipe_close_def pipe_read_def
        message_empty_def Let_def cancel_all_def into_parts_def collect_notifications_def collect_fired_def)
  with close_is_final [OF inv r, of message_empty] inv r show ?thesis by blast
qed

text \<open>Cancellation is effective: once a watch has been cancelled on its endpoint, no later call on
  the pipe invokes its callback (watch ids being fresh until the 64-bit counter wraps).\<close>

theorem cancelled_watch_is_silent:
  assumes inv: "pipe_inv p"
    and fresh: "distinct (map w_id (watchers (end_a p) @ watchers (end_b p)))"
    and old: "unat i < unat (next_watch_id p)"
    and own: "i \<notin> w_id ` set (watchers (ep p (side_peer s)))"
    and short: "unat (next_watch_id p) + length xs < 2 ^ 64"
    and r: "pipe_run s' (cancel_registered_watch p s i) xs = (acc, del, ns, q)"
  shows "i \<notin> n_id ` set ns"
proof -
  let ?p1 = "cancel_registered_watch p s i"
  have "distinct (map w_id (watchers (ep p s)))" using fresh by (cases s) simp_all
  then have "i \<notin> pipe_live_ids ?p1"
    using own live_ids_subset [of "watchers (ep p (side_peer s))"]
    by (auto simp: pipe_live_ids_ep [of _ s] cancel_registered_watch_def Let_def mark_cancelled_live)
  then show ?thesis
    using run_silent [OF cancel_registered_watch_inv [OF inv], of i s i xs s'] old short r
    by (simp add: cancel_registered_watch_def Let_def)
qed

theorem cancelled_watch_is_silent_witness:
  "\<exists>p :: nat pipe. snd (pipe_step p (PWrite SideA message_empty)) \<noteq> [] \<and>
     1 \<notin> n_id ` set (snd (pipe_step (cancel_registered_watch p SideB 1) (PWrite SideA message_empty)))"
proof -
  let ?p = "snd (register_watch (pipe_create 1 :: nat pipe) SideB READABLE 0)"
  let ?x = "PWrite SideA message_empty :: nat pipe_op"
  have inv: "pipe_inv ?p" by (rule register_watch_inv [OF pipe_create_inv])
  have w: "watchers (end_a ?p) = []" "watchers (end_b ?p) = [new_watcher 1 READABLE 0]"
    "next_watch_id ?p = 2"
    by (simp_all add: register_watch_def pipe_create_def endpoint_new_def Let_def)
  obtain ns where ns: "ns = snd (pipe_step (cancel_registered_watch ?p SideB 1) ?x)" by blast
  then have r: "pipe_run SideB (cancel_registered_watch ?p SideB 1) [?x] =
      (accepted_for SideB (cancel_registered_watch ?p SideB 1) ?x, [], ns,
       fst (pipe_step (cancel_registered_watch ?p SideB 1) ?x))"
    by (simp split: prod.splits)
  have "1 \<notin> n_id ` set ns"
    by (rule cancelled_watch_is_silent [OF inv _ _ _ _ r]) (simp_all add: w)
  moreover have "snd (pipe_step ?p ?x) \<noteq> []"
    by (simp add: pipe_write_def register_watch_def pipe_create_def endpoint_new_def Let_def
        collect_notifications_def collect_fired_def new_watcher_def watcher_fires_def
        signals_of_def is_satisfied_def signal_consts contains_def)
  ultimately show ?thesis using ns by blast
qed

end
