(* ===== verification/DataPipe.thy ===== *)
theory DataPipe
  imports Watchers RingBuffer
begin

text \<open>
  Data pipes (\<open>crates/mojo-rs-core/src/data_pipe.rs\<close>): a producer and a consumer endpoint over the
  same shared pages, each with a ring-buffer view of its own, kept in step by control messages
  (byte counts).  Every call runs under the pair's mutex; a panic while it is held poisons the
  mutex, and the model keeps that flag.  The lemmas establish how the two views and the messages
  in flight fit together (\<open>dp_inv\<close>), and that the pair is a first-in first-out byte stream
  (\<open>dp_stream\<close>) under every sequence of calls.
\<close>

section \<open>State\<close>

datatype data_pipe_end = Producer | Consumer

fun dp_peer :: "data_pipe_end \<Rightarrow> data_pipe_end" where
  "dp_peer Producer = Consumer"
| "dp_peer Consumer = Producer"

record read_flags =
  f_all_or_none :: bool
  f_query :: bool
  f_discard :: bool
  f_peek :: bool

definition read_flags_default :: read_flags where
  "read_flags_default = \<lparr>f_all_or_none = False, f_query = False, f_discard = False, f_peek = False\<rparr>"

record dp_read_outcome =
  out_num_bytes :: u32
  out_data :: "byte list"

text \<open>An active two-phase operation: the captured \<open>DirectWriter\<close> or \<open>DirectReader\<close>.\<close>

datatype two_phase = TPWriter span | TPReader span

record 'cb dp_endpoint =
  dp_local_closed :: bool
  dp_peer_closed :: bool
  dp_control :: "u32 list"
  dp_two_phase :: "two_phase option"
  dp_has_new_data :: bool
  dp_watchers :: "'cb watcher list"

definition dp_endpoint_new :: "'cb dp_endpoint" where
  "dp_endpoint_new = \<lparr>dp_local_closed = False, dp_peer_closed = False, dp_control = [],
     dp_two_phase = None, dp_has_new_data = False, dp_watchers = []\<rparr>"

text \<open>
  Both mappings are of the same pages, so the pair keeps the bytes once and a range per view;
  the mutex's poison flag and the process-wide watch counter are part of the state.
\<close>

record 'cb dpair =
  shm :: "byte list"
  prod_range :: ring_range
  cons_range :: ring_range
  prod_ep :: "'cb dp_endpoint"
  cons_ep :: "'cb dp_endpoint"
  element_size :: u32
  poisoned :: bool
  dp_next_watch_id :: u64

fun dp_ep :: "'cb dpair \<Rightarrow> data_pipe_end \<Rightarrow> 'cb dp_endpoint" where
  "dp_ep p Producer = prod_ep p"
| "dp_ep p Consumer = cons_ep p"

fun dp_set_ep :: "'cb dpair \<Rightarrow> data_pipe_end \<Rightarrow> 'cb dp_endpoint \<Rightarrow> 'cb dpair" where
  "dp_set_ep p Producer e = p\<lparr>prod_ep := e\<rparr>"
| "dp_set_ep p Consumer e = p\<lparr>cons_ep := e\<rparr>"

definition producer_ring :: "'cb dpair \<Rightarrow> ring" where
  "producer_ring p = \<lparr>mapping = shm p, data_range = prod_range p\<rparr>"

definition consumer_ring :: "'cb dpair \<Rightarrow> ring" where
  "consumer_ring p = \<lparr>mapping = shm p, data_range = cons_range p\<rparr>"

definition set_producer :: "'cb dpair \<Rightarrow> ring \<Rightarrow> 'cb dpair" where
  "set_producer p r = p\<lparr>shm := mapping r, prod_range := data_range r\<rparr>"

definition set_consumer :: "'cb dpair \<Rightarrow> ring \<Rightarrow> 'cb dpair" where
  "set_consumer p r = p\<lparr>shm := mapping r, cons_range := data_range r\<rparr>"

text \<open>
  \<open>create_pair\<close>.  The shared-memory calls are the platform's: \<open>mem\<close> is the fresh region, or
  \<open>None\<close> when creating, duplicating or mapping it failed.
\<close>

definition create_pair ::
  "byte list option \<Rightarrow> u64 \<Rightarrow> u32 \<Rightarrow> u32 \<Rightarrow> 'cb dpair core_result" where
  "create_pair mem next elem cap =
     (if cap = 0 \<or> elem = 0 \<or> cap < elem then Err InvalidArgument
      else case mem of
        None \<Rightarrow> Err ResourceExhausted
      | Some pages \<Rightarrow>
          Ok \<lparr>shm = pages, prod_range = data_range (ring_new pages),
              cons_range = data_range (ring_new pages), prod_ep = dp_endpoint_new,
              cons_ep = dp_endpoint_new, element_size = elem, poisoned = False,
              dp_next_watch_id = next\<rparr>)"

text \<open>Run a body under the mutex: \<open>Internal\<close> when poisoned, poisoning it when the body panics.\<close>

definition with_lock ::
  "'cb dpair \<Rightarrow> ('a core_result \<times> 'cb dpair \<times> 'cb notification list) option \<Rightarrow>
   'a core_result \<times> 'cb dpair \<times> 'cb notification list" where
  "with_lock p body =
     (if poisoned p then (Err Internal, p, [])
      else case body of
        None \<Rightarrow> (Panic, p\<lparr>poisoned := True\<rparr>, [])
      | Some x \<Rightarrow> x)"

section \<open>Control messages and signals\<close>

text \<open>The accumulation loop: an overflowing message is consumed and ends the loop.\<close>

fun drain_control :: "u32 list \<Rightarrow> nat \<Rightarrow> u32 list \<times> nat" where
  "drain_control [] changed = ([], changed)"
| "drain_control (v # vs) changed =
     (case checked_add changed (unat v) of
        Some s \<Rightarrow> drain_control vs s
      | None \<Rightarrow> (vs, changed))"

definition flush_locked :: "'cb dpair \<Rightarrow> data_pipe_end \<Rightarrow> 'cb dpair option" where
  "flush_locked p s =
     (let (rest, changed) = drain_control (dp_control (dp_ep p s)) 0;
          p1 = dp_set_ep p s ((dp_ep p s)\<lparr>dp_control := rest\<rparr>)
      in if changed = 0 then Some p1
         else case s of
           Producer \<Rightarrow> do {
             (_, r) \<leftarrow> discard_all (producer_ring p1) changed;
             Some (set_producer p1 r) }
         | Consumer \<Rightarrow> do {
             (ok, r) \<leftarrow> extend_data_range (consumer_ring p1) changed;
             _ \<leftarrow> debug_assert ok;
             let p2 = set_consumer p1 r in
             Some (dp_set_ep p2 Consumer ((dp_ep p2 Consumer)\<lparr>dp_has_new_data := True\<rparr>)) })"

text \<open>\<open>signals_of\<close>: may latch \<open>has_new_data\<close>, so it returns the pair too.\<close>

definition dp_signals_of :: "'cb dpair \<Rightarrow> data_pipe_end \<Rightarrow> (signals_state \<times> 'cb dpair) option" where
  "dp_signals_of p s =
     (let e = dp_ep p s;
          closed = dp_peer_closed e;
          parcels = length (dp_control e);
          able0 = NONE OR PEER_CLOSED;
          sat0 = (if closed then NONE OR PEER_CLOSED else NONE);
          able1 = (if closed then able0 else able0 OR PEER_REMOTE)
      in case s of
        Consumer \<Rightarrow>
          let ds = data_size (consumer_ring p);
              new = (dp_has_new_data e \<or> parcels > 0);
              p1 = (if new then dp_set_ep p s (e\<lparr>dp_has_new_data := True\<rparr>) else p);
              sat1 = (if new then sat0 OR NEW_DATA_READABLE else sat0);
              able2 = (if new then able1 OR NEW_DATA_READABLE else able1);
              any_data = (new \<or> ds > 0);
              able3 = (if any_data then able2 OR READABLE else able2);
              sat2 = (if any_data then sat1 OR READABLE else sat1);
              able4 = (if \<not> closed then able3 OR READABLE OR NEW_DATA_READABLE else able3)
          in Some (\<lparr>satisfied = sat2, satisfiable = able4\<rparr>, p1)
      | Producer \<Rightarrow>
          if closed then Some (\<lparr>satisfied = sat0, satisfiable = able1\<rparr>, p)
          else do {
            av \<leftarrow> available_capacity (producer_ring p);
            Some (\<lparr>satisfied = (if av > 0 \<or> parcels > 0 then sat0 OR WRITABLE else sat0),
                   satisfiable = able1 OR WRITABLE\<rparr>, p) })"

definition collect_watchers :: "'cb dpair \<Rightarrow> data_pipe_end \<Rightarrow> ('cb notification list \<times> 'cb dpair) option" where
  "collect_watchers p s = do {
     (sig, p1) \<leftarrow> dp_signals_of p s;
     Some (collect_fired sig (dp_watchers (dp_ep p1 s)), p1) }"

definition push_control :: "'cb dpair \<Rightarrow> data_pipe_end \<Rightarrow> u32 \<Rightarrow> 'cb dpair" where
  "push_control p s n = dp_set_ep p s ((dp_ep p s)\<lparr>dp_control := dp_control (dp_ep p s) @ [n]\<rparr>)"

definition push_and_collect ::
  "'cb dpair \<Rightarrow> data_pipe_end \<Rightarrow> u32 \<Rightarrow> ('cb notification list \<times> 'cb dpair) option" where
  "push_and_collect p peer n =
     (if n = 0 then Some ([], p) else collect_watchers (push_control p peer n) peer)"

section \<open>Writing\<close>

definition dp_write ::
  "'cb dpair \<Rightarrow> data_pipe_end \<Rightarrow> byte list \<Rightarrow> u32 \<Rightarrow> bool \<Rightarrow>
   u32 core_result \<times> 'cb dpair \<times> 'cb notification list" where
  "dp_write p s elements num_bytes all_or_none =
     (case urem (unat num_bytes) (unat (element_size p)) of
        None \<Rightarrow> (Panic, p, [])
      | Some rem \<Rightarrow>
      if rem \<noteq> 0 then (Err InvalidArgument, p, [])
      else with_lock p (do {
        p1 \<leftarrow> flush_locked p s;
        if dp_two_phase (dp_ep p1 s) \<noteq> None then Some (Err Busy, p1, [])
        else if dp_peer_closed (dp_ep p1 s) then Some (Err FailedPrecondition, p1, [])
        else do {
          source \<leftarrow> slice elements 0 (unat num_bytes);
          (res, p2) \<leftarrow>
            (if all_or_none then do {
               (ok, r) \<leftarrow> ring_write_all (producer_ring p1) source;
               Some (if \<not> ok then Err (if num_bytes = 0 then ShouldWait else OutOfRange)
                     else Ok num_bytes, set_producer p1 r) }
             else do {
               (k, r) \<leftarrow> ring_write (producer_ring p1) source;
               Some (if k = 0 \<and> elements \<noteq> [] then Err ShouldWait
                     else Ok (of_nat k), set_producer p1 r) });
          (case res of
             Ok written \<Rightarrow> do {
               (ns, p3) \<leftarrow> push_and_collect p2 (dp_peer s) written;
               Some (Ok written, p3, ns) }
           | _ \<Rightarrow> Some (res, p2, [])) } }))"

definition dp_begin_write ::
  "'cb dpair \<Rightarrow> data_pipe_end \<Rightarrow> span core_result \<times> 'cb dpair \<times> 'cb notification list" where
  "dp_begin_write p s = with_lock p (do {
     p1 \<leftarrow> flush_locked p s;
     if dp_two_phase (dp_ep p1 s) \<noteq> None then Some (Err Busy, p1, [])
     else if dp_peer_closed (dp_ep p1 s) then Some (Err FailedPrecondition, p1, [])
     else do {
       w \<leftarrow> ring_begin_write (producer_ring p1);
       if span_is_empty w then Some (Err ShouldWait, p1, [])
       else Some (Ok w, dp_set_ep p1 s ((dp_ep p1 s)\<lparr>dp_two_phase := Some (TPWriter w)\<rparr>), []) } })"

text \<open>
  Between \<open>begin_write\<close> and \<open>end_write\<close> the caller stores through the span it holds; indexing past
  the span panics in the caller and leaves the pipe as it was.
\<close>

definition dp_store :: "'cb dpair \<Rightarrow> byte list \<Rightarrow> 'cb dpair" where
  "dp_store p xs =
     (case dp_two_phase (prod_ep p) of
        Some (TPWriter w) \<Rightarrow>
          (case span_store (shm p) w xs of Some m \<Rightarrow> p\<lparr>shm := m\<rparr> | None \<Rightarrow> p)
      | _ \<Rightarrow> p)"

definition dp_end_write ::
  "'cb dpair \<Rightarrow> data_pipe_end \<Rightarrow> u32 \<Rightarrow> unit core_result \<times> 'cb dpair \<times> 'cb notification list" where
  "dp_end_write p s produced = with_lock p
     (case dp_two_phase (dp_ep p s) of
        None \<Rightarrow> Some (Err FailedPrecondition, p, [])
      | Some two \<Rightarrow>
          let p1 = dp_set_ep p s ((dp_ep p s)\<lparr>dp_two_phase := None\<rparr>) in do {
          rem \<leftarrow> urem (unat produced) (unat (element_size p1));
          if rem \<noteq> 0 then Some (Err InvalidArgument, p1, [])
          else if produced = 0 then Some (Ok (), p1, [])
          else case two of
            TPReader _ \<Rightarrow> Some (Err InvalidArgument, p1, [])
          | TPWriter w \<Rightarrow> do {
              (ok, r) \<leftarrow> direct_writer_commit w (unat produced) (producer_ring p1);
              if \<not> ok then Some (Err InvalidArgument, set_producer p1 r, [])
              else do {
                (ns, p2) \<leftarrow> collect_watchers (push_control (set_producer p1 r) (dp_peer s) produced)
                            (dp_peer s);
                Some (Ok (), p2, ns) } } })"

section \<open>Reading\<close>

text \<open>\<open>out[..n]\<close> of the caller's optional buffer, and the buffer after its prefix was overwritten.\<close>

definition out_prefix :: "byte list option \<Rightarrow> nat \<Rightarrow> byte list option" where
  "out_prefix elements n = slice (case elements of None \<Rightarrow> [] | Some b \<Rightarrow> b) 0 n"

definition put_prefix :: "byte list option \<Rightarrow> byte list \<Rightarrow> byte list option" where
  "put_prefix elements t = (case elements of None \<Rightarrow> None | Some b \<Rightarrow> Some (t @ drop (length t) b))"

text \<open>The three transfers of the all-or-none path: success, the caller's buffer, the pair.\<close>

definition transfer_all ::
  "'cb dpair \<Rightarrow> byte list option \<Rightarrow> u32 \<Rightarrow> read_flags \<Rightarrow> (bool \<times> byte list option \<times> 'cb dpair) option" where
  "transfer_all p elements n f =
     (if f_discard f then do {
        (ok, r) \<leftarrow> discard_all (consumer_ring p) (unat n);
        Some (ok, elements, set_consumer p r) }
      else if f_peek f then do {
        out \<leftarrow> out_prefix elements (unat n);
        (ok, t) \<leftarrow> ring_peek_all (consumer_ring p) out;
        Some (ok, put_prefix elements t, p) }
      else do {
        out \<leftarrow> out_prefix elements (unat n);
        (ok, t, r) \<leftarrow> ring_read_all (consumer_ring p) out;
        Some (ok, put_prefix elements t, set_consumer p r) })"

definition transfer_some ::
  "'cb dpair \<Rightarrow> byte list option \<Rightarrow> u32 \<Rightarrow> read_flags \<Rightarrow>
   (u32 \<times> byte list \<times> byte list option \<times> 'cb dpair) option" where
  "transfer_some p elements n f =
     (if f_discard f then do {
        let k = min n (of_nat (data_size (consumer_ring p)));
        (_, r) \<leftarrow> ring_discard (consumer_ring p) (unat k);
        Some (k, [], elements, set_consumer p r) }
      else if f_peek f then do {
        out \<leftarrow> out_prefix elements (unat n);
        (k, t) \<leftarrow> ring_peek (consumer_ring p) out;
        let rs = (of_nat k :: u32);
        let es = put_prefix elements t;
        d \<leftarrow> out_prefix es (unat rs);
        Some (rs, d, es, p) }
      else do {
        out \<leftarrow> out_prefix elements (unat n);
        (k, t, r) \<leftarrow> ring_read (consumer_ring p) out;
        let rs = (of_nat k :: u32);
        let es = put_prefix elements t;
        d \<leftarrow> out_prefix es (unat rs);
        Some (rs, d, es, set_consumer p r) })"

text \<open>The common end of both paths.  The result carries the caller's buffer; on an error it is unchanged.\<close>

definition finish_read ::
  "'cb dpair \<Rightarrow> data_pipe_end \<Rightarrow> u32 \<Rightarrow> byte list \<Rightarrow> byte list option \<Rightarrow> read_flags \<Rightarrow>
   ((dp_read_outcome \<times> byte list option) core_result \<times> 'cb dpair \<times> 'cb notification list) option" where
  "finish_read p s n d es f =
     (let res = Ok (\<lparr>out_num_bytes = n, out_data = d\<rparr>, es) in
      if f_peek f \<or> n = 0 then Some (res, p, [])
      else do { (ns, p1) \<leftarrow> push_and_collect p (dp_peer s) n; Some (res, p1, ns) })"

definition dp_read ::
  "'cb dpair \<Rightarrow> data_pipe_end \<Rightarrow> byte list option \<Rightarrow> u32 \<Rightarrow> read_flags \<Rightarrow>
   (dp_read_outcome \<times> byte list option) core_result \<times> 'cb dpair \<times> 'cb notification list" where
  "dp_read p s elements num_bytes f =
     (if (f_peek f \<and> f_discard f) \<or> (f_query f \<and> (f_peek f \<or> f_discard f))
      then (Err InvalidArgument, p, [])
      else if \<not> (f_discard f \<or> f_query f) \<and> elements = None \<and> num_bytes > 0
      then (Err InvalidArgument, p, [])
      else with_lock p (do {
        p1 \<leftarrow> flush_locked p s;
        if dp_two_phase (dp_ep p1 s) \<noteq> None then Some (Err Busy, p1, [])
        else
          let ds = data_size (consumer_ring p1) in
          if f_query f then Some (Ok (\<lparr>out_num_bytes = of_nat ds, out_data = []\<rparr>, elements), p1, [])
          else do {
            rem \<leftarrow> urem (unat num_bytes) (unat (element_size p1));
            if rem \<noteq> 0 then Some (Err InvalidArgument, p1, [])
            else
              let p2 = dp_set_ep p1 s ((dp_ep p1 s)\<lparr>dp_has_new_data := False\<rparr>);
                  closed = dp_peer_closed (dp_ep p2 s) in
              if f_all_or_none f then do {
                (success, es, p3) \<leftarrow> transfer_all p2 elements num_bytes f;
                if \<not> success
                then Some (Err (if closed then FailedPrecondition else OutOfRange), p3, [])
                else do {
                  d \<leftarrow> (if f_discard f then Some [] else out_prefix es (unat num_bytes));
                  finish_read p3 s num_bytes d es f } }
              else if ds = 0
              then Some (Err (if closed then FailedPrecondition else ShouldWait), p2, [])
              else do {
                (n, d, es, p3) \<leftarrow> transfer_some p2 elements num_bytes f;
                finish_read p3 s n d es f } } }))"

definition dp_begin_read ::
  "'cb dpair \<Rightarrow> data_pipe_end \<Rightarrow> span core_result \<times> 'cb dpair \<times> 'cb notification list" where
  "dp_begin_read p s = with_lock p (do {
     p1 \<leftarrow> flush_locked p s;
     if dp_two_phase (dp_ep p1 s) \<noteq> None then Some (Err Busy, p1, [])
     else do {
       w \<leftarrow> ring_begin_read (consumer_ring p1);
       if span_is_empty w
       then Some (Err (if dp_peer_closed (dp_ep p1 s) then FailedPrecondition else ShouldWait), p1, [])
       else Some (Ok w, dp_set_ep p1 s
              ((dp_ep p1 s)\<lparr>dp_two_phase := Some (TPReader w), dp_has_new_data := False\<rparr>), []) } })"

definition dp_end_read ::
  "'cb dpair \<Rightarrow> data_pipe_end \<Rightarrow> u32 \<Rightarrow> unit core_result \<times> 'cb dpair \<times> 'cb notification list" where
  "dp_end_read p s consumed = with_lock p
     (case dp_two_phase (dp_ep p s) of
        None \<Rightarrow> Some (Err FailedPrecondition, p, [])
      | Some two \<Rightarrow>
          let p1 = dp_set_ep p s ((dp_ep p s)\<lparr>dp_two_phase := None\<rparr>) in do {
          rem \<leftarrow> urem (unat consumed) (unat (element_size p1));
          if rem \<noteq> 0 then Some (Err InvalidArgument, p1, [])
          else if consumed = 0 then Some (Ok (), p1, [])
          else case two of
            TPWriter _ \<Rightarrow> Some (Err InvalidArgument, p1, [])
          | TPReader w \<Rightarrow> do {
              (ok, r) \<leftarrow> direct_reader_consume w (unat consumed) (consumer_ring p1);
              if \<not> ok then Some (Err InvalidArgument, set_consumer p1 r, [])
              else do {
                (ns, p2) \<leftarrow> collect_watchers (push_control (set_consumer p1 r) (dp_peer s) consumed)
                            (dp_peer s);
                Some (Ok (), p2, ns) } } })"

section \<open>Signals, closing and watches\<close>

text \<open>\<open>query_signals\<close> returns the default state when the mutex is poisoned.\<close>

definition dp_query_signals :: "'cb dpair \<Rightarrow> data_pipe_end \<Rightarrow> signals_state core_result \<times> 'cb dpair" where
  "dp_query_signals p s =
     (if poisoned p then (Ok signals_default, p)
      else let (r, p', _) = with_lock p (do {
             p1 \<leftarrow> flush_locked p s;
             (sig, p2) \<leftarrow> dp_signals_of p1 s;
             Some (Ok sig, p2, []) })
           in (r, p'))"

definition dp_close :: "'cb dpair \<Rightarrow> data_pipe_end \<Rightarrow> unit core_result \<times> 'cb dpair \<times> 'cb notification list" where
  "dp_close p s =
     (if poisoned p then (Ok (), p, [])
      else with_lock p (
        let e = dp_ep p s in
        if dp_local_closed e then Some (Ok (), p, [])
        else
          let (ws, cancelled) = cancel_all (dp_watchers e);
              p1 = dp_set_ep p s (e\<lparr>dp_local_closed := True, dp_watchers := ws\<rparr>);
              p2 = dp_set_ep p1 (dp_peer s) ((dp_ep p1 (dp_peer s))\<lparr>dp_peer_closed := True\<rparr>)
          in do {
            (ns, p3) \<leftarrow> collect_watchers p2 (dp_peer s);
            Some (Ok (), p3, cancelled @ ns) }))"

definition dp_register_watch ::
  "'cb dpair \<Rightarrow> data_pipe_end \<Rightarrow> signals \<Rightarrow> 'cb \<Rightarrow> watch_id \<times> 'cb dpair" where
  "dp_register_watch p s sig cb =
     (let i = dp_next_watch_id p; p1 = p\<lparr>dp_next_watch_id := i + 1\<rparr>; e = dp_ep p1 s in
      if poisoned p1 then (i, p1)
      else if dp_local_closed e then (i, p1)
      else (i, dp_set_ep p1 s (e\<lparr>dp_watchers := dp_watchers e @ [new_watcher i sig cb]\<rparr>)))"

definition dp_cancel_watch :: "'cb dpair \<Rightarrow> data_pipe_end \<Rightarrow> watch_id \<Rightarrow> 'cb dpair" where
  "dp_cancel_watch p s i =
     (if poisoned p then p
      else let e = dp_ep p s in dp_set_ep p s (e\<lparr>dp_watchers := mark_cancelled i (dp_watchers e)\<rparr>))"


section \<open>The invariant\<close>

text \<open>The bytes announced to an endpoint and not yet applied by it.\<close>

definition pend :: "'cb dp_endpoint \<Rightarrow> nat" where
  "pend e = sum_list (map unat (dp_control e))"

text \<open>
  How the two views fit: the consumer's range starts \<open>r\<close> bytes (read, not yet applied by the
  producer) behind the producer's, and the producer's range is those bytes, the consumer's range,
  and the \<open>w\<close> bytes written but not yet applied by the consumer.
\<close>

definition dp_geometry :: "nat \<Rightarrow> ring_range \<Rightarrow> ring_range \<Rightarrow> nat \<Rightarrow> nat \<Rightarrow> bool" where
  "dp_geometry c pr cr w r \<longleftrightarrow> 0 < c \<and> c < 2 ^ 32 \<and> r_offset pr < c \<and> r_size pr \<le> c \<and>
     r_offset cr = (r_offset pr + r) mod c \<and> r_size pr = r_size cr + w + r"

text \<open>A captured writer span stays inside the free space, a reader span at the head of the data.\<close>

fun writer_ok :: "nat \<Rightarrow> ring_range \<Rightarrow> two_phase option \<Rightarrow> bool" where
  "writer_ok c pr None = True"
| "writer_ok c pr (Some (TPWriter w)) \<longleftrightarrow> span_ptr w = (r_offset pr + r_size pr) mod c \<and>
     span_len w \<le> c - r_size pr \<and> span_ptr w + span_len w \<le> c"
| "writer_ok c pr (Some (TPReader w)) = False"

fun reader_ok :: "nat \<Rightarrow> ring_range \<Rightarrow> two_phase option \<Rightarrow> bool" where
  "reader_ok c cr None = True"
| "reader_ok c cr (Some (TPReader w)) \<longleftrightarrow> span_ptr w = r_offset cr \<and>
     span_len w \<le> r_size cr \<and> span_ptr w + span_len w \<le> c"
| "reader_ok c cr (Some (TPWriter w)) = False"

text \<open>A latched \<open>has_new_data\<close> means there is data beyond what an active reader captured.\<close>

definition latch_ok :: "nat \<Rightarrow> 'cb dp_endpoint \<Rightarrow> bool" where
  "latch_ok n e \<longleftrightarrow> (dp_has_new_data e \<longrightarrow>
     (case dp_two_phase e of Some (TPReader w) \<Rightarrow> span_len w < n | _ \<Rightarrow> 0 < n))"

definition dp_inv :: "'cb dpair \<Rightarrow> bool" where
  "dp_inv p \<longleftrightarrow> \<not> poisoned p \<and> 0 < element_size p \<and>
     dp_geometry (length (shm p)) (prod_range p) (cons_range p) (pend (cons_ep p)) (pend (prod_ep p)) \<and>
     0 \<notin> set (dp_control (prod_ep p)) \<and> 0 \<notin> set (dp_control (cons_ep p)) \<and>
     writer_ok (length (shm p)) (prod_range p) (dp_two_phase (prod_ep p)) \<and>
     reader_ok (length (shm p)) (cons_range p) (dp_two_phase (cons_ep p)) \<and>
     latch_ok (r_size (cons_range p) + pend (cons_ep p)) (cons_ep p) \<and>
     (dp_peer_closed (prod_ep p) \<longleftrightarrow> dp_local_closed (cons_ep p)) \<and>
     (dp_peer_closed (cons_ep p) \<longleftrightarrow> dp_local_closed (prod_ep p))"

text \<open>The bytes written and not yet read, in order.\<close>

definition dp_stream :: "'cb dpair \<Rightarrow> byte list" where
  "dp_stream p = circ (shm p) (r_offset (cons_range p)) (r_size (cons_range p) + pend (cons_ep p))"

lemma length_dp_stream: "length (dp_stream p) = r_size (cons_range p) + pend (cons_ep p)"
  by (simp add: dp_stream_def)

lemma pend_simps [simp]:
  "pend (e\<lparr>dp_control := []\<rparr>) = 0"
  "pend (e\<lparr>dp_control := cs\<rparr>) = sum_list (map unat cs)"
  "pend (e\<lparr>dp_two_phase := tp\<rparr>) = pend e"
  "pend (e\<lparr>dp_has_new_data := b\<rparr>) = pend e"
  "pend (e\<lparr>dp_watchers := ws\<rparr>) = pend e"
  "pend (e\<lparr>dp_local_closed := b\<rparr>) = pend e"
  "pend (e\<lparr>dp_peer_closed := b\<rparr>) = pend e"
  by (simp_all add: pend_def)

lemma pend_eq_0: "0 \<notin> set (dp_control e) \<Longrightarrow> pend e = 0 \<longleftrightarrow> dp_control e = []"
  by (cases "dp_control e") (auto simp: pend_def unat_eq_0)

lemma latch_ok_simps [simp]:
  "latch_ok n (e\<lparr>dp_control := cs\<rparr>) = latch_ok n e"
  "latch_ok n (e\<lparr>dp_watchers := ws\<rparr>) = latch_ok n e"
  "latch_ok n (e\<lparr>dp_local_closed := b\<rparr>) = latch_ok n e"
  "latch_ok n (e\<lparr>dp_peer_closed := b\<rparr>) = latch_ok n e"
  "latch_ok n (e\<lparr>dp_has_new_data := False\<rparr>)"
  by (simp_all add: latch_ok_def)

lemma latch_ok_mono: "latch_ok n e \<Longrightarrow> n \<le> m \<Longrightarrow> latch_ok m e"
  by (auto simp: latch_ok_def split: option.splits two_phase.splits)

lemma dp_invD:
  assumes "dp_inv p"
  shows "\<not> poisoned p" "0 < element_size p" "0 < length (shm p)" "length (shm p) < 2 ^ 32"
    "r_offset (prod_range p) < length (shm p)" "r_size (prod_range p) \<le> length (shm p)"
    "r_offset (cons_range p) = (r_offset (prod_range p) + pend (prod_ep p)) mod length (shm p)"
    "r_size (prod_range p) = r_size (cons_range p) + pend (cons_ep p) + pend (prod_ep p)"
    "r_offset (cons_range p) < length (shm p)"
    "0 \<notin> set (dp_control (prod_ep p))" "0 \<notin> set (dp_control (cons_ep p))"
    "writer_ok (length (shm p)) (prod_range p) (dp_two_phase (prod_ep p))"
    "reader_ok (length (shm p)) (cons_range p) (dp_two_phase (cons_ep p))"
    "latch_ok (r_size (cons_range p) + pend (cons_ep p)) (cons_ep p)"
    "dp_peer_closed (prod_ep p) \<longleftrightarrow> dp_local_closed (cons_ep p)"
    "dp_peer_closed (cons_ep p) \<longleftrightarrow> dp_local_closed (prod_ep p)"
  using assms by (auto simp: dp_inv_def dp_geometry_def)

lemma dp_rings:
  assumes "dp_inv p"
  shows "ring_inv (producer_ring p)" "ring_inv (consumer_ring p)"
  using dp_invD [OF assms]
  by (simp_all add: ring_inv_def producer_ring_def consumer_ring_def ring_capacity_def data_size_def)

text \<open>The stream is the consumer's data once it has flushed, and the tail of the producer's.\<close>

lemma dp_stream_consumer:
  "dp_control (cons_ep p) = [] \<Longrightarrow> dp_stream p = ring_data (consumer_ring p)"
  by (simp add: dp_stream_def ring_data_def consumer_ring_def data_size_def pend_def)

lemma drain_control_eq:
  "n + sum_list (map unat vs) < usize_limit \<Longrightarrow>
   drain_control vs n = ([], n + sum_list (map unat vs))"
  by (induction vs arbitrary: n) (auto simp: add.assoc)

section \<open>The transformations the operations are made of\<close>

definition flush_producer :: "'cb dpair \<Rightarrow> 'cb dpair" where
  "flush_producer p = p\<lparr>prod_range :=
       \<lparr>r_offset = r_offset (cons_range p), r_size = r_size (cons_range p) + pend (cons_ep p)\<rparr>,
     prod_ep := (prod_ep p)\<lparr>dp_control := []\<rparr>\<rparr>"

definition flush_consumer :: "'cb dpair \<Rightarrow> 'cb dpair" where
  "flush_consumer p = p\<lparr>cons_range :=
       \<lparr>r_offset = r_offset (cons_range p), r_size = r_size (cons_range p) + pend (cons_ep p)\<rparr>,
     cons_ep := (cons_ep p)\<lparr>dp_control := [],
       dp_has_new_data := (dp_has_new_data (cons_ep p) \<or> dp_control (cons_ep p) \<noteq> [])\<rparr>\<rparr>"

definition latch :: "'cb dpair \<Rightarrow> 'cb dpair" where
  "latch p = p\<lparr>cons_ep := (cons_ep p)\<lparr>dp_has_new_data :=
     (dp_has_new_data (cons_ep p) \<or> dp_control (cons_ep p) \<noteq> [])\<rparr>\<rparr>"

definition announce_written :: "'cb dpair \<Rightarrow> u32 \<Rightarrow> 'cb dpair" where
  "announce_written p n = p\<lparr>prod_range := (prod_range p)\<lparr>r_size := r_size (prod_range p) + unat n\<rparr>,
     cons_ep := (cons_ep p)\<lparr>dp_control := dp_control (cons_ep p) @ [n]\<rparr>\<rparr>"

definition announce_read :: "'cb dpair \<Rightarrow> u32 \<Rightarrow> 'cb dpair" where
  "announce_read p n = p\<lparr>cons_range :=
       \<lparr>r_offset = (r_offset (cons_range p) + unat n) mod length (shm p),
        r_size = r_size (cons_range p) - unat n\<rparr>,
     prod_ep := (prod_ep p)\<lparr>dp_control := dp_control (prod_ep p) @ [n]\<rparr>\<rparr>"

lemma ring_range_eqI: "r_offset a = r_offset b \<Longrightarrow> r_size a = r_size b \<Longrightarrow> a = (b :: ring_range)"
  by simp

lemma flush_producer_eq:
  assumes inv: "dp_inv p"
  shows "flush_locked p Producer = Some (flush_producer p)"
proof -
  note d = dp_invD [OF inv]
  let ?p1 = "p\<lparr>prod_ep := (prod_ep p)\<lparr>dp_control := []\<rparr>\<rparr>"
  have dr: "drain_control (dp_control (prod_ep p)) 0 = ([], pend (prod_ep p))"
    using drain_control_eq [of 0 "dp_control (prod_ep p)"] d by (simp add: pend_def usize_limit_def)
  have ri: "ring_inv (producer_ring ?p1)" "data_size (producer_ring ?p1) = r_size (prod_range p)"
    "ring_capacity (producer_ring ?p1) = length (shm p)"
    using dp_rings(1) [OF inv] by (simp_all add: producer_ring_def data_size_def ring_capacity_def)
  show ?thesis
  proof (cases "pend (prod_ep p) = 0")
    case True
    then have "prod_range p =
        \<lparr>r_offset = r_offset (cons_range p), r_size = r_size (cons_range p) + pend (cons_ep p)\<rparr>"
      using d by (intro ring_range_eqI) auto
    then have "?p1 = flush_producer p" by (simp add: flush_producer_def)
    then show ?thesis using True dr by (simp add: flush_locked_def)
  next
    case False
    then show ?thesis using dr d ri
      by (simp add: flush_locked_def discard_all_eq flush_producer_def set_producer_def producer_ring_def)
  qed
qed

lemma flush_consumer_eq:
  assumes inv: "dp_inv p"
  shows "flush_locked p Consumer = Some (flush_consumer p)"
proof -
  note d = dp_invD [OF inv]
  let ?p1 = "p\<lparr>cons_ep := (cons_ep p)\<lparr>dp_control := []\<rparr>\<rparr>"
  have dr: "drain_control (dp_control (cons_ep p)) 0 = ([], pend (cons_ep p))"
    using drain_control_eq [of 0 "dp_control (cons_ep p)"] d by (simp add: pend_def usize_limit_def)
  have ri: "ring_inv (consumer_ring ?p1)" "data_size (consumer_ring ?p1) = r_size (cons_range p)"
    "ring_room (consumer_ring ?p1) = length (shm p) - r_size (cons_range p)"
    using dp_rings(2) [OF inv]
    by (simp_all add: consumer_ring_def data_size_def ring_capacity_def ring_room_def)
  show ?thesis
  proof (cases "pend (cons_ep p) = 0")
    case True
    then have "dp_control (cons_ep p) = []" using pend_eq_0 d by blast
    then have "?p1 = flush_consumer p" using True
      by (simp add: flush_consumer_def)
    then show ?thesis using True dr by (simp add: flush_locked_def)
  next
    case False
    then have "dp_control (cons_ep p) \<noteq> []" by (auto simp: pend_def)
    then show ?thesis using False dr d ri
      by (simp add: flush_locked_def extend_data_range_eq flush_consumer_def set_consumer_def
          consumer_ring_def)
  qed
qed

lemma mod_add_shift: "((a + b) mod c + d) mod c = (a + (b + d)) mod (c::nat)"
  by (simp add: mod_add_left_eq add.assoc)

text \<open>The write position, seen from either end.\<close>

lemma write_offset:
  assumes "dp_inv p"
  shows "(r_offset (cons_range p) + (r_size (cons_range p) + pend (cons_ep p))) mod length (shm p) =
      (r_offset (prod_range p) + r_size (prod_range p)) mod length (shm p)"
  unfolding dp_invD(7) [OF assms] dp_invD(8) [OF assms] mod_add_shift by (simp add: ac_simps)

text \<open>Each of them keeps the invariant, and says what becomes of the stream.\<close>

lemma flush_producer_inv [inv_intros]: "dp_inv p \<Longrightarrow> dp_inv (flush_producer p)"
proof -
  assume inv: "dp_inv p"
  note d = dp_invD [OF inv]
  let ?c = "length (shm p)"
  note off = write_offset [OF inv]
  have w: "writer_ok ?c \<lparr>r_offset = r_offset (cons_range p),
       r_size = r_size (cons_range p) + pend (cons_ep p)\<rparr> (dp_two_phase (prod_ep p))"
    using d(12) off d(8)
    by (cases "dp_two_phase (prod_ep p)"; cases "the (dp_two_phase (prod_ep p))") auto
  show ?thesis
    using d w by (simp add: dp_inv_def dp_geometry_def flush_producer_def)
qed

lemma flush_producer_stream [simp]: "dp_stream (flush_producer p) = dp_stream p"
  by (simp add: dp_stream_def flush_producer_def)

lemma reader_ok_mono:
  "reader_ok c r tp \<Longrightarrow> r_offset r' = r_offset r \<Longrightarrow> r_size r \<le> r_size r' \<Longrightarrow> reader_ok c r' tp"
  by (cases tp; cases "the tp") auto

lemma latch_ok_latched:
  assumes "latch_ok (m + pend e) e" "reader_ok c r (dp_two_phase e)" "r_size r = m"
    and "0 \<notin> set (dp_control e)"
  shows "latch_ok (m + pend e) (e\<lparr>dp_has_new_data := (dp_has_new_data e \<or> dp_control e \<noteq> [])\<rparr>)"
proof (cases "dp_control e = []")
  case True
  then show ?thesis using assms(1) by (simp add: latch_ok_def)
next
  case False
  then have "0 < pend e" using pend_eq_0 [OF assms(4)] by simp
  then show ?thesis using assms(2,3)
    by (cases "dp_two_phase e"; cases "the (dp_two_phase e)") (auto simp: latch_ok_def)
qed

lemma flush_consumer_inv [inv_intros]: "dp_inv p \<Longrightarrow> dp_inv (flush_consumer p)"
proof -
  assume inv: "dp_inv p"
  note d = dp_invD [OF inv]
  have "reader_ok (length (shm p)) \<lparr>r_offset = r_offset (cons_range p),
      r_size = r_size (cons_range p) + pend (cons_ep p)\<rparr> (dp_two_phase (cons_ep p))"
    by (rule reader_ok_mono [OF d(13)]) simp_all
  moreover note latch_ok_latched [OF d(14,13) refl d(11)]
  ultimately show ?thesis
    using d by (simp add: dp_inv_def dp_geometry_def flush_consumer_def latch_ok_def)
qed

lemma flush_consumer_stream [simp]: "dp_stream (flush_consumer p) = dp_stream p"
  by (simp add: dp_stream_def flush_consumer_def pend_def)

lemma latch_inv [inv_intros]: "dp_inv p \<Longrightarrow> dp_inv (latch p)"
  using latch_ok_latched [OF dp_invD(14,13) refl dp_invD(11), of p]
  by (auto simp: dp_inv_def dp_geometry_def latch_def)

lemma latch_stream [simp]: "dp_stream (latch p) = dp_stream p"
  by (simp add: dp_stream_def latch_def)

lemma write_position:
  assumes "dp_inv p" and "length m = length (shm p)"
  shows "circ m (r_offset (prod_range p) + r_size (prod_range p)) n =
      circ m (r_offset (cons_range p) + (r_size (cons_range p) + pend (cons_ep p))) n"
  by (rule circ_cong_mod) (simp add: assms(2) write_offset [OF assms(1)])

lemma announce_written_inv [inv_intros]:
  assumes inv: "dp_inv p" and "dp_two_phase (prod_ep p) = None" and "0 < n"
    and "unat n \<le> length (shm p) - r_size (prod_range p)"
  shows "dp_inv (announce_written p n)"
proof -
  note d = dp_invD [OF inv]
  have "latch_ok (r_size (cons_range p) + (pend (cons_ep p) + unat n)) (cons_ep p)"
    by (rule latch_ok_mono [OF d(14)]) simp
  moreover have "r_size (prod_range p) + unat n \<le> length (shm p)" using assms(4) d(6) by simp
  moreover have "pend ((cons_ep p)\<lparr>dp_control := dp_control (cons_ep p) @ [n]\<rparr>) = pend (cons_ep p) + unat n"
    by (simp add: pend_def)
  ultimately show ?thesis
    using assms(2,3) d by (simp add: dp_inv_def dp_geometry_def announce_written_def del: pend_simps)
qed

lemma announce_written_stream:
  assumes "dp_inv p"
  shows "dp_stream (announce_written p n) =
    dp_stream p @ circ (shm p) (r_offset (prod_range p) + r_size (prod_range p)) (unat n)"
  unfolding write_position [OF assms refl]
  by (simp add: dp_stream_def announce_written_def pend_def circ_add add.assoc [symmetric])

lemma store_inv [inv_intros]: "dp_inv p \<Longrightarrow> length m = length (shm p) \<Longrightarrow> dp_inv (p\<lparr>shm := m\<rparr>)"
  by (simp add: dp_inv_def)

text \<open>Storing in the free space does not disturb the stream.\<close>

lemma store_stream:
  assumes inv: "dp_inv p" and fits: "r_size (prod_range p) + length xs \<le> length (shm p)"
  shows "dp_stream (p\<lparr>shm := circ_upd (shm p) (r_offset (prod_range p) + r_size (prod_range p)) xs\<rparr>) =
    dp_stream p"
proof -
  note d = dp_invD [OF inv]
  let ?o = "r_offset (cons_range p)" and ?n = "r_size (cons_range p) + pend (cons_ep p)"
  have "circ_upd (shm p) (r_offset (prod_range p) + r_size (prod_range p)) xs =
      circ_upd (shm p) (?o + ?n) xs"
    using write_offset [OF inv] by (metis circ_upd_mod)
  moreover have "?n + length xs \<le> length (shm p)" using fits d by simp
  ultimately show ?thesis by (simp add: dp_stream_def circ_circ_upd_before)
qed

lemma announce_read_inv [inv_intros]:
  assumes inv: "dp_inv p" and "dp_two_phase (cons_ep p) = None" and "0 < n"
    and n: "unat n \<le> r_size (cons_range p)"
    and latch: "dp_has_new_data (cons_ep p) \<longrightarrow> unat n < r_size (cons_range p) + pend (cons_ep p)"
  shows "dp_inv (announce_read p n)"
proof -
  note d = dp_invD [OF inv]
  have "(r_offset (cons_range p) + unat n) mod length (shm p) =
      (r_offset (prod_range p) + (pend (prod_ep p) + unat n)) mod length (shm p)"
    unfolding d(7) by (rule mod_add_shift)
  moreover have "latch_ok (r_size (cons_range p) - unat n + pend (cons_ep p)) (cons_ep p)"
    using assms(2) latch n by (auto simp: latch_ok_def)
  ultimately show ?thesis
    using assms d by (simp add: dp_inv_def dp_geometry_def announce_read_def pend_def)
qed

lemma announce_read_stream:
  assumes "unat n \<le> r_size (cons_range p)"
  shows "dp_stream (announce_read p n) = drop (unat n) (dp_stream p)"
  using assms by (simp add: dp_stream_def announce_read_def)

lemma set_two_phase_inv [inv_intros]:
  "dp_inv p \<Longrightarrow> writer_ok (length (shm p)) (prod_range p) tp \<Longrightarrow>
   dp_inv (p\<lparr>prod_ep := (prod_ep p)\<lparr>dp_two_phase := tp\<rparr>\<rparr>)"
  "dp_inv p \<Longrightarrow> reader_ok (length (shm p)) (cons_range p) tp \<Longrightarrow>
   latch_ok (r_size (cons_range p) + pend (cons_ep p)) ((cons_ep p)\<lparr>dp_two_phase := tp\<rparr>) \<Longrightarrow>
   dp_inv (p\<lparr>cons_ep := (cons_ep p)\<lparr>dp_two_phase := tp\<rparr>\<rparr>)"
  "dp_inv p \<Longrightarrow> reader_ok (length (shm p)) (cons_range p) tp \<Longrightarrow>
   dp_inv (p\<lparr>cons_ep := (cons_ep p)\<lparr>dp_two_phase := tp, dp_has_new_data := False\<rparr>\<rparr>)"
  "dp_inv p \<Longrightarrow> dp_inv (p\<lparr>cons_ep := (cons_ep p)\<lparr>dp_has_new_data := False\<rparr>\<rparr>)"
  by (auto simp: dp_inv_def dp_geometry_def)

text \<open>Ending a two-phase read leaves the latch justified, even when nothing is consumed.\<close>

lemma latch_ok_end: "latch_ok n e \<Longrightarrow> latch_ok n (e\<lparr>dp_two_phase := None\<rparr>)"
  by (auto simp: latch_ok_def split: option.splits two_phase.splits)

section \<open>What the operations compute\<close>

text \<open>The signal states, as functions of what a caller can observe of the pipe.\<close>

definition consumer_signals :: "bool \<Rightarrow> bool \<Rightarrow> bool \<Rightarrow> signals_state" where
  "consumer_signals closed new any = \<lparr>
     satisfied = (if closed then PEER_CLOSED else NONE) OR
       (if new then NEW_DATA_READABLE else NONE) OR (if any then READABLE else NONE),
     satisfiable = PEER_CLOSED OR
       (if closed then NONE else PEER_REMOTE OR READABLE OR NEW_DATA_READABLE) OR
       (if new then NEW_DATA_READABLE else NONE) OR (if any then READABLE else NONE)\<rparr>"

definition producer_signals :: "bool \<Rightarrow> bool \<Rightarrow> signals_state" where
  "producer_signals closed room = \<lparr>
     satisfied = (if closed then PEER_CLOSED else if room then WRITABLE else NONE),
     satisfiable = PEER_CLOSED OR (if closed then NONE else PEER_REMOTE OR WRITABLE)\<rparr>"

definition dp_room :: "'cb dpair \<Rightarrow> nat" where
  "dp_room p = length (shm p) - length (dp_stream p)"

fun dp_sig :: "'cb dpair \<Rightarrow> data_pipe_end \<Rightarrow> signals_state" where
  "dp_sig p Producer = producer_signals (dp_peer_closed (prod_ep p)) (0 < dp_room p)"
| "dp_sig p Consumer = consumer_signals (dp_peer_closed (cons_ep p))
     (dp_has_new_data (cons_ep p) \<or> dp_control (cons_ep p) \<noteq> []) (dp_stream p \<noteq> [])"

fun latch_at :: "'cb dpair \<Rightarrow> data_pipe_end \<Rightarrow> 'cb dpair" where
  "latch_at p Producer = p"
| "latch_at p Consumer = latch p"

lemma dp_stream_eq_Nil:
  "dp_inv p \<Longrightarrow> dp_stream p = [] \<longleftrightarrow> r_size (cons_range p) = 0 \<and> dp_control (cons_ep p) = []"
  using pend_eq_0 [OF dp_invD(11)] by (metis add_is_0 length_0_conv length_dp_stream)

lemma latched_stream: "dp_inv p \<Longrightarrow> dp_has_new_data (cons_ep p) \<Longrightarrow> dp_stream p \<noteq> []"
  using dp_invD(14) [of p] length_dp_stream [of p]
  by (auto simp: latch_ok_def split: option.splits two_phase.splits)

lemma dp_room_eq: "dp_inv p \<Longrightarrow> dp_room p = length (shm p) - r_size (prod_range p) + pend (prod_ep p)"
  using dp_invD(6,8) [of p] by (simp add: dp_room_def length_dp_stream)

lemma dp_signals_consumer:
  assumes inv: "dp_inv p"
  shows "dp_signals_of p Consumer = Some (dp_sig p Consumer, latch p)"
proof -
  let ?new = "dp_has_new_data (cons_ep p) \<or> dp_control (cons_ep p) \<noteq> []"
  have any: "dp_stream p \<noteq> [] \<longleftrightarrow> ?new \<or> r_size (cons_range p) > 0"
    using dp_stream_eq_Nil [OF inv] latched_stream [OF inv] by auto
  have lt: "latch p = (if ?new then p\<lparr>cons_ep := (cons_ep p)\<lparr>dp_has_new_data := True\<rparr>\<rparr> else p)"
    by (auto simp: latch_def)
  show ?thesis
    unfolding dp_signals_of_def dp_sig.simps any lt
    by (cases "dp_peer_closed (cons_ep p)"; cases ?new; cases "r_size (cons_range p) > 0")
      (simp_all add: Let_def consumer_signals_def consumer_ring_def data_size_def signal_consts)
qed

lemma dp_signals_producer:
  assumes inv: "dp_inv p"
  shows "dp_signals_of p Producer = Some (dp_sig p Producer, p)"
proof -
  have "available_capacity (producer_ring p) = Some (length (shm p) - r_size (prod_range p))"
    using dp_invD(6) [OF inv]
    by (simp add: available_capacity_def producer_ring_def ring_capacity_def data_size_def)
  moreover have "0 < dp_room p \<longleftrightarrow>
      length (shm p) - r_size (prod_range p) > 0 \<or> length (dp_control (prod_ep p)) > 0"
    using dp_room_eq [OF inv] pend_eq_0 [OF dp_invD(10) [OF inv]] by auto
  ultimately show ?thesis
    by (cases "dp_peer_closed (prod_ep p)")
      (simp_all add: dp_signals_of_def Let_def producer_signals_def signal_consts)
qed

lemma collect_watchers_eq:
  "dp_inv p \<Longrightarrow> collect_watchers p s =
     Some (collect_fired (dp_sig p s) (dp_watchers (dp_ep p s)), latch_at p s)"
  by (cases s) (simp_all add: collect_watchers_def dp_signals_consumer dp_signals_producer latch_def)

lemma latch_at_inv [inv_intros]: "dp_inv p \<Longrightarrow> dp_inv (latch_at p s)"
  by (cases s) (simp_all add: latch_inv)

lemma latch_at_stream [simp]: "dp_stream (latch_at p s) = dp_stream p"
  by (cases s) simp_all

text \<open>Fields the flushes and announcements leave alone.\<close>

lemma flush_producer_fields [simp]:
  "shm (flush_producer p) = shm p" "cons_range (flush_producer p) = cons_range p"
  "cons_ep (flush_producer p) = cons_ep p" "element_size (flush_producer p) = element_size p"
  "dp_two_phase (prod_ep (flush_producer p)) = dp_two_phase (prod_ep p)"
  "dp_peer_closed (prod_ep (flush_producer p)) = dp_peer_closed (prod_ep p)"
  "dp_local_closed (prod_ep (flush_producer p)) = dp_local_closed (prod_ep p)"
  "dp_watchers (prod_ep (flush_producer p)) = dp_watchers (prod_ep p)"
  "dp_control (prod_ep (flush_producer p)) = []" "pend (prod_ep (flush_producer p)) = 0"
  "r_size (prod_range (flush_producer p)) = length (dp_stream p)"
  by (simp_all add: flush_producer_def length_dp_stream)

lemma flush_consumer_fields [simp]:
  "shm (flush_consumer p) = shm p" "prod_range (flush_consumer p) = prod_range p"
  "prod_ep (flush_consumer p) = prod_ep p" "element_size (flush_consumer p) = element_size p"
  "dp_two_phase (cons_ep (flush_consumer p)) = dp_two_phase (cons_ep p)"
  "dp_peer_closed (cons_ep (flush_consumer p)) = dp_peer_closed (cons_ep p)"
  "dp_local_closed (cons_ep (flush_consumer p)) = dp_local_closed (cons_ep p)"
  "dp_watchers (cons_ep (flush_consumer p)) = dp_watchers (cons_ep p)"
  "dp_control (cons_ep (flush_consumer p)) = []"
  "r_size (cons_range (flush_consumer p)) = length (dp_stream p)"
  by (simp_all add: flush_consumer_def length_dp_stream)

lemma unat_of_nat_u32 [simp]: "k < 2 ^ 32 \<Longrightarrow> unat (of_nat k :: u32) = k"
  by (simp add: unat_of_nat take_bit_nat_eq_self)

lemma of_nat_u32_eq_0: "k < 2 ^ 32 \<Longrightarrow> (of_nat k :: u32) = 0 \<longleftrightarrow> k = 0"
  by (subst unat_eq_0 [symmetric]) simp

lemma of_nat_u32_pos: "k < 2 ^ 32 \<Longrightarrow> 0 < (of_nat k :: u32) \<longleftrightarrow> 0 < k"
  using of_nat_u32_eq_0 [of k] by (auto simp: word_gt_0)

text \<open>The pair after accepting \<open>xs\<close> from the producer, and after the consumer took \<open>k\<close> bytes.\<close>

definition accept :: "'cb dpair \<Rightarrow> byte list \<Rightarrow> 'cb dpair" where
  "accept p xs =
     (if xs = [] then p
      else announce_written
        (p\<lparr>shm := circ_upd (shm p) (r_offset (prod_range p) + r_size (prod_range p)) xs\<rparr>)
        (of_nat (length xs)))"

definition deliver :: "'cb dpair \<Rightarrow> nat \<Rightarrow> 'cb dpair" where
  "deliver p k = (if k = 0 then p else announce_read p (of_nat k))"

lemma accept_inv [inv_intros]:
  assumes inv: "dp_inv p" and tp: "dp_two_phase (prod_ep p) = None"
    and fits: "r_size (prod_range p) + length xs \<le> length (shm p)"
  shows "dp_inv (accept p xs)"
proof (cases "xs = []")
  case True
  then show ?thesis using inv by (simp add: accept_def)
next
  case False
  let ?q = "p\<lparr>shm := circ_upd (shm p) (r_offset (prod_range p) + r_size (prod_range p)) xs\<rparr>"
  have "dp_inv ?q" by (rule store_inv [OF inv]) simp
  moreover have "length xs < 2 ^ 32" using fits dp_invD(4) [OF inv] by simp
  ultimately have "dp_inv (announce_written ?q (of_nat (length xs)))"
    by (intro announce_written_inv) (use tp fits False in \<open>simp_all add: of_nat_u32_pos\<close>)
  then show ?thesis using False by (simp add: accept_def)
qed

lemma accept_stream:
  assumes inv: "dp_inv p" and fits: "r_size (prod_range p) + length xs \<le> length (shm p)"
  shows "dp_stream (accept p xs) = dp_stream p @ xs"
proof (cases "xs = []")
  case True
  then show ?thesis by (simp add: accept_def)
next
  case False
  let ?q = "p\<lparr>shm := circ_upd (shm p) (r_offset (prod_range p) + r_size (prod_range p)) xs\<rparr>"
  have q: "dp_inv ?q" by (rule store_inv [OF inv]) simp
  have l: "length xs < 2 ^ 32" using fits dp_invD(4) [OF inv] by simp
  have "dp_stream (announce_written ?q (of_nat (length xs))) = dp_stream ?q @
      circ (shm ?q) (r_offset (prod_range p) + r_size (prod_range p)) (length xs)"
    using announce_written_stream [OF q, of "of_nat (length xs)"] l by simp
  also have "\<dots> = dp_stream p @ xs"
    using store_stream [OF inv fits] fits by (simp add: circ_circ_upd_same)
  finally show ?thesis using False by (simp add: accept_def)
qed

lemma deliver_inv [inv_intros]:
  assumes inv: "dp_inv p" and tp: "dp_two_phase (cons_ep p) = None" and k: "k \<le> r_size (cons_range p)"
    and latch: "dp_has_new_data (cons_ep p) \<longrightarrow> k < length (dp_stream p)"
  shows "dp_inv (deliver p k)"
proof -
  have "k < 2 ^ 32" using k dp_invD(4,6,8) [OF inv] by simp
  then show ?thesis
    using announce_read_inv [OF inv tp, of "of_nat k"] inv k latch
    by (simp add: deliver_def of_nat_u32_pos length_dp_stream)
qed

lemma deliver_stream:
  assumes inv: "dp_inv p" and k: "k \<le> r_size (cons_range p)"
  shows "dp_stream (deliver p k) = drop k (dp_stream p)"
proof -
  have "k < 2 ^ 32" using k dp_invD(4,6,8) [OF inv] by simp
  then show ?thesis
    using announce_read_stream [of "of_nat k" p] k by (simp add: deliver_def)
qed

lemma stream_bound: "dp_inv p \<Longrightarrow> length (dp_stream p) \<le> length (shm p)"
  using dp_invD(6,8) [of p] by (simp add: length_dp_stream)

lemma push_accept:
  assumes inv: "dp_inv q" and tp: "dp_two_phase (prod_ep q) = None"
    and fits: "r_size (prod_range q) + length xs \<le> length (shm q)"
    and p2: "p2 = set_producer q
      \<lparr>mapping = circ_upd (shm q) (r_offset (prod_range q) + r_size (prod_range q)) xs,
       data_range = \<lparr>r_offset = r_offset (prod_range q), r_size = r_size (prod_range q) + length xs\<rparr>\<rparr>"
  shows "push_and_collect p2 Consumer (of_nat (length xs)) =
    Some (if xs = [] then ([], q)
          else (collect_fired (dp_sig (accept q xs) Consumer) (dp_watchers (cons_ep q)), latch (accept q xs)))"
proof (cases "xs = []")
  case True
  then show ?thesis using p2 by (simp add: push_and_collect_def set_producer_def)
next
  case False
  have l: "length xs < 2 ^ 32" using fits dp_invD(4) [OF inv] by simp
  have "push_control p2 Consumer (of_nat (length xs)) = accept q xs"
    using False l p2
    by (simp add: accept_def announce_written_def push_control_def set_producer_def)
  moreover have "dp_watchers (cons_ep (accept q xs)) = dp_watchers (cons_ep q)"
    by (simp add: accept_def announce_written_def)
  ultimately show ?thesis
    using False l collect_watchers_eq [OF accept_inv [OF inv tp fits], of Consumer]
    by (simp add: push_and_collect_def of_nat_u32_eq_0)
qed

lemma dp_write_eq [pipe_eqs]:
  assumes inv: "dp_inv p" and buf: "unat n \<le> length els"
    and q_def: "q = flush_producer p" and k_def: "k = (if aon then unat n else min (unat n) (dp_room p))"
  shows "dp_write p Producer els n aon =
    (if unat n mod unat (element_size p) \<noteq> 0 then (Err InvalidArgument, p, [])
     else if dp_two_phase (prod_ep p) \<noteq> None then (Err Busy, q, [])
     else if dp_peer_closed (prod_ep p) then (Err FailedPrecondition, q, [])
     else if aon \<and> unat n > dp_room p then (Err OutOfRange, q, [])
     else if \<not> aon \<and> k = 0 \<and> els \<noteq> [] then (Err ShouldWait, q, [])
     else if k = 0 then (Ok 0, q, [])
     else let a = accept q (take k els)
          in (Ok (of_nat k), latch a, collect_fired (dp_sig a Consumer) (dp_watchers (cons_ep p))))"
    (is "_ = ?rhs")
proof -
  have es: "urem (unat n) (unat (element_size p)) = Some (unat n mod unat (element_size p))"
    using dp_invD(2) [OF inv] by (simp add: word_gt_0 unat_gt_0)
  have q: "dp_inv q" "ring_inv (producer_ring q)"
    unfolding q_def by (simp_all add: inv flush_producer_inv dp_rings)
  have room: "ring_room (producer_ring q) = dp_room p"
    by (simp add: ring_room_def producer_ring_def ring_capacity_def data_size_def dp_room_def q_def)
  have src: "slice els 0 (unat n) = Some (take (unat n) els)" using buf by simp
  have fl: "flush_locked p Producer = Some q" by (simp add: q_def flush_producer_eq inv)
  have np: "\<not> poisoned p" using dp_invD [OF inv] by simp
  let ?r = "\<lparr>mapping = circ_upd (shm q) (r_offset (prod_range q) + r_size (prod_range q)) (take k els),
       data_range = \<lparr>r_offset = r_offset (prod_range q), r_size = r_size (prod_range q) + k\<rparr>\<rparr>"
  show ?thesis
  proof (cases "unat n mod unat (element_size p) = 0 \<and> dp_two_phase (prod_ep p) = None \<and>
      \<not> dp_peer_closed (prod_ep p)")
    case False
    then show ?thesis using es np fl by (auto simp: dp_write_def with_lock_def q_def)
  next
    case ok: True
    show ?thesis
    proof (cases "aon \<and> unat n > dp_room p")
      case True
      then have "ring_write_all (producer_ring q) (take (unat n) els) = Some (False, producer_ring q)"
        using ring_write_all_eq [OF q(2), of "take (unat n) els"] room buf by simp
      moreover have "set_producer q (producer_ring q) = q" by (simp add: set_producer_def producer_ring_def)
      moreover have "n \<noteq> 0" using True by auto
      ultimately show ?thesis
        using ok True es np fl src by (simp add: dp_write_def with_lock_def q_def)
    next
      case fit: False
      then have k: "k \<le> dp_room p" "k = min (unat n) (dp_room p)" by (auto simp: k_def)
      have lk: "length (take k els) = k" using k buf by simp
      have fits: "r_size (prod_range q) + length (take k els) \<le> length (shm q)"
        using k(1) lk stream_bound [OF inv] by (simp add: q_def dp_room_def)
      have wr: "ring_write (producer_ring q) (take (unat n) els) = Some (k, ?r)"
        using ring_write_eq [OF q(2), of "take (unat n) els"] k buf room
        by (simp add: producer_ring_def data_size_def min_absorb2)
      have wa: "ring_write_all (producer_ring q) (take (unat n) els) = Some (True, ?r)" if aon
        using ring_write_all_eq [OF q(2), of "take (unat n) els"] that fit wr room buf by simp
      have tp: "dp_two_phase (prod_ep q) = None" using ok by (simp add: q_def)
      have r: "set_producer q ?r = set_producer q
         \<lparr>mapping = circ_upd (shm q) (r_offset (prod_range q) + r_size (prod_range q)) (take k els),
          data_range = \<lparr>r_offset = r_offset (prod_range q),
            r_size = r_size (prod_range q) + length (take k els)\<rparr>\<rparr>" by (simp only: lk)
      note pc = push_accept [OF q(1) tp fits r, unfolded lk]
      have z: "take k els = [] \<longleftrightarrow> k = 0" using lk by (metis length_0_conv)
      have kq: "set_producer q ?r = q" if "k = 0" using that by (simp add: set_producer_def)
      have nk: "n = of_nat k" if aon using that by (simp add: k_def)
      show ?thesis
        using ok fit es np fl src wr wa pc z kq nk
        by (cases aon; cases "k = 0") (auto simp: dp_write_def with_lock_def q_def Let_def)
    qed
  qed
qed

text \<open>The caller's buffer after \<open>xs\<close> was copied to its front.\<close>

definition buffer_ok :: "byte list option \<Rightarrow> u32 \<Rightarrow> read_flags \<Rightarrow> bool" where
  "buffer_ok els n f \<longleftrightarrow> f_discard f \<or> f_query f \<or> els = None \<or> unat n \<le> length (the els)"

lemma out_prefix_eq:
  "unat n \<le> length (case els of None \<Rightarrow> [] | Some b \<Rightarrow> b) \<Longrightarrow>
   out_prefix els (unat n) = Some (take (unat n) (case els of None \<Rightarrow> [] | Some b \<Rightarrow> b))"
  by (simp add: out_prefix_def)

lemma out_prefix_put_prefix:
  "k \<le> length t \<Longrightarrow> length t \<le> length (case els of None \<Rightarrow> [] | Some b \<Rightarrow> b) \<Longrightarrow>
   out_prefix (put_prefix els t) k = Some (take k t)"
  by (cases els) (auto simp: out_prefix_def put_prefix_def)

lemma put_prefix_rest:
  assumes "k \<le> n" "n \<le> length (case els of None \<Rightarrow> [] | Some b \<Rightarrow> b)" "length t = k"
  shows "put_prefix els (t @ drop k (take n (case els of None \<Rightarrow> [] | Some b \<Rightarrow> b))) = put_prefix els t"
proof (cases els)
  case (Some b)
  have "drop k (take n b) @ drop n b = drop k b"
    using drop_append [of k "take n b" "drop n b"] assms Some by simp
  then show ?thesis using assms Some by (simp add: put_prefix_def)
qed (simp add: put_prefix_def)

lemma flushed_stream:
  assumes "q = flush_consumer p"
  shows "ring_data (consumer_ring q) = dp_stream p" "data_size (consumer_ring q) = length (dp_stream p)"
    "ring_capacity (consumer_ring q) = length (shm q)"
  using assms by (simp_all add: ring_data_def consumer_ring_def data_size_def ring_capacity_def
      flush_consumer_def dp_stream_def)

lemma push_deliver:
  assumes inv: "dp_inv q" and tp: "dp_two_phase (cons_ep q) = None"
    and k: "k \<le> r_size (cons_range q)" and new: "\<not> dp_has_new_data (cons_ep q)"
    and p2: "p2 = set_consumer q ((consumer_ring q)\<lparr>data_range :=
       \<lparr>r_offset = (r_offset (cons_range q) + k) mod length (shm q), r_size = r_size (cons_range q) - k\<rparr>\<rparr>)"
  shows "push_and_collect p2 Producer (of_nat k) =
    Some (if k = 0 then ([], p2)
          else (collect_fired (dp_sig (deliver q k) Producer) (dp_watchers (prod_ep q)), deliver q k))"
proof (cases "k = 0")
  case True
  then show ?thesis by (simp add: push_and_collect_def)
next
  case False
  have l: "k < 2 ^ 32" using k dp_invD(4,6,8) [OF inv] by simp
  have "push_control p2 Producer (of_nat k) = deliver q k"
    using False l p2
    by (simp add: deliver_def announce_read_def push_control_def set_consumer_def consumer_ring_def)
  moreover have "dp_inv (deliver q k)" by (rule deliver_inv [OF inv tp k]) (simp add: new)
  moreover have "dp_watchers (prod_ep (deliver q k)) = dp_watchers (prod_ep q)"
    by (simp add: deliver_def announce_read_def)
  ultimately show ?thesis
    using False l collect_watchers_eq [of "deliver q k" Producer]
    by (simp add: push_and_collect_def of_nat_u32_eq_0)
qed

text \<open>Taking \<open>k\<close> bytes out of a flushed consumer, reported as \<open>finish_read\<close> does.\<close>

definition read_result ::
  "'cb dpair \<Rightarrow> nat \<Rightarrow> byte list option \<Rightarrow> read_flags \<Rightarrow>
   (dp_read_outcome \<times> byte list option) core_result \<times> 'cb dpair \<times> 'cb notification list" where
  "read_result q k els f =
     (let d = (if f_discard f then [] else take k (dp_stream q));
          a = (if f_peek f then q else deliver q k)
      in (Ok (\<lparr>out_num_bytes = of_nat k, out_data = d\<rparr>, put_prefix els d), a,
          if f_peek f \<or> k = 0 then []
          else collect_fired (dp_sig a Producer) (dp_watchers (prod_ep q))))"

lemma finish_read_eq:
  assumes inv: "dp_inv q" and tp: "dp_two_phase (cons_ep q) = None"
    and k: "k \<le> r_size (cons_range q)" and new: "\<not> dp_has_new_data (cons_ep q)"
    and p3: "p3 = (if f_peek f then q else set_consumer q ((consumer_ring q)\<lparr>data_range :=
       \<lparr>r_offset = (r_offset (cons_range q) + k) mod length (shm q), r_size = r_size (cons_range q) - k\<rparr>\<rparr>))"
    and d: "d = (if f_discard f then [] else take k (dp_stream q))" and es: "es = put_prefix els d"
    and n: "n' = of_nat k"
  shows "finish_read p3 Consumer n' d es f = Some (read_result q k els f)"
proof -
  have l: "k < 2 ^ 32" using k dp_invD(4,6,8) [OF inv] by simp
  have "p3 = q" if "k = 0" using that p3 dp_invD(9) [OF inv]
    by (simp add: set_consumer_def consumer_ring_def)
  then show ?thesis
    using push_deliver [OF inv tp k new refl] p3 d es n l
    by (auto simp: finish_read_def read_result_def Let_def of_nat_u32_eq_0 deliver_def)
qed

lemma transfer_some_eq:
  assumes inv: "dp_inv q" and k_def: "k = min (unat n) (length (dp_stream q))"
    and fl: "ring_data (consumer_ring q) = dp_stream q" "data_size (consumer_ring q) = length (dp_stream q)"
    and fit: "f_discard f \<or> unat n \<le> length (case els of None \<Rightarrow> [] | Some b \<Rightarrow> b)"
    and d: "d = (if f_discard f then [] else take k (dp_stream q))"
  shows "transfer_some q els n f = Some (of_nat k, d, put_prefix els d,
      if f_peek f \<and> \<not> f_discard f then q
      else set_consumer q ((consumer_ring q)\<lparr>data_range :=
        \<lparr>r_offset = (r_offset (cons_range q) + k) mod length (shm q), r_size = r_size (cons_range q) - k\<rparr>\<rparr>))"
proof -
  let ?b = "case els of None \<Rightarrow> [] | Some b \<Rightarrow> b"
  have L: "length (dp_stream q) < 2 ^ 32" using stream_bound [OF inv] dp_invD(4) [OF inv] by simp
  then have l: "k < 2 ^ 32" "k \<le> unat n" by (auto simp: k_def)
  have cr: "ring_inv (consumer_ring q)" "ring_capacity (consumer_ring q) = length (shm q)"
    "data_range (consumer_ring q) = cons_range q" "r_size (cons_range q) = length (dp_stream q)"
    using dp_rings(2) [OF inv] fl by (simp_all add: consumer_ring_def ring_capacity_def data_size_def)
  show ?thesis
  proof (cases "f_discard f")
    case True
    have m: "unat (min n (of_nat (length (dp_stream q)))) = k"
      using L by (auto simp: k_def min_def word_le_nat_alt)
    then have "min n (of_nat (length (dp_stream q))) = of_nat k" using l by (simp add: word_unat_eq_iff)
    then show ?thesis using True m l d fl cr
      by (cases els) (simp_all add: transfer_some_def ring_discard_eq [OF cr(1)] Let_def put_prefix_def k_def)
  next
    case False
    then have fit: "unat n \<le> length ?b" using fit by simp
    then have o: "out_prefix els (unat n) = Some (take (unat n) ?b)" by (rule out_prefix_eq)
    have tk: "take (unat n) (dp_stream q) = take k (dp_stream q)" "length (take k (dp_stream q)) = k"
      by (simp_all add: k_def min_def)
    have dr: "drop (length (dp_stream q)) (take (unat n) ?b) = drop k (take (unat n) ?b)"
      using fit by (auto simp: k_def min_def)
    note pr = put_prefix_rest [OF l(2) fit tk(2)]
    have op: "out_prefix (put_prefix els (take k (dp_stream q))) k = Some (take k (dp_stream q))"
      using out_prefix_put_prefix [of k "take k (dp_stream q)" els] tk l fit by simp
    have rp: "ring_peek (consumer_ring q) (take (unat n) ?b) =
        Some (k, take k (dp_stream q) @ drop k (take (unat n) ?b))"
      using ring_peek_eq [OF cr(1), of "take (unat n) ?b"] fit fl tk dr by (simp add: k_def min_absorb2)
    have rr: "ring_read (consumer_ring q) (take (unat n) ?b) =
        Some (k, take k (dp_stream q) @ drop k (take (unat n) ?b), (consumer_ring q)\<lparr>data_range :=
        \<lparr>r_offset = (r_offset (cons_range q) + k) mod length (shm q), r_size = r_size (cons_range q) - k\<rparr>\<rparr>)"
      using ring_read_eq [OF cr(1), of "take (unat n) ?b"] fit fl tk dr cr
      by (simp add: k_def min_absorb2 Let_def)
    show ?thesis
      using False o rp rr pr op l d by (simp add: transfer_some_def Let_def)
  qed
qed

lemma transfer_all_eq:
  assumes inv: "dp_inv q"
    and fl: "ring_data (consumer_ring q) = dp_stream q" "data_size (consumer_ring q) = length (dp_stream q)"
    and fit: "f_discard f \<or> unat n \<le> length (case els of None \<Rightarrow> [] | Some b \<Rightarrow> b)"
    and d: "d = (if f_discard f then [] else take (unat n) (dp_stream q))"
  shows "unat n > length (dp_stream q) \<Longrightarrow> \<exists>es. transfer_all q els n f = Some (False, es, q)"
    and "unat n \<le> length (dp_stream q) \<Longrightarrow> transfer_all q els n f = Some (True, put_prefix els d,
      if f_peek f \<and> \<not> f_discard f then q
      else set_consumer q ((consumer_ring q)\<lparr>data_range :=
        \<lparr>r_offset = (r_offset (cons_range q) + unat n) mod length (shm q),
         r_size = r_size (cons_range q) - unat n\<rparr>\<rparr>))"
proof -
  let ?b = "case els of None \<Rightarrow> [] | Some b \<Rightarrow> b"
  have cr: "ring_inv (consumer_ring q)" "ring_capacity (consumer_ring q) = length (shm q)"
    "data_range (consumer_ring q) = cons_range q" "r_size (cons_range q) = length (dp_stream q)"
    "set_consumer q (consumer_ring q) = q"
    using dp_rings(2) [OF inv] fl
    by (simp_all add: consumer_ring_def ring_capacity_def data_size_def set_consumer_def)
  have o: "out_prefix els (unat n) = Some (take (unat n) ?b)" "length (take (unat n) ?b) = unat n"
    if "\<not> f_discard f"
    using that fit by (auto intro: out_prefix_eq)
  show "\<exists>es. transfer_all q els n f = Some (False, es, q)" if "unat n > length (dp_stream q)"
    using that o cr fl
    by (simp add: transfer_all_def discard_all_eq [OF cr(1)] ring_peek_all_eq [OF cr(1)]
        ring_read_all_eq [OF cr(1)])
  show "transfer_all q els n f = Some (True, put_prefix els d,
      if f_peek f \<and> \<not> f_discard f then q
      else set_consumer q ((consumer_ring q)\<lparr>data_range :=
        \<lparr>r_offset = (r_offset (cons_range q) + unat n) mod length (shm q),
         r_size = r_size (cons_range q) - unat n\<rparr>\<rparr>))" if "unat n \<le> length (dp_stream q)"
  proof (cases "f_discard f")
    case True
    then show ?thesis using that cr fl d
      by (cases els) (simp_all add: transfer_all_def discard_all_eq [OF cr(1)] put_prefix_def)
  next
    case False
    then show ?thesis using that cr fl d o [OF False]
      by (simp add: transfer_all_def ring_peek_all_eq [OF cr(1)] ring_read_all_eq [OF cr(1)])
  qed
qed

lemma dp_read_eq [pipe_eqs]:
  assumes inv: "dp_inv p" and buf: "buffer_ok els n f"
    and q_def: "q = (flush_consumer p)\<lparr>cons_ep := (cons_ep (flush_consumer p))\<lparr>dp_has_new_data := False\<rparr>\<rparr>"
    and L_def: "L = length (dp_stream p)"
  shows "dp_read p Consumer els n f =
    (if (f_peek f \<and> f_discard f) \<or> (f_query f \<and> (f_peek f \<or> f_discard f)) \<or>
        (\<not> (f_discard f \<or> f_query f) \<and> els = None \<and> n > 0) then (Err InvalidArgument, p, [])
     else if dp_two_phase (cons_ep p) \<noteq> None then (Err Busy, flush_consumer p, [])
     else if f_query f
       then (Ok (\<lparr>out_num_bytes = of_nat L, out_data = []\<rparr>, els), flush_consumer p, [])
     else if unat n mod unat (element_size p) \<noteq> 0 then (Err InvalidArgument, flush_consumer p, [])
     else if f_all_or_none f \<and> unat n > L
       then (Err (if dp_peer_closed (cons_ep p) then FailedPrecondition else OutOfRange), q, [])
     else if \<not> f_all_or_none f \<and> L = 0
       then (Err (if dp_peer_closed (cons_ep p) then FailedPrecondition else ShouldWait), q, [])
     else read_result q (min (unat n) L) els f)"
proof (cases "(f_peek f \<and> f_discard f) \<or> (f_query f \<and> (f_peek f \<or> f_discard f)) \<or>
        (\<not> (f_discard f \<or> f_query f) \<and> els = None \<and> n > 0)")
  case True
  then show ?thesis by (auto simp: dp_read_def)
next
  case flags: False
  let ?fl = "flush_consumer p" and ?b = "case els of None \<Rightarrow> [] | Some b \<Rightarrow> b"
  let ?k = "min (unat n) L"
  have es: "urem (unat n) (unat (element_size p)) = Some (unat n mod unat (element_size p))"
    using dp_invD(2) [OF inv] by (simp add: word_gt_0 unat_gt_0)
  have fl: "flush_locked p Consumer = Some ?fl" "\<not> poisoned p"
    using dp_invD [OF inv] by (simp_all add: flush_consumer_eq inv)
  have q: "dp_inv q" unfolding q_def by (rule set_two_phase_inv(4) [OF flush_consumer_inv [OF inv]])
  have st: "dp_stream q = dp_stream p"
    using flush_consumer_stream [of p] by (simp add: q_def dp_stream_def)
  have rd: "ring_data (consumer_ring q) = dp_stream q" "data_size (consumer_ring q) = length (dp_stream q)"
    "data_size (consumer_ring ?fl) = L"
    using flushed_stream [OF refl, of p] st by (simp_all add: q_def consumer_ring_def L_def data_size_def ring_data_def)
  have fit: "f_discard f \<or> unat n \<le> length ?b" if "\<not> f_query f"
    using that buf flags by (cases els) (auto simp: buffer_ok_def word_gt_0)
  have tpq: "dp_two_phase (cons_ep q) = dp_two_phase (cons_ep p)" "\<not> dp_has_new_data (cons_ep q)"
    "dp_peer_closed (cons_ep q) = dp_peer_closed (cons_ep p)" "r_size (cons_range q) = L"
    by (simp_all add: q_def L_def)
  show ?thesis
  proof (cases "dp_two_phase (cons_ep p) \<noteq> None \<or> f_query f \<or> unat n mod unat (element_size p) \<noteq> 0")
    case True
    then show ?thesis using flags es fl rd(3)
      by (auto simp: dp_read_def with_lock_def Let_def)
  next
    case ok: False
    then have tp: "dp_two_phase (cons_ep q) = None" using tpq by simp
    have fit': "f_discard f \<or> unat n \<le> length ?b" using fit ok by simp
    have pd: "f_peek f \<and> \<not> f_discard f \<longleftrightarrow> f_peek f" using flags by auto
    let ?d = "if f_discard f then [] else take ?k (dp_stream q)"
    note ts = transfer_some_eq [OF q _ rd(1,2) fit' refl, of ?k, unfolded pd]
    note fr = finish_read_eq [OF q tp _ tpq(2) refl refl refl refl]
    have body: "dp_set_ep ?fl Consumer ((dp_ep ?fl Consumer)\<lparr>dp_has_new_data := False\<rparr>) = q"
      by (simp add: q_def)
    show ?thesis
    proof (cases "f_all_or_none f")
      case False
      show ?thesis using False ok flags es fl rd(3) body tpq ts fr [of ?k] st L_def
        by (auto simp: dp_read_def with_lock_def Let_def)
    next
      case aon: True
      note ta = transfer_all_eq [OF q rd(1,2) fit' refl, unfolded pd]
      show ?thesis
      proof (cases "unat n > L")
        case True
        with ta(1) st L_def obtain es' where "transfer_all q els n f = Some (False, es', q)" by auto
        then show ?thesis using True aon ok flags es fl rd(3) body tpq
          by (auto simp: dp_read_def with_lock_def Let_def)
      next
        case False
        then have k: "?k = unat n" by simp
        have op: "\<not> f_discard f \<Longrightarrow> out_prefix (put_prefix els (take (unat n) (dp_stream q))) (unat n) =
            Some (take (unat n) (dp_stream q))"
          using out_prefix_put_prefix [of "unat n" "take (unat n) (dp_stream q)" els] False st L_def fit'
          by simp
        have "n = of_nat (unat n)" by simp
        then show ?thesis using False aon ok flags es fl rd(3) body tpq ta(2) st L_def k op
            fr [of "unat n" f els]
          by (auto simp: dp_read_def with_lock_def Let_def)
      qed
    qed
  qed
qed

lemma dp_begin_write_eq [pipe_eqs]:
  assumes inv: "dp_inv p" and q_def: "q = flush_producer p"
    and w_def: "w = \<lparr>span_ptr = (r_offset (prod_range q) + r_size (prod_range q)) mod length (shm p),
      span_len = min (dp_room p)
        (length (shm p) - (r_offset (prod_range q) + r_size (prod_range q)) mod length (shm p))\<rparr>"
  shows "dp_begin_write p Producer =
    (if dp_two_phase (prod_ep p) \<noteq> None then (Err Busy, q, [])
     else if dp_peer_closed (prod_ep p) then (Err FailedPrecondition, q, [])
     else if dp_room p = 0 then (Err ShouldWait, q, [])
     else (Ok w, q\<lparr>prod_ep := (prod_ep q)\<lparr>dp_two_phase := Some (TPWriter w)\<rparr>\<rparr>, []))"
proof -
  have q: "dp_inv q" unfolding q_def by (rule flush_producer_inv [OF inv])
  have room: "ring_room (producer_ring q) = dp_room p"
    by (simp add: ring_room_def producer_ring_def ring_capacity_def data_size_def dp_room_def q_def)
  have bw: "ring_begin_write (producer_ring q) = Some w"
    using ring_begin_write_eq [OF dp_rings(1) [OF q]] room
    by (simp add: w_def Let_def producer_ring_def ring_capacity_def data_size_def q_def)
  have "(r_offset (prod_range q) + r_size (prod_range q)) mod length (shm p) < length (shm p)"
    using dp_invD(3) [OF inv] by simp
  then have "span_is_empty w \<longleftrightarrow> dp_room p = 0" by (auto simp: span_is_empty_def w_def min_def)
  then show ?thesis
    using bw dp_invD(1) [OF inv] flush_producer_eq [OF inv]
    by (auto simp: dp_begin_write_def with_lock_def q_def)
qed

lemma dp_begin_write_inv [inv_intros]:
  assumes inv: "dp_inv p"
  shows "dp_inv (fst (snd (dp_begin_write p Producer)))"
    and "dp_stream (fst (snd (dp_begin_write p Producer))) = dp_stream p"
proof -
  let ?q = "flush_producer p" and ?c = "length (shm p)"
  have q: "dp_inv ?q" by (rule flush_producer_inv [OF inv])
  let ?o = "(r_offset (prod_range ?q) + r_size (prod_range ?q)) mod ?c"
  have "?o < ?c" using dp_invD(3) [OF inv] by simp
  then have "writer_ok (length (shm ?q)) (prod_range ?q)
      (Some (TPWriter \<lparr>span_ptr = ?o, span_len = min (dp_room p) (?c - ?o)\<rparr>))"
    using stream_bound [OF inv] by (auto simp: dp_room_def)
  then show "dp_inv (fst (snd (dp_begin_write p Producer)))"
    using set_two_phase_inv(1) [OF q] q by (simp add: dp_begin_write_eq [OF inv refl refl])
  show "dp_stream (fst (snd (dp_begin_write p Producer))) = dp_stream p"
    using flush_producer_stream [of p]
    by (auto simp: dp_begin_write_eq [OF inv refl refl] dp_stream_def)
qed

lemma dp_end_write_eq [pipe_eqs]:
  assumes inv: "dp_inv p" and q_def: "q = p\<lparr>prod_ep := (prod_ep p)\<lparr>dp_two_phase := None\<rparr>\<rparr>"
  shows "dp_end_write p Producer n =
    (case dp_two_phase (prod_ep p) of
       None \<Rightarrow> (Err FailedPrecondition, p, [])
     | Some (TPReader w) \<Rightarrow> (Err InvalidArgument, q, [])
     | Some (TPWriter w) \<Rightarrow>
         if unat n mod unat (element_size p) \<noteq> 0 then (Err InvalidArgument, q, [])
         else if n = 0 then (Ok (), q, [])
         else if unat n > span_len w then (Err InvalidArgument, q, [])
         else let a = announce_written q n
              in (Ok (), latch a, collect_fired (dp_sig a Consumer) (dp_watchers (cons_ep p))))"
proof (cases "dp_two_phase (prod_ep p)")
  case None
  then show ?thesis using dp_invD(1) [OF inv] by (simp add: dp_end_write_def with_lock_def)
next
  case (Some two)
  note d = dp_invD [OF inv]
  have es: "urem (unat n) (unat (element_size p)) = Some (unat n mod unat (element_size p))"
    using d(2) by (simp add: word_gt_0 unat_gt_0)
  obtain w where two: "two = TPWriter w" using Some d(12) by (cases two) auto
  have w: "span_len w \<le> length (shm p) - r_size (prod_range p)" using d(12) Some two by simp
  have q: "dp_inv q" unfolding q_def by (rule set_two_phase_inv(1) [OF inv]) simp
  have ri: "ring_inv (producer_ring q)" "ring_room (producer_ring q) = length (shm p) - r_size (prod_range p)"
    "set_producer q (producer_ring q) = q"
    using dp_rings(1) [OF q]
    by (simp_all add: q_def producer_ring_def ring_room_def ring_capacity_def data_size_def set_producer_def)
  have body: "dp_set_ep p Producer ((dp_ep p Producer)\<lparr>dp_two_phase := None\<rparr>) = q" by (simp add: q_def)
  show ?thesis
  proof (cases "unat n mod unat (element_size p) = 0 \<and> n \<noteq> 0 \<and> unat n \<le> span_len w")
    case False
    then show ?thesis using Some two es d(1) ri body
      by (auto simp: dp_end_write_def with_lock_def direct_writer_commit_def q_def Let_def)
  next
    case True
    let ?a = "announce_written q n"
    have "dp_inv ?a"
      by (rule announce_written_inv [OF q]) (use True w in \<open>auto simp: q_def word_gt_0\<close>)
    then have c: "collect_watchers ?a Consumer =
        Some (collect_fired (dp_sig ?a Consumer) (dp_watchers (cons_ep p)), latch ?a)"
      using collect_watchers_eq [of ?a Consumer] by (simp add: announce_written_def q_def)
    have e: "extend_data_range (producer_ring q) (unat n) =
      Some (True, (producer_ring q)\<lparr>data_range := (prod_range p)\<lparr>r_size := r_size (prod_range p) + unat n\<rparr>\<rparr>)"
      using extend_data_range_eq [OF ri(1), of "unat n"] ri(2) True w
      by (simp add: producer_ring_def q_def data_size_def)
    have "push_control (set_producer q
        ((producer_ring q)\<lparr>data_range := (prod_range p)\<lparr>r_size := r_size (prod_range p) + unat n\<rparr>\<rparr>)) Consumer n = ?a"
      by (simp add: push_control_def set_producer_def announce_written_def producer_ring_def q_def)
    moreover have "direct_writer_commit w (unat n) (producer_ring q) = Some (True,
        (producer_ring q)\<lparr>data_range := (prod_range p)\<lparr>r_size := r_size (prod_range p) + unat n\<rparr>\<rparr>)"
      using True e by (simp add: direct_writer_commit_def)
    moreover have "element_size q = element_size p" by (simp add: q_def)
    ultimately show ?thesis using True Some two es d(1) c
      by (simp add: dp_end_write_def with_lock_def Let_def q_def [symmetric] del: dp_sig.simps)
  qed
qed

text \<open>An end of a two-phase write appends the first \<open>n\<close> bytes of the span.\<close>

lemma dp_end_write_stream:
  assumes inv: "dp_inv p"
  shows "dp_inv (fst (snd (dp_end_write p Producer n)))"
    and "fst (dp_end_write p Producer n) = Ok () \<Longrightarrow> dp_two_phase (prod_ep p) = Some (TPWriter w) \<Longrightarrow>
      \<exists>b. span_as_slice (shm p) w = Some b \<and>
        dp_stream (fst (snd (dp_end_write p Producer n))) = dp_stream p @ take (unat n) b"
    and "fst (dp_end_write p Producer n) \<noteq> Ok () \<Longrightarrow>
      dp_stream (fst (snd (dp_end_write p Producer n))) = dp_stream p"
proof -
  note d = dp_invD [OF inv]
  let ?q = "p\<lparr>prod_ep := (prod_ep p)\<lparr>dp_two_phase := None\<rparr>\<rparr>"
  have q: "dp_inv ?q" by (rule set_two_phase_inv(1) [OF inv]) simp
  have sq: "dp_stream ?q = dp_stream p" by (simp add: dp_stream_def)
  note eq = dp_end_write_eq [OF inv refl, of n]
  have fits: "dp_two_phase (prod_ep p) = Some (TPWriter w) \<Longrightarrow> n \<noteq> 0 \<Longrightarrow> unat n \<le> span_len w \<Longrightarrow>
      dp_inv (latch (announce_written ?q n))" for w
    by (rule latch_inv [OF announce_written_inv [OF q]]) (use d(12) in \<open>auto simp: word_gt_0\<close>)
  show "dp_inv (fst (snd (dp_end_write p Producer n)))"
    using q inv
    by (cases "dp_two_phase (prod_ep p)"; cases "the (dp_two_phase (prod_ep p))")
      (auto simp: eq Let_def linorder_not_less intro: fits)
  show "dp_stream (fst (snd (dp_end_write p Producer n))) = dp_stream p"
    if "fst (dp_end_write p Producer n) \<noteq> Ok ()"
    using that sq
    by (cases "dp_two_phase (prod_ep p)"; cases "the (dp_two_phase (prod_ep p))")
      (auto simp: eq Let_def split: if_splits)
  show "\<exists>b. span_as_slice (shm p) w = Some b \<and>
        dp_stream (fst (snd (dp_end_write p Producer n))) = dp_stream p @ take (unat n) b"
    if ok: "fst (dp_end_write p Producer n) = Ok ()" and w: "dp_two_phase (prod_ep p) = Some (TPWriter w)"
  proof -
    have sp: "span_ptr w = (r_offset (prod_range p) + r_size (prod_range p)) mod length (shm p)"
      "span_ptr w + span_len w \<le> length (shm p)" using d(12) w by simp_all
    have b: "span_as_slice (shm p) w = Some (circ (shm p) (span_ptr w) (span_len w))"
      using sp(2) by (simp add: span_as_slice_def circ_linear)
    have n: "unat n \<le> span_len w" using ok w by (auto simp: eq Let_def split: if_splits)
    have "dp_stream (announce_written ?q n) = dp_stream p @ take (unat n) (circ (shm p) (span_ptr w) (span_len w))"
      using announce_written_stream [OF q, of n] n sp(1) sq by (simp add: min_absorb1)
    then show ?thesis using ok w b sq by (auto simp: eq Let_def split: if_splits)
  qed
qed

lemma unat_u32_bound: "unat (n :: u32) < 2 ^ 32"
  using unsigned_less [of n, where 'a = nat] by simp

text \<open>The stream depends on the pages, the consumer's range and its control messages only.\<close>

lemma dp_stream_updates [simp]:
  "dp_stream (p\<lparr>prod_ep := e\<rparr>) = dp_stream p"
  "dp_stream (p\<lparr>cons_ep := (cons_ep p)\<lparr>dp_two_phase := tp, dp_has_new_data := b\<rparr>\<rparr>) = dp_stream p"
  "dp_stream (p\<lparr>cons_ep := (cons_ep p)\<lparr>dp_two_phase := tp\<rparr>\<rparr>) = dp_stream p"
  "dp_stream (p\<lparr>cons_ep := (cons_ep p)\<lparr>dp_has_new_data := b\<rparr>\<rparr>) = dp_stream p"
  by (simp_all add: dp_stream_def pend_def)

lemma dp_begin_read_eq [pipe_eqs]:
  assumes inv: "dp_inv p" and q_def: "q = flush_consumer p"
    and w_def: "w = \<lparr>span_ptr = r_offset (cons_range p), span_len =
      min (length (dp_stream p)) (length (shm p) - r_offset (cons_range p))\<rparr>"
  shows "dp_begin_read p Consumer =
    (if dp_two_phase (cons_ep p) \<noteq> None then (Err Busy, q, [])
     else if dp_stream p = []
       then (Err (if dp_peer_closed (cons_ep p) then FailedPrecondition else ShouldWait), q, [])
     else (Ok w, q\<lparr>cons_ep := (cons_ep q)\<lparr>dp_two_phase := Some (TPReader w), dp_has_new_data := False\<rparr>\<rparr>, []))"
proof -
  have q: "dp_inv q" unfolding q_def by (rule flush_consumer_inv [OF inv])
  have o: "r_offset (cons_range q) = r_offset (cons_range p)" by (simp add: q_def flush_consumer_def)
  have br: "ring_begin_read (consumer_ring q) = Some w"
    using ring_begin_read_eq [OF dp_rings(2) [OF q]] flushed_stream [OF q_def] o
    by (simp add: w_def) (simp add: consumer_ring_def q_def)
  have "span_is_empty w \<longleftrightarrow> dp_stream p = []"
    using dp_invD(9) [OF inv] by (auto simp: span_is_empty_def w_def min_def)
  then show ?thesis
    using br dp_invD(1) [OF inv] flush_consumer_eq [OF inv]
    by (auto simp: dp_begin_read_def with_lock_def q_def)
qed

lemma dp_begin_read_inv [inv_intros]:
  assumes inv: "dp_inv p"
  shows "dp_inv (fst (snd (dp_begin_read p Consumer)))"
    and "dp_stream (fst (snd (dp_begin_read p Consumer))) = dp_stream p"
proof -
  let ?q = "flush_consumer p"
  have q: "dp_inv ?q" by (rule flush_consumer_inv [OF inv])
  have o: "r_offset (cons_range ?q) = r_offset (cons_range p)" by (simp add: flush_consumer_def)
  have "reader_ok (length (shm ?q)) (cons_range ?q) (Some (TPReader \<lparr>span_ptr = r_offset (cons_range p),
      span_len = min (length (dp_stream p)) (length (shm p) - r_offset (cons_range p))\<rparr>))"
    using o dp_invD(9) [OF inv] by auto
  from set_two_phase_inv(3) [OF q this] q
  show "dp_inv (fst (snd (dp_begin_read p Consumer)))"
    by (simp add: dp_begin_read_eq [OF inv refl refl])
  show "dp_stream (fst (snd (dp_begin_read p Consumer))) = dp_stream p"
    by (simp add: dp_begin_read_eq [OF inv refl refl])
qed

lemma dp_end_read_eq [pipe_eqs]:
  assumes inv: "dp_inv p" and q_def: "q = p\<lparr>cons_ep := (cons_ep p)\<lparr>dp_two_phase := None\<rparr>\<rparr>"
  shows "dp_end_read p Consumer n =
    (case dp_two_phase (cons_ep p) of
       None \<Rightarrow> (Err FailedPrecondition, p, [])
     | Some (TPWriter w) \<Rightarrow> (Err InvalidArgument, q, [])
     | Some (TPReader w) \<Rightarrow>
         if unat n mod unat (element_size p) \<noteq> 0 then (Err InvalidArgument, q, [])
         else if n = 0 then (Ok (), q, [])
         else if unat n > span_len w then (Err InvalidArgument, q, [])
         else let a = announce_read q n
              in (Ok (), a, collect_fired (dp_sig a Producer) (dp_watchers (prod_ep p))))"
    and "dp_inv (fst (snd (dp_end_read p Consumer n)))"
proof -
  note d = dp_invD [OF inv]
  have q: "dp_inv q"
    unfolding q_def by (rule set_two_phase_inv(2) [OF inv]) (simp_all add: latch_ok_end d(14))
  have a: "dp_inv (announce_read q n)" "unat n \<le> r_size (cons_range p)"
    if "dp_two_phase (cons_ep p) = Some (TPReader w)" "n \<noteq> 0" "unat n \<le> span_len w" for w
  proof -
    have w: "span_len w \<le> r_size (cons_range p)" using d(13) that by simp
    have "dp_has_new_data (cons_ep p) \<Longrightarrow> span_len w < r_size (cons_range p) + pend (cons_ep p)"
      using d(14) that(1) by (simp add: latch_ok_def)
    then show "dp_inv (announce_read q n)"
      by (intro announce_read_inv [OF q]) (use that w in \<open>auto simp: q_def word_gt_0\<close>)
    show "unat n \<le> r_size (cons_range p)" using that w by simp
  qed
  have es: "urem (unat n) (unat (element_size p)) = Some (unat n mod unat (element_size p))"
    using d(2) by (simp add: word_gt_0 unat_gt_0)
  have ri: "ring_inv (consumer_ring q)" "data_size (consumer_ring q) = r_size (cons_range p)"
    "ring_capacity (consumer_ring q) = length (shm p)" "element_size q = element_size p"
    "r_offset (data_range (consumer_ring q)) = r_offset (cons_range p)"
    "set_consumer q (consumer_ring q) = q"
    using dp_rings(2) [OF q]
    by (simp_all add: q_def consumer_ring_def ring_capacity_def data_size_def set_consumer_def)
  show eq: "dp_end_read p Consumer n =
    (case dp_two_phase (cons_ep p) of
       None \<Rightarrow> (Err FailedPrecondition, p, [])
     | Some (TPWriter w) \<Rightarrow> (Err InvalidArgument, q, [])
     | Some (TPReader w) \<Rightarrow>
         if unat n mod unat (element_size p) \<noteq> 0 then (Err InvalidArgument, q, [])
         else if n = 0 then (Ok (), q, [])
         else if unat n > span_len w then (Err InvalidArgument, q, [])
         else let a = announce_read q n
              in (Ok (), a, collect_fired (dp_sig a Producer) (dp_watchers (prod_ep p))))"
  proof (cases "dp_two_phase (cons_ep p)")
    case None
    then show ?thesis using d(1) by (simp add: dp_end_read_def with_lock_def)
  next
    case (Some two)
    then obtain w where two: "two = TPReader w" using d(13) by (cases two) auto
    show ?thesis
    proof (cases "unat n mod unat (element_size p) = 0 \<and> n \<noteq> 0 \<and> unat n \<le> span_len w")
      case False
      then show ?thesis using Some two es d(1) ri
        by (auto simp: dp_end_read_def with_lock_def direct_reader_consume_def Let_def q_def [symmetric])
    next
      case True
      let ?a = "announce_read q n" and ?r = "(consumer_ring q)\<lparr>data_range :=
        \<lparr>r_offset = (r_offset (cons_range p) + unat n) mod length (shm p), r_size = r_size (cons_range p) - unat n\<rparr>\<rparr>"
      note a = a [OF Some [unfolded two]]
      have c: "collect_watchers ?a Producer =
          Some (collect_fired (dp_sig ?a Producer) (dp_watchers (prod_ep p)), ?a)"
        using collect_watchers_eq [OF a(1), of Producer] True by (simp add: announce_read_def q_def)
      have "direct_reader_consume w (unat n) (consumer_ring q) = Some (True, ?r)"
        using True a(2) ri discard_all_eq [OF ri(1), of "unat n"] by (simp add: direct_reader_consume_def)
      moreover have "push_control (set_consumer q ?r) Producer n = ?a"
        by (simp add: push_control_def set_consumer_def announce_read_def consumer_ring_def q_def)
      ultimately show ?thesis using True Some two es d(1) c ri(4)
        by (simp add: dp_end_read_def with_lock_def Let_def q_def [symmetric] del: dp_sig.simps)
    qed
  qed
  show "dp_inv (fst (snd (dp_end_read p Consumer n)))"
    using q inv unfolding eq
    by (cases "dp_two_phase (cons_ep p)"; cases "the (dp_two_phase (cons_ep p))")
      (auto simp: Let_def linorder_not_less intro: a)
qed

text \<open>An end of a two-phase read removes the first \<open>n\<close> bytes of the span from the stream.\<close>

lemma dp_end_read_stream:
  assumes inv: "dp_inv p"
  shows "fst (dp_end_read p Consumer n) = Ok () \<Longrightarrow> dp_two_phase (cons_ep p) = Some (TPReader w) \<Longrightarrow>
      \<exists>b. span_as_slice (shm p) w = Some b \<and>
        dp_stream p = take (unat n) b @ dp_stream (fst (snd (dp_end_read p Consumer n)))"
    and "fst (dp_end_read p Consumer n) \<noteq> Ok () \<Longrightarrow>
      dp_stream (fst (snd (dp_end_read p Consumer n))) = dp_stream p"
proof -
  note d = dp_invD [OF inv]
  let ?q = "p\<lparr>cons_ep := (cons_ep p)\<lparr>dp_two_phase := None\<rparr>\<rparr>"
  have sq: "dp_stream ?q = dp_stream p" by (simp add: dp_stream_def)
  note eq = dp_end_read_eq(1) [OF inv refl, of n]
  show "dp_stream (fst (snd (dp_end_read p Consumer n))) = dp_stream p"
    if "fst (dp_end_read p Consumer n) \<noteq> Ok ()"
    using that sq
    by (cases "dp_two_phase (cons_ep p)"; cases "the (dp_two_phase (cons_ep p))")
      (auto simp: eq Let_def split: if_splits)
  show "\<exists>b. span_as_slice (shm p) w = Some b \<and>
        dp_stream p = take (unat n) b @ dp_stream (fst (snd (dp_end_read p Consumer n)))"
    if ok: "fst (dp_end_read p Consumer n) = Ok ()" and w: "dp_two_phase (cons_ep p) = Some (TPReader w)"
  proof -
    have sp: "span_ptr w = r_offset (cons_range p)" "span_len w \<le> r_size (cons_range p)"
      "span_ptr w + span_len w \<le> length (shm p)" using d(13) w by simp_all
    have b: "span_as_slice (shm p) w = Some (take (span_len w) (dp_stream p))"
      using sp by (simp add: span_as_slice_def circ_linear dp_stream_def)
    have n: "unat n \<le> span_len w" using ok w by (auto simp: eq Let_def split: if_splits)
    then have "dp_stream (announce_read ?q n) = drop (unat n) (dp_stream p)"
      using announce_read_stream [of n ?q] sp sq by simp
    moreover have "take (unat n) (take (span_len w) (dp_stream p)) = take (unat n) (dp_stream p)"
      using n by (simp add: min_absorb1)
    ultimately show ?thesis using ok w b sq
      by (auto simp: eq Let_def append_take_drop_id simp del: take_take split: if_splits)
  qed
qed

lemma dp_write_inv [inv_intros]:
  assumes inv: "dp_inv p" and buf: "unat n \<le> length els"
  shows "dp_inv (fst (snd (dp_write p Producer els n aon)))"
    and "dp_stream (fst (snd (dp_write p Producer els n aon))) = dp_stream p @
      (case fst (dp_write p Producer els n aon) of Ok k \<Rightarrow> take (unat k) els | _ \<Rightarrow> [])"
proof -
  let ?q = "flush_producer p" and ?k = "if aon then unat n else min (unat n) (dp_room p)"
  note eq = dp_write_eq [OF inv buf refl refl, of aon]
  have q: "dp_inv ?q" by (rule flush_producer_inv [OF inv])
  have fits: "r_size (prod_range ?q) + length (take ?k els) \<le> length (shm ?q)" if "\<not> (aon \<and> unat n > dp_room p)"
    using that stream_bound [OF inv] by (auto simp: dp_room_def min_def)
  have k32: "?k < 2 ^ 32" using unat_u32_bound [of n] by (auto simp: min_def)
  show "dp_inv (fst (snd (dp_write p Producer els n aon)))"
    using inv q accept_inv [OF q _ fits]
    by (auto simp: eq Let_def simp del: length_take intro!: latch_inv)
  show "dp_stream (fst (snd (dp_write p Producer els n aon))) = dp_stream p @
      (case fst (dp_write p Producer els n aon) of Ok k \<Rightarrow> take (unat k) els | _ \<Rightarrow> [])"
    using accept_stream [OF q fits] k32
    by (auto simp: eq Let_def simp del: length_take split: if_splits)
qed

lemma dp_read_inv [inv_intros]:
  assumes inv: "dp_inv p" and buf: "buffer_ok els n f"
  shows "dp_inv (fst (snd (dp_read p Consumer els n f)))"
    and "dp_stream (fst (snd (dp_read p Consumer els n f))) =
      (case fst (dp_read p Consumer els n f) of
         Ok (out, _) \<Rightarrow> if f_query f \<or> f_peek f then dp_stream p
                        else drop (unat (out_num_bytes out)) (dp_stream p)
       | _ \<Rightarrow> dp_stream p)"
    and "fst (dp_read p Consumer els n f) = Ok (out, es) \<Longrightarrow> \<not> f_query f \<Longrightarrow>
      unat (out_num_bytes out) \<le> length (dp_stream p) \<and> unat (out_num_bytes out) \<le> unat n \<and>
      out_data out = (if f_discard f then [] else take (unat (out_num_bytes out)) (dp_stream p))"
proof -
  let ?q = "(flush_consumer p)\<lparr>cons_ep := (cons_ep (flush_consumer p))\<lparr>dp_has_new_data := False\<rparr>\<rparr>"
  let ?k = "min (unat n) (length (dp_stream p))"
  note eq = dp_read_eq [OF inv buf refl refl]
  have f: "dp_inv (flush_consumer p)" by (rule flush_consumer_inv [OF inv])
  have q: "dp_inv ?q" by (rule set_two_phase_inv(4) [OF f])
  have st: "dp_stream ?q = dp_stream p"
    using flush_consumer_stream [of p] by (simp add: dp_stream_def)
  have k32: "?k < 2 ^ 32" using unat_u32_bound [of n] by (auto simp: min_def)
  have dl: "dp_inv (deliver ?q ?k)" if "dp_two_phase (cons_ep p) = None"
    by (rule deliver_inv [OF q]) (use that in simp_all)
  have ds: "dp_stream (deliver ?q ?k) = drop ?k (dp_stream p)"
    using deliver_stream [OF q, of ?k] st by simp
  have ds': "dp_stream (deliver ?q (unat n)) = drop (unat n) (dp_stream p)"
    if "\<not> length (dp_stream p) < unat n"
    using ds that by (simp add: min_absorb1)
  have dl': "dp_inv (deliver ?q (unat n))"
    if "dp_two_phase (cons_ep p) = None" "\<not> length (dp_stream p) < unat n"
    using dl that by (simp add: min_absorb1)
  show "dp_inv (fst (snd (dp_read p Consumer els n f)))"
    using inv f q dl dl' by (simp add: eq read_result_def Let_def)
  show "dp_stream (fst (snd (dp_read p Consumer els n f))) =
      (case fst (dp_read p Consumer els n f) of
         Ok (out, _) \<Rightarrow> if f_query f \<or> f_peek f then dp_stream p
                        else drop (unat (out_num_bytes out)) (dp_stream p)
       | _ \<Rightarrow> dp_stream p)"
    using ds ds' st k32 by (simp add: eq read_result_def Let_def)
  show "unat (out_num_bytes out) \<le> length (dp_stream p) \<and> unat (out_num_bytes out) \<le> unat n \<and>
      out_data out = (if f_discard f then [] else take (unat (out_num_bytes out)) (dp_stream p))"
    if "fst (dp_read p Consumer els n f) = Ok (out, es)" "\<not> f_query f"
    using that st k32 by (auto simp: eq read_result_def Let_def split: if_splits)
qed

lemma dp_store_inv [inv_intros]:
  assumes inv: "dp_inv p"
  shows "dp_inv (dp_store p xs)" "dp_stream (dp_store p xs) = dp_stream p"
proof -
  note d = dp_invD [OF inv]
  have "dp_inv (dp_store p xs) \<and> dp_stream (dp_store p xs) = dp_stream p"
  proof (cases "dp_two_phase (prod_ep p)")
    case None
    then show ?thesis using inv by (simp add: dp_store_def)
  next
    case (Some two)
    then obtain w where w: "two = TPWriter w" using d(12) by (cases two) auto
    have sp: "span_ptr w = (r_offset (prod_range p) + r_size (prod_range p)) mod length (shm p)"
      "span_len w \<le> length (shm p) - r_size (prod_range p)" "span_ptr w + span_len w \<le> length (shm p)"
      using d(12) Some w by simp_all
    show ?thesis
    proof (cases "length xs \<le> span_len w")
      case True
      then have "span_store (shm p) w xs =
          Some (circ_upd (shm p) (r_offset (prod_range p) + r_size (prod_range p)) xs)"
        using sp by (simp add: span_store_def circ_upd_linear [symmetric])
      then show ?thesis
        using True sp d(6) Some w store_stream [OF inv, of xs] store_inv [OF inv]
        by (simp add: dp_store_def)
    next
      case False
      then show ?thesis using Some w inv by (simp add: dp_store_def span_store_def)
    qed
  qed
  then show "dp_inv (dp_store p xs)" "dp_stream (dp_store p xs) = dp_stream p" by simp_all
qed

lemma dp_query_signals_eq [pipe_eqs]:
  assumes inv: "dp_inv p"
  shows "dp_query_signals p s =
    (let q = (case s of Producer \<Rightarrow> flush_producer p | Consumer \<Rightarrow> flush_consumer p)
     in (Ok (dp_sig q s), latch_at q s))"
  using dp_invD(1) [OF inv] flush_producer_eq [OF inv] flush_consumer_eq [OF inv]
    dp_signals_producer [OF flush_producer_inv [OF inv]]
    dp_signals_consumer [OF flush_consumer_inv [OF inv]]
  by (cases s) (simp_all add: dp_query_signals_def with_lock_def Let_def)

lemma dp_query_signals_inv [inv_intros]:
  assumes inv: "dp_inv p"
  shows "dp_inv (snd (dp_query_signals p s))" "dp_stream (snd (dp_query_signals p s)) = dp_stream p"
  by (cases s; simp add: dp_query_signals_eq [OF inv] Let_def inv flush_producer_inv
      flush_consumer_inv latch_inv)+

lemma dp_close_eq [pipe_eqs]:
  assumes inv: "dp_inv p"
    and q: "q = dp_set_ep (dp_set_ep p s ((dp_ep p s)\<lparr>dp_local_closed := True,
        dp_watchers := fst (cancel_all (dp_watchers (dp_ep p s)))\<rparr>)) (dp_peer s)
      ((dp_ep p (dp_peer s))\<lparr>dp_peer_closed := True\<rparr>)"
  shows "dp_close p s =
      (if dp_local_closed (dp_ep p s) then (Ok (), p, [])
       else (Ok (), latch_at q (dp_peer s), snd (cancel_all (dp_watchers (dp_ep p s))) @
         collect_fired (dp_sig q (dp_peer s)) (dp_watchers (dp_ep p (dp_peer s)))))"
    and "dp_inv q" "dp_stream q = dp_stream p"
proof -
  have qi: "dp_inv q" using inv unfolding q by (cases s) (auto simp: dp_inv_def dp_geometry_def)
  then show "dp_inv q" .
  show "dp_stream q = dp_stream p" unfolding q by (cases s) (simp_all add: dp_stream_def)
  show "dp_close p s =
      (if dp_local_closed (dp_ep p s) then (Ok (), p, [])
       else (Ok (), latch_at q (dp_peer s), snd (cancel_all (dp_watchers (dp_ep p s))) @
         collect_fired (dp_sig q (dp_peer s)) (dp_watchers (dp_ep p (dp_peer s)))))"
    using dp_invD(1) [OF inv] collect_watchers_eq [OF qi, of "dp_peer s"]
    by (cases s) (auto simp: dp_close_def with_lock_def Let_def q split: prod.splits)
qed

lemma dp_close_inv [inv_intros]:
  assumes inv: "dp_inv p"
  shows "dp_inv (fst (snd (dp_close p s)))" "dp_stream (fst (snd (dp_close p s))) = dp_stream p"
  using inv dp_close_eq(2,3) [OF inv refl, of s] by (simp_all add: dp_close_eq(1) [OF inv refl] latch_at_inv)

lemma dp_watch_inv [inv_intros]:
  assumes inv: "dp_inv p"
  shows "dp_inv (snd (dp_register_watch p s sig cb))" "dp_inv (dp_cancel_watch p s i)"
    "dp_stream (snd (dp_register_watch p s sig cb)) = dp_stream p"
    "dp_stream (dp_cancel_watch p s i) = dp_stream p"
  using inv by (cases s; simp add: dp_inv_def dp_geometry_def dp_register_watch_def dp_cancel_watch_def
      Let_def dp_stream_def)+

section \<open>Histories\<close>

text \<open>The calls a program makes on the two ends: the producer writes, the consumer reads.\<close>

datatype 'cb dp_op =
    DWrite "byte list" u32 bool
  | DBeginWrite
  | DStore "byte list"
  | DEndWrite u32
  | DRead "byte list option" u32 read_flags
  | DBeginRead
  | DEndRead u32
  | DQuery data_pipe_end
  | DClose data_pipe_end
  | DRegister data_pipe_end signals 'cb
  | DCancel data_pipe_end watch_id

fun dp_step :: "'cb dpair \<Rightarrow> 'cb dp_op \<Rightarrow> 'cb dpair \<times> 'cb notification list" where
  "dp_step p (DWrite els n aon) = snd (dp_write p Producer els n aon)"
| "dp_step p DBeginWrite = snd (dp_begin_write p Producer)"
| "dp_step p (DStore xs) = (dp_store p xs, [])"
| "dp_step p (DEndWrite n) = snd (dp_end_write p Producer n)"
| "dp_step p (DRead els n f) = snd (dp_read p Consumer els n f)"
| "dp_step p DBeginRead = snd (dp_begin_read p Consumer)"
| "dp_step p (DEndRead n) = snd (dp_end_read p Consumer n)"
| "dp_step p (DQuery s) = (snd (dp_query_signals p s), [])"
| "dp_step p (DClose s) = snd (dp_close p s)"
| "dp_step p (DRegister s sig cb) = (snd (dp_register_watch p s sig cb), [])"
| "dp_step p (DCancel s i) = (dp_cancel_watch p s i, [])"

text \<open>The caller's buffer holds the number of bytes it announces.\<close>

fun dp_op_ok :: "'cb dp_op \<Rightarrow> bool" where
  "dp_op_ok (DWrite els n aon) \<longleftrightarrow> unat n \<le> length els"
| "dp_op_ok (DRead els n f) \<longleftrightarrow> buffer_ok els n f"
| "dp_op_ok _ \<longleftrightarrow> True"

text \<open>
  The bytes a call accepts, and those it removes; a discarded byte is removed unseen (\<open>None\<close>).
  The two-phase calls move the leading bytes of the captured span.
\<close>

definition span_bytes :: "'cb dpair \<Rightarrow> span \<Rightarrow> u32 \<Rightarrow> byte list" where
  "span_bytes p w n = (case span_as_slice (shm p) w of Some b \<Rightarrow> take (unat n) b | None \<Rightarrow> [])"

fun dp_accepted :: "'cb dpair \<Rightarrow> 'cb dp_op \<Rightarrow> byte list" where
  "dp_accepted p (DWrite els n aon) =
     (case fst (dp_write p Producer els n aon) of Ok k \<Rightarrow> take (unat k) els | _ \<Rightarrow> [])"
| "dp_accepted p (DEndWrite n) =
     (case (fst (dp_end_write p Producer n), dp_two_phase (prod_ep p)) of
        (Ok _, Some (TPWriter w)) \<Rightarrow> span_bytes p w n
      | _ \<Rightarrow> [])"
| "dp_accepted p _ = []"

fun dp_removed :: "'cb dpair \<Rightarrow> 'cb dp_op \<Rightarrow> byte option list" where
  "dp_removed p (DRead els n f) =
     (case fst (dp_read p Consumer els n f) of
        Ok (out, _) \<Rightarrow>
          if f_query f \<or> f_peek f then []
          else if f_discard f then replicate (unat (out_num_bytes out)) None
          else map Some (out_data out)
      | _ \<Rightarrow> [])"
| "dp_removed p (DEndRead n) =
     (case (fst (dp_end_read p Consumer n), dp_two_phase (cons_ep p)) of
        (Ok _, Some (TPReader w)) \<Rightarrow> map Some (span_bytes p w n)
      | _ \<Rightarrow> [])"
| "dp_removed p _ = []"

fun dp_run :: "'cb dpair \<Rightarrow> 'cb dp_op list \<Rightarrow> byte list \<times> byte option list \<times> 'cb dpair" where
  "dp_run p [] = ([], [], p)"
| "dp_run p (x # xs) =
     (let (acc, del, q) = dp_run (fst (dp_step p x)) xs
      in (dp_accepted p x @ acc, dp_removed p x @ del, q))"

definition seen_as :: "byte option list \<Rightarrow> byte list \<Rightarrow> bool" where
  "seen_as os bs \<longleftrightarrow> list_all2 (\<lambda>o' b. o' = None \<or> o' = Some b) os bs"

lemma seen_as_simps [simp]:
  "seen_as [] []" "seen_as (map Some bs) bs" "seen_as (replicate (length bs) None) bs"
  by (simp_all add: seen_as_def list_all2_conv_all_nth)

lemma seen_as_append: "seen_as os bs \<Longrightarrow> seen_as os' bs' \<Longrightarrow> seen_as (os @ os') (bs @ bs')"
  by (simp add: seen_as_def list_all2_appendI)

lemma dp_step_inv [inv_intros]: "dp_inv p \<Longrightarrow> dp_op_ok x \<Longrightarrow> dp_inv (fst (dp_step p x))"
  by (cases x) (simp_all add: dp_write_inv dp_begin_write_inv dp_store_inv dp_end_write_stream
      dp_read_inv dp_begin_read_inv dp_end_read_eq(2) [OF _ refl] dp_query_signals_inv dp_close_inv dp_watch_inv)

lemma end_write_ok_two_phase:
  "dp_inv p \<Longrightarrow> fst (dp_end_write p Producer n) = Ok u \<Longrightarrow> \<exists>w. dp_two_phase (prod_ep p) = Some (TPWriter w)"
  using dp_invD(12) [of p]
  by (cases "dp_two_phase (prod_ep p)"; cases "the (dp_two_phase (prod_ep p))")
    (auto simp: dp_end_write_eq)

lemma end_read_ok_two_phase:
  "dp_inv p \<Longrightarrow> fst (dp_end_read p Consumer n) = Ok u \<Longrightarrow> \<exists>w. dp_two_phase (cons_ep p) = Some (TPReader w)"
  using dp_invD(13) [of p]
  by (cases "dp_two_phase (cons_ep p)"; cases "the (dp_two_phase (cons_ep p))")
    (auto simp: dp_end_read_eq)

text \<open>One call: what is accepted goes in at the end, what is removed comes off the front.\<close>

lemma dp_step_stream:
  assumes inv: "dp_inv p" and ok: "dp_op_ok x"
  shows "\<exists>taken. dp_stream p @ dp_accepted p x = taken @ dp_stream (fst (dp_step p x)) \<and>
    seen_as (dp_removed p x) taken"
proof (cases x)
  case (DWrite els n aon)
  then show ?thesis using dp_write_inv(2) [OF inv, of n els aon] ok
    by (intro exI [of _ "[]"]) simp
next
  case DBeginWrite
  then show ?thesis using dp_begin_write_inv(2) [OF inv] by (intro exI [of _ "[]"]) simp
next
  case (DStore xs)
  then show ?thesis using dp_store_inv(2) [OF inv] by (intro exI [of _ "[]"]) simp
next
  case (DEndWrite n)
  show ?thesis
  proof (cases "fst (dp_end_write p Producer n) = Ok ()")
    case True
    then obtain w where w: "dp_two_phase (prod_ep p) = Some (TPWriter w)"
      using end_write_ok_two_phase [OF inv] by blast
    then show ?thesis using DEndWrite True dp_end_write_stream(2) [OF inv True w]
      by (intro exI [of _ "[]"]) (auto simp: span_bytes_def)
  next
    case False
    then show ?thesis using DEndWrite dp_end_write_stream(3) [OF inv False]
      by (intro exI [of _ "[]"]) (simp split: outcome.splits)
  qed
next
  case (DRead els n f)
  then have buf: "buffer_ok els n f" using ok by simp
  show ?thesis
  proof (cases "fst (dp_read p Consumer els n f)")
    case (Ok r)
    obtain out es where r: "r = (out, es)" by (cases r)
    let ?k = "unat (out_num_bytes out)"
    show ?thesis
    proof (cases "f_query f \<or> f_peek f")
      case True
      then show ?thesis using DRead Ok r dp_read_inv(2) [OF inv buf]
        by (intro exI [of _ "[]"]) simp
    next
      case False
      have "?k \<le> length (dp_stream p)"
        "out_data out = (if f_discard f then [] else take ?k (dp_stream p))"
        using dp_read_inv(3) [OF inv buf, of out es] Ok r False by auto
      moreover from this have "seen_as (replicate ?k None) (take ?k (dp_stream p))"
        using seen_as_simps(3) [of "take ?k (dp_stream p)"] by (simp add: min_absorb2)
      ultimately show ?thesis using DRead Ok r dp_read_inv(2) [OF inv buf] False
        by (intro exI [of _ "take ?k (dp_stream p)"]) simp
    qed
  next
    case (Err e)
    then show ?thesis using DRead dp_read_inv(2) [OF inv buf] by (intro exI [of _ "[]"]) simp
  next
    case Panic
    then show ?thesis using DRead dp_read_inv(2) [OF inv buf] by (intro exI [of _ "[]"]) simp
  qed
next
  case DBeginRead
  then show ?thesis using dp_begin_read_inv(2) [OF inv] by (intro exI [of _ "[]"]) simp
next
  case (DEndRead n)
  show ?thesis
  proof (cases "fst (dp_end_read p Consumer n) = Ok ()")
    case True
    then obtain w where w: "dp_two_phase (cons_ep p) = Some (TPReader w)"
      using end_read_ok_two_phase [OF inv] by blast
    then show ?thesis using DEndRead True dp_end_read_stream(1) [OF inv True w]
      by (intro exI [of _ "span_bytes p w n"]) (auto simp: span_bytes_def)
  next
    case False
    then show ?thesis using DEndRead dp_end_read_stream(2) [OF inv False]
      by (intro exI [of _ "[]"]) (simp split: outcome.splits)
  qed
next
  case (DQuery s)
  then show ?thesis using dp_query_signals_inv(2) [OF inv] by (intro exI [of _ "[]"]) simp
next
  case (DClose s)
  then show ?thesis using dp_close_inv(2) [OF inv] by (intro exI [of _ "[]"]) simp
next
  case (DRegister s sig cb)
  then show ?thesis using dp_watch_inv(3) [OF inv] by (intro exI [of _ "[]"]) simp
next
  case (DCancel s i)
  then show ?thesis using dp_watch_inv(4) [OF inv] by (intro exI [of _ "[]"]) simp
qed

lemma dp_run_stream:
  "dp_inv p \<Longrightarrow> list_all dp_op_ok xs \<Longrightarrow> dp_run p xs = (acc, del, q) \<Longrightarrow>
   dp_inv q \<and> (\<exists>taken. dp_stream p @ acc = taken @ dp_stream q \<and> seen_as del taken)"
proof (induction xs arbitrary: p acc del q)
  case Nil
  then show ?case by auto
next
  case (Cons x xs)
  obtain acc' del' where r: "dp_run (fst (dp_step p x)) xs = (acc', del', q)"
    and a: "acc = dp_accepted p x @ acc'" "del = dp_removed p x @ del'"
    using Cons.prems(3) by (auto simp: Let_def split: prod.splits)
  have ok: "dp_op_ok x" "list_all dp_op_ok xs" using Cons.prems(2) by simp_all
  obtain t1 where t1: "dp_stream p @ dp_accepted p x = t1 @ dp_stream (fst (dp_step p x))"
    "seen_as (dp_removed p x) t1" using dp_step_stream [OF Cons.prems(1) ok(1)] by blast
  obtain t2 where t2: "dp_stream (fst (dp_step p x)) @ acc' = t2 @ dp_stream q" "seen_as del' t2"
    "dp_inv q" using Cons.IH [OF dp_step_inv [OF Cons.prems(1) ok(1)] ok(2) r] by blast
  have "dp_stream p @ acc = (t1 @ t2) @ dp_stream q" using t1(1) t2(1) a(1)
    by (metis append.assoc)
  then show ?case using t2(3) seen_as_append [OF t1(2) t2(2)] a(2) by blast
qed

text \<open>No call changes the size of the pages or the element size.\<close>

definition same_size :: "'cb dpair \<Rightarrow> 'cb dpair \<Rightarrow> bool" where
  "same_size p q \<longleftrightarrow> length (shm q) = length (shm p) \<and> element_size q = element_size p"

lemma same_size_simps [simp]:
  "same_size p p"
  "same_size p (flush_producer p)" "same_size p (flush_consumer p)"
  "same_size p (q\<lparr>prod_ep := e\<rparr>) = same_size p q" "same_size p (q\<lparr>cons_ep := e\<rparr>) = same_size p q"
  "same_size p (latch q) = same_size p q" "same_size p (latch_at q s) = same_size p q"
  "same_size p (accept q xs) = same_size p q" "same_size p (deliver q k) = same_size p q"
  "same_size p (announce_written q n) = same_size p q" "same_size p (announce_read q n) = same_size p q"
  "same_size p (dp_set_ep q s e) = same_size p q"
  by (cases s; simp add: same_size_def latch_def accept_def deliver_def announce_written_def
      announce_read_def)+

lemma dp_step_size:
  assumes inv: "dp_inv p" and ok: "dp_op_ok x"
  shows "same_size p (fst (dp_step p x))"
proof (cases x)
  case (DStore xs)
  then show ?thesis by (auto simp: same_size_def dp_store_def span_store_def copy_into_def
        split: option.splits two_phase.splits if_splits)
next
  case (DEndWrite n)
  then show ?thesis by (simp add: dp_end_write_eq [OF inv refl] Let_def split: option.splits two_phase.splits)
next
  case (DEndRead n)
  then show ?thesis by (simp add: dp_end_read_eq [OF inv refl] Let_def split: option.splits two_phase.splits)
next
  case (DQuery s)
  then show ?thesis by (simp add: dp_query_signals_eq [OF inv] Let_def split: data_pipe_end.splits)
next
  case (DClose s)
  then show ?thesis by (simp add: dp_close_eq [OF inv refl])
next
  case (DRegister s sig cb)
  then show ?thesis by (cases s) (simp_all add: dp_register_watch_def Let_def same_size_def)
next
  case (DCancel s i)
  then show ?thesis by (simp add: dp_cancel_watch_def Let_def)
next
  case (DRead els n f)
  then show ?thesis using ok by (simp add: dp_read_eq [OF inv _ refl refl] read_result_def Let_def)
qed (use ok in \<open>simp_all add: dp_write_eq [OF inv _ refl refl] dp_begin_write_eq [OF inv refl refl]
       dp_begin_read_eq [OF inv refl refl] Let_def\<close>)

lemma dp_run_size:
  "dp_inv p \<Longrightarrow> list_all dp_op_ok xs \<Longrightarrow> dp_run p xs = (acc, del, q) \<Longrightarrow> same_size p q"
proof (induction xs arbitrary: p acc del q)
  case (Cons x xs)
  obtain acc' del' where r: "dp_run (fst (dp_step p x)) xs = (acc', del', q)"
    using Cons.prems(3) by (auto simp: Let_def split: prod.splits)
  have ok: "dp_op_ok x" "list_all dp_op_ok xs" using Cons.prems(2) by simp_all
  from Cons.IH [OF dp_step_inv [OF Cons.prems(1) ok(1)] ok(2) r] dp_step_size [OF Cons.prems(1) ok(1)]
  show ?case by (simp add: same_size_def)
qed simp

lemma create_pair_inv:
  assumes "create_pair mem next elem cap = Ok p" and "\<And>pages. mem = Some pages \<Longrightarrow> length pages = unat cap"
  shows "dp_inv p" "dp_stream p = []" "length (shm p) = unat cap" "element_size p = elem"
proof -
  obtain pages where m: "mem = Some pages" "cap \<noteq> 0" "elem \<noteq> 0"
    "p = \<lparr>shm = pages, prod_range = range_empty, cons_range = range_empty, prod_ep = dp_endpoint_new,
          cons_ep = dp_endpoint_new, element_size = elem, poisoned = False, dp_next_watch_id = next\<rparr>"
    using assms(1) by (auto simp: create_pair_def ring_new_def split: if_splits option.splits)
  then have "length pages = unat cap" "0 < unat cap" using assms(2) by (auto simp: unat_gt_0)
  then show "dp_inv p" "dp_stream p = []" "length (shm p) = unat cap" "element_size p = elem"
    using m unat_u32_bound [of cap]
    by (auto simp: dp_inv_def dp_geometry_def range_empty_def dp_endpoint_new_def pend_def latch_ok_def
        dp_stream_def word_gt_0)
qed

section \<open>Whole elements\<close>

lemma seen_as_lengths:
  "xs @ acc = t @ ys \<Longrightarrow> seen_as del t \<Longrightarrow> length xs + length acc = length del + length ys"
  by (drule arg_cong [where f = length]) (simp add: seen_as_def list_all2_lengthD)

lemma unat_dvd_lengths:
  assumes inv: "dp_inv p" and ok: "dp_op_ok x" and e: "e = unat (element_size p)"
    and cap: "e dvd length (shm p)" and st: "e dvd length (dp_stream p)"
  shows "e dvd length (dp_accepted p x)"
proof (cases x)
  case (DWrite els n aon)
  have room: "e dvd dp_room p" using cap st stream_bound [OF inv] by (simp add: dp_room_def dvd_diff_nat)
  have b: "unat n \<le> length els" using ok DWrite by simp
  have "unat (of_nat (min (unat n) (dp_room p)) :: u32) = min (unat n) (dp_room p)"
    using unat_u32_bound [of n] by (auto simp: min_def)
  moreover have "e dvd unat n \<Longrightarrow> e dvd min (unat n) (dp_room p)" using room by (simp add: min_def)
  ultimately show ?thesis using DWrite b e
    by (auto simp: dp_write_eq [OF inv b refl refl] Let_def min_absorb2 mod_eq_0_iff_dvd split: outcome.splits if_splits)
next
  case (DEndWrite n)
  show ?thesis
  proof (cases "fst (dp_end_write p Producer n) = Ok ()")
    case True
    then obtain w where w: "dp_two_phase (prod_ep p) = Some (TPWriter w)"
      using end_write_ok_two_phase [OF inv] by blast
    have "unat n \<le> span_len w \<and> e dvd unat n" using True w e
      by (auto simp: dp_end_write_eq [OF inv refl] Let_def mod_eq_0_iff_dvd split: if_splits)
    moreover obtain b where "span_as_slice (shm p) w = Some b" "length b = span_len w"
      using dp_end_write_stream(2) [OF inv True w] slice_length by (fastforce simp: span_as_slice_def)
    ultimately show ?thesis using DEndWrite True w by (simp add: span_bytes_def min_absorb2)
  next
    case False
    then show ?thesis using DEndWrite by (simp split: outcome.splits)
  qed
qed simp_all

lemma removed_dvd:
  assumes inv: "dp_inv p" and ok: "dp_op_ok x" and e: "e = unat (element_size p)"
    and st: "e dvd length (dp_stream p)"
  shows "e dvd length (dp_removed p x)"
proof (cases x)
  case (DRead els n f)
  have b: "buffer_ok els n f" using ok DRead by simp
  have k: "unat (of_nat (min (unat n) (length (dp_stream p))) :: u32) = min (unat n) (length (dp_stream p))"
    using unat_u32_bound [of n] by (auto simp: min_def)
  have d: "e dvd unat n \<Longrightarrow> e dvd min (unat n) (length (dp_stream p))" using st by (simp add: min_def)
  show ?thesis
  proof (cases "fst (dp_read p Consumer els n f)")
    case (Ok r)
    obtain out es where r: "r = (out, es)" by (cases r)
    show ?thesis
    proof (cases "f_query f \<or> f_peek f")
      case False
      then have "\<not> f_query f" by simp
      note o = dp_read_inv(3) [OF inv b _ this, of out es]
      have "unat (out_num_bytes out) = min (unat n) (length (dp_stream p)) \<and> e dvd unat n"
        using Ok r False e k by (auto simp: dp_read_eq [OF inv b refl refl] read_result_def Let_def
            mod_eq_0_iff_dvd split: if_splits)
      then show ?thesis using DRead Ok r False o d by (simp add: min_absorb2)
    qed (use DRead Ok r in simp)
  qed (use DRead in simp_all)
next
  case (DEndRead n)
  show ?thesis
  proof (cases "fst (dp_end_read p Consumer n) = Ok ()")
    case True
    then obtain w where w: "dp_two_phase (cons_ep p) = Some (TPReader w)"
      using end_read_ok_two_phase [OF inv] by blast
    have "unat n \<le> span_len w \<and> e dvd unat n" using True w e
      by (auto simp: dp_end_read_eq [OF inv refl] Let_def mod_eq_0_iff_dvd split: if_splits)
    moreover obtain b where "span_as_slice (shm p) w = Some b" "length b = span_len w"
      using dp_end_read_stream(1) [OF inv True w] slice_length by (fastforce simp: span_as_slice_def)
    ultimately show ?thesis using DEndRead True w by (simp add: span_bytes_def min_absorb2)
  next
    case False
    then show ?thesis using DEndRead by (simp split: outcome.splits)
  qed
qed simp_all

lemma dp_run_whole:
  "dp_inv p \<Longrightarrow> e dvd length (shm p) \<Longrightarrow> e dvd length (dp_stream p) \<Longrightarrow> list_all dp_op_ok xs \<Longrightarrow>
   dp_run p xs = (acc, del, q) \<Longrightarrow> e = unat (element_size p) \<Longrightarrow> e dvd length acc \<and> e dvd length del"
proof (induction xs arbitrary: p acc del q)
  case (Cons x xs)
  let ?p = "fst (dp_step p x)"
  obtain acc' del' where r: "dp_run ?p xs = (acc', del', q)"
    and a: "acc = dp_accepted p x @ acc'" "del = dp_removed p x @ del'"
    using Cons.prems(5) by (auto simp: Let_def split: prod.splits)
  have ok: "dp_op_ok x" "list_all dp_op_ok xs" using Cons.prems(4) by simp_all
  note inv = Cons.prems(1)
  have d: "e dvd length (dp_accepted p x)" "e dvd length (dp_removed p x)"
    using unat_dvd_lengths [OF inv ok(1) Cons.prems(6,2,3)] removed_dvd [OF inv ok(1) Cons.prems(6,3)]
    by simp_all
  obtain t where "dp_stream p @ dp_accepted p x = t @ dp_stream ?p" "seen_as (dp_removed p x) t"
    using dp_step_stream [OF inv ok(1)] by blast
  then have "length (dp_stream p) + length (dp_accepted p x) =
      length (dp_removed p x) + length (dp_stream ?p)" by (rule seen_as_lengths)
  then have "e dvd length (dp_removed p x) + length (dp_stream ?p)"
    using d Cons.prems(3) by (metis dvd_add)
  then have s: "e dvd length (dp_stream ?p)" using d(2) by (simp add: dvd_add_right_iff)
  have z: "e dvd length (shm ?p)" "e = unat (element_size ?p)"
    using dp_step_size [OF inv ok(1)] Cons.prems(2,6) by (simp_all add: same_size_def)
  from Cons.IH [OF dp_step_inv [OF inv ok(1)] z(1) s ok(2) r z(2)] d a show ?case by simp
qed simp

section \<open>A data pipe as a byte channel\<close>

text \<open>One-phase calls as a client of a channel makes them: at most \<open>u32::MAX\<close> bytes per call.\<close>

definition chunk_len :: "nat \<Rightarrow> nat" where
  "chunk_len n = min n (2 ^ 32 - 1)"

definition dp_put :: "'cb dpair \<Rightarrow> byte list \<Rightarrow> (nat \<times> 'cb dpair) option" where
  "dp_put p xs =
     (let ys = take (chunk_len (length xs)) xs in
      case dp_write p Producer ys (of_nat (length ys)) False of
        (Ok k, p', _) \<Rightarrow> Some (unat k, p')
      | (Err _, p', _) \<Rightarrow> Some (0, p')
      | (Panic, _, _) \<Rightarrow> None)"

definition dp_get :: "'cb dpair \<Rightarrow> nat \<Rightarrow> (byte list \<times> 'cb dpair) option" where
  "dp_get p n =
     (case dp_read p Consumer (Some (replicate (chunk_len n) 0)) (of_nat (chunk_len n)) read_flags_default of
        (Ok (out, _), p', _) \<Rightarrow> Some (out_data out, p')
      | (Err _, p', _) \<Rightarrow> Some ([], p')
      | (Panic, _, _) \<Rightarrow> None)"

lemma chunk_len [simp]: "chunk_len n \<le> n" "unat (of_nat (chunk_len n) :: u32) = chunk_len n"
  by (simp_all add: chunk_len_def)

lemma dp_write_no_panic:
  assumes "dp_inv p" "unat n \<le> length els"
  shows "fst (dp_write p Producer els n aon) \<noteq> Panic"
  by (simp add: dp_write_eq [OF assms refl refl] Let_def)

lemma dp_read_no_panic:
  assumes "dp_inv p" "buffer_ok els n f"
  shows "fst (dp_read p Consumer els n f) \<noteq> Panic"
  by (simp add: dp_read_eq [OF assms refl refl] read_result_def Let_def)

lemma dp_write_count:
  assumes "dp_inv p" "unat n \<le> length els" "fst (dp_write p Producer els n aon) = Ok k"
  shows "unat k \<le> unat n"
  using assms(3) unat_u32_bound [of n]
  by (auto simp: dp_write_eq [OF assms(1,2) refl refl] Let_def split: if_splits)

interpretation dp_fifo: fifo dp_inv dp_stream dp_put dp_get
proof unfold_locales
  fix p :: "'cb dpair" and xs :: "byte list" assume inv: "dp_inv p"
  let ?ys = "take (chunk_len (length xs)) xs" and ?n = "of_nat (chunk_len (length xs)) :: u32"
  have l: "length ?ys = chunk_len (length xs)" by simp
  then have buf: "unat ?n \<le> length ?ys" by simp
  obtain r p' ns where w: "dp_write p Producer ?ys ?n False = (r, p', ns)"
    by (cases "dp_write p Producer ?ys ?n False")
  have p': "dp_inv p'" "dp_stream p' = dp_stream p @ (case r of Ok k \<Rightarrow> take (unat k) ?ys | _ \<Rightarrow> [])"
    using dp_write_inv [OF inv buf, of False] w by simp_all
  show "\<exists>k q'. dp_put p xs = Some (k, q') \<and> k \<le> length xs \<and> dp_inv q' \<and>
      dp_stream q' = dp_stream p @ take k xs"
  proof (cases r)
    case (Ok k)
    then have k: "unat k \<le> chunk_len (length xs)" using dp_write_count [OF inv buf, of False k] w by simp
    then have "take (unat k) ?ys = take (unat k) xs" by (simp add: min_absorb1)
    moreover have "unat k \<le> length xs" using k chunk_len(1) order_trans by blast
    ultimately show ?thesis using w p' Ok l by (simp add: dp_put_def Let_def del: length_take)
  next
    case (Err e)
    then show ?thesis using w p' l by (simp add: dp_put_def Let_def del: length_take)
  next
    case Panic
    then show ?thesis using dp_write_no_panic [OF inv buf, of False] w by simp
  qed
next
  fix p :: "'cb dpair" and n assume inv: "dp_inv p"
  let ?b = "Some (replicate (chunk_len n) 0) :: byte list option" and ?n = "of_nat (chunk_len n) :: u32"
  let ?f = read_flags_default
  have buf: "buffer_ok ?b ?n ?f" by (simp add: buffer_ok_def)
  obtain r p' ns where w: "dp_read p Consumer ?b ?n ?f = (r, p', ns)"
    by (cases "dp_read p Consumer ?b ?n ?f")
  have f: "\<not> f_query ?f" "\<not> f_peek ?f" "\<not> f_discard ?f" by (simp_all add: read_flags_default_def)
  show "\<exists>ys q'. dp_get p n = Some (ys, q') \<and> length ys \<le> n \<and> dp_inv q' \<and> dp_stream p = ys @ dp_stream q'"
  proof (cases r)
    case (Ok x)
    obtain out es where x: "x = (out, es)" by (cases x)
    have d: "unat (out_num_bytes out) \<le> chunk_len n"
      "out_data out = take (unat (out_num_bytes out)) (dp_stream p)"
      using dp_read_inv(3) [OF inv buf, of out es] w Ok x f by auto
    moreover have "dp_stream p' = drop (unat (out_num_bytes out)) (dp_stream p)"
      using dp_read_inv(2) [OF inv buf] w Ok x f by simp
    moreover have "unat (out_num_bytes out) \<le> n" using d(1) chunk_len(1) order_trans by blast
    ultimately show ?thesis using dp_read_inv(1) [OF inv buf] w Ok x by (auto simp: dp_get_def)
  next
    case (Err e)
    then show ?thesis using dp_read_inv(1,2) [OF inv buf] w by (simp add: dp_get_def)
  next
    case Panic
    then show ?thesis using dp_read_no_panic [OF inv buf] w by simp
  qed
qed

text \<open>A four-byte pipe of one-byte elements, for the examples.\<close>

definition demo_pair :: "nat dpair" where
  "demo_pair = \<lparr>shm = [0, 0, 0, 0], prod_range = range_empty, cons_range = range_empty,
     prod_ep = dp_endpoint_new, cons_ep = dp_endpoint_new, element_size = 1, poisoned = False,
     dp_next_watch_id = 1\<rparr>"

lemma demo_pair_created: "create_pair (Some [0, 0, 0, 0]) 1 1 4 = Ok demo_pair"
  by (simp add: create_pair_def demo_pair_def ring_new_def)

lemma demo_pair_inv: "dp_inv demo_pair"
  using create_pair_inv(1) [OF demo_pair_created] by simp

lemma demo_pair_fields:
  "dp_two_phase (prod_ep demo_pair) = None" "dp_two_phase (cons_ep demo_pair) = None"
  "\<not> dp_peer_closed (prod_ep demo_pair)" "\<not> dp_peer_closed (cons_ep demo_pair)"
  "\<not> dp_local_closed (prod_ep demo_pair)" "\<not> dp_local_closed (cons_ep demo_pair)"
  "element_size demo_pair = 1" "dp_stream demo_pair = []" "length (shm demo_pair) = 4"
  by (simp_all add: demo_pair_def dp_endpoint_new_def dp_stream_def range_empty_def pend_def)

text \<open>The same pipe after its producer wrote three bytes.\<close>

lemma demo_written:
  "fst (dp_write demo_pair Producer [1, 2, 3] 3 False) = Ok 3"
  "p = fst (snd (dp_write demo_pair Producer [1, 2, 3] 3 False)) \<Longrightarrow>
     dp_inv p \<and> dp_stream p = [1, 2, 3] \<and> dp_two_phase (cons_ep p) = None \<and> element_size p = 1"
proof -
  have b: "unat (3 :: u32) \<le> length [1, 2, 3 :: byte]" by simp
  note eq = dp_write_eq [OF demo_pair_inv b refl refl, of False]
  show w: "fst (dp_write demo_pair Producer [1, 2, 3] 3 False) = Ok 3"
    by (simp add: eq demo_pair_fields dp_room_def Let_def)
  have "dp_two_phase (cons_ep (fst (snd (dp_write demo_pair Producer [1, 2, 3] 3 False)))) = None \<and>
      element_size (fst (snd (dp_write demo_pair Producer [1, 2, 3] 3 False))) = 1"
    by (simp add: eq demo_pair_fields dp_room_def Let_def latch_def accept_def announce_written_def)
  then show "p = fst (snd (dp_write demo_pair Producer [1, 2, 3] 3 False)) \<Longrightarrow>
     dp_inv p \<and> dp_stream p = [1, 2, 3] \<and> dp_two_phase (cons_ep p) = None \<and> element_size p = 1"
    using dp_write_inv [OF demo_pair_inv b, of False] demo_pair_fields w by simp
qed

section \<open>Properties\<close>

text \<open>C3: A data pipe is a lossless byte stream: from its creation on, under any sequence of one-phase
  and two-phase writes and reads (peeks, queries and discards included), queries, watches and
  closures whose buffers hold the announced number of bytes, no call panics under the lock, and the
  bytes accepted are, in order, the bytes removed (as far as the caller saw them) followed by the
  bytes still in the pipe, which never exceed its capacity.\<close>

theorem data_pipe_history_fifo:
  assumes c: "create_pair (Some pages) next elem cap = Ok p" and len: "length pages = unat cap"
    and ok: "list_all dp_op_ok xs" and r: "dp_run p xs = (acc, del, q)"
  shows "\<not> poisoned q \<and> length (dp_stream q) \<le> unat cap \<and>
    (\<exists>taken. acc = taken @ dp_stream q \<and> seen_as del taken)"
proof -
  note p = create_pair_inv [OF c]
  have inv: "dp_inv p" and s: "dp_stream p = []" and l: "length (shm p) = unat cap"
    using p len by simp_all
  have q: "dp_inv q" "\<exists>taken. acc = taken @ dp_stream q \<and> seen_as del taken"
    using dp_run_stream [OF inv ok r] s by simp_all
  have "length (shm q) = length (shm p)"
    using dp_run_size [OF inv ok r] by (simp add: same_size_def)
  then show ?thesis using q dp_invD(1) [OF q(1)] stream_bound [OF q(1)] l by simp
qed

theorem data_pipe_history_fifo_witness:
  "\<exists>acc del q. dp_run demo_pair
      [DWrite [1, 2, 3] 3 False, DRead (Some [0, 0]) 2 read_flags_default] = (acc, del, q) \<and>
    acc = [1, 2, 3] \<and> del = [Some 1, Some 2] \<and> \<not> poisoned q \<and> dp_stream q = [3]"
proof -
  let ?xs = "[DWrite [1, 2, 3] 3 False, DRead (Some [0, 0]) 2 read_flags_default] :: nat dp_op list"
  obtain acc del q where r: "dp_run demo_pair ?xs = (acc, del, q)" by (metis prod_cases3)
  let ?p = "fst (snd (dp_write demo_pair Producer [1, 2, 3] 3 False))"
  have p: "dp_inv ?p" "dp_stream ?p = [1, 2, 3]" "dp_two_phase (cons_ep ?p) = None" "element_size ?p = 1"
    using demo_written(2) by blast+
  have "buffer_ok (Some [0, 0]) 2 read_flags_default" by (simp add: buffer_ok_def)
  then have "dp_removed ?p (DRead (Some [0, 0]) 2 read_flags_default) = [Some 1, Some 2]"
    by (simp add: dp_read_eq [OF p(1) _ refl refl] p read_result_def Let_def read_flags_default_def)
  then have v: "acc = [1, 2, 3]" "del = [Some 1, Some 2]"
    using r demo_written(1) by (auto simp: Let_def split: prod.splits)
  have "list_all dp_op_ok ?xs" by (simp add: buffer_ok_def)
  from data_pipe_history_fifo [OF demo_pair_created _ this r]
  obtain taken where t: "\<not> poisoned q" "acc = taken @ dp_stream q" "seen_as del taken" by auto
  then have "length taken = 2" using v by (auto simp: seen_as_def dest: list_all2_lengthD)
  then have "dp_stream q = drop 2 acc" using t(2) by simp
  then have "dp_stream q = [3]" using v(1) by simp
  with r v t show ?thesis by blast
qed

text \<open>The outcome of a write in terms of the stream alone, whatever control messages are in
  flight: the checks come in the order element size, active two-phase write, closed peer; then an
  all-or-none write succeeds exactly when everything fits and otherwise reports OutOfRange, and a
  partial write takes what fits, reporting ShouldWait when nothing does; the accepted prefix is
  appended to the stream.\<close>

theorem data_pipe_write_outcome:
  assumes inv: "dp_inv p" and buf: "unat n = length els"
    and room: "room = length (shm p) - length (dp_stream p)"
    and w: "dp_write p Producer els n aon = (res, p', ns)"
  shows "res = (if unat n mod unat (element_size p) \<noteq> 0 then Err InvalidArgument
      else if dp_two_phase (prod_ep p) \<noteq> None then Err Busy
      else if dp_local_closed (cons_ep p) then Err FailedPrecondition
      else if aon then (if unat n \<le> room then Ok n else Err OutOfRange)
      else if els \<noteq> [] \<and> room = 0 then Err ShouldWait
      else Ok (of_nat (min (unat n) room))) \<and>
    dp_stream p' = dp_stream p @ (case res of Ok k \<Rightarrow> take (unat k) els | _ \<Rightarrow> [])"
proof -
  have b: "unat n \<le> length els" using buf by simp
  have "els \<noteq> [] \<longleftrightarrow> unat n \<noteq> 0" using buf by simp
  then show ?thesis
    using dp_write_inv(2) [OF inv b, of aon] w dp_invD(15) [OF inv]
    by (auto simp: dp_write_eq [OF inv b refl refl] dp_room_def room Let_def min_def unat_eq_0 split: if_splits)
qed

theorem data_pipe_write_outcome_witness:
  "\<exists>p' ns. dp_write demo_pair Producer [1, 2, 3, 4, 5] 5 False = (Ok 4, p', ns) \<and>
    dp_stream p' = [1, 2, 3, 4]"
proof -
  obtain res p' ns where w: "dp_write demo_pair Producer [1, 2, 3, 4, 5] 5 False = (res, p', ns)"
    by (metis prod_cases3)
  have "res = Ok 4 \<and> dp_stream p' = [1, 2, 3, 4]"
    using data_pipe_write_outcome [OF demo_pair_inv _ refl w] by (simp add: demo_pair_fields)
  with w show ?thesis by simp
qed

text \<open>The outcome of a read in terms of the stream alone: the flag and buffer checks come first,
  then an active two-phase read, a query, the element size; then an all-or-none read needs all its
  bytes and a partial read at least one, reporting FailedPrecondition once the producer is closed
  and OutOfRange or ShouldWait before; on success the caller gets the front of the stream, which
  is removed unless the read was a peek.\<close>

theorem data_pipe_read_outcome:
  assumes inv: "dp_inv p" and buf: "buffer_ok els n f" and L: "L = length (dp_stream p)"
    and r: "dp_read p Consumer els n f = (res, p', ns)"
  shows "(if f_peek f \<and> f_discard f \<or> f_query f \<and> (f_peek f \<or> f_discard f) \<or>
          \<not> (f_discard f \<or> f_query f) \<and> els = None \<and> n > 0
      then res = Err InvalidArgument
      else if dp_two_phase (cons_ep p) \<noteq> None then res = Err Busy
      else if f_query f then res = Ok (\<lparr>out_num_bytes = of_nat L, out_data = []\<rparr>, els)
      else if unat n mod unat (element_size p) \<noteq> 0 then res = Err InvalidArgument
      else if (if f_all_or_none f then unat n > L else L = 0)
      then res = Err (if dp_local_closed (prod_ep p) then FailedPrecondition
                      else if f_all_or_none f then OutOfRange else ShouldWait)
      else \<exists>out. res = Ok (out, put_prefix els (out_data out)) \<and>
        unat (out_num_bytes out) = min (unat n) L \<and>
        out_data out = (if f_discard f then [] else take (unat n) (dp_stream p)) \<and>
        dp_stream p' = (if f_peek f then dp_stream p else drop (unat n) (dp_stream p))) \<and>
    ((\<exists>e. res = Err e) \<longrightarrow> dp_stream p' = dp_stream p)"
proof -
  have k: "unat (of_nat (min (unat n) L) :: u32) = min (unat n) L"
    using unat_u32_bound [of n] by (auto simp: min_def)
  have t: "take (min (unat n) L) (dp_stream p) = take (unat n) (dp_stream p)"
    "drop (min (unat n) L) (dp_stream p) = drop (unat n) (dp_stream p)"
    using L by (simp_all add: min_def)
  let ?q = "(flush_consumer p)\<lparr>cons_ep := (cons_ep (flush_consumer p))\<lparr>dp_has_new_data := False\<rparr>\<rparr>"
  note eq = dp_read_eq [OF inv buf refl L]
  have err: "(\<exists>e. res = Err e) \<longrightarrow> dp_stream p' = dp_stream p"
    using dp_read_inv(2) [OF inv buf] r by auto
  have s: "res = Ok (out, es) \<Longrightarrow> \<not> f_query f \<Longrightarrow>
      dp_stream p' = (if f_peek f then dp_stream p else drop (unat (out_num_bytes out)) (dp_stream p))" for out es
    using dp_read_inv(2) [OF inv buf] r by auto
  let ?bad = "f_peek f \<and> f_discard f \<or> f_query f \<and> (f_peek f \<or> f_discard f) \<or>
    \<not> (f_discard f \<or> f_query f) \<and> els = None \<and> n > 0"
  let ?few = "if f_all_or_none f then unat n > L else L = 0"
  consider (bad) ?bad | (busy) "\<not> ?bad" "dp_two_phase (cons_ep p) \<noteq> None"
    | (asks) "\<not> ?bad" "dp_two_phase (cons_ep p) = None" "f_query f"
    | (elem) "\<not> ?bad" "dp_two_phase (cons_ep p) = None" "\<not> f_query f"
        "unat n mod unat (element_size p) \<noteq> 0"
    | (few) "\<not> ?bad" "dp_two_phase (cons_ep p) = None" "\<not> f_query f"
        "unat n mod unat (element_size p) = 0" ?few
    | (ok) "\<not> ?bad" "dp_two_phase (cons_ep p) = None" "\<not> f_query f"
        "unat n mod unat (element_size p) = 0" "\<not> ?few"
    by blast
  then show ?thesis
  proof cases
    case bad
    then show ?thesis using r err unfolding eq by simp
  next
    case busy
    then show ?thesis using r err unfolding eq if_not_P [OF busy(1)] by simp
  next
    case asks
    then show ?thesis using r err unfolding eq if_not_P [OF asks(1)] by simp
  next
    case elem
    then show ?thesis using r err unfolding eq if_not_P [OF elem(1)] by simp
  next
    case few
    then show ?thesis using r err dp_invD(16) [OF inv] unfolding eq if_not_P [OF few(1)]
      by (cases "f_all_or_none f"; cases "dp_local_closed (prod_ep p)") auto
  next
    case ok
    let ?d = "if f_discard f then [] else take (min (unat n) L) (dp_stream p)"
    have rr: "(res, p', ns) = read_result ?q (min (unat n) L) els f"
      using r ok unfolding eq if_not_P [OF ok(1)] by (cases "f_all_or_none f") simp_all
    then have res: "res = Ok (\<lparr>out_num_bytes = of_nat (min (unat n) L), out_data = ?d\<rparr>, put_prefix els ?d)"
      by (simp add: read_result_def Let_def)
    then have "dp_stream p' = (if f_peek f then dp_stream p else drop (min (unat n) L) (dp_stream p))"
      using s [OF res ok(3)] k by simp
    then show ?thesis using ok(2-) res k t unfolding if_not_P [OF ok(1)] by auto
  qed
qed

theorem data_pipe_read_outcome_witness:
  "\<exists>p :: nat dpair. \<exists>p' ns. dp_read p Consumer (Some [9, 9, 9, 9]) 4 read_flags_default =
      (Ok (\<lparr>out_num_bytes = 3, out_data = [1, 2, 3]\<rparr>, Some [1, 2, 3, 9]), p', ns) \<and> dp_stream p' = []"
proof -
  let ?p = "fst (snd (dp_write demo_pair Producer [1, 2, 3] 3 False))"
  have p: "dp_inv ?p" "dp_stream ?p = [1, 2, 3]" "dp_two_phase (cons_ep ?p) = None" "element_size ?p = 1"
    using demo_written(2) by blast+
  obtain res p' ns where r: "dp_read ?p Consumer (Some [9, 9, 9, 9]) 4 read_flags_default = (res, p', ns)"
    by (metis prod_cases3)
  from data_pipe_read_outcome [OF p(1) _ refl r] p(2,3,4)
  obtain out where out: "res = Ok (out, put_prefix (Some [9, 9, 9, 9]) (out_data out))"
    "unat (out_num_bytes out) = 3" "out_data out = [1, 2, 3]" "dp_stream p' = []"
    by (auto simp: read_flags_default_def buffer_ok_def)
  have "out_num_bytes out = 3" using out(2) by (simp add: word_unat_eq_iff)
  then have "out = \<lparr>out_num_bytes = 3, out_data = [1, 2, 3]\<rparr>" using out(3) by simp
  then have "dp_read ?p Consumer (Some [9, 9, 9, 9]) 4 read_flags_default =
      (Ok (\<lparr>out_num_bytes = 3, out_data = [1, 2, 3]\<rparr>, Some [1, 2, 3, 9]), p', ns)"
    using r out(1) by (simp add: put_prefix_def)
  with out(4) show ?thesis by blast
qed

text \<open>The signal state of each end tells what the next operation will do: WRITABLE is satisfied
  exactly when a two-phase write can begin, unsatisfiable exactly when it fails with
  FailedPrecondition, and pending exactly when it fails with ShouldWait; READABLE likewise for reads;
  and everything satisfied is satisfiable.\<close>

theorem data_pipe_signals_predict:
  assumes inv: "dp_inv p" and tp: "dp_two_phase (prod_ep p) = None" "dp_two_phase (cons_ep p) = None"
    and ps: "fst (dp_query_signals p Producer) = Ok ps" and cs: "fst (dp_query_signals p Consumer) = Ok cs"
    and bw: "bw = fst (dp_begin_write p Producer)" and br: "br = fst (dp_begin_read p Consumer)"
  shows "is_satisfied ps WRITABLE = (\<exists>w. bw = Ok w) \<and>
    is_unsatisfiable ps WRITABLE = (bw = Err FailedPrecondition) \<and>
    (\<not> is_satisfied ps WRITABLE \<and> \<not> is_unsatisfiable ps WRITABLE) = (bw = Err ShouldWait) \<and>
    is_satisfied cs READABLE = (\<exists>w. br = Ok w) \<and>
    is_unsatisfiable cs READABLE = (br = Err FailedPrecondition) \<and>
    (\<not> is_satisfied cs READABLE \<and> \<not> is_unsatisfiable cs READABLE) = (br = Err ShouldWait) \<and>
    contains (satisfiable ps) (satisfied ps) \<and> contains (satisfiable cs) (satisfied cs)"
proof -
  have r: "dp_room (flush_producer p) = dp_room p" by (simp add: dp_room_def)
  have ps': "ps = producer_signals (dp_peer_closed (prod_ep p)) (0 < dp_room p)"
    using ps by (simp add: dp_query_signals_eq [OF inv] Let_def r)
  obtain new where cs': "cs = consumer_signals (dp_peer_closed (cons_ep p)) new (dp_stream p \<noteq> [])"
    using cs by (auto simp: dp_query_signals_eq [OF inv] Let_def)
  have P: "is_satisfied ps WRITABLE = (\<not> dp_peer_closed (prod_ep p) \<and> 0 < dp_room p)"
    "is_unsatisfiable ps WRITABLE = dp_peer_closed (prod_ep p)"
    "contains (satisfiable ps) (satisfied ps)"
    unfolding ps' by (auto simp: producer_signals_def is_satisfied_def is_unsatisfiable_def
        contains_def signal_consts)
  have C: "is_satisfied cs READABLE = (dp_stream p \<noteq> [])"
    "is_unsatisfiable cs READABLE = (dp_peer_closed (cons_ep p) \<and> dp_stream p = [])"
    "contains (satisfiable cs) (satisfied cs)"
    unfolding cs' by (auto simp: consumer_signals_def is_satisfied_def is_unsatisfiable_def
        contains_def signal_consts)
  show ?thesis
    using P C tp by (auto simp: bw br dp_begin_write_eq [OF inv refl refl] dp_begin_read_eq [OF inv refl refl])
qed

theorem data_pipe_signals_predict_witness:
  "\<exists>ps cs. fst (dp_query_signals demo_pair Producer) = Ok ps \<and> is_satisfied ps WRITABLE \<and>
    fst (dp_query_signals demo_pair Consumer) = Ok cs \<and> \<not> is_satisfied cs READABLE \<and>
    fst (dp_begin_read demo_pair Consumer) = Err ShouldWait"
proof -
  note tp = demo_pair_fields(1,2)
  obtain ps where ps: "fst (dp_query_signals demo_pair Producer) = Ok ps"
    by (simp add: dp_query_signals_eq [OF demo_pair_inv] Let_def)
  obtain cs where cs: "fst (dp_query_signals demo_pair Consumer) = Ok cs"
    by (simp add: dp_query_signals_eq [OF demo_pair_inv] Let_def)
  have br: "fst (dp_begin_read demo_pair Consumer) = Err ShouldWait"
    by (simp add: dp_begin_read_eq [OF demo_pair_inv refl refl] demo_pair_fields)
  have bw: "\<exists>w. fst (dp_begin_write demo_pair Producer) = Ok w"
    by (simp add: dp_begin_write_eq [OF demo_pair_inv refl refl] demo_pair_fields dp_room_def)
  from data_pipe_signals_predict [OF demo_pair_inv tp ps cs refl refl] ps cs br bw show ?thesis by auto
qed

text \<open>When the element size divides the capacity, elements stay whole: whatever the sequence of
  calls, the bytes accepted, the bytes removed and the bytes left are whole numbers of elements.\<close>

theorem data_pipe_elements_stay_whole:
  assumes c: "create_pair (Some pages) next elem cap = Ok p" and len: "length pages = unat cap"
    and whole: "unat elem dvd unat cap"
    and ok: "list_all dp_op_ok xs" and r: "dp_run p xs = (acc, del, q)"
  shows "unat elem dvd length acc \<and> unat elem dvd length del \<and> unat elem dvd length (dp_stream q)"
proof -
  note p = create_pair_inv [OF c]
  have "dp_inv p" "unat (element_size p) dvd length (shm p)" "unat elem dvd length (dp_stream p)"
    using p len whole by simp_all
  then have "unat (element_size p) dvd length acc \<and> unat (element_size p) dvd length del"
    "dp_inv q" "\<exists>taken. dp_stream p @ acc = taken @ dp_stream q \<and> seen_as del taken"
    using dp_run_whole [OF _ _ _ ok r] dp_run_stream [OF _ ok r] p len by auto
  moreover from this(3) have "length (dp_stream p) + length acc = length del + length (dp_stream q)"
    using seen_as_lengths by blast
  ultimately have "unat elem dvd length acc" "unat elem dvd length del"
    "length acc = length del + length (dp_stream q)" using p len by simp_all
  then show ?thesis by (metis dvd_add_right_iff)
qed

theorem data_pipe_elements_stay_whole_witness:
  "\<exists>p acc del q. create_pair (Some [0, 0, 0, 0]) 1 2 4 = Ok (p :: nat dpair) \<and>
    dp_run p [DWrite [1, 2, 3, 4, 5, 6] 6 False] = (acc, del, q) \<and> 2 dvd length acc"
proof -
  obtain p :: "nat dpair" where p: "create_pair (Some [0, 0, 0, 0]) 1 2 4 = Ok p"
    by (simp add: create_pair_def)
  obtain acc del q where r: "dp_run p [DWrite [1, 2, 3, 4, 5, 6] 6 False] = (acc, del, q)"
    by (metis prod_cases3)
  from data_pipe_elements_stay_whole [OF p _ _ _ r] p r show ?thesis by auto
qed

text \<open>A call whose buffer is shorter than the count it announces panics while it holds the pair's
  mutex; from then on the pipe is unusable from both ends: every call that takes the lock fails with
  Internal, queries report no signals at all, and closing does not reach the peer.\<close>

theorem data_pipe_short_buffer_poisons:
  assumes inv: "dp_inv p" and short: "length els < unat n"
    and elem: "unat n mod unat (element_size p) = 0"
    and free: "dp_two_phase (prod_ep p) = None" "\<not> dp_peer_closed (prod_ep p)"
    and w: "dp_write p Producer els n aon = (res, q, ns)"
  shows "res = Panic \<and> fst (dp_write q s els' n' aon') \<in> {Err Internal, Err InvalidArgument} \<and>
    fst (dp_read q s b n' f) \<in> {Err Internal, Err InvalidArgument} \<and>
    fst (dp_begin_write q s) = Err Internal \<and> fst (dp_end_write q s n') = Err Internal \<and>
    fst (dp_begin_read q s) = Err Internal \<and> fst (dp_end_read q s n') = Err Internal \<and>
    dp_query_signals q s = (Ok signals_default, q) \<and> dp_close q s = (Ok (), q, [])"
proof -
  have es: "urem (unat m) (unat (element_size p)) = Some (unat m mod unat (element_size p))" for m
    using dp_invD(2) [OF inv] by (simp add: word_gt_0 unat_gt_0)
  have "slice els 0 (unat n) = None" using short by (simp add: slice_def)
  then have "(res, q, ns) = (Panic, p\<lparr>poisoned := True\<rparr>, [])"
    using w elem free dp_invD(1) [OF inv]
    by (simp add: dp_write_def with_lock_def flush_producer_eq [OF inv] es)
  then show ?thesis
    by (auto simp: es dp_write_def dp_read_def dp_begin_write_def dp_end_write_def dp_begin_read_def
        dp_end_read_def dp_query_signals_def dp_close_def with_lock_def)
qed

theorem data_pipe_short_buffer_poisons_witness:
  "\<exists>q ns. dp_write demo_pair Producer [1] 2 False = (Panic, q, ns) \<and>
    fst (dp_begin_read q Consumer) = Err Internal"
proof -
  obtain res q ns where w: "dp_write demo_pair Producer [1] 2 False = (res, q, ns)"
    by (metis prod_cases3)
  have "fst (dp_begin_read q Consumer) = Err Internal \<and> res = Panic"
    using data_pipe_short_buffer_poisons [OF demo_pair_inv _ _ _ _ w]
    by (simp add: demo_pair_fields)
  then show ?thesis using w by auto
qed

end
