(* ===== verification/Trap.thy ===== *)
theory Trap
  imports MessagePipe DataPipe
begin

text \<open>
  Traps (\<open>crates/mojo-rs-core/src/trap.rs\<close>): a set of triggers, each a watch on some dispatcher, and
  an armed flag.  A trap only knows its dispatchers through the trait \<open>Dispatcher\<close>
  (\<open>dispatcher.rs\<close>), modelled by a record of operations on a world \<open>'w\<close> that holds the dispatchers
  under keys \<open>'k\<close>; the locale \<open>dispatcher\<close> states what an implementation promises, and is
  interpreted on the endpoints of message pipes and of data pipes.  A watch callback is the
  trigger's context; an event list is what the user callback is invoked with, in order, after
  the trap's mutex was released.
\<close>

section \<open>The dispatcher interface\<close>

record ('k, 'w) dispatcher_ops =
  d_query :: "'w \<Rightarrow> 'k \<Rightarrow> signals_state \<times> 'w"
  d_start :: "'w \<Rightarrow> 'k \<Rightarrow> signals \<Rightarrow> u64 \<Rightarrow> watch_id \<times> 'w"
  d_cancel :: "'w \<Rightarrow> 'k \<Rightarrow> watch_id \<Rightarrow> 'w"

section \<open>State and operations\<close>

record trap_event =
  trigger_context :: u64
  event_state :: signals_state
  event_result :: core_error

record 'k trigger =
  t_watch :: watch_id
  t_dispatcher :: 'k
  t_signals :: signals
  t_context :: u64
  t_removed :: bool

record 'k trap =
  triggers :: "'k trigger list"
  armed :: bool

definition trap_create :: "'k trap" where
  "trap_create = \<lparr>triggers = [], armed = False\<rparr>"

definition trigger_count :: "'k trap \<Rightarrow> nat" where
  "trigger_count t = length (filter (\<lambda>x. \<not> t_removed x) (triggers t))"

definition add_trigger ::
  "('k, 'w) dispatcher_ops \<Rightarrow> 'w \<Rightarrow> 'k trap \<Rightarrow> 'k \<Rightarrow> signals \<Rightarrow> u64 \<Rightarrow> unit core_result \<times> 'w \<times> 'k trap" where
  "add_trigger D w t k s c =
     (let (i, w') = d_start D w k s c in
      (Ok (), w', t\<lparr>triggers := triggers t @
         [\<lparr>t_watch = i, t_dispatcher = k, t_signals = s, t_context = c, t_removed = False\<rparr>]\<rparr>))"

text \<open>\<open>position(|t| t.context == context && !t.removed)\<close>, then mark that trigger removed.\<close>

fun take_trigger :: "u64 \<Rightarrow> 'k trigger list \<Rightarrow> ('k trigger \<times> 'k trigger list) option" where
  "take_trigger c [] = None"
| "take_trigger c (x # xs) =
     (if t_context x = c \<and> \<not> t_removed x then Some (x, x\<lparr>t_removed := True\<rparr> # xs)
      else map_option (\<lambda>(y, ys). (y, x # ys)) (take_trigger c xs))"

definition cancelled_event :: "u64 \<Rightarrow> trap_event" where
  "cancelled_event c = \<lparr>trigger_context = c, event_state = signals_default, event_result = Cancelled\<rparr>"

definition remove_trigger ::
  "('k, 'w) dispatcher_ops \<Rightarrow> 'w \<Rightarrow> 'k trap \<Rightarrow> u64 \<Rightarrow>
   unit core_result \<times> 'w \<times> 'k trap \<times> trap_event list" where
  "remove_trigger D w t c =
     (case take_trigger c (triggers t) of
        None \<Rightarrow> (Err NotFound, w, t, [])
      | Some (x, xs) \<Rightarrow>
          (Ok (), d_cancel D w (t_dispatcher x) (t_watch x), t\<lparr>triggers := xs\<rparr>, [cancelled_event c]))"

text \<open>The evaluation loop of \<open>arm\<close>: the immediate events, and the world after the queries.\<close>

fun arm_scan :: "('k, 'w) dispatcher_ops \<Rightarrow> 'w \<Rightarrow> 'k trigger list \<Rightarrow> trap_event list \<times> 'w" where
  "arm_scan D w [] = ([], w)"
| "arm_scan D w (x # xs) =
     (if t_removed x then arm_scan D w xs
      else
        let (st, w1) = d_query D w (t_dispatcher x);
            now = (if signals_is_empty (t_signals x)
                   then [\<lparr>trigger_context = t_context x, event_state = signals_default,
                          event_result = FailedPrecondition\<rparr>]
                   else if is_satisfied st (t_signals x)
                   then [\<lparr>trigger_context = t_context x, event_state = st, event_result = OkCode\<rparr>]
                   else if is_unsatisfiable st (t_signals x)
                   then [\<lparr>trigger_context = t_context x, event_state = st,
                          event_result = FailedPrecondition\<rparr>]
                   else []);
            (rest, w2) = arm_scan D w1 xs
        in (now @ rest, w2))"

definition trap_arm ::
  "('k, 'w) dispatcher_ops \<Rightarrow> 'w \<Rightarrow> 'k trap \<Rightarrow> unit core_result \<times> 'w \<times> 'k trap \<times> trap_event list" where
  "trap_arm D w t =
     (if armed t then (Ok (), w, t, [])
      else let (immediate, w') = arm_scan D w (triggers t) in
        if immediate \<noteq> [] then (Err FailedPrecondition, w', t, immediate)
        else (Ok (), w', t\<lparr>armed := True\<rparr>, []))"

text \<open>The watch callback: called by a dispatcher with the trigger's context.\<close>

definition on_watch ::
  "'k trap \<Rightarrow> u64 \<Rightarrow> signals_state \<Rightarrow> watch_kind \<Rightarrow> 'k trap \<times> trap_event list" where
  "on_watch t c st kind =
     (case kind of
        KCancelled \<Rightarrow>
          (case take_trigger c (triggers t) of
             None \<Rightarrow> (t, [])
           | Some (x, xs) \<Rightarrow> (t\<lparr>triggers := xs\<rparr>, [cancelled_event c]))
      | KChanged \<Rightarrow>
          if \<not> armed t then (t, [])
          else case take_trigger c (triggers t) of
            None \<Rightarrow> (t, [])
          | Some (x, _) \<Rightarrow>
              (t\<lparr>armed := False\<rparr>,
               [\<lparr>trigger_context = c, event_state = st,
                 event_result = (if is_satisfied st (t_signals x) then OkCode else FailedPrecondition)\<rparr>]))"

fun close_scan :: "('k, 'w) dispatcher_ops \<Rightarrow> 'w \<Rightarrow> 'k trigger list \<Rightarrow> 'w \<times> trap_event list" where
  "close_scan D w [] = (w, [])"
| "close_scan D w (x # xs) =
     (if t_removed x then close_scan D w xs
      else let (w', es) = close_scan D (d_cancel D w (t_dispatcher x) (t_watch x)) xs
           in (w', cancelled_event (t_context x) # es))"

definition trap_close ::
  "('k, 'w) dispatcher_ops \<Rightarrow> 'w \<Rightarrow> 'k trap \<Rightarrow> 'w \<times> 'k trap \<times> trap_event list" where
  "trap_close D w t =
     (let (w', es) = close_scan D w (triggers t) in (w', t\<lparr>triggers := []\<rparr>, es))"

text \<open>The callbacks a dispatcher makes, delivered to the trap in order.\<close>

fun trap_notify :: "'k trap \<Rightarrow> u64 notification list \<Rightarrow> 'k trap \<times> trap_event list" where
  "trap_notify t [] = (t, [])"
| "trap_notify t (n # ns) =
     (let (t1, e1) = on_watch t (n_callback n) (n_state n) (n_kind n);
          (t2, e2) = trap_notify t1 ns
      in (t2, e1 @ e2))"

text \<open>The event, if any, that arming makes for a trigger whose dispatcher reports \<open>st\<close>.\<close>

definition immediate_event :: "signals_state \<Rightarrow> 'k trigger \<Rightarrow> trap_event list" where
  "immediate_event st x =
     (if t_removed x then []
      else if signals_is_empty (t_signals x)
      then [\<lparr>trigger_context = t_context x, event_state = signals_default, event_result = FailedPrecondition\<rparr>]
      else if is_satisfied st (t_signals x)
      then [\<lparr>trigger_context = t_context x, event_state = st, event_result = OkCode\<rparr>]
      else if is_unsatisfiable st (t_signals x)
      then [\<lparr>trigger_context = t_context x, event_state = st, event_result = FailedPrecondition\<rparr>]
      else [])"

section \<open>What an implementation of the interface promises\<close>

text \<open>
  A registered watch is the triple of its id, its signals and its callback.  Querying neither
  changes the registrations nor what any dispatcher reports, although it may change the world
  (a data pipe applies its peer's updates); starting a watch adds at most that one
  registration; cancelling only removes registrations, and removes the one with that id when ids are distinct.
\<close>

locale dispatcher =
  fixes D :: "('k, 'w) dispatcher_ops" and inv :: "'w \<Rightarrow> bool"
    and live :: "'w \<Rightarrow> 'k \<Rightarrow> (watch_id \<times> signals \<times> u64) list"
    and ids :: "'w \<Rightarrow> 'k \<Rightarrow> watch_id list"
  assumes query_law: "inv w \<Longrightarrow> inv (snd (d_query D w k)) \<and> live (snd (d_query D w k)) = live w \<and>
      fst (d_query D (snd (d_query D w k)) k') = fst (d_query D w k')"
    and start_law: "inv w \<Longrightarrow> d_start D w k s c = (i, w') \<Longrightarrow> inv w' \<and>
      live w' k \<in> {live w k, live w k @ [(i, s, c)]} \<and> (k' \<noteq> k \<longrightarrow> live w' k' = live w k') \<and>
      fst (d_query D w' k') = fst (d_query D w k')"
    and cancel_law: "inv w \<Longrightarrow> inv (d_cancel D w k i) \<and>
      set (live (d_cancel D w k i) k') \<subseteq> set (live w k') \<and>
      (distinct (ids w k) \<longrightarrow> i \<notin> fst ` set (live (d_cancel D w k i) k)) \<and>
      fst (d_query D (d_cancel D w k i) k') = fst (d_query D w k')"
begin

text \<open>The signals a trap reads while arming are those of the moment it was called.\<close>

definition event_now :: "'w \<Rightarrow> 'k trigger \<Rightarrow> trap_event list" where
  "event_now w x = immediate_event (fst (d_query D w (t_dispatcher x))) x"

lemma arm_scan_now:
  "inv w \<Longrightarrow> arm_scan D w xs = (es, w') \<Longrightarrow> es = concat (map (event_now w) xs) \<and> inv w' \<and>
     live w' = live w \<and> (\<forall>k. fst (d_query D w' k) = fst (d_query D w k))"
proof (induction xs arbitrary: w es)
  case Nil
  then show ?case by simp
next
  case (Cons x xs)
  show ?case
  proof (cases "t_removed x")
    case True
    then show ?thesis using Cons by (simp add: event_now_def immediate_event_def)
  next
    case False
    obtain st w1 where q: "d_query D w (t_dispatcher x) = (st, w1)" by (cases "d_query D w (t_dispatcher x)")
    obtain es' where r: "arm_scan D w1 xs = (es', w')" "es = event_now w x @ es'"
      using Cons.prems(2) False q
      by (auto simp: event_now_def immediate_event_def Let_def split: prod.splits)
    have w1: "inv w1" "live w1 = live w" "fst (d_query D w1 k) = fst (d_query D w k)" for k
      using query_law [OF Cons.prems(1), of "t_dispatcher x" k] q by auto
    have "event_now w1 = event_now w" by (rule ext) (simp add: event_now_def w1(3))
    then show ?thesis using Cons.IH [OF w1(1) r(1)] r(2) w1 by simp
  qed
qed

lemma arm_outcome:
  assumes "inv w" "\<not> armed t"
  shows "\<exists>w'. inv w' \<and> live w' = live w \<and> (\<forall>k. fst (d_query D w' k) = fst (d_query D w k)) \<and>
    trap_arm D w t =
      (let es = concat (map (event_now w) (triggers t)) in
       if es = [] then (Ok (), w', t\<lparr>armed := True\<rparr>, [])
       else (Err FailedPrecondition, w', t, es))"
proof -
  obtain es w' where s: "arm_scan D w (triggers t) = (es, w')" by (cases "arm_scan D w (triggers t)")
  from arm_scan_now [OF assms(1) s] assms(2) s show ?thesis
    by (intro exI [of _ w']) (auto simp: trap_arm_def Let_def)
qed

text \<open>Closing the trap leaves no registration of its active triggers behind.\<close>

lemma close_scan_live:
  "inv w \<Longrightarrow> close_scan D w xs = (w', es) \<Longrightarrow> inv w' \<and> (\<forall>k. set (live w' k) \<subseteq> set (live w k))"
proof (induction xs arbitrary: w es)
  case (Cons x xs)
  show ?case
  proof (cases "t_removed x")
    case False
    let ?w = "d_cancel D w (t_dispatcher x) (t_watch x)"
    obtain es' where r: "close_scan D ?w xs = (w', es')"
      using Cons.prems(2) False by (auto simp: Let_def split: prod.splits)
    have "inv ?w" "set (live ?w k) \<subseteq> set (live w k)" for k
      using cancel_law [OF Cons.prems(1)] by blast+
    then show ?thesis using Cons.IH [OF _ r] by blast
  qed (use Cons in simp)
qed simp

end

section \<open>The message pipe and the data pipe as dispatchers\<close>

definition live_watches :: "'cb watcher list \<Rightarrow> (watch_id \<times> signals \<times> 'cb) list" where
  "live_watches ws = map (\<lambda>w. (w_id w, w_signals w, w_callback w)) (filter (\<lambda>w. \<not> w_cancelled w) ws)"

lemma live_watches_simps [simp]:
  "live_watches [] = []"
  "live_watches (w # ws) = (if w_cancelled w then [] else [(w_id w, w_signals w, w_callback w)]) @ live_watches ws"
  "live_watches (ws @ vs) = live_watches ws @ live_watches vs"
  by (simp_all add: live_watches_def)

lemma live_watches_ids: "fst ` set (live_watches ws) = live_ids ws"
  by (auto simp: live_watches_def live_ids_def image_iff)

lemma mark_cancelled_watches: "set (live_watches (mark_cancelled i ws)) \<subseteq> set (live_watches ws)"
  by (induction ws) auto

lemma mark_cancelled_gone:
  "distinct (map w_id ws) \<Longrightarrow> i \<notin> fst ` set (live_watches (mark_cancelled i ws))"
  by (simp add: live_watches_ids mark_cancelled_live)

definition pipe_dispatcher :: "(pipe_side, u64 pipe) dispatcher_ops" where
  "pipe_dispatcher = \<lparr>d_query = \<lambda>p s. (query_signals p s, p), d_start = register_watch,
     d_cancel = cancel_registered_watch\<rparr>"

definition pipe_live :: "u64 pipe \<Rightarrow> pipe_side \<Rightarrow> (watch_id \<times> signals \<times> u64) list" where
  "pipe_live p s = live_watches (watchers (ep p s))"

definition pipe_ids :: "u64 pipe \<Rightarrow> pipe_side \<Rightarrow> watch_id list" where
  "pipe_ids p s = map w_id (watchers (ep p s))"

interpretation pipe_disp: dispatcher pipe_dispatcher pipe_inv pipe_live pipe_ids
proof unfold_locales
  fix w :: "u64 pipe" and k k' s c i w'
  assume inv: "pipe_inv w" and r: "d_start pipe_dispatcher w k s c = (i, w')"
  have e: "register_watch w k s c = (i, w')" using r by (simp add: pipe_dispatcher_def)
  have "pipe_inv w'" using register_watch_inv [OF inv, of k s c] e by simp
  moreover have "pipe_live w' k \<in> {pipe_live w k, pipe_live w k @ [(i, s, c)]}"
    "k' \<noteq> k \<longrightarrow> pipe_live w' k' = pipe_live w k'"
    "query_signals w' k' = query_signals w k'"
    using e by (auto simp: register_watch_def Let_def pipe_live_def new_watcher_def query_signals_def
        signals_of_def split: if_splits)
  ultimately show "pipe_inv w' \<and> pipe_live w' k \<in> {pipe_live w k, pipe_live w k @ [(i, s, c)]} \<and>
      (k' \<noteq> k \<longrightarrow> pipe_live w' k' = pipe_live w k') \<and>
      fst (d_query pipe_dispatcher w' k') = fst (d_query pipe_dispatcher w k')"
    by (simp add: pipe_dispatcher_def)
next
  fix w :: "u64 pipe" and k k' i assume inv: "pipe_inv w"
  let ?w = "cancel_registered_watch w k i"
  have "pipe_inv ?w" using inv by (rule cancel_registered_watch_inv)
  moreover have "set (pipe_live ?w k') \<subseteq> set (pipe_live w k')"
    using mark_cancelled_watches by (auto simp: pipe_live_def cancel_registered_watch_def Let_def)
  moreover have "distinct (pipe_ids w k) \<longrightarrow> i \<notin> fst ` set (pipe_live ?w k)"
    using mark_cancelled_gone [of "watchers (ep w k)" i]
    by (simp add: pipe_live_def pipe_ids_def cancel_registered_watch_def Let_def)
  moreover have "query_signals ?w k' = query_signals w k'"
    by (simp add: query_signals_def cancel_registered_watch_def Let_def signals_of_def)
  ultimately show "pipe_inv (d_cancel pipe_dispatcher w k i) \<and>
      set (pipe_live (d_cancel pipe_dispatcher w k i) k') \<subseteq> set (pipe_live w k') \<and>
      (distinct (pipe_ids w k) \<longrightarrow> i \<notin> fst ` set (pipe_live (d_cancel pipe_dispatcher w k i) k)) \<and>
      fst (d_query pipe_dispatcher (d_cancel pipe_dispatcher w k i) k') = fst (d_query pipe_dispatcher w k')"
    by (simp add: pipe_dispatcher_def)
qed (simp add: pipe_dispatcher_def)

text \<open>A data pipe's query cannot fail while its mutex is sound; it reports nothing otherwise.\<close>

definition dpair_query :: "'cb dpair \<Rightarrow> data_pipe_end \<Rightarrow> signals_state \<times> 'cb dpair" where
  "dpair_query p s =
     (case dp_query_signals p s of (Ok st, q) \<Rightarrow> (st, q) | (_, q) \<Rightarrow> (signals_default, q))"

definition dpair_dispatcher :: "(data_pipe_end, u64 dpair) dispatcher_ops" where
  "dpair_dispatcher = \<lparr>d_query = dpair_query, d_start = dp_register_watch, d_cancel = dp_cancel_watch\<rparr>"

definition dpair_live :: "u64 dpair \<Rightarrow> data_pipe_end \<Rightarrow> (watch_id \<times> signals \<times> u64) list" where
  "dpair_live p s = live_watches (dp_watchers (dp_ep p s))"

definition dpair_ids :: "u64 dpair \<Rightarrow> data_pipe_end \<Rightarrow> watch_id list" where
  "dpair_ids p s = map w_id (dp_watchers (dp_ep p s))"

text \<open>What an end reports, from the fields no query changes.\<close>

definition dpair_report :: "'cb dpair \<Rightarrow> data_pipe_end \<Rightarrow> signals_state" where
  "dpair_report p s = (case s of
       Producer \<Rightarrow> producer_signals (dp_peer_closed (prod_ep p)) (0 < dp_room p)
     | Consumer \<Rightarrow> consumer_signals (dp_peer_closed (cons_ep p))
         (dp_has_new_data (cons_ep p) \<or> dp_control (cons_ep p) \<noteq> []) (dp_stream p \<noteq> []))"

lemma flush_consumer_latched:
  "dp_has_new_data (cons_ep (flush_consumer p)) \<longleftrightarrow>
     dp_has_new_data (cons_ep p) \<or> dp_control (cons_ep p) \<noteq> []"
  by (simp add: flush_consumer_def)

lemma latch_fields [simp]:
  "shm (latch p) = shm p" "prod_ep (latch p) = prod_ep p" "cons_range (latch p) = cons_range p"
  "dp_peer_closed (cons_ep (latch p)) = dp_peer_closed (cons_ep p)"
  "dp_watchers (cons_ep (latch p)) = dp_watchers (cons_ep p)"
  "dp_control (cons_ep (latch p)) = dp_control (cons_ep p)"
  "dp_has_new_data (cons_ep (latch p)) \<longleftrightarrow> dp_has_new_data (cons_ep p) \<or> dp_control (cons_ep p) \<noteq> []"
  by (simp_all add: latch_def)

lemma dpair_query_eq:
  assumes "dp_inv p"
  shows "dpair_query p s = (dpair_report p s,
    case s of Producer \<Rightarrow> flush_producer p | Consumer \<Rightarrow> latch (flush_consumer p))"
  by (cases s) (simp_all add: dpair_query_def dp_query_signals_eq [OF assms] Let_def dpair_report_def
      dp_room_def flush_consumer_latched)

lemma dpair_report_stable:
  "dpair_report (flush_producer p) k = dpair_report p k"
  "dpair_report (latch (flush_consumer p)) k = dpair_report p k"
  by (cases k; simp add: dpair_report_def dp_room_def flush_consumer_latched)+

lemma dp_register_watch_fields:
  assumes inv: "dp_inv p" and r: "dp_register_watch p s sig c = (i, q)"
  shows "dpair_report q k = dpair_report p k"
    and "dpair_live q s \<in> {dpair_live p s, dpair_live p s @ [(i, sig, c)]}"
    and "k \<noteq> s \<Longrightarrow> dpair_live q k = dpair_live p k"
  using r dp_invD(1) [OF inv]
  by (cases s; cases k; auto simp: dp_register_watch_def Let_def dpair_report_def dp_room_def dp_stream_def
      dpair_live_def new_watcher_def split: if_splits)+

lemma dp_cancel_watch_fields:
  assumes inv: "dp_inv p"
  shows "dpair_report (dp_cancel_watch p s i) k = dpair_report p k"
    and "set (dpair_live (dp_cancel_watch p s i) k) \<subseteq> set (dpair_live p k)"
    and "distinct (dpair_ids p s) \<Longrightarrow> i \<notin> fst ` set (dpair_live (dp_cancel_watch p s i) s)"
  subgoal using dp_invD(1) [OF inv]
    by (cases s; cases k; simp add: dp_cancel_watch_def Let_def dpair_report_def dp_room_def dp_stream_def)
  subgoal using dp_invD(1) [OF inv] mark_cancelled_watches
    by (cases s; cases k; simp add: dp_cancel_watch_def Let_def dpair_live_def)
  subgoal using dp_invD(1) [OF inv] mark_cancelled_gone [of "dp_watchers (dp_ep p s)" i]
    by (cases s; simp add: dp_cancel_watch_def Let_def dpair_live_def dpair_ids_def)
  done

interpretation dpair_disp: dispatcher dpair_dispatcher dp_inv dpair_live dpair_ids
proof unfold_locales
  fix w :: "u64 dpair" and k k' assume inv: "dp_inv w"
  let ?q = "snd (dpair_query w k)"
  have q: "?q = (case k of Producer \<Rightarrow> flush_producer w | Consumer \<Rightarrow> latch (flush_consumer w))"
    by (simp add: dpair_query_eq [OF inv])
  have "dp_watchers (dp_ep (flush_producer w) e) = dp_watchers (dp_ep w e)"
    "dp_watchers (dp_ep (latch (flush_consumer w)) e) = dp_watchers (dp_ep w e)" for e
    by (cases e; simp)+
  then have "dpair_live ?q = dpair_live w"
    unfolding q by (cases k) (simp_all add: dpair_live_def fun_eq_iff)
  moreover have "dp_inv ?q" "dpair_report ?q k' = dpair_report w k'"
    unfolding q using inv by (cases k; simp add: flush_producer_inv latch_inv flush_consumer_inv
        dpair_report_stable)+
  ultimately have "dp_inv ?q" "dpair_report ?q k' = dpair_report w k'" "dpair_live ?q = dpair_live w"
    by simp_all
  then show "dp_inv (snd (d_query dpair_dispatcher w k)) \<and>
      dpair_live (snd (d_query dpair_dispatcher w k)) = dpair_live w \<and>
      fst (d_query dpair_dispatcher (snd (d_query dpair_dispatcher w k)) k') = fst (d_query dpair_dispatcher w k')"
    by (simp add: dpair_dispatcher_def dpair_query_eq inv)
next
  fix w :: "u64 dpair" and k k' s c i w'
  assume inv: "dp_inv w" and r: "d_start dpair_dispatcher w k s c = (i, w')"
  have e: "dp_register_watch w k s c = (i, w')" using r by (simp add: dpair_dispatcher_def)
  have "dp_inv w'" using dp_watch_inv(1) [OF inv, of k s c] e by simp
  then show "dp_inv w' \<and> dpair_live w' k \<in> {dpair_live w k, dpair_live w k @ [(i, s, c)]} \<and>
      (k' \<noteq> k \<longrightarrow> dpair_live w' k' = dpair_live w k') \<and>
      fst (d_query dpair_dispatcher w' k') = fst (d_query dpair_dispatcher w k')"
    using dp_register_watch_fields [OF inv e] by (auto simp: dpair_dispatcher_def dpair_query_eq inv)
next
  fix w :: "u64 dpair" and k k' i assume inv: "dp_inv w"
  have "dp_inv (dp_cancel_watch w k i)" using dp_watch_inv(2) [OF inv] .
  then show "dp_inv (d_cancel dpair_dispatcher w k i) \<and>
      set (dpair_live (d_cancel dpair_dispatcher w k i) k') \<subseteq> set (dpair_live w k') \<and>
      (distinct (dpair_ids w k) \<longrightarrow> i \<notin> fst ` set (dpair_live (d_cancel dpair_dispatcher w k i) k)) \<and>
      fst (d_query dpair_dispatcher (d_cancel dpair_dispatcher w k i) k') = fst (d_query dpair_dispatcher w k')"
    using dp_cancel_watch_fields [OF inv] by (auto simp: dpair_dispatcher_def dpair_query_eq inv)
qed

section \<open>One event per arming\<close>

definition changed_events :: "trap_event list \<Rightarrow> trap_event list" where
  "changed_events es = filter (\<lambda>e. event_result e \<noteq> Cancelled) es"

definition active :: "'k trap \<Rightarrow> u64 \<Rightarrow> bool" where
  "active t c \<longleftrightarrow> (\<exists>x \<in> set (triggers t). t_context x = c \<and> \<not> t_removed x)"

lemma take_trigger_None: "take_trigger c xs = None \<longleftrightarrow> \<not> (\<exists>x \<in> set xs. t_context x = c \<and> \<not> t_removed x)"
  by (induction xs) auto

lemma take_trigger_others:
  "take_trigger c xs = Some (y, ys) \<Longrightarrow> d \<noteq> c \<Longrightarrow>
   (\<exists>x \<in> set ys. t_context x = d \<and> \<not> t_removed x) \<longleftrightarrow> (\<exists>x \<in> set xs. t_context x = d \<and> \<not> t_removed x)"
  by (induction xs arbitrary: ys) (auto split: if_splits)

lemma on_watch_unarmed: "\<not> armed t \<Longrightarrow> on_watch t c st k = (t', es) \<Longrightarrow> \<not> armed t' \<and> changed_events es = []"
  by (cases k) (auto simp: on_watch_def changed_events_def cancelled_event_def split: option.splits)

lemma trap_notify_unarmed:
  "\<not> armed t \<Longrightarrow> trap_notify t ns = (t', es) \<Longrightarrow> \<not> armed t' \<and> changed_events es = []"
proof (induction ns arbitrary: t es)
  case (Cons n ns)
  obtain t1 e1 where o: "on_watch t (n_callback n) (n_state n) (n_kind n) = (t1, e1)"
    by (cases "on_watch t (n_callback n) (n_state n) (n_kind n)")
  obtain e2 where r: "trap_notify t1 ns = (t', e2)" "es = e1 @ e2"
    using Cons.prems(2) o by (auto simp: Let_def split: prod.splits)
  from on_watch_unarmed [OF Cons.prems(1) o] Cons.IH [OF _ r(1)] r(2)
  show ?case by (simp add: changed_events_def)
qed (simp add: changed_events_def)

lemma trap_notify_changed:
  assumes "armed t" "active t c" "n \<in> set ns" "n_callback n = c" "n_kind n = KChanged"
    and "\<forall>m \<in> set ns. n_kind m = KCancelled \<longrightarrow> n_callback m \<noteq> c"
    and "trap_notify t ns = (t', es)"
  shows "\<not> armed t' \<and> length (changed_events es) = 1"
  using assms
proof (induction ns arbitrary: t es)
  case (Cons m ns)
  obtain t1 e1 where o: "on_watch t (n_callback m) (n_state m) (n_kind m) = (t1, e1)"
    by (cases "on_watch t (n_callback m) (n_state m) (n_kind m)")
  obtain e2 where r: "trap_notify t1 ns = (t', e2)" "es = e1 @ e2"
    using Cons.prems(7) o by (auto simp: Let_def split: prod.splits)
  show ?case
  proof (cases "n_kind m = KChanged \<and> active t (n_callback m)")
    case True
    then have "\<not> armed t1" "length (changed_events e1) = 1"
      using o Cons.prems(1)
      by (auto simp: on_watch_def changed_events_def active_def take_trigger_None split: option.splits)
    then show ?thesis using trap_notify_unarmed [OF _ r(1)] r(2) by (simp add: changed_events_def)
  next
    case False
    have t1: "armed t1 \<and> active t1 c \<and> changed_events e1 = []"
    proof (cases "n_kind m")
      case KChanged
      then have "take_trigger (n_callback m) (triggers t) = None"
        using False by (simp add: take_trigger_None active_def)
      then show ?thesis using o KChanged Cons.prems(1,2)
        by (auto simp: on_watch_def changed_events_def split: if_splits)
    next
      case KCancelled
      then have "c \<noteq> n_callback m" using Cons.prems(6) by auto
      then show ?thesis
        using o KCancelled Cons.prems(1,2) take_trigger_others [of "n_callback m" "triggers t" _ _ c]
        by (cases "take_trigger (n_callback m) (triggers t)")
          (auto simp: on_watch_def changed_events_def cancelled_event_def active_def)
    qed
    have "n \<in> set ns" using False Cons.prems(2-5) by auto
    then show ?thesis
      using Cons.IH [OF _ _ _ Cons.prems(4,5) _ r(1)] Cons.prems(6) t1 r(2)
      by (simp add: changed_events_def)
  qed
qed simp

section \<open>Wake-ups from a message pipe\<close>

definition ready :: "signals_state \<Rightarrow> signals \<Rightarrow> bool" where
  "ready st s \<longleftrightarrow> is_satisfied st s \<or> is_unsatisfiable st s"

lemma fired_member:
  "(i, s, c) \<in> set (live_watches ws) \<Longrightarrow> ready st s \<Longrightarrow>
   \<lparr>n_id = i, n_callback = c, n_state = st, n_kind = KChanged\<rparr> \<in> set (collect_fired st ws)"
  by (auto simp: live_watches_def collect_fired_def watcher_fires_def ready_def image_iff)

lemma signals_of_watchers [simp]: "signals_of (e\<lparr>watchers := ws\<rparr>) = signals_of e"
  by (simp add: signals_of_def)

lemma pipe_read_cases:
  assumes r: "pipe_read p s' mx d = (r, q, ns)"
  shows "signals_of (ep q s) = signals_of (ep p s) \<or>
    s = s' \<and> ns = collect_notifications (ep q s) \<and> watchers (ep q s) = watchers (ep p s)"
proof (cases "local_closed (ep p s') \<or> queue (ep p s') = []")
  case True
  then have "q = p" using r by (cases "local_closed (ep p s')"; cases "peer_closed (ep p s')")
      (simp_all add: pipe_read_def Let_def)
  then show ?thesis by simp
next
  case False
  then obtain m rest where qu: "queue (ep p s') = m # rest" by (cases "queue (ep p s')") auto
  let ?big = "case mx of None \<Rightarrow> False | Some k \<Rightarrow> length (m_data m) > k \<and> \<not> d"
  show ?thesis
  proof (cases ?big)
    case True
    then have "q = set_ep p s' ((ep p s')\<lparr>queue := m # rest, queued_bytes :=
        queued_bytes (ep p s') - length (m_data m) + length (m_data m)\<rparr>)"
      using r False qu by (simp add: pipe_read_def Let_def)
    then show ?thesis using qu by (cases "s = s'") (simp_all add: signals_of_def)
  next
    case big: False
    let ?e = "(ep p s')\<lparr>queue := rest, queued_bytes := queued_bytes (ep p s') - length (m_data m)\<rparr>"
    have "q = set_ep p s' ?e \<and> ns = collect_notifications ?e"
      using r False qu big by (auto simp: pipe_read_def Let_def into_parts_def)
    then show ?thesis by (cases "s = s'") simp_all
  qed
qed

text \<open>Whatever call makes a watch ready, short of closing its own endpoint, calls it back.\<close>

lemma pipe_step_wakes:
  assumes live: "(i, sig, c) \<in> set (pipe_live p s)" and op: "x \<noteq> PClose s"
    and st: "pipe_step p x = (q, ns)" and now: "\<not> ready (query_signals p s) sig"
    and later: "ready (query_signals q s) sig"
  shows "\<exists>n \<in> set ns. n_callback n = c \<and> n_kind n = KChanged \<and> n_state n = query_signals q s"
proof -
  have same: False if "signals_of (ep q s) = signals_of (ep p s)"
    using that now later by (simp add: query_signals_def)
  have fires: ?thesis if "watchers (ep q s) = watchers (ep p s)"
    "set (collect_notifications (ep q s)) \<subseteq> set ns"
  proof -
    have "\<lparr>n_id = i, n_callback = c, n_state = query_signals q s, n_kind = KChanged\<rparr> \<in> set ns"
      using fired_member [of i sig c "watchers (ep q s)" "query_signals q s"] live later that
      by (auto simp: pipe_live_def collect_notifications_def query_signals_def)
    then show ?thesis by (rule bexI [rotated]) simp
  qed
  show ?thesis
  proof (cases x)
    case (PWrite s' m)
    show ?thesis
    proof (cases "side_peer s' = s \<and> \<not> local_closed (ep p s') \<and> \<not> peer_closed (ep p s')")
      case True
      then show ?thesis using st PWrite by (intro fires) (auto simp: pipe_write_def Let_def)
    next
      case False
      then have "ep q s = ep p s" using st PWrite
        by (auto simp: pipe_write_def Let_def split: if_splits)
      then show ?thesis using same by simp
    qed
  next
    case (PRead s' mx d)
    obtain r where r: "pipe_read p s' mx d = (r, q, ns)" using st PRead by (cases "pipe_read p s' mx d") auto
    then show ?thesis using pipe_read_cases [OF r, of s] same fires by auto
  next
    case (PClose s')
    then have s': "s' = side_peer s" using op side_neq_iff by blast
    show ?thesis
    proof (cases "local_closed (ep p s')")
      case True
      then show ?thesis using st PClose same by (simp add: pipe_close_eq)
    next
      case False
      then show ?thesis using st PClose s'
        by (intro fires) (auto simp: pipe_close_eq Let_def)
    qed
  next
    case (PRegister s' sg cb)
    then have "signals_of (ep q s) = signals_of (ep p s)"
      using st by (cases "s = s'") (auto simp: register_watch_def Let_def split: if_splits)
    then show ?thesis using same by simp
  next
    case (PCancel s' j)
    then have "signals_of (ep q s) = signals_of (ep p s)"
      using st by (cases "s = s'") (auto simp: cancel_registered_watch_def Let_def)
    then show ?thesis using same by simp
  qed
qed

section \<open>Trap histories\<close>

datatype 'k trap_op =
    TAdd 'k signals u64
  | TRemove u64
  | TArm
  | TWatch u64 signals_state watch_kind
  | TClose

fun trap_step ::
  "('k, 'w) dispatcher_ops \<Rightarrow> 'w \<times> 'k trap \<Rightarrow> 'k trap_op \<Rightarrow> ('w \<times> 'k trap) \<times> trap_event list" where
  "trap_step D (w, t) (TAdd k s c) = (snd (add_trigger D w t k s c), [])"
| "trap_step D (w, t) (TRemove c) = (let (_, w', t', es) = remove_trigger D w t c in ((w', t'), es))"
| "trap_step D (w, t) TArm = (let (_, w', t', es) = trap_arm D w t in ((w', t'), es))"
| "trap_step D (w, t) (TWatch c st k) = (let (t', es) = on_watch t c st k in ((w, t'), es))"
| "trap_step D (w, t) TClose = (let (w', t', es) = trap_close D w t in ((w', t'), es))"

fun trap_run ::
  "('k, 'w) dispatcher_ops \<Rightarrow> 'w \<times> 'k trap \<Rightarrow> 'k trap_op list \<Rightarrow> ('w \<times> 'k trap) \<times> trap_event list" where
  "trap_run D s [] = (s, [])"
| "trap_run D s (x # xs) =
     (let (s1, e1) = trap_step D s x; (s2, e2) = trap_run D s1 xs in (s2, e1 @ e2))"

definition active_count :: "'k trigger list \<Rightarrow> u64 \<Rightarrow> nat" where
  "active_count xs c = length (filter (\<lambda>x. t_context x = c \<and> \<not> t_removed x) xs)"

definition cancellations :: "trap_event list \<Rightarrow> u64 \<Rightarrow> nat" where
  "cancellations es c = length (filter (\<lambda>e. e = cancelled_event c) es)"

fun added :: "'k trap_op \<Rightarrow> u64 \<Rightarrow> nat" where
  "added (TAdd k s c') c = (if c' = c then 1 else 0)"
| "added _ c = 0"

lemma count_simps [simp]:
  "active_count [] c = 0" "cancellations [] c = 0"
  "active_count (xs @ ys) c = active_count xs c + active_count ys c"
  "active_count (x # xs) c = (if t_context x = c \<and> \<not> t_removed x then 1 else 0) + active_count xs c"
  "cancellations (es @ fs) c = cancellations es c + cancellations fs c"
  "cancellations (cancelled_event d # es) c = (if d = c then 1 else 0) + cancellations es c"
  by (auto simp: active_count_def cancellations_def cancelled_event_def)

lemma take_trigger_count:
  "take_trigger d xs = Some (y, ys) \<Longrightarrow> active_count xs c = active_count ys c + (if d = c then 1 else 0)"
  by (induction xs arbitrary: ys) (auto split: if_splits)

lemma other_event_no_cancellation:
  "event_result e \<noteq> Cancelled \<Longrightarrow> cancellations (e # es) c = cancellations es c"
  by (auto simp: cancellations_def cancelled_event_def)

lemma arm_scan_cancellations: "cancellations (fst (arm_scan D w xs)) c = 0"
  by (induction xs arbitrary: w)
    (auto simp: Let_def other_event_no_cancellation split: prod.splits, (metis fst_conv)+)

lemma close_scan_cancellations: "cancellations (snd (close_scan D w xs)) c = active_count xs c"
  by (induction xs arbitrary: w) (auto simp: Let_def split: prod.splits, (metis snd_conv)+)

lemma trap_step_count:
  assumes "trap_step D (w, t) x = ((w', t'), es)"
  shows "active_count (triggers t) c + added x c = cancellations es c + active_count (triggers t') c"
proof (cases x)
  case (TAdd k s d)
  then show ?thesis using assms by (auto simp: add_trigger_def split: prod.splits)
next
  case (TRemove d)
  then show ?thesis using assms take_trigger_count [of d "triggers t" _ _ c]
    by (auto simp: remove_trigger_def split: option.splits)
next
  case TArm
  then show ?thesis using assms arm_scan_cancellations [of D w "triggers t" c]
    by (auto simp: trap_arm_def Let_def split: prod.splits if_splits)
next
  case (TWatch d st k)
  then show ?thesis using assms take_trigger_count [of d "triggers t" _ _ c]
    by (cases k) (auto simp: on_watch_def other_event_no_cancellation split: option.splits if_splits)
next
  case TClose
  then show ?thesis using assms close_scan_cancellations [of D w "triggers t" c]
    by (auto simp: trap_close_def Let_def split: prod.splits)
qed


lemma trap_run_count:
  "active_count (triggers t) c + sum_list (map (\<lambda>x. added x c) xs) =
   cancellations (snd (trap_run D (w, t) xs)) c + active_count (triggers (snd (fst (trap_run D (w, t) xs)))) c"
proof (induction xs arbitrary: w t)
  case (Cons x xs)
  obtain w1 t1 e1 where s: "trap_step D (w, t) x = ((w1, t1), e1)" by (metis prod.exhaust)
  obtain s2 e2 where r: "trap_run D (w1, t1) xs = (s2, e2)" by (cases "trap_run D (w1, t1) xs")
  from Cons.IH [of t1 w1] trap_step_count [OF s, of c] s r show ?case by simp
qed simp

lemma arm_scan_pipe: "snd (arm_scan pipe_dispatcher p xs) = p"
  by (induction xs) (auto simp: pipe_dispatcher_def Let_def split: prod.splits)

lemma dpair_query_stream: "dp_inv p \<Longrightarrow> dp_stream (snd (dpair_query p s)) = dp_stream p"
  by (cases s) (simp_all add: dpair_query_eq)

lemma arm_scan_stream:
  "dp_inv p \<Longrightarrow> dp_stream (snd (arm_scan dpair_dispatcher p xs)) = dp_stream p"
proof (induction xs arbitrary: p)
  case (Cons x xs)
  have "dp_inv (snd (dpair_query p (t_dispatcher x)))"
    using dpair_disp.query_law [OF Cons.prems] by (simp add: dpair_dispatcher_def)
  from Cons.IH [OF this] Cons.IH [OF Cons.prems] dpair_query_stream [OF Cons.prems]
  show ?case by (auto simp: dpair_dispatcher_def Let_def split: prod.splits)
qed simp

lemma trap_arm_stream:
  "dp_inv p \<Longrightarrow> trap_arm dpair_dispatcher p t = (res, p', t', es) \<Longrightarrow> dp_stream p' = dp_stream p"
  using arm_scan_stream [of p "triggers t"] by (auto simp: trap_arm_def Let_def split: prod.splits if_splits)

text \<open>Only closing an end cancels watches, and only those of that end.\<close>

lemma pipe_step_cancels:
  assumes "x \<noteq> PClose s" and "pipe_step p x = (q, ns)" and "m \<in> set ns" and "n_kind m = KCancelled"
  shows "n_callback m \<in> w_callback ` set (watchers (ep p (side_peer s)))"
proof -
  have k: "n \<in> set (collect_notifications e) \<Longrightarrow> n_kind n = KChanged" for n and e :: "'b endpoint"
    using collect_fired_kind [of n "signals_of e" "watchers e"] by (auto simp: collect_notifications_def)
  obtain s' where s': "x = PClose s'"
    using assms k by (cases x)
      (fastforce simp: pipe_write_def pipe_read_def into_parts_def Let_def
        split: if_splits list.splits option.splits prod.splits)+
  then have "s' = side_peer s" using assms(1) side_neq_iff by blast
  then show ?thesis using assms s' k
    by (fastforce simp: pipe_close_eq Let_def cancel_all_def split: if_splits)
qed

text \<open>A small data pipe for the examples.\<close>

definition demo_pair_for_traps :: "u64 dpair" where
  "demo_pair_for_traps = \<lparr>shm = [0, 0, 0, 0], prod_range = range_empty, cons_range = range_empty,
     prod_ep = dp_endpoint_new, cons_ep = dp_endpoint_new, element_size = 1, poisoned = False,
     dp_next_watch_id = 1\<rparr>"

lemma demo_pair_for_traps_inv: "dp_inv demo_pair_for_traps"
proof -
  have "create_pair (Some [0, 0, 0, 0]) 1 1 4 = Ok demo_pair_for_traps"
    by (simp add: create_pair_def demo_pair_for_traps_def ring_new_def)
  from create_pair_inv(1) [OF this] show ?thesis by simp
qed

section \<open>Properties\<close>

text \<open>Arming a trap on the ends of a data pipe: although each query applies the peer's updates, the
  events are exactly those of the signals each end reported when \<open>arm\<close> was called, in trigger order,
  with Ok for a satisfied trigger and FailedPrecondition for an unsatisfiable one or one that watches
  nothing; the trap is armed, and the call succeeds, exactly when there are none.\<close>

theorem trap_arm_reports_ready_triggers:
  assumes inv: "dp_inv p" and un: "\<not> armed t"
    and r: "trap_arm dpair_dispatcher p t = (res, p', t', es)"
  shows "es = concat (map (\<lambda>x. immediate_event (fst (dpair_query p (t_dispatcher x))) x) (triggers t)) \<and>
    res = (if es = [] then Ok () else Err FailedPrecondition) \<and> armed t' = (es = []) \<and>
    triggers t' = triggers t \<and> dp_inv p' \<and> dp_stream p' = dp_stream p"
proof -
  have q: "d_query dpair_dispatcher = dpair_query" by (simp add: dpair_dispatcher_def)
  obtain w' where "dp_inv w'" "trap_arm dpair_dispatcher p t =
      (let es = concat (map (dpair_disp.event_now p) (triggers t)) in
       if es = [] then (Ok (), w', t\<lparr>armed := True\<rparr>, []) else (Err FailedPrecondition, w', t, es))"
    using dpair_disp.arm_outcome [OF inv un] by blast
  moreover have "dp_stream p' = dp_stream p" using trap_arm_stream [OF inv r] .
  moreover have "dpair_disp.event_now p = (\<lambda>x. immediate_event (fst (dpair_query p (t_dispatcher x))) x)"
    by (rule ext) (simp add: dpair_disp.event_now_def q)
  ultimately show ?thesis
    using r un by (auto simp: Let_def split: if_splits)
qed

theorem trap_arm_reports_ready_triggers_witness:
  "\<exists>t p' t' es. trap_arm dpair_dispatcher (demo_pair_for_traps) t = (Err FailedPrecondition, p', t', es) \<and>
    es \<noteq> [] \<and> \<not> armed t'"
proof -
  let ?t = "\<lparr>triggers = [\<lparr>t_watch = 1, t_dispatcher = Producer, t_signals = WRITABLE, t_context = 7,
     t_removed = False\<rparr>], armed = False\<rparr> :: data_pipe_end trap"
  obtain res p' t' es where r: "trap_arm dpair_dispatcher demo_pair_for_traps ?t = (res, p', t', es)"
    by (metis prod_cases4)
  have "fst (dpair_query demo_pair_for_traps Producer) = producer_signals False True"
    by (simp add: dpair_query_eq [OF demo_pair_for_traps_inv] dpair_report_def)
      (simp add: demo_pair_for_traps_def dp_room_def dp_stream_def dp_endpoint_new_def range_empty_def pend_def)
  then have "immediate_event (fst (dpair_query demo_pair_for_traps Producer)) (hd (triggers ?t)) \<noteq> []"
    by (simp add: immediate_event_def producer_signals_def is_satisfied_def signal_consts contains_def
        signals_is_empty_def)
  then have "es \<noteq> [] \<and> res = Err FailedPrecondition \<and> \<not> armed t'"
    using trap_arm_reports_ready_triggers [OF demo_pair_for_traps_inv _ r] by auto
  with r show ?thesis by blast
qed

text \<open>A trap is one-shot: however many watch callbacks arrive, in whatever order, an armed trap
  delivers at most one event other than a cancellation, and an unarmed trap none.\<close>

theorem trap_is_one_shot:
  "length (changed_events (snd (trap_notify t ns))) \<le> (if armed t then 1 else 0)"
proof (induction ns arbitrary: t)
  case (Cons n ns)
  obtain t1 e1 where o: "on_watch t (n_callback n) (n_state n) (n_kind n) = (t1, e1)"
    by (cases "on_watch t (n_callback n) (n_state n) (n_kind n)")
  obtain t2 e2 where r: "trap_notify t1 ns = (t2, e2)" by (cases "trap_notify t1 ns")
  have "length (changed_events e1) + (if armed t1 then 1 else 0) \<le> (if armed t then 1 else 0)"
    using o by (cases "n_kind n")
      (auto simp: on_watch_def changed_events_def cancelled_event_def split: option.splits if_splits)
  with Cons.IH [of t1] o r show ?case by (simp add: changed_events_def)
qed (simp add: changed_events_def)

text \<open>Calls on the pipe while a trap watches it: each makes its callbacks, and the trap delivers what they give.\<close>

fun watched_run :: "u64 pipe \<Rightarrow> 'k trap \<Rightarrow> u64 pipe_op list \<Rightarrow> (u64 pipe \<times> 'k trap) \<times> trap_event list" where
  "watched_run p t [] = ((p, t), [])"
| "watched_run p t (x # xs) =
     (let (q, ns) = pipe_step p x; (t1, e1) = trap_notify t ns; (r, e2) = watched_run q t1 xs in (r, e1 @ e2))"

text \<open>Calls that leave the watch of a trigger alone: nobody closes the watched end, cancels the watch, or registers
  another watch under the context of the trigger.\<close>

fun leaves_watch :: "pipe_side trigger \<Rightarrow> u64 pipe_op \<Rightarrow> bool" where
  "leaves_watch x (PClose k) \<longleftrightarrow> k \<noteq> t_dispatcher x"
| "leaves_watch x (PRegister k sg cb) \<longleftrightarrow> cb \<noteq> t_context x"
| "leaves_watch x (PCancel k i) \<longleftrightarrow> (k = t_dispatcher x \<longrightarrow> i \<noteq> t_watch x)"
| "leaves_watch x _ \<longleftrightarrow> True"

definition watching :: "u64 pipe \<Rightarrow> pipe_side trigger \<Rightarrow> bool" where
  "watching p x \<longleftrightarrow> (t_watch x, t_signals x, t_context x) \<in> set (pipe_live p (t_dispatcher x)) \<and>
     t_context x \<notin> w_callback ` set (watchers (ep p (side_peer (t_dispatcher x))))"

lemma mark_cancelled_others: "j \<noteq> i \<Longrightarrow> (i, sg, c) \<in> set (live_watches ws) \<Longrightarrow> (i, sg, c) \<in> set (live_watches (mark_cancelled j ws))"
  by (induction ws) (auto split: if_splits)

lemma mark_cancelled_callbacks: "w_callback ` set (mark_cancelled j ws) = w_callback ` set ws"
  by (induction ws) auto

lemma cancel_all_callbacks: "w_callback ` set (fst (cancel_all ws)) = w_callback ` set ws"
  by (simp add: cancel_all_def image_image)

lemma pipe_read_same_watchers: "pipe_read p s' mx d = (r, q, ns) \<Longrightarrow> watchers (ep q k) = watchers (ep p k)"
  by (cases k; cases s')
    (auto simp: pipe_read_def into_parts_def Let_def split: if_splits list.splits option.splits prod.splits)

lemma pipe_write_same_watchers: "pipe_write p s' m = (r, q, ns) \<Longrightarrow> watchers (ep q k) = watchers (ep p k)"
  by (cases k; cases s') (auto simp: pipe_write_def Let_def split: if_splits)

lemma pipe_close_watchers:
  assumes "k \<noteq> d" "pipe_close p k = (q, ns)"
  shows "watchers (ep q d) = watchers (ep p d) \<and>
    w_callback ` set (watchers (ep q k)) = w_callback ` set (watchers (ep p k))"
proof (cases "local_closed (ep p k)")
  case True
  then show ?thesis using assms(2) by (simp add: pipe_close_eq)
next
  case False
  then show ?thesis using assms
    by (cases k; cases d; clarsimp simp: pipe_close_eq Let_def cancel_all_callbacks simp del: image_eqI)
qed

lemma register_watch_watchers:
  assumes "register_watch p k sg cb = (i, q)"
  shows "watchers (ep q d) = watchers (ep p d) \<or> watchers (ep q d) = watchers (ep p d) @ [new_watcher (next_watch_id p) sg cb]"
  using assms by (cases "local_closed (ep p k)"; cases k; cases d) (auto simp: register_watch_def Let_def)

lemma step_watching:
  assumes "watching p x" "leaves_watch x y" "pipe_step p y = (q, ns)"
  shows "watching q x"
proof (cases y)
  case (PWrite k m)
  then show ?thesis using assms pipe_write_same_watchers [of p k m _ q ns]
    by (cases "pipe_write p k m") (auto simp: watching_def pipe_live_def)
next
  case (PRead k mx d)
  then show ?thesis using assms pipe_read_same_watchers [of p k mx d _ q ns]
    by (cases "pipe_read p k mx d") (auto simp: watching_def pipe_live_def)
next
  case (PClose k)
  then have k: "k \<noteq> t_dispatcher x" "side_peer (t_dispatcher x) = k" "pipe_close p k = (q, ns)"
    using assms(2,3) by (cases k; cases "t_dispatcher x"; simp)+
  from pipe_close_watchers [OF k(1,3)] assms(1) show ?thesis by (simp add: watching_def pipe_live_def k(2))
next
  case (PRegister k sg cb)
  then have cb: "cb \<noteq> t_context x" and "register_watch p k sg cb = (fst (register_watch p k sg cb), q)"
    using assms(2,3) by auto
  from register_watch_watchers [OF this(2), of "t_dispatcher x"]
    register_watch_watchers [OF this(2), of "side_peer (t_dispatcher x)"] assms(1) cb
  show ?thesis by (auto simp: watching_def pipe_live_def new_watcher_def)
next
  case (PCancel k i)
  have c: "w_callback ` set (watchers (ep q d)) = w_callback ` set (watchers (ep p d))" for d
    using assms(3) PCancel by (cases k; cases d) (clarsimp simp: cancel_registered_watch_def Let_def mark_cancelled_callbacks)+
  have "watchers (ep q (t_dispatcher x)) = watchers (ep p (t_dispatcher x)) \<or> k = t_dispatcher x \<and>
      watchers (ep q (t_dispatcher x)) = mark_cancelled i (watchers (ep p (t_dispatcher x)))"
    using assms(3) PCancel by (cases k; cases "t_dispatcher x") (auto simp: cancel_registered_watch_def Let_def)
  then show ?thesis using assms(1,2) PCancel mark_cancelled_others by (auto simp: watching_def pipe_live_def c)
qed

lemma trap_notify_either:
  assumes "armed t" "active t c" "\<forall>m \<in> set ns. n_kind m = KCancelled \<longrightarrow> n_callback m \<noteq> c" "trap_notify t ns = (t', es)"
  shows "armed t' \<and> active t' c \<and> changed_events es = [] \<or> \<not> armed t' \<and> length (changed_events es) = 1"
  using assms
proof (induction ns arbitrary: t es)
  case (Cons m ns)
  obtain t1 e1 where o: "on_watch t (n_callback m) (n_state m) (n_kind m) = (t1, e1)" by fastforce
  obtain e2 where r: "trap_notify t1 ns = (t', e2)" "es = e1 @ e2"
    using Cons.prems(4) o by (auto simp: Let_def split: prod.splits)
  have "armed t1 \<and> active t1 c \<and> changed_events e1 = [] \<or> \<not> armed t1 \<and> length (changed_events e1) = 1"
  proof (cases "n_kind m")
    case KChanged
    then show ?thesis using o Cons.prems(1,2)
      by (cases "take_trigger (n_callback m) (triggers t)")
        (auto simp: on_watch_def changed_events_def split: if_splits)
  next
    case KCancelled
    then have "c \<noteq> n_callback m" using Cons.prems(3) by auto
    then show ?thesis using o KCancelled Cons.prems(1,2) take_trigger_others [of "n_callback m" "triggers t" _ _ c]
      by (cases "take_trigger (n_callback m) (triggers t)")
        (auto simp: on_watch_def changed_events_def cancelled_event_def active_def)
  qed
  then show ?case
  proof
    assume "armed t1 \<and> active t1 c \<and> changed_events e1 = []"
    then show ?thesis using Cons.IH [OF _ _ _ r(1)] Cons.prems(3) r(2) by (simp add: changed_events_def)
  next
    assume "\<not> armed t1 \<and> length (changed_events e1) = 1"
    then show ?thesis using trap_notify_unarmed [OF _ r(1)] r(2) by (simp add: changed_events_def)
  qed
qed (simp add: changed_events_def)

lemma watched_run_pipe: "fst (fst (watched_run p t xs)) = fold (\<lambda>x p. fst (pipe_step p x)) xs p"
  by (induction xs arbitrary: p t) (auto simp: Let_def split: prod.splits, metis fst_conv)

lemma changed_events_append: "changed_events (es @ fs) = changed_events es @ changed_events fs"
  by (simp add: changed_events_def)

lemma run_unarmed: "\<not> armed t \<Longrightarrow> watched_run p t xs = ((q, t'), es) \<Longrightarrow> \<not> armed t' \<and> changed_events es = []"
proof (induction xs arbitrary: p t es)
  case (Cons x xs)
  obtain p1 ns t1 e1 e2 where r: "pipe_step p x = (p1, ns)" "trap_notify t ns = (t1, e1)" "watched_run p1 t1 xs = ((q, t'), e2)" "es = e1 @ e2"
    using Cons.prems(2) by (auto simp: Let_def split: prod.splits)
  from trap_notify_unarmed [OF Cons.prems(1) r(2)] Cons.IH [OF _ r(3)] r(4) show ?case by (simp add: changed_events_def)
qed (simp add: changed_events_def)

lemma run_armed:
  assumes "armed t" "active t (t_context x)" "watching p x" "\<not> ready (query_signals p (t_dispatcher x)) (t_signals x)"
    and "list_all (leaves_watch x) xs" "watched_run p t xs = ((q, t'), es)"
  shows "if armed t' then changed_events es = [] \<and> \<not> ready (query_signals q (t_dispatcher x)) (t_signals x)
    else length (changed_events es) = 1"
  using assms
proof (induction xs arbitrary: p t es)
  case (Cons y ys)
  obtain p1 ns t1 e1 e2 where r: "pipe_step p y = (p1, ns)" "trap_notify t ns = (t1, e1)" "watched_run p1 t1 ys = ((q, t'), e2)" "es = e1 @ e2"
    using Cons.prems(6) by (auto simp: Let_def split: prod.splits)
  have y: "leaves_watch x y" "y \<noteq> PClose (t_dispatcher x)" using Cons.prems(5) by auto
  have live: "(t_watch x, t_signals x, t_context x) \<in> set (pipe_live p (t_dispatcher x))" using Cons.prems(3) by (simp add: watching_def)
  have w: "watching p1 x" by (rule step_watching [OF Cons.prems(3) y(1) r(1)])
  have nc: "\<forall>m \<in> set ns. n_kind m = KCancelled \<longrightarrow> n_callback m \<noteq> t_context x"
    using pipe_step_cancels [OF y(2) r(1)] Cons.prems(3) unfolding watching_def by metis
  from trap_notify_either [OF Cons.prems(1,2) nc r(2)] show ?case
  proof
    assume a: "armed t1 \<and> active t1 (t_context x) \<and> changed_events e1 = []"
    have "\<not> ready (query_signals p1 (t_dispatcher x)) (t_signals x)"
    proof
      assume "ready (query_signals p1 (t_dispatcher x)) (t_signals x)"
      from pipe_step_wakes [OF live y(2) r(1) Cons.prems(4) this] obtain n where
        n: "n \<in> set ns" "n_callback n = t_context x" "n_kind n = KChanged" by blast
      from trap_notify_changed [OF Cons.prems(1,2) n nc r(2)] a show False by simp
    qed
    then show ?thesis using Cons.IH [OF _ _ w _ _ r(3)] a Cons.prems(5) r(4) by (simp add: changed_events_append)
  next
    assume "\<not> armed t1 \<and> length (changed_events e1) = 1"
    then show ?thesis using run_unarmed [OF _ r(3)] r(4) by (simp add: changed_events_append)
  qed
qed (simp add: changed_events_def)

text \<open>C32: No lost wake-up: after a trap was armed over a message pipe, and after any calls on both ends that leave the
  watch of one of its triggers alone (closing the watched end is not among them, it cancels the trigger), either the trap
  is still armed, has delivered nothing but cancellations, and the condition of the trigger does not hold, or the trap is
  unarmed and has delivered exactly one event that is not a cancellation.  So the call that first makes the
  condition hold finds the event delivered, or delivers it.\<close>

theorem trap_no_lost_wakeup:
  assumes inv: "pipe_inv p" and un: "\<not> armed t" and arm: "trap_arm pipe_dispatcher p t = (Ok (), p', t', es)"
    and x: "x \<in> set (triggers t)" "\<not> t_removed x" "watching p x"
    and ops: "list_all (leaves_watch x) ops" and run: "watched_run p' t' ops = ((q, t''), events)"
  shows "if armed t'' then changed_events events = [] \<and> \<not> ready (query_signals q (t_dispatcher x)) (t_signals x)
    else length (changed_events events) = 1"
proof -
  have q: "d_query pipe_dispatcher = (\<lambda>p s. (query_signals p s, p))" by (simp add: pipe_dispatcher_def)
  have p': "p' = p" using arm un arm_scan_pipe [of p "triggers t"]
    by (auto simp: trap_arm_def Let_def split: prod.splits if_splits)
  obtain w' where "trap_arm pipe_dispatcher p t =
      (let es = concat (map (pipe_disp.event_now p) (triggers t)) in
       if es = [] then (Ok (), w', t\<lparr>armed := True\<rparr>, []) else (Err FailedPrecondition, w', t, es))"
    using pipe_disp.arm_outcome [OF inv un] by blast
  then have none: "concat (map (pipe_disp.event_now p) (triggers t)) = []" and t': "t' = t\<lparr>armed := True\<rparr>"
    using arm by (auto simp: Let_def split: if_splits)
  then have "pipe_disp.event_now p x = []" using x(1) by simp
  then have "\<not> ready (query_signals p (t_dispatcher x)) (t_signals x)"
    using x by (simp add: pipe_disp.event_now_def immediate_event_def q ready_def split: if_splits)
  moreover have "active t' (t_context x)" using x t' by (auto simp: active_def)
  ultimately show ?thesis using run_armed [OF _ _ x(3) _ ops run [unfolded p']] t' by simp
qed

theorem trap_no_lost_wakeup_witness:
  "\<exists>t :: pipe_side trap. \<exists>p p' t' q t'' events.
    trap_arm pipe_dispatcher p t = (Ok (), p', t', []) \<and>
    watched_run p' t' [PWrite SideB message_empty, PWrite SideA message_empty] = ((q, t''), events) \<and>
    length (changed_events events) = 1"
proof -
  let ?p = "snd (register_watch (pipe_create 1) SideB READABLE 7) :: u64 pipe"
  let ?x = "\<lparr>t_watch = 1, t_dispatcher = SideB, t_signals = READABLE, t_context = 7, t_removed = False\<rparr>"
  let ?t = "\<lparr>triggers = [?x], armed = False\<rparr> :: pipe_side trap"
  have inv: "pipe_inv ?p" by (rule register_watch_inv [OF pipe_create_inv])
  have p: "?p = \<lparr>end_a = endpoint_new, end_b = endpoint_new\<lparr>watchers := [new_watcher 1 READABLE 7]\<rparr>,
      next_watch_id = 2\<rparr>"
    by (simp add: register_watch_def pipe_create_def endpoint_new_def Let_def)
  have arm: "trap_arm pipe_dispatcher ?p ?t = (Ok (), ?p, ?t\<lparr>armed := True\<rparr>, [])"
    unfolding p
    by (simp add: trap_arm_def pipe_dispatcher_def query_signals_def signals_of_def endpoint_new_def
        is_satisfied_def is_unsatisfiable_def contains_def signal_consts signals_is_empty_def)
  obtain q t'' events where run: "watched_run ?p (?t\<lparr>armed := True\<rparr>)
      [PWrite SideB message_empty, PWrite SideA message_empty] = ((q, t''), events)" by (metis surj_pair)
  have "q = fold (\<lambda>x p. fst (pipe_step p x)) [PWrite SideB message_empty, PWrite SideA message_empty] ?p"
    using watched_run_pipe [of ?p "?t\<lparr>armed := True\<rparr>"] run by (metis fst_conv)
  then have "queue (ep q SideB) = [message_empty]" "\<not> local_closed (ep q SideB)" "\<not> peer_closed (ep q SideB)"
    unfolding p by (simp_all add: pipe_write_def Let_def endpoint_new_def)
  then have now: "ready (query_signals q SideB) (t_signals ?x)"
    by (simp add: ready_def query_signals_def signals_of_def is_satisfied_def contains_def signal_consts Let_def)
  have "watching ?p ?x" by (simp add: watching_def pipe_live_def p new_watcher_def endpoint_new_def)
  from trap_no_lost_wakeup [OF inv _ arm _ _ this _ run] now have "length (changed_events events) = 1"
    by (simp split: if_splits)
  with arm run show ?thesis by blast
qed

text \<open>Every trigger is cancelled exactly once or still active: over any sequence of trap calls and
  watch callbacks, on whatever dispatchers, the cancellation events delivered for a context and the
  triggers still active for it add up to the triggers added for it; closing leaves none active.\<close>

theorem trap_cancellations_balance:
  "cancellations (snd (trap_run D (w, trap_create) xs)) c +
     active_count (triggers (snd (fst (trap_run D (w, trap_create) xs)))) c =
   sum_list (map (\<lambda>x. added x c) xs) \<and>
   trigger_count (fst (snd (trap_close D w t))) = 0"
  using trap_run_count [of trap_create c xs D w]
  by (simp add: trap_create_def trap_close_def trigger_count_def Let_def split: prod.splits)

end
