(* ===== verification/SharedBuffer.thy ===== *)
theory SharedBuffer
  imports CoreTypes
begin

unbundle bit_operations_syntax

text \<open>
  Shared buffers (\<open>crates/mojo-rs-core/src/shared_buffer.rs\<close>) over the shared-memory objects of
  \<open>crates/mojo-rs-platform/src/shm.rs\<close>.  The pages of a region live in a store indexed by the
  region, so that two mappings of a region alias the same bytes.  The system calls are
  parameters: whether a descriptor could be duplicated, and the address \<open>mmap\<close> chose.
\<close>

section \<open>Shared-memory objects\<close>

datatype access = ReadOnlyAccess | ReadWriteAccess

type_synonym page_store = "nat \<Rightarrow> byte list"

record shared_memory =
  region :: nat
  shm_size :: u64

text \<open>A mapping: the exact range it exposes, the page-aligned range passed to \<open>mmap\<close>, and where in
  the region it starts.\<close>

record shm_mapping =
  map_ptr :: u64
  map_len :: u64
  mmap_base :: u64
  mmap_len :: u64
  map_access :: access
  map_region :: nat
  map_offset :: u64

definition page_size :: u64 where
  "page_size = 4096"

text \<open>\<open>SharedMemory::map\<close>: a refused range or a failed \<open>mmap\<close> (\<open>None\<close>) is an I/O error.\<close>

definition shm_map :: "shared_memory \<Rightarrow> u64 \<Rightarrow> u64 \<Rightarrow> access \<Rightarrow> u64 option \<Rightarrow> shm_mapping option" where
  "shm_map m offset len acc mmap =
     (if len = 0 then None
      else if unat offset + unat len \<ge> 2 ^ 64 then None
      else if offset + len > shm_size m then None
      else
        let aligned = offset AND NOT (page_size - 1);
            adjustment = offset - aligned;
            total = len + adjustment
        in case mmap of
             None \<Rightarrow> None
           | Some base \<Rightarrow> Some \<lparr>map_ptr = base + adjustment, map_len = len, mmap_base = base,
               mmap_len = total, map_access = acc, map_region = region m, map_offset = offset\<rparr>)"

definition shm_duplicate :: "shared_memory \<Rightarrow> bool \<Rightarrow> shared_memory option" where
  "shm_duplicate m dup_ok = (if dup_ok then Some m else None)"

section \<open>Buffers\<close>

datatype buffer_mode = Writable | Unsafe | ReadOnly

record shared_buffer =
  buf_shm :: shared_memory
  buf_size :: u64
  buf_mode :: buffer_mode

text \<open>\<open>create\<close>: \<open>mem\<close> is the region the platform made, if it could.\<close>

definition buffer_create :: "nat option \<Rightarrow> u64 \<Rightarrow> shared_buffer core_result" where
  "buffer_create mem num_bytes =
     (if num_bytes = 0 \<or> num_bytes > 2147483647 then Err ResourceExhausted
      else case mem of
        None \<Rightarrow> Err ResourceExhausted
      | Some r \<Rightarrow> Ok \<lparr>buf_shm = \<lparr>region = r, shm_size = num_bytes\<rparr>, buf_size = num_bytes,
                      buf_mode = Writable\<rparr>)"

text \<open>The mode is converted before the checks, and stays converted when they fail.\<close>

definition buffer_duplicate ::
  "shared_buffer \<Rightarrow> bool \<Rightarrow> bool \<Rightarrow> shared_buffer core_result \<times> shared_buffer" where
  "buffer_duplicate b read_only dup_ok =
     (let required = (if read_only then ReadOnly else Unsafe);
          b1 = (if buf_mode b = Writable then b\<lparr>buf_mode := required\<rparr> else b)
      in if buf_mode b1 \<noteq> required then (Err FailedPrecondition, b1)
         else case shm_duplicate (buf_shm b1) dup_ok of
           None \<Rightarrow> (Err ResourceExhausted, b1)
         | Some m \<Rightarrow> (Ok \<lparr>buf_shm = m, buf_size = buf_size b1, buf_mode = buf_mode b1\<rparr>, b1))"

definition buffer_map :: "shared_buffer \<Rightarrow> u64 \<Rightarrow> u64 \<Rightarrow> u64 option \<Rightarrow> shm_mapping core_result" where
  "buffer_map b offset num_bytes mmap =
     (let acc = (case buf_mode b of ReadOnly \<Rightarrow> ReadOnlyAccess | _ \<Rightarrow> ReadWriteAccess)
      in case shm_map (buf_shm b) offset num_bytes acc mmap of
           None \<Rightarrow> Err ResourceExhausted
         | Some m \<Rightarrow> Ok m)"

section \<open>Access through a mapping\<close>

text \<open>The mapped bytes, as the mapping exposes them.\<close>

definition mapped_bytes :: "page_store \<Rightarrow> shm_mapping \<Rightarrow> byte list" where
  "mapped_bytes st m = take (unat (map_len m)) (drop (unat (map_offset m)) (st (map_region m)))"

definition read_at :: "page_store \<Rightarrow> shm_mapping \<Rightarrow> nat \<Rightarrow> nat \<Rightarrow> byte list option" where
  "read_at st m offset len = do {
     e \<leftarrow> checked_add offset len;
     slice (mapped_bytes st m) offset e }"

text \<open>\<open>write_at\<close>: refused without a fault on a read-only mapping or a bad range.\<close>

definition write_at :: "page_store \<Rightarrow> shm_mapping \<Rightarrow> nat \<Rightarrow> byte list \<Rightarrow> bool \<times> page_store" where
  "write_at st m offset content =
     (if map_access m \<noteq> ReadWriteAccess then (False, st)
      else case checked_add offset (length content) of
        None \<Rightarrow> (False, st)
      | Some e \<Rightarrow>
          if e > unat (map_len m) then (False, st)
          else
            let pages = st (map_region m); at = unat (map_offset m) + offset
            in (True, st(map_region m := take at pages @ content @ drop (at + length content) pages)))"

section \<open>The mapping table\<close>

type_synonym mapping_table = "u64 \<rightharpoonup> shm_mapping"

definition table_add :: "mapping_table \<Rightarrow> shm_mapping \<Rightarrow> u64 \<times> mapping_table" where
  "table_add t m = (map_ptr m, t(map_ptr m \<mapsto> m))"

definition table_remove :: "mapping_table \<Rightarrow> u64 \<Rightarrow> unit core_result \<times> mapping_table" where
  "table_remove t a = (case t a of None \<Rightarrow> (Err InvalidArgument, t) | Some _ \<Rightarrow> (Ok (), t(a := None)))"

definition table_get :: "mapping_table \<Rightarrow> u64 \<Rightarrow> shm_mapping option" where
  "table_get t a = t a"

section \<open>Ranges\<close>

lemma page_align:
  "unat (x AND NOT (page_size - 1)) = unat x - unat x mod 4096"
  using align_down_unat [of x 12] by (simp add: page_size_def)

lemma shm_map_Some:
  assumes "shm_map m offset len acc mmap = Some mp"
  shows "0 < unat len" "unat offset + unat len \<le> unat (shm_size m)" "map_len mp = len"
    "map_offset mp = offset" "map_region mp = region m" "map_access mp = acc"
    "mmap = Some (mmap_base mp)" "map_ptr mp = mmap_base mp + (offset - (offset AND NOT (page_size - 1)))"
    "mmap_len mp = len + (offset - (offset AND NOT (page_size - 1)))"
proof -
  have no: "unat offset + unat len < 2 ^ 64" "len \<noteq> 0" "\<not> offset + len > shm_size m"
    using assms by (auto simp: shm_map_def Let_def split: if_splits option.splits)
  then have "unat (offset + len) = unat offset + unat len" by (simp add: unat_word_ariths)
  then show "unat offset + unat len \<le> unat (shm_size m)" using no(3) by (simp add: word_less_nat_alt)
  show "0 < unat len" using no(2) by (simp add: unat_gt_0)
qed (use assms in \<open>auto simp: shm_map_def Let_def split: if_splits option.splits\<close>)

section \<open>Duplicates\<close>

text \<open>A family of handles: each step duplicates one of them, and keeps the duplicate if there is one.\<close>

fun dup_step :: "shared_buffer list \<Rightarrow> nat \<times> bool \<times> bool \<Rightarrow> shared_buffer list" where
  "dup_step bs (i, read_only, dup_ok) =
     (if i < length bs
      then case buffer_duplicate (bs ! i) read_only dup_ok of
             (Ok b', b1) \<Rightarrow> bs[i := b1] @ [b']
           | (_, b1) \<Rightarrow> bs[i := b1]
      else bs)"

definition dup_run :: "shared_buffer list \<Rightarrow> (nat \<times> bool \<times> bool) list \<Rightarrow> shared_buffer list" where
  "dup_run bs xs = foldl dup_step bs xs"

text \<open>While only the original exists it may be convertible; otherwise all share one final mode.\<close>

definition family :: "shared_memory \<Rightarrow> u64 \<Rightarrow> shared_buffer list \<Rightarrow> bool" where
  "family m sz bs \<longleftrightarrow> bs \<noteq> [] \<and> (\<exists>mode. (mode = Writable \<longrightarrow> length bs = 1) \<and>
     (\<forall>b \<in> set bs. b = \<lparr>buf_shm = m, buf_size = sz, buf_mode = mode\<rparr>))"

lemma dup_step_family:
  assumes "family m sz bs"
  shows "family m sz (dup_step bs x)"
    and "\<forall>b \<in> set bs. buf_mode b \<noteq> Writable \<Longrightarrow> buf_mode ` set (dup_step bs x) = buf_mode ` set bs"
proof -
  obtain i ro ok where x: "x = (i, ro, ok)" by (cases x)
  obtain mode where mode: "mode = Writable \<longrightarrow> length bs = 1"
    "\<forall>b \<in> set bs. b = \<lparr>buf_shm = m, buf_size = sz, buf_mode = mode\<rparr>" "bs \<noteq> []"
    using assms by (auto simp: family_def)
  have upd: "bs[i := bs ! i] = bs" by simp
  have nb: "buf_mode ` set bs = {mode}" using mode by (cases bs) auto
  have "family m sz (dup_step bs x) \<and>
    (mode \<noteq> Writable \<longrightarrow> buf_mode ` set (dup_step bs x) = {mode})"
  proof (cases "i < length bs")
    case False
    then show ?thesis using assms x nb by simp
  next
    case True
    then have b: "bs ! i = \<lparr>buf_shm = m, buf_size = sz, buf_mode = mode\<rparr>" using mode(2) by simp
    show ?thesis
    proof (cases "mode = Writable")
      case w: True
      then have "length bs = 1" using mode by simp
      then have bs: "bs = [bs ! i]" "i = 0" using True by (cases bs; simp)+
      let ?r = "if ro then ReadOnly else Unsafe"
      have "dup_step bs x = (let c = \<lparr>buf_shm = m, buf_size = sz, buf_mode = ?r\<rparr> in
          if ok then [c, c] else [c])"
        using True b w x bs
        by (subst bs(1)) (simp add: buffer_duplicate_def shm_duplicate_def Let_def)
      then show ?thesis using w by (auto simp: family_def Let_def intro: exI [of _ ?r])
    next
      case False
      then have "dup_step bs x = bs \<or>
          dup_step bs x = bs @ [\<lparr>buf_shm = m, buf_size = sz, buf_mode = mode\<rparr>]"
        using True b x upd by (auto simp: buffer_duplicate_def shm_duplicate_def Let_def)
      then show ?thesis using False mode(2,3) nb
        by (elim disjE) (auto simp: family_def intro!: exI [of _ mode])
    qed
  qed
  then show "family m sz (dup_step bs x)"
    and "\<forall>b \<in> set bs. buf_mode b \<noteq> Writable \<Longrightarrow> buf_mode ` set (dup_step bs x) = buf_mode ` set bs"
    using nb by (blast, metis imageE insertI1)
qed

lemma dup_run_family:
  "family m sz bs \<Longrightarrow> family m sz (dup_run bs xs)"
  "family m sz bs \<Longrightarrow> \<forall>b \<in> set bs. buf_mode b \<noteq> Writable \<Longrightarrow>
     buf_mode ` set (dup_run bs xs) = buf_mode ` set bs"
proof -
  show f: "family m sz bs \<Longrightarrow> family m sz (dup_run bs xs)" for bs
    by (induction xs arbitrary: bs) (simp_all add: dup_run_def dup_step_family)
  show "family m sz bs \<Longrightarrow> \<forall>b \<in> set bs. buf_mode b \<noteq> Writable \<Longrightarrow>
     buf_mode ` set (dup_run bs xs) = buf_mode ` set bs"
  proof (induction xs arbitrary: bs)
    case (Cons x xs)
    have e: "buf_mode ` set (dup_step bs x) = buf_mode ` set bs"
      using dup_step_family(2) [OF Cons.prems] .
    then have "\<forall>b \<in> set (dup_step bs x). buf_mode b \<noteq> Writable"
      using Cons.prems(2) by (metis (no_types, lifting) imageE imageI)
    from Cons.IH [OF dup_step_family(1) [OF Cons.prems(1)] this] e show ?case by (simp add: dup_run_def)
  qed (simp add: dup_run_def)
qed

section \<open>Properties\<close>

text \<open>The mode machine of a shared buffer: from its creation on, whatever handles are duplicated with
  whatever flags, and whichever descriptor duplications fail, all handles of the region have the
  same mode and size; once a first duplication converted it the mode never changes again, so a
  region never has a writable and a read-only handle at the same time, and a duplicate of the other
  kind is refused with FailedPrecondition.\<close>

theorem buffer_mode_is_shared:
  assumes c: "buffer_create mem n = Ok b" and b': "b' \<in> set (dup_run [b] xs)" "b'' \<in> set (dup_run [b] xs)"
  shows "buf_mode b' = buf_mode b'' \<and> buf_size b' = n \<and> buf_shm b' = buf_shm b'' \<and>
    (buf_mode b' \<noteq> Writable \<longrightarrow>
       buf_mode ` set (dup_run (dup_run [b] xs) ys) = {buf_mode b'} \<and>
       fst (buffer_duplicate b' (buf_mode b' \<noteq> ReadOnly) ok) = Err FailedPrecondition)"
proof -
  have "family (buf_shm b) n [b]" using c
    by (auto simp: family_def buffer_create_def split: if_splits option.splits)
  then have f: "family (buf_shm b) n (dup_run [b] xs)" by (rule dup_run_family(1))
  then obtain mode where
    m: "\<forall>c \<in> set (dup_run [b] xs). c = \<lparr>buf_shm = buf_shm b, buf_size = n, buf_mode = mode\<rparr>"
    unfolding family_def by blast
  have all: "buf_shm c = buf_shm b \<and> buf_mode c = mode \<and> buf_size c = n"
    if "c \<in> set (dup_run [b] xs)" for c
    using bspec [OF m that] by (metis shared_buffer.select_convs)
  have "buf_mode ` set (dup_run (dup_run [b] xs) ys) = {mode}" if "mode \<noteq> Writable"
    using dup_run_family(2) [OF f, of ys] all that b' by auto
  then show ?thesis using all [OF b'(1)] all [OF b'(2)]
    by (auto simp: buffer_duplicate_def Let_def)
qed

theorem buffer_mode_is_shared_witness:
  "\<exists>b b'. buffer_create (Some 1) 64 = Ok b \<and> b' \<in> set (dup_run [b] [(0, True, True)]) \<and>
    buf_mode b' = ReadOnly \<and> fst (buffer_duplicate b' False True) = Err FailedPrecondition"
proof -
  let ?b = "\<lparr>buf_shm = \<lparr>region = 1, shm_size = 64\<rparr>, buf_size = 64, buf_mode = Writable\<rparr>"
  let ?b' = "?b\<lparr>buf_mode := ReadOnly\<rparr>"
  have c: "buffer_create (Some 1) 64 = Ok ?b" by (simp add: buffer_create_def)
  have m: "?b' \<in> set (dup_run [?b] [(0, True, True)])"
    by (simp add: dup_run_def buffer_duplicate_def shm_duplicate_def Let_def)
  have "fst (buffer_duplicate ?b' (buf_mode ?b' \<noteq> ReadOnly) True) = Err FailedPrecondition"
    using buffer_mode_is_shared [OF c m m, of "[]" True] by simp
  then have "fst (buffer_duplicate ?b' False True) = Err FailedPrecondition" by simp
  with c m show ?thesis by (intro exI [of _ ?b] exI [of _ ?b']) simp
qed

text \<open>A mapping exposes exactly the requested bytes of the region: the range asked for lies inside
  the region and inside the page-aligned range given to \<open>mmap\<close>, whose end it shares, and the exposed
  address is as far above the mapped base as the offset is above its page.\<close>

theorem map_range_exact:
  assumes m: "buffer_map b offset len (Some base) = Ok mp"
    and page: "unat base mod 4096 = 0" and fit: "unat base + unat (mmap_len mp) < 2 ^ 64"
  shows "unat offset + unat len \<le> unat (shm_size (buf_shm b)) \<and> 0 < unat len \<and>
    unat (map_ptr mp) = unat base + unat offset mod 4096 \<and>
    unat (mmap_len mp) = unat (map_len mp) + unat offset mod 4096 \<and>
    unat (map_ptr mp) + unat (map_len mp) = unat base + unat (mmap_len mp) \<and>
    (map_access mp = ReadOnlyAccess \<longleftrightarrow> buf_mode b = ReadOnly)"
proof -
  obtain acc where s: "shm_map (buf_shm b) offset len acc (Some base) = Some mp"
    and acc: "acc = ReadOnlyAccess \<longleftrightarrow> buf_mode b = ReadOnly"
    using m by (auto simp: buffer_map_def Let_def split: option.splits buffer_mode.splits)
  note r = shm_map_Some [OF s]
  let ?al = "offset AND NOT (page_size - 1)"
  have al: "unat ?al = unat offset - unat offset mod 4096" by (rule page_align)
  then have "unat (offset - ?al) = unat offset mod 4096"
    by (subst unat_sub) (simp_all add: word_le_nat_alt)
  moreover from this have len: "unat (mmap_len mp) = unat len + unat offset mod 4096"
  proof -
    have "unat len + unat offset mod 4096 \<le> unat (shm_size (buf_shm b))"
      using r(2) mod_less_eq_dividend [of "unat offset" 4096] by linarith
    then have "unat len + unat offset mod 4096 < 2 ^ 64"
      using unsigned_less [of "shm_size (buf_shm b)", where 'a = nat] by simp
    then show ?thesis using \<open>unat (offset - ?al) = _\<close> r(9) by (simp add: unat_word_ariths)
  qed
  moreover from calculation have "unat (map_ptr mp) = unat base + unat offset mod 4096"
    using fit r(7,8) by (simp add: unat_word_ariths)
  ultimately show ?thesis using r(1,2,3,6) acc by simp
qed

theorem map_range_exact_witness:
  "\<exists>b mp. buffer_map b 5000 8 (Some 8192) = Ok mp \<and> unat (map_ptr mp) = 8192 + 904"
proof -
  let ?b = "\<lparr>buf_shm = \<lparr>region = 1, shm_size = 8192\<rparr>, buf_size = 8192, buf_mode = Unsafe\<rparr>"
  obtain mp where m: "buffer_map ?b 5000 8 (Some 8192) = Ok mp"
    by (simp add: buffer_map_def shm_map_def Let_def)
  have "mmap_len mp = 8 + (5000 - (5000 AND NOT (page_size - 1)))"
    using m by (auto simp: buffer_map_def shm_map_def Let_def)
  then have "unat (mmap_len mp) = 912" by (simp add: page_size_def)
  then show ?thesis using map_range_exact [OF m] m by auto
qed

text \<open>Aliasing: what is written through one mapping is what every other mapping of the region reads
  at the same place, whatever its own offset; bytes outside the write are untouched; and a write
  through a read-only mapping, or outside the mapping, is refused and changes nothing.\<close>

theorem mappings_alias:
  assumes wf: "unat (map_offset m) + unat (map_len m) \<le> length (st (map_region m))"
    and wf': "unat (map_offset m') + unat (map_len m') \<le> length (st (map_region m'))"
    and w: "write_at st m off xs = (ok, st')"
    and same: "map_region m' = map_region m"
    and at: "unat (map_offset m') + off' = unat (map_offset m) + off"
    and fits: "off' + length xs \<le> unat (map_len m')"
  shows "(ok \<longrightarrow> read_at st' m' off' (length xs) = Some xs) \<and>
    ok = (map_access m = ReadWriteAccess \<and> off + length xs \<le> unat (map_len m)) \<and>
    (\<not> ok \<longrightarrow> st' = st) \<and>
    (\<forall>r. length (st' r) = length (st r)) \<and>
    (\<forall>r i. r \<noteq> map_region m \<or> i < unat (map_offset m) + off \<or> unat (map_offset m) + off + length xs \<le> i \<longrightarrow>
       st' r ! i = st r ! i)"
proof (cases "map_access m = ReadWriteAccess \<and> off + length xs \<le> unat (map_len m)")
  case False
  then have "ok = False \<and> st' = st"
    using w by (auto simp: write_at_def checked_add_def split: if_splits)
  then show ?thesis using False by auto
next
  case True
  let ?p = "st (map_region m)" and ?a = "unat (map_offset m) + off"
  have lim: "off + length xs < usize_limit"
    using True unsigned_less [of "map_len m", where 'a = nat] by (simp add: usize_limit_def)
  have st': "ok" "st' = st(map_region m := take ?a ?p @ xs @ drop (?a + length xs) ?p)"
    using w True lim by (simp_all add: write_at_def Let_def)
  have a: "?a + length xs \<le> length ?p" using True wf by simp
  have l': "off' + length xs < usize_limit"
    using fits unsigned_less [of "map_len m'", where 'a = nat] by (simp add: usize_limit_def)
  define new where "new = take ?a ?p @ xs @ drop (?a + length xs) ?p"
  have new: "st' (map_region m') = new" using st'(2) same by (simp add: new_def)
  have len: "length (st' r) = length (st r)" for r using st' a by simp
  have lb: "length (mapped_bytes st' m') = unat (map_len m')"
    using wf' by (simp add: mapped_bytes_def len)
  have "drop off' (mapped_bytes st' m') = take (unat (map_len m') - off') (drop ?a new)"
    unfolding mapped_bytes_def new drop_take drop_drop at [symmetric] by (simp add: add.commute)
  also have "drop ?a new = xs @ drop (?a + length xs) ?p" using a by (simp add: new_def)
  finally have "take (length xs) (drop off' (mapped_bytes st' m')) = xs" using fits by simp
  then have "read_at st' m' off' (length xs) = Some xs"
    using l' lb fits by (simp add: read_at_def)
  moreover note len
  moreover have "st' r ! i = st r ! i" if "r \<noteq> map_region m \<or> i < ?a \<or> ?a + length xs \<le> i" for r i
    using that st' a by (auto simp: nth_append)
  ultimately show ?thesis using True st'(1) by blast
qed

theorem mappings_alias_witness:
  "\<exists>st m m' st'. write_at st m 2 [7, 8] = (True, st') \<and> map_offset m \<noteq> map_offset m' \<and>
    read_at st' m' 1 2 = Some [7, 8]"
proof -
  let ?st = "(\<lambda>_. replicate 8 0) :: page_store"
  let ?m = "\<lparr>map_ptr = 0, map_len = 8, mmap_base = 0, mmap_len = 8, map_access = ReadWriteAccess,
     map_region = 1, map_offset = 0\<rparr>"
  let ?m' = "?m\<lparr>map_len := 4, map_offset := 1, map_access := ReadOnlyAccess\<rparr>"
  obtain ok st' where w: "write_at ?st ?m 2 [7, 8] = (ok, st')" by fastforce
  have "(ok \<longrightarrow> read_at st' ?m' 1 (length [7, 8 :: byte]) = Some [7, 8]) \<and> ok"
    using mappings_alias [OF _ _ w, of ?m' 1] by simp
  then have "write_at ?st ?m 2 [7, 8] = (True, st')" "read_at st' ?m' 1 2 = Some [7, 8]"
    "map_offset ?m \<noteq> map_offset ?m'" using w by (simp_all add: numeral_2_eq_2)
  then show ?thesis by blast
qed

text \<open>An added mapping is found at its address until it is removed; it can be removed once, and
  other addresses are not affected.\<close>

lemma mapping_table_laws:
  "table_get (snd (table_add t m)) (fst (table_add t m)) = Some m \<and>
   fst (table_remove (snd (table_add t m)) (map_ptr m)) = Ok () \<and>
   (let t' = snd (table_remove t a) in
      table_get t' a = None \<and> table_remove t' a = (Err InvalidArgument, t') \<and>
      (fst (table_remove t a) = Ok ()) = (table_get t a \<noteq> None) \<and>
      (a' \<noteq> a \<longrightarrow> table_get t' a' = table_get t a'))"
  by (auto simp: table_get_def table_add_def table_remove_def Let_def split: option.splits)

end
