(* ===== verification/WireLayout.thy ===== *)
theory WireLayout
  imports Prelude
begin

text \<open>
  The constants, alignment arithmetic, relative pointers and error classes of the wire format:
  \<open>layout.rs\<close>, \<open>pointer.rs\<close> and \<open>error.rs\<close> of \<open>crates/mojo-rs-wire/src\<close>, with the little-endian
  reads and writes that \<open>message.rs\<close>, \<open>value.rs\<close> and the decoder perform on byte buffers.
  Main results: alignment rounds exactly, a little-endian integer is read back, and a relative
  pointer decodes to the target it was encoded for unless it points at itself.
\<close>

unbundle bit_operations_syntax

section \<open>Constants\<close>

definition MESSAGE_ALIGNMENT :: nat where "MESSAGE_ALIGNMENT = 8"
definition ENCODED_INVALID_HANDLE_VALUE :: u32 where "ENCODED_INVALID_HANDLE_VALUE = 0xFFFFFFFF"
definition DEFAULT_MAX_RECURSION_DEPTH :: nat where "DEFAULT_MAX_RECURSION_DEPTH = 32"
definition DEFAULT_MAX_MESSAGE_SIZE :: nat where "DEFAULT_MAX_MESSAGE_SIZE = 128 * 1024 * 1024"
definition STRUCT_HEADER_SIZE :: nat where "STRUCT_HEADER_SIZE = 8"
definition ARRAY_HEADER_SIZE :: nat where "ARRAY_HEADER_SIZE = 8"
definition POINTER_SIZE :: nat where "POINTER_SIZE = 8"
definition HANDLE_DATA_SIZE :: nat where "HANDLE_DATA_SIZE = 4"
definition INTERFACE_DATA_SIZE :: nat where "INTERFACE_DATA_SIZE = 8"
definition ASSOCIATED_ENDPOINT_HANDLE_DATA_SIZE :: nat where "ASSOCIATED_ENDPOINT_HANDLE_DATA_SIZE = 4"
definition ASSOCIATED_INTERFACE_DATA_SIZE :: nat where "ASSOCIATED_INTERFACE_DATA_SIZE = 8"
definition UNION_DATA_SIZE :: nat where "UNION_DATA_SIZE = 16"
definition MESSAGE_HEADER_V0_SIZE :: nat where "MESSAGE_HEADER_V0_SIZE = 24"
definition MESSAGE_HEADER_V1_SIZE :: nat where "MESSAGE_HEADER_V1_SIZE = 32"
definition MESSAGE_HEADER_V2_SIZE :: nat where "MESSAGE_HEADER_V2_SIZE = 48"
definition MESSAGE_HEADER_V3_SIZE :: nat where "MESSAGE_HEADER_V3_SIZE = 56"
definition MIN_MESSAGE_SIZE :: nat where "MIN_MESSAGE_SIZE = MESSAGE_HEADER_V0_SIZE"
definition HEADER_INTERFACE_ID_OFFSET :: nat where "HEADER_INTERFACE_ID_OFFSET = 8"
definition HEADER_NAME_OFFSET :: nat where "HEADER_NAME_OFFSET = 12"
definition HEADER_FLAGS_OFFSET :: nat where "HEADER_FLAGS_OFFSET = 16"
definition HEADER_TRACE_NONCE_OFFSET :: nat where "HEADER_TRACE_NONCE_OFFSET = 20"
definition HEADER_REQUEST_ID_OFFSET :: nat where "HEADER_REQUEST_ID_OFFSET = 24"
definition HEADER_PAYLOAD_OFFSET :: nat where "HEADER_PAYLOAD_OFFSET = 32"
definition HEADER_PAYLOAD_INTERFACE_IDS_OFFSET :: nat where "HEADER_PAYLOAD_INTERFACE_IDS_OFFSET = 40"
definition HEADER_CREATION_TIMETICKS_OFFSET :: nat where "HEADER_CREATION_TIMETICKS_OFFSET = 48"
definition MESSAGE_FLAG_EXPECTS_RESPONSE :: u32 where "MESSAGE_FLAG_EXPECTS_RESPONSE = 0x1"
definition MESSAGE_FLAG_IS_RESPONSE :: u32 where "MESSAGE_FLAG_IS_RESPONSE = 0x2"
definition MESSAGE_FLAG_IS_SYNC :: u32 where "MESSAGE_FLAG_IS_SYNC = 0x4"
definition MESSAGE_FLAG_HAS_INTERFACE_ID :: u32 where "MESSAGE_FLAG_HAS_INTERFACE_ID = 0x8"
definition MESSAGE_FLAG_USE_V3_HEADER :: u32 where "MESSAGE_FLAG_USE_V3_HEADER = 0x10"

lemmas layout_consts =
  MESSAGE_ALIGNMENT_def STRUCT_HEADER_SIZE_def ARRAY_HEADER_SIZE_def POINTER_SIZE_def
  HANDLE_DATA_SIZE_def INTERFACE_DATA_SIZE_def UNION_DATA_SIZE_def ENCODED_INVALID_HANDLE_VALUE_def

lemmas header_consts =
  MESSAGE_HEADER_V0_SIZE_def MESSAGE_HEADER_V1_SIZE_def MESSAGE_HEADER_V2_SIZE_def
  MESSAGE_HEADER_V3_SIZE_def MIN_MESSAGE_SIZE_def HEADER_INTERFACE_ID_OFFSET_def
  HEADER_NAME_OFFSET_def HEADER_FLAGS_OFFSET_def HEADER_TRACE_NONCE_OFFSET_def
  HEADER_REQUEST_ID_OFFSET_def HEADER_PAYLOAD_OFFSET_def HEADER_PAYLOAD_INTERFACE_IDS_OFFSET_def
  HEADER_CREATION_TIMETICKS_OFFSET_def

section \<open>Primitive types\<close>

datatype primitive_type =
    PBool | PI8 | PU8 | PI16 | PU16 | PI32 | PU32 | PI64 | PU64 | PF32 | PF64 | PEnum
  | PHandle | PAssociatedEndpointHandle

fun primitive_size :: "primitive_type \<Rightarrow> nat" where
  "primitive_size t = (case t of
      PBool \<Rightarrow> 1 | PI8 \<Rightarrow> 1 | PU8 \<Rightarrow> 1
    | PI16 \<Rightarrow> 2 | PU16 \<Rightarrow> 2
    | PI32 \<Rightarrow> 4 | PU32 \<Rightarrow> 4 | PF32 \<Rightarrow> 4 | PEnum \<Rightarrow> 4
    | PI64 \<Rightarrow> 8 | PU64 \<Rightarrow> 8 | PF64 \<Rightarrow> 8 | PHandle \<Rightarrow> 8 | PAssociatedEndpointHandle \<Rightarrow> 8)"

fun primitive_alignment :: "primitive_type \<Rightarrow> nat" where
  "primitive_alignment t = (case t of
      PBool \<Rightarrow> 4 | PI8 \<Rightarrow> 4 | PU8 \<Rightarrow> 4 | PI16 \<Rightarrow> 4 | PU16 \<Rightarrow> 4 | PI32 \<Rightarrow> 4 | PU32 \<Rightarrow> 4
    | PF32 \<Rightarrow> 4 | PEnum \<Rightarrow> 4 | PHandle \<Rightarrow> 4 | PAssociatedEndpointHandle \<Rightarrow> 4
    | PI64 \<Rightarrow> 8 | PU64 \<Rightarrow> 8 | PF64 \<Rightarrow> 8)"

section \<open>Alignment\<close>

text \<open>\<open>usize::is_power_of_two\<close>.\<close>

definition is_power_of_two :: "nat \<Rightarrow> bool" where
  "is_power_of_two a = list_ex (\<lambda>k. a = 2 ^ k) [0..<64]"

definition align_up :: "nat \<Rightarrow> nat \<Rightarrow> nat option option" where
  "align_up n align = do {
     debug_assert (is_power_of_two align);
     mask \<leftarrow> usub align 1;
     Some (map_option (\<lambda>v. unat ((of_nat v :: u64) AND NOT (of_nat mask))) (checked_add n mask)) }"

definition align_down :: "nat \<Rightarrow> nat \<Rightarrow> nat option" where
  "align_down n align = do {
     debug_assert (is_power_of_two align);
     mask \<leftarrow> usub align 1;
     Some (unat ((of_nat n :: u64) AND NOT (of_nat mask))) }"

lemma is_power_of_two_iff: "is_power_of_two a \<longleftrightarrow> (\<exists>k < 64. a = 2 ^ k)"
  by (auto simp: is_power_of_two_def list_ex_iff)

lemma mask_down:
  assumes "v < usize_limit"
  shows "unat ((of_nat v :: u64) AND NOT (of_nat (2 ^ k - 1))) = v div 2 ^ k * 2 ^ k"
proof -
  have m: "(of_nat (2 ^ k - 1) :: u64) = 2 ^ k - 1" by (simp add: of_nat_diff)
  have "unat (of_nat v :: u64) = v"
    using assms by (simp add: usize_limit_def unat_of_nat)
  then show ?thesis
    using align_down_unat [of "of_nat v" k] unfolding m by (simp add: minus_mod_eq_div_mult)
qed

lemma align_down_eq:
  assumes "is_power_of_two a" "n < usize_limit"
  shows "align_down n a = Some (n div a * a)"
proof -
  obtain k where "k < 64" "a = 2 ^ k" using assms by (auto simp: is_power_of_two_iff)
  then show ?thesis using assms mask_down [of n k] by (simp add: align_down_def)
qed

text \<open>The least multiple of \<open>a\<close> that is at least \<open>n\<close>.\<close>

definition round_up :: "nat \<Rightarrow> nat \<Rightarrow> nat" where
  "round_up n a = (n + (a - 1)) div a * a"

lemma round_up_bounds:
  assumes "0 < a"
  shows "n \<le> round_up n a" "round_up n a < n + a" "a dvd round_up n a"
proof -
  have "(n + (a - 1)) mod a < a" "(n + (a - 1)) div a * a + (n + (a - 1)) mod a = n + (a - 1)"
    using assms by simp_all
  then show "n \<le> round_up n a" "round_up n a < n + a"
    using assms unfolding round_up_def by linarith+
  show "a dvd round_up n a" by (simp add: round_up_def)
qed

lemma round_up_least:
  assumes "0 < a" "a dvd m" "n \<le> m"
  shows "round_up n a \<le> m"
proof (rule ccontr)
  assume "\<not> ?thesis"
  then have "m < round_up n a" by simp
  moreover have "a dvd round_up n a - m" using assms round_up_bounds(3) [OF assms(1)] by simp
  ultimately have "a \<le> round_up n a - m" by (simp add: dvd_imp_le)
  then have "m + a \<le> round_up n a" using \<open>m < round_up n a\<close> by linarith
  then show False using round_up_bounds(2) [OF assms(1), of n] assms(3) by linarith
qed

lemma align_up_eq:
  assumes "is_power_of_two a"
  shows "align_up n a = Some (if n + (a - 1) < usize_limit then Some (round_up n a) else None)"
proof -
  obtain k where "k < 64" "a = 2 ^ k" using assms by (auto simp: is_power_of_two_iff)
  then show ?thesis using assms mask_down [of "n + (a - 1)" k]
    by (simp add: align_up_def checked_add_def round_up_def)
qed

section \<open>Little-endian integers\<close>

text \<open>\<open>to_le_bytes\<close> of an integer of \<open>n\<close> bytes and \<open>from_le_bytes\<close>.\<close>

definition to_le :: "nat \<Rightarrow> 'w::len word \<Rightarrow> byte list" where
  "to_le n x = map (\<lambda>i. ucast (drop_bit (8 * i) x)) [0..<n]"

fun from_le :: "byte list \<Rightarrow> 'w::len word" where
  "from_le [] = 0"
| "from_le (b # bs) = ucast b OR push_bit 8 (from_le bs)"

lemma length_to_le [simp]: "length (to_le n x) = n"
  by (simp add: to_le_def)

lemma to_le_Suc: "to_le (Suc n) x = ucast x # to_le n (drop_bit 8 x)"
proof -
  have "[0..<Suc n] = 0 # map Suc [0..<n]" by (simp add: upt_conv_Cons map_Suc_upt del: upt_Suc)
  then show ?thesis by (simp add: to_le_def comp_def add.commute)
qed

lemma from_le_to_le_bits:
  "bit (from_le (to_le n x) :: 'w word) k \<longleftrightarrow> k < 8 * n \<and> bit (x :: 'w::len word) k"
proof (induction n arbitrary: x k)
  case 0 then show ?case by (simp add: to_le_def)
next
  case (Suc n)
  have "bit x k \<Longrightarrow> k < LENGTH('w)" by (rule bit_imp_le_length)
  then show ?case
    by (auto simp: to_le_Suc bit_simps Suc.IH)
qed

lemma from_le_to_le:
  assumes "LENGTH('w) \<le> 8 * n"
  shows "from_le (to_le n (x :: 'w::len word)) = x"
proof (rule bit_word_eqI)
  fix k assume "k < LENGTH('w)"
  with assms show "bit (from_le (to_le n x) :: 'w word) k \<longleftrightarrow> bit x k"
    by (simp add: from_le_to_le_bits)
qed

lemma bit_from_le:
  "bit (from_le bs :: 'w::len word) k \<longleftrightarrow>
     k < LENGTH('w) \<and> k div 8 < length bs \<and> bit (bs ! (k div 8)) (k mod 8)"
proof (induction bs arbitrary: k)
  case (Cons b bs)
  show ?case
  proof (cases "k < 8")
    case True
    then show ?thesis by (auto simp: bit_or_iff bit_push_bit_iff bit_ucast_iff dest: bit_imp_le_length)
  next
    case False
    then obtain j where k: "k = 8 + j" using le_Suc_ex [of 8 k] by auto
    have "\<not> bit b k" using False by (auto dest: bit_imp_le_length)
    moreover have "(8 + j) div 8 = Suc (j div 8)" "(8 + j) mod 8 = j mod 8" by presburger+
    ultimately show ?thesis unfolding k using Cons [of j] by (auto simp: bit_or_iff bit_push_bit_iff bit_ucast_iff)
  qed
qed simp

text \<open>Reads at an offset: the slice index panics when the buffer is too short.\<close>

definition read_u32_at :: "byte list \<Rightarrow> nat \<Rightarrow> u32 option" where
  "read_u32_at bytes offset = do {
     e \<leftarrow> uadd offset 4;
     b \<leftarrow> slice bytes offset e;
     Some (from_le b) }"

definition read_u64_at :: "byte list \<Rightarrow> nat \<Rightarrow> u64 option" where
  "read_u64_at bytes offset = do {
     e \<leftarrow> uadd offset 8;
     b \<leftarrow> slice bytes offset e;
     Some (from_le b) }"

text \<open>The value a read sees, for buffers that are long enough.\<close>

definition u32_in :: "byte list \<Rightarrow> nat \<Rightarrow> u32" where
  "u32_in bytes offset = from_le (take 4 (drop offset bytes))"

definition u64_in :: "byte list \<Rightarrow> nat \<Rightarrow> u64" where
  "u64_in bytes offset = from_le (take 8 (drop offset bytes))"

lemma read_u32_at_eq:
  assumes "offset + 4 < usize_limit"
  shows "read_u32_at bytes offset = (if offset + 4 \<le> length bytes then Some (u32_in bytes offset) else None)"
  using assms by (simp add: read_u32_at_def u32_in_def slice_def)

lemma read_u64_at_eq:
  assumes "offset + 8 < usize_limit"
  shows "read_u64_at bytes offset = (if offset + 8 \<le> length bytes then Some (u64_in bytes offset) else None)"
  using assms by (simp add: read_u64_at_def u64_in_def slice_def)

section \<open>Relative pointers\<close>

datatype pointer = PNull | POffset u64

definition pointer_decode :: "u64 \<Rightarrow> u64 \<Rightarrow> pointer" where
  "pointer_decode ptr_addr raw = (if raw = 0 then PNull else POffset (ptr_addr + raw))"

definition pointer_encode :: "u64 \<Rightarrow> u64 \<Rightarrow> u64" where
  "pointer_encode ptr_addr tgt = tgt - ptr_addr"

fun pointer_target :: "pointer \<Rightarrow> u64 option" where
  "pointer_target PNull = None"
| "pointer_target (POffset t) = Some t"

section \<open>Wire errors\<close>

datatype validation_error =
    VNone | MisalignedObject | IllegalMemoryRange | UnexpectedStructHeader | UnexpectedArrayHeader
  | IllegalHandle | UnexpectedInvalidHandle | IllegalPointer | UnexpectedNullPointer
  | IllegalInterfaceId | UnexpectedInvalidInterfaceId | MessageHeaderInvalidFlags
  | MessageHeaderMissingRequestId | MessageHeaderUnknownMethod | DifferentSizedArraysInMap
  | UnknownUnionTag | UnknownEnumValue | DeserializationFailed | MaxRecursionDepth

fun validation_error_name :: "validation_error \<Rightarrow> string" where
  "validation_error_name VNone = ''VALIDATION_ERROR_NONE''"
| "validation_error_name MisalignedObject = ''VALIDATION_ERROR_MISALIGNED_OBJECT''"
| "validation_error_name IllegalMemoryRange = ''VALIDATION_ERROR_ILLEGAL_MEMORY_RANGE''"
| "validation_error_name UnexpectedStructHeader = ''VALIDATION_ERROR_UNEXPECTED_STRUCT_HEADER''"
| "validation_error_name UnexpectedArrayHeader = ''VALIDATION_ERROR_UNEXPECTED_ARRAY_HEADER''"
| "validation_error_name IllegalHandle = ''VALIDATION_ERROR_ILLEGAL_HANDLE''"
| "validation_error_name UnexpectedInvalidHandle = ''VALIDATION_ERROR_UNEXPECTED_INVALID_HANDLE''"
| "validation_error_name IllegalPointer = ''VALIDATION_ERROR_ILLEGAL_POINTER''"
| "validation_error_name UnexpectedNullPointer = ''VALIDATION_ERROR_UNEXPECTED_NULL_POINTER''"
| "validation_error_name IllegalInterfaceId = ''VALIDATION_ERROR_ILLEGAL_INTERFACE_ID''"
| "validation_error_name UnexpectedInvalidInterfaceId = ''VALIDATION_ERROR_UNEXPECTED_INVALID_INTERFACE_ID''"
| "validation_error_name MessageHeaderInvalidFlags = ''VALIDATION_ERROR_MESSAGE_HEADER_INVALID_FLAGS''"
| "validation_error_name MessageHeaderMissingRequestId = ''VALIDATION_ERROR_MESSAGE_HEADER_MISSING_REQUEST_ID''"
| "validation_error_name MessageHeaderUnknownMethod = ''VALIDATION_ERROR_MESSAGE_HEADER_UNKNOWN_METHOD''"
| "validation_error_name DifferentSizedArraysInMap = ''VALIDATION_ERROR_DIFFERENT_SIZED_ARRAYS_IN_MAP''"
| "validation_error_name UnknownUnionTag = ''VALIDATION_ERROR_UNKNOWN_UNION_TAG''"
| "validation_error_name UnknownEnumValue = ''VALIDATION_ERROR_UNKNOWN_ENUM_VALUE''"
| "validation_error_name DeserializationFailed = ''VALIDATION_ERROR_DESERIALIZATION_FAILED''"
| "validation_error_name MaxRecursionDepth = ''VALIDATION_ERROR_MAX_RECURSION_DEPTH''"

datatype encode_error =
    UnexpectedNull
  | MessageTooLarge nat nat
  | RecursionLimitExceeded nat
  | MapKeyCountMismatch nat nat
  | EmbeddedNulInString
  | InvalidUnionValue
  | InvalidEnumValue int
  | ArithmeticOverflow
  | TypeMismatch
  | Unsupported string

datatype wire_error = Validation validation_error | EncodeErr encode_error

type_synonym 'a wire_result = "(wire_error, 'a) outcome"

text \<open>\<open>From<WireError> for ValidationError\<close>.\<close>

fun wire_error_class :: "wire_error \<Rightarrow> validation_error" where
  "wire_error_class (Validation v) = v"
| "wire_error_class (EncodeErr e) = DeserializationFailed"

section \<open>Properties\<close>

text \<open>Rounding up to a power of two gives the least multiple that is not below the argument, None
  exactly when that multiple does not fit in a \<open>usize\<close>, and never panics; rounding down gives the
  greatest multiple not above.\<close>

theorem align_rounds_exactly:
  assumes a: "is_power_of_two a" and n: "n < usize_limit"
  shows "\<exists>m. a dvd m \<and> n \<le> m \<and> (\<forall>k. a dvd k \<and> n \<le> k \<longrightarrow> m \<le> k) \<and>
    align_up n a = Some (if m < usize_limit then Some m else None) \<and>
    (\<exists>d. align_down n a = Some d \<and> a dvd d \<and> d \<le> n \<and> n < d + a)"
proof -
  obtain k where k: "k < 64" "a = 2 ^ k" using a by (auto simp: is_power_of_two_iff)
  then have pos: "0 < a" by simp
  have lim: "a dvd usize_limit" unfolding usize_limit_def k(2) using k(1) by (intro le_imp_power_dvd) simp
  note ru = round_up_bounds [OF pos, of n]
  have iff: "n + (a - 1) < usize_limit \<longleftrightarrow> round_up n a < usize_limit"
  proof
    assume "round_up n a < usize_limit"
    moreover have "a dvd usize_limit - round_up n a" using lim ru(3) by simp
    ultimately have "a \<le> usize_limit - round_up n a" by (simp add: dvd_imp_le)
    then show "n + (a - 1) < usize_limit" using ru(1) pos \<open>round_up n a < usize_limit\<close> by linarith
  qed (use ru(2) pos in linarith)
  have "n div a * a \<le> n" "n < n div a * a + a"
    using div_mult_mod_eq [of n a] mod_less_divisor [OF pos, of n] by linarith+
  then have "\<exists>d. align_down n a = Some d \<and> a dvd d \<and> d \<le> n \<and> n < d + a"
    using align_down_eq [OF a n] by simp
  moreover have "align_up n a = Some (if round_up n a < usize_limit then Some (round_up n a) else None)"
    using align_up_eq [OF a, of n] unfolding iff .
  ultimately show ?thesis
    using ru round_up_least [OF pos] by (intro exI [of _ "round_up n a"]) auto
qed

theorem align_rounds_exactly_witness:
  "\<exists>m. 8 dvd m \<and> 13 \<le> m \<and> align_up 13 8 = Some (Some m)"
proof -
  have "is_power_of_two 8" unfolding is_power_of_two_iff by (intro exI [of _ 3]) simp
  from align_rounds_exactly [OF this, of 13]
  obtain m where "8 dvd m" "13 \<le> m" "\<forall>k. 8 dvd k \<and> 13 \<le> k \<longrightarrow> m \<le> k"
    "align_up 13 8 = Some (if m < usize_limit then Some m else None)"
    by (auto simp: usize_limit_def)
  moreover have "m \<le> 16" using calculation(3) [rule_format, of 16] by simp
  ultimately show ?thesis by (auto simp: usize_limit_def)
qed

text \<open>Relative pointers round-trip through the bytes of a message: a pointer encoded for a target,
  written in little-endian order and read back decodes to that target, also when the offset is
  negative, except that a pointer to its own address reads as null; a non-null raw value is the
  encoding of the target it decodes to.\<close>

theorem pointer_roundtrip:
  "pointer_decode p (from_le (to_le 8 (pointer_encode p t))) = (if t = p then PNull else POffset t) \<and>
   pointer_target (pointer_decode p raw) = (if raw = 0 then None else Some (p + raw)) \<and>
   pointer_encode p (p + raw) = raw"
  by (simp add: from_le_to_le pointer_decode_def pointer_encode_def)

end
