(* ===== verification/WireHeader.thy ===== *)
theory WireHeader
  imports WireLayout
begin

text \<open>
  The message header of the wire format: \<open>crates/mojo-rs-wire/src/message.rs\<close> and \<open>validate_header\<close>
  of \<open>validate.rs\<close>.  The header is a little-endian record of 24, 32, 48 or 56 bytes by version.
  Main results: the outcome of parsing, check by check and including the panics on short buffers,
  and the round trips of serialising, patching the payload pointers, and parsing.
\<close>

section \<open>The header\<close>

definition PRIMARY_INTERFACE_ID :: u32 where "PRIMARY_INTERFACE_ID = 0xFFFFFFFF"
definition INVALID_INTERFACE_ID :: u32 where "INVALID_INTERFACE_ID = 0xFFFFFFFE"

text \<open>The creation time is the 64 bits of an \<open>i64\<close>.\<close>

record message_header =
  mh_interface_id :: u32
  mh_name :: u32
  mh_flags :: u32
  mh_trace_nonce :: u32
  mh_version :: u32
  mh_request_id :: "u64 option"
  mh_payload :: "pointer option"
  mh_payload_interface_ids :: "pointer option"
  mh_creation_timeticks :: "u64 option"

definition size_for_version :: "u32 \<Rightarrow> nat option" where
  "size_for_version v =
     (if v = 0 then Some MESSAGE_HEADER_V0_SIZE
      else if v = 1 then Some MESSAGE_HEADER_V1_SIZE
      else if v = 2 then Some MESSAGE_HEADER_V2_SIZE
      else if v = 3 then Some MESSAGE_HEADER_V3_SIZE
      else None)"

definition expects_response :: "message_header \<Rightarrow> bool" where
  "expects_response h = (mh_flags h AND MESSAGE_FLAG_EXPECTS_RESPONSE \<noteq> 0)"

definition is_response :: "message_header \<Rightarrow> bool" where
  "is_response h = (mh_flags h AND MESSAGE_FLAG_IS_RESPONSE \<noteq> 0)"

definition has_interface_id :: "message_header \<Rightarrow> bool" where
  "has_interface_id h = (mh_flags h AND MESSAGE_FLAG_HAS_INTERFACE_ID \<noteq> 0)"

definition use_v3_header :: "message_header \<Rightarrow> bool" where
  "use_v3_header h = (mh_flags h AND MESSAGE_FLAG_USE_V3_HEADER \<noteq> 0)"

definition is_valid_interface_id :: "u32 \<Rightarrow> bool" where
  "is_valid_interface_id i = (i \<noteq> INVALID_INTERFACE_ID \<and> i \<noteq> PRIMARY_INTERFACE_ID)"

section \<open>Parsing\<close>

definition REQUEST_ID_FLAGS :: u32 where
  "REQUEST_ID_FLAGS = MESSAGE_FLAG_EXPECTS_RESPONSE OR MESSAGE_FLAG_IS_RESPONSE"

text \<open>The header size a version requires; versions above 3 require the version-3 size.\<close>

definition required_size :: "u32 \<Rightarrow> nat" where
  "required_size v =
     (if v = 0 then MESSAGE_HEADER_V0_SIZE
      else if v = 1 then MESSAGE_HEADER_V1_SIZE
      else if v = 2 then MESSAGE_HEADER_V2_SIZE
      else MESSAGE_HEADER_V3_SIZE)"

text \<open>A field that is present from some version on.\<close>

definition versioned :: "bool \<Rightarrow> 'a wire_result \<Rightarrow> 'a option wire_result" where
  "versioned present read = (if present then obind read (\<lambda>a. Ok (Some a)) else Ok None)"

definition read_pointer_at :: "byte list \<Rightarrow> nat \<Rightarrow> pointer wire_result" where
  "read_pointer_at bytes offset =
     obind (from_option (read_u64_at bytes offset)) (\<lambda>raw. Ok (pointer_decode (of_nat offset) raw))"

definition parse :: "byte list \<Rightarrow> (message_header \<times> nat) wire_result" where
  "parse bytes =
     (let size = length bytes in
      if size < MIN_MESSAGE_SIZE then Err (EncodeErr (MessageTooLarge size MIN_MESSAGE_SIZE))
      else
      obind (from_option (read_u32_at bytes 0)) (\<lambda>num_bytes.
      obind (from_option (read_u32_at bytes 4)) (\<lambda>version.
      let required = required_size version in
      if (if version \<le> 3 then unat num_bytes \<noteq> required else unat num_bytes < required)
      then Err (Validation UnexpectedStructHeader)
      else
      obind (from_option (read_u32_at bytes HEADER_INTERFACE_ID_OFFSET)) (\<lambda>interface_id.
      obind (from_option (read_u32_at bytes HEADER_NAME_OFFSET)) (\<lambda>name.
      obind (from_option (read_u32_at bytes HEADER_FLAGS_OFFSET)) (\<lambda>flags.
      obind (from_option (read_u32_at bytes HEADER_TRACE_NONCE_OFFSET)) (\<lambda>trace_nonce.
      if version = 0 \<and> flags AND REQUEST_ID_FLAGS \<noteq> 0
      then Err (Validation MessageHeaderMissingRequestId)
      else if flags AND REQUEST_ID_FLAGS = REQUEST_ID_FLAGS
      then Err (Validation MessageHeaderInvalidFlags)
      else
      obind (versioned (version \<ge> 1) (from_option (read_u64_at bytes HEADER_REQUEST_ID_OFFSET))) (\<lambda>request_id.
      obind (versioned (version \<ge> 2)
        (obind (read_pointer_at bytes HEADER_PAYLOAD_OFFSET) (\<lambda>ptr.
           if ptr = PNull then Err (Validation UnexpectedNullPointer) else Ok ptr))) (\<lambda>payload.
      obind (versioned (version \<ge> 2) (read_pointer_at bytes HEADER_PAYLOAD_INTERFACE_IDS_OFFSET)) (\<lambda>ids.
      obind (versioned (version \<ge> 3)
        (from_option (read_u64_at bytes HEADER_CREATION_TIMETICKS_OFFSET))) (\<lambda>ticks.
      Ok (\<lparr>mh_interface_id = interface_id, mh_name = name, mh_flags = flags,
            mh_trace_nonce = trace_nonce, mh_version = version, mh_request_id = request_id,
            mh_payload = payload, mh_payload_interface_ids = ids, mh_creation_timeticks = ticks\<rparr>,
          if version \<le> 3 then required else MESSAGE_HEADER_V3_SIZE))))))))))))"

definition validate_header :: "byte list \<Rightarrow> message_header wire_result" where
  "validate_header bytes = obind (parse bytes) (\<lambda>(header, _). Ok header)"

section \<open>Serialising\<close>

definition write_opt :: "byte list \<Rightarrow> nat \<Rightarrow> u64 option \<Rightarrow> byte list option" where
  "write_opt out offset x =
     (case x of None \<Rightarrow> Some out | Some v \<Rightarrow> copy_into out offset (offset + 8) (to_le 8 v))"

text \<open>The payload pointers stay zero, to be patched by the encoder.\<close>

definition serialize :: "message_header \<Rightarrow> byte list option" where
  "serialize h = do {
     let size = required_size (mh_version h);
     out \<leftarrow> copy_into (replicate size 0) 0 4 (to_le 4 (of_nat size :: u32));
     out \<leftarrow> copy_into out 4 8 (to_le 4 (mh_version h));
     out \<leftarrow> copy_into out HEADER_INTERFACE_ID_OFFSET (HEADER_INTERFACE_ID_OFFSET + 4) (to_le 4 (mh_interface_id h));
     out \<leftarrow> copy_into out HEADER_NAME_OFFSET (HEADER_NAME_OFFSET + 4) (to_le 4 (mh_name h));
     out \<leftarrow> copy_into out HEADER_FLAGS_OFFSET (HEADER_FLAGS_OFFSET + 4) (to_le 4 (mh_flags h));
     out \<leftarrow> copy_into out HEADER_TRACE_NONCE_OFFSET (HEADER_TRACE_NONCE_OFFSET + 4) (to_le 4 (mh_trace_nonce h));
     out \<leftarrow> write_opt out HEADER_REQUEST_ID_OFFSET (mh_request_id h);
     write_opt out HEADER_CREATION_TIMETICKS_OFFSET (mh_creation_timeticks h) }"

section \<open>Closed forms\<close>

lemma required_size_simps:
  "required_size 0 = 24" "required_size 1 = 32" "required_size 2 = 48" "required_size 3 = 56"
  "3 < v \<Longrightarrow> required_size v = 56"
  by (auto simp: required_size_def header_consts)

lemma read_pointer_at_eq:
  "offset + 8 < usize_limit \<Longrightarrow> read_pointer_at bytes offset =
     (if offset + 8 \<le> length bytes then Ok (pointer_decode (of_nat offset) (u64_in bytes offset)) else Panic)"
  by (simp add: read_pointer_at_def read_u64_at_eq)

lemma versioned_simps [simp]:
  "versioned False r = Ok None"
  "versioned True r = obind r (\<lambda>a. Ok (Some a))"
  by (simp_all add: versioned_def)

lemma pointer_decode_Null [simp]: "pointer_decode p raw = PNull \<longleftrightarrow> raw = 0"
  by (simp add: pointer_decode_def)

text \<open>The fields of a header as they lie in the bytes.\<close>

definition header_in :: "byte list \<Rightarrow> message_header" where
  "header_in bytes = (let v = u32_in bytes 4 in
     \<lparr>mh_interface_id = u32_in bytes 8, mh_name = u32_in bytes 12, mh_flags = u32_in bytes 16,
      mh_trace_nonce = u32_in bytes 20, mh_version = v,
      mh_request_id = (if v \<ge> 1 then Some (u64_in bytes 24) else None),
      mh_payload = (if v \<ge> 2 then Some (pointer_decode 32 (u64_in bytes 32)) else None),
      mh_payload_interface_ids = (if v \<ge> 2 then Some (pointer_decode 40 (u64_in bytes 40)) else None),
      mh_creation_timeticks = (if v \<ge> 3 then Some (u64_in bytes 48) else None)\<rparr>)"

text \<open>The checks on the first 24 bytes.\<close>

definition base_error :: "byte list \<Rightarrow> validation_error option" where
  "base_error bytes = (let n = unat (u32_in bytes 0); v = u32_in bytes 4; fl = u32_in bytes 16 AND 3 in
     if (if v \<le> 3 then n \<noteq> required_size v else n < 56) then Some UnexpectedStructHeader
     else if v = 0 \<and> fl \<noteq> 0 then Some MessageHeaderMissingRequestId
     else if fl = 3 then Some MessageHeaderInvalidFlags
     else None)"

text \<open>Reading the versioned fields runs off the end of the buffer.\<close>

definition header_cut_short :: "byte list \<Rightarrow> bool" where
  "header_cut_short bytes = (let v = u32_in bytes 4; n = length bytes in
     v \<ge> 1 \<and> n < 32 \<or> v \<ge> 2 \<and> n < 40 \<or>
     v \<ge> 2 \<and> u64_in bytes 32 \<noteq> 0 \<and> (n < 48 \<or> v \<ge> 3 \<and> n < 56))"

lemma request_id_flags: "REQUEST_ID_FLAGS = 3"
  by (simp add: REQUEST_ID_FLAGS_def MESSAGE_FLAG_EXPECTS_RESPONSE_def MESSAGE_FLAG_IS_RESPONSE_def)

lemma version_numerals [simp]:
  "\<not> (3 :: u32) \<le> 1" "\<not> (2 :: u32) \<le> 1" "(1 :: u32) \<le> 3" "(1 :: u32) \<le> 2"
  by (simp_all add: word_le_nat_alt)

lemma version_cases:
  fixes v :: u32
  obtains "v = 0" | "v = 1" | "v = 2" | "v = 3"
    | "3 < v" "v \<noteq> 0" "1 \<le> v" "2 \<le> v" "3 \<le> v" "\<not> v \<le> 3" "v \<noteq> 3"
proof (cases "3 < v")
  case True
  then have "3 < unat v" by (simp add: word_less_nat_alt)
  then have "v \<noteq> 0" "1 \<le> v" "2 \<le> v" "3 \<le> v" by (auto simp: word_le_nat_alt)
  with True that(5) show thesis by auto
next
  case False
  then have "unat v \<le> 3" by (simp add: word_less_nat_alt)
  then have "unat v = 0 \<or> unat v = 1 \<or> unat v = 2 \<or> unat v = 3" by linarith
  then have "v = of_nat 0 \<or> v = of_nat 1 \<or> v = of_nat 2 \<or> v = of_nat 3"
    by (auto simp: word_unat_eq_iff)
  with that(1-4) show thesis by auto
qed

lemma parse_eq:
  "parse bytes =
     (if length bytes < 24 then Err (EncodeErr (MessageTooLarge (length bytes) 24))
      else case base_error bytes of
        Some e \<Rightarrow> Err (Validation e)
      | None \<Rightarrow>
          if header_cut_short bytes then Panic
          else if u32_in bytes 4 \<ge> 2 \<and> u64_in bytes 32 = 0 then Err (Validation UnexpectedNullPointer)
          else Ok (header_in bytes, required_size (u32_in bytes 4)))"
proof (cases "length bytes < 24")
  case True
  then show ?thesis by (simp add: parse_def header_consts)
next
  case False
  then show ?thesis
    by (cases "u32_in bytes 4" rule: version_cases)
      (auto simp: parse_def Let_def header_consts read_u32_at_eq read_u64_at_eq read_pointer_at_eq
        usize_limit_def request_id_flags base_error_def header_cut_short_def header_in_def
        required_size_simps)
qed


text \<open>The bytes \<open>serialize\<close> writes, and when it panics: a field that the version has no room for.\<close>

definition header_bytes :: "message_header \<Rightarrow> byte list" where
  "header_bytes h = (let v = mh_version h; opt = (\<lambda>x. to_le 8 (case x of None \<Rightarrow> 0 :: u64 | Some a \<Rightarrow> a)) in
     to_le 4 (of_nat (required_size v) :: u32) @ to_le 4 v @ to_le 4 (mh_interface_id h) @
     to_le 4 (mh_name h) @ to_le 4 (mh_flags h) @ to_le 4 (mh_trace_nonce h) @
     (if 1 \<le> v then opt (mh_request_id h) else []) @
     (if 2 \<le> v then replicate 16 0 else []) @
     (if 3 \<le> v then opt (mh_creation_timeticks h) else []))"

definition header_fits :: "message_header \<Rightarrow> bool" where
  "header_fits h = ((mh_request_id h \<noteq> None \<longrightarrow> 1 \<le> mh_version h) \<and>
     (mh_creation_timeticks h \<noteq> None \<longrightarrow> 3 \<le> mh_version h))"

lemma to_le_0 [simp]: "to_le n (0 :: 'w::len word) = replicate n 0"
  by (simp add: to_le_def map_replicate_const)

lemma copy_into_eq:
  "copy_into xs a b src =
     (if a \<le> b \<and> b \<le> length xs \<and> length src = b - a then Some (take a xs @ src @ drop b xs) else None)"
  by (simp add: copy_into_def)

lemma serialize_eq: "serialize h = (if header_fits h then Some (header_bytes h) else None)"
  by (cases "mh_version h" rule: version_cases; cases "mh_request_id h"; cases "mh_creation_timeticks h")
    (simp_all add: serialize_def header_bytes_def header_fits_def required_size_simps write_opt_def
      copy_into_eq header_consts Let_def min_def flip: replicate_add)

lemma length_header_bytes: "length (header_bytes h) = required_size (mh_version h)"
  by (cases "mh_version h" rule: version_cases) (simp_all add: header_bytes_def required_size_simps Let_def)

lemma base_in_header_bytes:
  "u32_in (header_bytes h @ xs) 0 = of_nat (required_size (mh_version h))"
  "u32_in (header_bytes h @ xs) 4 = mh_version h"
  "u32_in (header_bytes h @ xs) 8 = mh_interface_id h"
  "u32_in (header_bytes h @ xs) 12 = mh_name h"
  "u32_in (header_bytes h @ xs) 16 = mh_flags h"
  "u32_in (header_bytes h @ xs) 20 = mh_trace_nonce h"
  by (simp_all add: u32_in_def header_bytes_def Let_def from_le_to_le)

text \<open>The header with its two payload pointers stored over the zeros, as the encoder does.\<close>

definition patched :: "message_header \<Rightarrow> u64 \<Rightarrow> u64 \<Rightarrow> byte list" where
  "patched h raw raw' = (if 2 \<le> mh_version h
     then take 32 (header_bytes h) @ to_le 8 raw @ to_le 8 raw' @ drop 48 (header_bytes h)
     else header_bytes h)"

lemma patched_0: "patched h 0 0 = header_bytes h"
  by (cases "mh_version h" rule: version_cases)
    (simp_all add: patched_def header_bytes_def Let_def to_le_0 flip: replicate_add)

lemma length_patched: "length (patched h raw raw') = required_size (mh_version h)"
  by (cases "mh_version h" rule: version_cases)
    (simp_all add: patched_def length_header_bytes required_size_simps)

lemma base_in_patched:
  "u32_in (patched h raw raw' @ xs) 0 = of_nat (required_size (mh_version h))"
  "u32_in (patched h raw raw' @ xs) 4 = mh_version h"
  "u32_in (patched h raw raw' @ xs) 8 = mh_interface_id h"
  "u32_in (patched h raw raw' @ xs) 12 = mh_name h"
  "u32_in (patched h raw raw' @ xs) 16 = mh_flags h"
  "u32_in (patched h raw raw' @ xs) 20 = mh_trace_nonce h"
  by (simp_all add: u32_in_def patched_def header_bytes_def Let_def from_le_to_le)

lemma pointers_in_patched:
  assumes "2 \<le> mh_version h"
  shows "u64_in (patched h raw raw' @ xs) 32 = raw" "u64_in (patched h raw raw' @ xs) 40 = raw'"
  using assms by (cases "mh_version h" rule: version_cases;
      simp add: u64_in_def patched_def length_header_bytes required_size_simps from_le_to_le)+

lemma request_id_in_patched:
  "1 \<le> mh_version h \<Longrightarrow> mh_request_id h = Some i \<Longrightarrow> u64_in (patched h raw raw' @ xs) 24 = i"
  by (cases "mh_version h" rule: version_cases)
    (simp_all add: u64_in_def patched_def header_bytes_def Let_def from_le_to_le)

lemma ticks_in_patched:
  "3 \<le> mh_version h \<Longrightarrow> mh_creation_timeticks h = Some i \<Longrightarrow> u64_in (patched h raw raw' @ xs) 48 = i"
  by (cases "mh_version h" rule: version_cases)
    (simp_all add: u64_in_def patched_def header_bytes_def Let_def from_le_to_le)

section \<open>Properties\<close>

text \<open>An accepted header is well formed: it and its fields lie within the buffer, the declared size
  is exactly the version's for versions up to 3 and at least 56 beyond, a response or a request for
  one carries a request id, never both, and a header of version 2 or later has a payload pointer;
  the length returned is the version's size, 56 for every later version whatever size it declares.\<close>

theorem accepted_header_wellformed:
  assumes p: "parse bytes = Ok (h, n)"
  shows "h = header_in bytes \<and> n \<le> length bytes \<and>
    n = (if mh_version h = 0 then 24 else if mh_version h = 1 then 32 else if mh_version h = 2 then 48 else 56) \<and>
    (if mh_version h \<le> 3 then unat (u32_in bytes 0) = n else 56 \<le> unat (u32_in bytes 0)) \<and>
    mh_flags h AND 3 \<noteq> 3 \<and>
    (mh_flags h AND 3 \<noteq> 0 \<longrightarrow> mh_request_id h \<noteq> None) \<and>
    (2 \<le> mh_version h \<longrightarrow> mh_payload h \<noteq> None \<and> mh_payload h \<noteq> Some PNull)"
proof -
  have len: "24 \<le> length bytes" and base: "base_error bytes = None"
    and cut: "\<not> header_cut_short bytes"
    and null: "\<not> (2 \<le> u32_in bytes 4 \<and> u64_in bytes 32 = 0)"
    and h: "h = header_in bytes" "n = required_size (u32_in bytes 4)"
    using p by (auto simp: parse_eq split: if_splits option.splits)
  have v: "mh_version h = u32_in bytes 4" using h by (simp add: header_in_def Let_def)
  show ?thesis
    by (cases "u32_in bytes 4" rule: version_cases)
      (use len base cut null h in \<open>auto simp: v header_in_def Let_def required_size_simps base_error_def
        header_cut_short_def split: if_splits\<close>)
qed

theorem accepted_header_wellformed_witness:
  "\<exists>h. parse (header_bytes \<lparr>mh_interface_id = 5, mh_name = 7, mh_flags = 1, mh_trace_nonce = 0,
      mh_version = 1, mh_request_id = Some 9, mh_payload = None, mh_payload_interface_ids = None,
      mh_creation_timeticks = None\<rparr>) = Ok (h, 32) \<and> mh_request_id h \<noteq> None"
proof -
  let ?h = "\<lparr>mh_interface_id = 5, mh_name = 7, mh_flags = 1, mh_trace_nonce = 0,
      mh_version = 1, mh_request_id = Some 9, mh_payload = None, mh_payload_interface_ids = None,
      mh_creation_timeticks = None\<rparr>"
  let ?b = "header_bytes ?h"
  have "base_error ?b = None" "\<not> header_cut_short ?b" "length ?b = 32" "u32_in ?b 4 = 1"
    using base_in_header_bytes [of ?h "[]"] length_header_bytes [of ?h]
    by (simp_all add: base_error_def header_cut_short_def Let_def required_size_simps)
  then have p: "parse ?b = Ok (header_in ?b, 32)" by (simp add: parse_eq required_size_simps)
  have "mh_flags (header_in ?b) = 1" using base_in_header_bytes [of ?h "[]"] by (simp add: header_in_def Let_def)
  with accepted_header_wellformed [OF p] p show ?thesis by auto
qed

text \<open>What parsing does with every byte string: too short, wrong size, missing request id, both
  response flags, in this order; then a panic exactly when the buffer ends inside a field the
  version promises (a null payload pointer is reported first when it is reached), and otherwise
  success.  A 24-byte buffer that declares version 1 panics.\<close>

theorem header_parse_outcome:
  "parse bytes =
     (let v = u32_in bytes 4; size = unat (u32_in bytes 0); fl = u32_in bytes 16 AND 3; n = length bytes in
      if n < 24 then Err (EncodeErr (MessageTooLarge n 24))
      else if (if v \<le> 3 then size \<noteq> required_size v else size < 56) then Err (Validation UnexpectedStructHeader)
      else if v = 0 \<and> fl \<noteq> 0 then Err (Validation MessageHeaderMissingRequestId)
      else if fl = 3 then Err (Validation MessageHeaderInvalidFlags)
      else if v \<ge> 1 \<and> n < 32 \<or> v \<ge> 2 \<and> n < 40 then Panic
      else if v \<ge> 2 \<and> u64_in bytes 32 = 0 then Err (Validation UnexpectedNullPointer)
      else if v \<ge> 2 \<and> n < 48 \<or> v \<ge> 3 \<and> n < 56 then Panic
      else Ok (header_in bytes, required_size v)) \<and>
   parse (to_le 4 (32 :: u32) @ to_le 4 (1 :: u32) @ replicate 16 0) = Panic"
proof -
  let ?b = "to_le 4 (32 :: u32) @ to_le 4 (1 :: u32) @ replicate 16 0"
  have "u32_in ?b 0 = 32" "u32_in ?b 4 = 1" "u32_in ?b 16 = 0"
    by (simp_all add: u32_in_def from_le_to_le numeral_eq_Suc)
  then have "parse ?b = Panic"
    by (simp add: parse_eq base_error_def header_cut_short_def required_size_simps)
  then show ?thesis
    unfolding parse_eq [of bytes] base_error_def header_cut_short_def Let_def
    by (cases "u32_in bytes 4" rule: version_cases) simp_all
qed

text \<open>Header round trip: a header whose optional fields match its version serialises without
  panicking; with the two payload pointers stored (a non-null one for the payload) it parses back to
  the same header with those pointers, whatever follows it, and its length is the size returned;
  with the pointers left null a version-2 header is refused.\<close>

theorem header_roundtrip:
  assumes ids: "(mh_request_id h \<noteq> None) = (1 \<le> mh_version h)"
    "(mh_creation_timeticks h \<noteq> None) = (3 \<le> mh_version h)"
    and fl: "mh_flags h AND 3 \<noteq> 3" "mh_version h = 0 \<longrightarrow> mh_flags h AND 3 = 0"
    and raw: "raw \<noteq> 0"
  shows "\<exists>bytes. serialize h = Some bytes \<and>
    parse (patched h raw raw' @ rest) =
      Ok (h\<lparr>mh_payload := (if 2 \<le> mh_version h then Some (POffset (32 + raw)) else None),
            mh_payload_interface_ids := (if 2 \<le> mh_version h then Some (pointer_decode 40 raw') else None)\<rparr>,
          length bytes) \<and>
    patched h 0 0 = bytes \<and>
    (2 \<le> mh_version h \<longrightarrow> parse (bytes @ rest) = Err (Validation UnexpectedNullPointer))"
proof -
  let ?v = "mh_version h"
  have fits: "serialize h = Some (header_bytes h)"
    using ids by (auto simp: serialize_eq header_fits_def)
  have small: "unat (of_nat (required_size ?v) :: u32) = required_size ?v"
    by (simp add: required_size_def header_consts)
  have base: "base_error (patched h r r' @ rest) = None" for r r'
    using fl small by (auto simp: base_error_def base_in_patched Let_def required_size_simps)
  have cut: "\<not> header_cut_short (patched h r r' @ rest)" for r r'
    by (cases ?v rule: version_cases)
      (simp_all add: header_cut_short_def base_in_patched length_patched required_size_simps Let_def)
  have len: "24 \<le> length (patched h r r' @ rest)" for r r'
    by (cases ?v rule: version_cases) (simp_all add: length_patched required_size_simps)
  have hd: "header_in (patched h raw raw' @ rest) =
     h\<lparr>mh_payload := (if 2 \<le> ?v then Some (POffset (32 + raw)) else None),
       mh_payload_interface_ids := (if 2 \<le> ?v then Some (pointer_decode 40 raw') else None)\<rparr>"
    using ids raw
    by (auto simp: header_in_def Let_def base_in_patched pointers_in_patched pointer_decode_def
        request_id_in_patched ticks_in_patched intro!: message_header.equality)
  have "parse (patched h raw raw' @ rest) = Ok (header_in (patched h raw raw' @ rest), required_size ?v)"
    using base [of raw raw'] cut [of raw raw'] len [of raw raw'] raw
    by (simp add: parse_eq base_in_patched pointers_in_patched)
  moreover have "2 \<le> ?v \<Longrightarrow> parse (patched h 0 0 @ rest) = Err (Validation UnexpectedNullPointer)"
    using base [of 0 0] cut [of 0 0] len [of 0 0]
    by (simp add: parse_eq base_in_patched pointers_in_patched)
  ultimately show ?thesis
    using fits hd patched_0 [of h] length_header_bytes [of h] by simp
qed

theorem header_roundtrip_witness:
  "\<exists>h. mh_version h = 3 \<and>
    parse (patched h (pointer_encode 32 56) 0 @ [1, 2]) =
      Ok (h\<lparr>mh_payload := Some (POffset 56), mh_payload_interface_ids := Some PNull\<rparr>, 56)"
proof -
  let ?h = "\<lparr>mh_interface_id = 5, mh_name = 7, mh_flags = 2, mh_trace_nonce = 1,
      mh_version = 3, mh_request_id = Some 9, mh_payload = None, mh_payload_interface_ids = None,
      mh_creation_timeticks = Some 4\<rparr>"
  have v: "(2 :: u32) \<le> 3" "(1 :: u32) \<le> 3" by (simp_all add: word_le_nat_alt)
  obtain b where "serialize ?h = Some b" "parse (patched ?h (pointer_encode 32 56) 0 @ [1, 2]) =
      Ok (?h\<lparr>mh_payload := Some (POffset 56), mh_payload_interface_ids := Some (pointer_decode 40 0)\<rparr>, length b)"
    using header_roundtrip [of ?h "pointer_encode 32 56" 0 "[1, 2]"] v
    by (auto simp: pointer_encode_def)
  moreover have "length b = 56" using calculation(1) length_header_bytes [of ?h]
    by (simp add: serialize_eq required_size_simps split: if_splits)
  ultimately show ?thesis by (intro exI [of _ ?h]) (simp add: pointer_decode_def)
qed

end
