(* ===== verification/WirePack.thy ===== *)
theory WirePack
  imports WireLayout "HOL-Library.Option_ord" "HOL-Library.Product_Lexorder" "HOL-Library.Multiset"
begin

text \<open>
  Struct field packing: \<open>crates/mojo-rs-wire/src/pack.rs\<close>.  Fields get ordinals, nullable values
  become a flag and a value, minimum versions are propagated, and a first-fit pass assigns byte
  offsets (and bits, for booleans).  Main results: every accepted layout is aligned and free of
  overlaps, keeps every field, ends within the struct size, and has version sizes that cover exactly
  the fields of each version; which structs are refused; the field's own ordinal plays no part.

  Offsets and sizes are natural numbers: by the size bound below no sum reaches \<open>2 ^ 64\<close> for fewer
  than \<open>2 ^ 58\<close> fields, which no list in memory has.
\<close>

section \<open>Kinds and fields\<close>

datatype kind =
    KBool | KI8 | KU8 | KI16 | KU16 | KI32 | KU32 | KI64 | KU64 | KF32 | KF64 | KEnum
  | KHandle | KMsgPipe | KSharedBuffer | KPlatformHandle | KDcPipe | KDpPipe
  | KString | KArray | KMap | KStruct | KInterface | KPendingRemote | KPendingAssociatedRemote
  | KUnion | KPendingReceiver | KPendingAssociatedReceiver

definition kind_size :: "kind \<Rightarrow> nat" where
  "kind_size k = (case k of
       KBool \<Rightarrow> 1 | KI8 \<Rightarrow> 1 | KU8 \<Rightarrow> 1
     | KI16 \<Rightarrow> 2 | KU16 \<Rightarrow> 2
     | KI32 \<Rightarrow> 4 | KU32 \<Rightarrow> 4 | KF32 \<Rightarrow> 4 | KEnum \<Rightarrow> 4
     | KHandle \<Rightarrow> 4 | KMsgPipe \<Rightarrow> 4 | KSharedBuffer \<Rightarrow> 4 | KPlatformHandle \<Rightarrow> 4
     | KDcPipe \<Rightarrow> 4 | KDpPipe \<Rightarrow> 4 | KPendingReceiver \<Rightarrow> 4 | KPendingAssociatedReceiver \<Rightarrow> 4
     | KI64 \<Rightarrow> 8 | KU64 \<Rightarrow> 8 | KF64 \<Rightarrow> 8
     | KString \<Rightarrow> 8 | KArray \<Rightarrow> 8 | KMap \<Rightarrow> 8 | KStruct \<Rightarrow> 8
     | KInterface \<Rightarrow> 8 | KPendingRemote \<Rightarrow> 8 | KPendingAssociatedRemote \<Rightarrow> 8
     | KUnion \<Rightarrow> 16)"

definition kind_alignment :: "kind \<Rightarrow> nat" where
  "kind_alignment k = (case k of
       KInterface \<Rightarrow> 4 | KPendingRemote \<Rightarrow> 4 | KPendingAssociatedRemote \<Rightarrow> 4
     | KUnion \<Rightarrow> 8
     | _ \<Rightarrow> kind_size k)"

definition is_reference :: "kind \<Rightarrow> bool" where
  "is_reference k = (k \<in> {KString, KArray, KMap, KStruct, KInterface, KPendingRemote})"

definition is_handle :: "kind \<Rightarrow> bool" where
  "is_handle k = (k \<in> {KHandle, KMsgPipe, KSharedBuffer, KPlatformHandle, KDcPipe, KDpPipe, KPendingReceiver})"

definition is_associated :: "kind \<Rightarrow> bool" where
  "is_associated k = (k = KPendingAssociatedReceiver)"

record field =
  f_index :: nat
  f_ordinal :: nat
  f_min_version :: "u32 option"
  f_kind :: kind
  f_nullable_value_kind :: bool
  f_nullable_reference :: bool
  f_mojom_name :: string

definition is_nonnullable_reference :: "field \<Rightarrow> bool" where
  "is_nonnullable_reference f = (is_reference (f_kind f) \<and> \<not> f_nullable_reference f)"

record packed_field =
  pf_field :: field
  pf_ordinal :: nat
  pf_sub :: "nat option"
  pf_size :: nat
  pf_alignment :: nat
  pf_offset :: nat
  pf_bit :: nat
  pf_min_version :: u32
  pf_linked :: "nat option"

definition is_primary_nullable_value :: "packed_field \<Rightarrow> bool" where
  "is_primary_nullable_value p = (pf_linked p \<noteq> None)"

record packed_struct =
  packed_fields :: "packed_field list"
  packed_in_ordinal_order :: "packed_field list"
  ps_size :: nat
  version_info :: "(u32 \<times> nat) list"

section \<open>Offsets\<close>

definition pad :: "nat \<Rightarrow> nat \<Rightarrow> nat" where
  "pad offset alignment = (alignment - offset mod alignment) mod alignment"

definition field_offset :: "field \<Rightarrow> packed_field \<Rightarrow> nat \<times> nat" where
  "field_offset f prev =
     (if f_kind f = KBool \<and> f_kind (pf_field prev) = KBool \<and> pf_bit prev < 7
      then (pf_offset prev, pf_bit prev + 1)
      else let offset = pf_offset prev + pf_size prev in
        (offset + pad offset (kind_alignment (f_kind f)), 0))"

definition payload_size_up_to_field :: "packed_field \<Rightarrow> nat" where
  "payload_size_up_to_field p =
     (if pf_offset p = usize_limit - 1 then 0
      else let e = pf_offset p + pf_size p in e + pad e 8)"

section \<open>Packing\<close>

text \<open>The explicit ordinal of a field: the function in the code returns none for every field.\<close>

definition field_ordinal_hint :: "field \<Rightarrow> nat option" where
  "field_ordinal_hint f = None"

definition unnullify :: "kind \<Rightarrow> kind" where
  "unnullify k = k"

definition unplaced :: "field \<Rightarrow> nat \<Rightarrow> nat option \<Rightarrow> packed_field" where
  "unplaced f ord sub =
     \<lparr>pf_field = f, pf_ordinal = ord, pf_sub = sub, pf_size = 0, pf_alignment = 0,
      pf_offset = usize_limit - 1, pf_bit = 0, pf_min_version = 0, pf_linked = None\<rparr>"

text \<open>A nullable value becomes a boolean flag and the value.\<close>

definition expand_field :: "field \<Rightarrow> nat \<Rightarrow> packed_field list" where
  "expand_field f ord =
     (if f_nullable_value_kind f
      then [unplaced (f\<lparr>f_kind := KBool\<rparr>) ord (Some 0),
            unplaced (f\<lparr>f_kind := unnullify (f_kind f)\<rparr>) ord (Some 1)]
      else [unplaced f ord None])"

text \<open>Ordinals count up in a \<open>u32\<close>; the increment after each field is checked.\<close>

fun expand :: "nat \<Rightarrow> field list \<Rightarrow> packed_field list option" where
  "expand ordinal [] = Some []"
| "expand ordinal (f # fs) =
     (let at = (case field_ordinal_hint f of Some ord \<Rightarrow> ord | None \<Rightarrow> ordinal) in
      if at + 1 < 2 ^ 32
      then map_option (\<lambda>rest. expand_field f at @ rest) (expand (at + 1) fs)
      else None)"

definition resolve :: "packed_field \<Rightarrow> packed_field" where
  "resolve p = p\<lparr>pf_size := kind_size (f_kind (pf_field p)),
                 pf_alignment := kind_alignment (f_kind (pf_field p))\<rparr>"

definition order_key :: "packed_field \<Rightarrow> nat \<times> nat option" where
  "order_key p = (pf_ordinal p, pf_sub p)"

definition out_of_order :: encode_error where
  "out_of_order = Unsupported ''field min_version out of order''"

definition unversioned_after :: encode_error where
  "unversioned_after = Unsupported ''field without min_version after versioned field''"

definition versioned_reference :: encode_error where
  "versioned_reference = Unsupported ''non-nullable reference field in a versioned struct''"

fun propagate :: "u32 \<Rightarrow> packed_field list \<Rightarrow> packed_field list wire_result" where
  "propagate nxt [] = Ok []"
| "propagate nxt (p # ps) =
     obind (case f_min_version (pf_field p) of
         Some mv \<Rightarrow> if mv < nxt then Err (EncodeErr out_of_order) else Ok mv
       | None \<Rightarrow> if nxt \<noteq> 0 then Err (EncodeErr unversioned_after) else Ok nxt)
     (\<lambda>nxt'.
        if nxt' \<noteq> 0 \<and> is_nonnullable_reference (pf_field p)
        then Err (EncodeErr versioned_reference)
        else obind (propagate nxt' ps) (\<lambda>rest. Ok (p\<lparr>pf_min_version := nxt'\<rparr> # rest)))"

definition place_at :: "packed_field \<Rightarrow> nat \<times> nat \<Rightarrow> packed_field" where
  "place_at s ob = s\<lparr>pf_offset := fst ob, pf_bit := snd ob\<rparr>"

text \<open>The first gap behind a placed field that is wide enough, else the end.\<close>

fun insert_gap :: "packed_field \<Rightarrow> packed_field list \<Rightarrow> packed_field \<Rightarrow> packed_field list" where
  "insert_gap prev [] s = [place_at s (field_offset (pf_field s) prev)]"
| "insert_gap prev (nxt # rest) s =
     (let ob = field_offset (pf_field s) prev in
      if fst ob + pf_size s \<le> pf_offset nxt
      then place_at s ob # nxt # rest
      else nxt # insert_gap nxt rest s)"

fun place :: "packed_field list \<Rightarrow> packed_field \<Rightarrow> packed_field list" where
  "place (d # ds) s = d # insert_gap d ds s"
| "place [] s = [place_at s (0, 0)]"

fun first_fit :: "packed_field list \<Rightarrow> packed_field list" where
  "first_fit [] = []"
| "first_fit (s # ss) = foldl place [place_at s (0, 0)] ss"

text \<open>A flag is linked to the first value field of the same ordinal.\<close>

definition link_of :: "packed_field list \<Rightarrow> nat \<Rightarrow> nat option" where
  "link_of dst i =
     (if pf_sub (dst ! i) = Some 0
      then List.find (\<lambda>j. j \<noteq> i \<and> pf_sub (dst ! j) = Some 1 \<and> pf_ordinal (dst ! j) = pf_ordinal (dst ! i))
             [0..<length dst]
      else None)"

definition link_values :: "packed_field list \<Rightarrow> packed_field list" where
  "link_values dst = map (\<lambda>i. (dst ! i)\<lparr>pf_linked := link_of dst i\<rparr>) [0..<length dst]"

definition struct_size :: "packed_field list \<Rightarrow> nat" where
  "struct_size ps =
     (if ps = [] then STRUCT_HEADER_SIZE else payload_size_up_to_field (last ps) + STRUCT_HEADER_SIZE)"

fun version_sizes :: "u32 \<Rightarrow> nat \<Rightarrow> packed_field list \<Rightarrow> (u32 \<times> nat) list" where
  "version_sizes last_version last_payload [] = [(last_version, last_payload + STRUCT_HEADER_SIZE)]"
| "version_sizes last_version last_payload (p # ps) =
     (let payload = max last_payload (payload_size_up_to_field p) in
      if pf_min_version p \<noteq> last_version
      then (last_version, last_payload + STRUCT_HEADER_SIZE) # version_sizes (pf_min_version p) payload ps
      else version_sizes last_version payload ps)"

definition pack :: "field list \<Rightarrow> packed_struct wire_result" where
  "pack fs =
     obind (from_option (expand 0 fs)) (\<lambda>src0.
     let src = sort_key order_key (map resolve src0) in
     obind (propagate 0 src) (\<lambda>src'.
     let packed = link_values (first_fit src');
         ordinal_order = sort_key order_key packed in
     Ok \<lparr>packed_fields = packed, packed_in_ordinal_order = ordinal_order,
         ps_size = struct_size packed, version_info = version_sizes 0 0 ordinal_order\<rparr>))"

definition num_bytes_for_version :: "packed_struct \<Rightarrow> u32 \<Rightarrow> nat option" where
  "num_bytes_for_version ps version =
     (let ns = map snd (filter (\<lambda>(v, _). v \<le> version) (version_info ps)) in
      if ns = [] then None else Some (Max (set ns)))"

section \<open>Layout\<close>

abbreviation pf_kind :: "packed_field \<Rightarrow> kind" where
  "pf_kind p \<equiv> f_kind (pf_field p)"

lemma kind_size_range: "1 \<le> kind_size k" "kind_size k \<le> 16"
  by (simp_all add: kind_size_def split: kind.split)

lemma kind_size_Bool [simp]: "kind_size KBool = 1" "kind_alignment KBool = 1"
  by (simp_all add: kind_size_def kind_alignment_def)

lemma kind_alignment_cases:
  "kind_alignment k = 1 \<or> kind_alignment k = 2 \<or> kind_alignment k = 4 \<or> kind_alignment k = 8"
  by (simp add: kind_alignment_def kind_size_def split: kind.split)

lemma pad_eq: "0 < a \<Longrightarrow> pad e a = (if e mod a = 0 then 0 else a - e mod a)"
  by (simp add: pad_def)

lemma pad_sum: "0 < a \<Longrightarrow> e + pad e a = round_up e a"
proof -
  assume a: "0 < a"
  have e: "e = e div a * a + e mod a" by simp
  have m: "e mod a < a" using a by simp
  show ?thesis
  proof (cases "e mod a = 0")
    case True
    then have "a dvd e" by auto
    then have "round_up e a = e" using round_up_least [of a e e] round_up_bounds(1) [OF a, of e] a by simp
    then show ?thesis using True a by (simp add: pad_eq)
  next
    case False
    have "pad e a = a - e mod a" using False a by (simp add: pad_eq)
    then have s: "e + pad e a = Suc (e div a) * a" using e m by (simp only: mult_Suc)
    have "round_up e a \<le> Suc (e div a) * a" using round_up_least [of a "Suc (e div a) * a" e] a s by simp
    moreover have "e div a * a < round_up e a" using round_up_bounds(1) [OF a, of e] e False by linarith
    then have "Suc (e div a) * a \<le> round_up e a"
      unfolding round_up_def by (metis Suc_leI mult_le_mono1 mult_less_cancel2)
    ultimately show ?thesis using s by simp
  qed
qed

lemma kind_alignment_pos: "0 < kind_alignment k" "kind_alignment k \<le> 8"
  using kind_alignment_cases [of k] by auto

lemma pad_aligned: "(offset + pad offset (kind_alignment k)) mod kind_alignment k = 0"
  using round_up_bounds(3) [OF kind_alignment_pos(1), of k offset]
  by (simp add: pad_sum kind_alignment_pos)

lemma pad_bound: "pad offset (kind_alignment k) \<le> 7"
  using kind_alignment_pos [of k] by (auto simp: pad_eq)

text \<open>\<open>p\<close> lies before \<open>q\<close>: in earlier bytes, or in an earlier bit of the same byte of booleans.\<close>

definition before :: "packed_field \<Rightarrow> packed_field \<Rightarrow> bool" where
  "before p q = (pf_offset p + kind_size (pf_kind p) \<le> pf_offset q \<or>
     pf_kind p = KBool \<and> pf_kind q = KBool \<and> pf_offset p = pf_offset q \<and> pf_bit p < pf_bit q)"

lemma before_trans: "before p q \<Longrightarrow> before q r \<Longrightarrow> before p r"
  using kind_size_range(1) [of "pf_kind q"] by (auto simp: before_def)

lemma before_end: "before p q \<Longrightarrow> pf_offset p + kind_size (pf_kind p) \<le> pf_offset q + kind_size (pf_kind q)"
  using kind_size_range(1) [of "pf_kind q"] by (auto simp: before_def)

definition aligned :: "packed_field \<Rightarrow> bool" where
  "aligned p = (pf_offset p mod kind_alignment (pf_kind p) = 0 \<and> pf_bit p \<le> 7 \<and>
     (pf_bit p \<noteq> 0 \<longrightarrow> pf_kind p = KBool))"

lemma place_at_simps [simp]:
  "pf_field (place_at s ob) = pf_field s" "pf_offset (place_at s ob) = fst ob"
  "pf_bit (place_at s ob) = snd ob" "pf_size (place_at s ob) = pf_size s"
  by (simp_all add: place_at_def)

lemma field_offset_before: "before prev (place_at s (field_offset (pf_field s) prev))"
  if "pf_size prev = kind_size (pf_kind prev)"
  using that by (simp add: before_def field_offset_def Let_def)

lemma field_offset_aligned: "aligned (place_at s (field_offset (pf_field s) prev))"
  if "aligned prev"
  using that pad_aligned [of "pf_offset prev + pf_size prev" "f_kind (pf_field s)"]
  by (auto simp: aligned_def field_offset_def Let_def)

lemma field_offset_end:
  fixes s :: packed_field
  assumes "pf_size prev = kind_size (pf_kind prev)"
  shows "fst (field_offset (pf_field s) prev) \<le> pf_offset prev + kind_size (pf_kind prev) + 7"
  using pad_bound [of "pf_offset prev + pf_size prev" "pf_kind s"] assms
  by (auto simp: field_offset_def Let_def)

definition sized :: "packed_field \<Rightarrow> bool" where
  "sized p = (pf_size p = kind_size (pf_kind p))"

lemma sized_place_at [simp]: "sized (place_at s ob) = sized s"
  by (simp add: sized_def)

lemma insert_gap_layout:
  assumes "sorted_wrt before (prev # rest)" "\<forall>p \<in> set (prev # rest). aligned p \<and> sized p" "sized s"
  shows "sorted_wrt before (prev # insert_gap prev rest s) \<and>
    (\<forall>p \<in> set (insert_gap prev rest s). aligned p \<and> sized p)"
  using assms
proof (induction rest arbitrary: prev)
  case Nil
  then show ?case using field_offset_before [of prev s] field_offset_aligned [of prev s]
    by (simp add: sized_def)
next
  case (Cons nxt rest)
  let ?ob = "field_offset (pf_field s) prev" and ?s = "place_at s (field_offset (pf_field s) prev)"
  have b: "before prev ?s" and a: "aligned ?s"
    using field_offset_before [of prev s] field_offset_aligned [of prev s] Cons.prems by (simp_all add: sized_def)
  show ?case
  proof (cases "fst ?ob + pf_size s \<le> pf_offset nxt")
    case True
    then have n: "before ?s nxt" using Cons.prems(3) by (simp add: before_def sized_def)
    then have "\<forall>q \<in> set rest. before ?s q" using Cons.prems(1) before_trans by auto
    then show ?thesis using True n a b Cons.prems by (simp add: Let_def)
  next
    case False
    have IH: "sorted_wrt before (nxt # insert_gap nxt rest s)"
      "\<forall>p \<in> set (insert_gap nxt rest s). aligned p \<and> sized p"
      using Cons.IH [of nxt] Cons.prems by simp_all
    have "before prev nxt" using Cons.prems(1) by simp
    then have "\<forall>q \<in> set (insert_gap nxt rest s). before prev q"
      using IH(1) before_trans by auto
    then show ?thesis using False IH \<open>before prev nxt\<close> Cons.prems by (simp add: Let_def)
  qed
qed

definition end_of :: "packed_field \<Rightarrow> nat" where
  "end_of p = pf_offset p + kind_size (pf_kind p)"

lemma insert_gap_last:
  assumes "sized prev" "\<forall>p \<in> set rest. sized p"
  shows "insert_gap prev rest s \<noteq> [] \<and>
    (end_of (last (insert_gap prev rest s)) \<le> end_of (last (prev # rest)) + 23)"
  using assms
proof (induction rest arbitrary: prev)
  case Nil
  then show ?case using field_offset_end [of prev s] kind_size_range(2) [of "pf_kind s"]
    by (simp add: end_of_def sized_def)
next
  case (Cons nxt rest)
  then show ?case using Cons.IH [of nxt] by (auto simp: Let_def split: if_splits)
qed

text \<open>What placing keeps of a field.\<close>

definition content :: "packed_field \<Rightarrow> packed_field" where
  "content p = p\<lparr>pf_offset := 0, pf_bit := 0, pf_linked := None\<rparr>"

lemma content_place_at [simp]: "content (place_at s ob) = content s"
  by (simp add: content_def place_at_def)

lemma insert_gap_content: "mset (map content (insert_gap prev rest s)) = add_mset (content s) (mset (map content rest))"
  by (induction rest arbitrary: prev) (auto simp: Let_def)

definition layout_ok :: "packed_field list \<Rightarrow> bool" where
  "layout_ok dst = (dst \<noteq> [] \<and> sorted_wrt before dst \<and> (\<forall>p \<in> set dst. aligned p \<and> sized p) \<and>
     end_of (last dst) \<le> 23 * length dst)"

lemma length_insert_gap: "length (insert_gap prev rest s) = Suc (length rest)"
  by (induction rest arbitrary: prev) (auto simp: Let_def)

lemma place_layout:
  assumes "layout_ok dst" "sized s"
  shows "layout_ok (place dst s)" "mset (map content (place dst s)) = add_mset (content s) (mset (map content dst))"
proof -
  obtain d ds where d: "dst = d # ds" using assms(1) by (cases dst) (simp_all add: layout_ok_def)
  have ok: "sorted_wrt before (d # ds)" "\<forall>p \<in> set (d # ds). aligned p \<and> sized p"
    "end_of (last (d # ds)) \<le> 23 * length (d # ds)"
    using assms(1) unfolding layout_ok_def d by blast+
  have "end_of (last (insert_gap d ds s)) \<le> end_of (last (d # ds)) + 23" "insert_gap d ds s \<noteq> []"
    using insert_gap_last [of d ds s] ok(2) by simp_all
  then have "end_of (last (d # insert_gap d ds s)) \<le> 23 * length (d # insert_gap d ds s)"
    using ok(3) by (simp add: length_insert_gap)
  then show "layout_ok (place dst s)"
    using insert_gap_layout [OF ok(1,2) assms(2)] ok(2) unfolding layout_ok_def d by simp
  show "mset (map content (place dst s)) = add_mset (content s) (mset (map content dst))"
    unfolding d using insert_gap_content [of d ds s] by simp
qed

lemma foldl_place_layout:
  assumes "layout_ok dst" "\<forall>s \<in> set ss. sized s"
  shows "layout_ok (foldl place dst ss) \<and>
    mset (map content (foldl place dst ss)) = mset (map content dst) + mset (map content ss)"
  using assms
proof (induction ss arbitrary: dst)
  case (Cons s ss)
  then show ?case using place_layout [of dst s] Cons.IH [of "place dst s"] by simp
qed simp

lemma first_fit_layout:
  assumes "ss \<noteq> []" "\<forall>s \<in> set ss. sized s"
  shows "layout_ok (first_fit ss)" "mset (map content (first_fit ss)) = mset (map content ss)"
proof -
  obtain s ss' where s: "ss = s # ss'" using assms(1) by (cases ss) simp_all
  have "layout_ok [place_at s (0, 0)]"
    using assms(2) kind_size_range(2) [of "pf_kind s"] unfolding s by (simp add: layout_ok_def aligned_def end_of_def)
  then have l: "layout_ok (foldl place [place_at s (0, 0)] ss')"
    "mset (map content (foldl place [place_at s (0, 0)] ss')) = mset (map content [place_at s (0, 0)]) + mset (map content ss')"
    using foldl_place_layout [of "[place_at s (0, 0)]" ss'] assms(2) s by simp_all
  show "layout_ok (first_fit ss)" using l(1) unfolding s first_fit.simps .
  show "mset (map content (first_fit ss)) = mset (map content ss)"
    using l(2) unfolding s first_fit.simps by simp
qed

section \<open>Expansion and version propagation\<close>

text \<open>The expanded fields without the ordinal check.\<close>

fun expanded :: "nat \<Rightarrow> field list \<Rightarrow> packed_field list" where
  "expanded ord [] = []"
| "expanded ord (f # fs) = expand_field f ord @ expanded (Suc ord) fs"

lemma expand_eq:
  "expand ord fs = (if fs = [] \<or> ord + length fs < 2 ^ 32 then Some (expanded ord fs) else None)"
  by (induction fs arbitrary: ord) (auto simp: field_ordinal_hint_def)

lemma length_expanded: "length (expanded ord fs) \<le> 2 * length fs"
  by (induction fs arbitrary: ord) (auto simp: expand_field_def intro: le_SucI)

lemma expanded_ordinal: "p \<in> set (expanded ord fs) \<Longrightarrow> ord \<le> pf_ordinal p"
  by (induction fs arbitrary: ord) (fastforce simp: expand_field_def unplaced_def split: if_splits)+

lemma expanded_sorted: "sorted_wrt (<) (map order_key (expanded ord fs))"
proof (induction fs arbitrary: ord)
  case (Cons f fs)
  have "order_key p < order_key q"
    if "p \<in> set (expand_field f ord)" "q \<in> set (expanded (Suc ord) fs)" for p q
    using that expanded_ordinal [of q "Suc ord" fs]
    by (auto simp: expand_field_def unplaced_def order_key_def less_prod_def split: if_splits)
  moreover have "sorted_wrt (<) (map order_key (expand_field f ord))"
    by (simp add: expand_field_def unplaced_def order_key_def less_prod_def)
  ultimately show ?case using Cons by (auto simp: sorted_wrt_append)
qed simp

definition field_version :: "field \<Rightarrow> u32" where
  "field_version f = (case f_min_version f of None \<Rightarrow> 0 | Some v \<Rightarrow> v)"

abbreviation pf_version :: "packed_field \<Rightarrow> u32" where
  "pf_version p \<equiv> field_version (pf_field p)"

text \<open>Propagation accepts a list whose versions are sorted from \<open>nxt\<close> on, with references at 0.\<close>

definition versions_ok :: "u32 \<Rightarrow> field list \<Rightarrow> bool" where
  "versions_ok nxt fs = (sorted (nxt # map field_version fs) \<and>
     (\<forall>f \<in> set fs. field_version f \<noteq> 0 \<longrightarrow> \<not> is_nonnullable_reference f))"

lemma versions_ok_simps [simp]:
  "versions_ok nxt []"
  "versions_ok nxt (f # fs) = (nxt \<le> field_version f \<and>
     (field_version f \<noteq> 0 \<longrightarrow> \<not> is_nonnullable_reference f) \<and> versions_ok (field_version f) fs)"
  by (auto simp: versions_ok_def dest: order_trans)

lemma propagate_Ok:
  "versions_ok nxt (map pf_field ps) \<Longrightarrow>
   propagate nxt ps = Ok (map (\<lambda>p. p\<lparr>pf_min_version := pf_version p\<rparr>) ps)"
proof (induction ps arbitrary: nxt)
  case (Cons p ps)
  then show ?case
    by (cases "f_min_version (pf_field p)") (auto simp: field_version_def)
qed simp

lemma propagate_Err:
  "\<not> versions_ok nxt (map pf_field ps) \<Longrightarrow>
   \<exists>e \<in> {out_of_order, unversioned_after, versioned_reference}. propagate nxt ps = Err (EncodeErr e)"
proof (induction ps arbitrary: nxt)
  case (Cons p ps)
  show ?case
  proof (cases "nxt \<le> pf_version p \<and> (pf_version p \<noteq> 0 \<longrightarrow> \<not> is_nonnullable_reference (pf_field p))")
    case True
    then have "\<not> versions_ok (pf_version p) (map pf_field ps)" using Cons.prems by simp
    from Cons.IH [OF this] True show ?thesis
      by (cases "f_min_version (pf_field p)") (auto simp: field_version_def)
  next
    case False
    then show ?thesis
      by (cases "f_min_version (pf_field p)") (auto simp: field_version_def)
  qed
qed simp

lemma resolve_simps [simp]:
  "pf_field (resolve p) = pf_field p" "order_key (resolve p) = order_key p"
  "pf_size (resolve p) = kind_size (pf_kind p)"
  "pf_alignment (resolve p) = kind_alignment (pf_kind p)"
  by (simp_all add: resolve_def order_key_def)

lemma expanded_versions: "versions_ok nxt (map pf_field (expanded ord fs)) = versions_ok nxt fs"
proof (induction fs arbitrary: ord nxt)
  case (Cons f fs)
  have v: "field_version (f\<lparr>f_kind := k\<rparr>) = field_version f" for k by (simp add: field_version_def)
  have r: "\<not> is_nonnullable_reference (f\<lparr>f_kind := KBool\<rparr>)"
    "is_nonnullable_reference (f\<lparr>f_kind := unnullify (f_kind f)\<rparr>) = is_nonnullable_reference f"
    by (simp_all add: is_nonnullable_reference_def is_reference_def unnullify_def)
  show ?case by (auto simp: expand_field_def unplaced_def v r Cons.IH)
qed simp

section \<open>The packed struct\<close>

text \<open>The expanded, resolved and versioned fields, in ordinal order; none is placed yet.\<close>

definition source_fields :: "field list \<Rightarrow> packed_field list" where
  "source_fields fs = map (\<lambda>p. (resolve p)\<lparr>pf_min_version := pf_version p\<rparr>) (expanded 0 fs)"

lemma order_key_min_version [simp]: "order_key (p\<lparr>pf_min_version := v\<rparr>) = order_key p"
  by (simp add: order_key_def)

lemma source_keys: "sorted_wrt (<) (map order_key (source_fields fs))"
  using expanded_sorted [of 0 fs] by (simp add: source_fields_def comp_def)

lemma source_sorted: "sort_key order_key (map resolve (expanded 0 fs)) = map resolve (expanded 0 fs)"
proof -
  have "sorted (map order_key (map resolve (expanded 0 fs)))"
    using expanded_sorted [of 0 fs] strict_sorted_iff by (auto simp: comp_def)
  then show ?thesis by (simp add: sort_key_id_if_sorted)
qed

definition packed_of :: "field list \<Rightarrow> packed_field list" where
  "packed_of fs = link_values (first_fit (source_fields fs))"

definition struct_of :: "field list \<Rightarrow> packed_struct" where
  "struct_of fs = (let ordered = sort_key order_key (packed_of fs) in
     \<lparr>packed_fields = packed_of fs, packed_in_ordinal_order = ordered,
      ps_size = struct_size (packed_of fs), version_info = version_sizes 0 0 ordered\<rparr>)"

lemma pack_Ok:
  assumes "length fs < 2 ^ 32" "versions_ok 0 fs"
  shows "pack fs = Ok (struct_of fs)"
proof -
  have "versions_ok 0 (map pf_field (map resolve (expanded 0 fs)))"
    using assms(2) expanded_versions [of 0 0 fs] by (simp add: comp_def)
  from propagate_Ok [OF this]
  show ?thesis using assms(1) unfolding pack_def expand_eq
    by (simp add: source_sorted struct_of_def packed_of_def source_fields_def Let_def comp_def)
qed

lemma pack_Err:
  assumes "length fs < 2 ^ 32" "\<not> versions_ok 0 fs"
  shows "\<exists>e \<in> {out_of_order, unversioned_after, versioned_reference}. pack fs = Err (EncodeErr e)"
proof -
  have "\<not> versions_ok 0 (map pf_field (map resolve (expanded 0 fs)))"
    using assms(2) expanded_versions [of 0 0 fs] by (simp add: comp_def)
  from propagate_Err [OF this] obtain e where "e \<in> {out_of_order, unversioned_after, versioned_reference}"
    "propagate 0 (map resolve (expanded 0 fs)) = Err (EncodeErr e)" by blast
  moreover from this(2) have "pack fs = Err (EncodeErr e)"
    using assms(1) unfolding pack_def expand_eq by (simp add: source_sorted)
  ultimately show ?thesis by blast
qed

lemma pack_Panic: "2 ^ 32 \<le> length fs \<Longrightarrow> pack fs = Panic"
  unfolding pack_def expand_eq by auto

section \<open>Layout of the packed struct\<close>

lemma length_link_values [simp]: "length (link_values dst) = length dst"
  by (simp add: link_values_def)

lemma nth_link_values: "i < length dst \<Longrightarrow> link_values dst ! i = (dst ! i)\<lparr>pf_linked := link_of dst i\<rparr>"
  by (simp add: link_values_def)

lemma linked_simps [simp]:
  "before (p\<lparr>pf_linked := a\<rparr>) (q\<lparr>pf_linked := b\<rparr>) = before p q"
  "aligned (p\<lparr>pf_linked := a\<rparr>) = aligned p" "sized (p\<lparr>pf_linked := a\<rparr>) = sized p"
  "end_of (p\<lparr>pf_linked := a\<rparr>) = end_of p" "content (p\<lparr>pf_linked := a\<rparr>) = content p"
  by (simp_all add: before_def aligned_def sized_def end_of_def content_def)

lemma content_link_values: "map content (link_values dst) = map content dst"
  by (rule nth_equalityI) (simp_all add: nth_link_values)

lemma layout_link_values: "layout_ok dst \<Longrightarrow> layout_ok (link_values dst)"
  by (auto simp: layout_ok_def sorted_wrt_iff_nth_less nth_link_values last_conv_nth all_set_conv_all_nth
      simp flip: length_greater_0_conv)

lemma source_sized: "p \<in> set (source_fields fs) \<Longrightarrow> sized p"
  by (auto simp: source_fields_def sized_def)

lemma expanded_Nil [simp]: "expanded ord fs = [] \<longleftrightarrow> fs = []"
  by (cases fs) (simp_all add: expand_field_def)

lemma source_Nil [simp]: "source_fields fs = [] \<longleftrightarrow> fs = []"
  by (simp add: source_fields_def)

lemma packed_Nil [simp]: "packed_of [] = []"
  by (simp add: packed_of_def source_fields_def link_values_def)

lemma packed_layout: "fs \<noteq> [] \<Longrightarrow> layout_ok (packed_of fs)"
  unfolding packed_of_def using first_fit_layout(1) [of "source_fields fs"] source_sized
  by (simp add: layout_link_values)

lemma packed_content: "mset (map content (packed_of fs)) = mset (map content (source_fields fs))"
proof (cases "fs = []")
  case False
  then show ?thesis unfolding packed_of_def content_link_values
    using first_fit_layout(2) [of "source_fields fs"] source_sized by simp
qed (simp add: source_fields_def)

lemma length_packed: "length (packed_of fs) \<le> 2 * length fs"
  using arg_cong [OF packed_content [of fs], of size] length_expanded [of 0 fs]
  by (simp add: source_fields_def)

lemma sorted_before_last:
  "sorted_wrt before ps \<Longrightarrow> p \<in> set ps \<Longrightarrow> end_of p \<le> end_of (last ps)"
proof (induction ps)
  case (Cons q ps)
  show ?case
  proof (cases "ps = []")
    case False
    then have "before q (last ps)" using Cons.prems(1) by simp
    then have "end_of q \<le> end_of (last ps)" using before_end by (simp add: end_of_def)
    then show ?thesis using Cons False by auto
  qed (use Cons in simp)
qed simp

lemma packed_end_bound:
  assumes "p \<in> set (packed_of fs)" "length fs < 2 ^ 32"
  shows "end_of p \<le> 46 * length fs" "pf_offset p < usize_limit - 1"
proof -
  have "fs \<noteq> []" using assms(1) by auto
  then have l: "layout_ok (packed_of fs)" by (rule packed_layout)
  then have "end_of p \<le> end_of (last (packed_of fs))"
    using sorted_before_last assms(1) by (simp add: layout_ok_def)
  also have "\<dots> \<le> 23 * (2 * length fs)" using l length_packed [of fs] by (simp add: layout_ok_def)
  finally show e: "end_of p \<le> 46 * length fs" by simp
  have "pf_offset p \<le> end_of p" by (simp add: end_of_def)
  also note e
  also have "46 * length fs < usize_limit - 1" using assms(2) by (simp add: usize_limit_def)
  finally show "pf_offset p < usize_limit - 1" .
qed

lemma payload_eq:
  assumes "p \<in> set (packed_of fs)" "length fs < 2 ^ 32"
  shows "payload_size_up_to_field p = round_up (end_of p) 8"
proof -
  have "layout_ok (packed_of fs)" using assms(1) by (intro packed_layout) auto
  then have "sized p" using assms(1) by (simp add: layout_ok_def)
  then show ?thesis using packed_end_bound(2) [OF assms]
    by (simp add: payload_size_up_to_field_def pad_sum Let_def end_of_def sized_def)
qed

lemma round_up_mono: "0 < a \<Longrightarrow> m \<le> n \<Longrightarrow> round_up m a \<le> round_up n a"
  using round_up_least [of a "round_up n a" m] round_up_bounds [of a n] by linarith

section \<open>Ordinal order and version sizes\<close>

lemma content_simps [simp]:
  "order_key (content p) = order_key p" "pf_field (content p) = pf_field p"
  "pf_min_version (content p) = pf_min_version p" "pf_sub (content p) = pf_sub p"
  "pf_ordinal (content p) = pf_ordinal p"
  by (simp_all add: content_def order_key_def)

definition ordered_of :: "field list \<Rightarrow> packed_field list" where
  "ordered_of fs = sort_key order_key (packed_of fs)"

lemma mset_ordered [simp]: "mset (ordered_of fs) = mset (packed_of fs)"
  by (simp add: ordered_of_def)

lemma set_ordered [simp]: "set (ordered_of fs) = set (packed_of fs)"
  by (simp add: ordered_of_def)

text \<open>Sorting puts the packed fields back in the order of the source.\<close>

lemma ordered_content: "map content (ordered_of fs) = map content (source_fields fs)"
proof (rule map_sorted_distinct_set_unique [where f = order_key])
  have keys: "map order_key (map content (source_fields fs)) = map order_key (source_fields fs)"
    by (simp add: comp_def)
  have src: "sorted (map order_key (source_fields fs))" "distinct (map order_key (source_fields fs))"
    using source_keys [of fs] by (simp_all add: strict_sorted_iff)
  have m: "mset (map content (ordered_of fs)) = mset (map content (source_fields fs))"
    using packed_content [of fs] by simp
  then have "mset (map order_key (map content (ordered_of fs))) = mset (map order_key (map content (source_fields fs)))"
    by (metis mset_map)
  then show "distinct (map order_key (map content (ordered_of fs)))"
    using src(2) keys by (metis mset_eq_imp_distinct_iff)
  show s: "set (map content (ordered_of fs)) = set (map content (source_fields fs))"
    using m by (metis mset_eq_setD)
  have d: "distinct (map order_key (map content (source_fields fs)))" using src(2) unfolding keys .
  show "inj_on order_key (set (map content (ordered_of fs)) \<union> set (map content (source_fields fs)))"
    using d unfolding s by (simp only: Un_absorb distinct_map)
  show "sorted (map order_key (map content (ordered_of fs)))"
    by (simp add: ordered_of_def comp_def)
  show "sorted (map order_key (map content (source_fields fs)))" using src(1) unfolding keys .
  show "distinct (map order_key (map content (source_fields fs)))" by (rule d)
qed

lemma ordered_versions:
  assumes "versions_ok 0 fs"
  shows "sorted (map pf_min_version (ordered_of fs))"
proof -
  have "map pf_min_version (ordered_of fs) = map pf_min_version (map content (ordered_of fs))"
    by (simp add: comp_def)
  also have "\<dots> = map field_version (map pf_field (expanded 0 fs))"
    unfolding ordered_content by (simp add: source_fields_def comp_def)
  finally show ?thesis using assms expanded_versions [of 0 0 fs] by (simp add: versions_ok_def)
qed

text \<open>The largest payload among the fields a version knows, from a starting value on.\<close>

definition need :: "nat \<Rightarrow> u32 \<Rightarrow> packed_field list \<Rightarrow> nat" where
  "need n v ps = foldr max (map payload_size_up_to_field (filter (\<lambda>p. pf_min_version p \<le> v) ps)) n"

lemma need_simps [simp]:
  "need n v [] = n"
  "need n v (p # ps) = (if pf_min_version p \<le> v then max (payload_size_up_to_field p) (need n v ps) else need n v ps)"
  by (simp_all add: need_def)

lemma need_max: "need (max n m) v ps = max m (need n v ps)"
  by (induction ps) auto

lemma need_none: "\<forall>p \<in> set ps. \<not> pf_min_version p \<le> v \<Longrightarrow> need n v ps = n"
  by (induction ps) auto

lemma need_ge: "n \<le> need n v ps"
  by (induction ps) auto

lemma version_sizes_max:
  assumes "sorted (v0 # map pf_min_version ps)" "v0 \<le> v"
  shows "let ns = map snd (filter (\<lambda>(w, _). w \<le> v) (version_sizes v0 n ps)) in
    ns \<noteq> [] \<and> Max (set ns) = need n v ps + STRUCT_HEADER_SIZE"
  using assms
proof (induction ps arbitrary: v0 n)
  case (Cons p ps)
  let ?n = "max n (payload_size_up_to_field p)"
  have srt: "sorted (pf_min_version p # map pf_min_version ps)" "v0 \<le> pf_min_version p"
    using Cons.prems(1) by simp_all
  show ?case
  proof (cases "pf_min_version p = v0")
    case True
    then show ?thesis using Cons.IH [of v0 ?n] Cons.prems by (simp add: need_max)
  next
    case new: False
    show ?thesis
    proof (cases "pf_min_version p \<le> v")
      case True
      define ns where "ns = map snd (filter (\<lambda>(w, _). w \<le> v) (version_sizes (pf_min_version p) ?n ps))"
      have "ns \<noteq> []" "Max (set ns) = need ?n v ps + STRUCT_HEADER_SIZE"
        using Cons.IH [OF srt(1) True, of ?n] unfolding ns_def Let_def by blast+
      then have "Max (set ((n + STRUCT_HEADER_SIZE) # ns)) = need n v (p # ps) + STRUCT_HEADER_SIZE"
        using True need_ge [of n v ps] by (simp add: need_max)
      moreover have "map snd (filter (\<lambda>(w, _). w \<le> v) (version_sizes v0 n (p # ps))) = (n + STRUCT_HEADER_SIZE) # ns"
        using new Cons.prems(2) by (simp add: ns_def Let_def)
      ultimately show ?thesis unfolding Let_def by (metis list.distinct(1))
    next
      case False
      then have none: "\<forall>q \<in> set (p # ps). \<not> pf_min_version q \<le> v" using srt(1) by auto
      have "\<forall>(w, m) \<in> set (version_sizes (pf_min_version p) k qs). \<not> w \<le> v"
        if "sorted (pf_min_version p # map pf_min_version qs)" for k qs
        using that False
      proof (induction qs arbitrary: k p)
        case (Cons q qs)
        have "pf_min_version p \<le> pf_min_version q" "\<not> pf_min_version q \<le> v"
          using Cons.prems by (auto dest: order_trans)
        then show ?case using Cons.IH [of q] Cons.IH [of p] Cons.prems by (auto simp: Let_def)
      qed simp
      then have "filter (\<lambda>(w, _). w \<le> v) (version_sizes (pf_min_version p) k ps) = []" for k
        using srt(1) by (fastforce simp: filter_empty_conv)
      then show ?thesis using new Cons.prems(2) none need_none [OF none, of n] by (simp add: Let_def)
    qed
  qed
qed simp

lemma num_bytes_eq:
  assumes "versions_ok 0 fs"
  shows "num_bytes_for_version (struct_of fs) v = Some (need 0 v (ordered_of fs) + STRUCT_HEADER_SIZE)"
  using version_sizes_max [of 0 "ordered_of fs" v 0] ordered_versions [OF assms]
  by (simp add: num_bytes_for_version_def struct_of_def ordered_of_def Let_def)

lemma need_bound: "\<forall>p \<in> set ps. payload_size_up_to_field p \<le> b \<Longrightarrow> n \<le> b \<Longrightarrow> need n v ps \<le> b"
  by (induction ps) auto

lemma need_member: "p \<in> set ps \<Longrightarrow> pf_min_version p \<le> v \<Longrightarrow> payload_size_up_to_field p \<le> need n v ps"
  by (induction ps) auto

lemma need_in: "need n v ps = n \<or> (\<exists>p \<in> set ps. pf_min_version p \<le> v \<and> need n v ps = payload_size_up_to_field p)"
  by (induction ps) (auto simp: max_def)

lemma need_mono: "v \<le> w \<Longrightarrow> need n v ps \<le> need n w ps"
  by (induction ps) (auto simp: le_max_iff_disj dest: order_trans)

lemma struct_size_eq:
  assumes "length fs < 2 ^ 32"
  shows "struct_size (packed_of fs) = (if fs = [] then 0 else round_up (end_of (last (packed_of fs))) 8) + 8"
proof (cases "fs = []")
  case False
  then have "packed_of fs \<noteq> []" using packed_layout by (auto simp: layout_ok_def)
  then show ?thesis using False payload_eq [of "last (packed_of fs)" fs] assms
    by (simp add: struct_size_def STRUCT_HEADER_SIZE_def)
qed (simp add: struct_size_def STRUCT_HEADER_SIZE_def)

lemma payload_le_size:
  assumes "p \<in> set (packed_of fs)" "length fs < 2 ^ 32"
  shows "payload_size_up_to_field p + 8 \<le> struct_size (packed_of fs)" "end_of p \<le> payload_size_up_to_field p"
proof -
  have ne: "fs \<noteq> []" using assms(1) by auto
  then have "sorted_wrt before (packed_of fs)" using packed_layout by (simp add: layout_ok_def)
  then have "end_of p \<le> end_of (last (packed_of fs))" using assms(1) by (rule sorted_before_last)
  then show "payload_size_up_to_field p + 8 \<le> struct_size (packed_of fs)"
    using ne payload_eq [OF assms] struct_size_eq [OF assms(2)] by (simp add: round_up_mono)
  show "end_of p \<le> payload_size_up_to_field p"
    using payload_eq [OF assms] round_up_bounds(1) [of 8 "end_of p"] by simp
qed

lemma pack_OkD:
  assumes "pack fs = Ok ps"
  shows "length fs < 2 ^ 32" "versions_ok 0 fs" "packed_fields ps = packed_of fs"
    "packed_in_ordinal_order ps = ordered_of fs" "ps_size ps = struct_size (packed_of fs)" "ps = struct_of fs"
proof -
  show len: "length fs < 2 ^ 32" using pack_Panic [of fs] assms by (auto simp: linorder_not_less [symmetric])
  show v: "versions_ok 0 fs" using pack_Err [OF len] assms by auto
  show "ps = struct_of fs" using pack_Ok [OF len v] assms by simp
  then show "packed_fields ps = packed_of fs" "packed_in_ordinal_order ps = ordered_of fs"
    "ps_size ps = struct_size (packed_of fs)"
    by (simp_all add: struct_of_def ordered_of_def Let_def)
qed

lemma packed_source:
  assumes "p \<in> set (packed_of fs)"
  obtains q where "q \<in> set (expanded 0 fs)" "content p = content ((resolve q)\<lparr>pf_min_version := pf_version q\<rparr>)"
proof -
  have "content p \<in> set (map content (packed_of fs))" using assms by simp
  then have "content p \<in> set (map content (source_fields fs))"
    using packed_content [of fs] by (metis mset_eq_setD)
  with that show thesis by (auto simp: source_fields_def)
qed

lemma packed_sizes:
  assumes "p \<in> set (packed_of fs)"
  shows "pf_size p = kind_size (pf_kind p)" "pf_alignment p = kind_alignment (pf_kind p)"
    "pf_min_version p = pf_version p"
proof -
  obtain q where q: "content p = content ((resolve q)\<lparr>pf_min_version := pf_version q\<rparr>)"
    using packed_source [OF assms] by blast
  have c: "pf_size (content r) = pf_size r" "pf_alignment (content r) = pf_alignment r"
    "pf_field (content r) = pf_field r" "pf_min_version (content r) = pf_min_version r" for r
    by (simp_all add: content_def)
  have "pf_size p = pf_size (content p)" "pf_alignment p = pf_alignment (content p)"
    "pf_field p = pf_field (content p)" "pf_min_version p = pf_min_version (content p)" by (simp_all add: c)
  then show "pf_size p = kind_size (pf_kind p)" "pf_alignment p = kind_alignment (pf_kind p)"
    "pf_min_version p = pf_version p"
    unfolding q by (simp_all add: c)
qed

section \<open>Properties\<close>

text \<open>A field for the witnesses.\<close>

definition demo_field :: "kind \<Rightarrow> u32 option \<Rightarrow> bool \<Rightarrow> field" where
  "demo_field k v nullable = \<lparr>f_index = 0, f_ordinal = 7, f_min_version = v, f_kind = k,
     f_nullable_value_kind = nullable, f_nullable_reference = False, f_mojom_name = ''f''\<rparr>"

abbreviation demo_fields :: "field list" where
  "demo_fields \<equiv> [demo_field KU8 None False, demo_field KU64 None True, demo_field KBool (Some 2) False]"

lemma demo_pack: "pack demo_fields = Ok (struct_of demo_fields)"
  by (rule pack_Ok) (simp_all add: demo_field_def field_version_def is_nonnullable_reference_def is_reference_def)

text \<open>What the layout says of two packed fields and of each one.\<close>

lemma packed_pair:
  assumes "i < j" "j < length (packed_of fs)"
  shows "let p = packed_of fs ! i; q = packed_of fs ! j in
    pf_offset p + pf_size p \<le> pf_offset q \<or>
    pf_kind p = KBool \<and> pf_kind q = KBool \<and> pf_offset p = pf_offset q \<and> pf_bit p < pf_bit q"
proof -
  have "packed_of fs \<noteq> []" using assms by auto
  then have "sorted_wrt before (packed_of fs)"
    using packed_layout [of fs] by (cases "fs = []") (auto simp: layout_ok_def)
  then have "before (packed_of fs ! i) (packed_of fs ! j)"
    using assms by (auto simp: sorted_wrt_iff_nth_less)
  moreover have "packed_of fs ! i \<in> set (packed_of fs)" using assms by simp
  ultimately show ?thesis using packed_sizes(1) by (simp add: before_def Let_def)
qed

lemma packed_each:
  assumes p: "p \<in> set (packed_of fs)" and len: "length fs < 2 ^ 32"
  shows "pf_size p = kind_size (pf_kind p) \<and> pf_offset p mod kind_alignment (pf_kind p) = 0 \<and>
    pf_bit p \<le> 7 \<and> (pf_bit p \<noteq> 0 \<longrightarrow> pf_kind p = KBool) \<and>
    pf_offset p + pf_size p + STRUCT_HEADER_SIZE \<le> struct_size (packed_of fs)"
proof -
  have "packed_of fs \<noteq> []" using p by auto
  then have "aligned p"
    using packed_layout [of fs] p by (cases "fs = []") (auto simp: layout_ok_def)
  then show ?thesis using payload_le_size [OF p len] packed_sizes(1) [OF p]
    by (simp add: aligned_def end_of_def STRUCT_HEADER_SIZE_def)
qed

text \<open>C23: A layout is sound: the packed fields are listed by position, two of them never share a byte
  unless they are booleans in different bits of it, every field is aligned and has its kind's size,
  bits stay within the byte and belong to booleans only, every field ends within the struct, whose
  size counts the header and is a multiple of 8.\<close>

theorem pack_layout_sound:
  assumes ok: "pack fs = Ok ps"
  shows "(\<forall>i j. i < j \<and> j < length (packed_fields ps) \<longrightarrow>
      (let p = packed_fields ps ! i; q = packed_fields ps ! j in
        pf_offset p + pf_size p \<le> pf_offset q \<or>
        f_kind (pf_field p) = KBool \<and> f_kind (pf_field q) = KBool \<and>
        pf_offset p = pf_offset q \<and> pf_bit p < pf_bit q)) \<and>
    (\<forall>p \<in> set (packed_fields ps).
      pf_size p = kind_size (f_kind (pf_field p)) \<and>
      pf_offset p mod kind_alignment (f_kind (pf_field p)) = 0 \<and>
      pf_bit p \<le> 7 \<and> (pf_bit p \<noteq> 0 \<longrightarrow> f_kind (pf_field p) = KBool) \<and>
      pf_offset p + pf_size p + STRUCT_HEADER_SIZE \<le> ps_size ps) \<and>
    ps_size ps mod 8 = 0"
proof -
  note o = pack_OkD [OF ok]
  have "struct_size (packed_of fs) mod 8 = 0"
    using struct_size_eq [OF o(1)] round_up_bounds(3) [of 8 "end_of (last (packed_of fs))"] by auto
  then show ?thesis unfolding o(3,5) using packed_pair packed_each [OF _ o(1)] by blast
qed

theorem pack_layout_sound_witness:
  "ps_size (struct_of demo_fields) mod 8 = 0"
  using pack_layout_sound [OF demo_pack] by blast

text \<open>Packing loses and invents nothing: in ordinal order the packed fields are the declared
  fields, each nullable value replaced by a boolean flag and the value, with consecutive ordinals,
  and each carries its own minimum version; the two lists of the struct hold the same fields.\<close>

theorem pack_keeps_fields:
  assumes ok: "pack fs = Ok ps"
  shows "map (\<lambda>p. (pf_field p, pf_ordinal p, pf_sub p)) (packed_in_ordinal_order ps) =
      concat (map (\<lambda>i. let f = fs ! i in
        if f_nullable_value_kind f then [(f\<lparr>f_kind := KBool\<rparr>, i, Some 0), (f, i, Some 1)]
        else [(f, i, None)]) [0..<length fs]) \<and>
    mset (packed_in_ordinal_order ps) = mset (packed_fields ps) \<and>
    (\<forall>p \<in> set (packed_fields ps). pf_min_version p =
       (case f_min_version (pf_field p) of None \<Rightarrow> 0 | Some v \<Rightarrow> v))"
proof -
  note o = pack_OkD [OF ok]
  let ?k = "\<lambda>p. (pf_field p, pf_ordinal p, pf_sub p)"
  have e: "map ?k (expanded n fs) = concat (map (\<lambda>i. let f = fs ! (i - n) in
        if f_nullable_value_kind f then [(f\<lparr>f_kind := KBool\<rparr>, i, Some 0), (f, i, Some 1)]
        else [(f, i, None)]) [n..<n + length fs])" for n
  proof (induction fs arbitrary: n)
    case (Cons f fs)
    have i: "[n..<n + length (f # fs)] = n # [Suc n..<Suc n + length fs]" by (subst upt_conv_Cons) simp_all
    have "map ?k (expanded (Suc n) fs) = concat (map (\<lambda>i. let f = (f # fs) ! (i - n) in
        if f_nullable_value_kind f then [(f\<lparr>f_kind := KBool\<rparr>, i, Some 0), (f, i, Some 1)]
        else [(f, i, None)]) [Suc n..<Suc n + length fs])"
      unfolding Cons.IH by (intro arg_cong [where f = concat] map_cong) (auto simp: nth_Cons' Let_def)
    then show ?case unfolding i by (simp add: expand_field_def unplaced_def unnullify_def)
  qed simp
  have "map ?k (ordered_of fs) = map ?k (map content (ordered_of fs))" by (simp add: comp_def)
  also have "\<dots> = map ?k (expanded 0 fs)"
    unfolding ordered_content by (simp add: source_fields_def comp_def resolve_def)
  finally show ?thesis unfolding o(3,4) using e [of 0] packed_sizes(3) by (simp add: field_version_def)
qed

theorem pack_keeps_fields_witness:
  "map pf_sub (packed_in_ordinal_order (struct_of demo_fields)) = [None, Some 0, Some 1, None]"
proof -
  have "map (\<lambda>p. (pf_field p, pf_ordinal p, pf_sub p)) (packed_in_ordinal_order (struct_of demo_fields)) =
      concat (map (\<lambda>i. let f = demo_fields ! i in
        if f_nullable_value_kind f then [(f\<lparr>f_kind := KBool\<rparr>, i, Some 0), (f, i, Some 1)]
        else [(f, i, None)]) [0..<length demo_fields])"
    using pack_keeps_fields [OF demo_pack] by blast
  then have "map (snd \<circ> snd) (map (\<lambda>p. (pf_field p, pf_ordinal p, pf_sub p)) (packed_in_ordinal_order (struct_of demo_fields))) =
    [None, Some 0, Some 1, None]"
    by (simp add: demo_field_def upt_conv_Cons)
  then show ?thesis by (simp add: comp_def)
qed

text \<open>Which structs are refused: more than \<open>2^32 - 1\<close> fields overflow the ordinal counter; otherwise
  packing succeeds exactly when the minimum versions, counting an absent one as 0, never decrease and
  no non-nullable reference has a version other than 0; the error is always one of the three
  Unsupported reports.\<close>

theorem pack_outcome:
  "(pack fs = Panic) = (2 ^ 32 \<le> length fs) \<and>
   ((\<exists>ps. pack fs = Ok ps) = (length fs < 2 ^ 32 \<and> sorted (map field_version fs) \<and>
      list_all (\<lambda>f. \<not> (field_version f \<noteq> 0 \<and> is_nonnullable_reference f)) fs)) \<and>
   (\<exists>ps. pack fs = Ok ps \<or> pack fs = Panic \<or> pack fs = Err (EncodeErr out_of_order) \<or>
      pack fs = Err (EncodeErr unversioned_after) \<or> pack fs = Err (EncodeErr versioned_reference))"
proof -
  have v: "versions_ok 0 fs = (sorted (map field_version fs) \<and>
      list_all (\<lambda>f. \<not> (field_version f \<noteq> 0 \<and> is_nonnullable_reference f)) fs)"
    by (auto simp: versions_ok_def list_all_iff)
  show ?thesis
  proof (cases "length fs < 2 ^ 32")
    case True
    then show ?thesis
      using pack_Ok [OF True] pack_Err [OF True] v by (cases "versions_ok 0 fs") auto
  next
    case False
    then show ?thesis using pack_Panic [of fs] by simp
  qed
qed

text \<open>Bounds: a struct of \<open>n\<close> declared fields takes at most \<open>46 n + 15\<close> bytes, so no offset sum
  comes near the limit of \<open>usize\<close>, and at least the header and one bit per field; an empty struct is
  just its header.\<close>

theorem pack_size_bound:
  assumes ok: "pack fs = Ok ps"
  shows "ps_size ps \<le> 46 * length fs + 15 \<and> ps_size ps < usize_limit \<and>
    STRUCT_HEADER_SIZE \<le> ps_size ps \<and> (fs = [] \<longrightarrow> ps_size ps = STRUCT_HEADER_SIZE) \<and>
    (\<forall>p \<in> set (packed_fields ps). STRUCT_HEADER_SIZE + pf_offset p + pf_size p \<le> 46 * length fs + 8)"
proof -
  note o = pack_OkD [OF ok]
  have m: "packed_of fs \<noteq> [] \<Longrightarrow> last (packed_of fs) \<in> set (packed_of fs)" by simp
  have "fs \<noteq> [] \<Longrightarrow> packed_of fs \<noteq> []" using packed_layout by (auto simp: layout_ok_def)
  then have "fs \<noteq> [] \<Longrightarrow> end_of (last (packed_of fs)) \<le> 46 * length fs"
    using packed_end_bound(1) [OF m o(1)] by blast
  then have b: "struct_size (packed_of fs) \<le> 46 * length fs + 15"
    using struct_size_eq [OF o(1)] round_up_bounds(2) [of 8 "end_of (last (packed_of fs))"]
    by (cases "fs = []") simp_all
  have "46 * length fs + 15 < usize_limit" using o(1) by (simp add: usize_limit_def)
  moreover have "STRUCT_HEADER_SIZE + pf_offset p + pf_size p \<le> 46 * length fs + 8"
    if "p \<in> set (packed_of fs)" for p
    using packed_end_bound(1) [OF that o(1)] packed_sizes(1) [OF that] by (simp add: end_of_def STRUCT_HEADER_SIZE_def)
  ultimately show ?thesis unfolding o(3,5) using b struct_size_eq [OF o(1)]
    by (auto simp: STRUCT_HEADER_SIZE_def)
qed

theorem pack_size_bound_witness: "ps_size (struct_of demo_fields) \<le> 153"
  using pack_size_bound [OF demo_pack] by simp

text \<open>A version with every field has the size of the whole struct.\<close>

lemma version_size_le:
  assumes "length fs < 2 ^ 32"
  shows "need 0 v (ordered_of fs) + STRUCT_HEADER_SIZE \<le> struct_size (packed_of fs)"
proof -
  have hdr: "STRUCT_HEADER_SIZE \<le> struct_size (packed_of fs)"
    using struct_size_eq [OF assms] by (simp add: STRUCT_HEADER_SIZE_def)
  have "payload_size_up_to_field p + STRUCT_HEADER_SIZE \<le> struct_size (packed_of fs)" if "p \<in> set (packed_of fs)" for p
    using payload_le_size [OF that assms] by (simp add: STRUCT_HEADER_SIZE_def)
  then have "\<forall>p \<in> set (ordered_of fs). payload_size_up_to_field p \<le> struct_size (packed_of fs) - STRUCT_HEADER_SIZE"
    by fastforce
  from need_bound [OF this, of 0 v] show ?thesis using hdr by simp
qed

lemma full_version_size:
  assumes "length fs < 2 ^ 32" and all: "\<forall>p \<in> set (packed_of fs). pf_min_version p \<le> v"
  shows "need 0 v (ordered_of fs) + STRUCT_HEADER_SIZE = struct_size (packed_of fs)"
proof (cases "packed_of fs = []")
  case True
  then have "ordered_of fs = []" by (simp add: ordered_of_def)
  with True show ?thesis by (simp add: struct_size_def)
next
  case False
  then have "last (packed_of fs) \<in> set (packed_of fs)" by simp
  then have "payload_size_up_to_field (last (packed_of fs)) \<le> need 0 v (ordered_of fs)"
    using need_member [of "last (packed_of fs)" "ordered_of fs" v 0] all by simp
  then show ?thesis using False version_size_le [OF assms(1), of v] by (simp add: struct_size_def)
qed

text \<open>Version sizes: every version has a size; it covers exactly the fields whose minimum version
  it has reached (their end rounded up to 8, plus the header), later versions never get smaller, and
  the version of the last field gets the size of the whole struct.\<close>

theorem pack_version_sizes:
  assumes ok: "pack fs = Ok ps"
  shows "\<exists>n. num_bytes_for_version ps v = Some n \<and> n \<le> ps_size ps \<and>
    (\<forall>p \<in> set (packed_fields ps). pf_min_version p \<le> v \<longrightarrow> STRUCT_HEADER_SIZE + pf_offset p + pf_size p \<le> n) \<and>
    (n = STRUCT_HEADER_SIZE \<or> (\<exists>p \<in> set (packed_fields ps). pf_min_version p \<le> v \<and>
       n = STRUCT_HEADER_SIZE + round_up (pf_offset p + pf_size p) 8)) \<and>
    (\<forall>w n'. v \<le> w \<longrightarrow> num_bytes_for_version ps w = Some n' \<longrightarrow> n \<le> n') \<and>
    ((\<forall>p \<in> set (packed_fields ps). pf_min_version p \<le> v) \<longrightarrow> n = ps_size ps)"
proof -
  note o = pack_OkD [OF ok]
  let ?n = "need 0 v (ordered_of fs) + STRUCT_HEADER_SIZE"
  have num: "num_bytes_for_version ps w = Some (need 0 w (ordered_of fs) + STRUCT_HEADER_SIZE)" for w
    unfolding o(6) using num_bytes_eq [OF o(2)] .
  have le: "pf_offset p + pf_size p \<le> payload_size_up_to_field p"
    "payload_size_up_to_field p = round_up (pf_offset p + pf_size p) 8" if "p \<in> set (packed_of fs)" for p
    using payload_le_size [OF that o(1)] packed_sizes(1) [OF that] payload_eq [OF that o(1)]
    by (simp_all add: STRUCT_HEADER_SIZE_def end_of_def)
  note 1 = version_size_le [OF o(1), of v]
  have 2: "STRUCT_HEADER_SIZE + pf_offset p + pf_size p \<le> ?n"
    if "p \<in> set (packed_of fs)" "pf_min_version p \<le> v" for p
    using need_member [of p "ordered_of fs" v 0] le(1) [OF that(1)] that by simp
  have 3: "?n = STRUCT_HEADER_SIZE \<or> (\<exists>p \<in> set (packed_of fs). pf_min_version p \<le> v \<and>
       ?n = STRUCT_HEADER_SIZE + round_up (pf_offset p + pf_size p) 8)"
    using need_in [of 0 v "ordered_of fs"] le(2) by fastforce
  have 4: "?n \<le> n'" if "v \<le> w" "num_bytes_for_version ps w = Some n'" for w n'
    using need_mono [OF that(1), of 0 "ordered_of fs"] that(2) num by simp
  note 5 = full_version_size [OF o(1), of v]
  show ?thesis unfolding o(3,5) using num 1 2 3 4 5 by (intro exI [of _ ?n]) blast
qed

theorem pack_version_sizes_witness:
  "\<exists>n. num_bytes_for_version (struct_of demo_fields) 5 = Some n \<and> n \<le> ps_size (struct_of demo_fields)"
  using pack_version_sizes [OF demo_pack, of 5] by blast

section \<open>Flags, values and ordinals\<close>

lemma expanded_flag:
  assumes "p \<in> set (expanded ord fs)" "pf_sub p = Some 0"
  shows "f_kind (pf_field p) = KBool \<and> (\<exists>q \<in> set (expanded ord fs). pf_sub q = Some 1 \<and> pf_ordinal q = pf_ordinal p)"
  using assms
proof (induction fs arbitrary: ord)
  case (Cons f fs)
  then show ?case by (fastforce simp: expand_field_def unplaced_def split: if_splits)
qed simp

lemma key_unique:
  assumes "i < length (packed_of fs)" "j < length (packed_of fs)"
    "order_key (packed_of fs ! i) = order_key (packed_of fs ! j)"
  shows "i = j"
proof -
  have "mset (map order_key (packed_of fs)) = mset (map order_key (source_fields fs))"
  proof -
    have "mset (map order_key (map content (packed_of fs))) = mset (map order_key (map content (source_fields fs)))"
      using packed_content [of fs] by (metis mset_map)
    then show ?thesis by (simp add: comp_def)
  qed
  then have "distinct (map order_key (packed_of fs))"
    using source_keys [of fs] by (metis mset_eq_imp_distinct_iff strict_sorted_iff)
  then show ?thesis using assms by (simp add: distinct_conv_nth) blast
qed

lemma nth_packed:
  assumes "i < length (packed_of fs)"
  shows "pf_linked (packed_of fs ! i) = link_of (packed_of fs) i"
proof -
  let ?d = "first_fit (source_fields fs)"
  have n: "k < length ?d \<Longrightarrow> packed_of fs ! k = (?d ! k)\<lparr>pf_linked := link_of ?d k\<rparr>" for k
    by (simp add: packed_of_def nth_link_values)
  have len: "length (packed_of fs) = length ?d" by (simp add: packed_of_def)
  have "link_of (packed_of fs) i = link_of ?d i"
    using assms n unfolding link_of_def len by (auto intro!: find_cong)
  then show ?thesis using n [of i] assms len by simp
qed

text \<open>Nullable values: every flag in the packed struct is a boolean, and is linked to the one value
  field of the same ordinal; no other field is linked.\<close>

theorem pack_links_flags:
  assumes ok: "pack fs = Ok ps" and i: "i < length (packed_fields ps)"
  defines "p \<equiv> packed_fields ps ! i"
  shows "if pf_sub p = Some 0
     then f_kind (pf_field p) = KBool \<and> is_primary_nullable_value p \<and>
       (\<exists>j < length (packed_fields ps). pf_linked p = Some j \<and> pf_sub (packed_fields ps ! j) = Some 1 \<and>
          pf_ordinal (packed_fields ps ! j) = pf_ordinal p)
     else pf_linked p = None"
proof -
  note o = pack_OkD [OF ok]
  let ?d = "packed_of fs"
  have i: "i < length ?d" and p: "p = ?d ! i" using i unfolding p_def o(3) by simp_all
  have l: "pf_linked p = link_of ?d i" using nth_packed [OF i] p by simp
  show ?thesis
  proof (cases "pf_sub p = Some 0")
    case True
    have "p \<in> set ?d" using i p by simp
    then obtain q where q: "q \<in> set (expanded 0 fs)" "content p = content ((resolve q)\<lparr>pf_min_version := pf_version q\<rparr>)"
      by (rule packed_source)
    have same: "pf_sub p = pf_sub q" "pf_ordinal p = pf_ordinal q" "pf_field p = pf_field q"
      using arg_cong [OF q(2), of pf_sub] arg_cong [OF q(2), of pf_ordinal] arg_cong [OF q(2), of pf_field]
      by (simp_all add: resolve_def)
    obtain v where v: "v \<in> set (expanded 0 fs)" "pf_sub v = Some 1" "pf_ordinal v = pf_ordinal p" and k: "pf_kind p = KBool"
      using expanded_flag [OF q(1)] True same by auto
    have "content ((resolve v)\<lparr>pf_min_version := pf_version v\<rparr>) \<in> set (map content (source_fields fs))"
      using v(1) by (auto simp: source_fields_def)
    then have "content ((resolve v)\<lparr>pf_min_version := pf_version v\<rparr>) \<in> set (map content ?d)"
      using packed_content [of fs] by (metis mset_eq_setD)
    then obtain w where w: "w \<in> set ?d" "content w = content ((resolve v)\<lparr>pf_min_version := pf_version v\<rparr>)" by auto
    have "pf_sub w = Some 1" "pf_ordinal w = pf_ordinal p"
      using arg_cong [OF w(2), of pf_sub] arg_cong [OF w(2), of pf_ordinal] v by (simp_all add: resolve_def)
    then obtain j where j: "j < length ?d" "pf_sub (?d ! j) = Some 1" "pf_ordinal (?d ! j) = pf_ordinal p"
      using w(1) by (auto simp: in_set_conv_nth)
    let ?P = "\<lambda>j. j \<noteq> i \<and> pf_sub (?d ! j) = Some 1 \<and> pf_ordinal (?d ! j) = pf_ordinal (?d ! i)"
    have "?P j" using j True p by auto
    then have "List.find ?P [0..<length ?d] \<noteq> None" using j(1) by (auto simp: find_None_iff)
    then obtain j' where j': "List.find ?P [0..<length ?d] = Some j'" by blast
    then have "j' < length ?d" "?P j'" by (auto simp: find_Some_iff)
    then show ?thesis using True l j' k p unfolding o(3) link_of_def is_primary_nullable_value_def by auto
  next
    case False
    then show ?thesis using l p by (simp add: link_of_def)
  qed
qed

theorem pack_links_flags_witness:
  "\<exists>i j. i < length (packed_fields (struct_of demo_fields)) \<and>
     pf_linked (packed_fields (struct_of demo_fields) ! i) = Some j"
proof -
  let ?d = "packed_of demo_fields"
  have "Some 0 \<in> set (map pf_sub (source_fields demo_fields))"
    by (simp add: source_fields_def resolve_def expand_field_def unplaced_def demo_field_def)
  then have "Some 0 \<in> set (map pf_sub (map content (source_fields demo_fields)))" by (simp add: comp_def)
  then have "Some 0 \<in> pf_sub ` set (map content ?d)"
    unfolding mset_eq_setD [OF packed_content [of demo_fields]] by (simp only: set_map)
  then obtain p where "p \<in> set ?d" "pf_sub p = Some 0" by auto
  then obtain i where "i < length ?d" "pf_sub (?d ! i) = Some 0" by (auto simp: in_set_conv_nth)
  with pack_links_flags [OF demo_pack, of i] pack_OkD(3) [OF demo_pack] show ?thesis by auto
qed

text \<open>Replacing the ordinal stored in each field.\<close>

definition with_ordinal :: "(field \<Rightarrow> nat) \<Rightarrow> field \<Rightarrow> field" where
  "with_ordinal g f = f\<lparr>f_ordinal := g f\<rparr>"

definition with_field :: "(field \<Rightarrow> field) \<Rightarrow> packed_field \<Rightarrow> packed_field" where
  "with_field h p = p\<lparr>pf_field := h (pf_field p)\<rparr>"

lemma with_field_simps [simp]:
  "pf_field (with_field h p) = h (pf_field p)" "pf_ordinal (with_field h p) = pf_ordinal p"
  "pf_sub (with_field h p) = pf_sub p" "pf_size (with_field h p) = pf_size p"
  "pf_alignment (with_field h p) = pf_alignment p" "pf_offset (with_field h p) = pf_offset p"
  "pf_bit (with_field h p) = pf_bit p" "pf_min_version (with_field h p) = pf_min_version p"
  "pf_linked (with_field h p) = pf_linked p" "order_key (with_field h p) = order_key p"
  "payload_size_up_to_field (with_field h p) = payload_size_up_to_field p"
  by (simp_all add: with_field_def order_key_def payload_size_up_to_field_def)

text \<open>Changing fields without changing their kinds.\<close>

definition same_kind :: "(field \<Rightarrow> field) \<Rightarrow> bool" where
  "same_kind h = (\<forall>f. f_kind (h f) = f_kind f)"

lemma field_offset_with: "same_kind h \<Longrightarrow> field_offset (h f) (with_field h p) = field_offset f p"
  by (simp add: field_offset_def same_kind_def)

lemma place_at_with: "place_at (with_field h s) ob = with_field h (place_at s ob)"
  by (simp add: place_at_def with_field_def)

lemma insert_gap_with:
  "same_kind h \<Longrightarrow>
   insert_gap (with_field h prev) (map (with_field h) rest) (with_field h s) = map (with_field h) (insert_gap prev rest s)"
  by (induction rest arbitrary: prev) (simp_all add: field_offset_with place_at_with Let_def)

lemma place_with:
  "same_kind h \<Longrightarrow> place (map (with_field h) dst) (with_field h s) = map (with_field h) (place dst s)"
  by (cases dst) (simp_all add: insert_gap_with place_at_with)

lemma first_fit_with:
  assumes "same_kind h"
  shows "first_fit (map (with_field h) ss) = map (with_field h) (first_fit ss)"
proof (cases ss)
  case (Cons s ss')
  have "foldl place (map (with_field h) dst) (map (with_field h) ss') = map (with_field h) (foldl place dst ss')" for dst
    by (induction ss' arbitrary: dst) (simp_all add: place_with assms)
  from this [of "[place_at s (0, 0)]"] show ?thesis using Cons by (simp add: place_at_with)
qed simp

lemma link_values_with: "link_values (map (with_field h) dst) = map (with_field h) (link_values dst)"
proof (rule nth_equalityI)
  fix i assume "i < length (link_values (map (with_field h) dst))"
  then have i: "i < length dst" by simp
  have "link_of (map (with_field h) dst) i = link_of dst i"
    using i unfolding link_of_def by (auto intro!: find_cong)
  then show "link_values (map (with_field h) dst) ! i = map (with_field h) (link_values dst) ! i"
    using i by (simp add: nth_link_values with_field_def)
qed simp

lemma sort_with: "sort_key order_key (map (with_field h) ps) = map (with_field h) (sort_key order_key ps)"
proof -
  have i: "insort_key order_key (with_field h p) (map (with_field h) ps) = map (with_field h) (insort_key order_key p ps)" for p ps
    by (induction ps) simp_all
  show ?thesis by (induction ps) (simp_all add: i)
qed

lemma version_sizes_with: "version_sizes v n (map (with_field h) ps) = version_sizes v n ps"
  by (induction ps arbitrary: v n) (simp_all add: Let_def)

lemma expanded_with:
  assumes "\<And>f k. g (f\<lparr>f_kind := k\<rparr>) = g f"
  shows "expanded n (map (with_ordinal g) fs) = map (with_field (with_ordinal g)) (expanded n fs)"
  by (induction fs arbitrary: n)
    (auto simp: expand_field_def unplaced_def with_ordinal_def with_field_def unnullify_def assms)

text \<open>The ordinal stored in a field plays no part in packing: whatever ordinals the fields carry,
  the outcome, the offsets, bits, sizes, versions and links of the packed fields and the version
  sizes are the same, fields being laid out in declaration order.\<close>

theorem pack_ignores_ordinals:
  assumes ok: "pack fs = Ok ps" and g: "\<And>f k. g (f\<lparr>f_kind := k\<rparr>) = g f"
  shows "\<exists>ps'. pack (map (\<lambda>f. f\<lparr>f_ordinal := g f\<rparr>) fs) = Ok ps' \<and>
    packed_fields ps' = map (\<lambda>p. p\<lparr>pf_field := (pf_field p)\<lparr>f_ordinal := g (pf_field p)\<rparr>\<rparr>) (packed_fields ps) \<and>
    ps_size ps' = ps_size ps \<and> version_info ps' = version_info ps"
proof -
  note o = pack_OkD [OF ok]
  let ?h = "with_ordinal g"
  have h: "(\<lambda>f. f\<lparr>f_ordinal := g f\<rparr>) = ?h" "(\<lambda>p. p\<lparr>pf_field := (pf_field p)\<lparr>f_ordinal := g (pf_field p)\<rparr>\<rparr>) = with_field ?h"
    by (simp_all add: fun_eq_iff with_ordinal_def with_field_def)
  have k: "f_kind (?h f) = f_kind f" "field_version (?h f) = field_version f"
    "is_nonnullable_reference (?h f) = is_nonnullable_reference f" for f
    by (simp_all add: with_ordinal_def field_version_def is_nonnullable_reference_def)
  have "versions_ok n (map ?h gs) = versions_ok n gs" for n gs
    by (induction gs arbitrary: n) (simp_all add: k)
  then have r: "pack (map ?h fs) = Ok (struct_of (map ?h fs))" using o(1,2) by (intro pack_Ok) simp_all
  have "source_fields (map ?h fs) = map (with_field ?h) (source_fields fs)"
    unfolding source_fields_def expanded_with [OF g]
    by (simp add: resolve_def k with_field_def)
  then have p: "packed_of (map ?h fs) = map (with_field ?h) (packed_of fs)"
    by (simp add: packed_of_def first_fit_with same_kind_def k(1) link_values_with)
  have "struct_size (map (with_field ?h) qs) = struct_size qs" for qs
    by (simp add: struct_size_def last_map)
  then have "packed_fields (struct_of (map ?h fs)) = map (with_field ?h) (packed_fields ps)"
    "ps_size (struct_of (map ?h fs)) = ps_size ps" "version_info (struct_of (map ?h fs)) = version_info ps"
    unfolding o(6) by (simp_all add: struct_of_def Let_def p sort_with version_sizes_with)
  with r show ?thesis unfolding h by blast
qed

theorem pack_ignores_ordinals_witness:
  "\<exists>ps'. pack (map (\<lambda>f. f\<lparr>f_ordinal := 100 - f_ordinal f\<rparr>) demo_fields) = Ok ps' \<and>
    ps_size ps' = ps_size (struct_of demo_fields)"
  using pack_ignores_ordinals [OF demo_pack, of "\<lambda>f. 100 - f_ordinal f"] by auto

end
