(* ===== verification/WireValue.thy ===== *)
theory WireValue
  imports WirePack
begin

text \<open>
  The schema types and typed values of the wire format: the data half of
  \<open>crates/mojo-rs-wire/src/value.rs\<close>.  Signed integers are words (their two's complement bits),
  floats their bit patterns as in the code, and a string is its UTF-8 bytes.  The theory also holds
  the field descriptors handed to the packer and what the packer's theorems give for them: every
  field of a version is placed inside the bytes of that version.
\<close>

section \<open>Types and values\<close>

datatype ty =
    TBool | TI8 | TU8 | TI16 | TU16 | TI32 | TU32 | TI64 | TU64 | TF32 | TF64 | TEnum | THandle
  | TString bool
  | TArray ty bool
  | TMap ty ty bool
  | TStruct "field_type list" u32 bool
  | TUnion "union_member list" bool bool
  | TInterface u32
  | TAssociatedEndpoint
  | TAssociatedInterface u32
  | TNullableScalar ty
and field_type = FieldType (ft_name: string) (ft_ty: ty) (ft_min_version: "u32 option")
and union_member = UnionMember (um_name: string) (um_ty: ty)

datatype val =
    VBool bool
  | VI8 byte | VU8 byte | VI16 u16 | VU16 u16 | VI32 u32 | VU32 u32 | VI64 u64 | VU64 u64
  | VF32 u32 | VF64 u64
  | VEnum u64
  | VString "byte list"
  | VArray "val list"
  | VMap "val list" "val list"
  | VStruct u32 "val list"
  | VUnion u32 val
  | VHandle u32
  | VInterface u32 u32
  | VAssociatedEndpoint u32
  | VAssociatedInterface u32 u32
  | VNull
  | VNullableScalar bool val

fun pack_kind :: "ty \<Rightarrow> kind" where
  "pack_kind TBool = KBool"
| "pack_kind TI8 = KI8"
| "pack_kind TU8 = KU8"
| "pack_kind TI16 = KI16"
| "pack_kind TU16 = KU16"
| "pack_kind TI32 = KI32"
| "pack_kind TU32 = KU32"
| "pack_kind TI64 = KI64"
| "pack_kind TU64 = KU64"
| "pack_kind TF32 = KF32"
| "pack_kind TF64 = KF64"
| "pack_kind TEnum = KEnum"
| "pack_kind THandle = KHandle"
| "pack_kind (TString _) = KString"
| "pack_kind (TArray _ _) = KArray"
| "pack_kind (TMap _ _ _) = KMap"
| "pack_kind (TStruct _ _ _) = KStruct"
| "pack_kind (TUnion _ _ inlined) = (if inlined then KUnion else KMap)"
| "pack_kind (TInterface _) = KInterface"
| "pack_kind TAssociatedEndpoint = KPendingAssociatedReceiver"
| "pack_kind (TAssociatedInterface _) = KPendingAssociatedRemote"
| "pack_kind (TNullableScalar inner) = pack_kind inner"

fun ty_is_reference :: "ty \<Rightarrow> bool" where
  "ty_is_reference t = (case t of
      TString _ \<Rightarrow> True | TArray _ _ \<Rightarrow> True | TMap _ _ _ \<Rightarrow> True | TStruct _ _ _ \<Rightarrow> True
    | TInterface _ \<Rightarrow> True | _ \<Rightarrow> False)"

fun is_nullable :: "ty \<Rightarrow> bool" where
  "is_nullable (TString nullable) = nullable"
| "is_nullable (TArray _ nullable) = nullable"
| "is_nullable (TMap _ _ nullable) = nullable"
| "is_nullable (TStruct _ _ nullable) = nullable"
| "is_nullable (TUnion _ nullable _) = nullable"
| "is_nullable (TNullableScalar _) = True"
| "is_nullable _ = False"

text \<open>The kinds whose array elements are stored in place, and the size of an array element.\<close>

definition is_pod :: "ty \<Rightarrow> bool" where
  "is_pod t = (case t of
      TBool \<Rightarrow> True | TI8 \<Rightarrow> True | TU8 \<Rightarrow> True | TI16 \<Rightarrow> True | TU16 \<Rightarrow> True | TI32 \<Rightarrow> True | TU32 \<Rightarrow> True
    | TI64 \<Rightarrow> True | TU64 \<Rightarrow> True | TF32 \<Rightarrow> True | TF64 \<Rightarrow> True | TEnum \<Rightarrow> True | THandle \<Rightarrow> True | _ \<Rightarrow> False)"

definition elem_size :: "ty \<Rightarrow> nat" where
  "elem_size t = (if is_pod t then kind_size (pack_kind t) else POINTER_SIZE)"

fun unbox_scalar :: "ty \<Rightarrow> ty" where
  "unbox_scalar (TNullableScalar inner) = inner"
| "unbox_scalar t = t"

fun is_nullable_scalar :: "ty \<Rightarrow> bool" where
  "is_nullable_scalar (TNullableScalar _) = True"
| "is_nullable_scalar _ = False"

text \<open>The value of a field the message's version does not have.\<close>

fun default_of :: "ty \<Rightarrow> val" where
  "default_of TBool = VBool False"
| "default_of TI8 = VI8 0"
| "default_of TU8 = VU8 0"
| "default_of TI16 = VI16 0"
| "default_of TU16 = VU16 0"
| "default_of TI32 = VI32 0"
| "default_of TU32 = VU32 0"
| "default_of TI64 = VI64 0"
| "default_of TU64 = VU64 0"
| "default_of TF32 = VF32 0"
| "default_of TF64 = VF64 0"
| "default_of TEnum = VEnum 0"
| "default_of THandle = VHandle ENCODED_INVALID_HANDLE_VALUE"
| "default_of (TInterface v) = VInterface ENCODED_INVALID_HANDLE_VALUE v"
| "default_of TAssociatedEndpoint = VAssociatedEndpoint ENCODED_INVALID_HANDLE_VALUE"
| "default_of (TAssociatedInterface v) = VAssociatedInterface ENCODED_INVALID_HANDLE_VALUE v"
| "default_of (TNullableScalar _) = VNullableScalar False VNull"
| "default_of _ = VNull"

definition default_value :: "field_type \<Rightarrow> val" where
  "default_value ft = default_of (ft_ty ft)"

fun value_to_u32 :: "val \<Rightarrow> u32 option" where
  "value_to_u32 (VU32 x) = Some x"
| "value_to_u32 _ = None"

section \<open>Packing the fields of a struct type\<close>

definition pack_field :: "nat \<Rightarrow> field_type \<Rightarrow> field" where
  "pack_field i ft =
     \<lparr>f_index = i, f_ordinal = as_u32 i, f_min_version = ft_min_version ft, f_kind = pack_kind (ft_ty ft),
      f_nullable_value_kind = is_nullable_scalar (ft_ty ft), f_nullable_reference = is_nullable (ft_ty ft),
      f_mojom_name = ft_name ft\<rparr>"

definition pack_fields :: "field_type list \<Rightarrow> field list" where
  "pack_fields fts = map (\<lambda>i. pack_field i (fts ! i)) [0..<length fts]"

definition pack_struct :: "field_type list \<Rightarrow> packed_struct wire_result" where
  "pack_struct fts = pack (pack_fields fts)"

definition max_version :: "field_type list \<Rightarrow> u32" where
  "max_version fts = foldr max (map (\<lambda>ft. case ft_min_version ft of None \<Rightarrow> 0 | Some v \<Rightarrow> v) fts) 0"

section \<open>UTF-8\<close>

text \<open>\<open>core::str::from_utf8\<close>: the well-formed byte sequences of the Unicode standard.\<close>

definition utf8_tail :: "byte \<Rightarrow> bool" where
  "utf8_tail b = (0x80 \<le> b \<and> b \<le> 0xBF)"

fun utf8_valid :: "byte list \<Rightarrow> bool" where
  "utf8_valid [] = True"
| "utf8_valid (a # bs) =
     (if a \<le> 0x7F then utf8_valid bs
      else case bs of
        [] \<Rightarrow> False
      | b # cs \<Rightarrow>
          if 0xC2 \<le> a \<and> a \<le> 0xDF then utf8_tail b \<and> utf8_valid cs
          else case cs of
            [] \<Rightarrow> False
          | c # ds \<Rightarrow>
              if 0xE0 \<le> a \<and> a \<le> 0xEF
              then utf8_tail b \<and> (a = 0xE0 \<longrightarrow> 0xA0 \<le> b) \<and> (a = 0xED \<longrightarrow> b \<le> 0x9F) \<and> utf8_tail c \<and> utf8_valid ds
              else case ds of
                [] \<Rightarrow> False
              | d # es \<Rightarrow>
                  0xF0 \<le> a \<and> a \<le> 0xF4 \<and> utf8_tail b \<and> (a = 0xF0 \<longrightarrow> 0x90 \<le> b) \<and>
                  (a = 0xF4 \<longrightarrow> b \<le> 0x8F) \<and> utf8_tail c \<and> utf8_tail d \<and> utf8_valid es)"

section \<open>What packing gives for a struct type\<close>

lemma length_pack_fields [simp]: "length (pack_fields fts) = length fts"
  by (simp add: pack_fields_def)

lemma nth_pack_fields: "i < length fts \<Longrightarrow> pack_fields fts ! i = pack_field i (fts ! i)"
  by (simp add: pack_fields_def)

text \<open>The shape of a packed field of a struct type.\<close>

definition field_shape :: "field_type list \<Rightarrow> packed_field \<Rightarrow> bool" where
  "field_shape fts p = (\<exists>i < length fts. f_index (pf_field p) = i \<and>
     f_nullable_value_kind (pf_field p) = is_nullable_scalar (ft_ty (fts ! i)) \<and>
     pf_min_version p = (case ft_min_version (fts ! i) of None \<Rightarrow> 0 | Some v \<Rightarrow> v) \<and>
     f_kind (pf_field p) = (if pf_sub p = Some 0 then KBool else pack_kind (ft_ty (fts ! i))) \<and>
     (pf_sub p = Some 0 \<longrightarrow> is_nullable_scalar (ft_ty (fts ! i))))"

lemma packed_fields_shape:
  assumes ok: "pack_struct fts = Ok ps" and p: "p \<in> set (packed_fields ps)"
  shows "field_shape fts p"
proof -
  have ok': "pack (pack_fields fts) = Ok ps" using ok by (simp add: pack_struct_def)
  have "p \<in> set (packed_of (pack_fields fts))" using p pack_OkD(3) [OF ok'] by simp
  then obtain q where q: "q \<in> set (expanded 0 (pack_fields fts))"
    "content p = content ((resolve q)\<lparr>pf_min_version := pf_version q\<rparr>)" by (rule packed_source)
  have e: "pf_field p = pf_field q" "pf_sub p = pf_sub q" "pf_min_version p = pf_version q"
    using arg_cong [OF q(2), of pf_field] arg_cong [OF q(2), of pf_sub] arg_cong [OF q(2), of pf_min_version]
    by (simp_all add: resolve_def)
  have src: "\<exists>f \<in> set fs. \<exists>m. q \<in> set (expand_field f m)" if "q \<in> set (expanded n fs)" for n fs
    using that by (induction fs arbitrary: n) auto
  obtain f m where f: "f \<in> set (pack_fields fts)" "q \<in> set (expand_field f m)"
    using src [OF q(1)] by blast
  obtain i where i: "i < length fts" "f = pack_field i (fts ! i)"
    using f(1) by (auto simp: in_set_conv_nth nth_pack_fields)
  show ?thesis unfolding field_shape_def e
    using f(2) i by (intro exI [of _ i])
      (auto simp: expand_field_def unplaced_def pack_field_def field_version_def unnullify_def split: if_splits)
qed

lemma packed_kept:
  assumes "q \<in> set (expanded 0 fs)"
  obtains p where "p \<in> set (packed_of fs)" "content p = content ((resolve q)\<lparr>pf_min_version := pf_version q\<rparr>)"
proof -
  let ?r = "(resolve q)\<lparr>pf_min_version := pf_version q\<rparr>"
  have "content ?r \<in> set (map content (source_fields fs))"
    using assms by (auto simp: source_fields_def)
  then have "content ?r \<in> set (map content (packed_of fs))"
    using packed_content [of fs] by (metis mset_eq_setD)
  then show thesis using that by auto
qed

text \<open>Every declared field is placed.\<close>

lemma packed_fields_cover:
  assumes ok: "pack_struct fts = Ok ps" and i: "i < length fts"
  shows "\<exists>p \<in> set (packed_fields ps). f_index (pf_field p) = i \<and> pf_sub p \<noteq> Some 0"
proof -
  have ok': "pack (pack_fields fts) = Ok ps" using ok by (simp add: pack_struct_def)
  have src: "\<exists>q \<in> set (expanded n fs). f_index (pf_field q) = f_index f \<and> pf_sub q \<noteq> Some 0"
    if "f \<in> set fs" for n fs f
    using that by (induction fs arbitrary: n) (auto simp: expand_field_def unplaced_def)
  have "pack_field i (fts ! i) \<in> set (pack_fields fts)" using i by (auto simp: pack_fields_def)
  from src [OF this] obtain q where q: "q \<in> set (expanded 0 (pack_fields fts))"
    "f_index (pf_field q) = i" "pf_sub q \<noteq> Some 0" by (auto simp: pack_field_def)
  obtain p where p: "p \<in> set (packed_of (pack_fields fts))"
    "content p = content ((resolve q)\<lparr>pf_min_version := pf_version q\<rparr>)" by (rule packed_kept [OF q(1)])
  have "pf_field p = pf_field q" "pf_sub p = pf_sub q"
    using arg_cong [OF p(2), of pf_field] arg_cong [OF p(2), of pf_sub] by (simp_all add: resolve_def)
  then show ?thesis using p(1) q(2,3) pack_OkD(3) [OF ok'] by (intro bexI [of _ p]) simp_all
qed

text \<open>A field of a version lies within the bytes of that version.\<close>

lemma packed_in_bounds:
  assumes ok: "pack_struct fts = Ok ps" and p: "p \<in> set (packed_fields ps)"
    and v: "pf_min_version p \<le> v" and n: "num_bytes_for_version ps v = Some n"
  shows "STRUCT_HEADER_SIZE + pf_offset p + pf_size p \<le> n"
proof -
  have ok': "pack (pack_fields fts) = Ok ps" using ok by (simp add: pack_struct_def)
  note o = pack_OkD [OF ok']
  have pp: "p \<in> set (packed_of (pack_fields fts))" using p o(3) by simp
  have "payload_size_up_to_field p \<le> need 0 v (ordered_of (pack_fields fts))"
    using pp v by (intro need_member) simp_all
  then show ?thesis
    using payload_le_size(2) [OF pp o(1)] packed_sizes(1) [OF pp] num_bytes_eq [OF o(2), of v] n
    unfolding o(6) by (simp add: end_of_def)
qed

lemma num_bytes_total:
  assumes "pack_struct fts = Ok ps"
  shows "\<exists>n. num_bytes_for_version ps v = Some n \<and> STRUCT_HEADER_SIZE \<le> n"
proof -
  have ok': "pack (pack_fields fts) = Ok ps" using assms by (simp add: pack_struct_def)
  show ?thesis using num_bytes_eq [OF pack_OkD(2) [OF ok'], of v] pack_OkD(6) [OF ok'] by simp
qed

lemma packed_in_size:
  assumes ok: "pack_struct fts = Ok ps" and p: "p \<in> set (packed_fields ps)"
  shows "STRUCT_HEADER_SIZE + pf_offset p + pf_size p \<le> ps_size ps" "pf_size p = kind_size (pf_kind p)"
proof -
  have ok': "pack (pack_fields fts) = Ok ps" using ok by (simp add: pack_struct_def)
  note o = pack_OkD [OF ok']
  have pp: "p \<in> set (packed_of (pack_fields fts))" using p o(3) by simp
  show "pf_size p = kind_size (pf_kind p)" by (rule packed_sizes(1) [OF pp])
  show "STRUCT_HEADER_SIZE + pf_offset p + pf_size p \<le> ps_size ps"
    using payload_le_size [OF pp o(1)] packed_sizes(1) [OF pp] o(5) by (simp add: end_of_def STRUCT_HEADER_SIZE_def)
qed
text \<open>Every nullable scalar has its presence flag.\<close>

lemma packed_flags_cover:
  assumes ok: "pack_struct fts = Ok ps" and i: "i < length fts" and n: "is_nullable_scalar (ft_ty (fts ! i))"
  shows "\<exists>p \<in> set (packed_fields ps). f_index (pf_field p) = i \<and> pf_sub p = Some 0"
proof -
  have ok': "pack (pack_fields fts) = Ok ps" using ok by (simp add: pack_struct_def)
  have src: "\<exists>q \<in> set (expanded n fs). f_index (pf_field q) = f_index f \<and> pf_sub q = Some 0"
    if "f \<in> set fs" "f_nullable_value_kind f" for n fs f
    using that by (induction fs arbitrary: n) (auto simp: expand_field_def unplaced_def unnullify_def)
  have "pack_field i (fts ! i) \<in> set (pack_fields fts)" using i by (auto simp: pack_fields_def)
  from src [OF this] n obtain q where q: "q \<in> set (expanded 0 (pack_fields fts))"
    "f_index (pf_field q) = i" "pf_sub q = Some 0" by (auto simp: pack_field_def)
  obtain p where p: "p \<in> set (packed_of (pack_fields fts))"
    "content p = content ((resolve q)\<lparr>pf_min_version := pf_version q\<rparr>)" by (rule packed_kept [OF q(1)])
  have "pf_field p = pf_field q" "pf_sub p = pf_sub q"
    using arg_cong [OF p(2), of pf_field] arg_cong [OF p(2), of pf_sub] by (simp_all add: resolve_def)
  then show ?thesis using p(1) q(2,3) pack_OkD(3) [OF ok'] by (intro bexI [of _ p]) simp_all
qed

lemma packed_apart:
  assumes "pack_struct fts = Ok ps" "i < j" "j < length (packed_fields ps)"
  shows "let p = packed_fields ps ! i; q = packed_fields ps ! j in
    pf_offset p + pf_size p \<le> pf_offset q \<or>
    pf_kind p = KBool \<and> pf_kind q = KBool \<and> pf_offset p = pf_offset q \<and> pf_bit p < pf_bit q"
  using packed_pair [of i j "pack_fields fts"] pack_OkD(3) [of "pack_fields fts" ps] assms
  by (simp add: pack_struct_def)

lemma packed_bit:
  assumes "pack_struct fts = Ok ps" "p \<in> set (packed_fields ps)"
  shows "pf_bit p \<le> 7" "pf_bit p \<noteq> 0 \<Longrightarrow> pf_kind p = KBool"
  using packed_each [of p "pack_fields fts"] pack_OkD(1,3) [of "pack_fields fts" ps] assms
  by (simp_all add: pack_struct_def)

lemma full_size:
  assumes ok: "pack_struct fts = Ok ps" and all: "\<forall>p \<in> set (packed_fields ps). pf_min_version p \<le> v"
  shows "num_bytes_for_version ps v = Some (ps_size ps)" "STRUCT_HEADER_SIZE \<le> ps_size ps"
proof -
  note o = pack_OkD [OF ok [unfolded pack_struct_def]]
  show "num_bytes_for_version ps v = Some (ps_size ps)"
    using num_bytes_eq [OF o(2), of v] full_version_size [OF o(1), of v] all o(3,5) by (simp flip: o(6))
  then show "STRUCT_HEADER_SIZE \<le> ps_size ps" using num_bytes_total [OF ok, of v] by simp
qed

end
