(* ===== verification/WireDecode.thy ===== *)
theory WireDecode
  imports WireValue WireHeader
begin

text \<open>
  The validating decoder: \<open>Decoder\<close> of \<open>crates/mojo-rs-wire/src/value.rs\<close> and \<open>validate_message\<close>
  of \<open>validate.rs\<close>.  A decoder step takes the decoder's state (the claim frontier and the depth) to
  an outcome and the state after it.  The recursion of the code is on the schema type, so the steps
  for a composite type are written over the decoders of its parts and tied together at the end by
  recursion on the type.  Main results: what is accepted conforms to the schema, its handles are
  among the message's, its objects are claimed left to right inside the message, and where the
  decoder can panic.
\<close>

section \<open>Decoder steps\<close>

record denv =
  e_bytes :: "byte list"
  e_handle_count :: nat
  e_max_depth :: nat

record dec =
  d_frontier :: nat
  d_depth :: nat

definition dec_new :: dec where
  "dec_new = \<lparr>d_frontier = 0, d_depth = 0\<rparr>"

text \<open>A fallible computation over a state; \<open>?\<close> is \<open>andthen\<close>, which keeps what was done before the error.\<close>

type_synonym ('s, 'a) stateful = "'s \<Rightarrow> 'a wire_result \<times> 's"
type_synonym 'a step = "(dec, 'a) stateful"

definition ret :: "'a \<Rightarrow> ('s, 'a) stateful" where
  "ret a s = (Ok a, s)"

definition fail :: "wire_error \<Rightarrow> ('s, 'a) stateful" where
  "fail e s = (Err e, s)"

text \<open>A computation that does not touch the state.\<close>

definition lift :: "'a wire_result \<Rightarrow> ('s, 'a) stateful" where
  "lift r s = (r, s)"

definition andthen :: "('s, 'a) stateful \<Rightarrow> ('a \<Rightarrow> ('s, 'b) stateful) \<Rightarrow> ('s, 'b) stateful" where
  "andthen m f s = (case m s of
      (Ok a, s') \<Rightarrow> f a s'
    | (Err e, s') \<Rightarrow> (Err e, s')
    | (Panic, s') \<Rightarrow> (Panic, s'))"

text \<open>A step for every element of a list, in order.\<close>

fun each :: "('a \<Rightarrow> ('s, 'b) stateful) \<Rightarrow> 'a list \<Rightarrow> ('s, 'b list) stateful" where
  "each f [] = ret []"
| "each f (x # xs) = andthen (f x) (\<lambda>y. andthen (each f xs) (\<lambda>ys. ret (y # ys)))"

definition illegal_memory_range :: wire_error where
  "illegal_memory_range = Validation IllegalMemoryRange"

definition overflow :: wire_error where
  "overflow = EncodeErr ArithmeticOverflow"

text \<open>Unchecked \<open>+\<close> on \<open>usize\<close>: the development profile panics on overflow.\<close>

definition plus :: "nat \<Rightarrow> nat \<Rightarrow> nat wire_result" where
  "plus a b = from_option (uadd a b)"

definition checked :: "nat option \<Rightarrow> nat wire_result" where
  "checked x = (case x of None \<Rightarrow> Err overflow | Some n \<Rightarrow> Ok n)"

definition claim :: "denv \<Rightarrow> nat \<Rightarrow> nat \<Rightarrow> unit step" where
  "claim env start len s =
     (case checked_add start len of
        None \<Rightarrow> (Err overflow, s)
      | Some e \<Rightarrow>
          if e > length (e_bytes env) then (Err illegal_memory_range, s)
          else if e \<le> start then (Err illegal_memory_range, s)
          else if start < d_frontier s then (Err illegal_memory_range, s)
          else (Ok (), s\<lparr>d_frontier := e\<rparr>))"

definition enter :: "denv \<Rightarrow> unit step" where
  "enter env s =
     (let s' = s\<lparr>d_depth := d_depth s + 1\<rparr> in
      if d_depth s' > e_max_depth env then (Err (Validation MaxRecursionDepth), s') else (Ok (), s'))"

text \<open>\<open>enter()?; let r = body; leave(); r\<close>: the depth is restored on success and on failure.\<close>

definition nested :: "denv \<Rightarrow> 'a step \<Rightarrow> 'a step" where
  "nested env body = andthen (enter env) (\<lambda>_ s.
     let (r, s') = body s in (r, s'\<lparr>d_depth := d_depth s' - 1\<rparr>))"

section \<open>Reads\<close>

text \<open>\<open>bytes.get(a..b)\<close> and \<open>bytes.get(i)\<close>.\<close>

definition get_range :: "denv \<Rightarrow> nat \<Rightarrow> nat \<Rightarrow> byte list wire_result" where
  "get_range env a b = (case slice (e_bytes env) a b of None \<Rightarrow> Err illegal_memory_range | Some xs \<Rightarrow> Ok xs)"

definition get_byte :: "denv \<Rightarrow> nat \<Rightarrow> byte wire_result" where
  "get_byte env i = (if i < length (e_bytes env) then Ok (e_bytes env ! i) else Err illegal_memory_range)"

definition dread_u16 :: "denv \<Rightarrow> nat \<Rightarrow> u16 wire_result" where
  "dread_u16 env offset =
     obind (checked (checked_add offset 2)) (\<lambda>e. obind (get_range env offset e) (\<lambda>b. Ok (from_le b)))"

definition dread_u32 :: "denv \<Rightarrow> nat \<Rightarrow> u32 wire_result" where
  "dread_u32 env offset =
     obind (checked (checked_add offset 4)) (\<lambda>e. obind (get_range env offset e) (\<lambda>b. Ok (from_le b)))"

definition dread_u64 :: "denv \<Rightarrow> nat \<Rightarrow> u64 wire_result" where
  "dread_u64 env offset =
     obind (checked (checked_add offset 8)) (\<lambda>e. obind (get_range env offset e) (\<lambda>b. Ok (from_le b)))"

text \<open>Reading a relative pointer: the target as a \<open>usize\<close>, or none for null.\<close>

definition read_target :: "denv \<Rightarrow> nat \<Rightarrow> nat option wire_result" where
  "read_target env offset =
     obind (dread_u64 env offset) (\<lambda>raw.
       Ok (map_option unat (pointer_target (pointer_decode (of_nat offset) raw))))"

text \<open>A pointer slot: null if that is allowed, else the object at the target.\<close>

definition pointed :: "denv \<Rightarrow> bool \<Rightarrow> nat \<Rightarrow> (nat \<Rightarrow> val step) \<Rightarrow> val step" where
  "pointed env nullable offset object =
     andthen (lift (read_target env offset)) (\<lambda>t. case t of
         None \<Rightarrow> if nullable then ret VNull else fail (Validation UnexpectedNullPointer)
       | Some target \<Rightarrow> object target)"

definition checked_handle :: "denv \<Rightarrow> nat \<Rightarrow> u32 wire_result" where
  "checked_handle env offset =
     obind (dread_u32 env offset) (\<lambda>idx.
       if idx \<noteq> ENCODED_INVALID_HANDLE_VALUE \<and> unat idx \<ge> e_handle_count env
       then Err (Validation IllegalHandle) else Ok idx)"

section \<open>Strings\<close>

definition decode_string_at :: "denv \<Rightarrow> nat \<Rightarrow> val step" where
  "decode_string_at env target =
     andthen (lift (plus target ARRAY_HEADER_SIZE)) (\<lambda>h.
     if h > length (e_bytes env) then fail illegal_memory_range
     else
     andthen (lift (dread_u32 env target)) (\<lambda>nb.
     andthen (lift (dread_u32 env (target + 4))) (\<lambda>ne.
     let num_bytes = unat nb; num_elements = unat ne in
     if num_bytes < ARRAY_HEADER_SIZE \<or> num_bytes > length (e_bytes env) - target
     then fail (Validation UnexpectedArrayHeader)
     else if num_elements > num_bytes - ARRAY_HEADER_SIZE
     then fail (Validation UnexpectedArrayHeader)
     else
     let data_start = target + ARRAY_HEADER_SIZE in
     andthen (lift (get_range env data_start (data_start + num_elements))) (\<lambda>str.
     if 0 \<in> set str then fail (Validation DeserializationFailed)
     else if \<not> (data_start + num_elements < length (e_bytes env) \<and>
                e_bytes env ! (data_start + num_elements) = 0)
     then fail (Validation DeserializationFailed)
     else
     andthen (claim env target num_bytes) (\<lambda>_.
     if utf8_valid str then ret (VString str) else fail (Validation DeserializationFailed))))))"

section \<open>Arrays and maps\<close>

definition decode_array_body ::
  "denv \<Rightarrow> (nat \<Rightarrow> nat \<Rightarrow> val step) \<Rightarrow> (nat \<Rightarrow> val step) \<Rightarrow> ty \<Rightarrow> nat \<Rightarrow> val step" where
  "decode_array_body env field_dec element_dec element target =
     andthen (lift (plus target ARRAY_HEADER_SIZE)) (\<lambda>h.
     if h > length (e_bytes env) then fail illegal_memory_range
     else
     andthen (lift (dread_u32 env target)) (\<lambda>nb.
     andthen (lift (dread_u32 env (target + 4))) (\<lambda>ne.
     let num_bytes = unat nb; num_elements = unat ne; size = elem_size element in
     andthen (lift (checked (if size * num_elements < usize_limit then Some (size * num_elements) else None))) (\<lambda>raw.
     andthen (lift (checked (checked_add ARRAY_HEADER_SIZE raw))) (\<lambda>min_bytes.
     if num_bytes < min_bytes then fail (Validation UnexpectedArrayHeader)
     else if num_bytes > length (e_bytes env) - target then fail illegal_memory_range
     else
     andthen (claim env target num_bytes) (\<lambda>_.
     let data_off = target + ARRAY_HEADER_SIZE in
     andthen (each (\<lambda>i.
         let item_off = data_off + i * size in
         if is_pod element then field_dec item_off 0
         else pointed env (is_nullable element) item_off element_dec) [0..<num_elements])
     (\<lambda>out. ret (VArray out))))))))"

definition decode_array ::
  "denv \<Rightarrow> (nat \<Rightarrow> nat \<Rightarrow> val step) \<Rightarrow> (nat \<Rightarrow> val step) \<Rightarrow> ty \<Rightarrow> bool \<Rightarrow> nat \<Rightarrow> val step" where
  "decode_array env field_dec element_dec element nullable offset =
     pointed env nullable offset (\<lambda>target.
       nested env (decode_array_body env field_dec element_dec element target))"

text \<open>The two arrays of a map are array bodies: \<open>keys\<close> and \<open>vals\<close> are their decoders.\<close>

definition decode_map_at :: "denv \<Rightarrow> (nat \<Rightarrow> val step) \<Rightarrow> (nat \<Rightarrow> val step) \<Rightarrow> nat \<Rightarrow> val step" where
  "decode_map_at env keys vals target = nested env (
     andthen (lift (plus target 24)) (\<lambda>h.
     if h > length (e_bytes env) then fail illegal_memory_range
     else
     andthen (lift (dread_u32 env target)) (\<lambda>nb.
     if unat nb < 24 then fail (Validation UnexpectedStructHeader)
     else
     andthen (claim env target (unat nb)) (\<lambda>_.
     andthen (lift (read_target env (target + 8))) (\<lambda>kp.
     andthen (lift (read_target env (target + 16))) (\<lambda>vp.
     case (kp, vp) of
       (Some ko, Some vo) \<Rightarrow>
         andthen (keys ko) (\<lambda>ks.
         andthen (vals vo) (\<lambda>vs.
         case (ks, vs) of
           (VArray k, VArray v) \<Rightarrow>
             if length k \<noteq> length v then fail (Validation DifferentSizedArraysInMap)
             else ret (VMap k v)
         | _ \<Rightarrow> fail (EncodeErr (Unsupported ''map arrays''))))
     | _ \<Rightarrow> fail (Validation UnexpectedNullPointer)))))))"

definition decode_map :: "denv \<Rightarrow> (nat \<Rightarrow> val step) \<Rightarrow> (nat \<Rightarrow> val step) \<Rightarrow> bool \<Rightarrow> nat \<Rightarrow> val step" where
  "decode_map env keys vals nullable offset = pointed env nullable offset (decode_map_at env keys vals)"

section \<open>Structs\<close>

text \<open>The loop over the packed fields.  \<open>decs\<close> holds a decoder for each field; the decoder of a
  nullable scalar is that of the scalar, so unboxing the type first makes no difference.  Fields the
  version does not have, and fields beyond the declared bytes, keep their defaults.\<close>

fun decode_packed ::
  "denv \<Rightarrow> (nat \<Rightarrow> nat \<Rightarrow> val step) list \<Rightarrow> u32 \<Rightarrow> nat \<Rightarrow> nat \<Rightarrow> packed_field list \<Rightarrow>
   val list \<times> bool list \<Rightarrow> (val list \<times> bool list) step" where
  "decode_packed env decs version num_bytes offset [] acc = ret acc"
| "decode_packed env decs version num_bytes offset (pf # pfs) (scalars, presence) =
     (let idx = f_index (pf_field pf);
          abs_offset = STRUCT_HEADER_SIZE + pf_offset pf;
          field_off = offset + abs_offset in
      if \<not> (pf_min_version pf \<le> version) \<or> \<not> (abs_offset + pf_size pf \<le> num_bytes)
      then decode_packed env decs version num_bytes offset pfs (scalars, presence)
      else if f_nullable_value_kind (pf_field pf)
      then if f_kind (pf_field pf) = KBool
        then andthen (lift (get_byte env field_off)) (\<lambda>b.
          decode_packed env decs version num_bytes offset pfs
            (scalars, presence[idx := bit b (pf_bit pf)]))
        else andthen ((decs ! idx) field_off 0) (\<lambda>v.
          decode_packed env decs version num_bytes offset pfs (scalars[idx := v], presence))
      else andthen ((decs ! idx) field_off (pf_bit pf)) (\<lambda>v.
        decode_packed env decs version num_bytes offset pfs (scalars[idx := v], presence)))"

text \<open>Nullable scalars wrap the presence flag and the value.\<close>

definition assemble :: "field_type list \<Rightarrow> val list \<times> bool list \<Rightarrow> val list" where
  "assemble fts acc =
     map (\<lambda>i. if is_nullable_scalar (ft_ty (fts ! i))
              then VNullableScalar (snd acc ! i) (if snd acc ! i then fst acc ! i else VNull)
              else fst acc ! i) [0..<length fts]"

definition decode_struct_body ::
  "denv \<Rightarrow> (nat \<Rightarrow> nat \<Rightarrow> val step) list \<Rightarrow> field_type list \<Rightarrow> bool \<Rightarrow> nat \<Rightarrow> val step" where
  "decode_struct_body env decs fts claim_self offset =
     andthen (lift (plus offset STRUCT_HEADER_SIZE)) (\<lambda>h.
     if h > length (e_bytes env) then fail illegal_memory_range
     else
     andthen (lift (dread_u32 env offset)) (\<lambda>nb.
     andthen (lift (dread_u32 env (offset + 4))) (\<lambda>version.
     let num_bytes = unat nb in
     if num_bytes < STRUCT_HEADER_SIZE then fail (Validation UnexpectedStructHeader)
     else
     andthen (lift (plus offset num_bytes)) (\<lambda>e.
     if e > length (e_bytes env) then fail illegal_memory_range
     else
     andthen (if claim_self then claim env offset num_bytes else ret ()) (\<lambda>_.
     andthen (lift (pack_struct fts)) (\<lambda>packed.
     if (if version \<le> max_version fts
       then (case num_bytes_for_version packed version of
               Some expected \<Rightarrow> num_bytes \<noteq> expected | None \<Rightarrow> False)
       else num_bytes < ps_size packed)
     then fail (Validation UnexpectedStructHeader)
     else
     andthen (decode_packed env decs version num_bytes offset (packed_fields packed)
                (map default_value fts, replicate (length fts) False)) (\<lambda>acc.
     ret (VStruct version (assemble fts acc)))))))))"

definition decode_struct_with ::
  "denv \<Rightarrow> (nat \<Rightarrow> nat \<Rightarrow> val step) list \<Rightarrow> field_type list \<Rightarrow> nat \<Rightarrow> val step" where
  "decode_struct_with env decs fts offset = nested env (decode_struct_body env decs fts True offset)"

definition decode_struct_inline_with ::
  "denv \<Rightarrow> (nat \<Rightarrow> nat \<Rightarrow> val step) list \<Rightarrow> field_type list \<Rightarrow> nat \<Rightarrow> val step" where
  "decode_struct_inline_with env decs fts offset = nested env (decode_struct_body env decs fts False offset)"

section \<open>Unions\<close>

definition decode_union_at ::
  "denv \<Rightarrow> (nat \<Rightarrow> val step) list \<Rightarrow> union_member list \<Rightarrow> bool \<Rightarrow> nat \<Rightarrow> val step" where
  "decode_union_at env payloads members claim_self target =
     andthen (lift (plus target 8)) (\<lambda>h.
     if h > length (e_bytes env) then fail illegal_memory_range
     else
     andthen (lift (dread_u32 env target)) (\<lambda>sz.
     andthen (lift (dread_u32 env (target + 4))) (\<lambda>tag.
     if unat tag \<ge> length members then fail (Validation UnknownUnionTag)
     else
     andthen (if claim_self
        then if unat sz \<noteq> UNION_DATA_SIZE then fail illegal_memory_range
             else claim env target UNION_DATA_SIZE
        else ret ()) (\<lambda>_.
     andthen ((payloads ! unat tag) (target + 8)) (\<lambda>v. ret (VUnion tag v))))))"

section \<open>The recursion on types\<close>

definition decode_interface :: "denv \<Rightarrow> u32 \<Rightarrow> nat \<Rightarrow> val step" where
  "decode_interface env version offset =
     andthen (lift (dread_u32 env offset)) (\<lambda>idx.
     andthen (lift (obind (plus offset 4) (dread_u32 env))) (\<lambda>v.
     if idx \<noteq> ENCODED_INVALID_HANDLE_VALUE \<and> unat idx \<ge> e_handle_count env
     then fail (Validation IllegalHandle)
     else ret (VInterface idx (max v version))))"

definition decode_associated_interface :: "denv \<Rightarrow> u32 \<Rightarrow> nat \<Rightarrow> val step" where
  "decode_associated_interface env version offset =
     andthen (lift (dread_u32 env offset)) (\<lambda>i.
     andthen (lift (obind (plus offset 4) (dread_u32 env))) (\<lambda>v.
     ret (VAssociatedInterface i (max v version))))"

abbreviation scalar :: "'a wire_result \<Rightarrow> ('a \<Rightarrow> val) \<Rightarrow> val step" where
  "scalar r f \<equiv> andthen (lift r) (\<lambda>a. ret (f a))"

lemma size_parts:
  "ft \<in> set fts \<Longrightarrow> size (ft_ty ft) < size_list size fts"
  "m \<in> set ms \<Longrightarrow> size (um_ty m) < size_list size ms"
proof -
  have f: "size (ft_ty ft) < size ft" and m: "size (um_ty m) < size m"
    by (cases ft; simp) (cases m; simp)
  show "ft \<in> set fts \<Longrightarrow> size (ft_ty ft) < size_list size fts"
    using f by (induction fts) auto
  show "m \<in> set ms \<Longrightarrow> size (um_ty m) < size_list size ms"
    using m by (induction ms) auto
qed

text \<open>\<open>decode_field\<close>, \<open>decode_array_element\<close> and \<open>decode_union_payload\<close>: the decoder of a type in a
  field, as the target of an array's pointer, and in the data of a union.\<close>

function (sequential) decode_field :: "denv \<Rightarrow> ty \<Rightarrow> nat \<Rightarrow> nat \<Rightarrow> val step"
  and decode_array_element :: "denv \<Rightarrow> ty \<Rightarrow> nat \<Rightarrow> val step"
  and decode_union_payload :: "denv \<Rightarrow> ty \<Rightarrow> nat \<Rightarrow> val step" where
  "decode_field env TBool = (\<lambda>off k. scalar (get_byte env off) (\<lambda>b. VBool (bit b k)))"
| "decode_field env TI8 = (\<lambda>off k. scalar (get_byte env off) VI8)"
| "decode_field env TU8 = (\<lambda>off k. scalar (get_byte env off) VU8)"
| "decode_field env TI16 = (\<lambda>off k. scalar (dread_u16 env off) VI16)"
| "decode_field env TU16 = (\<lambda>off k. scalar (dread_u16 env off) VU16)"
| "decode_field env TI32 = (\<lambda>off k. scalar (dread_u32 env off) VI32)"
| "decode_field env TU32 = (\<lambda>off k. scalar (dread_u32 env off) VU32)"
| "decode_field env TI64 = (\<lambda>off k. scalar (dread_u64 env off) VI64)"
| "decode_field env TU64 = (\<lambda>off k. scalar (dread_u64 env off) VU64)"
| "decode_field env TF32 = (\<lambda>off k. scalar (dread_u32 env off) VF32)"
| "decode_field env TF64 = (\<lambda>off k. scalar (dread_u64 env off) VF64)"
| "decode_field env TEnum = (\<lambda>off k. scalar (dread_u32 env off) (\<lambda>v. VEnum (ucast v)))"
| "decode_field env THandle = (\<lambda>off k. scalar (checked_handle env off) VHandle)"
| "decode_field env (TString nullable) = (\<lambda>off k. pointed env nullable off (decode_string_at env))"
| "decode_field env (TArray element nullable) =
     (\<lambda>off k. decode_array env (decode_field env element) (decode_array_element env element) element nullable off)"
| "decode_field env (TMap key value nullable) =
     (\<lambda>off k. decode_map env
        (decode_array_body env (decode_field env key) (decode_array_element env key) key)
        (decode_array_body env (decode_field env value) (decode_array_element env value) value) nullable off)"
| "decode_field env (TStruct fts version nullable) =
     (let decs = map (\<lambda>ft. decode_field env (ft_ty ft)) fts in
      if nullable then (\<lambda>off k. pointed env True off (decode_struct_with env decs fts))
      else (\<lambda>off k. decode_struct_inline_with env decs fts off))"
| "decode_field env (TUnion members nullable inlined) =
     (let payloads = map (\<lambda>m. decode_union_payload env (um_ty m)) members in
      if inlined then (\<lambda>off k. decode_union_at env payloads members False off)
      else (\<lambda>off k. pointed env nullable off (decode_union_at env payloads members True)))"
| "decode_field env (TInterface version) = (\<lambda>off k. decode_interface env version off)"
| "decode_field env TAssociatedEndpoint = (\<lambda>off k. scalar (dread_u32 env off) VAssociatedEndpoint)"
| "decode_field env (TAssociatedInterface version) = (\<lambda>off k. decode_associated_interface env version off)"
| "decode_field env (TNullableScalar inner) = decode_field env inner"
| "decode_array_element env (TStruct fts version nullable) =
     decode_struct_with env (map (\<lambda>ft. decode_field env (ft_ty ft)) fts) fts"
| "decode_array_element env (TString nullable) = decode_string_at env"
| "decode_array_element env (TMap key value nullable) =
     decode_map_at env
       (decode_array_body env (decode_field env key) (decode_array_element env key) key)
       (decode_array_body env (decode_field env value) (decode_array_element env value) value)"
| "decode_array_element env (TArray inner nullable) =
     decode_array_body env (decode_field env inner) (decode_array_element env inner) inner"
| "decode_array_element env _ = (\<lambda>target. fail (EncodeErr (Unsupported ''array element decode'')))"
| "decode_union_payload env (TStruct fts version nullable) =
     (\<lambda>off. pointed env nullable off
        (decode_struct_with env (map (\<lambda>ft. decode_field env (ft_ty ft)) fts) fts))"
| "decode_union_payload env t = (\<lambda>off. decode_field env t off 0)"
  by pat_completeness auto
termination
  by (relation "measure (\<lambda>x. case x of Inl (env, t) \<Rightarrow> 2 * size t
        | Inr (Inl (env, t)) \<Rightarrow> 2 * size t | Inr (Inr (env, t)) \<Rightarrow> Suc (2 * size t))")
    (auto dest: size_parts)

definition decode_struct :: "denv \<Rightarrow> ty \<Rightarrow> nat \<Rightarrow> val step" where
  "decode_struct env t offset =
     (case t of
        TStruct fts version nullable \<Rightarrow>
          decode_struct_with env (map (\<lambda>ft. decode_field env (ft_ty ft)) fts) fts offset
      | _ \<Rightarrow> fail (EncodeErr (Unsupported ''expected struct type'')))"

section \<open>Validating a message\<close>

record validation_limits =
  vl_max_message_size :: nat
  vl_max_recursion_depth :: nat

definition default_limits :: validation_limits where
  "default_limits = \<lparr>vl_max_message_size = DEFAULT_MAX_MESSAGE_SIZE,
     vl_max_recursion_depth = DEFAULT_MAX_RECURSION_DEPTH\<rparr>"

record validated_message =
  vm_header :: message_header
  vm_payload :: val
  vm_payload_offset :: nat

definition validate_message :: "byte list \<Rightarrow> nat \<Rightarrow> ty \<Rightarrow> validation_limits \<Rightarrow> validated_message wire_result" where
  "validate_message bytes handle_count payload_type limits =
     (if length bytes < MIN_MESSAGE_SIZE then Err (Validation UnexpectedStructHeader)
      else if length bytes > vl_max_message_size limits
      then Err (EncodeErr (MessageTooLarge (length bytes) (vl_max_message_size limits)))
      else
      obind (parse bytes) (\<lambda>(header, header_size).
      obind (obind (from_option (align_up header_size MESSAGE_ALIGNMENT)) checked) (\<lambda>payload_offset.
      if payload_offset \<ge> length bytes then Err (Validation UnexpectedStructHeader)
      else
      obind (fst (decode_struct \<lparr>e_bytes = bytes, e_handle_count = handle_count,
                    e_max_depth = vl_max_recursion_depth limits\<rparr> payload_type payload_offset dec_new)) (\<lambda>payload.
      Ok \<lparr>vm_header = header, vm_payload = payload, vm_payload_offset = payload_offset\<rparr>))))"

end
