(* ===== verification/WireEncode.thy ===== *)
theory WireEncode
  imports WireDecode
begin

text \<open>
  The encoder: \<open>Encoder\<close> and \<open>encode_message\<close> of \<open>crates/mojo-rs-wire/src/value.rs\<close>.  A step takes the
  encoder's buffer, handle count and depth to an outcome and the state after it.  As in the decoder
  the steps of a composite type are written over the encoders of its parts.  Growing the buffer is
  \<open>resize\<close> with zeros; running out of memory is not modelled.
\<close>

section \<open>Encoder steps\<close>

record enc =
  en_buf :: "byte list"
  en_handles :: nat
  en_depth :: nat

type_synonym estep = "(enc, unit) stateful"

definition MAX_ENCODE_DEPTH :: nat where
  "MAX_ENCODE_DEPTH = 64"

text \<open>\<open>if end > buf.len() { buf.resize(end, 0) }\<close>.\<close>

definition grow :: "nat \<Rightarrow> byte list \<Rightarrow> byte list" where
  "grow e buf = buf @ replicate (e - length buf) 0"

definition grow_to :: "nat \<Rightarrow> estep" where
  "grow_to e s = (Ok (), s\<lparr>en_buf := grow e (en_buf s)\<rparr>)"

text \<open>The \<open>write_le!\<close> macro, on the little-endian bytes of the value.\<close>

definition write_le :: "nat \<Rightarrow> byte list \<Rightarrow> estep" where
  "write_le offset bytes = andthen (lift (checked (checked_add offset (length bytes)))) (\<lambda>e.
     andthen (grow_to e) (\<lambda>_ s.
     case copy_into (en_buf s) offset e bytes of
       None \<Rightarrow> (Panic, s)
     | Some buf \<Rightarrow> (Ok (), s\<lparr>en_buf := buf\<rparr>)))"

text \<open>Setting and clearing a bit of a byte that is there; indexing past the end panics.\<close>

definition write_bit :: "nat \<Rightarrow> nat \<Rightarrow> bool \<Rightarrow> estep" where
  "write_bit offset b value s =
     (if offset < length (en_buf s)
      then let byte = en_buf s ! offset; mask = push_bit b 1 in
           (Ok (), s\<lparr>en_buf := (en_buf s)[offset := if value then byte OR mask else byte AND NOT mask]\<rparr>)
      else (Panic, s))"

definition push_handle :: estep where
  "push_handle s = (Ok (), s\<lparr>en_handles := en_handles s + 1\<rparr>)"

definition enc_enter :: estep where
  "enc_enter s =
     (let s' = s\<lparr>en_depth := en_depth s + 1\<rparr> in
      if en_depth s' > MAX_ENCODE_DEPTH then (Err (EncodeErr (RecursionLimitExceeded (en_depth s'))), s')
      else (Ok (), s'))"

definition enc_nested :: "estep \<Rightarrow> estep" where
  "enc_nested body = andthen enc_enter (\<lambda>_ s.
     let (r, s') = body s in (r, s'\<lparr>en_depth := en_depth s' - 1\<rparr>))"

definition append_object_start :: "(enc, nat) stateful" where
  "append_object_start s =
     andthen (lift (obind (from_option (align_up (length (en_buf s)) MESSAGE_ALIGNMENT)) checked)) (\<lambda>aligned.
     andthen (grow_to aligned) (\<lambda>_. ret aligned)) s"

text \<open>A pointer slot at \<open>offset\<close> to an object that \<open>body\<close> writes at the end of the buffer.\<close>

definition pointing :: "nat \<Rightarrow> (nat \<Rightarrow> estep) \<Rightarrow> estep" where
  "pointing offset body =
     andthen append_object_start (\<lambda>target.
     andthen (body target) (\<lambda>_.
     write_le offset (to_le 8 (pointer_encode (of_nat offset) (of_nat target)))))"

definition mismatch :: wire_error where
  "mismatch = EncodeErr (Unsupported ''value/type mismatch'')"

text \<open>\<open>write_le!(self, target + 4, v)\<close>.\<close>

definition write_second :: "nat \<Rightarrow> u32 \<Rightarrow> estep" where
  "write_second offset v = andthen (lift (plus offset 4)) (\<lambda>o4. write_le o4 (to_le 4 v))"

definition write_handle :: "nat \<Rightarrow> u32 \<Rightarrow> estep" where
  "write_handle offset index =
     andthen (if index = ENCODED_INVALID_HANDLE_VALUE then ret () else push_handle) (\<lambda>_.
     write_le offset (to_le 4 index))"

section \<open>Strings, arrays and maps\<close>

definition string_of :: "val \<Rightarrow> byte list" where
  "string_of v = (case v of VString str \<Rightarrow> str | _ \<Rightarrow> [])"

definition array_of :: "val \<Rightarrow> val list" where
  "array_of v = (case v of VArray items \<Rightarrow> items | _ \<Rightarrow> [])"

text \<open>\<open>self.buf[a..b].copy_from_slice(xs)\<close>.\<close>

definition copy_in :: "nat \<Rightarrow> byte list \<Rightarrow> estep" where
  "copy_in a xs s =
     (case copy_into (en_buf s) a (a + length xs) xs of
        None \<Rightarrow> (Panic, s)
      | Some buf \<Rightarrow> (Ok (), s\<lparr>en_buf := buf\<rparr>))"

definition encode_string_object_at :: "nat \<Rightarrow> byte list \<Rightarrow> estep" where
  "encode_string_object_at target str =
     andthen (lift (plus (ARRAY_HEADER_SIZE + length str) 1)) (\<lambda>raw.
     andthen (lift (obind (from_option (align_up raw MESSAGE_ALIGNMENT)) checked)) (\<lambda>total.
     andthen (lift (checked (checked_add target total))) (\<lambda>e.
     andthen (grow_to e) (\<lambda>_.
     andthen (write_le target (to_le 4 (of_nat total :: u32))) (\<lambda>_.
     andthen (write_second target (of_nat (length str))) (\<lambda>_.
     andthen (copy_in (target + 8) str) (\<lambda>_.
     copy_in (target + 8 + length str) [0])))))))"

definition encode_string :: "nat \<Rightarrow> byte list \<Rightarrow> estep" where
  "encode_string offset str = pointing offset (\<lambda>target. encode_string_object_at target str)"

text \<open>\<open>fe\<close> encodes an element in place, \<open>ee\<close> the object of an element that is a pointer.\<close>

definition encode_array_body ::
  "(nat \<Rightarrow> nat \<Rightarrow> val \<Rightarrow> estep) \<Rightarrow> (nat \<Rightarrow> val \<Rightarrow> estep) \<Rightarrow> ty \<Rightarrow> nat \<Rightarrow> val list \<Rightarrow> estep" where
  "encode_array_body fe ee element target items =
     (let size = elem_size element; raw = size * length items in
      andthen (lift (checked (if raw < usize_limit then Some raw else None))) (\<lambda>raw.
      andthen (lift (plus ARRAY_HEADER_SIZE raw)) (\<lambda>need.
      andthen (lift (obind (from_option (align_up need MESSAGE_ALIGNMENT)) checked)) (\<lambda>total.
      andthen (lift (checked (checked_add target total))) (\<lambda>e.
      andthen (grow_to e) (\<lambda>_.
      andthen (write_le target (to_le 4 (of_nat total :: u32))) (\<lambda>_.
      andthen (write_second target (of_nat (length items))) (\<lambda>_.
      andthen (each (\<lambda>i.
          let item_off = target + ARRAY_HEADER_SIZE + i * size; item = items ! i in
          if is_pod element then fe item_off 0 item
          else if item = VNull then write_le item_off (to_le 8 (0 :: u64))
          else pointing item_off (\<lambda>obj. ee obj item)) [0..<length items])
      (\<lambda>_. ret ())))))))))"

definition encode_array ::
  "(nat \<Rightarrow> nat \<Rightarrow> val \<Rightarrow> estep) \<Rightarrow> (nat \<Rightarrow> val \<Rightarrow> estep) \<Rightarrow> ty \<Rightarrow> nat \<Rightarrow> val list \<Rightarrow> estep" where
  "encode_array fe ee element offset items =
     pointing offset (\<lambda>target. enc_nested (encode_array_body fe ee element target items))"

text \<open>\<open>keys\<close> and \<open>vals\<close> encode the two arrays.\<close>

definition encode_map_at ::
  "(nat \<Rightarrow> val list \<Rightarrow> estep) \<Rightarrow> (nat \<Rightarrow> val list \<Rightarrow> estep) \<Rightarrow> nat \<Rightarrow> val list \<Rightarrow> val list \<Rightarrow> estep" where
  "encode_map_at keys vals target ks vs =
     (if length ks \<noteq> length vs then fail (EncodeErr (MapKeyCountMismatch (length ks) (length vs)))
      else
      andthen (lift (checked (checked_add target 24))) (\<lambda>e.
      andthen (grow_to e) (\<lambda>_.
      andthen (write_le target (to_le 4 (24 :: u32))) (\<lambda>_.
      andthen (write_second target 0) (\<lambda>_.
      enc_nested (
        andthen (pointing (target + 8) (\<lambda>ko. keys ko ks)) (\<lambda>_.
        pointing (target + 16) (\<lambda>vo. vals vo vs))))))))"

definition encode_map ::
  "(nat \<Rightarrow> val list \<Rightarrow> estep) \<Rightarrow> (nat \<Rightarrow> val list \<Rightarrow> estep) \<Rightarrow> nat \<Rightarrow> val list \<Rightarrow> val list \<Rightarrow> estep" where
  "encode_map keys vals offset ks vs = pointing offset (\<lambda>target. encode_map_at keys vals target ks vs)"
section \<open>Structs\<close>

text \<open>The loop over the packed fields.  \<open>encs\<close> holds, for each field, the encoder of its type without the
  nullable wrapper of a scalar; an absent nullable scalar leaves the zero bytes in place.\<close>

fun encode_packed ::
  "(nat \<Rightarrow> nat \<Rightarrow> val \<Rightarrow> estep) list \<Rightarrow> nat \<Rightarrow> val list \<Rightarrow> packed_field list \<Rightarrow> estep" where
  "encode_packed encs offset values [] = ret ()"
| "encode_packed encs offset values (pf # pfs) =
     (let idx = f_index (pf_field pf);
          v = (if idx < length values then values ! idx else VNull);
          field_off = offset + STRUCT_HEADER_SIZE + pf_offset pf in
      andthen
        (if f_nullable_value_kind (pf_field pf)
         then if f_kind (pf_field pf) = KBool
           then write_bit field_off (pf_bit pf) (case v of VNullableScalar True _ \<Rightarrow> True | _ \<Rightarrow> False)
           else (case v of VNullableScalar True x \<Rightarrow> (encs ! idx) field_off 0 x | _ \<Rightarrow> ret ())
         else (encs ! idx) field_off (pf_bit pf) v)
        (\<lambda>_. encode_packed encs offset values pfs))"

definition encode_struct_at ::
  "(nat \<Rightarrow> nat \<Rightarrow> val \<Rightarrow> estep) list \<Rightarrow> field_type list \<Rightarrow> bool \<Rightarrow> nat \<Rightarrow> val \<Rightarrow> estep" where
  "encode_struct_at encs fts nullable offset v =
     (case v of
        VStruct version values \<Rightarrow>
          andthen (lift (pack_struct fts)) (\<lambda>packed.
          let size = ps_size packed in
          andthen (lift (checked (checked_add offset size))) (\<lambda>e.
          andthen (grow_to e) (\<lambda>_.
          andthen (write_le offset (to_le 4 (of_nat size :: u32))) (\<lambda>_.
          andthen (write_second offset version) (\<lambda>_.
          encode_packed encs offset values (packed_fields packed))))))
      | VNull \<Rightarrow>
          if nullable then fail (EncodeErr UnexpectedNull)
          else fail (EncodeErr (Unsupported ''value/type mismatch in struct encode''))
      | _ \<Rightarrow> fail (EncodeErr (Unsupported ''value/type mismatch in struct encode'')))"

section \<open>Unions\<close>

definition encode_union_inline :: "(nat \<Rightarrow> val \<Rightarrow> estep) \<Rightarrow> nat \<Rightarrow> u32 \<Rightarrow> val \<Rightarrow> estep" where
  "encode_union_inline payload offset tag v =
     andthen (lift (checked (checked_add offset 16))) (\<lambda>e.
     andthen (grow_to e) (\<lambda>_.
     andthen (write_le offset (to_le 4 (of_nat UNION_DATA_SIZE :: u32))) (\<lambda>_.
     andthen (write_second offset tag) (\<lambda>_.
     payload (offset + 8) v))))"

text \<open>The union arms of \<open>encode_field_at\<close>; \<open>payloads\<close> holds the encoder of each member.\<close>

definition encode_union :: "(nat \<Rightarrow> val \<Rightarrow> estep) list \<Rightarrow> bool \<Rightarrow> bool \<Rightarrow> nat \<Rightarrow> val \<Rightarrow> estep" where
  "encode_union payloads nullable inlined offset v =
     (case v of
        VUnion tag x \<Rightarrow>
          if unat tag \<ge> length payloads then fail (EncodeErr InvalidUnionValue)
          else if inlined then encode_union_inline (payloads ! unat tag) offset tag x
          else pointing offset (\<lambda>target. encode_union_inline (payloads ! unat tag) target tag x)
      | VNull \<Rightarrow> if nullable then write_le offset (to_le 8 (0 :: u64)) else fail mismatch
      | _ \<Rightarrow> fail mismatch)"

section \<open>The recursion on types\<close>

abbreviation null_or_mismatch :: "bool \<Rightarrow> nat \<Rightarrow> val \<Rightarrow> estep" where
  "null_or_mismatch nullable off v \<equiv>
     (if nullable \<and> v = VNull then write_le off (to_le 8 (0 :: u64)) else fail mismatch)"

lemma size_unbox: "size (unbox_scalar t) \<le> size t"
  by (cases t) simp_all

lemma size_unbox_parts: "ft \<in> set fts \<Longrightarrow> size (unbox_scalar (ft_ty ft)) < size_list size fts"
  using size_parts(1) [of ft fts] size_unbox [of "ft_ty ft"] by simp

text \<open>\<open>encode_field_at\<close>, \<open>encode_array_element_at\<close> and \<open>encode_union_payload\<close>.\<close>

function (sequential) encode_field :: "ty \<Rightarrow> nat \<Rightarrow> nat \<Rightarrow> val \<Rightarrow> estep"
  and encode_array_element :: "ty \<Rightarrow> nat \<Rightarrow> val \<Rightarrow> estep"
  and encode_union_payload :: "ty \<Rightarrow> nat \<Rightarrow> val \<Rightarrow> estep" where
  "encode_field TBool = (\<lambda>off k v. case v of VBool b \<Rightarrow> write_bit off k b | _ \<Rightarrow> fail mismatch)"
| "encode_field TI8 = (\<lambda>off k v. case v of VI8 x \<Rightarrow> write_le off (to_le 1 x) | _ \<Rightarrow> fail mismatch)"
| "encode_field TU8 = (\<lambda>off k v. case v of VU8 x \<Rightarrow> write_le off (to_le 1 x) | _ \<Rightarrow> fail mismatch)"
| "encode_field TI16 = (\<lambda>off k v. case v of VI16 x \<Rightarrow> write_le off (to_le 2 x) | _ \<Rightarrow> fail mismatch)"
| "encode_field TU16 = (\<lambda>off k v. case v of VU16 x \<Rightarrow> write_le off (to_le 2 x) | _ \<Rightarrow> fail mismatch)"
| "encode_field TI32 = (\<lambda>off k v. case v of VI32 x \<Rightarrow> write_le off (to_le 4 x) | _ \<Rightarrow> fail mismatch)"
| "encode_field TU32 = (\<lambda>off k v. case v of VU32 x \<Rightarrow> write_le off (to_le 4 x) | _ \<Rightarrow> fail mismatch)"
| "encode_field TI64 = (\<lambda>off k v. case v of VI64 x \<Rightarrow> write_le off (to_le 8 x) | _ \<Rightarrow> fail mismatch)"
| "encode_field TU64 = (\<lambda>off k v. case v of VU64 x \<Rightarrow> write_le off (to_le 8 x) | _ \<Rightarrow> fail mismatch)"
| "encode_field TF32 = (\<lambda>off k v. case v of VF32 x \<Rightarrow> write_le off (to_le 4 x) | _ \<Rightarrow> fail mismatch)"
| "encode_field TF64 = (\<lambda>off k v. case v of VF64 x \<Rightarrow> write_le off (to_le 8 x) | _ \<Rightarrow> fail mismatch)"
| "encode_field TEnum = (\<lambda>off k v. case v of VEnum x \<Rightarrow> write_le off (to_le 4 (ucast x :: u32)) | _ \<Rightarrow> fail mismatch)"
| "encode_field THandle = (\<lambda>off k v. case v of VHandle i \<Rightarrow> write_handle off i | _ \<Rightarrow> fail mismatch)"
| "encode_field (TString nullable) = (\<lambda>off k v. case v of
      VString str \<Rightarrow> encode_string off str | _ \<Rightarrow> null_or_mismatch nullable off v)"
| "encode_field (TArray element nullable) = (\<lambda>off k v. case v of
      VArray items \<Rightarrow> encode_array (encode_field element) (encode_array_element element) element off items
    | _ \<Rightarrow> null_or_mismatch nullable off v)"
| "encode_field (TMap key value nullable) = (\<lambda>off k v. case v of
      VMap ks vs \<Rightarrow> encode_map
        (encode_array_body (encode_field key) (encode_array_element key) key)
        (encode_array_body (encode_field value) (encode_array_element value) value) off ks vs
    | _ \<Rightarrow> null_or_mismatch nullable off v)"
| "encode_field (TStruct fts version nullable) =
     (let encs = map (\<lambda>ft. encode_field (unbox_scalar (ft_ty ft))) fts in
      (\<lambda>off k v. case v of
        VStruct _ _ \<Rightarrow>
          if nullable then pointing off (\<lambda>target. encode_struct_at encs fts nullable target v)
          else encode_struct_at encs fts nullable off v
      | _ \<Rightarrow> null_or_mismatch nullable off v))"
| "encode_field (TUnion members nullable inlined) =
     (let payloads = map (\<lambda>m. encode_union_payload (um_ty m)) members in
      (\<lambda>off k v. encode_union payloads nullable inlined off v))"
| "encode_field (TInterface version) = (\<lambda>off k v. case v of
      VInterface i w \<Rightarrow> andthen (write_handle off i) (\<lambda>_. write_second off (max w version))
    | _ \<Rightarrow> fail mismatch)"
| "encode_field TAssociatedEndpoint = (\<lambda>off k v. case v of
      VAssociatedEndpoint i \<Rightarrow> write_le off (to_le 4 i) | _ \<Rightarrow> fail mismatch)"
| "encode_field (TAssociatedInterface version) = (\<lambda>off k v. case v of
      VAssociatedInterface i w \<Rightarrow> andthen (write_le off (to_le 4 i)) (\<lambda>_. write_second off (max w version))
    | _ \<Rightarrow> fail mismatch)"
| "encode_field (TNullableScalar inner) = (\<lambda>off k v. case v of
      VNullableScalar present x \<Rightarrow> if present then encode_field inner off k x else ret ()
    | VNull \<Rightarrow> ret ()
    | _ \<Rightarrow> fail mismatch)"
| "encode_array_element (TStruct fts version nullable) =
     (let encs = map (\<lambda>ft. encode_field (unbox_scalar (ft_ty ft))) fts in
      (\<lambda>target item. if nullable \<and> item = VNull then ret () else encode_struct_at encs fts nullable target item))"
| "encode_array_element (TString nullable) = (\<lambda>target item. encode_string_object_at target (string_of item))"
| "encode_array_element (TArray inner nullable) =
     (\<lambda>target item. encode_array_body (encode_field inner) (encode_array_element inner) inner target (array_of item))"
| "encode_array_element (TMap key value nullable) = (\<lambda>target item. case item of
      VMap ks vs \<Rightarrow> encode_map_at
        (encode_array_body (encode_field key) (encode_array_element key) key)
        (encode_array_body (encode_field value) (encode_array_element value) value) target ks vs
    | _ \<Rightarrow> fail (EncodeErr TypeMismatch))"
| "encode_array_element _ = (\<lambda>target item. fail (EncodeErr (Unsupported ''array element encode'')))"
| "encode_union_payload (TStruct fts version nullable) =
     (let encs = map (\<lambda>ft. encode_field (unbox_scalar (ft_ty ft))) fts in
      (\<lambda>off v. case v of
        VStruct _ _ \<Rightarrow>
          if nullable then pointing off (\<lambda>target. encode_struct_at encs fts nullable target v)
          else encode_struct_at encs fts nullable off v
      | _ \<Rightarrow> null_or_mismatch nullable off v))"
| "encode_union_payload (TArray element nullable) = (\<lambda>off v. case v of
      VArray items \<Rightarrow> pointing off (\<lambda>target.
        encode_array_body (encode_field element) (encode_array_element element) element target items)
    | _ \<Rightarrow> null_or_mismatch nullable off v)"
| "encode_union_payload t = (\<lambda>off v. encode_field t off 0 v)"
  by pat_completeness auto
termination
  by (relation "measure (\<lambda>x. case x of Inl t \<Rightarrow> 2 * size t
        | Inr (Inl t) \<Rightarrow> 2 * size t | Inr (Inr t) \<Rightarrow> Suc (2 * size t))")
    (auto dest: size_parts size_unbox_parts)

section \<open>A whole message\<close>

record encoded_message =
  em_bytes :: "byte list"
  em_handle_count :: nat

text \<open>The capacity hint of the handle vector has no effect and is left out.\<close>

definition encode_message :: "byte list \<Rightarrow> ty \<Rightarrow> val \<Rightarrow> encoded_message wire_result" where
  "encode_message header t v =
     (case t of
        TStruct fts version nullable \<Rightarrow>
          obind (obind (from_option (align_up (length header) MESSAGE_ALIGNMENT)) checked) (\<lambda>payload_offset.
          let s0 = \<lparr>en_buf = grow payload_offset header, en_handles = 0, en_depth = 0\<rparr>;
              (r, s) = encode_struct_at (map (\<lambda>ft. encode_field (unbox_scalar (ft_ty ft))) fts) fts nullable payload_offset v s0 in
          obind r (\<lambda>_.
          obind (if length header \<ge> MESSAGE_HEADER_V2_SIZE
             then from_option (copy_into (en_buf s) HEADER_PAYLOAD_OFFSET (HEADER_PAYLOAD_OFFSET + 8)
               (to_le 8 (pointer_encode (of_nat HEADER_PAYLOAD_OFFSET) (of_nat payload_offset))))
             else Ok (en_buf s)) (\<lambda>bytes.
          Ok \<lparr>em_bytes = bytes, em_handle_count = en_handles s\<rparr>)))
      | _ \<Rightarrow> Err (EncodeErr (Unsupported ''payload must be a struct'')))"

end
