(* ===== verification/WireSound.thy ===== *)
theory WireSound
  imports WireDecode
begin

text \<open>
  What the decoder of \<open>WireDecode\<close> guarantees.  A value conforms to a schema type when it has the
  shape the type asks for; a decoder step is sound when each success has a conforming value, restores
  the depth and moves the claim frontier forward inside the message; it is calm when it cannot panic.
  Both are proved for every decoder by induction on the schema, and the properties follow.
\<close>

section \<open>Conformance to a schema\<close>

definition handle_ok :: "denv \<Rightarrow> u32 \<Rightarrow> bool" where
  "handle_ok env i = (i = ENCODED_INVALID_HANDLE_VALUE \<or> unat i < e_handle_count env)"

definition ft_version :: "field_type \<Rightarrow> u32" where
  "ft_version ft = (case ft_min_version ft of None \<Rightarrow> 0 | Some v \<Rightarrow> v)"

text \<open>A field of a struct of version \<open>w\<close>: fields the version has conform to their type, later ones are
  defaults.  A nullable scalar is absent, or present with a value of the scalar type.\<close>

definition field_conforms :: "(val \<Rightarrow> bool) \<Rightarrow> field_type \<Rightarrow> u32 \<Rightarrow> val \<Rightarrow> bool" where
  "field_conforms ok ft w x =
     (if is_nullable_scalar (ft_ty ft)
      then (case x of VNullableScalar p y \<Rightarrow> if p then ft_version ft \<le> w \<and> ok y else y = VNull | _ \<Rightarrow> False)
      else if ft_version ft \<le> w then ok x
      else x = default_value ft)"

lemma size_unboxed: "size (unbox_scalar t) \<le> size t"
  by (cases t) simp_all

lemma size_parts_Suc [termination_simp]:
  "ft \<in> set fts \<Longrightarrow> size (ft_ty ft) < Suc (size_list size fts)"
  "ft \<in> set fts \<Longrightarrow> size (unbox_scalar (ft_ty ft)) < Suc (size_list size fts)"
  "m \<in> set ms \<Longrightarrow> size (um_ty m) < Suc (size_list size ms)"
  by (simp_all add: size_parts less_SucI le_less_trans [OF size_unboxed])

fun conforms :: "denv \<Rightarrow> ty \<Rightarrow> val \<Rightarrow> bool" where
  "conforms env TBool = (\<lambda>v. case v of VBool _ \<Rightarrow> True | _ \<Rightarrow> False)"
| "conforms env TI8 = (\<lambda>v. case v of VI8 _ \<Rightarrow> True | _ \<Rightarrow> False)"
| "conforms env TU8 = (\<lambda>v. case v of VU8 _ \<Rightarrow> True | _ \<Rightarrow> False)"
| "conforms env TI16 = (\<lambda>v. case v of VI16 _ \<Rightarrow> True | _ \<Rightarrow> False)"
| "conforms env TU16 = (\<lambda>v. case v of VU16 _ \<Rightarrow> True | _ \<Rightarrow> False)"
| "conforms env TI32 = (\<lambda>v. case v of VI32 _ \<Rightarrow> True | _ \<Rightarrow> False)"
| "conforms env TU32 = (\<lambda>v. case v of VU32 _ \<Rightarrow> True | _ \<Rightarrow> False)"
| "conforms env TI64 = (\<lambda>v. case v of VI64 _ \<Rightarrow> True | _ \<Rightarrow> False)"
| "conforms env TU64 = (\<lambda>v. case v of VU64 _ \<Rightarrow> True | _ \<Rightarrow> False)"
| "conforms env TF32 = (\<lambda>v. case v of VF32 _ \<Rightarrow> True | _ \<Rightarrow> False)"
| "conforms env TF64 = (\<lambda>v. case v of VF64 _ \<Rightarrow> True | _ \<Rightarrow> False)"
| "conforms env TEnum = (\<lambda>v. case v of VEnum e \<Rightarrow> unat e < 2 ^ 32 | _ \<Rightarrow> False)"
| "conforms env THandle = (\<lambda>v. case v of VHandle i \<Rightarrow> handle_ok env i | _ \<Rightarrow> False)"
| "conforms env (TString nullable) = (\<lambda>v. case v of
      VString str \<Rightarrow> utf8_valid str \<and> 0 \<notin> set str | VNull \<Rightarrow> nullable | _ \<Rightarrow> False)"
| "conforms env (TArray element nullable) = (\<lambda>v. case v of
      VArray vs \<Rightarrow> list_all (conforms env element) vs | VNull \<Rightarrow> nullable | _ \<Rightarrow> False)"
| "conforms env (TMap key value nullable) = (\<lambda>v. case v of
      VMap ks vs \<Rightarrow> length ks = length vs \<and> list_all (conforms env key) ks \<and> list_all (conforms env value) vs
    | VNull \<Rightarrow> nullable | _ \<Rightarrow> False)"
| "conforms env (TStruct fts version nullable) =
     (let oks = map (\<lambda>ft. conforms env (unbox_scalar (ft_ty ft))) fts in
      (\<lambda>v. case v of
          VStruct w vs \<Rightarrow> length vs = length fts \<and>
            list_all (\<lambda>i. field_conforms (oks ! i) (fts ! i) w (vs ! i)) [0..<length fts]
        | VNull \<Rightarrow> nullable | _ \<Rightarrow> False))"
| "conforms env (TUnion members nullable inlined) =
     (let oks = map (\<lambda>m. conforms env (um_ty m)) members in
      (\<lambda>v. case v of
          VUnion tag x \<Rightarrow> unat tag < length members \<and> (oks ! unat tag) x
        | VNull \<Rightarrow> nullable | _ \<Rightarrow> False))"
| "conforms env (TInterface version) = (\<lambda>v. case v of
      VInterface i w \<Rightarrow> handle_ok env i \<and> version \<le> w | _ \<Rightarrow> False)"
| "conforms env TAssociatedEndpoint = (\<lambda>v. case v of VAssociatedEndpoint _ \<Rightarrow> True | _ \<Rightarrow> False)"
| "conforms env (TAssociatedInterface version) = (\<lambda>v. case v of
      VAssociatedInterface _ w \<Rightarrow> version \<le> w | _ \<Rightarrow> False)"
| "conforms env (TNullableScalar inner) = (\<lambda>v. v = VNull \<or> conforms env inner v)"

text \<open>A schema in which no struct has a nullable boolean field.  The decoder loses the value of such a field
  (\<open>nullable_bool_lost\<close>): what it makes of a present one is not a value of the schema.\<close>

definition nullable_bool :: "field_type \<Rightarrow> bool" where
  "nullable_bool ft \<longleftrightarrow> is_nullable_scalar (ft_ty ft) \<and> pack_kind (ft_ty ft) = KBool"

fun no_nullable_bool :: "ty \<Rightarrow> bool" where
  "no_nullable_bool (TArray element _) \<longleftrightarrow> no_nullable_bool element"
| "no_nullable_bool (TMap key value _) \<longleftrightarrow> no_nullable_bool key \<and> no_nullable_bool value"
| "no_nullable_bool (TStruct fts _ _) \<longleftrightarrow> list_all id (map (\<lambda>ft. \<not> nullable_bool ft \<and> no_nullable_bool (ft_ty ft)) fts)"
| "no_nullable_bool (TUnion members _ _) \<longleftrightarrow> list_all id (map (\<lambda>m. no_nullable_bool (um_ty m)) members)"
| "no_nullable_bool (TNullableScalar inner) \<longleftrightarrow> no_nullable_bool inner"
| "no_nullable_bool _ \<longleftrightarrow> True"

section \<open>Sound steps\<close>

text \<open>A step is sound for \<open>P\<close> when each success has a value in \<open>P\<close>, restores the depth and moves the
  frontier forward, inside the message.\<close>

definition sound :: "denv \<Rightarrow> ('a \<Rightarrow> bool) \<Rightarrow> 'a step \<Rightarrow> bool" where
  "sound env P m = (\<forall>s a s'. d_frontier s \<le> length (e_bytes env) \<longrightarrow> m s = (Ok a, s') \<longrightarrow>
     P a \<and> d_depth s' = d_depth s \<and> d_frontier s \<le> d_frontier s' \<and> d_frontier s' \<le> length (e_bytes env))"

named_theorems sound_intros

lemma soundD:
  assumes "sound env P m" "m s = (Ok a, s')" "d_frontier s \<le> length (e_bytes env)"
  shows "P a" "d_depth s' = d_depth s" "d_frontier s \<le> d_frontier s'" "d_frontier s' \<le> length (e_bytes env)"
  using assms unfolding sound_def by blast+

lemma sound_ret [sound_intros]: "P a \<Longrightarrow> sound env P (ret a)"
  by (simp add: sound_def ret_def)

lemma sound_fail [sound_intros]: "sound env P (fail e)"
  by (simp add: sound_def fail_def)

lemma sound_lift [sound_intros]: "sound env (\<lambda>a. r = Ok a) (lift r)"
  by (simp add: sound_def lift_def)

lemma sound_andthen:
  assumes "sound env Q m" "\<And>a. Q a \<Longrightarrow> sound env P (f a)"
  shows "sound env P (andthen m f)"
  unfolding sound_def
proof (intro allI impI)
  fix s b s' assume s: "d_frontier s \<le> length (e_bytes env)" and r: "andthen m f s = (Ok b, s')"
  obtain a s1 where m: "m s = (Ok a, s1)" and f: "f a s1 = (Ok b, s')"
    using r by (auto simp: andthen_def split: prod.splits outcome.splits)
  note 1 = soundD [OF assms(1) m s]
  note 2 = soundD [OF assms(2) [OF 1(1)] f 1(4)]
  show "P b \<and> d_depth s' = d_depth s \<and> d_frontier s \<le> d_frontier s' \<and> d_frontier s' \<le> length (e_bytes env)"
    using 1 2 by simp
qed

text \<open>The value of a lifted computation is known to its continuation.\<close>

lemma sound_lift_andthen [sound_intros]:
  "(\<And>a. r = Ok a \<Longrightarrow> sound env P (f a)) \<Longrightarrow> sound env P (andthen (lift r) f)"
  by (rule sound_andthen [OF sound_lift])

lemma sound_claim: "sound env (\<lambda>_. True) (claim env start len)"
  by (auto simp: sound_def claim_def split: option.splits if_splits)

lemma sound_claim_andthen [sound_intros]:
  "(\<And>u. sound env P (f u)) \<Longrightarrow> sound env P (andthen (claim env start len) f)"
  by (rule sound_andthen [OF sound_claim])

lemma sound_nested [sound_intros]:
  assumes "sound env P body"
  shows "sound env P (nested env body)"
  unfolding sound_def
proof (intro allI impI)
  fix s a s' assume s: "d_frontier s \<le> length (e_bytes env)" and r: "nested env body s = (Ok a, s')"
  let ?s = "s\<lparr>d_depth := d_depth s + 1\<rparr>"
  obtain s1 where b: "body ?s = (Ok a, s1)" and s': "s' = s1\<lparr>d_depth := d_depth s1 - 1\<rparr>"
    using r by (auto simp: nested_def andthen_def enter_def Let_def split: prod.splits if_splits)
  show "P a \<and> d_depth s' = d_depth s \<and> d_frontier s \<le> d_frontier s' \<and> d_frontier s' \<le> length (e_bytes env)"
    using soundD [OF assms b] s s' by simp
qed

lemma sound_if [sound_intros]:
  "(c \<Longrightarrow> sound env P m) \<Longrightarrow> (\<not> c \<Longrightarrow> sound env P n) \<Longrightarrow> sound env P (if c then m else n)"
  by simp

lemma sound_weaken: "sound env Q m \<Longrightarrow> (\<And>a. Q a \<Longrightarrow> P a) \<Longrightarrow> sound env P m"
  unfolding sound_def by blast

lemma sound_each:
  assumes "\<And>x. x \<in> set xs \<Longrightarrow> sound env P (f x)"
  shows "sound env (\<lambda>ys. length ys = length xs \<and> list_all P ys) (each f xs)"
  using assms
proof (induction xs)
  case (Cons x xs)
  then have "sound env (\<lambda>ys. length ys = length xs \<and> list_all P ys) (each f xs)" "sound env P (f x)" by simp_all
  then show ?case unfolding each.simps
    by (intro sound_andthen [of env P "f x"] sound_andthen [of env "\<lambda>ys. length ys = length xs \<and> list_all P ys"] sound_ret)
      simp_all
qed (simp add: sound_ret)

lemma sound_pointed [sound_intros]:
  assumes "nullable \<Longrightarrow> P VNull" "\<And>t. sound env P (object t)"
  shows "sound env P (pointed env nullable offset object)"
  unfolding pointed_def
  by (intro sound_lift_andthen) (auto split: option.split intro!: sound_intros assms)

definition good_string :: "val \<Rightarrow> bool" where
  "good_string v = (case v of VString str \<Rightarrow> utf8_valid str \<and> 0 \<notin> set str | _ \<Rightarrow> False)"

lemma sound_string: "sound env good_string (decode_string_at env target)"
  unfolding decode_string_at_def Let_def
  by (intro sound_intros) (simp_all add: good_string_def)

definition array_of_ok :: "(val \<Rightarrow> bool) \<Rightarrow> val \<Rightarrow> bool" where
  "array_of_ok P v = (case v of VArray vs \<Rightarrow> list_all P vs | _ \<Rightarrow> False)"

lemma sound_array_body:
  assumes "\<And>off k. sound env P (fd off k)" "\<And>t. sound env P (ed t)" "is_nullable element \<Longrightarrow> P VNull"
  shows "sound env (array_of_ok P) (decode_array_body env fd ed element target)"
proof -
  have "sound env P (let item_off = off + i * k in
      if is_pod element then fd item_off 0 else pointed env (is_nullable element) item_off ed)" for off i k
    using assms by (auto simp: Let_def intro!: sound_pointed)
  then have e: "sound env (\<lambda>ys. length ys = length xs \<and> list_all P ys) (each (\<lambda>i. let item_off = off + i * k in
      if is_pod element then fd item_off 0 else pointed env (is_nullable element) item_off ed) xs)" for off k xs
    by (rule sound_each)
  show ?thesis unfolding decode_array_body_def Let_def
    by (intro sound_intros sound_andthen [OF e [unfolded Let_def]]) (simp add: array_of_ok_def)
qed

lemma sound_array:
  assumes "\<And>t. sound env P (decode_array_body env fd ed element t)" "nullable \<Longrightarrow> P VNull"
  shows "sound env P (decode_array env fd ed element nullable offset)"
  unfolding decode_array_def by (intro sound_intros assms)

definition map_of_ok :: "(val \<Rightarrow> bool) \<Rightarrow> (val \<Rightarrow> bool) \<Rightarrow> val \<Rightarrow> bool" where
  "map_of_ok P Q v = (case v of
     VMap ks vs \<Rightarrow> length ks = length vs \<and> list_all P ks \<and> list_all Q vs | _ \<Rightarrow> False)"

lemma sound_map_at:
  assumes k: "\<And>t. sound env (array_of_ok P) (keys t)" and v: "\<And>t. sound env (array_of_ok Q) (vals t)"
  shows "sound env (map_of_ok P Q) (decode_map_at env keys vals target)"
proof -
  have fin: "sound env (map_of_ok P Q) (case (ks, vs) of
           (VArray k, VArray v) \<Rightarrow>
             if length k \<noteq> length v then fail (Validation DifferentSizedArraysInMap)
             else ret (VMap k v)
         | _ \<Rightarrow> fail (EncodeErr (Unsupported ''map arrays'')))"
    if "array_of_ok P ks" "array_of_ok Q vs" for ks vs
    using that by (auto simp: array_of_ok_def map_of_ok_def split: val.splits intro!: sound_intros)
  have "sound env (map_of_ok P Q) (case (kp, vp) of
       (Some ko, Some vo) \<Rightarrow>
         andthen (keys ko) (\<lambda>ks.
         andthen (vals vo) (\<lambda>vs.
         case (ks, vs) of
           (VArray k, VArray v) \<Rightarrow>
             if length k \<noteq> length v then fail (Validation DifferentSizedArraysInMap)
             else ret (VMap k v)
         | _ \<Rightarrow> fail (EncodeErr (Unsupported ''map arrays''))))
     | _ \<Rightarrow> fail (Validation UnexpectedNullPointer))" for kp vp
    by (auto split: option.split intro!: sound_fail sound_andthen [OF k] sound_andthen [OF v] fin [unfolded prod.case])
  then show ?thesis unfolding decode_map_at_def by (intro sound_intros)
qed

section \<open>Structs\<close>

definition value_field :: "packed_field \<Rightarrow> bool" where
  "value_field pf = (\<not> (f_nullable_value_kind (pf_field pf) \<and> pf_kind pf = KBool))"

text \<open>What the loop does to the values and flags: fields of the version conform once their value was
  decoded, everything else stays.\<close>

definition packed_done ::
  "(nat \<Rightarrow> val \<Rightarrow> bool) \<Rightarrow> field_type list \<Rightarrow> u32 \<Rightarrow> packed_field list \<Rightarrow>
   val list \<times> bool list \<Rightarrow> val list \<times> bool list \<Rightarrow> bool" where
  "packed_done ok fts w pfs acc acc' = (length (fst acc') = length (fst acc) \<and> length (snd acc') = length (snd acc) \<and>
     (\<forall>i < length fts.
       (if ft_version (fts ! i) \<le> w \<and> (\<exists>pf \<in> set pfs. f_index (pf_field pf) = i \<and> value_field pf)
        then ok i (fst acc' ! i) else fst acc' ! i = fst acc ! i) \<and>
       (\<not> ft_version (fts ! i) \<le> w \<longrightarrow> snd acc' ! i = snd acc ! i)))"

lemma shape_version:
  assumes "field_shape fts pf"
  shows "f_index (pf_field pf) < length fts" "pf_min_version pf = ft_version (fts ! f_index (pf_field pf))"
  using assms by (auto simp: field_shape_def ft_version_def)

lemma sound_packed:
  assumes decs: "\<And>i off k. i < length fts \<Longrightarrow> sound env (ok i) ((decs ! i) off k)"
    and "\<forall>pf \<in> set pfs. field_shape fts pf \<and> (pf_min_version pf \<le> w \<longrightarrow> STRUCT_HEADER_SIZE + pf_offset pf + pf_size pf \<le> nb)"
    and "length (fst acc) = length fts" "length (snd acc) = length fts"
  shows "sound env (packed_done ok fts w pfs acc) (decode_packed env decs w nb off pfs acc)"
  using assms(2-)
proof (induction pfs arbitrary: acc)
  case Nil
  then show ?case by (simp add: packed_done_def sound_ret)
next
  case (Cons pf pfs)
  obtain sc pr where acc: "acc = (sc, pr)" by (cases acc)
  have len: "length sc = length fts" "length pr = length fts" using Cons.prems acc by simp_all
  let ?i = "f_index (pf_field pf)"
  have sh: "?i < length fts" "pf_min_version pf = ft_version (fts ! ?i)"
    using shape_version Cons.prems(1) by simp_all
  have IH: "sound env (packed_done ok fts w pfs acc') (decode_packed env decs w nb off pfs acc')"
    if "length (fst acc') = length fts" "length (snd acc') = length fts" for acc'
    using Cons.IH [OF _ that] Cons.prems(1) by simp
  show ?case
  proof (cases "pf_min_version pf \<le> w")
    case False
    then have "decode_packed env decs w nb off (pf # pfs) acc = decode_packed env decs w nb off pfs acc"
      unfolding acc by (simp add: Let_def)
    moreover have "packed_done ok fts w (pf # pfs) acc acc'" if "packed_done ok fts w pfs acc acc'" for acc'
    proof -
      have "(ft_version (fts ! i) \<le> w \<and> (\<exists>q \<in> set (pf # pfs). f_index (pf_field q) = i \<and> value_field q)) =
          (ft_version (fts ! i) \<le> w \<and> (\<exists>q \<in> set pfs. f_index (pf_field q) = i \<and> value_field q))" for i
        using False sh by auto
      then show ?thesis using that unfolding packed_done_def by simp
    qed
    ultimately show ?thesis using IH [of acc] len acc sound_weaken by (metis fst_conv snd_conv)
  next
    case True
    then have inb: "STRUCT_HEADER_SIZE + pf_offset pf + pf_size pf \<le> nb" using Cons.prems(1) by simp
    have flag: "sound env (packed_done ok fts w (pf # pfs) (sc, pr))
        (decode_packed env decs w nb off pfs (sc, pr[?i := b]))" if nv: "\<not> value_field pf" for b
    proof (rule sound_weaken [OF IH])
      fix a assume "packed_done ok fts w pfs (sc, pr[?i := b]) a"
      then show "packed_done ok fts w (pf # pfs) (sc, pr) a"
        using nv True sh len unfolding packed_done_def by (auto simp: nth_list_update)
    qed (use len in simp_all)
    have val: "sound env (packed_done ok fts w (pf # pfs) (sc, pr))
        (decode_packed env decs w nb off pfs (sc[?i := v], pr))" if "ok ?i v" "value_field pf" for v
    proof (rule sound_weaken [OF IH])
      fix a assume A: "packed_done ok fts w pfs (sc[?i := v], pr) a"
      have "(if ft_version (fts ! i) \<le> w \<and> (\<exists>q \<in> set (pf # pfs). f_index (pf_field q) = i \<and> value_field q)
          then ok i (fst a ! i) else fst a ! i = sc ! i) \<and>
        (\<not> ft_version (fts ! i) \<le> w \<longrightarrow> snd a ! i = pr ! i)" if i: "i < length fts" for i
      proof -
        have "(if ft_version (fts ! i) \<le> w \<and> (\<exists>q \<in> set pfs. f_index (pf_field q) = i \<and> value_field q)
            then ok i (fst a ! i) else fst a ! i = sc[?i := v] ! i) \<and>
          (\<not> ft_version (fts ! i) \<le> w \<longrightarrow> snd a ! i = pr ! i)"
          using A i unfolding packed_done_def by simp
        then show ?thesis using that True sh len \<open>ok ?i v\<close> \<open>value_field pf\<close>
          by (cases "i = ?i") (auto split: if_splits)
      qed
      then show "packed_done ok fts w (pf # pfs) (sc, pr) a"
        using A unfolding packed_done_def by simp
    qed (use len in simp_all)
    show ?thesis
      using True inb flag val sh unfolding acc
      by (auto simp: Let_def value_field_def add.assoc intro!: sound_lift_andthen sound_andthen [OF decs [OF sh(1)]])
  qed
qed

text \<open>What the decoder makes of a struct; a nullable boolean comes out in one of two ways only.\<close>

definition struct_ok :: "(val \<Rightarrow> bool) list \<Rightarrow> field_type list \<Rightarrow> val \<Rightarrow> bool" where
  "struct_ok oks fts v = (case v of
     VStruct w vs \<Rightarrow> length vs = length fts \<and>
       (\<forall>i < length fts.
          if nullable_bool (fts ! i)
          then vs ! i \<in> {VNullableScalar False VNull, VNullableScalar True (VNullableScalar False VNull)}
          else field_conforms (oks ! i) (fts ! i) w (vs ! i))
   | _ \<Rightarrow> False)"

lemma default_scalar: "is_nullable_scalar (ft_ty ft) \<Longrightarrow> default_value ft = VNullableScalar False VNull"
  by (cases "ft_ty ft") (simp_all add: default_value_def)

lemma assemble_ok:
  assumes pk: "pack_struct fts = Ok ps" and oks: "length oks = length fts"
    and d: "packed_done (\<lambda>i. oks ! i) fts w (packed_fields ps)
      (map default_value fts, replicate (length fts) False) acc"
  shows "struct_ok oks fts (VStruct w (assemble fts acc))"
proof -
  have "if nullable_bool (fts ! i)
      then assemble fts acc ! i \<in> {VNullableScalar False VNull, VNullableScalar True (VNullableScalar False VNull)}
      else field_conforms (oks ! i) (fts ! i) w (assemble fts acc ! i)" if i: "i < length fts" for i
  proof -
    let ?ft = "fts ! i" and ?sc = "fst acc ! i" and ?pr = "snd acc ! i"
    let ?v = "\<exists>pf \<in> set (packed_fields ps). f_index (pf_field pf) = i \<and> value_field pf"
    have sc: "if ft_version ?ft \<le> w \<and> ?v then (oks ! i) ?sc else ?sc = default_value ?ft"
      and pr: "\<not> ft_version ?ft \<le> w \<longrightarrow> \<not> ?pr"
      using d i unfolding packed_done_def by simp_all
    note nb = nullable_bool_def [of ?ft]
    obtain pf where pf: "pf \<in> set (packed_fields ps)" "f_index (pf_field pf) = i" "pf_sub pf \<noteq> Some 0"
      using packed_fields_cover [OF pk i] by blast
    have shape: "f_nullable_value_kind (pf_field p) = is_nullable_scalar (ft_ty ?ft) \<and>
        pf_kind p = (if pf_sub p = Some 0 then KBool else pack_kind (ft_ty ?ft))"
      if "p \<in> set (packed_fields ps)" "f_index (pf_field p) = i" for p
      using packed_fields_shape [OF pk that(1)] that(2) by (auto simp: field_shape_def)
    have v: "?v" if "is_nullable_scalar (ft_ty ?ft) \<longrightarrow> pack_kind (ft_ty ?ft) \<noteq> KBool"
      using that shape [OF pf(1,2)] pf by (auto simp: value_field_def intro!: bexI [of _ pf])
    have nv: "\<not> ?v" if "is_nullable_scalar (ft_ty ?ft)" "pack_kind (ft_ty ?ft) = KBool"
      using that shape by (auto simp: value_field_def)
    have "assemble fts acc ! i = (if is_nullable_scalar (ft_ty ?ft)
        then VNullableScalar ?pr (if ?pr then ?sc else VNull) else ?sc)"
      using i by (simp add: assemble_def)
    then show ?thesis using sc pr v nv default_scalar [of ?ft] by (auto simp: field_conforms_def nb)
  qed
  moreover have "length (assemble fts acc) = length fts" by (simp add: assemble_def)
  ultimately show ?thesis unfolding struct_ok_def val.case by blast
qed

text \<open>The part of a struct body after the claim.\<close>

lemma sound_struct_rest:
  assumes decs: "\<And>i off k. i < length fts \<Longrightarrow> sound env (oks ! i) ((decs ! i) off k)"
    and oks: "length oks = length fts"
  shows "sound env (struct_ok oks fts) (andthen (lift (pack_struct fts)) (\<lambda>packed.
     if (if w \<le> max_version fts
       then (case num_bytes_for_version packed w of
               Some expected \<Rightarrow> nb \<noteq> expected | None \<Rightarrow> False)
       else nb < ps_size packed)
     then fail e
     else
     andthen (decode_packed env decs w nb offset (packed_fields packed)
                (map default_value fts, replicate (length fts) False)) (\<lambda>acc.
     ret (VStruct w (assemble fts acc)))))"
proof (intro sound_lift_andthen sound_if sound_fail)
  fix ps assume pk: "pack_struct fts = Ok ps" and sz: "\<not> (if w \<le> max_version fts
       then (case num_bytes_for_version ps w of Some expected \<Rightarrow> nb \<noteq> expected | None \<Rightarrow> False)
       else nb < ps_size ps)"
  show "sound env (struct_ok oks fts)
      (andthen (decode_packed env decs w nb offset (packed_fields ps)
        (map default_value fts, replicate (length fts) False)) (\<lambda>acc. ret (VStruct w (assemble fts acc))))"
  proof (rule sound_andthen [OF sound_packed [where ok = "\<lambda>i. oks ! i", OF decs]])
    have "STRUCT_HEADER_SIZE + pf_offset pf + pf_size pf \<le> nb"
      if pf: "pf \<in> set (packed_fields ps)" "pf_min_version pf \<le> w" for pf
    proof (cases "w \<le> max_version fts")
      case True
      then have "num_bytes_for_version ps w = Some nb"
        using sz num_bytes_total [OF pk, of w] by auto
      then show ?thesis by (rule packed_in_bounds [OF pk pf])
    next
      case False
      then show ?thesis using sz packed_in_size(1) [OF pk pf(1)] by simp
    qed
    then show "\<forall>pf \<in> set (packed_fields ps). field_shape fts pf \<and>
        (pf_min_version pf \<le> w \<longrightarrow> STRUCT_HEADER_SIZE + pf_offset pf + pf_size pf \<le> nb)"
      using packed_fields_shape [OF pk] by blast
    fix acc assume "packed_done (\<lambda>i. oks ! i) fts w (packed_fields ps)
        (map default_value fts, replicate (length fts) False) acc"
    then show "sound env (struct_ok oks fts) (ret (VStruct w (assemble fts acc)))"
      using assemble_ok [OF pk oks] by (intro sound_ret)
  qed simp_all
qed

lemma sound_struct_body:
  assumes decs: "\<And>i off k. i < length fts \<Longrightarrow> sound env (oks ! i) ((decs ! i) off k)"
    and oks: "length oks = length fts"
  shows "sound env (struct_ok oks fts) (decode_struct_body env decs fts claim_self offset)"
proof -
  have cl: "sound env (\<lambda>_. True) (if claim_self then claim env offset nb else ret ())" for nb
    by (simp add: sound_claim sound_ret)
  show ?thesis unfolding decode_struct_body_def Let_def
    by (intro sound_lift_andthen [where r = "plus _ _"] sound_lift_andthen [where r = "dread_u32 _ _"]
        sound_if sound_fail sound_andthen [OF cl] sound_struct_rest decs oks)
qed

text \<open>A step covers the range from \<open>lo\<close> to \<open>hi\<close> when each success found the frontier at or before
  \<open>lo\<close> and left it at or behind \<open>hi\<close>.\<close>

definition covers :: "denv \<Rightarrow> nat \<Rightarrow> nat \<Rightarrow> 'a step \<Rightarrow> bool" where
  "covers env lo hi m = (\<forall>s a s'. d_frontier s \<le> length (e_bytes env) \<longrightarrow> m s = (Ok a, s') \<longrightarrow>
     d_frontier s \<le> lo \<and> hi \<le> d_frontier s')"

lemma covers_fail: "covers env lo hi (fail e)"
  by (simp add: covers_def fail_def)

lemma covers_if: "(c \<Longrightarrow> covers env lo hi m) \<Longrightarrow> (\<not> c \<Longrightarrow> covers env lo hi n) \<Longrightarrow> covers env lo hi (if c then m else n)"
  by simp

lemma covers_lift_andthen:
  "(\<And>a. r = Ok a \<Longrightarrow> covers env lo hi (f a)) \<Longrightarrow> covers env lo hi (andthen (lift r) f)"
  by (cases r) (simp_all add: covers_def andthen_def lift_def)

lemma covers_claim:
  assumes "\<And>u. sound env P (f u)" "hi \<le> a + n"
  shows "covers env a hi (andthen (claim env a n) f)"
  unfolding covers_def
proof (intro allI impI)
  fix s b s' assume s: "d_frontier s \<le> length (e_bytes env)" and r: "andthen (claim env a n) f s = (Ok b, s')"
  obtain s1 where c: "claim env a n s = (Ok (), s1)" and f: "f () s1 = (Ok b, s')"
    using r by (auto simp: andthen_def split: prod.splits outcome.splits)
  have 1: "d_frontier s \<le> a" "d_frontier s1 = a + n"
    using c by (auto simp: claim_def checked_add_def split: option.splits if_splits)
  note 2 = soundD [OF sound_claim c s]
  from soundD(3) [OF assms(1) f 2(4)] show "d_frontier s \<le> a \<and> hi \<le> d_frontier s'"
    using 1 assms(2) by simp
qed

lemma covers_nested: "covers env lo hi body \<Longrightarrow> covers env lo hi (nested env body)"
  unfolding covers_def
proof (intro allI impI)
  fix s a s' assume b: "\<forall>s a s'. d_frontier s \<le> length (e_bytes env) \<longrightarrow> body s = (Ok a, s') \<longrightarrow>
      d_frontier s \<le> lo \<and> hi \<le> d_frontier s'"
    and s: "d_frontier s \<le> length (e_bytes env)" and r: "nested env body s = (Ok a, s')"
  obtain s1 where "body (s\<lparr>d_depth := d_depth s + 1\<rparr>) = (Ok a, s1)" "s' = s1\<lparr>d_depth := d_depth s1 - 1\<rparr>"
    using r by (auto simp: nested_def andthen_def enter_def Let_def split: prod.splits if_splits)
  then show "d_frontier s \<le> lo \<and> hi \<le> d_frontier s'"
    using b [rule_format, of "s\<lparr>d_depth := d_depth s + 1\<rparr>" a s1] s by simp
qed

lemma covers_struct_body:
  assumes decs: "\<And>i off k. i < length fts \<Longrightarrow> sound env (oks ! i) ((decs ! i) off k)"
    and oks: "length oks = length fts" and nb: "\<And>n. dread_u32 env offset = Ok n \<Longrightarrow> hi \<le> offset + unat n"
  shows "covers env offset hi (decode_struct_body env decs fts True offset)"
  unfolding decode_struct_body_def Let_def if_True
  by (intro covers_lift_andthen [where r = "plus _ _"] covers_lift_andthen [where r = "dread_u32 _ _"]
      covers_if covers_fail covers_claim [where P = "struct_ok oks fts"]
      sound_struct_rest [where oks = oks, OF decs] nb oks)

section \<open>Every decoder is sound\<close>

lemma conforms_Null: "is_nullable t \<Longrightarrow> conforms env t VNull"
  by (cases t) (simp_all add: Let_def)

lemma conforms_unboxed: "conforms env (unbox_scalar t) v \<Longrightarrow> conforms env t v"
  by (cases t) simp_all

text \<open>What a decoder of a type is sound for: values of the type, as far as the type has no nullable booleans.\<close>

definition decoded_as :: "denv \<Rightarrow> ty \<Rightarrow> val \<Rightarrow> bool" where
  "decoded_as env t v \<longleftrightarrow> (no_nullable_bool t \<longrightarrow> conforms env t v)"

lemma sound_union_at:
  assumes p: "\<And>i t. i < length members \<Longrightarrow> sound env (oks ! i) ((payloads ! i) t)"
  shows "sound env (\<lambda>v. case v of VUnion tag x \<Rightarrow> unat tag < length members \<and> (oks ! unat tag) x | _ \<Rightarrow> False)
    (decode_union_at env payloads members claim_self target)"
  unfolding decode_union_at_def
  by (intro sound_intros sound_andthen [of env "\<lambda>_. True" "if claim_self then _ else _"] sound_claim
      sound_andthen [OF p]) auto

lemma sound_scalar:
  "(\<And>a. r = Ok a \<Longrightarrow> P (f a)) \<Longrightarrow> sound env P (andthen (lift r) (\<lambda>a. ret (f a)))"
  by (intro sound_intros)

lemma checked_handle_ok: "checked_handle env off = Ok i \<Longrightarrow> handle_ok env i"
  by (auto simp: checked_handle_def handle_ok_def split: if_splits)

lemma decoded_unboxed: "decoded_as env (unbox_scalar t) v \<Longrightarrow> decoded_as env t v"
  using conforms_unboxed by (cases t) (auto simp: decoded_as_def)

lemma decoded_scalar: "decoded_as env inner v \<Longrightarrow> decoded_as env (TNullableScalar inner) v"
  by (simp add: decoded_as_def)

lemma decoded_Null: "is_nullable t \<Longrightarrow> decoded_as env t VNull"
  by (simp add: decoded_as_def conforms_Null)

lemma sound_decoded_array:
  assumes "\<And>off k. sound env (decoded_as env (unbox_scalar e)) (decode_field env e off k)"
    "\<And>t. sound env (decoded_as env e) (decode_array_element env e t)"
  shows "sound env (array_of_ok (decoded_as env e)) (decode_array_body env (decode_field env e) (decode_array_element env e) e t)"
  by (intro sound_array_body sound_weaken [OF assms(1) decoded_unboxed] assms(2) decoded_Null)

lemma array_decoded: "array_of_ok (decoded_as env e) v \<Longrightarrow> decoded_as env (TArray e n) v"
  by (auto simp: array_of_ok_def decoded_as_def list_all_iff split: val.splits)

lemma map_decoded: "map_of_ok (decoded_as env k) (decoded_as env e) v \<Longrightarrow> decoded_as env (TMap k e n) v"
  by (auto simp: map_of_ok_def decoded_as_def list_all_iff split: val.splits)

lemma field_decoded:
  assumes "field_conforms (decoded_as env (unbox_scalar (ft_ty ft))) ft w x" "no_nullable_bool (ft_ty ft)"
  shows "field_conforms (conforms env (unbox_scalar (ft_ty ft))) ft w x"
proof (cases "is_nullable_scalar (ft_ty ft)")
  case True
  then show ?thesis
    using assms by (cases "ft_ty ft"; cases x) (simp_all add: field_conforms_def decoded_as_def split: if_splits)
next
  case False
  then have "unbox_scalar (ft_ty ft) = ft_ty ft" by (cases "ft_ty ft") simp_all
  then show ?thesis using False assms by (simp add: field_conforms_def decoded_as_def split: if_splits)
qed

lemma struct_decoded:
  assumes "struct_ok (map (\<lambda>ft. decoded_as env (unbox_scalar (ft_ty ft))) fts) fts v"
  shows "decoded_as env (TStruct fts w n) v"
proof -
  obtain w' vs where v: "v = VStruct w' vs" using assms by (cases v) (simp_all add: struct_ok_def)
  have "field_conforms (conforms env (unbox_scalar (ft_ty (fts ! i)))) (fts ! i) w' (vs ! i)"
    if "no_nullable_bool (TStruct fts w n)" "i < length fts" for i
    using assms that field_decoded [of env "fts ! i" w' "vs ! i"] by (simp add: v struct_ok_def list_all_length)
  then show ?thesis using assms by (simp add: v struct_ok_def decoded_as_def list_all_length Let_def)
qed

lemma good_string_decoded: "good_string v \<Longrightarrow> decoded_as env (TString n) v"
  by (simp add: good_string_def decoded_as_def split: val.splits)

lemma sound_struct_ok:
  assumes "\<And>ft off k. ft \<in> set fts \<Longrightarrow> sound env (decoded_as env (unbox_scalar (ft_ty ft))) (decode_field env (ft_ty ft) off k)"
  shows "sound env (struct_ok (map (\<lambda>ft. decoded_as env (unbox_scalar (ft_ty ft))) fts) fts)
      (decode_struct_with env (map (\<lambda>ft. decode_field env (ft_ty ft)) fts) fts off)"
    "sound env (struct_ok (map (\<lambda>ft. decoded_as env (unbox_scalar (ft_ty ft))) fts) fts)
      (decode_struct_inline_with env (map (\<lambda>ft. decode_field env (ft_ty ft)) fts) fts off)"
  unfolding decode_struct_with_def decode_struct_inline_with_def
  by (intro sound_nested sound_struct_body; simp add: assms)+

lemma sound_decoded_struct:
  assumes "\<And>ft off k. ft \<in> set fts \<Longrightarrow> sound env (decoded_as env (unbox_scalar (ft_ty ft))) (decode_field env (ft_ty ft) off k)"
  shows "sound env (decoded_as env (TStruct fts w n))
      (decode_struct_with env (map (\<lambda>ft. decode_field env (ft_ty ft)) fts) fts off)"
    "sound env (decoded_as env (TStruct fts w n))
      (decode_struct_inline_with env (map (\<lambda>ft. decode_field env (ft_ty ft)) fts) fts off)"
proof -
  show "sound env (decoded_as env (TStruct fts w n))
      (decode_struct_with env (map (\<lambda>ft. decode_field env (ft_ty ft)) fts) fts off)"
    by (rule sound_weaken [OF sound_struct_ok(1) [OF assms] struct_decoded])
  show "sound env (decoded_as env (TStruct fts w n))
      (decode_struct_inline_with env (map (\<lambda>ft. decode_field env (ft_ty ft)) fts) fts off)"
    by (rule sound_weaken [OF sound_struct_ok(2) [OF assms] struct_decoded])
qed

lemma unat_u32_less: "unat (a :: u32) < 4294967296"
  using unsigned_less [of a, where 'a = nat] by simp

lemma unat_ucast_u32 [simp]: "unat (ucast (a :: u32) :: u64) = unat a"
  using unat_u32_less [of a] by (simp add: unsigned_ucast_eq take_bit_nat_eq_self_iff)

lemma decoded_simps:
  "no_nullable_bool t \<Longrightarrow> decoded_as env t v = conforms env t v"
  by (simp add: decoded_as_def)

lemma sound_decoders:
  "sound env (decoded_as env (unbox_scalar t)) (decode_field env t off k)"
  "sound env (decoded_as env t) (decode_array_element env t tgt)"
  "sound env (decoded_as env t) (decode_union_payload env t tgt)"
proof (induction env t and env t and env t arbitrary: off k and tgt and tgt
    rule: decode_field_decode_array_element_decode_union_payload.induct)
  case (14 env nullable)
  show ?case unfolding decode_field.simps unbox_scalar.simps
    by (intro sound_pointed sound_weaken [OF sound_string good_string_decoded]) (simp add: decoded_Null)
next
  case (15 env element nullable)
  then show ?case unfolding decode_field.simps unbox_scalar.simps
    by (intro sound_array sound_weaken [OF sound_decoded_array array_decoded]) (simp_all add: decoded_Null)
next
  case (16 env key "value" nullable)
  then show ?case unfolding decode_field.simps decode_map_def unbox_scalar.simps
    by (intro sound_pointed sound_weaken [OF sound_map_at map_decoded]) (simp_all add: sound_decoded_array decoded_Null)
next
  case (17 env fts version nullable)
  have d: "sound env (decoded_as env (TStruct fts version nullable))
      (decode_struct_with env (map (\<lambda>ft. decode_field env (ft_ty ft)) fts) fts o')" for o'
    by (rule sound_decoded_struct(1)) (rule 17)
  moreover have "sound env (decoded_as env (TStruct fts version nullable))
      (decode_struct_inline_with env (map (\<lambda>ft. decode_field env (ft_ty ft)) fts) fts o')" for o'
    by (rule sound_decoded_struct(2)) (rule 17)
  ultimately show ?case unfolding decode_field.simps Let_def unbox_scalar.simps by (auto intro!: sound_pointed decoded_Null)
next
  case (18 env members nullable inlined)
  let ?ok = "\<lambda>v. case v of VUnion tag x \<Rightarrow> unat tag < length members \<and> (map (\<lambda>m. decoded_as env (um_ty m)) members ! unat tag) x | _ \<Rightarrow> False"
  have u: "sound env ?ok (decode_union_at env (map (\<lambda>m. decode_union_payload env (um_ty m)) members) members c o')" for c o'
    using 18 by (intro sound_union_at) simp
  have "?ok v \<Longrightarrow> decoded_as env (TUnion members nullable inlined) v" for v
    by (auto simp: decoded_as_def Let_def list_all_length split: val.splits)
  from sound_weaken [OF u this] have "sound env (decoded_as env (TUnion members nullable inlined))
      (decode_union_at env (map (\<lambda>m. decode_union_payload env (um_ty m)) members) members c o')" for c o' .
  then show ?case unfolding decode_field.simps Let_def unbox_scalar.simps by (auto intro!: sound_pointed decoded_Null)
next
  case (22 env inner)
  then show ?case unfolding decode_field.simps unbox_scalar.simps by (rule sound_weaken) (rule decoded_unboxed)
next
  case (23 env fts version nullable)
  show ?case unfolding decode_array_element.simps by (rule sound_decoded_struct(1)) (rule 23)
next
  case (24 env nullable)
  show ?case unfolding decode_array_element.simps by (intro sound_weaken [OF sound_string good_string_decoded])
next
  case (25 env key "value" nullable)
  then show ?case unfolding decode_array_element.simps
    by (intro sound_weaken [OF sound_map_at map_decoded]) (simp_all add: sound_decoded_array)
next
  case (26 env inner nullable)
  then show ?case unfolding decode_array_element.simps
    by (intro sound_weaken [OF sound_decoded_array array_decoded]) simp_all
next
  case (28 env fts version nullable)
  have "sound env (decoded_as env (TStruct fts version nullable))
      (decode_struct_with env (map (\<lambda>ft. decode_field env (ft_ty ft)) fts) fts o')" for o'
    by (rule sound_decoded_struct(1)) (rule 28)
  then show ?case unfolding decode_union_payload.simps by (auto intro!: sound_pointed decoded_Null)
qed (auto simp: decoded_simps decode_interface_def decode_associated_interface_def handle_ok_def less_le_trans unat_u32_less
      dest: checked_handle_ok intro!: sound_scalar sound_intros, metis sound_weaken decoded_scalar)

section \<open>Panic freedom\<close>

definition calm :: "('s, 'a) stateful \<Rightarrow> bool" where
  "calm m = (\<forall>s. fst (m s) \<noteq> Panic)"

named_theorems calm_intros

lemma calm_ret [calm_intros]: "calm (ret a)" and calm_fail [calm_intros]: "calm (fail e)"
  by (simp_all add: calm_def ret_def fail_def)

lemma calm_andthen: "calm m \<Longrightarrow> (\<And>a. calm (f a)) \<Longrightarrow> calm (andthen m f)"
  unfolding calm_def andthen_def by (auto split: prod.splits outcome.splits) (metis fst_conv)+

lemma calm_lift_andthen [calm_intros]:
  "r \<noteq> Panic \<Longrightarrow> (\<And>a. r = Ok a \<Longrightarrow> calm (f a)) \<Longrightarrow> calm (andthen (lift r) f)"
  by (cases r) (simp_all add: calm_def andthen_def lift_def)

lemma calm_claim [calm_intros]: "calm (claim env a n)"
  by (simp add: calm_def claim_def split: option.split)

lemma calm_claim_andthen [calm_intros]: "(\<And>u. calm (f u)) \<Longrightarrow> calm (andthen (claim env a n) f)"
  by (rule calm_andthen [OF calm_claim])

lemma calm_if [calm_intros]: "(c \<Longrightarrow> calm m) \<Longrightarrow> (\<not> c \<Longrightarrow> calm n) \<Longrightarrow> calm (if c then m else n)"
  by simp

lemma calm_nested [calm_intros]: "calm body \<Longrightarrow> calm (nested env body)"
  unfolding calm_def nested_def andthen_def enter_def Let_def by (simp split: prod.split) (metis fst_conv)

lemma calm_each: "(\<And>x. x \<in> set xs \<Longrightarrow> calm (f x)) \<Longrightarrow> calm (each f xs)"
  by (induction xs) (auto intro!: calm_ret calm_andthen)

lemma reads_calm [simp]:
  "get_byte env i \<noteq> Panic" "get_range env a b \<noteq> Panic" "checked x \<noteq> Panic"
  "dread_u16 env off \<noteq> Panic" "dread_u32 env off \<noteq> Panic" "dread_u64 env off \<noteq> Panic"
  "read_target env off \<noteq> Panic" "checked_handle env off \<noteq> Panic"
  by (auto simp: get_byte_def get_range_def checked_def dread_u16_def dread_u32_def dread_u64_def
      read_target_def checked_handle_def obind_eq_Panic split: option.splits if_splits)

lemma dread_u32_len: "dread_u32 env off = Ok a \<Longrightarrow> off + 4 \<le> length (e_bytes env)"
  by (auto simp: dread_u32_def checked_def get_range_def checked_add_def slice_def split: option.splits if_splits)

text \<open>Messages that fit in memory, schemas whose structs have fewer than \<open>2 ^ 32\<close> fields, and bytes in
  which no position holds a pointer into the last 24 bytes of the address space.\<close>

definition in_memory :: "denv \<Rightarrow> bool" where
  "in_memory env = (length (e_bytes env) < 2 ^ 63)"

definition tame_pointers :: "denv \<Rightarrow> bool" where
  "tame_pointers env = list_all (\<lambda>off. unat (of_nat off + u64_in (e_bytes env) off) + 24 < usize_limit)
     [0..<length (e_bytes env) - 7]"

fun small_schema :: "ty \<Rightarrow> bool" where
  "small_schema (TArray e n) = small_schema e"
| "small_schema (TMap k v n) = (small_schema k \<and> small_schema v)"
| "small_schema (TStruct fts w n) = (length fts < 2 ^ 32 \<and> list_all id (map (\<lambda>ft. small_schema (ft_ty ft)) fts))"
| "small_schema (TUnion ms n i) = list_all id (map (\<lambda>m. small_schema (um_ty m)) ms)"
| "small_schema (TNullableScalar t) = small_schema t"
| "small_schema _ = True"

text \<open>The targets the decoders are called at.\<close>

definition reachable_target :: "nat \<Rightarrow> bool" where
  "reachable_target t = (t + 24 < usize_limit)"

lemma read_target_reachable:
  assumes "tame_pointers env" "read_target env off = Ok (Some t)"
  shows "reachable_target t"
proof -
  from assms(2) obtain raw where r: "dread_u64 env off = Ok raw" "raw \<noteq> 0" "t = unat (of_nat off + raw)"
    by (auto simp: read_target_def pointer_decode_def split: if_splits)
  then have "off + 8 \<le> length (e_bytes env)" "raw = u64_in (e_bytes env) off"
    by (auto simp: dread_u64_def checked_def get_range_def checked_add_def slice_def u64_in_def
        split: option.splits if_splits)
  then show ?thesis using assms(1) r(3) by (auto simp: tame_pointers_def list_all_iff reachable_target_def)
qed

lemma plus_calm: "a + b < usize_limit \<Longrightarrow> plus a b = Ok (a + b)"
  by (simp add: plus_def)

lemma calm_pointed:
  assumes "tame_pointers env" "\<And>t. reachable_target t \<Longrightarrow> calm (object t)"
  shows "calm (pointed env nullable off object)"
  unfolding pointed_def
  by (intro calm_intros) (auto split: option.split intro!: calm_intros assms read_target_reachable [OF assms(1)])

lemma calm_string: "reachable_target t \<Longrightarrow> calm (decode_string_at env t)"
  unfolding decode_string_at_def Let_def
  by (intro calm_intros) (simp_all add: plus_calm reachable_target_def ARRAY_HEADER_SIZE_def)

lemma calm_array_body:
  assumes "tame_pointers env" "reachable_target t" "\<And>off k. is_pod element \<Longrightarrow> calm (fd off k)"
    "\<And>t. reachable_target t \<Longrightarrow> calm (ed t)"
  shows "calm (decode_array_body env fd ed element t)"
  unfolding decode_array_body_def Let_def
  by (intro calm_intros calm_andthen [OF calm_each] calm_pointed assms)
    (use assms(2) in \<open>simp_all add: plus_calm reachable_target_def ARRAY_HEADER_SIZE_def\<close>)

lemma calm_map_at:
  assumes "reachable_target t" "tame_pointers env"
    "\<And>t. reachable_target t \<Longrightarrow> calm (keys t)" "\<And>t. reachable_target t \<Longrightarrow> calm (vals t)"
  shows "calm (decode_map_at env keys vals t)"
  unfolding decode_map_at_def
  by (intro calm_intros)
    (use assms(1) in \<open>auto simp: plus_calm reachable_target_def split: option.split val.split
      intro!: calm_intros calm_andthen assms(3,4) read_target_reachable [OF assms(2)]\<close>)

lemma calm_packed:
  assumes "\<And>i off k. i < length fts \<Longrightarrow> off \<le> length (e_bytes env) \<Longrightarrow> calm ((decs ! i) off k)"
    "\<forall>pf \<in> set pfs. field_shape fts pf" "off + nb \<le> length (e_bytes env)"
  shows "calm (decode_packed env decs w nb off pfs acc)"
  using assms(2)
proof (induction pfs arbitrary: acc)
  case (Cons pf pfs)
  obtain sc pr where acc: "acc = (sc, pr)" by (cases acc)
  have "f_index (pf_field pf) < length fts" using shape_version(1) Cons.prems by simp
  note d = assms(1) [OF this]
  have IH: "calm (decode_packed env decs w nb off pfs a)" for a using Cons by simp
  show ?case unfolding acc using assms(3)
    by (auto simp: Let_def intro!: calm_lift_andthen calm_andthen [OF d] IH)
qed (simp add: calm_ret)

lemma calm_struct_body:
  assumes mem: "in_memory env" "off + 8 < usize_limit" and n: "length fts < 2 ^ 32"
    and d: "\<And>i off k. i < length fts \<Longrightarrow> off \<le> length (e_bytes env) \<Longrightarrow> calm ((decs ! i) off k)"
  shows "calm (decode_struct_body env decs fts c off)"
proof -
  have pk: "pack_struct fts \<noteq> Panic"
    using pack_Ok [of "pack_fields fts"] pack_Err [of "pack_fields fts"] n
    by (cases "versions_ok 0 (pack_fields fts)") (auto simp: pack_struct_def)
  have cl: "calm (if c then claim env off nb else ret ())" for nb by (simp add: calm_claim calm_ret)
  have pl: "plus off (unat nb) = Ok (off + unat nb)" if "\<not> length (e_bytes env) < off + 8" for nb :: u32
    using that mem unat_u32_less [of nb] by (simp add: plus_def in_memory_def usize_limit_def)
  show ?thesis unfolding decode_struct_body_def Let_def
    by (intro calm_intros calm_andthen [OF cl] calm_andthen [OF calm_packed] d pk)
      (use mem packed_fields_shape in \<open>auto simp: plus_calm pl STRUCT_HEADER_SIZE_def\<close>)
qed

lemma calm_struct:
  assumes "in_memory env" "off + 8 < usize_limit" "length fts < 2 ^ 32"
    "\<And>ft off k. ft \<in> set fts \<Longrightarrow> off \<le> length (e_bytes env) \<Longrightarrow> calm (decode_field env (ft_ty ft) off k)"
  shows "calm (decode_struct_with env (map (\<lambda>ft. decode_field env (ft_ty ft)) fts) fts off)"
    "calm (decode_struct_inline_with env (map (\<lambda>ft. decode_field env (ft_ty ft)) fts) fts off)"
  unfolding decode_struct_with_def decode_struct_inline_with_def
  using assms by (intro calm_nested calm_struct_body; simp)+

lemma calm_union_at:
  assumes "in_memory env" "t + 8 < usize_limit"
    "\<And>i off. i < length members \<Longrightarrow> off \<le> length (e_bytes env) \<Longrightarrow> calm ((payloads ! i) off)"
  shows "calm (decode_union_at env payloads members c t)"
proof -
  have cl: "calm (if c then if P then fail e else claim env t n else ret ())" for P e n
    by (simp add: calm_claim calm_fail calm_ret)
  show ?thesis unfolding decode_union_at_def
    by (intro calm_intros calm_andthen [OF cl] calm_andthen [OF assms(3)])
      (use assms(1,2) in \<open>auto simp: plus_calm calm_ret\<close>)
qed

lemma calm_pod: "is_pod t \<Longrightarrow> calm (decode_field env t off k)"
  by (cases t) (auto simp: is_pod_def intro!: calm_intros)

lemma calm_versioned_pair:
  assumes "in_memory env" "\<And>a v. calm (f a v)"
  shows "calm (andthen (lift (dread_u32 env off)) (\<lambda>a.
    andthen (lift (obind (plus off 4) (dread_u32 env))) (\<lambda>v. f a v)))"
proof (intro calm_intros assms(2))
  fix a assume "dread_u32 env off = Ok a"
  then have "off + 4 < usize_limit" using dread_u32_len assms(1) by (fastforce simp: in_memory_def usize_limit_def)
  then show "obind (plus off 4) (dread_u32 env) \<noteq> Panic" by (simp add: plus_calm)
qed simp

lemma calm_decoders:
  "\<lbrakk>in_memory env; tame_pointers env; small_schema t; off \<le> length (e_bytes env)\<rbrakk> \<Longrightarrow> calm (decode_field env t off k)"
  "\<lbrakk>in_memory env; tame_pointers env; small_schema t; reachable_target tgt\<rbrakk> \<Longrightarrow> calm (decode_array_element env t tgt)"
  "\<lbrakk>in_memory env; tame_pointers env; small_schema t; tgt' \<le> length (e_bytes env)\<rbrakk> \<Longrightarrow> calm (decode_union_payload env t tgt')"
proof (induction env t and env t and env t arbitrary: off k and tgt and tgt'
    rule: decode_field_decode_array_element_decode_union_payload.induct)
  case (14 env nullable)
  then show ?case by (simp add: calm_pointed calm_string)
next
  case (15 env element nullable)
  then show ?case
    by (auto simp: decode_array_def intro!: calm_pointed calm_nested calm_array_body calm_pod)
next
  case (16 env key "value" nullable)
  then show ?case
    by (auto simp: decode_map_def intro!: calm_pointed calm_map_at calm_array_body calm_pod)
next
  case (17 env fts version nullable)
  have "off + 8 < usize_limit" using 17 by (simp add: in_memory_def usize_limit_def)
  moreover have "\<And>ft off k. ft \<in> set fts \<Longrightarrow> off \<le> length (e_bytes env) \<Longrightarrow> calm (decode_field env (ft_ty ft) off k)"
    using 17 by (auto simp: list_all_iff)
  ultimately show ?case using 17
    by (auto simp: Let_def reachable_target_def intro!: calm_pointed calm_struct)
next
  case (18 env members nullable inlined)
  have "off + 8 < usize_limit" using 18 by (simp add: in_memory_def usize_limit_def)
  moreover have "\<And>i off. i < length members \<Longrightarrow> off \<le> length (e_bytes env) \<Longrightarrow>
      calm ((map (\<lambda>m. decode_union_payload env (um_ty m)) members ! i) off)"
    using 18 by (auto simp: list_all_iff)
  ultimately show ?case using 18
    by (auto simp: Let_def reachable_target_def intro!: calm_pointed calm_union_at)
next
  case (23 env fts version nullable)
  then show ?case
    by (auto simp: list_all_iff reachable_target_def intro!: calm_struct)
next
  case (24 env nullable)
  then show ?case by (simp add: calm_string)
next
  case (25 env key "value" nullable)
  then show ?case by (auto intro!: calm_map_at calm_array_body calm_pod)
next
  case (26 env inner nullable)
  then show ?case by (auto intro!: calm_array_body calm_pod)
next
  case (28 env fts version nullable)
  then show ?case
    by (auto simp: list_all_iff reachable_target_def intro!: calm_pointed calm_struct)
qed (auto simp: decode_interface_def decode_associated_interface_def intro!: calm_intros calm_versioned_pair)

section \<open>Accepted messages\<close>

lemma parse_size:
  assumes "parse bytes = Ok (h, n)"
  shows "n \<in> {24, 32, 48, 56}" "n \<le> length bytes" "n mod 8 = 0"
proof -
  have "n = required_size (u32_in bytes 4)" "\<not> header_cut_short bytes" "24 \<le> length bytes"
    "\<not> (2 \<le> u32_in bytes 4 \<and> u64_in bytes 32 = 0)"
    using assms by (auto simp: parse_eq split: if_splits option.splits)
  then show "n \<in> {24, 32, 48, 56}" "n \<le> length bytes" "n mod 8 = 0"
    by (cases "u32_in bytes 4" rule: version_cases; simp add: required_size_simps header_cut_short_def Let_def)+
qed

lemma align_header: "n \<in> {24, 32, 48, 56} \<Longrightarrow> align_up n MESSAGE_ALIGNMENT = Some (Some n)"
proof -
  have "is_power_of_two 8" unfolding is_power_of_two_iff by (intro exI [of _ 3]) simp
  moreover assume "n \<in> {24, 32, 48, 56}"
  ultimately show ?thesis
    by (auto simp: MESSAGE_ALIGNMENT_def align_up_eq round_up_def usize_limit_def)
qed

lemma validate_message_Ok:
  assumes "validate_message bytes hc t limits = Ok m"
  obtains n s' where "parse bytes = Ok (vm_header m, n)" "vm_payload_offset m = n" "n < length bytes"
    "length bytes \<le> vl_max_message_size limits"
    "decode_struct \<lparr>e_bytes = bytes, e_handle_count = hc, e_max_depth = vl_max_recursion_depth limits\<rparr>
       t n dec_new = (Ok (vm_payload m), s')"
proof -
  from assms obtain h n where p: "parse bytes = Ok (h, n)"
    by (auto simp: validate_message_def split: if_splits)
  have a: "obind (from_option (align_up n MESSAGE_ALIGNMENT)) checked = Ok n"
    using align_header [OF parse_size(1) [OF p]] by (simp add: checked_def)
  obtain r s' where d: "decode_struct \<lparr>e_bytes = bytes, e_handle_count = hc, e_max_depth = vl_max_recursion_depth limits\<rparr>
       t n dec_new = (r, s')" by fastforce
  from assms p a d have "n < length bytes" "length bytes \<le> vl_max_message_size limits" "vm_payload_offset m = n"
    "vm_header m = h" "r = Ok (vm_payload m)"
    by (auto simp: validate_message_def split: if_splits)
  with p d that show thesis by blast
qed

lemma decode_struct_conforms:
  assumes "decode_struct env t off s = (Ok v, s')" "d_frontier s \<le> length (e_bytes env)"
  shows "no_nullable_bool t \<longrightarrow> conforms env t v" "d_depth s' = d_depth s" "d_frontier s \<le> d_frontier s'"
    "d_frontier s' \<le> length (e_bytes env)" "\<exists>fts w n. t = TStruct fts w n"
    "t = TStruct fts w n \<Longrightarrow> struct_ok (map (\<lambda>ft. decoded_as env (unbox_scalar (ft_ty ft))) fts) fts v"
proof -
  obtain fts' w' n' where t: "t = TStruct fts' w' n'"
    using assms(1) by (cases t) (simp_all add: decode_struct_def fail_def)
  have snd: "sound env (struct_ok (map (\<lambda>ft. decoded_as env (unbox_scalar (ft_ty ft))) fts') fts')
      (decode_struct_with env (map (\<lambda>ft. decode_field env (ft_ty ft)) fts') fts' off)"
    by (rule sound_struct_ok(1)) (rule sound_decoders(1))
  have run: "decode_struct_with env (map (\<lambda>ft. decode_field env (ft_ty ft)) fts') fts' off s = (Ok v, s')"
    using assms(1) t by (simp add: decode_struct_def)
  note d = soundD [OF snd run assms(2)]
  show "d_depth s' = d_depth s" "d_frontier s \<le> d_frontier s'" "d_frontier s' \<le> length (e_bytes env)" by (rule d)+
  show "\<exists>fts w n. t = TStruct fts w n" using t by blast
  show "no_nullable_bool t \<longrightarrow> conforms env t v" using struct_decoded [OF d(1)] t by (simp only: decoded_as_def)
  show "t = TStruct fts w n \<Longrightarrow> struct_ok (map (\<lambda>ft. decoded_as env (unbox_scalar (ft_ty ft))) fts) fts v" using d(1) t by simp
qed

section \<open>Properties\<close>

text \<open>A message for the witnesses: a version-0 header and a struct with one \<open>u32\<close> field.\<close>

abbreviation demo_ty :: ty where
  "demo_ty \<equiv> TStruct [FieldType ''a'' TU32 None] 0 False"

definition demo_message :: "byte list" where
  "demo_message = to_le 4 (24 :: u32) @ to_le 4 (0 :: u32) @ replicate 16 0 @
     to_le 4 (16 :: u32) @ to_le 4 (0 :: u32) @ to_le 4 (77 :: u32) @ replicate 4 0"

lemma demo_reads:
  "length demo_message = 40" "u32_in demo_message 0 = 24" "u32_in demo_message 4 = 0"
  "u32_in demo_message 16 = 0" "u32_in demo_message 24 = 16" "u32_in demo_message 28 = 0"
  "u32_in demo_message 32 = 77"
  by (simp_all add: demo_message_def u32_in_def from_le_to_le numeral_eq_Suc)

lemma dread_u32_eq:
  "off + 4 < usize_limit \<Longrightarrow> dread_u32 env off =
     (if off + 4 \<le> length (e_bytes env) then Ok (u32_in (e_bytes env) off) else Err illegal_memory_range)"
  by (simp add: dread_u32_def checked_def get_range_def slice_def u32_in_def)

lemma dread_u64_eq:
  "off + 8 < usize_limit \<Longrightarrow> dread_u64 env off =
     (if off + 8 \<le> length (e_bytes env) then Ok (u64_in (e_bytes env) off) else Err illegal_memory_range)"
  by (simp add: dread_u64_def checked_def get_range_def slice_def u64_in_def)

text \<open>A struct of one field that is not a nullable scalar: the field is placed first.\<close>

lemma pack_single:
  assumes "\<not> is_nullable_scalar t"
  shows "\<exists>ps pf. pack_struct [FieldType nm t None] = Ok ps \<and> packed_fields ps = [pf] \<and>
    f_index (pf_field pf) = 0 \<and> \<not> f_nullable_value_kind (pf_field pf) \<and> pf_offset pf = 0 \<and> pf_bit pf = 0 \<and>
    pf_min_version pf = 0 \<and> pf_size pf = kind_size (pack_kind t) \<and>
    ps_size ps = round_up (kind_size (pack_kind t)) 8 + 8 \<and>
    num_bytes_for_version ps 0 = Some (round_up (kind_size (pack_kind t)) 8 + 8)"
proof -
  define F where "F = pack_field 0 (FieldType nm t None)"
  define P where "P = (place_at (hd (source_fields [F])) (0, 0))\<lparr>pf_linked := None\<rparr>"
  have fs: "pack_fields [FieldType nm t None] = [F]" by (simp add: pack_fields_def F_def)
  have F: "\<not> f_nullable_value_kind F" "f_index F = 0" "f_min_version F = None" "f_kind F = pack_kind t"
    using assms by (simp_all add: F_def pack_field_def)
  have v: "versions_ok 0 [F]" by (simp add: F field_version_def)
  have p: "packed_of [F] = [P]"
    by (simp add: packed_of_def source_fields_def expand_field_def link_values_def link_of_def
        F unplaced_def place_at_def resolve_def P_def)
  have P: "pf_field P = F" "pf_offset P = 0" "pf_bit P = 0" "pf_min_version P = 0" "pf_size P = kind_size (pack_kind t)"
    by (simp_all add: P_def source_fields_def expand_field_def F unplaced_def place_at_def resolve_def field_version_def)
  have ok: "pack_struct [FieldType nm t None] = Ok (struct_of [F])"
    unfolding pack_struct_def fs by (rule pack_Ok [OF _ v]) simp
  have sz: "payload_size_up_to_field P = round_up (kind_size (pack_kind t)) 8"
    by (simp add: payload_size_up_to_field_def usize_limit_def P pad_sum)
  show ?thesis
    using sz ok num_bytes_eq [OF v, of 0] p P F
    by (intro exI [of _ "struct_of [F]"] exI [of _ P])
      (simp add: struct_of_def ordered_of_def STRUCT_HEADER_SIZE_def struct_size_def Let_def)
qed

lemma demo_decode:
  assumes "e_bytes env = demo_message" "0 < e_max_depth env"
  shows "decode_struct env demo_ty 24 dec_new = (Ok (VStruct 0 [VU32 77]), \<lparr>d_frontier = 40, d_depth = 0\<rparr>)"
proof -
  obtain ps pf where p: "pack_struct [FieldType ''a'' TU32 None] = Ok ps" "packed_fields ps = [pf]"
    "f_index (pf_field pf) = 0" "\<not> f_nullable_value_kind (pf_field pf)" "pf_offset pf = 0" "pf_bit pf = 0"
    "pf_min_version pf = 0" "pf_size pf = 4" "num_bytes_for_version ps 0 = Some 16"
    using pack_single [of TU32 "''a''"] by (auto simp: kind_size_def round_up_def)
  show ?thesis
    using assms by (simp add: decode_struct_def decode_struct_with_def nested_def andthen_def enter_def dec_new_def
        decode_struct_body_def lift_def plus_def uadd_def usize_limit_def STRUCT_HEADER_SIZE_def demo_reads
        dread_u32_eq p claim_def checked_add_def max_version_def fail_def ret_def assemble_def
        Let_def default_value_def)
qed


lemma decoder_type_sound_aux:
  assumes r: "decode_struct env t off s = (Ok v, s')" and s: "d_frontier s \<le> length (e_bytes env)"
  shows "d_frontier s \<le> off \<and> off + unat (u32_in (e_bytes env) off) \<le> d_frontier s'"
proof -
  obtain fts w n where t: "t = TStruct fts w n" using decode_struct_conforms(5) [OF r s] by blast
  let ?decs = "map (\<lambda>ft. decode_field env (ft_ty ft)) fts"
  have "covers env off (off + unat (u32_in (e_bytes env) off)) (decode_struct_body env ?decs fts True off)"
    by (rule covers_struct_body [where oks = "map (\<lambda>ft. decoded_as env (unbox_scalar (ft_ty ft))) fts"])
      (auto simp: sound_decoders dread_u32_def checked_def get_range_def slice_def u32_in_def checked_add_def
        split: if_splits)
  then have "covers env off (off + unat (u32_in (e_bytes env) off)) (decode_struct_with env ?decs fts off)"
    unfolding decode_struct_with_def by (rule covers_nested)
  then show ?thesis using r s unfolding t covers_def by (simp add: decode_struct_def)
qed

text \<open>C9: The decoder is type-sound: a struct accepted from any bytes and any decoder state conforms to
  its schema, if that has no nullable boolean field (fields of its version by type, later ones
  defaulted, strings valid UTF-8 without NUL, maps with as many keys as values, union tags of known
  members).  Every handle index in it is among the message's handles or the invalid handle, which no
  schema forbids.  For every schema the nesting depth is restored, and the bytes of the struct lie
  behind everything claimed before, the frontier ending behind them and inside the message: accepted
  objects never overlap.  What becomes of a nullable boolean is in \<open>nullable_bool_lost\<close>.\<close>

theorem decoder_type_sound:
  assumes "decode_struct env t off s = (Ok v, s')" "d_frontier s \<le> length (e_bytes env)"
  shows "(no_nullable_bool t \<longrightarrow> conforms env t v) \<and> d_depth s' = d_depth s \<and>
    d_frontier s \<le> off \<and> off + unat (u32_in (e_bytes env) off) \<le> d_frontier s' \<and>
    d_frontier s' \<le> length (e_bytes env)"
  using decode_struct_conforms(1-4) [OF assms] decoder_type_sound_aux [OF assms] by blast

theorem decoder_type_sound_witness:
  "\<exists>env s'. decode_struct env demo_ty 24 dec_new = (Ok (VStruct 0 [VU32 77]), s') \<and>
     conforms env demo_ty (VStruct 0 [VU32 77]) \<and> 24 + 16 \<le> d_frontier s'"
proof -
  let ?env = "\<lparr>e_bytes = demo_message, e_handle_count = 0, e_max_depth = 1\<rparr>"
  have d: "decode_struct ?env demo_ty 24 dec_new = (Ok (VStruct 0 [VU32 77]), \<lparr>d_frontier = 40, d_depth = 0\<rparr>)"
    by (rule demo_decode) simp_all
  have "no_nullable_bool demo_ty" by (simp add: nullable_bool_def)
  then have "conforms ?env demo_ty (VStruct 0 [VU32 77])"
    using decoder_type_sound [OF d] by (simp add: dec_new_def)
  with d show ?thesis by (intro exI [of _ ?env] exI [of _ "\<lparr>d_frontier = 40, d_depth = 0\<rparr>"]) simp
qed

lemma unat_below_bit:
  assumes "\<And>k. n \<le> k \<Longrightarrow> \<not> bit (w :: 'w::len word) k"
  shows "unat w < 2 ^ n"
proof -
  have "take_bit n w = w" by (rule bit_word_eqI) (use assms not_less in \<open>auto simp: bit_take_bit_iff\<close>)
  then have "unat w = take_bit n (unat w)" by (metis unsigned_take_bit_eq)
  then show ?thesis by (metis take_bit_nat_less_exp)
qed

lemma tame_small_bytes:
  assumes "in_memory env" "length (e_bytes env) < 2 ^ 62" "\<forall>b \<in> set (e_bytes env). b < 128"
  shows "tame_pointers env"
  unfolding tame_pointers_def list_all_iff
proof
  fix off assume "off \<in> set [0..<length (e_bytes env) - 7]"
  then have off: "off + 8 \<le> length (e_bytes env)" by auto
  let ?w = "u64_in (e_bytes env) off"
  have "unat ?w < 2 ^ 63"
  proof (rule unat_below_bit)
    fix k :: nat assume k: "63 \<le> k"
    have "unat (e_bytes env ! (off + 7)) < 2 ^ 7" using assms(3) off by (simp add: word_less_nat_alt)
    then have "\<not> bit (unat (e_bytes env ! (off + 7))) 7"
      by (metis bit_take_bit_iff less_irrefl take_bit_nat_eq_self)
    then have "\<not> bit (e_bytes env ! (off + 7)) 7" by (simp add: bit_unsigned_iff)
    moreover have "\<not> bit ?w k" if "k \<noteq> 63" using that k by (auto dest: bit_imp_le_length)
    ultimately show "\<not> bit ?w k" using off by (cases "k = 63") (auto simp: u64_in_def bit_from_le)
  qed
  then show "unat (of_nat off + ?w) + 24 < usize_limit"
    using assms(2) off by (simp add: unat_word_ariths unat_of_nat usize_limit_def)
qed

text \<open>C26: The decoder does not panic on a message that fits in memory when no eight bytes of it, read as a
  relative pointer, point into the last 24 bytes of the address space and no struct of the schema
  has \<open>2 ^ 32\<close> fields or more: for any schema, any offset inside the message and any decoder state
  the outcome is a value or a validation error.  Without the condition on the pointers it is false
  (see \<open>hostile_pointer_panics\<close>).\<close>

theorem decoder_panic_free:
  assumes "in_memory env" "tame_pointers env" "small_schema t" "off \<le> length (e_bytes env)"
  shows "fst (decode_struct env t off s) \<noteq> Panic"
proof (cases "\<exists>fts w n. t = TStruct fts w n")
  case True
  then obtain fts w n where t: "t = TStruct fts w n" by blast
  have "calm (decode_struct_with env (map (\<lambda>ft. decode_field env (ft_ty ft)) fts) fts off)"
    using assms unfolding t
    by (intro calm_struct(1) calm_decoders(1)) (auto simp: in_memory_def usize_limit_def list_all_iff)
  then show ?thesis by (simp add: t decode_struct_def calm_def)
next
  case False
  then show ?thesis by (cases t) (auto simp: decode_struct_def fail_def)
qed

lemma to_le_4: "to_le 4 x = [ucast x, ucast (drop_bit 8 x), ucast (drop_bit 16 x), ucast (drop_bit 24 x)]"
proof -
  have "[0..<4] = [0, 1, 2, 3::nat]" by (simp add: upt_rec)
  then show ?thesis by (simp add: to_le_def)
qed

lemma demo_small: "\<forall>b \<in> set demo_message. b < 128"
proof -
  have "set (to_le 4 (24 :: u32)) \<subseteq> {0, 24}" "set (to_le 4 (16 :: u32)) \<subseteq> {0, 16}"
    "set (to_le 4 (77 :: u32)) \<subseteq> {0, 77}" "set (to_le 4 (0 :: u32)) \<subseteq> {0}"
    by (simp_all add: to_le_4)
  then show ?thesis unfolding demo_message_def by fastforce
qed

theorem decoder_panic_free_witness:
  "fst (decode_struct \<lparr>e_bytes = demo_message, e_handle_count = 0, e_max_depth = 100\<rparr> demo_ty 24 dec_new) \<noteq> Panic"
  by (rule decoder_panic_free) (simp_all add: in_memory_def demo_reads tame_small_bytes demo_small)

definition hostile_message :: "byte list" where
  "hostile_message = to_le 4 (24 :: u32) @ to_le 4 (0 :: u32) @ replicate 16 0 @
     to_le 4 (16 :: u32) @ to_le 4 (0 :: u32) @ 223 # replicate 7 255"

text \<open>C31: Unchecked additions make the decoder panic on hostile bytes: for a struct with one string field
  there is a message of 40 bytes with a well-formed header and struct whose string pointer targets
  the last byte of the address space, on which \<open>validate_message\<close> panics (in the development profile)
  instead of reporting an error, whatever the handle count.\<close>

theorem hostile_pointer_panics:
  "validate_message hostile_message n (TStruct [FieldType nm (TString nullable) None] 0 False) default_limits = Panic"
proof -
  obtain ps pf where p: "pack_struct [FieldType nm (TString nullable) None] = Ok ps" "packed_fields ps = [pf]"
    "f_index (pf_field pf) = 0" "\<not> f_nullable_value_kind (pf_field pf)" "pf_offset pf = 0" "pf_bit pf = 0"
    "pf_min_version pf = 0" "pf_size pf = 8" "num_bytes_for_version ps 0 = Some 16"
    using pack_single [of "TString nullable" nm] by (auto simp: kind_size_def round_up_def)
  have r: "length hostile_message = 40" "u32_in hostile_message 0 = 24" "u32_in hostile_message 4 = 0"
    "u32_in hostile_message 16 = 0" "u32_in hostile_message 24 = 16" "u32_in hostile_message 28 = 0"
    by (simp_all add: hostile_message_def u32_in_def from_le_to_le numeral_eq_Suc)
  have eval: "replicate 7 (255 :: byte) = [255, 255, 255, 255, 255, 255, 255]" by (simp add: numeral_eq_Suc)
  have "drop 32 hostile_message = 223 # replicate 7 255" by (simp add: hostile_message_def del: replicate.simps)
  then have r': "u64_in hostile_message 32 = 0xFFFFFFFFFFFFFFDF"
    by (simp add: u64_in_def eval)
  obtain h where h: "parse hostile_message = Ok (h, 24)"
    by (auto simp: parse_eq base_error_def r header_cut_short_def Let_def required_size_simps)
  have a: "align_up 24 MESSAGE_ALIGNMENT = Some (Some 24)" by (rule align_header) simp
  show ?thesis
    by (simp add: validate_message_def r r' h a checked_def MIN_MESSAGE_SIZE_def MESSAGE_HEADER_V0_SIZE_def default_limits_def
        DEFAULT_MAX_MESSAGE_SIZE_def DEFAULT_MAX_RECURSION_DEPTH_def
        decode_struct_def decode_struct_with_def nested_def andthen_def enter_def dec_new_def
        decode_struct_body_def lift_def plus_def uadd_def usize_limit_def STRUCT_HEADER_SIZE_def
        dread_u32_eq dread_u64_eq p claim_def checked_add_def max_version_def fail_def ret_def
        Let_def default_value_def pointed_def read_target_def pointer_decode_def decode_string_at_def
        ARRAY_HEADER_SIZE_def)
qed


text \<open>What \<open>validate_message\<close> accepts: the message is no longer than the limit, its header parses,
  the payload struct starts right behind the header of that version (24, 32, 48 or 56 bytes),
  whatever the header's payload pointer says, it lies inside the message and conforms to the schema
  if that has no nullable boolean field, with every handle among the attached ones or invalid.\<close>

theorem validate_message_sound:
  assumes "validate_message bytes hc t limits = Ok m"
  shows "length bytes \<le> vl_max_message_size limits \<and>
    parse bytes = Ok (vm_header m, vm_payload_offset m) \<and>
    vm_payload_offset m = (let v = mh_version (vm_header m) in
      if v = 0 then 24 else if v = 1 then 32 else if v = 2 then 48 else 56) \<and>
    vm_payload_offset m + unat (u32_in bytes (vm_payload_offset m)) \<le> length bytes \<and>
    (no_nullable_bool t \<longrightarrow>
      conforms \<lparr>e_bytes = bytes, e_handle_count = hc, e_max_depth = vl_max_recursion_depth limits\<rparr> t (vm_payload m))"
proof -
  obtain n s' where p: "parse bytes = Ok (vm_header m, n)" "vm_payload_offset m = n"
    "length bytes \<le> vl_max_message_size limits"
    and d: "decode_struct \<lparr>e_bytes = bytes, e_handle_count = hc, e_max_depth = vl_max_recursion_depth limits\<rparr>
       t n dec_new = (Ok (vm_payload m), s')"
    using validate_message_Ok [OF assms] by metis
  have "n = required_size (u32_in bytes 4) \<and> vm_header m = header_in bytes"
    using p(1) by (auto simp: parse_eq split: if_splits option.splits)
  then have "n = required_size (mh_version (vm_header m))" by (simp add: header_in_def Let_def)
  then have "n = (let v = mh_version (vm_header m) in
      if v = 0 then 24 else if v = 1 then 32 else if v = 2 then 48 else 56)"
    by (cases "mh_version (vm_header m)" rule: version_cases) (auto simp: required_size_simps Let_def)
  then show ?thesis using p decode_struct_conforms(1,4) [OF d] decoder_type_sound_aux [OF d]
    by (simp add: dec_new_def)
qed

lemma demo_validates:
  "\<exists>m. validate_message demo_message 0 demo_ty default_limits = Ok m \<and> vm_payload m = VStruct 0 [VU32 77]"
proof -
  obtain h where h: "parse demo_message = Ok (h, 24)"
    by (auto simp: parse_eq base_error_def demo_reads header_cut_short_def Let_def required_size_simps)
  have a: "align_up 24 MESSAGE_ALIGNMENT = Some (Some 24)" by (rule align_header) simp
  show ?thesis
    by (simp add: validate_message_def demo_reads h a checked_def MIN_MESSAGE_SIZE_def MESSAGE_HEADER_V0_SIZE_def default_limits_def
        DEFAULT_MAX_MESSAGE_SIZE_def DEFAULT_MAX_RECURSION_DEPTH_def demo_decode)
qed

theorem validate_message_sound_witness:
  "\<exists>m. validate_message demo_message 0 demo_ty default_limits = Ok m \<and> vm_payload_offset m = 24"
proof -
  obtain m where m: "validate_message demo_message 0 demo_ty default_limits = Ok m"
    using demo_validates by blast
  obtain h where h: "parse demo_message = Ok (h, 24)"
    by (auto simp: parse_eq base_error_def demo_reads header_cut_short_def Let_def required_size_simps)
  show ?thesis using validate_message_sound [OF m] m h by simp
qed

end
