(* ===== verification/WireCodes.thy ===== *)
theory WireCodes
  imports WireEncode WireSound
begin

text \<open>
  The relation between an encoder step and the decoder step that reads its slot back: \<open>codes\<close> for steps
  that write in place, \<open>makes\<close> for objects appended to the buffer.  It composes along sequences, headers
  and pointers; this theory proves it for scalars, strings, arrays, maps and unions.
\<close>

section \<open>Agreement of buffers\<close>

text \<open>Boolean fields share bytes, so the part of a buffer a field owns is a set of bit positions.\<close>

definition bit_at :: "byte list \<Rightarrow> nat \<Rightarrow> bool" where
  "bit_at xs p = bit (xs ! (p div 8)) (p mod 8)"

definition bytes_at :: "nat \<Rightarrow> nat \<Rightarrow> nat set" where
  "bytes_at off n = {8 * off ..< 8 * (off + n)}"

definition agree :: "nat set \<Rightarrow> byte list \<Rightarrow> byte list \<Rightarrow> bool" where
  "agree S xs ys = (\<forall>p \<in> S. p div 8 < length xs \<and> p div 8 < length ys \<and> bit_at xs p = bit_at ys p)"

lemma agree_mono: "agree S xs ys \<Longrightarrow> T \<subseteq> S \<Longrightarrow> agree T xs ys"
  by (auto simp: agree_def)

lemma agree_Un [simp]: "agree (S \<union> T) xs ys \<longleftrightarrow> agree S xs ys \<and> agree T xs ys"
  by (auto simp: agree_def)

lemma agree_trans: "agree S xs ys \<Longrightarrow> agree S ys zs \<Longrightarrow> agree S xs zs"
  by (auto simp: agree_def)

lemma agree_sym: "agree S xs ys \<Longrightarrow> agree S ys xs"
  by (auto simp: agree_def)

lemma agree_empty [simp]: "agree {} xs ys"
  by (simp add: agree_def)

lemma bytes_at_0 [simp]: "bytes_at off 0 = {}"
  by (simp add: bytes_at_def)

lemma in_bytes_at: "p \<in> bytes_at off n \<longleftrightarrow> off \<le> p div 8 \<and> p div 8 < off + n"
  unfolding bytes_at_def by auto

lemma bytes_at_split: "m \<le> n \<Longrightarrow> bytes_at off n = bytes_at off m \<union> bytes_at (off + m) (n - m)"
  by (auto simp: in_bytes_at)

lemma bytes_at_mono: "a \<le> b \<Longrightarrow> b + m \<le> a + n \<Longrightarrow> bytes_at b m \<subseteq> bytes_at a n"
  by (auto simp: in_bytes_at)

lemma bytes_at_disjoint: "a + n \<le> b \<or> b + m \<le> a \<Longrightarrow> bytes_at a n \<inter> bytes_at b m = {}"
  by (auto simp: in_bytes_at)

lemma bit_in_bytes_at: "k \<le> 7 \<Longrightarrow> off \<le> i \<Longrightarrow> i < off + n \<Longrightarrow> 8 * i + k \<in> bytes_at off n"
  by (simp add: bytes_at_def)

lemma agree_nth:
  assumes "agree (bytes_at i 1) xs ys"
  shows "i < length xs" "i < length ys" "xs ! i = ys ! i"
proof -
  have p: "i < length xs \<and> i < length ys \<and> bit (xs ! i) k = bit (ys ! i) k" if "k < 8" for k
  proof -
    have "8 * i + k \<in> bytes_at i 1" using that by (simp add: bytes_at_def)
    then have "(8 * i + k) div 8 < length xs \<and> (8 * i + k) div 8 < length ys \<and>
        bit_at xs (8 * i + k) = bit_at ys (8 * i + k)" using assms unfolding agree_def by blast
    then show ?thesis using that by (simp add: bit_at_def)
  qed
  show "i < length xs" "i < length ys" using p [of 0] by simp_all
  show "xs ! i = ys ! i" by (rule bit_word_eqI) (use p in simp)
qed

lemma agree_bytes: "agree (bytes_at off n) xs ys \<Longrightarrow> i < n \<Longrightarrow>
    off + i < length xs \<and> off + i < length ys \<and> xs ! (off + i) = ys ! (off + i)"
  using agree_nth [of "off + i" xs ys] agree_mono [of "bytes_at off n" xs ys "bytes_at (off + i) 1"]
  by (simp add: bytes_at_mono)

lemma agree_slice:
  assumes a: "agree (bytes_at off n) xs ys"
  shows "take n (drop off xs) = take n (drop off ys)"
    and "0 < n \<Longrightarrow> off + n \<le> length xs" and "0 < n \<Longrightarrow> off + n \<le> length ys"
proof -
  have l: "0 < n \<Longrightarrow> off + n \<le> length xs \<and> off + n \<le> length ys"
    using agree_bytes [OF a, of "n - 1"] by (simp add: Suc_le_eq [symmetric] del: Suc_le_eq)
  then show "0 < n \<Longrightarrow> off + n \<le> length xs" "0 < n \<Longrightarrow> off + n \<le> length ys" by simp_all
  show "take n (drop off xs) = take n (drop off ys)"
    using l agree_bytes [OF a] by (cases "n = 0") (auto intro: nth_equalityI)
qed

lemma agree_by_bytes:
  assumes "\<And>i. i < n \<Longrightarrow> off + i < length xs \<and> off + i < length ys \<and> xs ! (off + i) = ys ! (off + i)"
  shows "agree (bytes_at off n) xs ys"
proof -
  have "p div 8 < length xs \<and> p div 8 < length ys \<and> xs ! (p div 8) = ys ! (p div 8)"
    if "p \<in> bytes_at off n" for p
    using that assms [of "p div 8 - off"] by (auto simp: in_bytes_at less_diff_conv2)
  then show ?thesis by (simp add: agree_def bit_at_def)
qed

section \<open>Coding\<close>

text \<open>\<open>m\<close> codes a value for the reader \<open>r\<close> in the slot \<open>S\<close> of the buffer: when it succeeds the buffer has
  not shrunk and has changed in the slot only, and on any message that contains the slot and what
  was appended, \<open>r\<close> succeeds with a value in \<open>P\<close>, claiming only what was appended.\<close>

definition codes :: "denv \<Rightarrow> nat \<Rightarrow> nat set \<Rightarrow> estep \<Rightarrow> 'a step \<Rightarrow> ('a \<Rightarrow> bool) \<Rightarrow> bool" where
  "codes env h S m r P = (\<forall>s s'. (\<forall>p \<in> S. p div 8 < length (en_buf s)) \<longrightarrow> m s = (Ok (), s') \<longrightarrow>
     length (en_buf s) \<le> length (en_buf s') \<and>
     agree (bytes_at 0 (length (en_buf s)) - S) (en_buf s) (en_buf s') \<and>
     (length (en_buf s') \<le> length (e_bytes env) \<longrightarrow>
      agree (S \<union> bytes_at (length (en_buf s)) (length (en_buf s') - length (en_buf s))) (en_buf s') (e_bytes env) \<longrightarrow>
      (\<forall>d. d_frontier d \<le> length (en_buf s) \<longrightarrow> d_depth d + h \<le> e_max_depth env \<longrightarrow>
        (\<exists>x d'. r d = (Ok x, d') \<and> P x \<and> d_depth d' = d_depth d \<and> d_frontier d' \<le> length (en_buf s')))))"

lemma codesD:
  assumes "codes env h S m r P" "\<forall>p \<in> S. p div 8 < length (en_buf s)" "m s = (Ok (), s')"
  shows "length (en_buf s) \<le> length (en_buf s')"
    "agree (bytes_at 0 (length (en_buf s)) - S) (en_buf s) (en_buf s')"
    "\<lbrakk>length (en_buf s') \<le> length (e_bytes env);
      agree (S \<union> bytes_at (length (en_buf s)) (length (en_buf s') - length (en_buf s))) (en_buf s') (e_bytes env);
      d_frontier d \<le> length (en_buf s); d_depth d + h \<le> e_max_depth env\<rbrakk>
     \<Longrightarrow> \<exists>x d'. r d = (Ok x, d') \<and> P x \<and> d_depth d' = d_depth d \<and> d_frontier d' \<le> length (en_buf s')"
  using assms unfolding codes_def by blast+

lemma codesI:
  assumes "\<And>s s'. \<forall>p \<in> S. p div 8 < length (en_buf s) \<Longrightarrow> m s = (Ok (), s') \<Longrightarrow>
     length (en_buf s) \<le> length (en_buf s') \<and> agree (bytes_at 0 (length (en_buf s)) - S) (en_buf s) (en_buf s')"
    and "\<And>s s' d :: dec. \<lbrakk>\<forall>p \<in> S. p div 8 < length (en_buf s); m s = (Ok (), s');
      length (en_buf s') \<le> length (e_bytes env);
      agree (S \<union> bytes_at (length (en_buf s)) (length (en_buf s') - length (en_buf s))) (en_buf s') (e_bytes env);
      d_frontier d \<le> length (en_buf s); d_depth d + h \<le> e_max_depth env\<rbrakk>
     \<Longrightarrow> \<exists>x d'. r d = (Ok x, d') \<and> P x \<and> d_depth d' = d_depth d \<and> d_frontier d' \<le> length (en_buf s')"
  shows "codes env h S m r P"
  using assms unfolding codes_def by blast

lemma codes_fail [intro]: "codes env h S (fail e) r P"
  by (simp add: codes_def fail_def)

lemma codes_weaken:
  assumes "codes env h S m r P" "S \<subseteq> T" "h \<le> h'" "\<And>x. P x \<Longrightarrow> Q x"
  shows "codes env h' T m r Q"
proof (rule codesI)
  fix s s' assume T: "\<forall>p \<in> T. p div 8 < length (en_buf s)" and m: "m s = (Ok (), s')"
  then have S: "\<forall>p \<in> S. p div 8 < length (en_buf s)" using assms(2) by blast
  note c = codesD [OF assms(1) S m]
  show "length (en_buf s) \<le> length (en_buf s') \<and> agree (bytes_at 0 (length (en_buf s)) - T) (en_buf s) (en_buf s')"
    using c(1,2) assms(2) by (auto intro: agree_mono)
  fix d :: dec assume "length (en_buf s') \<le> length (e_bytes env)"
    "agree (T \<union> bytes_at (length (en_buf s)) (length (en_buf s') - length (en_buf s))) (en_buf s') (e_bytes env)"
    "d_frontier d \<le> length (en_buf s)" "d_depth d + h' \<le> e_max_depth env"
  with c(3) [of d] assms(2-4) show "\<exists>x d'. r d = (Ok x, d') \<and> Q x \<and> d_depth d' = d_depth d \<and> d_frontier d' \<le> length (en_buf s')"
    by (fastforce intro: agree_mono)
qed

lemma andthen_Ok: "andthen m f s = (Ok b, s') \<longleftrightarrow> (\<exists>a s1. m s = (Ok a, s1) \<and> f a s1 = (Ok b, s'))"
  by (auto simp: andthen_def split: prod.splits outcome.splits)

lemma andthen_unit_Ok: "andthen m f s = (Ok b, s') \<longleftrightarrow> (\<exists>s1. m s = (Ok (), s1) \<and> f () s1 = (Ok b, s'))"
  by (auto simp: andthen_Ok)

lemma codes_andthen:
  assumes 1: "codes env h S1 m1 r1 P1" and 2: "\<And>x. P1 x \<Longrightarrow> codes env h S2 m2 (r2 x) P2"
    and ex: "\<exists>x. P1 x" and disj: "S1 \<inter> S2 = {}"
  shows "codes env h (S1 \<union> S2) (andthen m1 (\<lambda>_. m2)) (andthen r1 r2) P2"
proof (rule codesI)
  fix s s' assume S: "\<forall>p \<in> S1 \<union> S2. p div 8 < length (en_buf s)" and m: "andthen m1 (\<lambda>_. m2) s = (Ok (), s')"
  obtain x0 where x0: "P1 x0" using ex by blast
  from m obtain s1 where m1: "m1 s = (Ok (), s1)" and m2: "m2 s1 = (Ok (), s')"
    by (auto simp: andthen_unit_Ok)
  have S1: "\<forall>p \<in> S1. p div 8 < length (en_buf s)" using S by blast
  note c1 = codesD [OF 1 S1 m1]
  have S2: "\<forall>p \<in> S2. p div 8 < length (en_buf s1)" using S c1(1) by (meson UnI2 less_le_trans)
  note c2 = codesD [OF 2 S2 m2]
  let ?n = "length (en_buf s)" and ?n1 = "length (en_buf s1)" and ?n2 = "length (en_buf s')"
  have a2: "agree (bytes_at 0 ?n1 - S2) (en_buf s1) (en_buf s')" by (rule c2(2) [OF x0])
  have sub: "bytes_at 0 ?n \<subseteq> bytes_at 0 ?n1" using c1(1) by (auto simp: in_bytes_at)
  show "?n \<le> ?n2 \<and> agree (bytes_at 0 ?n - (S1 \<union> S2)) (en_buf s) (en_buf s')"
  proof
    show "?n \<le> ?n2" using c1(1) c2(1) [OF x0] by simp
    show "agree (bytes_at 0 ?n - (S1 \<union> S2)) (en_buf s) (en_buf s')"
      by (rule agree_trans [OF agree_mono [OF c1(2)] agree_mono [OF a2]]) (use sub in auto)
  qed
  fix d :: dec assume len: "?n2 \<le> length (e_bytes env)"
    and ag: "agree (S1 \<union> S2 \<union> bytes_at ?n (?n2 - ?n)) (en_buf s') (e_bytes env)"
    and d: "d_frontier d \<le> ?n" "d_depth d + h \<le> e_max_depth env"
  have "x \<notin> bytes_at ?n (?n1 - ?n)" if "x \<in> S2" for x
    using bspec [OF S, of x] that by (simp add: in_bytes_at)
  then have new: "bytes_at ?n (?n1 - ?n) \<inter> S2 = {}" by blast
  have "agree (S1 \<union> bytes_at ?n (?n1 - ?n)) (en_buf s1) (en_buf s')"
  proof (rule agree_mono [OF a2])
    have "S1 \<subseteq> bytes_at 0 ?n" using S1 by (auto simp: in_bytes_at)
    moreover have "bytes_at ?n (?n1 - ?n) \<subseteq> bytes_at 0 ?n1" using c1(1) by (auto simp: in_bytes_at)
    ultimately show "S1 \<union> bytes_at ?n (?n1 - ?n) \<subseteq> bytes_at 0 ?n1 - S2" using sub disj new by blast
  qed
  moreover have "agree (S1 \<union> bytes_at ?n (?n1 - ?n)) (en_buf s') (e_bytes env)"
    by (rule agree_mono [OF ag]) (use c2(1) [OF x0] in \<open>auto simp: in_bytes_at\<close>)
  ultimately have "agree (S1 \<union> bytes_at ?n (?n1 - ?n)) (en_buf s1) (e_bytes env)" by (rule agree_trans)
  moreover have "?n1 \<le> length (e_bytes env)" using len c2(1) [OF x0] by simp
  ultimately obtain x d1 where r1: "r1 d = (Ok x, d1)" "P1 x" "d_depth d1 = d_depth d" "d_frontier d1 \<le> ?n1"
    using c1(3) [OF _ _ d] by blast
  have "agree (S2 \<union> bytes_at ?n1 (?n2 - ?n1)) (en_buf s') (e_bytes env)"
    by (rule agree_mono [OF ag]) (use c1(1) in \<open>auto simp: in_bytes_at\<close>)
  then obtain y d2 where r2: "r2 x d1 = (Ok y, d2)" "P2 y" "d_depth d2 = d_depth d1" "d_frontier d2 \<le> ?n2"
    using c2(3) [OF r1(2) len _ r1(4)] d(2) r1(3) by auto
  show "\<exists>x d'. andthen r1 r2 d = (Ok x, d') \<and> P2 x \<and> d_depth d' = d_depth d \<and> d_frontier d' \<le> ?n2"
    using r1 r2 by (auto simp: andthen_Ok)
qed

lemma codes_ret: "P v \<Longrightarrow> codes env h {} (ret ()) (ret v) P"
  by (rule codesI) (auto simp: ret_def agree_def in_bytes_at)

section \<open>Coding scalars\<close>

lemma write_le_inside:
  assumes "off + length bs \<le> length (en_buf s)" "write_le off bs s = (Ok (), s')"
  shows "s' = s\<lparr>en_buf := take off (en_buf s) @ bs @ drop (off + length bs) (en_buf s)\<rparr>"
  using assms by (auto simp: write_le_def andthen_def lift_def checked_def checked_add_def grow_to_def grow_def
      copy_into_def split: if_splits)

text \<open>What a write within the buffer does to it.\<close>

lemma patch_agree:
  assumes "off + length bs \<le> length xs"
  shows "agree (bytes_at 0 (length xs) - bytes_at off (length bs)) xs (take off xs @ bs @ drop (off + length bs) xs)"
proof -
  let ?ys = "take off xs @ bs @ drop (off + length bs) xs"
  have "p div 8 < length ?ys \<and> xs ! (p div 8) = ?ys ! (p div 8)"
    if "p \<in> bytes_at 0 (length xs) - bytes_at off (length bs)" for p
    using that assms by (auto simp: in_bytes_at nth_append not_le)
  then show ?thesis by (auto simp: agree_def bit_at_def in_bytes_at)
qed

lemma slot_inside:
  "0 < n \<Longrightarrow> \<forall>p \<in> bytes_at off n. p div 8 < length xs \<Longrightarrow> off + n \<le> length xs"
proof -
  assume n: "0 < n" and a: "\<forall>p \<in> bytes_at off n. p div 8 < length xs"
  have "8 * (off + n - 1) \<in> bytes_at off n" using n by (auto simp: in_bytes_at)
  from bspec [OF a this] n show "off + n \<le> length xs" by simp
qed

lemma codes_patch:
  assumes n: "n = length bs" "0 < n"
    and m: "\<And>s s'. off + n \<le> length (en_buf s) \<Longrightarrow> m s = (Ok (), s') \<Longrightarrow>
      en_buf s' = take off (en_buf s) @ bs @ drop (off + n) (en_buf s)"
    and r: "\<And>d :: dec. take n (drop off (e_bytes env)) = bs \<Longrightarrow> off + n \<le> length (e_bytes env) \<Longrightarrow> \<exists>x. r d = (Ok x, d) \<and> P x"
  shows "codes env h (bytes_at off n) m r P"
proof (rule codesI)
  fix s s' assume S: "\<forall>p \<in> bytes_at off n. p div 8 < length (en_buf s)" and run: "m s = (Ok (), s')"
  have len: "off + length bs \<le> length (en_buf s)" using slot_inside [OF n(2) S] n(1) by simp
  have s': "en_buf s' = take off (en_buf s) @ bs @ drop (off + n) (en_buf s)" using m [OF _ run] len n(1) by simp
  have l': "length (en_buf s') = length (en_buf s)" using len n(1) by (simp add: s')
  show "length (en_buf s) \<le> length (en_buf s') \<and> agree (bytes_at 0 (length (en_buf s)) - bytes_at off n) (en_buf s) (en_buf s')"
    using patch_agree [OF len] l' by (simp add: s' n)
  fix d :: dec
  assume "length (en_buf s') \<le> length (e_bytes env)"
    and ag: "agree (bytes_at off n \<union> bytes_at (length (en_buf s)) (length (en_buf s') - length (en_buf s))) (en_buf s') (e_bytes env)"
    and d: "d_frontier d \<le> length (en_buf s)"
  have ag': "agree (bytes_at off n) (en_buf s') (e_bytes env)" using ag by simp
  have "take n (drop off (en_buf s')) = bs" using len by (simp add: s' n)
  then have "take n (drop off (e_bytes env)) = bs" using agree_slice(1) [OF ag'] by simp
  from r [OF this agree_slice(3) [OF ag' n(2)]] d l'
  show "\<exists>x d'. r d = (Ok x, d') \<and> P x \<and> d_depth d' = d_depth d \<and> d_frontier d' \<le> length (en_buf s')" by fastforce
qed

lemma codes_write:
  assumes "n = length bs" "0 < n"
    and "\<And>d :: dec. take n (drop off (e_bytes env)) = bs \<Longrightarrow> off + n \<le> length (e_bytes env) \<Longrightarrow> \<exists>x. r d = (Ok x, d) \<and> P x"
  shows "codes env h (bytes_at off n) (write_le off bs) r P"
  by (rule codes_patch [OF assms(1,2) _ assms(3)]) (use assms(1) write_le_inside in force)+

lemma dread_read:
  assumes "length (e_bytes env) < 2 ^ 32"
  shows "off + 2 \<le> length (e_bytes env) \<Longrightarrow> dread_u16 env off = Ok (from_le (take 2 (drop off (e_bytes env))))"
    "off + 4 \<le> length (e_bytes env) \<Longrightarrow> dread_u32 env off = Ok (from_le (take 4 (drop off (e_bytes env))))"
    "off + 8 \<le> length (e_bytes env) \<Longrightarrow> dread_u64 env off = Ok (from_le (take 8 (drop off (e_bytes env))))"
  using assms by (simp_all add: dread_u16_def dread_u32_def dread_u64_def checked_def get_range_def slice_def
      checked_add_def usize_limit_def)

lemma get_byte_read:
  "Suc off \<le> length (e_bytes env) \<Longrightarrow> take (Suc 0) (drop off (e_bytes env)) = [b] \<Longrightarrow> get_byte env off = Ok b"
  by (cases "drop off (e_bytes env)") (auto simp: get_byte_def Suc_le_eq nth_via_drop)

lemma to_le_1 [simp]: "to_le (Suc 0) (x :: byte) = [x]"
  by (simp add: to_le_def)

lemma codes_scalars:
  assumes small: "length (e_bytes env) < 2 ^ 32"
  shows "codes env h (bytes_at off 1) (write_le off (to_le 1 x8)) (scalar (get_byte env off) f8) (\<lambda>v. v = f8 x8)"
    "codes env h (bytes_at off 2) (write_le off (to_le 2 x16)) (scalar (dread_u16 env off) f16) (\<lambda>v. v = f16 x16)"
    "codes env h (bytes_at off 4) (write_le off (to_le 4 x32)) (scalar (dread_u32 env off) f32) (\<lambda>v. v = f32 x32)"
    "codes env h (bytes_at off 8) (write_le off (to_le 8 x64)) (scalar (dread_u64 env off) f64) (\<lambda>v. v = f64 x64)"
  by (rule codes_write; simp add: get_byte_read dread_read [OF small] from_le_to_le andthen_def lift_def ret_def)+

lemma codes_flag:
  assumes k: "k \<le> 7"
  shows "codes env h {8 * off + k} (write_bit off k b) (lift (get_byte env off)) (\<lambda>x. bit x k = b)"
proof (rule codesI)
  have p: "(8 * off + k) div 8 = off" "(8 * off + k) mod 8 = k" using k by simp_all
  fix s s' assume S: "\<forall>p \<in> {8 * off + k}. p div 8 < length (en_buf s)" and m: "write_bit off k b s = (Ok (), s')"
  have off: "off < length (en_buf s)" using S p by simp
  have s': "s' = s\<lparr>en_buf := (en_buf s)[off := if b then en_buf s ! off OR push_bit k 1 else en_buf s ! off AND NOT (push_bit k 1)]\<rparr>"
    using m off by (auto simp: write_bit_def Let_def)
  have b: "bit (en_buf s' ! off) j = (if j = k then b else bit (en_buf s ! off) j)" if "j < 8" for j
    using that k off by (auto simp: s' bit_or_iff bit_and_iff bit_not_iff bit_exp_iff)
  have "bit_at (en_buf s) q = bit_at (en_buf s') q" if "q \<noteq> 8 * off + k" "q div 8 < length (en_buf s)" for q
  proof (cases "q div 8 = off")
    case True
    then have "q mod 8 \<noteq> k" using that by auto
    then show ?thesis using True b [of "q mod 8"] by (simp add: bit_at_def)
  next
    case False
    then show ?thesis by (simp add: s' bit_at_def)
  qed
  then show "length (en_buf s) \<le> length (en_buf s') \<and> agree (bytes_at 0 (length (en_buf s)) - {8 * off + k}) (en_buf s) (en_buf s')"
    by (auto simp: agree_def in_bytes_at s')
  fix d :: dec
  assume "agree ({8 * off + k} \<union> bytes_at (length (en_buf s)) (length (en_buf s') - length (en_buf s))) (en_buf s') (e_bytes env)"
    and d: "d_frontier d \<le> length (en_buf s)"
  then have "off < length (e_bytes env)" "bit (e_bytes env ! off) k = bit (en_buf s' ! off) k"
    using p by (simp_all add: agree_def bit_at_def)
  then show "\<exists>x d'. lift (get_byte env off) d = (Ok x, d') \<and> bit x k = b \<and> d_depth d' = d_depth d \<and>
      d_frontier d' \<le> length (en_buf s')"
    using b [of k] k d by (simp add: get_byte_def lift_def s')
qed

section \<open>Steps that leave the buffer alone\<close>

lemma codes_silent:
  assumes m: "codes env h S m r P" and p: "\<And>s s1. p s = (Ok (), s1) \<Longrightarrow> en_buf s1 = en_buf s"
  shows "codes env h S (andthen p (\<lambda>_. m)) r P"
proof (rule codesI)
  fix s s' assume S: "\<forall>p \<in> S. p div 8 < length (en_buf s)" and a: "andthen p (\<lambda>_. m) s = (Ok (), s')"
  then obtain s1 where 1: "p s = (Ok (), s1)" and 2: "m s1 = (Ok (), s')" by (auto simp: andthen_unit_Ok)
  note b = p [OF 1]
  note c = codesD [OF m _ 2, unfolded b, OF S]
  show "length (en_buf s) \<le> length (en_buf s') \<and> agree (bytes_at 0 (length (en_buf s)) - S) (en_buf s) (en_buf s')"
    using c(1,2) by blast
  show "\<exists>x d'. r d = (Ok x, d') \<and> P x \<and> d_depth d' = d_depth d \<and> d_frontier d' \<le> length (en_buf s')"
    if "length (en_buf s') \<le> length (e_bytes env)"
      "agree (S \<union> bytes_at (length (en_buf s)) (length (en_buf s') - length (en_buf s))) (en_buf s') (e_bytes env)"
      "d_frontier d \<le> length (en_buf s)" "d_depth d + h \<le> e_max_depth env" for d
    using c(3) that by blast
qed

lemma codes_handle:
  assumes "codes env h S (write_le off (to_le 4 i)) r P"
  shows "codes env h S (write_handle off i) r P"
  unfolding write_handle_def
  by (rule codes_silent [OF assms]) (auto simp: push_handle_def ret_def split: if_splits)

lemma codes_enc_nested:
  assumes "codes env h S m r P"
  shows "codes env h S (enc_nested m) r P"
proof -
  have c: "codes env h S (andthen enc_enter (\<lambda>_. m)) r P"
    by (rule codes_silent [OF assms]) (auto simp: enc_enter_def Let_def split: if_splits)
  have "\<exists>s1. andthen enc_enter (\<lambda>_. m) s = (Ok (), s1) \<and> en_buf s1 = en_buf s'"
    if "enc_nested m s = (Ok (), s')" for s s'
    using that by (auto simp: enc_nested_def andthen_def split: prod.splits outcome.splits)
  note run = this
  show ?thesis
  proof (rule codesI)
    fix s s' assume S: "\<forall>p \<in> S. p div 8 < length (en_buf s)" and "enc_nested m s = (Ok (), s')"
    then obtain s1 where s1: "andthen enc_enter (\<lambda>_. m) s = (Ok (), s1)" and b: "en_buf s1 = en_buf s'"
      using run by blast
    note d = codesD [OF c S s1, unfolded b]
    show "length (en_buf s) \<le> length (en_buf s') \<and> agree (bytes_at 0 (length (en_buf s)) - S) (en_buf s) (en_buf s')"
      using d(1,2) by blast
    show "\<exists>x d'. r d = (Ok x, d') \<and> P x \<and> d_depth d' = d_depth d \<and> d_frontier d' \<le> length (en_buf s')"
      if "length (en_buf s') \<le> length (e_bytes env)"
        "agree (S \<union> bytes_at (length (en_buf s)) (length (en_buf s') - length (en_buf s))) (en_buf s') (e_bytes env)"
        "d_frontier d \<le> length (en_buf s)" "d_depth d + h \<le> e_max_depth env" for d
      using d(3) that by blast
  qed
qed

lemma codes_nested:
  assumes "codes env h S m r P"
  shows "codes env (Suc h) S m (nested env r) P"
proof (rule codesI)
  fix s s' assume S: "\<forall>p \<in> S. p div 8 < length (en_buf s)" and m: "m s = (Ok (), s')"
  note c = codesD [OF assms S m]
  show "length (en_buf s) \<le> length (en_buf s') \<and> agree (bytes_at 0 (length (en_buf s)) - S) (en_buf s) (en_buf s')"
    using c(1,2) by blast
  fix d :: dec
  let ?d = "d\<lparr>d_depth := d_depth d + 1\<rparr>"
  assume "length (en_buf s') \<le> length (e_bytes env)"
    "agree (S \<union> bytes_at (length (en_buf s)) (length (en_buf s') - length (en_buf s))) (en_buf s') (e_bytes env)"
    "d_frontier d \<le> length (en_buf s)" and h: "d_depth d + Suc h \<le> e_max_depth env"
  then obtain x d' where r: "r ?d = (Ok x, d')" "P x" "d_depth d' = d_depth d + 1" "d_frontier d' \<le> length (en_buf s')"
    using c(3) [of ?d] by auto
  then show "\<exists>x d'. nested env r d = (Ok x, d') \<and> P x \<and> d_depth d' = d_depth d \<and> d_frontier d' \<le> length (en_buf s')"
    using h by (auto simp: nested_def andthen_def enter_def Let_def)
qed

section \<open>Coding objects and pointers\<close>

lemma codes_map:
  assumes "codes env h S m r P" "\<And>x. P x \<Longrightarrow> Q (f x)"
  shows "codes env h S m (andthen r (\<lambda>x. ret (f x))) Q"
proof (rule codesI)
  fix s s' assume S: "\<forall>p \<in> S. p div 8 < length (en_buf s)" and m: "m s = (Ok (), s')"
  note c = codesD [OF assms(1) S m]
  show "length (en_buf s) \<le> length (en_buf s') \<and> agree (bytes_at 0 (length (en_buf s)) - S) (en_buf s) (en_buf s')"
    using c(1,2) by blast
  fix d :: dec assume d: "length (en_buf s') \<le> length (e_bytes env)"
    "agree (S \<union> bytes_at (length (en_buf s)) (length (en_buf s') - length (en_buf s))) (en_buf s') (e_bytes env)"
    "d_frontier d \<le> length (en_buf s)" "d_depth d + h \<le> e_max_depth env"
  show "\<exists>x d'. andthen r (\<lambda>x. ret (f x)) d = (Ok x, d') \<and> Q x \<and> d_depth d' = d_depth d \<and> d_frontier d' \<le> length (en_buf s')"
    using c(3) [OF d] assms(2) by (auto simp: andthen_Ok ret_def)
qed

lemma codes_bit:
  assumes "k \<le> 7"
  shows "codes env h {8 * off + k} (write_bit off k b) (scalar (get_byte env off) (\<lambda>x. f (bit x k))) (\<lambda>v. v = f b)"
  by (rule codes_map [OF codes_flag [OF assms]]) simp

lemma codes_u32:
  assumes "length (e_bytes env) < 2 ^ 32"
  shows "codes env h (bytes_at off 4) (write_le off (to_le 4 a)) (lift (dread_u32 env off)) (\<lambda>x. x = a)"
  by (rule codes_write; simp add: dread_read [OF assms] from_le_to_le lift_def)

lemma codes_stronger:
  assumes "codes env h S m' r P" "\<And>s s'. m s = (Ok (), s') \<Longrightarrow> m' s = (Ok (), s')"
  shows "codes env h S m r P"
proof (rule codesI)
  fix s s' assume S: "\<forall>p \<in> S. p div 8 < length (en_buf s)" and m: "m s = (Ok (), s')"
  note c = codesD [OF assms(1) S assms(2) [OF m]]
  show "length (en_buf s) \<le> length (en_buf s') \<and> agree (bytes_at 0 (length (en_buf s)) - S) (en_buf s) (en_buf s')"
    using c(1,2) by blast
  show "\<exists>x d'. r d = (Ok x, d') \<and> P x \<and> d_depth d' = d_depth d \<and> d_frontier d' \<le> length (en_buf s')"
    if "length (en_buf s') \<le> length (e_bytes env)"
      "agree (S \<union> bytes_at (length (en_buf s)) (length (en_buf s') - length (en_buf s))) (en_buf s') (e_bytes env)"
      "d_frontier d \<le> length (en_buf s)" "d_depth d + h \<le> e_max_depth env" for d
    using c(3) that by blast
qed

lemma lift_Ok: "lift r s = (Ok a, s') \<longleftrightarrow> r = Ok a \<and> s' = s"
  by (auto simp: lift_def)

lemma plus_Ok: "plus a b = Ok c \<longleftrightarrow> c = a + b \<and> a + b < usize_limit"
  by (auto simp: plus_def uadd_def split: if_splits)

lemma codes_second:
  assumes "length (e_bytes env) < 2 ^ 32"
  shows "codes env h (bytes_at (off + 4) 4) (write_second off b) (lift (dread_u32 env (off + 4))) (\<lambda>x. x = b)"
  by (rule codes_stronger [OF codes_u32 [OF assms]]) (auto simp: write_second_def andthen_Ok lift_Ok plus_Ok)

text \<open>A header of two words, then the rest of an object of \<open>n\<close> bytes.\<close>

definition headed :: "nat \<Rightarrow> u32 \<Rightarrow> u32 \<Rightarrow> estep \<Rightarrow> estep" where
  "headed t a b m = andthen (write_le t (to_le 4 a)) (\<lambda>_. andthen (write_second t b) (\<lambda>_. m))"

definition read_headed :: "denv \<Rightarrow> nat \<Rightarrow> 'a step \<Rightarrow> (u32 \<times> u32 \<times> 'a) step" where
  "read_headed env t r = andthen (lift (dread_u32 env t)) (\<lambda>x.
     andthen (lift (dread_u32 env (t + 4))) (\<lambda>y. andthen r (\<lambda>z. ret (x, y, z))))"

lemma codes_headed:
  assumes small: "length (e_bytes env) < 2 ^ 32" and n: "8 \<le> n"
    and m: "codes env h (bytes_at (t + 8) (n - 8)) m r P"
  shows "codes env h (bytes_at t n) (headed t a b m) (read_headed env t r) (\<lambda>(x, y, z). x = a \<and> y = b \<and> P z)"
proof -
  have "codes env h (bytes_at (t + 4) 4 \<union> bytes_at (t + 8) (n - 8)) (andthen (write_second t b) (\<lambda>_. m))
      (andthen (lift (dread_u32 env (t + 4))) (\<lambda>y. andthen r (\<lambda>z. ret (x, y, z)))) (\<lambda>(x', y, z). x' = x \<and> y = b \<and> P z)" for x
    by (rule codes_andthen [OF codes_second [OF small] codes_map [OF m]]) (auto simp: in_bytes_at)
  then have "codes env h (bytes_at t 4 \<union> (bytes_at (t + 4) 4 \<union> bytes_at (t + 8) (n - 8))) (headed t a b m)
      (read_headed env t r) (\<lambda>(x, y, z). x = a \<and> y = b \<and> P z)"
    unfolding headed_def read_headed_def
    by (intro codes_andthen [OF codes_u32 [OF small]]) (auto simp: in_bytes_at)
  then show ?thesis by (rule codes_weaken) (use n in \<open>auto simp: in_bytes_at\<close>)
qed

lemma read_headed_Ok:
  assumes "read_headed env t r d = (Ok (x, y, z), d')"
  shows "dread_u32 env t = Ok x" "dread_u32 env (t + 4) = Ok y" "r d = (Ok z, d')"
  using assms by (auto simp: read_headed_def andthen_Ok lift_Ok ret_def)

text \<open>\<open>body\<close> makes an object at the end of the buffer that \<open>object\<close> reads back.\<close>

definition makes :: "denv \<Rightarrow> nat \<Rightarrow> (nat \<Rightarrow> estep) \<Rightarrow> (nat \<Rightarrow> 'a step) \<Rightarrow> ('a \<Rightarrow> bool) \<Rightarrow> bool" where
  "makes env h body object P = (\<forall>s s'. let t = length (en_buf s) in body t s = (Ok (), s') \<longrightarrow>
     t \<le> length (en_buf s') \<and> agree (bytes_at 0 t) (en_buf s) (en_buf s') \<and>
     (length (en_buf s') \<le> length (e_bytes env) \<longrightarrow>
      agree (bytes_at t (length (en_buf s') - t)) (en_buf s') (e_bytes env) \<longrightarrow>
      (\<forall>d. d_frontier d \<le> t \<longrightarrow> d_depth d + h \<le> e_max_depth env \<longrightarrow>
        (\<exists>x d'. object t d = (Ok x, d') \<and> P x \<and> d_depth d' = d_depth d \<and> d_frontier d' \<le> length (en_buf s')))))"

lemma makesD:
  assumes "makes env h body object P" "body (length (en_buf s)) s = (Ok (), s')"
  shows "length (en_buf s) \<le> length (en_buf s')" "agree (bytes_at 0 (length (en_buf s))) (en_buf s) (en_buf s')"
    "\<lbrakk>length (en_buf s') \<le> length (e_bytes env);
      agree (bytes_at (length (en_buf s)) (length (en_buf s') - length (en_buf s))) (en_buf s') (e_bytes env);
      d_frontier d \<le> length (en_buf s); d_depth d + h \<le> e_max_depth env\<rbrakk>
     \<Longrightarrow> \<exists>x d'. object (length (en_buf s)) d = (Ok x, d') \<and> P x \<and> d_depth d' = d_depth d \<and> d_frontier d' \<le> length (en_buf s')"
  using assms unfolding makes_def Let_def by blast+

lemma append_object_start_Ok:
  assumes "append_object_start s = (Ok t, s1)"
  shows "length (en_buf s1) = t" "length (en_buf s) \<le> t" "agree (bytes_at 0 (length (en_buf s))) (en_buf s) (en_buf s1)"
proof -
  have p2: "is_power_of_two 8" unfolding is_power_of_two_iff by (intro exI [of _ 3]) simp
  have "t = round_up (length (en_buf s)) 8" "s1 = s\<lparr>en_buf := grow t (en_buf s)\<rparr>"
    using assms by (auto simp: append_object_start_def andthen_Ok lift_Ok grow_to_def ret_def align_up_eq [OF p2]
        MESSAGE_ALIGNMENT_def checked_def split: if_splits)
  moreover have "length (en_buf s) \<le> round_up (length (en_buf s)) 8" by (rule round_up_bounds) simp
  ultimately show "length (en_buf s1) = t" "length (en_buf s) \<le> t" "agree (bytes_at 0 (length (en_buf s))) (en_buf s) (en_buf s1)"
    by (auto simp: grow_def intro!: agree_by_bytes simp: nth_append intro: less_le_trans)
qed

lemma codes_pointing:
  assumes small: "length (e_bytes env) < 2 ^ 32" and obj: "makes env h body object P"
  shows "codes env h (bytes_at off 8) (pointing off body) (pointed env nullable off object) P"
proof (rule codesI)
  fix s s' assume S: "\<forall>p \<in> bytes_at off 8. p div 8 < length (en_buf s)" and m: "pointing off body s = (Ok (), s')"
  have off: "off + 8 \<le> length (en_buf s)" using slot_inside [OF _ S] by simp
  obtain t s1 s2 where 1: "append_object_start s = (Ok t, s1)" and 2: "body t s1 = (Ok (), s2)"
    and 3: "write_le off (to_le 8 (pointer_encode (of_nat off) (of_nat t))) s2 = (Ok (), s')"
    using m by (auto simp: pointing_def andthen_Ok)
  note a = append_object_start_Ok [OF 1]
  note b = makesD [OF obj 2 [folded a(1)], unfolded a(1)]
  let ?n = "length (en_buf s)" and ?raw = "pointer_encode (of_nat off) (of_nat t)"
  have s': "s' = s2\<lparr>en_buf := take off (en_buf s2) @ to_le 8 ?raw @ drop (off + 8) (en_buf s2)\<rparr>"
    using write_le_inside [OF _ 3] off a(2) b(1) by simp
  have l: "off + 8 \<le> length (en_buf s2)" "length (en_buf s') = length (en_buf s2)" "?n \<le> length (en_buf s2)"
    using off a(2) b(1) by (simp_all add: s')
  have fr: "agree (bytes_at 0 (length (en_buf s2)) - bytes_at off 8) (en_buf s2) (en_buf s')"
    using patch_agree [of off "to_le 8 ?raw" "en_buf s2"] l by (simp add: s')
  have "agree (bytes_at 0 ?n) (en_buf s) (en_buf s2)"
    by (rule agree_trans [OF a(3) agree_mono [OF b(2)]]) (simp add: a(2) bytes_at_mono)
  then have "agree (bytes_at 0 ?n - bytes_at off 8) (en_buf s) (en_buf s')"
    by (intro agree_trans [OF agree_mono agree_mono [OF fr]]) (use l in \<open>auto simp: in_bytes_at\<close>)
  then show "?n \<le> length (en_buf s') \<and> agree (bytes_at 0 ?n - bytes_at off 8) (en_buf s) (en_buf s')" using l by simp
  fix d :: dec
  assume len: "length (en_buf s') \<le> length (e_bytes env)"
    and ag: "agree (bytes_at off 8 \<union> bytes_at ?n (length (en_buf s') - ?n)) (en_buf s') (e_bytes env)"
    and d: "d_frontier d \<le> ?n" "d_depth d + h \<le> e_max_depth env"
  have "take 8 (drop off (e_bytes env)) = to_le 8 ?raw"
    using agree_slice(1) [of off 8 "en_buf s'" "e_bytes env"] ag l by (simp add: s')
  then have "dread_u64 env off = Ok ?raw" using dread_read(3) [OF small, of off] l len by (simp add: from_le_to_le)
  moreover have tt: "t < 2 ^ 32" "off < t" using b(1) l len small a(2) off by simp_all
  moreover have u: "unat (of_nat t :: u64) = t" "unat (of_nat off :: u64) = off"
    using tt by (simp_all add: unat_of_nat)
  moreover have "?raw \<noteq> 0"
  proof
    assume "?raw = 0"
    then have "(of_nat t :: u64) = of_nat off" by (simp add: pointer_encode_def)
    then have "t = off" using u by metis
    then show False using tt by simp
  qed
  ultimately have tgt: "read_target env off = Ok (Some t)"
    by (simp add: read_target_def pointer_decode_def pointer_encode_def)
  have "agree (bytes_at t (length (en_buf s2) - t)) (en_buf s2) (en_buf s')"
    by (rule agree_mono [OF fr]) (use b(1) off a(2) in \<open>auto simp: in_bytes_at\<close>)
  moreover have "agree (bytes_at t (length (en_buf s2) - t)) (en_buf s') (e_bytes env)"
    by (rule agree_mono [of "bytes_at ?n (length (en_buf s') - ?n)"]) (use ag a(2) b(1) l in \<open>auto simp: in_bytes_at\<close>)
  ultimately have "agree (bytes_at t (length (en_buf s2) - t)) (en_buf s2) (e_bytes env)" by (rule agree_trans)
  then obtain x d' where "object t d = (Ok x, d')" "P x" "d_depth d' = d_depth d" "d_frontier d' \<le> length (en_buf s2)"
    using b(3) [of d] len l d a(2) by auto
  then show "\<exists>x d'. pointed env nullable off object d = (Ok x, d') \<and> P x \<and> d_depth d' = d_depth d \<and> d_frontier d' \<le> length (en_buf s')"
    using tgt l by (simp add: pointed_def andthen_def lift_def)
qed

lemma makes_headed:
  assumes small: "length (e_bytes env) < 2 ^ 32" and n: "8 \<le> n"
    and m: "\<And>t. codes env h (bytes_at (t + 8) (n - 8)) (m t) (r t) P"
    and obj: "\<And>t d L. \<lbrakk>dread_u32 env t = Ok a; dread_u32 env (t + 4) = Ok b; t + n \<le> length (e_bytes env);
        d_frontier d \<le> t; d_depth d + h' \<le> e_max_depth env; t + n \<le> L;
        \<And>d1 :: dec. \<lbrakk>d_frontier d1 \<le> t + n; d_depth d1 + h \<le> e_max_depth env\<rbrakk> \<Longrightarrow>
          \<exists>x d2. r t d1 = (Ok x, d2) \<and> P x \<and> d_depth d2 = d_depth d1 \<and> d_frontier d2 \<le> L\<rbrakk>
      \<Longrightarrow> \<exists>x d'. object t d = (Ok x, d') \<and> Q x \<and> d_depth d' = d_depth d \<and> d_frontier d' \<le> L"
    and h: "h \<le> h'"
    and body: "\<And>t s s'. body t s = (Ok (), s') \<Longrightarrow> andthen (grow_to (t + n)) (\<lambda>_. headed t a b (m t)) s = (Ok (), s')"
  shows "makes env h' body object Q"
  unfolding makes_def Let_def
proof (intro allI impI)
  fix s s' :: enc
  let ?t = "length (en_buf s)"
  assume "body ?t s = (Ok (), s')"
  from body [OF this] obtain s1 where s1: "s1 = s\<lparr>en_buf := grow (?t + n) (en_buf s)\<rparr>"
    and hd: "headed ?t a b (m ?t) s1 = (Ok (), s')" by (auto simp: andthen_unit_Ok grow_to_def)
  have l1: "length (en_buf s1) = ?t + n" by (simp add: s1 grow_def)
  have S: "\<forall>p \<in> bytes_at ?t n. p div 8 < length (en_buf s1)" by (simp add: l1 in_bytes_at)
  note c = codesD [OF codes_headed [OF small n m] S hd, unfolded l1]
  have a0: "agree (bytes_at 0 ?t) (en_buf s) (en_buf s1)"
    by (rule agree_by_bytes) (simp add: s1 grow_def nth_append)
  have a1: "agree (bytes_at 0 ?t) (en_buf s1) (en_buf s')"
    by (rule agree_mono [OF c(2)]) (auto simp: in_bytes_at)
  have "\<exists>x d'. object ?t d = (Ok x, d') \<and> Q x \<and> d_depth d' = d_depth d \<and> d_frontier d' \<le> length (en_buf s')"
    if len: "length (en_buf s') \<le> length (e_bytes env)"
      and ag: "agree (bytes_at ?t (length (en_buf s') - ?t)) (en_buf s') (e_bytes env)"
      and d: "d_frontier d \<le> ?t" "d_depth d + h' \<le> e_max_depth env" for d
  proof -
    have ag': "agree (bytes_at ?t n \<union> bytes_at (?t + n) (length (en_buf s') - (?t + n))) (en_buf s') (e_bytes env)"
      by (rule agree_mono [OF ag]) (use c(1) in \<open>auto simp: in_bytes_at\<close>)
    have run: "\<exists>z d2. dread_u32 env ?t = Ok a \<and> dread_u32 env (?t + 4) = Ok b \<and> r ?t d1 = (Ok z, d2) \<and> P z \<and>
        d_depth d2 = d_depth d1 \<and> d_frontier d2 \<le> length (en_buf s')"
      if d1: "d_frontier d1 \<le> ?t + n" "d_depth d1 + h \<le> e_max_depth env" for d1
    proof -
      obtain x y z d2 where "read_headed env ?t (r ?t) d1 = (Ok (x, y, z), d2)" "x = a \<and> y = b \<and> P z"
        "d_depth d2 = d_depth d1" "d_frontier d2 \<le> length (en_buf s')"
        using c(3) [OF len ag' d1] by auto
      then show ?thesis using read_headed_Ok [of env ?t "r ?t" d1 x y z d2] by blast
    qed
    from run [of d] d h have u: "dread_u32 env ?t = Ok a" "dread_u32 env (?t + 4) = Ok b" by auto
    show ?thesis
      by (rule obj [OF u _ d c(1)]) (use c(1) len run in simp, use run in blast)
  qed
  then show "?t \<le> length (en_buf s') \<and> agree (bytes_at 0 ?t) (en_buf s) (en_buf s') \<and>
     (length (en_buf s') \<le> length (e_bytes env) \<longrightarrow>
      agree (bytes_at ?t (length (en_buf s') - ?t)) (en_buf s') (e_bytes env) \<longrightarrow>
      (\<forall>d. d_frontier d \<le> ?t \<longrightarrow> d_depth d + h' \<le> e_max_depth env \<longrightarrow>
        (\<exists>x d'. object ?t d = (Ok x, d') \<and> Q x \<and> d_depth d' = d_depth d \<and> d_frontier d' \<le> length (en_buf s'))))"
    using c(1) agree_trans [OF a0 a1] by auto
qed

lemma claim_Ok: "\<lbrakk>a + n < usize_limit; a + n \<le> length (e_bytes env); 0 < n; d_frontier d \<le> a\<rbrakk> \<Longrightarrow>
    claim env a n d = (Ok (), d\<lparr>d_frontier := a + n\<rparr>)"
  by (simp add: claim_def checked_add_def)

section \<open>Strings\<close>

lemma copy_in_Ok: "copy_in a xs s = (Ok (), s') \<Longrightarrow>
    a + length xs \<le> length (en_buf s) \<and> s' = s\<lparr>en_buf := take a (en_buf s) @ xs @ drop (a + length xs) (en_buf s)\<rparr>"
  by (auto simp: copy_in_def copy_into_def split: if_splits)

lemma align_8: "obind (from_option (align_up n MESSAGE_ALIGNMENT)) checked = Ok m \<Longrightarrow> m = round_up n 8 \<and> n \<le> m"
proof -
  have p2: "is_power_of_two 8" unfolding is_power_of_two_iff by (intro exI [of _ 3]) simp
  show "obind (from_option (align_up n MESSAGE_ALIGNMENT)) checked = Ok m \<Longrightarrow> m = round_up n 8 \<and> n \<le> m"
    using round_up_bounds(1) [of 8 n] by (auto simp: align_up_eq [OF p2] MESSAGE_ALIGNMENT_def checked_def split: if_splits)
qed

lemma checked_add_Ok: "checked (checked_add a b) = Ok e \<Longrightarrow> e = a + b"
  by (auto simp: checked_def checked_add_def split: if_splits)

lemma u32_exact: "n < 2 ^ 32 \<Longrightarrow> unat (of_nat n :: u32) = n"
  by (simp add: unat_of_nat)

lemma makes_string:
  assumes small: "length (e_bytes env) < 2 ^ 32" and str: "utf8_valid str" "0 \<notin> set str"
  shows "makes env h (\<lambda>t. encode_string_object_at t str) (decode_string_at env) (\<lambda>v. v = VString str)"
proof (rule makes_headed [OF small])
  let ?n = "round_up (9 + length str) 8"
  have n: "9 + length str \<le> ?n" by (rule round_up_bounds) simp
  then show "8 \<le> ?n" by simp
  let ?m = "\<lambda>t. andthen (copy_in (t + 8) str) (\<lambda>_. copy_in (t + 8 + length str) [0])"
  let ?r = "\<lambda>t d. (if take (Suc (length str)) (drop (t + 8) (e_bytes env)) = str @ [0] \<and> t + 9 + length str \<le> length (e_bytes env)
      then Ok () else Panic, d)"
  show "codes env h (bytes_at (t + 8) (?n - 8)) (?m t) (?r t) (\<lambda>_. True)" for t
  proof (rule codes_weaken)
    show "codes env h (bytes_at (t + 8) (Suc (length str))) (?m t) (?r t) (\<lambda>_. True)"
      by (rule codes_patch [where bs = "str @ [0]"])
        (auto simp: andthen_unit_Ok dest!: copy_in_Ok simp: take_append drop_append)
    show "bytes_at (t + 8) (Suc (length str)) \<subseteq> bytes_at (t + 8) (?n - 8)" using n by (intro bytes_at_mono) simp_all
  qed simp_all
  show "andthen (grow_to (t + ?n)) (\<lambda>_. headed t (of_nat ?n) (of_nat (length str)) (?m t)) s = (Ok (), s')"
    if "encode_string_object_at t str s = (Ok (), s')" for t s s'
    using that by (auto simp: encode_string_object_at_def headed_def andthen_Ok lift_Ok plus_Ok ARRAY_HEADER_SIZE_def
        simp del: obind_eq_Ok dest!: align_8 checked_add_Ok)
  fix t L :: nat and d :: dec
  assume u: "dread_u32 env t = Ok (of_nat ?n)" "dread_u32 env (t + 4) = Ok (of_nat (length str))"
    and len: "t + ?n \<le> length (e_bytes env)" and d: "d_frontier d \<le> t" "d_depth d + h \<le> e_max_depth env" and L: "t + ?n \<le> L"
    and r: "\<And>d1 :: dec. \<lbrakk>d_frontier d1 \<le> t + ?n; d_depth d1 + h \<le> e_max_depth env\<rbrakk> \<Longrightarrow>
          \<exists>x d2. ?r t d1 = (Ok x, d2) \<and> True \<and> d_depth d2 = d_depth d1 \<and> d_frontier d2 \<le> L"
  have b: "take (Suc (length str)) (drop (t + 8) (e_bytes env)) = str @ [0]" "t + 9 + length str \<le> length (e_bytes env)"
    using r [of d] d by (auto split: if_splits)
  have s: "slice (e_bytes env) (t + 8) (t + 8 + length str) = Some str"
    using b by (simp add: slice_def take_Suc_conv_app_nth)
  have z: "e_bytes env ! (t + 8 + length str) = 0"
  proof -
    have "take (Suc (length str)) (drop (t + 8) (e_bytes env)) ! length str = (str @ [0]) ! length str"
      by (simp only: b(1))
    then show ?thesis using b(2) by (simp add: add.assoc)
  qed
  have x: "unat (of_nat ?n :: u32) = ?n" "unat (of_nat (length str) :: u32) = length str"
    using len small n by (auto intro!: u32_exact)
  have g: "\<not> length (e_bytes env) - t < ?n" "\<not> ?n - 8 < length str" using len n by simp_all
  have "decode_string_at env t d = (Ok (VString str), d\<lparr>d_frontier := t + ?n\<rparr>)"
    using u x len small d(1) n s z b(2) str g
    by (simp add: decode_string_at_def andthen_def lift_def plus_def uadd_def usize_limit_def ARRAY_HEADER_SIZE_def
        get_range_def claim_Ok ret_def Let_def)
  then show "\<exists>x d'. decode_string_at env t d = (Ok x, d') \<and> x = VString str \<and> d_depth d' = d_depth d \<and> d_frontier d' \<le> L"
    using L by simp
qed simp

section \<open>Arrays and maps\<close>

lemma from_le_zero [simp]: "from_le (replicate n 0) = 0"
  by (induction n) simp_all

lemma andthen_ret [simp]: "andthen (ret a) f = f a"
  by (simp add: fun_eq_iff andthen_def ret_def)

lemma codes_null:
  assumes "length (e_bytes env) < 2 ^ 32"
  shows "codes env h (bytes_at off 8) (write_le off (to_le 8 (0 :: u64))) (pointed env True off object) (\<lambda>v. v = VNull)"
  by (rule codes_write; simp add: pointed_def read_target_def dread_read [OF assms] from_le_to_le
      pointer_decode_def andthen_def lift_def ret_def)

lemma codes_each:
  assumes c: "\<And>i. i \<in> set is \<Longrightarrow> codes env h (T i) (f i) (g i) (\<lambda>x. x = v i)"
    and d: "distinct is" "\<And>i j. i \<in> set is \<Longrightarrow> j \<in> set is \<Longrightarrow> i \<noteq> j \<Longrightarrow> T i \<inter> T j = {}"
  shows "codes env h (\<Union>i \<in> set is. T i) (andthen (each f is) (\<lambda>_. ret ())) (each g is) (\<lambda>ys. ys = map v is)"
  using assms
proof (induction "is")
  case Nil
  show ?case by (simp add: codes_ret)
next
  case (Cons i "is")
  have IH: "codes env h (\<Union>i \<in> set is. T i) (andthen (each f is) (\<lambda>_. ret ())) (each g is) (\<lambda>ys. ys = map v is)"
    by (rule Cons.IH) (use Cons.prems in auto)
  have "codes env h (\<Union>i \<in> set is. T i) (andthen (each f is) (\<lambda>_. ret ()))
      (andthen (each g is) (\<lambda>ys. ret (y # ys))) (\<lambda>ys. ys = y # map v is)" for y
    by (rule codes_map [OF IH]) simp
  then have "codes env h (T i \<union> (\<Union>i \<in> set is. T i)) (andthen (f i) (\<lambda>_. andthen (each f is) (\<lambda>_. ret ())))
      (andthen (g i) (\<lambda>y. andthen (each g is) (\<lambda>ys. ret (y # ys)))) (\<lambda>ys. ys = map v (i # is))"
  proof (intro codes_andthen [where ?P1.0 = "\<lambda>x. x = v i"])
    have "T i \<inter> T j = {}" if "j \<in> set is" for j
      using Cons.prems(2) Cons.prems(3) [of i j] that by auto
    then show "T i \<inter> (\<Union>i \<in> set is. T i) = {}" by blast
  qed (use Cons.prems in auto)
  then show ?case unfolding each.simps
    by (rule codes_stronger [OF codes_weaken]) (auto simp: andthen_Ok ret_def)
qed

lemma makes_array:
  assumes small: "length (e_bytes env) < 2 ^ 32"
    and pod: "\<And>v off. is_pod e \<Longrightarrow> v \<in> set vs \<Longrightarrow> codes env h (bytes_at off (elem_size e)) (fe off 0 v) (fd off 0) (\<lambda>x. x = v)"
    and obj: "\<And>v. \<not> is_pod e \<Longrightarrow> v \<in> set vs \<Longrightarrow> v \<noteq> VNull \<Longrightarrow> makes env h (\<lambda>t. ee t v) ed (\<lambda>x. x = v)"
    and null: "VNull \<in> set vs \<Longrightarrow> \<not> is_pod e \<Longrightarrow> is_nullable e"
  shows "makes env h (\<lambda>t. encode_array_body fe ee e t vs) (decode_array_body env fd ed e) (\<lambda>v. v = VArray vs)"
proof (rule makes_headed [OF small])
  let ?z = "elem_size e" and ?k = "length vs"
  let ?n = "round_up (8 + ?z * ?k) 8"
  have n: "8 + ?z * ?k \<le> ?n" by (rule round_up_bounds) simp
  then show "8 \<le> ?n" by simp
  let ?f = "\<lambda>t i. if is_pod e then fe (t + 8 + i * ?z) 0 (vs ! i)
      else if vs ! i = VNull then write_le (t + 8 + i * ?z) (to_le 8 (0 :: u64))
      else pointing (t + 8 + i * ?z) (\<lambda>obj. ee obj (vs ! i))"
  let ?g = "\<lambda>t i. if is_pod e then fd (t + 8 + i * ?z) 0
      else pointed env (is_nullable e) (t + 8 + i * ?z) ed"
  let ?m = "\<lambda>t. andthen (each (?f t) [0..<?k]) (\<lambda>_. ret ())" and ?r = "\<lambda>t. each (?g t) [0..<?k]"
  have one: "codes env h (bytes_at (t + 8 + i * ?z) ?z) (?f t i) (?g t i) (\<lambda>x. x = vs ! i)" if "i \<in> set [0..<?k]" for t i
  proof (cases "is_pod e")
    case True
    then show ?thesis using pod that by (simp add: ARRAY_HEADER_SIZE_def)
  next
    case False
    have z: "?z = 8" using False by (simp add: elem_size_def POINTER_SIZE_def)
    have v: "vs ! i \<in> set vs" using that by simp
    show ?thesis
    proof (cases "vs ! i = VNull")
      case True
      then have "is_nullable e" using null False v by metis
      then show ?thesis using True False z codes_null [OF small] by (simp add: ARRAY_HEADER_SIZE_def)
    next
      case nn: False
      show ?thesis using False nn z codes_pointing [OF small obj [OF False v nn]] by (simp add: ARRAY_HEADER_SIZE_def)
    qed
  qed
  have "codes env h (\<Union>i \<in> set [0..<?k]. bytes_at (t + 8 + i * ?z) ?z) (?m t) (?r t) (\<lambda>ys. ys = map (\<lambda>i. vs ! i) [0..<?k])" for t
  proof (rule codes_each [OF one])
    fix i j assume "i \<in> set [0..<?k]" "j \<in> set [0..<?k]" "i \<noteq> j"
    then have "i * ?z + ?z \<le> j * ?z \<or> j * ?z + ?z \<le> i * ?z"
      using mult_le_mono1 [of "Suc i" j ?z] mult_le_mono1 [of "Suc j" i ?z] by (cases "i < j") auto
    then show "bytes_at (t + 8 + i * ?z) ?z \<inter> bytes_at (t + 8 + j * ?z) ?z = {}"
      by (intro bytes_at_disjoint) auto
  qed simp_all
  then show "codes env h (bytes_at (t + 8) (?n - 8)) (?m t) (?r t) (\<lambda>ys. ys = vs)" for t
  proof (rule codes_weaken)
    have "i * ?z + ?z \<le> ?z * ?k" if "i < ?k" for i
      using mult_le_mono1 [of "Suc i" ?k ?z] that by (simp add: mult.commute)
    then have "bytes_at (t + 8 + i * ?z) ?z \<subseteq> bytes_at (t + 8) (?n - 8)" if "i < ?k" for i
      using n that by (intro bytes_at_mono) fastforce+
    then show "(\<Union>i \<in> set [0..<?k]. bytes_at (t + 8 + i * ?z) ?z) \<subseteq> bytes_at (t + 8) (?n - 8)" by (intro UN_least) simp
  qed (simp_all add: map_nth)
  show "andthen (grow_to (t + ?n)) (\<lambda>_. headed t (of_nat ?n) (of_nat ?k) (?m t)) s = (Ok (), s')"
    if "encode_array_body fe ee e t vs s = (Ok (), s')" for t s s'
    using that by (auto simp: encode_array_body_def headed_def andthen_Ok lift_Ok plus_Ok ARRAY_HEADER_SIZE_def Let_def
        checked_def [of "if _ then _ else _"] simp del: obind_eq_Ok split: if_splits dest!: align_8 checked_add_Ok)
  fix t L :: nat and d :: dec
  assume u: "dread_u32 env t = Ok (of_nat ?n)" "dread_u32 env (t + 4) = Ok (of_nat ?k)"
    and len: "t + ?n \<le> length (e_bytes env)" and d: "d_frontier d \<le> t" "d_depth d + h \<le> e_max_depth env" and L: "t + ?n \<le> L"
    and r: "\<And>d1 :: dec. \<lbrakk>d_frontier d1 \<le> t + ?n; d_depth d1 + h \<le> e_max_depth env\<rbrakk> \<Longrightarrow>
          \<exists>x d2. ?r t d1 = (Ok x, d2) \<and> x = vs \<and> d_depth d2 = d_depth d1 \<and> d_frontier d2 \<le> L"
  obtain d2 where r2: "?r t (d\<lparr>d_frontier := t + ?n\<rparr>) = (Ok vs, d2)" "d_depth d2 = d_depth d" "d_frontier d2 \<le> L"
    using r [of "d\<lparr>d_frontier := t + ?n\<rparr>"] d by auto
  have k: "?k < 2 ^ 32"
  proof -
    have "0 < ?z" by (simp add: elem_size_def POINTER_SIZE_def is_pod_def kind_size_def split: ty.split)
    then have "?k \<le> ?z * ?k" by simp
    then show ?thesis using n len small by linarith
  qed
  have x: "unat (of_nat ?n :: u32) = ?n" "unat (of_nat ?k :: u32) = ?k"
    using len small k by (auto intro!: u32_exact)
  have g: "\<not> length (e_bytes env) - t < ?n" "8 + ?z * ?k < usize_limit" using len n small by (simp_all add: usize_limit_def)
  have "decode_array_body env fd ed e t d = (Ok (VArray vs), d2)"
    using u x len small d(1) n g r2(1)
    by (simp add: decode_array_body_def andthen_def lift_def plus_def uadd_def usize_limit_def checked_def checked_add_def
        ARRAY_HEADER_SIZE_def claim_Ok ret_def Let_def)
  then show "\<exists>x d'. decode_array_body env fd ed e t d = (Ok x, d') \<and> x = VArray vs \<and> d_depth d' = d_depth d \<and> d_frontier d' \<le> L"
    using r2 by simp
qed simp

lemma pointed_Ok: "pointed env False off obj d = (Ok x, d') \<longleftrightarrow>
    (\<exists>t. read_target env off = Ok (Some t) \<and> obj t d = (Ok x, d'))"
  by (auto simp: pointed_def andthen_Ok lift_Ok fail_def split: option.splits)

lemma nested_Ok:
  "d_depth d + 1 \<le> e_max_depth env \<Longrightarrow> body (d\<lparr>d_depth := d_depth d + 1\<rparr>) = (Ok x, d') \<Longrightarrow>
   nested env body d = (Ok x, d'\<lparr>d_depth := d_depth d' - 1\<rparr>)"
  by (simp add: nested_def andthen_def enter_def Let_def)

lemma makes_map:
  assumes small: "length (e_bytes env) < 2 ^ 32" and len: "length ks = length vs"
    and k: "makes env h (\<lambda>t. keys t ks) kd (\<lambda>v. v = VArray ks)"
    and v: "makes env h (\<lambda>t. vals t vs) vd (\<lambda>v. v = VArray vs)"
  shows "makes env (Suc h) (\<lambda>t. encode_map_at keys vals t ks vs) (decode_map_at env kd vd) (\<lambda>v. v = VMap ks vs)"
proof (rule makes_headed [OF small])
  let ?m = "\<lambda>t. enc_nested (andthen (pointing (t + 8) (\<lambda>ko. keys ko ks)) (\<lambda>_. pointing (t + 16) (\<lambda>vo. vals vo vs)))"
  let ?r = "\<lambda>t. andthen (pointed env False (t + 8) kd) (\<lambda>x. andthen (pointed env False (t + 16) vd) (\<lambda>y. ret (x, y)))"
  show "codes env h (bytes_at (t + 8) (24 - 8)) (?m t) (?r t) (\<lambda>(x, y). x = VArray ks \<and> y = VArray vs)" for t
  proof (rule codes_weaken [OF codes_enc_nested])
    show "codes env h (bytes_at (t + 8) 8 \<union> bytes_at (t + 16) 8)
        (andthen (pointing (t + 8) (\<lambda>ko. keys ko ks)) (\<lambda>_. pointing (t + 16) (\<lambda>vo. vals vo vs))) (?r t)
        (\<lambda>(x, y). x = VArray ks \<and> y = VArray vs)"
      by (intro codes_andthen [OF codes_pointing [OF small k]] codes_map [OF codes_pointing [OF small v]])
        (auto simp: in_bytes_at)
  qed (auto simp: in_bytes_at)
  show "andthen (grow_to (t + 24)) (\<lambda>_. headed t 24 0 (?m t)) s = (Ok (), s')"
    if "encode_map_at keys vals t ks vs s = (Ok (), s')" for t s s'
    using that by (auto simp: encode_map_at_def headed_def andthen_Ok lift_Ok fail_def simp del: obind_eq_Ok
        split: if_splits dest!: checked_add_Ok)
  fix t L :: nat and d :: dec
  assume u: "dread_u32 env t = Ok 24"
    and lenB: "t + 24 \<le> length (e_bytes env)" and d: "d_frontier d \<le> t" "d_depth d + Suc h \<le> e_max_depth env" and L: "t + 24 \<le> L"
    and r: "\<And>d1 :: dec. \<lbrakk>d_frontier d1 \<le> t + 24; d_depth d1 + h \<le> e_max_depth env\<rbrakk> \<Longrightarrow>
          \<exists>x d2. ?r t d1 = (Ok x, d2) \<and> (case x of (x, y) \<Rightarrow> x = VArray ks \<and> y = VArray vs) \<and>
            d_depth d2 = d_depth d1 \<and> d_frontier d2 \<le> L"
  let ?d = "d\<lparr>d_depth := d_depth d + 1, d_frontier := t + 24\<rparr>"
  obtain d2 where run: "?r t ?d = (Ok (VArray ks, VArray vs), d2)" and d2: "d_depth d2 = d_depth d + 1" "d_frontier d2 \<le> L"
    using r [of ?d] d by auto
  from run obtain ko vo d' where p: "read_target env (t + 8) = Ok (Some ko)" "kd ko ?d = (Ok (VArray ks), d')"
    "read_target env (t + 16) = Ok (Some vo)" "vd vo d' = (Ok (VArray vs), d2)"
    by (auto simp: andthen_Ok pointed_Ok ret_def)
  have "claim env t 24 (d\<lparr>d_depth := d_depth d + 1\<rparr>) = (Ok (), ?d)"
    using claim_Ok [of t 24 env "d\<lparr>d_depth := d_depth d + 1\<rparr>"] lenB small d by (simp add: usize_limit_def)
  then have "decode_map_at env kd vd t d = (Ok (VMap ks vs), d2\<lparr>d_depth := d_depth d2 - 1\<rparr>)"
    unfolding decode_map_at_def
    using u p lenB small d len
    by (intro nested_Ok) (simp_all add: andthen_def lift_def plus_def uadd_def usize_limit_def ret_def)
  then show "\<exists>x d'. decode_map_at env kd vd t d = (Ok x, d') \<and> x = VMap ks vs \<and> d_depth d' = d_depth d \<and> d_frontier d' \<le> L"
    using d2 by simp
qed simp_all

section \<open>Unions\<close>

lemma codes_union:
  assumes small: "length (e_bytes env) < 2 ^ 32" and tag: "unat tag < length members"
    and p: "codes env h (bytes_at (off + 8) 8) (payload (off + 8) x) ((pds ! unat tag) (off + 8)) (\<lambda>v. v = x)"
  shows "codes env h (bytes_at off 16) (encode_union_inline payload off tag x)
    (decode_union_at env pds members False off) (\<lambda>v. v = VUnion tag x)"
proof -
  have hd: "codes env h (bytes_at off 16) (headed off 16 tag (payload (off + 8) x))
      (read_headed env off ((pds ! unat tag) (off + 8))) (\<lambda>(a, b, v). a = 16 \<and> b = tag \<and> v = x)"
    using codes_headed [OF small, of 16 h off "payload (off + 8) x" _ "\<lambda>v. v = x" 16 tag] p by simp
  have m: "headed off 16 tag (payload (off + 8) x) s = (Ok (), s')"
    if S: "\<forall>p \<in> bytes_at off 16. p div 8 < length (en_buf s)"
      and e: "encode_union_inline payload off tag x s = (Ok (), s')" for s s'
  proof -
    have "off + 16 \<le> length (en_buf s)" by (rule slot_inside [OF _ S]) simp
    then have "grow (off + 16) (en_buf s) = en_buf s" by (simp add: grow_def)
    then show ?thesis using e
      by (auto simp: encode_union_inline_def headed_def andthen_Ok lift_Ok grow_to_def UNION_DATA_SIZE_def
          simp del: obind_eq_Ok dest!: checked_add_Ok)
  qed
  show ?thesis
  proof (rule codesI)
    fix s s' assume S: "\<forall>p \<in> bytes_at off 16. p div 8 < length (en_buf s)"
      and e: "encode_union_inline payload off tag x s = (Ok (), s')"
    note c = codesD [OF hd S m [OF S e]]
    show "length (en_buf s) \<le> length (en_buf s') \<and> agree (bytes_at 0 (length (en_buf s)) - bytes_at off 16) (en_buf s) (en_buf s')"
      using c(1,2) by blast
    fix d :: dec
    assume d: "length (en_buf s') \<le> length (e_bytes env)"
      "agree (bytes_at off 16 \<union> bytes_at (length (en_buf s)) (length (en_buf s') - length (en_buf s))) (en_buf s') (e_bytes env)"
      "d_frontier d \<le> length (en_buf s)" "d_depth d + h \<le> e_max_depth env"
    obtain d' where r: "read_headed env off ((pds ! unat tag) (off + 8)) d = (Ok (16, tag, x), d')"
      "d_depth d' = d_depth d" "d_frontier d' \<le> length (en_buf s')"
      using c(3) [OF d] by auto
    have "off + 16 \<le> length (e_bytes env)" using slot_inside [OF _ S] c(1) d(1) by simp
    then have "decode_union_at env pds members False off d = (Ok (VUnion tag x), d')"
      using read_headed_Ok [OF r(1)] tag small
      by (simp add: decode_union_at_def andthen_def lift_def plus_def uadd_def usize_limit_def ret_def)
    then show "\<exists>x' d'. decode_union_at env pds members False off d = (Ok x', d') \<and> x' = VUnion tag x \<and>
        d_depth d' = d_depth d \<and> d_frontier d' \<le> length (en_buf s')" using r by simp
  qed
qed

lemma makes_union:
  assumes small: "length (e_bytes env) < 2 ^ 32" and tag: "unat tag < length members"
    and p: "\<And>off. codes env h (bytes_at off 8) (payload off x) ((pds ! unat tag) off) (\<lambda>v. v = x)"
  shows "makes env h (\<lambda>t. encode_union_inline payload t tag x) (decode_union_at env pds members True) (\<lambda>v. v = VUnion tag x)"
proof (rule makes_headed [OF small])
  show "codes env h (bytes_at (t + 8) (16 - 8)) (payload (t + 8) x) ((pds ! unat tag) (t + 8)) (\<lambda>v. v = x)" for t
    using p by simp
  show "andthen (grow_to (t + 16)) (\<lambda>_. headed t 16 tag (payload (t + 8) x)) s = (Ok (), s')"
    if "encode_union_inline payload t tag x s = (Ok (), s')" for t s s'
    using that by (auto simp: encode_union_inline_def headed_def andthen_Ok lift_Ok UNION_DATA_SIZE_def
          simp del: obind_eq_Ok dest!: checked_add_Ok)
  fix t L :: nat and d :: dec
  assume u: "dread_u32 env t = Ok 16" "dread_u32 env (t + 4) = Ok tag"
    and lenB: "t + 16 \<le> length (e_bytes env)" and d: "d_frontier d \<le> t" "d_depth d + h \<le> e_max_depth env" and L: "t + 16 \<le> L"
    and r: "\<And>d1 :: dec. \<lbrakk>d_frontier d1 \<le> t + 16; d_depth d1 + h \<le> e_max_depth env\<rbrakk> \<Longrightarrow>
          \<exists>y d2. (pds ! unat tag) (t + 8) d1 = (Ok y, d2) \<and> y = x \<and> d_depth d2 = d_depth d1 \<and> d_frontier d2 \<le> L"
  obtain d2 where r2: "(pds ! unat tag) (t + 8) (d\<lparr>d_frontier := t + 16\<rparr>) = (Ok x, d2)" "d_depth d2 = d_depth d" "d_frontier d2 \<le> L"
    using r [of "d\<lparr>d_frontier := t + 16\<rparr>"] d by auto
  have "decode_union_at env pds members True t d = (Ok (VUnion tag x), d2)"
    using u tag r2(1) lenB small d
    by (simp add: decode_union_at_def andthen_def lift_def plus_def uadd_def usize_limit_def ret_def UNION_DATA_SIZE_def claim_Ok)
  then show "\<exists>y d'. decode_union_at env pds members True t d = (Ok y, d') \<and> y = VUnion tag x \<and> d_depth d' = d_depth d \<and> d_frontier d' \<le> L"
    using r2 by simp
qed simp_all

end
