(* ===== verification/WireRoundtrip.thy ===== *)
theory WireRoundtrip
  imports WireCodes
begin

text \<open>
  Decoding what was encoded: structs through the packed layout, then every schema on which the encoder
  and the decoder agree, by induction on the schema, and whole messages.
\<close>

section \<open>Structs\<close>

text \<open>The bits a value of a type owns in a field, and those of a packed field of the struct at \<open>off\<close>.\<close>

definition slot :: "kind \<Rightarrow> nat \<Rightarrow> nat \<Rightarrow> nat set" where
  "slot kd off k = (if kd = KBool then {8 * off + k} else bytes_at off (kind_size kd))"

definition field_slot :: "nat \<Rightarrow> packed_field \<Rightarrow> nat set" where
  "field_slot off pf = slot (pf_kind pf) (off + STRUCT_HEADER_SIZE + pf_offset pf) (pf_bit pf)"

text \<open>\<open>enc\<close> codes the value \<open>v\<close> of a field for \<open>dec\<close>; a nullable scalar is coded without its wrapper,
  and where it is absent \<open>dec\<close> still reads something.\<close>

definition field_coded ::
  "denv \<Rightarrow> nat \<Rightarrow> (nat \<Rightarrow> nat \<Rightarrow> val \<Rightarrow> estep) \<Rightarrow> (nat \<Rightarrow> nat \<Rightarrow> val step) \<Rightarrow> field_type \<Rightarrow> val \<Rightarrow> bool" where
  "field_coded env h enc dec ft v = (let kd = pack_kind (ft_ty ft) in
     if is_nullable_scalar (ft_ty ft)
     then kd \<noteq> KBool \<and> (case v of
         VNullableScalar p x \<Rightarrow>
           if p then \<forall>off. codes env h (slot kd off 0) (enc off 0 x) (dec off 0) (\<lambda>y. y = x)
           else x = VNull \<and> (\<forall>off. codes env h (slot kd off 0) (ret ()) (dec off 0) (\<lambda>_. True))
       | _ \<Rightarrow> False)
     else \<forall>off k. k \<le> 7 \<longrightarrow> (k \<noteq> 0 \<longrightarrow> kd = KBool) \<longrightarrow> codes env h (slot kd off k) (enc off k v) (dec off k) (\<lambda>y. y = v))"

definition present :: "val \<Rightarrow> bool" where
  "present v = (case v of VNullableScalar True _ \<Rightarrow> True | _ \<Rightarrow> False)"

definition val_right :: "field_type \<Rightarrow> val \<Rightarrow> val \<Rightarrow> bool" where
  "val_right ft v x = (if is_nullable_scalar (ft_ty ft)
     then (case v of VNullableScalar True y \<Rightarrow> x = y | _ \<Rightarrow> True) else x = v)"

definition packed_right ::
  "field_type list \<Rightarrow> val list \<Rightarrow> packed_field list \<Rightarrow> val list \<times> bool list \<Rightarrow> val list \<times> bool list \<Rightarrow> bool" where
  "packed_right fts vs pfs acc acc' = (length (fst acc') = length (fst acc) \<and> length (snd acc') = length (snd acc) \<and>
     (\<forall>i < length fts.
       (if \<exists>pf \<in> set pfs. f_index (pf_field pf) = i \<and> value_field pf
        then val_right (fts ! i) (vs ! i) (fst acc' ! i) else fst acc' ! i = fst acc ! i) \<and>
       (if \<exists>pf \<in> set pfs. f_index (pf_field pf) = i \<and> \<not> value_field pf
        then snd acc' ! i = present (vs ! i) else snd acc' ! i = snd acc ! i)))"

lemma packed_right_value:
  assumes "packed_right fts vs pfs (sc[f_index (pf_field pf) := x], pr) a" "value_field pf"
    "val_right (fts ! f_index (pf_field pf)) (vs ! f_index (pf_field pf)) x" "f_index (pf_field pf) < length sc"
  shows "packed_right fts vs (pf # pfs) (sc, pr) a"
  unfolding packed_right_def
proof (intro conjI allI impI)
  fix i assume "i < length fts"
  note H = assms(1) [unfolded packed_right_def, THEN conjunct2, THEN conjunct2, rule_format, OF this]
  show "if \<exists>q \<in> set (pf # pfs). f_index (pf_field q) = i \<and> value_field q
      then val_right (fts ! i) (vs ! i) (fst a ! i) else fst a ! i = fst (sc, pr) ! i"
    "if \<exists>q \<in> set (pf # pfs). f_index (pf_field q) = i \<and> \<not> value_field q
      then snd a ! i = present (vs ! i) else snd a ! i = snd (sc, pr) ! i"
    using H assms(2-) by (cases "i = f_index (pf_field pf)"; auto split: if_splits)+
qed (use assms(1) in \<open>simp_all add: packed_right_def\<close>)

lemma packed_right_flag:
  assumes "packed_right fts vs pfs (sc, pr[f_index (pf_field pf) := b]) a" "\<not> value_field pf"
    "b = present (vs ! f_index (pf_field pf))" "f_index (pf_field pf) < length pr"
  shows "packed_right fts vs (pf # pfs) (sc, pr) a"
  unfolding packed_right_def
proof (intro conjI allI impI)
  fix i assume "i < length fts"
  note H = assms(1) [unfolded packed_right_def, THEN conjunct2, THEN conjunct2, rule_format, OF this]
  show "if \<exists>q \<in> set (pf # pfs). f_index (pf_field q) = i \<and> value_field q
      then val_right (fts ! i) (vs ! i) (fst a ! i) else fst a ! i = fst (sc, pr) ! i"
    "if \<exists>q \<in> set (pf # pfs). f_index (pf_field q) = i \<and> \<not> value_field q
      then snd a ! i = present (vs ! i) else snd a ! i = snd (sc, pr) ! i"
    using H assms(2-) by (cases "i = f_index (pf_field pf)"; auto split: if_splits)+
qed (use assms(1) in \<open>simp_all add: packed_right_def\<close>)

lemma codes_packed:
  assumes coded: "\<And>i. i < length fts \<Longrightarrow> field_coded env h (encs ! i) (decs ! i) (fts ! i) (vs ! i)"
    and vs: "length vs = length fts"
    and pfs: "\<forall>pf \<in> set pfs. field_shape fts pf \<and> pf_min_version pf \<le> w \<and>
      STRUCT_HEADER_SIZE + pf_offset pf + pf_size pf \<le> nb \<and> pf_bit pf \<le> 7 \<and> (pf_bit pf \<noteq> 0 \<longrightarrow> pf_kind pf = KBool)"
    and apart: "sorted_wrt (\<lambda>p q. field_slot off p \<inter> field_slot off q = {}) pfs"
    and acc: "length (fst acc) = length fts" "length (snd acc) = length fts"
  shows "codes env h (\<Union>pf \<in> set pfs. field_slot off pf) (encode_packed encs off vs pfs)
    (decode_packed env decs w nb off pfs acc) (packed_right fts vs pfs acc)"
  using pfs apart acc
proof (induction pfs arbitrary: acc)
  case Nil
  then show ?case by (simp add: packed_right_def codes_ret)
next
  case (Cons pf pfs)
  obtain sc pr where acc: "acc = (sc, pr)" by (cases acc)
  let ?i = "f_index (pf_field pf)" and ?o = "off + (STRUCT_HEADER_SIZE + pf_offset pf)"
  have o: "off + STRUCT_HEADER_SIZE + pf_offset pf = ?o" by simp
  have sh: "field_shape fts pf" and pv: "pf_min_version pf \<le> w" "STRUCT_HEADER_SIZE + pf_offset pf + pf_size pf \<le> nb"
    and bit: "pf_bit pf \<le> 7" "pf_bit pf \<noteq> 0 \<longrightarrow> pf_kind pf = KBool"
    using Cons.prems(1) by simp_all
  have i: "?i < length fts" using shape_version(1) [OF sh] .
  have nul: "f_nullable_value_kind (pf_field pf) = is_nullable_scalar (ft_ty (fts ! ?i))"
    and kd: "pf_kind pf = (if pf_sub pf = Some 0 then KBool else pack_kind (ft_ty (fts ! ?i)))"
    and sub: "pf_sub pf = Some 0 \<longrightarrow> is_nullable_scalar (ft_ty (fts ! ?i))"
    using sh by (auto simp: field_shape_def)
  have len: "length sc = length fts" "length pr = length fts" using Cons.prems acc by simp_all
  have IH: "codes env h (\<Union>pf \<in> set pfs. field_slot off pf) (encode_packed encs off vs pfs)
      (decode_packed env decs w nb off pfs acc') (packed_right fts vs pfs acc')"
    if "length (fst acc') = length fts" "length (snd acc') = length fts" for acc'
    using Cons.IH [OF _ _ that] Cons.prems by simp
  have apart1: "field_slot off pf \<inter> (\<Union>pf \<in> set pfs. field_slot off pf) = {}" using Cons.prems(2) by auto
  note c = coded [OF i]
  have fl: "codes env h (\<Union>pf \<in> set pfs. field_slot off pf) (encode_packed encs off vs pfs)
      (decode_packed env decs w nb off pfs (sc, pr[?i := b])) (packed_right fts vs (pf # pfs) (sc, pr))"
    if "\<not> value_field pf" "b = present (vs ! ?i)" for b
    using that i len by (intro codes_weaken [OF IH]) (auto intro: packed_right_flag)
  have vl: "codes env h (\<Union>pf \<in> set pfs. field_slot off pf) (encode_packed encs off vs pfs)
      (decode_packed env decs w nb off pfs (sc[?i := x], pr)) (packed_right fts vs (pf # pfs) (sc, pr))"
    if "value_field pf" "val_right (fts ! ?i) (vs ! ?i) x" for x
    using that i len by (intro codes_weaken [OF IH]) (auto intro: packed_right_value)
  have slot: "field_slot off pf = slot (pf_kind pf) ?o (pf_bit pf)" by (simp add: field_slot_def add.assoc)
  have U: "(\<Union>pf \<in> set (pf # pfs). field_slot off pf) = field_slot off pf \<union> (\<Union>pf \<in> set pfs. field_slot off pf)" by simp
  have dec: "decode_packed env decs w nb off (pf # pfs) acc =
      (if f_nullable_value_kind (pf_field pf)
       then if pf_kind pf = KBool
         then andthen (lift (get_byte env ?o)) (\<lambda>b. decode_packed env decs w nb off pfs (sc, pr[?i := bit b (pf_bit pf)]))
         else andthen ((decs ! ?i) ?o 0) (\<lambda>v. decode_packed env decs w nb off pfs (sc[?i := v], pr))
       else andthen ((decs ! ?i) ?o (pf_bit pf)) (\<lambda>v. decode_packed env decs w nb off pfs (sc[?i := v], pr)))"
    unfolding acc using pv by (simp add: Let_def add.assoc)
  have enc: "encode_packed encs off vs (pf # pfs) = andthen
        (if f_nullable_value_kind (pf_field pf)
         then if pf_kind pf = KBool
           then write_bit ?o (pf_bit pf) (present (vs ! ?i))
           else (case vs ! ?i of VNullableScalar True x \<Rightarrow> (encs ! ?i) ?o 0 x | _ \<Rightarrow> ret ())
         else (encs ! ?i) ?o (pf_bit pf) (vs ! ?i))
        (\<lambda>_. encode_packed encs off vs pfs)"
    using i vs by (simp add: Let_def add.assoc present_def)
  consider (flag) "f_nullable_value_kind (pf_field pf)" "pf_kind pf = KBool"
    | (scalar) "f_nullable_value_kind (pf_field pf)" "pf_kind pf \<noteq> KBool"
    | (plain) "\<not> f_nullable_value_kind (pf_field pf)" by blast
  then show ?case
  proof cases
    case flag
    then have nv: "\<not> value_field pf" by (simp add: value_field_def)
    have fs: "field_slot off pf = {8 * ?o + pf_bit pf}" using flag slot by (simp add: slot_def)
    have "codes env h (field_slot off pf \<union> (\<Union>pf \<in> set pfs. field_slot off pf))
        (andthen (write_bit ?o (pf_bit pf) (present (vs ! ?i))) (\<lambda>_. encode_packed encs off vs pfs))
        (andthen (lift (get_byte env ?o)) (\<lambda>b. decode_packed env decs w nb off pfs (sc, pr[?i := bit b (pf_bit pf)])))
        (packed_right fts vs (pf # pfs) (sc, pr))"
    proof (rule codes_andthen [OF codes_flag [OF bit(1), where off = ?o and b = "present (vs ! ?i)", folded fs] fl [OF nv]])
      show "\<exists>x :: byte. bit x (pf_bit pf) = present (vs ! ?i)"
        using bit(1) by (intro exI [of _ "if present (vs ! ?i) then - 1 else 0"]) simp
    qed (use apart1 in simp_all)
    then show ?thesis unfolding U dec enc unfolding acc using flag by simp
  next
    case scalar
    then have vf: "value_field pf" by (simp add: value_field_def)
    have k0: "pf_bit pf = 0" "pf_kind pf = pack_kind (ft_ty (fts ! ?i))" using scalar bit kd by (auto split: if_splits)
    have ns: "is_nullable_scalar (ft_ty (fts ! ?i))" using scalar nul by simp
    obtain p x where v: "vs ! ?i = VNullableScalar p x" using c ns by (auto simp: field_coded_def Let_def split: val.splits)
    show ?thesis
    proof (cases p)
      case True
      then have cc: "codes env h (field_slot off pf) ((encs ! ?i) ?o 0 x) ((decs ! ?i) ?o 0) (\<lambda>y. y = x)"
        using c ns v k0 slot by (simp add: field_coded_def Let_def)
      show ?thesis unfolding U dec enc unfolding acc using scalar v True apart1 ns
        by (simp, intro codes_andthen [OF cc vl [OF vf]]) (auto simp: val_right_def)
    next
      case False
      then have cc: "codes env h (field_slot off pf) (ret ()) ((decs ! ?i) ?o 0) (\<lambda>_. True)"
        using c ns v k0 slot by (simp add: field_coded_def Let_def)
      have "codes env h (field_slot off pf \<union> (\<Union>pf \<in> set pfs. field_slot off pf)) (andthen (ret ()) (\<lambda>_. encode_packed encs off vs pfs))
          (andthen ((decs ! ?i) ?o 0) (\<lambda>v. decode_packed env decs w nb off pfs (sc[?i := v], pr))) (packed_right fts vs (pf # pfs) (sc, pr))"
        using v False ns apart1 by (intro codes_andthen [OF cc vl [OF vf]]) (auto simp: val_right_def)
      then show ?thesis unfolding U dec enc unfolding acc using scalar v False by simp
    qed
  next
    case plain
    then have ns: "\<not> is_nullable_scalar (ft_ty (fts ! ?i))" and vf: "value_field pf" using nul by (simp_all add: value_field_def)
    have k: "pf_kind pf = pack_kind (ft_ty (fts ! ?i))" using kd sub ns by auto
    have cc: "codes env h (field_slot off pf) ((encs ! ?i) ?o (pf_bit pf) (vs ! ?i)) ((decs ! ?i) ?o (pf_bit pf)) (\<lambda>y. y = vs ! ?i)"
      using c ns bit k slot by (simp add: field_coded_def Let_def)
    show ?thesis unfolding U dec enc unfolding acc using plain apart1 ns
      by (simp, intro codes_andthen [OF cc vl [OF vf]]) (auto simp: val_right_def)
  qed
qed

lemma assemble_right:
  assumes pk: "pack_struct fts = Ok ps" and vs: "length vs = length fts"
    and scal: "\<And>i. i < length fts \<Longrightarrow> is_nullable_scalar (ft_ty (fts ! i)) \<Longrightarrow>
      pack_kind (ft_ty (fts ! i)) \<noteq> KBool \<and> (\<exists>p x. vs ! i = VNullableScalar p x \<and> (\<not> p \<longrightarrow> x = VNull))"
    and r: "packed_right fts vs (packed_fields ps) acc0 acc"
  shows "assemble fts acc = vs"
proof (rule nth_equalityI)
  show "length (assemble fts acc) = length vs" by (simp add: assemble_def vs)
  fix i assume "i < length (assemble fts acc)"
  then have i: "i < length fts" by (simp add: assemble_def)
  note R = r [unfolded packed_right_def, THEN conjunct2, THEN conjunct2, rule_format, OF i]
  have shape: "f_nullable_value_kind (pf_field p) = is_nullable_scalar (ft_ty (fts ! i)) \<and>
      pf_kind p = (if pf_sub p = Some 0 then KBool else pack_kind (ft_ty (fts ! i)))"
    if "p \<in> set (packed_fields ps)" "f_index (pf_field p) = i" for p
    using packed_fields_shape [OF pk that(1)] that(2) by (auto simp: field_shape_def)
  obtain p where p: "p \<in> set (packed_fields ps)" "f_index (pf_field p) = i" "pf_sub p \<noteq> Some 0"
    using packed_fields_cover [OF pk i] by blast
  have val: "val_right (fts ! i) (vs ! i) (fst acc ! i)"
    using R p shape [OF p(1,2)] scal [OF i] by (auto simp: value_field_def split: if_splits)
  show "assemble fts acc ! i = vs ! i"
  proof (cases "is_nullable_scalar (ft_ty (fts ! i))")
    case True
    obtain q where q: "q \<in> set (packed_fields ps)" "f_index (pf_field q) = i" "pf_sub q = Some 0"
      using packed_flags_cover [OF pk i True] by blast
    have "\<not> value_field q" using shape [OF q(1,2)] q(3) True by (simp add: value_field_def)
    then have "snd acc ! i = present (vs ! i)" using R q by (auto split: if_splits)
    moreover obtain p x where "vs ! i = VNullableScalar p x" "\<not> p \<longrightarrow> x = VNull" using scal [OF i True] by blast
    ultimately show ?thesis using val True i by (cases p) (auto simp: assemble_def present_def val_right_def)
  next
    case False
    then show ?thesis using val i by (simp add: assemble_def val_right_def)
  qed
qed

lemma max_version_ge: "ft \<in> set fts \<Longrightarrow> ft_version ft \<le> max_version fts"
  unfolding max_version_def
  by (induction fts) (auto simp: ft_version_def max_def intro: order_trans)

lemma slots_apart:
  assumes "pack_struct fts = Ok ps"
  shows "sorted_wrt (\<lambda>p q. field_slot off p \<inter> field_slot off q = {}) (packed_fields ps)"
  unfolding sorted_wrt_iff_nth_less
proof (intro allI impI)
  fix i j assume ij: "i < j" "j < length (packed_fields ps)"
  let ?p = "packed_fields ps ! i" and ?q = "packed_fields ps ! j"
  have m: "?p \<in> set (packed_fields ps)" "?q \<in> set (packed_fields ps)" using ij by simp_all
  note b = packed_bit(1) [OF assms m(1)] packed_bit(1) [OF assms m(2)]
  have z: "pf_size ?p = kind_size (pf_kind ?p)" by (rule packed_in_size(2) [OF assms m(1)])
  have in_bytes: "field_slot off p \<subseteq> bytes_at (off + STRUCT_HEADER_SIZE + pf_offset p) (kind_size (pf_kind p))"
    if "pf_bit p \<le> 7" for p
    using that by (auto simp: field_slot_def slot_def kind_size_def in_bytes_at)
  have "pf_offset ?p + pf_size ?p \<le> pf_offset ?q \<or>
    pf_kind ?p = KBool \<and> pf_kind ?q = KBool \<and> pf_offset ?p = pf_offset ?q \<and> pf_bit ?p < pf_bit ?q"
    using packed_apart [OF assms ij] by (simp add: Let_def)
  then show "field_slot off ?p \<inter> field_slot off ?q = {}"
  proof
    assume "pf_offset ?p + pf_size ?p \<le> pf_offset ?q"
    then have "bytes_at (off + STRUCT_HEADER_SIZE + pf_offset ?p) (kind_size (pf_kind ?p)) \<inter>
        bytes_at (off + STRUCT_HEADER_SIZE + pf_offset ?q) (kind_size (pf_kind ?q)) = {}"
      by (intro bytes_at_disjoint) (simp add: z)
    then show ?thesis using in_bytes [OF b(1)] in_bytes [OF b(2)] by blast
  qed (auto simp: field_slot_def slot_def)
qed

lemma makes_struct:
  assumes small: "length (e_bytes env) < 2 ^ 32"
    and coded: "\<And>i. i < length fts \<Longrightarrow> field_coded env h (encs ! i) (decs ! i) (fts ! i) (vs ! i)"
    and vs: "length vs = length fts" and w: "max_version fts \<le> w"
  shows "makes env (Suc h) (\<lambda>t. encode_struct_at encs fts nl t (VStruct w vs)) (decode_struct_with env decs fts)
    (\<lambda>v. v = VStruct w vs)"
proof (cases "pack_struct fts")
  case (Ok ps)
  let ?n = "ps_size ps" and ?a0 = "(map default_value fts, replicate (length fts) False)"
  have shape: "field_shape fts p" if "p \<in> set (packed_fields ps)" for p
    by (rule packed_fields_shape [OF Ok that])
  have ver: "pf_min_version p \<le> w" if "p \<in> set (packed_fields ps)" for p
    using shape_version [OF shape [OF that]] max_version_ge [of "fts ! f_index (pf_field p)" fts] w by simp
  have n: "num_bytes_for_version ps w = Some ?n" "8 \<le> ?n"
    using full_size [OF Ok] ver by (auto simp: STRUCT_HEADER_SIZE_def)
  have inb: "STRUCT_HEADER_SIZE + pf_offset p + pf_size p \<le> ?n" if "p \<in> set (packed_fields ps)" for p
    by (rule packed_in_size(1) [OF Ok that])
  show ?thesis
  proof (rule makes_headed [OF small n(2)])
    let ?m = "\<lambda>t. encode_packed encs t vs (packed_fields ps)"
      and ?r = "\<lambda>t. decode_packed env decs w ?n t (packed_fields ps) ?a0"
    show "codes env h (bytes_at (t + 8) (?n - 8)) (?m t) (?r t) (packed_right fts vs (packed_fields ps) ?a0)" for t
    proof (rule codes_weaken [OF codes_packed])
      show "\<forall>pf \<in> set (packed_fields ps). field_shape fts pf \<and> pf_min_version pf \<le> w \<and>
          STRUCT_HEADER_SIZE + pf_offset pf + pf_size pf \<le> ?n \<and> pf_bit pf \<le> 7 \<and> (pf_bit pf \<noteq> 0 \<longrightarrow> pf_kind pf = KBool)"
        using shape ver inb packed_bit [OF Ok] by blast
      show "sorted_wrt (\<lambda>p q. field_slot t p \<inter> field_slot t q = {}) (packed_fields ps)"
        by (rule slots_apart [OF Ok])
      have "field_slot t p \<subseteq> bytes_at (t + 8) (?n - 8)" if "p \<in> set (packed_fields ps)" for p
        using inb [OF that] packed_bit(1) [OF Ok that] packed_in_size(2) [OF Ok that]
        by (auto simp: field_slot_def slot_def STRUCT_HEADER_SIZE_def kind_size_def in_bytes_at)
      then show "(\<Union>pf \<in> set (packed_fields ps). field_slot t pf) \<subseteq> bytes_at (t + 8) (?n - 8)" by blast
    qed (rule coded vs order_refl | simp)+
    show "andthen (grow_to (t + ?n)) (\<lambda>_. headed t (of_nat ?n) w (?m t)) s = (Ok (), s')"
      if "encode_struct_at encs fts nl t (VStruct w vs) s = (Ok (), s')" for t s s'
      using that Ok by (auto simp: encode_struct_at_def headed_def andthen_Ok lift_Ok Let_def
          simp del: obind_eq_Ok dest!: checked_add_Ok)
    fix t L :: nat and d :: dec
    assume u: "dread_u32 env t = Ok (of_nat ?n)" "dread_u32 env (t + 4) = Ok w"
      and len: "t + ?n \<le> length (e_bytes env)" and d: "d_frontier d \<le> t" "d_depth d + Suc h \<le> e_max_depth env" and L: "t + ?n \<le> L"
      and r: "\<And>d1 :: dec. \<lbrakk>d_frontier d1 \<le> t + ?n; d_depth d1 + h \<le> e_max_depth env\<rbrakk> \<Longrightarrow>
          \<exists>x d2. ?r t d1 = (Ok x, d2) \<and> packed_right fts vs (packed_fields ps) ?a0 x \<and>
            d_depth d2 = d_depth d1 \<and> d_frontier d2 \<le> L"
    let ?d = "d\<lparr>d_depth := d_depth d + 1, d_frontier := t + ?n\<rparr>"
    obtain acc d2 where run: "?r t ?d = (Ok acc, d2)" and right: "packed_right fts vs (packed_fields ps) ?a0 acc"
      and d2: "d_depth d2 = d_depth d + 1" "d_frontier d2 \<le> L"
      using r [of ?d] d by auto
    have x: "unat (of_nat ?n :: u32) = ?n" using len small by (intro u32_exact) simp
    have cl: "claim env t ?n (d\<lparr>d_depth := d_depth d + 1\<rparr>) = (Ok (), ?d)"
      using claim_Ok [of t ?n env "d\<lparr>d_depth := d_depth d + 1\<rparr>"] len small d n(2) by (simp add: usize_limit_def)
    have "assemble fts acc = vs"
    proof (rule assemble_right [OF Ok vs _ right])
      show "pack_kind (ft_ty (fts ! i)) \<noteq> KBool \<and> (\<exists>p x. vs ! i = VNullableScalar p x \<and> (\<not> p \<longrightarrow> x = VNull))"
        if "i < length fts" "is_nullable_scalar (ft_ty (fts ! i))" for i
        using coded [OF that(1)] that(2) by (auto simp: field_coded_def Let_def split: val.splits if_splits)
    qed
    then have "decode_struct_with env decs fts t d = (Ok (VStruct w vs), d2\<lparr>d_depth := d_depth d2 - 1\<rparr>)"
      unfolding decode_struct_with_def decode_struct_body_def if_True
      using u x len small d n cl run Ok
      by (intro nested_Ok) (simp_all add: andthen_def lift_def plus_def uadd_def usize_limit_def ret_def STRUCT_HEADER_SIZE_def Let_def)
    then show "\<exists>x d'. decode_struct_with env decs fts t d = (Ok x, d') \<and> x = VStruct w vs \<and> d_depth d' = d_depth d \<and> d_frontier d' \<le> L"
      using d2 by simp
  qed simp
qed (simp_all add: makes_def encode_struct_at_def andthen_Ok lift_Ok)

lemma makes_codes:
  "makes env h body object P \<longleftrightarrow>
   (\<forall>t. codes env h {} (\<lambda>s. if length (en_buf s) = t then body t s else (Panic, s)) (object t) P)"
proof
  show "makes env h body object P \<Longrightarrow>
      \<forall>t. codes env h {} (\<lambda>s. if length (en_buf s) = t then body t s else (Panic, s)) (object t) P"
    unfolding makes_def codes_def Let_def by (auto split: if_splits)
  assume H: "\<forall>t. codes env h {} (\<lambda>s. if length (en_buf s) = t then body t s else (Panic, s)) (object t) P"
  show "makes env h body object P"
    unfolding makes_def Let_def
  proof (intro allI)
    fix s s' :: enc
    from H [THEN spec [of _ "length (en_buf s)"], unfolded codes_def, THEN spec [of _ s], THEN spec [of _ s']]
    show "body (length (en_buf s)) s = (Ok (), s') \<longrightarrow>
     length (en_buf s) \<le> length (en_buf s') \<and> agree (bytes_at 0 (length (en_buf s))) (en_buf s) (en_buf s') \<and>
     (length (en_buf s') \<le> length (e_bytes env) \<longrightarrow>
      agree (bytes_at (length (en_buf s)) (length (en_buf s') - length (en_buf s))) (en_buf s') (e_bytes env) \<longrightarrow>
      (\<forall>d. d_frontier d \<le> length (en_buf s) \<longrightarrow> d_depth d + h \<le> e_max_depth env \<longrightarrow>
        (\<exists>x d'. object (length (en_buf s)) d = (Ok x, d') \<and> P x \<and> d_depth d' = d_depth d \<and> d_frontier d' \<le> length (en_buf s'))))"
      by simp
  qed
qed

lemma makes_nested: "makes env h body object P \<Longrightarrow> makes env (Suc h) body (\<lambda>t. nested env (object t)) P"
  unfolding makes_codes by (blast intro: codes_nested)

lemma makes_enc_nested:
  assumes "makes env h body object P"
  shows "makes env h (\<lambda>t. enc_nested (body t)) object P"
  unfolding makes_codes
proof
  fix t
  have "codes env h {} (enc_nested (\<lambda>s. if length (en_buf s) = t then body t s else (Panic, s))) (object t) P"
    using assms by (intro codes_enc_nested) (simp add: makes_codes)
  then show "codes env h {} (\<lambda>s. if length (en_buf s) = t then enc_nested (body t) s else (Panic, s)) (object t) P"
    by (rule codes_stronger) (auto simp: enc_nested_def andthen_def enc_enter_def Let_def split: if_splits prod.splits)
qed

lemma makes_weaken: "makes env h body object P \<Longrightarrow> h \<le> h' \<Longrightarrow> makes env h' body object P"
  unfolding makes_codes by (blast intro: codes_weaken)

lemma makes_fail [simp]: "makes env h (\<lambda>t. fail e) object P"
  by (simp add: makes_def fail_def)

text \<open>Reading a slot that was left alone.\<close>

lemma codes_untouched:
  assumes "0 < n" "\<And>d :: dec. off + n \<le> length (e_bytes env) \<Longrightarrow> \<exists>x. r d = (Ok x, d)"
  shows "codes env h (bytes_at off n) (ret ()) r (\<lambda>_. True)"
proof (rule codesI)
  fix s s' :: enc assume "ret () s = (Ok (), s')"
  then have s': "s' = s" by (simp add: ret_def)
  then show "length (en_buf s) \<le> length (en_buf s') \<and> agree (bytes_at 0 (length (en_buf s)) - bytes_at off n) (en_buf s) (en_buf s')"
    by (auto simp: agree_def in_bytes_at)
  fix d :: dec
  assume ag: "agree (bytes_at off n \<union> bytes_at (length (en_buf s)) (length (en_buf s') - length (en_buf s))) (en_buf s') (e_bytes env)"
    and d: "d_frontier d \<le> length (en_buf s)"
  have "agree (bytes_at off n) (en_buf s') (e_bytes env)" using ag by simp
  then have "off + n \<le> length (e_bytes env)" using agree_slice(3) assms(1) by blast
  then show "\<exists>x d'. r d = (Ok x, d') \<and> True \<and> d_depth d' = d_depth d \<and> d_frontier d' \<le> length (en_buf s')"
    using assms(2) [of d] d s' by auto
qed

section \<open>The schemas and values that are coded\<close>

text \<open>Where the encoder and the decoder agree.  A struct field may not be a non-nullable struct (it is
  written in place over the fields behind it), an inlined union may not be nullable, nullable
  scalars may not be booleans or handles; a union member may not be an inlined union or a nullable
  scalar; array elements and map keys and values are scalars, strings, arrays, maps or structs.\<close>

fun field_ok :: "ty \<Rightarrow> bool" where
  "field_ok (TStruct fts w nullable) = nullable"
| "field_ok (TUnion ms nullable inlined) = (\<not> (nullable \<and> inlined))"
| "field_ok (TNullableScalar t) = (is_pod t \<and> t \<noteq> TBool \<and> t \<noteq> THandle)"
| "field_ok _ = True"

definition payload_ok :: "ty \<Rightarrow> bool" where
  "payload_ok t = (field_ok t \<and> \<not> is_nullable_scalar t \<and> pack_kind t \<noteq> KUnion)"

definition element_ok :: "ty \<Rightarrow> bool" where
  "element_ok t = (is_pod t \<or> (case t of
     TString _ \<Rightarrow> True | TArray _ _ \<Rightarrow> True | TMap _ _ _ \<Rightarrow> True | TStruct _ _ _ \<Rightarrow> True | _ \<Rightarrow> False))"

fun coherent :: "ty \<Rightarrow> bool" where
  "coherent (TArray e n) = (element_ok e \<and> coherent e)"
| "coherent (TMap k e n) = (element_ok k \<and> coherent k \<and> element_ok e \<and> coherent e)"
| "coherent (TStruct fts w n) = list_all id (map (\<lambda>ft. field_ok (ft_ty ft) \<and> coherent (ft_ty ft)) fts)"
| "coherent (TUnion ms n i) = list_all id (map (\<lambda>m. payload_ok (um_ty m) \<and> coherent (um_ty m)) ms)"
| "coherent _ = True"

text \<open>Every struct in the value has a version with all the fields: the encoder writes all of them
  whatever the version.\<close>

fun latest :: "ty \<Rightarrow> val \<Rightarrow> bool" where
  "latest (TArray e n) = (\<lambda>v. case v of VArray vs \<Rightarrow> list_all (latest e) vs | _ \<Rightarrow> True)"
| "latest (TMap k e n) = (\<lambda>v. case v of VMap ks vs \<Rightarrow> list_all (latest k) ks \<and> list_all (latest e) vs | _ \<Rightarrow> True)"
| "latest (TStruct fts w n) = (let ls = map (\<lambda>ft. latest (ft_ty ft)) fts in
     (\<lambda>v. case v of
        VStruct w' vs \<Rightarrow> max_version fts \<le> w' \<and> list_all (\<lambda>i. (ls ! i) (vs ! i)) [0..<length fts] | _ \<Rightarrow> True))"
| "latest (TUnion ms n i) = (let ls = map (\<lambda>m. latest (um_ty m)) ms in
     (\<lambda>v. case v of VUnion tag x \<Rightarrow> unat tag < length ms \<longrightarrow> (ls ! unat tag) x | _ \<Rightarrow> True))"
| "latest _ = (\<lambda>v. True)"

text \<open>A bound on the decoder's nesting.\<close>

fun height :: "ty \<Rightarrow> nat" where
  "height (TArray e n) = Suc (height e)"
| "height (TMap k e n) = Suc (max (height k) (height e))"
| "height (TStruct fts w n) = Suc (foldr max (map (\<lambda>ft. height (ft_ty ft)) fts) 0)"
| "height (TUnion ms n i) = foldr max (map (\<lambda>m. height (um_ty m)) ms) 0"
| "height _ = 0"

lemma foldr_max_ge: "x \<in> set xs \<Longrightarrow> (x :: nat) \<le> foldr max xs 0"
  by (induction xs) auto

section \<open>Every coherent type is coded\<close>

definition codes_field :: "denv \<Rightarrow> ty \<Rightarrow> bool" where
  "codes_field env t = (\<forall>off k v. field_ok t \<longrightarrow> \<not> is_nullable_scalar t \<longrightarrow> coherent t \<longrightarrow>
     conforms env t v \<longrightarrow> latest t v \<longrightarrow> k \<le> 7 \<longrightarrow> (k \<noteq> 0 \<longrightarrow> pack_kind t = KBool) \<longrightarrow>
     codes env (height t) (slot (pack_kind t) off k) (encode_field t off k v) (decode_field env t off k) (\<lambda>x. x = v))"

definition codes_element :: "denv \<Rightarrow> ty \<Rightarrow> bool" where
  "codes_element env t = (\<forall>v. element_ok t \<longrightarrow> \<not> is_pod t \<longrightarrow> coherent t \<longrightarrow> conforms env t v \<longrightarrow> latest t v \<longrightarrow> v \<noteq> VNull \<longrightarrow>
     makes env (height t) (\<lambda>o'. encode_array_element t o' v) (decode_array_element env t) (\<lambda>x. x = v))"

definition codes_payload :: "denv \<Rightarrow> ty \<Rightarrow> bool" where
  "codes_payload env t = (\<forall>off v. payload_ok t \<longrightarrow> coherent t \<longrightarrow> conforms env t v \<longrightarrow> latest t v \<longrightarrow>
     codes env (height t) (bytes_at off 8) (encode_union_payload t off v) (decode_union_payload env t off) (\<lambda>x. x = v))"

lemma array_coded:
  assumes small: "length (e_bytes env) < 2 ^ 32" and f: "codes_field env e" and ee: "codes_element env e"
    and e: "element_ok e" "coherent e" and v: "\<forall>v \<in> set vs. conforms env e v \<and> latest e v"
    and null: "VNull \<in> set vs \<Longrightarrow> \<not> is_pod e \<Longrightarrow> is_nullable e"
  shows "makes env (height e) (\<lambda>t. encode_array_body (encode_field e) (encode_array_element e) e t vs)
    (decode_array_body env (decode_field env e) (decode_array_element env e) e) (\<lambda>v. v = VArray vs)"
proof (rule makes_array [OF small])
  fix v off assume pod: "is_pod e" and "v \<in> set vs"
  then have "codes env (height e) (slot (pack_kind e) off 0) (encode_field e off 0 v) (decode_field env e off 0) (\<lambda>x. x = v)"
    using f e v by (cases e) (simp_all add: codes_field_def is_pod_def)
  then show "codes env (height e) (bytes_at off (elem_size e)) (encode_field e off 0 v) (decode_field env e off 0) (\<lambda>x. x = v)"
    by (rule codes_weaken) (use pod in \<open>auto simp: slot_def elem_size_def in_bytes_at kind_size_def\<close>)
next
  show "makes env (height e) (\<lambda>t. encode_array_element e t v) (decode_array_element env e) (\<lambda>x. x = v)"
    if "\<not> is_pod e" "v \<in> set vs" "v \<noteq> VNull" for v
    using ee e v that by (simp add: codes_element_def)
qed (rule null)

lemma conforms_null: "conforms env e VNull \<Longrightarrow> element_ok e \<Longrightarrow> \<not> is_pod e \<Longrightarrow> is_nullable e"
  by (cases e) (simp_all add: element_ok_def Let_def)

lemma array_conforming:
  assumes "conforms env (TArray e n) (VArray vs)" "latest (TArray e n) (VArray vs)"
  shows "\<forall>v \<in> set vs. conforms env e v \<and> latest e v"
  using assms by (simp add: list_all_iff)

lemma field_unboxed: "decode_field env t = decode_field env (unbox_scalar t)"
  by (cases t) simp_all

lemma absent_coded:
  assumes small: "length (e_bytes env) < 2 ^ 32" and "is_pod t" "t \<noteq> TBool" "t \<noteq> THandle"
  shows "codes env h (slot (pack_kind t) off 0) (ret ()) (decode_field env t off 0) (\<lambda>_. True)"
  using assms
  by (cases t) (auto simp: is_pod_def slot_def kind_size_def get_byte_def dread_read [OF small] andthen_def lift_def ret_def
      intro!: codes_untouched)

lemma struct_coded:
  assumes small: "length (e_bytes env) < 2 ^ 32"
    and f: "\<And>ft. ft \<in> set fts \<Longrightarrow> codes_field env (unbox_scalar (ft_ty ft))"
    and co: "coherent (TStruct fts w n)" and v: "conforms env (TStruct fts w n) v" "latest (TStruct fts w n) v"
  shows "makes env (height (TStruct fts w n))
    (\<lambda>t. encode_struct_at (map (\<lambda>ft. encode_field (unbox_scalar (ft_ty ft))) fts) fts nl t v)
    (decode_struct_with env (map (\<lambda>ft. decode_field env (ft_ty ft)) fts) fts) (\<lambda>x. x = v)"
proof (cases v)
  case (VStruct w' vs)
  let ?h = "foldr max (map (\<lambda>ft. height (ft_ty ft)) fts) 0"
  have len: "length vs = length fts" and w': "max_version fts \<le> w'" using v VStruct by (simp_all add: Let_def)
  have "field_coded env ?h (encode_field (unbox_scalar (ft_ty (fts ! i)))) (decode_field env (ft_ty (fts ! i))) (fts ! i) (vs ! i)"
    if i: "i < length fts" for i
  proof -
    let ?ft = "fts ! i" and ?t = "ft_ty (fts ! i)"
    have mem: "?ft \<in> set fts" using i by simp
    have ok: "field_ok ?t" "coherent ?t" using co mem by (auto simp: list_all_iff)
    have hh: "height ?t \<le> ?h" using mem by (intro foldr_max_ge) auto
    have "field_conforms (conforms env (unbox_scalar ?t)) ?ft w' (vs ! i)" and l: "latest ?t (vs ! i)"
      using v VStruct i by (simp_all add: Let_def list_all_iff)
    moreover have "ft_version ?ft \<le> w'" using max_version_ge [OF mem] w' by simp
    ultimately have c: "if is_nullable_scalar ?t
        then (\<exists>p y. vs ! i = VNullableScalar p y \<and> (if p then conforms env (unbox_scalar ?t) y else y = VNull))
        else conforms env ?t (vs ! i)"
      by (cases ?t) (auto simp: field_conforms_def split: val.splits if_splits)
    show ?thesis
    proof (cases "is_nullable_scalar ?t")
      case False
      then have u: "unbox_scalar ?t = ?t" by (cases ?t) simp_all
      have "codes env (height ?t) (slot (pack_kind ?t) off k) (encode_field ?t off k (vs ! i)) (decode_field env ?t off k) (\<lambda>x. x = vs ! i)"
        if "k \<le> 7" "k \<noteq> 0 \<longrightarrow> pack_kind ?t = KBool" for off k
        using f [OF mem] False c ok l that unfolding codes_field_def u by simp
      then show ?thesis using False unfolding field_coded_def Let_def u
        by (auto intro!: codes_weaken [OF _ subset_refl hh])
    next
      case True
      then obtain t where t: "?t = TNullableScalar t" by (cases ?t) simp_all
      have pod: "is_pod t" "t \<noteq> TBool" "t \<noteq> THandle" using ok t by simp_all
      have kd: "pack_kind t \<noteq> KBool" using pod by (cases t) (simp_all add: is_pod_def)
      obtain p y where y: "vs ! i = VNullableScalar p y" "if p then conforms env t y else y = VNull"
        using c True unfolding t unbox_scalar.simps is_nullable_scalar.simps if_True by blast
      have some: "codes env ?h (slot (pack_kind t) off 0) (encode_field t off 0 y) (decode_field env t off 0) (\<lambda>x. x = y)" if p for off
      proof (cases "y = VNull")
        case True
        then show ?thesis using pod by (cases t) (auto simp: is_pod_def)
      next
        case False
        then have "codes env (height t) (slot (pack_kind t) off 0) (encode_field t off 0 y) (decode_field env t off 0) (\<lambda>x. x = y)"
          using f [OF mem] pod y(2) that t by (cases t) (simp_all add: is_pod_def codes_field_def)
        then show ?thesis by (rule codes_weaken) (use pod in \<open>cases t; simp add: is_pod_def\<close>)+
      qed
      show ?thesis using y t kd some absent_coded [OF small pod] by (simp add: field_coded_def Let_def)
    qed
  qed
  then show ?thesis using makes_struct [OF small _ len w', of ?h] VStruct by simp
next
  case VNull
  then show ?thesis by (simp add: encode_struct_at_def)
qed (simp_all add: encode_struct_at_def)

lemma scalar_coded:
  assumes small: "length (e_bytes env) < 2 ^ 32" and t: "is_pod t \<or> t = TAssociatedEndpoint"
  shows "codes_field env t"
proof -
  have e: "ucast (ucast x :: u32) = (x :: u64)" if "unat x < 2 ^ 32" for x :: u64
  proof -
    have "unat (ucast (ucast x :: u32) :: u64) = unat x"
      using that by (simp add: unsigned_ucast_eq unsigned_take_bit_eq take_bit_nat_eq_self_iff)
    then show ?thesis by (simp add: word_unat_eq_iff)
  qed
  have i: "codes env h (bytes_at off 4) (write_handle off x) (scalar (checked_handle env off) VHandle) (\<lambda>v. v = VHandle x)"
    if "handle_ok env x" for h off x
    by (intro codes_handle codes_write)
      (use that in \<open>auto simp: checked_handle_def handle_ok_def dread_read [OF small] from_le_to_le andthen_def lift_def ret_def\<close>)
  note s = codes_scalars [OF small]
  show ?thesis
    using t by (cases t) (auto simp: is_pod_def codes_field_def slot_def kind_size_def codes_bit [where off = off] e
      intro!: s(1) [unfolded One_nat_def to_le_1] s(2-4) i codes_bit codes_weaken [OF s(3)] split: val.splits)
qed

lemma interface_coded:
  assumes small: "length (e_bytes env) < 2 ^ 32"
  shows "codes_field env (TInterface w)" "codes_field env (TAssociatedInterface w)"
proof -
  have pair: "codes env h (bytes_at off 8) (andthen m (\<lambda>_. write_second off b))
      (andthen r (\<lambda>x. andthen (lift (obind (plus off 4) (dread_u32 env))) (\<lambda>y. f x y))) P"
    if m: "codes env h (bytes_at off 4) m r (\<lambda>x. x = a)" and f: "\<And>d. \<exists>z. f a b d = (Ok z, d) \<and> P z"
    for h off m r a b P and f :: "u32 \<Rightarrow> u32 \<Rightarrow> val step"
  proof -
    have 2: "codes env h (bytes_at (off + 4) 4) (write_second off b)
        (andthen (lift (obind (plus off 4) (dread_u32 env))) (\<lambda>y. f a y)) P"
    proof (rule codes_stronger [OF codes_write])
      show "write_second off b s = (Ok (), s') \<Longrightarrow> write_le (off + 4) (to_le 4 b) s = (Ok (), s')" for s s'
        by (auto simp: write_second_def andthen_Ok lift_Ok plus_Ok)
      show "\<exists>x. andthen (lift (obind (plus off 4) (dread_u32 env))) (\<lambda>y. f a y) d = (Ok x, d) \<and> P x"
        if "take 4 (drop (off + 4) (e_bytes env)) = to_le 4 b" "off + 4 + 4 \<le> length (e_bytes env)" for d
        using that f small by (simp add: andthen_def lift_def plus_def uadd_def usize_limit_def dread_read [OF small] from_le_to_le)
    qed simp_all
    have "codes env h (bytes_at off 4 \<union> bytes_at (off + 4) 4) (andthen m (\<lambda>_. write_second off b))
      (andthen r (\<lambda>x. andthen (lift (obind (plus off 4) (dread_u32 env))) (\<lambda>y. f x y))) P"
      by (rule codes_andthen [OF m]) (use 2 in \<open>auto simp: in_bytes_at\<close>)
    then show ?thesis by (rule codes_weaken) (auto simp: in_bytes_at)
  qed
  have "max x w = x" if "w \<le> x" for x using that by (simp add: max_def)
  then show "codes_field env (TInterface w)" "codes_field env (TAssociatedInterface w)"
    unfolding codes_field_def decode_field.simps decode_interface_def decode_associated_interface_def
    by (auto simp: slot_def kind_size_def handle_ok_def ret_def fail_def
      intro!: pair codes_handle codes_u32 [OF small] split: val.splits)
qed

lemma null_coded:
  assumes "length (e_bytes env) < 2 ^ 32"
  shows "codes env h (bytes_at off 8) (null_or_mismatch n off VNull) (pointed env n off object) (\<lambda>x. x = VNull)"
  using codes_null [OF assms] by (cases n) auto

lemma codes_field_boxed: "codes_field env (unbox_scalar t) \<Longrightarrow> codes_field env t"
  by (cases t) (simp_all add: codes_field_def)

lemma string_coded:
  assumes small: "length (e_bytes env) < 2 ^ 32"
  shows "codes_field env (TString n)" "codes_element env (TString n)"
proof -
  have s: "makes env h (\<lambda>t. encode_string_object_at t str) (decode_string_at env) (\<lambda>v. v = VString str)"
    if "utf8_valid str" "0 \<notin> set str" for h str
    using that by (rule makes_string [OF small])
  show "codes_field env (TString n)"
    unfolding codes_field_def encode_string_def
    by (auto simp: slot_def kind_size_def encode_string_def intro!: codes_pointing [OF small s] codes_null [OF small, simplified]
        split: val.splits)
  show "codes_element env (TString n)"
    unfolding codes_element_def by (auto simp: string_of_def intro!: s split: val.splits)
qed

lemma array_type_coded:
  assumes small: "length (e_bytes env) < 2 ^ 32" and e: "codes_field env e" "codes_element env e"
  shows "codes_field env (TArray e n)" "codes_element env (TArray e n)" "codes_payload env (TArray e n)"
proof -
  have m: "makes env (height e) (\<lambda>t. encode_array_body (encode_field e) (encode_array_element e) e t vs)
      (decode_array_body env (decode_field env e) (decode_array_element env e) e) (\<lambda>v. v = VArray vs)"
    if "coherent (TArray e n)" "conforms env (TArray e n) (VArray vs)" "latest (TArray e n) (VArray vs)" for vs
  proof (rule array_coded [OF small e])
    have v: "\<forall>v \<in> set vs. conforms env e v \<and> latest e v" using array_conforming that by blast
    then show "\<forall>v \<in> set vs. conforms env e v \<and> latest e v" .
    show "element_ok e" "coherent e" using that by simp_all
    show "is_nullable e" if "VNull \<in> set vs" "\<not> is_pod e" using v that conforms_null \<open>element_ok e\<close> by blast
  qed
  have n: "codes env (height (TArray e n)) (bytes_at off 8)
      (encode_array (encode_field e) (encode_array_element e) e off vs) (decode_field env (TArray e n) off k) (\<lambda>x. x = VArray vs)"
    if "coherent (TArray e n)" "conforms env (TArray e n) (VArray vs)" "latest (TArray e n) (VArray vs)" for off k vs
    unfolding encode_array_def decode_field.simps decode_array_def height.simps
    by (intro codes_pointing [OF small] makes_enc_nested makes_nested m that)
  have p: "codes env (height (TArray e n)) (bytes_at off 8)
      (pointing off (\<lambda>t. encode_array_body (encode_field e) (encode_array_element e) e t vs))
      (decode_field env (TArray e n) off k) (\<lambda>x. x = VArray vs)"
    if "coherent (TArray e n)" "conforms env (TArray e n) (VArray vs)" "latest (TArray e n) (VArray vs)" for off k vs
    unfolding decode_field.simps decode_array_def height.simps
    by (intro codes_pointing [OF small] makes_nested m that)
  have z: "codes env h (bytes_at off 8) (null_or_mismatch n off VNull) (decode_field env (TArray e n) off k) (\<lambda>x. x = VNull)" for h off k
    unfolding decode_field.simps decode_array_def by (rule null_coded [OF small])
  show "codes_field env (TArray e n)"
    unfolding codes_field_def
  proof (intro allI impI)
    fix off k v assume a: "coherent (TArray e n)" "conforms env (TArray e n) v" "latest (TArray e n) v"
    then show "codes env (height (TArray e n)) (slot (pack_kind (TArray e n)) off k) (encode_field (TArray e n) off k v)
        (decode_field env (TArray e n) off k) (\<lambda>x. x = v)"
      using n [OF a(1), of _ off k] z by (cases v) (simp_all add: slot_def kind_size_def del: decode_field.simps height.simps latest.simps coherent.simps)
  qed
  show "codes_payload env (TArray e n)"
    unfolding codes_payload_def
  proof (intro allI impI)
    fix off v assume a: "coherent (TArray e n)" "conforms env (TArray e n) v" "latest (TArray e n) v"
    then show "codes env (height (TArray e n)) (bytes_at off 8) (encode_union_payload (TArray e n) off v)
        (decode_union_payload env (TArray e n) off) (\<lambda>x. x = v)"
      using p [OF a(1), of _ off 0] z by (cases v) (simp_all del: decode_field.simps height.simps latest.simps coherent.simps)
  qed
  show "codes_element env (TArray e n)"
    unfolding codes_element_def
  proof (intro allI impI)
    fix v assume a: "coherent (TArray e n)" "conforms env (TArray e n) v" "latest (TArray e n) v" "v \<noteq> VNull"
    then obtain vs where v: "v = VArray vs" by (cases v) simp_all
    show "makes env (height (TArray e n)) (\<lambda>t. encode_array_element (TArray e n) t v)
        (decode_array_element env (TArray e n)) (\<lambda>x. x = v)"
      using m [of vs] a unfolding v by (auto simp: array_of_def intro: makes_weaken)
  qed
qed

lemma map_type_coded:
  assumes small: "length (e_bytes env) < 2 ^ 32"
    and k: "codes_field env k" "codes_element env k" and e: "codes_field env e" "codes_element env e"
  shows "codes_field env (TMap k e n)" "codes_element env (TMap k e n)"
proof -
  let ?keys = "encode_array_body (encode_field k) (encode_array_element k) k"
    and ?vals = "encode_array_body (encode_field e) (encode_array_element e) e"
    and ?dk = "decode_array_body env (decode_field env k) (decode_array_element env k) k"
    and ?dv = "decode_array_body env (decode_field env e) (decode_array_element env e) e"
  have m: "makes env (height (TMap k e n)) (\<lambda>t. encode_map_at ?keys ?vals t ks vs) (decode_map_at env ?dk ?dv) (\<lambda>v. v = VMap ks vs)"
    if a: "coherent (TMap k e n)" "conforms env (TMap k e n) (VMap ks vs)" "latest (TMap k e n) (VMap ks vs)" for ks vs
    unfolding height.simps
  proof (rule makes_map [OF small])
    have ka: "\<forall>v \<in> set ks. conforms env k v \<and> latest k v" and va: "\<forall>v \<in> set vs. conforms env e v \<and> latest e v"
      using a by (simp_all add: list_all_iff)
    show "length ks = length vs" using a by simp
    have ok: "element_ok k" "coherent k" "element_ok e" "coherent e" using a by simp_all
    show "makes env (max (height k) (height e)) (\<lambda>t. ?keys t ks) ?dk (\<lambda>v. v = VArray ks)"
      by (rule makes_weaken [OF array_coded [OF small k ok(1,2) ka]]) (use ka ok conforms_null in auto)
    show "makes env (max (height k) (height e)) (\<lambda>t. ?vals t vs) ?dv (\<lambda>v. v = VArray vs)"
      by (rule makes_weaken [OF array_coded [OF small e ok(3,4) va]]) (use va ok conforms_null in auto)
  qed
  show "codes_field env (TMap k e n)"
    unfolding codes_field_def
  proof (intro allI impI)
    fix off j v assume a: "coherent (TMap k e n)" "conforms env (TMap k e n) v" "latest (TMap k e n) v"
    have p: "codes env (height (TMap k e n)) (bytes_at off 8) (encode_map ?keys ?vals off ks vs)
        (decode_field env (TMap k e n) off j) (\<lambda>x. x = VMap ks vs)" if "v = VMap ks vs" for ks vs
      unfolding encode_map_def decode_field.simps decode_map_def
      by (rule codes_pointing [OF small m]) (use a that in simp_all)
    have z: "codes env h (bytes_at off 8) (null_or_mismatch n off VNull) (decode_field env (TMap k e n) off j) (\<lambda>x. x = VNull)" for h
      unfolding decode_field.simps decode_map_def by (rule null_coded [OF small])
    show "codes env (height (TMap k e n)) (slot (pack_kind (TMap k e n)) off j) (encode_field (TMap k e n) off j v)
        (decode_field env (TMap k e n) off j) (\<lambda>x. x = v)"
      using a(2) p z by (cases v) (simp_all add: slot_def kind_size_def del: decode_field.simps height.simps)
  qed
  show "codes_element env (TMap k e n)"
    unfolding codes_element_def
  proof (intro allI impI)
    fix v assume a: "coherent (TMap k e n)" "conforms env (TMap k e n) v" "latest (TMap k e n) v" "v \<noteq> VNull"
    then obtain ks vs where v: "v = VMap ks vs" by (cases v) simp_all
    show "makes env (height (TMap k e n)) (\<lambda>t. encode_array_element (TMap k e n) t v)
        (decode_array_element env (TMap k e n)) (\<lambda>x. x = v)"
      using m [of ks vs] a unfolding v by (simp del: height.simps coherent.simps conforms.simps latest.simps)
  qed
qed

lemma struct_type_coded:
  assumes small: "length (e_bytes env) < 2 ^ 32"
    and f: "\<And>ft. ft \<in> set fts \<Longrightarrow> codes_field env (unbox_scalar (ft_ty ft))"
  shows "codes_field env (TStruct fts w n)" "codes_element env (TStruct fts w n)" "codes_payload env (TStruct fts w n)"
proof -
  let ?t = "TStruct fts w n"
  have m: "makes env (height ?t) (\<lambda>t. encode_struct_at (map (\<lambda>ft. encode_field (unbox_scalar (ft_ty ft))) fts) fts nl t v)
      (decode_struct_with env (map (\<lambda>ft. decode_field env (ft_ty ft)) fts) fts) (\<lambda>x. x = v)"
    if "coherent ?t" "conforms env ?t v" "latest ?t v" for nl v
    by (rule struct_coded [OF small f that])
  have p: "codes env (height ?t) (bytes_at off 8)
      (pointing off (\<lambda>t. encode_struct_at (map (\<lambda>ft. encode_field (unbox_scalar (ft_ty ft))) fts) fts nl t v))
      (pointed env n' off (decode_struct_with env (map (\<lambda>ft. decode_field env (ft_ty ft)) fts) fts)) (\<lambda>x. x = v)"
    if "coherent ?t" "conforms env ?t v" "latest ?t v" for nl n' off v
    by (rule codes_pointing [OF small m [OF that]])
  note del = height.simps coherent.simps conforms.simps latest.simps
  have c: "v = VNull \<and> n \<or> (\<exists>w' vs. v = VStruct w' vs)" if "conforms env ?t v" for v
    using that by (cases v) (simp_all add: Let_def)
  show "codes_field env ?t"
    unfolding codes_field_def
  proof (intro allI impI)
    fix off k v assume a: "field_ok ?t" "coherent ?t" "conforms env ?t v" "latest ?t v"
    then have n by simp
    show "codes env (height ?t) (slot (pack_kind ?t) off k) (encode_field ?t off k v) (decode_field env ?t off k) (\<lambda>x. x = v)"
      using c [OF a(3)]
    proof
      assume "v = VNull \<and> n"
      then show ?thesis using codes_null [OF small] by (auto simp: slot_def kind_size_def Let_def simp del: del)
    next
      assume "\<exists>w' vs. v = VStruct w' vs"
      then show ?thesis using p [OF a(2-4)] \<open>n\<close> by (auto simp: slot_def kind_size_def Let_def simp del: del)
    qed
  qed
  show "codes_payload env ?t"
    unfolding codes_payload_def
  proof (intro allI impI)
    fix off v assume a: "payload_ok ?t" "coherent ?t" "conforms env ?t v" "latest ?t v"
    then have n by (simp add: payload_ok_def)
    show "codes env (height ?t) (bytes_at off 8) (encode_union_payload ?t off v) (decode_union_payload env ?t off) (\<lambda>x. x = v)"
      using c [OF a(3)]
    proof
      assume "v = VNull \<and> n"
      then show ?thesis using codes_null [OF small] by (auto simp: Let_def simp del: del)
    next
      assume "\<exists>w' vs. v = VStruct w' vs"
      then show ?thesis using p [OF a(2-4)] \<open>n\<close> by (auto simp: Let_def simp del: del)
    qed
  qed
  show "codes_element env ?t"
    unfolding codes_element_def
    using m by (auto simp: Let_def simp del: del)
qed

lemma union_coded:
  assumes small: "length (e_bytes env) < 2 ^ 32"
    and p: "\<And>m. m \<in> set ms \<Longrightarrow> codes_payload env (um_ty m)"
  shows "codes_field env (TUnion ms n inl)"
  unfolding codes_field_def
proof (intro allI impI)
  let ?t = "TUnion ms n inl"
  let ?pe = "map (\<lambda>m. encode_union_payload (um_ty m)) ms" and ?pd = "map (\<lambda>m. decode_union_payload env (um_ty m)) ms"
  fix off k v
  assume ok: "field_ok ?t" and co: "coherent ?t" and v: "conforms env ?t v" "latest ?t v"
  show "codes env (height ?t) (slot (pack_kind ?t) off k) (encode_field ?t off k v) (decode_field env ?t off k) (\<lambda>x. x = v)"
  proof (cases v)
    case (VUnion tag x)
    let ?m = "ms ! unat tag"
    have tag: "unat tag < length ms" and cx: "conforms env (um_ty ?m) x" and lx: "latest (um_ty ?m) x"
      using v VUnion by (auto simp: Let_def)
    have mem: "?m \<in> set ms" using tag by simp
    have pl: "payload_ok (um_ty ?m)" "coherent (um_ty ?m)" using co mem by (auto simp: list_all_iff)
    have h: "height (um_ty ?m) \<le> height ?t" using mem by (auto intro!: foldr_max_ge)
    have c: "codes env (height ?t) (bytes_at o' 8) ((?pe ! unat tag) o' x) ((?pd ! unat tag) o') (\<lambda>y. y = x)" for o'
    proof (rule codes_weaken [OF _ subset_refl h])
      show "codes env (height (um_ty ?m)) (bytes_at o' 8) ((?pe ! unat tag) o' x) ((?pd ! unat tag) o') (\<lambda>y. y = x)"
        using p [OF mem] pl cx lx tag by (simp add: codes_payload_def)
    qed
    show ?thesis
    proof (cases inl)
      case True
      have "codes env (height ?t) (bytes_at off 16) (encode_union_inline (?pe ! unat tag) off tag x)
          (decode_union_at env ?pd ms False off) (\<lambda>v. v = VUnion tag x)"
        by (rule codes_union [OF small tag]) (rule c)
      then show ?thesis using True VUnion tag
        by (simp add: slot_def kind_size_def Let_def encode_union_def del: height.simps)
    next
      case False
      have "codes env (height ?t) (bytes_at off 8) (pointing off (\<lambda>t. encode_union_inline (?pe ! unat tag) t tag x))
          (pointed env n off (decode_union_at env ?pd ms True)) (\<lambda>v. v = VUnion tag x)"
        by (rule codes_pointing [OF small makes_union [OF small tag]]) (rule c)
      then show ?thesis using False VUnion tag
        by (simp add: slot_def kind_size_def Let_def encode_union_def del: height.simps)
    qed
  next
    case VNull
    then have "n" "\<not> inl" using v ok by (auto simp: Let_def)
    then show ?thesis using VNull codes_null [OF small]
      by (simp add: slot_def kind_size_def Let_def encode_union_def del: height.simps)
  qed (use v in \<open>simp_all add: Let_def\<close>)
qed

lemma payload_coded:
  assumes "codes_field env t" "encode_union_payload t = (\<lambda>off v. encode_field t off 0 v)"
    "decode_union_payload env t = (\<lambda>off. decode_field env t off 0)"
  shows "codes_payload env t"
  unfolding codes_payload_def
proof (intro allI impI)
  fix off v assume a: "payload_ok t" "coherent t" "conforms env t v" "latest t v"
  then have "codes env (height t) (slot (pack_kind t) off 0) (encode_field t off 0 v) (decode_field env t off 0) (\<lambda>x. x = v)"
    using assms(1) by (simp add: codes_field_def payload_ok_def)
  moreover have "slot (pack_kind t) off 0 \<subseteq> bytes_at off 8"
  proof -
    have "pack_kind t \<noteq> KUnion" using a by (simp add: payload_ok_def)
    then show ?thesis by (cases "pack_kind t") (auto simp: slot_def kind_size_def in_bytes_at)
  qed
  ultimately show "codes env (height t) (bytes_at off 8) (encode_union_payload t off v) (decode_union_payload env t off) (\<lambda>x. x = v)"
    unfolding assms(2,3) by (rule codes_weaken) simp_all
qed

lemma all_coded:
  assumes small: "length (e_bytes env) < 2 ^ 32"
  shows "codes_field env (unbox_scalar t)" "codes_element env t" "codes_payload env t"
proof -
  note sc = scalar_coded [OF small]
  have "codes_field env (unbox_scalar t) \<and> codes_element env t \<and> codes_payload env t"
  proof (induction t rule: measure_induct_rule [of size])
    case (less t)
    have IH: "codes_field env y" "codes_element env y" "codes_payload env y" "codes_field env (unbox_scalar y)"
      if "size y < size t" for y
      using less [OF that] codes_field_boxed by blast+
    have no_element: "codes_element env t" if "is_pod t \<or> \<not> element_ok t"
      using that by (auto simp: codes_element_def)
    have pay: "codes_payload env t" if "codes_field env t" "\<not> (\<exists>e n. t = TArray e n)" "\<not> (\<exists>fts w n. t = TStruct fts w n)"
      using that(2,3) by (intro payload_coded that(1)) (cases t; simp)+
    show ?case
    proof (cases "is_pod t \<or> t = TAssociatedEndpoint")
      case True
      then have "unbox_scalar t = t" by (cases t) (simp_all add: is_pod_def)
      moreover have "codes_field env t" by (rule sc [OF True])
      moreover have "codes_element env t" using True by (intro no_element) (auto simp: element_ok_def is_pod_def)
      moreover have "codes_payload env t" by (rule pay [OF sc [OF True]]) (use True in \<open>auto simp: is_pod_def\<close>)
      ultimately show ?thesis by simp
    next
      case False
      show ?thesis
      proof (cases t)
        case (TString n)
        show ?thesis using string_coded [OF small] pay TString by simp
      next
        case (TArray e n)
        show ?thesis using array_type_coded [OF small IH(1,2) [of e]] TArray by simp
      next
        case (TMap k e n)
        show ?thesis using map_type_coded [OF small IH(1,2) [of k] IH(1,2) [of e]] TMap pay by simp
      next
        case (TStruct fts w n)
        have "codes_field env (unbox_scalar (ft_ty ft))" if "ft \<in> set fts" for ft
          using IH(4) [of "ft_ty ft"] size_parts_Suc(1) [OF that] TStruct by simp
        then show ?thesis using struct_type_coded [OF small] TStruct by simp
      next
        case (TUnion ms n i)
        have "codes_payload env (um_ty m)" if "m \<in> set ms" for m
          using IH(3) [of "um_ty m"] size_parts_Suc(3) [OF that] TUnion by simp
        then show ?thesis using union_coded [OF small] TUnion pay no_element by (simp add: element_ok_def is_pod_def)
      next
        case (TNullableScalar t')
        have "codes_payload env t" by (simp add: TNullableScalar codes_payload_def payload_ok_def)
        then show ?thesis using IH(1) [of t'] TNullableScalar no_element by (simp add: element_ok_def is_pod_def)
      qed (use False interface_coded [OF small] pay no_element in \<open>simp_all add: element_ok_def is_pod_def\<close>)
    qed
  qed
  then show "codes_field env (unbox_scalar t)" "codes_element env t" "codes_payload env t" by simp_all
qed

section \<open>Messages\<close>

lemma in_append:
  "off + 4 \<le> length bytes \<Longrightarrow> u32_in (bytes @ xs) off = u32_in bytes off"
  "off + 8 \<le> length bytes \<Longrightarrow> u64_in (bytes @ xs) off = u64_in bytes off"
  by (simp_all add: u32_in_def u64_in_def)

lemma parse_append:
  assumes "parse bytes = Ok (h, n)"
  shows "parse (bytes @ xs) = Ok (h, n)"
proof -
  have len: "24 \<le> length bytes" and base: "base_error bytes = None" and cut: "\<not> header_cut_short bytes"
    and null: "\<not> (2 \<le> u32_in bytes 4 \<and> u64_in bytes 32 = 0)"
    and h: "h = header_in bytes" "n = required_size (u32_in bytes 4)"
    using assms by (auto simp: parse_eq split: if_splits option.splits)
  have "base_error (bytes @ xs) = None" using base len by (simp add: base_error_def in_append Let_def)
  moreover have "\<not> header_cut_short (bytes @ xs) \<and> \<not> (2 \<le> u32_in (bytes @ xs) 4 \<and> u64_in (bytes @ xs) 32 = 0) \<and>
      header_in (bytes @ xs) = header_in bytes"
    by (cases "u32_in bytes 4" rule: version_cases)
      (use len cut null in \<open>auto simp: header_cut_short_def header_in_def in_append Let_def\<close>)
  ultimately show ?thesis using len h by (simp add: parse_eq in_append)
qed

lemma encode_message_Ok:
  assumes "encode_message header t v = Ok m" "length header < 48"
  obtains fts w n s where "t = TStruct fts w n" "em_bytes m = en_buf s"
    "encode_struct_at (map (\<lambda>ft. encode_field (unbox_scalar (ft_ty ft))) fts) fts n (round_up (length header) 8) v
       \<lparr>en_buf = grow (round_up (length header) 8) header, en_handles = 0, en_depth = 0\<rparr> = (Ok (), s)"
proof -
  obtain fts w n where t: "t = TStruct fts w n" using assms(1) by (cases t) (simp_all add: encode_message_def)
  obtain po where po: "obind (from_option (align_up (length header) MESSAGE_ALIGNMENT)) checked = Ok po"
    using assms(1) unfolding encode_message_def t by (auto simp del: obind_eq_Ok split: if_splits)
      (metis (no_types, lifting) obind_eq_Ok)
  have po8: "po = round_up (length header) 8" using align_8 [OF po] by simp
  obtain r s where run: "encode_struct_at (map (\<lambda>ft. encode_field (unbox_scalar (ft_ty ft))) fts) fts n po v
       \<lparr>en_buf = grow po header, en_handles = 0, en_depth = 0\<rparr> = (r, s)" by fastforce
  have "r = Ok ()" "em_bytes m = en_buf s"
    using assms run unfolding encode_message_def t po
    by (auto simp: MESSAGE_HEADER_V2_SIZE_def po Let_def)
  with run t that show thesis unfolding po8 by blast
qed

lemma struct_header_fits:
  assumes "decode_struct_with env decs fts off s = (Ok v, s')"
  shows "off + 8 \<le> length (e_bytes env)"
proof -
  obtain s1 s2 where "decode_struct_body env decs fts True off s1 = (Ok v, s2)"
    using assms unfolding decode_struct_with_def
    by (auto simp: nested_def andthen_def enter_def Let_def split: prod.splits if_splits)
  then show ?thesis
    by (auto simp: decode_struct_body_def andthen_Ok lift_Ok plus_Ok fail_def STRUCT_HEADER_SIZE_def split: if_splits)
qed

lemma encoded_decodes:
  assumes enc: "encode_message header t v = Ok m" and hl: "length header < 48"
    and env: "e_bytes env = em_bytes m" "length (em_bytes m) < 2 ^ 32" "height t \<le> e_max_depth env"
    and v: "coherent t" "conforms env t v" "latest t v"
  shows "\<exists>d. decode_struct env t (round_up (length header) 8) dec_new = (Ok v, d)"
    "agree (bytes_at 0 (length header)) header (em_bytes m)" "round_up (length header) 8 + 8 \<le> length (em_bytes m)"
proof -
  let ?po = "round_up (length header) 8"
  obtain fts w n s where t: "t = TStruct fts w n" and m: "em_bytes m = en_buf s"
    and run: "encode_struct_at (map (\<lambda>ft. encode_field (unbox_scalar (ft_ty ft))) fts) fts n ?po v
       \<lparr>en_buf = grow ?po header, en_handles = 0, en_depth = 0\<rparr> = (Ok (), s)"
    using encode_message_Ok [OF enc hl] by metis
  have small: "length (e_bytes env) < 2 ^ 32" using env by simp
  have po: "length header \<le> ?po" by (rule round_up_bounds) simp
  let ?s0 = "\<lparr>en_buf = grow ?po header, en_handles = 0, en_depth = 0\<rparr> :: enc"
  have l0: "length (en_buf ?s0) = ?po" using po by (simp add: grow_def)
  have mk: "makes env (height t) (\<lambda>t. encode_struct_at (map (\<lambda>ft. encode_field (unbox_scalar (ft_ty ft))) fts) fts n t v)
      (decode_struct_with env (map (\<lambda>ft. decode_field env (ft_ty ft)) fts) fts) (\<lambda>x. x = v)"
    using v unfolding t by (intro struct_coded [OF small] all_coded [OF small])
  note d = makesD [OF mk, of ?s0 s, unfolded l0, OF run]
  have "agree (bytes_at 0 (length header)) header (en_buf ?s0)"
    using po by (intro agree_by_bytes) (simp add: grow_def nth_append)
  moreover have "agree (bytes_at 0 (length header)) (en_buf ?s0) (em_bytes m)"
    unfolding m by (rule agree_mono [OF d(2)]) (use po in \<open>auto simp: in_bytes_at\<close>)
  ultimately show "agree (bytes_at 0 (length header)) header (em_bytes m)" by (rule agree_trans)
  have "agree (bytes_at ?po (length (en_buf s) - ?po)) (en_buf s) (e_bytes env)"
    using d(1) unfolding env(1) m by (intro agree_by_bytes) simp
  then obtain d' where dec: "decode_struct_with env (map (\<lambda>ft. decode_field env (ft_ty ft)) fts) fts ?po dec_new = (Ok v, d')"
    using d(3) [of dec_new] env m by (auto simp: dec_new_def)
  then have ds: "decode_struct env t ?po dec_new = (Ok v, d')" by (simp add: decode_struct_def t)
  then show "\<exists>d. decode_struct env t ?po dec_new = (Ok v, d)" by blast
  show "?po + 8 \<le> length (em_bytes m)" using struct_header_fits [OF dec] env(1) by simp
qed

text \<open>C1: Encoding and validating round-trips where the encoder and the decoder agree: a message encoded from a
  value behind a header of version 0 or 1, and within the limits, is accepted by \<open>validate_message\<close> with
  the header and exactly the value.  The schema is one without nullable booleans or handles, without
  struct fields or struct union members that are not nullable, without nullable inlined unions, and
  without inlined unions or nullable scalars as union members; its arrays and maps hold scalars,
  strings, arrays, maps or structs (\<open>coherent\<close>).  The value conforms to it, its enums are not negative,
  and its structs have a version with all fields (\<open>latest\<close>).  Bools sharing bytes, nullable scalars,
  strings, arrays, maps, unions and pointers nest to any depth.  For the schemas and values left out
  the round trip fails.\<close>

theorem message_roundtrip:
  assumes enc: "encode_message header t v = Ok m"
    and hdr: "parse header = Ok (h, length header)" "length header < 48"
    and v: "coherent t" "latest t v"
      "conforms \<lparr>e_bytes = em_bytes m, e_handle_count = hc, e_max_depth = vl_max_recursion_depth limits\<rparr> t v"
    and limits: "length (em_bytes m) < 2 ^ 32" "length (em_bytes m) \<le> vl_max_message_size limits"
      "height t \<le> vl_max_recursion_depth limits"
  shows "validate_message (em_bytes m) hc t limits =
    Ok \<lparr>vm_header = h, vm_payload = v, vm_payload_offset = length header\<rparr>"
proof -
  let ?env = "\<lparr>e_bytes = em_bytes m, e_handle_count = hc, e_max_depth = vl_max_recursion_depth limits\<rparr>"
  have n: "length header \<in> {24, 32, 48, 56}" by (rule parse_size(1) [OF hdr(1)])
  then have po: "round_up (length header) 8 = length header" by (auto simp: round_up_def)
  have env: "e_bytes ?env = em_bytes m" "height t \<le> e_max_depth ?env" using limits by simp_all
  note d = encoded_decodes [OF enc hdr(2) env(1) limits(1) env(2) v(1,3,2), unfolded po]
  have "take (length header) (em_bytes m) = header" using agree_slice(1) [OF d(2)] by simp
  then have "em_bytes m = header @ drop (length header) (em_bytes m)" by (metis append_take_drop_id)
  then have p: "parse (em_bytes m) = Ok (h, length header)" using parse_append [OF hdr(1)] by metis
  have a: "align_up (length header) MESSAGE_ALIGNMENT = Some (Some (length header))" by (rule align_header [OF n])
  obtain s where "decode_struct ?env t (length header) dec_new = (Ok v, s)" using d(1) by blast
  then show ?thesis using d(3) n p a limits(2)
    by (auto simp: validate_message_def checked_def MIN_MESSAGE_SIZE_def MESSAGE_HEADER_V0_SIZE_def)
qed

abbreviation greeting_ty :: ty where
  "greeting_ty \<equiv> TStruct [FieldType ''s'' (TString False) None] 0 False"

definition greeting_header :: "byte list" where
  "greeting_header = to_le 4 (24 :: u32) @ replicate 20 0"

lemma greeting_parse:
  "length greeting_header = 24" "\<exists>h. parse greeting_header = Ok (h, 24)"
proof -
  show l: "length greeting_header = 24" by (simp add: greeting_header_def)
  have "u32_in greeting_header 0 = 24" "u32_in greeting_header 4 = 0" "u32_in greeting_header 16 = 0"
    by (simp_all add: greeting_header_def u32_in_def from_le_to_le numeral_eq_Suc)
  then show "\<exists>h. parse greeting_header = Ok (h, 24)"
    by (auto simp: parse_eq l base_error_def header_cut_short_def Let_def required_size_simps)
qed

lemma greeting_encoded:
  "\<exists>m. encode_message greeting_header greeting_ty (VStruct 0 [VString [104, 105]]) = Ok m \<and> length (em_bytes m) = 56"
proof -
  obtain ps pf where p: "pack_struct [FieldType ''s'' (TString False) None] = Ok ps" "packed_fields ps = [pf]"
    "f_index (pf_field pf) = 0" "\<not> f_nullable_value_kind (pf_field pf)" "pf_offset pf = 0" "ps_size ps = 16"
    using pack_single [of "TString False" "''s''"] by (auto simp: kind_size_def round_up_def)
  have a: "align_up 24 MESSAGE_ALIGNMENT = Some (Some 24)" by (rule align_header) simp
  have p2: "is_power_of_two 8" unfolding is_power_of_two_iff by (intro exI [of _ 3]) simp
  have b: "align_up 40 MESSAGE_ALIGNMENT = Some (Some 40)" "align_up 11 MESSAGE_ALIGNMENT = Some (Some 16)"
    by (simp_all add: align_up_eq [OF p2] MESSAGE_ALIGNMENT_def round_up_def usize_limit_def)
  show ?thesis
    by (simp add: encode_message_def greeting_parse a checked_def encode_struct_at_def p andthen_def lift_def ret_def
        checked_add_def usize_limit_def grow_to_def grow_def write_le_def copy_into_def write_second_def plus_def uadd_def
        encode_string_def pointing_def append_object_start_def b encode_string_object_at_def ARRAY_HEADER_SIZE_def
        copy_in_def MESSAGE_HEADER_V2_SIZE_def STRUCT_HEADER_SIZE_def Let_def)
qed

theorem message_roundtrip_witness:
  "\<exists>m h. encode_message greeting_header greeting_ty (VStruct 0 [VString [104, 105]]) = Ok m \<and>
     validate_message (em_bytes m) 0 greeting_ty default_limits =
       Ok \<lparr>vm_header = h, vm_payload = VStruct 0 [VString [104, 105]], vm_payload_offset = 24\<rparr>"
proof -
  obtain m h where m: "encode_message greeting_header greeting_ty (VStruct 0 [VString [104, 105]]) = Ok m"
      "length (em_bytes m) = 56" and h: "parse greeting_header = Ok (h, length greeting_header)"
    using greeting_encoded greeting_parse by auto
  have "validate_message (em_bytes m) 0 greeting_ty default_limits =
      Ok \<lparr>vm_header = h, vm_payload = VStruct 0 [VString [104, 105]], vm_payload_offset = length greeting_header\<rparr>"
    by (rule message_roundtrip [OF m(1) h])
      (simp_all add: greeting_parse m(2) default_limits_def DEFAULT_MAX_MESSAGE_SIZE_def DEFAULT_MAX_RECURSION_DEPTH_def
        max_version_def Let_def field_conforms_def ft_version_def)
  with m(1) greeting_parse(1) show ?thesis by auto
qed

section \<open>Nullable booleans\<close>

lemma andthen_lift:
  "andthen (lift (Ok a)) f = f a" "andthen (lift (Err e)) f = fail e" "andthen (lift Panic) f = lift Panic"
  by (simp_all add: fun_eq_iff andthen_def lift_def fail_def)

lemma encode_packed_nullable_bool:
  assumes "i < length fts" "ft_ty (fts ! i) = TNullableScalar TBool" "\<forall>pf \<in> set pfs. field_shape fts pf"
  shows "encode_packed encs off (vs[i := VNullableScalar True x]) pfs = encode_packed encs off (vs[i := VNullableScalar True y]) pfs"
  using assms(3)
proof (induction pfs)
  case (Cons pf pfs)
  have "f_nullable_value_kind (pf_field pf) \<and> pf_kind pf = KBool" if "f_index (pf_field pf) = i"
    using Cons.prems that assms(2) by (auto simp: field_shape_def)
  then show ?case using Cons by (cases "f_index (pf_field pf) = i") (simp_all add: Let_def)
qed simp

text \<open>The value of a present nullable boolean is lost, in both directions.  The encoder writes its
  presence bit into both packed halves and never its value: values that differ only there encode to
  the same message.  The decoder takes the second half for another presence flag: whatever it accepts
  for the field is absent, or present with an absent value inside.\<close>

theorem nullable_bool_lost:
  assumes i: "i < length fts" "ft_ty (fts ! i) = TNullableScalar TBool"
  shows "encode_message header (TStruct fts w n) (VStruct v (vs[i := VNullableScalar True x])) =
      encode_message header (TStruct fts w n) (VStruct v (vs[i := VNullableScalar True y])) \<and>
    (\<forall>env off s s' v' ws. decode_struct env (TStruct fts w n) off s = (Ok (VStruct v' ws), s') \<longrightarrow>
       d_frontier s \<le> length (e_bytes env) \<longrightarrow>
       ws ! i = VNullableScalar False VNull \<or> ws ! i = VNullableScalar True (VNullableScalar False VNull))"
proof (intro conjI allI impI)
  have "encode_struct_at encs fts n off (VStruct v (vs[i := VNullableScalar True x])) =
      encode_struct_at encs fts n off (VStruct v (vs[i := VNullableScalar True y]))" for encs off
  proof (cases "pack_struct fts")
    case (Ok ps)
    have "encode_packed encs off (vs[i := VNullableScalar True x]) (packed_fields ps) =
        encode_packed encs off (vs[i := VNullableScalar True y]) (packed_fields ps)"
      using packed_fields_shape [OF Ok] by (intro encode_packed_nullable_bool [OF i]) blast
    then show ?thesis using Ok by (simp add: encode_struct_at_def andthen_lift Let_def)
  qed (simp_all add: encode_struct_at_def andthen_lift)
  then show "encode_message header (TStruct fts w n) (VStruct v (vs[i := VNullableScalar True x])) =
      encode_message header (TStruct fts w n) (VStruct v (vs[i := VNullableScalar True y]))"
    by (simp add: encode_message_def)
next
  fix env off s s' v' ws
  assume "decode_struct env (TStruct fts w n) off s = (Ok (VStruct v' ws), s')" "d_frontier s \<le> length (e_bytes env)"
  from decode_struct_conforms(6) [OF this refl] i
  show "ws ! i = VNullableScalar False VNull \<or> ws ! i = VNullableScalar True (VNullableScalar False VNull)"
    by (auto simp: struct_ok_def nullable_bool_def)
qed

theorem nullable_bool_lost_witness:
  "encode_message [] (TStruct [FieldType ''b'' (TNullableScalar TBool) None] 0 False) (VStruct 0 [VNullableScalar True (VBool True)]) =
   encode_message [] (TStruct [FieldType ''b'' (TNullableScalar TBool) None] 0 False) (VStruct 0 [VNullableScalar True (VBool False)])"
  using nullable_bool_lost [of 0 "[FieldType ''b'' (TNullableScalar TBool) None]" "[]" 0 False 0 "[VNull]" "VBool True" "VBool False"]
  by simp

end
