(* ===== verification/IpczWire.thy ===== *)
theory IpczWire
  imports WireLayout
begin

text \<open>
  Framing of the node link protocol: \<open>crates/mojo-rs-interop/src/ipcz/wire.rs\<close>.  Channel messages
  are parsed from and encoded into a byte stream, and the message builder lays out a message:
  header, parameters, arrays, driver objects.  Main results: encoding a sequence of channel messages and parsing the
  stream gives the sequence back, parsing any stream terminates without a panic and accounts for
  every byte, and the layout of the builder with the case in which its own assertion fails.
\<close>

section \<open>Messages, headers, errors\<close>

record channel_message =
  cm_num_handles :: u16
  cm_payload :: "byte list"

record link_header =
  lh_size :: byte
  lh_version :: byte
  lh_message_id :: byte
  lh_sequence :: u64
  lh_driver_objects :: u32

datatype link_error =
    ShortChannelHeader | UnknownChannelHeaderSize u16 | BadChannelMessageSize u32 | TruncatedMessage
  | ShortMessageHeader | UnknownMessageHeaderSize byte | ShortParams | BadParamsSize
  | BadArrayOffset | BadArray | BadDriverObjects | BadParcelData

type_synonym 'a link_result = "(link_error, 'a) outcome"

definition IPCZ_HEADER_SIZE :: nat where "IPCZ_HEADER_SIZE = 16"
definition IPCZ_MESSAGE_HEADER_SIZE :: nat where "IPCZ_MESSAGE_HEADER_SIZE = 24"

lemmas ipcz_sizes = IPCZ_HEADER_SIZE_def IPCZ_MESSAGE_HEADER_SIZE_def

text \<open>The little-endian integer in \<open>n\<close> bytes from an offset; a read out of bounds panics.\<close>

definition word_at :: "nat \<Rightarrow> byte list \<Rightarrow> nat \<Rightarrow> 'w::len word option" where
  "word_at n bytes off = map_option from_le (slice bytes off (off + n))"

section \<open>Parsing\<close>

definition parse_channel_message :: "byte list \<Rightarrow> (channel_message \<times> nat) link_result" where
  "parse_channel_message stream =
     (if length stream < IPCZ_HEADER_SIZE then Err ShortChannelHeader
      else
      obind (from_option (word_at 2 stream 0)) (\<lambda>size :: u16.
      if size \<noteq> of_nat IPCZ_HEADER_SIZE then Err (UnknownChannelHeaderSize size)
      else
      obind (from_option (word_at 2 stream 2)) (\<lambda>num_handles :: u16.
      obind (from_option (word_at 4 stream 4)) (\<lambda>num :: u32.
      let num_bytes = unat num in
      if num_bytes < IPCZ_HEADER_SIZE then Err (BadChannelMessageSize num)
      else if length stream < num_bytes then Err TruncatedMessage
      else
      obind (from_option (slice stream IPCZ_HEADER_SIZE num_bytes)) (\<lambda>payload.
      Ok (\<lparr>cm_num_handles = num_handles, cm_payload = payload\<rparr>, num_bytes))))))"

definition parse_message_header :: "byte list \<Rightarrow> link_header link_result" where
  "parse_message_header payload =
     (if length payload < IPCZ_MESSAGE_HEADER_SIZE then Err ShortMessageHeader
      else
      obind (from_option (word_at 1 payload 0)) (\<lambda>size :: byte.
      if size \<noteq> of_nat IPCZ_MESSAGE_HEADER_SIZE then Err (UnknownMessageHeaderSize size)
      else
      obind (from_option (word_at 8 payload 8)) (\<lambda>sequence.
      obind (from_option (word_at 4 payload 16)) (\<lambda>driver_objects.
      obind (from_option (word_at 1 payload 1)) (\<lambda>version.
      obind (from_option (word_at 1 payload 2)) (\<lambda>message_id.
      Ok \<lparr>lh_size = size, lh_version = version, lh_message_id = message_id,
          lh_sequence = sequence, lh_driver_objects = driver_objects\<rparr>))))))"

lemma word_at_Some [simp]:
  "off + n \<le> length bytes \<Longrightarrow> word_at n bytes off = Some (from_le (take n (drop off bytes)))"
  by (simp add: word_at_def)

lemma parse_channel_message_eq:
  "parse_channel_message s =
     (if length s < 16 then Err ShortChannelHeader
      else if (from_le (take 2 s) :: u16) \<noteq> 16 then Err (UnknownChannelHeaderSize (from_le (take 2 s)))
      else let n = from_le (take 4 (drop 4 s)) :: u32 in
        if unat n < 16 then Err (BadChannelMessageSize n)
        else if length s < unat n then Err TruncatedMessage
        else Ok (\<lparr>cm_num_handles = from_le (take 2 (drop 2 s)), cm_payload = take (unat n - 16) (drop 16 s)\<rparr>, unat n))"
  by (simp add: parse_channel_message_def ipcz_sizes Let_def)

lemma parse_consumes:
  "parse_channel_message s = Ok (m, n) \<Longrightarrow> 16 \<le> n \<and> n \<le> length s \<and> n = 16 + length (cm_payload m)"
  by (auto simp: parse_channel_message_eq Let_def split: if_splits)

text \<open>The loop over a captured stream: each step parses the rest of the stream.\<close>

function parse_stream :: "byte list \<Rightarrow> channel_message list link_result" where
  "parse_stream stream =
     (if stream = [] then Ok []
      else case parse_channel_message stream of
        Ok (m, consumed) \<Rightarrow> obind (parse_stream (drop consumed stream)) (\<lambda>ms. Ok (m # ms))
      | Err e \<Rightarrow> Err e
      | Panic \<Rightarrow> Panic)"
  by pat_completeness auto
termination
  by (relation "measure length") (auto dest: parse_consumes)

declare parse_stream.simps [simp del]

section \<open>Encoding channel messages\<close>

definition encode_channel_header :: "nat \<Rightarrow> u16 \<Rightarrow> byte list option" where
  "encode_channel_header payload_len num_handles = do {
     sum \<leftarrow> uadd IPCZ_HEADER_SIZE payload_len;
     let total = as_u32 sum;
     _ \<leftarrow> debug_assert (total = sum);
     Some (to_le 2 (of_nat IPCZ_HEADER_SIZE :: u16) @ to_le 2 num_handles @
           to_le 4 (of_nat total :: u32) @ to_le 8 (0 :: u64)) }"

definition encode_channel_message :: "byte list \<Rightarrow> u16 \<Rightarrow> byte list option" where
  "encode_channel_message payload num_handles = do {
     out \<leftarrow> encode_channel_header (length payload) num_handles;
     Some (out @ payload) }"

section \<open>Building messages\<close>

record message_builder =
  mb_header :: link_header
  mb_body :: "byte list"

definition align8 :: "nat \<Rightarrow> nat option" where
  "align8 n = do {
     m \<leftarrow> uadd n 7;
     Some (unat ((of_nat m :: u64) AND NOT 7)) }"

definition builder_new :: "byte \<Rightarrow> message_builder" where
  "builder_new message_id =
     \<lparr>mb_header = \<lparr>lh_size = of_nat IPCZ_MESSAGE_HEADER_SIZE, lh_version = 0, lh_message_id = message_id,
                   lh_sequence = 0, lh_driver_objects = 0\<rparr>,
      mb_body = []\<rparr>"

definition payload_len :: "message_builder \<Rightarrow> nat" where
  "payload_len b = IPCZ_MESSAGE_HEADER_SIZE + length (mb_body b)"

definition append_params :: "message_builder \<Rightarrow> byte list \<Rightarrow> message_builder option" where
  "append_params b params = do {
     padded \<leftarrow> align8 (8 + length params);
     let size = as_u32 padded;
     _ \<leftarrow> debug_assert (size = padded);
     padding \<leftarrow> usub (padded - 8) (length params);
     Some (b\<lparr>mb_body := mb_body b @ to_le 4 (of_nat size :: u32) @ to_le 4 (0 :: u32) @ params @
                        replicate padding 0\<rparr>) }"

definition append_array :: "message_builder \<Rightarrow> byte list \<Rightarrow> u32 \<Rightarrow> (u32 \<times> message_builder) option" where
  "append_array b elements num_elements =
     (if elements = [] then Some (0, b)
      else do {
        let offset = payload_len b;
        num_bytes \<leftarrow> align8 (8 + length elements);
        padding \<leftarrow> usub (num_bytes - 8) (length elements);
        let b' = b\<lparr>mb_body := mb_body b @ to_le 4 (of_nat num_bytes :: u32) @ to_le 4 num_elements @
                              elements @ replicate padding 0\<rparr>;
        let offset32 = as_u32 offset;
        end \<leftarrow> usub (payload_len b') 8;
        end \<leftarrow> usub end (length elements);
        end \<leftarrow> usub end padding;
        _ \<leftarrow> debug_assert (offset32 = end);
        Some (of_nat offset32, b') })"

definition has_driver_objects :: "message_builder \<Rightarrow> bool" where
  "has_driver_objects b = (lh_driver_objects (mb_header b) \<noteq> 0)"

text \<open>The planned offset of each object's data array; empty objects have none.\<close>

fun plan_offsets :: "nat \<Rightarrow> byte list list \<Rightarrow> nat list option" where
  "plan_offsets off [] = Some []"
| "plan_offsets off (data # rest) = do {
     size \<leftarrow> align8 (8 + length data);
     off' \<leftarrow> uadd off size;
     offsets \<leftarrow> plan_offsets off' rest;
     Some ((if data = [] then 0 else off) # offsets) }"

text \<open>The entries of the driver object array: each object consumes one descriptor.\<close>

fun object_entries :: "u16 \<Rightarrow> nat list \<Rightarrow> byte list option" where
  "object_entries num_handles [] = Some []"
| "object_entries num_handles (off # offsets) =
     (if num_handles = 0xFFFF then None
      else do {
        entries \<leftarrow> object_entries (num_handles + 1) offsets;
        Some (to_le 4 (of_nat off :: u32) @ to_le 2 num_handles @ to_le 2 (1 :: u16) @ entries) })"

text \<open>The data arrays, each asserted to land at its planned offset.\<close>

fun append_objects :: "message_builder \<Rightarrow> byte list list \<Rightarrow> nat list \<Rightarrow> message_builder option" where
  "append_objects b [] offsets = Some b"
| "append_objects b (data # rest) [] = None"
| "append_objects b (data # rest) (off # offsets) =
     (if data = [] then append_objects b rest offsets
      else do {
        (at, b') \<leftarrow> append_array b data (of_nat (length data));
        _ \<leftarrow> debug_assert (unat at = off);
        append_objects b' rest offsets })"

definition append_driver_objects :: "message_builder \<Rightarrow> byte list list \<Rightarrow> message_builder option" where
  "append_driver_objects b driver_data =
     (if driver_data = [] then Some b
      else do {
        let base = payload_len b;
        arr_size \<leftarrow> align8 (8 + length driver_data * 8);
        off \<leftarrow> uadd base arr_size;
        offsets \<leftarrow> plan_offsets off driver_data;
        objects \<leftarrow> object_entries 0 offsets;
        (arr_offset, b1) \<leftarrow> append_array b objects (of_nat (length driver_data));
        _ \<leftarrow> debug_assert (unat arr_offset = base);
        b2 \<leftarrow> append_objects b1 driver_data offsets;
        Some (b2\<lparr>mb_header := (mb_header b2)\<lparr>lh_driver_objects := arr_offset\<rparr>\<rparr>) })"

definition driver_object_count :: "message_builder \<Rightarrow> nat option" where
  "driver_object_count b =
     (let off = unat (lh_driver_objects (mb_header b)) in
      if off = 0 \<or> off + 8 > payload_len b then Some 0
      else do {
        rel \<leftarrow> usub off IPCZ_MESSAGE_HEADER_SIZE;
        if rel + 8 > length (mb_body b) then Some 0
        else do {
          n \<leftarrow> word_at 4 (mb_body b) (rel + 4);
          Some (unat (n :: u32)) } })"

definition num_attached_handles :: "message_builder \<Rightarrow> u16 option" where
  "num_attached_handles b =
     (if has_driver_objects b then map_option of_nat (driver_object_count b) else Some 0)"

definition build :: "message_builder \<Rightarrow> byte list" where
  "build b = (let h = mb_header b in
     [lh_size h, lh_version h, lh_message_id h] @ replicate 5 0 @ to_le 8 (lh_sequence h) @
     to_le 4 (lh_driver_objects h) @ to_le 4 (0 :: u32) @ mb_body b)"

text \<open>Patches the sequence number of an encoded message; a shorter buffer panics.\<close>

definition set_message_sequence_number :: "byte list \<Rightarrow> u64 \<Rightarrow> byte list option" where
  "set_message_sequence_number payload s = copy_into payload 8 16 (to_le 8 s)"

section \<open>The stream\<close>

text \<open>The bytes that frame a channel message: a 16 byte header with the sizes, then the payload.\<close>

definition frames :: "byte list \<Rightarrow> channel_message \<Rightarrow> bool" where
  "frames b m = (length b = 16 + length (cm_payload m) \<and> drop 16 b = cm_payload m \<and>
     (from_le (take 2 b) :: u16) = 16 \<and> from_le (take 2 (drop 2 b)) = cm_num_handles m \<and>
     unat (from_le (take 4 (drop 4 b)) :: u32) = length b)"

lemma parse_frame:
  assumes "frames b m"
  shows "parse_channel_message (b @ rest) = Ok (m, length b)"
proof -
  have l: "length b = 16 + length (cm_payload m)" "16 \<le> length b" using assms by (simp_all add: frames_def)
  then show ?thesis using assms
    by (simp add: frames_def parse_channel_message_eq Let_def)
qed

lemma frame_of_parse:
  assumes "parse_channel_message s = Ok (m, n)"
  shows "frames (take n s) m" "n \<le> length s" "0 < n"
proof -
  let ?n = "from_le (take 4 (drop 4 s)) :: u32"
  have p: "16 \<le> length s" "(from_le (take 2 s) :: u16) = 16" "16 \<le> unat ?n" "unat ?n \<le> length s" "n = unat ?n"
    "m = \<lparr>cm_num_handles = from_le (take 2 (drop 2 s)), cm_payload = take (unat ?n - 16) (drop 16 s)\<rparr>"
    using assms by (auto simp: parse_channel_message_eq Let_def split: if_splits)
  have "length (take n s) = n" using p(4,5) by simp
  moreover have "take 2 (take n s) = take 2 s" "take 2 (drop 2 (take n s)) = take 2 (drop 2 s)"
    "take 4 (drop 4 (take n s)) = take 4 (drop 4 s)" using p(3,5) by (simp_all add: drop_take min_absorb1)
  moreover have "length (cm_payload m) = n - 16" "cm_payload m = drop 16 (take n s)"
    using p(3-6) by (simp_all add: drop_take)
  ultimately show "frames (take n s) m" using p(2,3,5,6) by (simp add: frames_def)
  show "n \<le> length s" "0 < n" using p by simp_all
qed

lemma parse_never_panics: "parse_channel_message s \<noteq> Panic"
  by (simp add: parse_channel_message_eq Let_def)

lemma stream_never_panics: "parse_stream s \<noteq> Panic"
proof (induction s rule: parse_stream.induct)
  case (1 s)
  show ?case
    by (subst parse_stream.simps)
      (auto simp: parse_never_panics obind_eq_Panic 1 split: outcome.split)
qed

lemma stream_of_frames:
  "list_all2 frames bs ms \<Longrightarrow> parse_stream (concat bs) = Ok ms"
proof (induction rule: list_all2_induct)
  case Nil then show ?case by (simp add: parse_stream.simps)
next
  case (Cons b bs m ms)
  have "length b \<noteq> 0" using Cons.hyps(1) by (simp add: frames_def)
  then show ?case using Cons by (subst parse_stream.simps) (simp add: parse_frame)
qed

lemma frames_of_stream:
  "parse_stream s = Ok ms \<Longrightarrow> \<exists>bs. s = concat bs \<and> list_all2 frames bs ms"
proof (induction s arbitrary: ms rule: parse_stream.induct)
  case (1 s)
  show ?case
  proof (cases "s = []")
    case True
    then have "ms = []" using 1 by (simp add: parse_stream.simps)
    then have "s = concat [] \<and> list_all2 frames [] ms" using True by simp
    then show ?thesis by blast
  next
    case False
    then obtain m n ms' where p: "parse_channel_message s = Ok (m, n)"
      "parse_stream (drop n s) = Ok ms'" "ms = m # ms'"
      using 1(2) by (subst (asm) parse_stream.simps) (auto split: outcome.splits)
    obtain bs where bs: "drop n s = concat bs" "list_all2 frames bs ms'"
      using 1(1) [OF False p(1) refl p(2)] by blast
    have "s = concat (take n s # bs)" using bs(1) by (simp flip: bs(1))
    moreover have "list_all2 frames (take n s # bs) ms"
      using bs(2) frame_of_parse [OF p(1)] p(3) by simp
    ultimately show ?thesis by blast
  qed
qed

lemma encode_frames:
  assumes "16 + length p < 2 ^ 32"
  shows "\<exists>b. encode_channel_message p h = Some b \<and> frames b \<lparr>cm_num_handles = h, cm_payload = p\<rparr>"
proof -
  have "16 + length p < usize_limit" using assms by (simp add: usize_limit_def)
  moreover have "unat (of_nat (16 + length p) :: u32) = 16 + length p"
    using assms by (simp only: unsigned_of_nat) (simp add: take_bit_nat_eq_self)
  ultimately show ?thesis using assms
    by (simp add: encode_channel_message_def encode_channel_header_def ipcz_sizes frames_def from_le_to_le
        unsigned_of_nat take_bit_nat_eq_self Let_def)
qed

text \<open>C18: A stream is accepted exactly when it is the concatenation of well framed messages, and then the
  result is those messages: every byte belongs to one of them.  No stream makes the parser panic
  or run forever.\<close>
theorem parse_stream_exact:
  "parse_stream s \<noteq> Panic \<and>
   (parse_stream s = Ok ms \<longleftrightarrow> (\<exists>bs. s = concat bs \<and> list_all2 frames bs ms))"
  using stream_never_panics stream_of_frames frames_of_stream by blast

text \<open>Channel messages whose sizes fit the 32 bit length field, encoded one after the other, parse back
  to the same messages with the same descriptor counts.\<close>
theorem stream_roundtrip:
  assumes "\<forall>m \<in> set ms. 16 + length (cm_payload m) < 2 ^ 32"
  shows "\<exists>bs. those (map (\<lambda>m. encode_channel_message (cm_payload m) (cm_num_handles m)) ms) = Some bs \<and>
    parse_stream (concat bs) = Ok ms"
proof -
  have "\<exists>bs. those (map (\<lambda>m. encode_channel_message (cm_payload m) (cm_num_handles m)) ms) = Some bs \<and>
      list_all2 frames bs ms"
    using assms
  proof (induction ms)
    case (Cons m ms)
    have "16 + length (cm_payload m) < 2 ^ 32" using Cons.prems by simp
    from encode_frames [OF this, of "cm_num_handles m"]
    obtain b where "encode_channel_message (cm_payload m) (cm_num_handles m) = Some b" "frames b m"
      by (cases m) auto
    then show ?case using Cons by auto
  qed simp
  then show ?thesis using stream_of_frames by blast
qed

theorem stream_roundtrip_witness:
  "\<exists>bs. those (map (\<lambda>m. encode_channel_message (cm_payload m) (cm_num_handles m))
       [\<lparr>cm_num_handles = 1, cm_payload = [1, 2, 3]\<rparr>, \<lparr>cm_num_handles = 0, cm_payload = []\<rparr>]) = Some bs \<and>
    parse_stream (concat bs) =
      Ok [\<lparr>cm_num_handles = 1, cm_payload = [1, 2, 3]\<rparr>, \<lparr>cm_num_handles = 0, cm_payload = []\<rparr>]"
  by (rule stream_roundtrip) simp

section \<open>The layout of a built message\<close>

definition up8 :: "nat \<Rightarrow> nat" where
  "up8 n = (n + 7) div 8 * 8"

lemma up8_ge: "n \<le> up8 n" and up8_le: "up8 n \<le> n + 7" and up8_mod [simp]: "up8 n mod 8 = 0"
  by (simp_all add: up8_def)

lemma align8_eq [simp]: "n + 7 < usize_limit \<Longrightarrow> align8 n = Some (up8 n)"
proof -
  assume n: "n + 7 < usize_limit"
  have "unat (of_nat (n + 7) :: u64) = n + 7"
    using n by (simp only: unsigned_of_nat) (simp add: take_bit_nat_eq_self usize_limit_def)
  then have "unat ((of_nat (n + 7) :: u64) AND NOT 7) = n + 7 - (n + 7) mod 8"
    using align_down_unat [of "of_nat (n + 7)" 3] by simp
  then show ?thesis using n by (simp add: align8_def up8_def minus_mod_eq_div_mult)
qed

text \<open>A parameter struct or an array: its size, a word, its bytes, and the padding.\<close>

definition block :: "u32 \<Rightarrow> byte list \<Rightarrow> byte list" where
  "block n bytes = to_le 4 (of_nat (up8 (8 + length bytes)) :: u32) @ to_le 4 n @ bytes @
     replicate (up8 (8 + length bytes) - 8 - length bytes) 0"

lemma length_block [simp]: "length (block n bytes) = up8 (8 + length bytes)"
  using up8_ge [of "8 + length bytes"] by (simp add: block_def)

lemma append_params_eq:
  assumes "length params + 16 < 2 ^ 32"
  shows "append_params b params = Some (b\<lparr>mb_body := mb_body b @ block 0 params\<rparr>)"
proof -
  have "up8 (8 + length params) < 2 ^ 32" "8 + length params \<le> up8 (8 + length params)"
    using assms up8_le [of "8 + length params"] up8_ge [of "8 + length params"] by simp_all
  then show ?thesis using assms
    by (simp add: append_params_def block_def usize_limit_def Let_def)
qed

lemma append_array_Nil [simp]: "append_array b [] n = Some (0, b)"
  by (simp add: append_array_def)

lemma append_array_eq:
  assumes "elements \<noteq> []" "payload_len b + length elements + 16 < 2 ^ 32"
  shows "append_array b elements n = Some (of_nat (payload_len b), b\<lparr>mb_body := mb_body b @ block n elements\<rparr>)"
proof -
  let ?p = "up8 (8 + length elements)"
  have p: "?p < 2 ^ 32" "8 + length elements \<le> ?p"
    using assms up8_le [of "8 + length elements"] up8_ge [of "8 + length elements"] by simp_all
  have l: "payload_len (b\<lparr>mb_body := mb_body b @ block n elements\<rparr>) = payload_len b + ?p"
    by (simp add: payload_len_def)
  show ?thesis using assms p l
    by (simp add: append_array_def Let_def block_def usize_limit_def)
qed

lemma payload_len_append [simp]:
  "payload_len (b\<lparr>mb_body := mb_body b @ bytes\<rparr>) = payload_len b + length bytes"
  by (simp add: payload_len_def)

lemma payload_len_header [simp]: "payload_len (b\<lparr>mb_header := h\<rparr>) = payload_len b"
  by (simp add: payload_len_def)

text \<open>The planned offsets, and the bytes all objects take when each gets an array.\<close>

fun planned :: "nat \<Rightarrow> byte list list \<Rightarrow> nat list" where
  "planned off [] = []"
| "planned off (d # ds) = (if d = [] then 0 else off) # planned (off + up8 (8 + length d)) ds"

definition objects_size :: "byte list list \<Rightarrow> nat" where
  "objects_size ds = (\<Sum>d\<leftarrow>ds. up8 (8 + length d))"

lemma objects_size_simps [simp]:
  "objects_size [] = 0" "objects_size (d # ds) = up8 (8 + length d) + objects_size ds"
  by (simp_all add: objects_size_def)

lemma length_planned [simp]: "length (planned off ds) = length ds"
  by (induction ds arbitrary: off) simp_all

lemma plan_offsets_eq:
  "off + objects_size ds < 2 ^ 32 \<Longrightarrow> plan_offsets off ds = Some (planned off ds)"
proof (induction ds arbitrary: off)
  case (Cons d ds)
  have "8 + length d \<le> up8 (8 + length d)" by (rule up8_ge)
  then show ?case using Cons by (simp add: usize_limit_def)
qed simp

fun entries :: "nat \<Rightarrow> nat list \<Rightarrow> byte list" where
  "entries k [] = []"
| "entries k (off # offs) =
     to_le 4 (of_nat off :: u32) @ to_le 2 (of_nat k :: u16) @ to_le 2 (1 :: u16) @ entries (Suc k) offs"

lemma length_entries [simp]: "length (entries k offs) = 8 * length offs"
  by (induction offs arbitrary: k) simp_all

lemma object_entries_eq:
  "k + length offs < 2 ^ 16 \<Longrightarrow> object_entries (of_nat k) offs = Some (entries k offs)"
proof (induction offs arbitrary: k)
  case (Cons off offs)
  have k: "unat (of_nat k :: u16) = k" using Cons.prems
    by (simp only: unsigned_of_nat) (simp add: take_bit_nat_eq_self)
  have "(of_nat k :: u16) \<noteq> 0xFFFF"
  proof
    assume "(of_nat k :: u16) = 0xFFFF"
    then have "unat (of_nat k :: u16) = unat (0xFFFF :: u16)" by (rule arg_cong)
    then show False using k Cons.prems by simp
  qed
  moreover have "object_entries (of_nat k + 1) offs = Some (entries (Suc k) offs)"
    using Cons.IH [of "Suc k"] Cons.prems by (simp add: add.commute)
  ultimately show ?case by simp
qed simp

text \<open>Once the plan runs ahead of the message, only empty objects can follow.\<close>

lemma append_objects_late:
  assumes "payload_len b < off" "off + objects_size ds < 2 ^ 32"
  shows "append_objects b ds (planned off ds) = (if \<forall>d \<in> set ds. d = [] then Some b else None)"
  using assms
proof (induction ds arbitrary: off)
  case (Cons d ds)
  show ?case
  proof (cases "d = []")
    case True
    then show ?thesis using Cons.IH [of "off + up8 8"] Cons.prems by simp
  next
    case False
    have "append_array b d (of_nat (length d)) = None \<or>
      (\<exists>b'. append_array b d (of_nat (length d)) = Some (of_nat (payload_len b), b'))"
      by (auto simp: append_array_def Let_def as_u32_def False debug_assert_def split: bind_splits)
    moreover have "unat (of_nat (payload_len b) :: u32) \<le> payload_len b"
      by (simp add: unsigned_of_nat take_bit_nat_less_eq_self)
    ultimately show ?thesis using False Cons.prems
      by (auto simp: debug_assert_def)
  qed
qed simp

definition no_gap :: "byte list list \<Rightarrow> bool" where
  "no_gap ds = (\<forall>d \<in> set (dropWhile (\<lambda>d. d \<noteq> []) ds). d = [])"

definition arrays :: "byte list list \<Rightarrow> byte list" where
  "arrays ds = concat (map (\<lambda>d. if d = [] then [] else block (of_nat (length d)) d) ds)"

lemma append_objects_eq:
  assumes "payload_len b = off" "off + objects_size ds + 8 < 2 ^ 32"
  shows "append_objects b ds (planned off ds) =
    (if no_gap ds then Some (b\<lparr>mb_body := mb_body b @ arrays ds\<rparr>) else None)"
  using assms
proof (induction ds arbitrary: b off)
  case Nil
  then show ?case by (simp add: no_gap_def arrays_def)
next
  case (Cons d ds)
  show ?case
  proof (cases "d = []")
    case True
    have "arrays (d # ds) = []" if "\<forall>d \<in> set ds. d = []" using that True by (auto simp: arrays_def)
    then show ?thesis using Cons.prems True append_objects_late [of b "off + up8 8" ds]
      by (simp add: no_gap_def up8_def)
  next
    case False
    let ?b = "b\<lparr>mb_body := mb_body b @ block (of_nat (length d)) d\<rparr>"
    have u: "8 + length d \<le> up8 (8 + length d)" by (rule up8_ge)
    then have a: "append_array b d (of_nat (length d)) = Some (of_nat off, ?b)"
      using append_array_eq [OF False, of b] Cons.prems by simp
    have "unat (of_nat off :: u32) = off" using Cons.prems
      by (simp only: unsigned_of_nat) (simp add: take_bit_nat_eq_self)
    moreover have "append_objects ?b ds (planned (off + up8 (8 + length d)) ds) =
        (if no_gap ds then Some (?b\<lparr>mb_body := mb_body ?b @ arrays ds\<rparr>) else None)"
      using Cons.prems by (intro Cons.IH) simp_all
    moreover have "no_gap (d # ds) = no_gap ds" "arrays (d # ds) = block (of_nat (length d)) d @ arrays ds"
      using False by (simp_all add: no_gap_def arrays_def)
    moreover have "planned off (d # ds) = off # planned (off + up8 (8 + length d)) ds" using False by simp
    ultimately show ?thesis using a False
      by (simp only: append_objects.simps debug_assert_True Option.bind.simps prod.case) simp
  qed
qed

lemma unat_word32: "n < 2 ^ 32 \<Longrightarrow> unat (of_nat n :: u32) = n"
  by (simp only: unsigned_of_nat) (simp add: take_bit_nat_eq_self)

lemma unat_small16: "n < 2 ^ 16 \<Longrightarrow> unat (of_nat n :: u16) = n"
  by (simp only: unsigned_of_nat) (simp add: take_bit_nat_eq_self)

text \<open>The driver object array with the data arrays behind it, for a message whose body ends at \<open>base\<close>.\<close>

definition object_blocks :: "nat \<Rightarrow> byte list list \<Rightarrow> byte list" where
  "object_blocks base ds =
     block (of_nat (length ds)) (entries 0 (planned (base + up8 (8 + 8 * length ds)) ds)) @ arrays ds"

definition objects_fit :: "nat \<Rightarrow> byte list list \<Rightarrow> bool" where
  "objects_fit base ds = (length ds < 2 ^ 16 \<and> base + 8 * length ds + objects_size ds + 32 < 2 ^ 32)"

lemma append_driver_objects_eq:
  assumes fit: "objects_fit (payload_len b) ds" and ne: "ds \<noteq> []"
  shows "append_driver_objects b ds =
    (if no_gap ds
     then Some (b\<lparr>mb_body := mb_body b @ object_blocks (payload_len b) ds,
                   mb_header := (mb_header b)\<lparr>lh_driver_objects := of_nat (payload_len b)\<rparr>\<rparr>)
     else None)"
proof -
  let ?base = "payload_len b" and ?n = "length ds"
  let ?offs = "planned (?base + up8 (8 + 8 * ?n)) ds"
  let ?arr = "block (of_nat ?n) (entries 0 ?offs)"
  let ?b = "b\<lparr>mb_body := mb_body b @ ?arr\<rparr>"
  have b: "length ds < 2 ^ 16" "?base + 8 * ?n + objects_size ds + 32 < 2 ^ 32"
    using fit by (simp_all add: objects_fit_def)
  have u: "up8 (8 + 8 * ?n) \<le> 8 * ?n + 15" using up8_le [of "8 + 8 * ?n"] by simp
  have p: "plan_offsets (?base + up8 (8 + 8 * ?n)) ds = Some ?offs"
    using b u by (intro plan_offsets_eq) simp
  have o: "object_entries 0 ?offs = Some (entries 0 ?offs)"
    using object_entries_eq [of 0 ?offs] b(1) by simp
  have "length (entries 0 ?offs) \<noteq> 0" using ne by simp
  then have "entries 0 ?offs \<noteq> []" by (simp only: length_0_conv simp_thms)
  then have a: "append_array b (entries 0 ?offs) (of_nat ?n) = Some (of_nat ?base, ?b)"
    using b by (intro append_array_eq) simp_all
  have l: "append_objects ?b ds ?offs = (if no_gap ds then Some (?b\<lparr>mb_body := mb_body ?b @ arrays ds\<rparr>) else None)"
    using b u by (intro append_objects_eq) simp_all
  have at: "unat (of_nat ?base :: u32) = ?base" using b(2) by (intro unat_word32) simp
  have s: "align8 (8 + ?n * 8) = Some (up8 (8 + 8 * ?n))" "uadd ?base (up8 (8 + 8 * ?n)) = Some (?base + up8 (8 + 8 * ?n))"
    using b u by (simp_all add: usize_limit_def mult.commute)
  show ?thesis
    unfolding append_driver_objects_def Let_def object_blocks_def
    by (simp only: ne if_False s Option.bind.simps p o a prod.case at debug_assert_True l) simp
qed

text \<open>Appending driver objects lays out the object array and then one data array per non-empty object, at
  the planned offsets, and the builder then attaches one descriptor per object - unless an empty
  object stands before a non-empty one: the plan reserves eight bytes for it that are never
  written, and the assertion on the next placement panics.\<close>
theorem driver_object_layout:
  assumes "objects_fit (payload_len b) ds"
  shows "(if ds = [] then append_driver_objects b ds = Some b
    else if no_gap ds then \<exists>b'. append_driver_objects b ds = Some b' \<and>
      mb_body b' = mb_body b @ object_blocks (payload_len b) ds \<and>
      lh_driver_objects (mb_header b') = of_nat (payload_len b) \<and>
      num_attached_handles b' = Some (of_nat (length ds))
    else append_driver_objects b ds = None)"
proof (cases "ds \<noteq> [] \<and> no_gap ds")
  case True
  let ?h = "(mb_header b)\<lparr>lh_driver_objects := of_nat (payload_len b)\<rparr>"
  let ?b = "b\<lparr>mb_body := mb_body b @ object_blocks (payload_len b) ds, mb_header := ?h\<rparr>"
  have fit: "payload_len b < 2 ^ 32" "length ds < 2 ^ 16" using assms by (simp_all add: objects_fit_def)
  have n: "unat (of_nat (payload_len b) :: u32) = payload_len b" "unat (of_nat (length ds) :: u32) = length ds"
    using fit by (simp_all add: unat_word32)
  have len: "8 \<le> length (object_blocks (payload_len b) ds)"
    using up8_ge [of "8 + 8 * length ds"] by (simp add: object_blocks_def)
  have at: "take 4 (drop 4 (object_blocks (payload_len b) ds)) = to_le 4 (of_nat (length ds) :: u32)"
    by (simp add: object_blocks_def block_def)
  have pos: "payload_len b \<noteq> 0" "payload_len b = 24 + length (mb_body b)"
    by (simp_all add: payload_len_def ipcz_sizes)
  have "of_nat (payload_len b) \<noteq> (0 :: u32)" using n(1) pos(1) by (metis unsigned_0)
  moreover have "driver_object_count ?b = Some (length ds)"
    using n pos len at by (simp add: driver_object_count_def Let_def ipcz_sizes payload_len_def from_le_to_le)
  ultimately have "num_attached_handles ?b = Some (of_nat (length ds))"
    by (simp add: num_attached_handles_def has_driver_objects_def)
  then show ?thesis using append_driver_objects_eq [OF assms] True by simp
next
  case False
  moreover have "append_driver_objects b [] = Some b" by (simp add: append_driver_objects_def)
  ultimately show ?thesis using append_driver_objects_eq [OF assms] by auto
qed

theorem driver_object_layout_witness:
  "objects_fit (payload_len (builder_new 20)) [[], [1]] \<and> append_driver_objects (builder_new 20) [[], [1]] = None"
proof -
  have "objects_fit (payload_len (builder_new 20)) [[], [1]]"
    by (simp add: objects_fit_def payload_len_def builder_new_def ipcz_sizes up8_def)
  then show ?thesis using driver_object_layout [of "builder_new 20" "[[], [1]]"]
    by (simp add: no_gap_def)
qed

section \<open>Headers of built messages\<close>

lemma parse_build:
  assumes "lh_size (mb_header b) = 24"
  shows "parse_message_header (build b) = Ok (mb_header b)"
  using assms
  by (simp add: parse_message_header_def build_def Let_def ipcz_sizes from_le_to_le numeral_eq_Suc)

lemma patched_build:
  "set_message_sequence_number (build b) s = Some (build (b\<lparr>mb_header := (mb_header b)\<lparr>lh_sequence := s\<rparr>\<rparr>))"
proof -
  have l: "length (build b) = 24 + length (mb_body b)" by (simp add: build_def Let_def)
  then show ?thesis by (simp add: set_message_sequence_number_def) (simp add: build_def Let_def)
qed

text \<open>Patching the sequence number of a built message changes nothing but that field of its header.\<close>
theorem sequence_number_patched:
  assumes "lh_size (mb_header b) = 24"
  shows "\<exists>p. set_message_sequence_number (build b) s = Some p \<and>
    parse_message_header p = Ok ((mb_header b)\<lparr>lh_sequence := s\<rparr>) \<and> drop 24 p = mb_body b"
proof -
  have "parse_message_header (build (b\<lparr>mb_header := (mb_header b)\<lparr>lh_sequence := s\<rparr>\<rparr>)) =
      Ok ((mb_header b)\<lparr>lh_sequence := s\<rparr>)"
    using parse_build [of "b\<lparr>mb_header := (mb_header b)\<lparr>lh_sequence := s\<rparr>\<rparr>"] assms by simp
  then show ?thesis using patched_build by (simp add: build_def Let_def)
qed

theorem sequence_number_patched_witness:
  "\<exists>p. set_message_sequence_number (build (builder_new 22)) 7 = Some p \<and>
    parse_message_header p = Ok ((mb_header (builder_new 22))\<lparr>lh_sequence := 7\<rparr>) \<and>
    drop 24 p = mb_body (builder_new 22)"
  by (rule sequence_number_patched) (simp add: builder_new_def ipcz_sizes)

end
