(* ===== verification/IpczMessages.thy ===== *)
theory IpczMessages
  imports IpczWire
begin

text \<open>
  The node messages: \<open>crates/mojo-rs-interop/src/ipcz/messages.rs\<close>.  The parameter structures as
  records, the decoder with every length and array check, and the encoders over the message
  builder.  A cursor carries what the closures of \<open>decode_message\<close> capture: the payload, its header,
  and the range of the parameter fields.  \<open>IpczCodec\<close> proves the round trips.
\<close>

section \<open>Data\<close>

record node_name =
  nn_high :: u64
  nn_low :: u64

definition node_name_is_valid :: "node_name \<Rightarrow> bool" where
  "node_name_is_valid n = (nn_high n \<noteq> 0 \<or> nn_low n \<noteq> 0)"

definition node_name_invalid :: node_name where
  "node_name_invalid = \<lparr>nn_high = 0, nn_low = 0\<rparr>"

record fragment =
  fr_buffer_id :: u64
  fr_offset :: u32
  fr_size :: u32

definition INVALID_BUFFER_ID :: u64 where "INVALID_BUFFER_ID = - 1"

definition fragment_default :: fragment where
  "fragment_default = \<lparr>fr_buffer_id = INVALID_BUFFER_ID, fr_offset = 0, fr_size = 0\<rparr>"

definition fragment_is_null :: "fragment \<Rightarrow> bool" where
  "fragment_is_null f = (fr_buffer_id f = INVALID_BUFFER_ID)"

record driver_object =
  dobj_data :: "byte list"
  dobj_first_fd :: nat
  dobj_num_fds :: nat

record connect_to_non_broker =
  cn_broker_name :: node_name
  cn_receiver_name :: node_name
  cn_protocol_version :: u32
  cn_num_initial_portals :: u32
  cn_buffer_index :: u32

record connect_to_broker =
  cb_protocol_version :: u32
  cb_num_initial_portals :: u32

record refer_non_broker =
  rn_referral_id :: u64
  rn_num_initial_portals :: u32
  rn_transport_index :: u32

record connect_to_referred_broker =
  crb_protocol_version :: u32
  crb_num_initial_portals :: u32

record connect_to_referred_non_broker =
  crn_name :: node_name
  crn_broker_name :: node_name
  crn_referrer_name :: node_name
  crn_broker_protocol_version :: u32
  crn_referrer_protocol_version :: u32
  crn_num_initial_portals :: u32
  crn_broker_link_buffer_index :: u32
  crn_referrer_link_transport_index :: u32
  crn_referrer_link_buffer_index :: u32
  crn_driver_objects :: "driver_object list"

record referral_accepted =
  ra_referral_id :: u64
  ra_protocol_version :: u32
  ra_num_initial_portals :: u32
  ra_name :: node_name
  ra_transport_index :: u32
  ra_buffer_index :: u32
  ra_driver_objects :: "driver_object list"

record connect_brokers =
  bb_name :: node_name
  bb_protocol_version :: u32
  bb_num_initial_portals :: u32
  bb_buffer_index :: u32

record accept_introduction =
  ai_name :: node_name
  ai_link_side :: u32
  ai_remote_node_type :: u32
  ai_remote_protocol_version :: u32
  ai_transport_index :: u32
  ai_memory_index :: u32
  ai_driver_objects :: "driver_object list"

record indirect_introduction =
  ii_source_node :: node_name
  ii_target_node :: node_name

record add_block_buffer =
  ab_buffer_id :: u64
  ab_block_size :: u32
  ab_buffer_index :: u32

record accept_parcel =
  ap_sublink :: u64
  ap_sequence_number :: u64
  ap_subparcel_index :: u32
  ap_num_subparcels :: u32
  ap_parcel_fragment :: fragment
  ap_parcel_data :: "byte list"
  ap_handle_types :: "u32 list"
  ap_new_routers :: "byte list"
  ap_driver_objects :: "driver_object list"

record parcel_objects =
  po_sublink :: u64
  po_sequence_number :: u64
  po_driver_objects :: "driver_object list"

record route_closed =
  rc_sublink :: u64
  rc_sequence_length :: u64

record bypass_peer_with_link =
  bl_sublink :: u64
  bl_new_sublink :: u64
  bl_new_link_state_fragment :: fragment
  bl_inbound_sequence_length :: u64

record bypass_peer =
  bp_sublink :: u64
  bp_target_node :: node_name
  bp_target_sublink :: u64

record accept_bypass_link =
  al_current_peer_node :: node_name
  al_current_peer_sublink :: u64
  al_inbound_sequence_length :: u64
  al_new_sublink :: u64
  al_new_link_state_fragment :: fragment

record stop_proxying =
  sp_sublink :: u64
  sp_inbound_sequence_length :: u64
  sp_outbound_sequence_length :: u64

record proxy_will_stop =
  pw_sublink :: u64
  pw_inbound_sequence_length :: u64

record stop_proxying_to_local_peer =
  sl_sublink :: u64
  sl_outbound_sequence_length :: u64

text \<open>Structures with a single field are the field.\<close>

datatype decoded_message =
    ConnectFromBrokerToNonBroker connect_to_non_broker
  | ConnectFromNonBrokerToBroker connect_to_broker
  | ReferNonBroker refer_non_broker
  | ConnectToReferredBroker connect_to_referred_broker
  | ConnectToReferredNonBroker connect_to_referred_non_broker
  | NonBrokerReferralAccepted referral_accepted
  | NonBrokerReferralRejected u64
  | ConnectFromBrokerToBroker connect_brokers
  | RequestIntroduction node_name
  | AcceptIntroduction accept_introduction
  | RejectIntroduction node_name
  | RequestIndirectIntroduction indirect_introduction
  | AddBlockBuffer add_block_buffer
  | AcceptParcel accept_parcel
  | AcceptParcelDriverObjects parcel_objects
  | RouteClosed route_closed
  | RouteDisconnected u64
  | BypassPeer bypass_peer
  | AcceptBypassLink accept_bypass_link
  | StopProxying stop_proxying
  | ProxyWillStop proxy_will_stop
  | BypassPeerWithLink bypass_peer_with_link
  | StopProxyingToLocalPeer stop_proxying_to_local_peer
  | FlushRouter u64
  | RequestMemory u32
  | ProvideMemory u32
  | Unknown byte

fun short_message_name :: "decoded_message \<Rightarrow> string" where
  "short_message_name (ConnectFromBrokerToNonBroker _) = ''Connect''"
| "short_message_name (ConnectFromNonBrokerToBroker _) = ''ConnectReply''"
| "short_message_name (ReferNonBroker _) = ''ReferNonBroker''"
| "short_message_name (ConnectToReferredBroker _) = ''ConnectToReferredBroker''"
| "short_message_name (ConnectToReferredNonBroker _) = ''ConnectToReferredNonBroker''"
| "short_message_name (NonBrokerReferralAccepted _) = ''NonBrokerReferralAccepted''"
| "short_message_name (NonBrokerReferralRejected _) = ''NonBrokerReferralRejected''"
| "short_message_name (ConnectFromBrokerToBroker _) = ''ConnectFromBrokerToBroker''"
| "short_message_name (RequestIntroduction _) = ''RequestIntroduction''"
| "short_message_name (AcceptIntroduction _) = ''AcceptIntroduction''"
| "short_message_name (RejectIntroduction _) = ''RejectIntroduction''"
| "short_message_name (RequestIndirectIntroduction _) = ''RequestIndirectIntroduction''"
| "short_message_name (AddBlockBuffer _) = ''AddBlockBuffer''"
| "short_message_name (AcceptParcel _) = ''AcceptParcel''"
| "short_message_name (AcceptParcelDriverObjects _) = ''AcceptParcelDriverObjects''"
| "short_message_name (RouteClosed _) = ''RouteClosed''"
| "short_message_name (RouteDisconnected _) = ''RouteDisconnected''"
| "short_message_name (BypassPeer _) = ''BypassPeer''"
| "short_message_name (AcceptBypassLink _) = ''AcceptBypassLink''"
| "short_message_name (StopProxying _) = ''StopProxying''"
| "short_message_name (ProxyWillStop _) = ''ProxyWillStop''"
| "short_message_name (BypassPeerWithLink _) = ''BypassPeerWithLink''"
| "short_message_name (StopProxyingToLocalPeer _) = ''StopProxyingToLocalPeer''"
| "short_message_name (FlushRouter _) = ''FlushRouter''"
| "short_message_name (RequestMemory _) = ''RequestMemory''"
| "short_message_name (ProvideMemory _) = ''ProvideMemory''"
| "short_message_name (Unknown _) = ''Unknown''"

section \<open>Message ids\<close>

definition MSG_ID_CONNECT_FROM_BROKER_TO_NON_BROKER :: byte where "MSG_ID_CONNECT_FROM_BROKER_TO_NON_BROKER = 0"
definition MSG_ID_CONNECT_FROM_NON_BROKER_TO_BROKER :: byte where "MSG_ID_CONNECT_FROM_NON_BROKER_TO_BROKER = 1"
definition MSG_ID_REFER_NON_BROKER :: byte where "MSG_ID_REFER_NON_BROKER = 2"
definition MSG_ID_CONNECT_TO_REFERRED_BROKER :: byte where "MSG_ID_CONNECT_TO_REFERRED_BROKER = 3"
definition MSG_ID_CONNECT_TO_REFERRED_NON_BROKER :: byte where "MSG_ID_CONNECT_TO_REFERRED_NON_BROKER = 4"
definition MSG_ID_NON_BROKER_REFERRAL_ACCEPTED :: byte where "MSG_ID_NON_BROKER_REFERRAL_ACCEPTED = 5"
definition MSG_ID_NON_BROKER_REFERRAL_REJECTED :: byte where "MSG_ID_NON_BROKER_REFERRAL_REJECTED = 6"
definition MSG_ID_CONNECT_FROM_BROKER_TO_BROKER :: byte where "MSG_ID_CONNECT_FROM_BROKER_TO_BROKER = 7"
definition MSG_ID_REQUEST_INTRODUCTION :: byte where "MSG_ID_REQUEST_INTRODUCTION = 10"
definition MSG_ID_ACCEPT_INTRODUCTION :: byte where "MSG_ID_ACCEPT_INTRODUCTION = 11"
definition MSG_ID_REJECT_INTRODUCTION :: byte where "MSG_ID_REJECT_INTRODUCTION = 12"
definition MSG_ID_REQUEST_INDIRECT_INTRODUCTION :: byte where "MSG_ID_REQUEST_INDIRECT_INTRODUCTION = 13"
definition MSG_ID_ADD_BLOCK_BUFFER :: byte where "MSG_ID_ADD_BLOCK_BUFFER = 14"
definition MSG_ID_ACCEPT_PARCEL :: byte where "MSG_ID_ACCEPT_PARCEL = 20"
definition MSG_ID_ACCEPT_PARCEL_DRIVER_OBJECTS :: byte where "MSG_ID_ACCEPT_PARCEL_DRIVER_OBJECTS = 21"
definition MSG_ID_ROUTE_CLOSED :: byte where "MSG_ID_ROUTE_CLOSED = 22"
definition MSG_ID_ROUTE_DISCONNECTED :: byte where "MSG_ID_ROUTE_DISCONNECTED = 23"
definition MSG_ID_BYPASS_PEER_WITH_LINK :: byte where "MSG_ID_BYPASS_PEER_WITH_LINK = 34"
definition MSG_ID_STOP_PROXYING_TO_LOCAL_PEER :: byte where "MSG_ID_STOP_PROXYING_TO_LOCAL_PEER = 35"
definition MSG_ID_FLUSH_ROUTER :: byte where "MSG_ID_FLUSH_ROUTER = 36"
definition MSG_ID_BYPASS_PEER :: byte where "MSG_ID_BYPASS_PEER = 30"
definition MSG_ID_ACCEPT_BYPASS_LINK :: byte where "MSG_ID_ACCEPT_BYPASS_LINK = 31"
definition MSG_ID_STOP_PROXYING :: byte where "MSG_ID_STOP_PROXYING = 32"
definition MSG_ID_PROXY_WILL_STOP :: byte where "MSG_ID_PROXY_WILL_STOP = 33"
definition MSG_ID_REQUEST_MEMORY :: byte where "MSG_ID_REQUEST_MEMORY = 64"
definition MSG_ID_PROVIDE_MEMORY :: byte where "MSG_ID_PROVIDE_MEMORY = 65"

lemmas msg_ids = MSG_ID_CONNECT_FROM_BROKER_TO_NON_BROKER_def MSG_ID_CONNECT_FROM_NON_BROKER_TO_BROKER_def MSG_ID_REFER_NON_BROKER_def MSG_ID_CONNECT_TO_REFERRED_BROKER_def MSG_ID_CONNECT_TO_REFERRED_NON_BROKER_def MSG_ID_NON_BROKER_REFERRAL_ACCEPTED_def MSG_ID_NON_BROKER_REFERRAL_REJECTED_def MSG_ID_CONNECT_FROM_BROKER_TO_BROKER_def MSG_ID_REQUEST_INTRODUCTION_def MSG_ID_ACCEPT_INTRODUCTION_def MSG_ID_REJECT_INTRODUCTION_def MSG_ID_REQUEST_INDIRECT_INTRODUCTION_def MSG_ID_ADD_BLOCK_BUFFER_def MSG_ID_ACCEPT_PARCEL_def MSG_ID_ACCEPT_PARCEL_DRIVER_OBJECTS_def MSG_ID_ROUTE_CLOSED_def MSG_ID_ROUTE_DISCONNECTED_def MSG_ID_BYPASS_PEER_WITH_LINK_def MSG_ID_STOP_PROXYING_TO_LOCAL_PEER_def MSG_ID_FLUSH_ROUTER_def MSG_ID_BYPASS_PEER_def MSG_ID_ACCEPT_BYPASS_LINK_def MSG_ID_STOP_PROXYING_def MSG_ID_PROXY_WILL_STOP_def MSG_ID_REQUEST_MEMORY_def MSG_ID_PROVIDE_MEMORY_def

definition message_id_name :: "byte \<Rightarrow> string" where
  "message_id_name i =
    (if i = MSG_ID_CONNECT_FROM_BROKER_TO_NON_BROKER then ''ConnectFromBrokerToNonBroker''
     else if i = MSG_ID_CONNECT_FROM_NON_BROKER_TO_BROKER then ''ConnectFromNonBrokerToBroker''
     else if i = MSG_ID_REFER_NON_BROKER then ''ReferNonBroker''
     else if i = MSG_ID_CONNECT_TO_REFERRED_BROKER then ''ConnectToReferredBroker''
     else if i = MSG_ID_CONNECT_TO_REFERRED_NON_BROKER then ''ConnectToReferredNonBroker''
     else if i = MSG_ID_NON_BROKER_REFERRAL_ACCEPTED then ''NonBrokerReferralAccepted''
     else if i = MSG_ID_NON_BROKER_REFERRAL_REJECTED then ''NonBrokerReferralRejected''
     else if i = MSG_ID_CONNECT_FROM_BROKER_TO_BROKER then ''ConnectFromBrokerToBroker''
     else if i = MSG_ID_REQUEST_INTRODUCTION then ''RequestIntroduction''
     else if i = MSG_ID_ACCEPT_INTRODUCTION then ''AcceptIntroduction''
     else if i = MSG_ID_REJECT_INTRODUCTION then ''RejectIntroduction''
     else if i = MSG_ID_REQUEST_INDIRECT_INTRODUCTION then ''RequestIndirectIntroduction''
     else if i = MSG_ID_ADD_BLOCK_BUFFER then ''AddBlockBuffer''
     else if i = MSG_ID_ACCEPT_PARCEL then ''AcceptParcel''
     else if i = MSG_ID_ACCEPT_PARCEL_DRIVER_OBJECTS then ''AcceptParcelDriverObjects''
     else if i = MSG_ID_ROUTE_CLOSED then ''RouteClosed''
     else if i = MSG_ID_ROUTE_DISCONNECTED then ''RouteDisconnected''
     else if i = MSG_ID_BYPASS_PEER then ''BypassPeer''
     else if i = MSG_ID_ACCEPT_BYPASS_LINK then ''AcceptBypassLink''
     else if i = MSG_ID_STOP_PROXYING then ''StopProxying''
     else if i = MSG_ID_PROXY_WILL_STOP then ''ProxyWillStop''
     else if i = MSG_ID_BYPASS_PEER_WITH_LINK then ''BypassPeerWithLink''
     else if i = MSG_ID_STOP_PROXYING_TO_LOCAL_PEER then ''StopProxyingToLocalPeer''
     else if i = MSG_ID_FLUSH_ROUTER then ''FlushRouter''
     else if i = MSG_ID_REQUEST_MEMORY then ''RequestMemory''
     else if i = MSG_ID_PROVIDE_MEMORY then ''ProvideMemory''
     else ''Unknown'')"

section \<open>Reading\<close>

definition le_u32 :: "byte list \<Rightarrow> u32 link_result" where
  "le_u32 b = (if length b = 4 then Ok (from_le b) else Err BadArray)"

definition le_u64 :: "byte list \<Rightarrow> u64 link_result" where
  "le_u64 b = (if length b = 8 then Ok (from_le b) else Err BadArray)"

definition le_u16 :: "byte list \<Rightarrow> u16 link_result" where
  "le_u16 b = (if length b = 2 then Ok (from_le b) else Err BadArray)"

text \<open>The whole chunks of \<open>n\<close> elements of a list; a shorter rest is dropped.\<close>

definition chunks_exact :: "nat \<Rightarrow> 'a list \<Rightarrow> 'a list list" where
  "chunks_exact n xs = map (\<lambda>i. take n (drop (i * n) xs)) [0..<length xs div n]"

fun collect :: "('e, 'a) outcome list \<Rightarrow> ('e, 'a list) outcome" where
  "collect [] = Ok []"
| "collect (m # ms) = obind m (\<lambda>a. obind (collect ms) (\<lambda>as. Ok (a # as)))"

definition read_array :: "byte list \<Rightarrow> u32 \<Rightarrow> nat \<Rightarrow> byte list link_result" where
  "read_array payload off element_size =
     (if off = 0 then Ok []
      else
      let start = unat off in
      if length payload < start then Err BadArrayOffset
      else
      let arr = drop start payload in
      if length arr < 8 then Err BadArray
      else
      obind (obind (from_option (slice arr 0 4)) le_u32) (\<lambda>num_bytes.
      obind (obind (from_option (slice arr 4 8)) le_u32) (\<lambda>num_elements.
      if unat num_bytes < 8 \<or> unat num_bytes mod 8 \<noteq> 0 \<or> unat num_bytes > length arr then Err BadArray
      else
      let data_len = unat num_bytes - 8; want = unat num_elements * element_size in
      if usize_limit \<le> want then Err BadArray
      else if want > data_len then Err BadArray
      else from_option (slice arr 8 (8 + want)))))"

fun read_objects :: "byte list \<Rightarrow> nat \<Rightarrow> nat \<Rightarrow> byte list list \<Rightarrow> driver_object list link_result" where
  "read_objects payload num_fds next_fd [] = (if next_fd \<noteq> num_fds then Err BadDriverObjects else Ok [])"
| "read_objects payload num_fds next_fd (chunk # rest) =
     obind (obind (from_option (slice chunk 0 4)) le_u32) (\<lambda>driver_data_array.
     obind (obind (from_option (slice chunk 4 6)) le_u16) (\<lambda>first16.
     obind (obind (from_option (slice chunk 6 8)) le_u16) (\<lambda>num16.
     let first = unat first16; num = unat num16 in
     if first \<noteq> next_fd then Err BadDriverObjects
     else if first + num > num_fds then Err BadDriverObjects
     else
     obind (read_array payload driver_data_array 1) (\<lambda>obj_data.
     obind (read_objects payload num_fds (first + num) rest) (\<lambda>objects.
     Ok (\<lparr>dobj_data = obj_data, dobj_first_fd = first, dobj_num_fds = num\<rparr> # objects))))))"

definition read_driver_objects :: "byte list \<Rightarrow> link_header \<Rightarrow> nat \<Rightarrow> driver_object list link_result" where
  "read_driver_objects payload hdr num_fds =
     (let doa = lh_driver_objects hdr in
      if doa = 0 then Ok []
      else
      obind (read_array payload doa 8) (\<lambda>data.
      if length data mod 8 \<noteq> 0 then Err BadDriverObjects
      else read_objects payload num_fds 0 (chunks_exact 8 data)))"

section \<open>Router descriptors\<close>

record router_descriptor =
  rd_closed_peer_sequence_length :: u64
  rd_new_sublink :: u64
  rd_new_link_state_fragment :: fragment
  rd_new_decaying_sublink :: u64
  rd_next_outgoing_sequence_number :: u64
  rd_next_incoming_sequence_number :: u64
  rd_decaying_incoming_sequence_length :: u64
  rd_peer_closed :: bool
  rd_proxy_already_bypassed :: bool
  rd_proxy_peer_node_name :: node_name
  rd_proxy_peer_sublink :: u64

definition ROUTER_DESCRIPTOR_SIZE :: nat where "ROUTER_DESCRIPTOR_SIZE = 96"

definition u64_slice :: "byte list \<Rightarrow> nat \<Rightarrow> u64 link_result" where
  "u64_slice b off = obind (from_option (slice b off (off + 8))) le_u64"

definition u32_slice :: "byte list \<Rightarrow> nat \<Rightarrow> u32 link_result" where
  "u32_slice b off = obind (from_option (slice b off (off + 4))) le_u32"

definition router_descriptor_decode :: "byte list \<Rightarrow> router_descriptor link_result" where
  "router_descriptor_decode b =
     (if length b \<noteq> ROUTER_DESCRIPTOR_SIZE then Err BadArray
      else
      obind (u64_slice b 0) (\<lambda>closed_peer_sequence_length.
      obind (u64_slice b 8) (\<lambda>new_sublink.
      obind (u64_slice b 16) (\<lambda>buffer_id.
      obind (u32_slice b 24) (\<lambda>offset.
      obind (u32_slice b 28) (\<lambda>size.
      obind (u64_slice b 32) (\<lambda>new_decaying_sublink.
      obind (u64_slice b 40) (\<lambda>next_outgoing.
      obind (u64_slice b 48) (\<lambda>next_incoming.
      obind (u64_slice b 56) (\<lambda>decaying_incoming.
      obind (from_option (word_at 1 b 64)) (\<lambda>flags :: byte.
      obind (u64_slice b 72) (\<lambda>high.
      obind (u64_slice b 80) (\<lambda>low.
      obind (u64_slice b 88) (\<lambda>proxy_peer_sublink.
      Ok \<lparr>rd_closed_peer_sequence_length = closed_peer_sequence_length, rd_new_sublink = new_sublink,
          rd_new_link_state_fragment = \<lparr>fr_buffer_id = buffer_id, fr_offset = offset, fr_size = size\<rparr>,
          rd_new_decaying_sublink = new_decaying_sublink,
          rd_next_outgoing_sequence_number = next_outgoing,
          rd_next_incoming_sequence_number = next_incoming,
          rd_decaying_incoming_sequence_length = decaying_incoming,
          rd_peer_closed = (flags AND 1 \<noteq> 0), rd_proxy_already_bypassed = (flags AND 2 \<noteq> 0),
          rd_proxy_peer_node_name = \<lparr>nn_high = high, nn_low = low\<rparr>,
          rd_proxy_peer_sublink = proxy_peer_sublink\<rparr>))))))))))))))"

definition fragment_bytes :: "fragment \<Rightarrow> byte list" where
  "fragment_bytes f = to_le 8 (fr_buffer_id f) @ to_le 4 (fr_offset f) @ to_le 4 (fr_size f)"

definition node_bytes :: "node_name \<Rightarrow> byte list" where
  "node_bytes n = to_le 8 (nn_high n) @ to_le 8 (nn_low n)"

definition router_descriptor_encode :: "router_descriptor \<Rightarrow> byte list option" where
  "router_descriptor_encode r = do {
     let flags = ((if rd_peer_closed r then 1 else 0) OR (if rd_proxy_already_bypassed r then 2 else 0) :: byte);
     let b = to_le 8 (rd_closed_peer_sequence_length r) @ to_le 8 (rd_new_sublink r) @
       fragment_bytes (rd_new_link_state_fragment r) @ to_le 8 (rd_new_decaying_sublink r) @
       to_le 8 (rd_next_outgoing_sequence_number r) @ to_le 8 (rd_next_incoming_sequence_number r) @
       to_le 8 (rd_decaying_incoming_sequence_length r) @ [flags] @ replicate 7 0 @
       node_bytes (rd_proxy_peer_node_name r) @ to_le 8 (rd_proxy_peer_sublink r);
     _ \<leftarrow> debug_assert (length b = ROUTER_DESCRIPTOR_SIZE);
     Some b }"

section \<open>Decoding\<close>

text \<open>What the closures of the decoder capture.\<close>

record cursor =
  cu_payload :: "byte list"
  cu_header :: link_header
  cu_fields :: nat
  cu_end :: nat
  cu_num_fds :: nat

definition f_u32 :: "cursor \<Rightarrow> nat \<Rightarrow> u32 link_result" where
  "f_u32 c off =
     (case checked_add (cu_fields c) off of
        None \<Rightarrow> Err BadParamsSize
      | Some s \<Rightarrow>
        (case checked_add s 4 of
           None \<Rightarrow> Err BadParamsSize
         | Some e \<Rightarrow> if e > cu_end c then Err ShortParams
                     else obind (from_option (slice (cu_payload c) s e)) le_u32))"

definition f_u64 :: "cursor \<Rightarrow> nat \<Rightarrow> u64 link_result" where
  "f_u64 c off =
     (case checked_add (cu_fields c) off of
        None \<Rightarrow> Err BadParamsSize
      | Some s \<Rightarrow>
        (case checked_add s 8 of
           None \<Rightarrow> Err BadParamsSize
         | Some e \<Rightarrow> if e > cu_end c then Err ShortParams
                     else obind (from_option (slice (cu_payload c) s e)) le_u64))"

definition f_node :: "cursor \<Rightarrow> nat \<Rightarrow> node_name link_result" where
  "f_node c off =
     obind (f_u64 c off) (\<lambda>high. obind (f_u64 c (off + 8)) (\<lambda>low. Ok \<lparr>nn_high = high, nn_low = low\<rparr>))"

definition f_frag :: "cursor \<Rightarrow> nat \<Rightarrow> fragment link_result" where
  "f_frag c off =
     obind (f_u64 c off) (\<lambda>buffer_id. obind (f_u32 c (off + 8)) (\<lambda>offset. obind (f_u32 c (off + 12)) (\<lambda>size.
     Ok \<lparr>fr_buffer_id = buffer_id, fr_offset = offset, fr_size = size\<rparr>)))"

text \<open>The length guard every message starts with, and the driver objects of the message.\<close>

definition need :: "cursor \<Rightarrow> nat \<Rightarrow> 'a link_result \<Rightarrow> 'a link_result" where
  "need c n k = (if cu_end c < cu_fields c + n then Err ShortParams else k)"

definition c_objects :: "cursor \<Rightarrow> driver_object list link_result" where
  "c_objects c = read_driver_objects (cu_payload c) (cu_header c) (cu_num_fds c)"

definition with_objects_check :: "decoded_message \<Rightarrow> bool \<Rightarrow> decoded_message" where
  "with_objects_check m ok = (if \<not> ok then Unknown MSG_ID_ADD_BLOCK_BUFFER else m)"

text \<open>The only object of a message and its first descriptor.\<close>

definition sole_object :: "driver_object list \<Rightarrow> bool" where
  "sole_object objects = (case objects of [obj] \<Rightarrow> dobj_first_fd obj = 0 | _ \<Rightarrow> False)"

definition decode_connect_to_non_broker :: "cursor \<Rightarrow> decoded_message link_result" where
  "decode_connect_to_non_broker c = need c 48 (
     obind (c_objects c) (\<lambda>objects.
     obind (f_u32 c 40) (\<lambda>buffer_index.
     if \<not> sole_object objects then Err BadDriverObjects else
     obind (f_node c 0) (\<lambda>broker_name.
     obind (f_node c 16) (\<lambda>receiver_name.
     obind (f_u32 c 32) (\<lambda>protocol_version.
     obind (f_u32 c 36) (\<lambda>num_initial_portals.
     Ok (ConnectFromBrokerToNonBroker \<lparr>cn_broker_name = broker_name, cn_receiver_name = receiver_name,
       cn_protocol_version = protocol_version, cn_num_initial_portals = num_initial_portals,
       cn_buffer_index = buffer_index\<rparr>))))))))"

definition decode_connect_to_broker :: "cursor \<Rightarrow> decoded_message link_result" where
  "decode_connect_to_broker c = need c 8 (
     obind (f_u32 c 0) (\<lambda>protocol_version.
     obind (f_u32 c 4) (\<lambda>num_initial_portals.
     Ok (ConnectFromNonBrokerToBroker \<lparr>cb_protocol_version = protocol_version, cb_num_initial_portals = num_initial_portals\<rparr>))))"

definition decode_refer_non_broker :: "cursor \<Rightarrow> decoded_message link_result" where
  "decode_refer_non_broker c = need c 16 (
     obind (c_objects c) (\<lambda>objects.
     obind (f_u64 c 0) (\<lambda>referral_id.
     obind (f_u32 c 8) (\<lambda>num_initial_portals.
     obind (f_u32 c 12) (\<lambda>transport_index.
     Ok (with_objects_check (ReferNonBroker \<lparr>rn_referral_id = referral_id, rn_num_initial_portals = num_initial_portals, rn_transport_index = transport_index\<rparr>) (length objects = 1)))))))"

definition decode_connect_to_referred_broker :: "cursor \<Rightarrow> decoded_message link_result" where
  "decode_connect_to_referred_broker c = need c 8 (
     obind (f_u32 c 0) (\<lambda>protocol_version.
     obind (f_u32 c 4) (\<lambda>num_initial_portals.
     Ok (ConnectToReferredBroker \<lparr>crb_protocol_version = protocol_version, crb_num_initial_portals = num_initial_portals\<rparr>))))"

definition decode_connect_to_referred_non_broker :: "cursor \<Rightarrow> decoded_message link_result" where
  "decode_connect_to_referred_non_broker c = need c 72 (
     obind (c_objects c) (\<lambda>objects.
     obind (f_node c 0) (\<lambda>name.
     obind (f_node c 16) (\<lambda>broker_name.
     obind (f_node c 32) (\<lambda>referrer_name.
     obind (f_u32 c 48) (\<lambda>broker_protocol_version.
     obind (f_u32 c 52) (\<lambda>referrer_protocol_version.
     obind (f_u32 c 56) (\<lambda>num_initial_portals.
     obind (f_u32 c 60) (\<lambda>broker_link_buffer_index.
     obind (f_u32 c 64) (\<lambda>referrer_link_transport_index.
     obind (f_u32 c 68) (\<lambda>referrer_link_buffer_index.
     Ok (ConnectToReferredNonBroker \<lparr>crn_name = name, crn_broker_name = broker_name, crn_referrer_name = referrer_name, crn_broker_protocol_version = broker_protocol_version, crn_referrer_protocol_version = referrer_protocol_version, crn_num_initial_portals = num_initial_portals, crn_broker_link_buffer_index = broker_link_buffer_index, crn_referrer_link_transport_index = referrer_link_transport_index, crn_referrer_link_buffer_index = referrer_link_buffer_index, crn_driver_objects = objects\<rparr>))))))))))))"

definition decode_referral_accepted :: "cursor \<Rightarrow> decoded_message link_result" where
  "decode_referral_accepted c = need c 40 (
     obind (c_objects c) (\<lambda>objects.
     obind (f_u64 c 0) (\<lambda>referral_id.
     obind (f_u32 c 8) (\<lambda>protocol_version.
     obind (f_u32 c 12) (\<lambda>num_initial_portals.
     obind (f_node c 16) (\<lambda>name.
     obind (f_u32 c 32) (\<lambda>transport_index.
     obind (f_u32 c 36) (\<lambda>buffer_index.
     Ok (NonBrokerReferralAccepted \<lparr>ra_referral_id = referral_id, ra_protocol_version = protocol_version, ra_num_initial_portals = num_initial_portals, ra_name = name, ra_transport_index = transport_index, ra_buffer_index = buffer_index, ra_driver_objects = objects\<rparr>)))))))))"

definition decode_referral_rejected :: "cursor \<Rightarrow> decoded_message link_result" where
  "decode_referral_rejected c = need c 8 (
     obind (f_u64 c 0) (\<lambda>referral_id.
     Ok (NonBrokerReferralRejected referral_id)))"

definition decode_connect_brokers :: "cursor \<Rightarrow> decoded_message link_result" where
  "decode_connect_brokers c = need c 32 (
     obind (c_objects c) (\<lambda>objects.
     obind (f_node c 0) (\<lambda>name.
     obind (f_u32 c 16) (\<lambda>protocol_version.
     obind (f_u32 c 20) (\<lambda>num_initial_portals.
     obind (f_u32 c 24) (\<lambda>buffer_index.
     Ok (with_objects_check (ConnectFromBrokerToBroker \<lparr>bb_name = name, bb_protocol_version = protocol_version, bb_num_initial_portals = num_initial_portals, bb_buffer_index = buffer_index\<rparr>) (length objects = 1))))))))"

definition decode_request_introduction :: "cursor \<Rightarrow> decoded_message link_result" where
  "decode_request_introduction c = need c 16 (
     obind (f_node c 0) (\<lambda>name.
     Ok (RequestIntroduction name)))"

definition decode_accept_introduction :: "cursor \<Rightarrow> decoded_message link_result" where
  "decode_accept_introduction c = need c 32 (
     obind (c_objects c) (\<lambda>objects.
     obind (f_u32 c 16) (\<lambda>side_type.
     obind (f_node c 0) (\<lambda>name.
     obind (f_u32 c 20) (\<lambda>remote_protocol_version.
     obind (f_u32 c 24) (\<lambda>transport_index.
     obind (f_u32 c 28) (\<lambda>memory_index.
     Ok (AcceptIntroduction \<lparr>ai_name = name, ai_link_side = side_type AND 0xff,
       ai_remote_node_type = drop_bit 8 side_type AND 0xff,
       ai_remote_protocol_version = remote_protocol_version, ai_transport_index = transport_index,
       ai_memory_index = memory_index, ai_driver_objects = objects\<rparr>))))))))"

definition decode_reject_introduction :: "cursor \<Rightarrow> decoded_message link_result" where
  "decode_reject_introduction c = need c 16 (
     obind (f_node c 0) (\<lambda>name.
     Ok (RejectIntroduction name)))"

definition decode_indirect_introduction :: "cursor \<Rightarrow> decoded_message link_result" where
  "decode_indirect_introduction c = need c 32 (
     obind (f_node c 0) (\<lambda>source_node.
     obind (f_node c 16) (\<lambda>target_node.
     Ok (RequestIndirectIntroduction \<lparr>ii_source_node = source_node, ii_target_node = target_node\<rparr>))))"

definition decode_add_block_buffer :: "cursor \<Rightarrow> decoded_message link_result" where
  "decode_add_block_buffer c = need c 16 (
     obind (c_objects c) (\<lambda>objects.
     obind (f_u64 c 0) (\<lambda>buffer_id.
     obind (f_u32 c 8) (\<lambda>block_size.
     obind (f_u32 c 12) (\<lambda>buffer_index.
     Ok (with_objects_check (AddBlockBuffer \<lparr>ab_buffer_id = buffer_id, ab_block_size = block_size, ab_buffer_index = buffer_index\<rparr>) (length objects = 1)))))))"

definition decode_accept_parcel :: "cursor \<Rightarrow> decoded_message link_result" where
  "decode_accept_parcel c = need c 64 (
     obind (f_u64 c 0) (\<lambda>sublink.
     obind (f_u64 c 8) (\<lambda>sequence_number.
     obind (f_u32 c 16) (\<lambda>subparcel_index.
     obind (f_u32 c 20) (\<lambda>num_subparcels.
     obind (f_frag c 24) (\<lambda>parcel_fragment.
     obind (f_u32 c 40) (\<lambda>parcel_data_off.
     obind (f_u32 c 44) (\<lambda>handle_types_off.
     obind (f_u32 c 48) (\<lambda>new_routers_off.
     obind (c_objects c) (\<lambda>objects.
     obind (read_array (cu_payload c) parcel_data_off 1) (\<lambda>parcel_data.
     obind (read_array (cu_payload c) handle_types_off 4) (\<lambda>handle_bytes.
     obind (collect (map le_u32 (chunks_exact 4 handle_bytes))) (\<lambda>handle_types.
     obind (read_array (cu_payload c) new_routers_off 96) (\<lambda>new_routers.
     Ok (AcceptParcel \<lparr>ap_sublink = sublink, ap_sequence_number = sequence_number,
       ap_subparcel_index = subparcel_index, ap_num_subparcels = num_subparcels,
       ap_parcel_fragment = parcel_fragment, ap_parcel_data = parcel_data, ap_handle_types = handle_types,
       ap_new_routers = new_routers, ap_driver_objects = objects\<rparr>)))))))))))))))"

definition decode_parcel_objects :: "cursor \<Rightarrow> decoded_message link_result" where
  "decode_parcel_objects c = need c 16 (
     obind (f_u64 c 0) (\<lambda>sublink.
     obind (f_u64 c 8) (\<lambda>sequence_number.
     obind (c_objects c) (\<lambda>objects.
     Ok (AcceptParcelDriverObjects \<lparr>po_sublink = sublink, po_sequence_number = sequence_number,
       po_driver_objects = objects\<rparr>)))))"

definition decode_route_closed :: "cursor \<Rightarrow> decoded_message link_result" where
  "decode_route_closed c = need c 16 (
     obind (f_u64 c 0) (\<lambda>sublink.
     obind (f_u64 c 8) (\<lambda>sequence_length.
     Ok (RouteClosed \<lparr>rc_sublink = sublink, rc_sequence_length = sequence_length\<rparr>))))"

definition decode_route_disconnected :: "cursor \<Rightarrow> decoded_message link_result" where
  "decode_route_disconnected c = need c 8 (
     obind (f_u64 c 0) (\<lambda>sublink.
     Ok (RouteDisconnected sublink)))"

definition decode_bypass_peer_with_link :: "cursor \<Rightarrow> decoded_message link_result" where
  "decode_bypass_peer_with_link c = need c 40 (
     obind (f_u64 c 0) (\<lambda>sublink.
     obind (f_u64 c 8) (\<lambda>new_sublink.
     obind (f_frag c 16) (\<lambda>new_link_state_fragment.
     obind (f_u64 c 32) (\<lambda>inbound_sequence_length.
     Ok (BypassPeerWithLink \<lparr>bl_sublink = sublink, bl_new_sublink = new_sublink, bl_new_link_state_fragment = new_link_state_fragment, bl_inbound_sequence_length = inbound_sequence_length\<rparr>))))))"

definition decode_bypass_peer :: "cursor \<Rightarrow> decoded_message link_result" where
  "decode_bypass_peer c = need c 32 (
     obind (f_u64 c 0) (\<lambda>sublink.
     obind (f_node c 16) (\<lambda>target_node.
     obind (f_u64 c 24) (\<lambda>target_sublink.
     Ok (BypassPeer \<lparr>bp_sublink = sublink, bp_target_node = target_node, bp_target_sublink = target_sublink\<rparr>)))))"

definition decode_accept_bypass_link :: "cursor \<Rightarrow> decoded_message link_result" where
  "decode_accept_bypass_link c = need c 48 (
     obind (f_node c 0) (\<lambda>current_peer_node.
     obind (f_u64 c 16) (\<lambda>current_peer_sublink.
     obind (f_u64 c 24) (\<lambda>inbound_sequence_length.
     obind (f_u64 c 32) (\<lambda>new_sublink.
     obind (f_frag c 40) (\<lambda>new_link_state_fragment.
     Ok (AcceptBypassLink \<lparr>al_current_peer_node = current_peer_node, al_current_peer_sublink = current_peer_sublink, al_inbound_sequence_length = inbound_sequence_length, al_new_sublink = new_sublink, al_new_link_state_fragment = new_link_state_fragment\<rparr>)))))))"

definition decode_stop_proxying :: "cursor \<Rightarrow> decoded_message link_result" where
  "decode_stop_proxying c = need c 24 (
     obind (f_u64 c 0) (\<lambda>sublink.
     obind (f_u64 c 8) (\<lambda>inbound_sequence_length.
     obind (f_u64 c 16) (\<lambda>outbound_sequence_length.
     Ok (StopProxying \<lparr>sp_sublink = sublink, sp_inbound_sequence_length = inbound_sequence_length, sp_outbound_sequence_length = outbound_sequence_length\<rparr>)))))"

definition decode_proxy_will_stop :: "cursor \<Rightarrow> decoded_message link_result" where
  "decode_proxy_will_stop c = need c 16 (
     obind (f_u64 c 0) (\<lambda>sublink.
     obind (f_u64 c 8) (\<lambda>inbound_sequence_length.
     Ok (ProxyWillStop \<lparr>pw_sublink = sublink, pw_inbound_sequence_length = inbound_sequence_length\<rparr>))))"

definition decode_stop_proxying_to_local_peer :: "cursor \<Rightarrow> decoded_message link_result" where
  "decode_stop_proxying_to_local_peer c = need c 16 (
     obind (f_u64 c 0) (\<lambda>sublink.
     obind (f_u64 c 8) (\<lambda>outbound_sequence_length.
     Ok (StopProxyingToLocalPeer \<lparr>sl_sublink = sublink, sl_outbound_sequence_length = outbound_sequence_length\<rparr>))))"

definition decode_flush_router :: "cursor \<Rightarrow> decoded_message link_result" where
  "decode_flush_router c = need c 8 (
     obind (f_u64 c 0) (\<lambda>sublink.
     Ok (FlushRouter sublink)))"

definition decode_request_memory :: "cursor \<Rightarrow> decoded_message link_result" where
  "decode_request_memory c = need c 8 (
     obind (f_u32 c 0) (\<lambda>size.
     Ok (RequestMemory size)))"

definition decode_provide_memory :: "cursor \<Rightarrow> decoded_message link_result" where
  "decode_provide_memory c = need c 8 (
     obind (c_objects c) (\<lambda>objects.
     obind (f_u32 c 4) (\<lambda>buffer.
     if buffer \<noteq> 0 \<or> \<not> sole_object objects then Err BadDriverObjects else
     obind (f_u32 c 0) (\<lambda>size.
     Ok (ProvideMemory size)))))"

definition dispatch :: "cursor \<Rightarrow> decoded_message link_result" where
  "dispatch c = (let i = lh_message_id (cu_header c) in
     if i = MSG_ID_CONNECT_FROM_BROKER_TO_NON_BROKER then decode_connect_to_non_broker c
     else if i = MSG_ID_CONNECT_FROM_NON_BROKER_TO_BROKER then decode_connect_to_broker c
     else if i = MSG_ID_REFER_NON_BROKER then decode_refer_non_broker c
     else if i = MSG_ID_CONNECT_TO_REFERRED_BROKER then decode_connect_to_referred_broker c
     else if i = MSG_ID_CONNECT_TO_REFERRED_NON_BROKER then decode_connect_to_referred_non_broker c
     else if i = MSG_ID_NON_BROKER_REFERRAL_ACCEPTED then decode_referral_accepted c
     else if i = MSG_ID_NON_BROKER_REFERRAL_REJECTED then decode_referral_rejected c
     else if i = MSG_ID_CONNECT_FROM_BROKER_TO_BROKER then decode_connect_brokers c
     else if i = MSG_ID_REQUEST_INTRODUCTION then decode_request_introduction c
     else if i = MSG_ID_ACCEPT_INTRODUCTION then decode_accept_introduction c
     else if i = MSG_ID_REJECT_INTRODUCTION then decode_reject_introduction c
     else if i = MSG_ID_REQUEST_INDIRECT_INTRODUCTION then decode_indirect_introduction c
     else if i = MSG_ID_ADD_BLOCK_BUFFER then decode_add_block_buffer c
     else if i = MSG_ID_ACCEPT_PARCEL then decode_accept_parcel c
     else if i = MSG_ID_ACCEPT_PARCEL_DRIVER_OBJECTS then decode_parcel_objects c
     else if i = MSG_ID_ROUTE_CLOSED then decode_route_closed c
     else if i = MSG_ID_ROUTE_DISCONNECTED then decode_route_disconnected c
     else if i = MSG_ID_BYPASS_PEER_WITH_LINK then decode_bypass_peer_with_link c
     else if i = MSG_ID_BYPASS_PEER then decode_bypass_peer c
     else if i = MSG_ID_ACCEPT_BYPASS_LINK then decode_accept_bypass_link c
     else if i = MSG_ID_STOP_PROXYING then decode_stop_proxying c
     else if i = MSG_ID_PROXY_WILL_STOP then decode_proxy_will_stop c
     else if i = MSG_ID_STOP_PROXYING_TO_LOCAL_PEER then decode_stop_proxying_to_local_peer c
     else if i = MSG_ID_FLUSH_ROUTER then decode_flush_router c
     else if i = MSG_ID_REQUEST_MEMORY then decode_request_memory c
     else if i = MSG_ID_PROVIDE_MEMORY then decode_provide_memory c
     else Ok (Unknown i))"

definition decode_message :: "byte list \<Rightarrow> nat \<Rightarrow> decoded_message link_result" where
  "decode_message payload num_fds =
     obind (parse_message_header payload) (\<lambda>hdr.
     let po = unat (lh_size hdr) in
     if length payload < po then Err ShortParams
     else
     let params = drop po payload in
     if length params < 8 then Err ShortParams
     else
     obind (obind (from_option (slice params 0 4)) le_u32) (\<lambda>size.
     let params_size = unat size in
     if params_size < 8 \<or> params_size > length params then Err BadParamsSize
     else
     let fields = po + 8; fields_end = fields + params_size - 8 in
     dispatch \<lparr>cu_payload = payload, cu_header = hdr, cu_fields = fields, cu_end = fields_end,
               cu_num_fds = num_fds\<rparr>))"

lemmas decoders = decode_connect_to_non_broker_def decode_connect_to_broker_def decode_refer_non_broker_def decode_connect_to_referred_broker_def decode_connect_to_referred_non_broker_def decode_referral_accepted_def decode_referral_rejected_def decode_connect_brokers_def decode_request_introduction_def decode_accept_introduction_def decode_reject_introduction_def decode_indirect_introduction_def decode_add_block_buffer_def decode_accept_parcel_def decode_parcel_objects_def decode_route_closed_def decode_route_disconnected_def decode_bypass_peer_with_link_def decode_bypass_peer_def decode_accept_bypass_link_def decode_stop_proxying_def decode_proxy_will_stop_def decode_stop_proxying_to_local_peer_def decode_flush_router_def decode_request_memory_def decode_provide_memory_def

section \<open>Encoding\<close>

text \<open>A message of parameters only, and one with driver objects.\<close>

definition simple_message :: "byte \<Rightarrow> byte list \<Rightarrow> byte list option" where
  "simple_message i params = do {
     b \<leftarrow> append_params (builder_new i) params;
     Some (build b) }"

definition message_with_objects :: "byte \<Rightarrow> byte list \<Rightarrow> byte list list \<Rightarrow> byte list option" where
  "message_with_objects i params objects = do {
     b \<leftarrow> append_params (builder_new i) params;
     b \<leftarrow> append_driver_objects b objects;
     Some (build b) }"

text \<open>A greeting with the offset of the features array in its version 1 field.\<close>

definition message_with_features :: "byte \<Rightarrow> u32 \<Rightarrow> u64 \<Rightarrow> byte list option" where
  "message_with_features i num_initial_portals features = do {
     params_size \<leftarrow> align8 (8 + 12);
     features_off \<leftarrow> align8 (IPCZ_MESSAGE_HEADER_SIZE + params_size);
     b \<leftarrow> append_params (builder_new i)
       (to_le 4 (0 :: u32) @ to_le 4 num_initial_portals @ to_le 4 (of_nat features_off :: u32));
     (_, b) \<leftarrow> append_array b (to_le 8 features) 1;
     Some (build b) }"

definition encode_connect_from_non_broker_to_broker :: "u32 \<Rightarrow> u64 \<Rightarrow> byte list option" where
  "encode_connect_from_non_broker_to_broker = message_with_features MSG_ID_CONNECT_FROM_NON_BROKER_TO_BROKER"

definition encode_connect_to_referred_broker :: "u32 \<Rightarrow> u64 \<Rightarrow> byte list option" where
  "encode_connect_to_referred_broker = message_with_features MSG_ID_CONNECT_TO_REFERRED_BROKER"

definition MOJO_OBJECT_TYPE_TRANSPORT :: u32 where "MOJO_OBJECT_TYPE_TRANSPORT = 0"
definition MOJO_OBJECT_TYPE_SHARED_BUFFER :: u32 where "MOJO_OBJECT_TYPE_SHARED_BUFFER = 1"
definition MOJO_BUFFER_MODE_UNSAFE :: u32 where "MOJO_BUFFER_MODE_UNSAFE = 2"

definition encode_transport_object :: "u32 \<Rightarrow> byte list" where
  "encode_transport_object destination_type =
     to_le 4 (8 :: u32) @ to_le 4 MOJO_OBJECT_TYPE_TRANSPORT @ to_le 4 destination_type @ replicate 4 0"

definition encode_shared_buffer_object :: "u32 \<Rightarrow> u64 \<Rightarrow> byte list" where
  "encode_shared_buffer_object buffer_size seed =
     to_le 4 (8 :: u32) @ to_le 4 MOJO_OBJECT_TYPE_SHARED_BUFFER @ to_le 4 (32 :: u32) @
     to_le 4 buffer_size @ to_le 4 MOJO_BUFFER_MODE_UNSAFE @ to_le 4 (0 :: u32) @
     to_le 8 (seed * 0x9e3779b97f4a7c15) @ to_le 8 (seed * 0xbf58476d1ce4e5b9)"

definition encode_refer_non_broker :: "u64 \<Rightarrow> u32 \<Rightarrow> byte list \<Rightarrow> byte list option" where
  "encode_refer_non_broker referral_id num_initial_portals transport_object =
     message_with_objects MSG_ID_REFER_NON_BROKER
       (to_le 8 referral_id @ to_le 4 num_initial_portals @ to_le 4 (0 :: u32)) [transport_object]"

definition encode_request_introduction :: "node_name \<Rightarrow> byte list option" where
  "encode_request_introduction name = simple_message MSG_ID_REQUEST_INTRODUCTION (node_bytes name)"

definition encode_accept_introduction ::
  "node_name \<Rightarrow> byte \<Rightarrow> byte \<Rightarrow> u32 \<Rightarrow> byte list \<Rightarrow> byte list \<Rightarrow> byte list option" where
  "encode_accept_introduction name link_side remote_node_type remote_protocol_version
       transport_object memory_object = do {
     let params = node_bytes name @ [link_side] @ [remote_node_type] @ replicate 2 0 @
       to_le 4 remote_protocol_version @ to_le 4 (0 :: u32) @ to_le 4 (1 :: u32) @ to_le 4 (0 :: u32);
     size \<leftarrow> align8 (8 + length params);
     v1 \<leftarrow> usub (length params) 4;
     params \<leftarrow> copy_into params v1 (v1 + 4) (to_le 4 (of_nat (IPCZ_MESSAGE_HEADER_SIZE + size) :: u32));
     b \<leftarrow> append_params (builder_new MSG_ID_ACCEPT_INTRODUCTION) params;
     (_, b) \<leftarrow> append_array b (to_le 8 (0 :: u64)) 1;
     b \<leftarrow> append_driver_objects b [transport_object, memory_object];
     Some (build b) }"

definition encode_reject_introduction :: "node_name \<Rightarrow> byte list option" where
  "encode_reject_introduction name = simple_message MSG_ID_REJECT_INTRODUCTION (node_bytes name)"

definition encode_request_indirect_introduction :: "node_name \<Rightarrow> node_name \<Rightarrow> byte list option" where
  "encode_request_indirect_introduction source_node target_node =
     simple_message MSG_ID_REQUEST_INDIRECT_INTRODUCTION (node_bytes source_node @ node_bytes target_node)"

text \<open>The offsets of the arrays of a parcel, in allocation order; an empty array has offset 0.\<close>

definition next_array :: "nat \<Rightarrow> nat \<Rightarrow> (u32 \<times> nat) option" where
  "next_array off len =
     (if len = 0 then Some (0, off)
      else do {
        size \<leftarrow> align8 (8 + len);
        off' \<leftarrow> uadd off size;
        Some (of_nat off, off') })"

definition append_some :: "message_builder \<Rightarrow> bool \<Rightarrow> byte list \<Rightarrow> u32 \<Rightarrow> message_builder option" where
  "append_some b present elements n = (if present then map_option snd (append_array b elements n) else Some b)"

definition encode_accept_parcel_arrays ::
  "u64 \<Rightarrow> u64 \<Rightarrow> u32 \<Rightarrow> u32 \<Rightarrow> fragment option \<Rightarrow> byte list \<Rightarrow> u32 list \<Rightarrow> byte list list \<Rightarrow>
   byte list list \<Rightarrow> byte list option" where
  "encode_accept_parcel_arrays sublink sequence_number subparcel_index num_subparcels parcel_fragment
       data handle_types new_routers driver_data = do {
     off \<leftarrow> align8 (IPCZ_MESSAGE_HEADER_SIZE + 72);
     (pd_off, off) \<leftarrow> (if parcel_fragment \<noteq> None then Some (0, off) else next_array off (length data));
     (ht_off, off) \<leftarrow> next_array off (length handle_types * 4);
     (nr_off, off) \<leftarrow> next_array off (sum_list (map length new_routers));
     let params = to_le 8 sublink @ to_le 8 sequence_number @ to_le 4 subparcel_index @
       to_le 4 num_subparcels @
       (case parcel_fragment of Some frag \<Rightarrow> fragment_bytes frag
        | None \<Rightarrow> to_le 8 INVALID_BUFFER_ID @ to_le 4 (0 :: u32) @ to_le 4 (0 :: u32)) @
       to_le 4 pd_off @ to_le 4 ht_off @ to_le 4 nr_off @ to_le 4 (0 :: u32) @ to_le 4 (0 :: u32) @
       to_le 4 (of_nat (length driver_data) :: u32);
     b \<leftarrow> append_params (builder_new MSG_ID_ACCEPT_PARCEL) params;
     b \<leftarrow> append_some b (data \<noteq> [] \<and> parcel_fragment = None) data (of_nat (length data));
     b \<leftarrow> append_some b (handle_types \<noteq> []) (concat (map (to_le 4) handle_types)) (of_nat (length handle_types));
     b \<leftarrow> append_some b (new_routers \<noteq> []) (concat new_routers) (of_nat (length new_routers));
     b \<leftarrow> (if driver_data \<noteq> [] then append_driver_objects b driver_data else Some b);
     Some (build b) }"

definition encode_accept_parcel_full ::
  "u64 \<Rightarrow> u64 \<Rightarrow> fragment option \<Rightarrow> byte list \<Rightarrow> u32 list \<Rightarrow> byte list list \<Rightarrow> byte list list \<Rightarrow> byte list option" where
  "encode_accept_parcel_full sublink sequence_number parcel_fragment data handle_types new_routers driver_data =
     encode_accept_parcel_arrays sublink sequence_number 0 1 parcel_fragment data handle_types new_routers driver_data"

definition encode_accept_parcel_inline ::
  "u64 \<Rightarrow> u64 \<Rightarrow> byte list \<Rightarrow> u32 list \<Rightarrow> byte list list \<Rightarrow> byte list option" where
  "encode_accept_parcel_inline sublink sequence_number data handle_types driver_data =
     encode_accept_parcel_arrays sublink sequence_number 0 1 None data handle_types [] driver_data"

definition encode_accept_parcel_fragment ::
  "u64 \<Rightarrow> u64 \<Rightarrow> fragment \<Rightarrow> u32 list \<Rightarrow> byte list list \<Rightarrow> byte list option" where
  "encode_accept_parcel_fragment sublink sequence_number parcel_fragment handle_types driver_data =
     encode_accept_parcel_arrays sublink sequence_number 0 1 (Some parcel_fragment) [] handle_types [] driver_data"

definition encode_accept_parcel_with_portals ::
  "u64 \<Rightarrow> u64 \<Rightarrow> byte list \<Rightarrow> u32 list \<Rightarrow> byte list list \<Rightarrow> byte list list \<Rightarrow> byte list option" where
  "encode_accept_parcel_with_portals sublink sequence_number data handle_types new_routers driver_data =
     encode_accept_parcel_arrays sublink sequence_number 0 1 None data handle_types new_routers driver_data"

definition encode_accept_parcel_driver_objects :: "u64 \<Rightarrow> u64 \<Rightarrow> byte list list \<Rightarrow> byte list option" where
  "encode_accept_parcel_driver_objects sublink sequence_number driver_data = do {
     b \<leftarrow> append_params (builder_new MSG_ID_ACCEPT_PARCEL_DRIVER_OBJECTS)
       (to_le 8 sublink @ to_le 8 sequence_number @ to_le 4 (0 :: u32) @
        to_le 4 (of_nat (length driver_data) :: u32));
     b \<leftarrow> (if driver_data \<noteq> [] then append_driver_objects b driver_data else Some b);
     Some (build b) }"

definition encode_route_closed :: "u64 \<Rightarrow> u64 \<Rightarrow> byte list option" where
  "encode_route_closed sublink sequence_length =
     simple_message MSG_ID_ROUTE_CLOSED (to_le 8 sublink @ to_le 8 sequence_length)"

definition encode_route_disconnected :: "u64 \<Rightarrow> byte list option" where
  "encode_route_disconnected sublink = simple_message MSG_ID_ROUTE_DISCONNECTED (to_le 8 sublink)"

definition encode_flush_router :: "u64 \<Rightarrow> byte list option" where
  "encode_flush_router sublink = simple_message MSG_ID_FLUSH_ROUTER (to_le 8 sublink)"

definition encode_stop_proxying_to_local_peer :: "u64 \<Rightarrow> u64 \<Rightarrow> byte list option" where
  "encode_stop_proxying_to_local_peer sublink outbound_sequence_length =
     simple_message MSG_ID_STOP_PROXYING_TO_LOCAL_PEER (to_le 8 sublink @ to_le 8 outbound_sequence_length)"

definition encode_bypass_peer_with_link :: "u64 \<Rightarrow> u64 \<Rightarrow> fragment \<Rightarrow> u64 \<Rightarrow> byte list option" where
  "encode_bypass_peer_with_link sublink new_sublink new_link_state_fragment inbound_sequence_length =
     simple_message MSG_ID_BYPASS_PEER_WITH_LINK
       (to_le 8 sublink @ to_le 8 new_sublink @ fragment_bytes new_link_state_fragment @
        to_le 8 inbound_sequence_length)"

definition encode_bypass_peer :: "u64 \<Rightarrow> node_name \<Rightarrow> u64 \<Rightarrow> byte list option" where
  "encode_bypass_peer sublink bypass_target_node bypass_target_sublink =
     simple_message MSG_ID_BYPASS_PEER
       (to_le 8 sublink @ to_le 8 (0 :: u64) @ node_bytes bypass_target_node @ to_le 8 bypass_target_sublink)"

definition encode_accept_bypass_link :: "node_name \<Rightarrow> u64 \<Rightarrow> u64 \<Rightarrow> u64 \<Rightarrow> fragment \<Rightarrow> byte list option" where
  "encode_accept_bypass_link current_peer_node current_peer_sublink inbound_sequence_length new_sublink
       new_link_state_fragment =
     simple_message MSG_ID_ACCEPT_BYPASS_LINK
       (node_bytes current_peer_node @ to_le 8 current_peer_sublink @ to_le 8 inbound_sequence_length @
        to_le 8 new_sublink @ fragment_bytes new_link_state_fragment)"

definition encode_stop_proxying :: "u64 \<Rightarrow> u64 \<Rightarrow> u64 \<Rightarrow> byte list option" where
  "encode_stop_proxying sublink inbound_sequence_length outbound_sequence_length =
     simple_message MSG_ID_STOP_PROXYING
       (to_le 8 sublink @ to_le 8 inbound_sequence_length @ to_le 8 outbound_sequence_length)"

definition encode_proxy_will_stop :: "u64 \<Rightarrow> u64 \<Rightarrow> byte list option" where
  "encode_proxy_will_stop sublink inbound_sequence_length =
     simple_message MSG_ID_PROXY_WILL_STOP (to_le 8 sublink @ to_le 8 inbound_sequence_length)"

definition encode_request_memory :: "u32 \<Rightarrow> byte list option" where
  "encode_request_memory n = simple_message MSG_ID_REQUEST_MEMORY (to_le 4 n @ to_le 4 (0 :: u32))"

definition encode_provide_memory :: "u32 \<Rightarrow> byte list option" where
  "encode_provide_memory n =
     message_with_objects MSG_ID_PROVIDE_MEMORY (to_le 4 n @ to_le 4 (0 :: u32))
       [encode_shared_buffer_object n (ucast n)]"

definition encode_add_block_buffer :: "u64 \<Rightarrow> u32 \<Rightarrow> u32 \<Rightarrow> u32 \<Rightarrow> byte list option" where
  "encode_add_block_buffer i block_size buffer_index buffer_size =
     message_with_objects MSG_ID_ADD_BLOCK_BUFFER (to_le 8 i @ to_le 4 block_size @ to_le 4 buffer_index)
       [encode_shared_buffer_object buffer_size i]"

end
