(* ===== verification/IpczCodec.thy ===== *)
theory IpczCodec
  imports IpczMessages
begin

text \<open>
  Decoding and encoding of node messages: what the decoder sees of a built message, the round
  trips of the encoders, freedom of panics, the use of descriptors by driver objects, and the
  message whose two halves disagree.
\<close>

section \<open>What the decoder sees of a built message\<close>

definition built_cursor :: "message_builder \<Rightarrow> byte list \<Rightarrow> nat \<Rightarrow> cursor" where
  "built_cursor b F n =
     \<lparr>cu_payload = build b, cu_header = mb_header b, cu_fields = 32,
      cu_end = 24 + up8 (8 + length F), cu_num_fds = n\<rparr>"

lemma cursor_sel [simp]:
  "cu_payload (built_cursor b F n) = build b" "cu_header (built_cursor b F n) = mb_header b"
  "cu_fields (built_cursor b F n) = 32" "cu_end (built_cursor b F n) = 24 + up8 (8 + length F)"
  "cu_num_fds (built_cursor b F n) = n"
  by (simp_all add: built_cursor_def)

lemma length_build [simp]: "length (build b) = payload_len b"
  by (simp add: build_def Let_def payload_len_def ipcz_sizes)

lemma drop_build: "24 \<le> k \<Longrightarrow> drop k (build b) = drop (k - 24) (mb_body b)"
proof -
  assume "24 \<le> k"
  then have "drop k (build b) = drop (k - 24) (drop 24 (build b))" by simp
  also have "drop 24 (build b) = mb_body b" by (simp add: build_def Let_def)
  finally show ?thesis .
qed

text \<open>A message whose parameters are \<open>F\<close>, with anything behind them.\<close>

definition has_params :: "message_builder \<Rightarrow> byte list \<Rightarrow> bool" where
  "has_params b F = (lh_size (mb_header b) = 24 \<and> length F + 16 < 2 ^ 32 \<and>
     (\<exists>rest. mb_body b = block 0 F @ rest))"

lemma decode_built:
  assumes "has_params b F"
  shows "decode_message (build b) n = dispatch (built_cursor b F n)"
proof -
  obtain rest where b: "mb_body b = block 0 F @ rest" "lh_size (mb_header b) = 24" "length F + 16 < 2 ^ 32"
    using assms by (auto simp: has_params_def)
  let ?u = "up8 (8 + length F)"
  have u: "8 + length F \<le> ?u" "?u < 2 ^ 32"
    using up8_ge [of "8 + length F"] up8_le [of "8 + length F"] b(3) by simp_all
  have d: "drop 24 (build b) = block 0 F @ rest" using drop_build [of 24 b] b(1) by simp
  have s: "take 4 (drop 24 (build b)) = to_le 4 (of_nat ?u :: u32)"
    unfolding d by (simp add: block_def)
  have l: "24 + ?u \<le> payload_len b" by (simp add: payload_len_def b(1) ipcz_sizes)
  then have g: "\<not> payload_len b - 24 < ?u" by linarith
  have w: "unat (of_nat ?u :: u32) = ?u" using u(2) by (rule unat_word32)
  show ?thesis
    using u l w b(2) g
    by (simp add: decode_message_def parse_build Let_def s le_u32_def from_le_to_le built_cursor_def)
qed

lemma field_bytes:
  assumes "has_params b F" "off + k \<le> length F"
  shows "slice (build b) (32 + off) (32 + off + k) = Some (take k (drop off F))"
    "32 + off + k \<le> 24 + up8 (8 + length F)" "off < 2 ^ 32" "length F < 2 ^ 32"
proof -
  obtain rest where b: "mb_body b = block 0 F @ rest" "length F + 16 < 2 ^ 32"
    using assms by (auto simp: has_params_def)
  have u: "8 + length F \<le> up8 (8 + length F)" by (rule up8_ge)
  have "drop (32 + off) (build b) = drop (8 + off) (block 0 F @ rest)"
    using drop_build [of "32 + off" b] b(1) by simp
  also have "take k \<dots> = take k (drop off F)"
    using assms(2) by (simp add: block_def)
  finally have "take k (drop (32 + off) (build b)) = take k (drop off F)" .
  moreover have "32 + off + k \<le> length (build b)"
    using assms(2) u by (simp add: payload_len_def b(1) ipcz_sizes)
  ultimately show "slice (build b) (32 + off) (32 + off + k) = Some (take k (drop off F))" by simp
  show "32 + off + k \<le> 24 + up8 (8 + length F)" using assms(2) u by simp
  show "off < 2 ^ 32" "length F < 2 ^ 32" using assms(2) b(2) by simp_all
qed

lemma f_u32_built:
  assumes "has_params b F" "off + 4 \<le> length F"
  shows "f_u32 (built_cursor b F n) off = Ok (from_le (take 4 (drop off F)))"
proof -
  have "length (take 4 (drop off F)) = 4" using assms(2) by simp
  then show ?thesis using field_bytes [OF assms]
    by (simp add: f_u32_def usize_limit_def le_u32_def)
qed

lemma f_u64_built:
  assumes "has_params b F" "off + 8 \<le> length F"
  shows "f_u64 (built_cursor b F n) off = Ok (from_le (take 8 (drop off F)))"
proof -
  have "length (take 8 (drop off F)) = 8" using assms(2) by simp
  then show ?thesis using field_bytes [OF assms]
    by (simp add: f_u64_def usize_limit_def le_u64_def)
qed

lemma need_built [simp]: "8 + n \<le> up8 (8 + length F) \<Longrightarrow> need (built_cursor b F k) n m = m"
  by (simp add: need_def)

lemma from_le_whole [simp]:
  "from_le (to_le 8 (x :: u64)) = x" "from_le (to_le 4 (y :: u32)) = y" "from_le (to_le 2 (z :: u16)) = z"
  by (simp_all add: from_le_to_le)

lemmas read_built = f_u32_built f_u64_built f_node_def f_frag_def

section \<open>Messages of parameters only\<close>

lemma simple_message_eq:
  assumes "length F + 16 < 2 ^ 32"
  shows "simple_message i F = Some (build ((builder_new i)\<lparr>mb_body := block 0 F\<rparr>))"
  using append_params_eq [OF assms] by (simp add: simple_message_def builder_new_def)

lemma decode_simple:
  assumes "simple_message i F = Some p" "length F + 16 < 2 ^ 32"
  shows "\<exists>b. has_params b F \<and> lh_message_id (mb_header b) = i \<and>
    decode_message p n = dispatch (built_cursor b F n)"
proof -
  let ?b = "(builder_new i)\<lparr>mb_body := block 0 F\<rparr>"
  have "has_params ?b F" using assms(2) by (simp add: has_params_def builder_new_def ipcz_sizes)
  moreover have "p = build ?b" using assms simple_message_eq by simp
  ultimately show ?thesis using decode_built by (force simp: builder_new_def)
qed

lemma simple_roundtrip:
  assumes "length F + 16 < 2 ^ 32"
    and "\<And>b. has_params b F \<Longrightarrow> lh_message_id (mb_header b) = i \<Longrightarrow> dispatch (built_cursor b F n) = Ok m"
  shows "\<exists>p. simple_message i F = Some p \<and> decode_message p n = Ok m"
proof -
  obtain p where p: "simple_message i F = Some p" using simple_message_eq [OF assms(1)] by blast
  obtain b where "has_params b F" "lh_message_id (mb_header b) = i" "decode_message p n = dispatch (built_cursor b F n)"
    using decode_simple [OF p assms(1)] by blast
  then show ?thesis using p assms(2) by simp
qed

text \<open>C35: The route, introduction and memory requests without driver objects decode to what was encoded,
  whatever the number of descriptors announced with them - route closed and disconnected, flush, both
  stop-proxying messages, proxy-will-stop, both bypass-link messages, the three introduction requests
  and the memory request - with one exception: of a request to bypass a peer the target sublink is
  lost, its decoder takes the low half of the target node name for it.\<close>
theorem control_messages_roundtrip:
  "(\<exists>p. encode_route_closed s l = Some p \<and>
      decode_message p n = Ok (RouteClosed \<lparr>rc_sublink = s, rc_sequence_length = l\<rparr>)) \<and>
   (\<exists>p. encode_route_disconnected s = Some p \<and> decode_message p n = Ok (RouteDisconnected s)) \<and>
   (\<exists>p. encode_flush_router s = Some p \<and> decode_message p n = Ok (FlushRouter s)) \<and>
   (\<exists>p. encode_stop_proxying_to_local_peer s l = Some p \<and>
      decode_message p n = Ok (StopProxyingToLocalPeer \<lparr>sl_sublink = s, sl_outbound_sequence_length = l\<rparr>)) \<and>
   (\<exists>p. encode_bypass_peer_with_link s s' f l = Some p \<and>
      decode_message p n = Ok (BypassPeerWithLink \<lparr>bl_sublink = s, bl_new_sublink = s',
        bl_new_link_state_fragment = f, bl_inbound_sequence_length = l\<rparr>)) \<and>
   (\<exists>p. encode_accept_bypass_link a s l s' f = Some p \<and>
      decode_message p n = Ok (AcceptBypassLink \<lparr>al_current_peer_node = a, al_current_peer_sublink = s,
        al_inbound_sequence_length = l, al_new_sublink = s', al_new_link_state_fragment = f\<rparr>)) \<and>
   (\<exists>p. encode_stop_proxying s l l' = Some p \<and>
      decode_message p n = Ok (StopProxying \<lparr>sp_sublink = s, sp_inbound_sequence_length = l,
        sp_outbound_sequence_length = l'\<rparr>)) \<and>
   (\<exists>p. encode_proxy_will_stop s l = Some p \<and>
      decode_message p n = Ok (ProxyWillStop \<lparr>pw_sublink = s, pw_inbound_sequence_length = l\<rparr>)) \<and>
   (\<exists>p. encode_request_introduction a = Some p \<and> decode_message p n = Ok (RequestIntroduction a)) \<and>
   (\<exists>p. encode_reject_introduction a = Some p \<and> decode_message p n = Ok (RejectIntroduction a)) \<and>
   (\<exists>p. encode_request_indirect_introduction a a' = Some p \<and>
      decode_message p n = Ok (RequestIndirectIntroduction \<lparr>ii_source_node = a, ii_target_node = a'\<rparr>)) \<and>
   (\<exists>p. encode_request_memory z = Some p \<and> decode_message p n = Ok (RequestMemory z)) \<and>
   (\<exists>p. encode_bypass_peer s a t = Some p \<and>
      decode_message p n = Ok (BypassPeer \<lparr>bp_sublink = s, bp_target_node = a, bp_target_sublink = nn_low a\<rparr>))"
  unfolding encode_route_closed_def encode_route_disconnected_def encode_flush_router_def
    encode_stop_proxying_to_local_peer_def encode_bypass_peer_with_link_def encode_accept_bypass_link_def
    encode_stop_proxying_def encode_proxy_will_stop_def encode_request_introduction_def
    encode_reject_introduction_def encode_request_indirect_introduction_def encode_request_memory_def encode_bypass_peer_def
  by (intro conjI; rule simple_roundtrip;
      simp add: dispatch_def Let_def msg_ids decoders decode_bypass_peer_def read_built up8_def fragment_bytes_def node_bytes_def)

text \<open>A request to bypass a peer does not survive: the decoder reads the target sublink from the bytes of
  the low half of the target node name, so the recipient sees that half as the sublink.\<close>
theorem bypass_peer_sublink_lost:
  "\<exists>p. encode_bypass_peer s a t = Some p \<and>
     decode_message p n = Ok (BypassPeer \<lparr>bp_sublink = s, bp_target_node = a, bp_target_sublink = nn_low a\<rparr>)"
  unfolding encode_bypass_peer_def
  by (rule simple_roundtrip) (simp_all add: dispatch_def Let_def msg_ids decode_bypass_peer_def read_built up8_def node_bytes_def)

section \<open>Arrays and driver objects\<close>

lemma read_array_0 [simp]: "read_array p 0 k = Ok []"
  by (simp add: read_array_def)

lemma read_array_built:
  assumes body: "mb_body b = pre @ block n bytes @ post" and off: "off = 24 + length pre"
    and fit: "off + up8 (8 + length bytes) < 2 ^ 32" and n: "unat n * k = length bytes"
  shows "read_array (build b) (of_nat off) k = Ok bytes"
proof -
  let ?u = "up8 (8 + length bytes)"
  have u: "8 + length bytes \<le> ?u" "?u < 2 ^ 32" "off < 2 ^ 32" using fit up8_ge [of "8 + length bytes"] by simp_all
  have w: "unat (of_nat off :: u32) = off" "unat (of_nat ?u :: u32) = ?u" using u by (simp_all add: unat_word32)
  have nz: "of_nat off \<noteq> (0 :: u32)" using w(1) off by (metis add_eq_0_iff_both_eq_0 unsigned_0 zero_neq_numeral)
  have d: "drop off (build b) = block n bytes @ post" using drop_build [of off b] off body by simp
  have l: "off \<le> length (build b)" "payload_len b - off = ?u + length post"
    using off body by (simp_all add: payload_len_def ipcz_sizes)
  have s: "take 4 (block n bytes @ post) = to_le 4 (of_nat ?u :: u32)"
    "take 4 (drop 4 (block n bytes @ post)) = to_le 4 n"
    "take (length bytes) (drop 8 (block n bytes @ post)) = bytes"
    by (simp_all add: block_def)
  have g: "\<not> ?u + length post < 8" "\<not> ?u + length post < ?u" "length bytes < usize_limit" "\<not> ?u - 8 < length bytes"
    "\<not> ?u < 8" "8 + length bytes \<le> ?u + length post"
    using u by (simp_all add: usize_limit_def)
  show ?thesis
    unfolding read_array_def Let_def w(1) d
    using nz l(1) s g n w(2) by (simp add: le_u32_def)
qed

lemma chunks_exact_Cons:
  assumes "length x = n" "0 < n"
  shows "chunks_exact n (x @ ys) = x # chunks_exact n ys"
proof -
  have "(n + length ys) div n = Suc (length ys div n)" using assms(2) by (simp add: div_add_self1)
  then have u: "[0..<length (x @ ys) div n] = 0 # map Suc [0..<length ys div n]"
    using assms(1) by (simp add: map_Suc_upt upt_conv_Cons del: upt_Suc)
  show ?thesis unfolding chunks_exact_def u using assms by (simp add: comp_def)
qed

lemma chunks_exact_Nil [simp]: "chunks_exact n [] = []"
  by (simp add: chunks_exact_def)

lemma words_roundtrip: "collect (map le_u32 (chunks_exact 4 (concat (map (to_le 4) hs)))) = Ok hs"
  by (induction hs) (simp_all add: chunks_exact_Cons le_u32_def)

text \<open>The driver objects of a message: one descriptor each, in order.\<close>

definition objects_of :: "nat \<Rightarrow> byte list list \<Rightarrow> driver_object list" where
  "objects_of k ds = map (\<lambda>(i, d). \<lparr>dobj_data = d, dobj_first_fd = i, dobj_num_fds = 1\<rparr>) (enumerate k ds)"

lemma objects_of_simps [simp]:
  "objects_of k [] = []"
  "objects_of k (d # ds) = \<lparr>dobj_data = d, dobj_first_fd = k, dobj_num_fds = 1\<rparr> # objects_of (Suc k) ds"
  "length (objects_of k ds) = length ds"
  by (simp_all add: objects_of_def)

lemma no_gap_simps [simp]:
  "no_gap []" "no_gap ([] # ds) \<longleftrightarrow> (\<forall>d \<in> set ds. d = [])" "d \<noteq> [] \<Longrightarrow> no_gap (d # ds) \<longleftrightarrow> no_gap ds"
  by (simp_all add: no_gap_def)

lemma all_empty_no_gap: "\<forall>d \<in> set ds. d = [] \<Longrightarrow> no_gap ds"
  by (auto simp: no_gap_def dest: set_dropWhileD)

lemma read_objects_entry:
  assumes "k < 2 ^ 16" "k + 1 \<le> n" "read_array p (of_nat off) 1 = Ok d"
    and "read_objects p n (Suc k) (chunks_exact 8 rest) = Ok objs"
  shows "read_objects p n k (chunks_exact 8 (to_le 4 (of_nat off :: u32) @ to_le 2 (of_nat k :: u16) @
      to_le 2 (1 :: u16) @ rest)) = Ok (\<lparr>dobj_data = d, dobj_first_fd = k, dobj_num_fds = 1\<rparr> # objs)"
proof -
  let ?x = "to_le 4 (of_nat off :: u32) @ to_le 2 (of_nat k :: u16) @ to_le 2 (1 :: u16)"
  have k: "unat (of_nat k :: u16) = k" using assms(1) by (rule unat_small16)
  have c: "chunks_exact 8 (?x @ rest) = ?x # chunks_exact 8 rest" by (intro chunks_exact_Cons) simp_all
  have "read_objects p n k (?x # chunks_exact 8 rest) = Ok (\<lparr>dobj_data = d, dobj_first_fd = k, dobj_num_fds = 1\<rparr> # objs)"
    using assms k by (simp add: le_u32_def le_u16_def Let_def)
  then show ?thesis using c by simp
qed

lemma read_objects_built:
  assumes "no_gap ds" "off + objects_size ds < 2 ^ 32" "k + length ds < 2 ^ 16"
    and "(\<forall>d \<in> set ds. d = []) \<or> (24 + length pre = off \<and> mb_body b = pre @ arrays ds @ post)"
  shows "read_objects (build b) (k + length ds) k (chunks_exact 8 (entries k (planned off ds))) = Ok (objects_of k ds)"
  using assms
proof (induction ds arbitrary: off k pre)
  case (Cons d ds)
  let ?u = "up8 (8 + length d)"
  show ?case
  proof (cases "d = []")
    case True
    have e: "\<forall>d \<in> set ds. d = []" using Cons.prems(1) True by simp
    have "read_objects (build b) (Suc k + length ds) (Suc k) (chunks_exact 8 (entries (Suc k) (planned (off + ?u) ds))) =
        Ok (objects_of (Suc k) ds)"
      using Cons.prems e all_empty_no_gap by (intro Cons.IH) simp_all
    then show ?thesis
      using True Cons.prems(3) read_objects_entry [of k "Suc k + length ds" "build b" 0 "[]"] by simp
  next
    case False
    have b: "24 + length pre = off" "mb_body b = pre @ block (of_nat (length d)) d @ arrays ds @ post"
      using Cons.prems(4) False by (auto simp: arrays_def)
    have l: "length d < 2 ^ 32" using Cons.prems(2) up8_ge [of "8 + length d"] by simp
    have "read_array (build b) (of_nat off) 1 = Ok d"
      by (rule read_array_built [OF b(2)]) (use b(1) Cons.prems(2) l in \<open>simp_all add: unat_word32\<close>)
    moreover have "read_objects (build b) (Suc k + length ds) (Suc k)
        (chunks_exact 8 (entries (Suc k) (planned (off + ?u) ds))) = Ok (objects_of (Suc k) ds)"
      by (rule Cons.IH [where pre = "pre @ block (of_nat (length d)) d"]) (use Cons.prems b False in simp_all)
    ultimately show ?thesis
      using False Cons.prems(3) read_objects_entry [of k "Suc k + length ds" "build b" off d] by simp
  qed
qed simp

lemma read_driver_objects_built:
  assumes body: "mb_body b = pre @ object_blocks base ds" and base: "base = 24 + length pre"
    and fit: "objects_fit base ds" "no_gap ds" and hdr: "lh_driver_objects (mb_header b) = of_nat base"
  shows "read_driver_objects (build b) (mb_header b) (length ds) = Ok (objects_of 0 ds)"
proof -
  let ?n = "length ds" and ?u = "up8 (8 + 8 * length ds)"
  let ?e = "entries 0 (planned (base + ?u) ds)"
  have f: "?n < 2 ^ 16" "base + 8 * ?n + objects_size ds + 32 < 2 ^ 32" "?u \<le> 8 * ?n + 15"
    using fit(1) up8_le [of "8 + 8 * ?n"] by (simp_all add: objects_fit_def)
  have b: "mb_body b = pre @ block (of_nat ?n) ?e @ arrays ds" using body by (simp add: object_blocks_def)
  have n: "unat (of_nat ?n :: u32) = ?n" "unat (of_nat base :: u32) = base" using f by (simp_all add: unat_word32)
  have r: "read_array (build b) (of_nat base) 8 = Ok ?e"
    by (rule read_array_built [OF b base]) (use f n in simp_all)
  have nz: "of_nat base \<noteq> (0 :: u32)" using n(2) base by (metis add_eq_0_iff_both_eq_0 unsigned_0 zero_neq_numeral)
  have "read_objects (build b) (0 + ?n) 0 (chunks_exact 8 ?e) = Ok (objects_of 0 ds)"
    by (rule read_objects_built [where pre = "pre @ block (of_nat ?n) ?e" and post = "[]"]) (use fit f b base in simp_all)
  then show ?thesis using r nz hdr by (simp add: read_driver_objects_def)
qed

section \<open>Messages with arrays and driver objects\<close>

text \<open>An array that is only there when it has elements.\<close>

definition opt_block :: "u32 \<Rightarrow> byte list \<Rightarrow> byte list" where
  "opt_block n bytes = (if bytes = [] then [] else block n bytes)"

definition opt_size :: "nat \<Rightarrow> nat" where
  "opt_size len = (if len = 0 then 0 else up8 (8 + len))"

definition opt_offset :: "nat \<Rightarrow> nat \<Rightarrow> u32" where
  "opt_offset off len = (if len = 0 then 0 else of_nat off)"

lemma length_opt_block [simp]: "length (opt_block n bytes) = opt_size (length bytes)"
  by (simp add: opt_block_def opt_size_def)

lemma opt_size_bound: "opt_size len \<le> len + 15"
  using up8_le [of "8 + len"] by (simp add: opt_size_def)

lemma next_array_eq:
  "off + len + 15 < usize_limit \<Longrightarrow> next_array off len = Some (opt_offset off len, off + opt_size len)"
  using up8_le [of "8 + len"] by (simp add: next_array_def opt_offset_def opt_size_def)

lemma append_some_eq:
  assumes "payload_len b + length es + 16 < 2 ^ 32"
  shows "append_some b (es \<noteq> []) es n = Some (b\<lparr>mb_body := mb_body b @ opt_block n es\<rparr>)"
  using append_array_eq [OF _ assms] by (cases "es = []") (simp_all add: append_some_def opt_block_def)

lemma read_opt_array:
  assumes "mb_body b = pre @ opt_block n bytes @ post" "off = 24 + length pre"
    and "off + length bytes + 15 < 2 ^ 32" "unat n * k = length bytes"
  shows "read_array (build b) (opt_offset off (length bytes)) k = Ok bytes"
proof (cases "bytes = []")
  case False
  then show ?thesis
    using read_array_built [of b pre n bytes post off k] assms up8_le [of "8 + length bytes"]
    by (simp add: opt_block_def opt_offset_def)
qed (simp add: opt_offset_def)

text \<open>Driver objects at the end of a message.\<close>

definition opt_objects :: "nat \<Rightarrow> byte list list \<Rightarrow> byte list" where
  "opt_objects base ds = (if ds = [] then [] else object_blocks base ds)"

definition opt_base :: "nat \<Rightarrow> byte list list \<Rightarrow> u32" where
  "opt_base base ds = (if ds = [] then 0 else of_nat base)"

lemma append_opt_objects:
  assumes "objects_fit (payload_len b) ds" "lh_driver_objects (mb_header b) = 0"
  shows "(if ds \<noteq> [] then append_driver_objects b ds else Some b) =
    (if no_gap ds then Some (b\<lparr>mb_body := mb_body b @ opt_objects (payload_len b) ds,
            mb_header := (mb_header b)\<lparr>lh_driver_objects := opt_base (payload_len b) ds\<rparr>\<rparr>) else None)"
  using assms append_driver_objects_eq [OF assms(1)]
  by (simp add: opt_objects_def opt_base_def)

lemma read_opt_objects:
  assumes "mb_body b = pre @ opt_objects base ds" "base = 24 + length pre" "objects_fit base ds" "no_gap ds"
    and "lh_driver_objects (mb_header b) = opt_base base ds"
  shows "read_driver_objects (build b) (mb_header b) (length ds) = Ok (objects_of 0 ds)"
proof (cases "ds = []")
  case False
  then show ?thesis using read_driver_objects_built [of b pre base ds] assms by (simp add: opt_objects_def opt_base_def)
qed (use assms in \<open>simp add: read_driver_objects_def opt_base_def\<close>)

lemma objects_message:
  assumes "length F + 16 < 2 ^ 32" "objects_fit (24 + up8 (8 + length F)) ds" "no_gap ds"
  shows "\<exists>b. append_params (builder_new i) F \<bind> (\<lambda>b. if ds \<noteq> [] then append_driver_objects b ds else Some b) = Some b \<and>
    has_params b F \<and> lh_message_id (mb_header b) = i \<and>
    c_objects (built_cursor b F (length ds)) = Ok (objects_of 0 ds)"
proof -
  let ?m = "(builder_new i)\<lparr>mb_body := mb_body (builder_new i) @ block 0 F\<rparr>"
  let ?base = "24 + up8 (8 + length F)"
  let ?b = "?m\<lparr>mb_body := mb_body ?m @ opt_objects ?base ds,
      mb_header := (mb_header ?m)\<lparr>lh_driver_objects := opt_base ?base ds\<rparr>\<rparr>"
  have l: "payload_len ?m = ?base" by (simp add: payload_len_def builder_new_def ipcz_sizes)
  have a: "(if ds \<noteq> [] then append_driver_objects ?m ds else Some ?m) = Some ?b"
    using append_opt_objects [of ?m ds, unfolded l] assms(2) by (simp only: assms(3) if_True) (simp add: builder_new_def)
  have p: "append_params (builder_new i) F = Some ?m" by (rule append_params_eq [OF assms(1)])
  have "mb_body ?b = block 0 F @ opt_objects ?base ds" by (simp add: builder_new_def)
  then have h: "has_params ?b F" unfolding has_params_def
    using assms(1) by (intro conjI exI) (simp_all add: builder_new_def ipcz_sizes)
  have i: "lh_message_id (mb_header ?b) = i" by (simp add: builder_new_def)
  have "read_driver_objects (build ?b) (mb_header ?b) (length ds) = Ok (objects_of 0 ds)"
    by (rule read_opt_objects [where pre = "block 0 F" and base = ?base])
      (use assms in \<open>simp_all add: builder_new_def\<close>)
  then have "c_objects (built_cursor ?b F (length ds)) = Ok (objects_of 0 ds)" by (simp add: c_objects_def)
  then show ?thesis using p a h i by (simp only: Option.bind.simps) blast
qed

lemma objects_roundtrip:
  assumes "length F + 16 < 2 ^ 32" "objects_fit (24 + up8 (8 + length F)) ds" "no_gap ds" "ds \<noteq> []"
    and "\<And>b. has_params b F \<Longrightarrow> lh_message_id (mb_header b) = i \<Longrightarrow>
      c_objects (built_cursor b F (length ds)) = Ok (objects_of 0 ds) \<Longrightarrow>
      dispatch (built_cursor b F (length ds)) = Ok m"
  shows "\<exists>p. message_with_objects i F ds = Some p \<and> decode_message p (length ds) = Ok m"
proof -
  obtain b where b: "append_params (builder_new i) F \<bind> (\<lambda>b. append_driver_objects b ds) = Some b"
    "has_params b F" "dispatch (built_cursor b F (length ds)) = Ok m"
    using objects_message [OF assms(1-3), of i] assms(4,5) by auto
  have "message_with_objects i F ds = Some (build b)"
    using b(1) by (auto simp: message_with_objects_def split: bind_splits)
  then show ?thesis using decode_built [OF b(2), of "length ds"] b(3) by simp
qed

lemma length_shared_buffer_object [simp]: "length (encode_shared_buffer_object z g) = 40"
  by (simp add: encode_shared_buffer_object_def)

lemma shared_buffer_object_ne [simp]: "encode_shared_buffer_object z g \<noteq> []"
  using length_shared_buffer_object [of z g] by force

lemma length_bytes [simp]: "length (node_bytes a) = 16" "length (fragment_bytes f) = 16"
  by (simp_all add: node_bytes_def fragment_bytes_def)

lemma single_object_roundtrip:
  assumes "length F = 8 \<or> length F = 16" "d \<noteq> []" "length d < 2 ^ 31"
    and "\<And>b. has_params b F \<Longrightarrow> lh_message_id (mb_header b) = i \<Longrightarrow>
      c_objects (built_cursor b F 1) = Ok [\<lparr>dobj_data = d, dobj_first_fd = 0, dobj_num_fds = 1\<rparr>] \<Longrightarrow>
      dispatch (built_cursor b F 1) = Ok m"
  shows "\<exists>p. message_with_objects i F [d] = Some p \<and> decode_message p 1 = Ok m"
proof -
  have "up8 (8 + length F) \<le> 31" "up8 (8 + length d) < 2 ^ 31 + 15"
    using assms(1,3) up8_le [of "8 + length F"] up8_le [of "8 + length d"] by auto
  then have "objects_fit (24 + up8 (8 + length F)) [d]" by (simp add: objects_fit_def)
  then show ?thesis
    using objects_roundtrip [of F "[d]" i m] assms by (auto simp: no_gap_def)
qed

text \<open>Messages that carry one driver object - a referral with its transport, a provided buffer, an added
  block buffer - decode to what was encoded when one descriptor comes with them.\<close>
theorem object_messages_roundtrip:
  assumes "transport \<noteq> []" "length transport < 2 ^ 31"
  shows "(\<exists>p. encode_refer_non_broker r k transport = Some p \<and>
      decode_message p 1 = Ok (ReferNonBroker \<lparr>rn_referral_id = r, rn_num_initial_portals = k, rn_transport_index = 0\<rparr>)) \<and>
    (\<exists>p. encode_provide_memory z = Some p \<and> decode_message p 1 = Ok (ProvideMemory z)) \<and>
    (\<exists>p. encode_add_block_buffer i s x z = Some p \<and>
      decode_message p 1 = Ok (AddBlockBuffer \<lparr>ab_buffer_id = i, ab_block_size = s, ab_buffer_index = x\<rparr>))"
  using assms
  unfolding encode_refer_non_broker_def encode_provide_memory_def encode_add_block_buffer_def
  by (intro conjI; intro single_object_roundtrip;
      simp add: dispatch_def Let_def msg_ids decoders read_built up8_def with_objects_check_def sole_object_def)

theorem object_messages_roundtrip_witness:
  "(\<exists>p. encode_refer_non_broker 7 1 (encode_transport_object 1) = Some p \<and>
      decode_message p 1 = Ok (ReferNonBroker \<lparr>rn_referral_id = 7, rn_num_initial_portals = 1, rn_transport_index = 0\<rparr>)) \<and>
    (\<exists>p. encode_provide_memory 4096 = Some p \<and> decode_message p 1 = Ok (ProvideMemory 4096)) \<and>
    (\<exists>p. encode_add_block_buffer 3 64 0 65536 = Some p \<and>
      decode_message p 1 = Ok (AddBlockBuffer \<lparr>ab_buffer_id = 3, ab_block_size = 64, ab_buffer_index = 0\<rparr>))"
proof -
  have "length (encode_transport_object 1) = 16" by (simp add: encode_transport_object_def)
  then have "encode_transport_object 1 \<noteq> []" "length (encode_transport_object 1) < 2 ^ 31" by force+
  from object_messages_roundtrip [OF this] show ?thesis by blast
qed

text \<open>The parameters of a parcel.\<close>

definition parcel_params :: "u64 \<Rightarrow> u64 \<Rightarrow> u32 \<Rightarrow> u32 \<Rightarrow> fragment \<Rightarrow> u32 \<Rightarrow> u32 \<Rightarrow> u32 \<Rightarrow> u32 \<Rightarrow> byte list" where
  "parcel_params s q x k f pd ht nr n = to_le 8 s @ to_le 8 q @ to_le 4 x @ to_le 4 k @ fragment_bytes f @
     to_le 4 pd @ to_le 4 ht @ to_le 4 nr @ to_le 4 (0 :: u32) @ to_le 4 (0 :: u32) @ to_le 4 n"

lemma length_parcel_params [simp]: "length (parcel_params s q x k f pd ht nr n) = 64"
  by (simp add: parcel_params_def)

lemma parcel_fields:
  assumes "has_params b (parcel_params s q x k f pd ht nr n)"
  shows "f_u64 (built_cursor b (parcel_params s q x k f pd ht nr n) m) 0 = Ok s"
    "f_u64 (built_cursor b (parcel_params s q x k f pd ht nr n) m) 8 = Ok q"
    "f_u32 (built_cursor b (parcel_params s q x k f pd ht nr n) m) 16 = Ok x"
    "f_u32 (built_cursor b (parcel_params s q x k f pd ht nr n) m) 20 = Ok k"
    "f_frag (built_cursor b (parcel_params s q x k f pd ht nr n) m) 24 = Ok f"
    "f_u32 (built_cursor b (parcel_params s q x k f pd ht nr n) m) 40 = Ok pd"
    "f_u32 (built_cursor b (parcel_params s q x k f pd ht nr n) m) 44 = Ok ht"
    "f_u32 (built_cursor b (parcel_params s q x k f pd ht nr n) m) 48 = Ok nr"
  using assms by (simp_all add: read_built)
    (simp_all add: parcel_params_def fragment_bytes_def)

text \<open>The body of a parcel message, and where its arrays start.\<close>

definition parcel_body ::
  "byte list \<Rightarrow> byte list \<Rightarrow> u32 list \<Rightarrow> byte list list \<Rightarrow> byte list list \<Rightarrow> byte list" where
  "parcel_body F data hts routers ds =
     (let A = opt_block (of_nat (length data)) data;
          B = opt_block (of_nat (length hts)) (concat (map (to_le 4) hts));
          C = opt_block (of_nat (length routers)) (concat routers)
      in block 0 F @ A @ B @ C @ opt_objects (96 + length A + length B + length C) ds)"

lemma concat_words [simp]: "length (concat (map (to_le 4) hts)) = 4 * length hts"
  by (induction hts) simp_all

lemma concat_routers: "\<forall>r \<in> set routers. length r = 96 \<Longrightarrow> length (concat routers) = 96 * length routers"
  by (induction routers) simp_all

definition parcel_sized :: "byte list \<Rightarrow> u32 list \<Rightarrow> byte list list \<Rightarrow> byte list list \<Rightarrow> bool" where
  "parcel_sized data hts routers ds =
     ((\<forall>r \<in> set routers. length r = ROUTER_DESCRIPTOR_SIZE) \<and> length ds < 2 ^ 16 \<and>
      200 + length data + 4 * length hts + 96 * length routers + 8 * length ds + objects_size ds < 2 ^ 32)"

definition parcel_fits :: "byte list \<Rightarrow> u32 list \<Rightarrow> byte list list \<Rightarrow> byte list list \<Rightarrow> bool" where
  "parcel_fits data hts routers ds = (parcel_sized data hts routers ds \<and> no_gap ds)"

lemma decode_parcel_body:
  assumes b: "mb_body b = parcel_body F data hts routers ds" and size: "lh_size (mb_header b) = 24"
    and i: "lh_message_id (mb_header b) = MSG_ID_ACCEPT_PARCEL" and fits: "parcel_fits data hts routers ds"
    and o: "o1 = 96 + opt_size (length data)" "o2 = o1 + opt_size (4 * length hts)"
      "o3 = o2 + opt_size (96 * length routers)"
    and h: "lh_driver_objects (mb_header b) = opt_base o3 ds"
    and F: "F = parcel_params s q x k f (opt_offset 96 (length data)) (opt_offset o1 (4 * length hts))
      (opt_offset o2 (96 * length routers)) (of_nat (length ds))"
  shows "decode_message (build b) (length ds) = Ok (AcceptParcel
    \<lparr>ap_sublink = s, ap_sequence_number = q, ap_subparcel_index = x, ap_num_subparcels = k,
     ap_parcel_fragment = f, ap_parcel_data = data, ap_handle_types = hts, ap_new_routers = concat routers,
     ap_driver_objects = objects_of 0 ds\<rparr>)"
proof -
  let ?A = "opt_block (of_nat (length data)) data"
  let ?B = "opt_block (of_nat (length hts)) (concat (map (to_le 4) hts))"
  let ?C = "opt_block (of_nat (length routers)) (concat routers)"
  let ?D = "opt_objects o3 ds"
  have r: "length (concat routers) = 96 * length routers" "\<forall>r \<in> set routers. length r = 96"
    using fits concat_routers [of routers] by (auto simp: parcel_fits_def parcel_sized_def ROUTER_DESCRIPTOR_SIZE_def)
  have small: "200 + length data + 4 * length hts + 96 * length routers + 8 * length ds + objects_size ds < 2 ^ 32"
    "no_gap ds" "length ds < 2 ^ 16"
    using fits by (auto simp: parcel_fits_def parcel_sized_def)
  have bounds: "o1 \<le> 96 + length data + 15" "o2 \<le> o1 + 4 * length hts + 15" "o3 \<le> o2 + 96 * length routers + 15"
    using o opt_size_bound [of "length data"] opt_size_bound [of "4 * length hts"]
      opt_size_bound [of "96 * length routers"] by simp_all
  have F64: "length F = 64" by (simp add: F)
  then have blk: "length (block 0 F) = 72" by (simp add: up8_def)
  have body: "mb_body b = block 0 F @ ?A @ ?B @ ?C @ ?D"
    using b r o by (simp add: parcel_body_def Let_def add.assoc)
  have w: "unat (of_nat (length data) :: u32) = length data" "unat (of_nat (length hts) :: u32) = length hts"
    "unat (of_nat (length routers) :: u32) = length routers"
    using small by (simp_all add: unat_word32)
  have P: "has_params b F" using size body F64 by (simp add: has_params_def)
  have a1: "read_array (build b) (opt_offset 96 (length data)) 1 = Ok data"
    by (rule read_opt_array [where pre = "block 0 F" and post = "?B @ ?C @ ?D"]) (use body blk small w in simp_all)
  have "read_array (build b) (opt_offset o1 (length (concat (map (to_le 4) hts)))) 4 = Ok (concat (map (to_le 4) hts))"
    by (rule read_opt_array [where pre = "block 0 F @ ?A" and post = "?C @ ?D"]) (use body blk small w o bounds in simp_all)
  then have a2: "read_array (build b) (opt_offset o1 (4 * length hts)) 4 = Ok (concat (map (to_le 4) hts))" by simp
  have "read_array (build b) (opt_offset o2 (length (concat routers))) 96 = Ok (concat routers)"
    by (rule read_opt_array [where pre = "block 0 F @ ?A @ ?B" and post = "?D"])
      (use body blk small w o bounds r(1) in simp_all)
  then have a3: "read_array (build b) (opt_offset o2 (96 * length routers)) 96 = Ok (concat routers)" using r(1) by simp
  have "objects_fit o3 ds" using small bounds by (simp add: objects_fit_def)
  then have a4: "c_objects (built_cursor b F (length ds)) = Ok (objects_of 0 ds)"
    unfolding c_objects_def cursor_sel
    by (intro read_opt_objects [where pre = "block 0 F @ ?A @ ?B @ ?C" and base = o3])
      (use body blk small o r(1) h in simp_all)
  have g: "need (built_cursor b F (length ds)) 64 m = m" for m :: "decoded_message link_result"
    using F64 by (intro need_built) (simp add: up8_def)
  have "dispatch (built_cursor b F (length ds)) = decode_accept_parcel (built_cursor b F (length ds))"
    by (simp add: dispatch_def Let_def i msg_ids)
  also have "\<dots> = Ok (AcceptParcel
    \<lparr>ap_sublink = s, ap_sequence_number = q, ap_subparcel_index = x, ap_num_subparcels = k,
     ap_parcel_fragment = f, ap_parcel_data = data, ap_handle_types = hts, ap_new_routers = concat routers,
     ap_driver_objects = objects_of 0 ds\<rparr>)"
    using parcel_fields [OF P [unfolded F], folded F] a1 a2 a3 a4
    by (simp add: decode_accept_parcel_def g words_roundtrip)
  finally show ?thesis using decode_built [OF P] by simp
qed

lemma builder_facts [simp]:
  "mb_body (builder_new i) = []" "lh_size (mb_header (builder_new i)) = 24"
  "lh_message_id (mb_header (builder_new i)) = i" "lh_driver_objects (mb_header (builder_new i)) = 0"
  "payload_len (builder_new i) = 24"
  by (simp_all add: builder_new_def payload_len_def ipcz_sizes)

text \<open>The data array is only appended when the data is not in a fragment.\<close>

definition inline_data :: "fragment option \<Rightarrow> byte list \<Rightarrow> byte list" where
  "inline_data frag data = (if frag = None then data else [])"

definition fragment_of :: "fragment option \<Rightarrow> fragment" where
  "fragment_of frag = (case frag of None \<Rightarrow> fragment_default | Some f \<Rightarrow> f)"

lemma encode_parcel_if:
  assumes fits: "parcel_sized (inline_data frag data) hts routers ds"
    and o: "o1 = 96 + opt_size (length (inline_data frag data))" "o2 = o1 + opt_size (4 * length hts)"
      "o3 = o2 + opt_size (96 * length routers)"
    and F: "F = parcel_params s q x k (fragment_of frag) (opt_offset 96 (length (inline_data frag data)))
      (opt_offset o1 (4 * length hts)) (opt_offset o2 (96 * length routers)) (of_nat (length ds))"
  shows "encode_accept_parcel_arrays s q x k frag data hts routers ds = (if no_gap ds then Some (build
    ((builder_new MSG_ID_ACCEPT_PARCEL)
      \<lparr>mb_body := parcel_body F (inline_data frag data) hts routers ds,
       mb_header := (mb_header (builder_new MSG_ID_ACCEPT_PARCEL))\<lparr>lh_driver_objects := opt_base o3 ds\<rparr>\<rparr>)) else None)"
proof -
  let ?d = "inline_data frag data" and ?n = "builder_new MSG_ID_ACCEPT_PARCEL"
  let ?hb = "concat (map (to_le 4) hts)" and ?rb = "concat routers"
  let ?A = "opt_block (of_nat (length ?d)) ?d" and ?B = "opt_block (of_nat (length hts)) ?hb"
  let ?C = "opt_block (of_nat (length routers)) ?rb"
  have r: "length ?rb = 96 * length routers" "sum_list (map length routers) = 96 * length routers"
    using fits concat_routers [of routers] by (auto simp: parcel_sized_def ROUTER_DESCRIPTOR_SIZE_def length_concat)
  have small: "200 + length ?d + 4 * length hts + 96 * length routers + 8 * length ds + objects_size ds < 2 ^ 32"
    "length ds < 2 ^ 16"
    using fits by (auto simp: parcel_sized_def)
  have bounds: "o1 \<le> 96 + length ?d + 15" "o2 \<le> o1 + 4 * length hts + 15" "o3 \<le> o2 + 96 * length routers + 15"
    using o opt_size_bound [of "length ?d"] opt_size_bound [of "4 * length hts"]
      opt_size_bound [of "96 * length routers"] by simp_all
  have lim: "n < 2 ^ 32 \<Longrightarrow> n < usize_limit" for n by (simp add: usize_limit_def)
  have off: "align8 (IPCZ_MESSAGE_HEADER_SIZE + 72) = Some 96"
    by (simp add: ipcz_sizes usize_limit_def up8_def)
  have n1: "(if frag \<noteq> None then Some (0, 96) else next_array 96 (length data)) = Some (opt_offset 96 (length ?d), o1)"
    using next_array_eq [of 96 "length data"] lim [of "96 + length data + 15"] small o(1)
    by (auto simp: inline_data_def opt_offset_def opt_size_def split: if_splits)
  have n2: "next_array o1 (length hts * 4) = Some (opt_offset o1 (4 * length hts), o2)"
    using next_array_eq [of o1 "4 * length hts"] lim [of "o1 + 4 * length hts + 15"] small bounds o(2)
    by (simp add: mult.commute)
  have n3: "next_array o2 (sum_list (map length routers)) = Some (opt_offset o2 (96 * length routers), o3)"
    using next_array_eq [of o2 "96 * length routers"] lim [of "o2 + 96 * length routers + 15"] small bounds o(3) r(2)
    by simp
  have F64: "length F = 64" by (simp add: F)
  have frag: "(case frag of Some f \<Rightarrow> fragment_bytes f | None \<Rightarrow> to_le 8 INVALID_BUFFER_ID @ to_le 4 (0 :: u32) @ to_le 4 (0 :: u32)) =
      fragment_bytes (fragment_of frag)"
    by (cases frag) (simp_all add: fragment_of_def fragment_bytes_def fragment_default_def)
  let ?p1 = "?n\<lparr>mb_body := block 0 F\<rparr>"
  let ?p2 = "?p1\<lparr>mb_body := block 0 F @ ?A\<rparr>"
  let ?p3 = "?p1\<lparr>mb_body := block 0 F @ ?A @ ?B\<rparr>"
  let ?p4 = "?p1\<lparr>mb_body := block 0 F @ ?A @ ?B @ ?C\<rparr>"
  have e1: "append_params ?n F = Some ?p1" using append_params_eq [of F ?n] F64 by simp
  have len: "payload_len ?p1 = 96" "payload_len ?p2 = o1" "payload_len ?p3 = o2" "payload_len ?p4 = o3"
    using o F64 r(1) by (simp_all add: payload_len_def ipcz_sizes up8_def)
  have e2: "append_some ?p1 (data \<noteq> [] \<and> frag = None) data (of_nat (length data)) = Some ?p2"
  proof (cases "frag = None")
    case True
    then show ?thesis using append_some_eq [of ?p1 data "of_nat (length data)"] len(1) small
      by (simp add: inline_data_def)
  next
    case False
    then show ?thesis by (auto simp: append_some_def inline_data_def opt_block_def)
  qed
  have nh: "(hts \<noteq> []) = (?hb \<noteq> [])"
    using concat_words [of hts] by (metis length_0_conv mult_is_0 zero_neq_numeral)
  have e3: "append_some ?p2 (hts \<noteq> []) ?hb (of_nat (length hts)) = Some ?p3"
    unfolding nh using append_some_eq [of ?p2 ?hb "of_nat (length hts)"] len(2) small bounds by simp
  have ne: "(routers \<noteq> []) = (?rb \<noteq> [])"
    using r(1) by (metis length_0_conv mult_is_0 zero_neq_numeral)
  have e4: "append_some ?p3 (routers \<noteq> []) ?rb (of_nat (length routers)) = Some ?p4"
    unfolding ne using append_some_eq [of ?p3 ?rb "of_nat (length routers)"] len(3) small bounds r(1) by simp
  have "objects_fit (payload_len ?p4) ds" using small bounds len(4) by (simp add: objects_fit_def)
  from append_opt_objects [OF this] have e5:
    "(if ds \<noteq> [] then append_driver_objects ?p4 ds else Some ?p4) =
      (if no_gap ds then Some (?p4\<lparr>mb_body := mb_body ?p4 @ opt_objects o3 ds,
               mb_header := (mb_header ?p4)\<lparr>lh_driver_objects := opt_base o3 ds\<rparr>\<rparr>) else None)"
    by (simp only: len(4)) simp
  show ?thesis
    unfolding encode_accept_parcel_arrays_def
    by (simp only: off Option.bind.simps n1 n2 n3 prod.case Let_def frag F [unfolded parcel_params_def, symmetric]
        e1 e2 e3 e4 e5)
      (simp add: parcel_body_def Let_def o r(1) add.assoc)
qed

lemma encode_parcel_eq:
  assumes fits: "parcel_fits (inline_data frag data) hts routers ds"
    and o: "o1 = 96 + opt_size (length (inline_data frag data))" "o2 = o1 + opt_size (4 * length hts)"
      "o3 = o2 + opt_size (96 * length routers)"
    and F: "F = parcel_params s q x k (fragment_of frag) (opt_offset 96 (length (inline_data frag data)))
      (opt_offset o1 (4 * length hts)) (opt_offset o2 (96 * length routers)) (of_nat (length ds))"
  shows "encode_accept_parcel_arrays s q x k frag data hts routers ds = Some (build
    ((builder_new MSG_ID_ACCEPT_PARCEL)
      \<lparr>mb_body := parcel_body F (inline_data frag data) hts routers ds,
       mb_header := (mb_header (builder_new MSG_ID_ACCEPT_PARCEL))\<lparr>lh_driver_objects := opt_base o3 ds\<rparr>\<rparr>))"
  using encode_parcel_if [OF _ o F] fits by (simp only: parcel_fits_def if_True simp_thms)

text \<open>C7: A parcel within the size limits, with data inline or in a fragment, any handle types and any
  transferred routers, is encoded exactly when no empty driver object stands before a non-empty one
  (the encoder panics otherwise), and then decodes to exactly what was encoded: the data is only
  sent inline when there is no fragment, and each driver object gets the descriptor of its position.\<close>
theorem accept_parcel_roundtrip:
  assumes "parcel_sized (inline_data frag data) hts routers ds"
  shows "if no_gap ds then \<exists>p. encode_accept_parcel_arrays s q x k frag data hts routers ds = Some p \<and>
      decode_message p (length ds) = Ok (AcceptParcel
        \<lparr>ap_sublink = s, ap_sequence_number = q, ap_subparcel_index = x, ap_num_subparcels = k,
         ap_parcel_fragment = fragment_of frag, ap_parcel_data = inline_data frag data, ap_handle_types = hts,
         ap_new_routers = concat routers, ap_driver_objects = objects_of 0 ds\<rparr>)
    else encode_accept_parcel_arrays s q x k frag data hts routers ds = None"
proof (cases "no_gap ds")
  case True
  note e = encode_parcel_if [OF assms refl refl refl refl, of s q x k, unfolded if_P [OF True]]
  have fits: "parcel_fits (inline_data frag data) hts routers ds" using assms True by (simp add: parcel_fits_def)
  show ?thesis unfolding if_P [OF True]
    by (rule exI, rule conjI, rule e, rule decode_parcel_body [OF _ _ _ fits refl refl refl _ refl]) simp_all
next
  case False
  then show ?thesis using encode_parcel_if [OF assms refl refl refl refl, of s q x k] by simp
qed

theorem accept_parcel_roundtrip_witness:
  "\<exists>p. encode_accept_parcel_arrays 1 2 0 1 None [1, 2, 3] [0, 1] [replicate 96 7] [[9], []] = Some p \<and>
    decode_message p 2 = Ok (AcceptParcel
      \<lparr>ap_sublink = 1, ap_sequence_number = 2, ap_subparcel_index = 0, ap_num_subparcels = 1,
       ap_parcel_fragment = fragment_default, ap_parcel_data = [1, 2, 3], ap_handle_types = [0, 1],
       ap_new_routers = replicate 96 7,
       ap_driver_objects = [\<lparr>dobj_data = [9], dobj_first_fd = 0, dobj_num_fds = 1\<rparr>,
         \<lparr>dobj_data = [], dobj_first_fd = 1, dobj_num_fds = 1\<rparr>]\<rparr>)"
proof -
  have "parcel_sized (inline_data None [1, 2, 3]) [0, 1] [replicate 96 7] [[9], []]"
    by (simp add: parcel_sized_def inline_data_def ROUTER_DESCRIPTOR_SIZE_def up8_def)
  from accept_parcel_roundtrip [OF this, of 1 2 0 1] show ?thesis
    by (simp add: fragment_of_def inline_data_def numeral_2_eq_2)
qed

section \<open>Hostile messages\<close>

named_theorems calm \<open>operations of the decoder that do not panic\<close>

lemma obind_calm [calm]:
  "m \<noteq> Panic \<Longrightarrow> (\<And>a. m = Ok a \<Longrightarrow> f a \<noteq> Panic) \<Longrightarrow> obind m f \<noteq> Panic"
  by (cases m) simp_all

lemma le_calm [calm]: "le_u32 b \<noteq> Panic" "le_u64 b \<noteq> Panic" "le_u16 b \<noteq> Panic"
  by (simp_all add: le_u32_def le_u64_def le_u16_def)

lemma slice_calm: "a \<le> c \<Longrightarrow> c \<le> length b \<Longrightarrow> obind (from_option (slice b a c)) f \<noteq> Panic \<longleftrightarrow> f (take (c - a) (drop a b)) \<noteq> Panic"
  by simp

definition in_range :: "cursor \<Rightarrow> bool" where
  "in_range c = (cu_end c \<le> length (cu_payload c))"

lemma field_calm [calm]:
  assumes "in_range c"
  shows "f_u32 c off \<noteq> Panic" "f_u64 c off \<noteq> Panic" "f_node c off \<noteq> Panic" "f_frag c off \<noteq> Panic"
proof -
  show a: "f_u32 c off \<noteq> Panic" "f_u64 c off \<noteq> Panic" for off
    using assms by (auto simp: f_u32_def f_u64_def in_range_def checked_add_def le_u32_def le_u64_def split: option.split)
  show "f_node c off \<noteq> Panic" "f_frag c off \<noteq> Panic"
    unfolding f_node_def f_frag_def by (intro calm a; simp)+
qed

lemma read_array_calm [calm]: "read_array p off k \<noteq> Panic"
  by (auto simp: read_array_def Let_def le_u32_def)

lemma chunks_exact_length: "x \<in> set (chunks_exact n xs) \<Longrightarrow> length x = n"
proof -
  assume "x \<in> set (chunks_exact n xs)"
  then obtain i where i: "i < length xs div n" "x = take n (drop (i * n) xs)"
    by (auto simp: chunks_exact_def)
  have "Suc i * n \<le> length xs" using i(1) div_times_less_eq_dividend [of "length xs" n]
    by (meson Suc_leI mult_le_mono1 order_trans)
  then show ?thesis using i(2) by simp
qed

lemma read_objects_calm: "\<forall>x \<in> set cs. length x = 8 \<Longrightarrow> read_objects p n k cs \<noteq> Panic"
  by (induction cs arbitrary: k) (simp_all add: Let_def le_u32_def le_u16_def obind_eq_Panic read_array_calm)

lemma objects_calm [calm]: "c_objects c \<noteq> Panic"
proof -
  have "read_objects p n k (chunks_exact 8 data) \<noteq> Panic" for p n k data
    by (rule read_objects_calm) (auto dest: chunks_exact_length)
  then show ?thesis
    by (simp add: c_objects_def read_driver_objects_def Let_def obind_eq_Panic read_array_calm)
qed

lemma need_calm [calm]: "m \<noteq> Panic \<Longrightarrow> need c n m \<noteq> Panic"
  by (simp add: need_def)

lemma collect_calm [calm]: "\<forall>m \<in> set ms. m \<noteq> Panic \<Longrightarrow> collect ms \<noteq> Panic"
  by (induction ms) (simp_all add: obind_eq_Panic)

lemma if_calm [calm]: "(b \<Longrightarrow> m \<noteq> Panic) \<Longrightarrow> (\<not> b \<Longrightarrow> m' \<noteq> Panic) \<Longrightarrow> (if b then m else m') \<noteq> Panic"
  by simp

lemma value_calm [calm]: "Ok a \<noteq> Panic" "Err e \<noteq> Panic"
  by simp_all

lemma arms_calm: "in_range c \<Longrightarrow> dispatch c \<noteq> Panic"
  unfolding dispatch_def Let_def decoders
  by (intro calm; (assumption | simp add: le_calm)?)

lemma decode_calm [calm]: "decode_message payload n \<noteq> Panic"
proof -
  have h: "parse_message_header payload \<noteq> Panic"
    by (simp add: parse_message_header_def ipcz_sizes)
  show ?thesis
    unfolding decode_message_def Let_def
    by (intro obind_calm h if_calm value_calm arms_calm)
      (auto simp: obind_eq_Panic le_calm in_range_def)
qed

text \<open>C19: Whatever bytes arrive and however many descriptors come with them, decoding a node message returns
  a message or an error; it never panics.\<close>
theorem decode_never_panics: "decode_message payload n \<noteq> Panic"
  by (rule decode_calm)

section \<open>Descriptors\<close>

text \<open>The descriptors an object claims.\<close>

definition claims :: "driver_object \<Rightarrow> nat list" where
  "claims obj = [dobj_first_fd obj ..< dobj_first_fd obj + dobj_num_fds obj]"

lemma read_objects_claims:
  "read_objects p n k cs = Ok objs \<Longrightarrow> k \<le> n \<Longrightarrow> concat (map claims objs) = [k..<n]"
proof (induction cs arbitrary: k objs)
  case (Cons c cs)
  then obtain m d objs' where o: "objs = \<lparr>dobj_data = d, dobj_first_fd = k, dobj_num_fds = m\<rparr> # objs'" "k + m \<le> n"
    "read_objects p n (k + m) cs = Ok objs'"
    by (auto simp: Let_def split: if_splits)
  then have "concat (map claims objs') = [k + m..<n]" using Cons.IH by blast
  moreover have "claims \<lparr>dobj_data = d, dobj_first_fd = k, dobj_num_fds = m\<rparr> = [k..<k + m]"
    by (simp add: claims_def)
  moreover have "[k..<k + m] @ [k + m..<n] = [k..<n]"
    using o(2) upt_add_eq_append [of k "k + m" "n - (k + m)"] by simp
  ultimately show ?case using o(1) by simp
qed (simp split: if_splits)

text \<open>C20: The driver objects of an accepted message share out its descriptors: in order, each descriptor belongs
  to exactly one object.  The one exception is a message without an object array, which leaves
  any descriptors that came with it unclaimed.\<close>
theorem descriptors_partitioned:
  assumes "read_driver_objects payload hdr n = Ok objs"
  shows "if lh_driver_objects hdr = 0 then objs = [] else concat (map claims objs) = [0..<n]"
  using assms by (auto simp: read_driver_objects_def Let_def intro: read_objects_claims split: if_splits)

theorem descriptors_partitioned_witness:
  "\<exists>b objs. read_driver_objects (build b) (mb_header b) 2 = Ok objs \<and>
    lh_driver_objects (mb_header b) = 24 \<and> concat (map claims objs) = [0..<2]"
proof -
  let ?b = "(builder_new 20)\<lparr>mb_body := object_blocks 24 [[1], []],
    mb_header := (mb_header (builder_new 20))\<lparr>lh_driver_objects := 24\<rparr>\<rparr>"
  have r: "read_driver_objects (build ?b) (mb_header ?b) (length [[1 :: byte], []]) = Ok (objects_of 0 [[1], []])"
    by (rule read_driver_objects_built [where pre = "[]" and base = 24]) (simp_all add: objects_fit_def up8_def no_gap_def)
  have "concat (map claims (objects_of 0 [[1 :: byte], []])) = [0..<2]"
    using descriptors_partitioned [OF r] by (simp add: upt_rec split: if_split_asm)
  then show ?thesis using r
    by (intro exI [of _ ?b] exI [of _ "objects_of 0 [[1], []]"]) (simp del: objects_of_simps add: numeral_2_eq_2)
qed

section \<open>Router descriptors\<close>

text \<open>A router descriptor encodes to 96 bytes that decode to the same descriptor, flags included.\<close>
theorem router_descriptor_roundtrip:
  "\<exists>b. router_descriptor_encode r = Some b \<and> length b = ROUTER_DESCRIPTOR_SIZE \<and> router_descriptor_decode b = Ok r"
  by (cases r)
    (simp add: router_descriptor_encode_def router_descriptor_decode_def ROUTER_DESCRIPTOR_SIZE_def Let_def
      u64_slice_def u32_slice_def le_u64_def le_u32_def fragment_bytes_def node_bytes_def)

section \<open>Greetings and introductions\<close>

lemma features_message:
  "\<exists>b F. message_with_features i k f = Some (build b) \<and> has_params b F \<and> lh_message_id (mb_header b) = i \<and>
    F = to_le 4 (0 :: u32) @ to_le 4 k @ to_le 4 (48 :: u32)"
proof -
  let ?F = "to_le 4 (0 :: u32) @ to_le 4 k @ to_le 4 (48 :: u32)"
  let ?m = "(builder_new i)\<lparr>mb_body := block 0 ?F\<rparr>"
  let ?b = "?m\<lparr>mb_body := mb_body ?m @ block 1 (to_le 8 f)\<rparr>"
  have p: "append_params (builder_new i) ?F = Some ?m" by (simp add: append_params_eq)
  have ne: "to_le 8 f \<noteq> []" by (metis length_to_le list.size(3) zero_neq_numeral)
  have l: "payload_len ?m = 48" by (simp add: payload_len_def ipcz_sizes up8_def)
  have a: "append_array ?m (to_le 8 f) 1 = Some (48, ?b)"
    using append_array_eq [OF ne, of ?m 1] l by simp
  have o: "align8 (8 + 12) = Some 24" "align8 (IPCZ_MESSAGE_HEADER_SIZE + 24) = Some 48"
    by (simp_all add: usize_limit_def up8_def ipcz_sizes)
  have "message_with_features i k f = Some (build ?b)"
    unfolding message_with_features_def by (simp only: o Option.bind.simps of_nat_numeral p a prod.case)
  moreover have "has_params ?b ?F" by (simp add: has_params_def)
  ultimately show ?thesis by fastforce
qed

lemma low_byte: "(from_le [x, y, 0, 0] :: u32) AND 0xff = ucast x"
proof -
  have "(0xff :: u32) = mask 8" by (simp add: mask_eq_exp_minus_1)
  then show ?thesis by (auto simp: bit_eq_iff bit_simps dest: bit_imp_le_length)
qed

lemma second_byte: "drop_bit 8 (from_le [x, y, 0, 0] :: u32) AND 0xff = ucast y"
proof -
  have "(0xff :: u32) = mask 8" by (simp add: mask_eq_exp_minus_1)
  then show ?thesis by (auto simp: bit_eq_iff bit_simps dest: bit_imp_le_length)
qed

text \<open>The greetings with a features array, the introduction with its transport and memory objects, and the
  driver object half of a split parcel decode to what was encoded.\<close>
theorem greetings_roundtrip:
  assumes "no_gap ds" "length ds < 2 ^ 16" "100 + 8 * length ds + objects_size ds < 2 ^ 32"
  shows "(\<exists>p. encode_connect_from_non_broker_to_broker k f = Some p \<and> decode_message p n =
      Ok (ConnectFromNonBrokerToBroker \<lparr>cb_protocol_version = 0, cb_num_initial_portals = k\<rparr>)) \<and>
    (\<exists>p. encode_connect_to_referred_broker k f = Some p \<and> decode_message p n =
      Ok (ConnectToReferredBroker \<lparr>crb_protocol_version = 0, crb_num_initial_portals = k\<rparr>)) \<and>
    (\<exists>p. encode_accept_parcel_driver_objects s q ds = Some p \<and> decode_message p (length ds) =
      Ok (AcceptParcelDriverObjects \<lparr>po_sublink = s, po_sequence_number = q, po_driver_objects = objects_of 0 ds\<rparr>))"
proof (intro conjI)
  obtain b F where b: "message_with_features MSG_ID_CONNECT_FROM_NON_BROKER_TO_BROKER k f = Some (build b)" "has_params b F"
    "lh_message_id (mb_header b) = MSG_ID_CONNECT_FROM_NON_BROKER_TO_BROKER"
    "F = to_le 4 (0 :: u32) @ to_le 4 k @ to_le 4 (48 :: u32)"
    using features_message by blast
  show "\<exists>p. encode_connect_from_non_broker_to_broker k f = Some p \<and> decode_message p n =
      Ok (ConnectFromNonBrokerToBroker \<lparr>cb_protocol_version = 0, cb_num_initial_portals = k\<rparr>)"
    using b by (simp add: encode_connect_from_non_broker_to_broker_def decode_built dispatch_def Let_def msg_ids
        decode_connect_to_broker_def read_built up8_def)
next
  obtain b F where b: "message_with_features MSG_ID_CONNECT_TO_REFERRED_BROKER k f = Some (build b)" "has_params b F"
    "lh_message_id (mb_header b) = MSG_ID_CONNECT_TO_REFERRED_BROKER"
    "F = to_le 4 (0 :: u32) @ to_le 4 k @ to_le 4 (48 :: u32)"
    using features_message by blast
  show "\<exists>p. encode_connect_to_referred_broker k f = Some p \<and> decode_message p n =
      Ok (ConnectToReferredBroker \<lparr>crb_protocol_version = 0, crb_num_initial_portals = k\<rparr>)"
    using b by (simp add: encode_connect_to_referred_broker_def decode_built dispatch_def Let_def msg_ids
        decode_connect_to_referred_broker_def read_built up8_def)
next
  let ?i = MSG_ID_ACCEPT_PARCEL_DRIVER_OBJECTS
  let ?F = "to_le 8 s @ to_le 8 q @ to_le 4 (0 :: u32) @ to_le 4 (of_nat (length ds) :: u32)"
  have "objects_fit (24 + up8 (8 + length ?F)) ds" using assms by (simp add: objects_fit_def up8_def)
  then obtain b where b: "append_params (builder_new ?i) ?F \<bind>
      (\<lambda>b. if ds \<noteq> [] then append_driver_objects b ds else Some b) = Some b"
    "has_params b ?F" "lh_message_id (mb_header b) = ?i" "c_objects (built_cursor b ?F (length ds)) = Ok (objects_of 0 ds)"
    using objects_message [of ?F ds ?i] assms by auto
  have "encode_accept_parcel_driver_objects s q ds = Some (build b)"
    using b(1) unfolding encode_accept_parcel_driver_objects_def
    by (auto simp del: append_assoc split: bind_splits)
  moreover have "dispatch (built_cursor b ?F (length ds)) =
      Ok (AcceptParcelDriverObjects \<lparr>po_sublink = s, po_sequence_number = q, po_driver_objects = objects_of 0 ds\<rparr>)"
    using b(2,3,4) by (simp add: dispatch_def Let_def msg_ids decode_parcel_objects_def read_built up8_def)
  ultimately show "\<exists>p. encode_accept_parcel_driver_objects s q ds = Some p \<and> decode_message p (length ds) =
      Ok (AcceptParcelDriverObjects \<lparr>po_sublink = s, po_sequence_number = q, po_driver_objects = objects_of 0 ds\<rparr>)"
    using decode_built [OF b(2), of "length ds"] by simp
qed

theorem greetings_roundtrip_witness:
  "(\<exists>p. encode_connect_from_non_broker_to_broker 2 0 = Some p \<and> decode_message p 0 =
      Ok (ConnectFromNonBrokerToBroker \<lparr>cb_protocol_version = 0, cb_num_initial_portals = 2\<rparr>)) \<and>
    (\<exists>p. encode_connect_to_referred_broker 2 0 = Some p \<and> decode_message p 0 =
      Ok (ConnectToReferredBroker \<lparr>crb_protocol_version = 0, crb_num_initial_portals = 2\<rparr>)) \<and>
    (\<exists>p. encode_accept_parcel_driver_objects 1 3 [[5]] = Some p \<and> decode_message p (length [[5 :: byte]]) =
      Ok (AcceptParcelDriverObjects \<lparr>po_sublink = 1, po_sequence_number = 3, po_driver_objects = objects_of 0 [[5]]\<rparr>))"
  by (rule greetings_roundtrip) (simp_all add: no_gap_def up8_def)

definition introduction_params :: "node_name \<Rightarrow> byte \<Rightarrow> byte \<Rightarrow> u32 \<Rightarrow> byte list" where
  "introduction_params a side ty v = node_bytes a @ [side] @ [ty] @ replicate 2 0 @ to_le 4 v @
     to_le 4 (0 :: u32) @ to_le 4 (1 :: u32) @ to_le 4 (72 :: u32)"

lemma introduction_fields:
  assumes P: "has_params b (introduction_params a side ty v)"
    and i: "lh_message_id (mb_header b) = MSG_ID_ACCEPT_INTRODUCTION"
    and obj: "c_objects (built_cursor b (introduction_params a side ty v) n) = Ok objs"
  shows "dispatch (built_cursor b (introduction_params a side ty v) n) =
    Ok (AcceptIntroduction \<lparr>ai_name = a, ai_link_side = ucast side, ai_remote_node_type = ucast ty,
      ai_remote_protocol_version = v, ai_transport_index = 0, ai_memory_index = 1, ai_driver_objects = objs\<rparr>)"
proof -
  let ?F = "introduction_params a side ty v"
  have l: "length ?F = 36" by (simp add: introduction_params_def)
  have "take 4 (drop 16 ?F) = [side, ty, 0, 0]"
    by (simp add: introduction_params_def node_bytes_def numeral_eq_Suc)
  then have s: "f_u32 (built_cursor b ?F n) 16 = Ok (from_le [side, ty, 0, 0])"
    using f_u32_built [OF P, of 16 n] l by (simp del: from_le.simps)
  have "f_u32 (built_cursor b ?F n) 20 = Ok v" "f_u32 (built_cursor b ?F n) 24 = Ok 0"
    "f_u32 (built_cursor b ?F n) 28 = Ok 1" "f_node (built_cursor b ?F n) 0 = Ok a"
    using P l by (simp_all add: read_built) (simp_all add: introduction_params_def node_bytes_def)
  then show ?thesis using s i obj l
    by (simp add: dispatch_def Let_def msg_ids decode_accept_introduction_def low_byte second_byte up8_def
        del: from_le.simps)
qed

text \<open>An introduction decodes to the name, the two enumeration bytes, the version, and both driver objects,
  with the descriptor of each.\<close>
theorem introduction_roundtrip:
  assumes "t \<noteq> []" "length t < 2 ^ 30" "length m < 2 ^ 30"
  shows "\<exists>p. encode_accept_introduction a side ty v t m = Some p \<and>
    decode_message p 2 = Ok (AcceptIntroduction \<lparr>ai_name = a, ai_link_side = ucast side,
      ai_remote_node_type = ucast ty, ai_remote_protocol_version = v, ai_transport_index = 0, ai_memory_index = 1,
      ai_driver_objects = objects_of 0 [t, m]\<rparr>)"
proof -
  let ?n = "builder_new MSG_ID_ACCEPT_INTRODUCTION" and ?z = "to_le 8 (0 :: u64)"
  let ?X = "node_bytes a @ [side] @ [ty] @ replicate 2 0 @ to_le 4 v @ to_le 4 (0 :: u32) @ to_le 4 (1 :: u32)"
  let ?F = "?X @ to_le 4 (72 :: u32)"
  have F: "?F = introduction_params a side ty v" by (simp add: introduction_params_def)
  let ?m1 = "?n\<lparr>mb_body := block 0 ?F\<rparr>"
  let ?m2 = "?n\<lparr>mb_body := block 0 ?F @ block 1 ?z\<rparr>"
  let ?m3 = "?n\<lparr>mb_body := block 0 ?F @ block 1 ?z @ object_blocks 88 [t, m],
    mb_header := (mb_header ?n)\<lparr>lh_driver_objects := 88\<rparr>\<rparr>"
  have p: "append_params ?n ?F = Some ?m1" using append_params_eq [of ?F ?n] by simp
  have ne: "?z \<noteq> []" by (metis length_to_le list.size(3) zero_neq_numeral)
  have l: "payload_len ?m1 = 72" "payload_len ?m2 = 88" by (simp_all add: payload_len_def ipcz_sizes up8_def)
  have e: "append_array ?m1 ?z 1 = Some (72, ?m2)" using append_array_eq [OF ne, of ?m1 1] l by simp
  have u: "up8 (8 + length t) \<le> length t + 15" "up8 (8 + length m) \<le> length m + 15"
    using up8_le [of "8 + length t"] up8_le [of "8 + length m"] by simp_all
  have fit: "objects_fit 88 [t, m]" "no_gap [t, m]" using u assms by (simp_all add: objects_fit_def no_gap_def)
  have d: "append_driver_objects ?m2 [t, m] = Some ?m3"
    using append_driver_objects_eq [of ?m2 "[t, m]"] l(2) fit by simp
  have al: "align8 (8 + length (?X @ to_le 4 (0 :: u32))) = Some 48" by (simp add: usize_limit_def up8_def)
  have c: "copy_into (?X @ to_le 4 (0 :: u32)) 32 (32 + 4) (to_le 4 (of_nat (IPCZ_MESSAGE_HEADER_SIZE + 48) :: u32)) = Some ?F"
    by (simp add: ipcz_sizes)
  have "encode_accept_introduction a side ty v t m = Some (build ?m3)"
    unfolding encode_accept_introduction_def Let_def
    using al c p e d by simp
  moreover have P: "has_params ?m3 ?F" by (simp add: has_params_def)
  moreover have "read_driver_objects (build ?m3) (mb_header ?m3) (length [t, m]) = Ok (objects_of 0 [t, m])"
    by (rule read_driver_objects_built [where pre = "block 0 ?F @ block 1 ?z" and base = 88])
      (use fit in \<open>simp_all add: up8_def\<close>)
  then have "c_objects (built_cursor ?m3 ?F (Suc (Suc 0))) = Ok (objects_of 0 [t, m])" by (simp add: c_objects_def)
  then have "dispatch (built_cursor ?m3 ?F (Suc (Suc 0))) = Ok (AcceptIntroduction \<lparr>ai_name = a, ai_link_side = ucast side,
      ai_remote_node_type = ucast ty, ai_remote_protocol_version = v, ai_transport_index = 0, ai_memory_index = 1,
      ai_driver_objects = objects_of 0 [t, m]\<rparr>)"
    using P unfolding F by (intro introduction_fields) simp_all
  ultimately show ?thesis using decode_built [OF P, of 2] by (simp add: numeral_2_eq_2)
qed

theorem introduction_roundtrip_witness:
  "\<exists>p. encode_accept_introduction \<lparr>nn_high = 1, nn_low = 2\<rparr> 1 1 0 [1] [2] = Some p \<and>
    decode_message p 2 = Ok (AcceptIntroduction \<lparr>ai_name = \<lparr>nn_high = 1, nn_low = 2\<rparr>, ai_link_side = ucast (1 :: byte),
      ai_remote_node_type = ucast (1 :: byte), ai_remote_protocol_version = 0, ai_transport_index = 0, ai_memory_index = 1,
      ai_driver_objects = objects_of 0 [[1], [2]]\<rparr>)"
  by (rule introduction_roundtrip) simp_all

end
