(* ===== verification/LinkStatus.thy ===== *)
theory LinkStatus
  imports Prelude
begin

text \<open>
  The status word of a router link, shared by the two processes at its ends: the
  compare-and-exchange loops of \<open>crates/mojo-rs-interop/src/ipcz/link_memory.rs\<close> that set a side
  stable, lock and unlock the link, and reset a waiting bit.  Each loop is a value of type
  \<open>cas_loop\<close>: what it expects, what it swaps in, what it returns, and how it goes on after a failed
  attempt.  \<open>cas_run\<close> runs a loop without interference; \<open>link_step\<close> interleaves the attempts
  of both sides, with weak exchanges that may fail spuriously.  Main results: the outcome of each
  operation, and mutual exclusion of the lock under every interleaving.
\<close>

unbundle bit_operations_syntax

section \<open>Status bits\<close>

definition UNSTABLE :: u32 where "UNSTABLE = 0"
definition SIDE_A_STABLE :: u32 where "SIDE_A_STABLE = push_bit 0 1"
definition SIDE_B_STABLE :: u32 where "SIDE_B_STABLE = push_bit 1 1"
definition STABLE :: u32 where "STABLE = SIDE_A_STABLE OR SIDE_B_STABLE"
definition SIDE_A_WAITING :: u32 where "SIDE_A_WAITING = push_bit 2 1"
definition SIDE_B_WAITING :: u32 where "SIDE_B_WAITING = push_bit 3 1"
definition LOCKED_BY_SIDE_A :: u32 where "LOCKED_BY_SIDE_A = push_bit 4 1"
definition LOCKED_BY_SIDE_B :: u32 where "LOCKED_BY_SIDE_B = push_bit 5 1"

definition side_a_stable :: "u32 \<Rightarrow> bool" where
  "side_a_stable s = (s AND SIDE_A_STABLE \<noteq> 0)"

definition side_b_stable :: "u32 \<Rightarrow> bool" where
  "side_b_stable s = (s AND SIDE_B_STABLE \<noteq> 0)"

definition is_stable :: "u32 \<Rightarrow> bool" where
  "is_stable s = (s AND STABLE = STABLE)"

text \<open>The bits of a side; \<open>True\<close> is side A.\<close>

definition stable_of :: "bool \<Rightarrow> u32" where
  "stable_of side_a = (if side_a then SIDE_A_STABLE else SIDE_B_STABLE)"

definition waiting_of :: "bool \<Rightarrow> u32" where
  "waiting_of side_a = (if side_a then SIDE_A_WAITING else SIDE_B_WAITING)"

definition locked_of :: "bool \<Rightarrow> u32" where
  "locked_of side_a = (if side_a then LOCKED_BY_SIDE_A else LOCKED_BY_SIDE_B)"

definition LOCKED_EITHER :: u32 where
  "LOCKED_EITHER = LOCKED_BY_SIDE_A OR LOCKED_BY_SIDE_B"

section \<open>Compare-and-exchange loops\<close>

datatype ('l, 'r) attempt = Again 'l | Return 'r

record ('l, 'r) cas_loop =
  cl_init :: 'l
  cl_expected :: "'l \<Rightarrow> u32"
  cl_desired :: "'l \<Rightarrow> u32"
  cl_result :: "'l \<Rightarrow> 'r"
  cl_retry :: "'l \<Rightarrow> u32 \<Rightarrow> ('l, 'r) attempt"

text \<open>Runs a loop on a word that nobody else changes, for at most \<open>fuel\<close> attempts.\<close>

fun cas_run :: "nat \<Rightarrow> ('l, 'r) cas_loop \<Rightarrow> 'l \<Rightarrow> u32 \<Rightarrow> ('r \<times> u32) option" where
  "cas_run 0 loop l w = None"
| "cas_run (Suc fuel) loop l w =
     (if w = cl_expected loop l then Some (cl_result loop l, cl_desired loop l)
      else case cl_retry loop l w of
        Return r \<Rightarrow> Some (r, w)
      | Again l' \<Rightarrow> cas_run fuel loop l' w)"

definition set_side_stable :: "bool \<Rightarrow> (u32, unit) cas_loop" where
  "set_side_stable side_a =
     \<lparr>cl_init = 0,
      cl_expected = (\<lambda>expected. expected),
      cl_desired = (\<lambda>expected. expected OR stable_of side_a),
      cl_result = (\<lambda>_. ()),
      cl_retry = (\<lambda>_ actual. if actual AND stable_of side_a \<noteq> 0 then Return () else Again actual)\<rparr>"

text \<open>The local state of the lock is the expected word and the bit to set.\<close>

definition try_lock :: "bool \<Rightarrow> (u32 \<times> u32, bool) cas_loop" where
  "try_lock side_a =
     (let this_stable = stable_of side_a; other_stable = stable_of (\<not> side_a);
          locked_by_this = locked_of side_a; this_waiting = waiting_of side_a in
      \<lparr>cl_init = (STABLE, locked_by_this),
       cl_expected = fst,
       cl_desired = (\<lambda>(expected, desired_bit). expected OR desired_bit),
       cl_result = (\<lambda>(expected, desired_bit). desired_bit = locked_by_this),
       cl_retry = (\<lambda>(_, desired_bit) expected.
         if expected AND LOCKED_EITHER \<noteq> 0 \<or> expected AND this_stable = 0 then Return False
         else if desired_bit = locked_by_this \<and> expected AND other_stable = 0 then Again (expected, this_waiting)
         else if desired_bit = this_waiting \<and> expected AND STABLE = STABLE then Again (expected, locked_by_this)
         else Again (expected, desired_bit))\<rparr>)"

definition unlock :: "bool \<Rightarrow> (u32 \<times> u32, unit) cas_loop" where
  "unlock side_a =
     \<lparr>cl_init = (STABLE OR locked_of side_a, STABLE),
      cl_expected = fst,
      cl_desired = snd,
      cl_result = (\<lambda>_. ()),
      cl_retry = (\<lambda>_ expected.
        if expected AND locked_of side_a = 0 then Return ()
        else Again (expected, expected AND NOT (locked_of side_a)))\<rparr>"

definition reset_waiting_bit :: "bool \<Rightarrow> (u32 \<times> u32, bool) cas_loop" where
  "reset_waiting_bit side_a =
     \<lparr>cl_init = (STABLE OR waiting_of side_a, STABLE),
      cl_expected = fst,
      cl_desired = snd,
      cl_result = (\<lambda>_. True),
      cl_retry = (\<lambda>_ expected.
        if expected AND STABLE \<noteq> STABLE \<or> expected AND waiting_of side_a = 0 \<or> expected AND LOCKED_EITHER \<noteq> 0
        then Return False
        else Again (expected, expected AND NOT (waiting_of side_a)))\<rparr>"

section \<open>Bits\<close>

lemmas status_defs = SIDE_A_STABLE_def SIDE_B_STABLE_def STABLE_def SIDE_A_WAITING_def SIDE_B_WAITING_def
  LOCKED_BY_SIDE_A_def LOCKED_BY_SIDE_B_def LOCKED_EITHER_def stable_of_def waiting_of_def locked_of_def

text \<open>The position of each bit, so that words are compared bit by bit.\<close>

definition stable_ix :: "bool \<Rightarrow> nat" where "stable_ix a = (if a then 0 else 1)"
definition waiting_ix :: "bool \<Rightarrow> nat" where "waiting_ix a = (if a then 2 else 3)"
definition locked_ix :: "bool \<Rightarrow> nat" where "locked_ix a = (if a then 4 else 5)"

lemmas ix_defs = stable_ix_def waiting_ix_def locked_ix_def

lemma and_bit: "w AND push_bit k 1 = 0 \<longleftrightarrow> \<not> bit w k" for w :: u32
  by (simp add: push_bit_of_1 and_exp_eq_0_iff_not_bit)

lemma bit_single: "bit (push_bit k 1 :: u32) j \<longleftrightarrow> j = k \<and> k < 32"
  by (auto simp: bit_simps)

lemma bits_of [simp]:
  "bit (stable_of a) k \<longleftrightarrow> k = stable_ix a" "bit (waiting_of a) k \<longleftrightarrow> k = waiting_ix a"
  "bit (locked_of a) k \<longleftrightarrow> k = locked_ix a" "bit STABLE k \<longleftrightarrow> k = stable_ix True \<or> k = stable_ix False"
  by (cases a; simp only: status_defs ix_defs bit_or_iff bit_single if_True if_False; auto; fail)+

lemma bit_tests [simp]:
  "w AND stable_of a = 0 \<longleftrightarrow> \<not> bit w (stable_ix a)"
  "w AND waiting_of a = 0 \<longleftrightarrow> \<not> bit w (waiting_ix a)"
  "w AND locked_of a = 0 \<longleftrightarrow> \<not> bit w (locked_ix a)"
  by (simp_all only: status_defs ix_defs and_bit if_distrib split: if_split) simp_all

lemma locked_either_iff [simp]: "w AND LOCKED_EITHER = 0 \<longleftrightarrow> \<not> bit w (locked_ix True) \<and> \<not> bit w (locked_ix False)"
proof -
  have "w AND LOCKED_EITHER = (w AND locked_of True) OR (w AND locked_of False)"
    by (simp add: LOCKED_EITHER_def locked_of_def bit.conj_disj_distrib)
  then show ?thesis by (simp add: or_eq_0_iff)
qed

lemma stable_iff [simp]: "w AND STABLE = STABLE \<longleftrightarrow> bit w (stable_ix True) \<and> bit w (stable_ix False)"
proof
  assume "w AND STABLE = STABLE"
  then have "bit w k" if "bit STABLE k" for k using that by (metis bit_and_iff)
  then show "bit w (stable_ix True) \<and> bit w (stable_ix False)" by simp
next
  assume "bit w (stable_ix True) \<and> bit w (stable_ix False)"
  then show "w AND STABLE = STABLE" by (intro bit_word_eqI) (auto simp only: bit_and_iff bits_of)
qed

lemma ix_distinct [simp]:
  "stable_ix a \<noteq> waiting_ix b" "waiting_ix a \<noteq> stable_ix b" "stable_ix a \<noteq> locked_ix b" "locked_ix a \<noteq> stable_ix b"
  "waiting_ix a \<noteq> locked_ix b" "locked_ix a \<noteq> waiting_ix b"
  "stable_ix a = stable_ix b \<longleftrightarrow> a = b" "waiting_ix a = waiting_ix b \<longleftrightarrow> a = b" "locked_ix a = locked_ix b \<longleftrightarrow> a = b"
  by (auto simp: ix_defs)

lemma ix_bound [simp]: "stable_ix a < 32" "waiting_ix a < 32" "locked_ix a < 32"
  by (auto simp: ix_defs)

lemma words_distinct [simp]: "waiting_of a \<noteq> locked_of b" "locked_of b \<noteq> waiting_of a"
  by (auto simp: status_defs)

section \<open>Running alone\<close>

text \<open>After a failed attempt the loop expects the word it saw, so without interference two attempts are
  enough.\<close>

definition refreshes :: "('l, 'r) cas_loop \<Rightarrow> bool" where
  "refreshes loop = (\<forall>l w l'. cl_retry loop l w = Again l' \<longrightarrow> cl_expected loop l' = w)"

lemma cas_run_alone:
  assumes "refreshes loop"
  shows "cas_run (2 + n) loop l w =
    (if w = cl_expected loop l then Some (cl_result loop l, cl_desired loop l)
     else case cl_retry loop l w of Return r \<Rightarrow> Some (r, w)
       | Again l' \<Rightarrow> Some (cl_result loop l', cl_desired loop l'))"
  using assms by (auto simp: refreshes_def numeral_2_eq_2 split: attempt.split)

lemma loops_refresh [simp]:
  "refreshes (set_side_stable a)" "refreshes (try_lock a)" "refreshes (unlock a)" "refreshes (reset_waiting_bit a)"
  by (auto simp: refreshes_def set_side_stable_def try_lock_def unlock_def reset_waiting_bit_def Let_def
      split: if_splits)

text \<open>What each operation does to a word on its own.\<close>

definition locked :: "u32 \<Rightarrow> bool \<Rightarrow> bool" where
  "locked w a = bit w (locked_ix a)"

lemma loops_alone:
  "cas_run (2 + n) (set_side_stable a) (cl_init (set_side_stable a)) w = Some ((), w OR stable_of a) \<and>
   cas_run (2 + n) (try_lock a) (cl_init (try_lock a)) w =
     (if is_stable w \<and> w AND LOCKED_EITHER = 0 then Some (True, w OR locked_of a)
      else if w AND LOCKED_EITHER = 0 \<and> w AND stable_of a \<noteq> 0 then Some (False, w OR waiting_of a)
      else Some (False, w)) \<and>
   cas_run (2 + n) (unlock a) (cl_init (unlock a)) w = Some ((), w AND NOT (locked_of a)) \<and>
   cas_run (2 + n) (reset_waiting_bit a) (cl_init (reset_waiting_bit a)) w =
     (if is_stable w \<and> w AND waiting_of a \<noteq> 0 \<and> w AND LOCKED_EITHER = 0
      then Some (True, w AND NOT (waiting_of a)) else Some (False, w))"
proof (intro conjI)
  show "cas_run (2 + n) (set_side_stable a) (cl_init (set_side_stable a)) w = Some ((), w OR stable_of a)"
    by (subst cas_run_alone [OF loops_refresh(1)]) (auto simp: set_side_stable_def intro: bit_word_eqI simp: bit_or_iff)
  have both: "bit w (stable_ix a) \<Longrightarrow> bit w (stable_ix (\<not> a)) \<Longrightarrow> bit w (stable_ix True) \<and> bit w (stable_ix False)"
    by (cases a) auto
  show "cas_run (2 + n) (try_lock a) (cl_init (try_lock a)) w =
     (if is_stable w \<and> w AND LOCKED_EITHER = 0 then Some (True, w OR locked_of a)
      else if w AND LOCKED_EITHER = 0 \<and> w AND stable_of a \<noteq> 0 then Some (False, w OR waiting_of a)
      else Some (False, w))"
    by (subst cas_run_alone [OF loops_refresh(2)]) (cases a; auto simp: try_lock_def is_stable_def Let_def)+
  show "cas_run (2 + n) (unlock a) (cl_init (unlock a)) w = Some ((), w AND NOT (locked_of a))"
    by (subst cas_run_alone [OF loops_refresh(3)])
      (auto simp: unlock_def intro!: bit_word_eqI simp: bit_or_iff bit_and_iff bit_not_iff)
  show "cas_run (2 + n) (reset_waiting_bit a) (cl_init (reset_waiting_bit a)) w =
     (if is_stable w \<and> w AND waiting_of a \<noteq> 0 \<and> w AND LOCKED_EITHER = 0
      then Some (True, w AND NOT (waiting_of a)) else Some (False, w))"
    by (subst cas_run_alone [OF loops_refresh(4)])
      (auto simp: reset_waiting_bit_def is_stable_def intro!: bit_word_eqI simp: bit_or_iff bit_and_iff bit_not_iff)
qed


section \<open>Both sides at once\<close>

text \<open>One attempt of a loop on the shared word.  A weak exchange may fail although the word is the expected
  one.\<close>

inductive cas_attempt :: "('l, 'r) cas_loop \<Rightarrow> 'l \<Rightarrow> u32 \<Rightarrow> u32 \<Rightarrow> ('l, 'r) attempt \<Rightarrow> bool" for loop where
  swapped: "w = cl_expected loop l \<Longrightarrow> cas_attempt loop l w (cl_desired loop l) (Return (cl_result loop l))"
| failed: "cas_attempt loop l w w (cl_retry loop l w)"

inductive_cases cas_attemptE: "cas_attempt loop l w w' r"

text \<open>What a side is doing; the flag of the operations that need no lock tells whether it holds the lock
  meanwhile.\<close>

datatype activity =
    Idle | Holding
  | Locking "u32 \<times> u32" | Unlocking "u32 \<times> u32"
  | Stabilizing bool u32 | Resetting bool "u32 \<times> u32"

fun holds :: "activity \<Rightarrow> bool" where
  "holds Idle = False"
| "holds Holding = True"
| "holds (Locking _) = False"
| "holds (Unlocking _) = True"
| "holds (Stabilizing h _) = h"
| "holds (Resetting h _) = h"

definition resting :: "bool \<Rightarrow> activity" where
  "resting h = (if h then Holding else Idle)"

record link_system =
  ls_word :: u32
  ls_side :: "bool \<Rightarrow> activity"

text \<open>The next activity of a side after an attempt of one of its loops.\<close>

definition after :: "('l \<Rightarrow> activity) \<Rightarrow> ('r \<Rightarrow> activity) \<Rightarrow> ('l, 'r) attempt \<Rightarrow> activity" where
  "after going finished r = (case r of Again l \<Rightarrow> going l | Return x \<Rightarrow> finished x)"

lemma after_simps [simp]: "after g f (Again l) = g l" "after g f (Return x) = f x"
  by (simp_all add: after_def)

definition move :: "link_system \<Rightarrow> bool \<Rightarrow> u32 \<Rightarrow> activity \<Rightarrow> link_system" where
  "move s a w act = \<lparr>ls_word = w, ls_side = (ls_side s)(a := act)\<rparr>"

lemma move_sel [simp]:
  "ls_word (move s a w act) = w" "ls_side (move s a w act) a = act" "ls_side (move s a w act) (\<not> a) = ls_side s (\<not> a)"
  by (simp_all add: move_def)

inductive link_step :: "link_system \<Rightarrow> link_system \<Rightarrow> bool" where
  start_lock: "ls_side s a = Idle \<Longrightarrow> link_step s (move s a (ls_word s) (Locking (cl_init (try_lock a))))"
| lock: "ls_side s a = Locking l \<Longrightarrow> cas_attempt (try_lock a) l (ls_word s) w r \<Longrightarrow>
    link_step s (move s a w (after Locking resting r))"
| start_unlock: "ls_side s a = Holding \<Longrightarrow> link_step s (move s a (ls_word s) (Unlocking (cl_init (unlock a))))"
| unlock: "ls_side s a = Unlocking l \<Longrightarrow> cas_attempt (unlock a) l (ls_word s) w r \<Longrightarrow>
    link_step s (move s a w (after Unlocking (\<lambda>_. Idle) r))"
| start_stable: "ls_side s a = resting h \<Longrightarrow>
    link_step s (move s a (ls_word s) (Stabilizing h (cl_init (set_side_stable a))))"
| stable: "ls_side s a = Stabilizing h l \<Longrightarrow> cas_attempt (set_side_stable a) l (ls_word s) w r \<Longrightarrow>
    link_step s (move s a w (after (Stabilizing h) (\<lambda>_. resting h) r))"
| start_reset: "ls_side s a = resting h \<Longrightarrow>
    link_step s (move s a (ls_word s) (Resetting h (cl_init (reset_waiting_bit a))))"
| reset: "ls_side s a = Resetting h l \<Longrightarrow> cas_attempt (reset_waiting_bit a) l (ls_word s) w r \<Longrightarrow>
    link_step s (move s a w (after (Resetting h) (\<lambda>_. resting h) r))"

inductive link_reachable :: "link_system \<Rightarrow> bool" where
  start: "w AND LOCKED_EITHER = 0 \<Longrightarrow> link_reachable \<lparr>ls_word = w, ls_side = (\<lambda>_. Idle)\<rparr>"
| step: "link_reachable s \<Longrightarrow> link_step s s' \<Longrightarrow> link_reachable s'"

text \<open>What a side knows about its expected and desired words.\<close>

fun knows :: "bool \<Rightarrow> activity \<Rightarrow> bool" where
  "knows a (Locking (e, d)) \<longleftrightarrow> \<not> bit e (locked_ix True) \<and> \<not> bit e (locked_ix False) \<and>
     (d = locked_of a \<and> is_stable e \<or> d = waiting_of a)"
| "knows a (Unlocking (e, d)) \<longleftrightarrow> bit e (locked_ix a) \<and> d = e AND NOT (locked_of a)"
| "knows a (Resetting h (e, d)) \<longleftrightarrow> d = e AND NOT (waiting_of a)"
| "knows a _ \<longleftrightarrow> True"

definition link_inv :: "link_system \<Rightarrow> bool" where
  "link_inv s = ((\<forall>a. knows a (ls_side s a)) \<and> (\<forall>a. bit (ls_word s) (locked_ix a) \<longleftrightarrow> holds (ls_side s a)) \<and>
     (\<forall>a. holds (ls_side s a) \<longrightarrow> is_stable (ls_word s) \<and> \<not> holds (ls_side s (\<not> a))))"

text \<open>A step of one side keeps the invariant when its word and its activity agree with it.\<close>

lemma link_inv_move:
  assumes inv: "link_inv s" and k: "knows a act" and own: "bit w (locked_ix a) \<longleftrightarrow> holds act"
    and other: "bit w (locked_ix (\<not> a)) \<longleftrightarrow> bit (ls_word s) (locked_ix (\<not> a))"
    and excl: "holds act \<Longrightarrow> \<not> holds (ls_side s (\<not> a))"
    and st: "holds act \<or> holds (ls_side s (\<not> a)) \<Longrightarrow> is_stable w"
  shows "link_inv (move s a w act)"
proof -
  have side: "ls_side (move s a w act) b = (if b = a then act else ls_side s (\<not> a))" for b
    by (cases "b = a") (auto simp: move_def)
  have "knows b (ls_side (move s a w act) b)" for b
    using inv k by (cases "b = a") (auto simp: side link_inv_def)
  moreover have "bit w (locked_ix b) \<longleftrightarrow> holds (ls_side (move s a w act) b)" for b
  proof (cases "b = a")
    case False
    then have "b = (\<not> a)" by simp
    then show ?thesis using inv other by (simp add: link_inv_def)
  qed (use own side in simp)
  moreover have "is_stable w \<and> \<not> holds (ls_side (move s a w act) (\<not> b))"
    if "holds (ls_side (move s a w act) b)" for b
    using that excl st inv by (cases "b = a") (auto simp: side link_inv_def split: if_splits)
  ultimately show ?thesis by (simp add: link_inv_def)
qed

lemma knows_init [simp]:
  "knows a (Locking (cl_init (try_lock a)))" "knows a (Unlocking (cl_init (unlock a)))"
  "knows a (Resetting h (cl_init (reset_waiting_bit a)))" "knows a (Stabilizing h l)" "knows a (resting h)"
  by (auto simp: try_lock_def unlock_def reset_waiting_bit_def Let_def is_stable_def resting_def bit_or_iff
      intro!: bit_word_eqI simp: bit_and_iff bit_not_iff)

lemma holds_resting [simp]: "holds (resting h) = h"
  by (simp add: resting_def)

lemma link_invD:
  assumes "link_inv s"
  shows "knows a (ls_side s a)" "bit (ls_word s) (locked_ix a) \<longleftrightarrow> holds (ls_side s a)"
    "holds (ls_side s a) \<Longrightarrow> is_stable (ls_word s)" "holds (ls_side s a) \<Longrightarrow> \<not> holds (ls_side s (\<not> a))"
  using assms by (auto simp: link_inv_def)

text \<open>An operation that leaves the word, or changes it outside the lock bits and keeps it stable.\<close>

lemma link_inv_calm:
  assumes inv: "link_inv s" and k: "knows a act" and h: "holds act = holds (ls_side s a)"
    and w: "\<And>b. bit w (locked_ix b) \<longleftrightarrow> bit (ls_word s) (locked_ix b)" "is_stable (ls_word s) \<Longrightarrow> is_stable w"
  shows "link_inv (move s a w act)"
  using link_invD [OF inv] k h w by (intro link_inv_move [OF inv]) metis+

lemma lock_attempt:
  assumes inv: "link_inv s" and l: "ls_side s a = Locking l" and c: "cas_attempt (try_lock a) l (ls_word s) w r"
  shows "link_inv (move s a w (after Locking resting r))"
proof -
  obtain e d where ed: "l = (e, d)" by (cases l)
  have k: "\<not> bit e (locked_ix b)" "d = locked_of a \<and> is_stable e \<or> d = waiting_of a" for b
    using link_invD(1) [OF inv, of a] l ed by (cases b; auto)+
  from c show ?thesis
  proof cases
    case swapped
    then have w: "ls_word s = e" "w = e OR d" "r = Return (d = locked_of a)"
      by (simp_all add: ed try_lock_def Let_def)
    have free: "\<not> holds (ls_side s b)" for b using link_invD(2) [OF inv, of b] k(1) w(1) by simp
    show ?thesis
    proof (cases "d = locked_of a")
      case True
      then have "is_stable w" using k(2) w(2) by (auto simp: is_stable_def bit_or_iff)
      then show ?thesis using inv k(1) w True free
        by (intro link_inv_move) (simp_all add: bit_or_iff)
    next
      case False
      then show ?thesis using inv k w l free
        by (intro link_inv_calm) (auto simp: bit_or_iff is_stable_def)
    qed
  next
    case failed
    have n: "\<not> holds (ls_side s a)" using l by simp
    have "knows a (after Locking resting r) \<and> \<not> holds (after Locking resting r)"
      unfolding failed using k(2)
      by (cases a) (auto simp: ed try_lock_def Let_def is_stable_def split: if_splits)
    then show ?thesis using inv n failed by (intro link_inv_calm) auto
  qed
qed

lemma unlock_attempt:
  assumes inv: "link_inv s" and l: "ls_side s a = Unlocking l" and c: "cas_attempt (unlock a) l (ls_word s) w r"
  shows "link_inv (move s a w (after Unlocking (\<lambda>_. Idle) r))"
proof -
  obtain e d where ed: "l = (e, d)" by (cases l)
  have k: "bit e (locked_ix a)" "d = e AND NOT (locked_of a)" using link_invD(1) [OF inv, of a] l ed by auto
  have h: "bit (ls_word s) (locked_ix a)" "is_stable (ls_word s)" "\<not> holds (ls_side s (\<not> a))"
    using link_invD [OF inv, of a] l by simp_all
  from c show ?thesis
  proof cases
    case swapped
    then have w: "ls_word s = e" "w = e AND NOT (locked_of a)" "r = Return ()" using k by (simp_all add: ed unlock_def)
    show ?thesis using inv w h(3) by (intro link_inv_move) (simp_all add: bit_and_iff bit_not_iff)
  next
    case failed
    then have "r = Again (ls_word s, ls_word s AND NOT (locked_of a))" using h(1) by (simp add: unlock_def)
    then show ?thesis using inv failed h(1) l by (intro link_inv_calm) auto
  qed
qed

lemma link_inv_step:
  assumes "link_step s s'" "link_inv s"
  shows "link_inv s'"
  using assms(1)
proof cases
  case (stable a h l w r)
  from stable(3) show ?thesis
  proof cases
    case swapped
    then show ?thesis unfolding stable(1) using assms(2) stable(2)
      by (intro link_inv_calm) (auto simp: set_side_stable_def bit_or_iff is_stable_def)
  next
    case failed
    then show ?thesis unfolding stable(1) using assms(2) stable(2)
      by (intro link_inv_calm) (auto simp: set_side_stable_def)
  qed
next
  case (reset a h l w r)
  obtain e d where ed: "l = (e, d)" by (cases l)
  have k: "d = e AND NOT (waiting_of a)" using link_invD(1) [OF assms(2), of a] reset(2) ed by simp
  from reset(3) show ?thesis
  proof cases
    case swapped
    then show ?thesis unfolding reset(1) using assms(2) reset(2) k
      by (intro link_inv_calm) (auto simp: ed reset_waiting_bit_def bit_and_iff bit_not_iff is_stable_def)
  next
    case failed
    then show ?thesis unfolding reset(1) using assms(2) reset(2)
      by (intro link_inv_calm) (auto simp: reset_waiting_bit_def)
  qed
qed (use assms(2) lock_attempt unlock_attempt in \<open>auto intro!: link_inv_calm\<close>)

lemma link_inv_reachable: "link_reachable s \<Longrightarrow> link_inv s"
proof (induction rule: link_reachable.induct)
  case (start w)
  then have "\<not> bit w (locked_ix a)" for a by (cases a) simp_all
  then show ?case by (simp add: link_inv_def)
next
  case (step s s')
  then show ?case using link_inv_step by blast
qed

text \<open>C4: Whatever the two sides do at once - attempting to lock, unlocking, setting themselves stable, resetting
  waiting bits, with exchanges that fail spuriously at any point - they never both hold the link,
  the lock bits say exactly who holds it, and a link is only held while both sides are stable.\<close>
theorem link_lock_exclusive:
  assumes "link_reachable s"
  shows "\<not> (holds (ls_side s True) \<and> holds (ls_side s False)) \<and>
    (\<forall>a. ls_word s AND locked_of a \<noteq> 0 \<longleftrightarrow> holds (ls_side s a)) \<and>
    (holds (ls_side s a) \<longrightarrow> is_stable (ls_word s))"
proof -
  have "link_inv s" using assms by (rule link_inv_reachable)
  then show ?thesis using link_invD [of s] by (metis (full_types) bit_tests(3))
qed

theorem link_lock_exclusive_witness:
  "link_reachable (move \<lparr>ls_word = STABLE, ls_side = (\<lambda>_. Idle)\<rparr> True (STABLE OR locked_of True) Holding) \<and>
   \<not> holds (ls_side (move \<lparr>ls_word = STABLE, ls_side = (\<lambda>_. Idle)\<rparr> True (STABLE OR locked_of True) Holding) False)"
proof -
  let ?s = "\<lparr>ls_word = STABLE, ls_side = (\<lambda>_. Idle)\<rparr>"
  let ?t = "move ?s True STABLE (Locking (cl_init (try_lock True)))"
  have "link_reachable ?s" by (rule link_reachable.start) simp
  moreover have "link_step ?s ?t" using link_step.start_lock [of ?s True] by simp
  moreover have c: "cas_attempt (try_lock True) (cl_init (try_lock True)) STABLE (STABLE OR locked_of True) (Return True)"
    using cas_attempt.swapped [of STABLE "try_lock True" "cl_init (try_lock True)"] by (simp add: try_lock_def Let_def)
  have "link_step ?t (move ?t True (STABLE OR locked_of True) Holding)"
    using link_step.lock [of ?t True "cl_init (try_lock True)" "STABLE OR locked_of True" "Return True"] c
    by (simp add: resting_def)
  moreover have "move ?t True (STABLE OR locked_of True) Holding = move ?s True (STABLE OR locked_of True) Holding"
    by (simp add: move_def)
  ultimately have r: "link_reachable (move ?s True (STABLE OR locked_of True) Holding)"
    by (metis link_reachable.step)
  then show ?thesis using link_lock_exclusive [OF r] by simp
qed

end
