(* ===== verification/LinkMemory.thy ===== *)
theory LinkMemory
  imports IpczMessages LinkStatus "HOL-Library.Log_Nat"
begin

text \<open>
  The memory shared by the two ends of a node link: \<open>crates/mojo-rs-interop/src/ipcz/link_memory.rs\<close>.
  A buffer is its list of bytes; a mapping is the whole buffer.  Adopting a descriptor takes what
  the system calls return as arguments: the contents of the object and whether mapping it works.
  An atomic access to a word is a read or write of its four or eight bytes; an access outside the
  mapping, undefined in the code, is \<open>Panic\<close>.  The free lists of the block allocators
  are linked through the block headers.  \<open>LinkBlocks\<close> proves the properties.
\<close>

section \<open>Constants\<close>

definition PRIMARY_BUFFER_SIZE :: nat where "PRIMARY_BUFFER_SIZE = 128 * 1024"
definition PRIMARY_BUFFER_HEADER_SIZE :: nat where "PRIMARY_BUFFER_HEADER_SIZE = 256"
definition MAX_INITIAL_PORTALS :: nat where "MAX_INITIAL_PORTALS = 12"
definition ROUTER_LINK_STATE_SIZE :: nat where "ROUTER_LINK_STATE_SIZE = 64"
definition INITIAL_LINK_STATES_OFFSET :: nat where "INITIAL_LINK_STATES_OFFSET = 0x100"
definition BLOCK_ALLOCATOR_64_OFFSET :: nat where "BLOCK_ALLOCATOR_64_OFFSET = 0x400"
definition BLOCK_ALLOCATOR_64_BLOCKS :: nat where "BLOCK_ALLOCATOR_64_BLOCKS = 1484"
definition FRAGMENT_HEADER_SIZE :: nat where "FRAGMENT_HEADER_SIZE = 8"
definition BLOCK_ALLOCATOR_256_OFFSET :: nat where "BLOCK_ALLOCATOR_256_OFFSET = 0x17700"
definition BLOCK_ALLOCATOR_256_BLOCKS :: nat where "BLOCK_ALLOCATOR_256_BLOCKS = 9"
definition BLOCK_ALLOCATOR_512_OFFSET :: nat where "BLOCK_ALLOCATOR_512_OFFSET = 0x18000"
definition BLOCK_ALLOCATOR_512_BLOCKS :: nat where "BLOCK_ALLOCATOR_512_BLOCKS = 8"
definition BLOCK_ALLOCATOR_1K_OFFSET :: nat where "BLOCK_ALLOCATOR_1K_OFFSET = 0x19000"
definition BLOCK_ALLOCATOR_1K_BLOCKS :: nat where "BLOCK_ALLOCATOR_1K_BLOCKS = 4"
definition BLOCK_ALLOCATOR_2K_OFFSET :: nat where "BLOCK_ALLOCATOR_2K_OFFSET = 0x1A000"
definition BLOCK_ALLOCATOR_2K_BLOCKS :: nat where "BLOCK_ALLOCATOR_2K_BLOCKS = 4"
definition BLOCK_ALLOCATOR_4K_OFFSET :: nat where "BLOCK_ALLOCATOR_4K_OFFSET = 0x1C000"
definition BLOCK_ALLOCATOR_4K_BLOCKS :: nat where "BLOCK_ALLOCATOR_4K_BLOCKS = 4"

definition PRIMARY_BLOCK_REGIONS :: "(u32 \<times> nat \<times> nat) list" where
  "PRIMARY_BLOCK_REGIONS =
     [(64, BLOCK_ALLOCATOR_64_OFFSET, BLOCK_ALLOCATOR_64_BLOCKS),
      (256, BLOCK_ALLOCATOR_256_OFFSET, BLOCK_ALLOCATOR_256_BLOCKS),
      (512, BLOCK_ALLOCATOR_512_OFFSET, BLOCK_ALLOCATOR_512_BLOCKS),
      (1024, BLOCK_ALLOCATOR_1K_OFFSET, BLOCK_ALLOCATOR_1K_BLOCKS),
      (2048, BLOCK_ALLOCATOR_2K_OFFSET, BLOCK_ALLOCATOR_2K_BLOCKS),
      (4096, BLOCK_ALLOCATOR_4K_OFFSET, BLOCK_ALLOCATOR_4K_BLOCKS)]"

definition MIN_BLOCK_ALLOCATOR_CAPACITY :: nat where "MIN_BLOCK_ALLOCATOR_CAPACITY = 8"
definition MIN_FRAGMENT_SIZE :: nat where "MIN_FRAGMENT_SIZE = 64"
definition MAX_FRAGMENT_SIZE_FOR_BLOCK_ALLOCATION :: nat where
  "MAX_FRAGMENT_SIZE_FOR_BLOCK_ALLOCATION = 1024 * 1024"
definition MAX_BLOCK_ALLOCATOR_CAPACITY_PER_FRAGMENT_SIZE :: nat where
  "MAX_BLOCK_ALLOCATOR_CAPACITY_PER_FRAGMENT_SIZE = 2 * 1024 * 1024"
definition PRIMARY_BUFFER_ID :: u64 where "PRIMARY_BUFFER_ID = 0"
definition LINK_STATUS_OFFSET :: nat where "LINK_STATUS_OFFSET = 4"
definition LINK_ALLOWED_SOURCE_OFFSET :: nat where "LINK_ALLOWED_SOURCE_OFFSET = 8"

text \<open>\<open>next_power_of_two\<close>, which panics when the power does not fit.\<close>

definition next_power_of_two :: "nat \<Rightarrow> nat option" where
  "next_power_of_two n = (let p = 2 ^ floorlog 2 (n - 1) in if p < usize_limit then Some p else None)"

definition get_block_size_for_fragment_size :: "nat \<Rightarrow> u32 option" where
  "get_block_size_for_fragment_size n = do {
     p \<leftarrow> next_power_of_two n;
     Some (of_nat (max MIN_FRAGMENT_SIZE p)) }"

section \<open>State\<close>

record block_header =
  bh_version :: u16
  bh_next :: u16

datatype memory_error = UnknownBuffer | OutOfBounds | Misaligned | NullDescriptor

datatype io_error = InvalidInput | InvalidData | AlreadyExists | OsError

record extra_buffer =
  xb_mapping :: "byte list"
  xb_block_size :: u32

record link_memory =
  lm_primary :: "byte list"
  lm_extra :: "u64 \<Rightarrow> extra_buffer option"
  lm_extra_order :: "u64 list"

type_synonym 'a memory_result = "(memory_error, 'a) outcome"

section \<open>Buffers\<close>

text \<open>The contents are \<open>None\<close> when the object cannot be opened at the size it must have.\<close>

definition adopt_primary :: "byte list option \<Rightarrow> bool \<Rightarrow> (io_error, link_memory) outcome" where
  "adopt_primary contents mapped =
     (case contents of
        None \<Rightarrow> Err OsError
      | Some bytes \<Rightarrow>
        if \<not> mapped then Err OsError
        else Ok \<lparr>lm_primary = bytes, lm_extra = Map.empty, lm_extra_order = []\<rparr>)"

definition valid_block_size :: "u32 \<Rightarrow> bool" where
  "valid_block_size block_size = (\<not> (block_size < of_nat MIN_FRAGMENT_SIZE \<or> block_size AND 7 \<noteq> 0))"

definition insert_buffer :: "link_memory \<Rightarrow> u64 \<Rightarrow> byte list \<Rightarrow> u32 \<Rightarrow> link_memory" where
  "insert_buffer m i bytes block_size =
     m\<lparr>lm_extra := (lm_extra m)(i \<mapsto> \<lparr>xb_mapping = bytes, xb_block_size = block_size\<rparr>),
       lm_extra_order := lm_extra_order m @ [i]\<rparr>"

definition add_buffer ::
  "link_memory \<Rightarrow> u64 \<Rightarrow> byte list option \<Rightarrow> bool \<Rightarrow> u32 \<Rightarrow> (io_error, link_memory) outcome" where
  "add_buffer m i contents mapped block_size =
     (if i = INVALID_BUFFER_ID then Err InvalidInput
      else if \<not> valid_block_size block_size then Err InvalidData
      else case contents of
        None \<Rightarrow> Err OsError
      | Some bytes \<Rightarrow>
        if length bytes div unat block_size < MIN_BLOCK_ALLOCATOR_CAPACITY then Err InvalidData
        else if \<not> mapped then Err OsError
        else if lm_extra m i \<noteq> None then Err AlreadyExists
        else Ok (insert_buffer m i bytes block_size))"

text \<open>The region of a new buffer: all blocks point at their successors, the last one back at the first.\<close>

definition initialized_region :: "nat \<Rightarrow> u32 \<Rightarrow> byte list option" where
  "initialized_region len block_size = do {
     let num_blocks = len div unat block_size;
     k \<leftarrow> usub num_blocks 1;
     let last = k * unat block_size;
     bytes \<leftarrow> copy_into (replicate len 0) last (last + 2) (to_le 2 (0 :: u16));
     copy_into bytes (last + 2) (last + 4) (to_le 2 (0 - of_nat num_blocks :: u16)) }"

definition register_buffer ::
  "link_memory \<Rightarrow> u64 \<Rightarrow> byte list option \<Rightarrow> bool \<Rightarrow> u32 \<Rightarrow> (io_error, link_memory) outcome" where
  "register_buffer m i contents mapped block_size =
     (if \<not> valid_block_size block_size then Err InvalidData
      else case contents of
        None \<Rightarrow> Err OsError
      | Some bytes \<Rightarrow>
        if length bytes div unat block_size < MIN_BLOCK_ALLOCATOR_CAPACITY then Err InvalidData
        else if \<not> mapped then Err OsError
        else obind (from_option (initialized_region (length bytes) block_size)) (\<lambda>region.
          Ok (insert_buffer m i region block_size)))"

definition buffer_for :: "link_memory \<Rightarrow> u64 \<Rightarrow> byte list memory_result" where
  "buffer_for m i =
     (if i = PRIMARY_BUFFER_ID then Ok (lm_primary m)
      else case lm_extra m i of None \<Rightarrow> Err UnknownBuffer | Some e \<Rightarrow> Ok (xb_mapping e))"

definition set_buffer :: "link_memory \<Rightarrow> u64 \<Rightarrow> byte list \<Rightarrow> link_memory" where
  "set_buffer m i bytes =
     (if i = PRIMARY_BUFFER_ID then m\<lparr>lm_primary := bytes\<rparr>
      else m\<lparr>lm_extra := (lm_extra m)(i := map_option (\<lambda>e. e\<lparr>xb_mapping := bytes\<rparr>) (lm_extra m i))\<rparr>)"

text \<open>The view of a descriptor.\<close>

definition fragment_view :: "link_memory \<Rightarrow> fragment \<Rightarrow> byte list memory_result" where
  "fragment_view m desc =
     (if fragment_is_null desc then Err NullDescriptor
      else if fr_offset desc mod 8 \<noteq> 0 then Err Misaligned
      else
      obind (buffer_for m (fr_buffer_id desc)) (\<lambda>buffer.
      case checked_add (unat (fr_offset desc)) (unat (fr_size desc)) of
        None \<Rightarrow> Err OutOfBounds
      | Some e \<Rightarrow>
        if e > length buffer then Err OutOfBounds
        else from_option (slice buffer (unat (fr_offset desc)) e)))"

text \<open>Storing bytes through the mutable view of a descriptor, from an offset in the view on.\<close>

definition store_view :: "link_memory \<Rightarrow> fragment \<Rightarrow> nat \<Rightarrow> byte list \<Rightarrow> link_memory memory_result" where
  "store_view m desc k bytes =
     obind (fragment_view m desc) (\<lambda>view.
     if length view < k + length bytes then Panic
     else
     obind (buffer_for m (fr_buffer_id desc)) (\<lambda>buffer.
     obind (from_option (copy_into buffer (unat (fr_offset desc) + k) (unat (fr_offset desc) + k + length bytes) bytes))
       (\<lambda>buffer. Ok (set_buffer m (fr_buffer_id desc) buffer))))"

text \<open>An atomic word at an offset from the start of a descriptor: only the descriptor is checked.\<close>

definition load_word :: "nat \<Rightarrow> link_memory \<Rightarrow> fragment \<Rightarrow> nat \<Rightarrow> 'w::len word memory_result" where
  "load_word n m desc k =
     obind (fragment_view m desc) (\<lambda>_.
     obind (buffer_for m (fr_buffer_id desc)) (\<lambda>buffer.
     from_option (word_at n buffer (unat (fr_offset desc) + k))))"

definition store_word :: "nat \<Rightarrow> link_memory \<Rightarrow> fragment \<Rightarrow> nat \<Rightarrow> 'w::len word \<Rightarrow> link_memory memory_result" where
  "store_word n m desc k w =
     obind (fragment_view m desc) (\<lambda>_.
     obind (buffer_for m (fr_buffer_id desc)) (\<lambda>buffer.
     obind (from_option (copy_into buffer (unat (fr_offset desc) + k) (unat (fr_offset desc) + k + n) (to_le n w)))
       (\<lambda>buffer. Ok (set_buffer m (fr_buffer_id desc) buffer))))"

section \<open>Identifiers and link states\<close>

definition initial_link_state_offset :: "nat \<Rightarrow> nat" where
  "initial_link_state_offset i = INITIAL_LINK_STATES_OFFSET + i * ROUTER_LINK_STATE_SIZE"

definition is_initial_link_state :: "fragment \<Rightarrow> bool" where
  "is_initial_link_state desc =
     (let initial_states_end = INITIAL_LINK_STATES_OFFSET + MAX_INITIAL_PORTALS * ROUTER_LINK_STATE_SIZE in
      if fr_buffer_id desc \<noteq> PRIMARY_BUFFER_ID then False
      else let off = unat (fr_offset desc) in INITIAL_LINK_STATES_OFFSET \<le> off \<and> off < initial_states_end)"

text \<open>\<open>fetch_add\<close>, \<open>fetch_sub\<close> and \<open>fetch_or\<close>: the old word and the memory with the new one.\<close>

definition fetch_update ::
  "nat \<Rightarrow> link_memory \<Rightarrow> fragment \<Rightarrow> nat \<Rightarrow> ('w::len word \<Rightarrow> 'w word) \<Rightarrow> ('w word \<times> link_memory) memory_result" where
  "fetch_update n m desc k f =
     obind (load_word n m desc k) (\<lambda>old. obind (store_word n m desc k (f old)) (\<lambda>m. Ok (old, m)))"

definition allocate_sublink_ids :: "link_memory \<Rightarrow> u64 \<Rightarrow> (u64 \<times> link_memory) memory_result" where
  "allocate_sublink_ids m count =
     fetch_update 8 m \<lparr>fr_buffer_id = PRIMARY_BUFFER_ID, fr_offset = 8, fr_size = 8\<rparr> 0 (\<lambda>w. w + count)"

definition allocate_new_buffer_id :: "link_memory \<Rightarrow> (u64 \<times> link_memory) memory_result" where
  "allocate_new_buffer_id m =
     fetch_update 8 m \<lparr>fr_buffer_id = PRIMARY_BUFFER_ID, fr_offset = 0, fr_size = 8\<rparr> 0 (\<lambda>w. w + 1)"

definition add_link_state_ref :: "link_memory \<Rightarrow> fragment \<Rightarrow> link_memory memory_result" where
  "add_link_state_ref m desc =
     obind (fetch_update 4 m desc 0 (\<lambda>w :: u32. w + 1)) (\<lambda>(_, m). Ok m)"

definition release_link_state_ref :: "link_memory \<Rightarrow> fragment \<Rightarrow> (bool \<times> link_memory) memory_result" where
  "release_link_state_ref m desc =
     obind (fetch_update 4 m desc 0 (\<lambda>w :: u32. w - 1)) (\<lambda>(old, m). Ok (old = 1, m))"

text \<open>A loop on the status word without interference: two attempts are enough.\<close>

definition run_status :: "('l, 'r) cas_loop \<Rightarrow> link_memory \<Rightarrow> fragment \<Rightarrow> ('r \<times> link_memory) memory_result" where
  "run_status loop m desc =
     obind (load_word 4 m desc LINK_STATUS_OFFSET) (\<lambda>w.
     case cas_run 2 loop (cl_init loop) w of
       None \<Rightarrow> Panic
     | Some (r, w') \<Rightarrow> obind (store_word 4 m desc LINK_STATUS_OFFSET w') (\<lambda>m. Ok (r, m)))"

definition read_allowed_bypass_source :: "link_memory \<Rightarrow> fragment \<Rightarrow> node_name memory_result" where
  "read_allowed_bypass_source m desc =
     obind (fragment_view m desc) (\<lambda>view.
     let off = LINK_ALLOWED_SOURCE_OFFSET in
     if length view < off + 8 then Err OutOfBounds
     else if length view < off + 16 then Err OutOfBounds
     else
     obind (from_option (word_at 8 view off)) (\<lambda>high.
     obind (from_option (word_at 8 view (off + 8))) (\<lambda>low. Ok \<lparr>nn_high = high, nn_low = low\<rparr>)))"

definition write_allowed_bypass_source :: "link_memory \<Rightarrow> fragment \<Rightarrow> node_name \<Rightarrow> link_memory memory_result" where
  "write_allowed_bypass_source m desc name =
     obind (fragment_view m desc) (\<lambda>view.
     if length view < LINK_ALLOWED_SOURCE_OFFSET + 16 then Err OutOfBounds
     else store_view m desc LINK_ALLOWED_SOURCE_OFFSET (node_bytes name))"

definition read_link_status :: "link_memory \<Rightarrow> fragment \<Rightarrow> u32 memory_result" where
  "read_link_status m desc =
     (if unat (fr_size desc) < ROUTER_LINK_STATE_SIZE then Err OutOfBounds
      else load_word 4 m desc LINK_STATUS_OFFSET)"

definition set_link_status_bits :: "link_memory \<Rightarrow> fragment \<Rightarrow> u32 \<Rightarrow> (u32 \<times> link_memory) memory_result" where
  "set_link_status_bits m desc bits =
     (if unat (fr_size desc) < ROUTER_LINK_STATE_SIZE then Err OutOfBounds
      else
      obind (fetch_update 4 m desc LINK_STATUS_OFFSET (\<lambda>w. w OR bits)) (\<lambda>(_, m).
      obind (load_word 4 m desc LINK_STATUS_OFFSET) (\<lambda>w. Ok (w, m))))"

section \<open>Block allocation\<close>

definition umul :: "nat \<Rightarrow> nat \<Rightarrow> nat option" where
  "umul a b = (if a * b < usize_limit then Some (a * b) else None)"

definition read_block_header :: "link_memory \<Rightarrow> fragment \<Rightarrow> block_header memory_result" where
  "read_block_header m desc =
     obind (fragment_view m desc) (\<lambda>view.
     if length view < 4 then Err OutOfBounds
     else
     obind (from_option (word_at 2 view 0)) (\<lambda>version.
     obind (from_option (word_at 2 view 2)) (\<lambda>nxt.
     Ok \<lparr>bh_version = version, bh_next = nxt\<rparr>)))"

text \<open>The word of a header; \<open>next\<close> is the high half.\<close>

definition header_word :: "u16 \<Rightarrow> u16 \<Rightarrow> u32" where
  "header_word version nxt = ucast version OR push_bit 16 (ucast nxt)"

definition write_block_header :: "link_memory \<Rightarrow> fragment \<Rightarrow> u16 \<Rightarrow> u16 \<Rightarrow> link_memory memory_result" where
  "write_block_header m desc version nxt = store_word 4 m desc 0 (header_word version nxt)"

text \<open>\<open>Some\<close> header when the exchange failed.\<close>

definition cas_front_header ::
  "link_memory \<Rightarrow> fragment \<Rightarrow> block_header \<Rightarrow> u16 \<Rightarrow> u16 \<Rightarrow> (block_header option \<times> link_memory) memory_result" where
  "cas_front_header m desc known version nxt =
     obind (load_word 4 m desc 0) (\<lambda>actual.
     if actual = header_word (bh_version known) (bh_next known)
     then obind (store_word 4 m desc 0 (header_word version nxt)) (\<lambda>m. Ok (None, m))
     else Ok (Some \<lparr>bh_version = ucast actual, bh_next = ucast (drop_bit 16 actual)\<rparr>, m))"

definition block_at :: "u64 \<Rightarrow> nat \<Rightarrow> u32 \<Rightarrow> fragment" where
  "block_at i off len = \<lparr>fr_buffer_id = i, fr_offset = of_nat off, fr_size = len\<rparr>"

text \<open>Where a relative link of a block leads.\<close>

definition next_index :: "nat \<Rightarrow> block_header \<Rightarrow> int" where
  "next_index idx h = int idx + sint (bh_next h) + 1"

text \<open>One turn of the loop that pops a block, then the loop itself.\<close>

definition pop_turn ::
  "link_memory \<Rightarrow> u64 \<Rightarrow> nat \<Rightarrow> u32 \<Rightarrow> nat \<Rightarrow> block_header \<Rightarrow>
   ((block_header, fragment option) attempt \<times> link_memory) memory_result" where
  "pop_turn m i region block_size num_blocks front =
     (let first_free = sint (bh_next front) + 1 in
      if first_free = 0 \<or> first_free \<ge> int num_blocks then Ok (Return None, m)
      else
      let idx = nat (first_free mod 2 ^ 64) in
      obind (from_option (umul idx (unat block_size))) (\<lambda>p.
      obind (from_option (uadd region p)) (\<lambda>off.
      obind (read_block_header m (block_at i off 4)) (\<lambda>hdr.
      let next_abs = next_index idx hdr in
      if next_abs < 0 \<or> next_abs \<ge> int num_blocks then Ok (Return None, m)
      else
      obind (cas_front_header m (block_at i region 4) front (bh_version front + 1) (of_int (next_abs - 1)))
        (\<lambda>(failed, m).
      case failed of
        Some updated \<Rightarrow> Ok (Again updated, m)
      | None \<Rightarrow> Ok (Return (Some (block_at i off block_size)), m))))))"

fun pop_loop ::
  "nat \<Rightarrow> link_memory \<Rightarrow> u64 \<Rightarrow> nat \<Rightarrow> u32 \<Rightarrow> nat \<Rightarrow> block_header \<Rightarrow>
   (fragment option \<times> link_memory) memory_result" where
  "pop_loop 0 m i region block_size num_blocks front = Panic"
| "pop_loop (Suc fuel) m i region block_size num_blocks front =
     obind (pop_turn m i region block_size num_blocks front) (\<lambda>(r, m).
     case r of
       Return b \<Rightarrow> Ok (b, m)
     | Again updated \<Rightarrow> pop_loop fuel m i region block_size num_blocks updated)"

definition pop_block ::
  "link_memory \<Rightarrow> u64 \<Rightarrow> nat \<Rightarrow> u32 \<Rightarrow> nat \<Rightarrow> (fragment option \<times> link_memory) memory_result" where
  "pop_block m i region block_size num_blocks =
     (if num_blocks = 0 \<or> num_blocks > 32767 then Ok (None, m)
      else
      obind (read_block_header m (block_at i region 4)) (\<lambda>front.
      pop_loop 2 m i region block_size num_blocks front))"

definition pool_sizes :: "link_memory \<Rightarrow> u32 list" where
  "pool_sizes m =
     remdups_adj (sort (map fst PRIMARY_BLOCK_REGIONS @
       map xb_block_size (List.map_filter (lm_extra m) (lm_extra_order m))))"

fun pop_extra :: "link_memory \<Rightarrow> u32 \<Rightarrow> u64 list \<Rightarrow> (fragment option \<times> link_memory) memory_result" where
  "pop_extra m pool_size [] = Ok (None, m)"
| "pop_extra m pool_size (i # ids) =
     (case lm_extra m i of
        None \<Rightarrow> Err UnknownBuffer
      | Some e \<Rightarrow>
        if xb_block_size e = pool_size then
          obind (from_option (if pool_size = 0 then None else Some (length (xb_mapping e) div unat pool_size))) (\<lambda>count.
          obind (pop_block m i 0 pool_size count) (\<lambda>(b, m).
          if b \<noteq> None then Ok (b, m) else pop_extra m pool_size ids))
        else pop_extra m pool_size ids)"

definition try_allocate_fragment :: "link_memory \<Rightarrow> nat \<Rightarrow> (fragment option \<times> link_memory) memory_result" where
  "try_allocate_fragment m n =
     (if n = 0 \<or> n > MAX_FRAGMENT_SIZE_FOR_BLOCK_ALLOCATION then Ok (None, m)
      else
      obind (from_option (get_block_size_for_fragment_size n)) (\<lambda>ideal.
      case find (\<lambda>s. s \<ge> ideal) (pool_sizes m) of
        None \<Rightarrow> Ok (None, m)
      | Some pool_size \<Rightarrow>
        obind (pop_extra m pool_size (rev (lm_extra_order m))) (\<lambda>(b, m).
        if b \<noteq> None then Ok (b, m)
        else case find (\<lambda>(s, _, _). s = pool_size) PRIMARY_BLOCK_REGIONS of
          None \<Rightarrow> Ok (None, m)
        | Some (_, off, count) \<Rightarrow> pop_block m PRIMARY_BUFFER_ID off pool_size count)))"

text \<open>One turn of the loop that frees a block, then the loop itself.\<close>

definition free_turn ::
  "link_memory \<Rightarrow> u64 \<Rightarrow> nat \<Rightarrow> nat \<Rightarrow> nat \<Rightarrow> nat \<Rightarrow> block_header \<Rightarrow>
   ((block_header, bool) attempt \<times> link_memory) memory_result" where
  "free_turn m i region block_size num_blocks idx front =
     (let first_free = sint (bh_next front) + 1 in
      if first_free < 0 \<or> first_free \<ge> int num_blocks then Ok (Return False, m)
      else
      let rel = of_int (first_free - int idx - 1) in
      obind (write_block_header m (block_at i (region + idx * block_size) 4) 0 rel) (\<lambda>m.
      obind (cas_front_header m (block_at i region 4) front (bh_version front + 1) (of_int (int idx - 1)))
        (\<lambda>(failed, m).
      case failed of
        Some updated \<Rightarrow> Ok (Again updated, m)
      | None \<Rightarrow> Ok (Return True, m))))"

fun free_loop ::
  "nat \<Rightarrow> link_memory \<Rightarrow> u64 \<Rightarrow> nat \<Rightarrow> nat \<Rightarrow> nat \<Rightarrow> nat \<Rightarrow> block_header \<Rightarrow> (bool \<times> link_memory) memory_result" where
  "free_loop 0 m i region block_size num_blocks idx front = Panic"
| "free_loop (Suc fuel) m i region block_size num_blocks idx front =
     obind (free_turn m i region block_size num_blocks idx front) (\<lambda>(r, m).
     case r of
       Return b \<Rightarrow> Ok (b, m)
     | Again updated \<Rightarrow> free_loop fuel m i region block_size num_blocks idx updated)"

text \<open>The allocator a block belongs to: its region, block size and number of blocks.\<close>

definition pool_of :: "link_memory \<Rightarrow> fragment \<Rightarrow> (nat \<times> nat \<times> nat) option" where
  "pool_of m desc =
     (if fr_buffer_id desc = PRIMARY_BUFFER_ID then
        (case find (\<lambda>(bs, off, count). unat (fr_size desc) = unat bs \<and> off \<le> unat (fr_offset desc) \<and>
               unat (fr_offset desc) + unat (fr_size desc) \<le> off + count * unat bs) PRIMARY_BLOCK_REGIONS of
           None \<Rightarrow> None
         | Some (bs, off, count) \<Rightarrow> Some (off, unat bs, count))
      else
        (case lm_extra m (fr_buffer_id desc) of
           None \<Rightarrow> None
         | Some e \<Rightarrow>
           if unat (xb_block_size e) \<noteq> unat (fr_size desc) then None
           else Some (0, unat (xb_block_size e), length (xb_mapping e) div unat (xb_block_size e))))"

definition free_block :: "link_memory \<Rightarrow> fragment \<Rightarrow> (bool \<times> link_memory) memory_result" where
  "free_block m desc =
     (case pool_of m desc of
        None \<Rightarrow> Ok (False, m)
      | Some (region, block_size, num_blocks) \<Rightarrow>
        obind (from_option (usub (unat (fr_offset desc)) region)) (\<lambda>d.
        obind (from_option (if block_size = 0 then None else Some (d div block_size))) (\<lambda>idx.
        if idx = 0 \<or> idx \<ge> num_blocks then Ok (False, m)
        else
        obind (read_block_header m (block_at (fr_buffer_id desc) region 4)) (\<lambda>front.
        free_loop 2 m (fr_buffer_id desc) region block_size num_blocks idx front))))"

definition get_total_block_capacity :: "link_memory \<Rightarrow> u32 \<Rightarrow> nat" where
  "get_total_block_capacity m block_size =
     (case find (\<lambda>(s, _, _). s = block_size) PRIMARY_BLOCK_REGIONS of
        None \<Rightarrow> 0
      | Some (_, _, count) \<Rightarrow> (count - 1) * unat block_size) +
     sum_list (map (\<lambda>e. (length (xb_mapping e) div unat block_size - 1) * unat block_size)
       (filter (\<lambda>e. xb_block_size e = block_size) (List.map_filter (lm_extra m) (lm_extra_order m))))"

definition can_expand_block_capacity :: "link_memory \<Rightarrow> u32 \<Rightarrow> bool" where
  "can_expand_block_capacity m block_size =
     (get_total_block_capacity m block_size < MAX_BLOCK_ALLOCATOR_CAPACITY_PER_FRAGMENT_SIZE)"

section \<open>Link states and parcels in fragments\<close>

definition try_allocate_link_state :: "link_memory \<Rightarrow> (fragment option \<times> link_memory) memory_result" where
  "try_allocate_link_state m =
     obind (try_allocate_fragment m ROUTER_LINK_STATE_SIZE) (\<lambda>(b, m).
     case b of
       None \<Rightarrow> Ok (None, m)
     | Some blk \<Rightarrow>
       obind (store_view m blk 0 (to_le 4 (1 :: u32))) (\<lambda>m.
       obind (fragment_view m blk) (\<lambda>view.
       if length view < 4 then Panic
       else obind (store_view m blk 4 (replicate (length view - 4) 0)) (\<lambda>m. Ok (Some blk, m)))))"

definition read_parcel_fragment :: "link_memory \<Rightarrow> fragment \<Rightarrow> byte list memory_result" where
  "read_parcel_fragment m desc =
     (if unat (fr_size desc) < FRAGMENT_HEADER_SIZE then Err OutOfBounds
      else
      obind (fragment_view m desc) (\<lambda>view.
      obind (load_word 4 m desc 0) (\<lambda>size :: u32.
      if length view < FRAGMENT_HEADER_SIZE + unat size then Err OutOfBounds
      else from_option (slice view FRAGMENT_HEADER_SIZE (FRAGMENT_HEADER_SIZE + unat size)))))"

definition write_parcel_fragment :: "link_memory \<Rightarrow> byte list \<Rightarrow> (fragment \<times> link_memory) memory_result" where
  "write_parcel_fragment m data =
     obind (from_option (uadd (length data) FRAGMENT_HEADER_SIZE)) (\<lambda>requested.
     obind (try_allocate_fragment m requested) (\<lambda>(b, m).
     case b of
       None \<Rightarrow> Err OutOfBounds
     | Some blk \<Rightarrow>
       obind (store_view m blk 4 (to_le 4 (0 :: u32))) (\<lambda>m.
       obind (store_view m blk FRAGMENT_HEADER_SIZE data) (\<lambda>m.
       obind (store_word 4 m blk 0 (of_nat (length data) :: u32)) (\<lambda>m. Ok (blk, m))))))"

end
