(* ===== verification/LinkBlocks.thy ===== *)
theory LinkBlocks
  imports LinkMemory
begin

text \<open>
  Properties of the link memory: what fragment views give, the block allocators as free lists, the
  history of allocations, and parcels in fragments.
\<close>

section \<open>Views\<close>

lemma fragment_view_eq:
  assumes "fr_buffer_id d \<noteq> - 1" "fr_offset d mod 8 = 0" "buffer_for m (fr_buffer_id d) = Ok buf"
    "unat (fr_offset d) + unat (fr_size d) \<le> length buf"
  shows "fragment_view m d = Ok (take (unat (fr_size d)) (drop (unat (fr_offset d)) buf))"
proof -
  have "unat (fr_offset d) < 2 ^ 32" "unat (fr_size d) < 2 ^ 32"
    using unsigned_less [of "fr_offset d"] unsigned_less [of "fr_size d"] by simp_all
  then have "unat (fr_offset d) + unat (fr_size d) < usize_limit" by (simp add: usize_limit_def)
  then show ?thesis using assms by (simp add: fragment_view_def fragment_is_null_def INVALID_BUFFER_ID_def)
qed

section \<open>Words in a buffer\<close>

definition put :: "byte list \<Rightarrow> nat \<Rightarrow> byte list \<Rightarrow> byte list" where
  "put buf off bytes = take off buf @ bytes @ drop (off + length bytes) buf"

definition word32 :: "byte list \<Rightarrow> nat \<Rightarrow> u32" where
  "word32 buf off = from_le (take 4 (drop off buf))"

lemma length_put [simp]: "off + length bytes \<le> length buf \<Longrightarrow> length (put buf off bytes) = length buf"
  by (simp add: put_def)

lemma read_put_same: "off + length bytes \<le> length buf \<Longrightarrow> take (length bytes) (drop off (put buf off bytes)) = bytes"
  by (simp add: put_def)

lemma read_put_other:
  assumes "off + length bytes \<le> length buf" "a + n \<le> off \<or> off + length bytes \<le> a"
  shows "take n (drop a (put buf off bytes)) = take n (drop a buf)"
proof (cases "a + n \<le> off")
  case True
  then have "a \<le> off" "n \<le> off - a" by simp_all
  then have "take n (drop a (put buf off bytes)) = take n (drop a (take off buf))"
    using assms(1) by (simp add: put_def)
  also have "\<dots> = take n (drop a buf)"
    using \<open>n \<le> off - a\<close> by (simp add: drop_take min_absorb1)
  finally show ?thesis .
next
  case False
  then have "off + length bytes \<le> a" using assms(2) by simp
  then obtain k where k: "a = off + length bytes + k" using le_Suc_ex by blast
  have "drop a (put buf off bytes) = drop a buf"
    unfolding put_def k using assms(1) by (simp add: add.commute add.left_commute)
  then show ?thesis by simp
qed

lemma word32_put:
  assumes "off + length bytes \<le> length buf" "a + 4 \<le> off \<or> off + length bytes \<le> a"
  shows "word32 (put buf off bytes) a = word32 buf a"
  using read_put_other [OF assms] by (simp add: word32_def)

lemma word32_put_same [simp]: "off + 4 \<le> length buf \<Longrightarrow> word32 (put buf off (to_le 4 w)) off = w"
  using read_put_same [of off "to_le 4 w" buf] by (simp add: word32_def from_le_to_le)

lemma copy_into_put: "off + length bytes \<le> length buf \<Longrightarrow> copy_into buf off (off + length bytes) bytes = Some (put buf off bytes)"
  by (simp add: put_def)

text \<open>The two halves of a header word.\<close>

definition word_header :: "u32 \<Rightarrow> block_header" where
  "word_header w = \<lparr>bh_version = ucast w, bh_next = ucast (drop_bit 16 w)\<rparr>"

lemma header_word_header [simp]: "header_word (bh_version (word_header w)) (bh_next (word_header w)) = w"
  by (rule bit_word_eqI) (auto simp: header_word_def word_header_def bit_simps)

lemma word_header_word [simp]: "word_header (header_word v n) = \<lparr>bh_version = v, bh_next = n\<rparr>"
  by (auto simp: header_word_def word_header_def bit_eq_iff bit_simps dest: bit_imp_le_length)

lemma header_bytes:
  assumes "4 \<le> length b"
  shows "from_le (take 2 b) = (ucast (from_le (take 4 b) :: u32) :: u16)"
    "from_le (take 2 (drop 2 b)) = (ucast (drop_bit 16 (from_le (take 4 b) :: u32)) :: u16)"
proof -
  show "from_le (take 2 b) = (ucast (from_le (take 4 b) :: u32) :: u16)"
    using assms by (intro bit_word_eqI) (auto simp: bit_from_le bit_simps)
  have k: "(16 + k) div 8 = 2 + k div 8" "(16 + k) mod 8 = k mod 8" for k :: nat by presburger+
  show "from_le (take 2 (drop 2 b)) = (ucast (drop_bit 16 (from_le (take 4 b) :: u32)) :: u16)"
    using assms by (intro bit_word_eqI) (auto simp: bit_from_le bit_simps k)
qed

section \<open>Allocators and their free lists\<close>

lemma buffer_for_set [simp]:
  "buffer_for m i = Ok buf \<Longrightarrow> buffer_for (set_buffer m i b) j = (if j = i then Ok b else buffer_for m j)"
  by (auto simp: buffer_for_def set_buffer_def split: if_splits option.splits)

lemma set_buffer_extra:
  "lm_extra_order (set_buffer m i b) = lm_extra_order m"
  "map_option xb_block_size (lm_extra (set_buffer m i b) j) = map_option xb_block_size (lm_extra m j)"
  by (auto simp: set_buffer_def option.map_comp comp_def)

record pool =
  pl_buffer :: u64
  pl_region :: nat
  pl_block :: u32
  pl_count :: nat

definition block_off :: "pool \<Rightarrow> nat \<Rightarrow> nat" where
  "block_off p k = pl_region p + k * unat (pl_block p)"

text \<open>A pool on the bytes of its buffer.\<close>

definition pool_fits :: "pool \<Rightarrow> byte list \<Rightarrow> bool" where
  "pool_fits p buf = (pl_buffer p \<noteq> - 1 \<and> block_off p (pl_count p) \<le> length buf \<and> length buf < 2 ^ 31 \<and>
     pl_region p mod 8 = 0 \<and> unat (pl_block p) mod 8 = 0 \<and> 64 \<le> unat (pl_block p) \<and>
     0 < pl_count p \<and> pl_count p \<le> 32767)"

definition link_of :: "byte list \<Rightarrow> pool \<Rightarrow> nat \<Rightarrow> int" where
  "link_of buf p k = next_index k (word_header (word32 buf (block_off p k)))"

text \<open>The free list: a chain of links from block 0 through the free blocks and back to block 0.\<close>

fun chain :: "(nat \<Rightarrow> int) \<Rightarrow> nat \<Rightarrow> nat \<Rightarrow> nat list \<Rightarrow> bool" where
  "chain nx n i [] \<longleftrightarrow> nx i = 0"
| "chain nx n i (f # fs) \<longleftrightarrow> nx i = int f \<and> 0 < f \<and> f < n \<and> chain nx n f fs"

definition free_list :: "byte list \<Rightarrow> pool \<Rightarrow> nat list \<Rightarrow> bool" where
  "free_list buf p fs = (chain (link_of buf p) (pl_count p) 0 fs \<and> distinct fs)"

lemma chain_bounds: "chain nx n i fs \<Longrightarrow> f \<in> set fs \<Longrightarrow> 0 < f \<and> f < n"
  by (induction fs arbitrary: i) auto

lemma chain_cong: "(\<And>k. k = i \<or> k \<in> set fs \<Longrightarrow> nx k = nx' k) \<Longrightarrow> chain nx n i fs = chain nx' n i fs"
  by (induction fs arbitrary: i) auto

lemma block_off_bounds:
  assumes "pool_fits p buf" "k < pl_count p"
  shows "block_off p k + unat (pl_block p) \<le> length buf" "block_off p k mod 8 = 0" "block_off p k < 2 ^ 31"
    "block_off p k + 64 \<le> length buf" "k * unat (pl_block p) < 2 ^ 31"
proof -
  have "Suc k * unat (pl_block p) \<le> pl_count p * unat (pl_block p)" using assms(2) by (intro mult_le_mono1) simp
  then show b: "block_off p k + unat (pl_block p) \<le> length buf"
    using assms(1) by (simp add: block_off_def pool_fits_def)
  show "block_off p k mod 8 = 0" using assms(1) by (auto simp: block_off_def pool_fits_def mod_eq_0_iff_dvd)
  show "block_off p k < 2 ^ 31" "block_off p k + 64 \<le> length buf" using b assms(1) by (simp_all add: pool_fits_def)
  then show "k * unat (pl_block p) < 2 ^ 31" by (simp add: block_off_def)
qed

lemma block_off_apart:
  assumes "j < k"
  shows "block_off p j + unat (pl_block p) \<le> block_off p k"
proof -
  have "Suc j * unat (pl_block p) \<le> k * unat (pl_block p)" using assms by (intro mult_le_mono1) simp
  then show ?thesis by (simp add: block_off_def)
qed

lemma block_off_zero [simp]: "block_off p 0 = pl_region p"
  by (simp add: block_off_def)

lemma of_nat_mod8: "off < 2 ^ 32 \<Longrightarrow> off mod 8 = 0 \<Longrightarrow> (of_nat off :: u32) mod 8 = 0"
proof -
  assume a: "off < 2 ^ 32" "off mod 8 = 0"
  have "unat ((of_nat off :: u32) mod 8) = unat (of_nat off :: u32) mod unat (8 :: u32)"
    by (rule unat_mod_distrib)
  also have "\<dots> = 0" using a by (simp add: unat_word32)
  finally show ?thesis by (simp only: unsigned_eq_0_iff)
qed

lemma header_view:
  assumes "buffer_for m i = Ok buf" "i \<noteq> - 1" "off mod 8 = 0" "off + 4 \<le> length buf" "off < 2 ^ 31"
  shows "fragment_view m (block_at i off 4) = Ok (take 4 (drop off buf))"
    "fr_buffer_id (block_at i off l) = i" "unat (fr_offset (block_at i off l)) = off"
proof -
  have "unat (of_nat off :: u32) = off" using assms(5) by (intro unat_word32) simp
  then show u: "unat (fr_offset (block_at i off l)) = off" "fr_buffer_id (block_at i off l) = i" for l
    by (simp_all add: block_at_def)
  have "fr_offset (block_at i off 4) mod 8 = 0" using assms(3,5) of_nat_mod8 [of off] by (simp add: block_at_def)
  then show "fragment_view m (block_at i off 4) = Ok (take 4 (drop off buf))"
    using fragment_view_eq [of "block_at i off 4" m buf] assms(1,2,4) u by (simp add: block_at_def)
qed

lemma read_header_eq:
  assumes "buffer_for m i = Ok buf" "i \<noteq> - 1" "off mod 8 = 0" "off + 4 \<le> length buf" "off < 2 ^ 31"
  shows "read_block_header m (block_at i off 4) = Ok (word_header (word32 buf off))"
proof -
  have "4 \<le> length (drop off buf)" using assms(4) by simp
  moreover have "4 \<le> length buf - off" using assms(4) by simp
  ultimately show ?thesis using header_bytes [of "drop off buf"] header_view [OF assms] assms(4)
    by (simp add: read_block_header_def word_header_def word32_def drop_take min_def)
qed

lemma store_header_eq:
  assumes "buffer_for m i = Ok buf" "i \<noteq> - 1" "off mod 8 = 0" "off + 4 \<le> length buf" "off < 2 ^ 31"
  shows "store_word 4 m (block_at i off 4) 0 (w :: u32) = Ok (set_buffer m i (put buf off (to_le 4 w)))"
    "load_word 4 m (block_at i off 4) 0 = Ok (word32 buf off)"
proof -
  have "copy_into buf off (off + length (to_le 4 w)) (to_le 4 w) = Some (put buf off (to_le 4 w))"
    using assms(4) by (intro copy_into_put) simp
  then show "store_word 4 m (block_at i off 4) 0 w = Ok (set_buffer m i (put buf off (to_le 4 w)))"
    using header_view [OF assms] assms(1) by (simp add: store_word_def del: copy_into_Some)
  show "load_word 4 m (block_at i off 4) 0 = Ok (word32 buf off)"
    using header_view [OF assms] assms(1,4) by (simp add: load_word_def word32_def)
qed

lemma cas_header_eq:
  assumes "buffer_for m i = Ok buf" "i \<noteq> - 1" "off mod 8 = 0" "off + 4 \<le> length buf" "off < 2 ^ 31"
  shows "cas_front_header m (block_at i off 4) (word_header (word32 buf off)) v n =
    Ok (None, set_buffer m i (put buf off (to_le 4 (header_word v n))))"
  using store_header_eq [OF assms] by (simp add: cas_front_header_def)

lemma sint_small16: "- 32768 \<le> x \<Longrightarrow> x < 32768 \<Longrightarrow> sint (of_int x :: u16) = x"
  by (simp add: signed_of_int signed_take_bit_int_eq_self)

text \<open>Rewriting the header of one block changes the link of that block only.\<close>

lemma link_of_put:
  assumes "pool_fits p buf" "j < pl_count p" "k < pl_count p" "- 32767 \<le> x" "x < 32768"
  shows "link_of (put buf (block_off p j) (to_le 4 (header_word v (of_int (x - 1))))) p k =
    (if k = j then int k + x else link_of buf p k)"
proof (cases "k = j")
  case True
  have "block_off p j + 4 \<le> length buf" using block_off_bounds [OF assms(1,2)] by simp
  then have "word32 (put buf (block_off p j) (to_le 4 (header_word v (of_int (x - 1))))) (block_off p j) =
      header_word v (of_int (x - 1))" by (rule word32_put_same)
  then show ?thesis using True assms(4,5) sint_small16 [of "x - 1"]
    by (simp add: link_of_def next_index_def)
next
  case False
  have "64 \<le> unat (pl_block p)" using assms(1) by (simp add: pool_fits_def)
  then have "block_off p k + 4 \<le> block_off p j \<or> block_off p j + 4 \<le> block_off p k"
    using False block_off_apart [of j k p] block_off_apart [of k j p] by (cases "k < j") simp_all
  moreover have "block_off p j + 4 \<le> length buf" using block_off_bounds [OF assms(1,2)] by simp
  ultimately show ?thesis using False by (simp add: link_of_def word32_put)
qed

lemma pool_reads:
  assumes "buffer_for m (pl_buffer p) = Ok buf" "pool_fits p buf" "k < pl_count p"
  shows "read_block_header m (block_at (pl_buffer p) (block_off p k) 4) = Ok (word_header (word32 buf (block_off p k)))"
    "cas_front_header m (block_at (pl_buffer p) (block_off p k) 4) (word_header (word32 buf (block_off p k))) v n =
      Ok (None, set_buffer m (pl_buffer p) (put buf (block_off p k) (to_le 4 (header_word v n))))"
    "store_word 4 m (block_at (pl_buffer p) (block_off p k) 4) 0 (w :: u32) =
      Ok (set_buffer m (pl_buffer p) (put buf (block_off p k) (to_le 4 w)))"
  using assms block_off_bounds [OF assms(2,3)] read_header_eq cas_header_eq store_header_eq
  by (simp_all add: pool_fits_def)

lemma chain_switch:
  assumes "chain nx n f fs" "nx' i = nx f" "\<And>k. k \<in> set fs \<Longrightarrow> nx' k = nx k"
  shows "chain nx' n i fs"
proof (cases fs)
  case (Cons g gs)
  then have "chain nx' n g gs = chain nx n g gs" using assms(3) by (intro chain_cong) auto
  then show ?thesis using assms(1,2) Cons by simp
qed (use assms in simp)

text \<open>Popping from the free list.\<close>

lemma pop_block_empty:
  assumes "buffer_for m (pl_buffer p) = Ok buf" "pool_fits p buf" "free_list buf p []"
  shows "pop_block m (pl_buffer p) (pl_region p) (pl_block p) (pl_count p) = Ok (None, m)"
proof -
  have z: "0 < pl_count p" "pl_count p \<le> 32767" using assms(2) by (simp_all add: pool_fits_def)
  have "sint (bh_next (word_header (word32 buf (pl_region p)))) + 1 = 0"
    using assms(3) by (simp add: free_list_def link_of_def next_index_def)
  then show ?thesis using z pool_reads(1) [OF assms(1,2) z(1)]
    by (simp add: pop_block_def numeral_2_eq_2 pop_turn_def Let_def)
qed

lemma pop_block_Cons:
  assumes b: "buffer_for m (pl_buffer p) = Ok buf" and fits: "pool_fits p buf" and fl: "free_list buf p (f # fs)"
  shows "\<exists>w. pop_block m (pl_buffer p) (pl_region p) (pl_block p) (pl_count p) =
      Ok (Some (block_at (pl_buffer p) (block_off p f) (pl_block p)),
          set_buffer m (pl_buffer p) (put buf (pl_region p) (to_le 4 (w :: u32)))) \<and>
    free_list (put buf (pl_region p) (to_le 4 w)) p fs"
proof -
  let ?i = "pl_buffer p" and ?n = "pl_count p" and ?r = "pl_region p"
  let ?h = "word_header (word32 buf ?r)" and ?g = "word_header (word32 buf (block_off p f))"
  let ?x = "link_of buf p f"
  let ?w = "header_word (bh_version ?h + 1) (of_int (?x - 1))"
  have c: "link_of buf p 0 = int f" "0 < f" "f < ?n" "chain (link_of buf p) ?n f fs" "f \<notin> set fs" "distinct fs"
    using fl by (auto simp: free_list_def)
  have n: "0 < ?n" "?n \<le> 32767" using fits by (simp_all add: pool_fits_def)
  have x: "0 \<le> ?x" "?x < int ?n" using c(3,4) by (cases fs; auto)+
  have first: "sint (bh_next ?h) + 1 = int f" using c(1) by (simp add: link_of_def next_index_def)
  have idx: "nat (int f mod 2 ^ 64) = f" using c(3) n(2) by simp
  have off: "umul f (unat (pl_block p)) = Some (f * unat (pl_block p))"
    "uadd ?r (f * unat (pl_block p)) = Some (block_off p f)"
    using block_off_bounds [OF fits c(3)] by (simp_all add: umul_def block_off_def usize_limit_def)
  have nxt: "next_index f ?g = ?x" by (simp add: link_of_def)
  have reads: "read_block_header m (block_at ?i ?r 4) = Ok ?h" "read_block_header m (block_at ?i (block_off p f) 4) = Ok ?g"
    "cas_front_header m (block_at ?i ?r 4) ?h v u = Ok (None, set_buffer m ?i (put buf ?r (to_le 4 (header_word v u))))" for v u
    using pool_reads(1,2) [OF b fits n(1)] pool_reads(1) [OF b fits c(3)] by simp_all
  have turn: "pop_turn m ?i ?r (pl_block p) ?n ?h =
      Ok (Return (Some (block_at ?i (block_off p f) (pl_block p))), set_buffer m ?i (put buf ?r (to_le 4 ?w)))"
    unfolding pop_turn_def Let_def first idx off from_option_simps obind_simps reads(2) nxt reads(3) prod.case option.case
    using c(2,3) x by simp
  have "pop_block m ?i ?r (pl_block p) ?n =
      Ok (Some (block_at ?i (block_off p f) (pl_block p)), set_buffer m ?i (put buf ?r (to_le 4 ?w)))"
    using n reads(1) turn by (simp add: pop_block_def numeral_2_eq_2)
  moreover have l: "link_of (put buf ?r (to_le 4 ?w)) p k = (if k = 0 then ?x else link_of buf p k)" if "k < ?n" for k
    using link_of_put [OF fits n(1) that, of ?x] x n by simp
  have "chain (link_of (put buf ?r (to_le 4 ?w)) p) ?n 0 fs"
  proof (rule chain_switch [OF c(4)])
    show "link_of (put buf ?r (to_le 4 ?w)) p 0 = link_of buf p f" using l [OF n(1)] by simp
    show "link_of (put buf ?r (to_le 4 ?w)) p k = link_of buf p k" if "k \<in> set fs" for k
      using chain_bounds [OF c(4) that] l by simp
  qed
  then have "free_list (put buf ?r (to_le 4 ?w)) p fs" using c(6) by (simp add: free_list_def)
  ultimately show ?thesis by blast
qed

lemma set_buffer_twice [simp]: "set_buffer (set_buffer m i a) i b = set_buffer m i b"
  by (auto simp: set_buffer_def option.map_comp comp_def)

text \<open>Pushing a block onto the free list.\<close>

lemma free_block_push:
  assumes b: "buffer_for m (pl_buffer p) = Ok buf" and fits: "pool_fits p buf" and fl: "free_list buf p fs"
    and d: "fr_buffer_id d = pl_buffer p" "unat (fr_offset d) = block_off p idx"
      "pool_of m d = Some (pl_region p, unat (pl_block p), pl_count p)"
    and idx: "0 < idx" "idx < pl_count p" "idx \<notin> set fs"
  shows "\<exists>w w'. free_block m d = Ok (True, set_buffer m (pl_buffer p)
      (put (put buf (block_off p idx) (to_le 4 (w :: u32))) (pl_region p) (to_le 4 (w' :: u32)))) \<and>
    free_list (put (put buf (block_off p idx) (to_le 4 w)) (pl_region p) (to_le 4 w')) p (idx # fs)"
proof -
  let ?i = "pl_buffer p" and ?n = "pl_count p" and ?r = "pl_region p" and ?bs = "unat (pl_block p)"
  let ?h = "word_header (word32 buf ?r)" and ?o = "block_off p idx"
  let ?x = "link_of buf p 0"
  let ?w = "header_word 0 (of_int (?x - int idx - 1))"
  let ?buf = "put buf ?o (to_le 4 ?w)"
  let ?w' = "header_word (bh_version ?h + 1) (of_int (int idx - 1))"
  have n: "0 < ?n" "?n \<le> 32767" "64 \<le> ?bs" using fits by (simp_all add: pool_fits_def)
  have x: "0 \<le> ?x" "?x < int ?n" using fl n by (cases fs; auto simp: free_list_def)+
  have first: "sint (bh_next ?h) + 1 = ?x" by (simp add: link_of_def next_index_def)
  have o: "?r + idx * ?bs = ?o" by (simp add: block_off_def)
  have bnd: "?o + 4 \<le> length buf" "?r + 64 \<le> ?o" "?r + 4 \<le> length buf"
    using block_off_bounds [OF fits idx(2)] block_off_bounds [OF fits n(1)] block_off_apart [OF idx(1), of p] n(3) by simp_all
  have fits': "pool_fits p ?buf" using fits bnd by (simp add: pool_fits_def)
  have b': "buffer_for (set_buffer m ?i ?buf) ?i = Ok ?buf" using b by simp
  have same: "word32 ?buf ?r = word32 buf ?r" using bnd by (simp add: word32_put)
  have reads: "read_block_header m (block_at ?i ?r 4) = Ok ?h"
    "write_block_header m (block_at ?i ?o 4) 0 (of_int (?x - int idx - 1)) = Ok (set_buffer m ?i ?buf)"
    "cas_front_header (set_buffer m ?i ?buf) (block_at ?i ?r 4) ?h v u =
       Ok (None, set_buffer m ?i (put ?buf ?r (to_le 4 (header_word v u))))" for v u
    using pool_reads(1) [OF b fits n(1)] pool_reads(3) [OF b fits idx(2)] pool_reads(2) [OF b' fits' n(1)] same
    by (simp_all add: write_block_header_def)
  have turn: "free_turn m ?i ?r ?bs ?n idx ?h = Ok (Return True, set_buffer m ?i (put ?buf ?r (to_le 4 ?w')))"
    unfolding free_turn_def Let_def first o reads obind_simps prod.case option.case using x by simp
  have div: "(block_off p idx - ?r) div ?bs = idx" using n(3) by (simp add: block_off_def)
  have "free_block m d = Ok (True, set_buffer m ?i (put ?buf ?r (to_le 4 ?w')))"
    unfolding free_block_def d option.case prod.case
    using reads(1) turn idx n div by (simp add: usub_def block_off_def numeral_2_eq_2)
  moreover have l: "link_of (put ?buf ?r (to_le 4 ?w')) p k =
      (if k = 0 then int idx else if k = idx then ?x else link_of buf p k)" if "k < ?n" for k
    using link_of_put [OF fits' n(1) that, of "int idx"] link_of_put [OF fits idx(2) that, of "?x - int idx"] x n idx
    by (simp add: algebra_simps)
  have "chain (link_of (put ?buf ?r (to_le 4 ?w')) p) ?n idx fs"
  proof (rule chain_switch [where f = 0 and nx = "link_of buf p"])
    show "chain (link_of buf p) ?n 0 fs" using fl by (simp add: free_list_def)
    show "link_of (put ?buf ?r (to_le 4 ?w')) p idx = ?x" using l [OF idx(2)] idx(1) by simp
    show "link_of (put ?buf ?r (to_le 4 ?w')) p k = link_of buf p k" if "k \<in> set fs" for k
      using chain_bounds [OF _ that] fl l idx that by (force simp: free_list_def)
  qed
  then have "free_list (put ?buf ?r (to_le 4 ?w')) p (idx # fs)"
    using l [OF n(1)] idx fl by (simp add: free_list_def)
  ultimately show ?thesis by blast
qed

section \<open>All pools of a link memory\<close>

definition extra_pool :: "link_memory \<Rightarrow> u64 \<Rightarrow> pool" where
  "extra_pool m i = (case lm_extra m i of
     None \<Rightarrow> \<lparr>pl_buffer = i, pl_region = 0, pl_block = 0, pl_count = 0\<rparr>
   | Some e \<Rightarrow> \<lparr>pl_buffer = i, pl_region = 0, pl_block = xb_block_size e,
       pl_count = length (xb_mapping e) div unat (xb_block_size e)\<rparr>)"

definition primary_pools :: "pool list" where
  "primary_pools = map (\<lambda>(bs, off, count). \<lparr>pl_buffer = PRIMARY_BUFFER_ID, pl_region = off, pl_block = bs, pl_count = count\<rparr>)
     PRIMARY_BLOCK_REGIONS"

definition pools :: "link_memory \<Rightarrow> pool list" where
  "pools m = map (extra_pool m) (lm_extra_order m) @ primary_pools"

definition bytes_of :: "link_memory \<Rightarrow> u64 \<Rightarrow> byte list" where
  "bytes_of m i = (case buffer_for m i of Ok buf \<Rightarrow> buf | _ \<Rightarrow> [])"

text \<open>A sound memory: the buffers hold their pools, and \<open>F\<close> gives the free blocks of each.\<close>

definition mem_ok :: "link_memory \<Rightarrow> (pool \<Rightarrow> nat list) \<Rightarrow> bool" where
  "mem_ok m F = (distinct (lm_extra_order m) \<and> PRIMARY_BUFFER_ID \<notin> set (lm_extra_order m) \<and>
     (\<forall>i \<in> set (lm_extra_order m). lm_extra m i \<noteq> None) \<and>
     (\<forall>p \<in> set (pools m). pool_fits p (bytes_of m (pl_buffer p)) \<and> free_list (bytes_of m (pl_buffer p)) p (F p)))"

lemma buffer_of_pool:
  assumes "mem_ok m F" "p \<in> set (pools m)"
  shows "buffer_for m (pl_buffer p) = Ok (bytes_of m (pl_buffer p))"
  using assms by (auto simp: mem_ok_def pools_def extra_pool_def primary_pools_def bytes_of_def buffer_for_def split: option.splits)

lemma bytes_of_set:
  "buffer_for m i = Ok buf \<Longrightarrow> bytes_of (set_buffer m i b) j = (if j = i then b else bytes_of m j)"
  by (simp add: bytes_of_def)

lemma pools_set:
  assumes "buffer_for m i = Ok buf" "length b = length buf"
  shows "pools (set_buffer m i b) = pools m"
proof -
  have "extra_pool (set_buffer m i b) j = extra_pool m j" for j
    using assms by (auto simp: extra_pool_def set_buffer_def buffer_for_def split: option.splits)
  then show ?thesis by (simp add: pools_def set_buffer_extra)
qed

lemmas region_constants = PRIMARY_BUFFER_ID_def BLOCK_ALLOCATOR_64_OFFSET_def BLOCK_ALLOCATOR_64_BLOCKS_def
  BLOCK_ALLOCATOR_256_OFFSET_def BLOCK_ALLOCATOR_256_BLOCKS_def BLOCK_ALLOCATOR_512_OFFSET_def
  BLOCK_ALLOCATOR_512_BLOCKS_def BLOCK_ALLOCATOR_1K_OFFSET_def BLOCK_ALLOCATOR_1K_BLOCKS_def
  BLOCK_ALLOCATOR_2K_OFFSET_def BLOCK_ALLOCATOR_2K_BLOCKS_def BLOCK_ALLOCATOR_4K_OFFSET_def BLOCK_ALLOCATOR_4K_BLOCKS_def

lemma primary_pools_set: "set primary_pools =
   {\<lparr>pl_buffer = 0, pl_region = 0x400, pl_block = 64, pl_count = 1484\<rparr>,
    \<lparr>pl_buffer = 0, pl_region = 0x17700, pl_block = 256, pl_count = 9\<rparr>,
    \<lparr>pl_buffer = 0, pl_region = 0x18000, pl_block = 512, pl_count = 8\<rparr>,
    \<lparr>pl_buffer = 0, pl_region = 0x19000, pl_block = 1024, pl_count = 4\<rparr>,
    \<lparr>pl_buffer = 0, pl_region = 0x1A000, pl_block = 2048, pl_count = 4\<rparr>,
    \<lparr>pl_buffer = 0, pl_region = 0x1C000, pl_block = 4096, pl_count = 4\<rparr>}"
  by (simp add: primary_pools_def PRIMARY_BLOCK_REGIONS_def region_constants)

lemma primary_pools_apart:
  "p \<in> set primary_pools \<Longrightarrow> q \<in> set primary_pools \<Longrightarrow> p \<noteq> q \<Longrightarrow>
   block_off p (pl_count p) \<le> pl_region q \<or> block_off q (pl_count q) \<le> pl_region p"
  unfolding primary_pools_set by (auto simp: block_off_def)

lemma pools_apart:
  assumes "mem_ok m F" "p \<in> set (pools m)" "q \<in> set (pools m)" "p \<noteq> q" "pl_buffer p = pl_buffer q"
  shows "block_off p (pl_count p) \<le> pl_region q \<or> block_off q (pl_count q) \<le> pl_region p"
proof -
  have prim: "r \<in> set primary_pools \<Longrightarrow> pl_buffer r = PRIMARY_BUFFER_ID" for r
    by (auto simp: primary_pools_def)
  have extra: "pl_buffer (extra_pool m i) = i" for i by (simp add: extra_pool_def split: option.split)
  have "p \<in> set primary_pools \<and> q \<in> set primary_pools"
    using assms prim extra by (auto simp: pools_def mem_ok_def)
  then show ?thesis using primary_pools_apart assms(4) by blast
qed

text \<open>Different blocks do not overlap.\<close>

lemma blocks_apart:
  assumes "mem_ok m F" "p \<in> set (pools m)" "q \<in> set (pools m)" "j < pl_count p" "k < pl_count q"
    and "(p, j) \<noteq> (q, k)" "pl_buffer p = pl_buffer q"
  shows "block_off p j + unat (pl_block p) \<le> block_off q k \<or> block_off q k + unat (pl_block q) \<le> block_off p j"
proof (cases "p = q")
  case True
  then show ?thesis using assms(6) block_off_apart [of j k p] block_off_apart [of k j p] by (cases "j < k") auto
next
  case False
  have "block_off r i + unat (pl_block r) \<le> block_off r (pl_count r)" "pl_region r \<le> block_off r i"
    if "i < pl_count r" for r i
    using block_off_apart [OF that] by (simp_all add: block_off_def)
  then show ?thesis using pools_apart [OF assms(1,2,3) False assms(7)] assms(4,5) by (meson order_trans)
qed

definition block_bytes :: "link_memory \<Rightarrow> pool \<Rightarrow> nat \<Rightarrow> byte list" where
  "block_bytes m p k = take (unat (pl_block p)) (drop (block_off p k) (bytes_of m (pl_buffer p)))"

text \<open>A write inside one block leaves every other block of every pool as it is.\<close>

lemma write_frame:
  assumes ok: "mem_ok m F" and p: "p \<in> set (pools m)" "j < pl_count p"
    and b: "block_off p j \<le> a" "a + length bytes \<le> block_off p j + unat (pl_block p)"
    and m': "m' = set_buffer m (pl_buffer p) (put (bytes_of m (pl_buffer p)) a bytes)"
  shows "pools m' = pools m"
    and "\<And>q k. q \<in> set (pools m) \<Longrightarrow> k < pl_count q \<Longrightarrow> (q, k) \<noteq> (p, j) \<Longrightarrow>
      block_bytes m' q k = block_bytes m q k \<and>
      link_of (bytes_of m' (pl_buffer q)) q k = link_of (bytes_of m (pl_buffer q)) q k"
    and "\<And>i. length (bytes_of m' i) = length (bytes_of m i)"
proof -
  let ?buf = "bytes_of m (pl_buffer p)"
  have fits: "pool_fits p ?buf" using ok p(1) by (simp add: mem_ok_def)
  have bnd: "a + length bytes \<le> length ?buf" using block_off_bounds(1) [OF fits p(2)] b(2) by linarith
  have bp: "buffer_for m (pl_buffer p) = Ok ?buf" using buffer_of_pool [OF ok p(1)] .
  show "pools m' = pools m" unfolding m' by (rule pools_set [OF bp]) (simp add: bnd)
  have set: "bytes_of m' i = (if i = pl_buffer p then put ?buf a bytes else bytes_of m i)" for i
    unfolding m' by (rule bytes_of_set [OF bp])
  then show "length (bytes_of m' i) = length (bytes_of m i)" for i using bnd by simp
  fix q k assume q: "q \<in> set (pools m)" "k < pl_count q" "(q, k) \<noteq> (p, j)"
  have q64: "64 \<le> unat (pl_block q)" using ok q(1) by (simp add: mem_ok_def pool_fits_def)
  show "block_bytes m' q k = block_bytes m q k \<and>
      link_of (bytes_of m' (pl_buffer q)) q k = link_of (bytes_of m (pl_buffer q)) q k"
  proof (cases "pl_buffer q = pl_buffer p")
    case True
    have ne: "(p, j) \<noteq> (q, k)" using q(3) by auto
    have "block_off q k + unat (pl_block q) \<le> a \<or> a + length bytes \<le> block_off q k"
      using blocks_apart [OF ok p(1) q(1) p(2) q(2) ne True [symmetric]] b by linarith
    then have "block_bytes m' q k = block_bytes m q k" "word32 (put ?buf a bytes) (block_off q k) = word32 ?buf (block_off q k)"
      using read_put_other [OF bnd] word32_put [OF bnd, of "block_off q k"] q64 True by (auto simp: block_bytes_def set)
    then show ?thesis using True by (simp add: link_of_def set)
  qed (simp add: block_bytes_def link_of_def set)
qed

lemma mem_ok_write:
  assumes ok: "mem_ok m F" and p: "p \<in> set (pools m)" "j < pl_count p"
    and b: "block_off p j \<le> a" "a + length bytes \<le> block_off p j + unat (pl_block p)"
    and m': "m' = set_buffer m (pl_buffer p) (put (bytes_of m (pl_buffer p)) a bytes)"
    and fl: "free_list (bytes_of m' (pl_buffer p)) p fs"
  shows "mem_ok m' (F(p := fs))"
proof -
  note frame = write_frame [OF ok p b m']
  have order: "lm_extra_order m' = lm_extra_order m" "\<And>i. lm_extra m' i = None \<longleftrightarrow> lm_extra m i = None"
    unfolding m' by (simp add: set_buffer_extra) (metis (no_types) option.map_disc_iff set_buffer_extra(2))
  have fits: "pool_fits q (bytes_of m' (pl_buffer q))" if "q \<in> set (pools m)" for q
    using ok that frame(3) by (simp add: mem_ok_def pool_fits_def)
  have "free_list (bytes_of m' (pl_buffer q)) q ((F(p := fs)) q)" if q: "q \<in> set (pools m)" for q
  proof (cases "q = p")
    case False
    have fq: "free_list (bytes_of m (pl_buffer q)) q (F q)" "0 < pl_count q"
      using ok q by (auto simp: mem_ok_def pool_fits_def)
    have "link_of (bytes_of m (pl_buffer q)) q k = link_of (bytes_of m' (pl_buffer q)) q k" if "k = 0 \<or> k \<in> set (F q)" for k
      using that frame(2) [OF q, of k] False fq chain_bounds [of _ "pl_count q" 0 "F q" k]
      by (auto simp: free_list_def)
    then have "chain (link_of (bytes_of m (pl_buffer q)) q) (pl_count q) 0 (F q) =
        chain (link_of (bytes_of m' (pl_buffer q)) q) (pl_count q) 0 (F q)" by (intro chain_cong) blast
    then show ?thesis using fq(1) False by (simp add: free_list_def)
  qed (use fl in simp)
  then show ?thesis using ok order fits frame(1) by (simp add: mem_ok_def)
qed

text \<open>Writing inside a block that is neither free nor the first leaves the free lists alone.\<close>

lemma mem_ok_fill:
  assumes ok: "mem_ok m F" and p: "p \<in> set (pools m)" "j < pl_count p" and j: "0 < j" "j \<notin> set (F p)"
    and b: "block_off p j \<le> a" "a + length bytes \<le> block_off p j + unat (pl_block p)"
    and m': "m' = set_buffer m (pl_buffer p) (put (bytes_of m (pl_buffer p)) a bytes)"
  shows "mem_ok m' F"
proof -
  note frame = write_frame [OF ok p b m']
  have fp: "free_list (bytes_of m (pl_buffer p)) p (F p)" using ok p(1) by (simp add: mem_ok_def)
  have "link_of (bytes_of m (pl_buffer p)) p k = link_of (bytes_of m' (pl_buffer p)) p k" if k: "k = 0 \<or> k \<in> set (F p)" for k
  proof -
    have "k \<noteq> j" using k j by auto
    moreover have "k < pl_count p" using k fp p(2) chain_bounds [of _ "pl_count p" 0 "F p" k] by (auto simp: free_list_def)
    ultimately show ?thesis using frame(2) [OF p(1), of k] by simp
  qed
  then have "chain (link_of (bytes_of m (pl_buffer p)) p) (pl_count p) 0 (F p) =
      chain (link_of (bytes_of m' (pl_buffer p)) p) (pl_count p) 0 (F p)" by (intro chain_cong) blast
  then have "free_list (bytes_of m' (pl_buffer p)) p (F p)" using fp by (simp add: free_list_def)
  from mem_ok_write [OF ok p b m' this] show ?thesis by simp
qed

section \<open>Blocks as fragments\<close>

definition desc_of :: "pool \<Rightarrow> nat \<Rightarrow> fragment" where
  "desc_of p k = block_at (pl_buffer p) (block_off p k) (pl_block p)"

lemma desc_of_sel:
  assumes "mem_ok m F" "p \<in> set (pools m)" "k < pl_count p"
  shows "fr_buffer_id (desc_of p k) = pl_buffer p" "unat (fr_offset (desc_of p k)) = block_off p k"
    "fr_size (desc_of p k) = pl_block p" "fr_offset (desc_of p k) mod 8 = 0"
proof -
  have fits: "pool_fits p (bytes_of m (pl_buffer p))" using assms by (simp add: mem_ok_def)
  have "block_off p k < 2 ^ 32" using block_off_bounds(3) [OF fits assms(3)] by simp
  then show "fr_buffer_id (desc_of p k) = pl_buffer p" "unat (fr_offset (desc_of p k)) = block_off p k"
    "fr_size (desc_of p k) = pl_block p" "fr_offset (desc_of p k) mod 8 = 0"
    using block_off_bounds(2) [OF fits assms(3)] of_nat_mod8 [of "block_off p k"]
    by (simp_all add: desc_of_def block_at_def unat_word32)
qed

lemma view_block:
  assumes "mem_ok m F" "p \<in> set (pools m)" "k < pl_count p"
  shows "fragment_view m (desc_of p k) = Ok (block_bytes m p k)" "length (block_bytes m p k) = unat (pl_block p)"
proof -
  have fits: "pool_fits p (bytes_of m (pl_buffer p))" using assms by (simp add: mem_ok_def)
  note bnd = block_off_bounds [OF fits assms(3)]
  show "fragment_view m (desc_of p k) = Ok (block_bytes m p k)"
    using fragment_view_eq [of "desc_of p k" m "bytes_of m (pl_buffer p)"] desc_of_sel [OF assms] bnd(1)
      buffer_of_pool [OF assms(1,2)] fits by (simp add: block_bytes_def pool_fits_def)
  show "length (block_bytes m p k) = unat (pl_block p)" using bnd(1) by (simp add: block_bytes_def)
qed

lemma store_block:
  assumes "mem_ok m F" "p \<in> set (pools m)" "k < pl_count p" "a + length bytes \<le> unat (pl_block p)"
  shows "store_view m (desc_of p k) a bytes =
    Ok (set_buffer m (pl_buffer p) (put (bytes_of m (pl_buffer p)) (block_off p k + a) bytes))"
proof -
  have fits: "pool_fits p (bytes_of m (pl_buffer p))" using assms by (simp add: mem_ok_def)
  have bnd: "block_off p k + a + length bytes \<le> length (bytes_of m (pl_buffer p))"
    using block_off_bounds(1) [OF fits assms(3)] assms(4) by simp
  have len: "\<not> length (block_bytes m p k) < a + length bytes" using view_block(2) [OF assms(1-3)] assms(4) by simp
  show ?thesis
    unfolding store_view_def view_block(1) [OF assms(1-3)] desc_of_sel(1,2) [OF assms(1-3)] buffer_of_pool [OF assms(1,2)]
      obind_simps by (simp only: len if_False obind_simps from_option_simps copy_into_put [OF bnd])
qed

lemma pool_of_primary:
  assumes "p \<in> set primary_pools" "fr_buffer_id d = PRIMARY_BUFFER_ID" "fr_size d = pl_block p"
    "pl_region p \<le> unat (fr_offset d)" "unat (fr_offset d) + unat (pl_block p) \<le> block_off p (pl_count p)"
  shows "pool_of m d = Some (pl_region p, unat (pl_block p), pl_count p)"
proof -
  obtain off where off: "off = unat (fr_offset d)" by simp
  show ?thesis using assms unfolding primary_pools_set off [symmetric] pool_of_def PRIMARY_BLOCK_REGIONS_def block_off_def
    by (elim insertE emptyE) (simp_all add: region_constants)
qed

lemma pool_of_block:
  assumes "mem_ok m F" "p \<in> set (pools m)" "k < pl_count p"
  shows "pool_of m (desc_of p k) = Some (pl_region p, unat (pl_block p), pl_count p)"
proof (cases "p \<in> set primary_pools")
  case True
  then show ?thesis
    using pool_of_primary [OF True, of "desc_of p k" m] desc_of_sel [OF assms] block_off_apart [OF assms(3), of p]
    by (auto simp: primary_pools_def block_off_def)
next
  case False
  then obtain i where i: "i \<in> set (lm_extra_order m)" "p = extra_pool m i" using assms(2) by (auto simp: pools_def)
  then obtain e where e: "lm_extra m i = Some e" "i \<noteq> PRIMARY_BUFFER_ID" using assms(1) by (auto simp: mem_ok_def)
  then show ?thesis using i desc_of_sel [OF assms] by (simp add: pool_of_def extra_pool_def)
qed

section \<open>Allocating\<close>

text \<open>What a successful allocation from a pool does: the front block leaves the free list.\<close>

definition took :: "link_memory \<Rightarrow> (pool \<Rightarrow> nat list) \<Rightarrow> pool \<Rightarrow> fragment option \<Rightarrow> link_memory \<Rightarrow> bool" where
  "took m F p b m' = (p \<in> set (pools m) \<and> (\<exists>f fs w. F p = f # fs \<and> b = Some (desc_of p f) \<and>
     m' = set_buffer m (pl_buffer p) (put (bytes_of m (pl_buffer p)) (pl_region p) (to_le 4 (w :: u32))) \<and>
     mem_ok m' (F(p := fs))))"

lemma pop_pool:
  assumes ok: "mem_ok m F" and p: "p \<in> set (pools m)"
  shows "\<exists>b m'. pop_block m (pl_buffer p) (pl_region p) (pl_block p) (pl_count p) = Ok (b, m') \<and>
    (if F p = [] then b = None \<and> m' = m else took m F p b m')"
proof -
  have fits: "pool_fits p (bytes_of m (pl_buffer p))" "free_list (bytes_of m (pl_buffer p)) p (F p)"
    using ok p by (simp_all add: mem_ok_def)
  note b = buffer_of_pool [OF ok p]
  show ?thesis
  proof (cases "F p")
    case Nil
    then show ?thesis using pop_block_empty [OF b fits(1)] fits(2) by simp
  next
    case (Cons f fs)
    then have fl: "free_list (bytes_of m (pl_buffer p)) p (f # fs)" using fits(2) by simp
    from pop_block_Cons [OF b fits(1) fl] obtain w :: u32 where
      w: "pop_block m (pl_buffer p) (pl_region p) (pl_block p) (pl_count p) = Ok (Some (desc_of p f),
          set_buffer m (pl_buffer p) (put (bytes_of m (pl_buffer p)) (pl_region p) (to_le 4 w)))"
        "free_list (put (bytes_of m (pl_buffer p)) (pl_region p) (to_le 4 w)) p fs"
      unfolding desc_of_def by blast
    let ?m' = "set_buffer m (pl_buffer p) (put (bytes_of m (pl_buffer p)) (pl_region p) (to_le 4 w))"
    have n: "0 < pl_count p" "64 \<le> unat (pl_block p)" using fits(1) by (simp_all add: pool_fits_def)
    have "mem_ok ?m' (F(p := fs))"
    proof (rule mem_ok_write [OF ok p n(1) _ _ refl])
      show "block_off p 0 \<le> pl_region p" "pl_region p + length (to_le 4 w) \<le> block_off p 0 + unat (pl_block p)" using n(2) by simp_all
      show "free_list (bytes_of ?m' (pl_buffer p)) p fs" using w(2) by (simp add: bytes_of_set [OF b])
    qed
    then have "took m F p (Some (desc_of p f)) ?m'" using p Cons unfolding took_def by blast
    then show ?thesis using w(1) Cons by simp
  qed
qed

lemma took_Some: "took m F p b m' \<Longrightarrow> b \<noteq> None"
  by (auto simp: took_def)

lemma pop_extra_spec:
  assumes ok: "mem_ok m F" and ids: "set ids \<subseteq> set (lm_extra_order m)"
  shows "\<exists>b m'. pop_extra m s ids = Ok (b, m') \<and>
    (if \<forall>i \<in> set ids. pl_block (extra_pool m i) = s \<longrightarrow> F (extra_pool m i) = [] then b = None \<and> m' = m
     else \<exists>i \<in> set ids. pl_block (extra_pool m i) = s \<and> took m F (extra_pool m i) b m')"
  using ids
proof (induction ids)
  case (Cons i ids)
  then obtain e where e: "lm_extra m i = Some e" using ok by (auto simp: mem_ok_def)
  let ?p = "extra_pool m i"
  have p: "?p \<in> set (pools m)" using Cons.prems by (simp add: pools_def)
  then have "64 \<le> unat (pl_block ?p)" using ok by (simp add: mem_ok_def pool_fits_def)
  then have nz: "pl_block ?p \<noteq> 0" by auto
  have sel: "pl_block ?p = xb_block_size e" "pl_buffer ?p = i" "pl_region ?p = 0"
    "pl_count ?p = length (xb_mapping e) div unat (xb_block_size e)" using e by (simp_all add: extra_pool_def)
  obtain b m' where b: "pop_extra m s ids = Ok (b, m')"
    "if \<forall>i \<in> set ids. pl_block (extra_pool m i) = s \<longrightarrow> F (extra_pool m i) = [] then b = None \<and> m' = m
     else \<exists>i \<in> set ids. pl_block (extra_pool m i) = s \<and> took m F (extra_pool m i) b m'"
    using Cons by auto
  obtain c mm where c: "pop_block m i 0 (xb_block_size e) (length (xb_mapping e) div unat (xb_block_size e)) = Ok (c, mm)"
    "if F ?p = [] then c = None \<and> mm = m else took m F ?p c mm"
    using pop_pool [OF ok p] unfolding sel by blast
  show ?case
  proof (cases "xb_block_size e = s \<and> F ?p \<noteq> []")
    case True
    then have "took m F ?p c mm" "c \<noteq> None" using c(2) took_Some by auto
    then show ?thesis using True e c(1) nz sel by auto
  next
    case False
    then have "pop_extra m s (i # ids) = Ok (b, m')" using e c nz sel b(1) by (auto simp del: obind_eq_Ok)
    then show ?thesis using b(2) False sel by (auto split: if_splits)
  qed
qed simp
lemma ideal_size:
  assumes "n \<noteq> 0" "n \<le> MAX_FRAGMENT_SIZE_FOR_BLOCK_ALLOCATION"
  obtains w where "get_block_size_for_fragment_size n = Some w" "n \<le> unat w" "unat w = max 64 (2 ^ floorlog 2 (n - 1))"
proof -
  let ?k = "floorlog 2 (n - 1)"
  have b: "n - 1 < 2 ^ 20" using assms by (simp add: MAX_FRAGMENT_SIZE_FOR_BLOCK_ALLOCATION_def)
  then have k: "?k \<le> 20" by (simp add: floorlog_leI)
  have "(2 :: nat) ^ ?k \<le> 2 ^ 20" using k by (intro power_increasing) simp_all
  then have l: "(2 :: nat) ^ ?k \<le> 1048576" by simp
  have "n - 1 < 2 ^ ?k"
    using floorlog_bounds [of "n - 1" 2] by (cases "n - 1 = 0") (simp_all add: floorlog_def)
  then have n: "n \<le> 2 ^ ?k" using assms(1) by simp
  have "max 64 (2 ^ ?k) < (2 :: nat) ^ 32" using l by simp
  then have "unat (of_nat (max 64 (2 ^ ?k)) :: u32) = max 64 (2 ^ ?k)" by (rule unat_word32)
  with l n show thesis
    by (intro that [of "of_nat (max 64 (2 ^ ?k))"])
      (simp_all add: get_block_size_for_fragment_size_def next_power_of_two_def usize_limit_def MIN_FRAGMENT_SIZE_def del: of_nat_max)
qed

text \<open>The pool size an allocation uses: the smallest size of any pool that is large enough.\<close>

definition chosen_size :: "link_memory \<Rightarrow> nat \<Rightarrow> u32 option" where
  "chosen_size m n = (case get_block_size_for_fragment_size n of
     None \<Rightarrow> None | Some ideal \<Rightarrow> find (\<lambda>s. ideal \<le> s) (pool_sizes m))"

lemma find_primary_size:
  assumes "find (\<lambda>(bs, _, _). bs = s) PRIMARY_BLOCK_REGIONS = r"
  shows "case r of None \<Rightarrow> \<forall>p \<in> set primary_pools. pl_block p \<noteq> s
    | Some (bs, off, count) \<Rightarrow> bs = s \<and> (\<forall>p. (p \<in> set primary_pools \<and> pl_block p = s) =
        (p = \<lparr>pl_buffer = PRIMARY_BUFFER_ID, pl_region = off, pl_block = s, pl_count = count\<rparr>))"
  using assms unfolding primary_pools_def PRIMARY_BLOCK_REGIONS_def
  by (auto split: if_splits)

lemma allocate_spec:
  assumes ok: "mem_ok m F"
  shows "\<exists>b m'. try_allocate_fragment m n = Ok (b, m') \<and>
    (if n = 0 \<or> n > MAX_FRAGMENT_SIZE_FOR_BLOCK_ALLOCATION \<or>
        (\<forall>p \<in> set (pools m). Some (pl_block p) = chosen_size m n \<longrightarrow> F p = []) then b = None \<and> m' = m
     else \<exists>p. n \<le> unat (pl_block p) \<and> Some (pl_block p) = chosen_size m n \<and> took m F p b m')"
proof (cases "n = 0 \<or> n > MAX_FRAGMENT_SIZE_FOR_BLOCK_ALLOCATION")
  case False
  then have n: "n \<noteq> 0" "n \<le> MAX_FRAGMENT_SIZE_FOR_BLOCK_ALLOCATION" by simp_all
  then obtain w where w: "get_block_size_for_fragment_size n = Some w" "n \<le> unat w"
    using ideal_size [of n] by (metis not_le)
  show ?thesis
  proof (cases "find (\<lambda>s. w \<le> s) (pool_sizes m)")
    case None
    then show ?thesis using False w(1) by (simp add: try_allocate_fragment_def chosen_size_def)
  next
    case (Some s)
    have s: "n \<le> unat s" "chosen_size m n = Some s"
      using w Some by (auto simp: find_Some_iff word_le_nat_alt chosen_size_def)
    obtain b m' where x: "pop_extra m s (rev (lm_extra_order m)) = Ok (b, m')"
      "if \<forall>i \<in> set (lm_extra_order m). pl_block (extra_pool m i) = s \<longrightarrow> F (extra_pool m i) = [] then b = None \<and> m' = m
       else \<exists>i \<in> set (lm_extra_order m). pl_block (extra_pool m i) = s \<and> took m F (extra_pool m i) b m'"
      using pop_extra_spec [OF ok, of "rev (lm_extra_order m)" s] unfolding set_rev by auto
    show ?thesis
    proof (cases "b = None")
      case False
      then obtain p where "p \<in> set (pools m)" "pl_block p = s" "took m F p b m'"
        using x(2) by (auto simp: took_def split: if_splits)
      moreover have "F p \<noteq> []" using calculation(3) by (auto simp: took_def)
      moreover have "try_allocate_fragment m n = Ok (b, m')"
        using n Some x(1) w(1) False by (simp add: try_allocate_fragment_def del: obind_eq_Ok)
      ultimately show ?thesis using n s by auto
    next
      case True
      then have none: "m' = m" "\<forall>i \<in> set (lm_extra_order m). pl_block (extra_pool m i) = s \<longrightarrow> F (extra_pool m i) = []"
        using x(2) took_Some by (metis)+
      have eq: "try_allocate_fragment m n = (case find (\<lambda>(bs, _, _). bs = s) PRIMARY_BLOCK_REGIONS of
          None \<Rightarrow> Ok (None, m) | Some (_, off, count) \<Rightarrow> pop_block m PRIMARY_BUFFER_ID off s count)"
        using n Some x(1) w(1) True none(1) by (simp add: try_allocate_fragment_def del: obind_eq_Ok)
      show ?thesis
      proof (cases "find (\<lambda>(bs, _, _). bs = s) PRIMARY_BLOCK_REGIONS")
        case None
        then have "\<forall>p \<in> set primary_pools. pl_block p \<noteq> s" using find_primary_size by fastforce
        then show ?thesis using n s(2) none(2) eq None by (auto simp: pools_def)
      next
        case (Some r)
        obtain bs off count where r: "r = (bs, off, count)" by (cases r)
        let ?p = "\<lparr>pl_buffer = PRIMARY_BUFFER_ID, pl_region = off, pl_block = s, pl_count = count\<rparr>"
        have only: "(p \<in> set primary_pools \<and> pl_block p = s) = (p = ?p)" for p
          using find_primary_size [OF Some] r by simp
        then have p: "?p \<in> set (pools m)" by (auto simp: pools_def)
        have "(\<forall>p \<in> set (pools m). Some (pl_block p) = chosen_size m n \<longrightarrow> F p = []) = (F ?p = [])"
        proof
          assume e: "F ?p = []"
          have "F p = []" if "p \<in> set (pools m)" "pl_block p = s" for p
          proof (cases "p \<in> set primary_pools")
            case True
            then have "p = ?p" using only [of p] that(2) by blast
            then show ?thesis using e by simp
          qed (use that none(2) in \<open>auto simp: pools_def\<close>)
          then show "\<forall>p \<in> set (pools m). Some (pl_block p) = chosen_size m n \<longrightarrow> F p = []" using s(2) by simp
        qed (use p s(2) in simp)
        then show ?thesis using pop_pool [OF ok p] eq Some r n s by auto
      qed
    qed
  qed
qed (auto simp: try_allocate_fragment_def)

end
