(* ===== verification/LinkHeap.thy ===== *)
theory LinkHeap
  imports LinkBlocks
begin

text \<open>
  The users of a link memory: any sequence of allocations, releases and writes against an abstract
  heap, new buffers, and parcels stored in fragments.
\<close>

section \<open>Histories of allocations\<close>

text \<open>
  What the users of a link memory do with fragments, against an abstract heap: the list of the
  fragments they hold, each with the bytes it has.
\<close>

datatype memory_op = Allocate nat | Release nat | Fill nat nat "byte list"

type_synonym held = "(fragment \<times> byte list) list"

fun memory_step :: "memory_op \<Rightarrow> link_memory \<times> held \<Rightarrow> (link_memory \<times> held) memory_result" where
  "memory_step (Allocate n) (m, held) =
     obind (try_allocate_fragment m n) (\<lambda>(b, m).
     case b of
       None \<Rightarrow> Ok (m, held)
     | Some d \<Rightarrow> obind (fragment_view m d) (\<lambda>view. Ok (m, held @ [(d, view)])))"
| "memory_step (Release i) (m, held) =
     (if i < length held then
        obind (free_block m (fst (held ! i))) (\<lambda>(freed, m).
        if freed then Ok (m, take i held @ drop (Suc i) held) else Panic)
      else Ok (m, held))"
| "memory_step (Fill i off bytes) (m, held) =
     (if i < length held \<and> off + length bytes \<le> length (snd (held ! i)) then
        obind (store_view m (fst (held ! i)) off bytes) (\<lambda>m.
        Ok (m, held[i := (fst (held ! i), put (snd (held ! i)) off bytes)]))
      else Ok (m, held))"

fun run_memory :: "memory_op list \<Rightarrow> link_memory \<times> held \<Rightarrow> (link_memory \<times> held) memory_result" where
  "run_memory [] s = Ok s"
| "run_memory (op # ops) s = obind (memory_step op s) (run_memory ops)"

definition held_ok :: "link_memory \<Rightarrow> (pool \<Rightarrow> nat list) \<Rightarrow> (pool \<times> nat) list \<Rightarrow> held \<Rightarrow> bool" where
  "held_ok m F ks held = (mem_ok m F \<and> distinct ks \<and>
     held = map (\<lambda>(p, k). (desc_of p k, block_bytes m p k)) ks \<and>
     (\<forall>(p, k) \<in> set ks. p \<in> set (pools m) \<and> 0 < k \<and> k < pl_count p \<and> k \<notin> set (F p)))"

lemma held_nth:
  assumes "held_ok m F ks held" "i < length held" "ks ! i = (p, k)"
  shows "held ! i = (desc_of p k, block_bytes m p k)" "(p, k) \<in> set ks" "p \<in> set (pools m)" "0 < k" "k < pl_count p"
    "k \<notin> set (F p)" "length ks = length held" "mem_ok m F"
proof -
  have l: "length ks = length held" using assms(1) by (simp add: held_ok_def)
  then show mem: "(p, k) \<in> set ks" using assms(2,3) nth_mem by metis
  have all: "\<forall>(p, k) \<in> set ks. p \<in> set (pools m) \<and> 0 < k \<and> k < pl_count p \<and> k \<notin> set (F p)" "mem_ok m F"
    using assms(1) by (simp_all add: held_ok_def)
  from all(1) mem show "p \<in> set (pools m)" "0 < k" "k < pl_count p" "k \<notin> set (F p)" by auto
  show "length ks = length held" "mem_ok m F" by (fact l all(2))+
  have "held = map (\<lambda>(p, k). (desc_of p k, block_bytes m p k)) ks" using assms(1) by (simp add: held_ok_def)
  moreover have "i < length ks" using assms(2) l by simp
  ultimately have "held ! i = (\<lambda>(p, k). (desc_of p k, block_bytes m p k)) (ks ! i)" by (simp only: nth_map)
  then show "held ! i = (desc_of p k, block_bytes m p k)" by (simp only: assms(3) prod.case)
qed

lemma held_keep:
  assumes "held_ok m F ks held" "mem_ok m' F'" "pools m' = pools m"
    and "\<And>p k. (p, k) \<in> set ks' \<Longrightarrow> (p, k) \<in> set ks \<and> block_bytes m' p k = block_bytes m p k \<and> k \<notin> set (F' p)"
    and "distinct ks'"
  shows "held_ok m' F' ks' (map (\<lambda>(p, k). (desc_of p k, block_bytes m p k)) ks')"
proof -
  have "map (\<lambda>(p, k). (desc_of p k, block_bytes m p k)) ks' = map (\<lambda>(p, k). (desc_of p k, block_bytes m' p k)) ks'"
    using assms(4) by (intro map_cong) auto
  moreover have "\<forall>(p, k) \<in> set ks'. p \<in> set (pools m') \<and> 0 < k \<and> k < pl_count p \<and> k \<notin> set (F' p)"
  proof (intro ballI, clarify)
    fix p k assume "(p, k) \<in> set ks'"
    then have "(p, k) \<in> set ks" "k \<notin> set (F' p)" using assms(4) by simp_all
    then show "p \<in> set (pools m') \<and> 0 < k \<and> k < pl_count p \<and> k \<notin> set (F' p)"
      using assms(1,3) by (auto simp: held_ok_def)
  qed
  ultimately show ?thesis using assms(2,5) unfolding held_ok_def by blast
qed

lemma allocate_held:
  assumes h: "held_ok m F ks held"
  shows "\<exists>m' F' ks' held'. memory_step (Allocate n) (m, held) = Ok (m', held') \<and> held_ok m' F' ks' held'"
proof -
  have ok: "mem_ok m F" using h by (simp add: held_ok_def)
  obtain b m' where a: "try_allocate_fragment m n = Ok (b, m')" "b = None \<and> m' = m \<or> (\<exists>p. took m F p b m')"
    using allocate_spec [OF ok, of n] by (auto split: if_splits)
  show ?thesis
  proof (cases "b = None")
    case True
    then have "memory_step (Allocate n) (m, held) = Ok (m, held)" using a by (auto dest: took_Some)
    then show ?thesis using h by blast
  next
    case False
    then obtain p f fs w where t: "p \<in> set (pools m)" "F p = f # fs" "b = Some (desc_of p f)"
      "m' = set_buffer m (pl_buffer p) (put (bytes_of m (pl_buffer p)) (pl_region p) (to_le 4 (w :: u32)))"
      "mem_ok m' (F(p := fs))" using a(2) unfolding took_def by blast
    have fits: "pool_fits p (bytes_of m (pl_buffer p))" "free_list (bytes_of m (pl_buffer p)) p (f # fs)"
      using ok t(1,2) by (auto simp: mem_ok_def)
    then have n: "0 < pl_count p" "64 \<le> unat (pl_block p)" "0 < f" "f < pl_count p" "f \<notin> set fs"
      by (auto simp: pool_fits_def free_list_def)
    note frame = write_frame [OF ok t(1) n(1) _ _ t(4)]
    have "block_off p 0 \<le> pl_region p" "pl_region p + length (to_le 4 w) \<le> block_off p 0 + unat (pl_block p)"
      using n(2) by simp_all
    note frame = frame [OF this]
    have p': "p \<in> set (pools m')" using t(1) frame(1) by simp
    have new: "(p, f) \<notin> set ks" using h t(2) by (auto simp: held_ok_def)
    have "held_ok m' (F(p := fs)) ks (map (\<lambda>(p, k). (desc_of p k, block_bytes m p k)) ks)"
    proof (rule held_keep [OF h t(5) frame(1)])
      fix q k assume "(q, k) \<in> set ks"
      then have "q \<in> set (pools m)" "0 < k" "k < pl_count q" "k \<notin> set (F q)" using h by (auto simp: held_ok_def)
      then show "(q, k) \<in> set ks \<and> block_bytes m' q k = block_bytes m q k \<and> k \<notin> set ((F(p := fs)) q)"
        using frame(2) [of q k] t(2) \<open>(q, k) \<in> set ks\<close> by auto
    qed (use h in \<open>simp add: held_ok_def\<close>)
    moreover have "map (\<lambda>(p, k). (desc_of p k, block_bytes m p k)) ks = held" using h by (simp add: held_ok_def)
    ultimately have "held_ok m' (F(p := fs)) (ks @ [(p, f)]) (held @ [(desc_of p f, block_bytes m' p f)])"
      using new n p' by (auto simp: held_ok_def)
    moreover have "memory_step (Allocate n) (m, held) = Ok (m', held @ [(desc_of p f, block_bytes m' p f)])"
      using a(1) t(3) view_block(1) [OF t(5) p' n(4)] by simp
    ultimately show ?thesis by blast
  qed
qed

lemma put_inside:
  assumes "a + length bytes \<le> n" "off + n \<le> length buf"
  shows "take n (drop off (put buf (off + a) bytes)) = put (take n (drop off buf)) a bytes"
proof -
  obtain A B C where abc: "A = take off buf" "B = take n (drop off buf)" "C = drop n (drop off buf)" by simp
  have buf: "buf = A @ B @ C" and len: "length A = off" "length B = n"
    unfolding abc using assms(2) by (simp_all del: drop_drop)
  have "put buf (off + a) bytes = A @ put B a bytes @ C"
    using assms(1) len unfolding buf put_def by simp
  moreover have "length (put B a bytes) = n" using len assms(1) by simp
  ultimately show ?thesis using len unfolding abc(2) [symmetric] by simp
qed

lemma fill_held:
  assumes h: "held_ok m F ks held"
  shows "\<exists>m' F' ks' held'. memory_step (Fill i a bytes) (m, held) = Ok (m', held') \<and> held_ok m' F' ks' held'"
proof (cases "i < length held \<and> a + length bytes \<le> length (snd (held ! i))")
  case True
  obtain p k where pk: "ks ! i = (p, k)" by (cases "ks ! i")
  have i: "i < length held" using True by simp
  note n = held_nth [OF h i pk]
  have fits: "pool_fits p (bytes_of m (pl_buffer p))" using n(3,8) by (simp add: mem_ok_def)
  have len: "a + length bytes \<le> unat (pl_block p)" using True n(1) view_block(2) [OF n(8,3,5)] by simp
  let ?m' = "set_buffer m (pl_buffer p) (put (bytes_of m (pl_buffer p)) (block_off p k + a) bytes)"
  have in_block: "block_off p k \<le> block_off p k + a" "block_off p k + a + length bytes \<le> block_off p k + unat (pl_block p)"
    using len by simp_all
  note frame = write_frame [OF n(8,3,5) in_block refl]
  have ok': "mem_ok ?m' F" by (rule mem_ok_fill [OF n(8,3,5,4,6) in_block refl])
  have "block_bytes ?m' p k = put (block_bytes m p k) a bytes"
    using put_inside [OF len] block_off_bounds(1) [OF fits n(5)]
    by (simp add: block_bytes_def bytes_of_set [OF buffer_of_pool [OF n(8,3)]])
  moreover have "block_bytes ?m' q j = block_bytes m q j" if "(q, j) \<in> set ks" "(q, j) \<noteq> (p, k)" for q j
    using frame(2) [of q j] that h by (auto simp: held_ok_def)
  ultimately have eq: "block_bytes ?m' q j = (if (q, j) = (p, k) then put (block_bytes m p k) a bytes else block_bytes m q j)"
    if "(q, j) \<in> set ks" for q j using that by auto
  have held: "held = map (\<lambda>(p, k). (desc_of p k, block_bytes m p k)) ks" "distinct ks" using h by (simp_all add: held_ok_def)
  have "held[i := (desc_of p k, put (block_bytes m p k) a bytes)] = map (\<lambda>(p, k). (desc_of p k, block_bytes ?m' p k)) ks"
  proof (rule nth_equalityI)
    fix j assume "j < length (held[i := (desc_of p k, put (block_bytes m p k) a bytes)])"
    then have j: "j < length ks" using n(7) by simp
    obtain q l where ql: "ks ! j = (q, l)" by (cases "ks ! j")
    have mem: "(q, l) \<in> set ks" using j ql nth_mem by metis
    have same: "(q, l) = (p, k) \<longleftrightarrow> j = i" using ql pk i j n(7) held(2) nth_eq_iff_index_eq by metis
    show "held[i := (desc_of p k, put (block_bytes m p k) a bytes)] ! j = map (\<lambda>(p, k). (desc_of p k, block_bytes ?m' p k)) ks ! j"
    proof (cases "j = i")
      case True
      then show ?thesis using i j pk eq [OF n(2)] by simp
    next
      case False
      then show ?thesis using j ql same eq [OF mem] by (auto simp: held(1))
    qed
  qed (use n(7) in simp)
  then have "held_ok ?m' F ks (held[i := (desc_of p k, put (block_bytes m p k) a bytes)])"
    using h ok' frame(1) by (simp add: held_ok_def)
  moreover have "memory_step (Fill i a bytes) (m, held) = Ok (?m', held[i := (desc_of p k, put (block_bytes m p k) a bytes)])"
    using True n(1) store_block [OF n(8,3,5) len] by simp
  ultimately show ?thesis by blast
qed (use h in auto)
lemma set_remove_nth:
  assumes "distinct xs" "i < length xs"
  shows "set (take i xs @ drop (Suc i) xs) = set xs - {xs ! i}" "distinct (take i xs @ drop (Suc i) xs)"
proof -
  have "distinct (take i xs @ xs ! i # drop (Suc i) xs)" using assms id_take_nth_drop [of i xs] by simp
  moreover have "set xs = set (take i xs @ xs ! i # drop (Suc i) xs)" using assms(2) id_take_nth_drop [of i xs] by simp
  ultimately show "set (take i xs @ drop (Suc i) xs) = set xs - {xs ! i}" "distinct (take i xs @ drop (Suc i) xs)" by auto
qed

lemma release_held:
  assumes h: "held_ok m F ks held"
  shows "\<exists>m' F' ks' held'. memory_step (Release i) (m, held) = Ok (m', held') \<and> held_ok m' F' ks' held'"
proof (cases "i < length held")
  case i: True
  obtain p k where pk: "ks ! i = (p, k)" by (cases "ks ! i")
  note n = held_nth [OF h i pk]
  let ?buf = "bytes_of m (pl_buffer p)"
  have fits: "pool_fits p ?buf" "free_list ?buf p (F p)" using n(3,8) by (simp_all add: mem_ok_def)
  have n0: "0 < pl_count p" "64 \<le> unat (pl_block p)" using fits(1) by (simp_all add: pool_fits_def)
  note b = buffer_of_pool [OF n(8,3)]
  obtain w w' where f: "free_block m (desc_of p k) = Ok (True, set_buffer m (pl_buffer p)
      (put (put ?buf (block_off p k) (to_le 4 (w :: u32))) (pl_region p) (to_le 4 (w' :: u32))))"
    "free_list (put (put ?buf (block_off p k) (to_le 4 w)) (pl_region p) (to_le 4 w')) p (k # F p)"
    using free_block_push [OF b fits desc_of_sel(1,2) [OF n(8,3,5)] pool_of_block [OF n(8,3,5)] n(4,5,6)] by blast
  let ?m1 = "set_buffer m (pl_buffer p) (put ?buf (block_off p k) (to_le 4 w))"
  let ?m2 = "set_buffer ?m1 (pl_buffer p) (put (bytes_of ?m1 (pl_buffer p)) (pl_region p) (to_le 4 w'))"
  have in1: "block_off p k \<le> block_off p k" "block_off p k + length (to_le 4 w) \<le> block_off p k + unat (pl_block p)"
    and in2: "block_off p 0 \<le> pl_region p" "pl_region p + length (to_le 4 w') \<le> block_off p 0 + unat (pl_block p)"
    using n0 by simp_all
  note frame1 = write_frame [OF n(8,3,5) in1 refl]
  have ok1: "mem_ok ?m1 F" by (rule mem_ok_fill [OF n(8,3,5,4,6) in1 refl])
  have p1: "p \<in> set (pools ?m1)" using n(3) frame1(1) by simp
  note frame2 = write_frame [OF ok1 p1 n0(1) in2 refl]
  have b1: "bytes_of ?m1 (pl_buffer p) = put ?buf (block_off p k) (to_le 4 w)" by (simp add: bytes_of_set [OF b])
  have same: "free_block m (desc_of p k) = Ok (True, ?m2)" using f(1) unfolding b1 by simp
  have b2: "bytes_of ?m2 (pl_buffer p) = put (put ?buf (block_off p k) (to_le 4 w)) (pl_region p) (to_le 4 w')"
    by (simp only: bytes_of_set [OF buffer_of_pool [OF ok1 p1]] refl if_True b1)
  have fl: "free_list (bytes_of ?m2 (pl_buffer p)) p (k # F p)" by (rule f(2) [folded b2])
  have ok2: "mem_ok ?m2 (F(p := k # F p))" by (rule mem_ok_write [OF ok1 p1 n0(1) in2 refl fl])
  let ?ks = "take i ks @ drop (Suc i) ks"
  have dist: "distinct ks" and all: "\<forall>(p, k) \<in> set ks. p \<in> set (pools m) \<and> 0 < k \<and> k < pl_count p \<and> k \<notin> set (F p)"
    and held: "held = map (\<lambda>(p, k). (desc_of p k, block_bytes m p k)) ks" using h by (simp_all add: held_ok_def)
  have il: "i < length ks" using i n(7) by simp
  note rem = set_remove_nth [OF dist il]
  have "held_ok ?m2 (F(p := k # F p)) ?ks (map (\<lambda>(p, k). (desc_of p k, block_bytes m p k)) ?ks)"
  proof (rule held_keep [OF h ok2])
    show "pools ?m2 = pools m" using frame1(1) frame2(1) by simp
    show "distinct ?ks" by (rule rem(2))
    fix q l assume "(q, l) \<in> set ?ks"
    then have ql: "(q, l) \<in> set ks" "(q, l) \<noteq> (p, k)" using rem(1) pk by auto
    then have q: "q \<in> set (pools m)" "0 < l" "l < pl_count q" "l \<notin> set (F q)" using all by auto
    moreover have "block_bytes ?m2 q l = block_bytes m q l"
      using frame1(1) frame1(2) [OF q(1,3) ql(2)] frame2(2) [of q l] q(1,2,3) by simp
    ultimately show "(q, l) \<in> set ks \<and> block_bytes ?m2 q l = block_bytes m q l \<and> l \<notin> set ((F(p := k # F p)) q)"
      using ql by auto
  qed
  moreover have eq: "map (\<lambda>(p, k). (desc_of p k, block_bytes m p k)) ?ks = take i held @ drop (Suc i) held"
    by (simp add: held take_map drop_map)
  moreover have "memory_step (Release i) (m, held) = Ok (?m2, take i held @ drop (Suc i) held)"
    by (simp only: memory_step.simps i if_True n(1) fst_conv same obind_simps prod.case)
  ultimately show ?thesis unfolding eq by blast
qed (use h in auto)

lemma step_held:
  "held_ok m F ks held \<Longrightarrow> \<exists>m' F' ks' held'. memory_step op (m, held) = Ok (m', held') \<and> held_ok m' F' ks' held'"
  by (cases op) (simp_all only: allocate_held release_held fill_held)

lemma run_held:
  "held_ok m F ks held \<Longrightarrow> \<exists>m' F' ks' held'. run_memory ops (m, held) = Ok (m', held') \<and> held_ok m' F' ks' held'"
proof (induction ops arbitrary: m F ks held)
  case (Cons op ops)
  obtain m' F' ks' held' where s: "memory_step op (m, held) = Ok (m', held')" "held_ok m' F' ks' held'"
    using step_held [OF Cons.prems] by blast
  then show ?case using Cons.IH [OF s(2)] by simp
qed auto

text \<open>What the holders of fragments rely on.\<close>

definition apart :: "fragment \<Rightarrow> fragment \<Rightarrow> bool" where
  "apart d e \<longleftrightarrow> fr_buffer_id d \<noteq> fr_buffer_id e \<or>
     unat (fr_offset d) + unat (fr_size d) \<le> unat (fr_offset e) \<or>
     unat (fr_offset e) + unat (fr_size e) \<le> unat (fr_offset d)"

lemma held_apart:
  assumes h: "held_ok m F ks held" and ij: "i < j" "j < length held"
  shows "apart (fst (held ! i)) (fst (held ! j))"
proof -
  obtain p k where pk: "ks ! i = (p, k)" by (cases "ks ! i")
  obtain q l where ql: "ks ! j = (q, l)" by (cases "ks ! j")
  have i: "i < length held" using ij by simp
  note n = held_nth [OF h i pk] and n' = held_nth [OF h ij(2) ql]
  have "distinct ks" using h by (simp add: held_ok_def)
  then have "(p, k) \<noteq> (q, l)" using pk ql ij n(7) nth_eq_iff_index_eq [of ks i j] by auto
  then show ?thesis
    using blocks_apart [OF n(8,3) n'(3) n(5) n'(5)] desc_of_sel [OF n(8,3,5)] desc_of_sel [OF n'(8,3,5)] n(1) n'(1)
    by (auto simp: apart_def)
qed

lemma held_view:
  assumes h: "held_ok m F ks held" and i: "i < length held"
  shows "fragment_view m (fst (held ! i)) = Ok (snd (held ! i))"
proof -
  obtain p k where pk: "ks ! i = (p, k)" by (cases "ks ! i")
  note n = held_nth [OF h i pk]
  show ?thesis using view_block(1) [OF n(8,3,5)] n(1) by simp
qed
section \<open>New buffers\<close>

lemma put_put: "off + length a + length b \<le> length buf \<Longrightarrow> put (put buf off a) (off + length a) b = put buf off (a @ b)"
  by (auto simp: put_def min_def ac_simps) (cases a; simp)

lemma word_header_le2:
  assumes "off + 4 \<le> length buf"
  shows "word_header (word32 (put buf off (to_le 2 v @ to_le 2 x)) off) = \<lparr>bh_version = v, bh_next = x\<rparr>"
proof -
  have "word32 (put buf off (to_le 2 v @ to_le 2 x)) off = from_le (to_le 2 v @ to_le 2 x)"
    using read_put_same [of off "to_le 2 v @ to_le 2 x" buf] assms by (simp add: word32_def)
  moreover have "take 4 (to_le 2 v @ to_le 2 x) = to_le 2 v @ to_le 2 x" by simp
  ultimately show ?thesis
    using header_bytes [of "to_le 2 v @ to_le 2 x"] from_le_to_le [of 2 v] from_le_to_le [of 2 x] by (simp add: word_header_def)
qed

lemma word32_zeros: "off + 4 \<le> n \<Longrightarrow> word32 (replicate n 0) off = 0"
  by (simp add: word32_def min_def numeral_eq_Suc)

lemma chain_upt:
  assumes "i < n" "\<And>k. k < n - 1 \<Longrightarrow> nx k = int k + 1" "nx (n - 1) = 0"
  shows "chain nx n i [Suc i..<n]"
  using assms(1)
proof (induction "n - i" arbitrary: i)
  case (Suc d)
  show ?case
  proof (cases "Suc i = n")
    case True
    then show ?thesis using assms(3) by auto
  next
    case False
    then have i: "Suc i < n" "i < n - 1" using Suc.prems by simp_all
    then have "chain nx n (Suc i) [Suc (Suc i)..<n]" using Suc.hyps by simp
    then show ?thesis using i assms(2) [OF i(2)] by (simp add: upt_conv_Cons)
  qed
qed simp

lemma initialized_free_list:
  assumes fits: "pool_fits p (replicate len 0)" and r: "pl_region p = 0" "pl_count p = len div unat (pl_block p)"
  shows "\<exists>region. initialized_region len (pl_block p) = Some region \<and> length region = len \<and> free_list region p [1..<pl_count p]"
proof -
  let ?n = "pl_count p" and ?bs = "unat (pl_block p)"
  let ?last = "(?n - 1) * ?bs"
  let ?x = "to_le 2 (0 :: u16) @ to_le 2 (0 - of_nat ?n :: u16)"
  let ?region = "put (replicate len 0) ?last ?x"
  have n: "0 < ?n" "?n \<le> 32767" using fits by (simp_all add: pool_fits_def)
  have off: "block_off p k = k * ?bs" for k by (simp add: block_off_def r(1))
  have last: "?last + 4 \<le> len" using block_off_bounds(4) [OF fits, of "?n - 1"] n(1) by (simp add: off)
  have c1: "copy_into (replicate len 0) ?last (?last + 2) (to_le 2 (0 :: u16)) = Some (put (replicate len 0) ?last (to_le 2 (0 :: u16)))"
    using copy_into_put [of ?last "to_le 2 (0 :: u16)" "replicate len 0"] last by (simp del: copy_into_Some)
  have four: "?last + 4 = ?last + 2 + length (to_le 2 (0 - of_nat ?n :: u16))" by simp
  have c2: "copy_into (put (replicate len 0) ?last (to_le 2 (0 :: u16))) (?last + 2) (?last + 4) (to_le 2 (0 - of_nat ?n :: u16)) = Some ?region"
    unfolding four using copy_into_put [of "?last + 2" "to_le 2 (0 - of_nat ?n :: u16)" "put (replicate len 0) ?last (to_le 2 (0 :: u16))"] last
      put_put [of ?last "to_le 2 (0 :: u16)" "to_le 2 (0 - of_nat ?n :: u16)" "replicate len 0"] by (simp del: copy_into_Some)
  have region: "initialized_region len (pl_block p) = Some ?region"
    unfolding initialized_region_def Let_def r(2) [symmetric] using n(1) c1 c2 by (simp add: usub_def)
  have k: "link_of ?region p k = int k + 1" if "k < ?n - 1" for k
  proof -
    have "block_off p k + ?bs \<le> block_off p (?n - 1)" using block_off_apart [OF that] .
    then have "k * ?bs + ?bs \<le> ?last" by (simp add: off)
    moreover have "64 \<le> ?bs" using fits by (simp add: pool_fits_def)
    ultimately have "word32 ?region (k * ?bs) = 0" using last by (simp add: word32_put word32_zeros)
    then show ?thesis by (simp add: link_of_def off word_header_def next_index_def)
  qed
  have "sint (0 - of_nat ?n :: u16) = - int ?n" using sint_small16 [of "- int ?n"] n by simp
  then have l: "link_of ?region p (?n - 1) = 0"
    using word_header_le2 [of ?last "replicate len 0"] last n(1) by (simp add: link_of_def off next_index_def)
  have "free_list ?region p [1..<?n]"
    using chain_upt [of 0 ?n "link_of ?region p"] n(1) k l by (simp add: free_list_def)
  then show ?thesis using region last by simp
qed

lemma register_sound:
  assumes ok: "mem_ok m F" and i: "i \<notin> set (lm_extra_order m)" "i \<noteq> PRIMARY_BUFFER_ID" "i \<noteq> INVALID_BUFFER_ID"
    and s: "valid_block_size s" "MIN_BLOCK_ALLOCATOR_CAPACITY \<le> length bytes div unat s" "length bytes div unat s \<le> 32767"
      "length bytes < 2 ^ 31"
    and p: "p = \<lparr>pl_buffer = i, pl_region = 0, pl_block = s, pl_count = length bytes div unat s\<rparr>"
  shows "\<exists>m'. register_buffer m i (Some bytes) True s = Ok m' \<and>
    set (pools m') = insert p (set (pools m)) \<and> mem_ok m' (F(p := [1..<length bytes div unat s]))"
proof -
  let ?n = "length bytes div unat s"
  have "64 \<le> s" "s AND 7 = 0" using s(1) by (simp_all add: valid_block_size_def MIN_FRAGMENT_SIZE_def linorder_not_less)
  then have "64 \<le> unat s" "take_bit 3 (unat s) = 0"
    using unsigned_take_bit_eq [of 3 s, where ?'a = nat] by (simp_all add: word_le_nat_alt take_bit_eq_mask mask_eq_exp_minus_1)
  then have bs: "64 \<le> unat s" "unat s mod 8 = 0" by (simp_all add: take_bit_eq_mod)
  have fits: "pool_fits p (replicate (length bytes) 0)"
    using i(3) s(2-4) bs p by (simp add: pool_fits_def block_off_def INVALID_BUFFER_ID_def MIN_BLOCK_ALLOCATOR_CAPACITY_def)
  obtain region where r: "initialized_region (length bytes) s = Some region" "length region = length bytes"
    "free_list region p [1..<?n]"
    using initialized_free_list [OF fits] p by auto
  let ?m' = "insert_buffer m i region s"
  have reg: "register_buffer m i (Some bytes) True s = Ok ?m'"
    using s(1,2) r(1) by (simp add: register_buffer_def)
  have new: "extra_pool ?m' i = p" using p r(2) by (simp add: extra_pool_def insert_buffer_def)
  have old: "extra_pool ?m' j = extra_pool m j" if "j \<in> set (lm_extra_order m)" for j
    using that i(1) by (auto simp: extra_pool_def insert_buffer_def)
  have pools: "set (pools ?m') = insert p (set (pools m))"
    using new old by (auto simp: pools_def insert_buffer_def)
  have bytes: "bytes_of ?m' j = (if j = i then region else bytes_of m j)" for j
    using i(2) by (simp add: bytes_of_def buffer_for_def insert_buffer_def)
  have other: "pl_buffer q \<noteq> i" if "q \<in> set (pools m)" for q
    using that i(1,2) by (auto simp: pools_def primary_pools_def extra_pool_def split: option.splits)
  have "pool_fits q (bytes_of ?m' (pl_buffer q)) \<and> free_list (bytes_of ?m' (pl_buffer q)) q ((F(p := [1..<?n])) q)"
    if q: "q \<in> set (pools ?m')" for q
  proof (cases "q = p")
    case True
    then show ?thesis using r(2,3) fits p bytes by (simp add: pool_fits_def)
  next
    case False
    then have "q \<in> set (pools m)" using q pools by simp
    then show ?thesis using ok other bytes False by (simp add: mem_ok_def)
  qed
  moreover have "distinct (lm_extra_order ?m')" "PRIMARY_BUFFER_ID \<notin> set (lm_extra_order ?m')"
    "\<forall>j \<in> set (lm_extra_order ?m'). lm_extra ?m' j \<noteq> None"
    using ok i by (auto simp: insert_buffer_def mem_ok_def)
  ultimately have "mem_ok ?m' (F(p := [1..<?n]))" by (simp add: mem_ok_def)
  then show ?thesis using reg pools by blast
qed

text \<open>Registering a new buffer on a sound memory, under an identifier not in use, with a valid block size and
  room for 8 to 32767 blocks, succeeds; the memory stays sound, the free lists of the other allocators
  are unchanged, and all blocks of the new buffer but the first are free, in address order.\<close>
theorem registered_buffer_all_free:
  assumes ok: "mem_ok m F" and i: "i \<notin> set (lm_extra_order m)" "i \<noteq> PRIMARY_BUFFER_ID" "i \<noteq> INVALID_BUFFER_ID"
    and s: "valid_block_size s" "MIN_BLOCK_ALLOCATOR_CAPACITY \<le> length bytes div unat s" "length bytes div unat s \<le> 32767"
      "length bytes < 2 ^ 31"
    and p: "p = \<lparr>pl_buffer = i, pl_region = 0, pl_block = s, pl_count = length bytes div unat s\<rparr>"
  shows "\<exists>m'. register_buffer m i (Some bytes) True s = Ok m' \<and>
    set (pools m') = insert p (set (pools m)) \<and> mem_ok m' (F(p := [1..<length bytes div unat s]))"
  by (rule register_sound [OF assms])
text \<open>A memory for the witnesses: the allocators of the primary buffer are used up.\<close>

definition spent_primary :: "byte list" where
  "spent_primary = fold (\<lambda>off buf. put buf off (to_le 2 (0 :: u16) @ to_le 2 (- 1 :: u16)))
     [0x400, 0x17700, 0x18000, 0x19000, 0x1A000, 0x1C000] (replicate PRIMARY_BUFFER_SIZE 0)"

definition spent_memory :: link_memory where
  "spent_memory = \<lparr>lm_primary = spent_primary, lm_extra = Map.empty, lm_extra_order = []\<rparr>"

lemma spent_length: "length spent_primary = 131072"
  by (simp add: spent_primary_def PRIMARY_BUFFER_SIZE_def)

lemma word_header_put_other:
  "off + length bytes \<le> length buf \<Longrightarrow> a + 4 \<le> off \<or> off + length bytes \<le> a \<Longrightarrow>
   word_header (word32 (put buf off bytes) a) = word_header (word32 buf a)"
  by (simp add: word32_put)

lemma spent_headers:
  "off \<in> {0x400, 0x17700, 0x18000, 0x19000, 0x1A000, 0x1C000} \<Longrightarrow>
   word_header (word32 spent_primary off) = \<lparr>bh_version = 0, bh_next = - 1\<rparr>"
  unfolding spent_primary_def PRIMARY_BUFFER_SIZE_def fold.simps comp_def id_def
  by (elim insertE emptyE; simp only:; simp add: word_header_put_other word_header_le2)

lemma spent_ok: "mem_ok spent_memory (\<lambda>_. [])"
proof -
  have "pool_fits p spent_primary \<and> free_list spent_primary p []" if "p \<in> set primary_pools" for p
  proof -
    have "pl_region p \<in> {0x400, 0x17700, 0x18000, 0x19000, 0x1A000, 0x1C000}"
      using that unfolding primary_pools_set by auto
    then have "free_list spent_primary p []" using spent_headers by (simp add: free_list_def link_of_def next_index_def)
    moreover have "pool_fits p spent_primary"
      using that unfolding primary_pools_set by (auto simp: pool_fits_def block_off_def spent_length)
    ultimately show ?thesis by blast
  qed
  then show ?thesis
    by (auto simp: mem_ok_def pools_def spent_memory_def bytes_of_def buffer_for_def primary_pools_def)
qed
definition witness_pool :: pool where
  "witness_pool = \<lparr>pl_buffer = 5, pl_region = 0, pl_block = 64, pl_count = 512 div 64\<rparr>"

lemma witness_memory_sound:
  "\<exists>m'. register_buffer spent_memory 5 (Some (replicate 512 0)) True 64 = Ok m' \<and>
    mem_ok m' ((\<lambda>_. [])(witness_pool := [1..<8]))"
  using register_sound [OF spent_ok, of 5 64 "replicate 512 0" witness_pool]
  by (simp add: spent_memory_def PRIMARY_BUFFER_ID_def INVALID_BUFFER_ID_def valid_block_size_def MIN_FRAGMENT_SIZE_def
      MIN_BLOCK_ALLOCATOR_CAPACITY_def witness_pool_def) blast

lemma registered_buffer_all_free_witness:
  "\<exists>m'. register_buffer spent_memory 5 (Some (replicate 512 0)) True 64 = Ok m' \<and>
    set (pools m') = insert witness_pool (set (pools spent_memory)) \<and>
    mem_ok m' ((\<lambda>_. [])(witness_pool := [1..<8]))"
  using registered_buffer_all_free [OF spent_ok, of 5 64 "replicate 512 0" witness_pool]
  by (simp add: spent_memory_def PRIMARY_BUFFER_ID_def INVALID_BUFFER_ID_def valid_block_size_def MIN_FRAGMENT_SIZE_def
      MIN_BLOCK_ALLOCATOR_CAPACITY_def witness_pool_def)

text \<open>C5: From a sound memory, any sequence of allocations, releases and writes by the holders of fragments
  runs without error or panic.  At its end every held fragment still resolves, its bytes are those last
  written through it (or found at its allocation), and no two held fragments share a byte.\<close>
theorem allocations_keep_apart:
  assumes "mem_ok m F"
  shows "\<exists>m' held. run_memory ops (m, []) = Ok (m', held) \<and>
    (\<forall>i < length held. fragment_view m' (fst (held ! i)) = Ok (snd (held ! i))) \<and>
    (\<forall>j < length held. \<forall>i < j. apart (fst (held ! i)) (fst (held ! j)))"
proof -
  have "held_ok m F [] []" using assms by (simp add: held_ok_def)
  then obtain m' F' ks' held' where "run_memory ops (m, []) = Ok (m', held')" "held_ok m' F' ks' held'"
    using run_held by blast
  then show ?thesis using held_view held_apart by blast
qed

lemma allocations_keep_apart_witness:
  "\<exists>m. register_buffer spent_memory 5 (Some (replicate 512 0)) True 64 = Ok m \<and>
    (\<exists>m' held. run_memory [Allocate 64, Allocate 20, Fill 1 3 [1, 2], Release 0] (m, []) = Ok (m', held) \<and>
    (\<forall>i < length held. fragment_view m' (fst (held ! i)) = Ok (snd (held ! i))) \<and>
    (\<forall>j < length held. \<forall>i < j. apart (fst (held ! i)) (fst (held ! j))))"
proof -
  obtain m where m: "register_buffer spent_memory 5 (Some (replicate 512 0)) True 64 = Ok m"
    "mem_ok m ((\<lambda>_. [])(witness_pool := [1..<8]))" using witness_memory_sound by blast
  show ?thesis using allocations_keep_apart [OF m(2)] m(1) by blast
qed

text \<open>C22: Allocating from a sound memory fails exactly when the size is zero or above one mebibyte, or all allocators
  of the smallest sufficient block size are used up.  Otherwise the block found is the front of the free
  list of such an allocator and has the size asked for.\<close>
theorem allocation_exact:
  assumes "mem_ok m F"
  shows "\<exists>b m'. try_allocate_fragment m n = Ok (b, m') \<and>
    (b = None \<longleftrightarrow> n = 0 \<or> n > MAX_FRAGMENT_SIZE_FOR_BLOCK_ALLOCATION \<or>
      (\<forall>p \<in> set (pools m). Some (pl_block p) = chosen_size m n \<longrightarrow> F p = [])) \<and>
    (\<forall>d. b = Some d \<longrightarrow> (\<exists>p f fs. p \<in> set (pools m) \<and> Some (pl_block p) = chosen_size m n \<and> F p = f # fs \<and>
      fr_buffer_id d = pl_buffer p \<and> unat (fr_offset d) = pl_region p + f * unat (pl_block p) \<and>
      fr_size d = pl_block p \<and> n \<le> unat (fr_size d)))"
proof -
  obtain b m' where a: "try_allocate_fragment m n = Ok (b, m')"
    "if n = 0 \<or> n > MAX_FRAGMENT_SIZE_FOR_BLOCK_ALLOCATION \<or>
        (\<forall>p \<in> set (pools m). Some (pl_block p) = chosen_size m n \<longrightarrow> F p = []) then b = None \<and> m' = m
     else \<exists>p. n \<le> unat (pl_block p) \<and> Some (pl_block p) = chosen_size m n \<and> took m F p b m'"
    using allocate_spec [OF assms] by blast
  show ?thesis
  proof (cases "n = 0 \<or> n > MAX_FRAGMENT_SIZE_FOR_BLOCK_ALLOCATION \<or>
      (\<forall>p \<in> set (pools m). Some (pl_block p) = chosen_size m n \<longrightarrow> F p = [])")
    case True
    then have "b = None" using a(2) by simp
    then show ?thesis using a(1) True by simp
  next
    case False
    obtain p where q: "n \<le> unat (pl_block p)" "Some (pl_block p) = chosen_size m n" "took m F p b m'"
      using a(2) unfolding if_not_P [OF False] by blast
    then obtain f fs where p: "n \<le> unat (pl_block p)" "Some (pl_block p) = chosen_size m n" "p \<in> set (pools m)"
      "F p = f # fs" "b = Some (desc_of p f)" unfolding took_def by blast
    have "f < pl_count p" using assms p(3,4) by (auto simp: mem_ok_def free_list_def)
    note d = desc_of_sel [OF assms p(3) this]
    have "\<exists>p f fs. p \<in> set (pools m) \<and> Some (pl_block p) = chosen_size m n \<and> F p = f # fs \<and>
      fr_buffer_id (desc_of q g) = pl_buffer p \<and> unat (fr_offset (desc_of q g)) = pl_region p + f * unat (pl_block p) \<and>
      fr_size (desc_of q g) = pl_block p \<and> n \<le> unat (fr_size (desc_of q g))" if "q = p" "g = f" for q g
      using d p that by (auto simp: block_off_def)
    then show ?thesis using a(1) False p(5) by (intro exI [of _ b] exI [of _ m']) auto
  qed
qed

lemma allocation_exact_witness:
  "\<exists>m. register_buffer spent_memory 5 (Some (replicate 512 0)) True 64 = Ok m \<and>
   (\<exists>b m'. try_allocate_fragment m 64 = Ok (b, m') \<and>
    (b = None \<longleftrightarrow> (64 :: nat) = 0 \<or> 64 > MAX_FRAGMENT_SIZE_FOR_BLOCK_ALLOCATION \<or>
      (\<forall>p \<in> set (pools m). Some (pl_block p) = chosen_size m 64 \<longrightarrow> ((\<lambda>_. [])(witness_pool := [1..<8])) p = [])) \<and>
    (\<forall>d. b = Some d \<longrightarrow> (\<exists>p f fs. p \<in> set (pools m) \<and> Some (pl_block p) = chosen_size m 64 \<and>
      ((\<lambda>_. [])(witness_pool := [1..<8])) p = f # fs \<and> fr_buffer_id d = pl_buffer p \<and>
      unat (fr_offset d) = pl_region p + f * unat (pl_block p) \<and> fr_size d = pl_block p \<and> 64 \<le> unat (fr_size d))))"
proof -
  obtain m where m: "register_buffer spent_memory 5 (Some (replicate 512 0)) True 64 = Ok m"
    "mem_ok m ((\<lambda>_. [])(witness_pool := [1..<8]))" using witness_memory_sound by blast
  show ?thesis using allocation_exact [OF m(2), of 64] m(1) by blast
qed

section \<open>Parcels in fragments\<close>

lemma store_ok:
  assumes ok: "mem_ok m F" and p: "p \<in> set (pools m)" "k < pl_count p" "0 < k" "k \<notin> set (F p)"
    and a: "a + length bytes \<le> unat (pl_block p)"
  obtains m' where "store_view m (desc_of p k) a bytes = Ok m'" "mem_ok m' F" "pools m' = pools m"
    "block_bytes m' p k = put (block_bytes m p k) a bytes"
proof -
  let ?m' = "set_buffer m (pl_buffer p) (put (bytes_of m (pl_buffer p)) (block_off p k + a) bytes)"
  have fits: "pool_fits p (bytes_of m (pl_buffer p))" using ok p(1) by (simp add: mem_ok_def)
  have in_block: "block_off p k \<le> block_off p k + a" "block_off p k + a + length bytes \<le> block_off p k + unat (pl_block p)"
    using a by simp_all
  show thesis
  proof (rule that)
    show "store_view m (desc_of p k) a bytes = Ok ?m'" by (rule store_block [OF ok p(1,2) a])
    show "mem_ok ?m' F" by (rule mem_ok_fill [OF ok p in_block refl])
    show "pools ?m' = pools m" by (rule write_frame(1) [OF ok p(1,2) in_block refl])
    show "block_bytes ?m' p k = put (block_bytes m p k) a bytes"
      using put_inside [OF a] block_off_bounds(1) [OF fits p(2)]
      by (simp add: block_bytes_def bytes_of_set [OF buffer_of_pool [OF ok p(1)]])
  qed
qed

lemma block_word:
  assumes ok: "mem_ok m F" and p: "p \<in> set (pools m)" "k < pl_count p"
  shows "store_word 4 m (desc_of p k) 0 (w :: u32) = store_view m (desc_of p k) 0 (to_le 4 w)"
    "load_word 4 m (desc_of p k) 0 = Ok (from_le (take 4 (block_bytes m p k)) :: u32)"
proof -
  let ?buf = "bytes_of m (pl_buffer p)"
  have fits: "pool_fits p ?buf" "64 \<le> unat (pl_block p)" using ok p(1) by (simp_all add: mem_ok_def pool_fits_def)
  note bnd = block_off_bounds [OF fits(1) p(2)]
  have "copy_into ?buf (block_off p k) (block_off p k + 4) (to_le 4 w) = Some (put ?buf (block_off p k) (to_le 4 w))"
    using copy_into_put [of "block_off p k" "to_le 4 w" ?buf] bnd(4) by (simp del: copy_into_Some)
  then show "store_word 4 m (desc_of p k) 0 w = store_view m (desc_of p k) 0 (to_le 4 w)"
    using store_block [OF ok p, of 0 "to_le 4 w"] fits(2) view_block(1) [OF ok p] desc_of_sel(1,2) [OF ok p] buffer_of_pool [OF ok p(1)]
    by (simp add: store_word_def del: copy_into_Some)
  have "take 4 (block_bytes m p k) = take 4 (drop (block_off p k) ?buf)" using fits(2) by (simp add: block_bytes_def min_def)
  then show "load_word 4 m (desc_of p k) 0 = Ok (from_le (take 4 (block_bytes m p k)) :: u32)"
    using view_block(1) [OF ok p] desc_of_sel(1,2) [OF ok p] buffer_of_pool [OF ok p(1)] bnd(4) by (simp add: load_word_def)
qed

text \<open>The bytes of a fragment that holds a parcel.\<close>

lemma parcel_bytes:
  assumes "8 + length data \<le> length b"
  shows "take 4 (put (put (put b 4 (to_le 4 (0 :: u32))) 8 data) 0 (to_le 4 (w :: u32))) = to_le 4 w"
    "take (length data) (drop 8 (put (put (put b 4 (to_le 4 (0 :: u32))) 8 data) 0 (to_le 4 w))) = data"
proof -
  show "take 4 (put (put (put b 4 (to_le 4 (0 :: u32))) 8 data) 0 (to_le 4 w)) = to_le 4 w"
    by (simp add: put_def)
  have "take (length data) (drop 8 (put (put (put b 4 (to_le 4 (0 :: u32))) 8 data) 0 (to_le 4 w))) =
      take (length data) (drop 8 (put (put b 4 (to_le 4 (0 :: u32))) 8 data))"
    using assms by (intro read_put_other) simp_all
  also have "\<dots> = data" using assms by (intro read_put_same) simp
  finally show "take (length data) (drop 8 (put (put (put b 4 (to_le 4 (0 :: u32))) 8 data) 0 (to_le 4 w))) = data" .
qed

lemma write_parcel:
  assumes ok: "mem_ok m F" and len: "length data + 8 < usize_limit"
  obtains "write_parcel_fragment m data = Err OutOfBounds" "try_allocate_fragment m (length data + 8) = Ok (None, m)"
  | d m' F' where "write_parcel_fragment m data = Ok (d, m')" "mem_ok m' F'" "read_parcel_fragment m' d = Ok data"
proof -
  let ?n = "length data + 8"
  have add: "uadd (length data) FRAGMENT_HEADER_SIZE = Some ?n" using len by (simp add: FRAGMENT_HEADER_SIZE_def)
  obtain b m1 where a: "try_allocate_fragment m ?n = Ok (b, m1)"
    "if ?n = 0 \<or> ?n > MAX_FRAGMENT_SIZE_FOR_BLOCK_ALLOCATION \<or>
        (\<forall>p \<in> set (pools m). Some (pl_block p) = chosen_size m ?n \<longrightarrow> F p = []) then b = None \<and> m1 = m
     else \<exists>p. ?n \<le> unat (pl_block p) \<and> Some (pl_block p) = chosen_size m ?n \<and> took m F p b m1"
    using allocate_spec [OF ok] by blast
  show thesis
  proof (cases "b = None")
    case True
    then have "m1 = m" using a(2) took_Some by (metis (no_types))
    then show thesis using that(1) a(1) True add by (simp add: write_parcel_fragment_def)
  next
    case False
    then obtain p where p: "?n \<le> unat (pl_block p)" "took m F p b m1" using a(2) by (metis (no_types))
    then obtain f fs w where t: "p \<in> set (pools m)" "F p = f # fs" "b = Some (desc_of p f)" "mem_ok m1 (F(p := fs))"
      "m1 = set_buffer m (pl_buffer p) (put (bytes_of m (pl_buffer p)) (pl_region p) (to_le 4 (w :: u32)))"
      unfolding took_def by blast
    have fits: "pool_fits p (bytes_of m (pl_buffer p))" "free_list (bytes_of m (pl_buffer p)) p (f # fs)"
      using ok t(1,2) by (auto simp: mem_ok_def)
    then have n: "0 < pl_count p" "64 \<le> unat (pl_block p)" "0 < f" "f < pl_count p" "f \<notin> set ((F(p := fs)) p)"
      by (auto simp: pool_fits_def free_list_def)
    have "pools m1 = pools m"
      by (rule write_frame(1) [OF ok t(1) n(1) _ _ t(5)]) (use n(2) in simp_all)
    then have p1: "p \<in> set (pools m1)" using t(1) by simp
    obtain m2 where m2: "store_view m1 (desc_of p f) 4 (to_le 4 (0 :: u32)) = Ok m2" "mem_ok m2 (F(p := fs))"
      "pools m2 = pools m1" "block_bytes m2 p f = put (block_bytes m1 p f) 4 (to_le 4 (0 :: u32))"
      by (rule store_ok [OF t(4) p1 n(4,3,5), of 4 "to_le 4 (0 :: u32)"]) (use n(2) in simp)
    have p2: "p \<in> set (pools m2)" using p1 m2(3) by simp
    obtain m3 where m3: "store_view m2 (desc_of p f) 8 data = Ok m3" "mem_ok m3 (F(p := fs))"
      "pools m3 = pools m2" "block_bytes m3 p f = put (block_bytes m2 p f) 8 data"
      by (rule store_ok [OF m2(2) p2 n(4,3,5), of 8 data]) (use p(1) in simp)
    have p3: "p \<in> set (pools m3)" using p2 m3(3) by simp
    let ?w = "of_nat (length data) :: u32"
    obtain m4 where m4: "store_view m3 (desc_of p f) 0 (to_le 4 ?w) = Ok m4" "mem_ok m4 (F(p := fs))"
      "pools m4 = pools m3" "block_bytes m4 p f = put (block_bytes m3 p f) 0 (to_le 4 ?w)"
      by (rule store_ok [OF m3(2) p3 n(4,3,5), of 0 "to_le 4 ?w"]) (use n(2) in simp)
    have p4: "p \<in> set (pools m4)" using p3 m4(3) by simp
    have w: "write_parcel_fragment m data = Ok (desc_of p f, m4)"
      using add a(1) t(3) m2(1) m3(1) m4(1) block_word(1) [OF m3(2) p3 n(4)]
      by (simp add: write_parcel_fragment_def FRAGMENT_HEADER_SIZE_def)
    have bytes: "block_bytes m4 p f = put (put (put (block_bytes m1 p f) 4 (to_le 4 (0 :: u32))) 8 data) 0 (to_le 4 ?w)"
      by (simp only: m2(4) m3(4) m4(4))
    have len1: "8 + length data \<le> length (block_bytes m1 p f)" using p(1) view_block(2) [OF t(4) p1 n(4)] by simp
    have "unat (pl_block p) < 2 ^ 32" using unsigned_less [of "pl_block p"] by simp
    then have u: "unat ?w = length data" using p(1) by (intro unat_word32) simp
    note v = view_block [OF m4(2) p4 n(4)]
    have l4: "load_word 4 m4 (desc_of p f) 0 = Ok ?w"
      using block_word(2) [OF m4(2) p4 n(4)] parcel_bytes(1) [OF len1, of ?w] by (simp add: bytes from_le_to_le)
    have "slice (block_bytes m4 p f) 8 (8 + length data) = Some data"
      using parcel_bytes(2) [OF len1, of ?w] v(2) p(1) by (simp add: bytes slice_def)
    moreover have "fr_size (desc_of p f) = pl_block p" using desc_of_sel(3) [OF t(4) p1 n(4)] .
    ultimately have "read_parcel_fragment m4 (desc_of p f) = Ok data"
      using v l4 u p(1) n(2) by (simp add: read_parcel_fragment_def FRAGMENT_HEADER_SIZE_def)
    then show thesis using that(2) w m4(2) by blast
  qed
qed
text \<open>C21: Writing a parcel into a sound memory either stores it in a fresh fragment, from which reading gives exactly
  its bytes back and with which the memory is still sound, or fails with \<open>OutOfBounds\<close>, which happens only when
  no block of the size was to be had; it never panics.\<close>
theorem parcel_fragment_roundtrip:
  assumes "mem_ok m F" "length data + 8 < usize_limit"
  shows "case write_parcel_fragment m data of
      Ok (d, m') \<Rightarrow> read_parcel_fragment m' d = Ok data \<and> (\<exists>F'. mem_ok m' F')
    | Err e \<Rightarrow> e = OutOfBounds \<and> try_allocate_fragment m (length data + 8) = Ok (None, m)
    | Panic \<Rightarrow> False"
  by (rule write_parcel [OF assms]) auto

lemma parcel_fragment_roundtrip_witness:
  "\<exists>m. register_buffer spent_memory 5 (Some (replicate 512 0)) True 64 = Ok m \<and>
   (case write_parcel_fragment m [7, 8, 9] of
      Ok (d, m') \<Rightarrow> read_parcel_fragment m' d = Ok [7, 8, 9] \<and> (\<exists>F'. mem_ok m' F')
    | Err e \<Rightarrow> e = OutOfBounds \<and> try_allocate_fragment m (length [7 :: byte, 8, 9] + 8) = Ok (None, m)
    | Panic \<Rightarrow> False)"
proof -
  obtain m where m: "register_buffer spent_memory 5 (Some (replicate 512 0)) True 64 = Ok m"
    "mem_ok m ((\<lambda>_. [])(witness_pool := [1..<8]))" using witness_memory_sound by blast
  have "length [7 :: byte, 8, 9] + 8 < usize_limit" by (simp add: usize_limit_def)
  then show ?thesis using parcel_fragment_roundtrip [OF m(2), of "[7, 8, 9]"] m(1) by blast
qed

section \<open>A hostile peer\<close>

text \<open>The peer maps the same memory.  If it writes a link below minus one into the front header of an
  allocator, the next allocation from it panics: only the link of an empty list and links beyond the last block are
  rejected, and the negative index, cast to \<open>usize\<close>, overflows when it is multiplied by the block size.\<close>
theorem hostile_free_list_panics:
  assumes "0 < num_blocks" "num_blocks \<le> 32767" "64 \<le> block_size"
    and "read_block_header m (block_at i region 4) = Ok front" "sint (bh_next front) < - 1"
  shows "pop_block m i region block_size num_blocks = Panic"
proof -
  let ?x = "sint (bh_next front) + 1"
  have lo: "- 32768 \<le> sint (bh_next front)" using sint_greater_eq [of "bh_next front"] by simp
  have "(?x + 2 ^ 64) mod 2 ^ 64 = ?x + 2 ^ 64" using lo assms(5) by (intro mod_pos_pos_trivial) simp_all
  then have "?x mod 2 ^ 64 = ?x + 2 ^ 64" by (simp only: mod_add_self2)
  then have "nat (?x mod 2 ^ 64) \<ge> 2 ^ 64 - 32767" using lo by simp
  moreover have "64 \<le> unat block_size" using assms(3) by (simp add: word_le_nat_alt)
  ultimately have "(2 ^ 64 - 32767) * 64 \<le> nat (?x mod 2 ^ 64) * unat block_size" by (intro mult_le_mono) simp_all
  then have "umul (nat (?x mod 2 ^ 64)) (unat block_size) = None" by (simp add: umul_def usize_limit_def)
  then have "pop_turn m i region block_size num_blocks front = Panic"
    using assms(1,5) by (simp add: pop_turn_def Let_def)
  then show ?thesis using assms(1,2,4) by (simp add: pop_block_def numeral_2_eq_2)
qed

text \<open>The buffer of the witness: its front header links to block minus two.\<close>

definition hostile_memory :: link_memory where
  "hostile_memory = insert_buffer spent_memory 5 (put (replicate 512 0) 0 (to_le 2 (0 :: u16) @ to_le 2 (- 3 :: u16))) 64"

lemma hostile_free_list_panics_witness: "pop_block hostile_memory 5 0 64 8 = Panic"
proof (rule hostile_free_list_panics)
  have "buffer_for hostile_memory 5 = Ok (put (replicate 512 0) 0 (to_le 2 (0 :: u16) @ to_le 2 (- 3 :: u16)))"
    by (simp add: hostile_memory_def insert_buffer_def buffer_for_def PRIMARY_BUFFER_ID_def)
  from read_header_eq [OF this, of 0]
  show "read_block_header hostile_memory (block_at 5 0 4) = Ok \<lparr>bh_version = 0, bh_next = - 3\<rparr>"
    by (simp add: word_header_le2)
qed (simp_all)

text \<open>The identifier of a buffer that the peer announces is only compared with the invalid one: under the identifier
  of the primary buffer it is accepted, its memory can never be reached, and the allocator it seems to add
  works on the first bytes of the primary buffer.\<close>
theorem primary_buffer_shadowed:
  assumes "add_buffer m PRIMARY_BUFFER_ID (Some bytes) True s = r" "lm_extra m PRIMARY_BUFFER_ID = None"
    and "valid_block_size s" "MIN_BLOCK_ALLOCATOR_CAPACITY \<le> length bytes div unat s"
  shows "\<exists>m'. r = Ok m' \<and> buffer_for m' PRIMARY_BUFFER_ID = Ok (lm_primary m) \<and>
    pop_extra m' s [PRIMARY_BUFFER_ID] = obind (pop_block m' PRIMARY_BUFFER_ID 0 s (length bytes div unat s))
      (\<lambda>(b, m). Ok (b, m))"
proof -
  have "s \<noteq> 0" using assms(3) by (auto simp: valid_block_size_def MIN_FRAGMENT_SIZE_def)
  moreover have "r = Ok (insert_buffer m PRIMARY_BUFFER_ID bytes s)"
    using assms by (auto simp: add_buffer_def PRIMARY_BUFFER_ID_def INVALID_BUFFER_ID_def)
  ultimately show ?thesis
    by (auto simp: insert_buffer_def buffer_for_def intro!: arg_cong2 [where f = obind] ext split: option.split)
qed

lemma primary_buffer_shadowed_witness:
  "\<exists>m'. add_buffer spent_memory PRIMARY_BUFFER_ID (Some (replicate 512 0)) True 64 = Ok m' \<and>
    buffer_for m' PRIMARY_BUFFER_ID = Ok (lm_primary spent_memory) \<and>
    pop_extra m' 64 [PRIMARY_BUFFER_ID] = obind (pop_block m' PRIMARY_BUFFER_ID 0 64 (length (replicate 512 (0 :: byte)) div unat (64 :: u32)))
      (\<lambda>(b, m). Ok (b, m))"
  by (rule primary_buffer_shadowed [OF refl])
    (simp_all add: spent_memory_def valid_block_size_def MIN_FRAGMENT_SIZE_def MIN_BLOCK_ALLOCATOR_CAPACITY_def)

end
