(* ===== verification/Router.thy ===== *)
theory Router
  imports LinkMemory "HOL-Library.Finite_Map"
begin

text \<open>
  The routers of a node: \<open>crates/mojo-rs-interop/src/ipcz/router.rs\<close>.  Links, edges with a primary and
  a decaying link, sequenced parcel queues, and routers.  Sequence numbers are 64 bit words; adding
  one to the largest panics.  The in-process state that the two ends of a local link share is an
  address into a store that the owner of the routers carries (theory Routing).  The maps of
  out-of-order parcels are finite maps.
\<close>

section \<open>Links\<close>

datatype link_kind = Central | PeripheralOutward | PeripheralInward | Bridge

definition kind_is_outward :: "link_kind \<Rightarrow> bool" where
  "kind_is_outward k = (k = Central \<or> k = PeripheralOutward)"

definition is_central :: "link_kind \<Rightarrow> bool" where
  "is_central k = (k = Central)"

definition is_bridge :: "link_kind \<Rightarrow> bool" where
  "is_bridge k = (k = Bridge)"

datatype link_side = LinkA | LinkB

fun opposite :: "link_side \<Rightarrow> link_side" where
  "opposite LinkA = LinkB"
| "opposite LinkB = LinkA"

definition is_a :: "link_side \<Rightarrow> bool" where
  "is_a s = (s = LinkA)"

text \<open>The state of a local link.\<close>

record local_link_state =
  ll_status :: u32
  ll_allowed_source :: u64

definition local_state_new :: "bool \<Rightarrow> local_link_state" where
  "local_state_new initial_stable =
     \<lparr>ll_status = (if initial_stable then STABLE else UNSTABLE), ll_allowed_source = 0\<rparr>"

text \<open>The lock loop: nobody else changes the status, so two turns are enough.\<close>

fun local_lock_loop :: "nat \<Rightarrow> bool \<Rightarrow> u32 \<Rightarrow> u32 \<Rightarrow> u32 \<Rightarrow> (bool \<times> u32) option" where
  "local_lock_loop 0 side_a status expected desired_bit = None"
| "local_lock_loop (Suc fuel) side_a status expected desired_bit =
     (if status = expected then Some (desired_bit = locked_of side_a, status OR desired_bit)
      else
      let expected = status in
      if expected AND LOCKED_EITHER \<noteq> 0 \<or> expected AND stable_of side_a = 0 then Some (False, status)
      else
      local_lock_loop fuel side_a status expected
        (if desired_bit = locked_of side_a \<and> expected AND stable_of (\<not> side_a) = 0 then waiting_of side_a
         else if desired_bit = waiting_of side_a \<and> expected AND STABLE = STABLE then locked_of side_a
         else desired_bit))"

definition local_try_lock :: "local_link_state \<Rightarrow> bool \<Rightarrow> (bool \<times> local_link_state) option" where
  "local_try_lock s side_a = do {
     (r, status) \<leftarrow> local_lock_loop 2 side_a (ll_status s) STABLE (locked_of side_a);
     Some (r, s\<lparr>ll_status := status\<rparr>) }"

definition local_set_side_stable :: "local_link_state \<Rightarrow> bool \<Rightarrow> local_link_state" where
  "local_set_side_stable s side_a =
     (if ll_status s AND stable_of side_a = 0 then s\<lparr>ll_status := ll_status s OR stable_of side_a\<rparr> else s)"

definition local_unlock :: "local_link_state \<Rightarrow> bool \<Rightarrow> local_link_state" where
  "local_unlock s side_a = s\<lparr>ll_status := ll_status s AND NOT (locked_of side_a)\<rparr>"

definition local_reset_waiting_bit :: "local_link_state \<Rightarrow> bool \<Rightarrow> bool \<times> local_link_state" where
  "local_reset_waiting_bit s side_a =
     (if ll_status s AND STABLE \<noteq> STABLE \<or> ll_status s AND waiting_of side_a = 0 \<or> ll_status s AND LOCKED_EITHER \<noteq> 0
      then (False, s)
      else (True, s\<lparr>ll_status := ll_status s AND NOT (waiting_of side_a)\<rparr>))"

record link =
  li_link_id :: u64
  li_sublink :: u64
  li_kind :: link_kind
  li_side :: link_side
  li_link_state :: "fragment option"
  li_local_peer :: "u64 option"
  li_local_state :: "nat option"

definition is_local :: "link \<Rightarrow> bool" where
  "is_local l = (li_local_peer l \<noteq> None)"

definition remote_link :: "u64 \<Rightarrow> u64 \<Rightarrow> link_kind \<Rightarrow> link_side \<Rightarrow> fragment option \<Rightarrow> link" where
  "remote_link i s k side ls =
     \<lparr>li_link_id = i, li_sublink = s, li_kind = k, li_side = side, li_link_state = ls,
      li_local_peer = None, li_local_state = None\<rparr>"

text \<open>A pair of local links over a new state, which becomes the last one of the store.\<close>

definition local_pair ::
  "link_kind \<Rightarrow> link_side \<Rightarrow> u64 \<Rightarrow> u64 \<Rightarrow> bool \<Rightarrow> local_link_state list \<Rightarrow> (link \<times> link) \<times> local_link_state list" where
  "local_pair k side rid_a rid_b initial_stable store =
     (let end_of = (\<lambda>s peer. \<lparr>li_link_id = 0, li_sublink = 0, li_kind = k, li_side = s, li_link_state = None,
                      li_local_peer = Some peer, li_local_state = Some (length store)\<rparr>) in
      ((end_of side rid_b, end_of (opposite side) rid_a), store @ [local_state_new initial_stable]))"

definition link_is_outward :: "link \<Rightarrow> bool" where
  "link_is_outward l = kind_is_outward (li_kind l)"

section \<open>Edges\<close>

record decaying_link =
  dl_link :: "link option"
  dl_outgoing :: "u64 option"
  dl_incoming :: "u64 option"

record edge =
  ed_primary :: "link option"
  ed_decaying :: "decaying_link option"

definition edge_default :: edge where
  "edge_default = \<lparr>ed_primary = None, ed_decaying = None\<rparr>"

definition edge_is_stable :: "edge \<Rightarrow> bool" where
  "edge_is_stable e = (ed_decaying e = None)"

definition is_decay_deferred :: "edge \<Rightarrow> bool" where
  "is_decay_deferred e = (case ed_decaying e of Some d \<Rightarrow> dl_link d = None | None \<Rightarrow> False)"

definition edge_decaying_link :: "edge \<Rightarrow> link option" where
  "edge_decaying_link e = Option.bind (ed_decaying e) dl_link"

definition set_primary_link :: "edge \<Rightarrow> link \<Rightarrow> edge option" where
  "set_primary_link e l =
     (if ed_primary e \<noteq> None then None
      else Some (case ed_decaying e of
        Some d \<Rightarrow> if dl_link d = None then e\<lparr>ed_decaying := Some (d\<lparr>dl_link := Some l\<rparr>)\<rparr> else e\<lparr>ed_primary := Some l\<rparr>
      | None \<Rightarrow> e\<lparr>ed_primary := Some l\<rparr>))"

definition release_primary_link :: "edge \<Rightarrow> link option \<times> edge" where
  "release_primary_link e = (ed_primary e, e\<lparr>ed_primary := None\<rparr>)"

definition release_decaying_link :: "edge \<Rightarrow> link option \<times> edge" where
  "release_decaying_link e = (Option.bind (ed_decaying e) dl_link, e\<lparr>ed_decaying := None\<rparr>)"

definition begin_primary_link_decay :: "edge \<Rightarrow> bool \<times> edge" where
  "begin_primary_link_decay e =
     (if ed_decaying e \<noteq> None then (False, e)
      else (True, e\<lparr>ed_primary := None,
              ed_decaying := Some \<lparr>dl_link = ed_primary e, dl_outgoing = None, dl_incoming = None\<rparr>\<rparr>))"

definition should_transmit_on_decaying_link :: "edge \<Rightarrow> u64 \<Rightarrow> bool" where
  "should_transmit_on_decaying_link e n =
     (case ed_decaying e of
        Some d \<Rightarrow> dl_link d \<noteq> None \<and> (case dl_outgoing d of None \<Rightarrow> True | Some len \<Rightarrow> n < len)
      | None \<Rightarrow> False)"

definition maybe_finish_decay :: "edge \<Rightarrow> u64 \<Rightarrow> u64 \<Rightarrow> bool \<times> edge" where
  "maybe_finish_decay e length_sent length_received =
     (case ed_decaying e of
        None \<Rightarrow> (False, e)
      | Some d \<Rightarrow>
        if dl_link d = None then (False, e)
        else case dl_outgoing d of
          None \<Rightarrow> (False, e)
        | Some out \<Rightarrow>
          (case dl_incoming d of
             None \<Rightarrow> (False, e)
           | Some inc \<Rightarrow>
             if length_sent < out \<or> length_received < inc then (False, e)
             else (True, e\<lparr>ed_decaying := None\<rparr>)))"

definition set_length_to_decaying_link :: "edge \<Rightarrow> u64 \<Rightarrow> edge option" where
  "set_length_to_decaying_link e n =
     (case ed_decaying e of
        None \<Rightarrow> Some e
      | Some d \<Rightarrow> if dl_outgoing d \<noteq> None then None else Some (e\<lparr>ed_decaying := Some (d\<lparr>dl_outgoing := Some n\<rparr>)\<rparr>))"

definition length_to_decaying_link :: "edge \<Rightarrow> u64 option" where
  "length_to_decaying_link e = Option.bind (ed_decaying e) dl_outgoing"

definition set_length_from_decaying_link :: "edge \<Rightarrow> u64 \<Rightarrow> edge option" where
  "set_length_from_decaying_link e n =
     (case ed_decaying e of
        None \<Rightarrow> Some e
      | Some d \<Rightarrow> if dl_incoming d \<noteq> None then None else Some (e\<lparr>ed_decaying := Some (d\<lparr>dl_incoming := Some n\<rparr>)\<rparr>))"

definition length_from_decaying_link :: "edge \<Rightarrow> u64 option" where
  "length_from_decaying_link e = Option.bind (ed_decaying e) dl_incoming"

definition get_local_peer :: "edge \<Rightarrow> u64 option" where
  "get_local_peer e = Option.bind (ed_primary e) li_local_peer"

definition get_decaying_local_peer :: "edge \<Rightarrow> u64 option" where
  "get_decaying_local_peer e = Option.bind (edge_decaying_link e) li_local_peer"

section \<open>Parcel queues\<close>

type_synonym i32 = "32 word"

datatype parcel_object = ObjFd i32 | ObjRouter u64

record parcel =
  pa_sequence_number :: u64
  pa_data :: "byte list"
  pa_objects :: "parcel_object list"
  pa_fragment :: "fragment option"

record parcel_queue =
  pq_current :: u64
  pq_final :: "u64 option"
  pq_buffer :: "(u64, parcel) fmap"

definition queue_new :: parcel_queue where
  "queue_new = \<lparr>pq_current = 0, pq_final = None, pq_buffer = fmempty\<rparr>"

definition reset_sequence :: "parcel_queue \<Rightarrow> u64 \<Rightarrow> parcel_queue" where
  "reset_sequence q n = \<lparr>pq_current = n, pq_final = None, pq_buffer = fmempty\<rparr>"

definition current_sequence_number :: "parcel_queue \<Rightarrow> u64" where
  "current_sequence_number q = pq_current q"

text \<open>\<open>n + 1\<close> on 64 bits, with the panic of the development profile.\<close>

definition succ64 :: "u64 \<Rightarrow> u64 option" where
  "succ64 n = (if n = - 1 then None else Some (n + 1))"

text \<open>The loop that counts the contiguous elements.\<close>

function contiguous_length :: "(u64, parcel) fmap \<Rightarrow> u64 \<Rightarrow> u64 option" where
  "contiguous_length buffer n =
     (if fmlookup buffer n = None then Some n
      else if n = - 1 then None
      else contiguous_length buffer (n + 1))"
  by auto

lemma unat_succ64: "n \<noteq> - 1 \<Longrightarrow> unat (n + 1 :: u64) = unat n + 1"
  using unatSuc [of n] by (simp add: add.commute eq_neg_iff_add_eq_0)

termination contiguous_length
proof (relation "measure (\<lambda>(_, n). 2 ^ 64 - unat n)")
  fix n :: u64
  assume "n \<noteq> - 1"
  then show "((buffer, n + 1), (buffer, n)) \<in> measure (\<lambda>(_, n). 2 ^ 64 - unat n)" for buffer :: "(u64, parcel) fmap"
    using unat_succ64 [of n] unsigned_less [of n, where ?'a = nat] by simp
qed simp

declare contiguous_length.simps [simp del]

definition get_current_sequence_length :: "parcel_queue \<Rightarrow> u64 option" where
  "get_current_sequence_length q = contiguous_length (pq_buffer q) (pq_current q)"

definition queue_push :: "parcel_queue \<Rightarrow> parcel \<Rightarrow> bool \<times> parcel_queue" where
  "queue_push q p =
     (if pa_sequence_number p < pq_current q then (False, q)
      else (True, q\<lparr>pq_buffer := fmupd (pa_sequence_number p) p (pq_buffer q)\<rparr>))"

definition queue_pop :: "parcel_queue \<Rightarrow> (parcel option \<times> parcel_queue) option" where
  "queue_pop q =
     (case fmlookup (pq_buffer q) (pq_current q) of
        None \<Rightarrow> Some (None, q)
      | Some p \<Rightarrow> do {
          n \<leftarrow> succ64 (pq_current q);
          Some (Some p, q\<lparr>pq_current := n, pq_buffer := fmdrop (pq_current q) (pq_buffer q)\<rparr>) })"

definition has_next_element :: "parcel_queue \<Rightarrow> bool" where
  "has_next_element q = (fmlookup (pq_buffer q) (pq_current q) \<noteq> None)"

definition set_final_sequence_length :: "parcel_queue \<Rightarrow> u64 \<Rightarrow> bool \<times> parcel_queue" where
  "set_final_sequence_length q n =
     (if n < pq_current q then (False, q) else (True, q\<lparr>pq_final := Some n\<rparr>))"

definition is_sequence_fully_consumed :: "parcel_queue \<Rightarrow> bool" where
  "is_sequence_fully_consumed q = (case pq_final q of None \<Rightarrow> False | Some len \<Rightarrow> pq_current q \<ge> len)"

definition expects_more_elements :: "parcel_queue \<Rightarrow> bool" where
  "expects_more_elements q = (case pq_final q of None \<Rightarrow> True | Some len \<Rightarrow> pq_current q < len)"

definition queue_is_empty :: "parcel_queue \<Rightarrow> bool" where
  "queue_is_empty q = (pq_buffer q = fmempty \<and> pq_current q = 0)"

section \<open>Routers\<close>

type_synonym portal = "(byte list \<times> parcel_object list) list"

record router =
  ro_portal :: "portal option"
  ro_outward :: edge
  ro_inward :: "edge option"
  ro_bridge :: "edge option"
  ro_inbound :: parcel_queue
  ro_outbound :: parcel_queue
  ro_peer_closed :: bool
  ro_disconnected :: bool

definition bare_router :: router where
  "bare_router = \<lparr>ro_portal = Some [], ro_outward = edge_default, ro_inward = None, ro_bridge = None,
     ro_inbound = queue_new, ro_outbound = queue_new, ro_peer_closed = False, ro_disconnected = False\<rparr>"

definition new_terminal :: "link \<Rightarrow> router" where
  "new_terminal outward = \<lparr>ro_portal = Some [], ro_outward = \<lparr>ed_primary = Some outward, ed_decaying = None\<rparr>,
     ro_inward = None, ro_bridge = None, ro_inbound = queue_new, ro_outbound = queue_new,
     ro_peer_closed = False, ro_disconnected = False\<rparr>"

definition push_outbound :: "router \<Rightarrow> parcel \<Rightarrow> bool \<times> router" where
  "push_outbound r p =
     (let p = (if pa_sequence_number p = - 1 then p\<lparr>pa_sequence_number := pq_current (ro_outbound r)\<rparr> else p);
          (ok, q) = queue_push (ro_outbound r) p in
      (ok, r\<lparr>ro_outbound := q\<rparr>))"

definition accept_inbound :: "router \<Rightarrow> parcel \<Rightarrow> bool \<times> router" where
  "accept_inbound r p = (let (ok, q) = queue_push (ro_inbound r) p in (ok, r\<lparr>ro_inbound := q\<rparr>))"

definition accept_outbound :: "router \<Rightarrow> parcel \<Rightarrow> bool \<times> router" where
  "accept_outbound r p = (let (ok, q) = queue_push (ro_outbound r) p in (ok, r\<lparr>ro_outbound := q\<rparr>))"

text \<open>The link a parcel goes to, and the loop that collects the parcels that can go.\<close>

definition link_for :: "edge \<Rightarrow> u64 \<Rightarrow> link option" where
  "link_for e n = (if should_transmit_on_decaying_link e n then edge_decaying_link e else ed_primary e)"

function collect :: "edge \<Rightarrow> parcel_queue \<Rightarrow> ((link \<times> parcel) list \<times> parcel_queue) option" where
  "collect e q =
     (if \<not> has_next_element q then Some ([], q)
      else case link_for e (pq_current q) of
        None \<Rightarrow> Some ([], q)
      | Some l \<Rightarrow>
        (case queue_pop q of
           None \<Rightarrow> None
         | Some (None, q') \<Rightarrow> Some ([], q')
         | Some (Some p, q') \<Rightarrow> map_option (\<lambda>(out, q''). ((l, p) # out, q'')) (collect e q')))"
  by auto

termination collect
proof (relation "measure (\<lambda>(_, q). fcard (fmdom (pq_buffer q)))")
  fix e q l x q' xo p
  assume "queue_pop q = Some x" "(xo, q') = x" "xo = Some p"
  then have "pq_buffer q' = fmdrop (pq_current q) (pq_buffer q)" "pq_current q |\<in>| fmdom (pq_buffer q)"
    by (auto simp: queue_pop_def fmdomI split: option.splits bind_splits)
  then show "((e, q'), (e, q)) \<in> measure (\<lambda>(_, q). fcard (fmdom (pq_buffer q)))"
    using fcard_fminus1_less [of "pq_current q" "fmdom (pq_buffer q)"] by simp
qed simp

declare collect.simps [simp del]

definition collect_outbound :: "router \<Rightarrow> ((link \<times> parcel) list \<times> router) option" where
  "collect_outbound r = do {
     (out, q) \<leftarrow> collect (ro_outward r) (ro_outbound r);
     Some (out, r\<lparr>ro_outbound := q\<rparr>) }"

definition collect_inbound :: "router \<Rightarrow> ((link \<times> parcel) list \<times> router) option" where
  "collect_inbound r =
     (case ro_inward r of
        None \<Rightarrow> Some ([], r)
      | Some inward \<Rightarrow> do { (out, q) \<leftarrow> collect inward (ro_inbound r); Some (out, r\<lparr>ro_inbound := q\<rparr>) })"

definition collect_bridge :: "router \<Rightarrow> ((link \<times> parcel) list \<times> router) option" where
  "collect_bridge r =
     (case ro_bridge r of
        None \<Rightarrow> Some ([], r)
      | Some bridge \<Rightarrow> do { (out, q) \<leftarrow> collect bridge (ro_inbound r); Some (out, r\<lparr>ro_inbound := q\<rparr>) })"

definition bridge_link :: "router \<Rightarrow> link option" where
  "bridge_link r =
     (case ro_bridge r of
        None \<Rightarrow> None
      | Some b \<Rightarrow> (case ed_primary b of Some l \<Rightarrow> Some l | None \<Rightarrow> edge_decaying_link b))"

definition bridge_stable :: "router \<Rightarrow> bool" where
  "bridge_stable r = (case ro_bridge r of None \<Rightarrow> False | Some b \<Rightarrow> edge_is_stable b)"

definition finish_bridge_decay :: "router \<Rightarrow> bool \<times> router" where
  "finish_bridge_decay r =
     (case ro_bridge r of
        None \<Rightarrow> (False, r)
      | Some b \<Rightarrow>
        let (finished, b) = maybe_finish_decay b (pq_current (ro_inbound r)) (pq_current (ro_outbound r)) in
        (finished, r\<lparr>ro_bridge := if finished then None else Some b\<rparr>))"

definition on_central_link :: "router \<Rightarrow> bool" where
  "on_central_link r = (case ed_primary (ro_outward r) of None \<Rightarrow> False | Some l \<Rightarrow> is_central (li_kind l))"

definition outbound_length :: "router \<Rightarrow> u64" where
  "outbound_length r = pq_current (ro_outbound r)"

definition inbound_length :: "router \<Rightarrow> u64 option" where
  "inbound_length r = get_current_sequence_length (ro_inbound r)"

definition finish_decays :: "router \<Rightarrow> ((link option \<times> bool \<times> link option \<times> bool) \<times> router) option" where
  "finish_decays r = do {
     let outbound_len = outbound_length r;
     inbound_len \<leftarrow> inbound_length r;
     let out_link = edge_decaying_link (ro_outward r);
     let (out, outward) = maybe_finish_decay (ro_outward r) outbound_len inbound_len;
     let in_link = Option.bind (ro_inward r) edge_decaying_link;
     let (inc, inward) = (case ro_inward r of
         None \<Rightarrow> (False, None)
       | Some e \<Rightarrow> (case maybe_finish_decay e inbound_len outbound_len of (b, e) \<Rightarrow> (b, Some e)));
     Some ((if out then out_link else None, out, if inc then in_link else None, inc),
       r\<lparr>ro_outward := outward, ro_inward := inward\<rparr>) }"

definition outward_has_decaying :: "router \<Rightarrow> bool" where
  "outward_has_decaying r = (ed_decaying (ro_outward r) \<noteq> None)"

definition inward_has_decaying :: "router \<Rightarrow> bool" where
  "inward_has_decaying r = (case ro_inward r of None \<Rightarrow> False | Some e \<Rightarrow> ed_decaying e \<noteq> None)"

end
