(* ===== verification/RouterQueues.thy ===== *)
theory RouterQueues
  imports Router
begin

text \<open>
  Properties of the parts of a router: the state of local links against the status word of remote
  ones, the parcel queues under any history, and the parcels collected for an edge.
\<close>

lemma unat_u64: "n < 2 ^ 64 \<Longrightarrow> unat (of_nat n :: u64) = n"
  by (simp add: unsigned_of_nat take_bit_nat_eq_self)

section \<open>Local link states\<close>

text \<open>The in-process state of a local link behaves as the status word that two processes share, when they do
  not interfere: locking, setting a side stable, unlocking and resetting a waiting bit give the same result and
  the same word, and the lock loop ends within two turns.\<close>
theorem local_state_matches_shared:
  "cas_run 2 (try_lock a) (cl_init (try_lock a)) (ll_status s) =
     map_option (\<lambda>(r, s'). (r, ll_status s')) (local_try_lock s a) \<and>
   cas_run 2 (set_side_stable a) (cl_init (set_side_stable a)) (ll_status s) =
     Some ((), ll_status (local_set_side_stable s a)) \<and>
   cas_run 2 (unlock a) (cl_init (unlock a)) (ll_status s) = Some ((), ll_status (local_unlock s a)) \<and>
   cas_run 2 (reset_waiting_bit a) (cl_init (reset_waiting_bit a)) (ll_status s) =
     (case local_reset_waiting_bit s a of (r, s') \<Rightarrow> Some (r, ll_status s'))"
proof (intro conjI)
  let ?w = "ll_status s"
  note alone = loops_alone [of 0, simplified add_0_right]
  have "local_lock_loop 2 a ?w STABLE (locked_of a) =
     (if is_stable ?w \<and> ?w AND LOCKED_EITHER = 0 then Some (True, ?w OR locked_of a)
      else if ?w AND LOCKED_EITHER = 0 \<and> ?w AND stable_of a \<noteq> 0 then Some (False, ?w OR waiting_of a)
      else Some (False, ?w))"
    by (cases a; auto simp: numeral_2_eq_2 is_stable_def Let_def)
  then show "cas_run 2 (try_lock a) (cl_init (try_lock a)) ?w =
     map_option (\<lambda>(r, s'). (r, ll_status s')) (local_try_lock s a)"
    by (simp add: alone local_try_lock_def)
  show "cas_run 2 (set_side_stable a) (cl_init (set_side_stable a)) ?w = Some ((), ll_status (local_set_side_stable s a))"
    by (auto simp: alone local_set_side_stable_def bit_or_iff intro!: bit_word_eqI)
  show "cas_run 2 (unlock a) (cl_init (unlock a)) ?w = Some ((), ll_status (local_unlock s a))"
    by (simp add: alone local_unlock_def)
  show "cas_run 2 (reset_waiting_bit a) (cl_init (reset_waiting_bit a)) ?w =
     (case local_reset_waiting_bit s a of (r, s') \<Rightarrow> Some (r, ll_status s'))"
    by (auto simp: alone local_reset_waiting_bit_def is_stable_def)
qed

section \<open>Histories of a parcel queue\<close>

datatype queue_op = QPush parcel | QPop | QFinal u64

fun queue_step :: "queue_op \<Rightarrow> parcel list \<times> parcel_queue \<Rightarrow> (parcel list \<times> parcel_queue) option" where
  "queue_step (QPush p) (out, q) = Some (out, snd (queue_push q p))"
| "queue_step QPop (out, q) = do {
     (x, q) \<leftarrow> queue_pop q;
     Some (case x of None \<Rightarrow> out | Some p \<Rightarrow> out @ [p], q) }"
| "queue_step (QFinal n) (out, q) = Some (out, snd (set_final_sequence_length q n))"

fun run_queue :: "queue_op list \<Rightarrow> parcel list \<times> parcel_queue \<Rightarrow> (parcel list \<times> parcel_queue) option" where
  "run_queue [] s = Some s"
| "run_queue (op # ops) s = do { s \<leftarrow> queue_step op s; run_queue ops s }"

fun pushed :: "queue_op list \<Rightarrow> parcel list" where
  "pushed [] = []"
| "pushed (QPush p # ops) = p # pushed ops"
| "pushed (QPop # ops) = pushed ops"
| "pushed (QFinal n # ops) = pushed ops"

text \<open>The parcels pushed so far are those delivered, in the order of their numbers, and those buffered.\<close>

definition queue_inv :: "parcel list \<Rightarrow> parcel list \<Rightarrow> parcel_queue \<Rightarrow> bool" where
  "queue_inv ps out q = (map pa_sequence_number out = map of_nat [0..<length out] \<and> pq_current q = of_nat (length out) \<and>
     (\<forall>k p. fmlookup (pq_buffer q) k = Some p \<longrightarrow> pa_sequence_number p = k) \<and>
     (\<forall>p. p \<in> set ps \<longleftrightarrow> p \<in> set out \<or> fmlookup (pq_buffer q) (pa_sequence_number p) = Some p))"

lemma queue_inv_push:
  assumes "queue_inv ps out q" "length out < 2 ^ 64" "pa_sequence_number p \<notin> pa_sequence_number ` set ps"
  shows "queue_inv (p # ps) out (snd (queue_push q p))"
proof -
  have inv: "map pa_sequence_number out = map of_nat [0..<length out]" "pq_current q = of_nat (length out)"
    "\<And>k x. fmlookup (pq_buffer q) k = Some x \<Longrightarrow> pa_sequence_number x = k"
    "\<And>x. x \<in> set ps \<longleftrightarrow> x \<in> set out \<or> fmlookup (pq_buffer q) (pa_sequence_number x) = Some x"
    using assms(1) by (auto simp: queue_inv_def)
  have "\<not> pa_sequence_number p < pq_current q"
  proof
    assume "pa_sequence_number p < pq_current q"
    then have i: "unat (pa_sequence_number p) < length out"
      using assms(2) inv(2) by (simp add: word_less_nat_alt unat_u64)
    then have "pa_sequence_number (out ! unat (pa_sequence_number p)) = pa_sequence_number p"
      using arg_cong [OF inv(1), of "\<lambda>xs. xs ! unat (pa_sequence_number p)"] by simp
    then show False using assms(3) inv(4) nth_mem [OF i] by (metis image_eqI)
  qed
  then have push: "snd (queue_push q p) = q\<lparr>pq_buffer := fmupd (pa_sequence_number p) p (pq_buffer q)\<rparr>"
    by (simp add: queue_push_def)
  have fresh: "fmlookup (pq_buffer q) (pa_sequence_number p) = None"
    using inv(3,4) assms(3) by (metis image_eqI not_None_eq)
  have "x \<in> set (p # ps) \<longleftrightarrow> x \<in> set out \<or> fmlookup (fmupd (pa_sequence_number p) p (pq_buffer q)) (pa_sequence_number x) = Some x" for x
    using inv(4) [of x] assms(3) fresh by (cases "pa_sequence_number x = pa_sequence_number p") auto
  then show ?thesis using inv(1-3) push by (simp add: queue_inv_def)
qed

lemma queue_inv_pop:
  assumes "queue_inv ps out q" "length out < 2 ^ 64 - 1"
  shows "\<exists>out' q'. queue_step QPop (out, q) = Some (out', q') \<and> queue_inv ps out' q' \<and> length out' \<le> Suc (length out)"
proof (cases "fmlookup (pq_buffer q) (pq_current q)")
  case None
  then show ?thesis using assms(1) by (auto simp: queue_pop_def)
next
  case (Some p)
  have inv: "map pa_sequence_number out = map of_nat [0..<length out]" "pq_current q = of_nat (length out)"
    "\<And>k x. fmlookup (pq_buffer q) k = Some x \<Longrightarrow> pa_sequence_number x = k"
    "\<And>x. x \<in> set ps \<longleftrightarrow> x \<in> set out \<or> fmlookup (pq_buffer q) (pa_sequence_number x) = Some x"
    using assms(1) by (auto simp: queue_inv_def)
  have p: "pa_sequence_number p = of_nat (length out)" using inv(2,3) Some by simp
  have "unat (pq_current q) < 2 ^ 64 - 1" using assms(2) inv(2) by (simp add: unat_u64)
  then have ne: "pq_current q \<noteq> - 1" by (auto simp: unsigned_minus_1_eq_mask mask_eq_exp_minus_1)
  let ?q = "q\<lparr>pq_current := pq_current q + 1, pq_buffer := fmdrop (pq_current q) (pq_buffer q)\<rparr>"
  have "queue_step QPop (out, q) = Some (out @ [p], ?q)" using Some ne by (simp add: queue_pop_def succ64_def)
  moreover have "queue_inv ps (out @ [p]) ?q"
    using inv p Some unfolding queue_inv_def by (auto simp: fmlookup_drop)
  ultimately show ?thesis by fastforce
qed
lemma run_queue_inv:
  assumes "queue_inv ps out q" "length out + length ops < 2 ^ 64"
    and "distinct (map pa_sequence_number (pushed ops))"
    and "\<And>p. p \<in> set (pushed ops) \<Longrightarrow> pa_sequence_number p \<notin> pa_sequence_number ` set ps"
  shows "\<exists>out' q' ps'. run_queue ops (out, q) = Some (out', q') \<and> queue_inv ps' out' q' \<and> set ps' = set ps \<union> set (pushed ops)"
  using assms
proof (induction ops arbitrary: ps out q)
  case (Cons op ops)
  show ?case
  proof (cases op)
    case (QPush p)
    have "queue_inv (p # ps) out (snd (queue_push q p))"
      using Cons.prems QPush by (intro queue_inv_push) auto
    then have "\<exists>out' q' ps'. run_queue ops (out, snd (queue_push q p)) = Some (out', q') \<and> queue_inv ps' out' q' \<and>
        set ps' = set (p # ps) \<union> set (pushed ops)"
      by (rule Cons.IH) (use Cons.prems QPush in \<open>auto simp: image_iff\<close>)
    then show ?thesis using QPush by auto
  next
    case QPop
    obtain out' q' where s: "queue_step QPop (out, q) = Some (out', q')" "queue_inv ps out' q'" "length out' \<le> Suc (length out)"
      using queue_inv_pop [OF Cons.prems(1)] Cons.prems(2) by auto
    have "\<exists>out'' q'' ps'. run_queue ops (out', q') = Some (out'', q'') \<and> queue_inv ps' out'' q'' \<and> set ps' = set ps \<union> set (pushed ops)"
      by (rule Cons.IH [OF s(2)]) (use Cons.prems s(3) QPop in auto)
    then show ?thesis using QPop s(1) by auto
  next
    case (QFinal n)
    have "queue_inv ps out (snd (set_final_sequence_length q n))"
      using Cons.prems(1) by (auto simp: set_final_sequence_length_def queue_inv_def)
    then have "\<exists>out' q' ps'. run_queue ops (out, snd (set_final_sequence_length q n)) = Some (out', q') \<and> queue_inv ps' out' q' \<and>
        set ps' = set ps \<union> set (pushed ops)"
      by (rule Cons.IH) (use Cons.prems QFinal in auto)
    then show ?thesis using QFinal by simp
  qed
qed auto

text \<open>C17: Whatever the order in which parcels with different numbers arrive in a new queue, and however pushes and pops
  are mixed: the parcels delivered carry the numbers 0, 1, 2 and so on without a gap, every parcel pushed
  has been delivered or is still buffered under its number, and nothing else is delivered; no operation panics.\<close>
theorem parcel_queue_in_order:
  assumes "distinct (map pa_sequence_number (pushed ops))" "length ops < 2 ^ 64"
  shows "\<exists>out q. run_queue ops ([], queue_new) = Some (out, q) \<and>
    map pa_sequence_number out = map of_nat [0..<length out] \<and> pq_current q = of_nat (length out) \<and>
    (\<forall>p. p \<in> set (pushed ops) \<longleftrightarrow> p \<in> set out \<or> fmlookup (pq_buffer q) (pa_sequence_number p) = Some p)"
proof -
  have "queue_inv [] [] queue_new" by (simp add: queue_inv_def queue_new_def)
  from run_queue_inv [OF this] assms show ?thesis unfolding queue_inv_def by fastforce
qed

definition numbered :: "u64 \<Rightarrow> parcel" where
  "numbered n = \<lparr>pa_sequence_number = n, pa_data = [], pa_objects = [], pa_fragment = None\<rparr>"

lemma parcel_queue_in_order_witness:
  "\<exists>out q. run_queue [QPush (numbered 1), QPop, QPush (numbered 0), QPop, QPop] ([], queue_new) = Some (out, q) \<and>
    map pa_sequence_number out = map of_nat [0..<length out] \<and> pq_current q = of_nat (length out) \<and>
    (\<forall>p. p \<in> set (pushed [QPush (numbered 1), QPop, QPush (numbered 0), QPop, QPop]) \<longleftrightarrow>
      p \<in> set out \<or> fmlookup (pq_buffer q) (pa_sequence_number p) = Some p)"
  by (rule parcel_queue_in_order) (simp_all add: numbered_def)

text \<open>A buffer is keyed by sequence numbers.\<close>

definition keyed :: "parcel_queue \<Rightarrow> bool" where
  "keyed q = (\<forall>k p. fmlookup (pq_buffer q) k = Some p \<longrightarrow> pa_sequence_number p = k)"

section \<open>Collecting parcels for an edge\<close>

lemma collect_spec:
  assumes "collect e q = Some (out, q')" "keyed q"
  shows "map (pa_sequence_number \<circ> snd) out = map (\<lambda>i. pq_current q + of_nat i) [0..<length out] \<and>
    pq_current q' = pq_current q + of_nat (length out) \<and> keyed q' \<and>
    (\<forall>(l, p) \<in> set out. link_for e (pa_sequence_number p) = Some l \<and> fmlookup (pq_buffer q) (pa_sequence_number p) = Some p) \<and>
    (\<forall>k. fmlookup (pq_buffer q') k = (if k \<in> (pa_sequence_number \<circ> snd) ` set out then None else fmlookup (pq_buffer q) k)) \<and>
    (\<not> has_next_element q' \<or> link_for e (pq_current q') = None)"
  using assms
proof (induction e q arbitrary: out rule: collect.induct)
  case (1 e q)
  show ?case
  proof (cases "has_next_element q \<and> link_for e (pq_current q) \<noteq> None")
    case False
    then have "out = []" "q' = q" "\<not> has_next_element q \<or> link_for e (pq_current q) = None"
      using 1(2) by (auto simp: collect.simps [of e q] split: if_splits option.splits)
    then show ?thesis using 1(3) by simp
  next
    case True
    then obtain l p where lp: "link_for e (pq_current q) = Some l" "fmlookup (pq_buffer q) (pq_current q) = Some p"
      by (auto simp: has_next_element_def)
    have seq: "pa_sequence_number p = pq_current q" using 1(3) lp(2) by (simp add: keyed_def)
    let ?q = "q\<lparr>pq_current := pq_current q + 1, pq_buffer := fmdrop (pq_current q) (pq_buffer q)\<rparr>"
    have pop: "queue_pop q = Some (Some p, ?q)"
      using 1(2) True lp by (auto simp: collect.simps [of e q] queue_pop_def succ64_def split: if_splits)
    obtain out' where out: "out = (l, p) # out'" "collect e ?q = Some (out', q')"
      using 1(2) True lp pop by (auto simp: collect.simps [of e q])
    have "keyed ?q" using 1(3) by (auto simp: keyed_def fmlookup_drop split: if_splits)
    have ih: "map (pa_sequence_number \<circ> snd) out' = map (\<lambda>i. pq_current ?q + of_nat i) [0..<length out'] \<and>
      pq_current q' = pq_current ?q + of_nat (length out') \<and> keyed q' \<and>
      (\<forall>(l, p) \<in> set out'. link_for e (pa_sequence_number p) = Some l \<and> fmlookup (pq_buffer ?q) (pa_sequence_number p) = Some p) \<and>
      (\<forall>k. fmlookup (pq_buffer q') k = (if k \<in> (pa_sequence_number \<circ> snd) ` set out' then None else fmlookup (pq_buffer ?q) k)) \<and>
      (\<not> has_next_element q' \<or> link_for e (pq_current q') = None)"
      by (rule 1(1) [of l "(Some p, ?q)" "Some p" ?q p out']) (use True lp(1) pop out(2) \<open>keyed ?q\<close> in simp_all)
    have seqs: "map (pa_sequence_number \<circ> snd) out = map (\<lambda>i. pq_current q + of_nat i) [0..<length out]"
      using ih seq out(1) by (simp add: upt_conv_Cons map_Suc_upt [symmetric] comp_def add.assoc del: upt_Suc)
    have all: "\<forall>(l, p) \<in> set out. link_for e (pa_sequence_number p) = Some l \<and> fmlookup (pq_buffer q) (pa_sequence_number p) = Some p"
      using ih seq lp out(1) by (auto split: if_splits)
    have buf: "\<forall>k. fmlookup (pq_buffer q') k = (if k \<in> (pa_sequence_number \<circ> snd) ` set out then None else fmlookup (pq_buffer q) k)"
      using ih seq out(1) by auto
    have cur: "pq_current q' = pq_current q + of_nat (length out)" using ih out(1) by (simp add: add.assoc)
    have "keyed q'" by (rule ih [THEN conjunct2, THEN conjunct2, THEN conjunct1])
    moreover have "\<not> has_next_element q' \<or> link_for e (pq_current q') = None"
      by (rule ih [THEN conjunct2, THEN conjunct2, THEN conjunct2, THEN conjunct2, THEN conjunct2])
    ultimately show ?thesis using seqs all buf cur by blast
  qed
qed
text \<open>Collecting the parcels that can leave over an edge takes them in sequence without a gap from the current number
  on, each exactly once, and stops only when the next parcel is missing or has no link.  During a decay
  with a known length, the parcels below that length go over the decaying link and all later ones over the
  primary link.\<close>
theorem collected_parcels_respect_decay:
  assumes "collect \<lparr>ed_primary = primary, ed_decaying = Some \<lparr>dl_link = Some old, dl_outgoing = Some len, dl_incoming = inc\<rparr>\<rparr> q =
      Some (out, q')" and "keyed q"
  shows "map (pa_sequence_number \<circ> snd) out = map (\<lambda>i. pq_current q + of_nat i) [0..<length out] \<and>
    pq_current q' = pq_current q + of_nat (length out) \<and>
    (\<forall>(l, p) \<in> set out. fmlookup (pq_buffer q) (pa_sequence_number p) = Some p \<and>
      (if pa_sequence_number p < len then l = old else primary = Some l)) \<and>
    (\<forall>k. fmlookup (pq_buffer q') k = (if k \<in> (pa_sequence_number \<circ> snd) ` set out then None else fmlookup (pq_buffer q) k)) \<and>
    (fmlookup (pq_buffer q') (pq_current q') = None \<or> len \<le> pq_current q' \<and> primary = None)"
  using collect_spec [OF assms]
  by (auto simp: link_for_def should_transmit_on_decaying_link_def edge_decaying_link_def has_next_element_def linorder_not_less
      split: if_splits)

lemmas collect_defs = has_next_element_def link_for_def should_transmit_on_decaying_link_def edge_decaying_link_def
  queue_pop_def succ64_def queue_new_def

lemma collected_parcels_respect_decay_witness:
  "\<exists>q'. collect \<lparr>ed_primary = Some (remote_link 0 9 Central LinkA None),
       ed_decaying = Some \<lparr>dl_link = Some (remote_link 0 1 Central LinkA None), dl_outgoing = Some 1, dl_incoming = None\<rparr>\<rparr>
      (queue_new\<lparr>pq_buffer := fmupd 1 (numbered 1) (fmupd 0 (numbered 0) fmempty)\<rparr>) =
    Some ([(remote_link 0 1 Central LinkA None, numbered 0), (remote_link 0 9 Central LinkA None, numbered 1)], q') \<and>
    pq_current q' = 2"
proof -
  let ?e = "\<lparr>ed_primary = Some (remote_link 0 9 Central LinkA None),
       ed_decaying = Some \<lparr>dl_link = Some (remote_link 0 1 Central LinkA None), dl_outgoing = Some 1, dl_incoming = None\<rparr>\<rparr>"
  let ?q = "queue_new\<lparr>pq_buffer := fmupd 1 (numbered 1) (fmupd 0 (numbered 0) fmempty)\<rparr>"
  have "keyed ?q" by (auto simp: keyed_def numbered_def split: if_splits)
  moreover have "collect ?e ?q =
      Some ([(remote_link 0 1 Central LinkA None, numbered 0), (remote_link 0 9 Central LinkA None, numbered 1)],
        ?q\<lparr>pq_current := 2, pq_buffer := fmdrop 1 (fmdrop 0 (pq_buffer ?q))\<rparr>)"
    by (subst collect.simps, simp add: collect_defs, subst collect.simps, simp add: collect_defs,
        subst collect.simps, simp add: collect_defs)
  ultimately show ?thesis using collected_parcels_respect_decay by (fastforce simp: queue_new_def)
qed

end
