(* ===== verification/Channel.thy ===== *)
theory Channel
  imports IpczWire
begin

text \<open>
  The socket side of a node link: \<open>crates/mojo-rs-interop/src/ipcz/channel.rs\<close>, with the control data of
  \<open>crates/mojo-rs-platform/src/socket.rs\<close> beneath it.  System calls are scripts: the
  results of the reads, writes and polls, in the order the code makes the calls; a result that needs more
  of a script than there is is \<open>None\<close>.  Descriptors are opaque numbers.  Main result: whatever the pieces in
  which the kernel delivers a stream, and however often reads are interrupted or would block, the
  messages come out as they were sent, each with its own descriptors.
\<close>

section \<open>Channels\<close>

type_synonym fd = nat

record incoming_message =
  im_payload :: "byte list"
  im_fds :: "fd list"

datatype recv_result = RMessage incoming_message | RWouldBlock | RPeerClosed

datatype channel_error = ChannelIo | ChannelPeerClosed | ChannelWire link_error

type_synonym fd_mark = "nat \<times> fd list"

record channel =
  ch_buf :: "byte list"
  ch_marks :: "fd_mark list"

definition channel_new :: channel where
  "channel_new = \<lparr>ch_buf = [], ch_marks = []\<rparr>"

definition MAX_MESSAGE :: nat where "MAX_MESSAGE = 256 * 1024 * 1024"

definition MAX_FDS_PER_RECV :: nat where "MAX_FDS_PER_RECV = 32"

text \<open>What a call of \<open>recvmsg\<close>, \<open>poll\<close> or \<open>send\<close> does.\<close>

datatype socket_event = Received "byte list" "fd list" | Eof | Blocked | Interrupted | SocketError

datatype poll_result = PollReady | PollTimeout | PollError

datatype send_event = Accepted nat | SendError

section \<open>Receiving\<close>

definition has_complete_message :: "channel \<Rightarrow> bool" where
  "has_complete_message ch =
     (if length (ch_buf ch) < IPCZ_HEADER_SIZE then False
      else
      let num_bytes = unat (from_le (take 4 (drop 4 (ch_buf ch))) :: u32) in
      IPCZ_HEADER_SIZE \<le> num_bytes \<and> num_bytes \<le> length (ch_buf ch))"

text \<open>Assembles the message at the front of the buffer.\<close>

definition try_assemble :: "channel \<Rightarrow> (channel_error, (incoming_message \<times> channel) option) outcome" where
  "try_assemble ch =
     (let buf = ch_buf ch in
      if length buf < IPCZ_HEADER_SIZE then Ok None
      else
      let size = from_le (take 2 buf) :: u16 in
      if size \<noteq> of_nat IPCZ_HEADER_SIZE then Err (ChannelWire (UnknownChannelHeaderSize size))
      else
      let num_handles = from_le (take 2 (drop 2 buf)) :: u16;
          num = from_le (take 4 (drop 4 buf)) :: u32;
          num_bytes = unat num in
      if num_bytes < IPCZ_HEADER_SIZE then Err (ChannelWire (BadChannelMessageSize num))
      else if num_bytes > length buf then
        (if num_bytes > MAX_MESSAGE then Err (ChannelWire (BadChannelMessageSize num)) else Ok None)
      else
      obind (from_option (slice buf IPCZ_HEADER_SIZE num_bytes)) (\<lambda>payload.
      let fds = concat (map snd (takeWhile (\<lambda>m. fst m = 0) (ch_marks ch)));
          marks = dropWhile (\<lambda>m. fst m = 0) (ch_marks ch) in
      if length fds \<noteq> unat num_handles then Err (ChannelWire BadDriverObjects)
      else Ok (Some (\<lparr>im_payload = payload, im_fds = fds\<rparr>,
             \<lparr>ch_buf = drop num_bytes buf, ch_marks = map (\<lambda>(off, fds). (off - num_bytes, fds)) marks\<rparr>))))"

text \<open>The bytes still missing for the message at the front.\<close>

definition needed_bytes :: "channel \<Rightarrow> (channel_error, nat) outcome" where
  "needed_bytes ch =
     (if length (ch_buf ch) < IPCZ_HEADER_SIZE then Ok (IPCZ_HEADER_SIZE - length (ch_buf ch))
      else
      let num = from_le (take 4 (drop 4 (ch_buf ch))) :: u32; num_bytes = unat num in
      if num_bytes < IPCZ_HEADER_SIZE then Err (ChannelWire (BadChannelMessageSize num))
      else if num_bytes > MAX_MESSAGE then Err (ChannelWire (BadChannelMessageSize num))
      else from_option (usub num_bytes (length (ch_buf ch))))"

text \<open>\<open>extract_fds\<close>: no more descriptors than the caller's bound.\<close>

definition extract_fds :: "nat \<Rightarrow> fd list \<Rightarrow> (channel_error, fd list) outcome" where
  "extract_fds max_fds fds = (if length fds > max_fds then Err ChannelIo else Ok fds)"

text \<open>A read gives at most the bytes asked for; one without bytes is the end of the stream, whatever its control data.\<close>

definition take_in :: "channel \<Rightarrow> byte list \<Rightarrow> fd list \<Rightarrow> channel" where
  "take_in ch bytes fds =
     ch\<lparr>ch_buf := ch_buf ch @ bytes,
        ch_marks := (if fds = [] then ch_marks ch else ch_marks ch @ [(length (ch_buf ch), fds)])\<rparr>"

type_synonym 'a received = "(channel_error, 'a \<times> channel \<times> socket_event list) outcome option"

definition recv_eof :: "channel \<Rightarrow> (channel_error, recv_result + channel) outcome" where
  "recv_eof ch = (if ch_buf ch \<noteq> [] then Err (ChannelWire TruncatedMessage) else Ok (Inl RPeerClosed))"

fun recv_loop :: "channel \<Rightarrow> nat \<Rightarrow> socket_event \<Rightarrow> (channel_error, recv_result + channel) outcome" where
  "recv_loop ch needed (Received bytes fds) =
     (if bytes = [] then recv_eof ch
      else obind (extract_fds MAX_FDS_PER_RECV fds) (\<lambda>fds.
        if length bytes > needed then Panic else Ok (Inr (take_in ch bytes fds))))"
| "recv_loop ch needed Eof = recv_eof ch"
| "recv_loop ch needed Blocked = Ok (Inl RWouldBlock)"
| "recv_loop ch needed Interrupted = Ok (Inr ch)"
| "recv_loop ch needed SocketError = Err ChannelIo"

fun recv_available :: "socket_event list \<Rightarrow> channel \<Rightarrow> recv_result received" where
  "recv_available events ch =
     (case try_assemble ch of
        Err e \<Rightarrow> Some (Err e)
      | Panic \<Rightarrow> Some Panic
      | Ok (Some (m, ch)) \<Rightarrow> Some (Ok (RMessage m, ch, events))
      | Ok None \<Rightarrow>
        (case needed_bytes ch of
           Err e \<Rightarrow> Some (Err e)
         | Panic \<Rightarrow> Some Panic
         | Ok needed \<Rightarrow>
           (case events of
              [] \<Rightarrow> None
            | ev # events \<Rightarrow>
              (case recv_loop ch needed ev of
                 Err e \<Rightarrow> Some (Err e)
               | Panic \<Rightarrow> Some Panic
               | Ok (Inl r) \<Rightarrow> Some (Ok (r, ch, events))
               | Ok (Inr ch) \<Rightarrow> recv_available events ch))))"

declare recv_available.simps [simp del]

text \<open>The next message, waiting while there is none; \<open>None\<close> inside is a closed peer.\<close>

fun recv :: "poll_result list \<Rightarrow> socket_event list \<Rightarrow> channel \<Rightarrow> incoming_message option received" where
  "recv polls events ch =
     (let proceed = (\<lambda>again.
        case recv_available events ch of
          None \<Rightarrow> None
        | Some (Err e) \<Rightarrow> Some (Err e)
        | Some Panic \<Rightarrow> Some Panic
        | Some (Ok (RMessage m, ch, events)) \<Rightarrow> Some (Ok (Some m, ch, events))
        | Some (Ok (RPeerClosed, ch, events)) \<Rightarrow> Some (Ok (None, ch, events))
        | Some (Ok (RWouldBlock, ch, events)) \<Rightarrow> again events ch) in
      if has_complete_message ch then proceed (\<lambda>_ _. None)
      else case polls of
        [] \<Rightarrow> None
      | PollError # _ \<Rightarrow> Some (Err ChannelIo)
      | PollTimeout # _ \<Rightarrow> Some (Err ChannelIo)
      | PollReady # polls \<Rightarrow> proceed (recv polls))"

declare recv.simps [simp del]

section \<open>Sending\<close>

text \<open>\<open>CMSG_SPACE\<close> of a number of descriptors; the control buffer of a send has 1024 bytes.\<close>

definition control_space :: "nat \<Rightarrow> nat" where
  "control_space n = 16 + (4 * n + 7) div 8 * 8"

definition CONTROL_BUFFER :: nat where "CONTROL_BUFFER = 1024"

text \<open>The loop of \<open>send\<close>; the result lists what each call wrote and the descriptors it carried.\<close>

fun send_loop ::
  "byte list \<Rightarrow> fd list \<Rightarrow> nat \<Rightarrow> send_event list \<Rightarrow> (channel_error, (byte list \<times> fd list) list) outcome option" where
  "send_loop frame fds sent events =
     (if sent < length frame then
        if sent = 0 \<and> fds \<noteq> [] \<and> CONTROL_BUFFER < control_space (length fds) then Some (Err ChannelIo)
        else (case events of
           [] \<Rightarrow> None
         | SendError # _ \<Rightarrow> Some (Err ChannelIo)
         | Accepted n # events \<Rightarrow>
           if n = 0 then Some (Err ChannelPeerClosed)
           else if n > length frame - sent then Some Panic
           else
           map_option (\<lambda>r. obind r (\<lambda>ws. Ok ((take n (drop sent frame), if sent = 0 then fds else []) # ws)))
             (send_loop frame fds (sent + n) events))
      else Some (Ok []))"

declare send_loop.simps [simp del]

definition channel_send ::
  "byte list \<Rightarrow> fd list \<Rightarrow> send_event list \<Rightarrow> (channel_error, (byte list \<times> fd list) list) outcome option" where
  "channel_send payload fds events =
     (case encode_channel_message payload (of_nat (length fds)) of
        None \<Rightarrow> Some Panic
      | Some frame \<Rightarrow> send_loop frame fds 0 events)"

section \<open>Reassembly\<close>

text \<open>
  How the kernel may deliver the rest of a frame of which \<open>k\<close> bytes have been read: in pieces of at most the
  bytes asked for, its descriptors with the first byte, with interruptions in between.  Of the descriptors sent,
  \<open>recvmsg\<close> passes on those that the control buffer has room for, and discards the others.
\<close>

inductive delivers :: "byte list \<Rightarrow> fd list \<Rightarrow> nat \<Rightarrow> socket_event list \<Rightarrow> bool" for b fds where
  delivered: "k = length b \<Longrightarrow> delivers b fds k []"
| piece: "c \<noteq> [] \<Longrightarrow> c = take (length c) (drop k b) \<Longrightarrow> (k < 16 \<Longrightarrow> k + length c \<le> 16) \<Longrightarrow>
    delivers b fds (k + length c) events \<Longrightarrow>
    delivers b fds k (Received c (if k = 0 then take MAX_FDS_PER_RECV fds else []) # events)"
| interrupted: "k < length b \<Longrightarrow> delivers b fds k events \<Longrightarrow> delivers b fds k (Interrupted # events)"
| blocked: "k < length b \<Longrightarrow> delivers b fds k events \<Longrightarrow> delivers b fds k (Blocked # events)"

text \<open>The channel when \<open>k\<close> bytes of a frame have been read.\<close>

definition partial_channel :: "byte list \<Rightarrow> fd list \<Rightarrow> nat \<Rightarrow> channel" where
  "partial_channel b fds k =
     \<lparr>ch_buf = take k b, ch_marks = (if k = 0 \<or> fds = [] then [] else [(0, take MAX_FDS_PER_RECV fds)])\<rparr>"

definition frame_of :: "byte list \<Rightarrow> byte list \<Rightarrow> fd list \<Rightarrow> bool" where
  "frame_of b payload fds = (frames b \<lparr>cm_num_handles = of_nat (length fds), cm_payload = payload\<rparr> \<and>
     length b \<le> MAX_MESSAGE \<and> length fds < 2 ^ 16)"

lemma frame_parts:
  assumes "frame_of b payload fds"
  shows "16 \<le> length b" "(from_le (take 2 b) :: u16) = 16" "from_le (take 2 (drop 2 b)) = (of_nat (length fds) :: u16)"
    "unat (from_le (take 4 (drop 4 b)) :: u32) = length b" "drop 16 b = payload" "length b \<le> MAX_MESSAGE"
    "unat (of_nat (length fds) :: u16) = length fds"
  using assms by (simp_all add: frame_of_def frames_def unat_small16)

lemma header_of_prefix:
  assumes "16 \<le> k" "k \<le> length b"
  shows "take 2 (take k b) = take 2 b" "take 2 (drop 2 (take k b)) = take 2 (drop 2 b)"
    "take 4 (drop 4 (take k b)) = take 4 (drop 4 b)"
  using assms by (simp_all add: drop_take min_absorb1)

lemma assemble_partial:
  assumes f: "frame_of b payload fds" and k: "k < length b"
  shows "try_assemble (partial_channel b fds k) = Ok None"
    "needed_bytes (partial_channel b fds k) = Ok (if k < 16 then 16 - k else length b - k)"
    "\<not> has_complete_message (partial_channel b fds k)"
  using frame_parts [OF f] k header_of_prefix [of k b]
  by (simp_all add: try_assemble_def needed_bytes_def has_complete_message_def partial_channel_def ipcz_sizes Let_def usub_def)

text \<open>A complete frame is a message, if all its descriptors came.\<close>

definition frame_result :: "byte list \<Rightarrow> fd list \<Rightarrow> (channel_error, incoming_message) outcome" where
  "frame_result payload fds = (if length fds \<le> MAX_FDS_PER_RECV then Ok \<lparr>im_payload = payload, im_fds = fds\<rparr>
     else Err (ChannelWire BadDriverObjects))"

lemma assemble_complete:
  assumes f: "frame_of b payload fds"
  shows "try_assemble (partial_channel b fds (length b)) = obind (frame_result payload fds) (\<lambda>m. Ok (Some (m, channel_new)))"
proof -
  note p = frame_parts [OF f]
  have "slice b 16 (length b) = Some payload" using p(1) by (simp add: slice_def p(5) [symmetric])
  then show ?thesis using p
    by (auto simp: try_assemble_def partial_channel_def ipcz_sizes Let_def channel_new_def frame_result_def)
qed

lemma delivers_bound: "delivers b fds k events \<Longrightarrow> k \<le> length b"
  by (induction rule: delivers.induct) simp_all

text \<open>One read of a frame.\<close>

lemma take_piece:
  assumes "c \<noteq> []" "c = take (length c) (drop k b)" "k \<le> length b"
  shows "take_in (partial_channel b fds k) c (if k = 0 then take MAX_FDS_PER_RECV fds else []) = partial_channel b fds (k + length c)"
proof -
  have "take (k + length c) b = take k b @ take (length c) (drop k b)" by (rule take_add)
  then have "take (k + length c) b = take k b @ c" using assms(2) by simp
  then show ?thesis using assms(1,3) by (simp add: take_in_def partial_channel_def MAX_FDS_PER_RECV_def)
qed

lemma recv_available_cons:
  assumes f: "frame_of b payload fds" and k: "k < length b"
  shows "recv_available (ev # events) (partial_channel b fds k) =
    (case recv_loop (partial_channel b fds k) (if k < 16 then 16 - k else length b - k) ev of
       Err e \<Rightarrow> Some (Err e) | Panic \<Rightarrow> Some Panic
     | Ok (Inl r) \<Rightarrow> Some (Ok (r, partial_channel b fds k, events))
     | Ok (Inr ch) \<Rightarrow> recv_available events ch)"
  using assemble_partial [OF f k] by (subst recv_available.simps) simp

text \<open>Waiting for a message whose frame has been read up to \<open>k\<close>.\<close>

lemma recv_ready:
  "\<not> has_complete_message ch \<Longrightarrow> recv (PollReady # polls) events ch =
    (case recv_available events ch of
        None \<Rightarrow> None
      | Some (Err e) \<Rightarrow> Some (Err e)
      | Some Panic \<Rightarrow> Some Panic
      | Some (Ok (RMessage m, ch, events)) \<Rightarrow> Some (Ok (Some m, ch, events))
      | Some (Ok (RPeerClosed, ch, events)) \<Rightarrow> Some (Ok (None, ch, events))
      | Some (Ok (RWouldBlock, ch, events)) \<Rightarrow> recv polls events ch)"
  by (subst recv.simps) simp

definition blocks :: "socket_event list \<Rightarrow> nat" where
  "blocks events = length (filter (\<lambda>ev. ev = Blocked) events)"

lemma recv_frame:
  assumes f: "frame_of b payload fds"
  shows "delivers b fds k events \<Longrightarrow> k < length b \<Longrightarrow> blocks events \<le> n \<Longrightarrow>
    recv (replicate (Suc n) PollReady) (events @ rest) (partial_channel b fds k) =
      Some (obind (frame_result payload fds) (\<lambda>m. Ok (Some m, channel_new, rest)))"
proof (induction arbitrary: n rule: delivers.induct)
  case (delivered k)
  then show ?case by simp
next
  case (piece c k events)
  let ?ev = "Received c (if k = 0 then take MAX_FDS_PER_RECV fds else [])" and ?k = "k + length c"
  have le: "?k \<le> length b" using delivers_bound [OF piece.hyps(4)] .
  have read: "recv_loop (partial_channel b fds k) (if k < 16 then 16 - k else length b - k) ?ev = Ok (Inr (partial_channel b fds ?k))"
    using take_piece [OF piece.hyps(1,2), of fds] piece.hyps(1,3) le by (auto simp: extract_fds_def)
  have step: "recv_available (?ev # events @ rest) (partial_channel b fds k) = recv_available (events @ rest) (partial_channel b fds ?k)"
    using recv_available_cons [OF f piece.prems(1), of ?ev "events @ rest"] read by simp
  show ?case
  proof (cases "?k = length b")
    case True
    then have "events = []" using piece.hyps(4) by (auto elim: delivers.cases)
    moreover have "recv_available rest (partial_channel b fds (length b)) =
        Some (obind (frame_result payload fds) (\<lambda>m. Ok (RMessage m, channel_new, rest)))"
      using assemble_complete [OF f] by (subst recv_available.simps) (simp add: frame_result_def)
    ultimately show ?thesis
      using recv_ready [OF assemble_partial(3) [OF f piece.prems(1)]] step True by (simp add: frame_result_def)
  next
    case False
    then have lt: "?k < length b" using le by simp
    have "blocks events \<le> n" using piece.prems(2) by (simp add: blocks_def)
    from piece.IH [OF lt this]
    show ?thesis
      using recv_ready [OF assemble_partial(3) [OF f piece.prems(1)]] recv_ready [OF assemble_partial(3) [OF f lt]] step by simp
  qed
next
  case (interrupted k events)
  have "recv_available (Interrupted # events @ rest) (partial_channel b fds k) = recv_available (events @ rest) (partial_channel b fds k)"
    using recv_available_cons [OF f interrupted.prems(1), of Interrupted "events @ rest"] by simp
  then show ?case
    using interrupted.IH [OF interrupted.prems(1), of n] interrupted.prems(2) recv_ready [OF assemble_partial(3) [OF f interrupted.prems(1)]]
    by (simp add: blocks_def)
next
  case (blocked k events)
  then obtain m where n: "n = Suc m" "blocks events \<le> m" by (cases n) (auto simp: blocks_def)
  have "recv_available (Blocked # events @ rest) (partial_channel b fds k) =
      Some (Ok (RWouldBlock, partial_channel b fds k, events @ rest))"
    using recv_available_cons [OF f blocked.prems(1), of Blocked "events @ rest"] by simp
  then show ?case
    using blocked.IH [OF blocked.prems(1) n(2)] recv_ready [OF assemble_partial(3) [OF f blocked.prems(1)]] n(1) by simp
qed
text \<open>Receiving a number of messages, and how a sequence of messages may arrive.\<close>

fun receive :: "nat \<Rightarrow> poll_result list \<Rightarrow> socket_event list \<Rightarrow> channel \<Rightarrow> incoming_message list received" where
  "receive 0 polls events ch = Some (Ok ([], ch, events))"
| "receive (Suc n) polls events ch =
     (case recv polls events ch of
        None \<Rightarrow> None
      | Some (Err e) \<Rightarrow> Some (Err e)
      | Some Panic \<Rightarrow> Some Panic
      | Some (Ok (None, ch, events)) \<Rightarrow> Some (Ok ([], ch, events))
      | Some (Ok (Some m, ch, events)) \<Rightarrow>
        map_option (\<lambda>r. obind r (\<lambda>(ms, ch, events). Ok (m # ms, ch, events))) (receive n polls events ch))"

inductive arrives :: "(byte list \<times> fd list) list \<Rightarrow> socket_event list \<Rightarrow> bool" where
  arrives_none: "arrives [] []"
| arrives_next: "encode_channel_message payload (of_nat (length fds)) = Some b \<Longrightarrow> delivers b fds 0 events \<Longrightarrow>
    arrives ms later \<Longrightarrow> arrives ((payload, fds) # ms) (events @ later)"

lemma encoded_frame:
  assumes "encode_channel_message p (of_nat (length fds)) = Some b" "length p + 16 \<le> MAX_MESSAGE" "length fds < 2 ^ 16"
  shows "frame_of b p fds"
proof -
  have "16 + length p < 2 ^ 32" using assms(2) by (simp add: MAX_MESSAGE_def)
  then have "frames b \<lparr>cm_num_handles = of_nat (length fds), cm_payload = p\<rparr>" using encode_frames [of p "of_nat (length fds)"] assms(1) by auto
  then show ?thesis using assms(2,3) by (simp add: frame_of_def frames_def)
qed

text \<open>C16: However the kernel cuts a stream of sent messages into reads - pieces no larger than asked for, the descriptors
  of a message with its first byte, interruptions and blocking reads anywhere - receiving gives exactly the
  messages sent, in order, each with its own payload and descriptors, as long as none has more than 32 of them, and
  leaves the channel empty; no read panics or is an error.\<close>
theorem channel_reassembles:
  assumes "arrives ms events" "blocks events \<le> n"
    and "\<forall>(p, fds) \<in> set ms. length p + 16 \<le> MAX_MESSAGE \<and> length fds \<le> MAX_FDS_PER_RECV"
  shows "receive (length ms) (replicate (Suc n) PollReady) events channel_new =
    Some (Ok (map (\<lambda>(p, fds). \<lparr>im_payload = p, im_fds = fds\<rparr>) ms, channel_new, []))"
  using assms
proof (induction rule: arrives.induct)
  case (arrives_next payload fds b events ms later)
  have few: "length fds \<le> MAX_FDS_PER_RECV" "length fds < 2 ^ 16" "length payload + 16 \<le> MAX_MESSAGE"
    using arrives_next.prems(2) by (auto simp: MAX_FDS_PER_RECV_def)
  have f: "frame_of b payload fds" by (rule encoded_frame [OF arrives_next.hyps(1) few(3,2)])
  have new: "channel_new = partial_channel b fds 0" by (simp add: channel_new_def partial_channel_def)
  have "0 < length b" "blocks events \<le> n" "blocks later \<le> n"
    using frame_parts(1) [OF f] arrives_next.prems(1) by (auto simp: blocks_def)
  then have "recv (replicate (Suc n) PollReady) (events @ later) channel_new =
      Some (Ok (Some \<lparr>im_payload = payload, im_fds = fds\<rparr>, channel_new, later))"
    using recv_frame [OF f arrives_next.hyps(2), of n later] few(1) new by (simp add: frame_result_def)
  then show ?case using arrives_next.IH \<open>blocks later \<le> n\<close> arrives_next.prems(2) by simp
qed simp

lemma witness_frame: "encode_channel_message [42, 43] (of_nat (length [7 :: nat])) =
  Some [16, 0, 1, 0, 18, 0, 0, 0, 0, 0, 0, 0, 0, 0, 0, 0, 42, 43]"
proof -
  have "to_le 2 (16 :: u16) = [16, 0]" "to_le 2 (1 :: u16) = [1, 0]" "to_le 4 (18 :: u32) = [18, 0, 0, 0]"
    "to_le 8 (0 :: u64) = [0, 0, 0, 0, 0, 0, 0, 0]" by code_simp+
  then show ?thesis
    by (simp add: encode_channel_message_def encode_channel_header_def ipcz_sizes usize_limit_def debug_assert_def as_u32_def)
qed

lemma piece_later:
  "0 < k \<Longrightarrow> c \<noteq> [] \<Longrightarrow> c = take (length c) (drop k b) \<Longrightarrow> (k < 16 \<Longrightarrow> k + length c \<le> 16) \<Longrightarrow> k' = k + length c \<Longrightarrow>
   delivers b fds k' events \<Longrightarrow> delivers b fds k (Received c [] # events)"
  using piece [of c k b fds events] by simp

lemma channel_reassembles_witness:
  "receive (length [([42 :: byte, 43], [7 :: fd])]) (replicate (Suc 1) PollReady)
     [Interrupted, Received [16, 0, 1, 0] [7], Blocked, Received [18, 0, 0, 0, 0, 0, 0, 0, 0, 0, 0, 0] [],
      Received [42] [], Received [43] []] channel_new =
    Some (Ok (map (\<lambda>(p, fds). \<lparr>im_payload = p, im_fds = fds\<rparr>) [([42, 43], [7])], channel_new, []))"
proof -
  let ?b = "[16, 0, 1, 0, 18, 0, 0, 0, 0, 0, 0, 0, 0, 0, 0, 0, 42, 43] :: byte list"
  have "delivers ?b [7] 18 []" by (rule delivered) simp
  then have "delivers ?b [7] 17 [Received [43] []]" by (rule piece_later [rotated -1]) simp_all
  then have "delivers ?b [7] 16 [Received [42] [], Received [43] []]" by (rule piece_later [rotated -1]) simp_all
  then have "delivers ?b [7] 4 [Received [18, 0, 0, 0, 0, 0, 0, 0, 0, 0, 0, 0] [], Received [42] [], Received [43] []]"
    by (rule piece_later [rotated -1]) simp_all
  then have "delivers ?b [7] 4
      [Blocked, Received [18, 0, 0, 0, 0, 0, 0, 0, 0, 0, 0, 0] [], Received [42] [], Received [43] []]"
    by (rule blocked [rotated]) simp
  moreover have len: "0 + length [16 :: byte, 0, 1, 0] = 4" by simp
  ultimately have "delivers ?b [7] 0 [Interrupted, Received [16, 0, 1, 0] [7], Blocked, Received [18, 0, 0, 0, 0, 0, 0, 0, 0, 0, 0, 0] [],
      Received [42] [], Received [43] []]"
    using piece [where k = 0 and c = "[16, 0, 1, 0]" and b = ?b and fds = "[7]", unfolded len] by (intro interrupted) (simp_all add: MAX_FDS_PER_RECV_def)
  from arrives_next [OF witness_frame this arrives_none]
  show ?thesis by (intro channel_reassembles) (simp_all add: blocks_def MAX_MESSAGE_def MAX_FDS_PER_RECV_def)
qed

section \<open>Sent bytes\<close>

lemma send_loop_writes:
  "send_loop frame fds sent events = Some (Ok ws) \<Longrightarrow> sent \<le> length frame \<Longrightarrow>
   concat (map fst ws) = drop sent frame \<and>
   (\<forall>i < length ws. snd (ws ! i) = (if i = 0 \<and> sent = 0 then fds else []))"
proof (induction frame fds sent events arbitrary: ws rule: send_loop.induct)
  case (1 frame fds sent events)
  show ?case
  proof (cases "sent < length frame")
    case True
    then have room: "\<not> (sent = 0 \<and> fds \<noteq> [] \<and> CONTROL_BUFFER < control_space (length fds))"
      using 1(2) by (subst (asm) send_loop.simps) (auto split: if_splits)
    with True obtain n rest ws' where n: "events = Accepted n # rest" "n \<noteq> 0" "n \<le> length frame - sent"
      "send_loop frame fds (sent + n) rest = Some (Ok ws')" "ws = (take n (drop sent frame), if sent = 0 then fds else []) # ws'"
      using 1(2) by (subst (asm) send_loop.simps) (auto split: list.splits send_event.splits if_splits)
    have ih: "concat (map fst ws') = drop (sent + n) frame \<and> (\<forall>i < length ws'. snd (ws' ! i) = (if i = 0 \<and> sent + n = 0 then fds else []))"
      by (rule 1(1)) (use True room n in auto)
    then have "concat (map fst ws) = drop sent frame"
      using n(5) append_take_drop_id [of n "drop sent frame"] by (simp add: add.commute)
    moreover have "snd (ws ! i) = (if i = 0 \<and> sent = 0 then fds else [])" if "i < length ws" for i
      using that ih n(2,5) by (cases i) auto
    ultimately show ?thesis by blast
  next
    case False
    then show ?thesis using 1(2,3) by (subst (asm) send_loop.simps) simp
  qed
qed

text \<open>A send that succeeds has written exactly the frame of the message, in however many pieces the socket took
  it, and has passed the descriptors once, with the first piece.\<close>
theorem sent_exactly_once:
  assumes "channel_send payload fds events = Some (Ok ws)"
  shows "encode_channel_message payload (of_nat (length fds)) = Some (concat (map fst ws)) \<and>
    (\<forall>i < length ws. snd (ws ! i) = (if i = 0 then fds else []))"
proof -
  obtain frame where f: "encode_channel_message payload (of_nat (length fds)) = Some frame" "send_loop frame fds 0 events = Some (Ok ws)"
    using assms by (auto simp: channel_send_def split: option.splits)
  from send_loop_writes [OF f(2)] f(1) show ?thesis by simp
qed

lemma sent_exactly_once_witness:
  "\<exists>ws. channel_send [42, 43] [7] [Accepted 5, Accepted 13] = Some (Ok ws) \<and> length ws = 2 \<and>
    encode_channel_message [42, 43] (of_nat (length [7 :: nat])) = Some (concat (map fst ws)) \<and>
    (\<forall>i < length ws. snd (ws ! i) = (if i = 0 then [7] else []))"
proof -
  obtain ws where ws: "channel_send [42, 43] [7] [Accepted 5, Accepted 13] = Some (Ok ws)" "length ws = 2"
  proof
    show "channel_send [42, 43] [7] [Accepted 5, Accepted 13] =
      Some (Ok [([16, 0, 1, 0, 18], [7]), ([0, 0, 0, 0, 0, 0, 0, 0, 0, 0, 0, 42, 43], [])])"
      unfolding channel_send_def witness_frame
      by (simp, subst send_loop.simps, simp add: control_space_def CONTROL_BUFFER_def, subst send_loop.simps, simp,
          subst send_loop.simps, simp)
  qed simp
  then show ?thesis using sent_exactly_once [OF ws(1)] by blast
qed

section \<open>More descriptors than a read takes\<close>

text \<open>C37: The two sides of a channel disagree on how many descriptors a message may have.  A message with 33 to 252 of them
  is sent without an error, in a single call if the socket takes it; but a read has room for 32, so however its bytes
  are delivered, the receiver ends with \<open>BadDriverObjects\<close> and loses the message.\<close>
theorem descriptors_beyond_bound:
  assumes "encode_channel_message payload (of_nat (length fds)) = Some b" "length payload + 16 \<le> MAX_MESSAGE"
    and "MAX_FDS_PER_RECV < length fds" "length fds \<le> 252" "delivers b fds 0 events" "blocks events \<le> n"
  shows "channel_send payload fds [Accepted (length b)] = Some (Ok [(b, fds)]) \<and>
    recv (replicate (Suc n) PollReady) events channel_new = Some (Err (ChannelWire BadDriverObjects))"
proof -
  have f: "frame_of b payload fds" by (rule encoded_frame [OF assms(1,2)]) (use assms(4) in simp)
  then have b: "0 < length b" using frame_parts(1) by force
  have "4 * length fds + 7 \<le> 1015" using assms(4) by simp
  then have "(4 * length fds + 7) div 8 \<le> 1015 div 8" by (rule div_le_mono)
  then have "control_space (length fds) \<le> CONTROL_BUFFER" by (simp add: control_space_def CONTROL_BUFFER_def)
  then have "channel_send payload fds [Accepted (length b)] = Some (Ok [(b, fds)])"
    using assms(1) b by (simp add: channel_send_def, subst send_loop.simps, simp, subst send_loop.simps, simp)
  moreover have "channel_new = partial_channel b fds 0" by (simp add: channel_new_def partial_channel_def)
  ultimately show ?thesis
    using recv_frame [OF f assms(5) b assms(6), of "[]"] assms(3) by (simp add: frame_result_def)
qed

lemma descriptors_beyond_bound_witness:
  "\<exists>b. encode_channel_message [] (of_nat (length (replicate 33 (7 :: nat)))) = Some b \<and>
    channel_send [] (replicate 33 7) [Accepted (length b)] = Some (Ok [(b, replicate 33 7)]) \<and>
    recv [PollReady] [Received b (replicate 32 7)] channel_new = Some (Err (ChannelWire BadDriverObjects))"
proof -
  let ?fds = "replicate 33 (7 :: nat)"
  obtain b where b: "encode_channel_message [] (of_nat (length ?fds)) = Some b" "length b = 16"
    by (simp add: encode_channel_message_def encode_channel_header_def ipcz_sizes usize_limit_def debug_assert_def as_u32_def)
  have "delivers b ?fds (0 + length b) []" by (rule delivered) simp
  then have "delivers b ?fds 0 (Received b (if (0 :: nat) = 0 then take MAX_FDS_PER_RECV ?fds else []) # [])"
    by (intro piece) (use b(2) in auto)
  then have "delivers b ?fds 0 [Received b (replicate 32 7)]" by (simp add: MAX_FDS_PER_RECV_def)
  from descriptors_beyond_bound [OF b(1) _ _ _ this, of 0] b(1) show ?thesis
    by (simp add: MAX_MESSAGE_def MAX_FDS_PER_RECV_def blocks_def)
qed

end
