(* ===== verification/Routing.thy ===== *)
theory Routing
  imports Router Channel
begin

text \<open>
  The routing acceptor, part one: \<open>crates/mojo-rs-interop/src/ipcz/routing.rs\<close>.  The state of a node - its node links,
  routers, owners of sublinks - and the operations that routers run on each other: flushing, transmitting
  and serialising, closing routes, bypassing bridges.  The operations of the code call each other
  through \<open>router_flush\<close>; here each takes the flush to call as an argument, and \<open>router_flush\<close> ties the knot
  with a bound on the depth of calls, beyond which the stack of the code overflows (\<open>Panic\<close>).
  What the code has written before an error is kept only where the code goes on after the error.
  Traces printed under an environment variable are left out.
\<close>

section \<open>State\<close>

datatype routing_error =
    RChannel channel_error | RMemory memory_error | BadParcel string | RWire link_error
  | Unexpected string | Unsupported byte string | RIo io_error

type_synonym 'a routing = "(routing_error, 'a) outcome"

definition LINK_ID_BROKER :: u64 where "LINK_ID_BROKER = 0"
definition LINK_ID_DIRECT :: u64 where "LINK_ID_DIRECT = 1"
definition LINK_ID_INTRODUCED :: u64 where "LINK_ID_INTRODUCED = 2"
definition BOOTSTRAP_SUBLINK :: u64 where "BOOTSTRAP_SUBLINK = 1"
definition LOCAL_RID_BASE :: u64 where "LOCAL_RID_BASE = push_bit 32 1"
definition BLOCK_ALLOCATOR_PAGE_SIZE :: nat where "BLOCK_ALLOCATOR_PAGE_SIZE = 64 * 1024"
definition HANDLE_PORTAL :: u32 where "HANDLE_PORTAL = 0"
definition HANDLE_BOXED_DRIVER_OBJECT :: u32 where "HANDLE_BOXED_DRIVER_OBJECT = 1"
definition HANDLE_RELAYED_BOXED_DRIVER_OBJECT :: u32 where "HANDLE_RELAYED_BOXED_DRIVER_OBJECT = 2"
definition HANDLE_BOXED_SUBPARCEL :: u32 where "HANDLE_BOXED_SUBPARCEL = 3"

text \<open>A node link: the messages sent on its channel, and whether the channel still takes messages.\<close>

record node_link =
  nl_sent :: "(byte list \<times> fd list) list"
  nl_open :: bool
  nl_memory :: "link_memory option"
  nl_remote_name :: node_name
  nl_next_seq :: u64

record pending_intro =
  pi_rid :: u64
  pi_requestor_link_id :: u64
  pi_requestor_sublink :: u64
  pi_bypass_target_sublink :: u64

record pending_memory =
  pm_buffer_size :: u32
  pm_block_size :: u32

text \<open>
  The node.  \<open>nd_link_order\<close> is the order in which an iteration over the hash map of links visits it;
  \<open>nd_cells\<close> holds the states that local links share.
\<close>

record node =
  nd_links :: "u64 \<Rightarrow> node_link option"
  nd_link_order :: "u64 list"
  nd_routers :: "u64 \<Rightarrow> router option"
  nd_owners :: "u64 \<times> u64 \<Rightarrow> u64 option"
  nd_early :: "u64 \<times> u64 \<Rightarrow> accept_parcel list option"
  nd_broker_name :: node_name
  nd_referrer_name :: node_name
  nd_local_name :: node_name
  nd_bootstrap_rid :: u64
  nd_held_fds :: "fd list"
  nd_waiting_routers :: "u64 list"
  nd_a2b_rid :: "u64 option"
  nd_referral_reply_seen :: bool
  nd_keep_queued :: bool
  nd_pending_intros :: "node_name \<Rightarrow> pending_intro list option"
  nd_next_rid :: u64
  nd_pending_memory :: "u64 \<times> u32 \<Rightarrow> pending_memory list option"
  nd_capacity_pending :: "(u64 \<times> u32) list"
  nd_pending_fragments :: "u64 \<times> u64 \<Rightarrow> (accept_parcel \<times> fd list \<times> u64) list option"
  nd_cells :: "local_link_state list"

definition node_new :: node where
  "node_new =
     \<lparr>nd_links = [LINK_ID_BROKER \<mapsto> \<lparr>nl_sent = [], nl_open = True, nl_memory = None,
                    nl_remote_name = node_name_invalid, nl_next_seq = 0\<rparr>],
      nd_link_order = [LINK_ID_BROKER], nd_routers = Map.empty, nd_owners = Map.empty, nd_early = Map.empty,
      nd_broker_name = node_name_invalid, nd_referrer_name = node_name_invalid, nd_local_name = node_name_invalid,
      nd_bootstrap_rid = 0, nd_held_fds = [], nd_waiting_routers = [], nd_a2b_rid = None,
      nd_referral_reply_seen = False, nd_keep_queued = False, nd_pending_intros = Map.empty,
      nd_next_rid = LOCAL_RID_BASE, nd_pending_memory = Map.empty, nd_capacity_pending = [],
      nd_pending_fragments = Map.empty, nd_cells = []\<rparr>"

section \<open>Access\<close>

definition ok_or :: "'a option \<Rightarrow> 'e \<Rightarrow> ('e, 'a) outcome" where
  "ok_or x e = (case x of None \<Rightarrow> Err e | Some a \<Rightarrow> Ok a)"

definition get_router :: "node \<Rightarrow> u64 \<Rightarrow> string \<Rightarrow> router routing" where
  "get_router s rid msg = ok_or (nd_routers s rid) (BadParcel msg)"

definition set_router :: "node \<Rightarrow> u64 \<Rightarrow> router \<Rightarrow> node" where
  "set_router s rid r = s\<lparr>nd_routers := (nd_routers s)(rid \<mapsto> r)\<rparr>"

definition memory_for :: "node \<Rightarrow> u64 \<Rightarrow> link_memory routing" where
  "memory_for s i =
     (case nd_links s i of
        None \<Rightarrow> Err (Unexpected ''unknown link id'')
      | Some l \<Rightarrow> ok_or (nl_memory l) (Unexpected ''link memory not established''))"

definition set_memory :: "node \<Rightarrow> u64 \<Rightarrow> link_memory \<Rightarrow> node" where
  "set_memory s i m = s\<lparr>nd_links := (nd_links s)(i := map_option (nl_memory_update (\<lambda>_. Some m)) (nd_links s i))\<rparr>"

definition on_memory :: "u64 \<Rightarrow> (link_memory \<Rightarrow> ('a \<times> link_memory) memory_result) \<Rightarrow> node \<Rightarrow> ('a \<times> node) routing" where
  "on_memory i f s =
     obind (memory_for s i) (\<lambda>m. obind (map_err RMemory (f m)) (\<lambda>(a, m). Ok (a, set_memory s i m)))"

definition remote_name_for :: "node \<Rightarrow> u64 \<Rightarrow> node_name routing" where
  "remote_name_for s i = ok_or (map_option nl_remote_name (nd_links s i)) (Unexpected ''unknown link id'')"

definition bootstrap_sublink :: "node \<Rightarrow> u64 routing" where
  "bootstrap_sublink s =
     ok_or (map_option li_sublink (Option.bind (nd_routers s (nd_bootstrap_rid s)) (\<lambda>r. ed_primary (ro_outward r))))
       (Unexpected ''router has no primary outward link'')"

definition send_link_message_with_fds_on :: "u64 \<Rightarrow> byte list option \<Rightarrow> fd list \<Rightarrow> node \<Rightarrow> node routing" where
  "send_link_message_with_fds_on i payload fds s =
     obind (from_option payload) (\<lambda>payload.
     obind (ok_or (nd_links s i) (Unexpected ''unknown link id'')) (\<lambda>l.
     obind (from_option (set_message_sequence_number payload (nl_next_seq l))) (\<lambda>payload.
     obind (from_option (succ64 (nl_next_seq l))) (\<lambda>next_seq.
     if \<not> nl_open l then Err (RChannel ChannelIo)
     else Ok (s\<lparr>nd_links := (nd_links s)(i \<mapsto> l\<lparr>nl_next_seq := next_seq, nl_sent := nl_sent l @ [(payload, fds)]\<rparr>)\<rparr>)))))"

definition send_link_message_on :: "u64 \<Rightarrow> byte list option \<Rightarrow> node \<Rightarrow> node routing" where
  "send_link_message_on i payload s = send_link_message_with_fds_on i payload [] s"

definition own_sublink :: "node \<Rightarrow> u64 \<Rightarrow> u64 \<Rightarrow> u64 \<Rightarrow> node" where
  "own_sublink s i sublink rid = s\<lparr>nd_owners := (nd_owners s)((i, sublink) \<mapsto> rid)\<rparr>"

section \<open>Links\<close>

definition cell_for :: "node \<Rightarrow> nat \<Rightarrow> local_link_state routing" where
  "cell_for s a = (if a < length (nd_cells s) then Ok (nd_cells s ! a) else Panic)"

definition set_cell :: "node \<Rightarrow> nat \<Rightarrow> local_link_state \<Rightarrow> node" where
  "set_cell s a c = s\<lparr>nd_cells := (nd_cells s)[a := c]\<rparr>"

definition mark_side_stable_on_link :: "link \<Rightarrow> node \<Rightarrow> node routing" where
  "mark_side_stable_on_link l s =
     obind (case li_link_state l of
        None \<Rightarrow> Ok s
      | Some desc \<Rightarrow>
        obind (on_memory (li_link_id l) (\<lambda>m. run_status (set_side_stable (is_a (li_side l))) m desc) s) (\<lambda>(_, s). Ok s)) (\<lambda>s.
     case li_local_state l of
       None \<Rightarrow> Ok s
     | Some a \<Rightarrow> obind (cell_for s a) (\<lambda>c. Ok (set_cell s a (local_set_side_stable c (is_a (li_side l))))))"

definition try_lock_link_for_closure :: "link \<Rightarrow> node \<Rightarrow> (bool \<times> node) routing" where
  "try_lock_link_for_closure l s =
     (case li_link_state l of
        Some desc \<Rightarrow> on_memory (li_link_id l) (\<lambda>m. run_status (try_lock (is_a (li_side l))) m desc) s
      | None \<Rightarrow>
        (case li_local_state l of
           None \<Rightarrow> Ok (False, s)
         | Some a \<Rightarrow>
           obind (cell_for s a) (\<lambda>c.
           obind (from_option (local_try_lock c (is_a (li_side l)))) (\<lambda>(r, c). Ok (r, set_cell s a c)))))"

definition try_lock_link_for_bypass :: "link \<Rightarrow> node_name \<Rightarrow> node \<Rightarrow> (bool \<times> node) routing" where
  "try_lock_link_for_bypass l source s =
     (case li_link_state l of
        Some desc \<Rightarrow>
        obind (on_memory (li_link_id l) (\<lambda>m. run_status (try_lock (is_a (li_side l))) m desc) s) (\<lambda>(r, s).
        if \<not> r then Ok (False, s)
        else
        obind (on_memory (li_link_id l) (\<lambda>m. obind (write_allowed_bypass_source m desc source) (\<lambda>m. Ok ((), m))) s)
          (\<lambda>(_, s). Ok (True, s)))
      | None \<Rightarrow>
        (case li_local_state l of
           None \<Rightarrow> Ok (False, s)
         | Some a \<Rightarrow>
           obind (cell_for s a) (\<lambda>c.
           obind (from_option (local_try_lock c (is_a (li_side l)))) (\<lambda>(r, c).
           if \<not> r then Ok (False, set_cell s a c)
           else Ok (True, set_cell s a (c\<lparr>ll_allowed_source := nn_low source\<rparr>))))))"

definition unlock_link_for_bypass :: "link \<Rightarrow> node \<Rightarrow> node routing" where
  "unlock_link_for_bypass l s =
     obind (case li_link_state l of
        None \<Rightarrow> Ok s
      | Some desc \<Rightarrow>
        obind (on_memory (li_link_id l) (\<lambda>m. run_status (unlock (is_a (li_side l))) m desc) s) (\<lambda>(_, s). Ok s)) (\<lambda>s.
     case li_local_state l of
       None \<Rightarrow> Ok s
     | Some a \<Rightarrow> obind (cell_for s a) (\<lambda>c. Ok (set_cell s a (local_unlock c (is_a (li_side l))))))"

text \<open>The flush of a router, with the flag that forces a bypass attempt.\<close>

type_synonym flush = "u64 \<Rightarrow> bool \<Rightarrow> node \<Rightarrow> node routing"

definition flush_other_side_if_waiting :: "flush \<Rightarrow> link \<Rightarrow> node \<Rightarrow> node routing" where
  "flush_other_side_if_waiting fl l s =
     (case li_link_state l of
        Some desc \<Rightarrow>
        obind (on_memory (li_link_id l) (\<lambda>m. run_status (reset_waiting_bit (\<not> is_a (li_side l))) m desc) s) (\<lambda>(r, s).
        if r then send_link_message_on (li_link_id l) (encode_flush_router (li_sublink l)) s else Ok s)
      | None \<Rightarrow>
        (case li_local_state l of
           None \<Rightarrow> Ok s
         | Some a \<Rightarrow>
           obind (cell_for s a) (\<lambda>c.
           case local_reset_waiting_bit c (\<not> is_a (li_side l)) of
             (r, c) \<Rightarrow>
               let s = set_cell s a c in
               if r then (case li_local_peer l of None \<Rightarrow> Ok s | Some peer \<Rightarrow> fl peer True s) else Ok s)))"

definition set_outward_link :: "u64 \<Rightarrow> link \<Rightarrow> node \<Rightarrow> node routing" where
  "set_outward_link rid l s =
     obind (get_router s rid ''set outward link for unknown router'') (\<lambda>r.
     let mark = (is_central (li_kind l) \<and> edge_is_stable (ro_outward r) \<and>
                 (case ro_inward r of None \<Rightarrow> True | Some e \<Rightarrow> edge_is_stable e)) in
     obind (if mark then mark_side_stable_on_link l s else Ok s) (\<lambda>s.
     obind (get_router s rid ''set outward link for unknown router'') (\<lambda>r.
     if ro_disconnected r then Ok s
     else obind (from_option (set_primary_link (ro_outward r) l)) (\<lambda>e. Ok (set_router s rid (r\<lparr>ro_outward := e\<rparr>))))))"

text \<open>
  Releasing the shared state of a link.  The memory changes stay when freeing the block fails, since
  \<open>remove_router\<close> ignores that error.
\<close>

definition release_link_state :: "link \<Rightarrow> node \<Rightarrow> unit routing \<times> node" where
  "release_link_state l s =
     (case li_link_state l of
        None \<Rightarrow> (Ok (), s)
      | Some state \<Rightarrow>
        if is_initial_link_state state then (Ok (), s)
        else case on_memory (li_link_id l) (\<lambda>m. release_link_state_ref m state) s of
          Err e \<Rightarrow> (Err e, s)
        | Panic \<Rightarrow> (Panic, s)
        | Ok (was_last, s) \<Rightarrow>
          if \<not> was_last then (Ok (), s)
          else case on_memory (li_link_id l) (\<lambda>m. free_block m state) s of
            Err e \<Rightarrow> (Err e, s)
          | Panic \<Rightarrow> (Panic, s)
          | Ok (freed, s) \<Rightarrow> (if freed then Ok () else Err (BadParcel ''failed to free link state block''), s))"

definition release_opt :: "link option \<Rightarrow> node \<Rightarrow> node routing" where
  "release_opt l s =
     (case l of
        None \<Rightarrow> Ok s
      | Some l \<Rightarrow> (case release_link_state l s of (r, s) \<Rightarrow> obind r (\<lambda>_. Ok s)))"

text \<open>The links of the outward and inward edges of a router.\<close>

definition edge_links :: "edge \<Rightarrow> link list" where
  "edge_links e = (case ed_primary e of None \<Rightarrow> [] | Some l \<Rightarrow> [l]) @ (case edge_decaying_link e of None \<Rightarrow> [] | Some l \<Rightarrow> [l])"

definition router_links :: "router \<Rightarrow> link list" where
  "router_links r = edge_links (ro_outward r) @ (case ro_inward r of None \<Rightarrow> [] | Some e \<Rightarrow> edge_links e)"

fun release_ignoring :: "link list \<Rightarrow> node \<Rightarrow> node routing" where
  "release_ignoring [] s = Ok s"
| "release_ignoring (l # ls) s =
     (case release_link_state l s of
        (Panic, s) \<Rightarrow> Panic
      | (_, s) \<Rightarrow> release_ignoring ls s)"

definition remove_router :: "u64 \<Rightarrow> node \<Rightarrow> node routing" where
  "remove_router rid s =
     (case nd_routers s rid of
        None \<Rightarrow> Ok s
      | Some r \<Rightarrow>
        let sublinks = set (map (\<lambda>l. (li_link_id l, li_sublink l)) (router_links r));
            states = filter (\<lambda>l. li_link_state l \<noteq> None) (router_links r);
            owners = (\<lambda>k. if k \<in> sublinks then None else if nd_owners s k = Some rid then None else nd_owners s k) in
        obind (release_ignoring states (s\<lparr>nd_owners := owners\<rparr>)) (\<lambda>s.
        Ok (s\<lparr>nd_routers := (nd_routers s)(rid := None)\<rparr>)))"

section \<open>Capacity\<close>

definition request_block_capacity :: "u32 \<Rightarrow> u64 \<Rightarrow> node \<Rightarrow> node routing" where
  "request_block_capacity block_size i s =
     (if (i, block_size) \<in> set (nd_capacity_pending s) then Ok s
      else
      let s = s\<lparr>nd_capacity_pending := (i, block_size) # nd_capacity_pending s\<rparr>;
          min_buffer_size = min (unat block_size * MIN_BLOCK_ALLOCATOR_CAPACITY) (usize_limit - 1);
          num_pages = max ((min_buffer_size + BLOCK_ALLOCATOR_PAGE_SIZE - 1) div BLOCK_ALLOCATOR_PAGE_SIZE) 1 in
      obind (from_option (umul num_pages BLOCK_ALLOCATOR_PAGE_SIZE)) (\<lambda>buffer_size.
      if buffer_size \<ge> 2 ^ 32 then Err (BadParcel ''block buffer request exceeds u32 size'')
      else
      let size = of_nat buffer_size :: u32;
          queue = (case nd_pending_memory s (i, size) of None \<Rightarrow> [] | Some q \<Rightarrow> q) in
      send_link_message_on i (encode_request_memory size)
        (s\<lparr>nd_pending_memory := (nd_pending_memory s)((i, size) \<mapsto>
             queue @ [\<lparr>pm_buffer_size = size, pm_block_size = block_size\<rparr>])\<rparr>)))"

definition write_parcel_fragment_or_inline :: "byte list \<Rightarrow> u64 \<Rightarrow> node \<Rightarrow> (fragment option \<times> node) routing" where
  "write_parcel_fragment_or_inline data i s =
     obind (memory_for s i) (\<lambda>m.
     case write_parcel_fragment m data of
       Ok (f, m) \<Rightarrow> Ok (Some f, set_memory s i m)
     | Err OutOfBounds \<Rightarrow> Ok (None, s)
     | Err e \<Rightarrow> Err (RMemory e)
     | Panic \<Rightarrow> Panic)"

section \<open>Serialising routers\<close>

definition router_descriptor_default :: router_descriptor where
  "router_descriptor_default =
     \<lparr>rd_closed_peer_sequence_length = 0, rd_new_sublink = 0, rd_new_link_state_fragment = fragment_default,
      rd_new_decaying_sublink = 0, rd_next_outgoing_sequence_number = 0, rd_next_incoming_sequence_number = 0,
      rd_decaying_incoming_sequence_length = 0, rd_peer_closed = False, rd_proxy_already_bypassed = False,
      rd_proxy_peer_node_name = node_name_invalid, rd_proxy_peer_sublink = 0\<rparr>"

text \<open>Beginning the decay of an edge where the code ignores or checks the result, with the lengths it sets.\<close>

definition begin_decay :: "edge \<Rightarrow> edge" where
  "begin_decay e = snd (begin_primary_link_decay e)"

definition decay_or :: "string \<Rightarrow> edge \<Rightarrow> edge routing" where
  "decay_or msg e = (case begin_primary_link_decay e of (ok, e) \<Rightarrow> if ok then Ok e else Err (BadParcel msg))"

definition set_lengths :: "u64 option \<Rightarrow> u64 option \<Rightarrow> edge \<Rightarrow> edge option" where
  "set_lengths to from e = do {
     e \<leftarrow> (case to of None \<Rightarrow> Some e | Some n \<Rightarrow> set_length_to_decaying_link e n);
     (case from of None \<Rightarrow> Some e | Some n \<Rightarrow> set_length_from_decaying_link e n) }"

definition serialize_router_with_local_peer ::
  "u64 \<Rightarrow> u64 \<Rightarrow> u64 \<Rightarrow> node \<Rightarrow> (router_descriptor option \<times> node) routing" where
  "serialize_router_with_local_peer rid local_peer i s =
     obind (on_memory i try_allocate_link_state s) (\<lambda>(allocated, s).
     case allocated of
       None \<Rightarrow>
         obind (request_block_capacity (of_nat ROUTER_LINK_STATE_SIZE) i s) (\<lambda>s. Ok (None, s))
     | Some new_link_state \<Rightarrow>
       obind (on_memory i (\<lambda>m. obind (add_link_state_ref m new_link_state) (\<lambda>m. Ok ((), m))) s) (\<lambda>(_, s).
       obind (get_router s local_peer ''serialize with unknown local peer'') (\<lambda>peer.
       let proxy_inbound_sequence_length = pq_current (ro_outbound peer) in
       case release_primary_link (ro_outward peer) of
         (None, _) \<Rightarrow> Err (BadParcel ''local peer has no outward link'')
       | (Some _, e) \<Rightarrow>
         let s = set_router s local_peer (peer\<lparr>ro_outward := e\<rparr>) in
         obind (on_memory i (\<lambda>m. allocate_sublink_ids m 2) s) (\<lambda>(new_sublink, s).
         obind (from_option (succ64 new_sublink)) (\<lambda>decaying_sublink.
         let s = own_sublink (own_sublink s i new_sublink local_peer) i decaying_sublink rid in
         obind (get_router s rid ''serialize for unknown router'') (\<lambda>r.
         let d = router_descriptor_default
               \<lparr>rd_new_sublink := new_sublink, rd_new_link_state_fragment := new_link_state,
                rd_new_decaying_sublink := decaying_sublink, rd_proxy_already_bypassed := True,
                rd_next_outgoing_sequence_number := pq_current (ro_outbound r),
                rd_next_incoming_sequence_number := pq_current (ro_inbound r),
                rd_decaying_incoming_sequence_length := proxy_inbound_sequence_length\<rparr>;
             d = (case pq_final (ro_inbound r) of
                    None \<Rightarrow> d
                  | Some final_len \<Rightarrow> d\<lparr>rd_peer_closed := True, rd_closed_peer_sequence_length := final_len\<rparr>) in
         obind (from_option (set_lengths (Some proxy_inbound_sequence_length) (Some (rd_next_outgoing_sequence_number d))
                  (begin_decay edge_default))) (\<lambda>inward.
         Ok (Some d, set_router s rid (r\<lparr>ro_inward := Some inward\<rparr>)))))))))"

text \<open>The proxy path.\<close>

definition serialize_as_proxy :: "u64 \<Rightarrow> u64 \<Rightarrow> link \<Rightarrow> bool \<Rightarrow> node \<Rightarrow> ((u64 \<times> router_descriptor) \<times> node) routing" where
  "serialize_as_proxy rid i primary initiate_proxy_bypass s =
     obind (if \<not> is_local primary then obind (remote_name_for s (li_link_id primary)) (\<lambda>n. Ok (Some n)) else Ok None)
       (\<lambda>outward_remote.
     obind (on_memory i (\<lambda>m. allocate_sublink_ids m 1) s) (\<lambda>(new_sublink, s).
     obind (get_router s rid ''serialize for unknown router'') (\<lambda>r.
     let d = router_descriptor_default
           \<lparr>rd_new_sublink := new_sublink,
            rd_next_outgoing_sequence_number := pq_current (ro_outbound r),
            rd_next_incoming_sequence_number := pq_current (ro_inbound r)\<rparr> in
     obind
       (if ro_peer_closed r then
          let len = (case pq_final (ro_inbound r) of None \<Rightarrow> 0 | Some n \<Rightarrow> n) in
          obind (from_option (set_lengths (Some len) (Some (pq_current (ro_outbound r))) (begin_decay edge_default))) (\<lambda>inward.
          Ok (d\<lparr>rd_peer_closed := True, rd_closed_peer_sequence_length := len\<rparr>, r\<lparr>ro_inward := Some inward\<rparr>))
        else if initiate_proxy_bypass then
          obind (ok_or (ed_primary (ro_outward r)) (BadParcel ''no outward primary'')) (\<lambda>primary.
          if is_local primary then Ok (d, r\<lparr>ro_inward := Some edge_default\<rparr>)
          else
          obind (ok_or outward_remote (BadParcel ''no outward remote'')) (\<lambda>remote.
          Ok (d\<lparr>rd_proxy_peer_node_name := remote, rd_proxy_peer_sublink := li_sublink primary\<rparr>,
              r\<lparr>ro_inward := Some (begin_decay edge_default), ro_outward := begin_decay (ro_outward r)\<rparr>)))
        else Ok (d, r\<lparr>ro_inward := Some edge_default\<rparr>)) (\<lambda>(d, r).
     Ok ((rid, d), own_sublink (set_router s rid r) i new_sublink rid)))))"

definition serialize_router :: "u64 \<Rightarrow> u64 \<Rightarrow> node \<Rightarrow> ((u64 \<times> router_descriptor) \<times> node) routing" where
  "serialize_router rid i s =
     obind (get_router s rid ''serialize for unknown router'') (\<lambda>r.
     if ro_inward r \<noteq> None then Err (BadParcel ''serializing a proxy'')
     else case ed_primary (ro_outward r) of
       None \<Rightarrow> Err (BadParcel ''serialize for router with no outward link'')
     | Some primary \<Rightarrow>
       obind (remote_name_for s i) (\<lambda>source.
       obind (try_lock_link_for_bypass primary source s) (\<lambda>(locked, s).
       case li_local_peer primary of
         None \<Rightarrow> serialize_as_proxy rid i primary locked s
       | Some local_peer \<Rightarrow>
         if \<not> locked then serialize_as_proxy rid i primary locked s
         else
         obind (serialize_router_with_local_peer rid local_peer i s) (\<lambda>(d, s).
         case d of
           Some d \<Rightarrow> Ok ((rid, d), s)
         | None \<Rightarrow> obind (unlock_link_for_bypass primary s) (serialize_as_proxy rid i primary locked)))))"

fun serialize_objects :: "parcel_object list \<Rightarrow> u64 \<Rightarrow> node \<Rightarrow> ((u64 \<times> router_descriptor) list \<times> node) routing" where
  "serialize_objects [] i s = Ok ([], s)"
| "serialize_objects (ObjFd _ # objs) i s =
     Err (Unsupported MSG_ID_ACCEPT_PARCEL ''fd transmission not exercised by the routing court'')"
| "serialize_objects (ObjRouter rid # objs) i s =
     obind (serialize_router rid i s) (\<lambda>(d, s).
     obind (serialize_objects objs i s) (\<lambda>(ds, s). Ok (d # ds, s)))"

fun encode_descriptors :: "(u64 \<times> router_descriptor) list \<Rightarrow> byte list list option" where
  "encode_descriptors [] = Some []"
| "encode_descriptors ((_, d) # ds) = do {
     b \<leftarrow> router_descriptor_encode d;
     bs \<leftarrow> encode_descriptors ds;
     Some (b # bs) }"

definition begin_proxying :: "flush \<Rightarrow> u64 \<Rightarrow> router_descriptor \<Rightarrow> u64 \<Rightarrow> node \<Rightarrow> node routing" where
  "begin_proxying fl rid d i s =
     (if rd_proxy_already_bypassed d then
        obind (get_router s rid ''begin_proxying for unknown router'') (\<lambda>r.
        case release_primary_link (ro_outward r) of
          (released, outward) \<Rightarrow>
          (case Option.bind released li_local_peer of
             None \<Rightarrow> Err (BadParcel ''with-local-peer transfer without a local peer'')
           | Some local_peer \<Rightarrow>
             let r = r\<lparr>ro_outward := outward\<rparr> in
             obind (if ro_disconnected r then Ok r
                    else
                    obind (ok_or (ro_inward r) (BadParcel ''no inward edge after with-local-peer serialization'')) (\<lambda>inward.
                    obind (from_option (set_primary_link inward
                             (remote_link i (rd_new_decaying_sublink d) PeripheralInward LinkA None))) (\<lambda>inward.
                    Ok (r\<lparr>ro_inward := Some inward\<rparr>)))) (\<lambda>r.
             obind (set_outward_link local_peer
                      (remote_link i (rd_new_sublink d) Central LinkA (Some (rd_new_link_state_fragment d))) (set_router s rid r)) (\<lambda>s.
             obind (fl rid True s) (fl local_peer True)))))
      else
        obind (get_router s rid ''begin_proxying for unknown router'') (\<lambda>r.
        obind (ok_or (ro_inward r) (BadParcel ''begin_proxying on a terminal router'')) (\<lambda>inward.
        let adopt = (pq_final (ro_outbound r) = None \<and> \<not> ro_disconnected r) in
        obind (if adopt
               then from_option (set_primary_link inward (remote_link i (rd_new_sublink d) PeripheralInward LinkA None))
               else Ok inward) (\<lambda>inward.
        let s = set_router s rid (r\<lparr>ro_inward := Some inward\<rparr>) in
        obind (case ed_primary (ro_outward r) of
                 None \<Rightarrow> Ok s
               | Some l \<Rightarrow>
                 (case li_link_state l of
                    None \<Rightarrow> Ok s
                  | Some state \<Rightarrow>
                    if edge_is_stable (ro_outward r) \<and> edge_is_stable inward
                    then obind (on_memory (li_link_id l) (\<lambda>m. run_status (set_side_stable True) m state) s) (\<lambda>(_, s). Ok s)
                    else Ok s)) (\<lambda>s.
        if adopt then fl rid False s else Ok s)))))"

fun begin_proxying_all :: "flush \<Rightarrow> (u64 \<times> router_descriptor) list \<Rightarrow> u64 \<Rightarrow> node \<Rightarrow> node routing" where
  "begin_proxying_all fl [] i s = Ok s"
| "begin_proxying_all fl ((rid, d) # ds) i s = obind (begin_proxying fl rid d i s) (begin_proxying_all fl ds i)"

section \<open>Transmitting\<close>

definition transmit_parcel :: "flush \<Rightarrow> link \<Rightarrow> parcel \<Rightarrow> node \<Rightarrow> node routing" where
  "transmit_parcel fl l p s =
     (case li_local_peer l of
        Some peer \<Rightarrow>
        let deliver = (\<lambda>accept.
          case nd_routers s peer of
            None \<Rightarrow> Err (BadParcel ''local delivery sequence gap'')
          | Some r \<Rightarrow>
            (case accept r p of
               (accepted, r) \<Rightarrow>
                 if \<not> accepted then Err (BadParcel ''local delivery sequence gap'')
                 else fl peer False (set_router s peer r))) in
        (case li_kind l of
           Central \<Rightarrow> deliver accept_inbound
         | Bridge \<Rightarrow> deliver accept_outbound
         | _ \<Rightarrow> Err (BadParcel ''peripheral local link''))
      | None \<Rightarrow>
        obind (serialize_objects (pa_objects p) (li_link_id l) s) (\<lambda>(serialized, s).
        obind (from_option (encode_descriptors serialized)) (\<lambda>new_routers.
        obind (send_link_message_on (li_link_id l)
                 (encode_accept_parcel_full (li_sublink l) (pa_sequence_number p) (pa_fragment p) (pa_data p)
                    (replicate (length serialized) HANDLE_PORTAL) new_routers []) s) (\<lambda>s.
        begin_proxying_all fl serialized (li_link_id l) s))))"

fun transmit_all :: "flush \<Rightarrow> (link \<times> parcel) list \<Rightarrow> node \<Rightarrow> node routing" where
  "transmit_all fl [] s = Ok s"
| "transmit_all fl ((l, p) # rest) s = obind (transmit_parcel fl l p s) (transmit_all fl rest)"

section \<open>Closing routes\<close>

definition router_route_closed_local :: "flush \<Rightarrow> u64 \<Rightarrow> link_kind \<Rightarrow> u64 \<Rightarrow> node \<Rightarrow> node routing" where
  "router_route_closed_local fl rid k len s =
     obind (get_router s rid ''route closed for unknown router'') (\<lambda>r.
     obind
       (if kind_is_outward k then
          (case set_final_sequence_length (ro_inbound r) len of
             (ok, q) \<Rightarrow>
               if \<not> ok then Err (BadParcel ''closure sequence regression'')
               else Ok (r\<lparr>ro_inbound := q,
                          ro_peer_closed := (if ro_inward r = None \<and> ro_bridge r = None then True else ro_peer_closed r)\<rparr>))
        else
          (case set_final_sequence_length (ro_outbound r) len of
             (ok, q) \<Rightarrow>
               if \<not> ok then Err (BadParcel ''closure sequence regression'')
               else Ok (if is_bridge k then r\<lparr>ro_outbound := q, ro_bridge := None\<rparr> else r\<lparr>ro_outbound := q\<rparr>)))
       (\<lambda>r. fl rid False (set_router s rid r)))"

definition deliver_route_closed :: "flush \<Rightarrow> link \<Rightarrow> u64 \<Rightarrow> node \<Rightarrow> node routing" where
  "deliver_route_closed fl l len s =
     (case li_local_peer l of
        Some peer \<Rightarrow> router_route_closed_local fl peer (li_kind l) len s
      | None \<Rightarrow> send_link_message_on (li_link_id l) (encode_route_closed (li_sublink l) len) s)"

section \<open>Bridge bypass\<close>

definition update_router :: "u64 \<Rightarrow> string \<Rightarrow> (router \<Rightarrow> router routing) \<Rightarrow> node \<Rightarrow> node routing" where
  "update_router rid missing f s =
     obind (get_router s rid missing) (\<lambda>r. obind (f r) (\<lambda>r. Ok (set_router s rid r)))"

text \<open>Beginning the decay of the outward or bridge edge of a router, with the lengths it is given.\<close>

definition decay_with :: "string \<Rightarrow> u64 option \<Rightarrow> u64 option \<Rightarrow> edge \<Rightarrow> edge routing" where
  "decay_with failed to from e = obind (decay_or failed e) (\<lambda>e. from_option (set_lengths to from e))"

definition decay_outward :: "u64 \<Rightarrow> string \<Rightarrow> string \<Rightarrow> u64 option \<Rightarrow> u64 option \<Rightarrow> node \<Rightarrow> node routing" where
  "decay_outward rid missing failed to from =
     update_router rid missing (\<lambda>r.
       obind (decay_with failed to from (ro_outward r)) (\<lambda>e. Ok (r\<lparr>ro_outward := e\<rparr>)))"

definition decay_bridge :: "u64 \<Rightarrow> string \<Rightarrow> string \<Rightarrow> string \<Rightarrow> u64 option \<Rightarrow> u64 option \<Rightarrow> node \<Rightarrow> node routing" where
  "decay_bridge rid missing no_bridge failed to from =
     update_router rid missing (\<lambda>r.
       obind (ok_or (ro_bridge r) (BadParcel no_bridge)) (\<lambda>b.
       obind (decay_with failed to from b) (\<lambda>b. Ok (r\<lparr>ro_bridge := Some b\<rparr>))))"

definition outbound_length_of :: "node \<Rightarrow> u64 \<Rightarrow> u64" where
  "outbound_length_of s rid = (case nd_routers s rid of None \<Rightarrow> 0 | Some r \<Rightarrow> outbound_length r)"

definition adopt_outward :: "u64 \<Rightarrow> string \<Rightarrow> link \<Rightarrow> node \<Rightarrow> node routing" where
  "adopt_outward rid missing l =
     update_router rid missing (\<lambda>r.
       obind (from_option (set_primary_link (ro_outward r) l)) (\<lambda>e. Ok (r\<lparr>ro_outward := e\<rparr>)))"

text \<open>A pair of local links whose shared state is a new cell of the node.\<close>

definition node_local_pair :: "link_kind \<Rightarrow> link_side \<Rightarrow> u64 \<Rightarrow> u64 \<Rightarrow> bool \<Rightarrow> node \<Rightarrow> (link \<times> link) \<times> node" where
  "node_local_pair k side a b initial_stable s =
     (case local_pair k side a b initial_stable (nd_cells s) of (ls, cells) \<Rightarrow> (ls, s\<lparr>nd_cells := cells\<rparr>))"

definition start_bridge_bypass_from_local_peer :: "flush \<Rightarrow> u64 \<Rightarrow> fragment \<Rightarrow> node \<Rightarrow> node routing" where
  "start_bridge_bypass_from_local_peer fl rid link_state s =
     (case nd_routers s rid of
        None \<Rightarrow> Ok s
      | Some r \<Rightarrow>
        if ro_bridge r = None \<or> \<not> bridge_stable r then Ok s
        else case (get_local_peer (ro_outward r), Option.bind (ro_bridge r) get_local_peer) of
          (Some local_peer, Some other_bridge) \<Rightarrow>
            obind (get_router s other_bridge ''bridge peer missing'') (\<lambda>other.
            obind (ok_or (ed_primary (ro_outward other)) (BadParcel ''bridge peer has no outward link'')) (\<lambda>remote.
            if is_local remote then Err (BadParcel ''bridge peer outward link is local'')
            else if fragment_is_null link_state then Err (BadParcel ''null link state for bridge bypass'')
            else
            let n = outbound_length_of s local_peer in
            obind (on_memory (li_link_id remote) (\<lambda>m. allocate_sublink_ids m 1) s) (\<lambda>(bypass_sublink, s).
            obind (decay_outward local_peer ''local peer missing'' ''failed to decay local peer's outward edge'' (Some n) None s) (\<lambda>s.
            obind (decay_outward other_bridge ''bridge peer missing'' ''failed to decay bridge peer's outward edge'' (Some n) None s) (\<lambda>s.
            obind (decay_bridge rid ''bridge router missing'' ''bridge missing'' ''failed to decay this bridge edge'' (Some n) None s) (\<lambda>s.
            obind (decay_outward rid ''bridge router missing'' ''failed to decay this outward edge'' None (Some n) s) (\<lambda>s.
            obind (decay_bridge other_bridge ''bridge peer missing'' ''bridge peer missing bridge''
                     ''failed to decay bridge peer's bridge edge'' None (Some n) s) (\<lambda>s.
            obind (send_link_message_on (li_link_id remote)
                     (encode_bypass_peer_with_link (li_sublink remote) bypass_sublink link_state n) s) (\<lambda>s.
            obind (set_outward_link local_peer
                     (remote_link (li_link_id remote) bypass_sublink Central LinkA (Some link_state)) s) (\<lambda>s.
            let s = own_sublink s (li_link_id remote) bypass_sublink local_peer in
            obind (fl rid False s) (\<lambda>s.
            obind (fl other_bridge False s) (fl local_peer False))))))))))))
        | _ \<Rightarrow> Ok s)"

text \<open>The three cases of a bridge bypass, once both outward links are locked.\<close>

definition decay_bridge_router :: "u64 \<Rightarrow> node \<Rightarrow> node routing" where
  "decay_bridge_router rid s =
     (case nd_routers s rid of
        None \<Rightarrow> Ok s
      | Some r \<Rightarrow>
        obind (decay_or ''failed to decay outward edge'' (ro_outward r)) (\<lambda>outward.
        obind (case ro_bridge r of
                 None \<Rightarrow> Ok None
               | Some b \<Rightarrow> obind (decay_or ''failed to decay bridge edge'' b) (\<lambda>b. Ok (Some b))) (\<lambda>bridge.
        Ok (set_router s rid (r\<lparr>ro_outward := outward, ro_bridge := bridge\<rparr>)))))"

definition bypass_between_remote_peers :: "u64 \<Rightarrow> u64 \<Rightarrow> link \<Rightarrow> link \<Rightarrow> node \<Rightarrow> node routing" where
  "bypass_between_remote_peers rid second first_link second_link s =
     obind (decay_bridge_router rid s) (\<lambda>s.
     obind (decay_bridge_router second s) (\<lambda>s.
     obind (remote_name_for s (li_link_id second_link)) (\<lambda>target.
     send_link_message_on (li_link_id first_link)
       (encode_bypass_peer (li_sublink first_link) target (li_sublink second_link)) s)))"

definition bypass_from_local_peer :: "flush \<Rightarrow> u64 \<Rightarrow> u64 \<Rightarrow> node \<Rightarrow> node routing" where
  "bypass_from_local_peer fl rid i s =
     obind (on_memory i try_allocate_link_state s) (\<lambda>(allocated, s).
     case allocated of
       None \<Rightarrow> request_block_capacity (of_nat ROUTER_LINK_STATE_SIZE) i s
     | Some link_state \<Rightarrow>
       obind (on_memory i (\<lambda>m. obind (add_link_state_ref m link_state) (\<lambda>m. Ok ((), m))) s) (\<lambda>(_, s).
       start_bridge_bypass_from_local_peer fl rid link_state s))"

definition bypass_between_local_peers :: "flush \<Rightarrow> u64 \<Rightarrow> u64 \<Rightarrow> u64 \<Rightarrow> u64 \<Rightarrow> node \<Rightarrow> node routing" where
  "bypass_between_local_peers fl rid second first_local second_local s =
     (let n1 = outbound_length_of s first_local; n2 = outbound_length_of s second_local in
      obind (decay_outward first_local ''bridge peer missing'' ''failed to decay first peer edge'' (Some n1) (Some n2) s) (\<lambda>s.
      obind (decay_outward second_local ''bridge peer missing'' ''failed to decay second peer edge'' (Some n2) (Some n1) s) (\<lambda>s.
      obind (decay_outward rid ''bridge router missing'' ''failed to decay this outward edge'' (Some n2) (Some n1) s) (\<lambda>s.
      obind (decay_outward second ''bridge peer missing'' ''failed to decay bridge peer edge'' (Some n1) (Some n2) s) (\<lambda>s.
      obind (decay_bridge rid ''bridge router missing'' ''bridge missing'' ''failed to decay this bridge edge''
               (Some n1) (Some n2) s) (\<lambda>s.
      obind (decay_bridge second ''bridge peer missing'' ''bridge peer missing bridge''
               ''failed to decay bridge peer's bridge edge'' (Some n2) (Some n1) s) (\<lambda>s.
      case node_local_pair Central LinkA first_local second_local True s of
        ((link_a, link_b), s) \<Rightarrow>
          obind (adopt_outward first_local ''bridge peer missing'' link_a s) (\<lambda>s.
          obind (adopt_outward second_local ''bridge peer missing'' link_b s) (\<lambda>s.
          obind (fl rid False s) (\<lambda>s.
          obind (fl second False s) (\<lambda>s.
          obind (fl first_local False s) (fl second_local False))))))))))))"

definition peer_node_of :: "node \<Rightarrow> link \<Rightarrow> node_name routing" where
  "peer_node_of s l = (if is_local l then Ok node_name_invalid else remote_name_for s (li_link_id l))"

definition maybe_start_bridge_bypass :: "flush \<Rightarrow> u64 \<Rightarrow> node \<Rightarrow> node routing" where
  "maybe_start_bridge_bypass fl rid s =
     (case nd_routers s rid of
        None \<Rightarrow> Ok s
      | Some r \<Rightarrow>
        if ro_bridge r = None \<or> \<not> bridge_stable r then Ok s
        else case Option.bind (ro_bridge r) get_local_peer of
          None \<Rightarrow> Ok s
        | Some second \<Rightarrow>
          (case (ed_primary (ro_outward r), Option.bind (nd_routers s second) (\<lambda>r. ed_primary (ro_outward r))) of
             (Some first_link, Some second_link) \<Rightarrow>
               obind (peer_node_of s first_link) (\<lambda>first_node.
               obind (peer_node_of s second_link) (\<lambda>second_node.
               obind (try_lock_link_for_bypass first_link second_node s) (\<lambda>(locked, s).
               if \<not> locked then Ok s
               else
               obind (try_lock_link_for_bypass second_link first_node s) (\<lambda>(locked, s).
               if \<not> locked then unlock_link_for_bypass first_link s
               else case (li_local_peer first_link, li_local_peer second_link) of
                 (None, None) \<Rightarrow> bypass_between_remote_peers rid second first_link second_link s
               | (Some _, None) \<Rightarrow> bypass_from_local_peer fl rid (li_link_id second_link) s
               | (None, Some _) \<Rightarrow> bypass_from_local_peer fl second (li_link_id first_link) s
               | (Some first_local, Some second_local) \<Rightarrow>
                   bypass_between_local_peers fl rid second first_local second_local s))))
           | _ \<Rightarrow> Ok s))"

section \<open>Flushing\<close>

text \<open>The first step: forwarding what the links of the router take.\<close>

definition flush_forward :: "flush \<Rightarrow> u64 \<Rightarrow> node \<Rightarrow> node routing" where
  "flush_forward fl rid s =
     obind (get_router s rid ''flush for unknown router'') (\<lambda>r.
     obind (from_option (collect_outbound r)) (\<lambda>(outbound, r).
     obind (from_option (if ro_inward r \<noteq> None then collect_inbound r else collect_bridge r)) (\<lambda>(inbound, r).
     obind (transmit_all fl outbound (set_router s rid r)) (transmit_all fl inbound))))"

text \<open>The second step: decays that are over.\<close>

definition flush_finish_decays :: "u64 \<Rightarrow> node \<Rightarrow> ((bool \<times> bool) \<times> node) routing" where
  "flush_finish_decays rid s =
     obind (get_router s rid ''flush for unknown router'') (\<lambda>r.
     obind (from_option (finish_decays (snd (finish_bridge_decay r)))) (\<lambda>((out_link, out_decayed, in_link, in_decayed), r).
     obind (release_opt out_link (set_router s rid r)) (\<lambda>s.
     obind (release_opt in_link s) (\<lambda>s.
     Ok ((out_decayed, in_decayed), s)))))"

text \<open>The third step: delivery to the portal of a terminal router.\<close>

function pop_all :: "parcel_queue \<Rightarrow> (parcel list \<times> parcel_queue) option" where
  "pop_all q =
     (case queue_pop q of
        None \<Rightarrow> None
      | Some (None, q') \<Rightarrow> Some ([], q')
      | Some (Some p, q') \<Rightarrow> map_option (\<lambda>(ps, q''). (p # ps, q'')) (pop_all q'))"
  by auto

termination pop_all
proof (relation "measure (\<lambda>q. fcard (fmdom (pq_buffer q)))")
  fix q x xo q' p
  assume "queue_pop q = Some x" "(xo, q') = x" "xo = Some p"
  then have "pq_buffer q' = fmdrop (pq_current q) (pq_buffer q)" "pq_current q |\<in>| fmdom (pq_buffer q)"
    by (auto simp: queue_pop_def fmdomI split: option.splits bind_splits)
  then show "(q', q) \<in> measure (\<lambda>q. fcard (fmdom (pq_buffer q)))"
    using fcard_fminus1_less [of "pq_current q" "fmdom (pq_buffer q)"] by simp
qed simp

declare pop_all.simps [simp del]

definition deliver_to_portal :: "bool \<Rightarrow> router \<Rightarrow> router option" where
  "deliver_to_portal keep_queued r =
     (case ro_portal r of
        None \<Rightarrow> Some r
      | Some portal \<Rightarrow>
        if keep_queued \<or> ro_inward r \<noteq> None then Some r
        else map_option (\<lambda>(ps, q). r\<lparr>ro_inbound := q, ro_portal := Some (portal @ map (\<lambda>p. (pa_data p, pa_objects p)) ps)\<rparr>)
               (pop_all (ro_inbound r)))"

definition without_links :: "router \<Rightarrow> bool" where
  "without_links r \<longleftrightarrow> ro_inward r \<noteq> None \<and> ed_primary (ro_outward r) = None \<and> ed_decaying (ro_outward r) = None"

definition flush_deliver :: "u64 \<Rightarrow> node \<Rightarrow> (bool \<times> node) routing" where
  "flush_deliver rid s =
     obind (get_router s rid ''flush for unknown router'') (\<lambda>r.
     obind (from_option (deliver_to_portal (nd_keep_queued s) r)) (\<lambda>r.
     Ok (without_links r, set_router s rid r)))"

text \<open>The conditions a flush captures at its start.\<close>

record flush_start =
  fs_on_central :: bool
  fs_had_decaying_outward :: bool
  fs_had_decaying_inward :: bool

definition flush_start_of :: "router \<Rightarrow> flush_start" where
  "flush_start_of r = \<lparr>fs_on_central = on_central_link r, fs_had_decaying_outward = outward_has_decaying r,
     fs_had_decaying_inward = inward_has_decaying r\<rparr>"

text \<open>The fourth step: marking the side of the central link stable; the result says whether it did.\<close>

definition flush_mark_stable :: "u64 \<Rightarrow> flush_start \<Rightarrow> bool \<Rightarrow> bool \<Rightarrow> node \<Rightarrow> (bool \<times> node) routing" where
  "flush_mark_stable rid st out_decayed in_decayed s =
     obind (get_router s rid ''flush for unknown router'') (\<lambda>r.
     let outward_stable = (ed_primary (ro_outward r) \<noteq> None \<and> (\<not> fs_had_decaying_outward st \<or> out_decayed));
         inward_stable = (ro_inward r \<noteq> None \<longrightarrow> \<not> fs_had_decaying_inward st \<or> in_decayed) in
     case ed_primary (ro_outward r) of
       None \<Rightarrow> Ok (False, s)
     | Some l \<Rightarrow>
       if fs_on_central st \<and> (out_decayed \<or> in_decayed) \<and> outward_stable \<and> inward_stable
       then obind (mark_side_stable_on_link l s) (\<lambda>s. Ok (True, s))
       else Ok (False, s))"

text \<open>The fifth step: the closures to propagate, and whether the outward link is dead.\<close>

definition closure_of_outbound :: "bool \<Rightarrow> router \<Rightarrow> (link \<times> u64) option \<times> bool \<times> router" where
  "closure_of_outbound on_central r =
     (if on_central \<and> is_sequence_fully_consumed (ro_outbound r) then
        (case (ed_primary (ro_outward r), pq_final (ro_outbound r)) of
           (Some primary, Some n) \<Rightarrow> (Some (primary, n), False, r)
         | _ \<Rightarrow> (None, False, r))
      else if \<not> expects_more_elements (ro_inbound r) \<and> ed_primary (ro_outward r) \<noteq> None
      then (None, True, r\<lparr>ro_outward := snd (release_primary_link (ro_outward r))\<rparr>)
      else (None, False, r))"

definition closure_of_inbound :: "router \<Rightarrow> (link \<times> u64) option \<times> router" where
  "closure_of_inbound r =
     (if \<not> is_sequence_fully_consumed (ro_inbound r) then (None, r)
      else case pq_final (ro_inbound r) of
        None \<Rightarrow> (None, r)
      | Some n \<Rightarrow>
        (case ro_inward r of
           Some inward \<Rightarrow>
             (case release_primary_link inward of
                (l, inward) \<Rightarrow> (map_option (\<lambda>l. (l, n)) l, r\<lparr>ro_inward := Some inward\<rparr>))
         | None \<Rightarrow>
             (case bridge_link r of
                None \<Rightarrow> (None, r)
              | Some l \<Rightarrow> (Some (l, n), r\<lparr>ro_bridge := None\<rparr>))))"

definition flush_closure ::
  "u64 \<Rightarrow> bool \<Rightarrow> node \<Rightarrow> (((link \<times> u64) option \<times> (link \<times> u64) option \<times> bool) \<times> node) routing" where
  "flush_closure rid on_central s =
     obind (get_router s rid ''flush for unknown router'') (\<lambda>r.
     case closure_of_outbound on_central r of (to_lock, dead, r) \<Rightarrow>
     case closure_of_inbound r of (forward_closed, r) \<Rightarrow>
     let s = set_router s rid r in
     case to_lock of
       None \<Rightarrow> Ok ((None, forward_closed, dead), s)
     | Some (l, n) \<Rightarrow>
       obind (try_lock_link_for_closure l s) (\<lambda>(locked, s).
       if \<not> locked then Ok ((None, forward_closed, dead), s)
       else Ok ((Some (l, n), forward_closed, True),
         case nd_routers s rid of
           None \<Rightarrow> s
         | Some r \<Rightarrow> set_router s rid (r\<lparr>ro_outward := snd (release_primary_link (ro_outward r))\<rparr>))))"

text \<open>The sixth step: a bridge bypass.\<close>

definition flush_bypass :: "flush \<Rightarrow> u64 \<Rightarrow> flush_start \<Rightarrow> bool \<Rightarrow> bool \<Rightarrow> node \<Rightarrow> node routing" where
  "flush_bypass fl rid st out_decayed in_decayed s =
     obind (get_router s rid ''flush for unknown router'') (\<lambda>r.
     let has_stable_outward = (ed_primary (ro_outward r) \<noteq> None \<and> (\<not> fs_had_decaying_outward st \<or> out_decayed));
         has_no_inward = (ro_inward r = None \<and> (\<not> fs_had_decaying_inward st \<or> in_decayed)) in
     if ro_bridge r \<noteq> None \<and> has_stable_outward \<and> has_no_inward then maybe_start_bridge_bypass fl rid s else Ok s)"

definition deliver_closed_opt :: "flush \<Rightarrow> (link \<times> u64) option \<Rightarrow> node \<Rightarrow> node routing" where
  "deliver_closed_opt fl c s = (case c of None \<Rightarrow> Ok s | Some (l, n) \<Rightarrow> deliver_route_closed fl l n s)"

definition router_flush_with :: "flush \<Rightarrow> u64 \<Rightarrow> bool \<Rightarrow> node \<Rightarrow> node routing" where
  "router_flush_with fl rid force s =
     obind (get_router s rid ''flush for unknown router'') (\<lambda>r.
     let st = flush_start_of r in
     obind (flush_forward fl rid s) (\<lambda>s.
     obind (flush_finish_decays rid s) (\<lambda>((out_decayed, in_decayed), s).
     obind (flush_deliver rid s) (\<lambda>(drop, s).
     if drop then remove_router rid s
     else
     obind (flush_mark_stable rid st out_decayed in_decayed s) (\<lambda>(marked, s).
     obind (flush_closure rid (fs_on_central st) s) (\<lambda>((route_closed, forward_closed, dead), s).
     obind (flush_bypass fl rid st out_decayed in_decayed s) (\<lambda>s.
     obind (deliver_closed_opt fl route_closed s) (\<lambda>s.
     obind (deliver_closed_opt fl forward_closed s) (\<lambda>s.
     if dead \<or> \<not> fs_on_central st \<or> (\<not> marked \<and> \<not> force) then Ok s
     else case Option.bind (nd_routers s rid) (\<lambda>r. ed_primary (ro_outward r)) of
       None \<Rightarrow> Ok s
     | Some l \<Rightarrow> flush_other_side_if_waiting fl l s)))))))))"

fun router_flush :: "nat \<Rightarrow> flush" where
  "router_flush 0 rid force s = Panic"
| "router_flush (Suc depth) rid force s = router_flush_with (router_flush depth) rid force s"

end
