(* ===== verification/RoutingMessages.thy ===== *)
theory RoutingMessages
  imports Routing
begin

text \<open>
  The routing acceptor, part two: the operations of \<open>crates/mojo-rs-interop/src/ipcz/routing.rs\<close> that portals and
  received messages start - sending, closing, deserialising routers, bypassing proxies, introductions,
  memory, referrals - and the dispatch of a decoded message.  An operation that flushes takes the flush
  as an argument; one that replays early parcels takes the acceptance of a parcel.  What the
  descriptors of a message stand for is an environment \<open>fd_env\<close>.
\<close>

section \<open>Portals\<close>

text \<open>Sending from a portal, opening a pair, closing.\<close>

definition router_put ::
  "flush \<Rightarrow> u64 \<Rightarrow> byte list \<Rightarrow> parcel_object list \<Rightarrow> node \<Rightarrow> (fragment option \<times> node) routing" where
  "router_put fl rid data objects s =
     obind (get_router s rid ''put for unknown router'') (\<lambda>r.
     let seq = pq_current (ro_outbound r);
         primary = ed_primary (ro_outward r);
         use_fragment = (data \<noteq> [] \<and> (case primary of None \<Rightarrow> False | Some l \<Rightarrow> \<not> is_local l));
         fragment_link = (case primary of None \<Rightarrow> LINK_ID_BROKER | Some l \<Rightarrow> li_link_id l) in
     obind (if use_fragment then write_parcel_fragment_or_inline data fragment_link s else Ok (None, s)) (\<lambda>(f, s).
     obind (get_router s rid ''put for unknown router'') (\<lambda>r.
     case push_outbound r \<lparr>pa_sequence_number = seq, pa_data = data, pa_objects = objects, pa_fragment = f\<rparr> of
       (accepted, r) \<Rightarrow>
         if \<not> accepted then Err (BadParcel ''outbound sequence regression'')
         else obind (fl rid False (set_router s rid r)) (\<lambda>s. Ok (f, s)))))"

definition open_portals :: "node \<Rightarrow> ((u64 \<times> u64) \<times> node) routing" where
  "open_portals s =
     (let a = nd_next_rid s in
      obind (from_option (succ64 a)) (\<lambda>b.
      obind (from_option (succ64 b)) (\<lambda>next_rid.
      case node_local_pair Central LinkA a b True (s\<lparr>nd_next_rid := next_rid\<rparr>) of
        ((link_a, link_b), s) \<Rightarrow>
          Ok ((a, b), set_router (set_router s a (new_terminal link_a)) b (new_terminal link_b)))))"

definition close_route :: "flush \<Rightarrow> u64 \<Rightarrow> node \<Rightarrow> node routing" where
  "close_route fl rid s =
     obind (get_router s rid ''close for unknown router'') (\<lambda>r.
     if ro_inward r \<noteq> None then Err (BadParcel ''closing a proxy'')
     else case set_final_sequence_length (ro_outbound r) (pq_current (ro_outbound r)) of
       (ok, q) \<Rightarrow>
         if \<not> ok then Err (BadParcel ''close sequence regression'')
         else fl rid False (set_router s rid (r\<lparr>ro_outbound := q\<rparr>)))"

section \<open>Closures and disconnection\<close>

definition router_route_closed :: "flush \<Rightarrow> u64 \<Rightarrow> u64 \<Rightarrow> u64 \<Rightarrow> node \<Rightarrow> node routing" where
  "router_route_closed fl rid sublink len s =
     obind (get_router s rid ''route closed for unknown router'') (\<lambda>r.
     if list_ex (\<lambda>l. li_sublink l = sublink) (edge_links (ro_outward r)) then
       (case set_final_sequence_length (ro_inbound r) len of
          (ok, q) \<Rightarrow>
            if ok then fl rid False (set_router s rid (r\<lparr>ro_inbound := q, ro_peer_closed := True\<rparr>))
            else if (case pq_final (ro_inbound r) of None \<Rightarrow> False | Some n \<Rightarrow> n \<le> len) then Ok s
            else Err (BadParcel ''closure sequence regression''))
     else
       (case set_final_sequence_length (ro_outbound r) len of
          (ok, q) \<Rightarrow>
            if ok then fl rid False (set_router s rid (r\<lparr>ro_outbound := q\<rparr>))
            else Err (BadParcel ''closure sequence regression'')))"

definition drop_links :: "edge \<Rightarrow> edge" where
  "drop_links e = snd (release_decaying_link (snd (release_primary_link e)))"

definition disconnect_router :: "router \<Rightarrow> router" where
  "disconnect_router r =
     (let inbound = snd (set_final_sequence_length (ro_inbound r) (pq_current (ro_inbound r)));
          r = r\<lparr>ro_disconnected := True, ro_outward := drop_links (ro_outward r), ro_peer_closed := True, ro_inbound := inbound\<rparr> in
      case ro_inward r of
        Some e \<Rightarrow> r\<lparr>ro_inward := Some (drop_links e)\<rparr>
      | None \<Rightarrow> r\<lparr>ro_bridge := map_option drop_links (ro_bridge r)\<rparr>)"

definition router_disconnected :: "u64 \<Rightarrow> node \<Rightarrow> node routing" where
  "router_disconnected rid s =
     obind (get_router s rid ''disconnect for unknown router'') (\<lambda>r.
     remove_router rid (set_router s rid (disconnect_router r)))"

section \<open>The end of a proxy\<close>

definition router_stop_proxying :: "flush \<Rightarrow> u64 \<Rightarrow> u64 \<Rightarrow> u64 \<Rightarrow> node \<Rightarrow> node routing" where
  "router_stop_proxying fl rid in_length out_length s =
     obind (get_router s rid ''stop proxying for unknown router'') (\<lambda>r.
     if edge_is_stable (ro_outward r) then Err (BadParcel ''StopProxying on a non-proxy'')
     else
     obind (ok_or (ro_inward r) (BadParcel ''StopProxying on a terminal router'')) (\<lambda>inward.
     if edge_is_stable inward then Err (BadParcel ''StopProxying with stable inward edge'')
     else if length_to_decaying_link inward \<noteq> None \<or> length_from_decaying_link inward \<noteq> None \<or>
             length_to_decaying_link (ro_outward r) \<noteq> None \<or> length_from_decaying_link (ro_outward r) \<noteq> None
     then Err (BadParcel ''StopProxying with set lengths'')
     else
     obind (from_option (set_lengths (Some in_length) (Some out_length) inward)) (\<lambda>inward.
     obind (from_option (set_lengths (Some out_length) (Some in_length) (ro_outward r))) (\<lambda>outward.
     fl rid False (set_router s rid (r\<lparr>ro_inward := Some inward, ro_outward := outward\<rparr>))))))"

text \<open>Setting lengths on an edge of a router that may be gone.\<close>

definition set_outward_lengths :: "u64 \<Rightarrow> u64 option \<Rightarrow> u64 option \<Rightarrow> node \<Rightarrow> node routing" where
  "set_outward_lengths rid to from s =
     (case nd_routers s rid of
        None \<Rightarrow> Ok s
      | Some r \<Rightarrow>
        obind (from_option (set_lengths to from (ro_outward r))) (\<lambda>e. Ok (set_router s rid (r\<lparr>ro_outward := e\<rparr>))))"

definition set_inward_lengths :: "u64 \<Rightarrow> u64 option \<Rightarrow> u64 option \<Rightarrow> node \<Rightarrow> node routing" where
  "set_inward_lengths rid to from s =
     (case nd_routers s rid of
        None \<Rightarrow> Ok s
      | Some r \<Rightarrow>
        (case ro_inward r of
           None \<Rightarrow> Ok s
         | Some e \<Rightarrow>
           obind (from_option (set_lengths to from e)) (\<lambda>e. Ok (set_router s rid (r\<lparr>ro_inward := Some e\<rparr>)))))"

definition set_bridge_lengths :: "u64 \<Rightarrow> u64 option \<Rightarrow> u64 option \<Rightarrow> node \<Rightarrow> node routing" where
  "set_bridge_lengths rid to from s =
     (case nd_routers s rid of
        None \<Rightarrow> Ok s
      | Some r \<Rightarrow>
        (case ro_bridge r of
           None \<Rightarrow> Ok s
         | Some e \<Rightarrow>
           obind (from_option (set_lengths to from e)) (\<lambda>e. Ok (set_router s rid (r\<lparr>ro_bridge := Some e\<rparr>)))))"

definition no_length_to :: "edge option \<Rightarrow> bool" where
  "no_length_to e = (case e of None \<Rightarrow> True | Some e \<Rightarrow> length_to_decaying_link e = None)"

definition no_length_from :: "edge option \<Rightarrow> bool" where
  "no_length_from e = (case e of None \<Rightarrow> True | Some e \<Rightarrow> length_from_decaying_link e = None)"

text \<open>The recipient and its decaying local peer.\<close>

definition stop_proxying_with_peer :: "flush \<Rightarrow> u64 \<Rightarrow> u64 \<Rightarrow> u64 \<Rightarrow> node \<Rightarrow> node routing" where
  "stop_proxying_with_peer fl rid local_peer n s =
     obind (get_router s rid ''stop proxying for unknown router'') (\<lambda>this.
     case nd_routers s local_peer of
       None \<Rightarrow> Ok s
     | Some peer \<Rightarrow>
       (case (edge_decaying_link (ro_outward this), edge_decaying_link (ro_outward peer)) of
          (Some our_link, Some peer_link) \<Rightarrow>
            if \<not> (is_local our_link \<and> is_local peer_link \<and> li_local_peer our_link = Some local_peer \<and>
                  li_local_peer peer_link = Some rid \<and> ro_inward this \<noteq> None \<and>
                  length_from_decaying_link (ro_outward peer) = None \<and>
                  length_to_decaying_link (ro_outward this) = None \<and> no_length_from (ro_inward this))
            then Err (BadParcel ''invalid proxy'')
            else
            obind (set_outward_lengths local_peer None (Some n) s) (\<lambda>s.
            obind (set_outward_lengths rid (Some n) None s) (\<lambda>s.
            obind (set_inward_lengths rid None (Some n) s) (\<lambda>s.
            obind (fl rid False s) (fl local_peer False))))
        | _ \<Rightarrow> Ok s))"

text \<open>The recipient, its bridge peer, and the decaying local peer of that one.\<close>

definition stop_proxying_with_bridge :: "flush \<Rightarrow> u64 \<Rightarrow> u64 \<Rightarrow> u64 \<Rightarrow> node \<Rightarrow> node routing" where
  "stop_proxying_with_bridge fl rid bridge_peer n s =
     obind (get_router s bridge_peer ''bridge peer missing'') (\<lambda>bp.
     if edge_is_stable (ro_outward bp) then Err (BadParcel ''invalid bridge peer'')
     else
     obind (ok_or (get_decaying_local_peer (ro_outward bp)) (BadParcel ''bridge peer has no decaying local peer'')) (\<lambda>local_peer.
     obind (get_router s rid ''stop proxying for unknown router'') (\<lambda>this.
     case nd_routers s local_peer of
       None \<Rightarrow> Ok s
     | Some peer \<Rightarrow>
       if \<not> (\<not> edge_is_stable (ro_outward this) \<and> \<not> edge_is_stable (ro_outward peer) \<and>
             \<not> edge_is_stable (ro_outward bp) \<and>
             length_from_decaying_link (ro_outward peer) = None \<and> length_from_decaying_link (ro_outward this) = None \<and>
             no_length_to (ro_bridge this) \<and> length_to_decaying_link (ro_outward bp) = None \<and> no_length_from (ro_bridge bp))
       then Err (BadParcel ''invalid bridge proxy'')
       else
       obind (set_outward_lengths local_peer None (Some n) s) (\<lambda>s.
       obind (set_outward_lengths rid None (Some n) s) (\<lambda>s.
       obind (set_bridge_lengths rid (Some n) None s) (\<lambda>s.
       obind (set_outward_lengths bridge_peer (Some n) None s) (\<lambda>s.
       obind (set_bridge_lengths bridge_peer None (Some n) s) (\<lambda>s.
       obind (fl rid False s) (\<lambda>s.
       obind (fl local_peer False s) (fl bridge_peer False))))))))))"

definition router_stop_proxying_to_local_peer :: "flush \<Rightarrow> u64 \<Rightarrow> u64 \<Rightarrow> node \<Rightarrow> node routing" where
  "router_stop_proxying_to_local_peer fl rid n s =
     obind (get_router s rid ''stop proxying for unknown router'') (\<lambda>r.
     let (bridge_peer, local_peer) =
           (case ro_bridge r of
              Some b \<Rightarrow> (get_decaying_local_peer b, None)
            | None \<Rightarrow> (None, Option.bind (edge_decaying_link (ro_outward r)) li_local_peer)) in
     case local_peer of
       Some local_peer \<Rightarrow>
         if bridge_peer \<noteq> None then Err (BadParcel ''ambiguous local peers'')
         else stop_proxying_with_peer fl rid local_peer n s
     | None \<Rightarrow>
       (case bridge_peer of
          Some bridge_peer \<Rightarrow> stop_proxying_with_bridge fl rid bridge_peer n s
        | None \<Rightarrow>
          if ro_disconnected r then Ok s else Err (BadParcel ''no local peer for StopProxyingToLocalPeer'')))"

definition router_proxy_will_stop :: "flush \<Rightarrow> u64 \<Rightarrow> u64 \<Rightarrow> node \<Rightarrow> node routing" where
  "router_proxy_will_stop fl rid n s =
     obind (get_router s rid ''proxy-will-stop for unknown router'') (\<lambda>r.
     if edge_is_stable (ro_outward r) then
       (if ro_disconnected r then Ok s else Err (BadParcel ''proxy-will-stop at a stable outward edge''))
     else if length_from_decaying_link (ro_outward r) \<noteq> None then Err (BadParcel ''proxy-will-stop length already set'')
     else
     obind (from_option (set_lengths None (Some n) (ro_outward r))) (\<lambda>e.
     fl rid False (set_router s rid (r\<lparr>ro_outward := e\<rparr>))))"

section \<open>Proxy bypass\<close>

definition link_id_for_node :: "node \<Rightarrow> node_name \<Rightarrow> u64 option" where
  "link_id_for_node s name =
     (if name = nd_broker_name s then Some LINK_ID_BROKER
      else if node_name_is_valid (nd_referrer_name s) \<and> name = nd_referrer_name s then Some LINK_ID_DIRECT
      else find (\<lambda>i. i \<noteq> LINK_ID_BROKER \<and> (case nd_links s i of None \<Rightarrow> False | Some l \<Rightarrow> nl_remote_name l = name))
             (nd_link_order s))"

definition bypass_peer_with_new_remote_link :: "flush \<Rightarrow> u64 \<Rightarrow> u64 \<Rightarrow> u64 \<Rightarrow> u64 \<Rightarrow> node \<Rightarrow> node routing" where
  "bypass_peer_with_new_remote_link fl rid requestor_link_id target_sublink target_link_id s =
     obind (remote_name_for s requestor_link_id) (\<lambda>requestor_node.
     obind (on_memory target_link_id try_allocate_link_state s) (\<lambda>(allocated, s).
     case allocated of
       None \<Rightarrow> Ok s
     | Some link_state \<Rightarrow>
       obind (on_memory target_link_id (\<lambda>m. obind (add_link_state_ref m link_state) (\<lambda>m. Ok ((), m))) s) (\<lambda>(_, s).
       obind (on_memory target_link_id (\<lambda>m. allocate_sublink_ids m 1) s) (\<lambda>(new_sublink, s).
       obind (get_router s rid ''bypass for unknown router'') (\<lambda>r.
       let n = pq_current (ro_outbound r) in
       if ro_disconnected r then Ok s
       else
       obind (decay_with ''failed to decay the outward link'' (Some n) None (ro_outward r)) (\<lambda>e.
       obind (send_link_message_on target_link_id
                (encode_accept_bypass_link requestor_node target_sublink n new_sublink link_state)
                (set_router s rid (r\<lparr>ro_outward := e\<rparr>))) (\<lambda>s.
       obind (set_outward_link rid (remote_link target_link_id new_sublink Central LinkA (Some link_state))
                (own_sublink s target_link_id new_sublink rid)) (\<lambda>s.
       fl rid True s))))))))"

definition complete_pending_intro :: "flush \<Rightarrow> node_name \<Rightarrow> pending_intro \<Rightarrow> node \<Rightarrow> node routing" where
  "complete_pending_intro fl name request s =
     (case link_id_for_node s name of
        None \<Rightarrow> router_disconnected (pi_rid request) s
      | Some target_link_id \<Rightarrow>
        bypass_peer_with_new_remote_link fl (pi_rid request) (pi_requestor_link_id request)
          (pi_bypass_target_sublink request) target_link_id s)"

fun complete_all :: "flush \<Rightarrow> node_name \<Rightarrow> pending_intro list \<Rightarrow> node \<Rightarrow> node routing" where
  "complete_all fl name [] s = Ok s"
| "complete_all fl name (p # ps) s = obind (complete_pending_intro fl name p s) (complete_all fl name ps)"

definition take_pending_intros :: "node_name \<Rightarrow> node \<Rightarrow> pending_intro list \<times> node" where
  "take_pending_intros name s =
     ((case nd_pending_intros s name of None \<Rightarrow> [] | Some ps \<Rightarrow> ps),
      s\<lparr>nd_pending_intros := (nd_pending_intros s)(name := None)\<rparr>)"

definition establish_link :: "flush \<Rightarrow> node_name \<Rightarrow> pending_intro \<Rightarrow> node \<Rightarrow> node routing" where
  "establish_link fl name request s =
     (if link_id_for_node s name \<noteq> None then complete_pending_intro fl name request s
      else
      let pending = (case nd_pending_intros s name of None \<Rightarrow> [] | Some ps \<Rightarrow> ps);
          s = s\<lparr>nd_pending_intros := (nd_pending_intros s)(name \<mapsto> pending @ [request])\<rparr> in
      if pending = [] then send_link_message_on LINK_ID_BROKER (encode_request_introduction name) s else Ok s)"

definition router_bypass_peer :: "flush \<Rightarrow> u64 \<Rightarrow> u64 \<Rightarrow> node_name \<Rightarrow> u64 \<Rightarrow> node \<Rightarrow> node routing" where
  "router_bypass_peer fl rid requestor_link_id target_node target_sublink s =
     obind (get_router s rid ''bypass for unknown router'') (\<lambda>r.
     case ed_primary (ro_outward r) of
       None \<Rightarrow> Ok s
     | Some primary \<Rightarrow>
       if li_link_id primary \<noteq> requestor_link_id then Err (BadParcel ''rejecting BypassPeer from a non-outward peer'')
       else if target_node = nd_local_name s
       then Err (Unsupported MSG_ID_BYPASS_PEER ''BypassPeerWithNewLocalLink not exercised by a sealed court'')
       else case link_id_for_node s target_node of
         Some target_link_id \<Rightarrow>
           bypass_peer_with_new_remote_link fl rid requestor_link_id target_sublink target_link_id s
       | None \<Rightarrow>
           establish_link fl target_node
             \<lparr>pi_rid = rid, pi_requestor_link_id = requestor_link_id, pi_requestor_sublink = li_sublink primary,
              pi_bypass_target_sublink = target_sublink\<rparr> s)"

text \<open>Replacing the decaying outward link of a router by the central link of a bypass.\<close>

definition replace_outward ::
  "u64 \<Rightarrow> u64 \<Rightarrow> u64 \<Rightarrow> fragment \<Rightarrow> u64 \<Rightarrow> router \<Rightarrow> node \<Rightarrow> node routing" where
  "replace_outward rid i new_sublink link_state len_from r s =
     obind (decay_with ''failure to decay link'' (Some (pq_current (ro_outbound r))) (Some len_from) (ro_outward r)) (\<lambda>e.
     obind (from_option (set_primary_link e (remote_link i new_sublink Central LinkB (Some link_state)))) (\<lambda>e.
     Ok (own_sublink (set_router s rid (r\<lparr>ro_outward := e\<rparr>)) i new_sublink rid)))"

definition on_accept_bypass_link :: "flush \<Rightarrow> accept_bypass_link \<Rightarrow> u64 \<Rightarrow> node \<Rightarrow> node routing" where
  "on_accept_bypass_link fl al new_link_id s =
     (case link_id_for_node s (al_current_peer_node al) of
        None \<Rightarrow> Ok s
      | Some old_link_id \<Rightarrow>
        (case nd_owners s (old_link_id, al_current_peer_sublink al) of
           None \<Rightarrow> Ok s
         | Some rid \<Rightarrow>
           obind (memory_for s new_link_id) (\<lambda>m.
           obind (map_err RMemory (fragment_view m (al_new_link_state_fragment al))) (\<lambda>_.
           obind (get_router s rid ''bypass for unknown router'') (\<lambda>r.
           case ed_primary (ro_outward r) of
             None \<Rightarrow> Ok s
           | Some old \<Rightarrow>
             if ro_disconnected r then Ok s
             else if is_local old then Err (BadParcel ''unexpected bypass at a local link'')
             else
             obind
               (if li_link_id old = new_link_id then Ok ()
                else
                obind (ok_or (li_link_state old) (BadParcel ''bypass source link without state'')) (\<lambda>state.
                obind (memory_for s (li_link_id old)) (\<lambda>m.
                obind (map_err RMemory (read_allowed_bypass_source m state)) (\<lambda>allowed.
                obind (remote_name_for s new_link_id) (\<lambda>name.
                if allowed \<noteq> name then Err (BadParcel ''unauthorized BypassProxy'') else Ok ()))))) (\<lambda>_.
             obind (replace_outward rid new_link_id (al_new_sublink al) (al_new_link_state_fragment al)
                      (al_inbound_sequence_length al) r s) (\<lambda>s.
             let n = pq_current (ro_outbound r) in
             obind
               (if old_link_id \<noteq> new_link_id then
                  obind (send_link_message_on old_link_id
                           (encode_stop_proxying (li_sublink old) n (al_inbound_sequence_length al)) s)
                    (send_link_message_on new_link_id (encode_proxy_will_stop (al_new_sublink al) n))
                else send_link_message_on old_link_id (encode_stop_proxying_to_local_peer (li_sublink old) n) s) (\<lambda>s.
             fl rid False s))))))))"

section \<open>Accepting parcels\<close>

text \<open>The outcome for the caller: the payload and the routers of the portals; and the acceptance to call for early parcels.\<close>

type_synonym processed = "byte list \<times> u64 list"
type_synonym acceptance = "accept_parcel \<Rightarrow> fd list \<Rightarrow> u64 \<Rightarrow> node \<Rightarrow> (processed \<times> node) routing"

definition parcel_data :: "node \<Rightarrow> accept_parcel \<Rightarrow> u64 \<Rightarrow> byte list routing" where
  "parcel_data s p i =
     (if fragment_is_null (ap_parcel_fragment p) then Ok (ap_parcel_data p)
      else obind (memory_for s i) (\<lambda>m. map_err RMemory (read_parcel_fragment m (ap_parcel_fragment p))))"

fun accept_all :: "acceptance \<Rightarrow> (accept_parcel \<times> fd list \<times> u64) list \<Rightarrow> node \<Rightarrow> node routing" where
  "accept_all acc [] s = Ok s"
| "accept_all acc ((p, fds, i) # ps) s = obind (acc p fds i s) (\<lambda>(_, s). accept_all acc ps s)"

definition early_for :: "u64 \<Rightarrow> u64 \<Rightarrow> node \<Rightarrow> accept_parcel list \<times> node" where
  "early_for i sublink s =
     ((case nd_early s (i, sublink) of None \<Rightarrow> [] | Some ps \<Rightarrow> ps), s\<lparr>nd_early := (nd_early s)((i, sublink) := None)\<rparr>)"

text \<open>The parcels are replayed without the descriptors they came with.\<close>

definition replay :: "acceptance \<Rightarrow> u64 \<Rightarrow> accept_parcel list \<Rightarrow> node \<Rightarrow> node routing" where
  "replay acc i ps = accept_all acc (map (\<lambda>p. (p, [], i)) ps)"

definition deserialized_outward :: "router_descriptor \<Rightarrow> u64 \<Rightarrow> fragment option \<Rightarrow> edge option" where
  "deserialized_outward d i link_state =
     (if rd_proxy_already_bypassed d then do {
        e \<leftarrow> set_primary_link edge_default (remote_link i (rd_new_decaying_sublink d) PeripheralOutward LinkB None);
        e \<leftarrow> set_lengths (Some (rd_next_outgoing_sequence_number d))
               (Some (if rd_decaying_incoming_sequence_length d > 0 then rd_decaying_incoming_sequence_length d
                      else rd_next_incoming_sequence_number d)) (begin_decay e);
        set_primary_link e (remote_link i (rd_new_sublink d) Central LinkB link_state) }
      else set_primary_link edge_default (remote_link i (rd_new_sublink d) PeripheralOutward LinkB None))"

definition deserialized_link_state :: "router_descriptor \<Rightarrow> u64 \<Rightarrow> node \<Rightarrow> fragment option routing" where
  "deserialized_link_state d i s =
     (if rd_proxy_already_bypassed d then
        (if fragment_is_null (rd_new_link_state_fragment d) then Err (BadParcel ''central link without link state'')
         else
         obind (memory_for s i) (\<lambda>m.
         obind (map_err RMemory (fragment_view m (rd_new_link_state_fragment d))) (\<lambda>_.
         Ok (Some (rd_new_link_state_fragment d)))))
      else if fragment_is_null (rd_new_link_state_fragment d) then Ok None
      else Err (BadParcel ''peripheral link with link state''))"

definition deserialized_router :: "router_descriptor \<Rightarrow> u64 \<Rightarrow> fragment option \<Rightarrow> router routing" where
  "deserialized_router d i link_state =
     (let inbound = reset_sequence queue_new (rd_next_incoming_sequence_number d);
          r = bare_router\<lparr>ro_outbound := reset_sequence queue_new (rd_next_outgoing_sequence_number d),
                          ro_inbound := inbound\<rparr> in
      obind
        (if \<not> rd_peer_closed d then Ok r
         else case set_final_sequence_length inbound (rd_closed_peer_sequence_length d) of
           (ok, q) \<Rightarrow>
             if \<not> ok then Err (BadParcel ''invalid closed peer sequence length'')
             else Ok (r\<lparr>ro_peer_closed := True, ro_inbound := q\<rparr>)) (\<lambda>r.
      obind (from_option (deserialized_outward d i link_state)) (\<lambda>e.
      Ok (r\<lparr>ro_outward := e\<rparr>))))"

definition router_deserialize :: "flush \<Rightarrow> acceptance \<Rightarrow> router_descriptor \<Rightarrow> u64 \<Rightarrow> node \<Rightarrow> (u64 \<times> node) routing" where
  "router_deserialize fl acc d i s =
     (let rid = rd_new_sublink d; decaying = rd_new_decaying_sublink d in
      if rid = BOOTSTRAP_SUBLINK \<or> (rd_proxy_already_bypassed d \<and> (decaying = rid \<or> decaying = BOOTSTRAP_SUBLINK))
      then Err (BadParcel ''invalid sublink ids in descriptor'')
      else
      obind (deserialized_link_state d i s) (\<lambda>link_state.
      obind (deserialized_router d i link_state) (\<lambda>r.
      let s = own_sublink s i rid rid;
          s = (if rd_proxy_already_bypassed d then own_sublink s i decaying rid else s);
          s = set_router s rid r;
          (early, s) = early_for i rid s;
          (early_decaying, s) = (if rd_proxy_already_bypassed d then early_for i decaying s else ([], s)) in
      obind (replay acc i (early @ early_decaying) s) (\<lambda>s.
      obind (if node_name_is_valid (rd_proxy_peer_node_name d)
             then router_bypass_peer fl rid i (rd_proxy_peer_node_name d) (rd_proxy_peer_sublink d) s
             else Ok s) (\<lambda>s.
      obind (fl rid False s) (\<lambda>s. Ok (rid, s)))))))"

definition deserialize_descriptor ::
  "flush \<Rightarrow> acceptance \<Rightarrow> byte list \<Rightarrow> u64 \<Rightarrow> node \<Rightarrow> (u64 \<times> node) routing" where
  "deserialize_descriptor fl acc bytes i s =
     obind (map_err RWire (router_descriptor_decode bytes)) (\<lambda>d. router_deserialize fl acc d i s)"

fun deserialize_all ::
  "flush \<Rightarrow> acceptance \<Rightarrow> byte list list \<Rightarrow> u64 \<Rightarrow> node \<Rightarrow> (u64 list \<times> node) routing" where
  "deserialize_all fl acc [] i s = Ok ([], s)"
| "deserialize_all fl acc (b # bs) i s =
     obind (deserialize_descriptor fl acc b i s) (\<lambda>(rid, s).
     obind (deserialize_all fl acc bs i s) (\<lambda>(rids, s). Ok (rid # rids, s)))"

definition deserialize_portals ::
  "flush \<Rightarrow> acceptance \<Rightarrow> accept_parcel \<Rightarrow> u64 \<Rightarrow> node \<Rightarrow> (u64 list \<times> node) routing" where
  "deserialize_portals fl acc p i s =
     (if length (ap_new_routers p) mod ROUTER_DESCRIPTOR_SIZE \<noteq> 0
      then Err (BadParcel ''malformed new_routers array'')
      else if length (ap_new_routers p) div ROUTER_DESCRIPTOR_SIZE \<noteq>
              length (filter (\<lambda>t. t = HANDLE_PORTAL) (ap_handle_types p))
      then Err (BadParcel ''portal count mismatch'')
      else deserialize_all fl acc (chunks_exact ROUTER_DESCRIPTOR_SIZE (ap_new_routers p)) i s)"

text \<open>
  The objects of a parcel, taken in the order of the handle types.  The descriptors of a driver object are
  removed from the list that the later objects index.
\<close>

record assembled =
  as_objects :: "parcel_object list"
  as_identities :: "u64 list"
  as_drivers :: "driver_object list"
  as_fds :: "fd list"
  as_held :: "fd list"
  as_split :: bool

definition assemble_step :: "u32 \<Rightarrow> assembled \<Rightarrow> assembled routing" where
  "assemble_step t a =
     (if t = HANDLE_PORTAL then
        (case as_identities a of
           [] \<Rightarrow> Err (BadParcel ''missing router descriptor'')
         | rid # rids \<Rightarrow> Ok (a\<lparr>as_identities := rids, as_objects := as_objects a @ [ObjRouter rid]\<rparr>))
      else if t = HANDLE_BOXED_DRIVER_OBJECT then
        (case as_drivers a of
           [] \<Rightarrow> Err (BadParcel ''missing driver object'')
         | obj # drivers \<Rightarrow>
           (case checked_add (dobj_first_fd obj) (dobj_num_fds obj) of
              None \<Rightarrow> Err (BadParcel ''fd index overflow'')
            | Some e \<Rightarrow>
              if e > length (as_fds a) then Err (BadParcel ''driver object fd range'')
              else Ok (a\<lparr>as_drivers := drivers,
                         as_held := as_held a @ take (dobj_num_fds obj) (drop (dobj_first_fd obj) (as_fds a)),
                         as_fds := take (dobj_first_fd obj) (as_fds a) @ drop e (as_fds a)\<rparr>)))
      else if t = HANDLE_RELAYED_BOXED_DRIVER_OBJECT then Ok (a\<lparr>as_split := True\<rparr>)
      else if t = HANDLE_BOXED_SUBPARCEL
      then Err (Unsupported MSG_ID_ACCEPT_PARCEL ''boxed subparcels not exercised by the routing court'')
      else Err (BadParcel ''unknown handle type''))"

fun assemble_objects :: "u32 list \<Rightarrow> assembled \<Rightarrow> assembled routing" where
  "assemble_objects [] a = Ok a"
| "assemble_objects (t # ts) a = obind (assemble_step t a) (assemble_objects ts)"

definition on_edge :: "edge \<Rightarrow> u64 \<Rightarrow> u64 \<Rightarrow> bool" where
  "on_edge e i sublink = list_ex (\<lambda>l. li_link_id l = i \<and> li_sublink l = sublink) (edge_links e)"

text \<open>The last step: the parcel goes into a queue of the router that owns the sublink, or waits for an owner.\<close>

definition route_parcel ::
  "flush \<Rightarrow> accept_parcel \<Rightarrow> u64 \<Rightarrow> byte list \<Rightarrow> parcel_object list \<Rightarrow> node \<Rightarrow> node routing" where
  "route_parcel fl p i payload objects s =
     (case nd_owners s (i, ap_sublink p) of
        None \<Rightarrow>
          Ok (s\<lparr>nd_early := (nd_early s)((i, ap_sublink p) \<mapsto>
                (case nd_early s (i, ap_sublink p) of None \<Rightarrow> [] | Some ps \<Rightarrow> ps) @ [p])\<rparr>)
      | Some rid \<Rightarrow>
        obind (get_router s rid ''parcel for unknown router'') (\<lambda>r.
        let on_outward = on_edge (ro_outward r) i (ap_sublink p);
            on_inward = (case ro_inward r of None \<Rightarrow> False | Some e \<Rightarrow> on_edge e i (ap_sublink p));
            q = \<lparr>pa_sequence_number = ap_sequence_number p, pa_data = payload, pa_objects = objects, pa_fragment = None\<rparr> in
        if \<not> on_outward \<and> \<not> on_inward then Err (BadParcel ''parcel for unbound sublink'')
        else case (if on_outward then accept_inbound r q else accept_outbound r q) of
          (accepted, r) \<Rightarrow>
            if \<not> accepted then Err (BadParcel ''route sequence gap or duplicate'')
            else fl rid False (set_router s rid r)))"

definition defer_parcel :: "accept_parcel \<Rightarrow> fd list \<Rightarrow> u64 \<Rightarrow> node \<Rightarrow> node" where
  "defer_parcel p fds i s =
     (let k = (i, fr_buffer_id (ap_parcel_fragment p)) in
      s\<lparr>nd_pending_fragments := (nd_pending_fragments s)(k \<mapsto>
          (case nd_pending_fragments s k of None \<Rightarrow> [] | Some q \<Rightarrow> q) @ [(p, fds, i)])\<rparr>)"

definition accept_payload ::
  "flush \<Rightarrow> acceptance \<Rightarrow> accept_parcel \<Rightarrow> fd list \<Rightarrow> u64 \<Rightarrow> byte list \<Rightarrow> node \<Rightarrow> (processed \<times> node) routing" where
  "accept_payload fl acc p fds i payload s =
     obind (deserialize_portals fl acc p i s) (\<lambda>(identities, s).
     obind (assemble_objects (ap_handle_types p)
              \<lparr>as_objects = [], as_identities = identities, as_drivers = ap_driver_objects p, as_fds = fds,
               as_held = [], as_split = False\<rparr>) (\<lambda>a.
     if as_drivers a \<noteq> [] then Err (BadParcel ''unclaimed driver objects'')
     else if as_split a then Err (Unsupported MSG_ID_ACCEPT_PARCEL ''split parcels not exercised by the routing court'')
     else
     obind (route_parcel fl p i payload (as_objects a) (s\<lparr>nd_held_fds := nd_held_fds s @ as_held a\<rparr>)) (\<lambda>s.
     Ok ((payload, identities), s))))"

definition accept_parcel_with :: "flush \<Rightarrow> acceptance \<Rightarrow> acceptance" where
  "accept_parcel_with fl acc p fds i s =
     (if ap_num_subparcels p = 0 \<or> ap_subparcel_index p \<ge> ap_num_subparcels p \<or> ap_num_subparcels p > 16
      then Err (BadParcel ''invalid subparcel bounds'')
      else if ap_num_subparcels p > 1
      then Err (Unsupported MSG_ID_ACCEPT_PARCEL ''multi-subparcel parcels not exercised by the routing court'')
      else case parcel_data s p i of
        Ok payload \<Rightarrow> accept_payload fl acc p fds i payload s
      | Err e \<Rightarrow> if e = RMemory UnknownBuffer then Ok (([], []), defer_parcel p fds i s) else Err e
      | Panic \<Rightarrow> Panic)"

text \<open>Accepting a parcel, with a bound on the depth of calls.\<close>

fun process_accept_parcel :: "nat \<Rightarrow> acceptance" where
  "process_accept_parcel 0 p fds i s = Panic"
| "process_accept_parcel (Suc depth) p fds i s =
     accept_parcel_with (router_flush depth) (process_accept_parcel depth) p fds i s"

definition process_accept_parcel_keep_queued :: "nat \<Rightarrow> acceptance" where
  "process_accept_parcel_keep_queued depth p fds i s =
     (if nd_keep_queued s then Panic
      else obind (process_accept_parcel depth p fds i (s\<lparr>nd_keep_queued := True\<rparr>)) (\<lambda>(out, s).
        Ok (out, s\<lparr>nd_keep_queued := False\<rparr>)))"

definition on_bypass_peer_with_link ::
  "flush \<Rightarrow> acceptance \<Rightarrow> bypass_peer_with_link \<Rightarrow> u64 \<Rightarrow> node \<Rightarrow> node routing" where
  "on_bypass_peer_with_link fl acc b i s =
     (if fragment_is_null (bl_new_link_state_fragment b) then Err (BadParcel ''bypass with null link state'')
      else
      obind (memory_for s i) (\<lambda>m.
      obind (map_err RMemory (fragment_view m (bl_new_link_state_fragment b))) (\<lambda>_.
      case nd_owners s (i, bl_sublink b) of
        None \<Rightarrow> Ok s
      | Some rid \<Rightarrow>
        obind (get_router s rid ''bypass for unknown router'') (\<lambda>r.
        case ed_primary (ro_outward r) of
          None \<Rightarrow> Ok s
        | Some old \<Rightarrow>
          if ro_disconnected r then Ok s
          else if is_local old then Err (BadParcel ''unexpected bypass at a local link'')
          else
          obind (replace_outward rid i (bl_new_sublink b) (bl_new_link_state_fragment b) (bl_inbound_sequence_length b) r s) (\<lambda>s.
          obind (send_link_message_on i
                   (encode_stop_proxying_to_local_peer (li_sublink old) (pq_current (ro_outbound r))) s) (\<lambda>s.
          case early_for i (bl_new_sublink b) s of
            (early, s) \<Rightarrow> obind (replay acc i early s) (fl rid False)))))))"

section \<open>Memory\<close>

text \<open>What the descriptors of a message stand for: a duplicate, the contents and whether they can be mapped, a socket.\<close>

record fd_env =
  fe_dup :: "fd \<Rightarrow> fd option"
  fe_contents :: "fd \<Rightarrow> byte list option"
  fe_mapped :: "fd \<Rightarrow> bool"
  fe_socket :: "fd \<Rightarrow> bool"

definition try_dup :: "fd_env \<Rightarrow> fd \<Rightarrow> fd routing" where
  "try_dup env f = ok_or (fe_dup env f) (RIo OsError)"

definition nth_dup :: "fd_env \<Rightarrow> fd list \<Rightarrow> u32 \<Rightarrow> string \<Rightarrow> fd routing" where
  "nth_dup env fds k msg =
     (if unat k < length fds then try_dup env (fds ! unat k) else Err (BadParcel msg))"

definition on_provide_memory :: "fd_env \<Rightarrow> u32 \<Rightarrow> fd \<Rightarrow> u64 \<Rightarrow> node \<Rightarrow> node routing" where
  "on_provide_memory env len f i s =
     (case nd_pending_memory s (i, len) of
        Some (p # q) \<Rightarrow>
          let s = s\<lparr>nd_pending_memory := (nd_pending_memory s)((i, len) := if q = [] then None else Some q)\<rparr>;
              block_size = pm_block_size p in
          obind (on_memory i allocate_new_buffer_id s) (\<lambda>(buffer_id, s).
          obind (try_dup env f) (\<lambda>copy.
          obind (send_link_message_with_fds_on i (encode_add_block_buffer buffer_id block_size 0 len) [copy] s) (\<lambda>s.
          obind (memory_for s i) (\<lambda>m.
          obind (map_err RIo (register_buffer m buffer_id (fe_contents env f) (fe_mapped env f) block_size)) (\<lambda>m.
          Ok (set_memory (s\<lparr>nd_capacity_pending := removeAll (i, block_size) (nd_capacity_pending s)\<rparr>) i m))))))
      | _ \<Rightarrow> Err (BadParcel ''ProvideMemory without a pending request''))"

definition on_request_memory :: "u32 \<Rightarrow> u64 \<Rightarrow> node \<Rightarrow> node routing" where
  "on_request_memory len i s =
     Err (Unsupported MSG_ID_REQUEST_MEMORY ''native broker role not exercised by a sealed court'')"

definition on_add_block_buffer :: "fd_env \<Rightarrow> acceptance \<Rightarrow> add_block_buffer \<Rightarrow> fd list \<Rightarrow> u64 \<Rightarrow> node \<Rightarrow> node routing" where
  "on_add_block_buffer env acc b fds i s =
     obind (nth_dup env fds (ab_buffer_index b) ''AddBlockBuffer index out of range'') (\<lambda>f.
     obind (memory_for s LINK_ID_BROKER) (\<lambda>m.
     obind (map_err RIo (add_buffer m (ab_buffer_id b) (fe_contents env f) (fe_mapped env f) (ab_block_size b))) (\<lambda>m.
     let s = set_memory s LINK_ID_BROKER m; k = (i, ab_buffer_id b) in
     case nd_pending_fragments s k of
       None \<Rightarrow> Ok s
     | Some queued \<Rightarrow> accept_all acc queued (s\<lparr>nd_pending_fragments := (nd_pending_fragments s)(k := None)\<rparr>))))"

section \<open>Introductions and referrals\<close>

definition adopt_link :: "fd_env \<Rightarrow> fd \<Rightarrow> fd \<Rightarrow> node_name \<Rightarrow> node_link routing" where
  "adopt_link env transport memory name =
     (if \<not> fe_socket env transport then Err (RIo OsError)
      else
      obind (map_err RIo (adopt_primary (fe_contents env memory) (fe_mapped env memory))) (\<lambda>m.
      Ok \<lparr>nl_sent = [], nl_open = True, nl_memory = Some m, nl_remote_name = name, nl_next_seq = 0\<rparr>))"

definition insert_link :: "u64 \<Rightarrow> node_link \<Rightarrow> node \<Rightarrow> node" where
  "insert_link i l s =
     s\<lparr>nd_links := (nd_links s)(i \<mapsto> l),
       nd_link_order := (if i \<in> set (nd_link_order s) then nd_link_order s else nd_link_order s @ [i])\<rparr>"

definition on_accept_introduction :: "fd_env \<Rightarrow> flush \<Rightarrow> accept_introduction \<Rightarrow> fd list \<Rightarrow> node \<Rightarrow> node routing" where
  "on_accept_introduction env fl a fds s =
     (if nd_links s LINK_ID_INTRODUCED \<noteq> None then Ok s
      else
      obind (nth_dup env fds (ai_transport_index a) ''introduction transport index out of range'') (\<lambda>transport.
      obind (nth_dup env fds (ai_memory_index a) ''introduction memory index out of range'') (\<lambda>memory.
      obind (adopt_link env transport memory (ai_name a)) (\<lambda>l.
      case take_pending_intros (ai_name a) (insert_link LINK_ID_INTRODUCED l s) of
        (pending, s) \<Rightarrow> complete_all fl (ai_name a) pending s))))"

definition on_reject_introduction :: "flush \<Rightarrow> node_name \<Rightarrow> node \<Rightarrow> node routing" where
  "on_reject_introduction fl name s =
     (case take_pending_intros name s of (pending, s) \<Rightarrow> complete_all fl name pending s)"

text \<open>The attachment of the bootstrap portal: a local pair, one end merged with the portal by a bridge.\<close>

definition setup_bootstrap_bridge :: "u64 \<Rightarrow> node \<Rightarrow> node routing" where
  "setup_bootstrap_bridge remote_rid s =
     (let bridge_rid = nd_next_rid s in
      obind (from_option (succ64 bridge_rid)) (\<lambda>attachment_rid.
      obind (from_option (succ64 attachment_rid)) (\<lambda>next_rid.
      case node_local_pair Central LinkA attachment_rid bridge_rid True
             (s\<lparr>nd_next_rid := next_rid, nd_bootstrap_rid := attachment_rid\<rparr>) of
        ((attach_link, bridge_central_link), s) \<Rightarrow>
      (case node_local_pair Bridge LinkA remote_rid bridge_rid False s of
        ((remote_bridge_link, bridge_bridge_link), s) \<Rightarrow>
      let attachment = bare_router\<lparr>ro_outward := \<lparr>ed_primary = Some attach_link, ed_decaying = None\<rparr>\<rparr>;
          r_bridge = bare_router\<lparr>ro_outward := \<lparr>ed_primary = Some bridge_central_link, ed_decaying = None\<rparr>,
                                 ro_bridge := Some \<lparr>ed_primary = Some bridge_bridge_link, ed_decaying = None\<rparr>\<rparr> in
      obind (ok_or (nd_routers s remote_rid) (Unexpected ''bootstrap router missing'')) (\<lambda>r.
      let s = set_router s remote_rid (r\<lparr>ro_bridge := Some \<lparr>ed_primary = Some remote_bridge_link, ed_decaying = None\<rparr>\<rparr>) in
      Ok (set_router (set_router s bridge_rid r_bridge) attachment_rid attachment))))))"

definition initial_state :: "nat \<Rightarrow> fragment" where
  "initial_state k = \<lparr>fr_buffer_id = 0, fr_offset = of_nat (initial_link_state_offset k),
     fr_size = of_nat ROUTER_LINK_STATE_SIZE\<rparr>"

definition mark_side_b_stable :: "u64 \<Rightarrow> nat \<Rightarrow> node \<Rightarrow> node routing" where
  "mark_side_b_stable i k s =
     obind (on_memory i (\<lambda>m. run_status (set_side_stable False) m (initial_state k)) s) (\<lambda>(_, s). Ok s)"

definition mark_initial_links_stable_on :: "u64 \<Rightarrow> node \<Rightarrow> node routing" where
  "mark_initial_links_stable_on i s = obind (mark_side_b_stable i 0 s) (mark_side_b_stable i 1)"

definition mark_bootstrap_link_stable :: "node \<Rightarrow> node routing" where
  "mark_bootstrap_link_stable = mark_side_b_stable LINK_ID_BROKER 1"

text \<open>Binding the waiting routers to the initial portals of the direct link.\<close>

fun bind_waiting :: "(nat \<times> u64) list \<Rightarrow> node \<Rightarrow> node routing" where
  "bind_waiting [] s = Ok s"
| "bind_waiting ((k, rid) # rest) s =
     obind (adopt_outward rid ''waiting router missing''
              (remote_link LINK_ID_DIRECT (of_nat k) Central LinkA (Some (initial_state k))) s) (\<lambda>s.
     bind_waiting rest (own_sublink s LINK_ID_DIRECT (of_nat k) rid))"

definition on_non_broker_referral_accepted ::
  "fd_env \<Rightarrow> flush \<Rightarrow> referral_accepted \<Rightarrow> fd list \<Rightarrow> node \<Rightarrow> node routing" where
  "on_non_broker_referral_accepted env fl a fds s =
     (if nd_referral_reply_seen s then Err (BadParcel ''duplicate referral reply'')
      else if ra_num_initial_portals a > of_nat MAX_INITIAL_PORTALS then Err (BadParcel ''excessive initial portals'')
      else
      obind (nth_dup env fds (ra_transport_index a) ''referrer transport index out of range'') (\<lambda>transport.
      obind (nth_dup env fds (ra_buffer_index a) ''referrer buffer index out of range'') (\<lambda>buffer.
      obind (adopt_link env transport buffer (ra_name a)) (\<lambda>l.
      case nd_waiting_routers s of
        service_rid # a2b_remote_rid # _ \<Rightarrow>
          let s = insert_link LINK_ID_DIRECT l (s\<lparr>nd_referrer_name := ra_name a, nd_waiting_routers := []\<rparr>);
              num_valid = min (unat (ra_num_initial_portals a)) MAX_INITIAL_PORTALS in
          obind (bind_waiting (take num_valid [(0, service_rid), (1, a2b_remote_rid)]) s) (\<lambda>s.
          let pipe_a_rid = nd_bootstrap_rid s in
          obind (setup_bootstrap_bridge a2b_remote_rid s) (\<lambda>s.
          obind (mark_initial_links_stable_on LINK_ID_DIRECT
                   (s\<lparr>nd_a2b_rid := Some (nd_bootstrap_rid s), nd_bootstrap_rid := pipe_a_rid\<rparr>)) (\<lambda>s.
          fl a2b_remote_rid False (s\<lparr>nd_referral_reply_seen := True\<rparr>))))
      | _ \<Rightarrow> Panic))))"

section \<open>The broker handshake\<close>

definition ACCEPTOR_INITIAL_PORTALS :: u32 where "ACCEPTOR_INITIAL_PORTALS = 8"

text \<open>One initial portal, on the link to the broker.\<close>

definition initial_portal :: "nat \<Rightarrow> node \<Rightarrow> node routing" where
  "initial_portal k s =
     (let l = remote_link LINK_ID_BROKER (of_nat k) Central LinkB (Some (initial_state k)) in
      obind (if k = 1 then Ok (new_terminal l)
             else obind (from_option (set_primary_link (ro_outward bare_router) l)) (\<lambda>e.
               Ok (bare_router\<lparr>ro_outward := e\<rparr>))) (\<lambda>r.
      Ok (set_router (own_sublink s LINK_ID_BROKER (of_nat k) (of_nat k)) (of_nat k) r)))"

fun initial_portals :: "nat list \<Rightarrow> node \<Rightarrow> node routing" where
  "initial_portals [] s = Ok s"
| "initial_portals (k # ks) s = obind (initial_portal k s) (initial_portals ks)"

definition connect_finalize :: "flush \<Rightarrow> node \<Rightarrow> node routing" where
  "connect_finalize fl s = obind (setup_bootstrap_bridge BOOTSTRAP_SUBLINK s) (fl BOOTSTRAP_SUBLINK False)"

definition connect_handshake :: "fd_env \<Rightarrow> flush \<Rightarrow> decoded_message \<Rightarrow> fd list \<Rightarrow> node \<Rightarrow> node routing" where
  "connect_handshake env fl msg fds s =
     (case msg of
        ConnectFromBrokerToNonBroker c \<Rightarrow>
          if cn_num_initial_portals c > of_nat MAX_INITIAL_PORTALS then Err (BadParcel ''excessive initial portals'')
          else (case fds of
            [f] \<Rightarrow>
              obind (ok_or (nd_links s LINK_ID_BROKER) (Unexpected ''broker link missing'')) (\<lambda>l.
              obind (map_err RIo (adopt_primary (fe_contents env f) (fe_mapped env f))) (\<lambda>m.
              obind (from_option (encode_connect_from_non_broker_to_broker ACCEPTOR_INITIAL_PORTALS 0)) (\<lambda>reply.
              if \<not> nl_open l then Err (RChannel ChannelIo)
              else
              let l = l\<lparr>nl_memory := Some m, nl_remote_name := cn_broker_name c, nl_sent := nl_sent l @ [(reply, [])]\<rparr>;
                  s = s\<lparr>nd_links := (nd_links s)(LINK_ID_BROKER \<mapsto> l), nd_broker_name := cn_broker_name c,
                        nd_local_name := cn_receiver_name c\<rparr> in
              obind (initial_portals [0..<min (unat (cn_num_initial_portals c)) MAX_INITIAL_PORTALS] s) (connect_finalize fl))))
          | _ \<Rightarrow> Err (Unexpected ''Connect carries no link memory''))
      | _ \<Rightarrow> Err (Unexpected ''first message was not ConnectFromBrokerToNonBroker''))"

definition connect_without_shm :: "fd_env \<Rightarrow> flush \<Rightarrow> decoded_message \<Rightarrow> fd list \<Rightarrow> node \<Rightarrow> node routing" where
  "connect_without_shm env fl msg fds s = obind (connect_handshake env fl msg fds s) (connect_finalize fl)"

text \<open>The client of the shared memory service: one end of a new socket pair travels with a parcel on portal 0.\<close>

definition transport_object :: "byte list" where
  "transport_object = to_le 4 (8 :: u32) @ to_le 4 (0 :: u32) @ to_le 4 (1 :: u32) @ replicate 4 0"

definition send_shared_memory_client_on :: "fd option \<Rightarrow> u64 \<Rightarrow> node \<Rightarrow> node routing" where
  "send_shared_memory_client_on pair_end i s =
     obind (ok_or pair_end (RIo OsError)) (\<lambda>f.
     obind (send_link_message_with_fds_on i
              (encode_accept_parcel_inline 0 0 [] [HANDLE_BOXED_DRIVER_OBJECT] [transport_object]) [f] s) (\<lambda>s.
     send_link_message_on i (encode_route_closed 0 1) s))"

definition connect ::
  "fd_env \<Rightarrow> flush \<Rightarrow> decoded_message \<Rightarrow> fd list \<Rightarrow> fd option \<Rightarrow> node \<Rightarrow> node routing" where
  "connect env fl msg fds pair_end s =
     obind (connect_handshake env fl msg fds s) (\<lambda>s.
     obind (send_shared_memory_client_on pair_end LINK_ID_BROKER s) (connect_finalize fl))"

section \<open>Dispatch\<close>

definition on_owner :: "u64 \<Rightarrow> u64 \<Rightarrow> (u64 \<Rightarrow> node \<Rightarrow> node routing) \<Rightarrow> node \<Rightarrow> node routing" where
  "on_owner i sublink f s = (case nd_owners s (i, sublink) of None \<Rightarrow> Ok s | Some rid \<Rightarrow> f rid s)"

fun dispatch_message :: "fd_env \<Rightarrow> flush \<Rightarrow> acceptance \<Rightarrow> decoded_message \<Rightarrow> fd list \<Rightarrow> u64 \<Rightarrow> node \<Rightarrow> node routing" where
  "dispatch_message env fl acc (ConnectFromBrokerToNonBroker _) fds i s =
     Err (Unexpected ''Connect received after handshake'')"
| "dispatch_message env fl acc (ConnectFromNonBrokerToBroker _) fds i s =
     Err (Unexpected ''Connect reply received from broker'')"
| "dispatch_message env fl acc (ReferNonBroker _) fds i s =
     Err (Unsupported MSG_ID_REFER_NON_BROKER ''native broker role not exercised by a sealed court'')"
| "dispatch_message env fl acc (ConnectToReferredBroker _) fds i s =
     Err (Unsupported MSG_ID_CONNECT_TO_REFERRED_BROKER ''referred-node connect not exercised by a sealed court'')"
| "dispatch_message env fl acc (ConnectToReferredNonBroker _) fds i s =
     Err (Unsupported MSG_ID_CONNECT_TO_REFERRED_NON_BROKER ''referral acceptance not exercised by a sealed court'')"
| "dispatch_message env fl acc (NonBrokerReferralAccepted a) fds i s = on_non_broker_referral_accepted env fl a fds s"
| "dispatch_message env fl acc (NonBrokerReferralRejected _) fds i s =
     Err (Unsupported MSG_ID_NON_BROKER_REFERRAL_REJECTED ''referral rejection not exercised by a sealed court'')"
| "dispatch_message env fl acc (ConnectFromBrokerToBroker _) fds i s =
     Err (Unsupported MSG_ID_CONNECT_FROM_BROKER_TO_BROKER ''broker-to-broker connect not exercised by a sealed court'')"
| "dispatch_message env fl acc (RequestIntroduction _) fds i s =
     Err (Unsupported MSG_ID_REQUEST_INTRODUCTION ''native broker role not exercised by a sealed court'')"
| "dispatch_message env fl acc (AcceptIntroduction a) fds i s = on_accept_introduction env fl a fds s"
| "dispatch_message env fl acc (RejectIntroduction name) fds i s = on_reject_introduction fl name s"
| "dispatch_message env fl acc (RequestIndirectIntroduction _) fds i s =
     Err (Unsupported MSG_ID_REQUEST_INDIRECT_INTRODUCTION ''indirect introduction not exercised by a sealed court'')"
| "dispatch_message env fl acc (AddBlockBuffer b) fds i s = on_add_block_buffer env acc b fds i s"
| "dispatch_message env fl acc (AcceptParcel p) fds i s = obind (acc p fds i s) (\<lambda>(_, s). Ok s)"
| "dispatch_message env fl acc (AcceptParcelDriverObjects _) fds i s =
     Err (Unsupported MSG_ID_ACCEPT_PARCEL ''split parcels not exercised by the routing court'')"
| "dispatch_message env fl acc (RouteClosed rc) fds i s =
     on_owner i (rc_sublink rc) (\<lambda>rid. router_route_closed fl rid (rc_sublink rc) (rc_sequence_length rc)) s"
| "dispatch_message env fl acc (RouteDisconnected sublink) fds i s = on_owner i sublink router_disconnected s"
| "dispatch_message env fl acc (BypassPeerWithLink b) fds i s = on_bypass_peer_with_link fl acc b i s"
| "dispatch_message env fl acc (StopProxying p) fds i s =
     on_owner i (sp_sublink p)
       (\<lambda>rid. router_stop_proxying fl rid (sp_inbound_sequence_length p) (sp_outbound_sequence_length p)) s"
| "dispatch_message env fl acc (StopProxyingToLocalPeer p) fds i s =
     on_owner i (sl_sublink p) (\<lambda>rid. router_stop_proxying_to_local_peer fl rid (sl_outbound_sequence_length p)) s"
| "dispatch_message env fl acc (FlushRouter sublink) fds i s = on_owner i sublink (\<lambda>rid. fl rid True) s"
| "dispatch_message env fl acc (RequestMemory n) fds i s = on_request_memory n i s"
| "dispatch_message env fl acc (ProvideMemory n) fds i s =
     (case fds of
        [f] \<Rightarrow> on_provide_memory env n f i s
      | _ \<Rightarrow> Err (BadParcel ''ProvideMemory without exactly one buffer descriptor''))"
| "dispatch_message env fl acc (BypassPeer _) fds i s =
     Err (Unsupported MSG_ID_BYPASS_PEER ''inbound BypassPeer not exercised by the routing court'')"
| "dispatch_message env fl acc (AcceptBypassLink al) fds i s = on_accept_bypass_link fl al i s"
| "dispatch_message env fl acc (ProxyWillStop p) fds i s =
     on_owner i (pw_sublink p) (\<lambda>rid. router_proxy_will_stop fl rid (pw_inbound_sequence_length p)) s"
| "dispatch_message env fl acc (Unknown n) fds i s =
     Err (Unsupported n ''message type not decoded by the interop layer'')"

text \<open>A message of a link: decoded, then dispatched, with a bound on the depth of calls.\<close>

definition receive_message :: "nat \<Rightarrow> fd_env \<Rightarrow> incoming_message \<Rightarrow> u64 \<Rightarrow> node \<Rightarrow> node routing" where
  "receive_message depth env m i s =
     obind (map_err RWire (decode_message (im_payload m) (length (im_fds m)))) (\<lambda>msg.
     dispatch_message env (router_flush depth) (process_accept_parcel depth) msg (im_fds m) i s)"

text \<open>\<open>drain_available\<close> on a list of what the channel of the broker returns.\<close>

fun drain_available :: "nat \<Rightarrow> fd_env \<Rightarrow> (channel_error, recv_result) outcome list \<Rightarrow> node \<Rightarrow> node routing" where
  "drain_available depth env [] s = Ok s"
| "drain_available depth env (r # rs) s =
     obind (map_err RChannel r) (\<lambda>r.
     case r of
       RMessage m \<Rightarrow> obind (receive_message depth env m LINK_ID_BROKER s) (drain_available depth env rs)
     | RWouldBlock \<Rightarrow> Ok s
     | RPeerClosed \<Rightarrow> Err (Unexpected ''peer closed''))"

text \<open>\<open>recv_until_on\<close>: what does not match the predicate is dispatched.\<close>

fun recv_until_on ::
  "nat \<Rightarrow> fd_env \<Rightarrow> (decoded_message \<Rightarrow> bool) \<Rightarrow> u64 \<Rightarrow> (channel_error, incoming_message option) outcome list \<Rightarrow> node \<Rightarrow>
   ((decoded_message \<times> fd list) option \<times> node) routing" where
  "recv_until_on depth env p i [] s = Ok (None, s)"
| "recv_until_on depth env p i (r # rs) s =
     obind (map_err RChannel r) (\<lambda>m.
     obind (ok_or m (Unexpected ''peer closed during exchange'')) (\<lambda>m.
     obind (map_err RWire (decode_message (im_payload m) (length (im_fds m)))) (\<lambda>msg.
     if p msg then Ok (Some (msg, im_fds m), s)
     else
     obind (dispatch_message env (router_flush depth) (process_accept_parcel depth) msg (im_fds m) i s) (\<lambda>s.
     recv_until_on depth env p i rs s))))"

end
