(* ===== verification/RoutingPairs.thy ===== *)
theory RoutingPairs
  imports RoutingMessages
begin

text \<open>
  What a local pair of portals promises: the steps of a flush on an end of a pair, and the delivery of
  everything that is put, up to the closure of one end.
\<close>

section \<open>A local pair\<close>

text \<open>An open end of a local pair that has received \<open>nin\<close> parcels and sent \<open>nout\<close>.\<close>

definition pair_link :: "nat \<Rightarrow> link_side \<Rightarrow> u64 \<Rightarrow> link" where
  "pair_link c side peer =
     \<lparr>li_link_id = 0, li_sublink = 0, li_kind = Central, li_side = side, li_link_state = None,
      li_local_peer = Some peer, li_local_state = Some c\<rparr>"

definition queue_at :: "u64 \<Rightarrow> parcel_queue" where
  "queue_at n = \<lparr>pq_current = n, pq_final = None, pq_buffer = fmempty\<rparr>"

definition open_end :: "nat \<Rightarrow> link_side \<Rightarrow> u64 \<Rightarrow> portal \<Rightarrow> u64 \<Rightarrow> u64 \<Rightarrow> router" where
  "open_end c side peer messages nin nout =
     \<lparr>ro_portal = Some messages, ro_outward = \<lparr>ed_primary = Some (pair_link c side peer), ed_decaying = None\<rparr>,
      ro_inward = None, ro_bridge = None, ro_inbound = queue_at nin, ro_outbound = queue_at nout,
      ro_peer_closed = False, ro_disconnected = False\<rparr>"

lemma set_router_simps [simp]:
  "nd_routers (set_router s i r) = (nd_routers s)(i \<mapsto> r)" "nd_owners (set_router s i r) = nd_owners s"
  "nd_keep_queued (set_router s i r) = nd_keep_queued s" "nd_cells (set_router s i r) = nd_cells s"
  "nd_links (set_router s i r) = nd_links s" "set_router (set_router s i r) i r' = set_router s i r'"
  by (simp_all add: set_router_def)

lemma set_router_same [simp]: "nd_routers s i = Some r \<Longrightarrow> set_router s i r = s"
  by (simp add: set_router_def fun_upd_idem)

lemma set_cell_simps [simp]:
  "nd_routers (set_cell s i x) = nd_routers s" "nd_owners (set_cell s i x) = nd_owners s"
  "nd_keep_queued (set_cell s i x) = nd_keep_queued s" "nd_links (set_cell s i x) = nd_links s"
  "set_cell (set_router s rid r) i x = set_router (set_cell s i x) rid r"
  by (simp_all add: set_cell_def set_router_def)

lemmas settle_defs = flush_finish_decays_def flush_deliver_def flush_mark_stable_def
  flush_closure_def flush_bypass_def flush_start_of_def get_router_def ok_or_def
  collect_outbound_def collect_inbound_def collect_bridge_def finish_bridge_decay_def finish_decays_def
  maybe_finish_decay_def edge_decaying_link_def outbound_length_def inbound_length_def get_current_sequence_length_def
  release_opt_def without_links_def on_central_link_def outward_has_decaying_def inward_has_decaying_def
  is_central_def closure_of_outbound_def closure_of_inbound_def is_sequence_fully_consumed_def
  expects_more_elements_def bridge_link_def deliver_closed_opt_def has_next_element_def

declare router_flush.simps [simp del]

text \<open>The flush of an end with one parcel waiting in its inbound queue.\<close>

lemma flush_delivers:
  assumes r: "nd_routers s rid = Some (open_end c side peer ms nin nout\<lparr>ro_inbound :=
      (queue_at nin)\<lparr>pq_buffer := fmupd nin p fmempty\<rparr>\<rparr>)"
    and n: "nin \<noteq> - 1" and k: "\<not> nd_keep_queued s"
  shows "router_flush (Suc d) rid False s =
    Ok (set_router s rid (open_end c side peer (ms @ [(pa_data p, pa_objects p)]) (nin + 1) nout))"
proof -
  have c1: "contiguous_length (fmupd nin p fmempty) nin = Some (nin + 1)"
    using n by (simp add: contiguous_length.simps [of _ nin] contiguous_length.simps [of _ "nin + 1"])
  have pop: "pop_all ((queue_at nin)\<lparr>pq_buffer := fmupd nin p fmempty\<rparr>) = Some ([p], queue_at (nin + 1))"
    using n by (simp add: pop_all.simps queue_pop_def queue_at_def succ64_def fmap_ext)
  show ?thesis
    using r n k c1 pop
    by (simp add: router_flush.simps(2) router_flush_with_def flush_forward_def settle_defs Router.collect.simps open_end_def queue_at_def deliver_to_portal_def
        pair_link_def Let_def split_beta)
qed
lemma queue_at_idle [simp]:
  "pop_all (queue_at n) = Some ([], queue_at n)"
  "contiguous_length (pq_buffer (queue_at n)) m = Some m"
  "Router.collect e (queue_at n) = Some ([], queue_at n)"
  "pq_final (queue_at n) = None" "pq_current (queue_at n) = n"
  by (simp_all add: pop_all.simps queue_pop_def queue_at_def contiguous_length.simps Router.collect.simps has_next_element_def)

definition pair_open :: "node \<Rightarrow> nat \<Rightarrow> u64 \<Rightarrow> u64 \<Rightarrow> portal \<Rightarrow> portal \<Rightarrow> u64 \<Rightarrow> u64 \<Rightarrow> bool" where
  "pair_open s c a b ma mb na nb \<longleftrightarrow>
     a \<noteq> b \<and> \<not> nd_keep_queued s \<and> c < length (nd_cells s) \<and> nd_cells s ! c = local_state_new True \<and>
     nd_routers s a = Some (open_end c LinkA b ma nb na) \<and> nd_routers s b = Some (open_end c LinkB a mb na nb)"

text \<open>Sending from one end, whichever it is: the parcel is in the portal of the other end when \<open>put\<close> returns.\<close>

lemma put_delivers:
  assumes r: "nd_routers s rid = Some (open_end c side peer ms nin nout)"
    and q: "nd_routers s peer = Some (open_end c (opposite side) rid mp nout nin)"
    and d: "rid \<noteq> peer" "nout \<noteq> - 1" "\<not> nd_keep_queued s"
  shows "router_put (router_flush (Suc (Suc d))) rid data objects s =
    Ok (None, s\<lparr>nd_routers := (nd_routers s)
      (rid \<mapsto> open_end c side peer ms nin (nout + 1),
       peer \<mapsto> open_end c (opposite side) rid (mp @ [(data, objects)]) (nout + 1) nin)\<rparr>)"
proof -
  let ?p = "\<lparr>pa_sequence_number = nout, pa_data = data, pa_objects = objects, pa_fragment = None\<rparr>"
  let ?r = "open_end c side peer ms nin nout\<lparr>ro_outbound := (queue_at nout)\<lparr>pq_buffer := fmupd nout ?p fmempty\<rparr>\<rparr>"
  let ?s = "set_router s rid ?r"
  have put: "router_put (router_flush (Suc (Suc d))) rid data objects s =
      obind (router_flush (Suc (Suc d)) rid False ?s) (\<lambda>s. Ok (None, s))"
    using r d by (simp add: router_put_def get_router_def ok_or_def open_end_def pair_link_def is_local_def Let_def
        push_outbound_def queue_push_def queue_at_def)
  have collect: "Router.collect \<lparr>ed_primary = Some (pair_link c side peer), ed_decaying = None\<rparr>
      ((queue_at nout)\<lparr>pq_buffer := fmupd nout ?p fmempty\<rparr>) = Some ([(pair_link c side peer, ?p)], queue_at (nout + 1))"
    using d by (simp add: Router.collect.simps link_for_def should_transmit_on_decaying_link_def has_next_element_def
        queue_pop_def queue_at_def succ64_def fmap_ext)
  let ?s1 = "set_router s rid (open_end c side peer ms nin (nout + 1))"
  let ?s2 = "set_router ?s1 peer (open_end c (opposite side) rid (mp @ [(data, objects)]) (nout + 1) nin)"
  have send: "transmit_parcel (router_flush (Suc d)) (pair_link c side peer) ?p ?s1 = Ok ?s2"
  proof -
    have "transmit_parcel (router_flush (Suc d)) (pair_link c side peer) ?p ?s1 =
        router_flush (Suc d) peer False (set_router ?s1 peer (open_end c (opposite side) rid mp nout nin
          \<lparr>ro_inbound := (queue_at nout)\<lparr>pq_buffer := fmupd nout ?p fmempty\<rparr>\<rparr>))"
      using q d by (simp add: transmit_parcel_def pair_link_def set_router_def accept_inbound_def queue_push_def
          open_end_def queue_at_def Let_def)
    also have "\<dots> = Ok ?s2"
      using d by (subst flush_delivers [where p = ?p]) (simp_all add: set_router_def fun_upd_twist)
    finally show ?thesis .
  qed
  have forward: "flush_forward (router_flush (Suc d)) rid ?s = Ok ?s2"
    using collect d send by (simp add: flush_forward_def get_router_def ok_or_def open_end_def
        collect_outbound_def collect_bridge_def)
  have rest: "router_flush (Suc (Suc d)) rid False ?s = Ok ?s2"
    using forward d by (simp add: router_flush.simps(2) router_flush_with_def settle_defs open_end_def deliver_to_portal_def
        pair_link_def Let_def split_beta fun_upd_twist)
  show ?thesis using put rest by (simp add: set_router_def)
qed

lemma put_from_a:
  assumes "pair_open s c a b ma mb na nb" "na \<noteq> - 1"
  shows "\<exists>s'. router_put (router_flush (Suc (Suc d))) a data objects s = Ok (None, s') \<and>
    pair_open s' c a b ma (mb @ [(data, objects)]) (na + 1) nb"
  using put_delivers [of s a c LinkA b ma nb na mb d data objects] assms by (simp add: pair_open_def)

lemma put_from_b:
  assumes "pair_open s c a b ma mb na nb" "nb \<noteq> - 1"
  shows "\<exists>s'. router_put (router_flush (Suc (Suc d))) b data objects s = Ok (None, s') \<and>
    pair_open s' c a b (ma @ [(data, objects)]) mb na (nb + 1)"
  using put_delivers [of s b c LinkB a mb na nb ma d data objects] assms by (auto simp: pair_open_def fun_upd_twist)

lemma opened_pair:
  assumes "open_portals s = Ok ((a, b), s')" "\<not> nd_keep_queued s"
  shows "pair_open s' (length (nd_cells s)) a b [] [] 0 0"
proof -
  have "a \<noteq> b" using assms by (auto simp: open_portals_def succ64_def Let_def split: if_splits prod.splits)
  with assms show ?thesis
    by (auto simp: open_portals_def node_local_pair_def local_pair_def Let_def set_router_def pair_open_def
        new_terminal_def open_end_def pair_link_def queue_new_def queue_at_def split: if_splits)
qed
text \<open>Traffic on a pair: what each end sends, in the order of the calls.\<close>

fun run_puts :: "flush \<Rightarrow> u64 \<Rightarrow> u64 \<Rightarrow> (bool \<times> byte list \<times> parcel_object list) list \<Rightarrow> node \<Rightarrow> node routing" where
  "run_puts fl a b [] s = Ok s"
| "run_puts fl a b ((from_a, data, objects) # ps) s =
     obind (router_put fl (if from_a then a else b) data objects s) (\<lambda>(_, s). run_puts fl a b ps s)"

definition sent_by :: "bool \<Rightarrow> (bool \<times> byte list \<times> parcel_object list) list \<Rightarrow> portal" where
  "sent_by x ps = map snd (filter (\<lambda>p. fst p = x) ps)"

lemma succ_below: "unat n + Suc k < 2 ^ 64 \<Longrightarrow> n \<noteq> - 1 \<and> unat (n + 1 :: u64) + k < 2 ^ 64"
  using unat_succ64 [of n] by (cases "n = - 1") (auto simp: unsigned_minus_1_eq_mask mask_eq_exp_minus_1)

lemma run_puts_open:
  assumes "pair_open s c a b ma mb na nb" "unat na + length ps < 2 ^ 64" "unat nb + length ps < 2 ^ 64"
  shows "\<exists>s' na' nb'. run_puts (router_flush (Suc (Suc d))) a b ps s = Ok s' \<and>
    pair_open s' c a b (ma @ sent_by False ps) (mb @ sent_by True ps) na' nb'"
  using assms
proof (induction ps arbitrary: s ma mb na nb)
  case Nil
  then show ?case by (auto simp: sent_by_def)
next
  case (Cons p ps)
  obtain x data objects where p: "p = (x, data, objects)" by (cases p)
  have na: "na \<noteq> - 1" "unat (na + 1) + length ps < 2 ^ 64" "unat na + length ps < 2 ^ 64"
    using succ_below [of na "length ps"] Cons.prems(2) by simp_all
  have nb: "nb \<noteq> - 1" "unat (nb + 1) + length ps < 2 ^ 64" "unat nb + length ps < 2 ^ 64"
    using succ_below [of nb "length ps"] Cons.prems(3) by simp_all
  show ?case
  proof (cases x)
    case True
    obtain s' where s': "router_put (router_flush (Suc (Suc d))) a data objects s = Ok (None, s')"
        "pair_open s' c a b ma (mb @ [(data, objects)]) (na + 1) nb"
      using put_from_a [OF Cons.prems(1) na(1)] by blast
    show ?thesis using Cons.IH [OF s'(2) na(2) nb(3)] s'(1) True by (auto simp: p sent_by_def)
  next
    case False
    obtain s' where s': "router_put (router_flush (Suc (Suc d))) b data objects s = Ok (None, s')"
        "pair_open s' c a b (ma @ [(data, objects)]) mb na (nb + 1)"
      using put_from_b [OF Cons.prems(1) nb(1)] by blast
    show ?thesis using Cons.IH [OF s'(2) na(3) nb(2)] s'(1) False by (auto simp: p sent_by_def)
  qed
qed

text \<open>What remains of the ends after one closed: no links, and the other end knows how long the sequence was.\<close>

definition closed_end :: "portal \<Rightarrow> u64 \<Rightarrow> u64 \<Rightarrow> router" where
  "closed_end messages nin nout = bare_router\<lparr>ro_portal := Some messages, ro_inbound := queue_at nin,
     ro_outbound := (queue_at nout)\<lparr>pq_final := Some nout\<rparr>\<rparr>"

definition bereft_end :: "portal \<Rightarrow> u64 \<Rightarrow> u64 \<Rightarrow> router" where
  "bereft_end messages nin nout = bare_router\<lparr>ro_portal := Some messages, ro_peer_closed := True,
     ro_inbound := (queue_at nin)\<lparr>pq_final := Some nin\<rparr>, ro_outbound := queue_at nout\<rparr>"

lemma closing_queue [simp]:
  "pop_all ((queue_at n)\<lparr>pq_final := f\<rparr>) = Some ([], (queue_at n)\<lparr>pq_final := f\<rparr>)"
  "contiguous_length (pq_buffer ((queue_at n)\<lparr>pq_final := f\<rparr>)) m = Some m"
  "Router.collect e ((queue_at n)\<lparr>pq_final := f\<rparr>) = Some ([], (queue_at n)\<lparr>pq_final := f\<rparr>)"
  by (simp_all add: pop_all.simps queue_pop_def queue_at_def contiguous_length.simps Router.collect.simps has_next_element_def)

lemma flush_bereft:
  assumes "nd_routers s rid = Some (open_end c side peer ms nin nout\<lparr>ro_peer_closed := True,
      ro_inbound := (queue_at nin)\<lparr>pq_final := Some nin\<rparr>\<rparr>)"
  shows "router_flush (Suc d) rid False s = Ok (set_router s rid (bereft_end ms nin nout))"
  using assms by (simp add: router_flush.simps(2) router_flush_with_def flush_forward_def settle_defs open_end_def
      deliver_to_portal_def pair_link_def Let_def split_beta release_primary_link_def bereft_end_def bare_router_def edge_default_def
      del: obind_eq_Ok)

lemma close_reaches_peer:
  assumes "pair_open s c a b ma mb na nb"
  shows "\<exists>s'. close_route (router_flush (Suc (Suc d))) a s = Ok s' \<and>
    nd_routers s' a = Some (closed_end ma nb na) \<and> nd_routers s' b = Some (bereft_end mb na nb)"
proof -
  let ?r = "open_end c LinkA b ma nb na\<lparr>ro_outbound := (queue_at na)\<lparr>pq_final := Some na\<rparr>\<rparr>"
  let ?s = "set_router s a ?r"
  let ?c = "\<lparr>ll_status = STABLE OR LOCKED_BY_SIDE_A, ll_allowed_source = 0\<rparr>"
  let ?s1 = "set_router (set_cell s c ?c) a (closed_end ma nb na)"
  let ?r2 = "open_end c LinkB a mb na nb\<lparr>ro_peer_closed := True, ro_inbound := (queue_at na)\<lparr>pq_final := Some na\<rparr>\<rparr>"
  let ?s2 = "set_router ?s1 b (bereft_end mb na nb)"
  have start: "close_route (router_flush (Suc (Suc d))) a s = router_flush (Suc (Suc d)) a False ?s"
    using assms by (simp add: pair_open_def close_route_def get_router_def ok_or_def open_end_def set_final_sequence_length_def)
  have lock: "try_lock_link_for_closure (pair_link c LinkA b) ?s = Ok (True, set_cell ?s c ?c)"
    using assms by (simp add: pair_open_def try_lock_link_for_closure_def pair_link_def cell_for_def local_try_lock_def
        local_state_new_def numeral_2_eq_2 is_a_def locked_of_def)
  have kind: "li_kind (pair_link c LinkA b) = Central" by (simp add: pair_link_def)
  have ne: "b \<noteq> a" using assms by (simp add: pair_open_def eq_commute)
  have told: "deliver_route_closed (router_flush (Suc d)) (pair_link c LinkA b) na ?s1 = Ok ?s2"
  proof -
    have "deliver_route_closed (router_flush (Suc d)) (pair_link c LinkA b) na ?s1 =
        router_flush (Suc d) b False (set_router ?s1 b ?r2)"
      using assms ne by (simp add: pair_open_def deliver_route_closed_def pair_link_def router_route_closed_local_def
          get_router_def ok_or_def kind_is_outward_def set_final_sequence_length_def open_end_def)
    then show ?thesis by (simp add: flush_bereft)
  qed
  have "router_flush (Suc (Suc d)) a False ?s = Ok ?s2"
    using assms lock told kind by (simp add: pair_open_def router_flush.simps(2) [of "Suc d"] router_flush_with_def flush_forward_def settle_defs open_end_def
        deliver_to_portal_def Let_def split_beta release_primary_link_def closed_end_def bare_router_def edge_default_def
        del: obind_eq_Ok)
  with start assms show ?thesis by (simp add: pair_open_def)
qed
text \<open>C6: A pair that \<open>open_portals\<close> makes is two lossless queues: whatever the two ends send, in whatever interleaving, every
  \<open>put\<close> succeeds and each portal holds exactly what the other end sent, in order.  When one end then closes, the
  other keeps those messages and learns that its peer closed after all of them.  Two nested flushes are
  enough.\<close>

theorem local_pair_delivers:
  assumes "open_portals s = Ok ((a, b), s1)" "\<not> nd_keep_queued s" "length ps < 2 ^ 64" "2 \<le> depth"
  shows "\<exists>s2 s3 ra rb. run_puts (router_flush depth) a b ps s1 = Ok s2 \<and> close_route (router_flush depth) a s2 = Ok s3 \<and>
    nd_routers s3 a = Some ra \<and> ro_portal ra = Some (sent_by False ps) \<and>
    nd_routers s3 b = Some rb \<and> ro_portal rb = Some (sent_by True ps) \<and>
    ro_peer_closed rb \<and> is_sequence_fully_consumed (ro_inbound rb) \<and> ed_primary (ro_outward rb) = None"
proof -
  obtain d where d: "depth = Suc (Suc d)"
    using assms(4) by (metis One_nat_def Suc_1 Suc_le_D Suc_le_mono)
  obtain s2 na nb c where "run_puts (router_flush depth) a b ps s1 = Ok s2"
      "pair_open s2 c a b (sent_by False ps) (sent_by True ps) na nb"
    using run_puts_open [OF opened_pair [OF assms(1,2)], of ps d] assms(3) d by auto
  moreover from close_reaches_peer [OF this(2), of d] obtain s3 where
      "close_route (router_flush depth) a s2 = Ok s3" "nd_routers s3 a = Some (closed_end (sent_by False ps) nb na)"
      "nd_routers s3 b = Some (bereft_end (sent_by True ps) na nb)"
    using d by blast
  ultimately show ?thesis
    by (auto simp: closed_end_def bereft_end_def bare_router_def is_sequence_fully_consumed_def edge_default_def)
qed

lemma local_pair_delivers_witness:
  "\<exists>s1 s2 s3 ra rb. open_portals node_new = Ok ((LOCAL_RID_BASE, LOCAL_RID_BASE + 1), s1) \<and>
    run_puts (router_flush 2) LOCAL_RID_BASE (LOCAL_RID_BASE + 1)
      [(True, [1, 2], []), (False, [3], []), (True, [], [ObjRouter 7])] s1 = Ok s2 \<and>
    close_route (router_flush 2) LOCAL_RID_BASE s2 = Ok s3 \<and>
    nd_routers s3 LOCAL_RID_BASE = Some ra \<and> ro_portal ra = Some [([3], [])] \<and>
    nd_routers s3 (LOCAL_RID_BASE + 1) = Some rb \<and> ro_portal rb = Some [([1, 2], []), ([], [ObjRouter 7])] \<and>
    ro_peer_closed rb \<and> is_sequence_fully_consumed (ro_inbound rb) \<and> ed_primary (ro_outward rb) = None"
proof -
  have "\<exists>s1. open_portals node_new = Ok ((LOCAL_RID_BASE, LOCAL_RID_BASE + 1), s1)"
    by (simp add: open_portals_def node_new_def succ64_def LOCAL_RID_BASE_def Let_def node_local_pair_def local_pair_def)
  then obtain s1 where s1: "open_portals node_new = Ok ((LOCAL_RID_BASE, LOCAL_RID_BASE + 1), s1)" by blast
  have "\<not> nd_keep_queued node_new" by (simp add: node_new_def)
  with local_pair_delivers [OF s1, of "[(True, [1, 2], []), (False, [3], []), (True, [], [ObjRouter 7])]" 2] s1
  show ?thesis by (simp add: sent_by_def del: run_puts.simps)
qed

end
