(* ===== verification/RoutingDepth.thy ===== *)
theory RoutingDepth
  imports RoutingMessages IpczCodec
begin

text \<open>
  The bound on the depth of calls: every operation is monotonic in the operations it calls, so a bound that is
  large enough for a message to be handled without a panic can be replaced by any larger one.
\<close>

section \<open>Deeper calls change nothing\<close>

text \<open>An outcome that is below another is the same or a panic.\<close>

definition below :: "('e, 'a) outcome \<Rightarrow> ('e, 'a) outcome \<Rightarrow> bool" where
  "below x y \<longleftrightarrow> x = Panic \<or> x = y"

definition flush_below :: "flush \<Rightarrow> flush \<Rightarrow> bool" where
  "flush_below fl fl' \<longleftrightarrow> (\<forall>rid force s. below (fl rid force s) (fl' rid force s))"

definition acceptance_below :: "acceptance \<Rightarrow> acceptance \<Rightarrow> bool" where
  "acceptance_below acc acc' \<longleftrightarrow> (\<forall>p fds i s. below (acc p fds i s) (acc' p fds i s))"

named_theorems below_intros \<open>monotonicity of the operations in the calls they make\<close>

lemma below_refl [below_intros]: "below x x"
  by (simp add: below_def)

lemma below_obind [below_intros]:
  "below m m' \<Longrightarrow> (\<And>a. below (f a) (f' a)) \<Longrightarrow> below (obind m f) (obind m' f')"
  by (cases m) (auto simp: below_def dest: meta_spec)

lemma below_if [below_intros]:
  "(b \<Longrightarrow> below x x') \<Longrightarrow> (\<not> b \<Longrightarrow> below y y') \<Longrightarrow> below (if b then x else y) (if b then x' else y')"
  by simp

lemma below_option [below_intros]:
  "below x x' \<Longrightarrow> (\<And>a. below (f a) (f' a)) \<Longrightarrow>
   below (case v of None \<Rightarrow> x | Some a \<Rightarrow> f a) (case v of None \<Rightarrow> x' | Some a \<Rightarrow> f' a)"
  by (cases v) simp_all

lemma below_prod [below_intros]:
  "(\<And>a b. below (f a b) (f' a b)) \<Longrightarrow> below (case v of (a, b) \<Rightarrow> f a b) (case v of (a, b) \<Rightarrow> f' a b)"
  by (cases v) simp_all

lemma below_prod_applied [below_intros]:
  "(\<And>a b. below (f a b x) (f' a b x)) \<Longrightarrow> below ((case v of (a, b) \<Rightarrow> f a b) x) ((case v of (a, b) \<Rightarrow> f' a b) x)"
  by (cases v) simp_all

lemma below_list [below_intros]:
  "below x x' \<Longrightarrow> (\<And>a as. below (f a as) (f' a as)) \<Longrightarrow>
   below (case v of [] \<Rightarrow> x | a # as \<Rightarrow> f a as) (case v of [] \<Rightarrow> x' | a # as \<Rightarrow> f' a as)"
  by (cases v) simp_all

lemma below_kind [below_intros]:
  "below a a' \<Longrightarrow> below b b' \<Longrightarrow> below c c' \<Longrightarrow> below d d' \<Longrightarrow>
   below (case k of Central \<Rightarrow> a | PeripheralOutward \<Rightarrow> b | PeripheralInward \<Rightarrow> c | Bridge \<Rightarrow> d)
     (case k of Central \<Rightarrow> a' | PeripheralOutward \<Rightarrow> b' | PeripheralInward \<Rightarrow> c' | Bridge \<Rightarrow> d')"
  by (cases k) simp_all

lemma below_outcome [below_intros]:
  "(\<And>a. below (f a) (f' a)) \<Longrightarrow> (\<And>e. below (g e) (g' e)) \<Longrightarrow> below p p' \<Longrightarrow>
   below (case v of Ok a \<Rightarrow> f a | Err e \<Rightarrow> g e | Panic \<Rightarrow> p) (case v of Ok a \<Rightarrow> f' a | Err e \<Rightarrow> g' e | Panic \<Rightarrow> p')"
  by (cases v) simp_all

lemma below_let [below_intros]: "(\<And>a. below (f a) (f' a)) \<Longrightarrow> below (Let v f) (Let v f')"
  by simp

lemma flush_belowD: "flush_below fl fl' \<Longrightarrow> below (fl rid force s) (fl' rid force s)"
  by (simp add: flush_below_def)

lemma acceptance_belowD: "acceptance_below acc acc' \<Longrightarrow> below (acc p fds i s) (acc' p fds i s)"
  by (simp add: acceptance_below_def)

lemma below_step [below_intros]:
  assumes "flush_below fl fl'"
  shows "below (flush_other_side_if_waiting fl l s) (flush_other_side_if_waiting fl' l s)"
    "below (begin_proxying fl rid d i s) (begin_proxying fl' rid d i s)"
    "below (router_route_closed_local fl rid k len s) (router_route_closed_local fl' rid k len s)"
    "below (start_bridge_bypass_from_local_peer fl rid ls s) (start_bridge_bypass_from_local_peer fl' rid ls s)"
    "below (bypass_between_local_peers fl rid a b c s) (bypass_between_local_peers fl' rid a b c s)"
  unfolding flush_other_side_if_waiting_def begin_proxying_def router_route_closed_local_def
    start_bridge_bypass_from_local_peer_def bypass_between_local_peers_def
  by (intro below_intros flush_belowD [OF assms] assms)+
lemma below_transmit_parcel [below_intros]:
  "flush_below fl fl' \<Longrightarrow> below (transmit_parcel fl l p s) (transmit_parcel fl' l p s)"
proof -
  assume fl: "flush_below fl fl'"
  have all: "below (begin_proxying_all fl ds i s) (begin_proxying_all fl' ds i s)" for ds i s
    by (induction ds arbitrary: s) (auto intro!: below_intros flush_belowD [OF fl] fl)
  show ?thesis unfolding transmit_parcel_def Let_def by (intro below_intros all flush_belowD [OF fl] fl)
qed

lemma below_transmit_all [below_intros]:
  assumes "flush_below fl fl'"
  shows "below (transmit_all fl ps s) (transmit_all fl' ps s)"
  by (induction ps arbitrary: s) (auto intro!: below_intros flush_belowD [OF assms] assms)

lemma below_closures [below_intros]:
  assumes "flush_below fl fl'"
  shows "below (deliver_route_closed fl l n s) (deliver_route_closed fl' l n s)"
    "below (deliver_closed_opt fl c s) (deliver_closed_opt fl' c s)"
    "below (bypass_from_local_peer fl rid i s) (bypass_from_local_peer fl' rid i s)"
    "below (maybe_start_bridge_bypass fl rid s) (maybe_start_bridge_bypass fl' rid s)"
  unfolding deliver_closed_opt_def deliver_route_closed_def bypass_from_local_peer_def maybe_start_bridge_bypass_def
  by (intro below_intros flush_belowD [OF assms] assms)+

lemma below_flush_with:
  assumes "flush_below fl fl'"
  shows "flush_below (router_flush_with fl) (router_flush_with fl')"
  unfolding flush_below_def router_flush_with_def flush_forward_def flush_bypass_def
  by (intro allI below_intros flush_belowD [OF assms] assms)

lemma flush_below_Suc: "flush_below (router_flush d) (router_flush (Suc d))"
proof (induction d)
  case 0
  then show ?case by (simp add: flush_below_def below_def)
next
  case (Suc d)
  from below_flush_with [OF Suc] show ?case unfolding flush_below_def router_flush.simps .
qed

lemma flush_below_le: "d \<le> d' \<Longrightarrow> flush_below (router_flush d) (router_flush d')"
proof (induction d' rule: dec_induct)
  case base
  then show ?case by (simp add: flush_below_def below_def)
next
  case (step n)
  with flush_below_Suc [of n] show ?case unfolding flush_below_def below_def by metis
qed

lemma below_portal_operations [below_intros]:
  assumes "flush_below fl fl'"
  shows "below (router_route_closed fl rid sub n s) (router_route_closed fl' rid sub n s)"
    "below (router_stop_proxying fl rid n m s) (router_stop_proxying fl' rid n m s)"
    "below (stop_proxying_with_peer fl rid a n s) (stop_proxying_with_peer fl' rid a n s)"
    "below (stop_proxying_with_bridge fl rid a n s) (stop_proxying_with_bridge fl' rid a n s)"
    "below (router_proxy_will_stop fl rid n s) (router_proxy_will_stop fl' rid n s)"
    "below (bypass_peer_with_new_remote_link fl rid i j k s) (bypass_peer_with_new_remote_link fl' rid i j k s)"
    "below (on_accept_bypass_link fl al i s) (on_accept_bypass_link fl' al i s)"
    "below (route_parcel fl p i payload objects s) (route_parcel fl' p i payload objects s)"
    "below (on_non_broker_referral_accepted env fl ra fds s) (on_non_broker_referral_accepted env fl' ra fds s)"
  unfolding router_route_closed_def router_stop_proxying_def stop_proxying_with_peer_def stop_proxying_with_bridge_def
    router_proxy_will_stop_def bypass_peer_with_new_remote_link_def on_accept_bypass_link_def route_parcel_def
    on_non_broker_referral_accepted_def
  by (intro below_intros flush_belowD [OF assms] assms)+

lemma below_bypasses [below_intros]:
  assumes "flush_below fl fl'"
  shows "below (router_stop_proxying_to_local_peer fl rid n s) (router_stop_proxying_to_local_peer fl' rid n s)"
    "below (complete_pending_intro fl name p s) (complete_pending_intro fl' name p s)"
    "below (establish_link fl name p s) (establish_link fl' name p s)"
    "below (router_bypass_peer fl rid i target k s) (router_bypass_peer fl' rid i target k s)"
  unfolding router_stop_proxying_to_local_peer_def complete_pending_intro_def establish_link_def router_bypass_peer_def
  by (intro below_intros flush_belowD [OF assms] assms)+

lemma below_introductions [below_intros]:
  assumes "flush_below fl fl'"
  shows "below (complete_all fl name ps s) (complete_all fl' name ps s)"
    "below (on_accept_introduction env fl a fds s) (on_accept_introduction env fl' a fds s)"
    "below (on_reject_introduction fl name s) (on_reject_introduction fl' name s)"
proof -
  show all: "below (complete_all fl name ps s) (complete_all fl' name ps s)" for name ps s
    by (induction ps arbitrary: s) (auto intro!: below_intros flush_belowD [OF assms] assms)
  show "below (on_accept_introduction env fl a fds s) (on_accept_introduction env fl' a fds s)"
    "below (on_reject_introduction fl name s) (on_reject_introduction fl' name s)"
    unfolding on_accept_introduction_def on_reject_introduction_def by (intro below_intros all flush_belowD [OF assms] assms)+
qed

lemma below_accept_all [below_intros]:
  assumes "acceptance_below acc acc'"
  shows "below (accept_all acc ps s) (accept_all acc' ps s)"
proof (induction ps arbitrary: s)
  case Nil
  show ?case by (simp add: below_refl)
next
  case (Cons q ps)
  then show ?case by (cases q) (auto intro!: below_intros acceptance_belowD [OF assms])
qed

lemma below_deserialize [below_intros]:
  assumes "flush_below fl fl'" "acceptance_below acc acc'"
  shows "below (router_deserialize fl acc d i s) (router_deserialize fl' acc' d i s)"
    "below (deserialize_all fl acc bs i s) (deserialize_all fl' acc' bs i s)"
    "below (accept_payload fl acc p fds i payload s) (accept_payload fl' acc' p fds i payload s)"
    "below (on_bypass_peer_with_link fl acc b i s) (on_bypass_peer_with_link fl' acc' b i s)"
    "below (on_add_block_buffer env acc ab fds i s) (on_add_block_buffer env acc' ab fds i s)"
proof -
  show deser: "below (router_deserialize fl acc d i s) (router_deserialize fl' acc' d i s)" for d i s
    unfolding router_deserialize_def replay_def by (intro below_intros flush_belowD [OF assms(1)] acceptance_belowD [OF assms(2)] assms)
  show all: "below (deserialize_all fl acc bs i s) (deserialize_all fl' acc' bs i s)" for bs i s
    by (induction bs arbitrary: s) (auto simp: deserialize_descriptor_def intro!: below_intros deser)
  show "below (accept_payload fl acc p fds i payload s) (accept_payload fl' acc' p fds i payload s)"
    "below (on_bypass_peer_with_link fl acc b i s) (on_bypass_peer_with_link fl' acc' b i s)"
    "below (on_add_block_buffer env acc ab fds i s) (on_add_block_buffer env acc' ab fds i s)"
    unfolding accept_payload_def deserialize_portals_def on_bypass_peer_with_link_def on_add_block_buffer_def replay_def
    by (intro below_intros all flush_belowD [OF assms(1)] acceptance_belowD [OF assms(2)] assms)+
qed

lemma below_accept_parcel:
  assumes "flush_below fl fl'" "acceptance_below acc acc'"
  shows "acceptance_below (accept_parcel_with fl acc) (accept_parcel_with fl' acc')"
  unfolding acceptance_below_def accept_parcel_with_def by (intro allI below_intros flush_belowD [OF assms(1)] acceptance_belowD [OF assms(2)] assms)

lemma acceptance_below_Suc: "acceptance_below (process_accept_parcel d) (process_accept_parcel (Suc d))"
proof (induction d)
  case 0
  then show ?case by (simp add: acceptance_below_def below_def)
next
  case (Suc d)
  from below_accept_parcel [OF flush_below_Suc Suc] show ?case
    unfolding acceptance_below_def process_accept_parcel.simps .
qed

lemma acceptance_below_le: "d \<le> d' \<Longrightarrow> acceptance_below (process_accept_parcel d) (process_accept_parcel d')"
proof (induction d' rule: dec_induct)
  case base
  then show ?case by (simp add: acceptance_below_def below_def)
next
  case (step n)
  with acceptance_below_Suc [of n] show ?case unfolding acceptance_below_def below_def by metis
qed

lemma below_dispatch [below_intros]:
  assumes "flush_below fl fl'" "acceptance_below acc acc'"
  shows "below (dispatch_message env fl acc msg fds i s) (dispatch_message env fl' acc' msg fds i s)"
  by (cases msg) (auto simp: on_owner_def intro!: below_intros flush_belowD [OF assms(1)] acceptance_belowD [OF assms(2)] assms)

lemma below_receive:
  assumes "d \<le> d'"
  shows "below (receive_message d env m i s) (receive_message d' env m i s)"
  unfolding receive_message_def by (intro below_intros flush_below_le acceptance_below_le assms)

text \<open>So the bound on the depth of calls is only that: once handling a message ends within a depth - with a result or
  an error, but no panic - it ends the same way within every larger depth.\<close>

lemma message_depth_irrelevant:
  assumes "receive_message d env m i s \<noteq> Panic" "d \<le> d'"
  shows "receive_message d' env m i s = receive_message d env m i s"
  using below_receive [OF assms(2), of env m i s] assms(1) by (auto simp: below_def)

definition example_env :: fd_env where
  "example_env = \<lparr>fe_dup = Some, fe_contents = (\<lambda>_. None), fe_mapped = (\<lambda>_. True), fe_socket = (\<lambda>_. True)\<rparr>"

end
