(* ===== verification/RoutingOwners.thy ===== *)
theory RoutingOwners
  imports RoutingMessages RoutingDepth
begin

text \<open>
  The owners of sublinks: whatever a node handles, a sublink is only ever mapped to a router that exists.
\<close>

section \<open>Owners\<close>

text \<open>Every sublink that has an owner is owned by a router of the node.\<close>

definition owned :: "node \<Rightarrow> bool" where
  "owned s \<longleftrightarrow> (\<forall>k rid. nd_owners s k = Some rid \<longrightarrow> nd_routers s rid \<noteq> None)"

text \<open>A step that keeps the owners and loses no router; a step as an outcome, with and without a result.\<close>

definition same_routes :: "node \<Rightarrow> node \<Rightarrow> bool" where
  "same_routes s s' \<longleftrightarrow> nd_owners s' = nd_owners s \<and> dom (nd_routers s) \<subseteq> dom (nd_routers s')"

definition frame :: "node \<Rightarrow> node routing \<Rightarrow> bool" where
  "frame s m \<longleftrightarrow> (\<forall>s'. m = Ok s' \<longrightarrow> same_routes s s')"

definition frame2 :: "node \<Rightarrow> ('a \<times> node) routing \<Rightarrow> bool" where
  "frame2 s m \<longleftrightarrow> (\<forall>a s'. m = Ok (a, s') \<longrightarrow> same_routes s s')"

named_theorems frames \<open>steps that keep the owners and lose no router\<close>

lemma same_routes_refl [frames]: "same_routes s s"
  by (simp add: same_routes_def)

lemma same_routes_trans: "same_routes s t \<Longrightarrow> same_routes t u \<Longrightarrow> same_routes s u"
  by (auto simp: same_routes_def)

lemma same_routes_owned: "same_routes s t \<Longrightarrow> owned s \<Longrightarrow> owned t"
  by (force simp: same_routes_def owned_def dom_def)

lemma same_routes_router: "same_routes s t \<Longrightarrow> nd_routers s rid \<noteq> None \<Longrightarrow> nd_routers t rid \<noteq> None"
  by (auto simp: same_routes_def dom_def)

lemma same_routes_updates [frames]:
  "same_routes s t \<Longrightarrow> same_routes s (set_router t rid r)"
  "same_routes s t \<Longrightarrow> same_routes s (set_memory t i m)"
  "same_routes s t \<Longrightarrow> same_routes s (set_cell t k c)"
  "same_routes s t \<Longrightarrow> same_routes s (t\<lparr>nd_links := x1\<rparr>)"
  "same_routes s t \<Longrightarrow> same_routes s (t\<lparr>nd_cells := x2\<rparr>)"
  "same_routes s t \<Longrightarrow> same_routes s (t\<lparr>nd_early := x3\<rparr>)"
  "same_routes s t \<Longrightarrow> same_routes s (t\<lparr>nd_held_fds := x4\<rparr>)"
  "same_routes s t \<Longrightarrow> same_routes s (t\<lparr>nd_keep_queued := x5\<rparr>)"
  "same_routes s t \<Longrightarrow> same_routes s (t\<lparr>nd_pending_intros := x6\<rparr>)"
  "same_routes s t \<Longrightarrow> same_routes s (t\<lparr>nd_pending_memory := x7\<rparr>)"
  "same_routes s t \<Longrightarrow> same_routes s (t\<lparr>nd_capacity_pending := x8\<rparr>)"
  "same_routes s t \<Longrightarrow> same_routes s (t\<lparr>nd_pending_fragments := x9\<rparr>)"
  "same_routes s t \<Longrightarrow> same_routes s (t\<lparr>nd_next_rid := y1\<rparr>)"
  "same_routes s t \<Longrightarrow> same_routes s (t\<lparr>nd_bootstrap_rid := y2\<rparr>)"
  "same_routes s t \<Longrightarrow> same_routes s (t\<lparr>nd_a2b_rid := y3\<rparr>)"
  "same_routes s t \<Longrightarrow> same_routes s (t\<lparr>nd_referral_reply_seen := y4\<rparr>)"
  "same_routes s t \<Longrightarrow> same_routes s (t\<lparr>nd_waiting_routers := y5\<rparr>)"
  "same_routes s t \<Longrightarrow> same_routes s (t\<lparr>nd_referrer_name := y6\<rparr>)"
  "same_routes s t \<Longrightarrow> same_routes s (t\<lparr>nd_broker_name := y7\<rparr>)"
  "same_routes s t \<Longrightarrow> same_routes s (t\<lparr>nd_local_name := y8\<rparr>)"
  "same_routes s t \<Longrightarrow> same_routes s (t\<lparr>nd_link_order := y9\<rparr>)"
  by (auto simp: same_routes_def set_router_def set_memory_def set_cell_def)

lemma frame_outcomes [frames]:
  "frame s (Err e)" "frame s Panic" "frame2 s (Err e)" "frame2 s Panic"
  "same_routes s t \<Longrightarrow> frame s (Ok t)" "same_routes s t \<Longrightarrow> frame2 s (Ok (a, t))"
  by (simp_all add: frame_def frame2_def)

lemma frame_chain [frames]:
  "frame s m \<Longrightarrow> (\<And>t. frame t (f t)) \<Longrightarrow> frame s (obind m f)"
  "frame s m \<Longrightarrow> (\<And>t. frame2 t (f2 t)) \<Longrightarrow> frame2 s (obind m f2)"
  "frame2 s m2 \<Longrightarrow> (\<And>a t. frame t (g a t)) \<Longrightarrow> frame s (obind m2 (\<lambda>(a, t). g a t))"
  "frame2 s m2 \<Longrightarrow> (\<And>a t. frame2 t (g2 a t)) \<Longrightarrow> frame2 s (obind m2 (\<lambda>(a, t). g2 a t))"
  by (fastforce simp: frame_def frame2_def intro: same_routes_trans)+

text \<open>Steps that only look at the state.\<close>

lemma frame_pure [frames]:
  "(\<And>a. frame s (f a)) \<Longrightarrow> frame s (obind (get_router t rid msg) f)"
  "(\<And>a. frame s (f1 a)) \<Longrightarrow> frame s (obind (ok_or x1 e1) f1)"
  "(\<And>a. frame s (f2 a)) \<Longrightarrow> frame s (obind (from_option x2) f2)"
  "(\<And>a. frame s (f3 a)) \<Longrightarrow> frame s (obind (map_err h x3) f3)"
  "(\<And>a. frame s (f4 a)) \<Longrightarrow> frame s (obind (memory_for t i) f4)"
  "(\<And>a. frame s (f5 a)) \<Longrightarrow> frame s (obind (remote_name_for t i) f5)"
  "(\<And>a. frame s (f6 a)) \<Longrightarrow> frame s (obind (cell_for t c) f6)"
  "(\<And>a. frame2 s (g a)) \<Longrightarrow> frame2 s (obind (get_router t rid msg) g)"
  "(\<And>a. frame2 s (g1 a)) \<Longrightarrow> frame2 s (obind (ok_or x1 e1) g1)"
  "(\<And>a. frame2 s (g2 a)) \<Longrightarrow> frame2 s (obind (from_option x2) g2)"
  "(\<And>a. frame2 s (g3 a)) \<Longrightarrow> frame2 s (obind (map_err h x3) g3)"
  "(\<And>a. frame2 s (g4 a)) \<Longrightarrow> frame2 s (obind (memory_for t i) g4)"
  "(\<And>a. frame2 s (g5 a)) \<Longrightarrow> frame2 s (obind (remote_name_for t i) g5)"
  "(\<And>a. frame2 s (g6 a)) \<Longrightarrow> frame2 s (obind (cell_for t c) g6)"
  by (auto simp: frame_def frame2_def)

lemma frame_cases [frames]:
  "(b \<Longrightarrow> frame s x) \<Longrightarrow> (\<not> b \<Longrightarrow> frame s y) \<Longrightarrow> frame s (if b then x else y)"
  "(b \<Longrightarrow> frame2 s x2) \<Longrightarrow> (\<not> b \<Longrightarrow> frame2 s y2) \<Longrightarrow> frame2 s (if b then x2 else y2)"
  "frame s x \<Longrightarrow> (\<And>a. frame s (f a)) \<Longrightarrow> frame s (case v of None \<Rightarrow> x | Some a \<Rightarrow> f a)"
  "frame2 s x2 \<Longrightarrow> (\<And>a. frame2 s (f2 a)) \<Longrightarrow> frame2 s (case v of None \<Rightarrow> x2 | Some a \<Rightarrow> f2 a)"
  "(\<And>a b. frame s (g a b)) \<Longrightarrow> frame s (case p of (a, b) \<Rightarrow> g a b)"
  "(\<And>a b. frame2 s (g2 a b)) \<Longrightarrow> frame2 s (case p of (a, b) \<Rightarrow> g2 a b)"
  "frame s (f w) \<Longrightarrow> frame s (Let w f)"
  "frame2 s (f2 w) \<Longrightarrow> frame2 s (Let w f2)"
  by (auto split: option.splits prod.splits)

lemma frame_cases_applied [frames]:
  "(\<And>a b. frame s (g a b x)) \<Longrightarrow> frame s ((case p of (a, b) \<Rightarrow> g a b) x)"
  "(\<And>a b. frame2 s (g2 a b x)) \<Longrightarrow> frame2 s ((case p of (a, b) \<Rightarrow> g2 a b) x)"
  "(\<And>a. frame2 s (h a)) \<Longrightarrow> (\<And>e. frame2 s (k e)) \<Longrightarrow> frame2 s q \<Longrightarrow>
   frame2 s (case r of Ok a \<Rightarrow> h a | Err e \<Rightarrow> k e | Panic \<Rightarrow> q)"
  "frame2 s e1 \<Longrightarrow> frame2 s e2 \<Longrightarrow> frame2 s e3 \<Longrightarrow> frame2 s e4 \<Longrightarrow>
   frame2 s (case e of UnknownBuffer \<Rightarrow> e1 | OutOfBounds \<Rightarrow> e2 | Misaligned \<Rightarrow> e3 | NullDescriptor \<Rightarrow> e4)"
  "same_routes s t \<Longrightarrow> (\<And>a. same_routes s (f a)) \<Longrightarrow> same_routes s (case v of None \<Rightarrow> t | Some a \<Rightarrow> f a)"
  by (auto split: option.splits prod.splits outcome.splits memory_error.splits)

lemma frame_from: "same_routes s t \<Longrightarrow> frame t m \<Longrightarrow> frame s m"
  by (auto simp: frame_def intro: same_routes_trans)

lemma frame2_from: "same_routes s t \<Longrightarrow> frame2 t m \<Longrightarrow> frame2 s m"
  by (auto simp: frame2_def intro: same_routes_trans)

lemma frame_memory [frames]:
  assumes "same_routes s t"
  shows "frame2 s (on_memory i f t)"
  by (rule frame2_from [OF assms]) (auto simp: frame2_def on_memory_def same_routes_def set_memory_def)

lemma frame_send [frames]:
  assumes "same_routes s t"
  shows "frame s (send_link_message_with_fds_on i payload fds t)" "frame s (send_link_message_on i payload t)"
  unfolding send_link_message_on_def send_link_message_with_fds_on_def by (intro frames assms)+

lemma frame_links [frames]:
  assumes "same_routes s t"
  shows "frame s (mark_side_stable_on_link l t)" "frame2 s (try_lock_link_for_closure l t)"
    "frame2 s (try_lock_link_for_bypass l name t)" "frame s (unlock_link_for_bypass l t)"
  unfolding mark_side_stable_on_link_def try_lock_link_for_closure_def try_lock_link_for_bypass_def unlock_link_for_bypass_def
  by (intro frames assms)+

lemma frame_set_outward [frames]: "same_routes s t \<Longrightarrow> frame s (set_outward_link rid l t)"
  unfolding set_outward_link_def by (intro frames)

lemma release_same_routes: "release_link_state l s = (r, t) \<Longrightarrow> same_routes s t"
  by (auto simp: release_link_state_def same_routes_def on_memory_def set_memory_def map_err_def memory_for_def ok_or_def
      split: option.splits if_splits outcome.splits)

lemma frame_release_opt [frames]: "same_routes s t \<Longrightarrow> frame s (release_opt l t)"
  by (auto simp: release_opt_def frame_def dest: release_same_routes intro: same_routes_trans split: option.splits prod.splits)

lemma frame_release_ignoring [frames]: "same_routes s t \<Longrightarrow> frame s (release_ignoring ls t)"
proof (induction ls arbitrary: t)
  case Nil
  then show ?case by (simp add: frames)
next
  case (Cons l ls)
  have "frame s (release_ignoring ls u)" if "release_link_state l t = (r, u)" for r u
    using Cons release_same_routes [OF that] same_routes_trans by blast
  then show ?case
    by (cases "release_link_state l t"; cases "fst (release_link_state l t)") (auto intro: frames)
qed

lemma frame_capacity [frames]:
  assumes "same_routes s t"
  shows "frame s (request_block_capacity n i t)" "frame2 s (write_parcel_fragment_or_inline data i t)"
  unfolding request_block_capacity_def write_parcel_fragment_or_inline_def by (intro frames assms)+

lemma frame_decays [frames]:
  assumes "same_routes s t"
  shows "frame s (decay_outward rid m f to from t)" "frame s (decay_bridge rid m n f to from t)"
    "frame s (decay_bridge_router rid t)" "frame s (adopt_outward rid m l t)"
proof -
  have u: "frame s (update_router rid m f t)" for rid m f
    unfolding update_router_def
    by (rule frame_from [OF assms]) (auto simp: frame_def get_router_def same_routes_def set_router_def)
  show "frame s (decay_outward rid m f to from t)" "frame s (decay_bridge rid m n f to from t)" "frame s (adopt_outward rid m l t)"
    unfolding decay_outward_def decay_bridge_def adopt_outward_def by (rule u)+
  show "frame s (decay_bridge_router rid t)"
    by (rule frame_from [OF assms])
      (auto simp: decay_bridge_router_def frame_def same_routes_def set_router_def split: option.splits)
qed

lemma frame_bypass_remote [frames]:
  "same_routes s t \<Longrightarrow> frame s (bypass_between_remote_peers rid second l l' t)"
  unfolding bypass_between_remote_peers_def by (intro frames)

lemma frame_flush_steps [frames]:
  assumes "same_routes s t"
  shows "frame2 s (flush_finish_decays rid t)" "frame2 s (flush_deliver rid t)"
    "frame2 s (flush_mark_stable rid st b c t)" "frame2 s (flush_closure rid b t)"
  unfolding flush_finish_decays_def flush_deliver_def flush_mark_stable_def flush_closure_def
  by (intro frames assms)+

lemma frame_lengths [frames]:
  assumes "same_routes s t"
  shows "frame s (set_outward_lengths rid to from t)" "frame s (set_inward_lengths rid to from t)"
    "frame s (set_bridge_lengths rid to from t)"
  unfolding set_outward_lengths_def set_inward_lengths_def set_bridge_lengths_def by (intro frames assms)+

section \<open>Preservation\<close>

definition keeps :: "node routing \<Rightarrow> bool" where
  "keeps m \<longleftrightarrow> (\<forall>s'. m = Ok s' \<longrightarrow> owned s')"

definition keeps2 :: "('a \<times> node) routing \<Rightarrow> bool" where
  "keeps2 m \<longleftrightarrow> (\<forall>a s'. m = Ok (a, s') \<longrightarrow> owned s')"

named_theorems keep_intros \<open>steps from a state whose owners exist to such a state\<close>

lemma owned_updates [keep_intros]:
  "owned t \<Longrightarrow> owned (set_router t rid r)"
  "owned t \<Longrightarrow> owned (set_memory t i m)"
  "owned t \<Longrightarrow> owned (set_cell t c x1)"
  "owned t \<Longrightarrow> owned (t\<lparr>nd_early := x3\<rparr>)"
  "owned t \<Longrightarrow> owned (t\<lparr>nd_held_fds := x4\<rparr>)"
  "owned t \<Longrightarrow> owned (t\<lparr>nd_keep_queued := x5\<rparr>)"
  "owned t \<Longrightarrow> owned (t\<lparr>nd_pending_intros := x6\<rparr>)"
  "owned t \<Longrightarrow> owned (t\<lparr>nd_pending_memory := x7\<rparr>)"
  "owned t \<Longrightarrow> owned (t\<lparr>nd_capacity_pending := x8\<rparr>)"
  "owned t \<Longrightarrow> owned (t\<lparr>nd_pending_fragments := x9\<rparr>)"
  "owned t \<Longrightarrow> owned (t\<lparr>nd_next_rid := y1\<rparr>)"
  "owned t \<Longrightarrow> owned (t\<lparr>nd_bootstrap_rid := y2\<rparr>)"
  "owned t \<Longrightarrow> owned (t\<lparr>nd_a2b_rid := y3\<rparr>)"
  "owned t \<Longrightarrow> owned (t\<lparr>nd_referral_reply_seen := y4\<rparr>)"
  "owned t \<Longrightarrow> owned (t\<lparr>nd_waiting_routers := y5\<rparr>)"
  "owned t \<Longrightarrow> owned (t\<lparr>nd_referrer_name := y6\<rparr>)"
  "owned t \<Longrightarrow> owned (insert_link j l t)"
  by (auto simp: owned_def set_router_def set_memory_def set_cell_def insert_link_def)

lemma owned_own [keep_intros]:
  "owned t \<Longrightarrow> owned (own_sublink (set_router t rid r) i k rid)"
  "owned t \<Longrightarrow> owned (set_router (own_sublink t i k rid) rid r)"
  "owned t \<Longrightarrow> owned (set_router (own_sublink (own_sublink t i k rid) i' k' rid) rid r)"
  by (auto simp: owned_def set_router_def own_sublink_def)

lemma owned_own_existing: "owned t \<Longrightarrow> nd_routers t rid \<noteq> None \<Longrightarrow> owned (own_sublink t i k rid)"
  by (auto simp: owned_def own_sublink_def)

lemma keeps_outcomes [keep_intros]:
  "keeps (Err e)" "keeps Panic" "keeps2 (Err e)" "keeps2 Panic"
  "owned t \<Longrightarrow> keeps (Ok t)" "owned t \<Longrightarrow> keeps2 (Ok (a, t))"
  by (simp_all add: keeps_def keeps2_def)

lemma keeps_chain [keep_intros]:
  "keeps m \<Longrightarrow> (\<And>t. owned t \<Longrightarrow> keeps (f t)) \<Longrightarrow> keeps (obind m f)"
  "keeps m \<Longrightarrow> (\<And>t. owned t \<Longrightarrow> keeps2 (f2 t)) \<Longrightarrow> keeps2 (obind m f2)"
  "keeps2 m2 \<Longrightarrow> (\<And>a t. owned t \<Longrightarrow> keeps (g a t)) \<Longrightarrow> keeps (obind m2 (\<lambda>(a, t). g a t))"
  "keeps2 m2 \<Longrightarrow> (\<And>a t. owned t \<Longrightarrow> keeps2 (g2 a t)) \<Longrightarrow> keeps2 (obind m2 (\<lambda>(a, t). g2 a t))"
  by (auto simp: keeps_def keeps2_def)

lemma keeps_pure [keep_intros]:
  "(\<And>a. keeps (f a)) \<Longrightarrow> keeps (obind (get_router t rid msg) f)"
  "(\<And>a. keeps (f1 a)) \<Longrightarrow> keeps (obind (ok_or x1 e1) f1)"
  "(\<And>a. keeps (f2 a)) \<Longrightarrow> keeps (obind (from_option x2) f2)"
  "(\<And>a. keeps (f3 a)) \<Longrightarrow> keeps (obind (map_err h x3) f3)"
  "(\<And>a. keeps (f4 a)) \<Longrightarrow> keeps (obind (memory_for t i) f4)"
  "(\<And>a. keeps (f5 a)) \<Longrightarrow> keeps (obind (remote_name_for t i) f5)"
  "(\<And>a. keeps (f6 a)) \<Longrightarrow> keeps (obind (cell_for t c) f6)"
  "(\<And>r :: router. keeps (f7 r)) \<Longrightarrow> keeps (obind x7 f7)"
  "(\<And>e :: edge. keeps (f8 e)) \<Longrightarrow> keeps (obind x8 f8)"
  "(\<And>u :: unit. keeps (f9 u)) \<Longrightarrow> keeps (obind x9 f9)"
  "(\<And>a. keeps2 (g a)) \<Longrightarrow> keeps2 (obind (get_router t rid msg) g)"
  "(\<And>a. keeps2 (g1 a)) \<Longrightarrow> keeps2 (obind (ok_or x1 e1) g1)"
  "(\<And>a. keeps2 (g2 a)) \<Longrightarrow> keeps2 (obind (from_option x2) g2)"
  "(\<And>a. keeps2 (g3 a)) \<Longrightarrow> keeps2 (obind (map_err h x3) g3)"
  "(\<And>a. keeps2 (g4 a)) \<Longrightarrow> keeps2 (obind (memory_for t i) g4)"
  "(\<And>a. keeps2 (g5 a)) \<Longrightarrow> keeps2 (obind (remote_name_for t i) g5)"
  by (auto simp: keeps_def keeps2_def)

lemma keeps_cases [keep_intros]:
  "(b \<Longrightarrow> keeps x) \<Longrightarrow> (\<not> b \<Longrightarrow> keeps y) \<Longrightarrow> keeps (if b then x else y)"
  "(b \<Longrightarrow> keeps2 x2) \<Longrightarrow> (\<not> b \<Longrightarrow> keeps2 y2) \<Longrightarrow> keeps2 (if b then x2 else y2)"
  "keeps x \<Longrightarrow> (\<And>a. keeps (f a)) \<Longrightarrow> keeps (case v of None \<Rightarrow> x | Some a \<Rightarrow> f a)"
  "keeps2 x2 \<Longrightarrow> (\<And>a. keeps2 (f2 a)) \<Longrightarrow> keeps2 (case v of None \<Rightarrow> x2 | Some a \<Rightarrow> f2 a)"
  "keeps x \<Longrightarrow> (\<And>a as. keeps (k a as)) \<Longrightarrow> keeps (case us of [] \<Rightarrow> x | a # as \<Rightarrow> k a as)"
  "keeps a \<Longrightarrow> keeps b' \<Longrightarrow> keeps c \<Longrightarrow> keeps d \<Longrightarrow>
   keeps (case kd of Central \<Rightarrow> a | PeripheralOutward \<Rightarrow> b' | PeripheralInward \<Rightarrow> c | Bridge \<Rightarrow> d)"
  "(\<And>a b. keeps (g a b)) \<Longrightarrow> keeps (case p of (a, b) \<Rightarrow> g a b)"
  "(\<And>a b. keeps2 (g2 a b)) \<Longrightarrow> keeps2 (case p of (a, b) \<Rightarrow> g2 a b)"
  "(\<And>a b. keeps (h a b z)) \<Longrightarrow> keeps ((case p of (a, b) \<Rightarrow> h a b) z)"
  "keeps (f3 w) \<Longrightarrow> keeps (Let w f3)"
  "keeps2 (f4 w) \<Longrightarrow> keeps2 (Let w f4)"
  by (auto split: option.splits prod.splits list.splits link_kind.splits)

lemma keeps_frame: "owned t \<Longrightarrow> frame t m \<Longrightarrow> keeps m"
  by (auto simp: frame_def keeps_def intro: same_routes_owned)

lemma keeps2_frame: "owned t \<Longrightarrow> frame2 t m \<Longrightarrow> keeps2 m"
  by (auto simp: frame2_def keeps2_def intro: same_routes_owned)

lemma keeps_framed [keep_intros]:
  assumes "owned t"
  shows "keeps2 (on_memory i f t)" "keeps (send_link_message_with_fds_on i payload fds t)"
    "keeps (send_link_message_on i payload t)" "keeps (mark_side_stable_on_link l t)"
    "keeps2 (try_lock_link_for_closure l t)" "keeps2 (try_lock_link_for_bypass l name t)"
    "keeps (unlock_link_for_bypass l t)" "keeps (set_outward_link rid l t)"
    "keeps (request_block_capacity n i t)" "keeps2 (write_parcel_fragment_or_inline data i t)"
    "keeps (decay_outward rid m f2 to from t)" "keeps (decay_bridge rid m n2 f2 to from t)"
    "keeps (adopt_outward rid m l t)" "keeps (bypass_between_remote_peers rid second l l' t)"
    "keeps2 (flush_finish_decays rid t)" "keeps2 (flush_deliver rid t)"
    "keeps2 (flush_mark_stable rid st b c t)" "keeps2 (flush_closure rid b t)"
    "keeps (set_outward_lengths rid to from t)" "keeps (set_inward_lengths rid to from t)"
    "keeps (set_bridge_lengths rid to from t)"
  by (rule keeps_frame [OF assms] keeps2_frame [OF assms], intro frames)+

lemma node_local_pair_owned: "node_local_pair k side a b init t = (ls, t') \<Longrightarrow> owned t \<Longrightarrow> owned t'"
  by (auto simp: node_local_pair_def owned_def split: prod.splits)

lemma keeps_local_pair [keep_intros]:
  "owned t \<Longrightarrow> (\<And>a b u. owned u \<Longrightarrow> keeps (f a b u)) \<Longrightarrow>
   keeps (case node_local_pair k side x y init t of ((a, b), u) \<Rightarrow> f a b u)"
  "owned t \<Longrightarrow> (\<And>a b u. owned u \<Longrightarrow> keeps2 (g a b u)) \<Longrightarrow>
   keeps2 (case node_local_pair k side x y init t of ((a, b), u) \<Rightarrow> g a b u)"
  by (auto dest: node_local_pair_owned split: prod.splits)

lemma keeps_remove [keep_intros]: "owned s \<Longrightarrow> keeps (remove_router rid s)"
proof -
  assume o: "owned s"
  let ?drop = "\<lambda>k. nd_owners s k \<noteq> Some rid"
  have "owned s'" if r: "nd_routers s rid = Some r"
      "release_ignoring ls (s\<lparr>nd_owners := \<lambda>k. if k \<in> S then None else if nd_owners s k = Some rid then None else nd_owners s k\<rparr>) = Ok t"
      "s' = t\<lparr>nd_routers := (nd_routers t)(rid := None)\<rparr>" for r ls S t s'
  proof -
    have "same_routes (s\<lparr>nd_owners := \<lambda>k. if k \<in> S then None else if nd_owners s k = Some rid then None else nd_owners s k\<rparr>) t"
      using r(2) frame_release_ignoring [OF same_routes_refl] unfolding frame_def by blast
    with o r show ?thesis by (fastforce simp: owned_def same_routes_def dom_def split: if_splits)
  qed
  with o show ?thesis
    by (auto simp: keeps_def remove_router_def Let_def split: option.splits)
qed

text \<open>Steps that give a sublink to a router after they have looked it up.\<close>

lemma adopting_router:
  "set_outward_link rid l t = Ok u \<Longrightarrow> nd_routers u rid \<noteq> None"
  "decay_outward rid m f to from t = Ok u \<Longrightarrow> nd_routers u rid \<noteq> None"
  "adopt_outward rid m l t = Ok u \<Longrightarrow> nd_routers u rid \<noteq> None"
  by (auto simp: set_outward_link_def decay_outward_def adopt_outward_def update_router_def get_router_def ok_or_def
      set_router_def split: if_splits option.splits)

lemma keeps_adopting [keep_intros]:
  "owned t \<Longrightarrow> (\<And>u. owned (own_sublink u i k rid) \<Longrightarrow> keeps (f (own_sublink u i k rid))) \<Longrightarrow>
   keeps (obind (set_outward_link rid l t) (\<lambda>u. Let (own_sublink u i k rid) f))"
proof -
  assume t: "owned t" and f: "\<And>u. owned (own_sublink u i k rid) \<Longrightarrow> keeps (f (own_sublink u i k rid))"
  have own: "owned (own_sublink u i k rid)" if "m = Ok u" "keeps m" "nd_routers u rid \<noteq> None" for m u
    using that owned_own_existing by (simp add: keeps_def)
  have "keeps (f (own_sublink u i k rid))" if "set_outward_link rid l t = Ok u" for u
    by (rule f, rule own [OF that keeps_framed(8) [OF t] adopting_router(1) [OF that]])
  then show ?thesis by (auto simp: keeps_def)
qed

lemma keeps_serialize_local [keep_intros]:
  assumes "owned s"
  shows "keeps2 (serialize_router_with_local_peer rid peer i s)"
proof -
  have last: "keeps2 (obind (on_memory i h (set_router t peer x)) (\<lambda>(a, u).
      obind (from_option (succ64 a)) (\<lambda>b.
      obind (get_router (own_sublink (own_sublink u i a peer) i b rid) rid msg) (\<lambda>r. g a u b r))))"
    if t: "owned t" and g: "\<And>a u b r. owned (own_sublink (own_sublink u i a peer) i b rid) \<Longrightarrow> keeps2 (g a u b r)"
    for t h x g msg
  proof -
    have "owned (own_sublink (own_sublink u i a peer) i b rid)"
      if m: "on_memory i h (set_router t peer x) = Ok (a, u)" and r: "nd_routers u rid \<noteq> None" for a u b
    proof -
      have "same_routes (set_router t peer x) u" using frame_memory [OF same_routes_refl, of "set_router t peer x" i h] m by (simp add: frame2_def)
      then have "owned u" "nd_routers u peer \<noteq> None"
        using t owned_updates(1) same_routes_owned same_routes_router [of "set_router t peer x" u peer] by (auto simp: set_router_def)
      with r show ?thesis by (auto simp: owned_def own_sublink_def)
    qed
    with g show ?thesis
      by (force simp: keeps2_def get_router_def ok_or_def own_sublink_def split: option.splits)
  qed
  show ?thesis
    unfolding serialize_router_with_local_peer_def Let_def
    by (intro keep_intros last assms)
qed

lemma keeps_serialize [keep_intros]:
  assumes "owned s"
  shows "keeps2 (serialize_as_proxy rid i l b s)" "keeps2 (serialize_router rid i s)"
proof -
  have proxy: "keeps2 (serialize_as_proxy rid i l b s)" if "owned s" for rid i l b s
    using that unfolding serialize_as_proxy_def
    by (auto simp: keeps2_def get_router_def ok_or_def on_memory_def memory_for_def map_err_def remote_name_for_def Let_def
        intro!: owned_own owned_updates split: option.splits prod.splits outcome.splits if_splits)
  from assms show "keeps2 (serialize_as_proxy rid i l b s)" by (rule proxy)
  show "keeps2 (serialize_router rid i s)"
    unfolding serialize_router_def by (intro keep_intros proxy assms)
qed

lemma keeps_serialize_objects [keep_intros]: "owned s \<Longrightarrow> keeps2 (serialize_objects objs i s)"
proof (induction objs i s rule: serialize_objects.induct)
  case (3 rid objs i s)
  show ?case by (auto intro!: keep_intros 3)
qed (simp_all add: keep_intros)

definition flush_keeps :: "flush \<Rightarrow> bool" where
  "flush_keeps fl \<longleftrightarrow> (\<forall>rid force s. owned s \<longrightarrow> keeps (fl rid force s))"

lemma flush_keepsD: "flush_keeps fl \<Longrightarrow> owned s \<Longrightarrow> keeps (fl rid force s)"
  by (simp add: flush_keeps_def)

lemma keeps_step [keep_intros]:
  assumes "flush_keeps fl" "owned s"
  shows "keeps (flush_other_side_if_waiting fl l s)" "keeps (begin_proxying fl rid d i s)"
    "keeps (router_route_closed_local fl rid k len s)" "keeps (start_bridge_bypass_from_local_peer fl rid ls s)"
    "keeps (bypass_between_local_peers fl rid a b c s)"
  unfolding flush_other_side_if_waiting_def begin_proxying_def router_route_closed_local_def
    start_bridge_bypass_from_local_peer_def bypass_between_local_peers_def
  by (assumption | rule keeps_local_pair | rule keeps_adopting | rule keep_intros flush_keepsD [OF assms(1)] assms)+

lemma keeps_begin_all [keep_intros]:
  "flush_keeps fl \<Longrightarrow> owned s \<Longrightarrow> keeps (begin_proxying_all fl ds i s)"
  by (induction ds arbitrary: s) (auto intro!: keep_intros)

lemma keeps_transmit [keep_intros]:
  assumes "flush_keeps fl" "owned s"
  shows "keeps (transmit_parcel fl l p s)"
  unfolding transmit_parcel_def Let_def
  by (assumption | rule keep_intros flush_keepsD [OF assms(1)] assms)+

lemma keeps_transmit_all [keep_intros]:
  "flush_keeps fl \<Longrightarrow> owned s \<Longrightarrow> keeps (transmit_all fl ps s)"
  by (induction ps arbitrary: s) (auto intro!: keep_intros)

lemma keeps_closures [keep_intros]:
  assumes "flush_keeps fl" "owned s"
  shows "keeps (deliver_route_closed fl l n s)" "keeps (deliver_closed_opt fl c s)"
    "keeps (bypass_from_local_peer fl rid i s)" "keeps (maybe_start_bridge_bypass fl rid s)"
proof -
  show c: "keeps (deliver_route_closed fl l n s)" for l n
    unfolding deliver_route_closed_def by (assumption | rule keep_intros assms)+
  show "keeps (deliver_closed_opt fl c s)"
    unfolding deliver_closed_opt_def by (assumption | rule keep_intros c assms)+
  have b: "keeps (bypass_from_local_peer fl rid i t)" if "owned t" for rid i t
    unfolding bypass_from_local_peer_def by (assumption | rule keep_intros assms(1) that)+
  then show "keeps (bypass_from_local_peer fl rid i s)" using assms(2) by simp
  have node: "keeps (obind (peer_node_of t l) f)" if "\<And>a. keeps (f a)" for t l f
    using that by (auto simp: keeps_def)
  show "keeps (maybe_start_bridge_bypass fl rid s)"
    unfolding maybe_start_bridge_bypass_def
    by (assumption | rule node b | rule keep_intros assms)+
qed

lemma keeps_flush_with:
  assumes "flush_keeps fl"
  shows "flush_keeps (router_flush_with fl)"
  unfolding flush_keeps_def router_flush_with_def flush_forward_def flush_bypass_def
  by (intro allI impI) (assumption | rule keep_intros assms)+

lemma keeps_flush: "flush_keeps (router_flush d)"
proof (induction d)
  case 0
  then show ?case by (simp add: flush_keeps_def keeps_def)
next
  case (Suc d)
  from keeps_flush_with [OF Suc] show ?case unfolding flush_keeps_def router_flush.simps .
qed

section \<open>Messages and portals\<close>

definition acceptance_keeps :: "acceptance \<Rightarrow> bool" where
  "acceptance_keeps acc \<longleftrightarrow> (\<forall>p fds i s. owned s \<longrightarrow> keeps2 (acc p fds i s))"

lemma acceptance_keepsD: "acceptance_keeps acc \<Longrightarrow> owned s \<Longrightarrow> keeps2 (acc p fds i s)"
  by (simp add: acceptance_keeps_def)

lemma keeps_portals [keep_intros]:
  assumes "flush_keeps fl" "owned s"
  shows "keeps2 (router_put fl rid data objects s)" "keeps (close_route fl rid s)"
    "keeps (router_route_closed fl rid sub n s)" "keeps (router_disconnected rid s)"
    "keeps (router_stop_proxying fl rid n m s)" "keeps (stop_proxying_with_peer fl rid a n s)"
    "keeps (stop_proxying_with_bridge fl rid a n s)" "keeps (router_proxy_will_stop fl rid n s)"
  unfolding router_put_def close_route_def router_route_closed_def router_disconnected_def router_stop_proxying_def
    stop_proxying_with_peer_def stop_proxying_with_bridge_def router_proxy_will_stop_def
  by (assumption | rule keep_intros flush_keepsD [OF assms(1)] assms)+

lemma keeps_replace [keep_intros]: "owned s \<Longrightarrow> keeps (replace_outward rid i sub ls n r s)"
  unfolding replace_outward_def by (assumption | rule keep_intros)+

lemma sent_router: "send_link_message_on i payload (set_router t rid r) = Ok u \<Longrightarrow> nd_routers u rid \<noteq> None"
  using frame_send(2) [OF same_routes_refl [of "set_router t rid r"], of i payload] same_routes_router [of "set_router t rid r" u rid]
  by (simp add: frame_def set_router_def)

lemma keeps_new_remote [keep_intros]:
  assumes "flush_keeps fl" "owned s"
  shows "keeps (bypass_peer_with_new_remote_link fl rid i sub j s)"
proof -
  have own: "keeps (obind (send_link_message_on k payload (set_router t rid r)) (\<lambda>u. g (own_sublink u j b rid)))"
    if t: "owned t" and g: "\<And>u. owned u \<Longrightarrow> keeps (g u)" for k payload t r b g
  proof -
    have "keeps (g (own_sublink u j b rid))" if u: "send_link_message_on k payload (set_router t rid r) = Ok u" for u
    proof (rule g, rule owned_own_existing)
      show "owned u" using keeps_framed(3) [OF owned_updates(1) [OF t]] u by (simp add: keeps_def)
      show "nd_routers u rid \<noteq> None" by (rule sent_router [OF u])
    qed
    then show ?thesis by (auto simp: keeps_def)
  qed
  show ?thesis
    unfolding bypass_peer_with_new_remote_link_def decay_with_def Let_def
    by (assumption | rule own | rule keep_intros flush_keepsD [OF assms(1)] assms)+
qed

lemma keeps_bypasses [keep_intros]:
  assumes "flush_keeps fl" "owned s"
  shows "keeps (router_stop_proxying_to_local_peer fl rid n s)" "keeps (complete_pending_intro fl name p s)"
    "keeps (on_accept_bypass_link fl al i s)"
proof -
  show "keeps (router_stop_proxying_to_local_peer fl rid n s)"
    unfolding router_stop_proxying_to_local_peer_def by (assumption | rule keep_intros assms)+
  show "keeps (complete_pending_intro fl name p s)"
    unfolding complete_pending_intro_def by (assumption | rule keep_intros assms)+
  show "keeps (on_accept_bypass_link fl al i s)"
    unfolding on_accept_bypass_link_def by (assumption | rule keep_intros flush_keepsD [OF assms(1)] assms)+
qed

lemma keeps_establish [keep_intros]:
  assumes "flush_keeps fl" "owned s"
  shows "keeps (establish_link fl name p s)" "keeps (router_bypass_peer fl rid i target k s)"
proof -
  show e: "keeps (establish_link fl name p s)" for name p
    unfolding establish_link_def by (assumption | rule keep_intros assms)+
  show "keeps (router_bypass_peer fl rid i target k s)"
    unfolding router_bypass_peer_def by (assumption | rule e | rule keep_intros assms)+
qed

lemma keeps_complete_all [keep_intros]: "flush_keeps fl \<Longrightarrow> owned s \<Longrightarrow> keeps (complete_all fl name ps s)"
  by (induction ps arbitrary: s) (auto intro!: keep_intros)

lemma keeps_accept_all [keep_intros]:
  assumes "acceptance_keeps acc"
  shows "owned s \<Longrightarrow> keeps (accept_all acc ps s)"
proof (induction ps arbitrary: s)
  case Nil
  then show ?case by (simp add: keep_intros)
next
  case (Cons q ps)
  then show ?case by (cases q) (auto intro!: keep_intros acceptance_keepsD [OF assms])
qed

lemma keeps_early [keep_intros]:
  "owned t \<Longrightarrow> (\<And>ps u. owned u \<Longrightarrow> keeps (f ps u)) \<Longrightarrow> keeps (case early_for i k t of (ps, u) \<Rightarrow> f ps u)"
  "owned t \<Longrightarrow> (\<And>ps u. owned u \<Longrightarrow> keeps2 (g ps u)) \<Longrightarrow> keeps2 (case early_for i k t of (ps, u) \<Rightarrow> g ps u)"
  "owned t \<Longrightarrow> (\<And>ps u. owned u \<Longrightarrow> keeps2 (g ps u)) \<Longrightarrow>
   keeps2 (case (if q then early_for i k t else ([], t)) of (ps, u) \<Rightarrow> g ps u)"
  by (auto simp: early_for_def owned_def)

lemma keeps_deserialize [keep_intros]:
  assumes "flush_keeps fl" "acceptance_keeps acc" "owned s"
  shows "keeps2 (router_deserialize fl acc d i s)" "keeps (on_bypass_peer_with_link fl acc b i s)"
proof -
  have start: "owned (set_router (if q then own_sublink (own_sublink s i k k) i dk k else own_sublink s i k k) k r)"
    for q k dk r
    using assms(3) by (auto intro: owned_own)
  have pure1: "keeps2 (obind (deserialized_link_state d i s) f)" if "\<And>a. keeps2 (f a)"
    for f :: "fragment option \<Rightarrow> (u64 \<times> node) routing"
    using that by (auto simp: keeps2_def)
  have pure2: "keeps2 (obind (deserialized_router d i v) f)" if "\<And>r. keeps2 (f r)"
    for v and f :: "router \<Rightarrow> (u64 \<times> node) routing"
    using that by (auto simp: keeps2_def)
  show "keeps2 (router_deserialize fl acc d i s)"
    unfolding router_deserialize_def replay_def Let_def
    by (assumption | rule start | rule keeps_early | rule pure1 pure2 | rule keep_intros flush_keepsD [OF assms(1)] assms)+
  show "keeps (on_bypass_peer_with_link fl acc b i s)"
    unfolding on_bypass_peer_with_link_def replay_def
    by (assumption | rule keeps_early | rule keep_intros flush_keepsD [OF assms(1)] assms)+
qed

lemma keeps_deserialize_all [keep_intros]:
  assumes "flush_keeps fl" "acceptance_keeps acc"
  shows "owned s \<Longrightarrow> keeps2 (deserialize_all fl acc bs i s)"
proof (induction bs arbitrary: s)
  case Nil
  then show ?case by (simp add: keep_intros)
next
  case (Cons b bs)
  then show ?case by (auto simp: deserialize_descriptor_def intro!: keep_intros assms)
qed

lemma keeps_accept [keep_intros]:
  assumes "flush_keeps fl" "acceptance_keeps acc" "owned s"
  shows "keeps (route_parcel fl p i payload objects s)" "keeps2 (accept_payload fl acc p fds i payload s)"
    "keeps2 (accept_parcel_with fl acc p fds i s)" "keeps (on_add_block_buffer env acc ab fds i s)"
proof -
  have route: "keeps (route_parcel fl p i payload objects t)" if "owned t" for payload objects t
    unfolding route_parcel_def by (assumption | rule keep_intros flush_keepsD [OF assms(1)] that)+
  then show "keeps (route_parcel fl p i payload objects s)" using assms(3) by simp
  have assembled: "keeps2 (obind (assemble_objects ts a) f)" if "\<And>a. keeps2 (f a)"
    for ts a and f :: "assembled \<Rightarrow> (processed \<times> node) routing"
    using that by (auto simp: keeps2_def)
  show payload: "keeps2 (accept_payload fl acc p fds i payload s)" for payload
    unfolding accept_payload_def deserialize_portals_def
    by (assumption | rule route | rule assembled | rule keep_intros assms)+
  have "owned (defer_parcel p fds i s)" using assms(3) by (simp add: owned_def defer_parcel_def Let_def)
  with payload show "keeps2 (accept_parcel_with fl acc p fds i s)"
    by (auto simp: accept_parcel_with_def keeps2_def split: outcome.splits)
  have dup: "keeps (obind (nth_dup env fds k msg) f)" if "\<And>a. keeps (f a)" for k msg and f :: "fd \<Rightarrow> node routing"
    using that by (auto simp: keeps_def)
  show "keeps (on_add_block_buffer env acc ab fds i s)"
    unfolding on_add_block_buffer_def Let_def by (assumption | rule dup | rule keep_intros assms)+
qed

lemma keeps_process: "acceptance_keeps (process_accept_parcel d)"
proof (induction d)
  case 0
  then show ?case by (simp add: acceptance_keeps_def keeps2_def)
next
  case (Suc d)
  from keeps_accept(3) [OF keeps_flush Suc] show ?case by (simp add: acceptance_keeps_def)
qed

lemma keeps_bootstrap [keep_intros]:
  assumes "owned s"
  shows "keeps (setup_bootstrap_bridge rid s)" "keeps (mark_initial_links_stable_on i s)"
proof -
  show "keeps (setup_bootstrap_bridge rid s)"
    unfolding setup_bootstrap_bridge_def Let_def
    by (assumption | rule keeps_local_pair | rule keep_intros assms)+
  have "keeps (mark_side_b_stable i k t)" if "owned t" for k t
    unfolding mark_side_b_stable_def by (assumption | rule keep_intros that)+
  then show "keeps (mark_initial_links_stable_on i s)"
    unfolding mark_initial_links_stable_on_def using assms by (auto intro!: keep_intros)
qed

lemma keeps_bind_waiting [keep_intros]: "owned s \<Longrightarrow> keeps (bind_waiting ws s)"
proof (induction ws s rule: bind_waiting.induct)
  case (2 k rid rest s)
  let ?m = "adopt_outward rid ''waiting router missing''
    (remote_link LINK_ID_DIRECT (of_nat k) Central LinkA (Some (initial_state k))) s"
  have "keeps (bind_waiting rest (own_sublink u LINK_ID_DIRECT (of_nat k) rid))" if u: "?m = Ok u" for u
  proof (rule 2(1), rule owned_own_existing)
    show "owned u" using keeps_framed(13) [OF 2(2)] u by (simp add: keeps_def)
    show "nd_routers u rid \<noteq> None" by (rule adopting_router(3) [OF u])
  qed
  then show ?case by (auto simp: keeps_def)
qed (simp add: keep_intros)

lemma keeps_introductions [keep_intros]:
  assumes "flush_keeps fl" "owned s"
  shows "keeps (on_accept_introduction env fl a fds s)" "keeps (on_reject_introduction fl name s)"
    "keeps (on_non_broker_referral_accepted env fl ra fds s)" "keeps (on_provide_memory env n f i s)"
proof -
  have dup: "keeps (obind (nth_dup env fds k msg) g)" "keeps (obind (try_dup env f) g)" if "\<And>a. keeps (g a)"
    for k msg and g :: "fd \<Rightarrow> node routing"
    using that by (auto simp: keeps_def)
  have adopt: "keeps (obind (adopt_link env a b n) g)" if "\<And>a. keeps (g a)" for a b n and g :: "node_link \<Rightarrow> node routing"
    using that by (auto simp: keeps_def)
  have taken: "keeps (case take_pending_intros n t of (ps, u) \<Rightarrow> complete_all fl m ps u)" if "owned t" for n m t
    using that assms(1) by (auto simp: take_pending_intros_def intro!: keep_intros)
  show "keeps (on_accept_introduction env fl a fds s)" "keeps (on_reject_introduction fl name s)"
    unfolding on_accept_introduction_def on_reject_introduction_def
    by (assumption | rule taken | rule dup adopt | rule keep_intros assms)+
  show "keeps (on_non_broker_referral_accepted env fl ra fds s)"
    unfolding on_non_broker_referral_accepted_def Let_def
    by (assumption | rule dup adopt | rule keep_intros flush_keepsD [OF assms(1)] assms)+
  show "keeps (on_provide_memory env n f i s)"
    unfolding on_provide_memory_def Let_def
    by (assumption | rule dup | rule keep_intros assms)+
qed

lemma keeps_dispatch [keep_intros]:
  assumes "flush_keeps fl" "acceptance_keeps acc" "owned s"
  shows "keeps (dispatch_message env fl acc msg fds i s)"
proof (cases msg)
  case (ProvideMemory n)
  then show ?thesis using assms(1,3) by (auto intro!: keep_intros split: list.splits)
qed (use assms in \<open>auto simp: on_owner_def on_request_memory_def intro!: keep_intros acceptance_keepsD
    flush_keepsD [OF assms(1)] split: option.splits\<close>)

lemma keeps_portals_of_broker: "owned s \<Longrightarrow> keeps (initial_portals ks s)"
proof (induction ks arbitrary: s)
  case (Cons k ks)
  have "keeps (initial_portal k s)"
    unfolding initial_portal_def Let_def by (assumption | rule keep_intros Cons.prems)+
  with Cons.IH show ?case by (auto intro!: keep_intros)
qed (simp add: keep_intros)

lemma keeps_connect [keep_intros]:
  assumes "flush_keeps fl" "owned s"
  shows "keeps (connect env fl msg fds e s)" "keeps (connect_without_shm env fl msg fds s)"
proof -
  have final: "keeps (connect_finalize fl t)" if "owned t" for t
    unfolding connect_finalize_def by (assumption | rule keep_intros flush_keepsD [OF assms(1)] that)+
  have hand: "keeps (connect_handshake env fl msg fds s)"
  proof -
    have s: "owned (s\<lparr>nd_links := x, nd_broker_name := y, nd_local_name := z\<rparr>)" for x y z
      using assms(2) by (simp add: owned_def)
    show ?thesis
    proof (cases msg)
      case (ConnectFromBrokerToNonBroker c)
      show ?thesis
        unfolding ConnectFromBrokerToNonBroker connect_handshake_def decoded_message.case Let_def
        by (rule s | assumption | rule keeps_portals_of_broker final | rule keep_intros)+
    qed (simp_all add: connect_handshake_def keep_intros)
  qed
  show "keeps (connect_without_shm env fl msg fds s)"
    unfolding connect_without_shm_def by (assumption | rule hand final | rule keep_intros)+
  have shm: "keeps (send_shared_memory_client_on e i t)" if "owned t" for i t
    unfolding send_shared_memory_client_on_def by (assumption | rule keep_intros that)+
  show "keeps (connect env fl msg fds e s)"
    unfolding connect_def by (assumption | rule hand shm final | rule keep_intros)+
qed

text \<open>What can happen to a node: the handshake, a decoded message of a link, and the calls of an application.\<close>

datatype node_event =
    Connect decoded_message "fd list" "fd option"
  | Message decoded_message "fd list" u64
  | OpenPair
  | Put u64 "byte list" "parcel_object list"
  | Close u64

fun node_step :: "nat \<Rightarrow> fd_env \<Rightarrow> node_event \<Rightarrow> node \<Rightarrow> node routing" where
  "node_step d env (Connect msg fds e) s = connect env (router_flush d) msg fds e s"
| "node_step d env (Message msg fds i) s = dispatch_message env (router_flush d) (process_accept_parcel d) msg fds i s"
| "node_step d env OpenPair s = obind (open_portals s) (\<lambda>(_, s). Ok s)"
| "node_step d env (Put rid data objects) s = obind (router_put (router_flush d) rid data objects s) (\<lambda>(_, s). Ok s)"
| "node_step d env (Close rid) s = close_route (router_flush d) rid s"

fun node_run :: "nat \<Rightarrow> fd_env \<Rightarrow> node_event list \<Rightarrow> node \<Rightarrow> node routing" where
  "node_run d env [] s = Ok s"
| "node_run d env (e # es) s = obind (node_step d env e s) (node_run d env es)"

lemma keeps_node_step: "owned s \<Longrightarrow> keeps (node_step d env e s)"
proof (cases e)
  case OpenPair
  have "keeps2 (open_portals s)" if "owned s"
    unfolding open_portals_def Let_def by (assumption | rule keeps_local_pair | rule keep_intros that)+
  then show "owned s \<Longrightarrow> keeps (node_step d env e s)" using OpenPair by (auto intro!: keep_intros)
qed (auto intro!: keep_intros keeps_flush keeps_process)

lemma keeps_node_run: "owned s \<Longrightarrow> keeps (node_run d env es s)"
proof (induction es arbitrary: s)
  case (Cons e es)
  have "keeps (node_step d env e s)" by (rule keeps_node_step [OF Cons.prems])
  with Cons.IH show ?case by (auto intro!: keep_intros)
qed (simp add: keep_intros)

text \<open>C8: Owners never dangle: whatever handshake, messages - of any peer, in any order, with any descriptors - and calls
  a new node handles, every sublink that it then maps to a router is mapped to a router that exists, so that
  no later message fails because its router is unknown.\<close>

theorem owners_exist:
  assumes "node_run d env es node_new = Ok s" "nd_owners s (i, sublink) = Some rid"
  shows "\<exists>r. get_router s rid msg = Ok r"
proof -
  have "owned node_new" by (simp add: owned_def node_new_def)
  with assms show ?thesis
    using keeps_node_run [of node_new d env es] by (fastforce simp: keeps_def owned_def get_router_def ok_or_def)
qed

definition example_descriptor :: router_descriptor where
  "example_descriptor = router_descriptor_default\<lparr>rd_new_sublink := 9\<rparr>"

definition example_parcel :: "byte list \<Rightarrow> accept_parcel" where
  "example_parcel new_routers =
     \<lparr>ap_sublink = 4, ap_sequence_number = 0, ap_subparcel_index = 0, ap_num_subparcels = 1,
      ap_parcel_fragment = fragment_default, ap_parcel_data = [7], ap_handle_types = [HANDLE_PORTAL],
      ap_new_routers = new_routers, ap_driver_objects = []\<rparr>"

lemma owners_exist_witness:
  "\<exists>b s. router_descriptor_encode example_descriptor = Some b \<and>
    node_run 2 example_env [Message (AcceptParcel (example_parcel b)) [] 0] node_new = Ok s \<and>
    nd_owners s (0, 9) = Some 9 \<and> (\<exists>r. get_router s 9 ''router of the parcel'' = Ok r)"
proof -
  obtain b where b: "router_descriptor_encode example_descriptor = Some b" "length b = ROUTER_DESCRIPTOR_SIZE"
      "router_descriptor_decode b = Ok example_descriptor"
    using router_descriptor_roundtrip by blast
  let ?l = "remote_link 0 9 PeripheralOutward LinkB None"
  let ?r = "bare_router\<lparr>ro_outward := \<lparr>ed_primary = Some ?l, ed_decaying = None\<rparr>\<rparr>"
  have flush: "router_flush 1 9 False s = Ok s"
    if "nd_routers s 9 = Some (?r\<lparr>ro_outbound := \<lparr>pq_current = 0, pq_final = None, pq_buffer = fmempty\<rparr>,
      ro_inbound := \<lparr>pq_current = 0, pq_final = None, pq_buffer = fmempty\<rparr>\<rparr>)" for s
    using that by (simp add: router_flush_with_def flush_forward_def flush_finish_decays_def flush_deliver_def flush_mark_stable_def
      flush_closure_def flush_bypass_def flush_start_of_def get_router_def ok_or_def bare_router_def queue_new_def
      collect_outbound_def collect_bridge_def Router.collect.simps has_next_element_def finish_bridge_decay_def
      finish_decays_def inbound_length_def outbound_length_def get_current_sequence_length_def contiguous_length.simps
      maybe_finish_decay_def edge_decaying_link_def release_opt_def deliver_to_portal_def pop_all.simps queue_pop_def
      without_links_def on_central_link_def closure_of_outbound_def closure_of_inbound_def is_sequence_fully_consumed_def
      expects_more_elements_def deliver_closed_opt_def set_router_def fun_upd_idem remote_link_def is_central_def)
  have chunk: "chunks_exact 96 b = [b]"
    using b(2) by (simp add: chunks_exact_def ROUTER_DESCRIPTOR_SIZE_def)
  have depth: "process_accept_parcel 2 = accept_parcel_with (router_flush 1) (process_accept_parcel 1)"
    by (intro ext) (metis Suc_1 process_accept_parcel.simps(2))
  have "\<exists>s. node_run 2 example_env [Message (AcceptParcel (example_parcel b)) [] 0] node_new = Ok s \<and> nd_owners s (0, 9) = Some 9"
    using b by (simp add: depth accept_parcel_with_def example_parcel_def parcel_data_def fragment_is_null_def fragment_default_def
        accept_payload_def deserialize_portals_def HANDLE_PORTAL_def chunk ROUTER_DESCRIPTOR_SIZE_def deserialize_descriptor_def
        map_err_def router_deserialize_def example_descriptor_def router_descriptor_default_def BOOTSTRAP_SUBLINK_def
        deserialized_link_state_def deserialized_router_def deserialized_outward_def set_primary_link_def edge_default_def
        early_for_def replay_def node_name_is_valid_def node_name_invalid_def Let_def flush assemble_step_def route_parcel_def
        node_new_def own_sublink_def set_router_def reset_sequence_def queue_new_def bare_router_def del: router_flush.simps One_nat_def)
  then obtain s where s: "node_run 2 example_env [Message (AcceptParcel (example_parcel b)) [] 0] node_new = Ok s"
      "nd_owners s (0, 9) = Some 9" by blast
  then show ?thesis using b owners_exist [OF s] by blast
qed

end
