(* ===== verification/RoutingFaults.thy ===== *)
theory RoutingFaults
  imports RoutingMessages RoutingDepth IpczCodec
begin

text \<open>
  What peers can and cannot do to a node: which bypasses are accepted, which parcels are always rejected, which
  message panics; and what the transfer of a portal keeps.
\<close>

section \<open>Authorisation of a bypass\<close>

text \<open>C12: A bypass is only accepted from the current peer or from the node that the current peer has named.  When the handler of
  \<open>AcceptBypassLink\<close> changes anything, the message names a route of this node by its current peer and sublink,
  the outward link of the router is remote, and either the message came over that very link's node, or the name of
  the sending node is the one that the shared state of that link holds as the allowed source.\<close>
theorem bypass_authorised:
  assumes "on_accept_bypass_link fl al i s = Ok s'" "s' \<noteq> s"
  shows "\<exists>j rid r old. link_id_for_node s (al_current_peer_node al) = Some j \<and>
    nd_owners s (j, al_current_peer_sublink al) = Some rid \<and> nd_routers s rid = Some r \<and>
    ed_primary (ro_outward r) = Some old \<and> \<not> is_local old \<and> \<not> ro_disconnected r \<and>
    (li_link_id old = i \<or>
     (\<exists>state m name. li_link_state old = Some state \<and> memory_for s (li_link_id old) = Ok m \<and>
        read_allowed_bypass_source m state = Ok name \<and> remote_name_for s i = Ok name))"
  using assms unfolding on_accept_bypass_link_def
  by (auto simp: get_router_def ok_or_def map_err_def split: option.split_asm if_split_asm outcome.split_asm)

theorem bypass_authorised_witness:
  "\<exists>s s' j rid r old. on_accept_bypass_link (\<lambda>_ _ s. Ok s)
      \<lparr>al_current_peer_node = node_name_invalid, al_current_peer_sublink = 5, al_inbound_sequence_length = 0, al_new_sublink = 12,
       al_new_link_state_fragment = \<lparr>fr_buffer_id = 0, fr_offset = 0, fr_size = 64\<rparr>\<rparr> 0 s = Ok s' \<and> s' \<noteq> s \<and>
    link_id_for_node s node_name_invalid = Some j \<and> nd_owners s (j, 5) = Some rid \<and> nd_routers s rid = Some r \<and>
    ed_primary (ro_outward r) = Some old \<and> li_link_id old = 0"
proof -
  let ?old = "remote_link 0 5 PeripheralOutward LinkB None"
  let ?r = "bare_router\<lparr>ro_outward := \<lparr>ed_primary = Some ?old, ed_decaying = None\<rparr>\<rparr>"
  let ?m = "\<lparr>lm_primary = replicate 64 0, lm_extra = Map.empty, lm_extra_order = []\<rparr>"
  let ?s = "set_memory (own_sublink (set_router node_new 3 ?r) 0 5 3) 0 ?m"
  let ?al = "\<lparr>al_current_peer_node = node_name_invalid, al_current_peer_sublink = 5, al_inbound_sequence_length = 0, al_new_sublink = 12,
       al_new_link_state_fragment = \<lparr>fr_buffer_id = 0, fr_offset = 0, fr_size = 64\<rparr>\<rparr>"
  obtain b where b: "encode_stop_proxying_to_local_peer 5 0 = Some (build b)"
    by (simp add: encode_stop_proxying_to_local_peer_def simple_message_eq)
  have s: "link_id_for_node ?s node_name_invalid = Some 0" "nd_owners ?s (0, 5) = Some 3" "nd_routers ?s 3 = Some ?r"
    "memory_for ?s 0 = Ok ?m" "nd_owners ?s (0, 12) = None"
    by (simp_all add: link_id_for_node_def set_memory_def own_sublink_def set_router_def node_new_def LINK_ID_BROKER_def
        memory_for_def ok_or_def)
  have v: "fragment_view ?m \<lparr>fr_buffer_id = 0, fr_offset = 0, fr_size = 64\<rparr> = Ok (replicate 64 0)"
    by (simp add: fragment_view_def fragment_is_null_def INVALID_BUFFER_ID_def buffer_for_def PRIMARY_BUFFER_ID_def
        checked_add_def usize_limit_def)
  have "\<exists>s'. on_accept_bypass_link (\<lambda>_ _ s. Ok s) ?al 0 ?s = Ok s' \<and> nd_owners s' (0, 12) = Some 3"
    using s b v
    by (simp add: on_accept_bypass_link_def get_router_def ok_or_def map_err_def is_local_def remote_link_def bare_router_def
        replace_outward_def decay_with_def decay_or_def begin_primary_link_decay_def set_lengths_def Let_def queue_new_def
        set_length_to_decaying_link_def set_length_from_decaying_link_def set_primary_link_def send_link_message_on_def
        send_link_message_with_fds_on_def patched_build succ64_def own_sublink_def set_router_def set_memory_def node_new_def
        LINK_ID_BROKER_def)
  then obtain s' where s': "on_accept_bypass_link (\<lambda>_ _ s. Ok s) ?al 0 ?s = Ok s'" "nd_owners s' (0, 12) = Some 3" by blast
  then have "s' \<noteq> ?s" using s(5) by auto
  from bypass_authorised [OF s'(1) this] s s'(1) this show ?thesis
    by (intro exI [of _ ?s] exI [of _ s']) (auto simp: bare_router_def remote_link_def)
qed

section \<open>Driver objects\<close>

lemma last_object_end:
  "read_objects p n k cs = Ok objs \<Longrightarrow> objs \<noteq> [] \<Longrightarrow> dobj_first_fd (last objs) + dobj_num_fds (last objs) = n"
proof (induction cs arbitrary: k objs)
  case (Cons c cs)
  then obtain m d objs' where o: "objs = \<lparr>dobj_data = d, dobj_first_fd = k, dobj_num_fds = m\<rparr> # objs'"
    "read_objects p n (k + m) cs = Ok objs'"
    by (auto simp: Let_def split: if_splits)
  show ?case
  proof (cases "objs' = []")
    case True
    then have "k + m = n" using o(2) by (cases cs) (auto simp: Let_def split: if_splits)
    then show ?thesis using o(1) True by simp
  qed (use o Cons.IH in auto)
qed (simp split: if_splits)

lemma assembled_room:
  "assemble_objects ts a = Ok b \<Longrightarrow> as_drivers b = [] \<Longrightarrow> as_drivers a \<noteq> [] \<Longrightarrow>
     dobj_first_fd (last (as_drivers a)) + dobj_num_fds (last (as_drivers a)) +
       sum_list (map dobj_num_fds (butlast (as_drivers a))) \<le> length (as_fds a)"
proof (induction ts arbitrary: a)
  case (Cons t ts)
  obtain c where c: "assemble_step t a = Ok c" "assemble_objects ts c = Ok b" using Cons.prems(1) by auto
  show ?case
  proof (cases "t = HANDLE_BOXED_DRIVER_OBJECT")
    case True
    then obtain obj objs where o: "as_drivers a = obj # objs" by (cases "as_drivers a") (use Cons.prems(3) in simp_all)
    have e: "dobj_first_fd obj + dobj_num_fds obj \<le> length (as_fds a)" "as_drivers c = objs"
      "length (as_fds c) = length (as_fds a) - dobj_num_fds obj"
      using c(1) True o
      by (auto simp: assemble_step_def HANDLE_PORTAL_def HANDLE_BOXED_DRIVER_OBJECT_def checked_add_def split: if_split_asm option.split_asm)
    show ?thesis
    proof (cases "objs = []")
      case False
      then show ?thesis using Cons.IH [OF c(2) Cons.prems(2)] e o by simp
    qed (use e o in simp)
  next
    case False
    then have "as_drivers c = as_drivers a \<and> as_fds c = as_fds a"
      using c(1) by (auto simp: assemble_step_def split: if_split_asm list.split_asm)
    then show ?thesis using Cons.IH [OF c(2) Cons.prems(2)] Cons.prems(3) by simp
  qed
qed simp

lemma parcel_objects_read:
  assumes "decode_message payload n = Ok (AcceptParcel p)" "ap_driver_objects p \<noteq> []"
  shows "\<exists>cs. read_objects payload n 0 cs = Ok (ap_driver_objects p)"
proof -
  obtain c where "dispatch c = Ok (AcceptParcel p)" "cu_payload c = payload" "cu_num_fds c = n"
    using assms(1) unfolding decode_message_def by (auto simp: Let_def split: if_split_asm)
  then have "c_objects c = Ok (ap_driver_objects p)" "cu_payload c = payload" "cu_num_fds c = n"
    unfolding dispatch_def Let_def decoders need_def with_objects_check_def
    by (auto split: if_split_asm)
  then show ?thesis using assms(2) by (auto simp: c_objects_def read_driver_objects_def Let_def split: if_split_asm)
qed

text \<open>Only one driver object survives.  The decoder gives the objects of a parcel consecutive descriptors; assembling them
  removes the descriptors of each from the list that the later ones still index by their old places, so the
  last object always reaches past its end.  A parcel with two driver objects, the first of them with a
  descriptor, is rejected whatever else is in it.\<close>
theorem two_driver_objects_rejected:
  assumes "decode_message payload (length fds) = Ok (AcceptParcel p)"
    and "2 \<le> length (ap_driver_objects p)" "dobj_num_fds (hd (ap_driver_objects p)) \<noteq> 0"
  shows "accept_payload fl acc p fds i data s \<noteq> Ok r"
proof
  let ?objs = "ap_driver_objects p"
  assume "accept_payload fl acc p fds i data s = Ok r"
  then obtain ids a where a: "assemble_objects (ap_handle_types p)
      \<lparr>as_objects = [], as_identities = ids, as_drivers = ?objs, as_fds = fds, as_held = [], as_split = False\<rparr> = Ok a"
    "as_drivers a = []"
    by (auto simp: accept_payload_def split: if_split_asm)
  obtain obj objs where o: "?objs = obj # objs" "objs \<noteq> []" using assms(2) by (cases ?objs; cases "tl ?objs") auto
  then have "dobj_first_fd (last ?objs) + dobj_num_fds (last ?objs) = length fds"
    using parcel_objects_read [OF assms(1)] last_object_end by fastforce
  moreover have "dobj_first_fd (last ?objs) + dobj_num_fds (last ?objs) + sum_list (map dobj_num_fds (butlast ?objs)) \<le> length fds"
    using assembled_room [OF a] o(1) by simp
  ultimately show False using o assms(3) by simp
qed

theorem two_driver_objects_rejected_witness:
  "\<exists>payload p. encode_accept_parcel_arrays 4 0 0 1 None [7] [HANDLE_BOXED_DRIVER_OBJECT, HANDLE_BOXED_DRIVER_OBJECT] [] [[9], [8]] = Some payload \<and>
     decode_message payload 2 = Ok (AcceptParcel p) \<and>
     accept_payload (\<lambda>_ _ s. Ok s) (\<lambda>_ _ _ s. Ok (([], []), s)) p [5, 6] 0 [7] node_new \<noteq> Ok (([7], []), node_new)"
proof -
  let ?hts = "[HANDLE_BOXED_DRIVER_OBJECT, HANDLE_BOXED_DRIVER_OBJECT]" and ?ds = "[[9], [8]] :: byte list list"
  have fits: "parcel_fits (inline_data None [7]) ?hts [] ?ds"
    by (simp add: parcel_fits_def parcel_sized_def inline_data_def no_gap_def up8_def)
  obtain b where e: "encode_accept_parcel_arrays 4 0 0 1 None [7] ?hts [] ?ds = Some (build b)"
    and d: "decode_message (build b) (length ?ds) = Ok (AcceptParcel
       \<lparr>ap_sublink = 4, ap_sequence_number = 0, ap_subparcel_index = 0, ap_num_subparcels = 1,
        ap_parcel_fragment = fragment_of None, ap_parcel_data = inline_data None [7], ap_handle_types = ?hts,
        ap_new_routers = concat [], ap_driver_objects = objects_of 0 ?ds\<rparr>)"
    by (rule that, rule encode_parcel_eq [OF fits refl refl refl refl],
        rule decode_parcel_body [OF _ _ _ fits refl refl refl _ refl]) simp_all
  have d2: "decode_message (build b) (length [5, 6 :: fd]) = Ok (AcceptParcel
       \<lparr>ap_sublink = 4, ap_sequence_number = 0, ap_subparcel_index = 0, ap_num_subparcels = 1,
        ap_parcel_fragment = fragment_of None, ap_parcel_data = inline_data None [7], ap_handle_types = ?hts,
        ap_new_routers = concat [], ap_driver_objects = objects_of 0 ?ds\<rparr>)"
    using d by simp
  from two_driver_objects_rejected [OF d2] e d2 show ?thesis by (simp add: numeral_2_eq_2)
qed

section \<open>Referrals\<close>

text \<open>An unsolicited answer to a referral crashes the node.  Any peer may send \<open>NonBrokerReferralAccepted\<close>; when its two
  descriptors can be adopted and no referral is under way, the handler takes the first of the waiting routers of
  an empty list.\<close>
theorem unsolicited_referral_panics:
  assumes "\<not> nd_referral_reply_seen s" "nd_waiting_routers s = []"
    and "unat (ra_num_initial_portals a) \<le> MAX_INITIAL_PORTALS"
    and "unat (ra_transport_index a) < length fds" "fe_dup env (fds ! unat (ra_transport_index a)) = Some t"
    and "unat (ra_buffer_index a) < length fds" "fe_dup env (fds ! unat (ra_buffer_index a)) = Some b"
    and "fe_socket env t" "fe_contents env b \<noteq> None" "fe_mapped env b"
  shows "dispatch_message env fl acc (NonBrokerReferralAccepted a) fds i s = Panic"
proof -
  have "\<not> of_nat MAX_INITIAL_PORTALS < ra_num_initial_portals a"
    using assms(3) by (simp add: word_less_nat_alt MAX_INITIAL_PORTALS_def)
  then show ?thesis
    using assms by (auto simp: on_non_broker_referral_accepted_def nth_dup_def try_dup_def ok_or_def adopt_link_def adopt_primary_def map_err_def)
qed

theorem unsolicited_referral_panics_witness:
  "dispatch_message (example_env\<lparr>fe_contents := \<lambda>_. Some []\<rparr>) (router_flush 3) (process_accept_parcel 3) (NonBrokerReferralAccepted
     \<lparr>ra_referral_id = 1, ra_protocol_version = 0, ra_num_initial_portals = 2, ra_name = node_name_invalid,
      ra_transport_index = 0, ra_buffer_index = 1, ra_driver_objects = []\<rparr>) [5, 6] 0 node_new = Panic"
  by (rule unsolicited_referral_panics) (simp_all add: node_new_def example_env_def MAX_INITIAL_PORTALS_def)

section \<open>Transfer of a portal\<close>

lemma on_memory_routers: "on_memory i f s = Ok (a, s') \<Longrightarrow> nd_routers s' = nd_routers s"
  by (auto simp: on_memory_def set_memory_def)

lemma lock_routers: "try_lock_link_for_bypass l n s = Ok (b, s') \<Longrightarrow> nd_routers s' = nd_routers s"
  by (auto simp: try_lock_link_for_bypass_def set_cell_def dest!: on_memory_routers split: option.split_asm if_split_asm)

lemma unlock_routers: "unlock_link_for_bypass l s = Ok s' \<Longrightarrow> nd_routers s' = nd_routers s"
  by (auto simp: unlock_link_for_bypass_def set_cell_def dest!: on_memory_routers split: option.split_asm)

lemma capacity_routers: "request_block_capacity z i s = Ok s' \<Longrightarrow> nd_routers s' = nd_routers s"
  by (auto simp: request_block_capacity_def Let_def send_link_message_on_def send_link_message_with_fds_on_def split: if_split_asm)

definition yields :: "('a \<Rightarrow> bool) \<Rightarrow> 'a routing \<Rightarrow> bool" where
  "yields P m \<longleftrightarrow> (\<forall>a. m = Ok a \<longrightarrow> P a)"

lemma yields_rules:
  "P a \<Longrightarrow> yields P (Ok a)"
  "yields P (Err e)"
  "(\<And>x. m = Ok x \<Longrightarrow> yields P (f x)) \<Longrightarrow> yields P (obind m f)"
  "(q \<Longrightarrow> yields P m1) \<Longrightarrow> (\<not> q \<Longrightarrow> yields P m2) \<Longrightarrow> yields P (if q then m1 else m2)"
  "(opt = None \<Longrightarrow> yields P m1) \<Longrightarrow> (\<And>y. opt = Some y \<Longrightarrow> yields P (g y)) \<Longrightarrow>
     yields P (case opt of None \<Rightarrow> m1 | Some y \<Rightarrow> g y)"
  "(\<And>x y. t = (x, y) \<Longrightarrow> yields P (h x y)) \<Longrightarrow> yields P (case t of (x, y) \<Rightarrow> h x y)"
  by (auto simp: yields_def split: option.split prod.split)

text \<open>The place of a router in its streams, as a descriptor carries it.\<close>

definition carries :: "router \<Rightarrow> router_descriptor \<Rightarrow> bool" where
  "carries r d \<longleftrightarrow> rd_next_outgoing_sequence_number d = pq_current (ro_outbound r) \<and>
     rd_next_incoming_sequence_number d = pq_current (ro_inbound r) \<and>
     (ro_peer_closed r \<longrightarrow> rd_peer_closed d) \<and>
     (rd_peer_closed d \<longrightarrow> rd_closed_peer_sequence_length d = (case pq_final (ro_inbound r) of None \<Rightarrow> 0 | Some n \<Rightarrow> n))"

lemma proxy_carries:
  assumes "serialize_as_proxy rid i l b s = Ok ((q, d), s')" "nd_routers s rid = Some r"
  shows "q = rid \<and> carries r d"
  using assms
  by (auto simp: serialize_as_proxy_def carries_def get_router_def ok_or_def Let_def router_descriptor_default_def
      dest!: on_memory_routers split: if_split_asm option.split_asm)

lemma local_carries:
  assumes "nd_routers s rid = Some r" "ro_peer_closed r \<longrightarrow> pq_final (ro_inbound r) \<noteq> None"
  shows "yields (\<lambda>(d, s'). case d of Some d \<Rightarrow> carries r d | None \<Rightarrow> nd_routers s' = nd_routers s)
    (serialize_router_with_local_peer rid peer i s)"
  unfolding serialize_router_with_local_peer_def Let_def release_primary_link_def prod.case
  by (intro yields_rules)
    (use assms in \<open>auto simp: carries_def get_router_def ok_or_def router_descriptor_default_def set_router_def own_sublink_def
      dest!: on_memory_routers capacity_routers split: option.split_asm option.split if_split_asm\<close>)

text \<open>C13: A portal that moves to another node goes on where it was.  However it is serialised - as a proxy, with or without a
  bypass, or with a local peer - the descriptor that arrives makes a router with empty queues whose next
  outgoing and next expected sequence numbers are those of the router that moved, and which still knows at which
  length its peer closed.\<close>
theorem handoff_keeps_place:
  assumes "serialize_router rid i s = Ok ((q, d), s')" "nd_routers s rid = Some r"
    and "ro_peer_closed r \<longrightarrow> pq_final (ro_inbound r) \<noteq> None"
    and "router_descriptor_encode d = Some b" "router_descriptor_decode b = Ok d'" "deserialized_router d' j state = Ok r'"
  shows "q = rid \<and> pq_current (ro_outbound r') = pq_current (ro_outbound r) \<and> pq_buffer (ro_outbound r') = fmempty \<and>
    pq_current (ro_inbound r') = pq_current (ro_inbound r) \<and> pq_buffer (ro_inbound r') = fmempty \<and>
    (ro_peer_closed r \<longrightarrow> ro_peer_closed r' \<and> pq_final (ro_inbound r') = pq_final (ro_inbound r))"
proof -
  have "d' = d" using router_descriptor_roundtrip [of d] assms(4,5) by simp
  moreover have "q = rid \<and> carries r d"
  proof -
    have proxy: "yields (\<lambda>((q, d), _). q = rid \<and> carries r d) (serialize_as_proxy rid i l b t)"
      if "nd_routers t = nd_routers s" for l b t
      unfolding yields_def using that assms(2) by (auto dest!: proxy_carries [where r = r])
    have local: "case d of Some d \<Rightarrow> carries r d | None \<Rightarrow> nd_routers u = nd_routers s"
      if "serialize_router_with_local_peer rid p i t = Ok (d, u)" "nd_routers t = nd_routers s" for p t d u
      using local_carries [of t rid r p i] that assms(2,3) by (auto simp: yields_def split: option.splits)
    have "yields (\<lambda>((q, d), _). q = rid \<and> carries r d) (serialize_router rid i s)"
      unfolding serialize_router_def
    proof (intro yields_rules proxy, goal_cases)
      case 1
      then show ?case by (auto dest: lock_routers)
    qed (auto dest!: lock_routers unlock_routers local split: option.splits)
    then show ?thesis using assms(1) by (simp add: yields_def)
  qed
  ultimately show ?thesis
    using assms(3,6) by (auto simp: carries_def deserialized_router_def reset_sequence_def set_final_sequence_length_def
        bare_router_def queue_new_def Let_def split: if_split_asm option.split_asm)
qed

theorem handoff_keeps_place_witness:
  "\<exists>s q d s' b d' r'. serialize_router 3 0 s = Ok ((q, d), s') \<and> router_descriptor_encode d = Some b \<and>
    router_descriptor_decode b = Ok d' \<and> deserialized_router d' 1 None = Ok r' \<and>
    q = 3 \<and> pq_current (ro_outbound r') = 7 \<and> pq_current (ro_inbound r') = 4"
proof -
  let ?r = "bare_router\<lparr>ro_outward := \<lparr>ed_primary = Some (remote_link 0 5 PeripheralOutward LinkB None), ed_decaying = None\<rparr>,
    ro_outbound := reset_sequence queue_new 7, ro_inbound := reset_sequence queue_new 4\<rparr>"
  let ?m = "\<lparr>lm_primary = replicate 64 0, lm_extra = Map.empty, lm_extra_order = []\<rparr>"
  let ?s = "set_memory (set_router node_new 3 ?r) 0 ?m"
  have "\<exists>a. allocate_sublink_ids ?m 1 = Ok a"
    by (simp add: allocate_sublink_ids_def fetch_update_def load_word_def store_word_def fragment_view_def buffer_for_def
      PRIMARY_BUFFER_ID_def word_at_def slice_def copy_into_def fragment_is_null_def INVALID_BUFFER_ID_def checked_add_def usize_limit_def fragment_default_def)
  then obtain n m where a: "allocate_sublink_ids ?m 1 = Ok (n, m)" by force
  have "\<exists>d s'. serialize_router 3 0 ?s = Ok ((3, d), s') \<and> \<not> rd_peer_closed d \<and> \<not> rd_proxy_already_bypassed d"
    by (simp add: serialize_router_def get_router_def ok_or_def set_router_def set_memory_def node_new_def remote_name_for_def
      bare_router_def remote_link_def try_lock_link_for_bypass_def serialize_as_proxy_def is_local_def on_memory_def memory_for_def
      LINK_ID_BROKER_def a map_err_def Let_def router_descriptor_default_def)
  then obtain d s' where d: "serialize_router 3 0 ?s = Ok ((3, d), s')" "\<not> rd_peer_closed d" "\<not> rd_proxy_already_bypassed d" by blast
  obtain b where b: "router_descriptor_encode d = Some b" "router_descriptor_decode b = Ok d"
    using router_descriptor_roundtrip by blast
  obtain r' where r: "deserialized_router d 1 None = Ok r'"
    using d(2,3) by (force simp: deserialized_router_def deserialized_outward_def set_primary_link_def edge_default_def Let_def)
  show ?thesis
    using handoff_keeps_place [OF d(1) _ _ b r, of ?r] d(1) b r
    by (intro exI [of _ ?s] exI [of _ d]) (auto simp: set_memory_def set_router_def bare_router_def reset_sequence_def queue_new_def)
qed

end
