(* ===== verification/Casefile.thy ===== *)
theory Casefile
  imports Prelude "HOL-Library.Multiset"
begin

text \<open>
  Conformance records (\<open>crates/mojo-rs-casefile\<close>): the events that both sides of a court produce, the normalizers, the
  differential comparison and the command line around it.  JSON and the hash function are parameters
  (\<open>json_env\<close>); a string is a list of ASCII characters.
\<close>

section \<open>Events\<close>

datatype event_kind =
    EvResult | EvSignals | EvMessage | EvHandle | EvTrap | EvData | EvBuffer | EvInvitation | EvProcess
  | EvInfo | EvError | EvLifecycle

record signal_names =
  sn_satisfied :: "string list"
  sn_satisfiable :: "string list"

text \<open>\<open>Event\<close>; the JSON values of \<open>outputs\<close> are a type of their own, of which only equality is used.\<close>

record 'j harness_event =
  he_seq :: u64
  he_op_id :: u64
  he_event :: event_kind
  he_result :: string
  he_handle :: "string option"
  he_payload_hex :: "string option"
  he_handles :: "string list option"
  he_signals :: "signal_names option"
  he_trigger_context :: "u64 option"
  he_signals_state :: "signal_names option"
  he_outputs :: "'j option"
  he_num_bytes :: "u32 option"
  he_size :: "u64 option"
  he_process :: "string option"
  he_pid :: "u32 option"
  he_fd :: "32 word option"
  he_note :: "string option"

definition result_event :: "u64 \<Rightarrow> u64 \<Rightarrow> string \<Rightarrow> 'j harness_event" where
  "result_event seq op result =
     \<lparr>he_seq = seq, he_op_id = op, he_event = EvResult, he_result = result, he_handle = None, he_payload_hex = None,
      he_handles = None, he_signals = None, he_trigger_context = None, he_signals_state = None, he_outputs = None,
      he_num_bytes = None, he_size = None, he_process = None, he_pid = None, he_fd = None, he_note = None\<rparr>"

text \<open>\<open>str::lines\<close>: split at line feeds, without a carriage return before one, and without a last empty line.\<close>

definition strip_cr :: "string \<Rightarrow> string" where
  "strip_cr l = (if l \<noteq> [] \<and> last l = CHR 0x0D then butlast l else l)"

fun lines_from :: "string \<Rightarrow> string \<Rightarrow> string list" where
  "lines_from cur [] = (if cur = [] then [] else [cur])"
| "lines_from cur (c # cs) = (if c = CHR 0x0A then strip_cr cur # lines_from [] cs else lines_from (cur @ [c]) cs)"

definition lines_of :: "string \<Rightarrow> string list" where
  "lines_of s = lines_from [] s"

definition blank :: "string \<Rightarrow> bool" where
  "blank l = list_all (\<lambda>c. c \<in> {CHR '' '', CHR 0x09, CHR 0x0A, CHR 0x0B, CHR 0x0C, CHR 0x0D}) l"

text \<open>\<open>collect\<close> into a \<open>Result\<close>: the first error, or all values.\<close>

fun collect_ok :: "('e, 'a) outcome list \<Rightarrow> ('e, 'a list) outcome" where
  "collect_ok [] = Ok []"
| "collect_ok (r # rs) = obind r (\<lambda>a. obind (collect_ok rs) (\<lambda>as. Ok (a # as)))"

text \<open>The parser of one line is serde's: a parameter.\<close>

definition parse_events ::
  "(string \<Rightarrow> (string, 'j harness_event) outcome) \<Rightarrow> string \<Rightarrow> (string, 'j harness_event list) outcome" where
  "parse_events from_str input = collect_ok (map from_str (filter (\<lambda>l. \<not> blank l) (lines_of input)))"

definition serialize_events ::
  "('j harness_event \<Rightarrow> (string, string) outcome) \<Rightarrow> 'j harness_event list \<Rightarrow> (string, string) outcome" where
  "serialize_events to_line es = obind (collect_ok (map to_line es)) (\<lambda>ls. Ok (concat (map (\<lambda>l. l @ [CHR 0x0A]) ls)))"

section \<open>Normalizers\<close>

definition normalize_pid :: "'j harness_event list \<Rightarrow> 'j harness_event list" where
  "normalize_pid es = map (\<lambda>e. e\<lparr>he_pid := None\<rparr>) es"

definition normalize_fd :: "'j harness_event list \<Rightarrow> 'j harness_event list" where
  "normalize_fd es = map (\<lambda>e. if he_fd e \<noteq> None then e\<lparr>he_fd := Some (- 1)\<rparr> else e) es"

definition normalize_timestamp :: "'j harness_event list \<Rightarrow> 'j harness_event list" where
  "normalize_timestamp es = es"

definition normalize_token :: "'j harness_event list \<Rightarrow> 'j harness_event list" where
  "normalize_token es = es"

definition context_key :: "'j harness_event \<Rightarrow> u64" where
  "context_key e = (case he_trigger_context e of None \<Rightarrow> 0 | Some c \<Rightarrow> c)"

text \<open>The loop of \<open>normalize_trap_order\<close>, over the current run of trap events and the output so far.\<close>

fun trap_order_loop :: "'j harness_event list \<Rightarrow> 'j harness_event list \<Rightarrow> 'j harness_event list \<Rightarrow> 'j harness_event list" where
  "trap_order_loop [] run out = (if run \<noteq> [] then out @ sort_key context_key run else out)"
| "trap_order_loop (e # es) run out =
     (if he_event e = EvTrap then trap_order_loop es (run @ [e]) out
      else if run \<noteq> [] then trap_order_loop es [] (out @ sort_key context_key run @ [e])
      else trap_order_loop es [] (out @ [e]))"

definition normalize_trap_order :: "'j harness_event list \<Rightarrow> 'j harness_event list" where
  "normalize_trap_order es = trap_order_loop es [] []"

definition normalizer :: "string \<Rightarrow> ('j harness_event list \<Rightarrow> 'j harness_event list) option" where
  "normalizer i =
     (if i = ''normalize.pid'' then Some normalize_pid
      else if i = ''normalize.fd'' then Some normalize_fd
      else if i = ''normalize.timestamp'' then Some normalize_timestamp
      else if i = ''normalize.token'' then Some normalize_token
      else if i = ''normalize.trap_order'' then Some normalize_trap_order
      else None)"

fun apply_normalizers :: "'j harness_event list \<Rightarrow> string list \<Rightarrow> (string, 'j harness_event list) outcome" where
  "apply_normalizers es [] = Ok es"
| "apply_normalizers es (i # is) =
     (case normalizer i of
        None \<Rightarrow> Err (''unknown normalizer: '' @ i)
      | Some f \<Rightarrow> apply_normalizers (f es) is)"

section \<open>Comparison\<close>

datatype residual_kind = Missing | Extra | Mismatch | Order

record 'j residual =
  rd_seq :: nat
  rd_kind :: residual_kind
  rd_oracle :: "'j harness_event option"
  rd_candidate :: "'j harness_event option"
  rd_note :: string

record 'j comparison =
  cm_schema_version :: u32
  cm_case_id :: string
  cm_status :: string
  cm_oracle_events :: nat
  cm_candidate_events :: nat
  cm_normalizers_applied :: "string list"
  cm_residuals :: "'j residual list"
  cm_oracle_sha256 :: string
  cm_candidate_sha256 :: string

fun decimal :: "nat \<Rightarrow> string" where
  "decimal n = (if n < 10 then [char_of (48 + n)] else decimal (n div 10) @ [char_of (48 + n mod 10)])"

declare decimal.simps [simp del]

definition event_eq :: "'j harness_event \<Rightarrow> 'j harness_event \<Rightarrow> bool" where
  "event_eq a b \<longleftrightarrow> he_event a = he_event b \<and> he_result a = he_result b \<and> he_handle a = he_handle b \<and>
     he_payload_hex a = he_payload_hex b \<and> he_handles a = he_handles b \<and> he_signals a = he_signals b \<and>
     he_trigger_context a = he_trigger_context b \<and> he_signals_state a = he_signals_state b \<and>
     he_outputs a = he_outputs b \<and> he_process a = he_process b \<and> he_fd a = he_fd b \<and> he_note a = he_note b"

definition nth_opt :: "'a list \<Rightarrow> nat \<Rightarrow> 'a option" where
  "nth_opt xs i = (if i < length xs then Some (xs ! i) else None)"

definition residual_at :: "'j harness_event list \<Rightarrow> 'j harness_event list \<Rightarrow> nat \<Rightarrow> 'j residual list" where
  "residual_at oracle candidate i =
     (case (nth_opt oracle i, nth_opt candidate i) of
        (Some x, Some c) \<Rightarrow>
          if \<not> event_eq x c
          then [\<lparr>rd_seq = i, rd_kind = Mismatch, rd_oracle = Some x, rd_candidate = Some c,
                 rd_note = ''event '' @ decimal i @ '' differs''\<rparr>]
          else []
      | (Some x, None) \<Rightarrow>
          [\<lparr>rd_seq = i, rd_kind = Missing, rd_oracle = Some x, rd_candidate = None,
            rd_note = ''oracle event '' @ decimal i @ '' has no candidate counterpart''\<rparr>]
      | (None, Some c) \<Rightarrow>
          [\<lparr>rd_seq = i, rd_kind = Extra, rd_oracle = None, rd_candidate = Some c,
            rd_note = ''candidate event '' @ decimal i @ '' has no oracle counterpart''\<rparr>]
      | (None, None) \<Rightarrow> [])"

definition residuals_of :: "'j harness_event list \<Rightarrow> 'j harness_event list \<Rightarrow> 'j residual list" where
  "residuals_of oracle candidate =
     concat (map (residual_at oracle candidate) [0..<max (length oracle) (length candidate)])"

text \<open>What serde and the hash function do: one line to an event, an event to its line, and lines to a digest in
  hexadecimal.\<close>

record 'j json_env =
  je_from_str :: "string \<Rightarrow> (string, 'j harness_event) outcome"
  je_to_line :: "'j harness_event \<Rightarrow> (string, string) outcome"
  je_sha256_hex :: "string \<Rightarrow> string"

definition sha256_events :: "'j json_env \<Rightarrow> 'j harness_event list \<Rightarrow> (string, string) outcome" where
  "sha256_events env es =
     obind (collect_ok (map (je_to_line env) es)) (\<lambda>ls.
     Ok (je_sha256_hex env (concat (map (\<lambda>l. l @ [CHR 0x0A]) ls))))"

definition compare_events ::
  "'j json_env \<Rightarrow> string \<Rightarrow> string \<Rightarrow> string \<Rightarrow> string list \<Rightarrow> (string, 'j comparison) outcome" where
  "compare_events env case_id oracle_input candidate_input ids =
     obind (map_err (\<lambda>e. ''oracle events: '' @ e) (parse_events (je_from_str env) oracle_input)) (\<lambda>oracle_raw.
     obind (map_err (\<lambda>e. ''candidate events: '' @ e) (parse_events (je_from_str env) candidate_input)) (\<lambda>candidate_raw.
     obind (apply_normalizers oracle_raw ids) (\<lambda>oracle.
     obind (apply_normalizers candidate_raw ids) (\<lambda>candidate.
     obind (sha256_events env oracle) (\<lambda>oracle_sha.
     obind (sha256_events env candidate) (\<lambda>candidate_sha.
     let residuals = residuals_of oracle candidate in
     Ok \<lparr>cm_schema_version = 1, cm_case_id = case_id,
         cm_status = (if residuals = [] then ''pass'' else ''fail''),
         cm_oracle_events = length oracle, cm_candidate_events = length candidate,
         cm_normalizers_applied = ids, cm_residuals = residuals,
         cm_oracle_sha256 = oracle_sha, cm_candidate_sha256 = candidate_sha\<rparr>))))))"

section \<open>Casefiles and the command line\<close>

record 'j expectation =
  ex_result :: "string option"
  ex_produce :: "string list"
  ex_events :: "string list"

record 'j operation =
  op_id :: u64
  op_name :: string
  op_args :: 'j
  op_expect :: "'j expectation option"
  op_note :: "string option"

record 'j case_process =
  cp_operations :: "'j operation list"
  cp_bootstrap :: "string option"

record init_options =
  io_mode :: "string option"
  io_flags :: "u32 option"

record preconditions =
  pr_required_capabilities :: "string list"
  pr_init :: "init_options option"

record 'j normalizer_ref =
  nr_id :: string
  nr_params :: 'j

text \<open>The peer processes are a map ordered by name.\<close>

record 'j casefile =
  cf_schema_version :: u32
  cf_case_id :: string
  cf_court :: string
  cf_reference_revision :: string
  cf_seed :: u64
  cf_preconditions :: preconditions
  cf_operations :: "'j operation list"
  cf_processes :: "string \<Rightarrow> 'j case_process option"
  cf_expected_contract :: 'j
  cf_normalizers :: "'j normalizer_ref list"

definition process_name :: "'j casefile \<Rightarrow> string" where
  "process_name c = ''parent''"

text \<open>\<open>Path::file_stem\<close>: the last component that is not the current directory, without its last extension.\<close>

fun split_at :: "char \<Rightarrow> string \<Rightarrow> string \<Rightarrow> string list" where
  "split_at c cur [] = [cur]"
| "split_at c cur (x # xs) = (if x = c then cur # split_at c [] xs else split_at c (cur @ [x]) xs)"

definition stem_of :: "string \<Rightarrow> string" where
  "stem_of name =
     (let before = rev (dropWhile (\<lambda>c. c \<noteq> CHR ''.'') (rev name)) in
      if before = [] \<or> butlast before = [] then name else butlast before)"

definition file_stem :: "string \<Rightarrow> string option" where
  "file_stem path =
     (let comps = filter (\<lambda>c. c \<noteq> [] \<and> c \<noteq> ''.'') (split_at CHR ''/'' [] path) in
      if comps = [] \<or> last comps = ''..'' then None else Some (stem_of (last comps)))"

fun starts_with :: "string \<Rightarrow> string \<Rightarrow> bool" where
  "starts_with s [] = True"
| "starts_with [] (c # cs) = False"
| "starts_with (x # xs) (c # cs) = (x = c \<and> starts_with xs cs)"

text \<open>What the program finds outside: files, and what serde makes of them.\<close>

record 'j cli_env = "'j json_env" +
  ce_read :: "string \<Rightarrow> (string, string) outcome"
  ce_parse :: "string \<Rightarrow> (string, 'j casefile) outcome"
  ce_pretty :: "'j comparison \<Rightarrow> (string, string) outcome"

fun check_ids :: "nat \<Rightarrow> u64 list \<Rightarrow> (string, unit) outcome" where
  "check_ids i [] = Ok ()"
| "check_ids i (x # xs) =
     (if x \<noteq> of_nat i + 1
      then Err (''operation ids not sequential: expected '' @ decimal (i + 1) @ '', got '' @ decimal (unat x))
      else check_ids (i + 1) xs)"

definition read_file :: "'j cli_env \<Rightarrow> string \<Rightarrow> (string, string) outcome" where
  "read_file env path = map_err (\<lambda>e. ''read '' @ path @ '': '' @ e) (ce_read env path)"

definition validate_casefile :: "'j cli_env \<Rightarrow> string \<Rightarrow> (string, unit) outcome" where
  "validate_casefile env path =
     obind (read_file env path) (\<lambda>text.
     obind (map_err (\<lambda>e. ''parse '' @ path @ '': '' @ e) (ce_parse env text)) (\<lambda>cf.
     if cf_schema_version cf \<noteq> 1
     then Err (''unsupported schema_version '' @ decimal (unat (cf_schema_version cf)))
     else if cf_case_id cf = [] then Err ''case_id is empty''
     else
     obind (check_ids 0 (sort (map op_id (cf_operations cf)))) (\<lambda>_.
     let stem = (case file_stem path of None \<Rightarrow> [] | Some s \<Rightarrow> s) in
     if \<not> starts_with stem (cf_case_id cf)
     then Err (''filename stem '' @ stem @ '' does not match case_id '' @ cf_case_id cf)
     else Ok ())))"

definition run_compare :: "'j cli_env \<Rightarrow> string \<Rightarrow> string \<Rightarrow> string \<Rightarrow> (string, string) outcome" where
  "run_compare env casefile_path oracle_path candidate_path =
     obind (read_file env casefile_path) (\<lambda>cf_text.
     obind (map_err (\<lambda>e. ''parse casefile: '' @ e) (ce_parse env cf_text)) (\<lambda>cf.
     obind (read_file env oracle_path) (\<lambda>oracle.
     obind (read_file env candidate_path) (\<lambda>candidate.
     obind (compare_events (json_env.truncate env) (cf_case_id cf) oracle candidate (map nr_id (cf_normalizers cf))) (\<lambda>cmp.
     map_err (\<lambda>e. ''serialize comparison: '' @ e) (ce_pretty env cmp))))))"

datatype exit_code = ExitSuccess | ExitFailure

text \<open>\<open>main\<close>: the exit code and the line printed, on standard output or, with \<open>ExitFailure\<close>, on standard error.\<close>

definition cli_result :: "string \<Rightarrow> string \<Rightarrow> (string, string) outcome \<Rightarrow> (exit_code \<times> string) option" where
  "cli_result good bad r = (case r of
       Ok x \<Rightarrow> Some (ExitSuccess, good @ x)
     | Err e \<Rightarrow> Some (ExitFailure, bad @ e)
     | Panic \<Rightarrow> None)"

definition cli_main :: "'j cli_env \<Rightarrow> string list \<Rightarrow> (exit_code \<times> string) option" where
  "cli_main env args =
     (if length args < 2 then Some (ExitFailure, ''usage: mojo-rs-casefile <validate|compare> ...'')
      else let cmd = args ! 1 in
      if cmd = ''validate'' then
        (if length args \<noteq> 3 then Some (ExitFailure, ''usage: mojo-rs-casefile validate <casefile.json>'')
         else cli_result ''casefile OK: '' ''casefile INVALID: ''
                (obind (validate_casefile env (args ! 2)) (\<lambda>_. Ok (args ! 2))))
      else if cmd = ''compare'' then
        (if length args \<noteq> 5
         then Some (ExitFailure,
                ''usage: mojo-rs-casefile compare <casefile.json> <oracle.events.jsonl> <candidate.events.jsonl>'')
         else cli_result [] ''compare error: '' (run_compare env (args ! 2) (args ! 3) (args ! 4)))
      else if cmd = ''--self-check'' then Some (ExitSuccess, ''mojo-rs-casefile self-check ok'')
      else Some (ExitFailure, ''unknown subcommand: '' @ cmd))"

section \<open>Normalizers\<close>

definition is_trap :: "'j harness_event \<Rightarrow> bool" where
  "is_trap e \<longleftrightarrow> he_event e = EvTrap"

text \<open>The same events in the same places, trap events sorted inside their runs.\<close>

definition reordered :: "'j harness_event list \<Rightarrow> 'j harness_event list \<Rightarrow> bool" where
  "reordered es out \<longleftrightarrow> mset out = mset es \<and>
     list_all2 (\<lambda>e e'. (is_trap e \<longleftrightarrow> is_trap e') \<and> (\<not> is_trap e \<longrightarrow> e' = e)) es out \<and>
     successively (\<lambda>a b. is_trap a \<and> is_trap b \<longrightarrow> context_key a \<le> context_key b) out \<and>
     (\<forall>k. filter (\<lambda>e. is_trap e \<and> context_key e = k) out = filter (\<lambda>e. is_trap e \<and> context_key e = k) es)"

lemma trap_order_out: "trap_order_loop es run out = out @ trap_order_loop es run []"
proof (induction es arbitrary: run out)
  case (Cons e es)
  show ?case
  proof (cases "he_event e = EvTrap")
    case True
    then show ?thesis using Cons.IH [of "run @ [e]" out] by simp
  next
    case False
    then show ?thesis
      using Cons.IH [of "[]" "out @ sort_key context_key run @ [e]"] Cons.IH [of "[]" "sort_key context_key run @ [e]"]
        Cons.IH [of "[]" "out @ [e]"] Cons.IH [of "[]" "[e]"] by simp
  qed
qed simp

lemma sorted_run:
  fixes run :: "'a harness_event list"
  assumes "list_all is_trap run"
  shows "reordered run (sort_key context_key run)"
proof -
  have t: "list_all is_trap (sort_key context_key run)" using assms by (simp add: list_all_iff)
  have "list_all2 (\<lambda>e e'. (is_trap e \<longleftrightarrow> is_trap e') \<and> (\<not> is_trap e \<longrightarrow> e' = e)) run (sort_key context_key run)"
    using assms t by (simp add: list_all2_conv_all_nth list_all_length)
  moreover have "successively (\<lambda>a b. is_trap a \<and> is_trap b \<longrightarrow> context_key a \<le> context_key b) (sort_key context_key run)"
  proof -
    have "sorted (map context_key (sort_key context_key run))" by simp
    then show ?thesis unfolding sorted_map by (rule successively_if_sorted_wrt [THEN successively_mono]) auto
  qed
  moreover have "filter (\<lambda>e. is_trap e \<and> context_key e = k) (sort_key context_key run) = filter (\<lambda>e. is_trap e \<and> context_key e = k) run" for k
  proof -
    have "filter (\<lambda>e. is_trap e \<and> context_key e = k) xs = filter (\<lambda>e. context_key e = k) xs" if "list_all is_trap xs" for xs :: "'a harness_event list"
      using that by (intro filter_cong) (auto simp: list_all_iff)
    then show ?thesis using assms t sort_key_stable [of context_key k run] by simp
  qed
  ultimately show ?thesis by (simp add: reordered_def)
qed

lemma reordered_glue:
  assumes "reordered xs xs'" "\<not> is_trap e" "reordered ys ys'"
  shows "reordered (xs @ e # ys) (xs' @ e # ys')"
proof -
  have "successively (\<lambda>a b. is_trap a \<and> is_trap b \<longrightarrow> context_key a \<le> context_key b) (xs' @ e # ys')"
    using assms by (auto simp: reordered_def successively_append_iff successively_Cons)
  then show ?thesis using assms by (auto simp: reordered_def intro!: list_all2_appendI)
qed

lemma trap_order_reorders:
  "list_all is_trap run \<Longrightarrow> reordered (run @ es) (trap_order_loop es run [])"
proof (induction es arbitrary: run)
  case Nil
  then show ?case using sorted_run by (cases "run = []") (auto simp: reordered_def)
next
  case (Cons e es)
  show ?case
  proof (cases "is_trap e")
    case True
    then show ?thesis using Cons.IH [of "run @ [e]"] Cons.prems by (simp add: is_trap_def)
  next
    case False
    have "reordered (run @ e # es) (sort_key context_key run @ e # trap_order_loop es [] [])"
      using reordered_glue [OF sorted_run [OF Cons.prems] False] Cons.IH [of "[]"] by simp
    moreover have "trap_order_loop (e # es) run [] = sort_key context_key run @ e # trap_order_loop es [] []"
      using False trap_order_out [of es "[]" "sort_key context_key run @ [e]"] trap_order_out [of es "[]" "[e]"]
      by (auto simp: is_trap_def)
    ultimately show ?thesis by simp
  qed
qed

text \<open>Sorting trap events hides nothing but their order.  The normalizer keeps every event; those that are not traps stay
  where they were; traps are only sorted by their context among their neighbours, and traps of one context keep
  their order throughout.\<close>
theorem trap_order_hides_only_order:
  "reordered es (normalize_trap_order es)"
  using trap_order_reorders [of "[]" es] by (simp add: normalize_trap_order_def)

lemma insort_key_map: "(\<And>x. f (g x) = f x) \<Longrightarrow> insort_key f (g a) (map g xs) = map g (insort_key f a xs)"
  by (induction xs) auto

lemma sort_key_map: "(\<And>x. f (g x) = f x) \<Longrightarrow> sort_key f (map g xs) = map g (sort_key f xs)"
  by (induction xs) (auto simp: insort_key_map)

lemma trap_order_map:
  fixes g :: "'j harness_event \<Rightarrow> 'j harness_event"
  assumes "\<And>e. he_event (g e) = he_event e" "\<And>e. context_key (g e) = context_key e"
  shows "normalize_trap_order (map g es) = map g (normalize_trap_order es)"
proof -
  have "trap_order_loop (map g es) (map g run) (map g out) = map g (trap_order_loop es run out)" for run out
  proof (induction es arbitrary: run out)
    case Nil
    show ?case using sort_key_map [of context_key g run] assms(2) by simp
  next
    case (Cons e es)
    show ?case
      using Cons.IH [of "run @ [e]" out] Cons.IH [of "[]" "out @ sort_key context_key run @ [e]"] Cons.IH [of "[]" "out @ [e]"]
        sort_key_map [of context_key g run] assms by simp
  qed
  from this [of "[]" "[]"] show ?thesis by (simp add: normalize_trap_order_def)
qed

lemma ordered_fixed:
  "list_all is_trap run \<Longrightarrow> successively (\<lambda>a b. is_trap a \<and> is_trap b \<longrightarrow> context_key a \<le> context_key b) (run @ es) \<Longrightarrow>
   trap_order_loop es run [] = run @ es"
proof (induction es arbitrary: run)
  have run: "sort_key context_key run = run"
    if "list_all is_trap run" "successively (\<lambda>a b. is_trap a \<and> is_trap b \<longrightarrow> context_key a \<le> context_key b) run" for run :: "'a harness_event list"
  proof -
    have "successively (\<lambda>a b. context_key a \<le> context_key b) run"
      by (rule successively_mono [OF that(2)]) (use that(1) in \<open>auto simp: list_all_iff\<close>)
    then have "sorted_wrt (\<lambda>a b. context_key a \<le> context_key b) run"
      by (subst (asm) successively_conv_sorted_wrt) (auto intro: transpI)
    then show ?thesis by (intro sort_key_id_if_sorted) (simp add: sorted_map)
  qed
  {
    case Nil
    then show ?case using run by simp
  next
    case (Cons e es)
    show ?case
    proof (cases "is_trap e")
      case True
      then show ?thesis using Cons.IH [of "run @ [e]"] Cons.prems by (simp add: is_trap_def)
    next
      case False
      have "trap_order_loop es [] [] = es" using Cons.IH [of "[]"] Cons.prems(2) by (auto simp: successively_append_iff successively_Cons)
      moreover have "sort_key context_key run = run" using run Cons.prems by (simp add: successively_append_iff)
      ultimately show ?thesis
        using False trap_order_out [of es "[]" "sort_key context_key run @ [e]"] trap_order_out [of es "[]" "[e]"]
        by (auto simp: is_trap_def)
    qed
  }
qed

lemma trap_order_idem: "normalize_trap_order (normalize_trap_order es) = normalize_trap_order es"
  using ordered_fixed [of "[]" "normalize_trap_order es"] trap_order_reorders [of "[]" es]
  by (simp add: normalize_trap_order_def reordered_def)

lemma normalizers_commute:
  "normalize_fd (normalize_pid es) = normalize_pid (normalize_fd es)"
  "normalize_trap_order (normalize_pid es) = normalize_pid (normalize_trap_order es)"
  "normalize_trap_order (normalize_fd es) = normalize_fd (normalize_trap_order es)"
  "normalize_pid (normalize_pid es) = normalize_pid es" "normalize_fd (normalize_fd es) = normalize_fd es"
  by (auto simp: normalize_pid_def normalize_fd_def context_key_def intro!: trap_order_map)

definition normal_form :: "string set \<Rightarrow> 'j harness_event list \<Rightarrow> 'j harness_event list" where
  "normal_form ids es =
     (let es = (if ''normalize.pid'' \<in> ids then normalize_pid es else es);
          es = (if ''normalize.fd'' \<in> ids then normalize_fd es else es)
      in if ''normalize.trap_order'' \<in> ids then normalize_trap_order es else es)"

lemma apply_normal_form:
  "\<forall>i \<in> set ids. normalizer i \<noteq> (None :: ('j harness_event list \<Rightarrow> 'j harness_event list) option) \<Longrightarrow>
   apply_normalizers es ids = Ok (normal_form (set ids) (es :: 'j harness_event list))"
proof (induction ids arbitrary: es)
  case Nil
  then show ?case by (simp add: normal_form_def)
next
  case (Cons i ids)
  have "normal_form (set ids) (f es) = normal_form (insert i (set ids)) es" if "normalizer i = Some f" for f
    using that
    by (auto simp: normal_form_def Let_def normalizer_def normalize_timestamp_def normalize_token_def normalizers_commute
        trap_order_idem split: if_splits)
  moreover obtain f where "normalizer i = Some (f :: 'j harness_event list \<Rightarrow> 'j harness_event list)"
    using Cons.prems by fastforce
  ultimately show ?case using Cons.IH [of "f es"] Cons.prems by auto
qed

text \<open>The order in which a casefile lists its normalizers, and listing one twice, makes no difference to any
  comparison.\<close>
theorem normalizers_order_irrelevant:
  assumes "set ids = set ids'" "\<forall>i \<in> set ids. normalizer i \<noteq> (None :: ('j harness_event list \<Rightarrow> 'j harness_event list) option)"
  shows "apply_normalizers (es :: 'j harness_event list) ids = apply_normalizers es ids'"
  using apply_normal_form [of ids es] apply_normal_form [of ids' es] assms by simp

theorem normalizers_order_irrelevant_witness:
  "apply_normalizers [(result_event 1 2 ''OK'' :: unit harness_event)\<lparr>he_event := EvTrap, he_trigger_context := Some 9, he_fd := Some 7\<rparr>,
      (result_event 2 2 ''OK'')\<lparr>he_event := EvTrap, he_trigger_context := Some 4\<rparr>] [''normalize.fd'', ''normalize.trap_order'', ''normalize.fd''] =
   apply_normalizers [(result_event 1 2 ''OK'')\<lparr>he_event := EvTrap, he_trigger_context := Some 9, he_fd := Some 7\<rparr>,
      (result_event 2 2 ''OK'')\<lparr>he_event := EvTrap, he_trigger_context := Some 4\<rparr>] [''normalize.trap_order'', ''normalize.fd'']"
  by (rule normalizers_order_irrelevant) (auto simp: normalizer_def)

section \<open>What a comparison finds\<close>

text \<open>The part of an event without its sequence number, operation id, number of bytes, size and process id.\<close>

definition observed :: "'j harness_event \<Rightarrow> 'j harness_event" where
  "observed e = e\<lparr>he_seq := 0, he_op_id := 0, he_num_bytes := None, he_size := None, he_pid := None\<rparr>"

definition same_observed :: "'j harness_event \<Rightarrow> 'j harness_event \<Rightarrow> bool" where
  "same_observed a b \<longleftrightarrow> observed a = observed b"

lemma event_eq_observed: "event_eq a b \<longleftrightarrow> same_observed a b"
  by (cases a; cases b) (auto simp: event_eq_def same_observed_def observed_def)

lemma residual_at_seq: "x \<in> set (residual_at a b i) \<Longrightarrow> rd_seq x = i"
  by (auto simp: residual_at_def split: option.splits if_splits)

lemma residual_at_Nil:
  "i < max (length a) (length b) \<Longrightarrow>
   residual_at a b i = [] \<longleftrightarrow> i < length a \<and> i < length b \<and> same_observed (a ! i) (b ! i)"
  by (auto simp: residual_at_def nth_opt_def event_eq_observed)

definition differ :: "'j harness_event list \<Rightarrow> 'j harness_event list \<Rightarrow> nat \<Rightarrow> bool" where
  "differ a b i \<longleftrightarrow> \<not> (i < length a \<and> i < length b \<and> same_observed (a ! i) (b ! i))"

lemma residual_at_map: "i < max (length a) (length b) \<Longrightarrow> map rd_seq (residual_at a b i) = (if differ a b i then [i] else [])"
  by (auto simp: residual_at_def nth_opt_def differ_def event_eq_observed)

lemma residuals_seq: "map rd_seq (residuals_of a b) = filter (differ a b) [0..<max (length a) (length b)]"
proof -
  have "map rd_seq (concat (map (residual_at a b) is)) = filter (differ a b) is"
    if "set is \<subseteq> {..<max (length a) (length b)}" for "is"
    using that
  proof (induction "is")
    case (Cons i js)
    then show ?case using residual_at_map [of i a b] by simp
  qed simp
  then show ?thesis by (simp add: residuals_of_def lessThan_atLeast0)
qed

lemma residual_fields:
  assumes "x \<in> set (residuals_of a b)"
  shows "rd_oracle x = nth_opt a (rd_seq x) \<and> rd_candidate x = nth_opt b (rd_seq x) \<and>
    rd_kind x = (if rd_seq x < length a then if rd_seq x < length b then Mismatch else Missing else Extra)"
  using assms by (auto simp: residuals_of_def residual_at_def nth_opt_def split: if_splits)

lemma no_residuals: "residuals_of a b = [] \<longleftrightarrow> list_all2 same_observed a b"
proof -
  have "residuals_of a b = [] \<longleftrightarrow> (\<forall>i < max (length a) (length b). \<not> differ a b i)"
    using residuals_seq [of a b] by (metis (no_types, lifting) atLeastLessThan_iff filter_empty_conv list.map_disc_iff set_upt zero_le)
  also have "\<dots> \<longleftrightarrow> list_all2 same_observed a b"
    by (auto simp: differ_def list_all2_conv_all_nth less_max_iff_disj) (metis less_irrefl_nat linorder_neqE_nat)
  finally show ?thesis .
qed

text \<open>C30: What a comparison reports.  When it gives a verdict, both streams were read and normalized; the verdict is
  \<open>pass\<close> exactly when the normalized streams have the same length and agree at every place once the sequence
  number, the operation id, the number of bytes, the size and the process id are blanked, and \<open>fail\<close> otherwise; and
  there is one residual, in order, for every place where they do not agree: \<open>Mismatch\<close> where both have an event,
  \<open>Missing\<close> and \<open>Extra\<close> where only the oracle or the candidate has one.  So every other field counts.  Against the
  documentation, numbers of bytes and sizes do not, and no residual is ever of the kind \<open>Order\<close>.\<close>
theorem comparison_exact:
  assumes "compare_events env i o_in c_in ids = Ok r"
  shows "\<exists>ro rc a b. parse_events (je_from_str env) o_in = Ok ro \<and> parse_events (je_from_str env) c_in = Ok rc \<and>
    apply_normalizers ro ids = Ok a \<and> apply_normalizers rc ids = Ok b \<and>
    (cm_status r = ''pass'' \<longleftrightarrow> list_all2 same_observed a b) \<and> (cm_status r = ''fail'' \<longleftrightarrow> \<not> list_all2 same_observed a b) \<and>
    map rd_seq (cm_residuals r) = filter (differ a b) [0..<max (length a) (length b)] \<and>
    (\<forall>x \<in> set (cm_residuals r). rd_oracle x = nth_opt a (rd_seq x) \<and> rd_candidate x = nth_opt b (rd_seq x) \<and>
       rd_kind x = (if rd_seq x < length a then if rd_seq x < length b then Mismatch else Missing else Extra))"
proof -
  obtain ro rc a b where r: "parse_events (je_from_str env) o_in = Ok ro" "parse_events (je_from_str env) c_in = Ok rc"
    "apply_normalizers ro ids = Ok a" "apply_normalizers rc ids = Ok b" "cm_residuals r = residuals_of a b"
    "cm_status r = (if residuals_of a b = [] then ''pass'' else ''fail'')"
    using assms by (auto simp: compare_events_def map_err_def Let_def split: outcome.splits)
  have "cm_status r = ''pass'' \<longleftrightarrow> list_all2 same_observed a b" "cm_status r = ''fail'' \<longleftrightarrow> \<not> list_all2 same_observed a b"
    unfolding r(6) no_residuals [symmetric] by simp_all
  moreover have "map rd_seq (cm_residuals r) = filter (differ a b) [0..<max (length a) (length b)]"
    unfolding r(5) by (rule residuals_seq)
  moreover have "\<forall>x \<in> set (cm_residuals r). rd_oracle x = nth_opt a (rd_seq x) \<and> rd_candidate x = nth_opt b (rd_seq x) \<and>
       rd_kind x = (if rd_seq x < length a then if rd_seq x < length b then Mismatch else Missing else Extra)"
    unfolding r(5) using residual_fields by blast
  ultimately show ?thesis using r(1-4) by blast
qed

text \<open>An environment for examples: every line is a result event with the line as its result.\<close>

definition demo_json :: "unit json_env" where
  "demo_json = \<lparr>je_from_str = \<lambda>l. Ok (result_event 1 1 l), je_to_line = \<lambda>e. Ok (he_result e), je_sha256_hex = \<lambda>s. s\<rparr>"

theorem comparison_exact_witness:
  "\<exists>r. compare_events demo_json ''c'' ''ab'' ''ac'' [''normalize.pid''] = Ok r \<and> cm_status r = ''fail'' \<and>
     map rd_seq (cm_residuals r) = [0] \<and> (\<forall>x \<in> set (cm_residuals r). rd_kind x = Mismatch)"
proof -
  obtain r :: "unit comparison" where r: "compare_events demo_json ''c'' ''ab'' ''ac'' [''normalize.pid''] = Ok r" "cm_status r = ''fail''"
    "map rd_seq (cm_residuals r) = [0]"
    by (simp add: compare_events_def demo_json_def parse_events_def lines_of_def blank_def map_err_def normalizer_def
        normalize_pid_def sha256_events_def Let_def residuals_of_def residual_at_def nth_opt_def result_event_def event_eq_def)
  from comparison_exact [OF r(1)] r(1) have "\<forall>x \<in> set (cm_residuals r). rd_kind x = Mismatch"
    by (auto simp: demo_json_def parse_events_def lines_of_def blank_def normalizer_def normalize_pid_def
        split: if_splits)
  with r show ?thesis by (intro exI [of _ r] conjI)
qed

section \<open>What a comparison does not look at\<close>

lemma same_observedD:
  assumes "same_observed a b"
  shows "is_trap a = is_trap b" "context_key a = context_key b" "same_observed (a\<lparr>he_pid := None\<rparr>) (b\<lparr>he_pid := None\<rparr>)"
    "same_observed (if he_fd a \<noteq> None then a\<lparr>he_fd := Some (- 1)\<rparr> else a) (if he_fd b \<noteq> None then b\<lparr>he_fd := Some (- 1)\<rparr> else b)"
  using assms
  by (cases a; cases b; simp add: same_observed_def observed_def is_trap_def context_key_def)+

lemma insort_key_rel:
  assumes "list_all2 R xs ys" "R a b" "\<And>x y. R x y \<Longrightarrow> f x = f y"
  shows "list_all2 R (insort_key f a xs) (insort_key f b ys)"
  using assms(1)
proof (induction rule: list_all2_induct)
  case (Cons x xs y ys)
  then show ?case using assms(2) assms(3) [OF Cons.hyps(1)] assms(3) [OF assms(2)] by simp
qed (simp add: assms(2))

lemma sort_key_rel:
  assumes "list_all2 R xs ys" "\<And>x y. R x y \<Longrightarrow> f x = f y"
  shows "list_all2 R (sort_key f xs) (sort_key f ys)"
  using assms(1)
proof (induction rule: list_all2_induct)
  case (Cons x xs y ys)
  then show ?case using insort_key_rel [of R _ _ x y f] assms(2) by simp
qed simp

lemma trap_loop_rel:
  "list_all2 same_observed xs ys \<Longrightarrow> list_all2 same_observed run run' \<Longrightarrow> list_all2 same_observed out out' \<Longrightarrow>
   list_all2 same_observed (trap_order_loop xs run out) (trap_order_loop ys run' out')"
proof (induction xs ys arbitrary: run run' out out' rule: list_all2_induct)
  case Nil
  then show ?case using sort_key_rel [of same_observed run run' context_key] same_observedD(2)
    by (auto intro: list_all2_appendI)
next
  case (Cons x xs y ys)
  have srt: "list_all2 same_observed (sort_key context_key run) (sort_key context_key run')"
    using sort_key_rel [of same_observed run run' context_key] same_observedD(2) Cons.prems by blast
  have "run = [] \<longleftrightarrow> run' = []" using Cons.prems(1) by auto
  moreover have "(he_event x = EvTrap) = (he_event y = EvTrap)" using same_observedD(1) [OF Cons.hyps(1)] by (simp add: is_trap_def)
  ultimately show ?case using Cons.prems srt Cons.hyps
    by (cases "he_event x = EvTrap") (auto intro!: Cons.IH list_all2_appendI)
qed

lemma normalizer_rel:
  assumes "list_all2 same_observed xs ys" "normalizer i = Some (f :: 'j harness_event list \<Rightarrow> 'j harness_event list)"
  shows "list_all2 same_observed (f xs) (f ys)"
proof -
  have "list_all2 same_observed (normalize_pid xs) (normalize_pid ys)" "list_all2 same_observed (normalize_fd xs) (normalize_fd ys)"
    unfolding normalize_pid_def normalize_fd_def list.rel_map
    by (rule list_all2_mono [OF assms(1)], erule same_observedD(3,4))+
  moreover have "list_all2 same_observed (normalize_trap_order xs) (normalize_trap_order ys)"
    unfolding normalize_trap_order_def by (rule trap_loop_rel) (use assms in auto)
  ultimately show ?thesis using assms
    by (auto simp: normalizer_def normalize_timestamp_def normalize_token_def split: if_splits)
qed

lemma apply_rel:
  "list_all2 same_observed xs ys \<Longrightarrow> apply_normalizers xs ids = Ok a \<Longrightarrow>
   \<exists>b. apply_normalizers ys ids = Ok b \<and> list_all2 same_observed a b"
proof (induction ids arbitrary: xs ys)
  case (Cons i ids)
  then show ?case using normalizer_rel [OF Cons.prems(1), of i] by (auto split: option.splits)
qed simp

text \<open>A comparison is blind to sizes.  Two streams that are parsed and differ only in their sequence numbers, their
  operation ids, their numbers of bytes, their sizes and their process ids are reported as \<open>pass\<close>, with every list of
  normalizers: what a court declares as \<open>num_bytes\<close> or \<open>size\<close> is not compared at all.\<close>
theorem comparison_blind_to_sizes:
  assumes "parse_events (je_from_str env) o_in = Ok xs" "parse_events (je_from_str env) c_in = Ok ys"
    "list_all2 same_observed xs ys" "compare_events env i o_in c_in ids = Ok r"
  shows "cm_status r = ''pass'' \<and> cm_residuals r = []"
proof -
  obtain a b where ab: "apply_normalizers xs ids = Ok a" "apply_normalizers ys ids = Ok b"
    and r: "cm_residuals r = residuals_of a b" "cm_status r = (if residuals_of a b = [] then ''pass'' else ''fail'')"
    using assms(1,2,4) by (auto simp: compare_events_def map_err_def Let_def split: outcome.splits)
  have "list_all2 same_observed a b" using apply_rel [OF assms(3) ab(1)] ab(2) by auto
  then show ?thesis using r no_residuals [of a b] by simp
qed

definition sized_json :: "unit json_env" where
  "sized_json = \<lparr>je_from_str = \<lambda>l. Ok ((result_event 1 1 ''OK'')\<lparr>he_num_bytes := Some (of_nat (length l))\<rparr>),
                 je_to_line = \<lambda>e. Ok (he_result e), je_sha256_hex = \<lambda>s. s\<rparr>"

theorem comparison_blind_to_sizes_witness:
  "\<exists>r. compare_events sized_json ''c'' ''a'' ''aa'' [] = Ok r \<and> cm_status r = ''pass''"
proof -
  have p: "parse_events (je_from_str sized_json) ''a'' = Ok [(result_event 1 1 ''OK'')\<lparr>he_num_bytes := Some 1\<rparr>]"
    "parse_events (je_from_str sized_json) ''aa'' = Ok [(result_event 1 1 ''OK'')\<lparr>he_num_bytes := Some 2\<rparr>]"
    by (simp_all add: parse_events_def lines_of_def blank_def sized_json_def)
  have s: "list_all2 same_observed [(result_event 1 1 ''OK'')\<lparr>he_num_bytes := Some 1\<rparr>] [(result_event 1 1 ''OK'' :: unit harness_event)\<lparr>he_num_bytes := Some 2\<rparr>]"
    by (simp add: same_observed_def observed_def result_event_def)
  obtain r :: "unit comparison" where "compare_events sized_json ''c'' ''a'' ''aa'' [] = Ok r"
    using p by (simp add: compare_events_def map_err_def sha256_events_def Let_def sized_json_def)
  then show ?thesis using comparison_blind_to_sizes [OF p s] by (intro exI [of _ r]) simp
qed

section \<open>What validation accepts\<close>

lemma check_ids_Ok: "check_ids i xs = Ok u \<longleftrightarrow> xs = map (\<lambda>k. of_nat k + 1) [i..<i + length xs]"
proof (induction xs arbitrary: i)
  case (Cons x xs)
  have "[i..<i + length (x # xs)] = i # [Suc i..<Suc i + length xs]" by (simp add: upt_conv_Cons del: upt_Suc)
  then show ?case using Cons.IH [of "Suc i"] by simp
qed simp

lemma sorted_ids_bounded:
  assumes "sorted (map (\<lambda>k. (of_nat k + 1 :: u64)) [0..<n])"
  shows "n < 2 ^ 64"
proof (rule ccontr)
  assume "\<not> n < 2 ^ 64"
  then have "(of_nat (2 ^ 64 - 2) + 1 :: u64) \<le> of_nat (2 ^ 64 - 1) + 1"
    using sorted_nth_mono [OF assms, of "2 ^ 64 - 2" "2 ^ 64 - 1"] by simp
  then show False by simp
qed

lemma unat_ids: "n < 2 ^ 64 \<Longrightarrow> map (\<lambda>k. unat (of_nat k + 1 :: u64)) [0..<n] = [1..<Suc n]"
proof -
  assume n: "n < 2 ^ 64"
  have "unat (of_nat k + 1 :: u64) = Suc k" if "k < n" for k
  proof -
    have "Suc k < 2 ^ LENGTH(64)" using n that by simp
    then have "unat (of_nat (Suc k) :: u64) = Suc k" unfolding unat_of_nat by (rule mod_less)
    then show ?thesis by (simp only: of_nat_Suc add.commute)
  qed
  then have "map (\<lambda>k. unat (of_nat k + 1 :: u64)) [0..<n] = map Suc [0..<n]" by simp
  then show ?thesis by (simp add: map_Suc_upt)
qed

lemma map_unat_sort: "map unat (sort ids) = sort (map unat (ids :: u64 list))"
  by (rule properties_for_sort [symmetric]) (simp_all add: sorted_map word_le_nat_alt [symmetric])

lemma ids_exact: "check_ids 0 (sort ids) = Ok u \<longleftrightarrow> mset (map unat ids) = mset [1..<Suc (length ids)]"
proof
  assume "check_ids 0 (sort ids) = Ok u"
  then have s: "sort ids = map (\<lambda>k. of_nat k + 1) [0..<length ids]" by (simp add: check_ids_Ok)
  have "length ids < 2 ^ 64" using sorted_ids_bounded [of "length ids"] s by (metis sorted_sort)
  then have "map unat (sort ids) = [1..<Suc (length ids)]" unfolding s using unat_ids [of "length ids"] by (simp add: comp_def)
  then show "mset (map unat ids) = mset [1..<Suc (length ids)]" by (metis map_unat_sort mset_sort)
next
  assume m: "mset (map unat ids) = mset [1..<Suc (length ids)]"
  have "sort (map unat ids) = [1..<Suc (length ids)]" by (rule properties_for_sort) (use m in \<open>simp_all del: upt_Suc\<close>)
  then have u: "map unat (sort ids) = [1..<Suc (length ids)]" by (simp add: map_unat_sort)
  have "map of_nat (map unat (sort ids)) = sort ids" by (simp add: comp_def)
  then have "sort ids = map of_nat [1..<Suc (length ids)]" by (simp only: u)
  also have "\<dots> = map (\<lambda>k. of_nat k + 1) [0..<length ids]" by (simp only: One_nat_def map_Suc_upt [symmetric] list.map_comp comp_def of_nat_Suc add.commute)
  finally show "check_ids 0 (sort ids) = Ok u" unfolding check_ids_Ok by simp
qed

lemma starts_with_prefix: "starts_with s p \<longleftrightarrow> take (length p) s = p"
  by (induction s p rule: starts_with.induct) auto

text \<open>C34: All that validation looks at.  \<open>validate\<close> exits with success exactly when the file can be read and parsed, its
  schema version is 1, its case id is not empty, its operation ids are the numbers 1 to n in some order, each once, and
  the case id is the beginning of the file's stem.  This is less than the documentation promises: the program announces
  that it validates a casefile against its schema, but a case id outside the pattern of the schema, an unknown court and an
  unknown operation name are accepted, as is a stem longer than the case id.\<close>
theorem validate_exact:
  "cli_main env [prog, ''validate'', path] = Some (ExitSuccess, ''casefile OK: '' @ path) \<longleftrightarrow>
     (\<exists>text cf. ce_read env path = Ok text \<and> ce_parse env text = Ok cf \<and> cf_schema_version cf = 1 \<and> cf_case_id cf \<noteq> [] \<and>
        mset (map (\<lambda>op. unat (op_id op)) (cf_operations cf)) = mset [1..<Suc (length (cf_operations cf))] \<and>
        take (length (cf_case_id cf)) (case file_stem path of None \<Rightarrow> [] | Some s \<Rightarrow> s) = cf_case_id cf)"
proof -
  have "cli_main env [prog, ''validate'', path] = Some (ExitSuccess, ''casefile OK: '' @ path) \<longleftrightarrow> validate_casefile env path = Ok ()"
    by (auto simp: cli_main_def cli_result_def Let_def split: outcome.splits)
  also have "\<dots> \<longleftrightarrow> (\<exists>text cf. ce_read env path = Ok text \<and> ce_parse env text = Ok cf \<and> cf_schema_version cf = 1 \<and> cf_case_id cf \<noteq> [] \<and>
        check_ids 0 (sort (map op_id (cf_operations cf))) = Ok () \<and>
        starts_with (case file_stem path of None \<Rightarrow> [] | Some s \<Rightarrow> s) (cf_case_id cf))"
    by (auto simp: validate_casefile_def read_file_def map_err_def Let_def split: outcome.splits)
  finally show ?thesis by (simp only: ids_exact starts_with_prefix list.map_comp comp_def length_map)
qed

end
