(* ===== verification/Acceptor.thy ===== *)
theory Acceptor
  imports RoutingMessages IpczCodec Casefile
begin

text \<open>
  The single-route acceptor: \<open>crates/mojo-rs-interop/src/ipcz/acceptor.rs\<close>.  A node that completes the handshake with
  a broker, receives parcels on the links of the initial portals, adopts a bypass, and answers the first
  message of the bootstrap portal.  The state is the record \<open>acceptor\<close>; the socket is the list of messages
  sent and the results of the reads; descriptors are numbers with an environment that says what they stand
  for.  What the code has changed before an error is not kept: a run ends at its first error.  Descriptors
  that are dropped without being used are closed, which has no effect on the state.
\<close>

section \<open>State\<close>

text \<open>\<open>AShortWrite\<close> is the I/O error of a write that takes nothing.\<close>

datatype acceptor_error =
    AChannel channel_error | AWire link_error | AMemory memory_error | AUnexpected string
  | AUnsupported byte string | ABadParcel string | AIo io_error | AShortWrite

type_synonym 'a acceptor_result = "(acceptor_error, 'a) outcome"

record link_edge =
  lk_sublink :: u64
  lk_state :: fragment

type_synonym portal_queue = "(byte list \<times> fd list) list"

record acceptor_router =
  ar_portal :: "portal_queue option"
  ar_primary :: link_edge
  ar_decaying :: "link_edge option"
  ar_outbound_seq :: u64
  ar_inbound_seq :: u64
  ar_inbound_by_edge :: "u64 \<Rightarrow> u64 option"
  ar_closed :: bool

datatype split_half = DataHalf accept_parcel | ObjectsHalf "driver_object list"

text \<open>The fields of an event that the acceptor fills in; payload and note before they are printed in hexadecimal.\<close>

record acceptor_event =
  ev_seq :: u64
  ev_op_id :: u64
  ev_kind :: event_kind
  ev_payload :: "byte list option"
  ev_note :: "byte list option"

record acceptor =
  ac_sent :: "(byte list \<times> fd list) list"
  ac_open :: bool
  ac_memory :: "link_memory option"
  ac_next_seq :: u64
  ac_routers :: "u64 \<Rightarrow> acceptor_router option"
  ac_early :: "u64 \<Rightarrow> portal_queue option"
  ac_pending_split :: "u64 \<times> u64 \<Rightarrow> split_half option"
  ac_bootstrap :: u64
  ac_events :: "acceptor_event list"
  ac_event_seq :: u64
  ac_reply_sent :: bool
  ac_reply_ready :: bool

datatype run_outcome = RunSuccess | RunPeerClosed

definition acceptor_initial_portals :: u32 where "acceptor_initial_portals = 8"
definition INTERNAL_PORTAL :: u64 where "INTERNAL_PORTAL = 0"

definition acceptor_new :: acceptor where
  "acceptor_new =
     \<lparr>ac_sent = [], ac_open = True, ac_memory = None, ac_next_seq = 0, ac_routers = Map.empty, ac_early = Map.empty,
      ac_pending_split = Map.empty, ac_bootstrap = 1, ac_events = [], ac_event_seq = 0,
      ac_reply_sent = False, ac_reply_ready = False\<rparr>"

text \<open>
  What the descriptors stand for, and what reading and writing them does: the results of the \<open>read\<close> calls on a
  descriptor up to the end of the file, the descriptor of a new memory file, and how much each \<open>write\<close> takes.
\<close>

datatype file_read = ReadBytes "byte list" | ReadFailed
datatype file_write = Wrote nat | WriteFailed

record acceptor_env = fd_env +
  ae_seek :: "fd \<Rightarrow> bool"
  ae_reads :: "fd \<Rightarrow> file_read list"
  ae_memfd :: "fd option"
  ae_writes :: "file_write list"

section \<open>Access\<close>

definition push_event :: "u64 \<Rightarrow> event_kind \<Rightarrow> byte list option \<Rightarrow> byte list option \<Rightarrow> acceptor \<Rightarrow> acceptor acceptor_result" where
  "push_event op kind payload note a =
     obind (from_option (succ64 (ac_event_seq a))) (\<lambda>n.
     Ok (a\<lparr>ac_event_seq := n,
           ac_events := ac_events a @ [\<lparr>ev_seq = n, ev_op_id = op, ev_kind = kind, ev_payload = payload, ev_note = note\<rparr>]\<rparr>))"

definition emit :: "u64 \<Rightarrow> event_kind \<Rightarrow> acceptor \<Rightarrow> acceptor acceptor_result" where
  "emit op kind = push_event op kind None None"

definition emit_receive :: "byte list \<Rightarrow> byte list \<Rightarrow> acceptor \<Rightarrow> acceptor acceptor_result" where
  "emit_receive payload content = push_event 3 EvMessage (Some payload) (Some content)"

definition acceptor_memory :: "acceptor \<Rightarrow> link_memory acceptor_result" where
  "acceptor_memory a = ok_or (ac_memory a) (AUnexpected ''link memory not established'')"

definition set_router_of :: "u64 \<Rightarrow> acceptor_router \<Rightarrow> acceptor \<Rightarrow> acceptor" where
  "set_router_of k r a = a\<lparr>ac_routers := (ac_routers a)(k \<mapsto> r)\<rparr>"

definition channel_put :: "byte list \<Rightarrow> fd list \<Rightarrow> acceptor \<Rightarrow> acceptor acceptor_result" where
  "channel_put payload fds a =
     (if \<not> ac_open a then Err (AChannel ChannelIo) else Ok (a\<lparr>ac_sent := ac_sent a @ [(payload, fds)]\<rparr>))"

definition send_numbered :: "byte list option \<Rightarrow> fd list \<Rightarrow> acceptor \<Rightarrow> acceptor acceptor_result" where
  "send_numbered payload fds a =
     obind (from_option payload) (\<lambda>payload.
     obind (from_option (set_message_sequence_number payload (ac_next_seq a))) (\<lambda>payload.
     obind (from_option (succ64 (ac_next_seq a))) (\<lambda>n.
     channel_put payload fds (a\<lparr>ac_next_seq := n\<rparr>))))"

definition send_link_message :: "byte list option \<Rightarrow> acceptor \<Rightarrow> acceptor acceptor_result" where
  "send_link_message payload = send_numbered payload []"

definition send_route_closed :: "u64 \<Rightarrow> u64 \<Rightarrow> acceptor \<Rightarrow> acceptor acceptor_result" where
  "send_route_closed sublink len = send_link_message (encode_route_closed sublink len)"

section \<open>Driver objects\<close>

definition unwrap_wrapped_platform_handle :: "acceptor_env \<Rightarrow> driver_object \<Rightarrow> fd list \<Rightarrow> fd acceptor_result" where
  "unwrap_wrapped_platform_handle env obj fds =
     (if dobj_num_fds obj \<noteq> 1 then Err (ABadParcel ''wrapped handle must carry one fd'')
      else if length fds \<le> dobj_first_fd obj then Err (ABadParcel ''driver object fd out of range'')
      else
      let f = fds ! dobj_first_fd obj; data = dobj_data obj in
      if length data < 16 then Err (ABadParcel ''truncated wrapped handle'')
      else
      obind (from_option (word_at 4 data 0)) (\<lambda>header_size :: u32.
      obind (from_option (word_at 4 data 4)) (\<lambda>object_type :: u32.
      if header_size \<noteq> 8 \<or> object_type \<noteq> 4 then Err (ABadParcel ''driver object is not a WrappedPlatformHandle'')
      else
      obind (from_option (word_at 4 data 8)) (\<lambda>wrapper_size :: u32.
      obind (from_option (word_at 4 data 12)) (\<lambda>wrapper_type :: u32.
      if unat wrapper_size < 8 \<or> unat wrapper_size mod 8 \<noteq> 0 \<or> wrapper_type \<noteq> 0
      then Err (ABadParcel ''bad WrappedPlatformHandle header'')
      else ok_or (fe_dup env f) (AIo OsError))))))"

definition wrapped_platform_handle_encoding :: "byte list" where
  "wrapped_platform_handle_encoding =
     to_le 4 (8 :: u32) @ to_le 4 (4 :: u32) @ to_le 4 (8 :: u32) @ to_le 4 (0 :: u32)"

text \<open>An array at an offset of the payload, by its length in bytes alone.\<close>

definition read_array_at :: "byte list \<Rightarrow> u32 \<Rightarrow> byte list acceptor_result" where
  "read_array_at payload off =
     (if length payload < unat off then Err (AWire BadArrayOffset)
      else
      let arr = drop (unat off) payload in
      if length arr < 8 then Err (AWire BadArray)
      else
      obind (from_option (word_at 4 arr 0)) (\<lambda>num_bytes :: u32.
      if unat num_bytes < 8 \<or> unat num_bytes > length arr then Err (AWire BadArray)
      else from_option (slice arr 8 (unat num_bytes))))"

record shared_buffer_info =
  si_buffer_size :: u32
  si_mode :: u32
  si_guid_low :: u64
  si_guid_high :: u64

definition parse_shared_buffer_driver_object :: "byte list \<Rightarrow> shared_buffer_info acceptor_result" where
  "parse_shared_buffer_driver_object payload =
     obind (map_err AWire (parse_message_header payload)) (\<lambda>hdr.
     let doa = lh_driver_objects hdr in
     if doa = 0 then Err (AUnexpected ''Connect carries no driver objects'')
     else
     obind (read_array_at payload doa) (\<lambda>data.
     if length data \<noteq> 8 then Err (AUnexpected ''bad driver object array'')
     else
     obind (from_option (word_at 4 data 0)) (\<lambda>driver_data_array.
     obind (from_option (word_at 2 data 6)) (\<lambda>num_handles :: u16.
     if num_handles \<noteq> 1 then Err (AUnexpected ''link memory must carry one fd'')
     else
     obind (read_array_at payload driver_data_array) (\<lambda>obj.
     if length obj < 8 then Err (AUnexpected ''truncated driver object'')
     else
     obind (from_option (word_at 4 obj 0)) (\<lambda>header_size :: u32.
     obind (from_option (word_at 4 obj 4)) (\<lambda>object_type :: u32.
     if header_size \<noteq> 8 \<or> object_type \<noteq> 1 then Err (AUnexpected ''Connect buffer is not a SharedBuffer'')
     else if length obj < 40 then Err (AUnexpected ''truncated BufferHeader'')
     else
     let bh = take 32 (drop 8 obj) in
     obind (from_option (word_at 4 bh 0)) (\<lambda>size :: u32.
     obind (from_option (word_at 4 bh 4)) (\<lambda>buffer_size.
     obind (from_option (word_at 4 bh 8)) (\<lambda>mode.
     if size \<noteq> 32 then Err (AUnexpected ''bad BufferHeader size'')
     else
     obind (from_option (word_at 8 bh 16)) (\<lambda>low.
     obind (from_option (word_at 8 bh 24)) (\<lambda>high.
     Ok \<lparr>si_buffer_size = buffer_size, si_mode = mode, si_guid_low = low, si_guid_high = high\<rparr>))))))))))))"

section \<open>Files\<close>

text \<open>\<open>read_all\<close>: from the start to the end of the file.\<close>

fun read_chunks :: "file_read list \<Rightarrow> byte list \<Rightarrow> byte list acceptor_result" where
  "read_chunks [] out = Ok out"
| "read_chunks (ReadFailed # _) out = Err (AIo OsError)"
| "read_chunks (ReadBytes bytes # rest) out = (if bytes = [] then Ok out else read_chunks rest (out @ bytes))"

definition read_all :: "acceptor_env \<Rightarrow> fd \<Rightarrow> byte list acceptor_result" where
  "read_all env f = (if \<not> ae_seek env f then Err (AIo OsError) else read_chunks (ae_reads env f) [])"

text \<open>\<open>write_all\<close>: a \<open>write\<close> that is not scripted takes nothing.\<close>

fun write_all :: "byte list \<Rightarrow> nat \<Rightarrow> file_write list \<Rightarrow> unit acceptor_result" where
  "write_all bytes written script =
     (if length bytes \<le> written then Ok ()
      else case script of
        [] \<Rightarrow> Err AShortWrite
      | WriteFailed # _ \<Rightarrow> Err (AIo OsError)
      | Wrote n # rest \<Rightarrow> if n = 0 then Err AShortWrite else write_all bytes (written + n) rest)"

declare write_all.simps [simp del]

section \<open>Parcels\<close>

text \<open>Delivery to the portal of the router of a sublink; the parcel of an unknown sublink waits.\<close>

definition deliver_parcel :: "u64 \<Rightarrow> u64 \<Rightarrow> byte list \<Rightarrow> fd list \<Rightarrow> acceptor \<Rightarrow> acceptor acceptor_result" where
  "deliver_parcel sublink sequence_number data objects a =
     (case ac_routers a sublink of
        Some r \<Rightarrow>
          if sequence_number \<noteq> ar_inbound_seq r then Err (ABadParcel ''route sequence gap or duplicate'')
          else
          obind (from_option (succ64 (ar_inbound_seq r))) (\<lambda>n.
          obind (from_option (succ64 (case ar_inbound_by_edge r sublink of None \<Rightarrow> 0 | Some k \<Rightarrow> k))) (\<lambda>k.
          let r = r\<lparr>ar_inbound_seq := n, ar_inbound_by_edge := (ar_inbound_by_edge r)(sublink \<mapsto> k)\<rparr> in
          case ar_portal r of
            None \<Rightarrow> Ok (set_router_of sublink r a)
          | Some messages \<Rightarrow>
            Ok (set_router_of sublink (r\<lparr>ar_portal := Some (messages @ [(data, objects)])\<rparr>)
                 (a\<lparr>ac_reply_ready := (sublink = ac_bootstrap a \<or> ac_reply_ready a)\<rparr>))))
      | None \<Rightarrow>
          Ok (a\<lparr>ac_early := (ac_early a)(sublink \<mapsto>
                (case ac_early a sublink of None \<Rightarrow> [] | Some q \<Rightarrow> q) @ [(data, objects)])\<rparr>))"

text \<open>The objects of a parcel against its handle types: the objects, whether it is split, the objects left over.\<close>

fun take_objects ::
  "acceptor_env \<Rightarrow> fd list \<Rightarrow> u32 list \<Rightarrow> driver_object list \<Rightarrow> (fd list \<times> bool \<times> driver_object list) acceptor_result" where
  "take_objects env fds [] refs = Ok ([], False, refs)"
| "take_objects env fds (t # ts) refs =
     (if t = 1 then
        (case refs of
           [] \<Rightarrow> Err (ABadParcel ''missing driver object'')
         | obj # refs \<Rightarrow>
           obind (unwrap_wrapped_platform_handle env obj fds) (\<lambda>f.
           obind (take_objects env fds ts refs) (\<lambda>(objects, split, left). Ok (f # objects, split, left))))
      else if t = 2 then
        obind (take_objects env fds ts refs) (\<lambda>(objects, split, left). Ok (objects, True, left))
      else if t = 0 then Err (AUnsupported MSG_ID_ACCEPT_PARCEL ''portal transfer (kPortal) not supported'')
      else Err (ABadParcel ''unknown handle type''))"

definition on_accept_parcel :: "acceptor_env \<Rightarrow> accept_parcel \<Rightarrow> fd list \<Rightarrow> acceptor \<Rightarrow> acceptor acceptor_result" where
  "on_accept_parcel env p fds a =
     (if ap_num_subparcels p = 0 \<or> ap_subparcel_index p \<ge> ap_num_subparcels p \<or> ap_num_subparcels p > 16
      then Err (ABadParcel ''invalid subparcel bounds'')
      else if ap_num_subparcels p > 1 then Err (AUnsupported MSG_ID_ACCEPT_PARCEL ''multi-subparcel parcels not supported'')
      else
      obind (if fragment_is_null (ap_parcel_fragment p) then Ok (ap_parcel_data p)
             else obind (acceptor_memory a) (\<lambda>m. map_err AMemory (read_parcel_fragment m (ap_parcel_fragment p)))) (\<lambda>data.
      obind (take_objects env fds (ap_handle_types p) (ap_driver_objects p)) (\<lambda>(objects, split, left).
      if left \<noteq> [] then Err (ABadParcel ''unclaimed driver objects'')
      else if split
      then Ok (a\<lparr>ac_pending_split := (ac_pending_split a)((ap_sublink p, ap_sequence_number p) \<mapsto> DataHalf p)\<rparr>)
      else deliver_parcel (ap_sublink p) (ap_sequence_number p) data objects a)))"

fun unwrap_all :: "acceptor_env \<Rightarrow> fd list \<Rightarrow> driver_object list \<Rightarrow> fd list acceptor_result" where
  "unwrap_all env fds [] = Ok []"
| "unwrap_all env fds (obj # objs) =
     obind (unwrap_wrapped_platform_handle env obj fds) (\<lambda>f.
     obind (unwrap_all env fds objs) (\<lambda>objects. Ok (f # objects)))"

definition on_accept_parcel_objects ::
  "acceptor_env \<Rightarrow> parcel_objects \<Rightarrow> fd list \<Rightarrow> acceptor \<Rightarrow> acceptor acceptor_result" where
  "on_accept_parcel_objects env p fds a =
     (let k = (po_sublink p, po_sequence_number p) in
      obind (unwrap_all env fds (po_driver_objects p)) (\<lambda>objects.
      let removed = a\<lparr>ac_pending_split := (ac_pending_split a)(k := None)\<rparr> in
      case ac_pending_split a k of
        Some (DataHalf parcel) \<Rightarrow>
          if length (filter (\<lambda>t. t = 2) (ap_handle_types parcel)) \<noteq> length objects
          then Err (ABadParcel ''split parcel object count mismatch'')
          else deliver_parcel (po_sublink p) (po_sequence_number p) (ap_parcel_data parcel) objects removed
      | Some (ObjectsHalf _) \<Rightarrow> Err (ABadParcel ''duplicate split parcel objects'')
      | None \<Rightarrow> Ok (a\<lparr>ac_pending_split := (ac_pending_split a)(k \<mapsto> ObjectsHalf (po_driver_objects p))\<rparr>)))"

section \<open>Bypass\<close>

fun deliver_early :: "u64 \<Rightarrow> portal_queue \<Rightarrow> acceptor \<Rightarrow> acceptor acceptor_result" where
  "deliver_early sublink [] a = Ok a"
| "deliver_early sublink ((data, objects) # rest) a =
     obind (deliver_parcel sublink 0 data objects a) (deliver_early sublink rest)"

definition set_stable_bits :: "fragment \<Rightarrow> acceptor \<Rightarrow> acceptor acceptor_result" where
  "set_stable_bits state a =
     obind (acceptor_memory a) (\<lambda>m.
     obind (map_err AMemory (set_link_status_bits m state SIDE_B_STABLE)) (\<lambda>(_, m).
     Ok (a\<lparr>ac_memory := Some m\<rparr>)))"

definition acceptor_bypass :: "bypass_peer_with_link \<Rightarrow> acceptor \<Rightarrow> acceptor acceptor_result" where
  "acceptor_bypass b a =
     (if fragment_is_null (bl_new_link_state_fragment b) then Err (ABadParcel ''bypass with null link state'')
      else
      obind (acceptor_memory a) (\<lambda>m.
      obind (map_err (\<lambda>_. ABadParcel ''bypass link state unresolvable'') (fragment_view m (bl_new_link_state_fragment b))) (\<lambda>_.
      obind (ok_or (ac_routers a (bl_sublink b)) (ABadParcel ''bypass for unknown sublink'')) (\<lambda>r.
      let old = ar_primary r;
          received = (case ar_inbound_by_edge r (lk_sublink old) of None \<Rightarrow> 0 | Some k \<Rightarrow> k);
          r' = r\<lparr>ar_decaying := Some old,
                 ar_primary := \<lparr>lk_sublink = bl_new_sublink b, lk_state = bl_new_link_state_fragment b\<rparr>\<rparr> in
      obind (send_link_message (encode_stop_proxying_to_local_peer (lk_sublink old) (ar_outbound_seq r))
              (set_router_of (bl_sublink b) r' a)) (\<lambda>a.
      obind (if bl_inbound_sequence_length b \<le> received
             then set_stable_bits (bl_new_link_state_fragment b) (set_router_of (bl_sublink b) (r'\<lparr>ar_decaying := None\<rparr>) a)
             else Ok a) (\<lambda>a.
      case ac_early a (bl_new_sublink b) of
        None \<Rightarrow> Ok a
      | Some queued \<Rightarrow>
          deliver_early (bl_new_sublink b) queued (a\<lparr>ac_early := (ac_early a)(bl_new_sublink b := None)\<rparr>)))))))"

section \<open>Dispatch\<close>

definition close_router_of :: "u64 \<Rightarrow> acceptor \<Rightarrow> acceptor" where
  "close_router_of sublink a =
     (case ac_routers a sublink of None \<Rightarrow> a | Some r \<Rightarrow> set_router_of sublink (r\<lparr>ar_closed := True\<rparr>) a)"

definition acceptor_add_buffer :: "acceptor_env \<Rightarrow> add_block_buffer \<Rightarrow> fd list \<Rightarrow> acceptor \<Rightarrow> acceptor acceptor_result" where
  "acceptor_add_buffer env b fds a =
     (if length fds \<le> unat (ab_buffer_index b) then Err (AUnexpected ''AddBlockBuffer index out of range'')
      else
      obind (ok_or (fe_dup env (fds ! unat (ab_buffer_index b))) (AIo OsError)) (\<lambda>f.
      obind (acceptor_memory a) (\<lambda>m.
      obind (map_err AIo (add_buffer m (ab_buffer_id b) (fe_contents env f) (fe_mapped env f) (ab_block_size b))) (\<lambda>m.
      Ok (a\<lparr>ac_memory := Some m\<rparr>)))))"

fun acceptor_handle :: "acceptor_env \<Rightarrow> decoded_message \<Rightarrow> fd list \<Rightarrow> acceptor \<Rightarrow> acceptor acceptor_result" where
  "acceptor_handle env (ConnectFromBrokerToNonBroker _) fds a = Err (AUnexpected ''Connect received after handshake'')"
| "acceptor_handle env (ConnectFromNonBrokerToBroker _) fds a = Err (AUnexpected ''Connect reply received from broker'')"
| "acceptor_handle env (ReferNonBroker _) fds a =
     Err (AUnsupported MSG_ID_REFER_NON_BROKER ''referral not supported by the Phase 3 acceptor'')"
| "acceptor_handle env (ConnectToReferredBroker _) fds a =
     Err (AUnsupported MSG_ID_CONNECT_TO_REFERRED_BROKER ''referred-node connect not supported by the Phase 3 acceptor'')"
| "acceptor_handle env (ConnectToReferredNonBroker _) fds a =
     Err (AUnsupported MSG_ID_CONNECT_TO_REFERRED_NON_BROKER ''referral acceptance not supported by the Phase 3 acceptor'')"
| "acceptor_handle env (NonBrokerReferralAccepted _) fds a =
     Err (AUnsupported MSG_ID_NON_BROKER_REFERRAL_ACCEPTED ''referral acceptance not supported by the Phase 3 acceptor'')"
| "acceptor_handle env (NonBrokerReferralRejected _) fds a =
     Err (AUnsupported MSG_ID_NON_BROKER_REFERRAL_REJECTED ''referral rejection not supported by the Phase 3 acceptor'')"
| "acceptor_handle env (ConnectFromBrokerToBroker _) fds a =
     Err (AUnsupported MSG_ID_CONNECT_FROM_BROKER_TO_BROKER ''broker-to-broker connect not supported by the Phase 3 acceptor'')"
| "acceptor_handle env (RequestIntroduction _) fds a =
     Err (AUnsupported MSG_ID_REQUEST_INTRODUCTION ''introduction request not supported by the Phase 3 acceptor'')"
| "acceptor_handle env (AcceptIntroduction _) fds a =
     Err (AUnsupported MSG_ID_ACCEPT_INTRODUCTION ''introduction not supported by the Phase 3 acceptor'')"
| "acceptor_handle env (RejectIntroduction _) fds a =
     Err (AUnsupported MSG_ID_REJECT_INTRODUCTION ''introduction rejection not supported by the Phase 3 acceptor'')"
| "acceptor_handle env (RequestIndirectIntroduction _) fds a =
     Err (AUnsupported MSG_ID_REQUEST_INDIRECT_INTRODUCTION ''indirect introduction not supported by the Phase 3 acceptor'')"
| "acceptor_handle env (AddBlockBuffer b) fds a = acceptor_add_buffer env b fds a"
| "acceptor_handle env (AcceptParcel p) fds a = on_accept_parcel env p fds a"
| "acceptor_handle env (AcceptParcelDriverObjects p) fds a = on_accept_parcel_objects env p fds a"
| "acceptor_handle env (RouteClosed rc) fds a = Ok (close_router_of (rc_sublink rc) a)"
| "acceptor_handle env (RouteDisconnected sublink) fds a = Ok (close_router_of sublink a)"
| "acceptor_handle env (BypassPeerWithLink b) fds a = acceptor_bypass b a"
| "acceptor_handle env (StopProxyingToLocalPeer _) fds a = Ok a"
| "acceptor_handle env (FlushRouter _) fds a = Ok a"
| "acceptor_handle env (BypassPeer _) fds a =
     Err (AUnsupported MSG_ID_BYPASS_PEER ''BypassPeer not supported by the Phase 3 acceptor'')"
| "acceptor_handle env (AcceptBypassLink _) fds a =
     Err (AUnsupported MSG_ID_ACCEPT_BYPASS_LINK ''AcceptBypassLink not supported by the Phase 3 acceptor'')"
| "acceptor_handle env (StopProxying _) fds a =
     Err (AUnsupported MSG_ID_STOP_PROXYING ''StopProxying not supported by the Phase 3 acceptor'')"
| "acceptor_handle env (ProxyWillStop _) fds a =
     Err (AUnsupported MSG_ID_PROXY_WILL_STOP ''ProxyWillStop not supported by the Phase 3 acceptor'')"
| "acceptor_handle env (RequestMemory _) fds a =
     Err (AUnsupported MSG_ID_REQUEST_MEMORY ''RequestMemory not supported by the Phase 3 acceptor'')"
| "acceptor_handle env (ProvideMemory _) fds a =
     Err (AUnsupported MSG_ID_PROVIDE_MEMORY ''ProvideMemory not supported by the Phase 3 acceptor'')"
| "acceptor_handle env (Unknown n) fds a = Err (AUnsupported n ''message type not decoded by the interop layer'')"

definition acceptor_dispatch :: "acceptor_env \<Rightarrow> incoming_message \<Rightarrow> acceptor \<Rightarrow> acceptor acceptor_result" where
  "acceptor_dispatch env m a =
     obind (map_err AWire (decode_message (im_payload m) (length (im_fds m)))) (\<lambda>msg.
     acceptor_handle env msg (im_fds m) a)"
section \<open>The reply\<close>

definition ascii :: "string \<Rightarrow> byte list" where
  "ascii s = map of_char s"

definition bootstrap_router :: "acceptor \<Rightarrow> acceptor_router acceptor_result" where
  "bootstrap_router a = ok_or (ac_routers a (ac_bootstrap a)) (AUnexpected ''bootstrap router missing'')"

text \<open>The descriptor of the reply: a new memory file with its contents written.\<close>

definition reply_file :: "acceptor_env \<Rightarrow> fd acceptor_result" where
  "reply_file env =
     obind (ok_or (ae_memfd env) (AIo OsError)) (\<lambda>f.
     obind (write_all (ascii ''fd-from-acceptor'') 0 (ae_writes env)) (\<lambda>_. Ok f))"

definition send_reply :: "acceptor_env \<Rightarrow> acceptor \<Rightarrow> acceptor acceptor_result" where
  "send_reply env a =
     obind (bootstrap_router a) (\<lambda>r.
     case ar_portal r of
       None \<Rightarrow> Err (AUnexpected ''bootstrap portal missing'')
     | Some [] \<Rightarrow> Err (AUnexpected ''bootstrap message missing'')
     | Some ((payload, fds) # messages) \<Rightarrow>
       let a = set_router_of (ac_bootstrap a) (r\<lparr>ar_portal := Some messages\<rparr>) a in
       if payload \<noteq> ascii ''hello-from-broker'' then Err (ABadParcel ''unexpected broker payload'')
       else (case fds of
         [f] \<Rightarrow>
           obind (read_all env f) (\<lambda>content.
           if content \<noteq> ascii ''fd-from-broker'' then Err (ABadParcel ''unexpected broker fd content'')
           else
           obind (emit_receive payload content a) (\<lambda>a.
           obind (reply_file env) (\<lambda>reply_fd.
           obind (bootstrap_router a) (\<lambda>r.
           obind (acceptor_memory a) (\<lambda>m.
           obind (map_err AMemory (write_parcel_fragment m (ascii ''hello-from-acceptor''))) (\<lambda>(frag, m).
           obind (send_numbered
                    (encode_accept_parcel_fragment (lk_sublink (ar_primary r)) (ar_outbound_seq r) frag [1]
                       [wrapped_platform_handle_encoding]) [reply_fd] (a\<lparr>ac_memory := Some m\<rparr>)) (\<lambda>a.
           obind (bootstrap_router a) (\<lambda>r.
           obind (from_option (succ64 (ar_outbound_seq r))) (\<lambda>n.
           emit 4 EvResult (set_router_of (ac_bootstrap a) (r\<lparr>ar_outbound_seq := n\<rparr>) (a\<lparr>ac_reply_sent := True\<rparr>)))))))))))
       | _ \<Rightarrow> Err (ABadParcel ''expected one descriptor'')))"

section \<open>The handshake\<close>

definition portal_state :: "nat \<Rightarrow> fragment" where
  "portal_state k = \<lparr>fr_buffer_id = 0, fr_offset = of_nat (initial_link_state_offset k), fr_size = of_nat ROUTER_LINK_STATE_SIZE\<rparr>"

definition initial_router :: "nat \<Rightarrow> portal_queue option \<Rightarrow> bool \<Rightarrow> acceptor_router" where
  "initial_router k portal shut =
     \<lparr>ar_portal = portal, ar_primary = \<lparr>lk_sublink = of_nat k, lk_state = portal_state k\<rparr>, ar_decaying = None,
      ar_outbound_seq = 0, ar_inbound_seq = 0, ar_inbound_by_edge = Map.empty, ar_closed = shut\<rparr>"

text \<open>The portals that the broker also has, then the surplus ones.\<close>

fun open_initial :: "nat list \<Rightarrow> acceptor \<Rightarrow> acceptor acceptor_result" where
  "open_initial [] a = Ok a"
| "open_initial (k # ks) a =
     obind (set_stable_bits (portal_state k) a) (\<lambda>a.
     open_initial ks (set_router_of (of_nat k) (initial_router k (if k = 1 then Some [] else None) (1 < k)) a))"

fun open_surplus :: "nat list \<Rightarrow> acceptor \<Rightarrow> acceptor" where
  "open_surplus [] a = a"
| "open_surplus (k # ks) a = open_surplus ks (set_router_of (of_nat k) (initial_router k None True) a)"

definition acceptor_connect ::
  "acceptor_env \<Rightarrow> (channel_error, incoming_message option) outcome \<Rightarrow> acceptor \<Rightarrow> acceptor acceptor_result" where
  "acceptor_connect env received a =
     obind (map_err AChannel received) (\<lambda>m.
     obind (ok_or m (AUnexpected ''peer closed before Connect'')) (\<lambda>m.
     obind (map_err AWire (decode_message (im_payload m) (length (im_fds m)))) (\<lambda>msg.
     case msg of
       ConnectFromBrokerToNonBroker c \<Rightarrow>
         if cn_num_initial_portals c > of_nat MAX_INITIAL_PORTALS then Err (ABadParcel ''excessive initial portals'')
         else (case im_fds m of
           [f] \<Rightarrow>
             obind (parse_shared_buffer_driver_object (im_payload m)) (\<lambda>buffer.
             if si_buffer_size buffer \<noteq> of_nat PRIMARY_BUFFER_SIZE
             then Err (AUnexpected ''link memory buffer has unexpected size'')
             else
             obind (map_err AIo (adopt_primary (fe_contents env f) (fe_mapped env f))) (\<lambda>memory.
             obind (from_option (encode_connect_from_non_broker_to_broker acceptor_initial_portals 0)) (\<lambda>reply.
             obind (channel_put reply [] (a\<lparr>ac_memory := Some memory\<rparr>)) (\<lambda>a.
             let n = min (unat (cn_num_initial_portals c)) MAX_INITIAL_PORTALS in
             obind (open_initial [0..<n] a) (\<lambda>a. Ok (open_surplus [n..<MAX_INITIAL_PORTALS] a))))))
         | _ \<Rightarrow> Err (AUnexpected ''Connect carries no link memory''))
     | _ \<Rightarrow> Err (AUnexpected ''first message was not ConnectFromBrokerToNonBroker''))))"

section \<open>The exchange\<close>

text \<open>
  What \<open>recv_available\<close> returns in a row; after the last result it would block.  The flag says that the peer closed.
\<close>

fun drain_results ::
  "acceptor_env \<Rightarrow> (channel_error, recv_result) outcome list \<Rightarrow> acceptor \<Rightarrow> (bool \<times> acceptor) acceptor_result" where
  "drain_results env [] a = Ok (False, a)"
| "drain_results env (r # rs) a =
     obind (map_err AChannel r) (\<lambda>r.
     case r of
       RMessage m \<Rightarrow> obind (acceptor_dispatch env m a) (drain_results env rs)
     | RWouldBlock \<Rightarrow> Ok (False, a)
     | RPeerClosed \<Rightarrow> Ok (True, a))"

definition finish_exchange :: "bool \<Rightarrow> acceptor \<Rightarrow> (run_outcome \<times> acceptor) acceptor_result" where
  "finish_exchange peer_closed a =
     obind
       (if \<not> peer_closed \<and> ac_reply_sent a then
          (case ac_routers a (ac_bootstrap a) of
             None \<Rightarrow> send_route_closed (ac_bootstrap a) 0 a
           | Some r \<Rightarrow> send_route_closed (lk_sublink (ar_primary r)) (ar_outbound_seq r) a)
        else Ok a) (\<lambda>a.
     Ok (if peer_closed \<and> \<not> ac_reply_sent a then RunPeerClosed else RunSuccess, a))"

type_synonym exchange_round = "(io_error, bool) outcome \<times> (channel_error, recv_result) outcome list"

text \<open>The loop on what each wait and the reads after it return; \<open>None\<close> while it goes on waiting.\<close>

fun exchange :: "acceptor_env \<Rightarrow> exchange_round list \<Rightarrow> acceptor \<Rightarrow> (run_outcome \<times> acceptor) acceptor_result option" where
  "exchange env rounds a =
     (if ac_reply_sent a then Some (finish_exchange False a)
      else case rounds of
        [] \<Rightarrow> None
      | (readable, results) # rest \<Rightarrow>
        (case obind (map_err AIo readable) (\<lambda>readable.
               if \<not> readable then Err (AChannel ChannelIo) else drain_results env results a) of
           Err e \<Rightarrow> Some (Err e)
         | Panic \<Rightarrow> Some Panic
         | Ok (peer_closed, a) \<Rightarrow>
           if peer_closed then Some (finish_exchange True a)
           else if ac_reply_ready a then
             (case send_reply env a of
                Err e \<Rightarrow> Some (Err e)
              | Panic \<Rightarrow> Some Panic
              | Ok a \<Rightarrow> exchange env rest a)
           else exchange env rest a))"

declare exchange.simps [simp del]

definition run_acceptor ::
  "acceptor_env \<Rightarrow> (channel_error, incoming_message option) outcome \<Rightarrow> exchange_round list \<Rightarrow>
   (run_outcome \<times> acceptor) acceptor_result option" where
  "run_acceptor env received rounds =
     (case obind (emit 0 EvLifecycle acceptor_new) (\<lambda>a.
           obind (acceptor_connect env received a) (\<lambda>a.
           obind (emit 1 EvResult a) (emit 2 EvResult))) of
        Err e \<Rightarrow> Some (Err e)
      | Panic \<Rightarrow> Some Panic
      | Ok a \<Rightarrow> map_option (\<lambda>r. obind r (\<lambda>(outcome, a).
          obind (emit 5 EvLifecycle a) (\<lambda>a. Ok (outcome, a)))) (exchange env rounds a))"

end
