(* ===== verification/AcceptorRun.thy ===== *)
theory AcceptorRun
  imports Acceptor LinkHeap
begin

text \<open>
  Runs of the acceptor: it panics on nothing that a peer sends, the order in which the halves of a split parcel must
  come, what a bypass does to the inbound direction of a route, the buffer of the greeting and the reply.
\<close>

section \<open>Counters\<close>

text \<open>All counters are at most \<open>n\<close>, and parcels only wait for sublinks without a router.\<close>

definition at_most :: "nat \<Rightarrow> u64 \<Rightarrow> bool" where
  "at_most n w = (unat w \<le> n)"

definition edge_count :: "acceptor_router \<Rightarrow> u64 \<Rightarrow> u64" where
  "edge_count r e = (case ar_inbound_by_edge r e of None \<Rightarrow> 0 | Some k \<Rightarrow> k)"

definition router_counts :: "nat \<Rightarrow> acceptor_router \<Rightarrow> bool" where
  "router_counts n r = (at_most n (ar_inbound_seq r) \<and> (\<forall>e. at_most n (edge_count r e)))"

definition counts :: "nat \<Rightarrow> acceptor \<Rightarrow> bool" where
  "counts n a =
     (at_most n (ac_next_seq a) \<and> (\<forall>k r. ac_routers a k = Some r \<longrightarrow> router_counts n r) \<and>
      (\<forall>k. ac_early a k \<noteq> None \<longrightarrow> ac_routers a k = None))"

text \<open>A step neither panics nor adds or removes a router, and leaves the counters at most \<open>n\<close>.\<close>

definition same_routers :: "acceptor \<Rightarrow> acceptor \<Rightarrow> bool" where
  "same_routers a a' = (\<forall>k. ac_routers a' k = None \<longleftrightarrow> ac_routers a k = None)"

definition step_ok :: "nat \<Rightarrow> acceptor \<Rightarrow> acceptor acceptor_result \<Rightarrow> bool" where
  "step_ok n a r = (case r of Panic \<Rightarrow> False | Err _ \<Rightarrow> True | Ok a' \<Rightarrow> counts n a' \<and> same_routers a a')"

lemma step_ok_simps [simp]:
  "step_ok n a (Err e)" "\<not> step_ok n a Panic" "step_ok n a (Ok a') = (counts n a' \<and> same_routers a a')"
  by (simp_all add: step_ok_def)

lemma step_ok_obind: "m \<noteq> Panic \<Longrightarrow> (\<And>x. m = Ok x \<Longrightarrow> step_ok n a (f x)) \<Longrightarrow> step_ok n a (obind m f)"
  by (cases m) simp_all

lemma step_ok_then:
  "step_ok n a m \<Longrightarrow> (\<And>b. m = Ok b \<Longrightarrow> counts n b \<Longrightarrow> step_ok n' b (f b)) \<Longrightarrow> step_ok n' a (obind m f)"
  by (cases m; cases "f (SOME x. m = Ok x)") (auto simp: step_ok_def same_routers_def split: outcome.splits)

lemma same_routers_refl [simp]: "same_routers a a"
  by (simp add: same_routers_def)

lemma at_most_mono: "at_most n w \<Longrightarrow> n \<le> m \<Longrightarrow> at_most m w"
  by (simp add: at_most_def)

lemma counts_mono: "counts n a \<Longrightarrow> n \<le> m \<Longrightarrow> counts m a"
  unfolding counts_def router_counts_def by (meson at_most_mono)

lemma succ64_at_most:
  assumes "at_most n w" "n < 2 ^ 64 - 1"
  obtains w' where "succ64 w = Some w'" "at_most (Suc n) w'"
proof -
  have "unat w \<noteq> unat (- 1 :: u64)" using assms by (simp add: at_most_def unsigned_minus_1_eq_mask mask_eq_exp_minus_1)
  then have "w \<noteq> - 1" by blast
  then show thesis using assms(1) that [of "w + 1"] by (simp add: succ64_def at_most_def unat_succ64)
qed

section \<open>Steps\<close>

lemma deliver_step:
  assumes "counts n a" "n < 2 ^ 64 - 1"
  shows "step_ok (Suc n) a (deliver_parcel k q data objects a)"
proof (cases "ac_routers a k")
  case None
  then show ?thesis
    using counts_mono [OF assms(1), of "Suc n"] by (simp add: deliver_parcel_def counts_def same_routers_def)
next
  case (Some r)
  have r: "at_most n (ar_inbound_seq r)" "at_most n (edge_count r k)"
    using assms(1) Some by (auto simp: counts_def router_counts_def)
  obtain w where w: "succ64 (ar_inbound_seq r) = Some w" "at_most (Suc n) w" by (rule succ64_at_most [OF r(1) assms(2)])
  obtain v where v: "succ64 (edge_count r k) = Some v" "at_most (Suc n) v" by (rule succ64_at_most [OF r(2) assms(2)])
  let ?r = "r\<lparr>ar_inbound_seq := w, ar_inbound_by_edge := (ar_inbound_by_edge r)(k \<mapsto> v)\<rparr>"
  have c: "counts (Suc n) a" using assms(1) by (rule counts_mono) simp
  have "router_counts (Suc n) r" using c Some by (simp add: counts_def)
  then have "router_counts (Suc n) (?r\<lparr>ar_portal := p\<rparr>)" "router_counts (Suc n) ?r" for p
    using w(2) v(2) by (auto simp: router_counts_def edge_count_def)
  then show ?thesis
    using w(1) v(1) c Some
    by (auto simp: deliver_parcel_def edge_count_def Let_def counts_def same_routers_def set_router_of_def
        simp del: obind_eq_Ok split: option.split)
qed

lemma early_step:
  assumes "counts n a" "ac_routers a k = None"
  shows "step_ok n a (deliver_early k queued a)"
  using assms
proof (induction queued arbitrary: a)
  case (Cons x queued)
  obtain data objects where x: "x = (data, objects)" by (cases x)
  let ?a = "a\<lparr>ac_early := (ac_early a)(k \<mapsto> (case ac_early a k of None \<Rightarrow> [] | Some q \<Rightarrow> q) @ [(data, objects)])\<rparr>"
  have a: "counts n ?a" "ac_routers ?a k = None" "same_routers a ?a"
    using Cons.prems by (auto simp: counts_def same_routers_def)
  have "deliver_parcel k 0 data objects a = Ok ?a" using Cons.prems by (simp add: deliver_parcel_def)
  then show ?case
    unfolding x using Cons.IH [OF a(1,2)] a(3)
    by (auto simp: step_ok_def same_routers_def split: outcome.splits)
qed simp

lemma send_step:
  assumes "counts n a" "n < 2 ^ 64 - 1" "payload = Some (build b)"
  shows "step_ok (Suc n) a (send_link_message payload a)"
proof -
  have q: "at_most n (ac_next_seq a)" using assms(1) by (simp add: counts_def)
  obtain w where w: "succ64 (ac_next_seq a) = Some w" "at_most (Suc n) w" by (rule succ64_at_most [OF q assms(2)])
  have "counts (Suc n) a" using assms(1) by (rule counts_mono) simp
  then show ?thesis
    using w assms(3)
    by (auto simp: send_link_message_def send_numbered_def patched_build channel_put_def counts_def same_routers_def)
qed

named_theorems quiet \<open>operations that do not panic\<close>

lemma ok_or_quiet [quiet]: "ok_or x e \<noteq> Panic"
  by (simp add: ok_or_def split: option.split)

lemma map_err_quiet [quiet]: "m \<noteq> Panic \<Longrightarrow> map_err f m \<noteq> Panic"
  by (cases m) (simp_all add: map_err_def)

lemma from_option_quiet [quiet]: "x \<noteq> None \<Longrightarrow> from_option x \<noteq> Panic"
  by (cases x) simp_all

declare obind_calm [quiet] if_calm [quiet] value_calm [quiet]

lemma memory_quiet [quiet]: "acceptor_memory a \<noteq> Panic"
  by (simp add: acceptor_memory_def quiet)

lemma buffer_for_quiet [quiet]: "buffer_for m i \<noteq> Panic"
  by (simp add: buffer_for_def split: option.split)

lemma view_quiet [quiet]: "fragment_view m d \<noteq> Panic"
  by (auto simp: fragment_view_def checked_add_def obind_eq_Panic quiet split: if_splits)

text \<open>A view lies in its buffer.\<close>

lemma view_in_buffer:
  assumes "fragment_view m d = Ok v" "buffer_for m (fr_buffer_id d) = Ok b"
  shows "unat (fr_offset d) + unat (fr_size d) \<le> length b" "length v = unat (fr_size d)"
  using assms by (auto simp: fragment_view_def checked_add_def from_option_def slice_def
      split: if_splits option.splits)

lemma load_quiet [quiet]: "k + n \<le> unat (fr_size d) \<Longrightarrow> load_word n m d k \<noteq> Panic"
  unfolding load_word_def
  by (intro quiet) (use view_in_buffer in \<open>fastforce simp: word_at_def slice_def split: if_splits\<close>)

lemma store_quiet [quiet]: "length (to_le n w) = n \<Longrightarrow> k + n \<le> unat (fr_size d) \<Longrightarrow> store_word n m d k w \<noteq> Panic"
  unfolding store_word_def
  by (intro quiet) (use view_in_buffer in \<open>fastforce simp: copy_into_def split: if_splits\<close>)+

lemma set_bits_quiet [quiet]: "set_link_status_bits m d bits \<noteq> Panic"
  unfolding set_link_status_bits_def fetch_update_def LINK_STATUS_OFFSET_def
  by (auto simp: obind_eq_Panic quiet ROUTER_LINK_STATE_SIZE_def split: if_splits prod.splits)

lemma stable_bits_step: "counts n a \<Longrightarrow> step_ok n a (set_stable_bits d a)"
  unfolding set_stable_bits_def
  by (intro step_ok_obind quiet) (auto simp: counts_def same_routers_def)

lemma parcel_data_quiet [quiet]: "read_parcel_fragment m d \<noteq> Panic"
  unfolding read_parcel_fragment_def FRAGMENT_HEADER_SIZE_def
  by (intro quiet) (auto simp: slice_def)

lemma unwrap_quiet [quiet]: "unwrap_wrapped_platform_handle env obj fds \<noteq> Panic"
  by (auto simp: unwrap_wrapped_platform_handle_def Let_def quiet)

lemma take_objects_quiet [quiet]: "take_objects env fds ts refs \<noteq> Panic"
  by (induction ts arbitrary: refs) (auto simp: obind_eq_Panic quiet split: list.split prod.splits)

lemma unwrap_all_quiet [quiet]: "unwrap_all env fds objs \<noteq> Panic"
  by (induction objs) (auto simp: obind_eq_Panic quiet)

lemma add_buffer_quiet [quiet]: "add_buffer m i c mapped z \<noteq> Panic"
  by (simp add: add_buffer_def split: option.split)

lemma step_ok_if: "(b \<Longrightarrow> step_ok n a m) \<Longrightarrow> (\<not> b \<Longrightarrow> step_ok n a m') \<Longrightarrow> step_ok n a (if b then m else m')"
  by simp

lemma step_ok_same:
  assumes "counts n a" "n \<le> n'" "ac_next_seq b = ac_next_seq a" "ac_routers b = ac_routers a" "ac_early b = ac_early a"
  shows "step_ok n' a (Ok b)"
  using counts_mono [OF assms(1,2)] assms(3-5) by (simp add: counts_def same_routers_def)

lemma step_ok_trans:
  assumes "step_ok n b r" "same_routers a b"
  shows "step_ok n a r"
  using assms by (cases r) (simp_all add: same_routers_def)

lemma parcel_step:
  assumes "counts n a" "n < 2 ^ 64 - 1"
  shows "step_ok (Suc n) a (on_accept_parcel env p fds a)"
  unfolding on_accept_parcel_def
  by (intro step_ok_if step_ok_obind quiet)
    (auto simp: deliver_step [OF assms] step_ok_same [OF assms(1)] simp del: step_ok_simps(3) obind_eq_Ok)

lemma objects_step:
  assumes "counts n a" "n < 2 ^ 64 - 1"
  shows "step_ok (Suc n) a (on_accept_parcel_objects env p fds a)"
proof -
  let ?k = "(po_sublink p, po_sequence_number p)"
  let ?b = "a\<lparr>ac_pending_split := (ac_pending_split a)(?k := None)\<rparr>"
  have b: "counts n ?b" "same_routers a ?b" using assms(1) by (simp_all add: counts_def same_routers_def)
  have d: "step_ok (Suc n) a (deliver_parcel (po_sublink p) (po_sequence_number p) data objects ?b)" for data objects
    by (rule step_ok_trans [OF deliver_step [OF b(1) assms(2)] b(2)])
  show ?thesis
    unfolding on_accept_parcel_objects_def Let_def
    by (intro step_ok_obind quiet)
      (auto simp: d step_ok_same [OF assms(1)] simp del: step_ok_simps(3) split: option.split split_half.split)
qed

lemma router_link_step:
  assumes "counts n a" "ac_routers a k = Some r" "ar_inbound_seq r' = ar_inbound_seq r"
    "ar_inbound_by_edge r' = ar_inbound_by_edge r"
  shows "counts n (set_router_of k r' a)" "same_routers a (set_router_of k r' a)"
  using assms by (auto simp: counts_def same_routers_def set_router_of_def router_counts_def edge_count_def)

lemma decay_over_step:
  assumes "counts n a" "ac_routers a k = Some r" "ar_inbound_seq r' = ar_inbound_seq r"
    "ar_inbound_by_edge r' = ar_inbound_by_edge r"
  shows "step_ok n a (set_stable_bits d (set_router_of k r' a))"
  by (rule step_ok_trans [OF stable_bits_step]) (rule router_link_step [OF assms])+

lemma encode_stop_proxying_built:
  "\<exists>b. encode_stop_proxying_to_local_peer k len = Some (build b)"
  by (simp add: encode_stop_proxying_to_local_peer_def simple_message_eq) blast

lemma bypass_step:
  assumes "counts n a" "n < 2 ^ 64 - 1"
  shows "step_ok (Suc n) a (acceptor_bypass b a)"
proof -
  have early: "step_ok (Suc n) c (case ac_early c k of None \<Rightarrow> Ok c
      | Some queued \<Rightarrow> deliver_early k queued (c\<lparr>ac_early := (ac_early c)(k := None)\<rparr>))" if "counts (Suc n) c" for c k
  proof (cases "ac_early c k")
    case (Some queued)
    let ?c = "c\<lparr>ac_early := (ac_early c)(k := None)\<rparr>"
    have c: "counts (Suc n) ?c" "ac_routers ?c k = None" "same_routers c ?c"
      using that Some by (auto simp: counts_def same_routers_def)
    show ?thesis using step_ok_trans [OF early_step [OF c(1,2)] c(3)] Some by simp
  qed (use that in simp)
  show ?thesis
  proof (cases "ac_routers a (bl_sublink b)")
    case None
    then show ?thesis unfolding acceptor_bypass_def
      by (intro step_ok_if step_ok_obind quiet) (auto simp: ok_or_def)
  next
    case (Some r)
    let ?k = "bl_sublink b"
    let ?r = "r\<lparr>ar_decaying := Some (ar_primary r),
      ar_primary := \<lparr>lk_sublink = bl_new_sublink b, lk_state = bl_new_link_state_fragment b\<rparr>\<rparr>"
    let ?send = "send_link_message (encode_stop_proxying_to_local_peer (lk_sublink (ar_primary r)) (ar_outbound_seq r))"
    obtain m where m: "encode_stop_proxying_to_local_peer (lk_sublink (ar_primary r)) (ar_outbound_seq r) = Some (build m)"
      using encode_stop_proxying_built by blast
    have link: "counts n (set_router_of ?k ?r a)" "same_routers a (set_router_of ?k ?r a)"
      by (rule router_link_step [OF assms(1) Some]; simp)+
    have send: "step_ok (Suc n) a (?send (set_router_of ?k ?r a))"
      by (rule step_ok_trans [OF send_step [OF link(1) assms(2) m] link(2)])
    have decay: "step_ok (Suc n) c (if over then set_stable_bits d (set_router_of ?k (?r\<lparr>ar_decaying := None\<rparr>) c) else Ok c)"
      if "?send (set_router_of ?k ?r a) = Ok c" "counts (Suc n) c" for c over d
    proof -
      have "ac_routers c ?k = Some ?r"
        using that(1) by (auto simp: send_link_message_def send_numbered_def channel_put_def set_router_of_def split: if_splits)
      then show ?thesis using that(2) by (auto intro!: decay_over_step simp del: step_ok_simps(3)) simp
    qed
    have here: "step_ok (Suc n) a (obind (ok_or (ac_routers a ?k) e) f)" if "step_ok (Suc n) a (f r)" for e f
      using that Some by (simp add: ok_or_def)
    show ?thesis
      unfolding acceptor_bypass_def Let_def
      by (intro step_ok_if step_ok_simps(1) step_ok_obind [OF memory_quiet] step_ok_obind [OF map_err_quiet [OF view_quiet]])
        (assumption | rule here step_ok_simps(1) step_ok_then [OF send] step_ok_then [OF decay] early)+
  qed
qed

lemma buffer_step:
  assumes "counts n a"
  shows "step_ok (Suc n) a (acceptor_add_buffer env b fds a)"
  unfolding acceptor_add_buffer_def
  by (intro step_ok_if step_ok_simps(1) step_ok_obind quiet step_ok_same [OF assms]) simp_all

lemma close_step:
  assumes "counts n a"
  shows "step_ok (Suc n) a (Ok (close_router_of k a))"
proof (cases "ac_routers a k")
  case None
  then show ?thesis using step_ok_same [OF assms, of "Suc n" a] by (simp add: close_router_of_def)
next
  case (Some r)
  have "counts n (set_router_of k (r\<lparr>ar_closed := True\<rparr>) a)" "same_routers a (set_router_of k (r\<lparr>ar_closed := True\<rparr>) a)"
    by (rule router_link_step [OF assms Some]; simp)+
  then show ?thesis using Some counts_mono [of n _ "Suc n"] by (simp add: close_router_of_def)
qed

lemma handle_step:
  assumes "counts n a" "n < 2 ^ 64 - 1"
  shows "step_ok (Suc n) a (acceptor_handle env msg fds a)"
proof -
  have "step_ok (Suc n) a (Ok a)" by (rule step_ok_same [OF assms(1)]) simp_all
  then show ?thesis
    by (cases msg) (simp_all add: parcel_step [OF assms] objects_step [OF assms] bypass_step [OF assms]
        buffer_step [OF assms(1)] close_step [OF assms(1)] del: step_ok_simps(3))
qed

lemma dispatch_step:
  assumes "counts n a" "n < 2 ^ 64 - 1"
  shows "step_ok (Suc n) a (acceptor_dispatch env m a)"
  unfolding acceptor_dispatch_def
  by (intro step_ok_obind quiet decode_calm handle_step [OF assms])

lemma obind_assoc: "obind (obind m f) g = obind m (\<lambda>x. obind (f x) g)"
  by (cases m) simp_all

text \<open>A run over what the reads return, none of which panics.\<close>

lemma drain_step:
  assumes "counts n a" "n + length rs < 2 ^ 64" "\<forall>r \<in> set rs. r \<noteq> Panic"
  shows "step_ok (n + length rs) a (obind (drain_results env rs a) (\<lambda>(_, a). Ok a))"
  using assms
proof (induction rs arbitrary: n a)
  case (Cons r rs)
  have bound: "n < 2 ^ 64 - 1" using Cons.prems(2) by simp
  have stop: "step_ok (n + length (r # rs)) a (Ok a)" by (rule step_ok_same [OF Cons.prems(1)]) simp_all
  have go: "step_ok (n + length (r # rs)) a (obind (acceptor_dispatch env m a) (\<lambda>a. obind (drain_results env rs a) (\<lambda>(_, a). Ok a)))" for m
  proof (rule step_ok_then [OF dispatch_step [OF Cons.prems(1) bound]])
    fix b assume "counts (Suc n) b"
    then show "step_ok (n + length (r # rs)) b (obind (drain_results env rs b) (\<lambda>(_, a). Ok a))"
      using Cons.IH [of "Suc n" b] Cons.prems(2,3) by simp
  qed
  show ?case
  proof (cases r)
    case (Ok x)
    then show ?thesis using go stop
      by (cases x) (simp_all add: map_err_def obind_assoc)
  qed (use Cons.prems(3) in \<open>simp_all add: map_err_def\<close>)
qed simp

lemma drain_outcome:
  assumes "counts n a" "n + length rs < 2 ^ 64" "\<forall>r \<in> set rs. r \<noteq> Panic"
  shows "drain_results env rs a \<noteq> Panic"
    and "drain_results env rs a = Ok (c, b) \<Longrightarrow> same_routers a b"
  using drain_step [OF assms, of env] by (auto simp: step_ok_def split: outcome.splits)

section \<open>The handshake\<close>

lemma word_at_quiet [quiet]: "k + n \<le> length b \<Longrightarrow> from_option (word_at n b k) \<noteq> Panic"
  by simp

lemma read_array_at_quiet [quiet]: "read_array_at p off \<noteq> Panic"
  by (auto simp: read_array_at_def Let_def intro!: quiet)

lemma header_quiet [quiet]: "parse_message_header p \<noteq> Panic"
  by (simp add: parse_message_header_def ipcz_sizes)

lemma shared_buffer_quiet [quiet]: "parse_shared_buffer_driver_object p \<noteq> Panic"
  unfolding parse_shared_buffer_driver_object_def Let_def
  by (intro quiet) simp_all

lemma adopt_quiet [quiet]: "adopt_primary c mapped \<noteq> Panic"
  by (simp add: adopt_primary_def split: option.split)

lemma stable_bits_quiet [quiet]: "set_stable_bits d a \<noteq> Panic"
  by (auto simp: set_stable_bits_def obind_eq_Panic quiet)

lemma open_initial_quiet [quiet]: "open_initial ks a \<noteq> Panic"
  by (induction ks arbitrary: a) (auto simp: obind_eq_Panic quiet)

lemma connect_reply_built: "\<exists>b. encode_connect_from_non_broker_to_broker k f = Some (build b)"
  using features_message unfolding encode_connect_from_non_broker_to_broker_def by blast

lemma initial_counts: "router_counts 0 (initial_router k p s)"
  by (simp add: router_counts_def edge_count_def at_most_def initial_router_def)

lemma set_initial:
  assumes "counts 0 a" "ac_early a = Map.empty"
  shows "counts 0 (set_router_of k (initial_router i p s) a)"
  using assms initial_counts by (auto simp: counts_def set_router_of_def)

lemma open_initial_ok:
  assumes "open_initial ks a = Ok b" "counts 0 a" "ac_early a = Map.empty"
  shows "counts 0 b \<and> ac_early b = Map.empty \<and> dom (ac_routers b) = dom (ac_routers a) \<union> of_nat ` set ks"
  using assms
proof (induction ks arbitrary: a)
  case (Cons k ks)
  obtain c where c: "set_stable_bits (portal_state k) a = Ok c" and
    b: "open_initial ks (set_router_of (of_nat k) (initial_router k (if k = 1 then Some [] else None) (1 < k)) c) = Ok b"
    using Cons.prems(1) by auto
  have "counts 0 c" using stable_bits_step [OF Cons.prems(2), of "portal_state k"] c by simp
  moreover have "ac_early c = Map.empty" "ac_routers c = ac_routers a"
    using c Cons.prems(3) by (auto simp: set_stable_bits_def)
  ultimately show ?case
    using Cons.IH [OF b set_initial] by (auto simp: set_router_of_def)
qed simp

lemma open_surplus_ok:
  assumes "counts 0 a" "ac_early a = Map.empty"
  shows "counts 0 (open_surplus ks a) \<and> dom (ac_routers (open_surplus ks a)) = dom (ac_routers a) \<union> of_nat ` set ks"
  using assms
proof (induction ks arbitrary: a)
  case (Cons k ks)
  let ?a = "set_router_of (of_nat k) (initial_router k None True) a"
  have "counts 0 ?a" "ac_early ?a = Map.empty" using set_initial [OF Cons.prems] Cons.prems(2) by (simp_all add: set_router_of_def)
  from Cons.IH [OF this] show ?case by (auto simp: set_router_of_def)
qed simp

lemma greeting_Ok: "(case msg of ConnectFromBrokerToNonBroker c \<Rightarrow> f c | _ \<Rightarrow> Err e) = Ok a \<longleftrightarrow>
    (\<exists>c. msg = ConnectFromBrokerToNonBroker c \<and> f c = Ok a)"
  by (cases msg) simp_all

lemma sole_Ok: "(case xs of [x] \<Rightarrow> f x | _ \<Rightarrow> Err e) = Ok a \<longleftrightarrow> (\<exists>x. xs = [x] \<and> f x = Ok a)"
  by (cases xs rule: list.exhaust [case_product list.exhaust]) (auto split: list.split)

text \<open>After the handshake the routers are those of the twelve initial portals.\<close>

lemma connect_ok:
  assumes "acceptor_connect env m acceptor_new = Ok a"
  shows "counts 0 a" "dom (ac_routers a) = of_nat ` {..<12}"
proof -
  obtain k c d where k: "open_initial [0..<min k 12] c = Ok d" "a = open_surplus [min k 12..<12] d"
    "counts 0 c" "ac_early c = Map.empty" "ac_routers c = Map.empty"
    using assms unfolding acceptor_connect_def
    by (auto simp: greeting_Ok sole_Ok counts_def at_most_def acceptor_new_def channel_put_def Let_def
        MAX_INITIAL_PORTALS_def split: if_split_asm)
  define n where "n = min k 12"
  have n: "n \<le> 12" "open_initial [0..<n] c = Ok d" "a = open_surplus [n..<12] d"
    "counts 0 c" "ac_early c = Map.empty" "ac_routers c = Map.empty"
    using k by (simp_all add: n_def)
  have d: "counts 0 d \<and> ac_early d = Map.empty \<and> dom (ac_routers d) = of_nat ` set [0..<n]"
    using open_initial_ok [OF n(2,4,5)] n(6) by simp
  have "set [0..<n] \<union> set [n..<12] = {..<12}" using n(1) by auto
  then have "(of_nat ` set [0..<n] \<union> of_nat ` set [n..<12] :: u64 set) = of_nat ` {..<12}" by (simp only: image_Un [symmetric])
  then show "counts 0 a" "dom (ac_routers a) = of_nat ` {..<12}"
    using open_surplus_ok [of d "[n..<12]"] d n(3) by simp_all
qed

lemma connect_quiet: "m \<noteq> Panic \<Longrightarrow> acceptor_connect env m a \<noteq> Panic"
  using connect_reply_built [of acceptor_initial_portals 0] unfolding acceptor_connect_def
  by (intro quiet decode_calm) (auto simp: Let_def channel_put_def obind_eq_Panic quiet decode_calm split: decoded_message.split list.split)

text \<open>C10: No message makes the acceptor panic: whatever bytes and descriptors arrive, in the handshake and in fewer than
  \<open>2 ^ 64\<close> messages after it, connecting and handling what is received ends with a state or an error; neither decoding, nor
  the counters of its routers, nor access to the shared memory goes wrong.  This is about receiving only: sending the reply
  allocates from the memory shared with the peer, and there a hostile free list panics (\<open>hostile_free_list_panics\<close>).\<close>
theorem acceptor_never_panics:
  assumes "received \<noteq> Panic" "\<forall>r \<in> set results. r \<noteq> Panic" "length results < 2 ^ 64"
  shows "obind (acceptor_connect env received acceptor_new) (drain_results env results) \<noteq> Panic"
  using assms connect_quiet [OF assms(1)] drain_outcome(1) [OF connect_ok(1), of env received _ results]
  by (auto simp: obind_eq_Panic)

theorem acceptor_never_panics_witness:
  "obind (acceptor_connect \<lparr>fe_dup = Some, fe_contents = \<lambda>_. None, fe_mapped = \<lambda>_. True, fe_socket = \<lambda>_. True,
       ae_seek = \<lambda>_. True, ae_reads = \<lambda>_. [], ae_memfd = None, ae_writes = []\<rparr>
     (Ok (Some \<lparr>im_payload = [24, 0, 0], im_fds = [5]\<rparr>)) acceptor_new)
     (drain_results \<lparr>fe_dup = Some, fe_contents = \<lambda>_. None, fe_mapped = \<lambda>_. True, fe_socket = \<lambda>_. True,
       ae_seek = \<lambda>_. True, ae_reads = \<lambda>_. [], ae_memfd = None, ae_writes = []\<rparr>
     [Ok (RMessage \<lparr>im_payload = [1, 2, 3], im_fds = []\<rparr>), Ok RPeerClosed]) \<noteq> Panic"
  by (rule acceptor_never_panics) simp_all

section \<open>Bypass\<close>

text \<open>No step adds or removes a router.\<close>

definition fixed :: "acceptor \<Rightarrow> acceptor acceptor_result \<Rightarrow> bool" where
  "fixed a r = (\<forall>b. r = Ok b \<longrightarrow> same_routers a b)"

named_theorems fixed_intros \<open>steps that keep the set of routers\<close>

lemma fixed_rules [fixed_intros]:
  "fixed a (Err e)"
  "(\<And>x. m = Ok x \<Longrightarrow> fixed a (f x)) \<Longrightarrow> fixed a (obind m f)"
  "(q \<Longrightarrow> fixed a m1) \<Longrightarrow> (\<not> q \<Longrightarrow> fixed a m2) \<Longrightarrow> fixed a (if q then m1 else m2)"
  "fixed a m0 \<Longrightarrow> (\<And>x. fixed a (f0 x)) \<Longrightarrow> fixed a (case opt of None \<Rightarrow> m0 | Some x \<Rightarrow> f0 x)"
  "(\<And>x. fixed a (f1 x)) \<Longrightarrow> (\<And>x. fixed a (f2 x)) \<Longrightarrow> fixed a (case half of DataHalf x \<Rightarrow> f1 x | ObjectsHalf x \<Rightarrow> f2 x)"
  "ac_routers b = ac_routers a \<Longrightarrow> fixed a (Ok b)"
  by (auto simp: fixed_def same_routers_def split: option.split split_half.split)

lemma fixed_trans: "fixed b r \<Longrightarrow> same_routers a b \<Longrightarrow> fixed a r"
  by (simp add: fixed_def same_routers_def)

lemma fixed_then [fixed_intros]: "fixed a m \<Longrightarrow> (\<And>b. fixed b (f b)) \<Longrightarrow> fixed a (obind m f)"
  by (cases m) (auto simp: fixed_def same_routers_def)

lemma fixed_pair [fixed_intros]: "(\<And>x y z. fixed a (f x y z)) \<Longrightarrow> fixed a (case t of (x, y, z) \<Rightarrow> f x y z)"
  by (cases t) simp

lemma deliver_fixed [fixed_intros]:
  "ac_routers b = ac_routers a \<Longrightarrow> fixed a (deliver_parcel k q data objects b)"
  by (auto simp: fixed_def deliver_parcel_def same_routers_def set_router_of_def Let_def split: option.split_asm if_split_asm)

lemma early_fixed [fixed_intros]: "ac_routers b = ac_routers a \<Longrightarrow> fixed a (deliver_early k queued b)"
proof (induction queued arbitrary: a b)
  case (Cons x queued)
  then show ?case
    by (cases x) (simp, intro fixed_intros; simp)
qed (simp add: fixed_intros)

lemma send_fixed: "same_routers a b \<Longrightarrow> fixed a (send_link_message payload b)"
  by (auto simp: fixed_def send_link_message_def send_numbered_def channel_put_def same_routers_def split: if_split_asm)

lemma stable_fixed: "same_routers a b \<Longrightarrow> fixed a (set_stable_bits d b)"
  by (auto simp: fixed_def set_stable_bits_def same_routers_def)

lemma acceptor_router_same: "ac_routers a k = Some r \<Longrightarrow> same_routers a (set_router_of k r' a)"
  by (auto simp: same_routers_def set_router_of_def)

lemma bypass_fixed: "fixed a (acceptor_bypass m a)"
proof (cases "ac_routers a (bl_sublink m)")
  case (Some r)
  let ?k = "bl_sublink m"
  have decay: "fixed c (if over then set_stable_bits d (set_router_of ?k r' c) else Ok c)"
    if "send_link_message p (set_router_of ?k r'' a) = Ok c" for c over d r' r'' p
    using that
    by (auto simp: fixed_intros send_link_message_def send_numbered_def channel_put_def set_router_of_def split: if_split_asm
        intro!: stable_fixed [unfolded set_router_of_def] acceptor_router_same [unfolded set_router_of_def])
  have two: "fixed x (obind s f)" if "fixed x s" "\<And>c. s = Ok c \<Longrightarrow> fixed c (f c)" for x s f
    using that by (cases s) (auto simp: fixed_def same_routers_def)
  show ?thesis
    using Some unfolding acceptor_bypass_def Let_def ok_or_def
    by (simp only: option.case obind_simps)
      (rule fixed_rules(3), rule fixed_rules(1), rule fixed_rules(2), rule fixed_rules(2), rule two,
        rule send_fixed, erule acceptor_router_same, rule two, erule decay, intro fixed_intros; simp)
qed (auto simp: fixed_def acceptor_bypass_def ok_or_def split: if_split_asm)

lemma handle_fixed: "fixed a (acceptor_handle env msg fds a)"
proof (cases msg)
  case (AcceptParcel p)
  then show ?thesis by (simp only: acceptor_handle.simps on_accept_parcel_def) (intro fixed_intros; simp)
next
  case (AcceptParcelDriverObjects p)
  then show ?thesis by (simp only: acceptor_handle.simps on_accept_parcel_objects_def Let_def) (intro fixed_intros; simp)
next
  case (AddBlockBuffer p)
  then show ?thesis by (simp only: acceptor_handle.simps acceptor_add_buffer_def) (intro fixed_intros; simp)
next
  case (BypassPeerWithLink p)
  then show ?thesis by (simp add: bypass_fixed)
qed (auto simp: fixed_intros close_router_of_def fixed_def set_router_of_def same_routers_def split: option.split)

lemma handle_keys: "acceptor_handle env msg fds a = Ok b \<Longrightarrow> same_routers a b"
  using handle_fixed by (simp add: fixed_def)

lemma drain_keys: "drain_results env rs a = Ok (c, b) \<Longrightarrow> same_routers a b"
proof (induction rs arbitrary: a)
  case (Cons r rs)
  then obtain x where x: "r = Ok x" by (cases r) (auto simp: map_err_def)
  show ?case
  proof (cases x)
    case (RMessage m)
    then obtain y msg where y: "acceptor_handle env msg (im_fds m) a = Ok y" "drain_results env rs y = Ok (c, b)"
      using Cons.prems x by (auto simp: map_err_def acceptor_dispatch_def)
    then show ?thesis using Cons.IH [OF y(2)] handle_keys [OF y(1)] by (simp add: same_routers_def)
  qed (use Cons.prems x in \<open>simp_all add: map_err_def\<close>)
qed simp

text \<open>Parcels that wait for a sublink without a router go on waiting, in front of whatever arrives later.\<close>

definition early_parcels :: "acceptor \<Rightarrow> u64 \<Rightarrow> portal_queue" where
  "early_parcels a k = (case ac_early a k of None \<Rightarrow> [] | Some q \<Rightarrow> q)"

definition still_waits :: "u64 \<Rightarrow> portal_queue \<Rightarrow> acceptor \<Rightarrow> bool" where
  "still_waits k q a \<longleftrightarrow> ac_routers a k = None \<and> (\<exists>behind. early_parcels a k = q @ behind)"

lemma still_waits_frame: "still_waits k q a \<Longrightarrow> same_routers a b \<Longrightarrow> ac_early b = ac_early a \<Longrightarrow> still_waits k q b"
  by (simp add: still_waits_def same_routers_def early_parcels_def)

lemma deliver_early_parcels:
  assumes "deliver_parcel s n data objects a = Ok b" "ac_routers a k = None"
  shows "early_parcels b k = early_parcels a k @ (if s = k then [(data, objects)] else []) \<and> ac_routers b k = None"
  using assms
  by (auto simp: deliver_parcel_def early_parcels_def set_router_of_def Let_def obind_eq_Ok split: option.split_asm if_split_asm)

lemma deliver_early_all:
  "deliver_early s queued a = Ok b \<Longrightarrow> ac_routers a k = None \<Longrightarrow>
     early_parcels b k = early_parcels a k @ (if s = k then queued else []) \<and> ac_routers b k = None"
proof (induction queued arbitrary: a)
  case (Cons x queued)
  obtain data objects where x: "x = (data, objects)" by (cases x)
  with Cons.prems obtain c where c: "deliver_parcel s 0 data objects a = Ok c" "deliver_early s queued c = Ok b"
    by (auto simp: obind_eq_Ok)
  from Cons.IH [OF c(2)] deliver_early_parcels [OF c(1) Cons.prems(2)] x show ?case by (simp split: if_splits)
qed simp

lemma deliver_still_waits: "still_waits k q a \<Longrightarrow> deliver_parcel s n data objects a = Ok b \<Longrightarrow> still_waits k q b"
  using deliver_early_parcels [of s n data objects a b k] by (auto simp: still_waits_def)

lemma send_frame: "send_link_message payload a = Ok b \<Longrightarrow> ac_early b = ac_early a \<and> ac_routers b = ac_routers a"
  by (auto simp: send_link_message_def send_numbered_def channel_put_def obind_eq_Ok split: if_split_asm)

lemma stable_frame: "set_stable_bits d a = Ok b \<Longrightarrow> ac_early b = ac_early a \<and> ac_routers b = ac_routers a"
  by (auto simp: set_stable_bits_def obind_eq_Ok)

text \<open>The bypass in two steps: the router is switched over, then what waits for the new sublink is delivered again.\<close>

lemma bypass_steps:
  assumes "acceptor_bypass m a = Ok b"
  obtains r r' c where "ac_routers a (bl_sublink m) = Some r" "ac_routers c = (ac_routers a)(bl_sublink m \<mapsto> r')"
    "lk_sublink (ar_primary r') = bl_new_sublink m" "ac_early c = ac_early a"
    "deliver_early (bl_new_sublink m) (early_parcels c (bl_new_sublink m))
       (c\<lparr>ac_early := (ac_early c)(bl_new_sublink m := None)\<rparr>) = Ok b \<or> b = c \<and> ac_early c (bl_new_sublink m) = None"
proof -
  let ?n = "bl_new_sublink m"
  let ?link = "\<lparr>lk_sublink = ?n, lk_state = bl_new_link_state_fragment m\<rparr>"
  have null: "\<not> fragment_is_null (bl_new_link_state_fragment m)" using assms by (auto simp: acceptor_bypass_def)
  obtain r where r: "ac_routers a (bl_sublink m) = Some r"
    using assms by (cases "ac_routers a (bl_sublink m)") (auto simp: acceptor_bypass_def ok_or_def obind_eq_Ok split: if_split_asm)
  let ?r = "r\<lparr>ar_decaying := Some (ar_primary r), ar_primary := ?link\<rparr>"
  obtain s1 c where s1: "send_link_message (encode_stop_proxying_to_local_peer (lk_sublink (ar_primary r)) (ar_outbound_seq r))
        (set_router_of (bl_sublink m) ?r a) = Ok s1"
    and c: "(if bl_inbound_sequence_length m \<le> (case ar_inbound_by_edge r (lk_sublink (ar_primary r)) of None \<Rightarrow> 0 | Some k \<Rightarrow> k)
             then set_stable_bits (bl_new_link_state_fragment m) (set_router_of (bl_sublink m) (?r\<lparr>ar_decaying := None\<rparr>) s1)
             else Ok s1) = Ok c"
    and e: "(case ac_early c ?n of None \<Rightarrow> Ok c
             | Some queued \<Rightarrow> deliver_early ?n queued (c\<lparr>ac_early := (ac_early c)(?n := None)\<rparr>)) = Ok b"
    using assms r null by (simp add: acceptor_bypass_def ok_or_def obind_eq_Ok Let_def) blast
  have s1': "ac_early s1 = ac_early a" "ac_routers s1 = (ac_routers a)(bl_sublink m \<mapsto> ?r)"
    using send_frame [OF s1] by (simp_all add: set_router_of_def)
  have "ac_early c = ac_early a \<and> (ac_routers c = (ac_routers a)(bl_sublink m \<mapsto> ?r) \<or>
      ac_routers c = (ac_routers a)(bl_sublink m \<mapsto> r\<lparr>ar_primary := ?link, ar_decaying := None\<rparr>))"
    using c s1' by (auto simp: set_router_of_def dest!: stable_frame split: if_split_asm)
  moreover have "deliver_early ?n (early_parcels c ?n) (c\<lparr>ac_early := (ac_early c)(?n := None)\<rparr>) = Ok b \<or> b = c \<and> ac_early c ?n = None"
    using e by (simp add: early_parcels_def split: option.split_asm)
  ultimately show ?thesis using that [OF r] by force
qed

lemma bypass_still_waits:
  assumes "acceptor_bypass m a = Ok b" "still_waits k q a"
  shows "still_waits k q b"
  using assms(1)
proof (rule bypass_steps)
  fix r r' and c :: acceptor
  let ?n = "bl_new_sublink m" and ?c = "c\<lparr>ac_early := (ac_early c)(bl_new_sublink m := None)\<rparr>"
  assume r: "ac_routers a (bl_sublink m) = Some r" "ac_routers c = (ac_routers a)(bl_sublink m \<mapsto> r')" "ac_early c = ac_early a"
    and e: "deliver_early ?n (early_parcels c ?n) ?c = Ok b \<or> b = c \<and> ac_early c ?n = None"
  have k: "ac_routers c k = None" using assms(2) r by (auto simp: still_waits_def)
  have w: "early_parcels c k = early_parcels a k" using r(3) by (simp add: early_parcels_def)
  from e show ?thesis
  proof
    assume d: "deliver_early ?n (early_parcels c ?n) ?c = Ok b"
    have "early_parcels b k = early_parcels ?c k @ (if ?n = k then early_parcels c ?n else [])" "ac_routers b k = None"
      using deliver_early_all [OF d, of k] k by simp_all
    moreover have "early_parcels ?c k = (if ?n = k then [] else early_parcels c k)" by (simp add: early_parcels_def)
    ultimately show ?thesis using assms(2) w by (simp add: still_waits_def split: if_splits)
  next
    assume "b = c \<and> ac_early c ?n = None"
    then show ?thesis using assms(2) w k by (simp add: still_waits_def)
  qed
qed

lemma handle_still_waits:
  assumes "acceptor_handle env msg fds a = Ok b" "still_waits k q a"
  shows "still_waits k q b"
proof (cases msg)
  case (AcceptParcel p)
  then show ?thesis using assms
    by (auto simp: on_accept_parcel_def obind_eq_Ok still_waits_def split: if_split_asm dest!: deliver_early_parcels [where k = k])
      (auto simp: early_parcels_def)
next
  case (AcceptParcelDriverObjects p)
  let ?i = "(po_sublink p, po_sequence_number p)"
  obtain objects where objects: "unwrap_all env fds (po_driver_objects p) = Ok objects"
    using AcceptParcelDriverObjects assms(1) by (auto simp: on_accept_parcel_objects_def Let_def obind_eq_Ok)
  have frame: "still_waits k q (a\<lparr>ac_pending_split := x\<rparr>)" for x
    using assms(2) by (simp add: still_waits_def early_parcels_def)
  show ?thesis
  proof (cases "ac_pending_split a ?i")
    case None
    then show ?thesis using AcceptParcelDriverObjects assms(1) objects frame by (auto simp: on_accept_parcel_objects_def Let_def)
  next
    case (Some half)
    then show ?thesis using AcceptParcelDriverObjects assms(1) objects deliver_still_waits [OF frame]
      by (cases half) (auto simp: on_accept_parcel_objects_def Let_def split: if_split_asm)
  qed
next
  case (BypassPeerWithLink m)
  then show ?thesis using assms bypass_still_waits [of m a b k q] by simp
next
  case (AddBlockBuffer m)
  then show ?thesis using assms by (auto simp: acceptor_add_buffer_def obind_eq_Ok still_waits_def early_parcels_def split: if_split_asm)
qed (use assms in \<open>auto simp: still_waits_def early_parcels_def close_router_of_def set_router_of_def split: option.split_asm\<close>)

lemma drain_still_waits: "drain_results env rs a = Ok (c, b) \<Longrightarrow> still_waits k q a \<Longrightarrow> still_waits k q b"
proof (induction rs arbitrary: a)
  case (Cons r rs)
  then obtain x where x: "r = Ok x" by (cases r) (auto simp: map_err_def)
  show ?case
  proof (cases x)
    case (RMessage m)
    then obtain y msg where y: "acceptor_handle env msg (im_fds m) a = Ok y" "drain_results env rs y = Ok (c, b)"
      using Cons.prems x by (auto simp: map_err_def acceptor_dispatch_def)
    then show ?thesis using Cons.IH [OF y(2)] handle_still_waits [OF y(1) Cons.prems(2)] by simp
  qed (use Cons.prems x in \<open>simp_all add: map_err_def\<close>)
qed simp

lemma parcel_filed:
  assumes "on_accept_parcel env p fds a = Ok b" "ac_routers a (ap_sublink p) = None" "2 \<notin> set (ap_handle_types p)"
  shows "\<exists>data objects. early_parcels b (ap_sublink p) = early_parcels a (ap_sublink p) @ [(data, objects)] \<and>
     (data = ap_parcel_data p \<or> \<not> fragment_is_null (ap_parcel_fragment p)) \<and>
     ac_routers b = ac_routers a \<and> ac_reply_ready b = ac_reply_ready a"
proof -
  have whole: "\<not> split" if "take_objects env fds ts refs = Ok (objects, split, left)" "2 \<notin> set ts" for ts refs objects split left
    using that by (induction ts arbitrary: refs objects split left) (auto simp: obind_eq_Ok split: if_split_asm list.split_asm prod.split_asm)
  show ?thesis using assms
    by (auto simp: on_accept_parcel_def obind_eq_Ok deliver_parcel_def early_parcels_def dest!: whole split: if_split_asm)
qed

text \<open>C38: A bypass cuts the inbound direction of its route.  The router goes on to send on the new sublink, but stays registered
  under the old one only.  So when no router is registered under the new sublink - none is: the broker takes new
  sublinks from the shared counter, which starts behind those of the initial portals, and the acceptor adds no
  router after the handshake - a whole parcel that the peer sends on it, however many messages later, is filed behind
  the early parcels of the new sublink and reaches no router; and it is still filed there, at the same place and with no
  router for it, however many messages follow, further bypasses included.\<close>
theorem bypass_strands_inbound:
  assumes "acceptor_handle env (BypassPeerWithLink m) fds a = Ok b" "ac_routers a (bl_new_sublink m) = None"
    and "drain_results env results b = Ok (c, d)"
    and "acceptor_handle env (AcceptParcel p) fds' d = Ok e" "ap_sublink p = bl_new_sublink m" "2 \<notin> set (ap_handle_types p)"
    and "drain_results env later e = Ok (c', f)"
  shows "(\<exists>r. ac_routers b (bl_sublink m) = Some r \<and> lk_sublink (ar_primary r) = bl_new_sublink m) \<and>
    ac_routers e = ac_routers d \<and> ac_reply_ready e = ac_reply_ready d \<and>
    (\<exists>data objects. (data = ap_parcel_data p \<or> \<not> fragment_is_null (ap_parcel_fragment p)) \<and>
      early_parcels e (bl_new_sublink m) = early_parcels d (bl_new_sublink m) @ [(data, objects)] \<and>
      (\<exists>more. early_parcels f (bl_new_sublink m) = early_parcels d (bl_new_sublink m) @ (data, objects) # more) \<and>
      ac_routers f (bl_new_sublink m) = None)"
proof -
  let ?k = "bl_new_sublink m"
  have bypass: "acceptor_bypass m a = Ok b" using assms(1) by simp
  have sends: "\<exists>r. ac_routers b (bl_sublink m) = Some r \<and> lk_sublink (ar_primary r) = ?k"
    using bypass
  proof (rule bypass_steps)
    fix r r' and c :: acceptor
    assume c: "ac_routers c = (ac_routers a)(bl_sublink m \<mapsto> r')" "lk_sublink (ar_primary r') = ?k" "ac_routers a (bl_sublink m) = Some r"
      and e: "deliver_early ?k (early_parcels c ?k) (c\<lparr>ac_early := (ac_early c)(?k := None)\<rparr>) = Ok b \<or> b = c \<and> ac_early c ?k = None"
    have stays: "deliver_early k queued x = Ok y \<Longrightarrow> ac_routers x k = None \<Longrightarrow> ac_routers y = ac_routers x" for k queued x y
      by (induction queued arbitrary: x) (force simp: deliver_parcel_def)+
    from c assms(2) have "ac_routers c ?k = None" by auto
    with e stays have "ac_routers b = ac_routers c" by fastforce
    with c show ?thesis by simp
  qed
  have "same_routers a d" using handle_keys [OF assms(1)] drain_keys [OF assms(3)] by (simp add: same_routers_def)
  then have "ac_routers d ?k = None" using assms(2) by (simp add: same_routers_def)
  then obtain data objects where filed: "early_parcels e ?k = early_parcels d ?k @ [(data, objects)]"
    "data = ap_parcel_data p \<or> \<not> fragment_is_null (ap_parcel_fragment p)"
    "ac_routers e = ac_routers d" "ac_reply_ready e = ac_reply_ready d"
    using parcel_filed [of env p fds' d e] assms(4-6) by auto
  have "still_waits ?k (early_parcels d ?k @ [(data, objects)]) e"
    using filed \<open>ac_routers d ?k = None\<close> by (simp add: still_waits_def)
  from drain_still_waits [OF assms(7) this]
  have "\<exists>behind. early_parcels f ?k = (early_parcels d ?k @ [(data, objects)]) @ behind" "ac_routers f ?k = None"
    by (simp_all add: still_waits_def)
  with sends filed show ?thesis by auto
qed

definition example_acceptor_env :: acceptor_env where
  "example_acceptor_env = \<lparr>fe_dup = Some, fe_contents = \<lambda>_. None, fe_mapped = \<lambda>_. True, fe_socket = \<lambda>_. True,
     ae_seek = \<lambda>_. True, ae_reads = \<lambda>_. [], ae_memfd = None, ae_writes = []\<rparr>"

definition example_acceptor :: acceptor where
  "example_acceptor = acceptor_new\<lparr>ac_memory := Some \<lparr>lm_primary = replicate 64 0, lm_extra = Map.empty, lm_extra_order = []\<rparr>,
     ac_routers := [1 \<mapsto> initial_router 1 (Some []) True]\<rparr>"

definition example_bypass :: bypass_peer_with_link where
  "example_bypass = \<lparr>bl_sublink = 1, bl_new_sublink = 12,
     bl_new_link_state_fragment = \<lparr>fr_buffer_id = 0, fr_offset = 0, fr_size = 64\<rparr>, bl_inbound_sequence_length = 1\<rparr>"

definition plain_parcel :: "u64 \<Rightarrow> accept_parcel" where
  "plain_parcel k = \<lparr>ap_sublink = k, ap_sequence_number = 0, ap_subparcel_index = 0, ap_num_subparcels = 1,
     ap_parcel_fragment = fragment_default, ap_parcel_data = [7], ap_handle_types = [], ap_new_routers = [],
     ap_driver_objects = []\<rparr>"

lemma example_bypassed:
  "\<exists>b. acceptor_handle env (BypassPeerWithLink example_bypass) [] example_acceptor = Ok b \<and> ac_routers b 12 = None"
proof -
  obtain x where x: "encode_stop_proxying_to_local_peer 1 0 = Some (build x)" using encode_stop_proxying_built by blast
  show ?thesis
    by (simp add: example_bypass_def example_acceptor_def acceptor_new_def acceptor_bypass_def fragment_is_null_def
        INVALID_BUFFER_ID_def acceptor_memory_def ok_or_def fragment_view_def buffer_for_def PRIMARY_BUFFER_ID_def
        checked_add_def usize_limit_def map_err_def initial_router_def x send_link_message_def send_numbered_def
        patched_build succ64_def channel_put_def Let_def set_router_of_def)
qed

theorem bypass_strands_inbound_witness:
  "\<exists>b e f. acceptor_handle example_acceptor_env (BypassPeerWithLink example_bypass) [] example_acceptor = Ok b \<and>
     acceptor_handle example_acceptor_env (AcceptParcel (plain_parcel 12)) [] b = Ok e \<and>
     drain_results example_acceptor_env [Ok RPeerClosed] e = Ok (True, f) \<and>
     (\<exists>objects more. early_parcels f 12 = early_parcels b 12 @ ([7], objects) # more) \<and> ac_routers f 12 = None"
proof -
  obtain b where b: "acceptor_handle example_acceptor_env (BypassPeerWithLink example_bypass) [] example_acceptor = Ok b"
    "ac_routers b 12 = None" using example_bypassed by blast
  obtain e where e: "acceptor_handle example_acceptor_env (AcceptParcel (plain_parcel 12)) [] b = Ok e"
    using b(2) by (simp add: plain_parcel_def on_accept_parcel_def fragment_is_null_def fragment_default_def deliver_parcel_def)
  have "ac_routers example_acceptor (bl_new_sublink example_bypass) = None"
    by (simp add: example_acceptor_def example_bypass_def)
  moreover have d: "drain_results example_acceptor_env [Ok RPeerClosed] e = Ok (True, e)" by (simp add: map_err_def)
  moreover have "ap_sublink (plain_parcel 12) = bl_new_sublink example_bypass" "2 \<notin> set (ap_handle_types (plain_parcel 12))"
    by (simp_all add: plain_parcel_def example_bypass_def)
  ultimately show ?thesis
    using bypass_strands_inbound [OF b(1) _ drain_results.simps(1) e _ _ d] b e d
    by (force simp: example_bypass_def plain_parcel_def fragment_default_def fragment_is_null_def)
qed

section \<open>Split parcels\<close>

lemma split_taken:
  "take_objects env fds ts refs = Ok (objects, split, left) \<Longrightarrow> 2 \<in> set ts \<Longrightarrow> split"
  by (induction ts arbitrary: refs objects split left) (auto split: if_split_asm list.split_asm)

text \<open>C39: The halves of a split parcel only meet when the data comes first.  Then the parcel is delivered with the objects of the
  second half and the inline data of the first - also when its data is in a fragment, which the handler has read
  but not kept.  When the objects come first, the data half takes their place in the table: nothing is delivered,
  and a parcel that was accepted half by half is lost.\<close>
theorem split_needs_data_first:
  assumes "on_accept_parcel env p fds a = Ok b" "2 \<in> set (ap_handle_types p)"
    and "unwrap_all env fds' (po_driver_objects q) = Ok objects"
    and "length (filter (\<lambda>t. t = 2) (ap_handle_types p)) = length objects"
    and "po_sublink q = ap_sublink p" "po_sequence_number q = ap_sequence_number p"
    and "ac_pending_split a (ap_sublink p, ap_sequence_number p) = None"
  shows "on_accept_parcel_objects env q fds' b =
      deliver_parcel (ap_sublink p) (ap_sequence_number p) (ap_parcel_data p) objects a \<and>
    (\<exists>c d. on_accept_parcel_objects env q fds' a = Ok c \<and> on_accept_parcel env p fds c = Ok d \<and>
      d = a\<lparr>ac_pending_split := (ac_pending_split a)((ap_sublink p, ap_sequence_number p) \<mapsto> DataHalf p)\<rparr>)"
proof -
  let ?k = "(ap_sublink p, ap_sequence_number p)"
  obtain os left where o: "take_objects env fds (ap_handle_types p) (ap_driver_objects p) = Ok (os, True, left)" "left = []"
    and bb: "b = a\<lparr>ac_pending_split := (ac_pending_split a)(?k \<mapsto> DataHalf p)\<rparr>"
    using assms(1,2) by (auto simp: on_accept_parcel_def dest: split_taken split: if_split_asm)
  have gone: "(ac_pending_split a)(?k := None) = ac_pending_split a" using assms(7) by (simp add: fun_upd_idem)
  have first: "on_accept_parcel_objects env q fds' b =
      deliver_parcel (ap_sublink p) (ap_sequence_number p) (ap_parcel_data p) objects a"
    using assms(3-7) bb gone by (simp add: on_accept_parcel_objects_def)
  let ?c = "a\<lparr>ac_pending_split := (ac_pending_split a)(?k \<mapsto> ObjectsHalf (po_driver_objects q))\<rparr>"
  have c: "on_accept_parcel_objects env q fds' a = Ok ?c" using assms(3-7) by (simp add: on_accept_parcel_objects_def)
  have "acceptor_memory ?c = acceptor_memory a" by (simp add: acceptor_memory_def)
  then have "on_accept_parcel env p fds ?c = Ok b" using assms(1) o bb
    by (auto simp: on_accept_parcel_def split: if_split_asm)
  then show ?thesis using first c bb by blast
qed

definition split_parcel :: accept_parcel where
  "split_parcel = (plain_parcel 1)\<lparr>ap_handle_types := [2]\<rparr>"

definition split_objects :: parcel_objects where
  "split_objects = \<lparr>po_sublink = 1, po_sequence_number = 0, po_driver_objects =
     [\<lparr>dobj_data = wrapped_platform_handle_encoding, dobj_first_fd = 0, dobj_num_fds = 1\<rparr>]\<rparr>"

lemma wrapped_unwraps:
  assumes "dobj_data obj = wrapped_platform_handle_encoding" "dobj_num_fds obj = 1" "dobj_first_fd obj < length fds"
  shows "unwrap_wrapped_platform_handle env obj fds = ok_or (fe_dup env (fds ! dobj_first_fd obj)) (AIo OsError)"
  using assms by (simp add: unwrap_wrapped_platform_handle_def wrapped_platform_handle_encoding_def Let_def word_at_def slice_def)

theorem split_needs_data_first_witness:
  "\<exists>b. on_accept_parcel example_acceptor_env split_parcel [] example_acceptor = Ok b \<and>
     on_accept_parcel_objects example_acceptor_env split_objects [5] b = deliver_parcel 1 0 [7] [5] example_acceptor \<and>
     (\<exists>c d. on_accept_parcel_objects example_acceptor_env split_objects [5] example_acceptor = Ok c \<and>
       on_accept_parcel example_acceptor_env split_parcel [] c = Ok d \<and>
       d = example_acceptor\<lparr>ac_pending_split := (ac_pending_split example_acceptor)((1, 0) \<mapsto> DataHalf split_parcel)\<rparr>)"
proof -
  obtain b where b: "on_accept_parcel example_acceptor_env split_parcel [] example_acceptor = Ok b"
    by (simp add: split_parcel_def plain_parcel_def on_accept_parcel_def fragment_is_null_def fragment_default_def)
  have u: "unwrap_all example_acceptor_env [5] (po_driver_objects split_objects) = Ok [5]"
    by (simp add: split_objects_def wrapped_unwraps example_acceptor_env_def ok_or_def)
  have "ac_pending_split example_acceptor k = None" for k by (simp add: example_acceptor_def acceptor_new_def)
  from split_needs_data_first [OF b _ u _ _ _ this] b show ?thesis
    by (auto simp: split_objects_def split_parcel_def plain_parcel_def)
qed

section \<open>The buffer of the greeting\<close>

lemma read_array_at_built:
  assumes body: "mb_body b = pre @ block n bytes @ post" and off: "off = 24 + length pre"
    and fit: "off + length bytes + 16 < 2 ^ 32" and even: "length bytes mod 8 = 0"
  shows "read_array_at (build b) (of_nat off) = Ok bytes"
proof -
  have u: "up8 (8 + length bytes) = 8 + length bytes" using even by (auto simp: up8_def)
  have w: "unat (of_nat off :: u32) = off" "unat (of_nat (8 + length bytes) :: u32) = 8 + length bytes"
    using fit by (intro unat_word32; simp)+
  have d: "drop off (build b) = block n bytes @ post" using drop_build [of off b] off body by simp
  have l: "off \<le> length (build b)" "payload_len b - off = 8 + length bytes + length post"
    using off body u by (simp_all add: payload_len_def ipcz_sizes)
  have s: "take 4 (block n bytes @ post) = to_le 4 (of_nat (8 + length bytes) :: u32)"
    "take (length bytes) (drop 8 (block n bytes @ post)) = bytes"
    by (simp_all add: block_def u)
  show ?thesis
    unfolding read_array_at_def Let_def w(1) d
    using l s w(2) u by (simp add: from_le_to_le)
qed

text \<open>The shared buffer of a greeting is understood: when a message carries one serialised buffer as its driver object, the
  parser of the acceptor finds exactly the size, the mode and the identifier that were serialised.\<close>
theorem greeting_buffer_parsed:
  assumes "message_with_objects i params [encode_shared_buffer_object len seed] = Some payload" "length params < 2 ^ 31"
  shows "parse_shared_buffer_driver_object payload =
    Ok \<lparr>si_buffer_size = len, si_mode = MOJO_BUFFER_MODE_UNSAFE, si_guid_low = seed * 0x9e3779b97f4a7c15,
        si_guid_high = seed * 0xbf58476d1ce4e5b9\<rparr>"
proof -
  let ?d = "encode_shared_buffer_object len seed"
  let ?m = "(builder_new i)\<lparr>mb_body := block 0 params\<rparr>" and ?base = "24 + up8 (8 + length params)"
  have small: "up8 (8 + length params) \<le> 2 ^ 31 + 15" using assms(2) up8_le [of "8 + length params"] by simp
  have l: "payload_len ?m = ?base" by (simp add: payload_len_def builder_new_def ipcz_sizes)
  have fits: "objects_fit (payload_len ?m) [?d]" using small l by (simp add: objects_fit_def up8_def)
  let ?e = "to_le 4 (of_nat (?base + 16) :: u32) @ to_le 2 (0 :: u16) @ to_le 2 (1 :: u16)"
  have blocks: "object_blocks ?base [?d] = block 1 ?e @ block (of_nat (length ?d)) ?d"
    by (simp add: object_blocks_def arrays_def up8_def)
  obtain b where b: "payload = build b" "mb_body b = block 0 params @ block 1 ?e @ block (of_nat (length ?d)) ?d"
    "lh_driver_objects (mb_header b) = of_nat ?base" "lh_size (mb_header b) = 24"
  proof -
    have "append_params (builder_new i) params = Some ?m" using append_params_eq [of params "builder_new i"] assms(2) by simp
    moreover have "append_driver_objects ?m [?d] = Some (?m\<lparr>mb_body := block 0 params @ object_blocks ?base [?d],
        mb_header := (mb_header ?m)\<lparr>lh_driver_objects := of_nat ?base\<rparr>\<rparr>)"
      using append_driver_objects_eq [OF fits] l by (simp add: no_gap_def)
    ultimately show thesis using assms(1) blocks
      by (intro that) (auto simp: message_with_objects_def)
  qed
  have entry: "read_array_at (build b) (of_nat ?base) = Ok ?e"
    by (rule read_array_at_built [where pre = "block 0 params" and post = "block (of_nat (length ?d)) ?d"])
      (use b(2) small in simp_all)
  have object: "read_array_at (build b) (of_nat (?base + 16)) = Ok ?d"
    by (rule read_array_at_built [where pre = "block 0 params @ block 1 ?e" and post = "[]"])
      (use b(2) small in \<open>simp_all add: up8_def\<close>)
  have "unat (of_nat ?base :: u32) = ?base" using small by (intro unat_word32) simp
  then have nz: "of_nat ?base \<noteq> (0 :: u32)" by (metis add_eq_0_iff_both_eq_0 unsigned_0 zero_neq_numeral)
  have e: "word_at 4 ?e 0 = Some (of_nat (?base + 16) :: u32)" "word_at 2 ?e 6 = Some (1 :: u16)"
    by (simp_all add: word_at_def slice_def)
  have f: "take 4 ?d = to_le 4 (8 :: u32)" "take 4 (drop 4 ?d) = to_le 4 (1 :: u32)" "take 4 (drop 8 ?d) = to_le 4 (32 :: u32)"
    "take 4 (drop 12 ?d) = to_le 4 len" "take 4 (drop 16 ?d) = to_le 4 MOJO_BUFFER_MODE_UNSAFE"
    "take 8 (drop 24 ?d) = to_le 8 (seed * 0x9e3779b97f4a7c15)" "drop 32 ?d = to_le 8 (seed * 0xbf58476d1ce4e5b9)"
    by (simp_all add: encode_shared_buffer_object_def MOJO_OBJECT_TYPE_SHARED_BUFFER_def)
  show ?thesis
    unfolding parse_shared_buffer_driver_object_def b(1) parse_build [OF b(4)]
    using entry object nz b(3) e
    by (simp add: map_err_def Let_def f)
qed

theorem greeting_buffer_parsed_witness:
  "\<exists>payload. message_with_objects MSG_ID_CONNECT_FROM_BROKER_TO_NON_BROKER [1, 2, 3, 4] [encode_shared_buffer_object 131072 9] =
      Some payload \<and>
    parse_shared_buffer_driver_object payload =
    Ok \<lparr>si_buffer_size = 131072, si_mode = MOJO_BUFFER_MODE_UNSAFE, si_guid_low = 9 * 0x9e3779b97f4a7c15,
        si_guid_high = 9 * 0xbf58476d1ce4e5b9\<rparr>"
proof -
  have fits: "objects_fit (24 + up8 (8 + length [1, 2, 3, 4 :: byte])) [encode_shared_buffer_object 131072 9]"
    by (simp add: objects_fit_def up8_def)
  obtain payload where p: "message_with_objects MSG_ID_CONNECT_FROM_BROKER_TO_NON_BROKER [1, 2, 3, 4]
      [encode_shared_buffer_object 131072 9] = Some payload"
    using objects_message [OF _ fits, of MSG_ID_CONNECT_FROM_BROKER_TO_NON_BROKER]
    by (auto simp: message_with_objects_def no_gap_def split: bind_splits)
  from greeting_buffer_parsed [OF p] p show ?thesis by simp
qed

section \<open>The reply\<close>

lemma reply_fits: "parcel_fits (inline_data (Some f) []) [1] [] [wrapped_platform_handle_encoding]"
  by (simp add: parcel_fits_def parcel_sized_def inline_data_def no_gap_def wrapped_platform_handle_encoding_def up8_def)

lemma reply_encoded:
  "\<exists>b. encode_accept_parcel_fragment k q f [1] [wrapped_platform_handle_encoding] = Some (build b) \<and>
     (\<forall>s. decode_message (build (b\<lparr>mb_header := (mb_header b)\<lparr>lh_sequence := s\<rparr>\<rparr>)) 1 = Ok (AcceptParcel
       \<lparr>ap_sublink = k, ap_sequence_number = q, ap_subparcel_index = 0, ap_num_subparcels = 1, ap_parcel_fragment = f,
        ap_parcel_data = [], ap_handle_types = [1], ap_new_routers = [],
        ap_driver_objects = [\<lparr>dobj_data = wrapped_platform_handle_encoding, dobj_first_fd = 0, dobj_num_fds = 1\<rparr>]\<rparr>))"
proof -
  let ?ds = "[wrapped_platform_handle_encoding]"
  obtain b where e: "encode_accept_parcel_arrays k q 0 1 (Some f) [] [1] [] ?ds = Some (build b)"
    and d: "decode_message (build (b\<lparr>mb_header := (mb_header b)\<lparr>lh_sequence := s\<rparr>\<rparr>)) (length ?ds) = Ok (AcceptParcel
       \<lparr>ap_sublink = k, ap_sequence_number = q, ap_subparcel_index = 0, ap_num_subparcels = 1,
        ap_parcel_fragment = fragment_of (Some f), ap_parcel_data = inline_data (Some f) [], ap_handle_types = [1],
        ap_new_routers = concat [], ap_driver_objects = objects_of 0 ?ds\<rparr>)" for s
    by (rule that, rule encode_parcel_eq [OF reply_fits refl refl refl refl],
        rule decode_parcel_body [OF _ _ _ reply_fits refl refl refl _ refl]) simp_all
  show ?thesis
    unfolding encode_accept_parcel_fragment_def using e d by (auto simp: fragment_of_def inline_data_def)
qed

lemma push_event_frame:
  "push_event op kind payload note a = Ok b \<Longrightarrow> ac_sent b = ac_sent a \<and> ac_memory b = ac_memory a \<and>
     ac_routers b = ac_routers a \<and> ac_bootstrap b = ac_bootstrap a"
  by (auto simp: push_event_def)

text \<open>C11: The reply can be read by the broker.  When \<open>send_reply\<close> succeeds on a sound memory, the one message it has sent, with
  the descriptor of the new file, decodes to a parcel on the current sublink of the bootstrap route with its
  next sequence number; the fragment it names holds the greeting, the memory is still sound, and its driver
  object is a wrapped handle that resolves to that descriptor.\<close>
theorem reply_is_readable:
  assumes "send_reply env a = Ok b" "ac_memory a = Some m" "mem_ok m F" "ac_routers a (ac_bootstrap a) = Some r"
  shows "\<exists>payload f p m' F'. ac_sent b = ac_sent a @ [(payload, [f])] \<and> ae_memfd env = Some f \<and>
    decode_message payload 1 = Ok (AcceptParcel p) \<and>
    ap_sublink p = lk_sublink (ar_primary r) \<and> ap_sequence_number p = ar_outbound_seq r \<and>
    ac_memory b = Some m' \<and> mem_ok m' F' \<and>
    read_parcel_fragment m' (ap_parcel_fragment p) = Ok (ascii ''hello-from-acceptor'') \<and>
    (\<forall>g. fe_dup env' f = Some g \<longrightarrow> unwrap_all env' [f] (ap_driver_objects p) = Ok [g])"
proof -
  let ?hello = "ascii ''hello-from-acceptor''"
  obtain q c f frag m' d where c: "ac_sent c = ac_sent a" "ac_memory c = Some m" "ac_routers c (ac_bootstrap a) = Some (r\<lparr>ar_portal := q\<rparr>)"
    and f: "reply_file env = Ok f" and w: "write_parcel_fragment m ?hello = Ok (frag, m')"
    and s: "send_numbered (encode_accept_parcel_fragment (lk_sublink (ar_primary r)) (ar_outbound_seq r) frag [1]
        [wrapped_platform_handle_encoding]) [f] (c\<lparr>ac_memory := Some m'\<rparr>) = Ok d"
    and b: "ac_sent b = ac_sent d" "ac_memory b = ac_memory d"
    using assms(1,2,4)
    by (auto simp: send_reply_def bootstrap_router_def ok_or_def Let_def emit_def emit_receive_def acceptor_memory_def map_err_def
        set_router_of_def dest!: push_event_frame split: option.split_asm list.split_asm if_split_asm outcome.split_asm)
  obtain F' where m': "mem_ok m' F'" "read_parcel_fragment m' frag = Ok ?hello"
  proof -
    have "length ?hello + 8 < usize_limit" by (simp add: ascii_def usize_limit_def)
    then show thesis by (rule write_parcel [OF assms(3), of ?hello]) (use w that in auto)
  qed
  obtain x where x: "encode_accept_parcel_fragment (lk_sublink (ar_primary r)) (ar_outbound_seq r) frag [1]
      [wrapped_platform_handle_encoding] = Some (build x)"
    and dec: "decode_message (build (x\<lparr>mb_header := (mb_header x)\<lparr>lh_sequence := s\<rparr>\<rparr>)) 1 = Ok (AcceptParcel
       \<lparr>ap_sublink = lk_sublink (ar_primary r), ap_sequence_number = ar_outbound_seq r, ap_subparcel_index = 0,
        ap_num_subparcels = 1, ap_parcel_fragment = frag, ap_parcel_data = [], ap_handle_types = [1], ap_new_routers = [],
        ap_driver_objects = [\<lparr>dobj_data = wrapped_platform_handle_encoding, dobj_first_fd = 0, dobj_num_fds = 1\<rparr>]\<rparr>)" for s
    using reply_encoded by blast
  have fd: "ae_memfd env = Some f" using f by (auto simp: reply_file_def ok_or_def split: option.split_asm)
  have sent: "ac_sent b = ac_sent a @ [(build (x\<lparr>mb_header := (mb_header x)\<lparr>lh_sequence := ac_next_seq c\<rparr>\<rparr>), [f])]"
    "ac_memory b = Some m'"
    using s x b c(1) by (auto simp: send_numbered_def patched_build channel_put_def split: if_split_asm)
  show ?thesis
    by (intro exI conjI, rule sent(1), rule fd, rule dec)
      (use sent(2) m' in \<open>simp_all add: wrapped_unwraps ok_or_def\<close>)
qed

lemma witness_write:
  obtains m F frag m' where "mem_ok m F" "write_parcel_fragment m (ascii ''hello-from-acceptor'') = Ok (frag, m')"
proof -
  let ?F = "(\<lambda>_. [])(witness_pool := [1..<8])" and ?hello = "ascii ''hello-from-acceptor''"
  obtain m where m: "register_buffer spent_memory 5 (Some (replicate 512 0)) True 64 = Ok m" "mem_ok m ?F"
    using witness_memory_sound by blast
  obtain region where b: "initialized_region 512 64 = Some region" and r: "m = insert_buffer spent_memory 5 region 64"
    using m(1) by (cases "initialized_region 512 64") (simp_all add: register_buffer_def split: if_split_asm)
  have len: "length region = 512"
    using b by (auto simp: initialized_region_def copy_into_def usub_def Let_def split: bind_splits if_split_asm)
  have half: "0 < n \<Longrightarrow> floorlog 2 n = floorlog 2 (n div 2) + 1" for n :: nat by (subst compute_floorlog) simp
  have "floorlog 2 26 = 5"
    using half [of 26] half [of 13] half [of 6] half [of 3] half [of 1] by (simp add: floorlog_def [of 2 0])
  then have "get_block_size_for_fragment_size 27 = Some 64"
    by (simp add: get_block_size_for_fragment_size_def next_power_of_two_def usize_limit_def MIN_FRAGMENT_SIZE_def)
  moreover have "pool_sizes m = [64, 256, 512, 1024, 2048, 4096]"
    by (simp add: r pool_sizes_def insert_buffer_def spent_memory_def PRIMARY_BLOCK_REGIONS_def map_filter_def)
  ultimately have c: "chosen_size m 27 = Some 64" by (simp add: chosen_size_def)
  have "witness_pool \<in> set (pools m)"
    by (simp add: r pools_def insert_buffer_def spent_memory_def extra_pool_def witness_pool_def len)
  moreover have "Some (pl_block witness_pool) = chosen_size m 27" "?F witness_pool \<noteq> []" using c by (simp_all add: witness_pool_def)
  ultimately have "\<not> (\<forall>p \<in> set (pools m). Some (pl_block p) = chosen_size m 27 \<longrightarrow> ?F p = [])" by blast
  then have "\<exists>b m' p. try_allocate_fragment m 27 = Ok (b, m') \<and> took m ?F p b m'"
    using allocate_spec [OF m(2), of 27] by (simp only: MAX_FRAGMENT_SIZE_FOR_BLOCK_ALLOCATION_def) (simp, blast)
  then have "try_allocate_fragment m 27 \<noteq> Ok (None, m)" using took_Some by fastforce
  moreover have n: "length ?hello + 8 = 27" by (simp add: ascii_def)
  moreover have "length ?hello + 8 < usize_limit" using n by (simp add: usize_limit_def)
  ultimately show thesis
    using write_parcel [OF m(2), of ?hello thesis] that [OF m(2)] by auto
qed

definition reply_env :: acceptor_env where
  "reply_env = example_acceptor_env\<lparr>ae_reads := \<lambda>_. [ReadBytes (ascii ''fd-from-broker'')], ae_memfd := Some 9, ae_writes := [Wrote 16]\<rparr>"

definition ready_router :: acceptor_router where
  "ready_router = initial_router 1 (Some [(ascii ''hello-from-broker'', [5])]) True"

definition ready_acceptor :: "link_memory \<Rightarrow> acceptor" where
  "ready_acceptor m = acceptor_new\<lparr>ac_memory := Some m, ac_routers := [1 \<mapsto> ready_router]\<rparr>"

lemma reply_file_written: "reply_file reply_env = Ok 9"
  by (simp add: reply_file_def reply_env_def ok_or_def ascii_def write_all.simps)

lemma reply_sent:
  assumes "write_parcel_fragment m (ascii ''hello-from-acceptor'') = Ok (frag, m')"
  shows "\<exists>b. send_reply reply_env (ready_acceptor m) = Ok b"
proof -
  obtain x where x: "encode_accept_parcel_fragment 1 0 frag [1] [wrapped_platform_handle_encoding] = Some (build x)"
    using reply_encoded by blast
  have "ascii ''fd-from-broker'' \<noteq> []" by (simp add: ascii_def)
  then have r: "read_all reply_env 5 = Ok (ascii ''fd-from-broker'')"
    by (simp add: read_all_def reply_env_def example_acceptor_env_def)
  show ?thesis
    using assms x r reply_file_written
    by (simp add: send_reply_def ready_acceptor_def ready_router_def acceptor_new_def initial_router_def bootstrap_router_def
        ok_or_def Let_def set_router_of_def emit_def emit_receive_def push_event_def succ64_def acceptor_memory_def map_err_def
        send_numbered_def patched_build channel_put_def)
qed

theorem reply_is_readable_witness:
  "\<exists>m b payload p m'. send_reply reply_env (ready_acceptor m) = Ok b \<and> ac_sent b = [(payload, [9])] \<and>
    decode_message payload 1 = Ok (AcceptParcel p) \<and> ap_sublink p = 1 \<and> ap_sequence_number p = 0 \<and>
    ac_memory b = Some m' \<and> read_parcel_fragment m' (ap_parcel_fragment p) = Ok (ascii ''hello-from-acceptor'') \<and>
    unwrap_all example_acceptor_env [9] (ap_driver_objects p) = Ok [9]"
proof -
  obtain m F frag m' where m: "mem_ok m F" "write_parcel_fragment m (ascii ''hello-from-acceptor'') = Ok (frag, m')"
    by (rule witness_write)
  obtain b where b: "send_reply reply_env (ready_acceptor m) = Ok b" using reply_sent [OF m(2)] by blast
  have a: "ac_memory (ready_acceptor m) = Some m" "ac_sent (ready_acceptor m) = []"
    "ac_routers (ready_acceptor m) (ac_bootstrap (ready_acceptor m)) = Some ready_router"
    "lk_sublink (ar_primary ready_router) = 1" "ar_outbound_seq ready_router = 0" "ae_memfd reply_env = Some 9"
    "fe_dup example_acceptor_env 9 = Some 9"
    by (simp_all add: ready_acceptor_def acceptor_new_def ready_router_def initial_router_def reply_env_def example_acceptor_env_def)
  from reply_is_readable [OF b a(1) m(1) a(3), of example_acceptor_env] a b show ?thesis by auto blast
qed

end
