(* ===== verification/Waiter.thy ===== *)
theory Waiter
  imports Trap
begin

text \<open>
  Blocking waits (\<open>crates/mojo-rs-core/src/wait.rs\<close>).  The loop of \<open>wait\<close> is a step function of one thread over the flag \<open>woken\<close>
  and a dispatcher, which it reaches through the same record of operations as a trap does; threads that share a waiter,
  the callbacks in flight, dispatcher calls by others, the clock and spurious wake-ups interleave as events.
\<close>

section \<open>The wait loop of one thread\<close>

text \<open>
  The places at which a thread in \<open>wait\<close> can be: between two of them it takes one lock, of the dispatcher or of
  the waiter.  \<open>Leaving\<close> is the cancellation of the watch, with the result to return or, without one, on the way
  back to the head of the loop.
\<close>

datatype wait_pc =
    Looping
  | Parking
  | Rechecking watch_id
  | Locking watch_id
  | Parked watch_id
  | Notified watch_id
  | TimedOut watch_id
  | Leaving watch_id "signals_state core_result option"
  | Returned "signals_state core_result"

record 'k wait_request =
  rq_dispatcher :: 'k
  rq_signals :: signals
  rq_deadline :: "nat option"

definition expired :: "'k wait_request \<Rightarrow> nat \<Rightarrow> bool" where
  "expired rq now = (case rq_deadline rq of None \<Rightarrow> False | Some dl \<Rightarrow> dl \<le> now)"

text \<open>What a check of the signals decides.\<close>

definition verdict :: "signals_state \<Rightarrow> signals \<Rightarrow> signals_state core_result option" where
  "verdict st s =
     (if is_satisfied st s then Some (Ok st)
      else if is_unsatisfiable st s then Some (Err FailedPrecondition)
      else None)"

fun wait_step ::
  "('k, 'w) dispatcher_ops \<Rightarrow> u64 \<Rightarrow> 'k wait_request \<Rightarrow> nat \<Rightarrow> wait_pc \<Rightarrow> 'w \<Rightarrow> bool \<Rightarrow> (wait_pc \<times> 'w \<times> bool) option" where
  "wait_step D c rq now Looping w woken =
     (let (st, w) = d_query D w (rq_dispatcher rq) in
      Some (case verdict st (rq_signals rq) of
              Some r \<Rightarrow> Returned r
            | None \<Rightarrow> if expired rq now then Returned (Err DeadlineExceeded) else Parking, w, woken))"
| "wait_step D c rq now Parking w woken =
     (let (i, w) = d_start D w (rq_dispatcher rq) (rq_signals rq) c in Some (Rechecking i, w, woken))"
| "wait_step D c rq now (Rechecking i) w woken =
     (let (st, w) = d_query D w (rq_dispatcher rq) in
      Some (case verdict st (rq_signals rq) of Some r \<Rightarrow> Leaving i (Some r) | None \<Rightarrow> Locking i, w, woken))"
| "wait_step D c rq now (Locking i) w woken =
     (if woken then Some (Leaving i None, w, False)
      else if expired rq now then Some (Leaving i (Some (Err DeadlineExceeded)), w, woken)
      else Some (Parked i, w, woken))"
| "wait_step D c rq now (Parked i) w woken = (if expired rq now then Some (TimedOut i, w, woken) else None)"
| "wait_step D c rq now (Notified i) w woken = Some (Leaving i None, w, False)"
| "wait_step D c rq now (TimedOut i) w woken =
     (if \<not> woken then Some (Leaving i (Some (Err DeadlineExceeded)), w, woken)
      else Some (Leaving i None, w, False))"
| "wait_step D c rq now (Leaving i r) w woken =
     Some (case r of None \<Rightarrow> Looping | Some r \<Rightarrow> Returned r, d_cancel D w (rq_dispatcher rq) i, woken)"
| "wait_step D c rq now (Returned r) w woken = None"

section \<open>Threads, callbacks and the world\<close>

text \<open>
  A callback in flight has been handed out by a dispatcher call and has not run yet, or it has set the flag and has
  still to notify.
\<close>

datatype callback_phase = Called | Marked

record 'w waiting =
  wt_world :: 'w
  wt_woken :: bool
  wt_callbacks :: "callback_phase list"
  wt_clock :: nat
  wt_threads :: "wait_pc list"

definition waiter_new :: "'w \<Rightarrow> nat \<Rightarrow> 'w waiting" where
  "waiter_new w n =
     \<lparr>wt_world = w, wt_woken = False, wt_callbacks = [], wt_clock = 0, wt_threads = replicate n Looping\<rparr>"

definition notified :: "wait_pc \<Rightarrow> wait_pc" where
  "notified pc = (case pc of Parked i \<Rightarrow> Notified i | _ \<Rightarrow> pc)"

datatype 'o waiter_event =
    Run nat
  | Call 'o
  | Callback nat
  | Tick
  | Spurious nat

fun wait_event ::
  "('k, 'w) dispatcher_ops \<Rightarrow> ('w \<Rightarrow> 'o \<Rightarrow> 'w \<times> u64 notification list) \<Rightarrow> u64 \<Rightarrow> (nat \<Rightarrow> 'k wait_request) \<Rightarrow>
   'w waiting \<Rightarrow> 'o waiter_event \<Rightarrow> 'w waiting option" where
  "wait_event D op c rqs s (Run t) =
     (if t < length (wt_threads s) then
        map_option (\<lambda>(pc, w, woken). s\<lparr>wt_world := w, wt_woken := woken, wt_threads := (wt_threads s)[t := pc]\<rparr>)
          (wait_step D c (rqs t) (wt_clock s) (wt_threads s ! t) (wt_world s) (wt_woken s))
      else None)"
| "wait_event D op c rqs s (Call x) =
     (let (w, ns) = op (wt_world s) x in
      Some (s\<lparr>wt_world := w,
              wt_callbacks := wt_callbacks s @ map (\<lambda>_. Called) (filter (\<lambda>n. n_callback n = c) ns)\<rparr>))"
| "wait_event D op c rqs s (Callback j) =
     (if j < length (wt_callbacks s) then
        (case wt_callbacks s ! j of
           Called \<Rightarrow> Some (s\<lparr>wt_woken := True, wt_callbacks := (wt_callbacks s)[j := Marked]\<rparr>)
         | Marked \<Rightarrow> Some (s\<lparr>wt_callbacks := take j (wt_callbacks s) @ drop (Suc j) (wt_callbacks s),
                              wt_threads := map notified (wt_threads s)\<rparr>))
      else None)"
| "wait_event D op c rqs s Tick = Some (s\<lparr>wt_clock := wt_clock s + 1\<rparr>)"
| "wait_event D op c rqs s (Spurious t) =
     (if t < length (wt_threads s) then Some (s\<lparr>wt_threads := (wt_threads s)[t := notified (wt_threads s ! t)]\<rparr>)
      else None)"

fun wait_events ::
  "('k, 'w) dispatcher_ops \<Rightarrow> ('w \<Rightarrow> 'o \<Rightarrow> 'w \<times> u64 notification list) \<Rightarrow> u64 \<Rightarrow> (nat \<Rightarrow> 'k wait_request) \<Rightarrow>
   'w waiting \<Rightarrow> 'o waiter_event list \<Rightarrow> 'w waiting option" where
  "wait_events D op c rqs s [] = Some s"
| "wait_events D op c rqs s (e # es) = Option.bind (wait_event D op c rqs s e) (\<lambda>s. wait_events D op c rqs s es)"

text \<open>
  What can be reached from a state, as long as nobody cancels the watches of this waiter (a watch id is known only to
  the thread that registered it), nor makes a call that breaks its contract.
\<close>

inductive reaches ::
  "('k, 'w) dispatcher_ops \<Rightarrow> ('w \<Rightarrow> 'o \<Rightarrow> 'w \<times> u64 notification list) \<Rightarrow> (u64 \<Rightarrow> 'w \<Rightarrow> 'o \<Rightarrow> bool) \<Rightarrow> u64 \<Rightarrow>
   (nat \<Rightarrow> 'k wait_request) \<Rightarrow> 'w waiting \<Rightarrow> 'w waiting \<Rightarrow> bool"
  for D op fair c rqs s0 where
  start: "reaches D op fair c rqs s0 s0"
| event: "reaches D op fair c rqs s0 s \<Longrightarrow> (case e of Call x \<Rightarrow> fair c (wt_world s) x | _ \<Rightarrow> True) \<Longrightarrow>
    wait_event D op c rqs s e = Some s' \<Longrightarrow> reaches D op fair c rqs s0 s'"

section \<open>Results\<close>

text \<open>What a thread has returned, or is about to, is justified by a state it saw or by its deadline.\<close>

definition result_justified :: "'k wait_request \<Rightarrow> nat \<Rightarrow> signals_state core_result \<Rightarrow> bool" where
  "result_justified rq now r \<longleftrightarrow> (case r of
       Ok st \<Rightarrow> is_satisfied st (rq_signals rq)
     | Err e \<Rightarrow> e = FailedPrecondition \<or> e = DeadlineExceeded \<and> expired rq now
     | Panic \<Rightarrow> False)"

definition pc_justified :: "'k wait_request \<Rightarrow> nat \<Rightarrow> wait_pc \<Rightarrow> bool" where
  "pc_justified rq now pc \<longleftrightarrow> (case pc of
       Leaving _ (Some r) \<Rightarrow> result_justified rq now r
     | Returned r \<Rightarrow> result_justified rq now r
     | TimedOut _ \<Rightarrow> expired rq now
     | _ \<Rightarrow> True)"

lemma verdict_justified: "verdict st (rq_signals rq) = Some r \<Longrightarrow> result_justified rq now r"
  by (auto simp: verdict_def result_justified_def split: if_splits)

lemma wait_step_justified:
  "wait_step D c rq now pc w woken = Some (pc', w', woken') \<Longrightarrow> pc_justified rq now pc \<Longrightarrow> pc_justified rq now pc'"
  by (cases pc)
    (auto simp: pc_justified_def Let_def result_justified_def verdict_justified split: prod.splits if_splits option.splits
      dest: verdict_justified [of _ _ _ now])

lemma notified_justified: "pc_justified rq now pc \<Longrightarrow> pc_justified rq now (notified pc)"
  by (cases pc) (simp_all add: pc_justified_def notified_def)

lemma later_justified: "pc_justified rq now pc \<Longrightarrow> pc_justified rq (Suc now) pc"
  by (cases pc)
    (auto simp: pc_justified_def result_justified_def expired_def split: option.splits outcome.splits)

lemma event_justified:
  assumes "wait_event D op c rqs s e = Some s'"
    "\<forall>t < length (wt_threads s). pc_justified (rqs t) (wt_clock s) (wt_threads s ! t)"
  shows "length (wt_threads s') = length (wt_threads s) \<and>
    (\<forall>t < length (wt_threads s'). pc_justified (rqs t) (wt_clock s') (wt_threads s' ! t))"
  using assms
  by (cases e)
    (auto simp: Let_def nth_list_update notified_justified later_justified
      split: prod.splits if_splits callback_phase.splits dest: wait_step_justified)

section \<open>No wake-up is lost\<close>

text \<open>
  A dispatcher wakes: a watch is registered or its endpoint is dead for good, and whatever call makes a condition
  hold, or takes the registration away, calls the watch back.
\<close>

locale waking = dispatcher D inv live ids
  for D :: "('k, 'w) dispatcher_ops" and inv :: "'w \<Rightarrow> bool"
    and live :: "'w \<Rightarrow> 'k \<Rightarrow> (watch_id \<times> signals \<times> u64) list" and ids :: "'w \<Rightarrow> 'k \<Rightarrow> watch_id list" +
  fixes op :: "'w \<Rightarrow> 'o \<Rightarrow> 'w \<times> u64 notification list" and fair :: "u64 \<Rightarrow> 'w \<Rightarrow> 'o \<Rightarrow> bool"
    and dead :: "'w \<Rightarrow> 'k \<Rightarrow> bool"
  assumes dead_law: "dead w k \<Longrightarrow> ready (fst (d_query D w k)) s"
    and registers_law: "inv w \<Longrightarrow> d_start D w k s c = (i, w') \<Longrightarrow> (i, s, c) \<in> set (live w' k) \<or> dead w' k"
    and op_law: "inv w \<Longrightarrow> fair c w x \<Longrightarrow> op w x = (w', ns) \<Longrightarrow> inv w' \<and> (dead w k \<longrightarrow> dead w' k) \<and>
      ((i, s, c) \<in> set (live w k) \<longrightarrow>
         (\<exists>n \<in> set ns. n_callback n = c) \<or>
         (i, s, c) \<in> set (live w' k) \<and> (ready (fst (d_query D w' k)) s \<longrightarrow> ready (fst (d_query D w k)) s))"
begin

definition condition :: "'k wait_request \<Rightarrow> 'w \<Rightarrow> bool" where
  "condition rq w \<longleftrightarrow> ready (fst (d_query D w (rq_dispatcher rq))) (rq_signals rq)"

definition watched :: "u64 \<Rightarrow> 'k wait_request \<Rightarrow> 'w \<Rightarrow> watch_id \<Rightarrow> bool" where
  "watched c rq w i \<longleftrightarrow> (i, rq_signals rq, c) \<in> set (live w (rq_dispatcher rq))"

definition signalled :: "'w waiting \<Rightarrow> bool" where
  "signalled s \<longleftrightarrow> wt_woken s \<or> Called \<in> set (wt_callbacks s)"

definition roused :: "'w waiting \<Rightarrow> bool" where
  "roused s \<longleftrightarrow> Called \<in> set (wt_callbacks s) \<or> wt_woken s \<and> Marked \<in> set (wt_callbacks s)"

definition attentive :: "u64 \<Rightarrow> 'k wait_request \<Rightarrow> 'w waiting \<Rightarrow> wait_pc \<Rightarrow> bool" where
  "attentive c rq s pc \<longleftrightarrow> (case pc of
       Rechecking i \<Rightarrow> watched c rq (wt_world s) i \<or> dead (wt_world s) (rq_dispatcher rq) \<or> signalled s
     | Locking i \<Rightarrow> signalled s \<or> watched c rq (wt_world s) i \<and> \<not> condition rq (wt_world s)
     | Parked i \<Rightarrow> roused s \<or> watched c rq (wt_world s) i \<and> \<not> condition rq (wt_world s)
     | TimedOut i \<Rightarrow> signalled s \<or> watched c rq (wt_world s) i \<and> \<not> condition rq (wt_world s)
     | _ \<Rightarrow> True)"

definition alert :: "u64 \<Rightarrow> 'k wait_request \<Rightarrow> 'w waiting \<Rightarrow> bool" where
  "alert c rq s \<longleftrightarrow> inv (wt_world s) \<and> (\<exists>pc. wt_threads s = [pc] \<and> attentive c rq s pc)"

lemma undecided: "verdict st s = None \<longleftrightarrow> \<not> ready st s"
  by (simp add: verdict_def ready_def)

lemma run_alert:
  assumes "alert c (rqs 0) s" "wait_event D op c rqs s (Run t) = Some s'"
  shows "alert c (rqs 0) s'"
proof -
  obtain pc where pc: "inv (wt_world s)" "wt_threads s = [pc]" "attentive c (rqs 0) s pc"
    using assms(1) by (auto simp: alert_def)
  have t: "t = 0" using assms(2) pc(2) by (simp split: if_splits)
  let ?rq = "rqs 0" and ?w = "wt_world s"
  obtain pc' w' k' where st: "wait_step D c ?rq (wt_clock s) pc ?w (wt_woken s) = Some (pc', w', k')"
    and s': "s' = s\<lparr>wt_world := w', wt_woken := k', wt_threads := [pc']\<rparr>"
    using assms(2) pc(2) t by (auto split: if_splits)
  have q: "inv (snd (d_query D ?w k)) \<and> live (snd (d_query D ?w k)) = live ?w \<and>
      (\<forall>k'. fst (d_query D (snd (d_query D ?w k)) k') = fst (d_query D ?w k'))" for k
    using query_law [OF pc(1)] by blast
  show ?thesis
  proof (cases pc)
    case Parking
    obtain i where "d_start D ?w (rq_dispatcher ?rq) (rq_signals ?rq) c = (i, w')" "pc' = Rechecking i"
      using st Parking by (auto simp: Let_def split: prod.splits)
    then show ?thesis
      using start_law [OF pc(1), of "rq_dispatcher ?rq" "rq_signals ?rq" c i w'] s'
        registers_law [OF pc(1), of "rq_dispatcher ?rq" "rq_signals ?rq" c i w']
      by (auto simp: alert_def attentive_def watched_def)
  next
    case (Rechecking i)
    then show ?thesis
      using st pc(3) s' q [of "rq_dispatcher ?rq"] dead_law [of ?w "rq_dispatcher ?rq" "rq_signals ?rq"]
      by (auto simp: alert_def attentive_def watched_def condition_def signalled_def Let_def undecided
          split: prod.splits option.splits)
  next
    case (Leaving i r)
    then show ?thesis
      using st s' cancel_law [OF pc(1), of "rq_dispatcher ?rq" i]
      by (auto simp: alert_def attentive_def split: option.splits)
  qed (use st s' pc q [of "rq_dispatcher ?rq"] in \<open>auto simp: alert_def attentive_def watched_def condition_def
      signalled_def roused_def Let_def split: prod.splits option.splits if_splits\<close>)
qed

lemma event_alert:
  assumes "alert c (rqs 0) s" "wait_event D op c rqs s e = Some s'"
    and "case e of Call x \<Rightarrow> fair c (wt_world s) x | _ \<Rightarrow> True"
  shows "alert c (rqs 0) s'"
proof -
  obtain pc where pc: "inv (wt_world s)" "wt_threads s = [pc]" "attentive c (rqs 0) s pc"
    using assms(1) by (auto simp: alert_def)
  let ?rq = "rqs 0" and ?w = "wt_world s"
  show ?thesis
  proof (cases e)
    case (Run t)
    then show ?thesis using run_alert assms(1,2) by simp
  next
    case (Call x)
    obtain w' ns where o: "op ?w x = (w', ns)" by fastforce
    let ?cs = "filter (\<lambda>n. n_callback n = c) ns"
    have s': "s' = s\<lparr>wt_world := w', wt_callbacks := wt_callbacks s @ map (\<lambda>_. Called) ?cs\<rparr>"
      using assms(2) Call o by simp
    have w: "inv w'" "dead ?w k \<Longrightarrow> dead w' k"
      "(i, sg, c) \<in> set (live ?w k) \<Longrightarrow> ?cs \<noteq> [] \<or>
         (i, sg, c) \<in> set (live w' k) \<and> (ready (fst (d_query D w' k)) sg \<longrightarrow> ready (fst (d_query D ?w k)) sg)" for k i sg
      using op_law [OF pc(1) _ o, of c] assms(3) Call by (auto simp: filter_empty_conv)
    have called: "Called \<in> set (wt_callbacks s')" if "?cs \<noteq> []" using that s' by (cases ?cs) auto
    show ?thesis
    proof (cases "?cs = []")
      case True
      then show ?thesis using pc w s'
        by (cases pc) (auto simp: alert_def attentive_def watched_def condition_def signalled_def roused_def)
    next
      case False
      then show ?thesis using pc w(1) s' called
        by (cases pc) (auto simp: alert_def attentive_def signalled_def roused_def)
    qed
  next
    case (Callback j)
    have j: "j < length (wt_callbacks s)" using assms(2) Callback by (simp split: if_splits)
    show ?thesis
    proof (cases "wt_callbacks s ! j")
      case Called
      then have "s' = s\<lparr>wt_woken := True, wt_callbacks := (wt_callbacks s)[j := Marked]\<rparr>"
        using assms(2) Callback j by simp
      moreover have "Marked \<in> set ((wt_callbacks s)[j := Marked])" using j by (simp add: set_update_memI)
      ultimately show ?thesis using pc
        by (cases pc) (auto simp: alert_def attentive_def watched_def condition_def signalled_def roused_def)
    next
      case Marked
      let ?cs = "take j (wt_callbacks s) @ drop (Suc j) (wt_callbacks s)"
      have s': "s' = s\<lparr>wt_callbacks := ?cs, wt_threads := [notified pc]\<rparr>"
        using assms(2) Callback j Marked pc(2) by simp
      have "wt_callbacks s = take j (wt_callbacks s) @ Marked # drop (Suc j) (wt_callbacks s)"
        using id_take_nth_drop [OF j] Marked by simp
      then have "Called \<in> set ?cs \<longleftrightarrow> Called \<in> set (wt_callbacks s)"
        by (metis callback_phase.distinct(1) in_set_conv_decomp set_ConsD set_append Un_iff list.set_intros(2))
      then show ?thesis using pc s'
        by (cases pc) (auto simp: alert_def attentive_def watched_def condition_def signalled_def notified_def)
    qed
  next
    case Tick
    then show ?thesis using assms(2) pc
      by (cases pc) (auto simp: alert_def attentive_def watched_def condition_def signalled_def roused_def)
  next
    case (Spurious t)
    then show ?thesis using assms(2) pc
      by (cases pc) (auto simp: alert_def attentive_def watched_def condition_def signalled_def roused_def notified_def
          split: if_splits)
  qed
qed

lemma reaches_alert:
  assumes "reaches D op fair c rqs (waiter_new w 1) s" "inv w"
  shows "alert c (rqs 0) s"
  using assms(1)
proof induction
  case start
  then show ?case using assms(2) by (simp add: alert_def attentive_def waiter_new_def)
next
  case (event s e s')
  then show ?case using event_alert by blast
qed

text \<open>Once nothing is in flight, a thread whose condition holds returns by itself.\<close>

lemma alone:
  assumes "wt_threads s = [pc]"
  shows "wait_events D op c rqs s (replicate (Suc n) (Run 0)) =
    Option.bind (wait_step D c (rqs 0) (wt_clock s) pc (wt_world s) (wt_woken s))
      (\<lambda>(pc, w, k). wait_events D op c rqs (s\<lparr>wt_world := w, wt_woken := k, wt_threads := [pc]\<rparr>) (replicate n (Run 0)))"
  using assms
  by (cases "wait_step D c (rqs 0) (wt_clock s) pc (wt_world s) (wt_woken s)") (auto simp: case_prod_beta)

definition returns_in :: "u64 \<Rightarrow> (nat \<Rightarrow> 'k wait_request) \<Rightarrow> nat \<Rightarrow> 'w waiting \<Rightarrow> signals_state core_result \<Rightarrow> bool" where
  "returns_in c rqs n s r \<longleftrightarrow> (\<exists>s'. wait_events D op c rqs s (replicate n (Run 0)) = Some s' \<and> wt_threads s' = [Returned r])"

lemma returns_step:
  assumes "wt_threads s = [pc]" "wait_step D c (rqs 0) (wt_clock s) pc (wt_world s) (wt_woken s) = Some (pc', w', k')"
    and "returns_in c rqs n (s\<lparr>wt_world := w', wt_woken := k', wt_threads := [pc']\<rparr>) r"
  shows "returns_in c rqs (Suc n) s r"
  using assms by (simp add: returns_in_def alone [OF assms(1)] del: replicate_Suc)

lemma returned_now: "wt_threads s = [Returned r] \<Longrightarrow> returns_in c rqs 0 s r"
  by (simp add: returns_in_def)

lemma looping_returns:
  assumes "inv (wt_world s)" "verdict (fst (d_query D (wt_world s) (rq_dispatcher (rqs 0)))) (rq_signals (rqs 0)) = Some r"
    "wt_threads s = [Looping]"
  shows "returns_in c rqs 1 s r"
  using assms(2) unfolding One_nat_def
  by (intro returns_step [OF assms(3), where pc' = "Returned r" and w' = "snd (d_query D (wt_world s) (rq_dispatcher (rqs 0)))"
          and k' = "wt_woken s"] returned_now) (auto split: prod.splits)

lemma leaving_returns:
  assumes "inv (wt_world s)" "verdict (fst (d_query D (wt_world s) (rq_dispatcher (rqs 0)))) (rq_signals (rqs 0)) = Some r"
    "wt_threads s = [Leaving i None]"
  shows "returns_in c rqs 2 s r"
  using assms(2) cancel_law [OF assms(1), of "rq_dispatcher (rqs 0)" i] unfolding numeral_2_eq_2
  by (intro returns_step [OF assms(3), where pc' = Looping and w' = "d_cancel D (wt_world s) (rq_dispatcher (rqs 0)) i"
          and k' = "wt_woken s"] looping_returns [unfolded One_nat_def]) auto

lemma returns_alone:
  assumes "alert c (rqs 0) s" "wt_callbacks s = []" "wt_threads s = [pc]"
    "verdict (fst (d_query D (wt_world s) (rq_dispatcher (rqs 0)))) (rq_signals (rqs 0)) = Some r"
  shows "\<exists>n \<le> 3. returns_in c rqs n s (case pc of Leaving _ (Some r) \<Rightarrow> r | Returned r \<Rightarrow> r | _ \<Rightarrow> r)"
proof -
  let ?k = "rq_dispatcher (rqs 0)" and ?sg = "rq_signals (rqs 0)" and ?w = "wt_world s"
  have pc: "inv ?w" "attentive c (rqs 0) s pc" using assms(1,3) by (auto simp: alert_def)
  have c: "condition (rqs 0) ?w"
    using assms(4) undecided [of "fst (d_query D ?w ?k)" ?sg] by (auto simp: condition_def)
  have again: "returns_in c rqs 3 s r" if "wait_step D c (rqs 0) (wt_clock s) pc ?w (wt_woken s) = Some (Leaving i None, ?w, k)" for i k
    unfolding numeral_3_eq_3 using pc(1) assms(4)
    by (intro returns_step [where rqs = rqs, OF assms(3) that] leaving_returns [unfolded numeral_2_eq_2]) simp_all
  have recheck: "returns_in c rqs 2 t r"
    if "wt_threads t = [Rechecking i]" "inv (wt_world t)" "fst (d_query D (wt_world t) ?k) = fst (d_query D ?w ?k)" for t i
    unfolding numeral_2_eq_2 using that(3) assms(4)
    by (intro returns_step [OF that(1), where pc' = "Leaving i (Some r)" and w' = "snd (d_query D (wt_world t) ?k)" and
          k' = "wt_woken t"] returns_step [where pc = "Leaving i (Some r)" and pc' = "Returned r" and
          w' = "d_cancel D (snd (d_query D (wt_world t) ?k)) ?k i" and k' = "wt_woken t"] returned_now) (auto split: prod.splits)
  show ?thesis
  proof (cases pc)
    case Looping
    then show ?thesis using looping_returns [where rqs = rqs, OF pc(1) assms(4)] assms(3) by (intro exI [of _ 1]) simp
  next
    case Parking
    obtain i w' where i: "d_start D ?w ?k ?sg c = (i, w')" by fastforce
    then have "returns_in c rqs 3 s r"
      unfolding numeral_3_eq_3 using Parking start_law [OF pc(1) i]
      by (intro returns_step [OF assms(3), where pc' = "Rechecking i" and w' = w' and k' = "wt_woken s"]
          recheck [unfolded numeral_2_eq_2]) auto
    then show ?thesis using Parking by (intro exI [of _ 3]) simp
  next
    case (Rechecking i)
    then show ?thesis using recheck [of s i] assms(3) pc(1) by (intro exI [of _ 2]) simp
  next
    case (Leaving i x)
    show ?thesis
    proof (cases x)
      case None
      then show ?thesis using leaving_returns [where rqs = rqs, OF pc(1) assms(4)] assms(3) Leaving by (intro exI [of _ 2]) simp
    next
      case (Some y)
      have "returns_in c rqs 1 s y"
        unfolding One_nat_def using Leaving Some
        by (intro returns_step [OF assms(3), where pc' = "Returned y" and w' = "d_cancel D ?w ?k i" and k' = "wt_woken s"]
            returned_now) auto
      then show ?thesis using Leaving Some by (intro exI [of _ 1]) simp
    qed
  next
    case (Returned x)
    then show ?thesis using assms(3) by (intro exI [of _ 0]) (simp add: returned_now)
  qed (use pc(2) c assms(2) again in \<open>auto simp: attentive_def signalled_def roused_def\<close>)
qed

end

section \<open>The message pipe wakes its waiters\<close>

definition pipe_fair :: "u64 \<Rightarrow> u64 pipe \<Rightarrow> u64 pipe_op \<Rightarrow> bool" where
  "pipe_fair c p x = (case x of PCancel s j \<Rightarrow> list_all (\<lambda>w. w_id w = j \<longrightarrow> w_callback w \<noteq> c) (watchers (ep p s)) | _ \<Rightarrow> True)"

definition pipe_dead :: "u64 pipe \<Rightarrow> pipe_side \<Rightarrow> bool" where
  "pipe_dead p s = local_closed (ep p s)"

lemma mark_cancelled_keeps:
  "(i, sg, c) \<in> set (live_watches ws) \<Longrightarrow> list_all (\<lambda>w. w_id w = j \<longrightarrow> w_callback w \<noteq> c) ws \<Longrightarrow>
   (i, sg, c) \<in> set (live_watches (mark_cancelled j ws))"
  by (induction ws) (auto split: if_splits)

lemma cancel_all_calls:
  "(i, sg, c) \<in> set (live_watches ws) \<Longrightarrow> \<exists>n \<in> set (snd (cancel_all ws)). n_callback n = c"
  by (force simp: live_watches_def cancel_all_def)

lemma pipe_write_watchers: "snd (pipe_write p s m) = (q, ns) \<Longrightarrow>
    watchers (ep q k) = watchers (ep p k) \<and> local_closed (ep q k) = local_closed (ep p k)"
  by (cases "k = side_peer s") (auto simp: pipe_write_def Let_def split: if_splits)

lemma pipe_read_watchers: "snd (pipe_read p s mx d) = (q, ns) \<Longrightarrow>
    watchers (ep q k) = watchers (ep p k) \<and> local_closed (ep q k) = local_closed (ep p k)"
  by (cases "k = s") (auto simp: pipe_read_def Let_def into_parts_def split: if_splits list.splits option.splits prod.splits)

lemma pipe_step_keeps:
  assumes "(i, sg, c) \<in> set (pipe_live p k)" "pipe_fair c p x" "x \<noteq> PClose k" "pipe_step p x = (q, ns)"
  shows "(i, sg, c) \<in> set (pipe_live q k)"
proof (cases x)
  case (PClose s)
  then have "k = side_peer s" using assms(3) by (cases k; cases s) auto
  then show ?thesis using assms(1,4) PClose by (auto simp: pipe_live_def pipe_close_eq Let_def split: if_splits)
next
  case (PCancel s j)
  then show ?thesis using assms(1,2,4) mark_cancelled_keeps [of i sg c "watchers (ep p s)" j]
    by (cases "k = s") (auto simp: pipe_live_def pipe_fair_def cancel_registered_watch_def Let_def)
qed (use assms(1,4) pipe_write_watchers [of p] pipe_read_watchers [of p] in
    \<open>auto simp: pipe_live_def register_watch_def Let_def split: prod.splits if_splits\<close>)

lemma pipe_step_dead: "pipe_dead p k \<Longrightarrow> pipe_step p x = (q, ns) \<Longrightarrow> pipe_dead q k"
  using pipe_write_watchers [of p] pipe_read_watchers [of p]
  by (cases x) (auto simp: pipe_dead_def pipe_close_eq register_watch_def cancel_registered_watch_def Let_def all_sides
      split: prod.splits if_splits)

lemma pipe_closed_calls:
  "(i, sg, c) \<in> set (pipe_live p k) \<Longrightarrow> pipe_inv p \<Longrightarrow> pipe_step p (PClose k) = (q, ns) \<Longrightarrow> \<exists>n \<in> set ns. n_callback n = c"
  using cancel_all_calls [of i sg c "watchers (ep p k)"]
  by (fastforce simp: pipe_live_def pipe_close_eq Let_def pipe_inv_def live_watches_ids [symmetric] split: if_splits)

interpretation pipe_wakes: waking pipe_dispatcher pipe_inv pipe_live pipe_ids pipe_step pipe_fair pipe_dead
proof unfold_locales
  fix w k s
  assume "pipe_dead w k"
  then have "query_signals w k = \<lparr>satisfied = NONE, satisfiable = NONE\<rparr>"
    by (simp add: pipe_dead_def query_signals_def signals_of_def)
  then show "ready (fst (d_query pipe_dispatcher w k)) s"
    by (simp add: pipe_dispatcher_def ready_def is_satisfied_def is_unsatisfiable_def)
next
  fix w k s c i w'
  assume "d_start pipe_dispatcher w k s c = (i, w')"
  then show "(i, s, c) \<in> set (pipe_live w' k) \<or> pipe_dead w' k"
    by (auto simp: pipe_dispatcher_def register_watch_def Let_def pipe_live_def pipe_dead_def new_watcher_def split: if_splits)
next
  fix w c x w' ns k i s
  assume a: "pipe_inv w" "pipe_fair c w x" "pipe_step w x = (w', ns)"
  have "pipe_inv w'" using pipe_step_inv [OF a(1), of x] a(3) by simp
  moreover have "(\<exists>n \<in> set ns. n_callback n = c) \<or> (i, s, c) \<in> set (pipe_live w' k) \<and>
      (ready (query_signals w' k) s \<longrightarrow> ready (query_signals w k) s)" if l: "(i, s, c) \<in> set (pipe_live w k)"
    using pipe_step_keeps [OF l a(2) _ a(3)] pipe_step_wakes [OF l _ a(3)] pipe_closed_calls [OF l a(1)] a(3) by metis
  ultimately show "pipe_inv w' \<and> (pipe_dead w k \<longrightarrow> pipe_dead w' k) \<and> ((i, s, c) \<in> set (pipe_live w k) \<longrightarrow>
      (\<exists>n \<in> set ns. n_callback n = c) \<or> (i, s, c) \<in> set (pipe_live w' k) \<and>
      (ready (fst (d_query pipe_dispatcher w' k)) s \<longrightarrow> ready (fst (d_query pipe_dispatcher w k)) s))"
    using pipe_step_dead a(3) by (auto simp: pipe_dispatcher_def)
qed

section \<open>The ends of a data pipe wake their waiters while they are open\<close>

definition has_new :: "'cb dpair \<Rightarrow> bool" where
  "has_new p \<longleftrightarrow> dp_has_new_data (cons_ep p) \<or> dp_control (cons_ep p) \<noteq> []"

definition shrinks :: "'cb dpair \<Rightarrow> 'cb dpair \<Rightarrow> data_pipe_end \<Rightarrow> bool" where
  "shrinks p q e \<longleftrightarrow> (case e of
       Producer \<Rightarrow> 0 < dp_room q \<longrightarrow> 0 < dp_room p
     | Consumer \<Rightarrow> (has_new q \<longrightarrow> has_new p) \<and> (dp_stream q \<noteq> [] \<longrightarrow> dp_stream p \<noteq> []))"

definition same_end :: "'cb dpair \<Rightarrow> 'cb dpair \<Rightarrow> data_pipe_end \<Rightarrow> bool" where
  "same_end p q e \<longleftrightarrow> dp_watchers (dp_ep q e) = dp_watchers (dp_ep p e) \<and>
     dp_local_closed (dp_ep q e) = dp_local_closed (dp_ep p e) \<and> dp_peer_closed (dp_ep q e) = dp_peer_closed (dp_ep p e)"

lemma ready_mono:
  "contains (satisfied st) (satisfied st') \<Longrightarrow> contains (satisfiable st') (satisfiable st) \<Longrightarrow> ready st' s \<Longrightarrow> ready st s"
  by (auto simp: ready_def is_satisfied_def is_unsatisfiable_def intro: contains_trans)

lemma ready_settled: "satisfied st = satisfiable st \<Longrightarrow> ready st s"
  by (auto simp: ready_def is_satisfied_def is_unsatisfiable_def)

lemma shrinks_not_ready:
  assumes "shrinks p q e" "same_end p q e" "ready (dpair_report q e) sg"
  shows "ready (dpair_report p e) sg"
proof (cases "dp_peer_closed (dp_ep p e)")
  case True
  then show ?thesis by (intro ready_settled) (cases e; simp add: dpair_report_def producer_signals_def consumer_signals_def signal_consts)
next
  case False
  have "contains (satisfied (dpair_report p e)) (satisfied (dpair_report q e)) \<and>
      contains (satisfiable (dpair_report q e)) (satisfiable (dpair_report p e))"
  proof (cases e)
    case Producer
    then show ?thesis using assms(1,2) False
      by (auto simp: dpair_report_def shrinks_def same_end_def producer_signals_def contains_def signal_consts)
  next
    case Consumer
    then show ?thesis using assms(1,2) False unfolding shrinks_def same_end_def
      by (cases "has_new p"; cases "has_new q"; cases "dp_stream p = []"; cases "dp_stream q = []")
        (simp_all add: dpair_report_def consumer_signals_def contains_def has_new_def [symmetric] signal_consts)
  qed
  then show ?thesis using assms(3) ready_mono by blast
qed

lemma latch_shrinks [simp]: "same_end (latch p) q e = same_end p q e" "same_end q (latch p) e = same_end q p e"
  "dp_room (latch p) = dp_room p" "has_new (latch p) = has_new p"
  by (cases e; auto simp: same_end_def latch_def dp_room_def has_new_def)+

lemma flush_shrinks [simp]: "same_end p (flush_producer q) e = same_end p q e" "same_end p (flush_consumer q) e = same_end p q e"
  "dp_room (flush_producer p) = dp_room p" "has_new (flush_producer p) = has_new p"
  "dp_room (flush_consumer p) = dp_room p" "has_new (flush_consumer p) = has_new p"
  by (cases e; auto simp: same_end_def dp_room_def has_new_def flush_consumer_latched)+

lemma accept_fields [simp]:
  "prod_ep (accept p xs) = prod_ep p" "dp_watchers (cons_ep (accept p xs)) = dp_watchers (cons_ep p)"
  "dp_local_closed (cons_ep (accept p xs)) = dp_local_closed (cons_ep p)"
  "dp_peer_closed (cons_ep (accept p xs)) = dp_peer_closed (cons_ep p)" "length (shm (accept p xs)) = length (shm p)"
  by (simp_all add: accept_def announce_written_def)

lemma announce_written_fields [simp]:
  "prod_ep (announce_written p n) = prod_ep p" "dp_watchers (cons_ep (announce_written p n)) = dp_watchers (cons_ep p)"
  "dp_local_closed (cons_ep (announce_written p n)) = dp_local_closed (cons_ep p)"
  "dp_peer_closed (cons_ep (announce_written p n)) = dp_peer_closed (cons_ep p)" "shm (announce_written p n) = shm p"
  by (simp_all add: announce_written_def)

lemma announce_read_fields [simp]:
  "cons_ep (announce_read p n) = cons_ep p" "dp_watchers (prod_ep (announce_read p n)) = dp_watchers (prod_ep p)"
  "dp_local_closed (prod_ep (announce_read p n)) = dp_local_closed (prod_ep p)"
  "dp_peer_closed (prod_ep (announce_read p n)) = dp_peer_closed (prod_ep p)" "shm (announce_read p n) = shm p"
  by (simp_all add: announce_read_def)

text \<open>Every call other than a close or a watch call leaves the registrations alone, and the end calls its watches back
  unless its report can only have shrunk.\<close>

definition heeded :: "'cb dpair \<Rightarrow> 'cb dpair \<times> 'cb notification list \<Rightarrow> data_pipe_end \<Rightarrow> bool" where
  "heeded p out e \<longleftrightarrow> (case out of (q, ns) \<Rightarrow> same_end p q e \<and>
     (shrinks p q e \<or> ns = collect_fired (dpair_report q e) (dp_watchers (dp_ep p e))))"

lemma same_end_refl [simp]: "same_end p p e"
  by (simp add: same_end_def)

lemma shrinks_refl [simp]: "shrinks p p e" "shrinks p (flush_producer p) e" "shrinks p (flush_consumer p) e"
  by (cases e; simp add: shrinks_def)+

lemma report_latch: "dpair_report (latch p) e = dpair_report p e"
  by (cases e) (auto simp: dpair_report_def dp_room_def)

lemma latch_sig [simp]: "dp_sig (latch p) e = dp_sig p e" "dp_local_closed (cons_ep (latch p)) = dp_local_closed (cons_ep p)"
  by (cases e; auto simp: dp_room_def latch_def)+

lemma report_sig: "dpair_report p e = dp_sig p e"
  by (cases e) (simp_all add: dpair_report_def)

lemma heeded_write:
  assumes "dp_inv p" "unat n \<le> length els"
  shows "heeded p (snd (dp_write p Producer els n aon)) e"
proof -
  let ?q = "flush_producer p" and ?k = "if aon then unat n else min (unat n) (dp_room p)"
  have r: "0 < dp_room (accept ?q (take ?k els)) \<Longrightarrow> 0 < dp_room p" if "?k \<le> dp_room p"
  proof -
    have "r_size (prod_range ?q) + length (take ?k els) \<le> length (shm ?q)"
      using that stream_bound [OF assms(1)] by (auto simp: dp_room_def split: if_splits)
    from accept_stream [OF flush_producer_inv [OF assms(1)] this]
    show "0 < dp_room (accept ?q (take ?k els)) \<Longrightarrow> 0 < dp_room p" by (simp add: dp_room_def)
  qed
  show ?thesis
  proof (cases e)
    case Producer
    then show ?thesis using r
      by (auto simp: dp_write_eq [OF assms refl refl] heeded_def shrinks_def Let_def same_end_def split: if_splits)
  next
    case Consumer
    then show ?thesis
      by (auto simp: dp_write_eq [OF assms refl refl] heeded_def Let_def same_end_def report_latch report_sig simp del: dp_sig.simps)
  qed
qed

lemma heeded_end_write:
  assumes "dp_inv p"
  shows "heeded p (snd (dp_end_write p Producer n)) e"
proof -
  let ?q = "p\<lparr>prod_ep := (prod_ep p)\<lparr>dp_two_phase := None\<rparr>\<rparr>"
  have q: "same_end p ?q e" "shrinks p ?q e" by (cases e; simp add: same_end_def shrinks_def dp_room_def has_new_def)+
  have "length (dp_stream p) \<le> length (dp_stream (announce_written ?q n))"
    by (simp add: length_dp_stream announce_written_def pend_def)
  then have r: "0 < dp_room (announce_written ?q n) \<Longrightarrow> 0 < dp_room p" by (simp add: dp_room_def)
  show ?thesis
  proof (cases e)
    case Producer
    then show ?thesis using q r
      by (auto simp: dp_end_write_eq [OF assms refl] heeded_def shrinks_def Let_def same_end_def split: option.split two_phase.split)
  next
    case Consumer
    then show ?thesis using q
      by (auto simp: dp_end_write_eq [OF assms refl] heeded_def Let_def same_end_def report_latch report_sig simp del: dp_sig.simps
          split: option.split two_phase.split)
  qed
qed

lemma heeded_end_read:
  assumes "dp_inv p"
  shows "heeded p (snd (dp_end_read p Consumer n)) e"
proof -
  let ?q = "p\<lparr>cons_ep := (cons_ep p)\<lparr>dp_two_phase := None\<rparr>\<rparr>"
  have q: "same_end p ?q e" "shrinks p ?q e" by (cases e; simp add: same_end_def shrinks_def dp_room_def has_new_def)+
  have "length (dp_stream (announce_read ?q n)) \<le> length (dp_stream p)"
    by (simp add: length_dp_stream announce_read_def)
  then have r: "dp_stream (announce_read ?q n) \<noteq> [] \<Longrightarrow> dp_stream p \<noteq> []" by auto
  show ?thesis
  proof (cases e)
    case Consumer
    then show ?thesis using q r
      by (auto simp: dp_end_read_eq(1) [OF assms refl] heeded_def shrinks_def Let_def same_end_def has_new_def split: option.split two_phase.split)
  next
    case Producer
    then show ?thesis using q
      by (auto simp: dp_end_read_eq(1) [OF assms refl] heeded_def Let_def same_end_def report_sig simp del: dp_sig.simps
          split: option.split two_phase.split)
  qed
qed

lemma deliver_fields [simp]: "cons_ep (deliver p k) = cons_ep p" "dp_watchers (prod_ep (deliver p k)) = dp_watchers (prod_ep p)"
  "dp_local_closed (prod_ep (deliver p k)) = dp_local_closed (prod_ep p)"
  "dp_peer_closed (prod_ep (deliver p k)) = dp_peer_closed (prod_ep p)"
  by (simp_all add: deliver_def)

lemma heeded_read:
  assumes "dp_inv p" "buffer_ok els n f"
  shows "heeded p (snd (dp_read p Consumer els n f)) e"
proof -
  let ?q = "(flush_consumer p)\<lparr>cons_ep := (cons_ep (flush_consumer p))\<lparr>dp_has_new_data := False\<rparr>\<rparr>"
  let ?k = "min (unat n) (length (dp_stream p))"
  have q: "same_end p ?q e" "shrinks p ?q e" by (cases e; simp add: same_end_def shrinks_def dp_room_def has_new_def)+
  have i: "dp_inv ?q" by (rule set_two_phase_inv(4) [OF flush_consumer_inv [OF assms(1)]])
  have "dp_stream (deliver ?q ?k) = drop ?k (dp_stream ?q)" by (rule deliver_stream [OF i]) simp
  then have r: "dp_stream (deliver ?q ?k) \<noteq> [] \<Longrightarrow> dp_stream p \<noteq> []" by auto
  have "heeded p (snd (read_result ?q k els f)) e" if r: "dp_stream (deliver ?q k) \<noteq> [] \<Longrightarrow> dp_stream p \<noteq> []" for k
  proof (cases e)
    case Consumer
    then show ?thesis using q r
      by (cases "f_peek f") (simp_all add: heeded_def shrinks_def read_result_def Let_def same_end_def has_new_def)
  next
    case Producer
    then show ?thesis using q
      by (cases "f_peek f"; cases "k = 0")
        (simp_all add: heeded_def read_result_def Let_def same_end_def report_sig deliver_def del: dp_sig.simps)
  qed
  from this [of ?k] r have "heeded p (snd (read_result ?q ?k els f)) e" by blast
  moreover have "heeded p (p, []) e" "heeded p (flush_consumer p, []) e" "heeded p (?q, []) e"
    using q by (simp_all add: heeded_def)
  ultimately show ?thesis unfolding dp_read_eq [OF assms refl refl] by (simp split: if_split)
qed

lemma heeded_begin:
  assumes "dp_inv p"
  shows "heeded p (snd (dp_begin_write p Producer)) e" "heeded p (snd (dp_begin_read p Consumer)) e"
proof -
  have "heeded p (flush_producer p, []) e" "heeded p (flush_consumer p, []) e"
    "heeded p ((flush_producer p)\<lparr>prod_ep := (prod_ep (flush_producer p))\<lparr>dp_two_phase := tp\<rparr>\<rparr>, []) e"
    "heeded p ((flush_consumer p)\<lparr>cons_ep := (cons_ep (flush_consumer p))\<lparr>dp_two_phase := tp, dp_has_new_data := False\<rparr>\<rparr>, []) e" for tp
    by (cases e; simp add: heeded_def same_end_def shrinks_def dp_room_def has_new_def flush_consumer_latched [unfolded has_new_def])+
  then show "heeded p (snd (dp_begin_write p Producer)) e" "heeded p (snd (dp_begin_read p Consumer)) e"
    unfolding dp_begin_write_eq [OF assms refl refl] dp_begin_read_eq [OF assms refl refl] by (simp_all split: if_split)
qed

definition dp_fair :: "data_pipe_end \<Rightarrow> u64 \<Rightarrow> u64 dpair \<Rightarrow> u64 dp_op \<Rightarrow> bool" where
  "dp_fair e c p x \<longleftrightarrow> dp_op_ok x \<and> x \<noteq> DClose e \<and>
     (case x of DCancel s j \<Rightarrow> list_all (\<lambda>w. w_id w = j \<longrightarrow> w_callback w \<noteq> c) (dp_watchers (dp_ep p s)) | _ \<Rightarrow> True)"

lemma heeded_store:
  assumes "dp_inv p"
  shows "heeded p (dp_store p xs, []) e"
proof -
  have "dp_room (dp_store p xs) = dp_room p"
    using dp_store_inv(2) [OF assms, of xs] dp_step_size [OF assms, of "DStore xs"] by (simp add: dp_room_def same_size_def)
  moreover have "prod_ep (dp_store p xs) = prod_ep p" "cons_ep (dp_store p xs) = cons_ep p"
    by (auto simp: dp_store_def split: option.split two_phase.split)
  ultimately show ?thesis
    using dp_store_inv(2) [OF assms, of xs] by (cases e) (simp_all add: heeded_def same_end_def shrinks_def has_new_def)
qed

lemma heeded_query:
  assumes "dp_inv p"
  shows "heeded p (snd (dp_query_signals p s), []) e"
  by (cases s; cases e; simp add: dp_query_signals_eq [OF assms] Let_def heeded_def shrinks_def)

lemma dp_step_wakes:
  assumes inv: "dp_inv p" and fair: "dp_fair e c p x" and live: "(i, sg, c) \<in> set (dpair_live p e)"
    and st: "dp_step p x = (q, ns)"
  shows "(\<exists>n \<in> set ns. n_callback n = c) \<or>
    (i, sg, c) \<in> set (dpair_live q e) \<and> (ready (dpair_report q e) sg \<longrightarrow> ready (dpair_report p e) sg)"
proof -
  have fires: "(\<exists>n \<in> set ns. n_callback n = c) \<or> \<not> ready (dpair_report q e) sg"
    if "set (collect_fired (dpair_report q e) (dp_watchers (dp_ep p e))) \<subseteq> set ns"
    using fired_member [of i sg c "dp_watchers (dp_ep p e)" "dpair_report q e"] live that
    by (fastforce simp: dpair_live_def)
  have h: ?thesis if "heeded p (dp_step p x) e"
    using that st live shrinks_not_ready [of p q e sg] fires
    by (auto simp: heeded_def dpair_live_def same_end_def)
  show ?thesis
  proof (cases x)
    case (DClose s)
    then have s: "s = dp_peer e" using fair by (cases s; cases e) (auto simp: dp_fair_def)
    show ?thesis
    proof (cases "dp_local_closed (dp_ep p s)")
      case True
      then show ?thesis using st DClose live by (simp add: dp_close_eq(1) [OF inv refl])
    next
      case False
      then show ?thesis using st DClose live s fires
        by (cases e) (auto simp: dp_close_eq(1) [OF inv refl] dpair_live_def report_sig simp del: dp_sig.simps)
    qed
  next
    case (DRegister s sig cb)
    then have r: "dp_register_watch p s sig cb = (fst (dp_register_watch p s sig cb), q)" using st by auto
    show ?thesis
      using dp_register_watch_fields [OF inv r] live by (cases "e = s") (auto dest: sym)
  next
    case (DCancel s j)
    then show ?thesis using st live fair dp_cancel_watch_fields(1) [OF inv, of s j e] dp_invD(1) [OF inv]
        mark_cancelled_keeps [of i sg c "dp_watchers (dp_ep p e)" j]
      by (cases s; cases e) (auto simp: dpair_live_def dp_fair_def dp_cancel_watch_def Let_def)
  qed (use h inv fair heeded_write [OF inv] heeded_end_write [OF inv] heeded_read [OF inv] heeded_end_read [OF inv]
      heeded_store [OF inv] heeded_query [OF inv] heeded_begin [OF inv] in \<open>auto simp: dp_fair_def\<close>)
qed

text \<open>One end of a data pipe as a dispatcher of its own.\<close>

definition dpair_end_dispatcher :: "data_pipe_end \<Rightarrow> (unit, u64 dpair) dispatcher_ops" where
  "dpair_end_dispatcher e = \<lparr>d_query = \<lambda>p _. dpair_query p e, d_start = \<lambda>p _. dp_register_watch p e,
     d_cancel = \<lambda>p _. dp_cancel_watch p e\<rparr>"

definition dpair_end_open :: "data_pipe_end \<Rightarrow> u64 dpair \<Rightarrow> bool" where
  "dpair_end_open e p \<longleftrightarrow> dp_inv p \<and> \<not> dp_local_closed (dp_ep p e)"

lemma dp_step_open:
  assumes "dpair_end_open e p" "dp_fair e c p x"
  shows "dpair_end_open e (fst (dp_step p x))"
proof -
  have inv: "dp_inv p" using assms(1) by (simp add: dpair_end_open_def)
  have h: "\<not> dp_local_closed (dp_ep q e)" if "heeded p (q, ns) e" for q ns
    using that assms(1) by (simp add: heeded_def same_end_def dpair_end_open_def)
  have "\<not> dp_local_closed (dp_ep (fst (dp_step p x)) e)"
  proof (cases x)
    case (DClose s)
    then have "s = dp_peer e" using assms(2) by (cases s; cases e) (auto simp: dp_fair_def)
    then show ?thesis using assms(1) DClose
      by (cases e) (auto simp: dp_close_eq(1) [OF inv refl] dpair_end_open_def)
  next
    case (DRegister s sig cb)
    then show ?thesis using assms(1)
      by (cases s; cases e) (auto simp: dpair_end_open_def dp_register_watch_def Let_def)
  next
    case (DCancel s j)
    then show ?thesis using assms(1)
      by (cases s; cases e) (auto simp: dpair_end_open_def dp_cancel_watch_def Let_def)
  qed (use assms(2) heeded_write [OF inv] heeded_end_write [OF inv] heeded_read [OF inv] heeded_end_read [OF inv]
      heeded_store [OF inv] heeded_query [OF inv] heeded_begin [OF inv] in
      \<open>auto simp: dp_fair_def intro!: h [where ns = "snd (dp_step p x)"]\<close>)
  then show ?thesis using dp_step_inv [OF inv, of x] assms(2) by (simp add: dpair_end_open_def dp_fair_def)
qed

interpretation dpair_end_wakes: waking "dpair_end_dispatcher e" "dpair_end_open e" "\<lambda>p _. dpair_live p e" "\<lambda>p _. dpair_ids p e"
  dp_step "dp_fair e" "\<lambda>_ _. False" for e
proof unfold_locales
  fix w k and k' :: unit
  assume o: "dpair_end_open e w"
  then have inv: "dp_inv w" by (simp add: dpair_end_open_def)
  note q = dpair_disp.query_law [OF inv, of e e, simplified]
  have "dp_local_closed (dp_ep (snd (dpair_query w e)) e) = dp_local_closed (dp_ep w e)"
    by (cases e) (simp_all add: dpair_query_eq [OF inv])
  with q o show "dpair_end_open e (snd (d_query (dpair_end_dispatcher e) w k)) \<and>
      (\<lambda>_. dpair_live (snd (d_query (dpair_end_dispatcher e) w k)) e) = (\<lambda>_. dpair_live w e) \<and>
      fst (d_query (dpair_end_dispatcher e) (snd (d_query (dpair_end_dispatcher e) w k)) k') = fst (d_query (dpair_end_dispatcher e) w k')"
    by (auto simp: dpair_end_dispatcher_def dpair_end_open_def dpair_dispatcher_def)
next
  fix w s c i w' and k k' :: unit
  assume o: "dpair_end_open e w" and st: "d_start (dpair_end_dispatcher e) w k s c = (i, w')"
  then have inv: "dp_inv w" and r: "dp_register_watch w e s c = (i, w')" by (simp_all add: dpair_end_open_def dpair_end_dispatcher_def)
  have "dp_inv w'" using dp_watch_inv(1) [OF inv, of e s c] r by simp
  moreover have "dp_local_closed (dp_ep w' e) = dp_local_closed (dp_ep w e)"
    using r by (cases e) (auto simp: dp_register_watch_def Let_def split: if_splits)
  ultimately show "dpair_end_open e w' \<and> dpair_live w' e \<in> {dpair_live w e, dpair_live w e @ [(i, s, c)]} \<and>
      (k' \<noteq> k \<longrightarrow> dpair_live w' e = dpair_live w e) \<and>
      fst (d_query (dpair_end_dispatcher e) w' k') = fst (d_query (dpair_end_dispatcher e) w k')"
    using dp_register_watch_fields [OF inv r] o
    by (auto simp: dpair_end_open_def dpair_end_dispatcher_def dpair_query_eq)
next
  fix w i and k k' :: unit
  assume o: "dpair_end_open e w"
  then have inv: "dp_inv w" by (simp add: dpair_end_open_def)
  have "dp_inv (dp_cancel_watch w e i)" using dp_watch_inv(2) [OF inv] .
  moreover have "dp_local_closed (dp_ep (dp_cancel_watch w e i) e) = dp_local_closed (dp_ep w e)"
    by (cases e) (auto simp: dp_cancel_watch_def Let_def)
  ultimately show "dpair_end_open e (d_cancel (dpair_end_dispatcher e) w k i) \<and>
      set (dpair_live (d_cancel (dpair_end_dispatcher e) w k i) e) \<subseteq> set (dpair_live w e) \<and>
      (distinct (dpair_ids w e) \<longrightarrow> i \<notin> fst ` set (dpair_live (d_cancel (dpair_end_dispatcher e) w k i) e)) \<and>
      fst (d_query (dpair_end_dispatcher e) (d_cancel (dpair_end_dispatcher e) w k i) k') = fst (d_query (dpair_end_dispatcher e) w k')"
    using dp_cancel_watch_fields [OF inv, of e i] o
    by (auto simp: dpair_end_open_def dpair_end_dispatcher_def dpair_query_eq)
next
  fix w s c i w' and k :: unit
  assume "dpair_end_open e w" "d_start (dpair_end_dispatcher e) w k s c = (i, w')"
  then show "(i, s, c) \<in> set (dpair_live w' e) \<or> False"
    using dp_invD(1) [of w]
    by (cases e) (auto simp: dpair_end_open_def dpair_end_dispatcher_def dp_register_watch_def Let_def dpair_live_def new_watcher_def)
next
  fix w c x w' ns i s and k :: unit
  assume a: "dpair_end_open e w" "dp_fair e c w x" "dp_step w x = (w', ns)"
  have inv: "dp_inv w" "dp_inv w'" using a(1) dp_step_open [OF a(1,2)] a(3) by (simp_all add: dpair_end_open_def)
  show "dpair_end_open e w' \<and> (False \<longrightarrow> False) \<and> ((i, s, c) \<in> set (dpair_live w e) \<longrightarrow>
      (\<exists>n \<in> set ns. n_callback n = c) \<or> (i, s, c) \<in> set (dpair_live w' e) \<and>
      (ready (fst (d_query (dpair_end_dispatcher e) w' k)) s \<longrightarrow> ready (fst (d_query (dpair_end_dispatcher e) w k)) s))"
    using dp_step_wakes [OF inv(1) a(2) _ a(3)] dp_step_open [OF a(1,2)] a(3) inv
    by (auto simp: dpair_end_dispatcher_def dpair_query_eq)
qed simp_all

section \<open>Properties\<close>

lemma reaches_events:
  assumes "wait_events D op c rqs s es = Some s'" "reaches D op fair c rqs s0 s" "\<And>x w. Call x \<in> set es \<Longrightarrow> fair c w x"
  shows "reaches D op fair c rqs s0 s'"
  using assms
proof (induction es arbitrary: s)
  case (Cons e es)
  obtain t where t: "wait_event D op c rqs s e = Some t" "wait_events D op c rqs t es = Some s'"
    using Cons.prems(1) by (auto simp: bind_eq_Some_conv)
  have "reaches D op fair c rqs s0 t"
    by (rule event [OF Cons.prems(2) _ t(1)]) (use Cons.prems(3) in \<open>auto split: waiter_event.split\<close>)
  then show ?case using Cons.IH [OF t(2)] Cons.prems(3) by simp
qed simp

text \<open>C14: A wait on a message pipe by one thread ends when it should.  Wherever the thread is in the loop, and whatever calls, callbacks
  and spurious wake-ups have interleaved with it: once every callback handed out has run and the watched signals
  are satisfied or can no longer be, the thread returns within three steps of its own, with the state it finds or with
  FailedPrecondition, unless it had already decided.\<close>
theorem single_waiter_returns:
  assumes "pipe_inv p" "reaches pipe_dispatcher pipe_step pipe_fair c rqs (waiter_new p 1) s"
    and "wt_threads s = [pc]" "wt_callbacks s = []"
    and "verdict (query_signals (wt_world s) (rq_dispatcher (rqs 0))) (rq_signals (rqs 0)) = Some r"
  shows "\<exists>n s' r'. n \<le> 3 \<and> wait_events pipe_dispatcher pipe_step c rqs s (replicate n (Run 0)) = Some s' \<and>
    wt_threads s' = [Returned r'] \<and> r' = (case pc of Leaving _ (Some x) \<Rightarrow> x | Returned x \<Rightarrow> x | _ \<Rightarrow> r)"
proof -
  have v: "verdict (fst (d_query pipe_dispatcher (wt_world s) (rq_dispatcher (rqs 0)))) (rq_signals (rqs 0)) = Some r"
    using assms(5) by (simp add: pipe_dispatcher_def)
  from pipe_wakes.returns_alone [where rqs = rqs, OF pipe_wakes.reaches_alert [OF assms(2,1)] assms(4,3) v]
  show ?thesis unfolding pipe_wakes.returns_in_def by blast
qed

definition demo_request :: "nat \<Rightarrow> pipe_side wait_request" where
  "demo_request t = \<lparr>rq_dispatcher = SideB, rq_signals = READABLE, rq_deadline = None\<rparr>"

text \<open>A message arrives at side B while \<open>pcs\<close> wait there on watches 1, 2, ...\<close>

lemmas wait_evals = demo_request_def waiter_new_def pipe_dispatcher_def query_signals_def signals_of_def
  pipe_create_def endpoint_new_def register_watch_def new_watcher_def cancel_registered_watch_def pipe_write_def collect_notifications_def
  collect_fired_def watcher_fires_def verdict_def is_satisfied_def is_unsatisfiable_def contains_def signal_consts
  expired_def notified_def message_empty_def

theorem single_waiter_returns_witness:
  "\<exists>s n s' st. reaches pipe_dispatcher pipe_step pipe_fair 7 demo_request (waiter_new (pipe_create 1) 1) s \<and>
    wt_threads s = [Notified 1] \<and> n \<le> 3 \<and>
    wait_events pipe_dispatcher pipe_step 7 demo_request s (replicate n (Run 0)) = Some s' \<and> wt_threads s' = [Returned (Ok st)]"
proof -
  let ?es = "[Run 0, Run 0, Run 0, Run 0, Call (PWrite SideA message_empty), Callback 0, Callback 0]"
  have "\<exists>s r. wait_events pipe_dispatcher pipe_step 7 demo_request (waiter_new (pipe_create 1) 1) ?es = Some s \<and>
      wt_threads s = [Notified 1] \<and> wt_callbacks s = [] \<and>
      verdict (query_signals (wt_world s) SideB) READABLE = Some (Ok r)"
    by (simp add: wait_evals)
  then obtain s r where s: "wait_events pipe_dispatcher pipe_step 7 demo_request (waiter_new (pipe_create 1) 1) ?es = Some s"
    "wt_threads s = [Notified 1]" "wt_callbacks s = []" "verdict (query_signals (wt_world s) SideB) READABLE = Some (Ok r)" by blast
  have "reaches pipe_dispatcher pipe_step pipe_fair 7 demo_request (waiter_new (pipe_create 1) 1) s"
    by (rule reaches_events [OF s(1) start]) (auto simp: pipe_fair_def)
  then show ?thesis
    using single_waiter_returns [OF pipe_create_inv _ s(2,3), of 7 demo_request 1 "Ok r"] s(2,4)
    by (auto simp: demo_request_def)
qed

text \<open>C29: Two threads that share a waiter can lose a wake-up.  Both register; one message arrives and both callbacks run; the
  first thread consumes the only flag, and the second one parks although its signals are satisfied and its
  watch was called back.  Nothing but a spurious wake-up or another call on the pipe ever moves it again.\<close>
theorem shared_waiter_loses_wakeup:
  "\<exists>es s st. wait_events pipe_dispatcher pipe_step 7 demo_request (waiter_new (pipe_create 1) 2) es = Some s \<and>
     wt_threads s = [Returned (Ok st), Parked 2] \<and> is_satisfied (query_signals (wt_world s) SideB) READABLE \<and>
     wt_callbacks s = [] \<and>
     (\<forall>e. case wait_event pipe_dispatcher pipe_step 7 demo_request s e of
             None \<Rightarrow> True
           | Some s' \<Rightarrow> (case e of
               Call _ \<Rightarrow> True
             | Spurious t \<Rightarrow> t = 1 \<or> s' = s
             | _ \<Rightarrow> e = Tick \<and> wt_threads s' = wt_threads s))"
proof -
  let ?es = "[Run 0, Run 0, Run 0, Run 1, Run 1, Run 1, Call (PWrite SideA message_empty),
    Callback 0, Callback 1, Callback 0, Callback 0, Run 0, Run 0, Run 0, Run 1]"
  have "\<exists>s st. wait_events pipe_dispatcher pipe_step 7 demo_request (waiter_new (pipe_create 1) 2) ?es = Some s \<and>
     wt_threads s = [Returned (Ok st), Parked 2] \<and> is_satisfied (query_signals (wt_world s) SideB) READABLE \<and> wt_callbacks s = []"
    by (simp add: wait_evals numeral_2_eq_2)
  then obtain s st where s: "wait_events pipe_dispatcher pipe_step 7 demo_request (waiter_new (pipe_create 1) 2) ?es = Some s"
    "wt_threads s = [Returned (Ok st), Parked 2]" "is_satisfied (query_signals (wt_world s) SideB) READABLE" "wt_callbacks s = []"
    by blast
  have "case e of Call _ \<Rightarrow> True | Spurious t \<Rightarrow> t = 1 \<or> s' = s | _ \<Rightarrow> e = Tick \<and> wt_threads s' = wt_threads s"
    if "wait_event pipe_dispatcher pipe_step 7 demo_request s e = Some s'" for e s'
    using that s(2,4) by (cases e) (auto simp: less_Suc_eq demo_request_def expired_def notified_def split: if_splits)
  then show ?thesis using s by (intro exI [of _ ?es] exI [of _ s] exI [of _ st]) (auto split: option.split)
qed

text \<open>A result of a wait is justified, whatever dispatcher it is on and however many threads share the waiter: \<open>Ok\<close> comes
  with a state that satisfies the signals, and every error is FailedPrecondition or, once the deadline has passed,
  DeadlineExceeded; without a deadline a wait never reports one.\<close>
theorem wait_results_justified:
  assumes "reaches D op fair c rqs (waiter_new w n) s" "t < n" "wt_threads s ! t = Returned r"
  shows "(\<exists>st. r = Ok st \<and> is_satisfied st (rq_signals (rqs t))) \<or> r = Err FailedPrecondition \<or>
    r = Err DeadlineExceeded \<and> (\<exists>dl. rq_deadline (rqs t) = Some dl \<and> dl \<le> wt_clock s)"
proof -
  have "length (wt_threads s) = n \<and> (\<forall>t < n. pc_justified (rqs t) (wt_clock s) (wt_threads s ! t))"
    using assms(1)
  proof induction
    case start
    then show ?case by (simp add: waiter_new_def pc_justified_def)
  next
    case (event s e s')
    then show ?case using event_justified [OF event(3)] by simp
  qed
  then have "result_justified (rqs t) (wt_clock s) r" using assms(2,3) by (auto simp: pc_justified_def)
  then show ?thesis
    by (auto simp: result_justified_def expired_def split: outcome.splits option.splits)
qed

theorem wait_results_justified_witness:
  "\<exists>s. reaches pipe_dispatcher pipe_step pipe_fair 7 (\<lambda>t. (demo_request t)\<lparr>rq_deadline := Some 1\<rparr>) (waiter_new (pipe_create 1) 1) s \<and>
     wt_threads s = [Returned (Err DeadlineExceeded)] \<and> 1 \<le> wt_clock s"
proof -
  let ?rqs = "\<lambda>t. (demo_request t)\<lparr>rq_deadline := Some 1\<rparr>"
  let ?es = "[Run 0, Run 0, Run 0, Run 0, Tick, Run 0, Run 0, Run 0]"
  have "\<exists>s. wait_events pipe_dispatcher pipe_step 7 ?rqs (waiter_new (pipe_create 1) 1) ?es = Some s \<and>
      wt_threads s = [Returned (Err DeadlineExceeded)]"
    by (simp add: wait_evals)
  then obtain s where s: "wait_events pipe_dispatcher pipe_step 7 ?rqs (waiter_new (pipe_create 1) 1) ?es = Some s"
    "wt_threads s = [Returned (Err DeadlineExceeded)]" by blast
  have r: "reaches pipe_dispatcher pipe_step pipe_fair 7 ?rqs (waiter_new (pipe_create 1) 1) s"
    by (rule reaches_events [OF s(1) start]) (auto simp: pipe_fair_def)
  from wait_results_justified [OF r, of 0 "Err DeadlineExceeded"] s(2)
  have "1 \<le> wt_clock s" by (simp add: demo_request_def)
  with r s(2) show ?thesis by blast
qed

text \<open>C28: A wait on an open end of a data pipe ends when it should, in the same sense: the data a wait was for, or the closing
  of the other end, always reaches the waiting thread.\<close>
theorem data_pipe_waiter_returns:
  assumes "dp_inv p" "\<not> dp_local_closed (dp_ep p e)"
    and "reaches (dpair_end_dispatcher e) dp_step (dp_fair e) c rqs (waiter_new p 1) s"
    and "wt_threads s = [pc]" "wt_callbacks s = []"
    and "verdict (dpair_report (wt_world s) e) (rq_signals (rqs 0)) = Some r"
  shows "\<exists>n s' r'. n \<le> 3 \<and> wait_events (dpair_end_dispatcher e) dp_step c rqs s (replicate n (Run 0)) = Some s' \<and>
    wt_threads s' = [Returned r'] \<and> r' = (case pc of Leaving _ (Some x) \<Rightarrow> x | Returned x \<Rightarrow> x | _ \<Rightarrow> r)"
proof -
  have a: "dpair_end_wakes.alert e c (rqs 0) s"
    by (rule dpair_end_wakes.reaches_alert [OF assms(3)]) (use assms(1,2) in \<open>simp add: dpair_end_open_def\<close>)
  then have "dp_inv (wt_world s)" by (simp add: dpair_end_wakes.alert_def dpair_end_open_def)
  then have v: "verdict (fst (d_query (dpair_end_dispatcher e) (wt_world s) (rq_dispatcher (rqs 0)))) (rq_signals (rqs 0)) = Some r"
    using assms(6) by (simp add: dpair_end_dispatcher_def dpair_query_eq)
  from dpair_end_wakes.returns_alone [where rqs = rqs, OF a assms(5,4) v]
  show ?thesis unfolding dpair_end_wakes.returns_in_def by blast
qed

definition demo_data_request :: "nat \<Rightarrow> unit wait_request" where
  "demo_data_request t = \<lparr>rq_dispatcher = (), rq_signals = READABLE, rq_deadline = None\<rparr>"

lemma demo_query: "dp_inv p \<Longrightarrow> d_query (dpair_end_dispatcher Consumer) p u = (dpair_report p Consumer, latch (flush_consumer p))"
  by (simp add: dpair_end_dispatcher_def dpair_query_eq)

theorem data_pipe_waiter_returns_witness:
  "\<exists>s n s' st. reaches (dpair_end_dispatcher Consumer) dp_step (dp_fair Consumer) 7 demo_data_request (waiter_new demo_pair_for_traps 1) s \<and>
    wt_threads s = [Notified 1] \<and> n \<le> 3 \<and>
    wait_events (dpair_end_dispatcher Consumer) dp_step 7 demo_data_request s (replicate n (Run 0)) = Some s' \<and>
    wt_threads s' = [Returned st]"
proof -
  let ?D = "dpair_end_dispatcher Consumer" and ?p = demo_pair_for_traps
  let ?es = "[Run 0, Run 0, Run 0, Run 0, Call (DClose Producer), Callback 0, Callback 0]"
  have "\<exists>s. wait_events ?D dp_step 7 demo_data_request (waiter_new ?p 1) ?es = Some s \<and>
      wt_threads s = [Notified 1] \<and> wt_callbacks s = [] \<and> dp_peer_closed (cons_ep (wt_world s))"
    by (simp add: demo_data_request_def waiter_new_def dpair_end_dispatcher_def dpair_query_def dp_query_signals_def with_lock_def
        demo_pair_for_traps_def dp_endpoint_new_def flush_locked_def dp_signals_of_def dp_register_watch_def dp_cancel_watch_def
        new_watcher_def dp_close_def collect_watchers_def collect_fired_def watcher_fires_def cancel_all_def consumer_ring_def
        set_consumer_def data_size_def range_empty_def Let_def verdict_def is_satisfied_def is_unsatisfiable_def contains_def
        signal_consts expired_def notified_def)
  then obtain s where s: "wait_events ?D dp_step 7 demo_data_request (waiter_new ?p 1) ?es = Some s"
    "wt_threads s = [Notified 1]" "wt_callbacks s = []" "dp_peer_closed (cons_ep (wt_world s))" by blast
  have r: "reaches ?D dp_step (dp_fair Consumer) 7 demo_data_request (waiter_new ?p 1) s"
    by (rule reaches_events [OF s(1) start]) (auto simp: dp_fair_def)
  have "ready (dpair_report (wt_world s) Consumer) READABLE"
    using s(4) by (intro ready_settled) (simp add: dpair_report_def consumer_signals_def signal_consts)
  then have "\<exists>v. verdict (dpair_report (wt_world s) Consumer) (rq_signals (demo_data_request 0)) = Some v"
    by (auto simp: demo_data_request_def verdict_def ready_def)
  then obtain v where v: "verdict (dpair_report (wt_world s) Consumer) (rq_signals (demo_data_request 0)) = Some v" by blast
  have "\<not> dp_local_closed (dp_ep ?p Consumer)" by (simp add: demo_pair_for_traps_def dp_endpoint_new_def)
  from data_pipe_waiter_returns [OF demo_pair_for_traps_inv this r s(2,3) v] r s(2) show ?thesis by blast
qed

text \<open>The callbacks that a data pipe call hands out belong to live watches, and no call but a registration adds one.\<close>

definition callers_of :: "'cb watcher list \<Rightarrow> 'cb set" where
  "callers_of ws = w_callback ` {w \<in> set ws. \<not> w_cancelled w}"

definition dp_callers :: "'cb dpair \<Rightarrow> 'cb set" where
  "dp_callers p = callers_of (dp_watchers (prod_ep p)) \<union> callers_of (dp_watchers (cons_ep p))"

lemma callers_of_simps [simp]:
  "callers_of (ws @ vs) = callers_of ws \<union> callers_of vs"
  "callers_of [new_watcher i sg c] = {c}"
  "callers_of (fst (cancel_all ws)) = {}"
  by (auto simp: callers_of_def new_watcher_def cancel_all_def)

lemma callers_of_bounds:
  "n \<in> set (collect_fired st ws) \<Longrightarrow> n_callback n \<in> callers_of ws"
  "n \<in> set (snd (cancel_all ws)) \<Longrightarrow> n_callback n \<in> callers_of ws"
  "x \<in> callers_of (mark_cancelled j ws) \<Longrightarrow> x \<in> callers_of ws"
proof -
  show "x \<in> callers_of (mark_cancelled j ws) \<Longrightarrow> x \<in> callers_of ws" by (induction ws) (auto simp: callers_of_def split: if_splits)
qed (auto simp: callers_of_def collect_fired_def watcher_fires_def cancel_all_def)

definition cautious :: "'cb dpair \<Rightarrow> 'cb dpair \<times> 'cb notification list \<Rightarrow> bool" where
  "cautious p out \<longleftrightarrow> n_callback ` set (snd out) \<subseteq> dp_callers p"

lemma cautious_rules [intro]: "cautious p (q, [])"
  "dp_watchers (dp_ep p e) = ws \<Longrightarrow> cautious p (q, collect_fired st ws)"
  by (cases e; auto simp: cautious_def dp_callers_def dest: callers_of_bounds(1))+

lemma cautious_calls:
  assumes "dp_inv p"
  shows "unat n \<le> length els \<Longrightarrow> cautious p (snd (dp_write p Producer els n aon))"
    "cautious p (snd (dp_end_write p Producer n))" "cautious p (snd (dp_end_read p Consumer n))"
    "buffer_ok bs n f \<Longrightarrow> cautious p (snd (dp_read p Consumer bs n f))"
    "cautious p (snd (dp_begin_write p Producer))" "cautious p (snd (dp_begin_read p Consumer))"
  subgoal using cautious_rules(2) [of p Consumer] by (simp add: dp_write_eq [OF assms _ refl refl] Let_def cautious_rules(1))
  subgoal using cautious_rules(2) [of p Consumer] by (simp add: dp_end_write_eq [OF assms refl] Let_def cautious_rules(1) split: option.split two_phase.split)
  subgoal using cautious_rules(2) [of p Producer] by (simp add: dp_end_read_eq(1) [OF assms refl] Let_def cautious_rules(1) split: option.split two_phase.split)
  subgoal using cautious_rules(2) [of p Producer] by (simp add: dp_read_eq [OF assms _ refl refl] read_result_def Let_def cautious_rules(1))
  subgoal by (simp add: dp_begin_write_eq [OF assms refl refl] cautious_rules(1))
  subgoal by (simp add: dp_begin_read_eq [OF assms refl refl] cautious_rules(1))
  done

fun registers :: "'cb dp_op \<Rightarrow> 'cb set" where
  "registers (DRegister s sg cb) = {cb}"
| "registers _ = {}"

lemma heeded_callers:
  assumes "\<And>e. heeded p (q, ns) e"
  shows "dp_callers q = dp_callers p"
  using assms [of Producer] assms [of Consumer] by (simp add: heeded_def same_end_def dp_callers_def)

lemma dp_step_callers:
  assumes inv: "dp_inv p" and ok: "dp_op_ok x"
  shows "dp_callers (fst (dp_step p x)) \<subseteq> dp_callers p \<union> registers x \<and> cautious p (dp_step p x)"
proof -
  have h: "dp_callers (fst out) \<subseteq> dp_callers p \<union> registers x" if "\<And>e. heeded p out e" for out
    using heeded_callers [of p "fst out" "snd out"] that by simp
  show ?thesis
  proof (cases x)
    case (DClose s)
    then show ?thesis
      by (cases s) (auto simp: dp_close_eq(1) [OF inv refl] dp_callers_def cautious_def simp del: dp_sig.simps
          dest: callers_of_bounds(1,2))
  next
    case (DRegister s sg cb)
    then show ?thesis using cautious_rules(1)
      by (cases s) (auto simp: dp_callers_def dp_register_watch_def Let_def)
  next
    case (DStore xs)
    then show ?thesis using cautious_rules(1) h [of "(dp_store p xs, [])"] heeded_store [OF inv] by simp
  next
    case (DQuery s)
    then show ?thesis using cautious_rules(1) h [of "(snd (dp_query_signals p s), [])"] heeded_query [OF inv] by simp
  next
    case (DCancel s j)
    then show ?thesis using cautious_rules(1)
      by (cases s) (auto simp: dp_callers_def dp_cancel_watch_def Let_def dest: callers_of_bounds(3))
  qed (use ok cautious_calls [OF inv] cautious_rules(1) h heeded_write [OF inv] heeded_end_write [OF inv]
      heeded_read [OF inv] heeded_end_read [OF inv] heeded_begin [OF inv] in \<open>simp_all\<close>)
qed

lemma deaf_calls:
  assumes "dp_inv (wt_world s)" "c \<notin> dp_callers (wt_world s)" "wt_callbacks s = []"
    and "\<forall>x \<in> set xs. dp_op_ok x \<and> c \<notin> registers x"
  shows "\<exists>s'. wait_events D dp_step c rqs s (map Call xs) = Some s' \<and> wt_threads s' = wt_threads s \<and> wt_callbacks s' = []"
  using assms
proof (induction xs arbitrary: s)
  case (Cons x xs)
  obtain w ns where o: "dp_step (wt_world s) x = (w, ns)" by fastforce
  have "filter (\<lambda>n. n_callback n = c) ns = []"
    using dp_step_callers [OF Cons.prems(1), of x] Cons.prems(2,4) o by (auto simp: filter_empty_conv cautious_def)
  then have e: "wait_event D dp_step c rqs s (Call x) = Some (s\<lparr>wt_world := w\<rparr>)" using o Cons.prems(3) by simp
  have "c \<notin> dp_callers w" using dp_step_callers [OF Cons.prems(1), of x] Cons.prems(2,4) o by auto
  moreover have "dp_inv w" using dp_step_inv [OF Cons.prems(1), of x] Cons.prems(4) o by simp
  ultimately show ?case using Cons.IH [of "s\<lparr>wt_world := w\<rparr>"] Cons.prems(3,4) e by (simp del: wait_event.simps)
qed simp

text \<open>C33: A wait on a data pipe end that this process has closed never ends.  The end still reports the signals of its peer, so the
  wait is not refused, but no watch can be registered: the thread parks, and whatever is called on the pipe afterwards
  - the closing of the other end included, which makes the signals unsatisfiable - never calls it back.\<close>
theorem closed_data_pipe_wait_hangs:
  assumes "dp_inv p" "dp_local_closed (dp_ep p e)" "c \<notin> dp_callers p"
    and "\<not> ready (dpair_report p e) (rq_signals (rqs 0))" "rq_deadline (rqs 0) = None"
    and "\<forall>x \<in> set xs. dp_op_ok x \<and> c \<notin> registers x"
  shows "\<exists>i s s'. wait_events (dpair_end_dispatcher e) dp_step c rqs (waiter_new p 1) (replicate 4 (Run 0)) = Some s \<and>
    wait_events (dpair_end_dispatcher e) dp_step c rqs s (map Call xs) = Some s' \<and>
    wt_threads s' = [Parked i] \<and> wt_callbacks s' = [] \<and>
    wait_event (dpair_end_dispatcher e) dp_step c rqs s' (Run 0) = None"
proof -
  let ?D = "dpair_end_dispatcher e" and ?sg = "rq_signals (rqs 0)"
  define q where "q p = (case e of Producer \<Rightarrow> flush_producer p | Consumer \<Rightarrow> latch (flush_consumer p))" for p :: "u64 dpair"
  have q: "dp_inv (q r) \<and> dpair_report (q r) e = dpair_report r e \<and> dp_callers (q r) = dp_callers r \<and>
      dp_local_closed (dp_ep (q r) e) = dp_local_closed (dp_ep r e)"
    if "dp_inv r" for r
    using that by (cases e) (auto simp: q_def flush_producer_inv latch_inv flush_consumer_inv dpair_report_stable dp_callers_def)
  have query: "d_query ?D r u = (dpair_report r e, q r)" if "dp_inv r" for r u
    using that by (simp add: dpair_end_dispatcher_def dpair_query_eq q_def)
  let ?i = "dp_next_watch_id (q p)" and ?p1 = "(q p)\<lparr>dp_next_watch_id := dp_next_watch_id (q p) + 1\<rparr>"
  have q1: "dp_inv (q p)" "dp_local_closed (dp_ep (q p) e)" "dpair_report (q p) e = dpair_report p e" "dp_callers (q p) = dp_callers p"
    using q [OF assms(1)] assms(2) by simp_all
  have start: "d_start ?D (q p) u sg c = (?i, ?p1)" for u sg
    using q1(2) dp_invD(1) [OF q1(1)]
    by (cases e) (simp_all add: dpair_end_dispatcher_def dp_register_watch_def Let_def)
  have p1: "dp_inv ?p1" "dp_local_closed (dp_ep ?p1 e)" "dpair_report ?p1 e = dpair_report p e" "dp_callers ?p1 = dp_callers p"
    using dp_register_watch_fields(1) [OF q1(1), of e 0 c ?i ?p1 e] dp_watch_inv(1) [OF q1(1), of e 0 c] start [of "()" 0] q1
    by (cases e; simp add: dpair_end_dispatcher_def dp_callers_def)+
  have v: "verdict (dpair_report p e) ?sg = None" using assms(4) by (simp add: verdict_def ready_def)
  let ?s = "\<lparr>wt_world = q ?p1, wt_woken = False, wt_callbacks = [], wt_clock = 0, wt_threads = [Parked ?i]\<rparr>"
  have x: "expired (rqs 0) n = False" for n by (simp add: expired_def assms(5))
  have s: "wait_events ?D dp_step c rqs (waiter_new p 1) (replicate 4 (Run 0)) = Some ?s"
    by (simp add: numeral_eq_Suc waiter_new_def query [OF assms(1)] query [OF p1(1)] start v p1(3) x)
  have "dp_inv (q ?p1)" "dp_callers (q ?p1) = dp_callers p" using q [OF p1(1)] p1(4) by simp_all
  then obtain s' where s': "wait_events ?D dp_step c rqs ?s (map Call xs) = Some s'" "wt_threads s' = [Parked ?i]" "wt_callbacks s' = []"
    using deaf_calls [of ?s c xs ?D rqs] assms(3,6) by auto
  have "wait_event ?D dp_step c rqs s' (Run 0) = None" using s'(2) x by simp
  then show ?thesis using s s' by blast
qed

theorem closed_data_pipe_wait_hangs_witness:
  "\<exists>p i s s'. wait_events (dpair_end_dispatcher Consumer) dp_step 7 demo_data_request (waiter_new p 1) (replicate 4 (Run 0)) = Some s \<and>
    wait_events (dpair_end_dispatcher Consumer) dp_step 7 demo_data_request s (map Call [DClose Producer]) = Some s' \<and>
    wt_threads s' = [Parked i] \<and> wt_callbacks s' = []"
proof -
  let ?p = "fst (snd (dp_close demo_pair_for_traps Consumer))"
  have c: "dp_local_closed (dp_ep ?p Consumer)" "7 \<notin> dp_callers ?p" "\<not> ready (dpair_report ?p Consumer) READABLE"
    by (simp_all add: dp_close_eq(1) [OF demo_pair_for_traps_inv refl])
      (simp_all add: demo_pair_for_traps_def dp_endpoint_new_def dp_callers_def callers_of_def dpair_report_def ready_def
        consumer_signals_def is_satisfied_def is_unsatisfiable_def contains_def signal_consts dp_stream_def range_empty_def pend_def
        cancel_all_def)
  then show ?thesis
    using closed_data_pipe_wait_hangs [OF dp_close_inv(1) [OF demo_pair_for_traps_inv], of Consumer Consumer 7 demo_data_request "[DClose Producer]"]
    by (fastforce simp: demo_data_request_def)
qed

end
