(* ===== verification/SystemApi.thy ===== *)
theory SystemApi
  imports DataPipe SharedBuffer
begin

text \<open>
  The safe API over the core (\<open>crates/mojo-rs-system\<close>): error conversion, data pipe endpoints with two-phase transactions that
  end exactly once, and shared buffer handles with their mappings.  A panic or an early return out of \<open>commit\<close> drops the
  transaction, as the code's \<open>Drop\<close> implementations do.
\<close>

section \<open>Errors\<close>

datatype system_error =
    SysCancelled | SysUnknown | SysInvalidArgument | SysDeadlineExceeded | SysNotFound | SysAlreadyExists
  | SysPermissionDenied | SysResourceExhausted | SysFailedPrecondition | SysAborted | SysOutOfRange
  | SysUnimplemented | SysInternal | SysUnavailable | SysDataLoss | SysBusy | SysShouldWait

type_synonym 'a system_result = "(system_error, 'a) outcome"

fun system_error_of :: "core_error \<Rightarrow> system_error" where
  "system_error_of OkCode = SysUnknown"
| "system_error_of Cancelled = SysCancelled"
| "system_error_of Unknown = SysUnknown"
| "system_error_of InvalidArgument = SysInvalidArgument"
| "system_error_of DeadlineExceeded = SysDeadlineExceeded"
| "system_error_of NotFound = SysNotFound"
| "system_error_of AlreadyExists = SysAlreadyExists"
| "system_error_of PermissionDenied = SysPermissionDenied"
| "system_error_of ResourceExhausted = SysResourceExhausted"
| "system_error_of FailedPrecondition = SysFailedPrecondition"
| "system_error_of Aborted = SysAborted"
| "system_error_of OutOfRange = SysOutOfRange"
| "system_error_of Unimplemented = SysUnimplemented"
| "system_error_of Internal = SysInternal"
| "system_error_of Unavailable = SysUnavailable"
| "system_error_of DataLoss = SysDataLoss"
| "system_error_of Busy = SysBusy"
| "system_error_of ShouldWait = SysShouldWait"

text \<open>The conversion that \<open>?\<close> makes.\<close>

fun sys :: "'a core_result \<Rightarrow> 'a system_result" where
  "sys (Ok a) = Ok a"
| "sys (Err e) = Err (system_error_of e)"
| "sys Panic = Panic"

section \<open>Data pipes\<close>

record data_pipe_options =
  opt_element_size :: u32
  opt_capacity :: u32

definition data_pipe_options_default :: data_pipe_options where
  "data_pipe_options_default = \<lparr>opt_element_size = 1, opt_capacity = 0\<rparr>"

text \<open>\<open>create\<close>: \<open>mem\<close> makes the shared pages of a capacity, if the platform can.\<close>

definition sys_create ::
  "(u32 \<Rightarrow> byte list option) \<Rightarrow> u64 \<Rightarrow> data_pipe_options \<Rightarrow> 'cb dpair system_result" where
  "sys_create mem next opts =
     (let capacity = (if opt_capacity opts = 0 then 64 * 1024 else opt_capacity opts) in
      sys (create_pair (mem capacity) next (opt_element_size opts) capacity))"

definition u32_try_from :: "nat \<Rightarrow> u32 option" where
  "u32_try_from n = (if n < 2 ^ 32 then Some (of_nat n) else None)"

type_synonym ('a, 'cb) pair_call = "'a system_result \<times> 'cb dpair \<times> 'cb notification list"

definition sys_write :: "'cb dpair \<Rightarrow> byte list \<Rightarrow> bool \<Rightarrow> (nat, 'cb) pair_call" where
  "sys_write p data all_or_none =
     (case u32_try_from (length data) of
        None \<Rightarrow> (Err SysInvalidArgument, p, [])
      | Some n \<Rightarrow>
        (case dp_write p Producer data n all_or_none of (r, q, ns) \<Rightarrow> (obind (sys r) (\<lambda>k. Ok (unat k)), q, ns)))"

definition sys_read ::
  "'cb dpair \<Rightarrow> byte list \<Rightarrow> read_flags \<Rightarrow> (dp_read_outcome \<times> byte list option, 'cb) pair_call" where
  "sys_read p buffer f =
     (case u32_try_from (length buffer) of
        None \<Rightarrow> (Err SysInvalidArgument, p, [])
      | Some n \<Rightarrow>
        let elements = (if f_query f \<or> f_discard f then None else Some buffer) in
        (case dp_read p Consumer elements n f of (r, q, ns) \<Rightarrow> (sys r, q, ns)))"

text \<open>
  Transactions.  While one is alive it borrows its endpoint, so that nothing else uses that endpoint.  \<open>commit\<close> and
  \<open>consume\<close> take the transaction by value: unless they succeed, leaving them drops it, which ends the two-phase
  operation with a length of zero.
\<close>

definition sys_begin_write :: "'cb dpair \<Rightarrow> (span, 'cb) pair_call" where
  "sys_begin_write p = (case dp_begin_write p Producer of (r, q, ns) \<Rightarrow> (sys r, q, ns))"

definition drop_write :: "'cb dpair \<Rightarrow> 'cb dpair \<times> 'cb notification list" where
  "drop_write p = snd (dp_end_write p Producer 0)"

definition sys_commit :: "'cb dpair \<Rightarrow> nat \<Rightarrow> (unit, 'cb) pair_call" where
  "sys_commit p n =
     (case u32_try_from n of
        None \<Rightarrow> (case drop_write p of (q, ns) \<Rightarrow> (Err SysInvalidArgument, q, ns))
      | Some produced \<Rightarrow>
        (case dp_end_write p Producer produced of
           (Ok u, q, ns) \<Rightarrow> (Ok u, q, ns)
         | (r, q, ns) \<Rightarrow> (case drop_write q of (q', ns') \<Rightarrow> (sys r, q', ns @ ns'))))"

definition sys_begin_read :: "'cb dpair \<Rightarrow> (span, 'cb) pair_call" where
  "sys_begin_read p = (case dp_begin_read p Consumer of (r, q, ns) \<Rightarrow> (sys r, q, ns))"

definition drop_read :: "'cb dpair \<Rightarrow> 'cb dpair \<times> 'cb notification list" where
  "drop_read p = snd (dp_end_read p Consumer 0)"

definition sys_consume :: "'cb dpair \<Rightarrow> nat \<Rightarrow> (unit, 'cb) pair_call" where
  "sys_consume p n =
     (case u32_try_from n of
        None \<Rightarrow> (case drop_read p of (q, ns) \<Rightarrow> (Err SysInvalidArgument, q, ns))
      | Some consumed \<Rightarrow>
        (case dp_end_read p Consumer consumed of
           (Ok u, q, ns) \<Rightarrow> (Ok u, q, ns)
         | (r, q, ns) \<Rightarrow> (case drop_read q of (q', ns') \<Rightarrow> (sys r, q', ns @ ns'))))"

definition sys_signals :: "'cb dpair \<Rightarrow> data_pipe_end \<Rightarrow> signals_state system_result \<times> 'cb dpair" where
  "sys_signals p e = (case dp_query_signals p e of (r, q) \<Rightarrow> (sys r, q))"

definition sys_close :: "'cb dpair \<Rightarrow> data_pipe_end \<Rightarrow> (unit, 'cb) pair_call" where
  "sys_close p e = (case dp_close p e of (r, q, ns) \<Rightarrow> (sys r, q, ns))"

text \<open>
  What a program can do with a pair.  A write transaction stores bytes at the front of its span and is committed or
  dropped; storing more than the span holds panics, and the unwinding drops it.  A read transaction looks at the front of
  its span and is consumed or dropped.
\<close>

datatype sys_op =
    SWrite "byte list" bool
  | SWriteTx "byte list" "nat option"
  | SRead "byte list" read_flags
  | SReadTx "nat option"
  | SSignals data_pipe_end
  | SClose data_pipe_end

definition write_session :: "'cb dpair \<Rightarrow> byte list \<Rightarrow> nat option \<Rightarrow> (byte list, 'cb) pair_call" where
  "write_session p xs commit =
     (case sys_begin_write p of
        (Ok w, q, ns) \<Rightarrow>
          if span_len w < length xs then (case drop_write q of (q', ns') \<Rightarrow> (Panic, q', ns @ ns'))
          else
            let q = dp_store q xs in
            (case commit of
               None \<Rightarrow> (case drop_write q of (q', ns') \<Rightarrow> (Ok [], q', ns @ ns'))
             | Some n \<Rightarrow>
               (case sys_commit q n of (r, q', ns') \<Rightarrow> (obind r (\<lambda>_. Ok (take n xs)), q', ns @ ns')))
      | (Err e, q, ns) \<Rightarrow> (Err e, q, ns)
      | (Panic, q, ns) \<Rightarrow> (Panic, q, ns))"

definition read_session :: "'cb dpair \<Rightarrow> nat option \<Rightarrow> (byte list, 'cb) pair_call" where
  "read_session p consume =
     (case sys_begin_read p of
        (Ok w, q, ns) \<Rightarrow>
          (case consume of
             None \<Rightarrow> (case drop_read q of (q', ns') \<Rightarrow> (Ok [], q', ns @ ns'))
           | Some n \<Rightarrow>
             (case span_as_slice (shm q) w of
                None \<Rightarrow> (case drop_read q of (q', ns') \<Rightarrow> (Panic, q', ns @ ns'))
              | Some bytes \<Rightarrow>
                (case sys_consume q n of (r, q', ns') \<Rightarrow> (obind r (\<lambda>_. Ok (take n bytes)), q', ns @ ns'))))
      | (Err e, q, ns) \<Rightarrow> (Err e, q, ns)
      | (Panic, q, ns) \<Rightarrow> (Panic, q, ns))"

section \<open>Transactions end\<close>

definition idle :: "'cb dpair \<Rightarrow> bool" where
  "idle p \<longleftrightarrow> dp_two_phase (prod_ep p) = None \<and> dp_two_phase (cons_ep p) = None"

lemma begin_write_outcome:
  assumes "dp_inv p" "idle p" "dp_begin_write p Producer = (r, q, ns)"
  shows "dp_inv q" "dp_stream q = dp_stream p" "dp_two_phase (cons_ep q) = None" "r \<noteq> Err Busy" "r \<noteq> Panic" "ns = []"
    "r = Ok w \<Longrightarrow> dp_two_phase (prod_ep q) = Some (TPWriter w)" "(\<forall>w. r \<noteq> Ok w) \<Longrightarrow> idle q"
  using dp_begin_write_inv [OF assms(1)] assms(2,3)
  by (auto simp: dp_begin_write_eq [OF assms(1) refl refl] idle_def split: if_splits)

lemma begin_read_outcome:
  assumes "dp_inv p" "idle p" "dp_begin_read p Consumer = (r, q, ns)"
  shows "dp_inv q" "dp_stream q = dp_stream p" "dp_two_phase (prod_ep q) = None" "r \<noteq> Err Busy" "r \<noteq> Panic" "ns = []"
    "r = Ok w \<Longrightarrow> dp_two_phase (cons_ep q) = Some (TPReader w)" "(\<forall>w. r \<noteq> Ok w) \<Longrightarrow> idle q"
  using dp_begin_read_inv [OF assms(1)] assms(2,3)
  by (auto simp: dp_begin_read_eq [OF assms(1) refl refl] idle_def split: if_splits)

lemma end_write_ends:
  assumes "dp_inv p" "dp_end_write p Producer n = (r, q, ns)"
  shows "dp_inv q" "dp_two_phase (prod_ep q) = None" "dp_two_phase (cons_ep q) = dp_two_phase (cons_ep p)" "r \<noteq> Panic" "r \<noteq> Err Busy"
    "r \<noteq> Ok () \<Longrightarrow> dp_stream q = dp_stream p"
    "r = Ok () \<Longrightarrow> dp_two_phase (prod_ep p) = Some (TPWriter w) \<Longrightarrow>
      \<exists>b. span_as_slice (shm p) w = Some b \<and> dp_stream q = dp_stream p @ take (unat n) b"
  using dp_end_write_stream [OF assms(1), of n] assms(2)
  by (auto simp: dp_end_write_eq [OF assms(1) refl] Let_def announce_written_def latch_def
      split: option.splits two_phase.splits if_splits)

lemma end_read_ends:
  assumes "dp_inv p" "dp_end_read p Consumer n = (r, q, ns)"
  shows "dp_inv q" "dp_two_phase (cons_ep q) = None" "dp_two_phase (prod_ep q) = dp_two_phase (prod_ep p)" "r \<noteq> Panic" "r \<noteq> Err Busy"
    "r \<noteq> Ok () \<Longrightarrow> dp_stream q = dp_stream p"
    "r = Ok () \<Longrightarrow> dp_two_phase (cons_ep p) = Some (TPReader w) \<Longrightarrow>
      \<exists>b. span_as_slice (shm p) w = Some b \<and> dp_stream p = take (unat n) b @ dp_stream q"
proof -
  show "dp_inv q" using dp_end_read_eq(2) [OF assms(1) refl, of n] assms(2) by simp
  show "r \<noteq> Ok () \<Longrightarrow> dp_stream q = dp_stream p" using dp_end_read_stream(2) [OF assms(1), of n] assms(2) by simp
  show "r = Ok () \<Longrightarrow> dp_two_phase (cons_ep p) = Some (TPReader w) \<Longrightarrow>
      \<exists>b. span_as_slice (shm p) w = Some b \<and> dp_stream p = take (unat n) b @ dp_stream q"
    using dp_end_read_stream(1) [OF assms(1), of n] assms(2) by simp
qed (use assms(2) in \<open>auto simp: dp_end_read_eq(1) [OF assms(1) refl] Let_def announce_read_def
      split: option.splits two_phase.splits if_splits\<close>)

lemma drop_write_ends:
  assumes "dp_inv p" "drop_write p = (q, ns)"
  shows "dp_inv q" "dp_two_phase (prod_ep q) = None" "dp_two_phase (cons_ep q) = dp_two_phase (cons_ep p)" "dp_stream q = dp_stream p"
proof -
  obtain r where r: "dp_end_write p Producer 0 = (r, q, ns)" using assms(2) by (cases "dp_end_write p Producer 0") (simp add: drop_write_def)
  then show "dp_inv q" "dp_two_phase (prod_ep q) = None" "dp_two_phase (cons_ep q) = dp_two_phase (cons_ep p)"
    using end_write_ends [OF assms(1) r] by simp_all
  show "dp_stream q = dp_stream p"
  proof (cases "r = Ok ()")
    case True
    then obtain w where "dp_two_phase (prod_ep p) = Some (TPWriter w)" using end_write_ok_two_phase [OF assms(1), of 0 "()"] r by auto
    then show ?thesis using end_write_ends(7) [OF assms(1) r True] by auto
  qed (use end_write_ends(6) [OF assms(1) r] in simp)
qed

lemma drop_read_ends:
  assumes "dp_inv p" "drop_read p = (q, ns)"
  shows "dp_inv q" "dp_two_phase (cons_ep q) = None" "dp_two_phase (prod_ep q) = dp_two_phase (prod_ep p)" "dp_stream q = dp_stream p"
proof -
  obtain r where r: "dp_end_read p Consumer 0 = (r, q, ns)" using assms(2) by (cases "dp_end_read p Consumer 0") (simp add: drop_read_def)
  then show "dp_inv q" "dp_two_phase (cons_ep q) = None" "dp_two_phase (prod_ep q) = dp_two_phase (prod_ep p)"
    using end_read_ends [OF assms(1) r] by simp_all
  show "dp_stream q = dp_stream p"
  proof (cases "r = Ok ()")
    case True
    then obtain w where "dp_two_phase (cons_ep p) = Some (TPReader w)" using end_read_ok_two_phase [OF assms(1), of 0 "()"] r by auto
    then show ?thesis using end_read_ends(7) [OF assms(1) r True] by auto
  qed (use end_read_ends(6) [OF assms(1) r] in simp)
qed

lemma sys_simps [simp]: "sys r = Ok x \<longleftrightarrow> r = Ok x" "sys r = Panic \<longleftrightarrow> r = Panic" "sys r = Err SysBusy \<longleftrightarrow> r = Err Busy"
proof -
  show "sys r = Err SysBusy \<longleftrightarrow> r = Err Busy"
  proof (cases r)
    case (Err e)
    then show ?thesis by (cases e) simp_all
  qed simp_all
qed (cases r; simp)+

lemma u32_try_from_Some: "u32_try_from n = Some k \<longleftrightarrow> n < 2 ^ 32 \<and> k = of_nat n"
  by (auto simp: u32_try_from_def)

lemma commit_ends:
  assumes "dp_inv p" "dp_two_phase (prod_ep p) = Some (TPWriter w)" "sys_commit p n = (r, q, ns)"
  shows "dp_inv q" "dp_two_phase (prod_ep q) = None" "dp_two_phase (cons_ep q) = dp_two_phase (cons_ep p)" "r \<noteq> Panic" "r \<noteq> Err SysBusy"
    "r \<noteq> Ok () \<Longrightarrow> dp_stream q = dp_stream p"
    "r = Ok () \<Longrightarrow> \<exists>b. span_as_slice (shm p) w = Some b \<and> dp_stream q = dp_stream p @ take n b"
proof -
  have all: "dp_inv q \<and> dp_two_phase (prod_ep q) = None \<and> dp_two_phase (cons_ep q) = dp_two_phase (cons_ep p) \<and> r \<noteq> Panic \<and>
      r \<noteq> Err SysBusy \<and> (if r = Ok () then \<exists>b. span_as_slice (shm p) w = Some b \<and> dp_stream q = dp_stream p @ take n b
        else dp_stream q = dp_stream p)"
  proof (cases "u32_try_from n")
    case None
    then have "r = Err SysInvalidArgument" "drop_write p = (q, ns)"
      using assms(3) by (auto simp: sys_commit_def split: prod.splits)
    then show ?thesis using drop_write_ends [OF assms(1), of q ns] by simp
  next
    case (Some k)
    then have k: "unat k = n" by (simp add: u32_try_from_Some)
    obtain r1 q1 ns1 where e: "dp_end_write p Producer k = (r1, q1, ns1)" by (metis prod_cases3)
    note w = end_write_ends [OF assms(1) e]
    show ?thesis
    proof (cases "r1 = Ok ()")
      case True
      have "r = Ok ()" "q = q1" using assms(3) Some e True by (simp_all add: sys_commit_def)
      then show ?thesis using w(7) [OF True assms(2)] w(1-3) k by simp
    next
      case False
      obtain q' ns' where d: "drop_write q1 = (q', ns')" by fastforce
      have "r = sys r1" "q = q'"
        using assms(3) Some e d False w(4) by (cases r1; simp add: sys_commit_def)+
      moreover have "sys r1 \<noteq> Ok ()" "sys r1 \<noteq> Panic" "sys r1 \<noteq> Err SysBusy" using False w(4,5) by simp_all
      ultimately show ?thesis using drop_write_ends [OF w(1) d] w(3) w(6) [OF False] by simp
    qed
  qed
  show "dp_inv q" "dp_two_phase (prod_ep q) = None" "dp_two_phase (cons_ep q) = dp_two_phase (cons_ep p)" "r \<noteq> Panic" "r \<noteq> Err SysBusy"
    "r \<noteq> Ok () \<Longrightarrow> dp_stream q = dp_stream p"
    "r = Ok () \<Longrightarrow> \<exists>b. span_as_slice (shm p) w = Some b \<and> dp_stream q = dp_stream p @ take n b"
    using all by (auto split: if_splits)
qed

lemma consume_ends:
  assumes "dp_inv p" "dp_two_phase (cons_ep p) = Some (TPReader w)" "sys_consume p n = (r, q, ns)"
  shows "dp_inv q" "dp_two_phase (cons_ep q) = None" "dp_two_phase (prod_ep q) = dp_two_phase (prod_ep p)" "r \<noteq> Panic" "r \<noteq> Err SysBusy"
    "r \<noteq> Ok () \<Longrightarrow> dp_stream q = dp_stream p"
    "r = Ok () \<Longrightarrow> \<exists>b. span_as_slice (shm p) w = Some b \<and> dp_stream p = take n b @ dp_stream q"
proof -
  have all: "dp_inv q \<and> dp_two_phase (cons_ep q) = None \<and> dp_two_phase (prod_ep q) = dp_two_phase (prod_ep p) \<and> r \<noteq> Panic \<and>
      r \<noteq> Err SysBusy \<and> (if r = Ok () then \<exists>b. span_as_slice (shm p) w = Some b \<and> dp_stream p = take n b @ dp_stream q
        else dp_stream q = dp_stream p)"
  proof (cases "u32_try_from n")
    case None
    then have "r = Err SysInvalidArgument" "drop_read p = (q, ns)"
      using assms(3) by (auto simp: sys_consume_def split: prod.splits)
    then show ?thesis using drop_read_ends [OF assms(1), of q ns] by simp
  next
    case (Some k)
    then have k: "unat k = n" by (simp add: u32_try_from_Some)
    obtain r1 q1 ns1 where e: "dp_end_read p Consumer k = (r1, q1, ns1)" by (metis prod_cases3)
    note w = end_read_ends [OF assms(1) e]
    show ?thesis
    proof (cases "r1 = Ok ()")
      case True
      have "r = Ok ()" "q = q1" using assms(3) Some e True by (simp_all add: sys_consume_def)
      then show ?thesis using w(7) [OF True assms(2)] w(1-3) k by simp
    next
      case False
      obtain q' ns' where d: "drop_read q1 = (q', ns')" by fastforce
      have "r = sys r1" "q = q'"
        using assms(3) Some e d False w(4) by (cases r1; simp add: sys_consume_def)+
      moreover have "sys r1 \<noteq> Ok ()" "sys r1 \<noteq> Panic" "sys r1 \<noteq> Err SysBusy" using False w(4,5) by simp_all
      ultimately show ?thesis using drop_read_ends [OF w(1) d] w(3) w(6) [OF False] by simp
    qed
  qed
  show "dp_inv q" "dp_two_phase (cons_ep q) = None" "dp_two_phase (prod_ep q) = dp_two_phase (prod_ep p)" "r \<noteq> Panic" "r \<noteq> Err SysBusy"
    "r \<noteq> Ok () \<Longrightarrow> dp_stream q = dp_stream p"
    "r = Ok () \<Longrightarrow> \<exists>b. span_as_slice (shm p) w = Some b \<and> dp_stream p = take n b @ dp_stream q"
    using all by (auto split: if_splits)
qed

section \<open>Sessions\<close>

text \<open>What a call puts in and takes out, when it succeeds; a discarded byte is taken unseen.\<close>

definition sys_step :: "'cb dpair \<Rightarrow> sys_op \<Rightarrow> (byte list \<times> byte option list, 'cb) pair_call" where
  "sys_step p x = (case x of
       SWrite d aon \<Rightarrow> (case sys_write p d aon of (r, q, ns) \<Rightarrow> (obind r (\<lambda>k. Ok (take k d, [])), q, ns))
     | SWriteTx d commit \<Rightarrow> (case write_session p d commit of (r, q, ns) \<Rightarrow> (obind r (\<lambda>b. Ok (b, [])), q, ns))
     | SRead buffer f \<Rightarrow> (case sys_read p buffer f of (r, q, ns) \<Rightarrow>
         (obind r (\<lambda>(out, _). Ok ([],
            if f_query f \<or> f_peek f then []
            else if f_discard f then replicate (unat (out_num_bytes out)) None else map Some (out_data out))), q, ns))
     | SReadTx consume \<Rightarrow> (case read_session p consume of (r, q, ns) \<Rightarrow> (obind r (\<lambda>b. Ok ([], map Some b)), q, ns))
     | SSignals e \<Rightarrow> (case sys_signals p e of (r, q) \<Rightarrow> (obind r (\<lambda>_. Ok ([], [])), q, []))
     | SClose e \<Rightarrow> (case sys_close p e of (r, q, ns) \<Rightarrow> (obind r (\<lambda>_. Ok ([], [])), q, ns)))"

fun sys_run :: "'cb dpair \<Rightarrow> sys_op list \<Rightarrow> (byte list \<times> byte option list) system_result list \<times> 'cb dpair" where
  "sys_run p [] = ([], p)"
| "sys_run p (x # xs) =
     (case sys_step p x of (r, q, ns) \<Rightarrow> (case sys_run q xs of (rs, q') \<Rightarrow> (r # rs, q')))"

text \<open>No transaction commits more bytes than the program has stored.\<close>

fun sys_op_ok :: "sys_op \<Rightarrow> bool" where
  "sys_op_ok (SWriteTx d (Some n)) \<longleftrightarrow> n \<le> length d"
| "sys_op_ok _ \<longleftrightarrow> True"

definition progress :: "'cb dpair \<Rightarrow> (byte list \<times> byte option list) system_result \<Rightarrow> 'cb dpair \<Rightarrow> bool" where
  "progress p r q \<longleftrightarrow> (case r of
       Ok (acc, del) \<Rightarrow> \<exists>taken. dp_stream p @ acc = taken @ dp_stream q \<and> seen_as del taken
     | _ \<Rightarrow> dp_stream q = dp_stream p)"

lemma stored_span:
  assumes "dp_inv p" "dp_two_phase (prod_ep p) = Some (TPWriter w)" "length xs \<le> span_len w"
  shows "dp_two_phase (prod_ep (dp_store p xs)) = Some (TPWriter w)" "dp_two_phase (cons_ep (dp_store p xs)) = dp_two_phase (cons_ep p)"
    "n \<le> length xs \<Longrightarrow> span_as_slice (shm (dp_store p xs)) w = Some b \<Longrightarrow> take n b = take n xs"
proof -
  have w: "span_ptr w + span_len w \<le> length (shm p)" using dp_invD(12) [OF assms(1)] assms(2) by simp
  then have s: "dp_store p xs = p\<lparr>shm := take (span_ptr w) (shm p) @ xs @ drop (span_ptr w + length xs) (shm p)\<rparr>"
    using assms(2,3) by (simp add: dp_store_def span_store_def copy_into_def)
  then show "dp_two_phase (prod_ep (dp_store p xs)) = Some (TPWriter w)" "dp_two_phase (cons_ep (dp_store p xs)) = dp_two_phase (cons_ep p)"
    using assms(2) by simp_all
  show "take n b = take n xs" if n: "n \<le> length xs" and b: "span_as_slice (shm (dp_store p xs)) w = Some b"
  proof -
    have "b = take (span_len w) (drop (span_ptr w) (take (span_ptr w) (shm p) @ xs @ drop (span_ptr w + length xs) (shm p)))"
      using b s w assms(3) by (auto simp: span_as_slice_def)
    then have "b = take (span_len w) (xs @ drop (span_ptr w + length xs) (shm p))"
      using w by (simp add: min_absorb2)
    then show ?thesis using n assms(3) by (simp add: min_absorb1)
  qed
qed

lemma system_error_of_busy [simp]: "system_error_of e = SysBusy \<longleftrightarrow> e = Busy"
  by (cases e) simp_all

lemma write_session_ends:
  assumes "dp_inv p" "idle p" "write_session p xs c = (r, q, ns)" "\<And>n. c = Some n \<Longrightarrow> n \<le> length xs"
  shows "dp_inv q \<and> idle q \<and> r \<noteq> Err SysBusy \<and> (case r of Ok b \<Rightarrow> dp_stream q = dp_stream p @ b | _ \<Rightarrow> dp_stream q = dp_stream p)"
proof -
  obtain r1 q1 ns1 where b: "dp_begin_write p Producer = (r1, q1, ns1)" by (metis prod_cases3)
  note o = begin_write_outcome [OF assms(1,2) b]
  show ?thesis
  proof (cases r1)
    case (Err e)
    then show ?thesis using assms(3) b o by (auto simp: write_session_def sys_begin_write_def)
  next
    case Panic
    then show ?thesis using o(5) by simp
  next
    case (Ok w)
    show ?thesis
    proof (cases "span_len w < length xs")
      case True
      obtain q' ns' where d: "drop_write q1 = (q', ns')" by fastforce
      then have "r = Panic" "q = q'" using assms(3) b Ok True by (auto simp: write_session_def sys_begin_write_def)
      then show ?thesis using drop_write_ends [OF o(1) d] o(2,3) by (simp add: idle_def)
    next
      case False
      let ?q = "dp_store q1 xs"
      have i: "dp_inv ?q" "dp_stream ?q = dp_stream p" using dp_store_inv [OF o(1)] o(2) by simp_all
      note s = stored_span [OF o(1) o(7) [OF Ok], of xs]
      show ?thesis
      proof (cases c)
        case None
        obtain q' ns' where d: "drop_write ?q = (q', ns')" by fastforce
        then have "r = Ok []" "q = q'" using assms(3) b Ok False None by (auto simp: write_session_def sys_begin_write_def Let_def)
        then show ?thesis using drop_write_ends [OF i(1) d] i(2) s(2) False o(3) by (simp add: idle_def)
      next
        case (Some n)
        obtain r2 q2 ns2 where d: "sys_commit ?q n = (r2, q2, ns2)" by (metis prod_cases3)
        have tp: "dp_two_phase (prod_ep ?q) = Some (TPWriter w)" using s(1) False by simp
        note e = commit_ends [OF i(1) tp d]
        have r: "r = obind r2 (\<lambda>_. Ok (take n xs))" "q = q2"
          using assms(3) b Ok False Some d by (auto simp: write_session_def sys_begin_write_def Let_def)
        show ?thesis
        proof (cases "r2 = Ok ()")
          case True
          obtain bs where "span_as_slice (shm ?q) w = Some bs" "dp_stream q2 = dp_stream ?q @ take n bs" using e(7) [OF True] by blast
          moreover from this have "take n bs = take n xs" using s(3) False assms(4) [OF Some] by simp
          ultimately show ?thesis using r e(1-3) True i(2) s(2) False o(3) by (simp add: idle_def)
        next
          case F: False
          then have "dp_stream q2 = dp_stream p" using e(6) i(2) by simp
          then show ?thesis using r e(1-5) F s(2) False o(3) by (cases r2) (simp_all add: idle_def)
        qed
      qed
    qed
  qed
qed

lemma read_session_ends:
  assumes "dp_inv p" "idle p" "read_session p c = (r, q, ns)"
  shows "dp_inv q \<and> idle q \<and> r \<noteq> Err SysBusy \<and> (case r of Ok b \<Rightarrow> dp_stream p = b @ dp_stream q | _ \<Rightarrow> dp_stream q = dp_stream p)"
proof -
  obtain r1 q1 ns1 where b: "dp_begin_read p Consumer = (r1, q1, ns1)" by (metis prod_cases3)
  note o = begin_read_outcome [OF assms(1,2) b]
  show ?thesis
  proof (cases r1)
    case (Err e)
    then show ?thesis using assms(3) b o by (auto simp: read_session_def sys_begin_read_def)
  next
    case Panic
    then show ?thesis using o(5) by simp
  next
    case (Ok w)
    obtain q' ns' where d: "drop_read q1 = (q', ns')" by fastforce
    note dr = drop_read_ends [OF o(1) d]
    show ?thesis
    proof (cases c)
      case None
      then have "r = Ok []" "q = q'" using assms(3) b Ok d by (auto simp: read_session_def sys_begin_read_def)
      then show ?thesis using dr o(2,3) by (simp add: idle_def)
    next
      case (Some n)
      show ?thesis
      proof (cases "span_as_slice (shm q1) w")
        case None
        then have "r = Panic" "q = q'" using assms(3) b Ok d Some by (auto simp: read_session_def sys_begin_read_def)
        then show ?thesis using dr o(2,3) by (simp add: idle_def)
      next
        case s: (Some bs)
        obtain r2 q2 ns2 where d: "sys_consume q1 n = (r2, q2, ns2)" by (metis prod_cases3)
        note e = consume_ends [OF o(1) o(7) [OF Ok] d]
        have r: "r = obind r2 (\<lambda>_. Ok (take n bs))" "q = q2"
          using assms(3) b Ok Some d s by (auto simp: read_session_def sys_begin_read_def)
        show ?thesis
        proof (cases "r2 = Ok ()")
          case True
          then show ?thesis using e(7) [OF True] s r e(1-3) o(2,3) by (simp add: idle_def)
        next
          case False
          then have "dp_stream q2 = dp_stream p" using e(6) o(2) by simp
          then show ?thesis using r e(1-5) False o(3) by (cases r2) (simp_all add: idle_def)
        qed
      qed
    qed
  qed
qed

lemma seen_as_Nil: "seen_as [] t \<longleftrightarrow> t = []"
  by (auto simp: seen_as_def)

lemma write_once:
  assumes "dp_inv p" "idle p" "unat n \<le> length d" "dp_write p Producer d n aon = (r, q, ns)"
  shows "dp_inv q" "idle q" "r \<noteq> Panic" "r \<noteq> Err Busy"
    "dp_stream q = dp_stream p @ (case r of Ok k \<Rightarrow> take (unat k) d | _ \<Rightarrow> [])"
proof -
  show "dp_inv q" using dp_step_inv [OF assms(1), of "DWrite d n aon"] assms(3,4) by simp
  show "dp_stream q = dp_stream p @ (case r of Ok k \<Rightarrow> take (unat k) d | _ \<Rightarrow> [])"
    using dp_step_stream [OF assms(1), of "DWrite d n aon"] assms(3,4) by (auto simp: seen_as_Nil)
qed (use assms(2,4) in \<open>auto simp: dp_write_eq [OF assms(1,3) refl refl] idle_def Let_def latch_def accept_def announce_written_def split: if_splits\<close>)

lemma read_once:
  assumes "dp_inv p" "idle p" "buffer_ok els n f" "dp_read p Consumer els n f = (r, q, ns)"
  shows "dp_inv q" "idle q" "r \<noteq> Panic" "r \<noteq> Err Busy"
    "\<exists>taken. dp_stream p = taken @ dp_stream q \<and> seen_as (case r of Ok (out, _) \<Rightarrow>
       if f_query f \<or> f_peek f then [] else if f_discard f then replicate (unat (out_num_bytes out)) None
       else map Some (out_data out) | _ \<Rightarrow> []) taken"
proof -
  show "dp_inv q" using dp_step_inv [OF assms(1), of "DRead els n f"] assms(3,4) by simp
  show "\<exists>taken. dp_stream p = taken @ dp_stream q \<and> seen_as (case r of Ok (out, _) \<Rightarrow>
       if f_query f \<or> f_peek f then [] else if f_discard f then replicate (unat (out_num_bytes out)) None
       else map Some (out_data out) | _ \<Rightarrow> []) taken"
    using dp_step_stream [OF assms(1), of "DRead els n f"] assms(3,4) by simp
qed (use assms(2,4) in \<open>auto simp: dp_read_eq [OF assms(1,3) refl refl] idle_def read_result_def Let_def deliver_def announce_read_def split: if_splits\<close>)

lemma sys_step_ends:
  assumes "dp_inv p" "idle p" "sys_op_ok x" "sys_step p x = (r, q, ns)"
  shows "dp_inv q \<and> idle q \<and> r \<noteq> Err SysBusy \<and> progress p r q"
proof (cases x)
  case (SWrite d aon)
  show ?thesis
  proof (cases "u32_try_from (length d)")
    case None
    then show ?thesis using assms SWrite by (auto simp: sys_step_def sys_write_def progress_def)
  next
    case (Some n)
    then have n: "unat n \<le> length d" by (simp add: u32_try_from_Some)
    obtain r1 where w: "dp_write p Producer d n aon = (r1, q, ns)" and r: "r = obind (obind (sys r1) (\<lambda>k. Ok (unat k))) (\<lambda>k. Ok (take k d, []))"
      using assms(4) SWrite Some by (auto simp: sys_step_def sys_write_def split: prod.splits)
    from write_once [OF assms(1,2) n w] r show ?thesis by (cases r1) (simp_all add: progress_def seen_as_Nil)
  qed
next
  case (SWriteTx d c)
  obtain r1 where w: "write_session p d c = (r1, q, ns)" and r: "r = obind r1 (\<lambda>b. Ok (b, []))"
    using assms(4) SWriteTx by (auto simp: sys_step_def split: prod.splits)
  have "n \<le> length d" if "c = Some n" for n using that assms(3) SWriteTx by simp
  from write_session_ends [OF assms(1,2) w this] r show ?thesis by (cases r1) (auto simp: progress_def seen_as_Nil)
next
  case (SRead buffer f)
  show ?thesis
  proof (cases "u32_try_from (length buffer)")
    case None
    then show ?thesis using assms SRead by (auto simp: sys_step_def sys_read_def progress_def)
  next
    case (Some n)
    let ?els = "if f_query f \<or> f_discard f then None else Some buffer"
    have n: "buffer_ok ?els n f" using Some by (simp add: buffer_ok_def u32_try_from_Some)
    obtain r1 where w: "dp_read p Consumer ?els n f = (r1, q, ns)" and r: "r = obind (sys r1) (\<lambda>(out, _). Ok ([],
            if f_query f \<or> f_peek f then []
            else if f_discard f then replicate (unat (out_num_bytes out)) None else map Some (out_data out)))"
      using assms(4) SRead Some by (auto simp: sys_step_def sys_read_def Let_def split: prod.splits)
    from read_once [OF assms(1,2) n w] r show ?thesis
      by (cases r1) (auto simp: progress_def seen_as_Nil split: prod.splits)
  qed
next
  case (SReadTx c)
  obtain r1 where w: "read_session p c = (r1, q, ns)" and r: "r = obind r1 (\<lambda>b. Ok ([], map Some b))"
    using assms(4) SReadTx by (auto simp: sys_step_def split: prod.splits)
  from read_session_ends [OF assms(1,2) w] r show ?thesis by (cases r1) (auto simp: progress_def)
next
  case (SSignals e)
  then show ?thesis
    using assms(2,4) dp_query_signals_inv [OF assms(1), of e]
    by (cases e) (auto simp: sys_step_def sys_signals_def dp_query_signals_eq [OF assms(1)] Let_def progress_def idle_def
        latch_def seen_as_Nil)
next
  case (SClose e)
  obtain r1 where c: "dp_close p e = (r1, q, ns)" and r: "r = obind (sys r1) (\<lambda>_. Ok ([], []))"
    using assms(4) SClose by (auto simp: sys_step_def sys_close_def split: prod.splits)
  have "r1 = Ok ()" using c by (auto simp: dp_close_eq(1) [OF assms(1) refl] split: if_splits)
  moreover have "idle q" using c assms(2)
    by (cases e) (auto simp: dp_close_eq(1) [OF assms(1) refl] idle_def latch_def split: if_splits)
  ultimately show ?thesis using dp_close_inv [OF assms(1), of e] c r by (simp add: progress_def seen_as_Nil)
qed

section \<open>Shared buffers\<close>

definition sys_buffer_create :: "nat option \<Rightarrow> u64 \<Rightarrow> shared_buffer system_result" where
  "sys_buffer_create mem num_bytes = sys (buffer_create mem num_bytes)"

definition sys_buffer_duplicate :: "shared_buffer \<Rightarrow> bool \<Rightarrow> bool \<Rightarrow> shared_buffer system_result \<times> shared_buffer" where
  "sys_buffer_duplicate b read_only dup_ok = (case buffer_duplicate b read_only dup_ok of (r, b') \<Rightarrow> (sys r, b'))"

definition sys_buffer_map :: "shared_buffer \<Rightarrow> u64 \<Rightarrow> u64 \<Rightarrow> u64 option \<Rightarrow> shm_mapping system_result" where
  "sys_buffer_map b offset num_bytes mmap = sys (buffer_map b offset num_bytes mmap)"

definition sys_write_at :: "page_store \<Rightarrow> shm_mapping \<Rightarrow> nat \<Rightarrow> byte list \<Rightarrow> bool \<times> page_store" where
  "sys_write_at st m offset content = write_at st m offset content"

definition sys_read_at :: "page_store \<Rightarrow> shm_mapping \<Rightarrow> nat \<Rightarrow> nat \<Rightarrow> byte list option" where
  "sys_read_at st m offset len = read_at st m offset len"

section \<open>Properties\<close>

definition accepted_of :: "(byte list \<times> byte option list) system_result \<Rightarrow> byte list" where
  "accepted_of r = (case r of Ok (acc, _) \<Rightarrow> acc | _ \<Rightarrow> [])"

definition removed_of :: "(byte list \<times> byte option list) system_result \<Rightarrow> byte option list" where
  "removed_of r = (case r of Ok (_, del) \<Rightarrow> del | _ \<Rightarrow> [])"

lemma progress_stream:
  "progress p r q \<Longrightarrow> \<exists>taken. dp_stream p @ accepted_of r = taken @ dp_stream q \<and> seen_as (removed_of r) taken"
  by (cases r) (auto simp: progress_def accepted_of_def removed_of_def seen_as_Nil split: prod.splits)

lemma sys_run_stream:
  "dp_inv p \<Longrightarrow> idle p \<Longrightarrow> list_all sys_op_ok xs \<Longrightarrow> sys_run p xs = (rs, q) \<Longrightarrow>
   dp_inv q \<and> idle q \<and> Err SysBusy \<notin> set rs \<and>
   (\<exists>taken. dp_stream p @ concat (map accepted_of rs) = taken @ dp_stream q \<and> seen_as (concat (map removed_of rs)) taken)"
proof (induction xs arbitrary: p rs q)
  case Nil
  then show ?case by simp
next
  case (Cons x xs)
  obtain r p1 ns rs1 where x: "sys_step p x = (r, p1, ns)" "sys_run p1 xs = (rs1, q)" "rs = r # rs1"
    using Cons.prems(4) by (auto split: prod.splits)
  have s: "dp_inv p1" "idle p1" "r \<noteq> Err SysBusy" "progress p r p1"
    using sys_step_ends [OF Cons.prems(1,2) _ x(1)] Cons.prems(3) by simp_all
  obtain t1 where t1: "dp_stream p @ accepted_of r = t1 @ dp_stream p1" "seen_as (removed_of r) t1"
    using progress_stream [OF s(4)] by blast
  obtain t2 where t2: "dp_stream p1 @ concat (map accepted_of rs1) = t2 @ dp_stream q" "seen_as (concat (map removed_of rs1)) t2"
      "dp_inv q" "idle q" "Err SysBusy \<notin> set rs1"
    using Cons.IH [OF s(1,2) _ x(2)] Cons.prems(3) by auto
  have "dp_stream p @ concat (map accepted_of rs) = (t1 @ t2) @ dp_stream q"
    using t1(1) t2(1) x(3) by (metis append.assoc concat.simps(2) list.simps(9))
  then show ?case using t2(3-5) s(3) x(3) seen_as_append [OF t1(2) t2(2)] by auto
qed

text \<open>C15: A program that uses a data pipe through the safe API cannot leave it busy and loses nothing.  Over any sequence of
  writes, reads, two-phase transactions - committed, consumed, dropped, refused or aborted by a panic - closings
  and queries on a new pair, no call ever reports Busy, no two-phase operation stays open, and the bytes of the
  successful writes and commits, in order, are those taken out by the successful reads and consumptions followed by those
  still in the pipe.\<close>
theorem api_session_fifo:
  assumes "sys_create mem next opts = Ok p" "\<And>c pages. mem c = Some pages \<Longrightarrow> length pages = unat c"
    and "list_all sys_op_ok xs" "sys_run p xs = (rs, q)"
  shows "Err SysBusy \<notin> set rs \<and> dp_two_phase (prod_ep q) = None \<and> dp_two_phase (cons_ep q) = None \<and>
    (\<exists>taken. concat (map accepted_of rs) = taken @ dp_stream q \<and> seen_as (concat (map removed_of rs)) taken)"
proof -
  let ?cap = "if opt_capacity opts = 0 then 64 * 1024 else opt_capacity opts"
  have c: "create_pair (mem ?cap) next (opt_element_size opts) ?cap = Ok p"
    using assms(1) by (simp add: sys_create_def Let_def)
  have "idle p" using c by (auto simp: create_pair_def idle_def dp_endpoint_new_def split: if_splits option.splits)
  then show ?thesis
    using sys_run_stream [OF create_pair_inv(1) [OF c assms(2)] _ assms(3,4)] create_pair_inv(2) [OF c assms(2)]
    by (auto simp: idle_def)
qed

theorem api_session_fifo_witness:
  "\<exists>(p :: u64 dpair) rs q taken. sys_create (\<lambda>c. Some (replicate (unat c) 0)) 1 \<lparr>opt_element_size = 1, opt_capacity = 4\<rparr> = Ok p \<and>
     sys_run p [SWrite [7, 8] True, SWriteTx [5] None, SReadTx (Some 1)] = (rs, q) \<and> hd rs = Ok ([7, 8], []) \<and>
     Err SysBusy \<notin> set rs \<and> dp_two_phase (prod_ep q) = None \<and> concat (map accepted_of rs) = taken @ dp_stream q"
proof -
  let ?opts = "\<lparr>opt_element_size = 1, opt_capacity = 4\<rparr>" and ?mem = "\<lambda>c :: u32. Some (replicate (unat c) (0 :: byte))"
  let ?p = "\<lparr>shm = [0, 0, 0, 0], prod_range = range_empty, cons_range = range_empty, prod_ep = dp_endpoint_new,
     cons_ep = dp_endpoint_new, element_size = 1, poisoned = False, dp_next_watch_id = 1\<rparr> :: u64 dpair"
  let ?xs = "[SWrite [7, 8] True, SWriteTx [5] None, SReadTx (Some 1)]"
  have rep: "replicate 4 (0 :: byte) = [0, 0, 0, 0]" by (simp add: numeral_eq_Suc)
  have c: "create_pair (Some [0, 0, 0, 0]) 1 1 4 = Ok ?p" by (simp add: create_pair_def ring_new_def)
  then have p: "sys_create ?mem 1 ?opts = Ok ?p" using rep by (simp add: sys_create_def)
  have inv: "dp_inv ?p" "dp_stream ?p = []" using create_pair_inv(1,2) [OF c] by simp_all
  have "fst (dp_write ?p Producer [7, 8] 2 True) = Ok 2"
    by (simp add: dp_write_eq [OF inv(1) _ refl refl] Let_def dp_room_def inv(2)) (simp add: dp_endpoint_new_def)
  then obtain q1 ns1 where "dp_write ?p Producer [7, 8] 2 True = (Ok 2, q1, ns1)" by (metis prod.collapse)
  then have w: "fst (sys_step ?p (SWrite [7, 8] True)) = Ok ([7, 8], [])"
    by (simp add: sys_step_def sys_write_def u32_try_from_def)
  obtain rs q where r: "sys_run ?p ?xs = (rs, q)" by fastforce
  then have h: "hd rs = Ok ([7, 8], [])" using w by (auto split: prod.splits)
  from api_session_fifo [OF p _ _ r] show ?thesis using p r h
    by (intro exI [of _ ?p] exI [of _ rs] exI [of _ q]) auto
qed

end
