(* ===== verification/HarnessWorld.thy ===== *)
theory HarnessWorld
  imports Casefile Waiter HandleTable SharedBuffer "HOL-Library.AList"
begin

text \<open>
  The process of the candidate harness (\<open>crates/mojo-rs-interop/src/bin/candidate-harness.rs\<close>) with all objects of the core in
  it: the handle table over message pipes, data pipes, shared buffers and platform handles, and traps.  \<open>Arc\<close>s are
  references by name; a handle that is dropped closes its slot and the endpoint behind it, and the last reference to a
  message pipe drops the handles that wait in its messages.
\<close>

section \<open>The objects of a process\<close>

text \<open>A dispatcher is named by the object behind it; an \<open>Arc\<close> of it is a copy of the name.\<close>

datatype dispatcher_ref =
    PipeEnd nat pipe_side
  | DataEnd nat data_pipe_end
  | BufferRef nat
  | PlatformRef nat

text \<open>A watch callback holds a weak reference to its trap, and the context of the trigger.\<close>

type_synonym trap_callback = "nat \<times> u64"

text \<open>
  The harness and everything it owns.  A message pipe or a trap that has been freed is \<open>None\<close>; the other objects own
  nothing whose release is visible.  \<open>w_locals\<close> are references held by a call in progress, \<open>w_busy\<close> the trap whose
  lock it holds; a second attempt to take that lock sets \<open>w_stuck\<close>.
\<close>

record 'j world =
  w_table :: "dispatcher_ref table"
  w_pipes :: "trap_callback pipe option list"
  w_datas :: "trap_callback dpair list"
  w_buffers :: "shared_buffer list"
  w_pages :: page_store
  w_platforms :: "byte list list"
  w_traps :: "dispatcher_ref trap option list"
  w_sinks :: "trap_event list list"
  w_locals :: "dispatcher_ref list"
  w_busy :: "nat option"
  w_stuck :: bool
  w_pipe_watch :: u64
  w_data_watch :: u64
  w_tokens :: "(string \<times> handle) list"
  w_trap_tokens :: "(string \<times> nat) list"
  w_sink_tokens :: "(string \<times> nat) list"
  w_mappings :: "(string \<times> u64) list"
  w_map_table :: mapping_table
  w_events :: "'j harness_event list"
  w_seq :: u64

definition world_new :: "'j world" where
  "world_new = \<lparr>w_table = table_new, w_pipes = [], w_datas = [], w_buffers = [], w_pages = (\<lambda>_. []), w_platforms = [],
     w_traps = [], w_sinks = [], w_locals = [], w_busy = None, w_stuck = False, w_pipe_watch = 1, w_data_watch = 1,
     w_tokens = [], w_trap_tokens = [], w_sink_tokens = [], w_mappings = [], w_map_table = Map.empty, w_events = [],
     w_seq = 0\<rparr>"

definition pipe_at :: "'j world \<Rightarrow> nat \<Rightarrow> trap_callback pipe option" where
  "pipe_at w i = (if i < length (w_pipes w) then w_pipes w ! i else None)"

definition trap_at :: "'j world \<Rightarrow> nat \<Rightarrow> dispatcher_ref trap option" where
  "trap_at w n = (if n < length (w_traps w) then w_traps w ! n else None)"

definition set_pipe :: "'j world \<Rightarrow> nat \<Rightarrow> trap_callback pipe \<Rightarrow> 'j world" where
  "set_pipe w i p = w\<lparr>w_pipes := (w_pipes w)[i := Some p]\<rparr>"

definition set_data :: "'j world \<Rightarrow> nat \<Rightarrow> trap_callback dpair \<Rightarrow> 'j world" where
  "set_data w i p = w\<lparr>w_datas := (w_datas w)[i := p]\<rparr>"

definition set_trap :: "'j world \<Rightarrow> nat \<Rightarrow> dispatcher_ref trap \<Rightarrow> 'j world" where
  "set_trap w n t = w\<lparr>w_traps := (w_traps w)[n := Some t]\<rparr>"

definition push_sink :: "'j world \<Rightarrow> nat \<Rightarrow> trap_event list \<Rightarrow> 'j world" where
  "push_sink w n es = w\<lparr>w_sinks := (w_sinks w)[n := w_sinks w ! n @ es]\<rparr>"

section \<open>Dispatchers\<close>

text \<open>
  The dynamic calls of \<open>Dispatcher\<close>.  A reference keeps its object alive, so that the calls on freed objects never happen.
  The watch ids of message pipes come from one counter, those of data pipes from another.
\<close>

definition query_ref :: "'j world \<Rightarrow> dispatcher_ref \<Rightarrow> signals_state \<times> 'j world" where
  "query_ref w d = (case d of
       PipeEnd i s \<Rightarrow> (case pipe_at w i of Some p \<Rightarrow> (query_signals p s, w) | None \<Rightarrow> (signals_default, w))
     | DataEnd i e \<Rightarrow> (case dpair_query (w_datas w ! i) e of (st, q) \<Rightarrow> (st, set_data w i q))
     | _ \<Rightarrow> (signals_default, w))"

definition start_ref :: "'j world \<Rightarrow> dispatcher_ref \<Rightarrow> signals \<Rightarrow> trap_callback \<Rightarrow> watch_id \<times> 'j world" where
  "start_ref w d s cb = (case d of
       PipeEnd i e \<Rightarrow>
         (case pipe_at w i of
            Some p \<Rightarrow>
              (case register_watch (p\<lparr>next_watch_id := w_pipe_watch w\<rparr>) e s cb of
                 (k, q) \<Rightarrow> (k, (set_pipe w i q)\<lparr>w_pipe_watch := next_watch_id q\<rparr>))
          | None \<Rightarrow> (0, w))
     | DataEnd i e \<Rightarrow>
         (case dp_register_watch ((w_datas w ! i)\<lparr>dp_next_watch_id := w_data_watch w\<rparr>) e s cb of
            (k, q) \<Rightarrow> (k, (set_data w i q)\<lparr>w_data_watch := dp_next_watch_id q\<rparr>))
     | _ \<Rightarrow> (0, w))"

definition cancel_ref :: "'j world \<Rightarrow> dispatcher_ref \<Rightarrow> watch_id \<Rightarrow> 'j world" where
  "cancel_ref w d k = (case d of
       PipeEnd i e \<Rightarrow> (case pipe_at w i of Some p \<Rightarrow> set_pipe w i (cancel_registered_watch p e k) | None \<Rightarrow> w)
     | DataEnd i e \<Rightarrow> set_data w i (dp_cancel_watch (w_datas w ! i) e k)
     | _ \<Rightarrow> w)"

definition ref_ops :: "nat \<Rightarrow> (dispatcher_ref, 'j world) dispatcher_ops" where
  "ref_ops n = \<lparr>d_query = query_ref, d_start = (\<lambda>w d s c. start_ref w d s (n, c)), d_cancel = cancel_ref\<rparr>"

text \<open>The callbacks that a call makes: each goes to its trap, if that still exists, under the lock of the trap.\<close>

fun notify :: "'j world \<Rightarrow> trap_callback notification list \<Rightarrow> 'j world" where
  "notify w [] = w"
| "notify w (n # ns) =
     (let (t, c) = n_callback n in
      case trap_at w t of
        None \<Rightarrow> notify w ns
      | Some tr \<Rightarrow>
          if w_busy w = Some t then notify (w\<lparr>w_stuck := True\<rparr>) ns
          else (case on_watch tr c (n_state n) (n_kind n) of
                  (tr', es) \<Rightarrow> notify (push_sink (set_trap w t tr') t es) ns))"

definition closed_ref :: "'j world \<Rightarrow> dispatcher_ref \<Rightarrow> 'j world" where
  "closed_ref w d = (case d of
       PipeEnd i s \<Rightarrow> (case pipe_at w i of
           Some p \<Rightarrow> (case pipe_close p s of (q, ns) \<Rightarrow> notify (set_pipe w i q) ns)
         | None \<Rightarrow> w)
     | DataEnd i e \<Rightarrow> (case dp_close (w_datas w ! i) e of (_, q, ns) \<Rightarrow> notify (set_data w i q) ns)
     | _ \<Rightarrow> w)"

section \<open>Releasing\<close>

text \<open>Who refers to a message pipe: entries of the table, triggers of traps (also removed ones), and calls in progress.\<close>

fun refers :: "nat \<Rightarrow> dispatcher_ref \<Rightarrow> bool" where
  "refers i (PipeEnd j _) \<longleftrightarrow> j = i"
| "refers i _ \<longleftrightarrow> False"

definition held_refs :: "'j world \<Rightarrow> dispatcher_ref list" where
  "held_refs w =
     concat (map (\<lambda>e. case e of None \<Rightarrow> [] | Some x \<Rightarrow> [e_dispatcher x]) (entries (w_table w))) @
     concat (map (\<lambda>t. case t of None \<Rightarrow> [] | Some tr \<Rightarrow> map t_dispatcher (triggers tr)) (w_traps w)) @
     w_locals w"

definition queued_handles :: "trap_callback pipe option \<Rightarrow> handle list" where
  "queued_handles p = (case p of
       None \<Rightarrow> []
     | Some q \<Rightarrow> concat (map m_handles (queue (end_a q) @ queue (end_b q))))"

text \<open>
  A reference goes away: when it was the last one to a message pipe, the pipe is freed, and the handles in its messages
  are dropped next.
\<close>

definition release :: "'j world \<Rightarrow> dispatcher_ref \<Rightarrow> handle list \<times> 'j world" where
  "release w d = (case d of
       PipeEnd i _ \<Rightarrow>
         if list_ex (refers i) (held_refs w) \<or> pipe_at w i = None then ([], w)
         else (queued_handles (pipe_at w i), w\<lparr>w_pipes := (w_pipes w)[i := None]\<rparr>)
     | _ \<Rightarrow> ([], w))"

text \<open>
  \<open>Handle::drop\<close>, one after the other: the slot is closed, the dispatcher told so, and the reference of the table
  released; whatever that drops comes before the handles left.
\<close>

lemma live_count_closed:
  assumes "drop_handle t h = (t', Some d)"
  shows "live_count t' < live_count t"
proof -
  obtain e where e: "entry_at t (h_slot h) = Some e" "t' = t\<lparr>entries := (entries t)[unat (h_slot h) := None], free := free t @ [h_slot h]\<rparr>"
    using assms by (auto simp: drop_handle_def close_slot_def split: option.splits if_splits)
  then have i: "unat (h_slot h) < length (entries t)" "entries t ! unat (h_slot h) \<noteq> None" by (auto simp: entry_at_def split: if_splits)
  let ?i = "unat (h_slot h)" and ?xs = "entries t"
  have "filter (\<lambda>x. x \<noteq> None) (?xs[?i := None]) = filter (\<lambda>x. x \<noteq> None) (take ?i ?xs) @ filter (\<lambda>x. x \<noteq> None) (drop (Suc ?i) ?xs)"
    using i(1) by (simp add: upd_conv_take_nth_drop)
  moreover have "filter (\<lambda>x. x \<noteq> None) ?xs = filter (\<lambda>x. x \<noteq> None) (take ?i ?xs) @ ?xs ! ?i # filter (\<lambda>x. x \<noteq> None) (drop (Suc ?i) ?xs)"
    using i by (subst id_take_nth_drop [OF i(1)]) simp
  ultimately show ?thesis using e(2) by (simp add: live_count_def)
qed

lemma notify_table [simp]: "w_table (notify w ns) = w_table w"
  by (induction w ns rule: notify.induct) (auto simp: set_trap_def push_sink_def split: prod.splits option.splits)

lemma closed_ref_table [simp]: "w_table (closed_ref w d) = w_table w"
  by (auto simp: closed_ref_def set_pipe_def set_data_def split: dispatcher_ref.splits option.splits prod.splits)

lemma release_table [simp]: "w_table (snd (release w d)) = w_table w"
  by (auto simp: release_def split: dispatcher_ref.splits)

function drop_handles :: "handle list \<Rightarrow> 'j world \<Rightarrow> 'j world" where
  "drop_handles [] w = w"
| "drop_handles (h # hs) w =
     (case drop_handle (w_table w) h of
        (t, None) \<Rightarrow> drop_handles hs (w\<lparr>w_table := t\<rparr>)
      | (t, Some d) \<Rightarrow>
          (case release (closed_ref (w\<lparr>w_table := t\<rparr>) d) d of (inner, w') \<Rightarrow> drop_handles (inner @ hs) w'))"
  by pat_completeness auto
termination
proof (relation "(\<lambda>(hs, w). live_count (w_table w)) <*mlex*> measure (\<lambda>(hs, w). length hs)", goal_cases)
  case 1
  show ?case by (simp add: wf_mlex)
next
  case (2 h hs w t y)
  then have "t = w_table w" by (auto simp: drop_handle_def close_slot_def split: option.splits if_splits)
  then show ?case by (simp add: mlex_leq)
next
  case (3 h hs w t y d inner w')
  have "w' = snd (release (closed_ref (w\<lparr>w_table := t\<rparr>) d) d)" using 3(3) by (metis snd_conv)
  then have "w_table w' = t" by simp
  then show ?case using live_count_closed [of "w_table w" h t d] 3 by (simp add: mlex_less)
qed

definition release_dropping :: "'j world \<Rightarrow> dispatcher_ref \<Rightarrow> 'j world" where
  "release_dropping w d = (case release w d of (inner, w') \<Rightarrow> drop_handles inner w')"

text \<open>The last reference to a trap goes away: it is freed, and then its triggers release their dispatchers.\<close>

fun release_all :: "dispatcher_ref list \<Rightarrow> 'j world \<Rightarrow> 'j world" where
  "release_all [] w = w"
| "release_all (d # ds) w = release_all ds (release_dropping (w\<lparr>w_locals := remove1 d (w_locals w)\<rparr>) d)"

definition free_trap :: "'j world \<Rightarrow> nat \<Rightarrow> 'j world" where
  "free_trap w n = (case trap_at w n of
       None \<Rightarrow> w
     | Some tr \<Rightarrow>
         let ds = map t_dispatcher (triggers tr) in
         release_all ds (w\<lparr>w_traps := (w_traps w)[n := None], w_locals := ds @ w_locals w\<rparr>))"

text \<open>
  \<open>Trap::close\<close>, with the references it drops: those of triggers removed earlier while the lock of the trap is held, those
  of the others after their watch is cancelled and their event delivered.
\<close>

fun drain_removed :: "dispatcher_ref trigger list \<Rightarrow> 'j world \<Rightarrow> 'j world" where
  "drain_removed [] w = w"
| "drain_removed (x # xs) w =
     drain_removed xs
       (if t_removed x then release_dropping (w\<lparr>w_locals := remove1 (t_dispatcher x) (w_locals w)\<rparr>) (t_dispatcher x) else w)"

fun cancel_kept :: "nat \<Rightarrow> dispatcher_ref trigger list \<Rightarrow> 'j world \<Rightarrow> 'j world" where
  "cancel_kept n [] w = w"
| "cancel_kept n (x # xs) w =
     (let w1 = cancel_ref w (t_dispatcher x) (t_watch x);
          w2 = push_sink w1 n [cancelled_event (t_context x)];
          w3 = w2\<lparr>w_locals := remove1 (t_dispatcher x) (w_locals w2)\<rparr>
      in cancel_kept n xs (release_dropping w3 (t_dispatcher x)))"

definition close_trap :: "'j world \<Rightarrow> nat \<Rightarrow> 'j world" where
  "close_trap w n = (case trap_at w n of
       None \<Rightarrow> w
     | Some tr \<Rightarrow>
         let xs = triggers tr;
             w1 = (set_trap w n (tr\<lparr>triggers := []\<rparr>))\<lparr>w_locals := map t_dispatcher xs @ w_locals w, w_busy := Some n\<rparr>;
             w2 = drain_removed xs w1
         in cancel_kept n (filter (\<lambda>x. \<not> t_removed x) xs) (w2\<lparr>w_busy := None\<rparr>))"

end
