(* ===== verification/Harness.thy ===== *)
theory Harness
  imports HarnessWorld
begin

text \<open>
  The operations of the candidate harness (\<open>crates/mojo-rs-interop/src/bin/candidate-harness.rs\<close>), each a function of the world
  that may stop the harness, run a case file over it and write its events.
\<close>

section \<open>What the harness finds outside\<close>

text \<open>
  JSON values are serde's: what is used of the arguments of an operation are these lookups (\<open>as_str\<close> and the like of a
  member; of an array, the strings of its elements, empty for others).  Hexadecimal coding is a crate.  The answers of the
  system depend on the moment, for which the number of events emitted stands.
\<close>

record 'j op_env =
  a_str :: "'j \<Rightarrow> string \<Rightarrow> string option"
  a_u64 :: "'j \<Rightarrow> string \<Rightarrow> u64 option"
  a_bool :: "'j \<Rightarrow> string \<Rightarrow> bool option"
  a_strs :: "'j \<Rightarrow> string \<Rightarrow> string list option"
  hex_decode :: "string \<Rightarrow> string + byte list"
  hex_encode :: "byte list \<Rightarrow> string"
  os_pages :: "u64 \<Rightarrow> u32 \<Rightarrow> byte list option"
  os_region :: "u64 \<Rightarrow> nat option"
  os_dup :: "u64 \<Rightarrow> bool"
  os_mmap :: "u64 \<Rightarrow> u64 option"
  os_pipe :: "u64 \<Rightarrow> bool"
  os_deadline :: "u64 \<Rightarrow> bool"

text \<open>
  How an operation ends: with a world, with an error that stops the harness, never, or by writing outside of its
  memory.
\<close>

datatype 'w harness_run = Done 'w | Stopped string | Hangs | Crashes

fun and_then :: "'a harness_run \<Rightarrow> ('a \<Rightarrow> 'b harness_run) \<Rightarrow> 'b harness_run" where
  "and_then (Done a) f = f a"
| "and_then (Stopped e) f = Stopped e"
| "and_then Hangs f = Hangs"
| "and_then Crashes f = Crashes"

section \<open>Events\<close>

definition emit_event ::
  "'j world \<Rightarrow> u64 \<Rightarrow> event_kind \<Rightarrow> string \<Rightarrow> string option \<Rightarrow> ('j harness_event \<Rightarrow> 'j harness_event) \<Rightarrow> 'j world" where
  "emit_event w oid kind result token fill =
     w\<lparr>w_seq := w_seq w + 1,
       w_events := w_events w @ [fill ((result_event (w_seq w + 1) oid result)\<lparr>he_event := kind, he_handle := token\<rparr>)]\<rparr>"

definition result_name :: "'a core_result \<Rightarrow> string" where
  "result_name r = (case r of Err e \<Rightarrow> error_name e | _ \<Rightarrow> ''MOJO_RESULT_OK'')"

definition signal_words :: "signals \<Rightarrow> string list" where
  "signal_words s = map snd (filter (\<lambda>(sig, _). contains s sig)
     [(READABLE, ''READABLE''), (WRITABLE, ''WRITABLE''), (PEER_CLOSED, ''PEER_CLOSED''),
      (NEW_DATA_READABLE, ''NEW_DATA_READABLE''), (PEER_REMOTE, ''PEER_REMOTE''), (QUOTA_EXCEEDED, ''QUOTA_EXCEEDED'')])"

definition signal_state_of :: "signals_state \<Rightarrow> signal_names" where
  "signal_state_of st = \<lparr>sn_satisfied = signal_words (satisfied st), sn_satisfiable = signal_words (satisfiable st)\<rparr>"

definition signal_of :: "string \<Rightarrow> signals option" where
  "signal_of n =
     (if n = ''READABLE'' then Some READABLE else if n = ''WRITABLE'' then Some WRITABLE
      else if n = ''PEER_CLOSED'' then Some PEER_CLOSED else if n = ''NEW_DATA_READABLE'' then Some NEW_DATA_READABLE
      else if n = ''PEER_REMOTE'' then Some PEER_REMOTE else if n = ''QUOTA_EXCEEDED'' then Some QUOTA_EXCEEDED
      else None)"

fun parse_signals_from :: "signals \<Rightarrow> string list \<Rightarrow> signals harness_run" where
  "parse_signals_from s [] = Done s"
| "parse_signals_from s (n # ns) =
     (case signal_of n of None \<Rightarrow> Stopped (''unknown signal: '' @ n) | Some x \<Rightarrow> parse_signals_from (s OR x) ns)"

definition parse_signals :: "string list option \<Rightarrow> signals harness_run" where
  "parse_signals ns = parse_signals_from NONE (case ns of None \<Rightarrow> [] | Some xs \<Rightarrow> xs)"

definition emit_trap_payload :: "u64 \<Rightarrow> 'j world \<Rightarrow> trap_event \<Rightarrow> 'j world" where
  "emit_trap_payload oid w e =
     emit_event w oid EvTrap (error_name (event_result e)) None
       (\<lambda>ev. ev\<lparr>he_trigger_context := Some (trigger_context e), he_signals_state := Some (signal_state_of (event_state e))\<rparr>)"

definition emit_trap_events :: "'j world \<Rightarrow> u64 \<Rightarrow> string \<Rightarrow> nat \<Rightarrow> 'j world harness_run" where
  "emit_trap_events w oid trap_token min_count =
     (case map_of (w_sink_tokens w) trap_token of
        None \<Rightarrow> Stopped ''unknown trap sink''
      | Some n \<Rightarrow>
          let drained = w_sinks w ! n in
          if length drained < min_count
          then Stopped (''trap sink has '' @ decimal (length drained) @ '' events, expected at least '' @ decimal min_count)
          else Done (foldl (emit_trap_payload oid) (w\<lparr>w_sinks := (w_sinks w)[n := []]\<rparr>) drained))"

definition emit_data ::
  "'j op_env \<Rightarrow> 'j world \<Rightarrow> u64 \<Rightarrow> string \<Rightarrow> string \<Rightarrow> u32 option \<Rightarrow> byte list option \<Rightarrow> 'j world" where
  "emit_data env w oid result handle num_bytes payload =
     emit_event w oid EvData result (Some handle)
       (\<lambda>ev. ev\<lparr>he_num_bytes := num_bytes, he_payload_hex := map_option (hex_encode env) payload\<rparr>)"

definition emit_buffer ::
  "'j op_env \<Rightarrow> 'j world \<Rightarrow> u64 \<Rightarrow> string \<Rightarrow> string option \<Rightarrow> u64 option \<Rightarrow> byte list option \<Rightarrow> 'j world" where
  "emit_buffer env w oid result token bytes payload =
     emit_event w oid EvBuffer result token
       (\<lambda>ev. ev\<lparr>he_size := bytes, he_payload_hex := map_option (hex_encode env) payload\<rparr>)"

abbreviation INVALID :: string where "INVALID \<equiv> ''MOJO_RESULT_INVALID_ARGUMENT''"
abbreviation OKAY :: string where "OKAY \<equiv> ''MOJO_RESULT_OK''"

section \<open>Tokens\<close>

definition insert_token :: "string \<Rightarrow> handle \<Rightarrow> 'j world \<Rightarrow> 'j world" where
  "insert_token t h w =
     (let w1 = w\<lparr>w_tokens := AList.update t h (w_tokens w)\<rparr> in
      case map_of (w_tokens w) t of None \<Rightarrow> w1 | Some old \<Rightarrow> drop_handles [old] w1)"

definition remove_token :: "string \<Rightarrow> 'j world \<Rightarrow> 'j world" where
  "remove_token t w = w\<lparr>w_tokens := AList.delete t (w_tokens w)\<rparr>"

fun take_tokens :: "string list \<Rightarrow> 'j world \<Rightarrow> (handle list \<times> 'j world) harness_run" where
  "take_tokens [] w = Done ([], w)"
| "take_tokens (t # ts) w =
     (case map_of (w_tokens w) t of
        None \<Rightarrow> Stopped (''missing handle '' @ t)
      | Some h \<Rightarrow> and_then (take_tokens ts (remove_token t w)) (\<lambda>(hs, w'). Done (h # hs, w')))"

text \<open>\<open>handle_opt\<close>, followed by what the operation does without the handle.\<close>

definition expects_invalid :: "'j expectation option \<Rightarrow> bool" where
  "expects_invalid expect = (case expect of None \<Rightarrow> False | Some e \<Rightarrow> ex_result e = Some INVALID)"

definition handle_opt ::
  "'j world \<Rightarrow> string \<Rightarrow> 'j expectation option \<Rightarrow> 'j world \<Rightarrow> (handle \<Rightarrow> 'j world harness_run) \<Rightarrow> 'j world harness_run" where
  "handle_opt w token expect missing f =
     (case map_of (w_tokens w) token of
        Some h \<Rightarrow> f h
      | None \<Rightarrow> if expects_invalid expect then Done missing else Stopped (''unknown handle token: '' @ token))"

text \<open>\<open>table.get\<close> with its error as text.\<close>

definition resolve :: "'j world \<Rightarrow> handle \<Rightarrow> (dispatcher_ref \<Rightarrow> 'a harness_run) \<Rightarrow> 'a harness_run" where
  "resolve w h f = (case get (w_table w) (h_value h) of
       Ok d \<Rightarrow> f d
     | Err e \<Rightarrow> Stopped (error_name e)
     | Panic \<Rightarrow> Crashes)"

definition add_ref :: "'j world \<Rightarrow> dispatcher_ref \<Rightarrow> (handle \<Rightarrow> 'j world \<Rightarrow> 'a harness_run) \<Rightarrow> 'a harness_run" where
  "add_ref w d f = (case add (w_table w) d of
       (Ok h, t) \<Rightarrow> f h (w\<lparr>w_table := t\<rparr>)
     | (Err e, t) \<Rightarrow> Stopped (error_name e)
     | (Panic, t) \<Rightarrow> Crashes)"

definition produced :: "'j expectation option \<Rightarrow> string list" where
  "produced expect = (case expect of None \<Rightarrow> [] | Some e \<Rightarrow> ex_produce e)"

text \<open>A required string argument.\<close>

definition arg :: "'j op_env \<Rightarrow> 'j \<Rightarrow> string \<Rightarrow> string \<Rightarrow> (string \<Rightarrow> 'a harness_run) \<Rightarrow> 'a harness_run" where
  "arg env args op name f = (case a_str env args name of None \<Rightarrow> Stopped (op @ '': '' @ name) | Some s \<Rightarrow> f s)"

definition str_or :: "string \<Rightarrow> string option \<Rightarrow> string" where
  "str_or d s = (case s of None \<Rightarrow> d | Some x \<Rightarrow> x)"

definition u64_or :: "u64 \<Rightarrow> u64 option \<Rightarrow> u64" where
  "u64_or d n = (case n of None \<Rightarrow> d | Some x \<Rightarrow> x)"

definition hex_arg :: "'j op_env \<Rightarrow> 'j \<Rightarrow> string \<Rightarrow> string \<Rightarrow> (byte list \<Rightarrow> 'a harness_run) \<Rightarrow> 'a harness_run" where
  "hex_arg env args name what f = (case hex_decode env (str_or [] (a_str env args name)) of
       Inl e \<Rightarrow> Stopped (what @ '' hex: '' @ e)
     | Inr b \<Rightarrow> f b)"
section \<open>Operations on message pipes and handles\<close>

definition op_message_pipe_create :: "'j world \<Rightarrow> u64 \<Rightarrow> 'j expectation option \<Rightarrow> 'j world harness_run" where
  "op_message_pipe_create w oid expect =
     (let i = length (w_pipes w);
          w1 = w\<lparr>w_pipes := w_pipes w @ [Some (pipe_create (w_pipe_watch w))]\<rparr> in
      add_ref w1 (PipeEnd i SideA) (\<lambda>ha w2.
      add_ref w2 (PipeEnd i SideB) (\<lambda>hb w3.
      let produce = produced expect in
      if length produce = 2
      then Done (emit_event (insert_token (produce ! 1) hb (insert_token (produce ! 0) ha w3)) oid EvResult OKAY None (\<lambda>e. e))
      else Done (drop_handles [hb, ha] (emit_event w3 oid EvResult OKAY None (\<lambda>e. e))))))"

text \<open>A write that is refused drops the message, and with it the handles attached.\<close>

definition write_pipe ::
  "'j world \<Rightarrow> nat \<Rightarrow> pipe_side \<Rightarrow> byte list \<Rightarrow> handle list \<Rightarrow> (unit core_result \<times> 'j world) harness_run" where
  "write_pipe w i s payload hs =
     (case pipe_at w i of
        None \<Rightarrow> Crashes
      | Some p \<Rightarrow>
          (case pipe_write p s \<lparr>m_data = payload, m_handles = hs\<rparr> of
             (Ok u, q, ns) \<Rightarrow> Done (Ok u, notify (set_pipe w i q) ns)
           | (r, q, ns) \<Rightarrow> Done (r, drop_handles hs (notify (set_pipe w i q) ns))))"

definition op_write_message ::
  "'j op_env \<Rightarrow> 'j world \<Rightarrow> u64 \<Rightarrow> 'j \<Rightarrow> 'j expectation option \<Rightarrow> 'j world harness_run" where
  "op_write_message env w oid args expect =
     arg env args ''write_message'' ''handle'' (\<lambda>token.
     hex_arg env args ''payload_hex'' ''payload'' (\<lambda>payload.
     and_then (take_tokens (case a_strs env args ''handles'' of None \<Rightarrow> [] | Some ts \<Rightarrow> ts) w) (\<lambda>(hs, w1).
     handle_opt w1 token expect (drop_handles hs (emit_event w1 oid EvResult INVALID (Some token) (\<lambda>e. e))) (\<lambda>h.
     resolve w1 h (\<lambda>d. case d of
         PipeEnd i s \<Rightarrow>
           and_then (write_pipe w1 i s payload hs) (\<lambda>(r, w2).
           Done (emit_event w2 oid EvResult (result_name r) (Some token) (\<lambda>e. e)))
       | _ \<Rightarrow> Stopped ''handle is not a message pipe'')))))"

definition attachment_token :: "string \<Rightarrow> nat \<Rightarrow> string" where
  "attachment_token token i = token @ ''_handle_'' @ decimal i"

fun insert_attachments :: "string \<Rightarrow> nat \<Rightarrow> handle list \<Rightarrow> 'j world \<Rightarrow> 'j world" where
  "insert_attachments token i [] w = w"
| "insert_attachments token i (h # hs) w =
     insert_attachments token (Suc i) hs (insert_token (attachment_token token i) h w)"

definition op_read_message ::
  "'j op_env \<Rightarrow> 'j world \<Rightarrow> u64 \<Rightarrow> 'j \<Rightarrow> 'j expectation option \<Rightarrow> 'j world harness_run" where
  "op_read_message env w oid args expect =
     arg env args ''read_message'' ''handle'' (\<lambda>token.
     handle_opt w token expect (emit_event w oid EvMessage INVALID (Some token) (\<lambda>e. e)) (\<lambda>h.
     resolve w h (\<lambda>d. case d of
         PipeEnd i s \<Rightarrow>
           (case pipe_at w i of
              None \<Rightarrow> Crashes
            | Some p \<Rightarrow>
                (case pipe_read p s None False of
                   (Ok (ReadMessage data hs), q, ns) \<Rightarrow>
                     let w1 = notify (set_pipe w i q) ns;
                         names = map (attachment_token token) [0..<length hs];
                         w2 = emit_event w1 oid EvMessage OKAY (Some token)
                                (\<lambda>e. e\<lparr>he_payload_hex := Some (hex_encode env data), he_handles := Some names\<rparr>)
                     in Done (insert_attachments token 0 hs w2)
                 | (Ok (TooLarge n), q, ns) \<Rightarrow>
                     Done (emit_event (notify (set_pipe w i q) ns) oid EvMessage ''MOJO_RESULT_RESOURCE_EXHAUSTED'' (Some token)
                             (\<lambda>e. e\<lparr>he_note := Some (''required_size='' @ decimal n)\<rparr>))
                 | (r, q, ns) \<Rightarrow>
                     Done (emit_event (notify (set_pipe w i q) ns) oid EvMessage (result_name r) (Some token) (\<lambda>e. e))))
       | _ \<Rightarrow> Stopped ''handle is not a message pipe'')))"

definition op_query_signals_state ::
  "'j op_env \<Rightarrow> 'j world \<Rightarrow> u64 \<Rightarrow> 'j \<Rightarrow> 'j expectation option \<Rightarrow> 'j world harness_run" where
  "op_query_signals_state env w oid args expect =
     arg env args ''query_signals_state'' ''handle'' (\<lambda>token.
     let invalid = emit_event w oid EvSignals INVALID (Some token) (\<lambda>e. e) in
     handle_opt w token expect invalid (\<lambda>h.
     resolve w h (\<lambda>d.
     if (case d of PipeEnd _ _ \<Rightarrow> True | DataEnd _ _ \<Rightarrow> True | _ \<Rightarrow> False)
     then (case query_ref w d of (st, w1) \<Rightarrow>
             Done (emit_event w1 oid EvSignals OKAY (Some token) (\<lambda>e. e\<lparr>he_signals := Some (signal_state_of st)\<rparr>)))
     else Done invalid)))"

text \<open>The handle is dropped after the event.\<close>

definition op_close :: "'j op_env \<Rightarrow> 'j world \<Rightarrow> u64 \<Rightarrow> 'j \<Rightarrow> 'j world harness_run" where
  "op_close env w oid args =
     arg env args ''close'' ''handle'' (\<lambda>token.
     case map_of (w_tokens w) token of
       None \<Rightarrow> Done (emit_event w oid EvResult INVALID (Some token) (\<lambda>e. e))
     | Some h \<Rightarrow> Done (drop_handles [h] (emit_event (remove_token token w) oid EvResult OKAY (Some token) (\<lambda>e. e))))"

text \<open>
  A wait by the only thread: nothing calls it back.  It goes on until it returns or parks; once parked, only its deadline
  moves it.  Its callback belongs to no trap.
\<close>

fun wait_alone ::
  "'j world \<Rightarrow> dispatcher_ref wait_request \<Rightarrow> nat \<Rightarrow> nat \<Rightarrow> wait_pc \<Rightarrow> bool \<Rightarrow> wait_pc \<times> 'j world \<times> bool" where
  "wait_alone w rq now 0 pc woken = (pc, w, woken)"
| "wait_alone w rq now (Suc n) pc woken =
     (case wait_step (ref_ops (length (w_traps w))) 0 rq now pc w woken of
        None \<Rightarrow> (pc, w, woken)
      | Some (pc', w', woken') \<Rightarrow> wait_alone w' rq now n pc' woken')"

definition harness_wait ::
  "'j world \<Rightarrow> dispatcher_ref \<Rightarrow> signals \<Rightarrow> u64 option \<Rightarrow> (signals_state core_result \<times> 'j world) harness_run" where
  "harness_wait w d s deadline =
     (let rq = \<lparr>rq_dispatcher = d, rq_signals = s, rq_deadline = map_option unat deadline\<rparr> in
      case wait_alone w rq 0 4 Looping False of
        (Returned r, w1, _) \<Rightarrow> Done (r, w1)
      | (pc, w1, woken) \<Rightarrow>
          (case deadline of
             None \<Rightarrow> Hangs
           | Some ms \<Rightarrow>
               (case wait_alone w1 rq (unat ms) 3 pc woken of
                  (Returned r, w2, _) \<Rightarrow> Done (r, w2)
                | _ \<Rightarrow> Hangs)))"

definition op_wait ::
  "'j op_env \<Rightarrow> 'j world \<Rightarrow> u64 \<Rightarrow> 'j \<Rightarrow> 'j expectation option \<Rightarrow> 'j world harness_run" where
  "op_wait env w oid args expect =
     arg env args ''wait'' ''handle'' (\<lambda>token.
     handle_opt w token expect (emit_event w oid EvResult INVALID (Some token) (\<lambda>e. e)) (\<lambda>h.
     resolve w h (\<lambda>d.
     and_then (parse_signals (a_strs env args ''signals'')) (\<lambda>s.
     let deadline = (case a_u64 env args ''deadline_ms'' of
           None \<Rightarrow> None | Some ms \<Rightarrow> if os_deadline env ms then Some ms else None) in
     and_then (harness_wait w d s deadline) (\<lambda>(r, w1).
     case query_ref w1 d of (st, w2) \<Rightarrow>
       Done (emit_event w2 oid EvResult (result_name r) (Some token) (\<lambda>e. e\<lparr>he_signals := Some (signal_state_of st)\<rparr>)))))))"

text \<open>The content is copied into a mapping of 4096 bytes without a check of its length.\<close>

definition op_platform_handle_wrap ::
  "'j op_env \<Rightarrow> 'j world \<Rightarrow> u64 \<Rightarrow> 'j \<Rightarrow> 'j expectation option \<Rightarrow> 'j world harness_run" where
  "op_platform_handle_wrap env w oid args expect =
     (let source = str_or ''memfd'' (a_str env args ''source'') in
      hex_arg env args ''content_hex'' ''content'' (\<lambda>content.
      and_then
        (if source = ''memfd'' then
           (if os_region env (w_seq w) = None then Stopped ''memfd''
            else if 4096 < length content then Crashes
            else if \<not> os_dup env (w_seq w) then Stopped ''dup failed''
            else Done (content @ replicate (4096 - length content) 0))
         else if source = ''pipe'' then (if os_pipe env (w_seq w) then Done [] else Stopped ''pipe failed'')
         else Stopped (''unknown platform handle source: '' @ source)) (\<lambda>file.
      add_ref (w\<lparr>w_platforms := w_platforms w @ [file]\<rparr>) (PlatformRef (length (w_platforms w))) (\<lambda>h w1.
      let token = (case produced expect of [] \<Rightarrow> ''p0'' | t # _ \<Rightarrow> t) in
      Done (emit_event (insert_token token h w1) oid EvHandle OKAY (Some token) (\<lambda>e. e))))))"

definition op_platform_handle_unwrap ::
  "'j op_env \<Rightarrow> 'j world \<Rightarrow> u64 \<Rightarrow> 'j \<Rightarrow> 'j world harness_run" where
  "op_platform_handle_unwrap env w oid args =
     arg env args ''platform_handle_unwrap'' ''handle'' (\<lambda>token.
     case map_of (w_tokens w) token of
       None \<Rightarrow> Done (emit_event w oid EvHandle INVALID (Some token) (\<lambda>e. e))
     | Some h \<Rightarrow>
         resolve w h (\<lambda>d. case d of
             PlatformRef i \<Rightarrow>
               Done (drop_handles [h] (emit_event (remove_token token w) oid EvHandle OKAY (Some token)
                       (\<lambda>e. e\<lparr>he_payload_hex := Some (hex_encode env (w_platforms w ! i))\<rparr>)))
           | _ \<Rightarrow> Stopped ''handle is not a platform handle''))"
section \<open>Operations on traps\<close>

definition op_trap_create :: "'j op_env \<Rightarrow> 'j world \<Rightarrow> u64 \<Rightarrow> 'j \<Rightarrow> 'j world harness_run" where
  "op_trap_create env w oid args =
     (let token = str_or ''t0'' (a_str env args ''produce'');
          n = length (w_traps w);
          w1 = w\<lparr>w_traps := w_traps w @ [Some trap_create], w_sinks := w_sinks w @ [[]],
                 w_sink_tokens := AList.update token n (w_sink_tokens w),
                 w_trap_tokens := AList.update token n (w_trap_tokens w)\<rparr>;
          w2 = (case map_of (w_trap_tokens w) token of None \<Rightarrow> w1 | Some old \<Rightarrow> free_trap w1 old)
      in Done (emit_event w2 oid EvResult OKAY None (\<lambda>e. e)))"

definition with_trap ::
  "'j world \<Rightarrow> string \<Rightarrow> (nat \<Rightarrow> dispatcher_ref trap \<Rightarrow> 'j world harness_run) \<Rightarrow> 'j world harness_run" where
  "with_trap w token f =
     (case map_of (w_trap_tokens w) token of
        None \<Rightarrow> Stopped ''unknown trap''
      | Some n \<Rightarrow> (case trap_at w n of None \<Rightarrow> Crashes | Some tr \<Rightarrow> f n tr))"

definition op_trap_add_trigger :: "'j op_env \<Rightarrow> 'j world \<Rightarrow> u64 \<Rightarrow> 'j \<Rightarrow> 'j world harness_run" where
  "op_trap_add_trigger env w oid args =
     arg env args ''trap_add_trigger'' ''trap'' (\<lambda>trap_token.
     arg env args ''trap_add_trigger'' ''handle'' (\<lambda>handle_token.
     and_then (parse_signals (a_strs env args ''signals'')) (\<lambda>s.
     with_trap w trap_token (\<lambda>n tr.
     case map_of (w_tokens w) handle_token of
       None \<Rightarrow> Stopped (''unknown handle token: '' @ handle_token)
     | Some h \<Rightarrow>
         resolve w h (\<lambda>d.
         case add_trigger (ref_ops n) w tr d s (u64_or 0 (a_u64 env args ''context'')) of
           (r, w1, tr') \<Rightarrow> Done (emit_event (set_trap w1 n tr') oid EvResult (result_name r) None (\<lambda>e. e)))))))"

definition op_trap_arm :: "'j op_env \<Rightarrow> 'j world \<Rightarrow> u64 \<Rightarrow> 'j \<Rightarrow> 'j world harness_run" where
  "op_trap_arm env w oid args =
     arg env args ''trap_arm'' ''trap'' (\<lambda>trap_token.
     with_trap w trap_token (\<lambda>n tr.
     case trap_arm (ref_ops n) w tr of
       (r, w1, tr', es) \<Rightarrow>
         let w2 = push_sink (set_trap w1 n tr') n es in
         and_then (if r = Err FailedPrecondition then emit_trap_events w2 oid trap_token 1 else Done w2) (\<lambda>w3.
         Done (emit_event w3 oid EvResult (result_name r) None (\<lambda>e. e)))))"

definition op_trap_remove_trigger :: "'j op_env \<Rightarrow> 'j world \<Rightarrow> u64 \<Rightarrow> 'j \<Rightarrow> 'j world harness_run" where
  "op_trap_remove_trigger env w oid args =
     arg env args ''trap_remove_trigger'' ''trap'' (\<lambda>trap_token.
     with_trap w trap_token (\<lambda>n tr.
     case remove_trigger (ref_ops n) w tr (u64_or 0 (a_u64 env args ''context'')) of
       (r, w1, tr', es) \<Rightarrow>
         Done (emit_event (push_sink (set_trap w1 n tr') n es) oid EvResult (result_name r) None (\<lambda>e. e))))"

text \<open>A thread that takes the lock of the trap twice waits for itself.\<close>

definition op_trap_close :: "'j op_env \<Rightarrow> 'j world \<Rightarrow> u64 \<Rightarrow> 'j \<Rightarrow> 'j world harness_run" where
  "op_trap_close env w oid args =
     arg env args ''trap_close'' ''trap'' (\<lambda>trap_token.
     with_trap w trap_token (\<lambda>n tr.
     let w1 = close_trap (w\<lparr>w_trap_tokens := AList.delete trap_token (w_trap_tokens w)\<rparr>) n in
     if w_stuck w1 then Hangs
     else Done (free_trap (emit_event w1 oid EvResult OKAY None (\<lambda>e. e)) n)))"

text \<open>Nothing adds to the sink while the only thread waits: a first look that finds too few events leads to the timeout.\<close>

definition op_drain_trap_events :: "'j op_env \<Rightarrow> 'j world \<Rightarrow> u64 \<Rightarrow> 'j \<Rightarrow> 'j world harness_run" where
  "op_drain_trap_events env w oid args =
     arg env args ''drain_trap_events'' ''trap'' (\<lambda>trap_token.
     let count = unat (u64_or 1 (a_u64 env args ''count'')) in
     case map_of (w_sink_tokens w) trap_token of
       None \<Rightarrow> Stopped ''unknown trap sink''
     | Some n \<Rightarrow>
         let collected = (if count = 0 then [] else w_sinks w ! n) in
         if length collected < count
         then Stopped (''drain_trap_events timeout ('' @ decimal count @ '' events)'')
         else
           let w1 = (if count = 0 then w else w\<lparr>w_sinks := (w_sinks w)[n := []]\<rparr>) in
           Done (emit_event (foldl (emit_trap_payload oid) w1 collected) oid EvResult OKAY None (\<lambda>e. e)))"

section \<open>Operations on data pipes\<close>

definition op_data_pipe_create ::
  "'j op_env \<Rightarrow> 'j world \<Rightarrow> u64 \<Rightarrow> 'j \<Rightarrow> 'j expectation option \<Rightarrow> 'j world harness_run" where
  "op_data_pipe_create env w oid args expect =
     (let element = ucast (u64_or 1 (a_u64 env args ''element_num_bytes'')) :: u32;
          capacity = ucast (u64_or 0 (a_u64 env args ''capacity_num_bytes'')) :: u32;
          capacity = (if capacity = 0 then 64 * 1024 else capacity) in
      case create_pair (os_pages env (w_seq w) capacity) (w_data_watch w) element capacity of
        Ok p \<Rightarrow>
          let i = length (w_datas w) in
          add_ref (w\<lparr>w_datas := w_datas w @ [p]\<rparr>) (DataEnd i Producer) (\<lambda>hp w1.
          add_ref w1 (DataEnd i Consumer) (\<lambda>hc w2.
          let produce = produced expect in
          if length produce = 2
          then Done (emit_event (insert_token (produce ! 1) hc (insert_token (produce ! 0) hp w2)) oid EvResult OKAY None (\<lambda>e. e))
          else Done (drop_handles [hc, hp] (emit_event w2 oid EvResult OKAY None (\<lambda>e. e)))))
      | Err e \<Rightarrow> Done (emit_event w oid EvResult (error_name e) None (\<lambda>e. e))
      | Panic \<Rightarrow> Crashes)"

text \<open>The end that a token of a data pipe stands for, or the event of the operation for other handles.\<close>

definition on_data ::
  "'j world \<Rightarrow> string \<Rightarrow> 'j expectation option \<Rightarrow> data_pipe_end \<Rightarrow> 'j world \<Rightarrow> 'j world \<Rightarrow>
   (nat \<Rightarrow> trap_callback dpair \<Rightarrow> 'j world harness_run) \<Rightarrow> 'j world harness_run" where
  "on_data w token expect side missing other f =
     handle_opt w token expect missing (\<lambda>h.
     resolve w h (\<lambda>d. case d of
         DataEnd i e \<Rightarrow> if e = side then f i (w_datas w ! i) else Done other
       | _ \<Rightarrow> Done other))"

fun data_flag :: "bool \<Rightarrow> string \<Rightarrow> read_flags \<Rightarrow> read_flags" where
  "data_flag rd n f =
     (if n = ''ALL_OR_NONE'' then f\<lparr>f_all_or_none := True\<rparr>
      else if n = ''QUERY'' \<and> rd then f\<lparr>f_query := True\<rparr>
      else if n = ''DISCARD'' \<and> rd then f\<lparr>f_discard := True\<rparr>
      else if n = ''PEEK'' \<and> rd then f\<lparr>f_peek := True\<rparr>
      else f)"

definition parse_data_flags :: "'j op_env \<Rightarrow> 'j \<Rightarrow> bool \<Rightarrow> read_flags" where
  "parse_data_flags env args rd =
     (case a_strs env args ''flags'' of
        None \<Rightarrow> read_flags_default
      | Some ns \<Rightarrow> foldl (\<lambda>f n. data_flag rd n f) read_flags_default ns)"

definition as_u32_arg :: "'j op_env \<Rightarrow> 'j \<Rightarrow> string \<Rightarrow> u32" where
  "as_u32_arg env args name = ucast (u64_or 0 (a_u64 env args name))"

text \<open>Without a handle the elements are not decoded.\<close>

definition op_write_data ::
  "'j op_env \<Rightarrow> 'j world \<Rightarrow> u64 \<Rightarrow> 'j \<Rightarrow> 'j expectation option \<Rightarrow> 'j world harness_run" where
  "op_write_data env w oid args expect =
     arg env args ''write_data'' ''handle'' (\<lambda>token.
     handle_opt w token expect (emit_data env w oid INVALID token (Some 0) (Some [])) (\<lambda>h.
     hex_arg env args ''elements_hex'' ''elements'' (\<lambda>elements.
     let n = of_nat (length elements) :: u32 in
     on_data w token expect Producer w (emit_data env w oid INVALID token (Some n) (Some [])) (\<lambda>i p.
     case dp_write p Producer elements n (f_all_or_none (parse_data_flags env args False)) of
       (Ok k, q, ns) \<Rightarrow> Done (emit_data env (notify (set_data w i q) ns) oid OKAY token (Some k) (Some (take (unat k) elements)))
     | (Err e, q, ns) \<Rightarrow> Done (emit_data env (notify (set_data w i q) ns) oid (error_name e) token (Some n) (Some []))
     | (Panic, q, ns) \<Rightarrow> Crashes))))"

definition op_begin_write_data ::
  "'j op_env \<Rightarrow> 'j world \<Rightarrow> u64 \<Rightarrow> 'j \<Rightarrow> 'j expectation option \<Rightarrow> 'j world harness_run" where
  "op_begin_write_data env w oid args expect =
     arg env args ''begin_write_data'' ''handle'' (\<lambda>token.
     let hint = as_u32_arg env args ''hint'';
         refuse = emit_data env w oid INVALID token (Some hint) (Some []) in
     on_data w token expect Producer refuse refuse (\<lambda>i p.
     case dp_begin_write p Producer of
       (Ok s, q, ns) \<Rightarrow>
         hex_arg env args ''content_hex'' ''content'' (\<lambda>content.
         let part = take (min (length content) (span_len s)) content in
         Done (emit_data env (notify (set_data w i (dp_store q part)) ns) oid OKAY token (Some (of_nat (span_len s))) (Some part)))
     | (Err e, q, ns) \<Rightarrow> Done (emit_data env (notify (set_data w i q) ns) oid (error_name e) token (Some hint) (Some []))
     | (Panic, q, ns) \<Rightarrow> Crashes))"

definition op_end_write_data ::
  "'j op_env \<Rightarrow> 'j world \<Rightarrow> u64 \<Rightarrow> 'j \<Rightarrow> 'j expectation option \<Rightarrow> 'j world harness_run" where
  "op_end_write_data env w oid args expect =
     arg env args ''end_write_data'' ''handle'' (\<lambda>token.
     let refuse = emit_data env w oid INVALID token None None in
     on_data w token expect Producer refuse refuse (\<lambda>i p.
     case dp_end_write p Producer (as_u32_arg env args ''num_bytes_produced'') of
       (Panic, q, ns) \<Rightarrow> Crashes
     | (r, q, ns) \<Rightarrow> Done (emit_data env (notify (set_data w i q) ns) oid (result_name r) token None None)))"

definition op_read_data ::
  "'j op_env \<Rightarrow> 'j world \<Rightarrow> u64 \<Rightarrow> 'j \<Rightarrow> 'j expectation option \<Rightarrow> 'j world harness_run" where
  "op_read_data env w oid args expect =
     arg env args ''read_data'' ''handle'' (\<lambda>token.
     let n = as_u32_arg env args ''num_bytes'';
         flags = parse_data_flags env args True;
         refuse = emit_data env w oid INVALID token (Some n) (Some []) in
     on_data w token expect Consumer refuse refuse (\<lambda>i p.
     let buffer = (if f_query flags \<or> f_discard flags then None else Some (replicate (unat n) 0)) in
     case dp_read p Consumer buffer n flags of
       (Ok (out, _), q, ns) \<Rightarrow>
         Done (emit_data env (notify (set_data w i q) ns) oid OKAY token (Some (out_num_bytes out)) (Some (out_data out)))
     | (Err e, q, ns) \<Rightarrow> Done (emit_data env (notify (set_data w i q) ns) oid (error_name e) token (Some n) (Some []))
     | (Panic, q, ns) \<Rightarrow> Crashes))"

definition op_begin_read_data ::
  "'j op_env \<Rightarrow> 'j world \<Rightarrow> u64 \<Rightarrow> 'j \<Rightarrow> 'j expectation option \<Rightarrow> 'j world harness_run" where
  "op_begin_read_data env w oid args expect =
     arg env args ''begin_read_data'' ''handle'' (\<lambda>token.
     let refuse = emit_data env w oid INVALID token (Some 0) (Some []) in
     on_data w token expect Consumer refuse refuse (\<lambda>i p.
     case dp_begin_read p Consumer of
       (Ok s, q, ns) \<Rightarrow>
         (case span_as_slice (shm q) s of
            None \<Rightarrow> Crashes
          | Some payload \<Rightarrow>
              Done (emit_data env (notify (set_data w i q) ns) oid OKAY token (Some (of_nat (span_len s))) (Some payload)))
     | (Err e, q, ns) \<Rightarrow> Done (emit_data env (notify (set_data w i q) ns) oid (error_name e) token (Some 0) (Some []))
     | (Panic, q, ns) \<Rightarrow> Crashes))"

definition op_end_read_data ::
  "'j op_env \<Rightarrow> 'j world \<Rightarrow> u64 \<Rightarrow> 'j \<Rightarrow> 'j expectation option \<Rightarrow> 'j world harness_run" where
  "op_end_read_data env w oid args expect =
     arg env args ''end_read_data'' ''handle'' (\<lambda>token.
     let refuse = emit_data env w oid INVALID token None None in
     on_data w token expect Consumer refuse refuse (\<lambda>i p.
     case dp_end_read p Consumer (as_u32_arg env args ''num_bytes_consumed'') of
       (Panic, q, ns) \<Rightarrow> Crashes
     | (r, q, ns) \<Rightarrow> Done (emit_data env (notify (set_data w i q) ns) oid (result_name r) token None None)))"
section \<open>Operations on shared buffers\<close>

definition op_shared_buffer_create ::
  "'j op_env \<Rightarrow> 'j world \<Rightarrow> u64 \<Rightarrow> 'j \<Rightarrow> 'j expectation option \<Rightarrow> 'j world harness_run" where
  "op_shared_buffer_create env w oid args expect =
     (let n = u64_or 0 (a_u64 env args ''num_bytes'') in
      case buffer_create (os_region env (w_seq w)) n of
        Ok b \<Rightarrow>
          add_ref (w\<lparr>w_buffers := w_buffers w @ [b],
                     w_pages := (w_pages w)(region (buf_shm b) := replicate (unat n) 0)\<rparr>) (BufferRef (length (w_buffers w))) (\<lambda>h w1.
          (case produced expect of
             t # _ \<Rightarrow> Done (emit_event (insert_token t h w1) oid EvResult OKAY None (\<lambda>e. e))
           | [] \<Rightarrow> Done (drop_handles [h] (emit_event w1 oid EvResult OKAY None (\<lambda>e. e)))))
      | Err e \<Rightarrow> Done (emit_event w oid EvResult (error_name e) None (\<lambda>e. e))
      | Panic \<Rightarrow> Crashes)"

definition on_buffer ::
  "'j world \<Rightarrow> string \<Rightarrow> 'j expectation option \<Rightarrow> 'j world \<Rightarrow>
   (nat \<Rightarrow> shared_buffer \<Rightarrow> 'j world harness_run) \<Rightarrow> 'j world harness_run" where
  "on_buffer w token expect refuse f =
     handle_opt w token expect refuse (\<lambda>h.
     resolve w h (\<lambda>d. case d of BufferRef i \<Rightarrow> f i (w_buffers w ! i) | _ \<Rightarrow> Done refuse))"

definition op_duplicate_buffer_handle ::
  "'j op_env \<Rightarrow> 'j world \<Rightarrow> u64 \<Rightarrow> 'j \<Rightarrow> 'j expectation option \<Rightarrow> 'j world harness_run" where
  "op_duplicate_buffer_handle env w oid args expect =
     arg env args ''duplicate_buffer_handle'' ''handle'' (\<lambda>token.
     let read_only = (case a_bool env args ''read_only'' of None \<Rightarrow> False | Some b \<Rightarrow> b) in
     on_buffer w token expect (emit_event w oid EvResult INVALID (Some token) (\<lambda>e. e)) (\<lambda>i b.
     case buffer_duplicate b read_only (os_dup env (w_seq w)) of
       (Ok b', b1) \<Rightarrow>
         add_ref (w\<lparr>w_buffers := (w_buffers w)[i := b1] @ [b']\<rparr>) (BufferRef (length (w_buffers w))) (\<lambda>h w1.
         (case produced expect of
            t # _ \<Rightarrow> Done (emit_event (insert_token t h w1) oid EvResult OKAY (Some token) (\<lambda>e. e))
          | [] \<Rightarrow> Done (drop_handles [h] (emit_event w1 oid EvResult OKAY (Some token) (\<lambda>e. e)))))
     | (Err e, b1) \<Rightarrow>
         Done (emit_event (w\<lparr>w_buffers := (w_buffers w)[i := b1]\<rparr>) oid EvResult (error_name e) (Some token) (\<lambda>e. e))
     | (Panic, b1) \<Rightarrow> Crashes))"

definition op_map_buffer ::
  "'j op_env \<Rightarrow> 'j world \<Rightarrow> u64 \<Rightarrow> 'j \<Rightarrow> 'j expectation option \<Rightarrow> 'j world harness_run" where
  "op_map_buffer env w oid args expect =
     arg env args ''map_buffer'' ''handle'' (\<lambda>token.
     on_buffer w token expect (emit_buffer env w oid INVALID (Some token) None None) (\<lambda>i b.
     case buffer_map b (u64_or 0 (a_u64 env args ''offset'')) (u64_or 0 (a_u64 env args ''num_bytes'')) (os_mmap env (w_seq w)) of
       Ok m \<Rightarrow>
         let map_token = (case produced expect of [] \<Rightarrow> ''m0'' | t # _ \<Rightarrow> t) in
         and_then
           (case a_str env args ''content_hex'' of
              None \<Rightarrow> Done (w_pages w)
            | Some _ \<Rightarrow>
                hex_arg env args ''content_hex'' ''content'' (\<lambda>content.
                if unat (map_len m) < length content then Stopped ''map_buffer: content overruns mapping''
                else if content = [] then Done (w_pages w)
                else (case write_at (w_pages w) m 0 content of
                        (True, st) \<Rightarrow> Done st
                      | (False, st) \<Rightarrow> Stopped ''map_buffer: write failed''))) (\<lambda>pages.
         case table_add (w_map_table w) m of
           (addr, tab) \<Rightarrow>
             Done (emit_buffer env (w\<lparr>w_pages := pages, w_map_table := tab,
                                      w_mappings := AList.update map_token addr (w_mappings w)\<rparr>) oid OKAY (Some token) None None))
     | Err e \<Rightarrow> Done (emit_buffer env w oid (error_name e) (Some token) None None)
     | Panic \<Rightarrow> Crashes))"

definition op_unmap_buffer :: "'j op_env \<Rightarrow> 'j world \<Rightarrow> u64 \<Rightarrow> 'j \<Rightarrow> 'j world harness_run" where
  "op_unmap_buffer env w oid args =
     arg env args ''unmap_buffer'' ''token'' (\<lambda>token.
     case map_of (w_mappings w) token of
       None \<Rightarrow> Done (emit_buffer env w oid INVALID (Some token) None None)
     | Some addr \<Rightarrow>
         (case table_remove (w_map_table w) addr of
            (r, tab) \<Rightarrow>
              Done (emit_buffer env (w\<lparr>w_map_table := tab, w_mappings := AList.delete token (w_mappings w)\<rparr>) oid
                      (result_name r) (Some token) None None)))"

definition op_read_mapping :: "'j op_env \<Rightarrow> 'j world \<Rightarrow> u64 \<Rightarrow> 'j \<Rightarrow> 'j world harness_run" where
  "op_read_mapping env w oid args =
     arg env args ''read_mapping'' ''token'' (\<lambda>token.
     let refuse = emit_buffer env w oid INVALID (Some token) None None in
     case Option.bind (map_of (w_mappings w) token) (table_get (w_map_table w)) of
       None \<Rightarrow> Done refuse
     | Some m \<Rightarrow>
         (case read_at (w_pages w) m (unat (u64_or 0 (a_u64 env args ''offset''))) (unat (u64_or 0 (a_u64 env args ''len''))) of
            Some data \<Rightarrow> Done (emit_buffer env w oid OKAY (Some token) None (Some data))
          | None \<Rightarrow> Done refuse))"

definition op_get_buffer_info ::
  "'j op_env \<Rightarrow> 'j world \<Rightarrow> u64 \<Rightarrow> 'j \<Rightarrow> 'j expectation option \<Rightarrow> 'j world harness_run" where
  "op_get_buffer_info env w oid args expect =
     arg env args ''get_buffer_info'' ''handle'' (\<lambda>token.
     on_buffer w token expect (emit_buffer env w oid INVALID (Some token) (Some 0) None) (\<lambda>i b.
     Done (emit_buffer env w oid OKAY (Some token) (Some (buf_size b)) None)))"

section \<open>Running a case file\<close>

definition exec_op ::
  "'j op_env \<Rightarrow> 'j world \<Rightarrow> u64 \<Rightarrow> string \<Rightarrow> 'j \<Rightarrow> 'j expectation option \<Rightarrow> 'j world harness_run" where
  "exec_op env w oid name args expect =
     (if name = ''message_pipe_create'' then op_message_pipe_create w oid expect
      else if name = ''write_message'' then op_write_message env w oid args expect
      else if name = ''read_message'' then op_read_message env w oid args expect
      else if name = ''query_signals_state'' then op_query_signals_state env w oid args expect
      else if name = ''close'' then op_close env w oid args
      else if name = ''wait'' then op_wait env w oid args expect
      else if name = ''platform_handle_wrap'' then op_platform_handle_wrap env w oid args expect
      else if name = ''platform_handle_unwrap'' then op_platform_handle_unwrap env w oid args
      else if name = ''trap_create'' then op_trap_create env w oid args
      else if name = ''trap_add_trigger'' then op_trap_add_trigger env w oid args
      else if name = ''trap_arm'' then op_trap_arm env w oid args
      else if name = ''trap_remove_trigger'' then op_trap_remove_trigger env w oid args
      else if name = ''trap_close'' then op_trap_close env w oid args
      else if name = ''drain_trap_events'' then op_drain_trap_events env w oid args
      else if name = ''data_pipe_create'' then op_data_pipe_create env w oid args expect
      else if name = ''write_data'' then op_write_data env w oid args expect
      else if name = ''begin_write_data'' then op_begin_write_data env w oid args expect
      else if name = ''end_write_data'' then op_end_write_data env w oid args expect
      else if name = ''read_data'' then op_read_data env w oid args expect
      else if name = ''begin_read_data'' then op_begin_read_data env w oid args expect
      else if name = ''end_read_data'' then op_end_read_data env w oid args expect
      else if name = ''shared_buffer_create'' then op_shared_buffer_create env w oid args expect
      else if name = ''duplicate_buffer_handle'' then op_duplicate_buffer_handle env w oid args expect
      else if name = ''map_buffer'' then op_map_buffer env w oid args expect
      else if name = ''unmap_buffer'' then op_unmap_buffer env w oid args
      else if name = ''read_mapping'' then op_read_mapping env w oid args
      else if name = ''get_buffer_info'' then op_get_buffer_info env w oid args expect
      else Stopped (''unsupported operation in candidate harness: '' @ name))"

fun in_op :: "'j operation \<Rightarrow> 'a harness_run \<Rightarrow> 'a harness_run" where
  "in_op x (Stopped e) = Stopped (''op '' @ decimal (unat (op_id x)) @ '' ('' @ op_name x @ ''): '' @ e)"
| "in_op x r = r"

fun exec_ops :: "'j op_env \<Rightarrow> 'j world \<Rightarrow> 'j operation list \<Rightarrow> 'j world harness_run" where
  "exec_ops env w [] = Done w"
| "exec_ops env w (x # xs) =
     and_then (in_op x (exec_op env w (op_id x) (op_name x) (op_args x) (op_expect x))) (\<lambda>w1. exec_ops env w1 xs)"

definition execute :: "'j op_env \<Rightarrow> 'j world \<Rightarrow> 'j casefile \<Rightarrow> 'j world harness_run" where
  "execute env w cf =
     and_then (exec_ops env (emit_event w 0 EvLifecycle OKAY None (\<lambda>e. e)) (cf_operations cf)) (\<lambda>w1.
     Done (emit_event w1 0 EvLifecycle OKAY None (\<lambda>e. e)))"

text \<open>\<open>run\<close> and \<open>main\<close>: what is written to the events file, and the exit code; \<open>Hangs\<close> and \<open>Crashes\<close> have neither.\<close>

definition from_outcome :: "(string \<Rightarrow> string) \<Rightarrow> (string, 'a) outcome \<Rightarrow> 'a harness_run" where
  "from_outcome f r = (case r of Ok a \<Rightarrow> Done a | Err e \<Rightarrow> Stopped (f e) | Panic \<Rightarrow> Crashes)"

definition harness_baseline ::
  "'j op_env \<Rightarrow> 'j cli_env \<Rightarrow> ('j harness_event \<Rightarrow> (string, string) outcome) \<Rightarrow> (string \<Rightarrow> (string, unit) outcome) \<Rightarrow>
   string \<Rightarrow> string harness_run" where
  "harness_baseline env files to_line write path =
     and_then (from_outcome (\<lambda>e. ''read: '' @ e) (ce_read files path)) (\<lambda>text.
     and_then (from_outcome (\<lambda>e. ''parse: '' @ e) (ce_parse files text)) (\<lambda>cf.
     and_then (execute env world_new cf) (\<lambda>w.
     and_then (from_outcome (\<lambda>e. ''serialize events: '' @ e) (serialize_events to_line (w_events w))) (\<lambda>out.
     and_then (from_outcome (\<lambda>e. ''write events: '' @ e) (write out)) (\<lambda>_. Done out)))))"

definition harness_main ::
  "'j op_env \<Rightarrow> 'j cli_env \<Rightarrow> ('j harness_event \<Rightarrow> (string, string) outcome) \<Rightarrow> (string \<Rightarrow> string \<Rightarrow> (string, unit) outcome) \<Rightarrow>
   string list \<Rightarrow> (exit_code \<times> string) harness_run" where
  "harness_main env files to_line write args =
     (if 2 \<le> length args \<and> args ! 1 = ''--self-check'' then Done (ExitSuccess, ''candidate-harness self-check ok'')
      else if length args \<noteq> 4 \<or> args ! 1 \<noteq> ''baseline''
      then Done (ExitFailure, ''usage: candidate-harness baseline <casefile.json> <events.jsonl>'')
      else (case harness_baseline env files to_line (write (args ! 3)) (args ! 2) of
              Done _ \<Rightarrow> Done (ExitSuccess, [])
            | Stopped e \<Rightarrow> Done (ExitFailure, ''candidate harness error: '' @ e)
            | Hangs \<Rightarrow> Hangs
            | Crashes \<Rightarrow> Crashes))"

end
