(* ===== verification/HarnessSound.thy ===== *)
theory HarnessSound
  imports Harness SystemApi "HOL-Library.Multiset"
begin

text \<open>
  Runs of the candidate harness keep the objects of the core in order: every handle stands for a live entry of the table,
  every entry has exactly one owner, references never dangle, and nothing panics.
\<close>

section \<open>Owners of slots\<close>

text \<open>A handle stands for an entry of the table.\<close>

definition stands_for :: "'d table \<Rightarrow> handle \<Rightarrow> 'd \<Rightarrow> bool" where
  "stands_for t h d \<longleftrightarrow> unat (h_slot h) < length (entries t) \<and>
     (\<exists>g. entries t ! unat (h_slot h) = Some \<lparr>e_dispatcher = d, e_generation = g\<rparr> \<and> h_value h = encode (h_slot h) g)"

text \<open>Every live entry belongs to exactly one of the handles, and every handle has one; the generations are small.\<close>

definition owned :: "nat \<Rightarrow> 'd table \<Rightarrow> handle list \<Rightarrow> bool" where
  "owned k t hs \<longleftrightarrow> table_inv t \<and> (\<forall>g \<in> set (generations t). unat g \<le> k) \<and> distinct (map h_slot hs) \<and>
     (\<forall>h \<in> set hs. \<exists>d. stands_for t h d) \<and>
     (\<forall>s. unat s < length (entries t) \<and> entries t ! unat s \<noteq> None \<longrightarrow> s \<in> h_slot ` set hs)"

lemma owned_new: "owned k table_new []"
  by (simp add: owned_def table_new_inv) (simp add: table_new_def)

lemma owned_perm: "mset hs = mset hs' \<Longrightarrow> owned k t hs = owned k t hs'"
  by (simp add: owned_def mset_eq_setD [of hs hs'] mset_eq_imp_distinct_iff [of "map h_slot hs" "map h_slot hs'"])

lemma owned_mono: "owned k t hs \<Longrightarrow> k \<le> k' \<Longrightarrow> owned k' t hs"
  by (auto simp: owned_def)

lemma stands_for_facts:
  assumes "owned k t hs" "k < 4096" "stands_for t h d"
  shows "get t (h_value h) = Ok d" "entry_at t (h_slot h) \<noteq> None"
    "\<exists>e. entry_at t (h_slot h) = Some e \<and> e_dispatcher e = d \<and> e_generation e = drop_bit GENERATION_SHIFT (h_value h)"
proof -
  obtain g where g: "unat (h_slot h) < length (entries t)" "entries t ! unat (h_slot h) = Some \<lparr>e_dispatcher = d, e_generation = g\<rparr>"
    "h_value h = encode (h_slot h) g" using assms(3) by (auto simp: stands_for_def)
  have inv: "table_inv t" using assms(1) by (simp add: owned_def)
  have gs: "g = generations t ! unat (h_slot h)" "unat (h_slot h) < length (generations t)" "g \<noteq> 0"
    using table_invD(1) [OF inv] table_invD(5,6) [OF inv, of "unat (h_slot h)"] g by auto
  then have "unat g \<le> k" using assms(1) by (auto simp: owned_def)
  then have lt: "unat g < 4096" using assms(2) by simp
  have slot: "unat (h_slot h) < MAX_SLOTS" using table_invD(2) [OF inv] g(1) by simp
  show "get t (h_value h) = Ok d" using get_encoded [OF slot g(1,2) gs(3)] lt by (simp add: g(3))
  show "entry_at t (h_slot h) \<noteq> None" using g by (simp add: entry_at_def)
  have "take_bit 12 g = g" using lt by (simp add: take_bit_12_eq)
  then show "\<exists>e. entry_at t (h_slot h) = Some e \<and> e_dispatcher e = d \<and> e_generation e = drop_bit GENERATION_SHIFT (h_value h)"
    using g by (simp add: entry_at_def encode_generation)
qed

lemma owned_drop:
  assumes "owned k t (h # hs)" "k < 4096"
  obtains d t' where "stands_for t h d" "drop_handle t h = (t', Some d)" "owned k t' hs"
    "entries t' = (entries t)[unat (h_slot h) := None]"
proof -
  obtain d where d: "stands_for t h d" using assms(1) by (auto simp: owned_def)
  obtain e where e: "entry_at t (h_slot h) = Some e" "e_dispatcher e = d" "e_generation e = drop_bit GENERATION_SHIFT (h_value h)"
    using stands_for_facts(3) [OF assms d] by blast
  obtain t' where t': "t' = t\<lparr>entries := (entries t)[unat (h_slot h) := None], free := free t @ [h_slot h]\<rparr>" by simp
  have r: "drop_handle t h = (t', Some d)" using e by (simp add: drop_handle_def close_slot_def t')
  have "table_inv t'" using close_slot_inv [of t "h_slot h" "h_value h"] r assms(1) by (simp add: owned_def drop_handle_def)
  moreover have "distinct (map h_slot hs)" "h_slot h \<notin> h_slot ` set hs" using assms(1) by (auto simp: owned_def)
  moreover have "\<exists>d. stands_for t' x d" if "x \<in> set hs" for x
  proof -
    have "unat (h_slot h) \<noteq> unat (h_slot x)" using \<open>h_slot h \<notin> h_slot ` set hs\<close> that by (auto simp: word_unat_eq_iff)
    moreover have "\<exists>d. stands_for t x d" using assms(1) that by (auto simp: owned_def)
    ultimately show ?thesis by (auto simp: stands_for_def t')
  qed
  moreover have "s \<in> h_slot ` set hs" if "unat s < length (entries t')" "entries t' ! unat s \<noteq> None" for s
  proof -
    have "unat (h_slot h) < length (entries t)" using d by (simp add: stands_for_def)
    then have "unat s \<noteq> unat (h_slot h)" "entries t ! unat s \<noteq> None" "unat s < length (entries t)"
      using that by (auto simp: t' nth_list_update split: if_splits)
    then have "s \<in> h_slot ` set (h # hs)" "s \<noteq> h_slot h" using assms(1) unfolding owned_def by blast+
    then show ?thesis by simp
  qed
  ultimately have "owned k t' hs" using assms(1) by (auto simp: owned_def t')
  then show thesis using that d r t' by simp
qed

lemma next_generation_le: "unat (next_generation g) \<le> Suc (unat g)"
  by (auto simp: next_generation_def unat_plus_if')

lemma owned_add:
  assumes "owned k t hs" "add t d = (r, t')"
  shows "(r = Err ResourceExhausted \<and> t' = t) \<or>
    (\<exists>h. r = Ok h \<and> owned (Suc k) t' (h # hs) \<and> stands_for t' h d \<and>
       (\<forall>x d'. stands_for t x d' \<longrightarrow> stands_for t' x d') \<and>
       (\<forall>s < length (entries t'). entries t' ! s = Some \<lparr>e_dispatcher = d, e_generation = pick_generation t\<rparr> \<or>
          s < length (entries t) \<and> entries t' ! s = entries t ! s))"
proof (cases "free t = [] \<and> length (entries t) \<ge> MAX_SLOTS")
  case True
  then show ?thesis using assms add_eq [of t d] by (simp add: owned_def)
next
  case False
  have inv: "table_inv t" using assms(1) by (simp add: owned_def)
  let ?s = "pick_slot t" and ?g = "pick_generation t"
  let ?h = "\<lparr>h_value = encode ?s ?g, h_slot = ?s\<rparr>"
  have r: "r = Ok ?h" "t' = add_installed t d" using add_eq [OF inv, of d] assms(2) False by auto
  note f = pick_slot_facts(2-4) [OF inv False, of d, folded r(2)]
  have t'_inv: "table_inv t'" using add_installed_inv [OF inv False] by (simp add: r(2))
  have fresh: "\<not> (unat ?s < length (entries t) \<and> entries t ! unat ?s \<noteq> None)"
  proof (cases "free t = []")
    case True
    then show ?thesis using table_invD(2) [OF inv] False by (simp add: pick_slot_def unat_of_nat_slot)
  next
    case False
    then show ?thesis using last_free_slot [OF inv False] by (simp add: pick_slot_def)
  qed
  have old: "entries t' ! i = entries t ! i \<and> i < length (entries t)" if "i < length (entries t')" "i \<noteq> unat ?s" for i
    using that table_invD(2) [OF inv] False
    by (cases "free t = []") (auto simp: r(2) add_installed_def Let_def pick_slot_def nth_append unat_of_nat_slot split: if_splits)
  have len: "length (entries t) \<le> length (entries t')" by (simp add: r(2) add_installed_def Let_def)
  have keep: "stands_for t' x d'" if "stands_for t x d'" for x d'
  proof -
    have "unat (h_slot x) \<noteq> unat ?s" using that fresh by (auto simp: stands_for_def)
    then show ?thesis using that old [of "unat (h_slot x)"] len by (auto simp: stands_for_def)
  qed
  have gens: "unat g \<le> Suc k" if "g \<in> set (generations t')" for g
  proof -
    have le: "unat x \<le> k" if "x \<in> set (generations t)" for x using assms(1) that by (simp add: owned_def)
    have "unat ?g \<le> Suc k"
    proof (cases "free t = []")
      case True
      then show ?thesis using next_generation_le [of 0] by (simp add: pick_generation_def)
    next
      case False
      have "unat (last (free t)) < length (generations t)" using last_free_slot(1) [OF inv False] table_invD(1) [OF inv] by simp
      then have "unat (generations t ! unat (last (free t))) \<le> k" using le by simp
      then show ?thesis using False next_generation_le [of "generations t ! unat (last (free t))"] by (simp add: pick_generation_def)
    qed
    moreover have "set (generations t') \<subseteq> insert ?g (set (generations t))"
      by (auto simp: r(2) add_installed_def Let_def dest: set_update_subset_insert [THEN subsetD])
    ultimately show ?thesis using that le by fastforce
  qed
  have new: "stands_for t' ?h d" using f by (simp add: stands_for_def)
  have "h_slot x \<noteq> ?s" if "x \<in> set hs" for x
    using assms(1) that fresh by (auto simp: owned_def stands_for_def)
  then have "?s \<notin> h_slot ` set hs" by force
  then have dist: "distinct (map h_slot (?h # hs))" using assms(1) by (simp add: owned_def)
  have cover: "s \<in> h_slot ` set (?h # hs)" if "unat s < length (entries t')" "entries t' ! unat s \<noteq> None" for s
  proof (cases "s = ?s")
    case False
    then have "unat s \<noteq> unat ?s" by (simp add: word_unat_eq_iff)
    then show ?thesis using old [of "unat s"] that assms(1) by (auto simp: owned_def)
  qed simp
  have "owned (Suc k) t' (?h # hs)"
    unfolding owned_def
  proof (intro conjI ballI allI impI)
    show "\<exists>d. stands_for t' x d" if "x \<in> set (?h # hs)" for x
      using that new keep assms(1) unfolding owned_def by (cases "x = ?h") (simp, blast, fastforce)
    show "s \<in> h_slot ` set (?h # hs)" if "unat s < length (entries t') \<and> entries t' ! unat s \<noteq> None" for s
      using cover that by blast
  qed (use t'_inv gens dist in auto)
  moreover have "\<forall>s < length (entries t'). entries t' ! s = Some \<lparr>e_dispatcher = d, e_generation = ?g\<rparr> \<or>
      s < length (entries t) \<and> entries t' ! s = entries t ! s"
    using old f(2) by metis
  ultimately show ?thesis using r(1) new keep by (intro disjI2 exI [of _ ?h] conjI) simp_all
qed

section \<open>The invariant of the world\<close>

definition held :: "'j world \<Rightarrow> handle list" where
  "held w = map snd (w_tokens w) @ concat (map queued_handles (w_pipes w))"

fun exists_ref :: "'j world \<Rightarrow> dispatcher_ref \<Rightarrow> bool" where
  "exists_ref w (PipeEnd i s) \<longleftrightarrow> pipe_at w i \<noteq> None"
| "exists_ref w (DataEnd i e) \<longleftrightarrow> i < length (w_datas w)"
| "exists_ref w (BufferRef i) \<longleftrightarrow> i < length (w_buffers w)"
| "exists_ref w (PlatformRef i) \<longleftrightarrow> i < length (w_platforms w)"

text \<open>With a bound on the generations, and with handles in flight that nothing in the world holds.\<close>

definition world_sound :: "nat \<Rightarrow> handle list \<Rightarrow> 'j world \<Rightarrow> bool" where
  "world_sound k fl w \<longleftrightarrow> owned k (w_table w) (fl @ held w) \<and> (\<forall>d \<in> set (held_refs w). exists_ref w d) \<and>
     list_all dp_inv (w_datas w) \<and> length (w_sinks w) = length (w_traps w) \<and> distinct (map fst (w_tokens w)) \<and>
     distinct (map fst (w_trap_tokens w)) \<and> distinct (map snd (w_trap_tokens w)) \<and>
     (\<forall>n \<in> snd ` set (w_trap_tokens w). trap_at w n \<noteq> None) \<and> (\<forall>n \<in> snd ` set (w_sink_tokens w). n < length (w_sinks w))"

lemma world_soundD:
  assumes "world_sound k fl w"
  shows "owned k (w_table w) (fl @ held w)" "d \<in> set (held_refs w) \<Longrightarrow> exists_ref w d" "list_all dp_inv (w_datas w)"
    "length (w_sinks w) = length (w_traps w)" "distinct (map fst (w_tokens w))"
    "map_of (w_trap_tokens w) t = Some n \<Longrightarrow> trap_at w n \<noteq> None" "map_of (w_sink_tokens w) t = Some n \<Longrightarrow> n < length (w_sinks w)"
  using assms by (auto simp: world_sound_def dest: map_of_SomeD) (fastforce dest: map_of_SomeD)

lemma world_sound_mono: "world_sound k fl w \<Longrightarrow> k \<le> k' \<Longrightarrow> world_sound k' fl w"
  using owned_mono by (auto simp: world_sound_def)

text \<open>What leaves owners, references and tokens as they are: it changes watchers, rings, trap flags and sinks only.\<close>

definition trap_refs :: "dispatcher_ref trap option \<Rightarrow> dispatcher_ref list option" where
  "trap_refs t = map_option (\<lambda>tr. map t_dispatcher (triggers tr)) t"

definition quiet :: "'j world \<Rightarrow> 'j world \<Rightarrow> bool" where
  "quiet w w' \<longleftrightarrow>
     w' = w\<lparr>w_pipes := w_pipes w', w_datas := w_datas w', w_traps := w_traps w', w_sinks := w_sinks w', w_stuck := w_stuck w',
            w_pipe_watch := w_pipe_watch w', w_data_watch := w_data_watch w'\<rparr> \<and>
     map queued_handles (w_pipes w') = map queued_handles (w_pipes w) \<and>
     map (\<lambda>p. p = None) (w_pipes w') = map (\<lambda>p. p = None) (w_pipes w) \<and>
     length (w_datas w') = length (w_datas w) \<and> (list_all dp_inv (w_datas w) \<longrightarrow> list_all dp_inv (w_datas w')) \<and>
     map trap_refs (w_traps w') = map trap_refs (w_traps w) \<and> length (w_sinks w') = length (w_sinks w)"

lemma quiet_refl [simp]: "quiet w w"
  by (simp add: quiet_def)

lemma quiet_same:
  assumes "quiet w w'"
  shows "w_table w' = w_table w" "w_tokens w' = w_tokens w" "w_trap_tokens w' = w_trap_tokens w" "w_sink_tokens w' = w_sink_tokens w"
    "w_buffers w' = w_buffers w" "w_platforms w' = w_platforms w" "w_locals w' = w_locals w" "w_events w' = w_events w" "w_seq w' = w_seq w"
    "w_busy w' = w_busy w" "w_mappings w' = w_mappings w" "w_map_table w' = w_map_table w" "w_pages w' = w_pages w"
proof -
  have e: "w' = w\<lparr>w_pipes := w_pipes w', w_datas := w_datas w', w_traps := w_traps w', w_sinks := w_sinks w', w_stuck := w_stuck w',
            w_pipe_watch := w_pipe_watch w', w_data_watch := w_data_watch w'\<rparr>" using assms by (simp add: quiet_def)
  show "w_table w' = w_table w" "w_tokens w' = w_tokens w" "w_trap_tokens w' = w_trap_tokens w" "w_sink_tokens w' = w_sink_tokens w"
    "w_buffers w' = w_buffers w" "w_platforms w' = w_platforms w" "w_locals w' = w_locals w" "w_events w' = w_events w" "w_seq w' = w_seq w"
    "w_busy w' = w_busy w" "w_mappings w' = w_mappings w" "w_map_table w' = w_map_table w" "w_pages w' = w_pages w"
    by (subst e, simp)+
qed

lemma map_nth_eq: "map f xs = map g ys \<Longrightarrow> i < length xs \<Longrightarrow> i < length ys \<and> f (xs ! i) = g (ys ! i)"
  by (metis length_map nth_map)

lemma quiet_trans: "quiet a b \<Longrightarrow> quiet b c \<Longrightarrow> quiet a c"
proof -
  assume q: "quiet a b" "quiet b c"
  note s = quiet_same [OF q(1)] quiet_same [OF q(2)]
  have "c = a\<lparr>w_pipes := w_pipes c, w_datas := w_datas c, w_traps := w_traps c, w_sinks := w_sinks c, w_stuck := w_stuck c,
            w_pipe_watch := w_pipe_watch c, w_data_watch := w_data_watch c\<rparr>"
    by (rule world.equality) (simp_all add: s)
  then show ?thesis using q by (simp add: quiet_def)
qed

lemma quiet_pipe_at: "quiet w w' \<Longrightarrow> pipe_at w' i = None \<longleftrightarrow> pipe_at w i = None"
  unfolding quiet_def pipe_at_def by (metis (mono_tags, lifting) length_map nth_map)

lemma quiet_trap_at: "quiet w w' \<Longrightarrow> trap_at w' n = None \<longleftrightarrow> trap_at w n = None"
proof -
  assume "quiet w w'"
  then have "map trap_refs (w_traps w') = map trap_refs (w_traps w)" by (simp add: quiet_def)
  then have "length (w_traps w') = length (w_traps w)" "n < length (w_traps w) \<Longrightarrow> trap_refs (w_traps w' ! n) = trap_refs (w_traps w ! n)"
    by (metis length_map, metis length_map nth_map)
  then show ?thesis by (auto simp: trap_at_def trap_refs_def)
qed

lemma held_refs_traps:
  "held_refs w = concat (map (\<lambda>e. case e of None \<Rightarrow> [] | Some x \<Rightarrow> [e_dispatcher x]) (entries (w_table w))) @
     concat (map (\<lambda>t. case t of None \<Rightarrow> [] | Some ds \<Rightarrow> ds) (map trap_refs (w_traps w))) @ w_locals w"
proof -
  have "(\<lambda>t. case t of None \<Rightarrow> [] | Some tr \<Rightarrow> map t_dispatcher (triggers tr)) =
    (\<lambda>t. case trap_refs t of None \<Rightarrow> [] | Some ds \<Rightarrow> ds)" by (auto simp: trap_refs_def split: option.splits)
  then show ?thesis by (simp add: held_refs_def comp_def)
qed

lemma quiet_held:
  assumes "quiet w w'"
  shows "held w' = held w" "held_refs w' = held_refs w" "exists_ref w' d = exists_ref w d"
proof -
  show "held w' = held w" using assms quiet_same(2) [OF assms] by (simp add: held_def quiet_def)
  show "held_refs w' = held_refs w"
    using assms quiet_same(1,7) [OF assms] by (simp only: held_refs_traps quiet_def)
  show "exists_ref w' d = exists_ref w d"
    using quiet_pipe_at [OF assms] quiet_same(5,6) [OF assms] assms by (cases d) (simp_all add: quiet_def)
qed

lemma quiet_sound: "quiet w w' \<Longrightarrow> world_sound k fl w \<Longrightarrow> world_sound k fl w'"
proof -
  assume q: "quiet w w'" and s: "world_sound k fl w"
  have "length (w_traps w') = length (w_traps w)" using q unfolding quiet_def by (metis length_map)
  moreover have "length (w_sinks w') = length (w_sinks w)" "list_all dp_inv (w_datas w) \<longrightarrow> list_all dp_inv (w_datas w')"
    using q by (simp_all add: quiet_def)
  ultimately show ?thesis
    using s unfolding world_sound_def quiet_held(1,2) [OF q] quiet_held(3) [OF q] quiet_same(1-4) [OF q] quiet_trap_at [OF q] by auto
qed

lemma quiet_set_data: "(i < length (w_datas w) \<Longrightarrow> dp_inv (w_datas w ! i) \<Longrightarrow> dp_inv q) \<Longrightarrow> quiet w (set_data w i q)"
proof -
  assume a: "i < length (w_datas w) \<Longrightarrow> dp_inv (w_datas w ! i) \<Longrightarrow> dp_inv q"
  have "dp_inv ((w_datas w)[i := q] ! n)" if "n < length (w_datas w)" "\<forall>n < length (w_datas w). dp_inv (w_datas w ! n)" for n
    using a that by (cases "n = i") auto
  then show ?thesis by (simp add: quiet_def set_data_def list_all_length)
qed

lemma quiet_set_pipe:
  assumes "pipe_at w i = Some p" "queued_handles (Some q) = queued_handles (Some p)"
  shows "quiet w (set_pipe w i q)"
proof -
  have i: "i < length (w_pipes w)" "w_pipes w ! i = Some p" using assms(1) by (auto simp: pipe_at_def split: if_splits)
  then have "(map queued_handles (w_pipes w))[i := queued_handles (Some q)] = map queued_handles (w_pipes w)"
    using assms(2) by (simp add: list_update_same_conv)
  moreover have "(map (\<lambda>p. p = None) (w_pipes w))[i := False] = map (\<lambda>p. p = None) (w_pipes w)"
    using i by (simp add: list_update_same_conv)
  ultimately show ?thesis by (simp add: quiet_def set_pipe_def map_update)
qed

lemma quiet_set_trap:
  assumes "trap_at w n = Some tr" "map t_dispatcher (triggers tr') = map t_dispatcher (triggers tr)"
  shows "quiet w (set_trap w n tr')"
proof -
  have i: "n < length (w_traps w)" "w_traps w ! n = Some tr" using assms(1) by (auto simp: trap_at_def split: if_splits)
  then have "(map trap_refs (w_traps w))[n := trap_refs (Some tr')] = map trap_refs (w_traps w)"
    using assms(2) by (simp add: list_update_same_conv trap_refs_def)
  then show ?thesis by (simp add: quiet_def set_trap_def map_update)
qed

lemma quiet_push_sink: "quiet w (push_sink w n es)"
  by (simp add: quiet_def push_sink_def)

lemma quiet_fields:
  "quiet w (w\<lparr>w_stuck := b\<rparr>)" "quiet w (w\<lparr>w_pipe_watch := x\<rparr>)" "quiet w (w\<lparr>w_data_watch := x\<rparr>)"
  by (simp_all add: quiet_def)
section \<open>Calls that are quiet\<close>

lemma queued_pipe_calls [simp]:
  "queued_handles (Some (fst (pipe_close p s))) = queued_handles (Some p)"
  "queued_handles (Some (snd (register_watch p s sig cb))) = queued_handles (Some p)"
  "queued_handles (Some (cancel_registered_watch p s k)) = queued_handles (Some p)"
  "queued_handles (Some (p\<lparr>next_watch_id := x\<rparr>)) = queued_handles (Some p)"
  by (cases s; simp add: queued_handles_def pipe_close_def register_watch_def cancel_registered_watch_def Let_def cancel_all_def)+

lemma dpair_query_dp_inv: "dp_inv p \<Longrightarrow> dp_inv (snd (dpair_query p e))"
  using dp_query_signals_inv(1) [of p e] by (auto simp: dpair_query_def split: prod.splits outcome.splits)

lemma quiet_query: "query_ref w d = (st, w') \<Longrightarrow> quiet w w'"
  by (auto simp: query_ref_def split: dispatcher_ref.splits option.splits prod.splits intro!: quiet_set_data)
    (metis dpair_query_dp_inv snd_conv)

lemma quiet_start: "start_ref w d s cb = (k, w') \<Longrightarrow> quiet w w'"
proof (cases d)
  case (PipeEnd i e)
  assume a: "start_ref w d s cb = (k, w')"
  show ?thesis
  proof (cases "pipe_at w i")
    case None
    then show ?thesis using a PipeEnd by (simp add: start_ref_def)
  next
    case (Some p)
    obtain k' q where q: "register_watch (p\<lparr>next_watch_id := w_pipe_watch w\<rparr>) e s cb = (k', q)" by fastforce
    have "queued_handles (Some q) = queued_handles (Some p)"
      using queued_pipe_calls(2) [of "p\<lparr>next_watch_id := w_pipe_watch w\<rparr>" e s cb] unfolding q by simp
    then show ?thesis
      using a PipeEnd Some q quiet_trans [OF quiet_set_pipe [OF Some, of q] quiet_fields(2)] by (auto simp: start_ref_def)
  qed
next
  case (DataEnd i e)
  assume a: "start_ref w d s cb = (k, w')"
  obtain k' q where q: "dp_register_watch ((w_datas w ! i)\<lparr>dp_next_watch_id := w_data_watch w\<rparr>) e s cb = (k', q)" by fastforce
  have "dp_inv q" if "dp_inv (w_datas w ! i)"
  proof -
    have "dp_inv ((w_datas w ! i)\<lparr>dp_next_watch_id := w_data_watch w\<rparr>)"
      using that by (simp add: dp_inv_def dp_geometry_def)
    then show ?thesis using dp_watch_inv(1) q by (metis snd_conv)
  qed
  then have "quiet w (set_data w i q)" by (intro quiet_set_data)
  then show ?thesis using a DataEnd q quiet_trans [OF \<open>quiet w (set_data w i q)\<close> quiet_fields(3)] by (auto simp: start_ref_def)
qed (auto simp: start_ref_def)

lemma quiet_cancel: "quiet w (cancel_ref w d k)"
  by (auto simp: cancel_ref_def dp_watch_inv split: dispatcher_ref.splits option.splits intro!: quiet_set_data quiet_set_pipe)

lemma take_trigger_refs: "take_trigger c xs = Some (x, ys) \<Longrightarrow> map t_dispatcher ys = map t_dispatcher xs"
  by (induction xs arbitrary: ys) (auto split: if_splits)

lemma on_watch_refs: "on_watch tr c st kind = (tr', es) \<Longrightarrow> map t_dispatcher (triggers tr') = map t_dispatcher (triggers tr)"
  by (auto simp: on_watch_def take_trigger_refs split: watch_kind.splits option.splits if_splits prod.splits)

lemma quiet_notify: "quiet w (notify w ns)"
proof (induction w ns rule: notify.induct)
  case (2 w n ns)
  obtain t c where tc: "n_callback n = (t, c)" by fastforce
  show ?case
  proof (cases "trap_at w t")
    case None
    then show ?thesis using 2(1) [OF refl tc [symmetric] None] tc by simp
  next
    case (Some tr)
    obtain tr' es where r: "on_watch tr c (n_state n) (n_kind n) = (tr', es)" by fastforce
    show ?thesis
    proof (cases "w_busy w = Some t")
      case True
      then show ?thesis using 2(2) [OF refl tc [symmetric] Some True] tc Some quiet_trans [OF quiet_fields(1)] by simp
    next
      case False
      have "quiet w (push_sink (set_trap w t tr') t es)"
        by (rule quiet_trans [OF quiet_set_trap [OF Some on_watch_refs [OF r]] quiet_push_sink])
      then show ?thesis using 2(3) [OF refl tc [symmetric] Some False r [symmetric]] tc Some False r
        by (simp add: quiet_trans)
    qed
  qed
qed simp

lemma quiet_closed: "quiet w (closed_ref w d)"
proof (cases d)
  case (PipeEnd i s)
  show ?thesis
  proof (cases "pipe_at w i")
    case (Some p)
    obtain q ns where q: "pipe_close p s = (q, ns)" by fastforce
    have "queued_handles (Some q) = queued_handles (Some p)" using queued_pipe_calls(1) [of p s] q by simp
    then show ?thesis using PipeEnd Some q quiet_trans [OF quiet_set_pipe [OF Some] quiet_notify] by (simp add: closed_ref_def)
  qed (simp add: closed_ref_def PipeEnd)
next
  case (DataEnd i e)
  obtain r q ns where q: "dp_close (w_datas w ! i) e = (r, q, ns)" by (metis prod_cases3)
  have "quiet w (set_data w i q)" by (rule quiet_set_data) (use q dp_close_inv(1) in \<open>metis fst_conv snd_conv\<close>)
  then show ?thesis using DataEnd q quiet_trans [OF \<open>quiet w (set_data w i q)\<close> quiet_notify] by (simp add: closed_ref_def)
qed (simp_all add: closed_ref_def)

section \<open>Owners change hands\<close>

lemma mset_concat_update:
  "i < length xs \<Longrightarrow> mset (concat (map f (xs[i := y]))) + mset (f (xs ! i)) = mset (concat (map f xs)) + mset (f y)"
proof (induction xs arbitrary: i)
  case (Cons x xs)
  then show ?case by (cases i) (auto simp: ac_simps)
qed simp

text \<open>Handles move between the messages of a pipe and those in flight.\<close>

lemma world_sound_set_pipe:
  assumes "world_sound k (ys @ fl) w" "pipe_at w i = Some p"
    and "mset xs + mset (queued_handles (Some q)) = mset ys + mset (queued_handles (Some p))"
  shows "world_sound k (xs @ fl) (set_pipe w i q)"
proof -
  have i: "i < length (w_pipes w)" "w_pipes w ! i = Some p" using assms(2) by (auto simp: pipe_at_def split: if_splits)
  have "mset (held (set_pipe w i q)) + mset (queued_handles (Some p)) = mset (held w) + mset (queued_handles (Some q))"
    using mset_concat_update [OF i(1), of queued_handles "Some q"] i(2) by (simp add: held_def set_pipe_def)
  then have "mset (xs @ fl @ held (set_pipe w i q)) + mset (queued_handles (Some p)) = mset (ys @ fl @ held w) + mset (queued_handles (Some p))"
    using assms(3) by (simp add: ac_simps)
  then have "mset (xs @ fl @ held (set_pipe w i q)) = mset (ys @ fl @ held w)" by simp
  then have "owned k (w_table w) ((xs @ fl) @ held (set_pipe w i q))"
    using owned_perm [of "xs @ fl @ held (set_pipe w i q)" "ys @ fl @ held w" k "w_table w"] world_soundD(1) [OF assms(1)]
    by (simp only: append_assoc)
  moreover have "pipe_at (set_pipe w i q) j = None \<longleftrightarrow> pipe_at w j = None" for j
    using i by (auto simp: pipe_at_def set_pipe_def nth_list_update)
  then have "exists_ref (set_pipe w i q) d = exists_ref w d" for d by (cases d) (simp_all add: set_pipe_def)
  moreover have "held_refs (set_pipe w i q) = held_refs w" by (simp add: held_refs_def set_pipe_def)
  moreover have "trap_at (set_pipe w i q) n = trap_at w n" for n by (simp add: trap_at_def set_pipe_def)
  ultimately show ?thesis using assms(1) by (auto simp: world_sound_def set_pipe_def)
qed

end
